(* ===== verification/Fire_Prelude.thy ===== *)
theory Fire_Prelude
  imports Main "HOL-Library.Word" "HOL-Library.Char_ord" "HOL-Library.List_Lexorder"
begin

text \<open>
  Shared vocabulary of the development.

  \<^item> \<open>outcome\<close>: how a C++ call ends. \<open>Ok\<close> is a normal return, \<open>Throw\<close> an exception that
    unwinds to the nearest handler, \<open>Exit\<close> a failed design-by-contract check
    (\<^verbatim>\<open>src/src/util/dbc.hpp\<close>, whose \<^verbatim>\<open>raise\<close> ends in \<^verbatim>\<open>exit(1)\<close>), \<open>Undef\<close> undefined
    behaviour (an access outside a container), and \<open>Diverge\<close> marks a fuel-bounded model that ran out of fuel; every use of fuel comes with a lemma that
    \<open>Diverge\<close> is not reached.
  \<^item> association lists with distinct keys stand for \<^verbatim>\<open>std::map\<close> and \<^verbatim>\<open>std::unordered_map\<close>;
    the order of the list is the order in which the container is iterated.
  \<^item> \<open>bytes\<close> and \<open>string\<close> are both lists of C++ \<^verbatim>\<open>char\<close>.
\<close>

section \<open>Outcomes of a call\<close>

datatype exn = RuntimeError | InvalidArgument | BadLexicalCast | LengthError | OutOfRange | LibraryError

datatype 'a outcome = Ok 'a | Throw exn | Exit | Undef | Diverge

type_synonym bytes = "char list"
type_synonym u64 = "64 word"
type_synonym u32 = "32 word"
type_synonym u16 = "16 word"

fun bindO :: "'a outcome \<Rightarrow> ('a \<Rightarrow> 'b outcome) \<Rightarrow> 'b outcome" where
  "bindO (Ok a) f = f a"
| "bindO (Throw e) f = Throw e"
| "bindO Exit f = Exit"
| "bindO Undef f = Undef"
| "bindO Diverge f = Diverge"

text \<open>
  The contract macros: \<^verbatim>\<open>REQUIRE\<close>, \<^verbatim>\<open>CHECK\<close>, \<^verbatim>\<open>ENSURE\<close> and \<^verbatim>\<open>INVARIANT\<close> all expand to
  \<^verbatim>\<open>if(!(exp)) raise1(...)\<close>, and \<^verbatim>\<open>raise\<close> calls \<^verbatim>\<open>exit(1)\<close>.
\<close>

definition contract :: "bool \<Rightarrow> 'a outcome \<Rightarrow> 'a outcome" where
  "contract b k = (if b then k else Exit)"

named_theorems outcome_simps "equations that evaluate outcome-valued definitions"

lemma bindO_Ok_iff [simp]: "bindO m f = Ok b \<longleftrightarrow> (\<exists>a. m = Ok a \<and> f a = Ok b)"
  by (cases m) auto

lemma bindO_Diverge_iff [simp]:
  "bindO m f = Diverge \<longleftrightarrow> m = Diverge \<or> (\<exists>a. m = Ok a \<and> f a = Diverge)"
  by (cases m) auto

lemma bindO_Exit_iff [simp]:
  "bindO m f = Exit \<longleftrightarrow> m = Exit \<or> (\<exists>a. m = Ok a \<and> f a = Exit)"
  by (cases m) auto

lemma bindO_Undef_iff [simp]:
  "bindO m f = Undef \<longleftrightarrow> m = Undef \<or> (\<exists>a. m = Ok a \<and> f a = Undef)"
  by (cases m) auto

lemma bindO_assoc [outcome_simps]: "bindO (bindO m f) g = bindO m (\<lambda>x. bindO (f x) g)"
  by (cases m) auto

text \<open>A loop over a list that carries a state.\<close>

fun foldO :: "('x \<Rightarrow> 's \<Rightarrow> 's outcome) \<Rightarrow> 'x list \<Rightarrow> 's \<Rightarrow> 's outcome" where
  "foldO f [] s = Ok s"
| "foldO f (x # xs) s = bindO (f x s) (foldO f xs)"

lemma foldO_append: "foldO f (xs @ ys) c = bindO (foldO f xs c) (foldO f ys)"
  by (induction xs arbitrary: c) (auto simp: outcome_simps intro!: arg_cong2 [where f = bindO])

lemma contract_True [simp]: "b \<Longrightarrow> contract b k = k"
  by (simp add: contract_def)

lemma contract_Ok_iff [simp]: "contract b k = Ok a \<longleftrightarrow> b \<and> k = Ok a"
  by (simp add: contract_def)

lemma contract_Diverge_iff [simp]: "contract b k = Diverge \<longleftrightarrow> b \<and> k = Diverge"
  by (simp add: contract_def)

lemma contract_Undef_iff [simp]: "contract b k = Undef \<longleftrightarrow> b \<and> k = Undef"
  by (simp add: contract_def)

lemma contract_Exit_iff [simp]: "contract b k = Exit \<longleftrightarrow> \<not> b \<or> k = Exit"
  by (simp add: contract_def)

section \<open>Association lists as C++ maps\<close>

text \<open>
  \<open>m[k] = v\<close>: overwrite the entry of \<open>k\<close> where it is, or add a new one.  \<open>m.erase(k)\<close> removes
  the entry.  Lookup is \<^const>\<open>map_of\<close>.
\<close>

fun alist_put :: "'k \<Rightarrow> 'v \<Rightarrow> ('k \<times> 'v) list \<Rightarrow> ('k \<times> 'v) list" where
  "alist_put k v [] = [(k, v)]"
| "alist_put k v (p # ps) = (if fst p = k then (k, v) # ps else p # alist_put k v ps)"

definition alist_del :: "'k \<Rightarrow> ('k \<times> 'v) list \<Rightarrow> ('k \<times> 'v) list" where
  "alist_del k ps = filter (\<lambda>p. fst p \<noteq> k) ps"

definition alist_has :: "'k \<Rightarrow> ('k \<times> 'v) list \<Rightarrow> bool" where
  "alist_has k ps \<longleftrightarrow> map_of ps k \<noteq> None"

abbreviation keys :: "('k \<times> 'v) list \<Rightarrow> 'k list" where
  "keys ps \<equiv> map fst ps"

lemma map_of_alist_put [simp]: "map_of (alist_put k v ps) = (map_of ps)(k \<mapsto> v)"
  by (induction ps) (auto simp: fun_eq_iff)

lemma map_of_alist_del [simp]: "map_of (alist_del k ps) = (map_of ps)(k := None)"
  by (induction ps) (auto simp: alist_del_def fun_eq_iff)

lemma set_keys_alist_put [simp]: "fst ` set (alist_put k v ps) = insert k (fst ` set ps)"
  by (induction ps) auto

lemma distinct_keys_alist_put [simp]: "distinct (keys (alist_put k v ps)) \<longleftrightarrow> distinct (keys ps)"
  by (induction ps) (auto simp: image_iff)

lemma distinct_keys_alist_del [simp]: "distinct (keys ps) \<Longrightarrow> distinct (keys (alist_del k ps))"
  by (induction ps) (auto simp: alist_del_def)

lemma set_keys_alist_del [simp]: "fst ` set (alist_del k ps) = fst ` set ps - {k}"
  by (induction ps) (auto simp: alist_del_def)

lemma alist_has_iff [simp]: "alist_has k ps \<longleftrightarrow> k \<in> fst ` set ps"
  by (simp add: alist_has_def map_of_eq_None_iff)

lemma alist_put_new: "k \<notin> fst ` set ps \<Longrightarrow> alist_put k v ps = ps @ [(k, v)]"
  by (induction ps) auto

lemma length_alist_put: "k \<notin> fst ` set ps \<Longrightarrow> length (alist_put k v ps) = Suc (length ps)"
  by (simp add: alist_put_new)

section \<open>Ordered association lists: \<^verbatim>\<open>std::map\<close>\<close>

text \<open>
  A \<^verbatim>\<open>std::map\<close> is iterated in key order; two maps with the same entries are the same list.  Strings
  are ordered lexicographically by unsigned character, as \<^verbatim>\<open>std::string\<close> is.
\<close>

fun omap_put :: "'k::linorder \<Rightarrow> 'v \<Rightarrow> ('k \<times> 'v) list \<Rightarrow> ('k \<times> 'v) list" where
  "omap_put k v [] = [(k, v)]"
| "omap_put k v (p # ps) =
     (if k < fst p then (k, v) # p # ps
      else if k = fst p then (k, v) # ps
      else p # omap_put k v ps)"

abbreviation omap_ok :: "('k::linorder \<times> 'v) list \<Rightarrow> bool" where
  "omap_ok ps \<equiv> sorted_wrt (<) (keys ps)"

lemma map_of_None_lt: "\<forall>p \<in> set ps. k < fst p \<Longrightarrow> map_of ps (k :: 'k::order) = None"
  by (auto simp: map_of_eq_None_iff)

lemma set_keys_omap_put [simp]: "fst ` set (omap_put k v ps) = insert k (fst ` set ps)"
  by (induction ps) auto

lemma map_of_omap_put [simp]: "omap_ok ps \<Longrightarrow> map_of (omap_put k v ps) = (map_of ps)(k \<mapsto> v)"
  by (induction ps) (auto simp: fun_eq_iff)

lemma omap_ok_put [simp]: "omap_ok ps \<Longrightarrow> omap_ok (omap_put k v ps)"
proof (induction ps)
  case (Cons p ps)
  have mem: "fst q \<in> insert k (fst ` set ps)" if "q \<in> set (omap_put k v ps)" for q
    using that set_keys_omap_put [of k v ps] by blast
  have "fst p < fst q" if "\<not> k < fst p" "k \<noteq> fst p" "q \<in> set (omap_put k v ps)" for q
    using mem [OF that(3)] that Cons.prems by auto
  with Cons show ?case by auto
qed simp

lemma omap_distinct: "omap_ok ps \<Longrightarrow> distinct (keys ps)"
  by (induction ps) auto

lemma omap_eqI:
  "omap_ok ps \<Longrightarrow> omap_ok qs \<Longrightarrow> map_of ps = map_of qs \<Longrightarrow> ps = qs"
proof (induction ps arbitrary: qs)
  case Nil
  then have "map_of qs = Map.empty" by simp
  then show ?case by (simp add: map_of_eq_empty_iff)
next
  case (Cons p ps)
  obtain k v where p: "p = (k, v)" by (cases p)
  from Cons.prems(3) p have "map_of qs k = Some v" by (metis map_of_Cons_code(2))
  then obtain k' v' qs' where qs: "qs = (k', v') # qs'" by (cases qs) auto
  have "map_of (p # ps) k' = Some v'" unfolding Cons.prems(3) using qs by simp
  then have "k \<le> k'" using Cons.prems(1) p by (auto dest!: map_of_SomeD split: if_splits)
  moreover have "k' \<le> k" using \<open>map_of qs k = Some v\<close> Cons.prems(2) qs
    by (auto dest!: map_of_SomeD split: if_splits)
  ultimately have k: "k' = k" by simp
  with \<open>map_of qs k = Some v\<close> qs have v: "v' = v" by simp
  have "map_of ps k = None" "map_of qs' k = None"
    using Cons.prems(1,2) p qs k by (auto simp: map_of_eq_None_iff)
  then have "map_of ps = map_of qs'"
    using Cons.prems(3) p qs k v by (auto simp: fun_eq_iff split: if_splits) metis
  with Cons.IH [of qs'] Cons.prems p qs k v show ?case by auto
qed

section \<open>Counting the set bits of a bit vector\<close>

text \<open>\<^verbatim>\<open>boost::dynamic_bitset::count\<close> over a \<open>bool list\<close>.\<close>

definition bit_count :: "bool list \<Rightarrow> nat" where
  "bit_count bs = length (filter id bs)"

lemma bit_count_simps [simp]:
  "bit_count [] = 0"
  "bit_count (b # bs) = (if b then Suc (bit_count bs) else bit_count bs)"
  by (simp_all add: bit_count_def)

lemma bit_count_replicate_False [simp]: "bit_count (replicate n False) = 0"
  by (induction n) auto

lemma bit_count_le [simp]: "bit_count bs \<le> length bs"
  by (simp add: bit_count_def)

lemma bit_count_set:
  "i < length bs \<Longrightarrow> \<not> bs ! i \<Longrightarrow> bit_count (bs[i := True]) = Suc (bit_count bs)"
proof (induction bs arbitrary: i)
  case Nil
  then show ?case by simp
next
  case (Cons b bs)
  then show ?case by (cases i) auto
qed

lemma bit_count_full: "bit_count bs = length bs \<longleftrightarrow> (\<forall>i < length bs. bs ! i)"
proof (induction bs)
  case Nil
  then show ?case by simp
next
  case (Cons b bs)
  have le: "bit_count bs \<le> length bs" by simp
  show ?case
  proof (cases b)
    case True
    with Cons show ?thesis by (auto simp: nth_Cons split: nat.splits)
  next
    case False
    with le have "bit_count (b # bs) \<noteq> length (b # bs)" by (simp del: bit_count_le)
    moreover have "\<not> (\<forall>i < length (b # bs). (b # bs) ! i)" using False by force
    ultimately show ?thesis by blast
  qed
qed

lemma bit_count_mono:
  "list_all2 (\<longrightarrow>) as bs \<Longrightarrow> bit_count as \<le> bit_count bs"
  by (induction as bs rule: list_all2_induct) auto

end
