(* ===== verification/Lexical.thy ===== *)
theory Lexical
  imports Fire_Prelude
begin

text \<open>
  Text conversions.  The sources print and parse numbers with \<^verbatim>\<open>boost::lexical_cast\<close>, a library
  outside the repository: it is a parameter of the model, the record \<open>cxx_lib\<close>, and the locale
  \<open>lexical_cast\<close> names what the code relies on (the documented decimal notation and the round trip
  of a value through its text).  \<open>max_alloc\<close> is the largest block \<^verbatim>\<open>std::vector::resize\<close> and
  \<^verbatim>\<open>std::string::resize\<close> can obtain; above it they throw.  \<open>decimal_lib\<close> instantiates the
  parameter with plain decimal notation.
\<close>

record cxx_lib =
  show_int :: "u64 \<Rightarrow> string"
  read_int :: "string \<Rightarrow> u64 option"
  show_size :: "u64 \<Rightarrow> string"
  read_size :: "string \<Rightarrow> u64 option"
  show_double :: "u64 \<Rightarrow> string"
  read_double :: "string \<Rightarrow> u64 option"
  max_alloc :: nat

definition is_digit :: "char \<Rightarrow> bool" where
  "is_digit c \<longleftrightarrow> 48 \<le> (of_char c :: nat) \<and> (of_char c :: nat) \<le> 57"

locale lexical_cast =
  fixes L :: cxx_lib
  assumes read_show_int: "read_int L (show_int L i) = Some i"
    and show_int_chars: "CHR '';'' \<notin> set (show_int L i)"
    and read_show_size: "read_size L (show_size L n) = Some n"
    and show_size_digits: "show_size L n \<noteq> []" "\<forall>c \<in> set (show_size L n). is_digit c"
    and show_double_chars: "CHR '';'' \<notin> set (show_double L d)"
    and max_alloc_bound: "max_alloc L < 2 ^ 64"

section \<open>Decimal notation\<close>

text \<open>\<^verbatim>\<open>operator<<\<close> of the standard streams prints unsigned integers this way.\<close>

definition digit :: "nat \<Rightarrow> char" where
  "digit d = char_of (48 + d)"

fun show_nat :: "nat \<Rightarrow> string" where
  "show_nat n = (if n < 10 then [digit n] else show_nat (n div 10) @ [digit (n mod 10)])"

declare show_nat.simps [simp del]

definition digit_val :: "char \<Rightarrow> nat" where
  "digit_val c = of_char c - 48"

definition read_nat :: "string \<Rightarrow> nat option" where
  "read_nat s = (if s = [] \<or> \<not> list_all is_digit s then None
                 else Some (foldl (\<lambda>a c. 10 * a + digit_val c) 0 s))"

lemma digit_0 [simp]: "digit 0 = CHR ''0''"
  by code_simp

lemma is_digit_digit [simp]: "d < 10 \<Longrightarrow> is_digit (digit d)"
  by (simp add: is_digit_def digit_def)

lemma digit_val_digit [simp]: "d < 10 \<Longrightarrow> digit_val (digit d) = d"
  by (simp add: digit_val_def digit_def)

lemma show_nat_digits: "show_nat n \<noteq> [] \<and> list_all is_digit (show_nat n)"
  by (induction n rule: show_nat.induct) (subst (1 2) show_nat.simps, auto)

lemma show_nat_0 [simp]: "show_nat 0 = ''0''"
  by (simp add: show_nat.simps)

lemma foldl_show_nat: "foldl (\<lambda>a c. 10 * a + digit_val c) 0 (show_nat n) = n"
  by (induction n rule: show_nat.induct) (subst show_nat.simps, auto)

lemma read_show_nat [simp]: "read_nat (show_nat n) = Some n"
  using show_nat_digits [of n] by (simp add: read_nat_def foldl_show_nat)

lemma show_nat_not_digit: "\<not> is_digit c \<Longrightarrow> c \<notin> set (show_nat n)"
  using show_nat_digits [of n] by (auto simp: list_all_iff)

lemma not_is_digit_punct [simp]:
  "\<not> is_digit CHR '';''" "\<not> is_digit CHR '':''" "\<not> is_digit CHR ''-''" "\<not> is_digit CHR ''d''"
  "\<not> is_digit CHR ''a''" "\<not> is_digit CHR ''n''" "\<not> is_digit CHR ''i''" "\<not> is_digit CHR ''s''"
  "\<not> is_digit CHR ''r''" "\<not> is_digit CHR ''T''" "\<not> is_digit CHR ''F''" "\<not> is_digit CHR '',''"
  by (simp_all add: is_digit_def)

lemma show_nat_inject [simp]: "show_nat m = show_nat n \<longleftrightarrow> m = n"
  by (metis option.inject read_show_nat)

definition show_sint :: "u64 \<Rightarrow> string" where
  "show_sint w = (if sint w < 0 then CHR ''-'' # show_nat (nat (- sint w))
                  else show_nat (nat (sint w)))"

definition read_sint :: "string \<Rightarrow> u64 option" where
  "read_sint s =
     (case s of
        [] \<Rightarrow> None
      | c # cs \<Rightarrow>
          (if c = CHR ''-''
           then (case read_nat cs of None \<Rightarrow> None
                 | Some n \<Rightarrow> (if n \<le> 2 ^ 63 then Some (word_of_int (- int n)) else None))
           else (case read_nat s of None \<Rightarrow> None
                 | Some n \<Rightarrow> (if n < 2 ^ 63 then Some (word_of_int (int n)) else None))))"

definition read_unsigned :: "string \<Rightarrow> u64 option" where
  "read_unsigned s =
     (case read_nat s of None \<Rightarrow> None
      | Some n \<Rightarrow> (if n < 2 ^ 64 then Some (of_nat n) else None))"

lemma read_show_unsigned [simp]: "read_unsigned (show_nat (unat w)) = Some (w :: u64)"
  using unsigned_less [of w, where ?'a = nat] by (simp add: read_unsigned_def)

lemma read_show_sint: "read_sint (show_sint w) = Some w"
proof (cases "sint w < 0")
  case True
  have "- (2 ^ 63) \<le> sint w" using sint_ge [of w] by simp
  with True have "nat (- sint w) \<le> 2 ^ 63" by simp
  with True show ?thesis by (simp add: read_sint_def show_sint_def)
next
  case False
  have "sint w < 2 ^ 63" using sint_lt [of w] by simp
  with False have lt: "nat (sint w) < 2 ^ 63" by (simp add: nat_less_iff)
  obtain c cs where c: "show_nat (nat (sint w)) = c # cs"
    using show_nat_digits [of "nat (sint w)"] by (cases "show_nat (nat (sint w))") auto
  have "c \<noteq> CHR ''-''"
    using show_nat_not_digit [of "CHR ''-''" "nat (sint w)"] c by auto
  moreover have "read_nat (c # cs) = Some (nat (sint w))"
    using read_show_nat [of "nat (sint w)"] c by simp
  ultimately show ?thesis using False lt c by (simp add: read_sint_def show_sint_def)
qed

definition decimal_lib :: cxx_lib where
  "decimal_lib =
     \<lparr>show_int = show_sint, read_int = read_sint,
      show_size = (\<lambda>w. show_nat (unat w)), read_size = read_unsigned,
      show_double = (\<lambda>w. show_nat (unat w)), read_double = read_unsigned,
      max_alloc = 2 ^ 32\<rparr>"

lemma show_size_decimal_0 [simp]: "show_size decimal_lib 0 = ''0''"
  by (simp add: decimal_lib_def)

interpretation dec: lexical_cast decimal_lib
proof unfold_locales
  fix i n d :: u64
  show "read_int decimal_lib (show_int decimal_lib i) = Some i"
    by (simp add: decimal_lib_def read_show_sint)
  show "CHR '';'' \<notin> set (show_int decimal_lib i)"
    by (simp add: decimal_lib_def show_sint_def show_nat_not_digit)
  show "read_size decimal_lib (show_size decimal_lib n) = Some n"
    by (simp add: decimal_lib_def)
  show "show_size decimal_lib n \<noteq> []" "\<forall>c \<in> set (show_size decimal_lib n). is_digit c"
    using show_nat_digits [of "unat n"] by (simp_all add: decimal_lib_def list_all_iff)
  show "CHR '';'' \<notin> set (show_double decimal_lib d)"
    by (simp add: decimal_lib_def show_nat_not_digit)
  show "max_alloc decimal_lib < 2 ^ 64"
    by (simp add: decimal_lib_def)
qed

end
