(* ===== verification/Mencode.thy ===== *)
theory Mencode
  imports Lexical
begin

text \<open>
  The serialisation format of \<^verbatim>\<open>src/src/util/mencode.hpp\<close> and \<^verbatim>\<open>src/src/util/mencode.cpp\<close>: the
  dynamically typed \<^verbatim>\<open>value\<close>, \<^verbatim>\<open>dict\<close> and \<^verbatim>\<open>array\<close>, their encoder, and the recursive-descent decoder
  over a \<^verbatim>\<open>std::istream\<close>.  The stream is the bytes that are left and its \<^verbatim>\<open>good()\<close> flag; the
  decoder's scratch \<^verbatim>\<open>work_space\<close> is threaded as the code threads it, because its stale contents
  are visible in \<^verbatim>\<open>decode_key\<close>.  The decoder recurses through nested containers, so the model
  carries fuel; \<open>decode_total\<close> shows that the fuel chosen from the input length is enough.
\<close>

section \<open>Values\<close>

text \<open>\<^verbatim>\<open>boost::any\<close> holding one of the alternatives; a double is its IEEE bit pattern.\<close>

datatype mvalue =
    VEmpty
  | VBool bool
  | VInt u64
  | VSize u64
  | VDouble u64
  | VBytes bytes
  | VDict "(string \<times> mvalue) list"
  | VArray "mvalue list"

type_synonym dict = "(string \<times> mvalue) list"
type_synonym array = "mvalue list"

definition to_bytes :: "string \<Rightarrow> bytes" where
  "to_bytes s = s"

definition to_str :: "bytes \<Rightarrow> string" where
  "to_str b = b"

definition value_of_int :: "u32 \<Rightarrow> mvalue" where
  "value_of_int v = VInt (scast v)"

definition value_of_string :: "string \<Rightarrow> mvalue" where
  "value_of_string v = VBytes (to_bytes v)"

fun as_bool :: "mvalue \<Rightarrow> bool outcome" where
  "as_bool (VBool b) = Ok b"
| "as_bool _ = Throw RuntimeError"

fun as_int :: "mvalue \<Rightarrow> u64 outcome" where
  "as_int (VInt i) = Ok i"
| "as_int _ = Throw RuntimeError"

definition as_int32 :: "mvalue \<Rightarrow> u32 outcome" where
  "as_int32 v = bindO (as_int v) (\<lambda>i. Ok (ucast i))"

fun as_size :: "mvalue \<Rightarrow> u64 outcome" where
  "as_size (VSize n) = Ok n"
| "as_size _ = Throw RuntimeError"

fun as_double :: "mvalue \<Rightarrow> u64 outcome" where
  "as_double (VDouble d) = Ok d"
| "as_double _ = Throw RuntimeError"

fun as_string :: "mvalue \<Rightarrow> string outcome" where
  "as_string (VBytes b) = Ok (to_str b)"
| "as_string _ = Throw RuntimeError"

fun as_bytes :: "mvalue \<Rightarrow> bytes outcome" where
  "as_bytes (VBytes b) = Ok b"
| "as_bytes _ = Throw RuntimeError"

fun as_dict :: "mvalue \<Rightarrow> dict outcome" where
  "as_dict (VDict d) = Ok d"
| "as_dict _ = Throw RuntimeError"

fun as_array :: "mvalue \<Rightarrow> array outcome" where
  "as_array (VArray a) = Ok a"
| "as_array _ = Throw RuntimeError"

fun is_bytes :: "mvalue \<Rightarrow> bool" where
  "is_bytes (VBytes _) = True"
| "is_bytes _ = False"

fun is_dict :: "mvalue \<Rightarrow> bool" where
  "is_dict (VDict _) = True"
| "is_dict _ = False"

fun is_array :: "mvalue \<Rightarrow> bool" where
  "is_array (VArray _) = True"
| "is_array _ = False"

section \<open>Dictionaries and arrays\<close>

definition dict_put :: "string \<Rightarrow> mvalue \<Rightarrow> dict \<Rightarrow> dict" where
  "dict_put k v d = alist_put k v d"

definition dict_init :: "(string \<times> mvalue) list \<Rightarrow> dict outcome" where
  "dict_init s =
     (let m = fold (\<lambda>(k, v) m. dict_put k v m) s []
      in contract (length m \<le> length s) (Ok m))"

text \<open>The mutable \<^verbatim>\<open>operator[]\<close> adds an empty value for a missing key.\<close>

definition dict_ref :: "string \<Rightarrow> dict \<Rightarrow> mvalue \<times> dict" where
  "dict_ref k d = (case map_of d k of Some v \<Rightarrow> (v, d) | None \<Rightarrow> (VEmpty, dict_put k VEmpty d))"

definition dict_get :: "dict \<Rightarrow> string \<Rightarrow> mvalue outcome" where
  "dict_get d k = (case map_of d k of Some v \<Rightarrow> Ok v | None \<Rightarrow> Throw RuntimeError)"

definition dict_has :: "dict \<Rightarrow> string \<Rightarrow> bool" where
  "dict_has d k = alist_has k d"

definition dict_remove :: "string \<Rightarrow> dict \<Rightarrow> bool \<times> dict" where
  "dict_remove k d = (dict_has d k, alist_del k d)"

definition array_add :: "mvalue \<Rightarrow> array \<Rightarrow> array" where
  "array_add v a = a @ [v]"

definition array_resize :: "nat \<Rightarrow> array \<Rightarrow> array" where
  "array_resize n a = take n a @ replicate (n - length a) VEmpty"

section \<open>Encoder\<close>

definition enc :: "char \<Rightarrow> char \<Rightarrow> string \<Rightarrow> bytes" where
  "enc s e v = s # v @ [e]"

definition encode_bool :: "bool \<Rightarrow> bytes" where
  "encode_bool v = [if v then CHR ''T'' else CHR ''F'']"

definition encode_b :: "cxx_lib \<Rightarrow> bytes \<Rightarrow> bytes" where
  "encode_b L v = show_size L (of_nat (length v)) @ CHR '':'' # v"

fun encode_value :: "cxx_lib \<Rightarrow> mvalue \<Rightarrow> bytes" where
  "encode_value L VEmpty = ''n''"
| "encode_value L (VBool v) = encode_bool v"
| "encode_value L (VInt v) = enc CHR ''i'' CHR '';'' (show_int L v)"
| "encode_value L (VSize v) = enc CHR ''s'' CHR '';'' (show_size L v)"
| "encode_value L (VDouble v) = enc CHR ''r'' CHR '';'' (show_double L v)"
| "encode_value L (VBytes v) = encode_b L v"
| "encode_value L (VDict v) =
     CHR ''d'' # concat (map (\<lambda>p. encode_b L (fst p) @ encode_value L (snd p)) v) @ '';''"
| "encode_value L (VArray v) = CHR ''a'' # concat (map (encode_value L) v) @ '';''"

definition encode_dict :: "cxx_lib \<Rightarrow> dict \<Rightarrow> bytes" where
  "encode_dict L d = encode_value L (VDict d)"

definition encode_array :: "cxx_lib \<Rightarrow> array \<Rightarrow> bytes" where
  "encode_array L a = encode_value L (VArray a)"

section \<open>The input stream\<close>

record istream =
  is_rest :: bytes
  is_good :: bool

definition stream_of :: "bytes \<Rightarrow> istream" where
  "stream_of b = \<lparr>is_rest = b, is_good = True\<rparr>"

text \<open>\<^verbatim>\<open>get\<close> and \<^verbatim>\<open>peek\<close> give \<open>None\<close> for \<^verbatim>\<open>EOF\<close> and drop \<^verbatim>\<open>good()\<close> when nothing is left.\<close>

definition is_get :: "istream \<Rightarrow> char option \<times> istream" where
  "is_get s =
     (if is_good s then
        (case is_rest s of
           [] \<Rightarrow> (None, s\<lparr>is_good := False\<rparr>)
         | c # cs \<Rightarrow> (Some c, s\<lparr>is_rest := cs\<rparr>))
      else (None, s))"

definition is_peek :: "istream \<Rightarrow> char option \<times> istream" where
  "is_peek s =
     (if is_good s then
        (case is_rest s of
           [] \<Rightarrow> (None, s\<lparr>is_good := False\<rparr>)
         | c # _ \<Rightarrow> (Some c, s))
      else (None, s))"

text \<open>\<^verbatim>\<open>read(p, n)\<close> into a zero-filled buffer of \<open>n\<close> bytes; a short read drops \<^verbatim>\<open>good()\<close>.\<close>

definition is_read :: "nat \<Rightarrow> istream \<Rightarrow> bytes \<times> istream" where
  "is_read n s =
     (if \<not> is_good s then (replicate n (CHR 0x00), s)
      else if n \<le> length (is_rest s) then (take n (is_rest s), s\<lparr>is_rest := drop n (is_rest s)\<rparr>)
      else (is_rest s @ replicate (n - length (is_rest s)) (CHR 0x00),
            \<lparr>is_rest = [], is_good = False\<rparr>))"

section \<open>Decoder\<close>

record work_space =
  ws_s :: string
  ws_b :: bytes

definition ws_new :: work_space where
  "ws_new = \<lparr>ws_s = [], ws_b = []\<rparr>"

definition check_stream :: "istream \<Rightarrow> 'a outcome \<Rightarrow> 'a outcome" where
  "check_stream s k = (if is_good s then k else Throw RuntimeError)"

fun scan_until :: "char \<Rightarrow> string \<Rightarrow> bytes \<Rightarrow> (string \<times> bytes) option" where
  "scan_until e acc [] = None"
| "scan_until e acc (c # cs) = (if c = e then Some (acc, cs) else scan_until e (acc @ [c]) cs)"

definition get_until :: "char \<Rightarrow> istream \<Rightarrow> work_space \<Rightarrow> (istream \<times> work_space) outcome" where
  "get_until e s w =
     (if \<not> is_good s then Throw RuntimeError
      else (case scan_until e [] (is_rest s) of
              None \<Rightarrow> Throw RuntimeError
            | Some (str, rest) \<Rightarrow> Ok (s\<lparr>is_rest := rest\<rparr>, w\<lparr>ws_s := str\<rparr>)))"

definition cast :: "(string \<Rightarrow> 'a option) \<Rightarrow> string \<Rightarrow> 'a outcome" where
  "cast rd s = (case rd s of None \<Rightarrow> Throw BadLexicalCast | Some a \<Rightarrow> Ok a)"

definition dec :: "(string \<Rightarrow> u64 option) \<Rightarrow> char \<Rightarrow> char \<Rightarrow> istream \<Rightarrow> work_space
    \<Rightarrow> (u64 \<times> istream \<times> work_space) outcome" where
  "dec rd b e s w =
     (let (c, s1) = is_get s in
      if \<not> is_good s1 then Ok (0, s1, w)
      else if c \<noteq> Some b then Throw RuntimeError
      else bindO (get_until e s1 w) (\<lambda>(s2, w2).
           bindO (cast rd (ws_s w2)) (\<lambda>v. Ok (v, s2, w2))))"

definition decode_bool :: "istream \<Rightarrow> (bool \<times> istream) outcome" where
  "decode_bool s =
     (let (c, s1) = is_get s in
      if \<not> is_good s1 then Ok (False, s1)
      else if c = Some CHR ''T'' then Ok (True, s1)
      else if c = Some CHR ''F'' then Ok (False, s1)
      else Throw RuntimeError)"

definition decode_empty :: "istream \<Rightarrow> istream outcome" where
  "decode_empty s =
     (let (c, s1) = is_get s in
      if \<not> is_good s1 then Ok s1
      else if c \<noteq> Some CHR ''n'' then Throw RuntimeError
      else Ok s1)"

fun digit_char :: "char option \<Rightarrow> bool" where
  "digit_char None = False"
| "digit_char (Some c) = is_digit c"

definition decode_bytes :: "cxx_lib \<Rightarrow> istream \<Rightarrow> work_space \<Rightarrow> (istream \<times> work_space) outcome" where
  "decode_bytes L s w0 =
     (let w = w0\<lparr>ws_b := []\<rparr>; (c, s1) = is_peek s in
      if \<not> is_good s1 then Ok (s1, w)
      else if \<not> digit_char c then Throw RuntimeError
      else bindO (get_until CHR '':'' s1 w) (\<lambda>(s2, w2).
           bindO (cast (read_size L) (ws_s w2)) (\<lambda>n.
             let size = unat n in
             if size = 0 then Ok (s2, w2)
             else if size > max_alloc L then Throw LengthError
             else (let (b, s3) = is_read size s2 in Ok (s3, w2\<lparr>ws_b := b\<rparr>)))))"

text \<open>A key of size 0 returns before \<^verbatim>\<open>w.s\<close> is cleared, so the digits of its length stay in it.\<close>

definition decode_key :: "cxx_lib \<Rightarrow> istream \<Rightarrow> work_space \<Rightarrow> (istream \<times> work_space) outcome" where
  "decode_key L s w =
     (let (c, s1) = is_peek s in
      if \<not> is_good s1 then Ok (s1, w)
      else if \<not> digit_char c then Throw RuntimeError
      else bindO (get_until CHR '':'' s1 w) (\<lambda>(s2, w2).
           bindO (cast (read_size L) (ws_s w2)) (\<lambda>n.
             let size = unat n in
             if size = 0 then Ok (s2, w2)
             else if size > max_alloc L then Throw LengthError
             else (let (b, s3) = is_read size s2 in Ok (s3, w2\<lparr>ws_s := b\<rparr>)))))"

text \<open>The end of a container: \<^verbatim>\<open>c = i.get(); check(i); CHECK_EQUAL(c, ';')\<close>.\<close>

definition close_container :: "'a \<Rightarrow> istream \<Rightarrow> work_space \<Rightarrow> ('a \<times> istream \<times> work_space) outcome" where
  "close_container a s w =
     (let (c, s1) = is_get s in
      check_stream s1 (contract (c = Some CHR '';'') (Ok (a, s1, w))))"

text \<open>
  The container decoders, over the decoder \<open>dv\<close> for the values inside.  The fuel of a loop is the
  number of its iterations, at most one per byte that is left; the fuel of \<open>decode_value\<close> is the
  nesting depth.
\<close>

type_synonym 'a decoder = "istream \<Rightarrow> work_space \<Rightarrow> ('a \<times> istream \<times> work_space) outcome"

primrec dict_loop :: "cxx_lib \<Rightarrow> mvalue decoder \<Rightarrow> nat \<Rightarrow> dict \<Rightarrow> dict decoder" where
  "dict_loop L dv 0 d s w = Diverge"
| "dict_loop L dv (Suc n) d s w =
     (let (c, s1) = is_peek s in
      if c \<noteq> Some CHR '';'' \<and> is_good s1 then
        bindO (decode_key L s1 w) (\<lambda>(s2, w2).
        bindO (dv s2 w2) (\<lambda>(v, s3, w3).
          dict_loop L dv n (dict_put (ws_s w2) v d) s3 w3))
      else close_container d s1 w)"

definition decode_dict :: "cxx_lib \<Rightarrow> mvalue decoder \<Rightarrow> dict decoder" where
  "decode_dict L dv s w =
     (let (c, s1) = is_get s in
      if \<not> is_good s1 then Ok ([], s1, w)
      else if c \<noteq> Some CHR ''d'' then Throw RuntimeError
      else dict_loop L dv (Suc (length (is_rest s1))) [] s1 w)"

primrec array_loop :: "mvalue decoder \<Rightarrow> nat \<Rightarrow> array \<Rightarrow> array decoder" where
  "array_loop dv 0 a s w = Diverge"
| "array_loop dv (Suc n) a s w =
     (let (c, s1) = is_peek s in
      if c \<noteq> Some CHR '';'' \<and> is_good s1 then
        bindO (dv s1 w) (\<lambda>(v, s2, w2). array_loop dv n (array_add v a) s2 w2)
      else close_container a s1 w)"

definition decode_array :: "mvalue decoder \<Rightarrow> array decoder" where
  "decode_array dv s w =
     (let (c, s1) = is_get s in
      if \<not> is_good s1 then Ok ([], s1, w)
      else if c \<noteq> Some CHR ''a'' then Throw RuntimeError
      else array_loop dv (Suc (length (is_rest s1))) [] s1 w)"

primrec decode_value :: "cxx_lib \<Rightarrow> nat \<Rightarrow> mvalue decoder" where
  "decode_value L 0 s w = Diverge"
| "decode_value L (Suc n) s w =
     (let (c, s1) = is_peek s in
      if \<not> is_good s1 then Ok (VEmpty, s1, w)
      else if c = Some CHR ''F'' \<or> c = Some CHR ''T'' then
        bindO (decode_bool s1) (\<lambda>(b, s2). Ok (VBool b, s2, w))
      else if c = Some CHR ''i'' then
        bindO (dec (read_int L) CHR ''i'' CHR '';'' s1 w) (\<lambda>(v, s2, w2). Ok (VInt v, s2, w2))
      else if c = Some CHR ''s'' then
        bindO (dec (read_size L) CHR ''s'' CHR '';'' s1 w) (\<lambda>(v, s2, w2). Ok (VSize v, s2, w2))
      else if c = Some CHR ''r'' then
        bindO (dec (read_double L) CHR ''r'' CHR '';'' s1 w) (\<lambda>(v, s2, w2). Ok (VDouble v, s2, w2))
      else if c = Some CHR ''d'' then
        bindO (decode_dict L (decode_value L n) s1 w) (\<lambda>(v, s2, w2). Ok (VDict v, s2, w2))
      else if c = Some CHR ''a'' then
        bindO (decode_array (decode_value L n) s1 w) (\<lambda>(v, s2, w2). Ok (VArray v, s2, w2))
      else if c = Some CHR ''n'' then
        bindO (decode_empty s1) (\<lambda>s2. Ok (VEmpty, s2, w))
      else if digit_char c then
        bindO (decode_bytes L s1 w) (\<lambda>(s2, w2). Ok (VBytes (ws_b w2), s2, w2))
      else Throw RuntimeError)"

section \<open>Entry points\<close>

definition stream_fuel :: "istream \<Rightarrow> nat" where
  "stream_fuel s = Suc (length (is_rest s))"

definition read_value :: "cxx_lib \<Rightarrow> istream \<Rightarrow> (mvalue \<times> istream) outcome" where
  "read_value L s = bindO (decode_value L (stream_fuel s) s ws_new) (\<lambda>(v, s1, _). Ok (v, s1))"

definition read_dict :: "cxx_lib \<Rightarrow> istream \<Rightarrow> (dict \<times> istream) outcome" where
  "read_dict L s = bindO (decode_dict L (decode_value L (stream_fuel s)) s ws_new) (\<lambda>(v, s1, _). Ok (v, s1))"

definition read_array :: "cxx_lib \<Rightarrow> istream \<Rightarrow> (array \<times> istream) outcome" where
  "read_array L s = bindO (decode_array (decode_value L (stream_fuel s)) s ws_new) (\<lambda>(v, s1, _). Ok (v, s1))"

text \<open>\<^verbatim>\<open>operator>>(istream&, bytes&)\<close> of namespace \<^verbatim>\<open>std\<close>.\<close>

definition read_bytes :: "cxx_lib \<Rightarrow> istream \<Rightarrow> (bytes \<times> istream) outcome" where
  "read_bytes L s =
     (if \<not> is_good s then Ok ([], s)
      else bindO (read_value L s) (\<lambda>(v, s1).
             Ok (case v of VBytes b \<Rightarrow> b | _ \<Rightarrow> [], s1)))"

definition decode :: "cxx_lib \<Rightarrow> bytes \<Rightarrow> mvalue outcome" where
  "decode L b = bindO (read_value L (stream_of (to_str b))) (\<lambda>(v, _). Ok v)"

definition decode_to_dict :: "cxx_lib \<Rightarrow> bytes \<Rightarrow> dict outcome" where
  "decode_to_dict L b = bindO (read_dict L (stream_of (to_str b))) (\<lambda>(v, _). Ok v)"

declare decode_value.simps [simp del] dict_loop.simps [simp del] array_loop.simps [simp del]

section \<open>The decoder consumes its input and never fails a contract\<close>

definition progress :: "istream \<Rightarrow> istream \<Rightarrow> bool" where
  "progress s s' \<longleftrightarrow>
     (if is_good s \<and> is_rest s \<noteq> [] then length (is_rest s') < length (is_rest s)
      else is_rest s' = is_rest s \<and> \<not> is_good s')"

definition safe :: "'a outcome \<Rightarrow> bool" where
  "safe r \<longleftrightarrow> (\<exists>a. r = Ok a) \<or> (\<exists>e. r = Throw e)"

lemma safe_simps [simp]: "safe (Ok a)" "safe (Throw e)" "\<not> safe Exit" "\<not> safe Undef" "\<not> safe Diverge"
  by (auto simp: safe_def)

lemma safe_bindO: "safe m \<Longrightarrow> (\<And>a. m = Ok a \<Longrightarrow> safe (f a)) \<Longrightarrow> safe (bindO m f)"
  by (cases m) auto

lemma progress_le: "progress s s' \<Longrightarrow> length (is_rest s') \<le> length (is_rest s)"
  by (auto simp: progress_def split: if_splits)

lemma progress_trans: "progress s s1 \<Longrightarrow> progress s1 s2 \<Longrightarrow> progress s s2"
  by (auto simp: progress_def split: if_splits)

lemma is_get_cases:
  "is_get s = (c, s1) \<Longrightarrow>
     (is_good s1 \<and> is_good s \<and> (\<exists>a cs. is_rest s = a # cs \<and> c = Some a \<and> s1 = s\<lparr>is_rest := cs\<rparr>))
   \<or> (\<not> is_good s1 \<and> c = None \<and> is_rest s1 = is_rest s \<and> \<not> (is_good s \<and> is_rest s \<noteq> []))"
  by (auto simp: is_get_def split: if_splits list.splits)

lemma is_peek_cases:
  "is_peek s = (c, s1) \<Longrightarrow>
     (is_good s1 \<and> s1 = s \<and> (\<exists>a cs. is_rest s = a # cs \<and> c = Some a))
   \<or> (\<not> is_good s1 \<and> c = None \<and> is_rest s1 = is_rest s \<and> \<not> (is_good s \<and> is_rest s \<noteq> []))"
  by (auto simp: is_peek_def split: if_splits list.splits)

lemma progress_get: "is_get s = (c, s1) \<Longrightarrow> progress s s1"
  by (drule is_get_cases) (auto simp: progress_def)

lemma progress_peek_bad: "is_peek s = (c, s1) \<Longrightarrow> \<not> is_good s1 \<Longrightarrow> progress s s1"
  by (drule is_peek_cases) (auto simp: progress_def)

lemma scan_until_length: "scan_until e acc cs = Some (str, rest) \<Longrightarrow> length rest < length cs"
  by (induction e acc cs rule: scan_until.induct) (auto split: if_splits)

lemma get_until_progress:
  "get_until e s w = Ok (s', w') \<Longrightarrow> progress s s' \<and> is_good s'"
  by (auto simp: get_until_def progress_def dest: scan_until_length split: if_splits option.splits)

lemma get_until_safe [simp]: "safe (get_until e s w)"
  by (auto simp: get_until_def split: option.splits)

lemma cast_safe [simp]: "safe (cast rd s)"
  by (auto simp: cast_def split: option.splits)

lemma is_read_le: "length (is_rest (snd (is_read n s))) \<le> length (is_rest s)"
  by (auto simp: is_read_def)

lemma progress_peek_then:
  assumes "is_good (snd (is_peek s))" "progress (snd (is_peek s)) s2"
    "length (is_rest s') \<le> length (is_rest s2)"
  shows "progress s s'"
proof -
  obtain c s1 where p: "is_peek s = (c, s1)" by (cases "is_peek s")
  from is_peek_cases [OF p] assms p show ?thesis by (auto simp: progress_def split: if_splits)
qed

definition ok_from :: "istream \<Rightarrow> ('a \<times> istream \<times> work_space) outcome \<Rightarrow> bool" where
  "ok_from s r \<longleftrightarrow> safe r \<and> (\<forall>v s' w'. r = Ok (v, s', w') \<longrightarrow> progress s s')"

definition decoder_ok :: "nat \<Rightarrow> 'a decoder \<Rightarrow> bool" where
  "decoder_ok N dv \<longleftrightarrow> (\<forall>s w. length (is_rest s) < N \<longrightarrow> ok_from s (dv s w))"

lemma ok_from_simps [simp]: "ok_from s (Throw e)" "ok_from s (Ok (v, s', w)) \<longleftrightarrow> progress s s'"
  by (auto simp: ok_from_def)

lemma ok_from_trans: "progress s s1 \<Longrightarrow> ok_from s1 r \<Longrightarrow> ok_from s r"
  unfolding ok_from_def by (blast intro: progress_trans)

lemma ok_from_map: "ok_from s m \<Longrightarrow> ok_from s (bindO m (\<lambda>(v, s2, w2). Ok (f v, s2, w2)))"
  unfolding ok_from_def by (cases m) auto

lemma ok_from_bind:
  assumes "ok_from s m" "\<And>v s1 w1. m = Ok (v, s1, w1) \<Longrightarrow> progress s s1 \<Longrightarrow> ok_from s1 (f v s1 w1)"
  shows "ok_from s (bindO m (\<lambda>(v, s1, w1). f v s1 w1))"
proof (cases m)
  case (Ok p)
  obtain v s1 w1 where p: "p = (v, s1, w1)" by (cases p)
  with Ok assms(1) have pr: "progress s s1" by simp
  from assms(2) [of v s1 w1] Ok p pr have "ok_from s1 (f v s1 w1)" by simp
  with pr have "ok_from s (f v s1 w1)" by (rule ok_from_trans)
  with Ok p show ?thesis by simp
qed (use assms(1) in \<open>auto simp: ok_from_def\<close>)

lemma decode_bool_ok: "safe (decode_bool s) \<and> (\<forall>b s'. decode_bool s = Ok (b, s') \<longrightarrow> progress s s')"
  by (auto simp: decode_bool_def progress_get split: prod.splits if_splits)

lemma decode_empty_ok: "safe (decode_empty s) \<and> (\<forall>s'. decode_empty s = Ok s' \<longrightarrow> progress s s')"
  by (auto simp: decode_empty_def progress_get split: prod.splits if_splits)

lemma dec_ok: "safe (dec rd b e s w) \<and> (\<forall>v s' w'. dec rd b e s w = Ok (v, s', w') \<longrightarrow> progress s s')"
  by (auto simp: dec_def progress_get intro!: safe_bindO split: prod.splits if_splits
      dest!: get_until_progress intro: progress_trans progress_get)

lemma progress_peek_bad': "\<not> is_good (snd (is_peek s)) \<Longrightarrow> progress s (snd (is_peek s))"
  by (rule progress_peek_bad [of s "fst (is_peek s)"]) auto

lemma decode_bytes_ok:
  "safe (decode_bytes L s w) \<and> (\<forall>s' w'. decode_bytes L s w = Ok (s', w') \<longrightarrow> progress s s')"
  by (auto simp: decode_bytes_def Let_def case_prod_beta progress_peek_bad' is_read_le
      intro!: safe_bindO intro: progress_peek_then split: if_splits dest!: get_until_progress)

lemma decode_key_ok:
  "safe (decode_key L s w) \<and> (\<forall>s' w'. decode_key L s w = Ok (s', w') \<longrightarrow> progress s s')"
  by (auto simp: decode_key_def Let_def case_prod_beta progress_peek_bad' is_read_le
      intro!: safe_bindO intro: progress_peek_then split: if_splits dest!: get_until_progress)

lemma close_container_ok:
  assumes "fst (is_peek s) = Some CHR '';'' \<or> \<not> is_good (snd (is_peek s))"
  shows "ok_from s (close_container a (snd (is_peek s)) w)"
proof -
  obtain c s1 where p: "is_peek s = (c, s1)" by (cases "is_peek s")
  obtain c2 s2 where g: "is_get s1 = (c2, s2)" by (cases "is_get s1")
  from is_peek_cases [OF p] is_get_cases [OF g] assms p g show ?thesis
    by (auto simp: close_container_def check_stream_def progress_def)
qed

lemma dict_loop_ok:
  assumes dv: "decoder_ok N dv"
  shows "length (is_rest s) < n \<Longrightarrow> length (is_rest s) < N \<Longrightarrow> ok_from s (dict_loop L dv n d s w)"
proof (induction n arbitrary: d s w)
  case 0
  then show ?case by simp
next
  case (Suc n)
  obtain c s1 where p: "is_peek s = (c, s1)" by (cases "is_peek s")
  show ?case
  proof (cases "c \<noteq> Some CHR '';'' \<and> is_good s1")
    case False
    with p close_container_ok [of s d w] show ?thesis by (auto simp: dict_loop.simps)
  next
    case True
    with is_peek_cases [OF p] have s1: "s1 = s" "is_good s" "is_rest s \<noteq> []" by auto
    have step: "ok_from s (bindO (dv s2 w2)
        (\<lambda>(v, s3, w3). dict_loop L dv n (dict_put (ws_s w2) v d) s3 w3))"
      if k: "decode_key L s w = Ok (s2, w2)" for s2 w2
    proof (rule ok_from_trans)
      show pr: "progress s s2" using decode_key_ok k by blast
      then have l2: "length (is_rest s2) < length (is_rest s)" using s1 by (simp add: progress_def)
      with Suc.prems dv have "ok_from s2 (dv s2 w2)" by (simp add: decoder_ok_def)
      then show "ok_from s2 (bindO (dv s2 w2)
          (\<lambda>(v, s3, w3). dict_loop L dv n (dict_put (ws_s w2) v d) s3 w3))"
      proof (rule ok_from_bind)
        fix v s3 w3 assume "progress s2 s3"
        then have "length (is_rest s3) < n" "length (is_rest s3) < N"
          using l2 Suc.prems by (auto dest!: progress_le)
        then show "ok_from s3 (dict_loop L dv n (dict_put (ws_s w2) v d) s3 w3)" by (rule Suc.IH)
      qed
    qed
    then show ?thesis using decode_key_ok [of L s w] True p s1
      by (cases "decode_key L s w") (auto simp: dict_loop.simps)
  qed
qed

lemma array_loop_ok:
  assumes dv: "decoder_ok N dv"
  shows "length (is_rest s) < n \<Longrightarrow> length (is_rest s) < N \<Longrightarrow> ok_from s (array_loop dv n a s w)"
proof (induction n arbitrary: a s w)
  case 0
  then show ?case by simp
next
  case (Suc n)
  obtain c s1 where p: "is_peek s = (c, s1)" by (cases "is_peek s")
  show ?case
  proof (cases "c \<noteq> Some CHR '';'' \<and> is_good s1")
    case False
    with p close_container_ok [of s a w] show ?thesis by (auto simp: array_loop.simps)
  next
    case True
    with is_peek_cases [OF p] have s1: "s1 = s" "is_good s" "is_rest s \<noteq> []" by auto
    from Suc.prems dv have "ok_from s (dv s w)" by (simp add: decoder_ok_def)
    then have "ok_from s (bindO (dv s w) (\<lambda>(v, s2, w2). array_loop dv n (array_add v a) s2 w2))"
    proof (rule ok_from_bind)
      fix v s2 w2 assume "progress s s2"
      then have "length (is_rest s2) < n" "length (is_rest s2) < N"
        using s1 Suc.prems by (auto simp: progress_def)
      then show "ok_from s2 (array_loop dv n (array_add v a) s2 w2)" by (rule Suc.IH)
    qed
    with True p s1 show ?thesis by (simp add: array_loop.simps)
  qed
qed

lemma decode_container_ok:
  assumes "decoder_ok N dv"
  shows "decoder_ok (Suc N) (decode_dict L dv)" and "decoder_ok (Suc N) (decode_array dv)"
proof -
  have "ok_from s (decode_dict L dv s w) \<and> ok_from s (decode_array dv s w)"
    if len: "length (is_rest s) < Suc N" for s w
  proof -
    obtain c s1 where g: "is_get s = (c, s1)" by (cases "is_get s")
    have pg: "progress s s1" using g by (rule progress_get)
    show ?thesis
    proof (cases "is_good s1")
      case True
      with is_get_cases [OF g] len have "length (is_rest s1) < N" by auto
      then have "ok_from s1 (dict_loop L dv (Suc (length (is_rest s1))) [] s1 w)"
        "ok_from s1 (array_loop dv (Suc (length (is_rest s1))) [] s1 w)"
        using dict_loop_ok [OF assms] array_loop_ok [OF assms] by simp_all
      with pg have "ok_from s (dict_loop L dv (Suc (length (is_rest s1))) [] s1 w)"
        "ok_from s (array_loop dv (Suc (length (is_rest s1))) [] s1 w)"
        by (blast intro: ok_from_trans)+
      with g True show ?thesis by (simp add: decode_dict_def decode_array_def)
    next
      case False
      with g pg show ?thesis by (simp add: decode_dict_def decode_array_def)
    qed
  qed
  then show "decoder_ok (Suc N) (decode_dict L dv)" "decoder_ok (Suc N) (decode_array dv)"
    by (simp_all add: decoder_ok_def)
qed

lemma decode_value_ok: "decoder_ok n (decode_value L n)"
proof (induction n)
  case 0
  then show ?case by (simp add: decoder_ok_def)
next
  case (Suc n)
  have "ok_from s (decode_value L (Suc n) s w)" if len: "length (is_rest s) < Suc n" for s w
  proof -
    obtain c s1 where p: "is_peek s = (c, s1)" by (cases "is_peek s")
    show ?thesis
    proof (cases "is_good s1")
      case True
      with is_peek_cases [OF p] have s1: "s1 = s" by auto
      have "ok_from s (bindO (decode_bool s) (\<lambda>(b, s2). Ok (VBool b, s2, w)))"
        "ok_from s (bindO (decode_empty s) (\<lambda>s2. Ok (VEmpty, s2, w)))"
        "ok_from s (bindO (decode_bytes L s w) (\<lambda>(s2, w2). Ok (VBytes (ws_b w2), s2, w2)))"
        using decode_bool_ok [of s] decode_empty_ok [of s] decode_bytes_ok [of L s w]
        by (auto simp: ok_from_def intro!: safe_bindO)
      moreover have numbers: "ok_from s (bindO (dec rd b e s w) (\<lambda>(v, s2, w2). Ok (f v, s2, w2)))"
        for rd b e and f :: "u64 \<Rightarrow> mvalue"
        using dec_ok [of rd b e s w] by (intro ok_from_map) (simp add: ok_from_def)
      moreover note numbers [where f = VInt] numbers [where f = VSize] numbers [where f = VDouble]
      moreover have
        "ok_from s (bindO (decode_dict L (decode_value L n) s w) (\<lambda>(v, s2, w2). Ok (VDict v, s2, w2)))"
        "ok_from s (bindO (decode_array (decode_value L n) s w) (\<lambda>(v, s2, w2). Ok (VArray v, s2, w2)))"
        using decode_container_ok [OF Suc.IH] len by (auto simp: decoder_ok_def intro!: ok_from_map)
      ultimately show ?thesis using True p s1 by (simp add: decode_value.simps)
    next
      case False
      with p show ?thesis by (simp add: decode_value.simps progress_peek_bad)
    qed
  qed
  then show ?case by (simp add: decoder_ok_def)
qed

lemma read_value_safe: "safe (read_value L s)"
  using decode_value_ok [of "stream_fuel s" L]
  by (auto simp: read_value_def decoder_ok_def ok_from_def stream_fuel_def intro!: safe_bindO)

lemma read_dict_safe: "safe (read_dict L s)"
  using decode_container_ok(1) [OF decode_value_ok [of "stream_fuel s" L]]
  by (auto simp: read_dict_def decoder_ok_def ok_from_def stream_fuel_def intro!: safe_bindO)

lemma read_array_safe: "safe (read_array L s)"
  using decode_container_ok(2) [OF decode_value_ok [of "stream_fuel s" L]]
  by (auto simp: read_array_def decoder_ok_def ok_from_def stream_fuel_def intro!: safe_bindO)

lemma decode_safe: "safe (decode L b)"
  by (auto simp: decode_def intro!: safe_bindO read_value_safe)

lemma decode_to_dict_safe: "safe (decode_to_dict L b)"
  by (auto simp: decode_to_dict_def intro!: safe_bindO read_dict_safe)

lemma read_bytes_safe: "safe (read_bytes L s)"
  by (auto simp: read_bytes_def intro!: safe_bindO read_value_safe)

section \<open>Round trip\<close>

fun wf_value :: "cxx_lib \<Rightarrow> mvalue \<Rightarrow> bool" where
  "wf_value L (VDouble d) \<longleftrightarrow> read_double L (show_double L d) = Some d"
| "wf_value L (VBytes b) \<longleftrightarrow> length b \<le> max_alloc L"
| "wf_value L (VDict d) \<longleftrightarrow>
     distinct (keys d) \<and>
     list_all (\<lambda>p. fst p \<noteq> [] \<and> length (fst p) \<le> max_alloc L \<and> wf_value L (snd p)) d"
| "wf_value L (VArray a) \<longleftrightarrow> list_all (wf_value L) a"
| "wf_value L _ \<longleftrightarrow> True"

abbreviation st :: "bytes \<Rightarrow> istream" where
  "st b \<equiv> \<lparr>is_rest = b, is_good = True\<rparr>"

lemma st_simps [simp]:
  "is_get (st (c # cs)) = (Some c, st cs)"
  "is_peek (st (c # cs)) = (Some c, st (c # cs))"
  by (simp_all add: is_get_def is_peek_def)

lemma scan_until_append:
  "e \<notin> set xs \<Longrightarrow> scan_until e acc (xs @ e # ys) = Some (acc @ xs, ys)"
  by (induction xs arbitrary: acc) auto

lemma get_until_append:
  "e \<notin> set xs \<Longrightarrow> get_until e (st (xs @ e # ys)) w = Ok (st ys, w\<lparr>ws_s := xs\<rparr>)"
  by (simp add: get_until_def scan_until_append)

lemma dec_enc:
  "e \<notin> set txt \<Longrightarrow> rd txt = Some v \<Longrightarrow>
   dec rd b e (st (b # txt @ e # ys)) w = Ok (v, st ys, w\<lparr>ws_s := txt\<rparr>)"
  by (simp add: dec_def get_until_append cast_def)

lemma close_container_end: "close_container a (st (CHR '';'' # ys)) w = Ok (a, st ys, w)"
  by (simp add: close_container_def check_stream_def)

lemma is_read_append: "is_read (length b) (st (b @ ys)) = (b, st ys)"
  by (simp add: is_read_def)

lemma is_digit_tags:
  assumes "is_digit c"
  shows "c \<noteq> CHR ''F''" "c \<noteq> CHR ''T''" "c \<noteq> CHR ''i''" "c \<noteq> CHR ''s''" "c \<noteq> CHR ''r''"
    "c \<noteq> CHR ''d''" "c \<noteq> CHR ''a''" "c \<noteq> CHR ''n''"
  using assms by auto

context lexical_cast
begin

lemma show_size_no_colon: "CHR '':'' \<notin> set (show_size L n)"
  using show_size_digits(2) by fastforce

lemma show_size_no_semi: "CHR '';'' \<notin> set (show_size L n)"
  using show_size_digits(2) by fastforce

lemma unat_length: "length b \<le> max_alloc L \<Longrightarrow> unat (of_nat (length b) :: u64) = length b"
  using max_alloc_bound by (simp add: unat_of_nat take_bit_nat_eq_self)

lemma encode_b_peek:
  "\<exists>c cs. encode_b L b @ ys = c # cs \<and> is_digit c"
  using show_size_digits [of "of_nat (length b)"]
  by (cases "show_size L (of_nat (length b))") (auto simp: encode_b_def)

lemma decode_key_encode:
  assumes "b \<noteq> []" "length b \<le> max_alloc L"
  shows "decode_key L (st (encode_b L b @ ys)) w = Ok (st ys, w\<lparr>ws_s := b\<rparr>)"
proof -
  obtain c cs where c: "encode_b L b @ ys = c # cs" "is_digit c" using encode_b_peek by blast
  have "get_until CHR '':'' (st (c # cs)) w
      = Ok (st (b @ ys), w\<lparr>ws_s := show_size L (of_nat (length b))\<rparr>)"
    using get_until_append [OF show_size_no_colon [of "of_nat (length b)"], of "b @ ys" w] c(1)
    by (simp add: encode_b_def)
  with c assms show ?thesis
    by (simp add: decode_key_def cast_def read_show_size unat_length Let_def is_read_append)
qed

lemma decode_bytes_encode:
  assumes "length b \<le> max_alloc L"
  shows "\<exists>w'. decode_bytes L (st (encode_b L b @ ys)) w = Ok (st ys, w') \<and> ws_b w' = b"
proof -
  obtain c cs where c: "encode_b L b @ ys = c # cs" "is_digit c" using encode_b_peek by blast
  have "get_until CHR '':'' (st (c # cs)) (w\<lparr>ws_b := []\<rparr>)
      = Ok (st (b @ ys), w\<lparr>ws_s := show_size L (of_nat (length b)), ws_b := []\<rparr>)"
    using get_until_append [OF show_size_no_colon [of "of_nat (length b)"], of "b @ ys" "w\<lparr>ws_b := []\<rparr>"] c(1)
    by (simp add: encode_b_def)
  with c assms show ?thesis
    by (simp add: decode_bytes_def cast_def read_show_size unat_length Let_def is_read_append)
qed

lemma encode_value_first:
  "\<exists>c cs. encode_value L v @ ys = c # cs \<and> c \<noteq> CHR '';''"
proof (cases v)
  case (VBytes b)
  with encode_b_peek [of b ys] show ?thesis by force
qed (auto simp: encode_bool_def enc_def)

lemma encode_value_nonempty [simp]: "encode_value L v \<noteq> []"
  using encode_value_first [of v "[]"] by auto

lemma encode_value_pos: "0 < length (encode_value L v)"
  by simp

abbreviation decodes :: "nat \<Rightarrow> mvalue \<Rightarrow> bool" where
  "decodes n v \<equiv> \<forall>ys w. \<exists>w'. decode_value L n (st (encode_value L v @ ys)) w = Ok (v, st ys, w')"

lemma array_loop_encode:
  assumes "\<forall>v \<in> set vs. decodes n v" "length vs < m"
  shows "\<exists>w'. array_loop (decode_value L n) m a (st (concat (map (encode_value L) vs) @ CHR '';'' # ys)) w
           = Ok (a @ vs, st ys, w')"
  using assms
proof (induction vs arbitrary: m a w)
  case Nil
  then show ?case by (cases m) (auto simp: array_loop.simps close_container_end)
next
  case (Cons v vs)
  obtain m' where m: "m = Suc m'" "length vs < m'" using Cons.prems(2) by (cases m) auto
  let ?rest = "concat (map (encode_value L) vs) @ CHR '';'' # ys"
  obtain w1 where w1: "decode_value L n (st (encode_value L v @ ?rest)) w = Ok (v, st ?rest, w1)"
    using Cons.prems(1) by fastforce
  obtain c cs where c: "encode_value L v @ ?rest = c # cs" "c \<noteq> CHR '';''"
    using encode_value_first by blast
  obtain w2 where "array_loop (decode_value L n) m' (a @ [v]) (st ?rest) w1 = Ok ((a @ [v]) @ vs, st ys, w2)"
    using Cons.IH [of m' "a @ [v]" w1] Cons.prems(1) m(2) by auto
  with w1 c m(1) show ?case by (auto simp: array_loop.simps array_add_def)
qed

lemma dict_loop_encode:
  assumes "\<forall>p \<in> set ps. fst p \<noteq> [] \<and> length (fst p) \<le> max_alloc L \<and> decodes n (snd p)"
    "length ps < m" "distinct (keys (d @ ps))"
  shows "\<exists>w'. dict_loop L (decode_value L n) m d
           (st (concat (map (\<lambda>p. encode_b L (fst p) @ encode_value L (snd p)) ps) @ CHR '';'' # ys)) w
           = Ok (d @ ps, st ys, w')"
  using assms
proof (induction ps arbitrary: m d w)
  case Nil
  then show ?case by (cases m) (auto simp: dict_loop.simps close_container_end)
next
  case (Cons p ps)
  obtain k v where p: "p = (k, v)" by (cases p)
  obtain m' where m: "m = Suc m'" "length ps < m'" using Cons.prems(2) by (cases m) auto
  let ?rest = "concat (map (\<lambda>p. encode_b L (fst p) @ encode_value L (snd p)) ps) @ CHR '';'' # ys"
  obtain w1 where w1: "decode_value L n (st (encode_value L v @ ?rest)) (w\<lparr>ws_s := k\<rparr>) = Ok (v, st ?rest, w1)"
    using Cons.prems(1) p by fastforce
  have key: "decode_key L (st (encode_b L k @ encode_value L v @ ?rest)) w
      = Ok (st (encode_value L v @ ?rest), w\<lparr>ws_s := k\<rparr>)"
    using Cons.prems(1) p by (intro decode_key_encode) auto
  obtain c cs where c: "encode_b L k @ encode_value L v @ ?rest = c # cs" "is_digit c"
    using encode_b_peek by blast
  then have "c \<noteq> CHR '';''" by auto
  moreover have "dict_put k v d = d @ [p]"
    using Cons.prems(3) p by (auto simp: dict_put_def intro!: alist_put_new)
  moreover obtain w2 where
    "dict_loop L (decode_value L n) m' (d @ [p]) (st ?rest) w1 = Ok ((d @ [p]) @ ps, st ys, w2)"
    using Cons.IH [of m' "d @ [p]" w1] Cons.prems m(2) by auto
  ultimately show ?case using w1 c(1) key m(1) p by (auto simp: dict_loop.simps)
qed

lemma length_le_concat: "(\<And>x. x \<in> set xs \<Longrightarrow> 0 < length (f x)) \<Longrightarrow> length xs \<le> length (concat (map f xs))"
proof (induction xs)
  case (Cons x xs)
  then have "length xs \<le> length (concat (map f xs))" "0 < length (f x)" by auto
  then show ?case by (simp del: length_greater_0_conv)
qed simp

lemma length_concat_member: "x \<in> set xs \<Longrightarrow> length (f x) \<le> length (concat (map f xs))"
  by (induction xs) auto

lemma decode_value_encode:
  "wf_value L v \<Longrightarrow> length (encode_value L v) \<le> n \<Longrightarrow> decodes n v"
proof (induction v arbitrary: n)
  case (VBytes b)
  then obtain n' where n: "n = Suc n'" using encode_value_pos [of "VBytes b"] by (cases n) auto
  show ?case
  proof (intro allI)
    fix ys w
    obtain c cs where c: "encode_b L b @ ys = c # cs" "is_digit c" using encode_b_peek by blast
    obtain w' where "decode_bytes L (st (c # cs)) w = Ok (st ys, w')" "ws_b w' = b"
      using decode_bytes_encode [of b ys w] VBytes.prems c(1) by auto
    with c n is_digit_tags [OF c(2)]
    show "\<exists>w'. decode_value L n (st (encode_value L (VBytes b) @ ys)) w = Ok (VBytes b, st ys, w')"
      by (simp add: decode_value.simps)
  qed
next
  case (VDict d)
  then obtain n' where n: "n = Suc n'" using encode_value_pos [of "VDict d"] by (cases n) auto
  let ?body = "concat (map (\<lambda>p. encode_b L (fst p) @ encode_value L (snd p)) d)"
  have el: "length (encode_value L (snd p)) \<le> length ?body" if "p \<in> set d" for p
    using length_concat_member [OF that, of "\<lambda>p. encode_b L (fst p) @ encode_value L (snd p)"] by simp
  have dec: "\<forall>p \<in> set d. fst p \<noteq> [] \<and> length (fst p) \<le> max_alloc L \<and> decodes n' (snd p)"
  proof
    fix p assume p: "p \<in> set d"
    with VDict.prems el n have "wf_value L (snd p)" "length (encode_value L (snd p)) \<le> n'"
      by (fastforce simp: list_all_iff)+
    with VDict.IH [of p "snd p" n'] p VDict.prems
    show "fst p \<noteq> [] \<and> length (fst p) \<le> max_alloc L \<and> decodes n' (snd p)"
      by (cases p) (auto simp: list_all_iff)
  qed
  have "length d \<le> length ?body" by (rule length_le_concat) (simp add: encode_value_pos)
  then show ?case
    using dict_loop_encode [OF dec, of _ "[]"] VDict.prems n
    by (auto simp: decode_value.simps decode_dict_def)
next
  case (VArray a)
  then obtain n' where n: "n = Suc n'" using encode_value_pos [of "VArray a"] by (cases n) auto
  let ?body = "concat (map (encode_value L) a)"
  have el: "length (encode_value L v) \<le> length ?body" if "v \<in> set a" for v
    using that by (rule length_concat_member)
  have dec: "\<forall>v \<in> set a. decodes n' v"
    using VArray el n by (fastforce simp: list_all_iff)
  have "length a \<le> length ?body" by (rule length_le_concat) (simp add: encode_value_pos)
  then show ?case
    using array_loop_encode [OF dec, of _ "[]"] VArray.prems n
    by (auto simp: decode_value.simps decode_array_def)
qed (auto simp: Suc_le_eq gr0_conv_Suc decode_value.simps decode_empty_def decode_bool_def encode_bool_def
    enc_def dec_enc show_int_chars show_size_no_semi show_double_chars read_show_int read_show_size
    dest!: less_imp_Suc_add)

lemma read_value_encode:
  assumes "wf_value L v"
  shows "read_value L (st (encode_value L v @ ys)) = Ok (v, st ys)"
proof -
  obtain w' where "decode_value L (Suc (length (encode_value L v) + length ys))
      (st (encode_value L v @ ys)) ws_new = Ok (v, st ys, w')"
    using decode_value_encode [OF assms, of "Suc (length (encode_value L v) + length ys)"] by fastforce
  then show ?thesis by (simp add: read_value_def stream_fuel_def)
qed

lemma read_dict_encode:
  assumes "wf_value L (VDict d)"
  shows "read_dict L (st (encode_dict L d @ ys)) = Ok (d, st ys)"
proof -
  let ?n = "Suc (length (encode_dict L d) + length ys)"
  obtain w' where "decode_value L (Suc ?n) (st (encode_value L (VDict d) @ ys)) ws_new = Ok (VDict d, st ys, w')"
    using decode_value_encode [OF assms, of "Suc ?n"] by (fastforce simp: encode_dict_def)
  then show ?thesis
    by (auto simp: read_dict_def stream_fuel_def encode_dict_def decode_value.simps)
qed

lemma read_array_encode:
  assumes "wf_value L (VArray a)"
  shows "read_array L (st (encode_array L a @ ys)) = Ok (a, st ys)"
proof -
  let ?n = "Suc (length (encode_array L a) + length ys)"
  obtain w' where "decode_value L (Suc ?n) (st (encode_value L (VArray a) @ ys)) ws_new = Ok (VArray a, st ys, w')"
    using decode_value_encode [OF assms, of "Suc ?n"] by (fastforce simp: encode_array_def)
  then show ?thesis
    by (auto simp: read_array_def stream_fuel_def encode_array_def decode_value.simps)
qed

lemma read_bytes_encode:
  assumes "length b \<le> max_alloc L"
  shows "read_bytes L (st (encode_b L b @ ys)) = Ok (b, st ys)"
  using read_value_encode [of "VBytes b" ys] assms by (simp add: read_bytes_def)

lemma decode_encode: "wf_value L v \<Longrightarrow> decode L (encode_value L v) = Ok v"
  using read_value_encode [of v "[]"] by (simp add: decode_def stream_of_def to_str_def)

lemma decode_key_empty:
  "decode_key L (st (encode_b L [] @ ys)) w = Ok (st ys, w\<lparr>ws_s := show_size L 0\<rparr>)"
proof -
  obtain c cs where c: "encode_b L [] @ ys = c # cs" "is_digit c" using encode_b_peek by blast
  have "get_until CHR '':'' (st (c # cs)) w = Ok (st ys, w\<lparr>ws_s := show_size L 0\<rparr>)"
    using get_until_append [OF show_size_no_colon [of 0], of ys w] c(1) by (simp add: encode_b_def)
  with c show ?thesis by (simp add: decode_key_def cast_def read_show_size)
qed

lemma read_dict_empty_key:
  assumes "wf_value L v"
  shows "read_dict L (st (encode_dict L [([], v)] @ ys)) = Ok ([(show_size L 0, v)], st ys)"
proof -
  let ?tail = "encode_value L v @ CHR '';'' # ys"
  let ?m = "length (encode_b L [] @ ?tail)"
  obtain n where n: "stream_fuel (st (encode_dict L [([], v)] @ ys)) = n" "length (encode_value L v) \<le> n"
    by (simp add: stream_fuel_def encode_dict_def)
  obtain w1 where w1: "decode_value L n (st ?tail) (ws_new\<lparr>ws_s := show_size L 0\<rparr>) = Ok (v, st (CHR '';'' # ys), w1)"
    using decode_value_encode [OF assms n(2)] by blast
  obtain c cs where c: "encode_b L [] @ ?tail = c # cs" "is_digit c" using encode_b_peek by blast
  then have "c \<noteq> CHR '';''" by auto
  have m: "?m = Suc (length cs)" using c(1) by (metis length_Cons)
  have key: "decode_key L (st (c # cs)) ws_new = Ok (st ?tail, ws_new\<lparr>ws_s := show_size L 0\<rparr>)"
    using decode_key_empty [of ?tail ws_new] c(1) by simp
  have "dict_loop L (decode_value L n) (Suc ?m) [] (st (encode_b L [] @ ?tail)) ws_new
      = Ok ([(show_size L 0, v)], st ys, w1)"
    unfolding c(1) m using key w1 \<open>c \<noteq> CHR '';''\<close>
    by (simp add: dict_loop.simps dict_put_def close_container_end)
  then show ?thesis
    using n(1) by (simp add: read_dict_def decode_dict_def encode_dict_def)
qed

lemma read_value_truncated:
  assumes "length b < n" "n \<le> max_alloc L"
  shows "read_value L (st (show_size L (of_nat n) @ CHR '':'' # b))
    = Ok (VBytes (b @ replicate (n - length b) (CHR 0x00)), \<lparr>is_rest = [], is_good = False\<rparr>)"
proof -
  let ?in = "show_size L (of_nat n) @ CHR '':'' # b"
  obtain c cs where c: "?in = c # cs" "is_digit c"
    using show_size_digits [of "of_nat n"] by (cases "show_size L (of_nat n)") auto
  have un: "unat (of_nat n :: u64) = n"
    using unat_length [of "replicate n (CHR 0x00)"] assms by simp
  have "get_until CHR '':'' (st (c # cs)) w = Ok (st b, w\<lparr>ws_s := show_size L (of_nat n)\<rparr>)" for w
    using get_until_append [OF show_size_no_colon [of "of_nat n"], of b w] c(1) by simp
  then have "decode_bytes L (st (c # cs)) ws_new = Ok (\<lparr>is_rest = [], is_good = False\<rparr>,
      ws_new\<lparr>ws_s := show_size L (of_nat n), ws_b := b @ replicate (n - length b) (CHR 0x00)\<rparr>)"
    using assms un c(2)
    by (simp add: decode_bytes_def cast_def read_show_size Let_def is_read_def)
  then show ?thesis
    unfolding c(1) using is_digit_tags [OF c(2)] c(2)
    by (simp add: read_value_def stream_fuel_def decode_value.simps)
qed

end

section \<open>Properties\<close>

text \<open>
  C9. Every well-formed value survives encoding and decoding, and the decoder stops exactly at its
  last byte: for any bytes \<open>ys\<close> that follow, reading the encoding of \<open>v\<close> gives \<open>v\<close> and leaves
  \<open>ys\<close>.  Well-formed means: distinct and non-empty dictionary keys, byte strings that can be
  allocated, and doubles that \<^verbatim>\<open>lexical_cast\<close> prints exactly.
\<close>

theorem mencode_roundtrip:
  assumes "lexical_cast L" and "wf_value L v"
  shows "read_value L (stream_of (encode_value L v @ ys)) = Ok (v, stream_of ys)"
  using lexical_cast.read_value_encode [OF assms] by (simp add: stream_of_def)

theorem mencode_roundtrip_witness:
  "read_value decimal_lib (stream_of (encode_value decimal_lib
      (VDict [(''to'', VArray [VBytes ''a:b;'', VInt (- 7)]), (''n'', VDict [(''x'', VSize 9)])]) @ ''tail''))
   = Ok (VDict [(''to'', VArray [VBytes ''a:b;'', VInt (- 7)]), (''n'', VDict [(''x'', VSize 9)])],
       stream_of ''tail'')"
  by (rule mencode_roundtrip [OF dec.lexical_cast_axioms]) (simp add: decimal_lib_def)

text \<open>
  C21. Decoding any byte string whatsoever, well-formed or hostile, ends: it returns a value or throws
  an exception.  It never loops, never trips a contract check (which would end the process) and never
  leaves defined behaviour.
\<close>

theorem decode_total:
  "(\<exists>v. decode L b = Ok v) \<or> (\<exists>e. decode L b = Throw e)"
  using decode_safe [of L b] by (simp add: safe_def)

text \<open>
  A dictionary entry with the empty key does not survive: \<^verbatim>\<open>decode_key\<close> returns early for a key
  of size 0 and leaves the text of the size in its buffer, so the entry comes back under the key
  \<^verbatim>\<open>"0"\<close> (whatever text the library prints for 0).
\<close>

theorem empty_key_is_renamed:
  assumes "lexical_cast L" and "wf_value L v"
  shows "read_dict L (stream_of (encode_dict L [([], v)] @ ys)) = Ok ([(show_size L 0, v)], stream_of ys)"
  using lexical_cast.read_dict_empty_key [OF assms] by (simp add: stream_of_def)

theorem empty_key_is_renamed_witness:
  "read_dict decimal_lib (stream_of (encode_dict decimal_lib [([], VBool True)] @ []))
   = Ok ([(''0'', VBool True)], stream_of [])"
  using empty_key_is_renamed [OF dec.lexical_cast_axioms, of "VBool True" "[]"] by simp

text \<open>
  A byte string whose length prefix promises more bytes than the input has is not rejected: it is
  filled up with zero bytes, and only the stream's \<^verbatim>\<open>good()\<close> flag shows the short read.
\<close>

theorem truncated_bytes_zero_filled:
  assumes "lexical_cast L" and "length b < n" and "n \<le> max_alloc L"
  shows "read_value L (stream_of (show_size L (of_nat n) @ CHR '':'' # b))
    = Ok (VBytes (b @ replicate (n - length b) (CHR 0x00)), \<lparr>is_rest = [], is_good = False\<rparr>)"
  using lexical_cast.read_value_truncated [OF assms] by (simp add: stream_of_def)

theorem truncated_bytes_zero_filled_witness:
  "read_value decimal_lib (stream_of (show_size decimal_lib (of_nat 4) @ CHR '':'' # ''ab''))
    = Ok (VBytes (''ab'' @ replicate 2 (CHR 0x00)), \<lparr>is_rest = [], is_good = False\<rparr>)"
  using truncated_bytes_zero_filled [OF dec.lexical_cast_axioms, of "''ab''" 4]
  by (simp add: decimal_lib_def)

end
