(* ===== verification/Vclock.thy ===== *)
theory Vclock
  imports Mencode
begin

text \<open>
  Version vectors: \<^verbatim>\<open>vclock\<close> and \<^verbatim>\<open>tracked_vclock\<close> of \<^verbatim>\<open>src/src/util/vclock.hpp\<close> and their conversion to
  dictionaries (\<^verbatim>\<open>vclock.cpp\<close>).  A clock is a \<^verbatim>\<open>std::map\<close> from node ids to 64-bit counters.  The
  locale \<open>join_state\<close> is the contract of a state that replicas merge; the clock merge is interpreted
  in it.
\<close>

section \<open>Clocks\<close>

type_synonym 'i clock = "('i \<times> u64) list"

definition vclock_val :: "'i clock \<Rightarrow> 'i \<Rightarrow> u64" where
  "vclock_val c i = (case map_of c i of Some v \<Rightarrow> v | None \<Rightarrow> 0)"

text \<open>The mutable \<^verbatim>\<open>operator[]\<close> gives a reference and adds a zero for a new id.\<close>

definition vclock_ref :: "'i::linorder \<Rightarrow> 'i clock \<Rightarrow> u64 \<times> 'i clock" where
  "vclock_ref i c = (case map_of c i of Some v \<Rightarrow> (v, c) | None \<Rightarrow> (0, omap_put i 0 c))"

definition vclock_set :: "'i::linorder \<Rightarrow> u64 \<Rightarrow> 'i clock \<Rightarrow> 'i clock" where
  "vclock_set i v c = omap_put i v c"

definition vclock_has :: "'i clock \<Rightarrow> 'i \<Rightarrow> bool" where
  "vclock_has c i = alist_has i c"

definition vclock_empty :: "'i clock \<Rightarrow> bool" where
  "vclock_empty c \<longleftrightarrow> c = []"

definition vclock_merge :: "'i::linorder clock \<Rightarrow> 'i clock \<Rightarrow> 'i clock" where
  "vclock_merge c o' =
     foldl (\<lambda>c p. let (v, c1) = vclock_ref (fst p) c in vclock_set (fst p) (max v (snd p)) c1) c o'"

definition get_keys :: "'i clock \<Rightarrow> 'i list" where
  "get_keys c = map fst c"

text \<open>\<^verbatim>\<open>std::set_union\<close> of two ordered key sets.\<close>

fun merge_keys :: "'i::linorder list \<Rightarrow> 'i list \<Rightarrow> 'i list" where
  "merge_keys [] ys = ys"
| "merge_keys xs [] = xs"
| "merge_keys (x # xs) (y # ys) =
     (if x < y then x # merge_keys xs (y # ys)
      else if y < x then y # merge_keys (x # xs) ys
      else x # merge_keys xs ys)"

text \<open>
  \<^verbatim>\<open>static_cast<ptrdiff_t>(lv) - static_cast<ptrdiff_t>(rv)\<close>: both counters are reinterpreted as
  signed, and a signed subtraction that overflows is undefined.
\<close>

definition signed_diff :: "u64 \<Rightarrow> u64 \<Rightarrow> int outcome" where
  "signed_diff lv rv =
     (let d = sint lv - sint rv in if - (2 ^ 63) \<le> d \<and> d < 2 ^ 63 then Ok d else Undef)"

fun compare_loop :: "'i list \<Rightarrow> 'i clock \<Rightarrow> 'i clock \<Rightarrow> bool \<Rightarrow> bool \<Rightarrow> (bool \<times> bool) outcome" where
  "compare_loop [] c o' l g = Ok (l, g)"
| "compare_loop (k # ks) c o' l g =
     bindO (signed_diff (vclock_val c k) (vclock_val o' k)) (\<lambda>diff.
       compare_loop ks c o' (if diff < 0 then True else l) (if diff > 0 then True else g))"

definition vclock_compare :: "'i::linorder clock \<Rightarrow> 'i clock \<Rightarrow> int outcome" where
  "vclock_compare c o' =
     bindO (compare_loop (merge_keys (get_keys c) (get_keys o')) c o' False False) (\<lambda>(l, g).
       Ok (if l \<and> g then 0 else if l then - 1 else if g then 1 else 0))"

definition vclock_identical :: "'i clock \<Rightarrow> 'i clock \<Rightarrow> bool" where
  "vclock_identical c o' \<longleftrightarrow> c = o'"

definition vclock_less :: "'i::linorder clock \<Rightarrow> 'i clock \<Rightarrow> bool outcome" where
  "vclock_less c o' = bindO (vclock_compare c o') (\<lambda>r. Ok (r = - 1))"

definition vclock_greater :: "'i::linorder clock \<Rightarrow> 'i clock \<Rightarrow> bool outcome" where
  "vclock_greater c o' = bindO (vclock_compare c o') (\<lambda>r. Ok (r = 1))"

definition vclock_less_eq :: "'i::linorder clock \<Rightarrow> 'i clock \<Rightarrow> bool outcome" where
  "vclock_less_eq c o' = bindO (vclock_compare c o') (\<lambda>r. Ok (r = - 1 \<or> vclock_identical c o'))"

definition vclock_greater_eq :: "'i::linorder clock \<Rightarrow> 'i clock \<Rightarrow> bool outcome" where
  "vclock_greater_eq c o' = bindO (vclock_compare c o') (\<lambda>r. Ok (r = 1 \<or> vclock_identical c o'))"

definition vclock_concurrent :: "'i::linorder clock \<Rightarrow> 'i clock \<Rightarrow> bool outcome" where
  "vclock_concurrent c o' = bindO (vclock_compare c o') (\<lambda>r. Ok (r = 0))"

definition vclock_conflict :: "'i::linorder clock \<Rightarrow> 'i clock \<Rightarrow> bool outcome" where
  "vclock_conflict c o' = bindO (vclock_concurrent c o') (\<lambda>b. Ok (b \<and> \<not> vclock_identical c o'))"

section \<open>Tracked clocks\<close>

record 'i tracked =
  tv_c :: "'i clock"
  tv_i :: 'i

definition tracked_new :: "'i::linorder \<Rightarrow> 'i tracked" where
  "tracked_new i = \<lparr>tv_c = vclock_set i 1 [], tv_i = i\<rparr>"

definition tracked_at :: "'i::linorder \<Rightarrow> u64 \<Rightarrow> 'i tracked" where
  "tracked_at i v = \<lparr>tv_c = vclock_set i v [], tv_i = i\<rparr>"

definition tracked_of :: "'i::linorder \<Rightarrow> 'i clock \<Rightarrow> 'i tracked" where
  "tracked_of i c = \<lparr>tv_c = (if vclock_has c i then c else vclock_set i 1 c), tv_i = i\<rparr>"

text \<open>The post-increment: the counter wraps at 64 bits.\<close>

definition tracked_incr :: "'i::linorder tracked \<Rightarrow> 'i tracked" where
  "tracked_incr t = (let (v, c1) = vclock_ref (tv_i t) (tv_c t) in t\<lparr>tv_c := vclock_set (tv_i t) (v + 1) c1\<rparr>)"

definition tracked_merge :: "'i::linorder tracked \<Rightarrow> 'i tracked \<Rightarrow> 'i tracked outcome" where
  "tracked_merge t o' =
     contract (\<not> vclock_empty (tv_c o'))
       (let t' = t\<lparr>tv_c := vclock_merge (tv_c t) (tv_c o')\<rparr>
        in contract (vclock_has (tv_c t') (tv_i t')) (Ok t'))"

definition tracked_compare :: "'i::linorder tracked \<Rightarrow> 'i tracked \<Rightarrow> int outcome" where
  "tracked_compare t o' =
     contract (\<not> vclock_empty (tv_c o'))
       (contract (vclock_has (tv_c t) (tv_i t)) (vclock_compare (tv_c t) (tv_c o')))"

definition tracked_assign :: "'i::linorder tracked \<Rightarrow> u64 \<Rightarrow> 'i tracked outcome" where
  "tracked_assign t v =
     contract (vclock_has (tv_c t) (tv_i t)) (Ok (t\<lparr>tv_c := vclock_set (tv_i t) v (tv_c t)\<rparr>))"

definition tracked_identical :: "'i::linorder tracked \<Rightarrow> 'i tracked \<Rightarrow> bool outcome" where
  "tracked_identical t o' =
     contract (\<not> vclock_empty (tv_c o'))
       (contract (vclock_has (tv_c t) (tv_i t)) (Ok (vclock_identical (tv_c t) (tv_c o'))))"

definition tracked_less :: "'i::linorder tracked \<Rightarrow> 'i tracked \<Rightarrow> bool outcome" where
  "tracked_less x y =
     contract (\<not> vclock_empty (tv_c y)) (contract (vclock_has (tv_c x) (tv_i x)) (vclock_less (tv_c x) (tv_c y)))"

definition tracked_greater :: "'i::linorder tracked \<Rightarrow> 'i tracked \<Rightarrow> bool outcome" where
  "tracked_greater x y =
     contract (\<not> vclock_empty (tv_c y)) (contract (vclock_has (tv_c x) (tv_i x)) (vclock_greater (tv_c x) (tv_c y)))"

definition tracked_less_eq :: "'i::linorder tracked \<Rightarrow> 'i tracked \<Rightarrow> bool outcome" where
  "tracked_less_eq x y =
     contract (\<not> vclock_empty (tv_c y)) (contract (vclock_has (tv_c x) (tv_i x)) (vclock_less_eq (tv_c x) (tv_c y)))"

definition tracked_greater_eq :: "'i::linorder tracked \<Rightarrow> 'i tracked \<Rightarrow> bool outcome" where
  "tracked_greater_eq x y =
     contract (\<not> vclock_empty (tv_c y)) (contract (vclock_has (tv_c x) (tv_i x)) (vclock_greater_eq (tv_c x) (tv_c y)))"

definition tracked_concurrent :: "'i::linorder tracked \<Rightarrow> 'i tracked \<Rightarrow> bool outcome" where
  "tracked_concurrent t o' =
     contract (\<not> vclock_empty (tv_c o'))
       (contract (vclock_has (tv_c t) (tv_i t)) (vclock_concurrent (tv_c t) (tv_c o')))"

definition tracked_conflict :: "'i::linorder tracked \<Rightarrow> 'i tracked \<Rightarrow> bool outcome" where
  "tracked_conflict t o' =
     contract (\<not> vclock_empty (tv_c o'))
       (contract (vclock_has (tv_c t) (tv_i t)) (vclock_conflict (tv_c t) (tv_c o')))"

section \<open>Conversion to dictionaries\<close>

definition sclock_to_dict :: "string clock \<Rightarrow> dict" where
  "sclock_to_dict cs = foldl (\<lambda>d c. dict_put (fst c) (VSize (snd c)) d) [] cs"

fun sclock_entries :: "dict \<Rightarrow> string clock \<Rightarrow> string clock outcome" where
  "sclock_entries [] c = Ok c"
| "sclock_entries (p # ps) c =
     bindO (as_size (snd p)) (\<lambda>n. sclock_entries ps (vclock_set (fst p) n c))"

definition to_sclock :: "dict \<Rightarrow> string clock outcome" where
  "to_sclock d = sclock_entries d []"

definition tracked_to_dict :: "string tracked \<Rightarrow> dict" where
  "tracked_to_dict c =
     dict_put ''v'' (VDict (sclock_to_dict (tv_c c))) (dict_put ''i'' (value_of_string (tv_i c)) [])"

definition to_tracked_sclock :: "dict \<Rightarrow> string tracked outcome" where
  "to_tracked_sclock d =
     bindO (bindO (dict_get d ''i'') as_string) (\<lambda>i.
     bindO (bindO (bindO (dict_get d ''v'') as_dict) to_sclock) (\<lambda>c.
       Ok (tracked_of i c)))"

section \<open>The merge is a join\<close>

definition clock_ok :: "'i::linorder clock \<Rightarrow> bool" where
  "clock_ok c \<longleftrightarrow> omap_ok c"

lemma vclock_step_ok:
  assumes "clock_ok c"
  shows "clock_ok (let (v, c1) = vclock_ref i c in vclock_set i (max v x) c1)"
    and "map_of (let (v, c1) = vclock_ref i c in vclock_set i (max v x) c1)
      = (map_of c)(i \<mapsto> max (vclock_val c i) x)"
  using assms by (auto simp: vclock_ref_def vclock_set_def vclock_val_def clock_ok_def split: option.splits)

lemma vclock_merge_Nil [simp]: "vclock_merge c [] = c"
  by (simp add: vclock_merge_def)

lemma vclock_merge_Cons:
  "vclock_merge c (p # ps) =
     vclock_merge (let (v, c1) = vclock_ref (fst p) c in vclock_set (fst p) (max v (snd p)) c1) ps"
  by (simp add: vclock_merge_def)

lemma vclock_merge_map:
  assumes "clock_ok c" "clock_ok o'"
  shows "clock_ok (vclock_merge c o') \<and>
    map_of (vclock_merge c o') i =
      (case map_of o' i of None \<Rightarrow> map_of c i | Some v \<Rightarrow> Some (max (vclock_val c i) v))"
  using assms
proof (induction o' arbitrary: c)
  case Nil
  then show ?case by simp
next
  case (Cons p ps)
  obtain k v where p: "p = (k, v)" by (cases p)
  have ps: "clock_ok ps" "map_of ps k = None"
    using Cons.prems(2) p by (auto simp: clock_ok_def map_of_eq_None_iff)
  from vclock_step_ok [OF Cons.prems(1), of k v] Cons.IH [OF _ ps(1)] ps(2) p
  show ?case by (auto simp: vclock_merge_Cons vclock_val_def split: option.splits)
qed

lemmas vclock_merge_ok = vclock_merge_map [THEN conjunct1]
  and map_of_vclock_merge = vclock_merge_map [THEN conjunct2]

lemma vclock_val_merge:
  "clock_ok c \<Longrightarrow> clock_ok o' \<Longrightarrow> vclock_val (vclock_merge c o') i = max (vclock_val c i) (vclock_val o' i)"
  by (auto simp: vclock_val_def map_of_vclock_merge max_def split: option.splits)

lemma clock_eqI:
  "clock_ok c \<Longrightarrow> clock_ok d \<Longrightarrow> (\<And>i. map_of c i = map_of d i) \<Longrightarrow> c = d"
  unfolding clock_ok_def by (rule omap_eqI) auto

lemma vclock_merge_assoc:
  "clock_ok a \<Longrightarrow> clock_ok b \<Longrightarrow> clock_ok c \<Longrightarrow>
   vclock_merge (vclock_merge a b) c = vclock_merge a (vclock_merge b c)"
  by (rule clock_eqI)
    (auto simp: vclock_merge_ok map_of_vclock_merge vclock_val_def max.assoc split: option.splits)

lemma vclock_merge_comm: "clock_ok a \<Longrightarrow> clock_ok b \<Longrightarrow> vclock_merge a b = vclock_merge b a"
  by (rule clock_eqI)
    (auto simp: vclock_merge_ok map_of_vclock_merge vclock_val_def max.commute split: option.splits)

lemma vclock_merge_idem: "clock_ok a \<Longrightarrow> vclock_merge a a = a"
  by (rule clock_eqI) (auto simp: vclock_merge_ok map_of_vclock_merge vclock_val_def split: option.splits)

text \<open>
  A state that replicas exchange and join.  Whatever order the states arrive in, and however often
  each arrives, the joined result depends only on which states arrived.
\<close>

locale join_state =
  fixes join :: "'s \<Rightarrow> 's \<Rightarrow> 's" and inv :: "'s \<Rightarrow> bool"
  assumes inv_join: "inv a \<Longrightarrow> inv b \<Longrightarrow> inv (join a b)"
    and join_assoc: "inv a \<Longrightarrow> inv b \<Longrightarrow> inv c \<Longrightarrow> join (join a b) c = join a (join b c)"
    and join_comm: "inv a \<Longrightarrow> inv b \<Longrightarrow> join a b = join b a"
    and join_idem: "inv a \<Longrightarrow> join a a = a"
begin

lemma inv_foldl: "inv s \<Longrightarrow> list_all inv xs \<Longrightarrow> inv (foldl join s xs)"
  by (induction xs arbitrary: s) (auto intro: inv_join)

lemma foldl_join_out:
  "inv s \<Longrightarrow> inv x \<Longrightarrow> list_all inv xs \<Longrightarrow> foldl join (join s x) xs = join (foldl join s xs) x"
proof (induction xs arbitrary: s)
  case (Cons y ys)
  have "join (join s x) y = join (join s y) x"
    using Cons.prems by (simp add: join_assoc join_comm [of x y])
  with Cons show ?case by (simp add: inv_join)
qed simp

lemma foldl_absorb_start: "inv s \<Longrightarrow> list_all inv xs \<Longrightarrow> join (foldl join s xs) s = foldl join s xs"
proof (induction xs rule: rev_induct)
  case Nil
  then show ?case by (simp add: join_idem)
next
  case (snoc x xs)
  let ?f = "foldl join s xs"
  have f: "inv ?f" "inv x" "join ?f s = ?f" using snoc by (auto intro: inv_foldl)
  then have "join (join ?f x) s = join (join ?f s) x"
    using snoc.prems(1) by (metis join_assoc join_comm)
  with f show ?case by simp
qed

lemma foldl_absorb: "inv s \<Longrightarrow> list_all inv xs \<Longrightarrow> x \<in> set xs \<Longrightarrow> join (foldl join s xs) x = foldl join s xs"
proof (induction xs rule: rev_induct)
  case (snoc y ys)
  let ?f = "foldl join s ys"
  have f: "inv ?f" "inv y" "inv x" using snoc by (auto intro: inv_foldl simp: list_all_iff)
  show ?case
  proof (cases "x = y")
    case True
    then show ?thesis using f by (simp add: join_assoc join_idem)
  next
    case False
    with snoc have IH: "join ?f x = ?f" by auto
    have "join (join ?f y) x = join (join ?f x) y" using f by (simp add: join_assoc join_comm [of y x])
    with IH show ?thesis by simp
  qed
qed simp

lemma foldl_absorb_all:
  assumes "inv t" "list_all inv xs" "join t s = t" "inv s" "\<And>x. x \<in> set xs \<Longrightarrow> join t x = t"
  shows "join t (foldl join s xs) = t"
  using assms
proof (induction xs rule: rev_induct)
  case (snoc x xs)
  then have "join t (foldl join s xs) = t" "join t x = t" by auto
  moreover have "inv (foldl join s xs)" "inv x" using snoc.prems by (auto intro: inv_foldl)
  ultimately show ?case using snoc.prems(1) by (simp add: join_assoc [symmetric])
qed simp

theorem convergence:
  assumes "inv s" "list_all inv xs" "list_all inv ys" "set xs = set ys"
  shows "foldl join s xs = foldl join s ys"
proof -
  have "join (foldl join s xs) (foldl join s ys) = foldl join s xs"
    using assms by (intro foldl_absorb_all) (auto intro: inv_foldl foldl_absorb_start foldl_absorb)
  moreover have "join (foldl join s ys) (foldl join s xs) = foldl join s ys"
    using assms by (intro foldl_absorb_all) (auto intro: inv_foldl foldl_absorb_start foldl_absorb)
  moreover have "join (foldl join s xs) (foldl join s ys) = join (foldl join s ys) (foldl join s xs)"
    using assms by (intro join_comm) (auto intro: inv_foldl)
  ultimately show ?thesis by simp
qed

end

interpretation vc: join_state "vclock_merge :: 'i::linorder clock \<Rightarrow> 'i clock \<Rightarrow> 'i clock" clock_ok
  by unfold_locales (auto intro: vclock_merge_ok vclock_merge_assoc vclock_merge_comm vclock_merge_idem)

section \<open>Comparison is the component-wise order\<close>

definition clock_small :: "'i clock \<Rightarrow> bool" where
  "clock_small c \<longleftrightarrow> list_all (\<lambda>p. unat (snd p) < 2 ^ 63) c"

definition clock_le :: "'i clock \<Rightarrow> 'i clock \<Rightarrow> bool" where
  "clock_le c o' \<longleftrightarrow> (\<forall>i. vclock_val c i \<le> vclock_val o' i)"

lemma uint_small: "unat (w :: u64) < 2 ^ 63 \<Longrightarrow> uint w < 2 ^ 63"
  by (drule of_nat_less_iff [where ?'a = int, THEN iffD2]) simp

lemma sint_small: "unat (w :: u64) < 2 ^ 63 \<Longrightarrow> sint w = uint w"
proof -
  assume "unat w < 2 ^ 63"
  then have "uint w < 2 ^ 63" by (rule uint_small)
  moreover have "- (2 ^ 63) \<le> uint w" by (rule order_trans [of _ 0]) simp_all
  ultimately have "signed_take_bit 63 (uint w) = uint w" by (simp only: signed_take_bit_int_eq_self)
  then show ?thesis by (simp add: sint_uint)
qed

lemma vclock_val_small: "clock_small c \<Longrightarrow> unat (vclock_val c i) < 2 ^ 63"
  by (auto simp: clock_small_def vclock_val_def list_all_iff dest!: map_of_SomeD split: option.splits)

lemma signed_diff_small:
  "unat a < 2 ^ 63 \<Longrightarrow> unat b < 2 ^ 63 \<Longrightarrow> signed_diff a b = Ok (int (unat a) - int (unat b))"
proof -
  assume a: "unat a < 2 ^ 63" and b: "unat b < 2 ^ 63"
  then have "uint a < 2 ^ 63" "uint b < 2 ^ 63" by (simp_all only: uint_small)
  with uint_ge_0 [of a] uint_ge_0 [of b]
  have "- (2 ^ 63) \<le> uint a - uint b \<and> uint a - uint b < 2 ^ 63" by linarith
  then show ?thesis
    unfolding signed_diff_def sint_small [OF a] sint_small [OF b] Let_def by simp
qed

lemma signed_diff_clock:
  "clock_small c \<Longrightarrow> clock_small o' \<Longrightarrow>
   signed_diff (vclock_val c k) (vclock_val o' k)
     = Ok (int (unat (vclock_val c k)) - int (unat (vclock_val o' k)))"
  by (intro signed_diff_small vclock_val_small)

lemma compare_loop_small:
  "clock_small c \<Longrightarrow> clock_small o' \<Longrightarrow>
   compare_loop ks c o' l g =
     Ok (l \<or> (\<exists>k \<in> set ks. vclock_val c k < vclock_val o' k),
         g \<or> (\<exists>k \<in> set ks. vclock_val o' k < vclock_val c k))"
  by (induction ks arbitrary: l g)
    (auto simp: signed_diff_clock word_less_def simp del: bindO_Ok_iff)

lemma set_merge_keys [simp]: "set (merge_keys xs ys) = set xs \<union> set ys"
  by (induction xs ys rule: merge_keys.induct) auto

lemma vclock_val_notin: "i \<notin> fst ` set c \<Longrightarrow> vclock_val c i = 0"
  by (simp add: vclock_val_def map_of_eq_None_iff [THEN iffD2])

lemma ex_key_less:
  "(\<exists>k \<in> set (merge_keys (get_keys c) (get_keys o')). vclock_val a k < vclock_val b k)
    \<longleftrightarrow> (\<exists>k. vclock_val a k < vclock_val b k)"
  if "{a, b} = {c, o'}"
proof -
  have "k \<in> fst ` set c \<union> fst ` set o'" if "vclock_val a k < vclock_val b k" for k
    using that \<open>{a, b} = {c, o'}\<close> vclock_val_notin [of k c] vclock_val_notin [of k o']
    by (auto simp: doubleton_eq_iff)
  then show ?thesis by (fastforce simp: get_keys_def)
qed

lemma vclock_compare_small:
  assumes "clock_small c" "clock_small o'"
  shows "vclock_compare c o' =
    Ok (if clock_le c o' \<and> \<not> clock_le o' c then - 1
        else if clock_le o' c \<and> \<not> clock_le c o' then 1 else 0)"
proof -
  let ?ks = "merge_keys (get_keys c) (get_keys o')"
  have "(\<exists>k \<in> set ?ks. vclock_val c k < vclock_val o' k) \<longleftrightarrow> \<not> clock_le o' c"
    using ex_key_less [of c o' c o'] by (auto simp: clock_le_def not_le)
  moreover have "(\<exists>k \<in> set ?ks. vclock_val o' k < vclock_val c k) \<longleftrightarrow> \<not> clock_le c o'"
    using ex_key_less [of o' c c o'] by (auto simp: clock_le_def not_le insert_commute)
  ultimately show ?thesis
    unfolding vclock_compare_def compare_loop_small [OF assms] by simp
qed

section \<open>Tracked clocks keep their own entry\<close>

definition tracked_inv :: "'i::linorder tracked \<Rightarrow> bool" where
  "tracked_inv t \<longleftrightarrow> clock_ok (tv_c t) \<and> vclock_has (tv_c t) (tv_i t)"

lemma clock_ok_Nil [simp]: "clock_ok []"
  by (simp add: clock_ok_def)

lemma clock_ok_set [simp]: "clock_ok c \<Longrightarrow> clock_ok (vclock_set i v c)"
  by (simp add: clock_ok_def vclock_set_def)

lemma map_of_vclock_set [simp]: "clock_ok c \<Longrightarrow> map_of (vclock_set i v c) = (map_of c)(i \<mapsto> v)"
  by (simp add: clock_ok_def vclock_set_def)

lemma vclock_has_iff: "vclock_has c i \<longleftrightarrow> map_of c i \<noteq> None"
  by (simp add: vclock_has_def map_of_eq_None_iff)

lemma tracked_inv_constructors:
  "tracked_inv (tracked_new i)" "tracked_inv (tracked_at i v)"
  "clock_ok c \<Longrightarrow> tracked_inv (tracked_of i c)"
  by (auto simp: tracked_inv_def tracked_new_def tracked_at_def tracked_of_def vclock_has_iff)

lemma tracked_incr_spec:
  assumes "tracked_inv t"
  shows "tracked_inv (tracked_incr t)" and "tv_i (tracked_incr t) = tv_i t"
    and "vclock_val (tv_c (tracked_incr t)) k =
      (if k = tv_i t then vclock_val (tv_c t) k + 1 else vclock_val (tv_c t) k)"
  using assms
  by (auto simp: tracked_inv_def tracked_incr_def vclock_ref_def vclock_has_iff vclock_val_def
      split: option.splits)

lemma tracked_inv_nonempty: "tracked_inv t \<Longrightarrow> \<not> vclock_empty (tv_c t)"
  by (auto simp: tracked_inv_def vclock_empty_def vclock_has_iff)

lemma tracked_merge_spec:
  assumes "tracked_inv t" "tracked_inv o'"
  shows "tracked_merge t o' = Ok (t\<lparr>tv_c := vclock_merge (tv_c t) (tv_c o')\<rparr>)"
    and "tracked_inv (t\<lparr>tv_c := vclock_merge (tv_c t) (tv_c o')\<rparr>)"
proof -
  have ok: "clock_ok (tv_c t)" "clock_ok (tv_c o')" "vclock_has (tv_c t) (tv_i t)"
    using assms by (auto simp: tracked_inv_def)
  then have has: "vclock_has (vclock_merge (tv_c t) (tv_c o')) (tv_i t)"
    by (auto simp: vclock_has_iff map_of_vclock_merge split: option.splits)
  then show "tracked_merge t o' = Ok (t\<lparr>tv_c := vclock_merge (tv_c t) (tv_c o')\<rparr>)"
    using tracked_inv_nonempty [OF assms(2)] by (simp add: tracked_merge_def)
  show "tracked_inv (t\<lparr>tv_c := vclock_merge (tv_c t) (tv_c o')\<rparr>)"
    using has ok by (simp add: tracked_inv_def vclock_merge_ok)
qed

lemma tracked_compare_spec:
  "tracked_inv t \<Longrightarrow> tracked_inv o' \<Longrightarrow> tracked_compare t o' = vclock_compare (tv_c t) (tv_c o')"
  by (simp add: tracked_compare_def tracked_inv_nonempty) (simp add: tracked_inv_def)

lemma tracked_identical_spec:
  "tracked_inv t \<Longrightarrow> tracked_inv o' \<Longrightarrow> tracked_identical t o' = Ok (tv_c t = tv_c o')"
  by (simp add: tracked_identical_def tracked_inv_nonempty)
    (simp add: tracked_inv_def vclock_identical_def)

section \<open>Clocks as dictionaries\<close>

lemma sclock_entries_spec:
  assumes "clock_ok c" "distinct (keys d)" "\<And>p. p \<in> set d \<Longrightarrow> \<exists>n. snd p = VSize n"
  shows "\<exists>c'. sclock_entries d c = Ok c' \<and> clock_ok c' \<and>
    (\<forall>k. map_of c' k = (case map_of d k of None \<Rightarrow> map_of c k | Some v \<Rightarrow>
       (case v of VSize n \<Rightarrow> Some n | _ \<Rightarrow> None)))"
  using assms
proof (induction d arbitrary: c)
  case Nil
  then show ?case by simp
next
  case (Cons p ps)
  obtain k n where p: "p = (k, VSize n)" using Cons.prems(3) [of p] by (cases p) auto
  have "clock_ok (vclock_set k n c)" using Cons.prems(1) by simp
  from Cons.IH [OF this] Cons.prems obtain c' where c': "sclock_entries ps (vclock_set k n c) = Ok c'"
    "clock_ok c'" "\<And>k'. map_of c' k' = (case map_of ps k' of None \<Rightarrow> map_of (vclock_set k n c) k'
       | Some v \<Rightarrow> (case v of VSize n \<Rightarrow> Some n | _ \<Rightarrow> None))"
    by auto
  moreover have "map_of ps k = None" using Cons.prems(2) p by (simp add: map_of_eq_None_iff)
  ultimately show ?case using p Cons.prems(1) by (auto split: option.splits)
qed

lemma to_sclock_any_order:
  assumes c: "clock_ok c" and d: "distinct (keys d)" "\<And>k. map_of d k = map_option VSize (map_of c k)"
  shows "to_sclock d = Ok c"
proof -
  have "\<exists>n. snd p = VSize n" if "p \<in> set d" for p
  proof -
    have "map_of d (fst p) = Some (snd p)" using d(1) that by (intro map_of_is_SomeI) auto
    with d(2) [of "fst p"] show ?thesis by (cases "map_of c (fst p)") auto
  qed
  from sclock_entries_spec [OF clock_ok_Nil d(1) this]
  obtain c' where c': "sclock_entries d [] = Ok c'" "clock_ok c'"
    "\<And>k. map_of c' k = (case map_of d k of None \<Rightarrow> map_of [] k | Some v \<Rightarrow> (case v of VSize n \<Rightarrow> Some n | _ \<Rightarrow> None))"
    by blast
  have "c' = c" using c' c d(2) by (intro clock_eqI) (auto split: option.splits)
  with c'(1) show ?thesis by (simp add: to_sclock_def)
qed

lemma sclock_to_dict_eq: "distinct (keys (cs :: string clock)) \<Longrightarrow> sclock_to_dict cs = map (\<lambda>p. (fst p, VSize (snd p))) cs"
proof -
  have "foldl (\<lambda>d c. dict_put (fst c) (VSize (snd c)) d) d cs = d @ map (\<lambda>p. (fst p, VSize (snd p))) cs"
    if "distinct (keys d @ keys cs)" for d and cs :: "string clock"
    using that by (induction cs arbitrary: d) (auto simp: dict_put_def alist_put_new)
  from this [of "[]" cs] show "distinct (keys cs) \<Longrightarrow> ?thesis" by (simp add: sclock_to_dict_def)
qed

lemma map_of_sclock_to_dict:
  "clock_ok cs \<Longrightarrow> map_of (sclock_to_dict cs) k = map_option VSize (map_of cs k)"
  by (simp add: sclock_to_dict_eq clock_ok_def omap_distinct) (induction cs, auto)

lemma distinct_sclock_to_dict: "clock_ok cs \<Longrightarrow> distinct (keys (sclock_to_dict cs))"
  by (simp add: sclock_to_dict_eq clock_ok_def omap_distinct comp_def)

lemma to_tracked_roundtrip:
  assumes "tracked_inv t"
  shows "to_tracked_sclock (tracked_to_dict t) = Ok t"
proof -
  have ok: "clock_ok (tv_c t)" "vclock_has (tv_c t) (tv_i t)" using assms by (auto simp: tracked_inv_def)
  have "to_sclock (sclock_to_dict (tv_c t)) = Ok (tv_c t)"
    using ok by (intro to_sclock_any_order) (auto simp: distinct_sclock_to_dict map_of_sclock_to_dict)
  with ok show ?thesis
    by (simp add: to_tracked_sclock_def tracked_to_dict_def dict_put_def dict_get_def value_of_string_def
        to_bytes_def to_str_def tracked_of_def)
qed

section \<open>Properties\<close>

text \<open>
  Comparing two clocks whose counters are below 2^63 decides the component-wise order: -1 exactly
  when the left clock happened strictly before the right one, 1 exactly when it happened strictly
  after, and 0 when they agree everywhere or are concurrent.  Missing ids count as zero.
\<close>

theorem vclock_compare_order:
  assumes "clock_small c" and "clock_small o'"
  shows "vclock_compare c o' =
    Ok (if clock_le c o' \<and> \<not> clock_le o' c then - 1
        else if clock_le o' c \<and> \<not> clock_le c o' then 1 else 0)"
  using assms by (rule vclock_compare_small)

theorem vclock_compare_order_witness:
  "vclock_compare [(1::nat, 2), (2, 1)] [(1, 2), (3, 5)] = Ok 0"
proof -
  have "clock_small [(1::nat, 2), (2, 1)]" "clock_small [(1::nat, 2), (3, 5)]"
    by (simp_all add: clock_small_def)
  moreover have "\<not> clock_le [(1::nat, 2), (2, 1)] [(1, 2), (3, 5)]" 
    unfolding clock_le_def by (rule notI, drule spec [of _ 2]) (simp add: vclock_val_def)
  moreover have "\<not> clock_le [(1::nat, 2), (3, 5)] [(1, 2), (2, 1)]"
    unfolding clock_le_def by (rule notI, drule spec [of _ 3]) (simp add: vclock_val_def)
  ultimately show ?thesis using vclock_compare_order by fastforce
qed

text \<open>
  C20. Replicas that merge the same set of clocks into the same starting clock end with identical
  clocks, whatever the order of the merges and however often a clock is merged again.
\<close>

theorem vclock_convergence:
  assumes "clock_ok c" and "list_all clock_ok xs" and "list_all clock_ok ys" and "set xs = set ys"
  shows "vclock_identical (foldl vclock_merge c xs) (foldl vclock_merge c ys)"
  using vc.convergence [OF assms] by (simp add: vclock_identical_def)

theorem vclock_convergence_witness:
  "vclock_identical (foldl vclock_merge [(1::nat, 1)] [[(2, 3)], [(1, 4)]])
     (foldl vclock_merge [(1, 1)] [[(1, 4)], [(2, 3)], [(1, 4)]])"
  by (rule vclock_convergence) (auto simp: clock_ok_def)

text \<open>
  A tracked clock always holds its own id: every constructor establishes it and increment,
  assignment and merge keep it, so the checks \<^verbatim>\<open>INVARIANT(_c.has(_i))\<close> and \<^verbatim>\<open>REQUIRE_FALSE(o._c.empty())\<close>
  of merge never fail, and the merged clock is the least upper bound of both.
\<close>

theorem tracked_clock_invariant:
  assumes "tracked_inv t" and "tracked_inv o'"
  shows "tracked_inv (tracked_incr t) \<and>
    (\<exists>t'. tracked_assign t v = Ok t' \<and> tracked_inv t') \<and>
    (\<exists>t'. tracked_merge t o' = Ok t' \<and> tracked_inv t' \<and> tv_i t' = tv_i t \<and>
       (\<forall>k. vclock_val (tv_c t') k = max (vclock_val (tv_c t) k) (vclock_val (tv_c o') k)))"
proof (intro conjI)
  show "tracked_inv (tracked_incr t)" using assms(1) by (rule tracked_incr_spec)
  show "\<exists>t'. tracked_assign t v = Ok t' \<and> tracked_inv t'"
    using assms(1) by (auto simp: tracked_assign_def tracked_inv_def vclock_has_iff)
  show "\<exists>t'. tracked_merge t o' = Ok t' \<and> tracked_inv t' \<and> tv_i t' = tv_i t \<and>
           (\<forall>k. vclock_val (tv_c t') k = max (vclock_val (tv_c t) k) (vclock_val (tv_c o') k))"
    using tracked_merge_spec [OF assms] assms by (auto simp: tracked_inv_def vclock_val_merge)
qed

theorem tracked_clock_invariant_witness:
  "\<exists>t'. tracked_merge (tracked_new (1::nat)) (tracked_at 2 7) = Ok t' \<and> tracked_inv t' \<and> tv_i t' = 1"
  using tracked_clock_invariant [OF tracked_inv_constructors(1,2), of "1::nat" 0 2 7]
  by (auto simp: tracked_new_def)

text \<open>
  A clock sent as a dictionary is read back unchanged, in whatever order the dictionary's hash
  table is iterated; a tracked clock keeps its id as well.
\<close>

theorem clock_dict_roundtrip:
  assumes "clock_ok c" and "distinct (keys d)" and "\<And>k. map_of d k = map_of (sclock_to_dict c) k"
  shows "to_sclock d = Ok c"
  using assms by (intro to_sclock_any_order) (auto simp: map_of_sclock_to_dict)

theorem clock_dict_roundtrip_witness:
  "to_sclock [(''b'', VSize 2), (''a'', VSize 1)] = Ok [(''a'', 1), (''b'', 2)]"
  by (rule clock_dict_roundtrip) (auto simp: clock_ok_def sclock_to_dict_def dict_put_def)

end
