(* ===== verification/Dtl.thy ===== *)
theory Dtl
  imports Fire_Prelude "HOL-Library.Sublist"
begin

text \<open>
  The two-way difference \<^verbatim>\<open>dtl::Diff\<close> (\<^verbatim>\<open>src/src/dtl/Diff.hpp\<close>), the algorithm of Wu, Manber and Myers that needs O(NP) steps: the furthest points that
  are reached on every diagonal with a growing number of detours, kept in arrays of fixed size, and the path back, from which the edit script is
  recorded.  When too many points were stored, the part found so far is recorded and the search starts again on the rest.

  Accesses outside an array are \<open>Undef\<close>.  The 64-bit numbers of the code are integers here: they are indices of arrays that exist, or their sums.  The
  comparator is equality.
\<close>

section \<open>Edit scripts\<close>

datatype edit_t = SES_DELETE | SES_COMMON | SES_ADD

record elem_info =
  ei_before :: int
  ei_after :: int
  ei_type :: edit_t

type_synonym 'e ses_elem = "'e \<times> elem_info"

record 'e ses =
  ss_sequence :: "'e ses_elem list"
  ss_only_add :: bool
  ss_only_delete :: bool
  ss_only_copy :: bool
  ss_deletes_first :: bool
  ss_next_delete :: nat

definition ses_new :: "bool \<Rightarrow> 'e ses" where
  "ses_new move_del = \<lparr>ss_sequence = [], ss_only_add = True, ss_only_delete = True, ss_only_copy = True, ss_deletes_first = move_del, ss_next_delete = 0\<rparr>"

definition add_sequence :: "'e \<Rightarrow> int \<Rightarrow> int \<Rightarrow> edit_t \<Rightarrow> 'e ses \<Rightarrow> 'e ses" where
  "add_sequence e before_idx after_idx t s =
     (let pe = (e, \<lparr>ei_before = before_idx, ei_after = after_idx, ei_type = t\<rparr>);
          q = ss_sequence s; first = ss_deletes_first s;
          s1 = (if \<not> first then s\<lparr>ss_sequence := q @ [pe]\<rparr> else s)
      in case t of
        SES_DELETE \<Rightarrow>
          (let s2 = s1\<lparr>ss_only_copy := False, ss_only_add := False\<rparr>
           in if first then s2\<lparr>ss_sequence := take (ss_next_delete s) q @ pe # drop (ss_next_delete s) q, ss_next_delete := ss_next_delete s + 1\<rparr> else s2)
      | SES_COMMON \<Rightarrow>
          (let s2 = s1\<lparr>ss_only_add := False, ss_only_delete := False\<rparr>
           in if first then s2\<lparr>ss_sequence := q @ [pe], ss_next_delete := length q + 1\<rparr> else s2)
      | SES_ADD \<Rightarrow>
          (let s2 = s1\<lparr>ss_only_delete := False, ss_only_copy := False\<rparr>
           in if first then s2\<lparr>ss_sequence := q @ [pe]\<rparr> else s2))"

section \<open>State\<close>

record point =
  pt_x :: int
  pt_y :: int
  pt_k :: int

definition MAX_CORDINATES_SIZE :: nat where "MAX_CORDINATES_SIZE = 2000000"

record 'e diff =
  df_A :: "'e list"
  df_B :: "'e list"
  df_M :: nat
  df_N :: nat
  df_delta :: int
  df_offset :: int
  df_fp :: "int list"
  df_edit_distance :: int
  df_lcs :: "'e list"
  df_ses :: "'e ses"
  df_path :: "int list"
  df_cords :: "point list"
  df_swapped :: bool
  df_huge :: bool
  df_trivial :: bool
  df_edit_only :: bool

definition diff_new :: "bool \<Rightarrow> 'e list \<Rightarrow> 'e list \<Rightarrow> 'e diff" where
  "diff_new deletes_first a b =
     (let swapped = (\<not> length a < length b); A = (if swapped then b else a); B = (if swapped then a else b)
      in \<lparr>df_A = A, df_B = B, df_M = length A, df_N = length B, df_delta = int (length B) - int (length A), df_offset = int (length A) + 1, df_fp = [],
          df_edit_distance = 0, df_lcs = [], df_ses = ses_new deletes_first, df_path = [], df_cords = [], df_swapped = swapped, df_huge = False,
          df_trivial = False, df_edit_only = False\<rparr>)"

section \<open>The search\<close>

definition vec_at :: "'a list \<Rightarrow> int \<Rightarrow> 'a outcome" where
  "vec_at xs i = (if 0 \<le> i \<and> i < int (length xs) then Ok (xs ! nat i) else Undef)"

definition vec_put :: "'a list \<Rightarrow> int \<Rightarrow> 'a \<Rightarrow> 'a list outcome" where
  "vec_put xs i v = (if 0 \<le> i \<and> i < int (length xs) then Ok (xs[nat i := v]) else Undef)"

function snake_run :: "'e diff \<Rightarrow> int \<Rightarrow> int \<Rightarrow> int \<times> int" where
  "snake_run d x y =
     (if 0 \<le> x \<and> x < int (df_M d) \<and> 0 \<le> y \<and> y < int (df_N d) \<and> df_A d ! nat x = df_B d ! nat y
      then snake_run d (x + 1) (y + 1) else (x, y))"
  by pat_completeness auto
termination by (relation "measure (\<lambda>(d, x, y). nat (int (df_M d) - x))") auto

declare snake_run.simps [simp del]

definition snake :: "int \<Rightarrow> int \<Rightarrow> int \<Rightarrow> 'e diff \<Rightarrow> (int \<times> 'e diff) outcome" where
  "snake k abv blw d =
     bindO (vec_at (df_path d) ((if abv > blw then k - 1 else k + 1) + df_offset d)) (\<lambda>r.
       let (x, y) = snake_run d (max abv blw - k) (max abv blw) in
       bindO (vec_put (df_path d) (k + df_offset d) (int (length (df_cords d)))) (\<lambda>path1.
         let d1 = d\<lparr>df_path := path1\<rparr>
         in Ok (y, if df_edit_only d then d1 else d1\<lparr>df_cords := df_cords d @ [\<lparr>pt_x = x, pt_y = y, pt_k = r\<rparr>]\<rparr>)))"

text \<open>\<^verbatim>\<open>fp[k+offset] = snake(k, fp[k-1+offset]+1, fp[k+1+offset])\<close>\<close>

definition fp_step :: "int \<Rightarrow> 'e diff \<Rightarrow> 'e diff outcome" where
  "fp_step k d =
     bindO (vec_at (df_fp d) (k - 1 + df_offset d)) (\<lambda>a.
     bindO (vec_at (df_fp d) (k + 1 + df_offset d)) (\<lambda>b.
     bindO (snake k (a + 1) b d) (\<lambda>(y, d1).
     bindO (vec_put (df_fp d1) (k + df_offset d1) y) (\<lambda>f. Ok (d1\<lparr>df_fp := f\<rparr>)))))"

definition onp_round :: "int \<Rightarrow> 'e diff \<Rightarrow> 'e diff outcome" where
  "onp_round p d =
     bindO (foldO fp_step [- p..df_delta d - 1] d) (\<lambda>d1.
     bindO (foldO fp_step (rev [df_delta d + 1..df_delta d + p]) d1) (fp_step (df_delta d)))"

text \<open>The loop behind the label \<^verbatim>\<open>ONP\<close>; the smaller sequence gives a bound on the number of rounds.\<close>

primrec onp_loop :: "nat \<Rightarrow> int \<Rightarrow> 'e diff \<Rightarrow> (int \<times> 'e diff) outcome" where
  "onp_loop 0 p d = Diverge"
| "onp_loop (Suc n) p d =
     bindO (onp_round (p + 1) d) (\<lambda>d1.
     bindO (vec_at (df_fp d1) (df_delta d + df_offset d)) (\<lambda>y.
       if y \<noteq> int (df_N d1) \<and> length (df_cords d1) < MAX_CORDINATES_SIZE then onp_loop n (p + 1) d1 else Ok (p + 1, d1)))"

section \<open>Recording\<close>

text \<open>The points on the way back from the point \<open>r\<close>.\<close>

primrec backtrack :: "nat \<Rightarrow> point list \<Rightarrow> int \<Rightarrow> (int \<times> int) list outcome" where
  "backtrack 0 c r = (if r = - 1 then Ok [] else Diverge)"
| "backtrack (Suc n) c r =
     (if r = - 1 then Ok []
      else bindO (vec_at c r) (\<lambda>q. bindO (backtrack n c (pt_k q)) (\<lambda>e. Ok ((pt_x q, pt_y q) # e))))"

definition add_ses :: "'e \<Rightarrow> int \<Rightarrow> int \<Rightarrow> edit_t \<Rightarrow> 'e diff \<Rightarrow> 'e diff" where
  "add_ses e i j t d = d\<lparr>df_ses := add_sequence e i j t (df_ses d)\<rparr>"

text \<open>
  Recording up to one point.  The iterators \<^verbatim>\<open>x\<close> and \<^verbatim>\<open>y\<close> and the line numbers \<^verbatim>\<open>x_idx\<close> and \<^verbatim>\<open>y_idx\<close> move together with the coordinates
  \<^verbatim>\<open>px_idx\<close> and \<^verbatim>\<open>py_idx\<close>.
\<close>

function record_to :: "int \<times> int \<Rightarrow> int \<Rightarrow> int \<Rightarrow> 'e diff \<Rightarrow> (int \<times> int \<times> 'e diff) outcome" where
  "record_to v px py d =
     (if px < fst v \<or> py < snd v then
        if snd v - fst v > py - px then
          bindO (vec_at (df_B d) py) (\<lambda>e.
            record_to v px (py + 1) (if \<not> df_swapped d then add_ses e 0 (py + 1) SES_ADD d else add_ses e (py + 1) 0 SES_DELETE d))
        else if snd v - fst v < py - px then
          bindO (vec_at (df_A d) px) (\<lambda>e.
            record_to v (px + 1) py (if \<not> df_swapped d then add_ses e (px + 1) 0 SES_DELETE d else add_ses e 0 (px + 1) SES_ADD d))
        else
          bindO (if \<not> df_swapped d then vec_at (df_A d) px else vec_at (df_B d) py) (\<lambda>e.
            record_to v (px + 1) (py + 1)
              (let d1 = d\<lparr>df_lcs := df_lcs d @ [e]\<rparr>
               in if \<not> df_swapped d then add_ses e (px + 1) (py + 1) SES_COMMON d1 else add_ses e (py + 1) (px + 1) SES_COMMON d1))
      else Ok (px, py, d))"
  by pat_completeness auto
termination
  by (relation "measures [\<lambda>(v, px, py, d). nat \<bar>(snd v - fst v) - (py - px)\<bar>, \<lambda>(v, px, py, d). nat (fst v - px) + nat (snd v - py)]") auto

declare record_to.simps [simp del]

function record_odd :: "int \<Rightarrow> int \<Rightarrow> 'e list \<Rightarrow> int \<Rightarrow> edit_t \<Rightarrow> 'e diff \<Rightarrow> 'e diff outcome" where
  "record_odd idx len q i t d =
     bindO (vec_at q i) (\<lambda>e.
       let d1 = (add_ses e idx 0 t d)\<lparr>df_edit_distance := df_edit_distance d + 1\<rparr>
       in if idx < len then record_odd (idx + 1) len q (i + 1) t d1 else Ok d1)"
  by pat_completeness auto
termination by (relation "measure (\<lambda>(idx, len, q, i, t, d). nat (len - idx))") auto

definition restart :: "int \<Rightarrow> int \<Rightarrow> 'e diff \<Rightarrow> 'e diff outcome" where
  "restart px py d =
     (if px > int (length (df_A d)) \<or> py > int (length (df_B d)) then Undef
      else
        let A = drop (nat px) (df_A d); B = drop (nat py) (df_B d); M = length A; N = length B
        in Ok (d\<lparr>df_A := A, df_B := B, df_M := M, df_N := N, df_delta := int N - int M, df_offset := int M + 1,
                df_fp := replicate (M + N + 3) (- 1), df_path := replicate (length (df_path d)) (- 1)\<rparr>))"

definition record_sequence :: "(int \<times> int) list \<Rightarrow> 'e diff \<Rightarrow> (bool \<times> 'e diff) outcome" where
  "record_sequence v d =
     (if v = [] then Undef
      else bindO (foldO (\<lambda>c (px, py, d). record_to c px py d) (rev v) (0, 0, d)) (\<lambda>(px, py, d1).
        if px + 1 > int (df_M d1) \<and> py + 1 > int (df_N d1) then Ok (True, d1)
        else if df_trivial d1 then
          bindO (record_odd (px + 1) (int (df_M d1)) (df_A d1) px (if \<not> df_swapped d1 then SES_DELETE else SES_ADD) d1) (\<lambda>d2.
          bindO (record_odd (py + 1) (int (df_N d1)) (df_B d1) py (if \<not> df_swapped d1 then SES_ADD else SES_DELETE) d2) (\<lambda>d3. Ok (True, d3)))
        else bindO (restart px py d1) (\<lambda>d2. Ok (False, d2))))"

primrec compose_run :: "nat \<Rightarrow> 'e diff \<Rightarrow> 'e diff outcome" where
  "compose_run 0 d = Diverge"
| "compose_run (Suc n) d =
     bindO (onp_loop (Suc (df_M d)) (- 1) d) (\<lambda>(p, d1).
       let d2 = d1\<lparr>df_edit_distance := df_edit_distance d1 + df_delta d1 + 2 * p\<rparr> in
       bindO (vec_at (df_path d2) (df_delta d2 + df_offset d2)) (\<lambda>r.
         if df_edit_only d2 then Ok (d2\<lparr>df_fp := []\<rparr>)
         else bindO (backtrack (length (df_cords d2)) (df_cords d2) r) (\<lambda>epc.
           bindO (record_sequence epc d2) (\<lambda>(complete, d3).
             if complete then Ok (d3\<lparr>df_fp := []\<rparr>) else compose_run n (d3\<lparr>df_cords := []\<rparr>)))))"

definition diff_compose :: "'e diff \<Rightarrow> 'e diff outcome" where
  "diff_compose d =
     compose_run (Suc (df_M d + df_N d)) (d\<lparr>df_fp := replicate (df_M d + df_N d + 3) (- 1), df_path := replicate (df_M d + df_N d + 3) (- 1)\<rparr>)"

text \<open>
  \<^verbatim>\<open>patch\<close> applies the script to a list; \<open>pre\<close> is what lies before the iterator, \<open>post\<close> what it still points to.  Moving or erasing at the end is
  undefined.
\<close>

fun patch_loop :: "'e ses_elem list \<Rightarrow> 'e list \<Rightarrow> 'e list \<Rightarrow> 'e list outcome" where
  "patch_loop [] pre post = Ok (pre @ post)"
| "patch_loop ((e, i) # s) pre post =
     (case ei_type i of
        SES_ADD \<Rightarrow> patch_loop s (pre @ [e]) post
      | SES_DELETE \<Rightarrow> (case post of [] \<Rightarrow> Undef | _ # post1 \<Rightarrow> patch_loop s pre post1)
      | SES_COMMON \<Rightarrow> (case post of [] \<Rightarrow> Undef | x # post1 \<Rightarrow> patch_loop s (pre @ [x]) post1))"

definition diff_patch :: "'e diff \<Rightarrow> 'e list \<Rightarrow> 'e list outcome" where
  "diff_patch d q = patch_loop (ss_sequence (df_ses d)) [] q"

section \<open>Moves on the edit grid\<close>

text \<open>
  \<open>moves A B x y d\<close>: the point \<open>(x, y)\<close> can be reached from the origin with \<open>d\<close> deletions: every way to turn the first \<open>x\<close> elements of \<open>A\<close> into the
  first \<open>y\<close> of \<open>B\<close>.
\<close>

inductive moves :: "'e list \<Rightarrow> 'e list \<Rightarrow> int \<Rightarrow> int \<Rightarrow> int \<Rightarrow> bool" for A B where
  start: "moves A B 0 0 0"
| ins: "moves A B x y d \<Longrightarrow> y < int (length B) \<Longrightarrow> moves A B x (y + 1) d"
| del: "moves A B x y d \<Longrightarrow> x < int (length A) \<Longrightarrow> moves A B (x + 1) y (d + 1)"
| com: "moves A B x y d \<Longrightarrow> x < int (length A) \<Longrightarrow> y < int (length B) \<Longrightarrow> A ! nat x = B ! nat y \<Longrightarrow> moves A B (x + 1) (y + 1) d"

lemma moves_grid: "moves A B x y d \<Longrightarrow> 0 \<le> x \<and> x \<le> int (length A) \<and> 0 \<le> y \<and> y \<le> int (length B) \<and> 0 \<le> d \<and> x - y \<le> d"
  by (induction rule: moves.induct) auto

lemma moves_ins_many: "moves A B x y d \<Longrightarrow> y + int n \<le> int (length B) \<Longrightarrow> moves A B x (y + int n) d"
proof (induction n)
  case (Suc n)
  then have "moves A B x (y + int n + 1) d" by (intro moves.ins) auto
  then show ?case by (simp add: algebra_simps)
qed simp

lemma moves_del_many: "moves A B x y d \<Longrightarrow> x + int n \<le> int (length A) \<Longrightarrow> moves A B (x + int n) y (d + int n)"
proof (induction n)
  case (Suc n)
  then have "moves A B (x + int n + 1) y (d + int n + 1)" by (intro moves.del) auto
  then show ?case by (simp add: algebra_simps)
qed simp

text \<open>Diagonals: \<open>slide\<close> follows \<open>n\<close> common elements, \<open>snake_run\<close> as many as there are.\<close>

definition slide :: "'e list \<Rightarrow> 'e list \<Rightarrow> int \<Rightarrow> int \<Rightarrow> nat \<Rightarrow> bool" where
  "slide A B x y n \<longleftrightarrow> 0 \<le> x \<and> 0 \<le> y \<and> x + int n \<le> int (length A) \<and> y + int n \<le> int (length B) \<and> (\<forall>i<n. A ! nat (x + int i) = B ! nat (y + int i))"

lemma slide_0 [simp]: "slide A B x y 0 \<longleftrightarrow> 0 \<le> x \<and> 0 \<le> y \<and> x \<le> int (length A) \<and> y \<le> int (length B)"
  by (auto simp: slide_def)

lemma slide_Suc: "slide A B x y (Suc n) \<longleftrightarrow> 0 \<le> x \<and> 0 \<le> y \<and> x < int (length A) \<and> y < int (length B) \<and> A ! nat x = B ! nat y \<and> slide A B (x + 1) (y + 1) n"
proof -
  have "(\<forall>i<Suc n. A ! nat (x + int i) = B ! nat (y + int i)) \<longleftrightarrow> A ! nat x = B ! nat y \<and> (\<forall>i<n. A ! nat (x + 1 + int i) = B ! nat (y + 1 + int i))"
    unfolding All_less_Suc2 by (simp add: algebra_simps)
  then show ?thesis unfolding slide_def by auto
qed

lemma moves_slide: "moves A B x y d \<Longrightarrow> slide A B x y n \<Longrightarrow> moves A B (x + int n) (y + int n) d"
proof (induction n arbitrary: x y)
  case (Suc n)
  then have "moves A B (x + 1) (y + 1) d" by (auto simp: slide_Suc intro: moves.com)
  then have "moves A B (x + 1 + int n) (y + 1 + int n) d" using Suc by (simp add: slide_Suc)
  then show ?case by (simp add: algebra_simps)
qed simp

lemma snake_run_spec:
  assumes "0 \<le> x" "0 \<le> y" "x \<le> int (df_M d)" "y \<le> int (df_N d)" "df_M d = length (df_A d)" "df_N d = length (df_B d)"
  shows "\<exists>n. snake_run d x y = (x + int n, y + int n) \<and> slide (df_A d) (df_B d) x y n \<and>
    \<not> (x + int n < int (df_M d) \<and> y + int n < int (df_N d) \<and> df_A d ! nat (x + int n) = df_B d ! nat (y + int n))"
  using assms
proof (induction d x y rule: snake_run.induct)
  case (1 d x y)
  show ?case
  proof (cases "x < int (df_M d) \<and> y < int (df_N d) \<and> df_A d ! nat x = df_B d ! nat y")
    case True
    then obtain n where n: "snake_run d (x + 1) (y + 1) = (x + 1 + int n, y + 1 + int n)" "slide (df_A d) (df_B d) (x + 1) (y + 1) n"
        "\<not> (x + 1 + int n < int (df_M d) \<and> y + 1 + int n < int (df_N d) \<and> df_A d ! nat (x + 1 + int n) = df_B d ! nat (y + 1 + int n))"
      using "1.IH" "1.prems" by auto
    have "snake_run d x y = snake_run d (x + 1) (y + 1)" using True "1.prems" by (subst snake_run.simps) simp
    then show ?thesis using n True "1.prems" by (intro exI [of _ "Suc n"]) (auto simp: slide_Suc algebra_simps)
  next
    case False
    then have "snake_run d x y = (x, y)" by (subst snake_run.simps) auto
    then show ?thesis using False "1.prems" by (intro exI [of _ 0]) auto
  qed
qed

section \<open>Traces\<close>

text \<open>\<open>trace A B c r x y d pts\<close>: the stored points from \<open>r\<close> back to the origin are \<open>pts\<close>, and they end in \<open>(x, y)\<close> with \<open>d\<close> deletions.\<close>

inductive trace :: "'e list \<Rightarrow> 'e list \<Rightarrow> point list \<Rightarrow> int \<Rightarrow> int \<Rightarrow> int \<Rightarrow> int \<Rightarrow> (int \<times> int) list \<Rightarrow> bool" for A B where
  origin: "trace A B c (- 1) 0 0 0 []"
| node: "trace A B c r x y d pts \<Longrightarrow> (x1, y1, d1) \<in> {(x, y, d), (x, y + 1, d), (x + 1, y, d + 1)} \<Longrightarrow> (x1, y1) = (x, y) \<longrightarrow> r = - 1 \<Longrightarrow> slide A B x1 y1 n \<Longrightarrow>
    j < length c \<Longrightarrow> c ! j = \<lparr>pt_x = x1 + int n, pt_y = y1 + int n, pt_k = r\<rparr> \<Longrightarrow> r < int j \<Longrightarrow>
    trace A B c (int j) (x1 + int n) (y1 + int n) d1 ((x1 + int n, y1 + int n) # pts)"

lemma trace_append: "trace A B c r x y d pts \<Longrightarrow> trace A B (c @ c') r x y d pts"
proof (induction rule: trace.induct)
  case (node c r x y d pts x1 y1 d1 n j)
  then show ?case by (intro trace.node) (auto simp: nth_append)
qed (rule trace.origin)

lemma trace_moves: "trace A B c r x y d pts \<Longrightarrow> moves A B x y d"
proof (induction rule: trace.induct)
  case (node c r x y d pts x1 y1 d1 n j)
  have "moves A B x1 y1 d1"
    using node(2, 4, 8) moves.ins [OF node(8)] moves.del [OF node(8)] by (auto simp: slide_def)
  then show ?case using node(4) by (rule moves_slide)
qed (rule moves.start)

lemma trace_index: "trace A B c r x y d pts \<Longrightarrow> r < int (length c) \<and> - 1 \<le> r \<and> (r = - 1 \<longleftrightarrow> pts = [])"
  by (induction rule: trace.induct) auto

lemma trace_backtrack: "trace A B c r x y d pts \<Longrightarrow> r < int n \<Longrightarrow> backtrack n c r = Ok pts"
proof (induction arbitrary: n rule: trace.induct)
  case (origin c)
  then show ?case by (cases n) auto
next
  case (node c r x y d pts x1 y1 d1 k j)
  then obtain m where m: "n = Suc m" by (cases n) auto
  have "r < int m" using node(7, 9) m by simp
  then show ?case using node m by (simp add: vec_at_def del: bindO_Ok_iff)
qed

section \<open>The arrays\<close>

text \<open>
  \<open>far A B k q F\<close>: on the diagonal \<open>k\<close> nothing beyond row \<open>F\<close> can be reached with at most \<open>q\<close> detours, a detour being a deletion or a step
  across the diagonal of the end point.
\<close>

definition far :: "'e list \<Rightarrow> 'e list \<Rightarrow> int \<Rightarrow> int \<Rightarrow> int \<Rightarrow> bool" where
  "far A B k q F \<longleftrightarrow> (\<forall>x y d. moves A B x y d \<longrightarrow> y - x = k \<longrightarrow> d + max 0 (k - (int (length B) - int (length A))) \<le> q \<longrightarrow> y \<le> F)"

definition valid :: "'e diff \<Rightarrow> int \<Rightarrow> int \<Rightarrow> bool" where
  "valid d q k \<longleftrightarrow> 0 \<le> q \<and> - q \<le> k \<and> k \<le> df_delta d + q"

abbreviation fp_val :: "'e diff \<Rightarrow> int \<Rightarrow> int" where
  "fp_val d k \<equiv> df_fp d ! nat (k + df_offset d)"

abbreviation path_val :: "'e diff \<Rightarrow> int \<Rightarrow> int" where
  "path_val d k \<equiv> df_path d ! nat (k + df_offset d)"

definition entry :: "'e diff \<Rightarrow> int \<Rightarrow> int \<Rightarrow> bool" where
  "entry d q k \<longleftrightarrow> far (df_A d) (df_B d) k q (fp_val d k) \<and>
     (if valid d q k then 0 \<le> path_val d k \<and> (\<exists>pts. trace (df_A d) (df_B d) (df_cords d) (path_val d k) (fp_val d k - k) (fp_val d k) (q - max 0 (k - df_delta d)) pts)
      else fp_val d k = - 1 \<and> path_val d k = - 1)"

text \<open>What does not change during a search.\<close>

definition search_frame :: "'e diff \<Rightarrow> bool" where
  "search_frame d \<longleftrightarrow> df_M d = length (df_A d) \<and> df_N d = length (df_B d) \<and> df_M d \<le> df_N d \<and> df_delta d = int (df_N d) - int (df_M d) \<and>
     df_offset d = int (df_M d) + 1 \<and> length (df_fp d) = df_M d + df_N d + 3 \<and> df_M d + df_N d + 3 \<le> length (df_path d) \<and> \<not> df_edit_only d"

definition diagonals :: "'e diff \<Rightarrow> int set" where
  "diagonals d = {- int (df_M d) - 1..int (df_N d) + 1}"

text \<open>Every diagonal \<open>k\<close> holds what \<open>lev k\<close> rounds give; those that the round \<open>p\<close> has not reached yet are short of the border.\<close>

definition levels :: "'e diff \<Rightarrow> int \<Rightarrow> (int \<Rightarrow> int) \<Rightarrow> bool" where
  "levels d p lev \<longleftrightarrow> search_frame d \<and> (\<forall>k\<in>diagonals d. entry d (lev k) k) \<and>
     (\<forall>k\<in>diagonals d. lev k < p \<longrightarrow> valid d (lev k) k \<longrightarrow>
        (k \<le> df_delta d \<longrightarrow> fp_val d k - k < int (df_M d)) \<and> (df_delta d \<le> k \<longrightarrow> fp_val d k < int (df_N d)))"

lemma far_invalid: "search_frame d \<Longrightarrow> \<not> valid d q k \<Longrightarrow> far (df_A d) (df_B d) k q F"
proof (unfold far_def, intro allI impI)
  fix x y e
  assume d: "search_frame d" "\<not> valid d q k" and m: "moves (df_A d) (df_B d) x y e" "y - x = k"
    "e + max 0 (k - (int (length (df_B d)) - int (length (df_A d)))) \<le> q"
  have "0 \<le> e" "x - y \<le> e" using moves_grid [OF m(1)] by auto
  then have "valid d q k" using d(1) m(2, 3) by (auto simp: valid_def search_frame_def)
  with d(2) show "y \<le> F" ..
qed

lemma entry_invalid: "search_frame d \<Longrightarrow> \<not> valid d q k \<Longrightarrow> entry d q k \<longleftrightarrow> fp_val d k = - 1 \<and> path_val d k = - 1"
  by (simp add: entry_def far_invalid)

lemma entry_grid:
  assumes "search_frame d" "entry d q k" "valid d q k"
  shows "0 \<le> fp_val d k \<and> fp_val d k \<le> int (df_N d) \<and> 0 \<le> fp_val d k - k \<and> fp_val d k - k \<le> int (df_M d)"
proof -
  obtain pts where "trace (df_A d) (df_B d) (df_cords d) (path_val d k) (fp_val d k - k) (fp_val d k) (q - max 0 (k - df_delta d)) pts"
    using assms(2, 3) by (auto simp: entry_def)
  from moves_grid [OF trace_moves [OF this]] show ?thesis using assms(1) by (simp add: search_frame_def)
qed

text \<open>The step is as far as one can get when both neighbours are.\<close>

lemma far_step:
  assumes "search_frame d"
    and a: "far (df_A d) (df_B d) (k - 1) qa a" and b: "far (df_A d) (df_B d) (k + 1) qb b"
    and qa: "qa = (if k > df_delta d then p - 1 else p)" and qb: "qb = (if k < df_delta d then p - 1 else p)"
    and F: "a + 1 \<le> F" "b \<le> F" "0 \<le> F"
      "\<not> (F - k < int (df_M d) \<and> F < int (df_N d) \<and> df_A d ! nat (F - k) = df_B d ! nat F)"
  shows "far (df_A d) (df_B d) k p F"
  unfolding far_def
proof (intro allI impI)
  fix x y e
  assume "moves (df_A d) (df_B d) x y e" "y - x = k" "e + max 0 (k - (int (length (df_B d)) - int (length (df_A d)))) \<le> p"
  then show "y \<le> F"
  proof (induction rule: moves.induct)
    case start
    then show ?case using F(3) by simp
  next
    case (ins x y e)
    have "y - x = k - 1" "e + max 0 (k - 1 - (int (length (df_B d)) - int (length (df_A d)))) \<le> qa"
      using ins.prems assms(1) qa by (auto simp: search_frame_def)
    then have "y \<le> a" using a ins.hyps(1) unfolding far_def by blast
    then show ?case using F(1) by simp
  next
    case (del x y e)
    have "y - x = k + 1" "e + max 0 (k + 1 - (int (length (df_B d)) - int (length (df_A d)))) \<le> qb"
      using del.prems assms(1) qb by (auto simp: search_frame_def)
    then have "y \<le> b" using b del.hyps(1) unfolding far_def by blast
    then show ?case using F(2) by simp
  next
    case (com x y e)
    have "y \<le> F" using com by auto
    moreover have "y \<noteq> F"
    proof
      assume "y = F"
      then have "x = F - k" using com.prems(1) by simp
      then show False using com.hyps \<open>y = F\<close> F(4) assms(1) by (simp add: search_frame_def)
    qed
    ultimately show ?case by simp
  qed
qed

text \<open>Where the search on the diagonal \<open>k\<close> starts from.\<close>

lemma snake_start:
  assumes fr: "search_frame d" and p: "0 \<le> p" "- p \<le> k" "k \<le> df_delta d + p"
    and ea: "entry d qa (k - 1)" and eb: "entry d qb (k + 1)"
    and qa: "qa = (if k > df_delta d then p - 1 else p)" and qb: "qb = (if k < df_delta d then p - 1 else p)"
    and sa: "valid d qa (k - 1) \<Longrightarrow> k > df_delta d \<Longrightarrow> fp_val d (k - 1) < int (df_N d)"
    and sb: "valid d qb (k + 1) \<Longrightarrow> k < df_delta d \<Longrightarrow> fp_val d (k + 1) - (k + 1) < int (df_M d)"
  shows "\<exists>x y e pts. let y0 = max (fp_val d (k - 1) + 1) (fp_val d (k + 1)); r = (if fp_val d (k - 1) + 1 > fp_val d (k + 1) then path_val d (k - 1) else path_val d (k + 1))
     in trace (df_A d) (df_B d) (df_cords d) r x y e pts \<and> (y0 - k, y0, p - max 0 (k - df_delta d)) \<in> {(x, y, e), (x, y + 1, e), (x + 1, y, e + 1)} \<and>
        ((y0 - k, y0) = (x, y) \<longrightarrow> r = - 1) \<and> 0 \<le> y0 - k \<and> y0 - k \<le> int (df_M d) \<and> 0 \<le> y0 \<and> y0 \<le> int (df_N d)"
proof (cases "fp_val d (k - 1) + 1 > fp_val d (k + 1)")
  case True
  show ?thesis
  proof (cases "valid d qa (k - 1)")
    case v: True
    obtain pts where t: "trace (df_A d) (df_B d) (df_cords d) (path_val d (k - 1)) (fp_val d (k - 1) - (k - 1)) (fp_val d (k - 1)) (qa - max 0 (k - 1 - df_delta d)) pts"
      using ea v by (auto simp: entry_def)
    have g: "0 \<le> fp_val d (k - 1) \<and> fp_val d (k - 1) \<le> int (df_N d) \<and> 0 \<le> fp_val d (k - 1) - (k - 1) \<and> fp_val d (k - 1) - (k - 1) \<le> int (df_M d)"
      by (rule entry_grid [OF fr ea v])
    have n: "fp_val d (k - 1) + 1 \<le> int (df_N d)"
      using g sa [OF v] fr by (cases "k > df_delta d") (auto simp: search_frame_def)
    show ?thesis using True t g n qa
      by (intro exI [of _ "fp_val d (k - 1) - (k - 1)"] exI [of _ "fp_val d (k - 1)"] exI [of _ "qa - max 0 (k - 1 - df_delta d)"] exI [of _ pts]) (auto simp: Let_def)
  next
    case v: False
    then have a: "fp_val d (k - 1) = - 1" "path_val d (k - 1) = - 1" using ea fr by (simp_all add: entry_invalid)
    have "\<not> valid d qb (k + 1)" using True a(1) entry_grid [OF fr eb] by auto
    then have "k = 0 \<and> p = 0" using v p qa qb fr by (auto simp: valid_def search_frame_def split: if_splits)
    moreover have "0 \<le> df_delta d" using fr by (simp add: search_frame_def)
    ultimately show ?thesis using True a by (intro exI [of _ 0] exI [of _ "[]"]) (auto simp: Let_def intro: trace.origin)
  qed
next
  case False
  have v: "valid d qb (k + 1)"
  proof (rule ccontr)
    assume "\<not> valid d qb (k + 1)"
    then have "fp_val d (k + 1) = - 1" using eb fr by (simp add: entry_invalid)
    moreover have "fp_val d (k - 1) \<ge> - 1" using entry_grid [OF fr ea] ea fr by (cases "valid d qa (k - 1)") (auto simp: entry_invalid)
    ultimately show False using False by simp
  qed
  obtain pts where t: "trace (df_A d) (df_B d) (df_cords d) (path_val d (k + 1)) (fp_val d (k + 1) - (k + 1)) (fp_val d (k + 1)) (qb - max 0 (k + 1 - df_delta d)) pts"
    using eb v by (auto simp: entry_def)
  have g: "0 \<le> fp_val d (k + 1) \<and> fp_val d (k + 1) \<le> int (df_N d) \<and> 0 \<le> fp_val d (k + 1) - (k + 1) \<and> fp_val d (k + 1) - (k + 1) \<le> int (df_M d)"
    by (rule entry_grid [OF fr eb v])
  have n: "fp_val d (k + 1) - k \<le> int (df_M d)"
    using g sb [OF v] fr by (cases "k < df_delta d") (auto simp: search_frame_def)
  show ?thesis using False t g n qb
    by (intro exI [of _ "fp_val d (k + 1) - (k + 1)"] exI [of _ "fp_val d (k + 1)"] exI [of _ "qb - max 0 (k + 1 - df_delta d)"] exI [of _ pts]) (auto simp: Let_def)
qed

definition searched :: "'e diff \<Rightarrow> int \<Rightarrow> int \<Rightarrow> point \<Rightarrow> 'e diff" where
  "searched d k y c = d\<lparr>df_path := (df_path d)[nat (k + df_offset d) := int (length (df_cords d))], df_cords := df_cords d @ [c],
     df_fp := (df_fp d)[nat (k + df_offset d) := y]\<rparr>"

lemma searched_frame [simp]: "search_frame (searched d k y c) \<longleftrightarrow> search_frame d" "valid (searched d k y c) = valid d" "diagonals (searched d k y c) = diagonals d"
  "df_delta (searched d k y c) = df_delta d" "df_M (searched d k y c) = df_M d" "df_N (searched d k y c) = df_N d"
  by (simp_all add: searched_def search_frame_def valid_def diagonals_def fun_eq_iff)

lemma searched_vals:
  assumes "search_frame d" "k \<in> diagonals d" "k' \<in> diagonals d"
  shows "fp_val (searched d k y c) k' = (if k' = k then y else fp_val d k')" "path_val (searched d k y c) k' = (if k' = k then int (length (df_cords d)) else path_val d k')"
proof -
  have i: "nat (k + df_offset d) = nat (k' + df_offset d) \<longleftrightarrow> k = k'" "nat (k + df_offset d) < df_M d + df_N d + 3"
    using assms by (auto simp: search_frame_def diagonals_def nat_less_iff)
  then show "fp_val (searched d k y c) k' = (if k' = k then y else fp_val d k')" "path_val (searched d k y c) k' = (if k' = k then int (length (df_cords d)) else path_val d k')"
    using assms(1) by (auto simp: searched_def search_frame_def nth_list_update)
qed

lemma searched_entry:
  assumes "search_frame d" "k \<in> diagonals d" "k' \<in> diagonals d" "k' \<noteq> k" "entry d q k'"
  shows "entry (searched d k y c) q k'"
proof -
  have "df_A (searched d k y c) = df_A d" "df_B (searched d k y c) = df_B d" "df_cords (searched d k y c) = df_cords d @ [c]" by (simp_all add: searched_def)
  then show ?thesis
    using assms(4, 5) searched_vals [OF assms(1-3), of y c] trace_append [where c' = "[c]"] unfolding entry_def by (simp split: if_splits) blast
qed

lemma fp_step_entry:
  assumes fr: "search_frame d" and p: "0 \<le> p" "p \<le> int (df_M d)" "- p \<le> k" "k \<le> df_delta d + p"
    and ea: "entry d qa (k - 1)" and eb: "entry d qb (k + 1)"
    and qa: "qa = (if k > df_delta d then p - 1 else p)" and qb: "qb = (if k < df_delta d then p - 1 else p)"
    and sa: "valid d qa (k - 1) \<Longrightarrow> k > df_delta d \<Longrightarrow> fp_val d (k - 1) < int (df_N d)"
    and sb: "valid d qb (k + 1) \<Longrightarrow> k < df_delta d \<Longrightarrow> fp_val d (k + 1) - (k + 1) < int (df_M d)"
  shows "\<exists>y c. fp_step k d = Ok (searched d k y c) \<and> entry (searched d k y c) p k"
proof -
  let ?a = "fp_val d (k - 1)" and ?b = "fp_val d (k + 1)"
  define y0 where "y0 = max (?a + 1) ?b"
  define r where "r = (if ?a + 1 > ?b then path_val d (k - 1) else path_val d (k + 1))"
  obtain x y e pts where t: "trace (df_A d) (df_B d) (df_cords d) r x y e pts" "(y0 - k, y0, p - max 0 (k - df_delta d)) \<in> {(x, y, e), (x, y + 1, e), (x + 1, y, e + 1)}"
      "(y0 - k, y0) = (x, y) \<longrightarrow> r = - 1" "0 \<le> y0 - k" "y0 - k \<le> int (df_M d)" "0 \<le> y0" "y0 \<le> int (df_N d)"
    using snake_start [OF fr p(1, 3, 4) ea eb qa qb sa sb] unfolding Let_def y0_def r_def by blast
  have f: "df_M d = length (df_A d)" "df_N d = length (df_B d)" "df_offset d = int (df_M d) + 1" "length (df_fp d) = df_M d + df_N d + 3"
      "df_M d + df_N d + 3 \<le> length (df_path d)" "\<not> df_edit_only d" "df_delta d = int (df_N d) - int (df_M d)"
    using fr by (simp_all add: search_frame_def)
  obtain n where n: "snake_run d (y0 - k) y0 = (y0 - k + int n, y0 + int n)" "slide (df_A d) (df_B d) (y0 - k) y0 n"
      "\<not> (y0 - k + int n < int (df_M d) \<and> y0 + int n < int (df_N d) \<and> df_A d ! nat (y0 - k + int n) = df_B d ! nat (y0 + int n))"
    using snake_run_spec [of "y0 - k" y0 d] t(4-7) f(1, 2) by blast
  have i: "0 \<le> k + df_offset d" "k + df_offset d < int (df_M d + df_N d + 3)" "0 \<le> k - 1 + df_offset d" "k - 1 + df_offset d < int (df_M d + df_N d + 3)"
      "0 \<le> k + 1 + df_offset d" "k + 1 + df_offset d < int (df_M d + df_N d + 3)" "k \<in> diagonals d" "k - 1 \<in> diagonals d" "k + 1 \<in> diagonals d"
    using p f(3, 7) by (auto simp: diagonals_def)
  define c where "c = \<lparr>pt_x = y0 - k + int n, pt_y = y0 + int n, pt_k = r\<rparr>"
  have at: "vec_at (df_fp d) (k - 1 + df_offset d) = Ok ?a" "vec_at (df_fp d) (k + 1 + df_offset d) = Ok ?b"
      "vec_at (df_path d) ((if ?a + 1 > ?b then k - 1 else k + 1) + df_offset d) = Ok r"
      "vec_put (df_path d) (k + df_offset d) v = Ok ((df_path d)[nat (k + df_offset d) := v])"
      "vec_put (df_fp d) (k + df_offset d) v = Ok ((df_fp d)[nat (k + df_offset d) := v])" for v
    using i f by (auto simp: vec_at_def vec_put_def r_def)
  let ?d1 = "d\<lparr>df_path := (df_path d)[nat (k + df_offset d) := int (length (df_cords d))], df_cords := df_cords d @ [c]\<rparr>"
  have "snake k (?a + 1) ?b d = Ok (y0 + int n, ?d1)"
    unfolding snake_def at(3) bindO.simps y0_def [symmetric] n(1) Let_def prod.case at(4) using f(6) by (simp add: c_def)
  then have s: "fp_step k d = Ok (searched d k (y0 + int n) c)"
    unfolding fp_step_def at(1, 2) bindO.simps by (simp only: bindO.simps prod.case) (simp add: at(5) searched_def del: bindO_Ok_iff)
  have tr: "trace (df_A d) (df_B d) (df_cords d @ [c]) (int (length (df_cords d))) (y0 - k + int n) (y0 + int n) (p - max 0 (k - df_delta d)) ((y0 - k + int n, y0 + int n) # pts)"
    using trace.node [OF trace_append [OF t(1), of "[c]"] t(2, 3) n(2)] trace_index [OF t(1)] by (simp add: c_def nth_append)
  have fa: "far (df_A d) (df_B d) k p (y0 + int n)"
  proof (rule far_step [OF fr _ _ qa qb])
    show "far (df_A d) (df_B d) (k - 1) qa ?a" "far (df_A d) (df_B d) (k + 1) qb ?b" using ea eb by (simp_all add: entry_def)
    show "?a + 1 \<le> y0 + int n" "?b \<le> y0 + int n" "0 \<le> y0 + int n" using t(6) by (simp_all add: y0_def)
    have "y0 + int n - k = y0 - k + int n" by simp
    then show "\<not> (y0 + int n - k < int (df_M d) \<and> y0 + int n < int (df_N d) \<and> df_A d ! nat (y0 + int n - k) = df_B d ! nat (y0 + int n))" using n(3) by metis
  qed
  have "y0 - k + int n = y0 + int n - k" by simp
  from tr [unfolded this] have "Ex (trace (df_A d) (df_B d) (df_cords d @ [c]) (int (length (df_cords d))) (y0 + int n - k) (y0 + int n) (p - max 0 (k - df_delta d)))" ..
  then have "entry (searched d k (y0 + int n) c) p k"
    using fa searched_vals [OF fr i(7, 7), of "y0 + int n" c] p unfolding entry_def by (auto simp: searched_def valid_def)
  with s show ?thesis by blast
qed

section \<open>Rounds\<close>

definition grown :: "'e diff \<Rightarrow> nat \<Rightarrow> 'e diff \<Rightarrow> bool" where
  "grown d n d' \<longleftrightarrow> (\<exists>f q c. d' = d\<lparr>df_fp := f, df_path := q, df_cords := c\<rparr> \<and> length q = length (df_path d) \<and> length c = length (df_cords d) + n)"

lemma grown_refl [simp]: "grown d 0 d"
  unfolding grown_def by (intro exI [of _ "df_fp d"] exI [of _ "df_path d"] exI [of _ "df_cords d"]) simp

lemma grown_trans: "grown d n d1 \<Longrightarrow> grown d1 m d2 \<Longrightarrow> grown d (n + m) d2"
  unfolding grown_def by force

lemma grown_searched: "grown d 1 (searched d k y c)"
  unfolding grown_def searched_def
  by (intro exI [of _ "(df_fp d)[nat (k + df_offset d) := y]"] exI [of _ "(df_path d)[nat (k + df_offset d) := int (length (df_cords d))]"] exI [of _ "df_cords d @ [c]"]) simp

lemma grown_fields:
  assumes "grown d n d'"
  shows "df_A d' = df_A d" "df_B d' = df_B d" "df_M d' = df_M d" "df_N d' = df_N d" "df_delta d' = df_delta d" "df_offset d' = df_offset d"
    "df_edit_distance d' = df_edit_distance d" "df_lcs d' = df_lcs d" "df_ses d' = df_ses d" "df_swapped d' = df_swapped d" "df_trivial d' = df_trivial d"
    "df_edit_only d' = df_edit_only d" "length (df_path d') = length (df_path d)" "length (df_cords d') = length (df_cords d) + n" "diagonals d' = diagonals d" "valid d' = valid d"
  using assms by (auto simp: grown_def diagonals_def valid_def fun_eq_iff)

lemma levels_weaken:
  assumes "levels d p lev" "\<And>k. k \<in> diagonals d \<Longrightarrow> lev' k = lev k \<or> \<not> valid d (lev k) k \<and> \<not> valid d (lev' k) k"
  shows "levels d p lev'"
proof -
  have "entry d (lev' k) k \<and> (lev' k < p \<longrightarrow> valid d (lev' k) k \<longrightarrow> (k \<le> df_delta d \<longrightarrow> fp_val d k - k < int (df_M d)) \<and> (df_delta d \<le> k \<longrightarrow> fp_val d k < int (df_N d)))"
    if k: "k \<in> diagonals d" for k
    using assms(2) [OF k] assms(1) k entry_invalid [of d "lev k" k] entry_invalid [of d "lev' k" k] unfolding levels_def by auto
  then show ?thesis using assms(1) by (simp add: levels_def)
qed

lemma step_levels:
  assumes lv: "levels d p lev" and p: "0 \<le> p" "p \<le> int (df_M d)" "- p \<le> k" "k \<le> df_delta d + p"
    and nb: "lev (k - 1) = (if k > df_delta d then p - 1 else p)" "lev (k + 1) = (if k < df_delta d then p - 1 else p)"
  shows "\<exists>d1. fp_step k d = Ok d1 \<and> grown d 1 d1 \<and> levels d1 p (lev(k := p))"
proof -
  have fr: "search_frame d" using lv by (simp add: levels_def)
  have i: "k \<in> diagonals d" "k - 1 \<in> diagonals d" "k + 1 \<in> diagonals d" using p fr by (auto simp: diagonals_def search_frame_def)
  have e: "entry d (lev (k - 1)) (k - 1)" "entry d (lev (k + 1)) (k + 1)" using lv i by (auto simp: levels_def)
  have sa: "fp_val d (k - 1) < int (df_N d)" if "valid d (lev (k - 1)) (k - 1)" "k > df_delta d" using lv i(2) that nb(1) by (auto simp: levels_def)
  have sb: "fp_val d (k + 1) - (k + 1) < int (df_M d)" if "valid d (lev (k + 1)) (k + 1)" "k < df_delta d" using lv i(3) that nb(2) by (auto simp: levels_def)
  obtain y c where s: "fp_step k d = Ok (searched d k y c)" "entry (searched d k y c) p k"
    using fp_step_entry [OF fr p e nb sa sb] by blast
  have "levels (searched d k y c) p (lev(k := p))"
    unfolding levels_def
  proof (intro conjI ballI impI)
    fix k' assume k': "k' \<in> diagonals (searched d k y c)"
    show "entry (searched d k y c) ((lev(k := p)) k') k'"
      using s(2) searched_entry [OF fr i(1), of k'] lv k' by (auto simp: levels_def)
    assume "(lev(k := p)) k' < p" "valid (searched d k y c) ((lev(k := p)) k') k'"
    then have n: "k' \<noteq> k" "lev k' < p" "valid d (lev k') k'" by (auto split: if_splits)
    show "fp_val (searched d k y c) k' - k' < int (df_M (searched d k y c))" if "k' \<le> df_delta (searched d k y c)"
      using n that k' lv searched_vals [OF fr i(1), of k'] by (auto simp: levels_def)
    show "fp_val (searched d k y c) k' < int (df_N (searched d k y c))" if "df_delta (searched d k y c) \<le> k'"
      using n that k' lv searched_vals [OF fr i(1), of k'] by (auto simp: levels_def)
  qed (use fr in simp)
  then show ?thesis using s(1) grown_searched [of d k y c] by blast
qed

lemma upto_last: "i \<le> j \<Longrightarrow> [i..j] = [i..j - 1] @ [j::int]"
  by (rule upto_rec2)

lemma bindO_right: "bindO m Ok = m"
  by (cases m) simp_all

lemma foldO_last: "foldO f (xs @ [x]) s = bindO (foldO f xs s) (f x)"
proof -
  have "foldO f [x] = f x" by (rule ext) (simp add: bindO_right foldO.simps(1) [abs_def])
  then show ?thesis by (simp add: foldO_append)
qed

lemma up_loop:
  assumes lv: "levels d p (\<lambda>k. p - 1)" and p: "0 \<le> p" "p \<le> int (df_M d)" and n: "- p + int n \<le> df_delta d"
  shows "\<exists>d1. foldO fp_step [- p..- p + int n - 1] d = Ok d1 \<and> grown d n d1 \<and> levels d1 p (\<lambda>k. if k < - p + int n then p else p - 1)"
  using n
proof (induction n)
  case 0
  have "levels d p (\<lambda>k. if k < - p then p else p - 1)" by (rule levels_weaken [OF lv]) (use p in \<open>auto simp: valid_def\<close>)
  then show ?case by simp
next
  case (Suc n)
  let ?k = "- p + int n" and ?lev = "\<lambda>k. if k < - p + int n then p else p - 1"
  obtain d1 where d1: "foldO fp_step [- p..?k - 1] d = Ok d1" "grown d n d1" "levels d1 p ?lev" using Suc by auto
  note g = grown_fields [OF d1(2)]
  have "\<exists>d2. fp_step ?k d1 = Ok d2 \<and> grown d1 1 d2 \<and> levels d2 p (?lev(?k := p))"
    using p Suc.prems g by (intro step_levels [OF d1(3)]) auto
  then obtain d2 where d2: "fp_step ?k d1 = Ok d2" "grown d1 1 d2" "levels d2 p (?lev(?k := p))" by blast
  have "?lev(?k := p) = (\<lambda>k. if k < - p + int (Suc n) then p else p - 1)" by auto
  moreover have "[- p..- p + int (Suc n) - 1] = [- p..?k - 1] @ [?k]" using upto_last [of "- p" ?k] by (simp add: algebra_simps)
  ultimately show ?case using d1 d2 grown_trans [OF d1(2) d2(2)] by (simp add: foldO_last del: bindO_Ok_iff)
qed

lemma down_loop:
  assumes lv: "levels d p (\<lambda>k. if k < df_delta d then p else p - 1)" and p: "0 \<le> p" "p \<le> int (df_M d)" and n: "int n \<le> p"
  shows "\<exists>d1. foldO fp_step (rev [df_delta d + p - int n + 1..df_delta d + p]) d = Ok d1 \<and> grown d n d1 \<and>
    levels d1 p (\<lambda>k. if k < df_delta d \<or> df_delta d + p - int n < k then p else p - 1)"
  using n
proof (induction n)
  case 0
  have "levels d p (\<lambda>k. if k < df_delta d \<or> df_delta d + p < k then p else p - 1)" by (rule levels_weaken [OF lv]) (use p in \<open>auto simp: valid_def\<close>)
  then show ?case by simp
next
  case (Suc n)
  let ?k = "df_delta d + p - int n" and ?lev = "\<lambda>k. if k < df_delta d \<or> df_delta d + p - int n < k then p else p - 1"
  obtain d1 where d1: "foldO fp_step (rev [?k + 1..df_delta d + p]) d = Ok d1" "grown d n d1" "levels d1 p ?lev" using Suc by auto
  note g = grown_fields [OF d1(2)]
  have "\<exists>d2. fp_step ?k d1 = Ok d2 \<and> grown d1 1 d2 \<and> levels d2 p (?lev(?k := p))"
    using p Suc.prems g lv by (intro step_levels [OF d1(3)]) (auto simp: levels_def search_frame_def)
  then obtain d2 where d2: "fp_step ?k d1 = Ok d2" "grown d1 1 d2" "levels d2 p (?lev(?k := p))" by blast
  have "?lev(?k := p) = (\<lambda>k. if k < df_delta d \<or> df_delta d + p - int (Suc n) < k then p else p - 1)" by auto
  moreover have "rev [df_delta d + p - int (Suc n) + 1..df_delta d + p] = rev [?k + 1..df_delta d + p] @ [?k]"
    using Suc.prems by (subst upto.simps) (simp add: algebra_simps)
  ultimately show ?case using d1 d2 grown_trans [OF d1(2) d2(2)] by (simp add: foldO_last del: bindO_Ok_iff)
qed

lemma round_levels:
  assumes lv: "levels d p (\<lambda>k. p - 1)" and p: "0 \<le> p" "p \<le> int (df_M d)"
  shows "\<exists>d1. onp_round p d = Ok d1 \<and> grown d (nat (df_delta d + 2 * p + 1)) d1 \<and> levels d1 p (\<lambda>k. p)"
proof -
  have dl: "0 \<le> df_delta d" using lv by (auto simp: levels_def search_frame_def)
  obtain d1 where d1: "foldO fp_step [- p..df_delta d - 1] d = Ok d1" "grown d (nat (df_delta d + p)) d1" "levels d1 p (\<lambda>k. if k < df_delta d then p else p - 1)"
    using up_loop [OF lv p, of "nat (df_delta d + p)"] dl p by auto
  note g1 = grown_fields [OF d1(2)]
  obtain d2 where d2: "foldO fp_step (rev [df_delta d + 1..df_delta d + p]) d1 = Ok d2" "grown d1 (nat p) d2" "levels d2 p (\<lambda>k. if k < df_delta d \<or> df_delta d < k then p else p - 1)"
    using down_loop [of d1 p "nat p"] d1(3) g1 p by auto
  note g2 = grown_fields [OF d2(2)]
  let ?lev = "\<lambda>k. if k < df_delta d \<or> df_delta d < k then p else p - 1"
  have "\<exists>d3. fp_step (df_delta d) d2 = Ok d3 \<and> grown d2 1 d3 \<and> levels d3 p (?lev(df_delta d := p))"
    using p dl g1 g2 by (intro step_levels [OF d2(3)]) auto
  then obtain d3 where d3: "fp_step (df_delta d) d2 = Ok d3" "grown d2 1 d3" "levels d3 p (?lev(df_delta d := p))" by blast
  have "?lev(df_delta d := p) = (\<lambda>k. p)" by auto
  moreover have "nat (df_delta d + p) + nat p + 1 = nat (df_delta d + 2 * p + 1)" using p dl by simp
  ultimately show ?thesis
    using d1 d2 d3 grown_trans [OF grown_trans [OF d1(2) d2(2)] d3(2)] by (simp add: onp_round_def del: bindO_Ok_iff)
qed

text \<open>A round that does not arrive leaves every diagonal short of the border, and there are still elements to delete.\<close>

lemma not_done:
  assumes lv: "levels d q (\<lambda>k. q)" and q: "0 \<le> q" "q \<le> int (df_M d)" and nd: "fp_val d (df_delta d) \<noteq> int (df_N d)"
  shows "levels d (q + 1) (\<lambda>k. q) \<and> q < int (df_M d) \<and> (\<forall>e. moves (df_A d) (df_B d) (int (df_M d)) (int (df_N d)) e \<longrightarrow> q < e)"
proof -
  have fr: "search_frame d" using lv by (simp add: levels_def)
  then have f: "df_M d = length (df_A d)" "df_N d = length (df_B d)" "df_delta d = int (df_N d) - int (df_M d)" "0 \<le> df_delta d" by (simp_all add: search_frame_def)
  have i: "df_delta d \<in> diagonals d" "- q \<in> diagonals d" using f q by (auto simp: diagonals_def)
  have ed: "entry d q k" if "k \<in> diagonals d" for k using lv that by (simp add: levels_def)
  have vd: "valid d q (df_delta d)" "valid d q (- q)" using f q by (auto simp: valid_def)
  have out: "\<not> moves (df_A d) (df_B d) (int (df_M d)) (int (df_N d)) e" if "e \<le> q" for e
  proof
    assume "moves (df_A d) (df_B d) (int (df_M d)) (int (df_N d)) e"
    then have "int (df_N d) \<le> fp_val d (df_delta d)" using ed [OF i(1)] that f(1-3) unfolding entry_def far_def by auto
    then show False using nd entry_grid [OF fr ed [OF i(1)] vd(1)] by simp
  qed
  have short: "(k \<le> df_delta d \<longrightarrow> fp_val d k - k < int (df_M d)) \<and> (df_delta d \<le> k \<longrightarrow> fp_val d k < int (df_N d))" if k: "k \<in> diagonals d" "valid d q k" for k
  proof -
    obtain pts where "trace (df_A d) (df_B d) (df_cords d) (path_val d k) (fp_val d k - k) (fp_val d k) (q - max 0 (k - df_delta d)) pts"
      using ed [OF k(1)] k(2) by (auto simp: entry_def)
    then have m: "moves (df_A d) (df_B d) (fp_val d k - k) (fp_val d k) (q - max 0 (k - df_delta d))" by (rule trace_moves)
    have g: "0 \<le> fp_val d k" "fp_val d k \<le> int (df_N d)" "0 \<le> fp_val d k - k" "fp_val d k - k \<le> int (df_M d)" using entry_grid [OF fr ed [OF k(1)] k(2)] by auto
    have "fp_val d k - k \<noteq> int (df_M d)" if "k \<le> df_delta d"
    proof
      assume x: "fp_val d k - k = int (df_M d)"
      have "moves (df_A d) (df_B d) (fp_val d k - k) (fp_val d k + int (nat (int (df_N d) - fp_val d k))) (q - max 0 (k - df_delta d))"
        using g f(2) by (intro moves_ins_many [OF m]) simp
      then show False using out [of "q - max 0 (k - df_delta d)"] x g that by simp
    qed
    moreover have "fp_val d k \<noteq> int (df_N d)" if "df_delta d \<le> k"
    proof
      assume y: "fp_val d k = int (df_N d)"
      have m1: "moves (df_A d) (df_B d) (fp_val d k - k + int (nat (int (df_M d) - (fp_val d k - k)))) (fp_val d k)
          (q - max 0 (k - df_delta d) + int (nat (int (df_M d) - (fp_val d k - k))))"
        using g f(1) by (intro moves_del_many [OF m]) simp
      have "q - max 0 (k - df_delta d) + int (nat (int (df_M d) - (fp_val d k - k))) = q" "fp_val d k - k + int (nat (int (df_M d) - (fp_val d k - k))) = int (df_M d)"
        using g y that f(3) by simp_all
      then show False using out [of q] m1 unfolding y by (simp only: order_refl)
    qed
    ultimately show ?thesis using g by auto
  qed
  have "levels d (q + 1) (\<lambda>k. q)" using lv short by (simp add: levels_def)
  moreover have "fp_val d (- q) + q < int (df_M d)" using short [OF i(2) vd(2)] f(4) q by simp
  moreover have "0 \<le> fp_val d (- q)" using entry_grid [OF fr ed [OF i(2)] vd(2)] by simp
  moreover have "q < e" if "moves (df_A d) (df_B d) (int (df_M d)) (int (df_N d)) e" for e using out [of e] that by linarith
  ultimately show ?thesis by auto
qed

lemma onp_loop_spec:
  assumes "levels d (p + 1) (\<lambda>k. p)" "- 1 \<le> p" "p < int (df_M d) \<or> p = - 1" "int (df_M d) - p \<le> int n"
    "\<And>e. moves (df_A d) (df_B d) (int (df_M d)) (int (df_N d)) e \<Longrightarrow> p < e"
  shows "\<exists>q d1 m. onp_loop n p d = Ok (q, d1) \<and> p < q \<and> q \<le> int (df_M d) \<and> levels d1 q (\<lambda>k. q) \<and> grown d m d1 \<and>
    int m = (q - p) * (df_delta d + q + p + 2) \<and> (fp_val d1 (df_delta d) = int (df_N d) \<or> MAX_CORDINATES_SIZE \<le> length (df_cords d1)) \<and>
    (\<forall>e. moves (df_A d) (df_B d) (int (df_M d)) (int (df_N d)) e \<longrightarrow> q \<le> e)"
  using assms
proof (induction n arbitrary: p d)
  case 0
  then have False by auto
  then show ?case ..
next
  case (Suc n)
  have lv: "levels d (p + 1) (\<lambda>k. p + 1 - 1)" using Suc.prems(1) by simp
  have p: "0 \<le> p + 1" "p + 1 \<le> int (df_M d)" using Suc.prems by auto
  obtain d1 where d1: "onp_round (p + 1) d = Ok d1" "grown d (nat (df_delta d + 2 * (p + 1) + 1)) d1" "levels d1 (p + 1) (\<lambda>k. p + 1)"
    using round_levels [OF lv p] by blast
  note g = grown_fields [OF d1(2)]
  have fr: "search_frame d1" "0 \<le> df_delta d" using d1(3) g by (auto simp: levels_def search_frame_def)
  have at: "vec_at (df_fp d1) (df_delta d + df_offset d) = Ok (fp_val d1 (df_delta d))" using fr g by (auto simp: vec_at_def search_frame_def)
  show ?case
  proof (cases "fp_val d1 (df_delta d) \<noteq> int (df_N d1) \<and> length (df_cords d1) < MAX_CORDINATES_SIZE")
    case True
    have nd: "levels d1 (p + 1 + 1) (\<lambda>k. p + 1) \<and> p + 1 < int (df_M d1) \<and> (\<forall>e. moves (df_A d1) (df_B d1) (int (df_M d1)) (int (df_N d1)) e \<longrightarrow> p + 1 < e)"
      using True g p d1(3) by (intro not_done) auto
    then obtain q d2 m where q: "onp_loop n (p + 1) d1 = Ok (q, d2)" "p + 1 < q" "q \<le> int (df_M d1)" "levels d2 q (\<lambda>k. q)" "grown d1 m d2"
        "int m = (q - (p + 1)) * (df_delta d1 + q + (p + 1) + 2)" "fp_val d2 (df_delta d1) = int (df_N d1) \<or> MAX_CORDINATES_SIZE \<le> length (df_cords d2)"
        "\<forall>e. moves (df_A d1) (df_B d1) (int (df_M d1)) (int (df_N d1)) e \<longrightarrow> q \<le> e"
      using Suc.IH [of d1 "p + 1"] Suc.prems(2-4) nd g by auto
    have "int (nat (df_delta d + 2 * (p + 1) + 1) + m) = (q - p) * (df_delta d + q + p + 2)" using q(6) g fr(2) p by (simp add: algebra_simps)
    moreover have "onp_loop (Suc n) p d = Ok (q, d2)" using d1(1) at True q(1) by (simp del: bindO_Ok_iff)
    ultimately show ?thesis using q g grown_trans [OF d1(2) q(5)] by (intro exI [of _ q] exI [of _ d2] exI [of _ "nat (df_delta d + 2 * (p + 1) + 1) + m"]) auto
  next
    case False
    have "onp_loop (Suc n) p d = Ok (p + 1, d1)" using d1(1) at False by (auto simp del: bindO_Ok_iff)
    moreover have "p + 1 \<le> e" if "moves (df_A d) (df_B d) (int (df_M d)) (int (df_N d)) e" for e using Suc.prems(5) [OF that] by simp
    ultimately show ?thesis using d1 False g p fr(2)
      by (intro exI [of _ "p + 1"] exI [of _ d1] exI [of _ "nat (df_delta d + 2 * (p + 1) + 1)"]) auto
  qed
qed

text \<open>A state in which a search begins: the arrays are filled with -1, no points are stored.\<close>

definition search_start :: "'e diff \<Rightarrow> bool" where
  "search_start d \<longleftrightarrow> search_frame d \<and> df_fp d = replicate (df_M d + df_N d + 3) (- 1) \<and> (\<exists>n. df_path d = replicate n (- 1)) \<and> df_cords d = []"

lemma start_levels: "search_start d \<Longrightarrow> levels d 0 (\<lambda>k. - 1)"
proof -
  assume s: "search_start d"
  then obtain n where n: "df_path d = replicate n (- 1)" by (auto simp: search_start_def)
  have f: "search_frame d" "df_fp d = replicate (df_M d + df_N d + 3) (- 1)" using s by (simp_all add: search_start_def)
  have "entry d (- 1) k" if "k \<in> diagonals d" for k
  proof -
    have "nat (k + df_offset d) < df_M d + df_N d + 3" "df_M d + df_N d + 3 \<le> n" using that f(1) n by (auto simp: diagonals_def search_frame_def nat_less_iff)
    then show ?thesis using f n by (subst entry_invalid) (auto simp: valid_def)
  qed
  then show ?thesis using f(1) by (simp add: levels_def valid_def)
qed

text \<open>
  What a search finds: the points stored lead back from the diagonal of the end point, with \<open>q\<close> deletions, to the origin; it is the end point unless too
  many points were stored, and nothing less than \<open>q\<close> deletions leads to the end point.
\<close>

lemma search_result:
  assumes st: "search_start d"
  shows "\<exists>q d1 y pts. onp_loop (Suc (df_M d)) (- 1) d = Ok (q, d1) \<and> 0 \<le> q \<and> grown d (length (df_cords d1)) d1 \<and>
    int (length (df_cords d1)) = (q + 1) * (df_delta d + q + 1) \<and> q \<le> int (df_M d) \<and>
    vec_at (df_path d1) (df_delta d + df_offset d) = Ok (path_val d1 (df_delta d)) \<and>
    trace (df_A d) (df_B d) (df_cords d1) (path_val d1 (df_delta d)) (y - df_delta d) y q pts \<and> pts \<noteq> [] \<and>
    (y = int (df_N d) \<or> MAX_CORDINATES_SIZE \<le> length (df_cords d1) \<and> q < int (df_M d)) \<and> far (df_A d) (df_B d) (df_delta d) q y \<and>
    (\<forall>e. moves (df_A d) (df_B d) (int (df_M d)) (int (df_N d)) e \<longrightarrow> q \<le> e)"
proof -
  have dl: "0 \<le> df_delta d" using st by (simp add: search_start_def search_frame_def)
  have "\<exists>q d1 m. onp_loop (Suc (df_M d)) (- 1) d = Ok (q, d1) \<and> - 1 < q \<and> q \<le> int (df_M d) \<and> levels d1 q (\<lambda>k. q) \<and> grown d m d1 \<and>
    int m = (q - - 1) * (df_delta d + q + - 1 + 2) \<and> (fp_val d1 (df_delta d) = int (df_N d) \<or> MAX_CORDINATES_SIZE \<le> length (df_cords d1)) \<and>
    (\<forall>e. moves (df_A d) (df_B d) (int (df_M d)) (int (df_N d)) e \<longrightarrow> q \<le> e)"
  proof (rule onp_loop_spec)
    show "- 1 < e" if "moves (df_A d) (df_B d) (int (df_M d)) (int (df_N d)) e" for e using moves_grid [OF that] by simp
  qed (use start_levels [OF st] in auto)
  then obtain q d1 m where q: "onp_loop (Suc (df_M d)) (- 1) d = Ok (q, d1)" "0 \<le> q" "q \<le> int (df_M d)" "levels d1 q (\<lambda>k. q)" "grown d m d1"
      "int m = (q + 1) * (df_delta d + q + 1)" "fp_val d1 (df_delta d) = int (df_N d) \<or> MAX_CORDINATES_SIZE \<le> length (df_cords d1)"
      "\<forall>e. moves (df_A d) (df_B d) (int (df_M d)) (int (df_N d)) e \<longrightarrow> q \<le> e" by auto
  note g = grown_fields [OF q(5)]
  have m: "length (df_cords d1) = m" using g st by (simp add: search_start_def)
  have fr: "search_frame d1" using q(4) by (simp add: levels_def)
  have i: "df_delta d \<in> diagonals d1" "valid d1 q (df_delta d)" using fr g q(2) by (auto simp: diagonals_def search_frame_def valid_def)
  have e: "entry d1 q (df_delta d)" using q(4) i(1) by (simp add: levels_def)
  then obtain pts where t: "trace (df_A d) (df_B d) (df_cords d1) (path_val d1 (df_delta d)) (fp_val d1 (df_delta d) - df_delta d) (fp_val d1 (df_delta d)) q pts"
    using i(2) g by (auto simp: entry_def)
  have "0 \<le> path_val d1 (df_delta d)" using e i(2) by (simp add: entry_def)
  then have "pts \<noteq> []" using trace_index [OF t] by auto
  moreover have "vec_at (df_path d1) (df_delta d + df_offset d) = Ok (path_val d1 (df_delta d))" using fr g dl by (auto simp: vec_at_def search_frame_def)
  moreover have "far (df_A d) (df_B d) (df_delta d) q (fp_val d1 (df_delta d))" using e g by (simp add: entry_def)
  moreover have "fp_val d1 (df_delta d) = int (df_N d) \<or> MAX_CORDINATES_SIZE \<le> length (df_cords d1) \<and> q < int (df_M d)"
    using q(7) not_done [OF q(4, 2)] q(3) g by auto
  ultimately show ?thesis using q t m by (intro exI [of _ q] exI [of _ d1] exI [of _ "fp_val d1 (df_delta d)"] exI [of _ pts]) simp
qed

section \<open>Scripts\<close>

definition ses_from :: "'e ses \<Rightarrow> 'e list" where
  "ses_from s = map fst (filter (\<lambda>p. ei_type (snd p) \<noteq> SES_ADD) (ss_sequence s))"

definition ses_to :: "'e ses \<Rightarrow> 'e list" where
  "ses_to s = map fst (filter (\<lambda>p. ei_type (snd p) \<noteq> SES_DELETE) (ss_sequence s))"

definition ses_common :: "'e ses \<Rightarrow> 'e list" where
  "ses_common s = map fst (filter (\<lambda>p. ei_type (snd p) = SES_COMMON) (ss_sequence s))"

definition ses_edits :: "'e ses \<Rightarrow> nat" where
  "ses_edits s = length (filter (\<lambda>p. ei_type (snd p) \<noteq> SES_COMMON) (ss_sequence s))"

text \<open>With the deletions first, everything behind the place of the next deletion is an addition.\<close>

definition ses_ok :: "'e ses \<Rightarrow> bool" where
  "ses_ok s \<longleftrightarrow> ss_next_delete s \<le> length (ss_sequence s) \<and>
     (ss_deletes_first s \<longrightarrow> (\<forall>p\<in>set (drop (ss_next_delete s) (ss_sequence s)). ei_type (snd p) = SES_ADD))"

lemma ses_new_ok [simp]: "ses_ok (ses_new b)" "ses_from (ses_new b) = []" "ses_to (ses_new b) = []" "ses_common (ses_new b) = []" "ses_edits (ses_new b) = 0"
  by (simp_all add: ses_ok_def ses_new_def ses_from_def ses_to_def ses_common_def ses_edits_def)

lemma ses_edits_count: "length (ses_from s) + length (ses_to s) = ses_edits s + 2 * length (ses_common s)"
proof -
  have "length (filter (\<lambda>p. ei_type (snd p) \<noteq> SES_ADD) xs) + length (filter (\<lambda>p. ei_type (snd p) \<noteq> SES_DELETE) xs) =
     length (filter (\<lambda>p. ei_type (snd p) \<noteq> SES_COMMON) xs) + 2 * length (filter (\<lambda>p. ei_type (snd p) = SES_COMMON) xs)" for xs :: "'a ses_elem list"
  proof (induction xs)
    case (Cons p xs)
    then show ?case by (cases "ei_type (snd p)") auto
  qed simp
  then show ?thesis by (simp add: ses_from_def ses_to_def ses_edits_def ses_common_def)
qed

lemma filter_take_none:
  assumes "\<forall>p\<in>set (drop n xs). \<not> P p"
  shows "filter P (take n xs) = filter P xs"
proof -
  have "filter P xs = filter P (take n xs) @ filter P (drop n xs)" by (metis append_take_drop_id filter_append)
  then show ?thesis using assms by simp
qed

lemma add_sequence_spec:
  assumes "ses_ok s"
  shows "ses_ok (add_sequence e i j t s)" "ses_from (add_sequence e i j t s) = ses_from s @ (if t = SES_ADD then [] else [e])"
    "ses_to (add_sequence e i j t s) = ses_to s @ (if t = SES_DELETE then [] else [e])" "ses_common (add_sequence e i j t s) = ses_common s @ (if t = SES_COMMON then [e] else [])"
proof -
  let ?n = "ss_next_delete s" and ?q = "ss_sequence s"
  have d: "\<forall>p\<in>set (drop ?n ?q). ei_type (snd p) = SES_ADD" if "ss_deletes_first s" using assms that by (simp add: ses_ok_def)
  have fr: "filter (\<lambda>p. ei_type (snd p) \<noteq> SES_ADD) (take ?n ?q) = filter (\<lambda>p. ei_type (snd p) \<noteq> SES_ADD) ?q" "filter (\<lambda>p. ei_type (snd p) \<noteq> SES_ADD) (drop ?n ?q) = []"
      "filter (\<lambda>p. ei_type (snd p) = SES_COMMON) (drop ?n ?q) = []" "filter (\<lambda>p. ei_type (snd p) = SES_COMMON) (take ?n ?q) = filter (\<lambda>p. ei_type (snd p) = SES_COMMON) ?q"
    if "ss_deletes_first s"
    using d [OF that] by (auto intro!: filter_take_none)
  have to: "map fst (filter P (take ?n ?q)) @ map fst (filter P (drop ?n ?q)) = map fst (filter P ?q)" for P
    by (metis append_take_drop_id filter_append map_append)
  show "ses_ok (add_sequence e i j t s)" using assms d by (cases t) (auto simp: add_sequence_def ses_ok_def Let_def)
  show "ses_from (add_sequence e i j t s) = ses_from s @ (if t = SES_ADD then [] else [e])"
    using fr by (cases t; cases "ss_deletes_first s") (simp_all add: add_sequence_def ses_from_def Let_def)
  show "ses_to (add_sequence e i j t s) = ses_to s @ (if t = SES_DELETE then [] else [e])"
    by (cases t; cases "ss_deletes_first s") (simp_all add: add_sequence_def ses_to_def Let_def to)
  show "ses_common (add_sequence e i j t s) = ses_common s @ (if t = SES_COMMON then [e] else [])"
    using fr by (cases t; cases "ss_deletes_first s") (simp_all add: add_sequence_def ses_common_def Let_def)
qed

section \<open>Recording\<close>

text \<open>
  \<open>recorded d0 x y e d\<close>: between \<open>d0\<close> and \<open>d\<close> the script from the first \<open>x\<close> elements of \<open>A\<close> to the first \<open>y\<close> of \<open>B\<close>, or its reverse, was recorded,
  with \<open>e\<close> elements of \<open>A\<close> that are not common.
\<close>

definition script_over :: "'e diff \<Rightarrow> int \<Rightarrow> int \<Rightarrow> 'e diff \<Rightarrow> bool" where
  "script_over d0 x y d \<longleftrightarrow>
     (let a = take (nat x) (df_A d0); b = take (nat y) (df_B d0) in
      ses_from (df_ses d) = ses_from (df_ses d0) @ (if df_swapped d0 then b else a) \<and> ses_to (df_ses d) = ses_to (df_ses d0) @ (if df_swapped d0 then a else b))"

definition recorded :: "'e diff \<Rightarrow> int \<Rightarrow> int \<Rightarrow> int \<Rightarrow> 'e diff \<Rightarrow> bool" where
  "recorded d0 x y e d \<longleftrightarrow> 0 \<le> x \<and> 0 \<le> y \<and> x \<le> int (length (df_A d0)) \<and> y \<le> int (length (df_B d0)) \<and> ses_ok (df_ses d) \<and> script_over d0 x y d \<and>
     (\<exists>l s. d = d0\<lparr>df_lcs := df_lcs d0 @ l, df_ses := s\<rparr> \<and> ses_common s = ses_common (df_ses d0) @ l \<and> int (length l) = x - e)"

lemma recorded_0: "ses_ok (df_ses d) \<Longrightarrow> recorded d 0 0 0 d"
  unfolding recorded_def script_over_def by (auto intro!: exI [of _ "[]"] exI [of _ "df_ses d"])

lemma recorded_fields:
  assumes "recorded d0 x y e d"
  shows "df_A d = df_A d0" "df_B d = df_B d0" "df_swapped d = df_swapped d0" "df_M d = df_M d0" "df_N d = df_N d0" "df_trivial d = df_trivial d0"
    "df_edit_distance d = df_edit_distance d0" "df_path d = df_path d0" "df_edit_only d = df_edit_only d0" "ses_ok (df_ses d)"
  using assms by (auto simp: recorded_def)

lemma take_nat_step: "0 \<le> i \<Longrightarrow> i < int (length xs) \<Longrightarrow> take (nat (i + 1)) xs = take (nat i) xs @ [xs ! nat i]"
  by (simp add: nat_add_distrib take_Suc_conv_app_nth)

lemma recorded_ins:
  assumes r: "recorded d0 x y e d" and y: "y < int (length (df_B d0))"
  shows "recorded d0 x (y + 1) e (if \<not> df_swapped d then add_ses (df_B d ! nat y) 0 (y + 1) SES_ADD d else add_ses (df_B d ! nat y) (y + 1) 0 SES_DELETE d)"
proof -
  obtain l s where d: "d = d0\<lparr>df_lcs := df_lcs d0 @ l, df_ses := s\<rparr>" "ses_common s = ses_common (df_ses d0) @ l" "int (length l) = x - e" using r by (auto simp: recorded_def)
  have ok: "ses_ok s" "0 \<le> y" using r d(1) by (simp_all add: recorded_def)
  show ?thesis
    using r d y take_nat_step [of y "df_B d0"] ok add_sequence_spec [OF ok(1)]
    unfolding recorded_def script_over_def Let_def add_ses_def by (cases "df_swapped d0") (auto intro!: exI [of _ l])
qed

lemma recorded_del:
  assumes r: "recorded d0 x y e d" and x: "x < int (length (df_A d0))"
  shows "recorded d0 (x + 1) y (e + 1) (if \<not> df_swapped d then add_ses (df_A d ! nat x) (x + 1) 0 SES_DELETE d else add_ses (df_A d ! nat x) 0 (x + 1) SES_ADD d)"
proof -
  obtain l s where d: "d = d0\<lparr>df_lcs := df_lcs d0 @ l, df_ses := s\<rparr>" "ses_common s = ses_common (df_ses d0) @ l" "int (length l) = x - e" using r by (auto simp: recorded_def)
  have ok: "ses_ok s" "0 \<le> x" using r d(1) by (simp_all add: recorded_def)
  show ?thesis
    using r d x take_nat_step [of x "df_A d0"] ok add_sequence_spec [OF ok(1)]
    unfolding recorded_def script_over_def Let_def add_ses_def by (cases "df_swapped d0") (auto intro!: exI [of _ l])
qed

lemma recorded_com:
  assumes r: "recorded d0 x y e d" and x: "x < int (length (df_A d0))" and y: "y < int (length (df_B d0))" and eq: "df_A d0 ! nat x = df_B d0 ! nat y"
    and c: "c = df_A d0 ! nat x"
  shows "recorded d0 (x + 1) (y + 1) e (let d1 = d\<lparr>df_lcs := df_lcs d @ [c]\<rparr>
     in if \<not> df_swapped d then add_ses c (x + 1) (y + 1) SES_COMMON d1 else add_ses c (y + 1) (x + 1) SES_COMMON d1)"
proof -
  obtain l s where d: "d = d0\<lparr>df_lcs := df_lcs d0 @ l, df_ses := s\<rparr>" "ses_common s = ses_common (df_ses d0) @ l" "int (length l) = x - e" using r by (auto simp: recorded_def)
  have ok: "ses_ok s" "0 \<le> x" "0 \<le> y" using r d(1) by (simp_all add: recorded_def)
  show ?thesis
    using r d x y c eq take_nat_step [of x "df_A d0"] take_nat_step [of y "df_B d0"] ok add_sequence_spec [OF ok(1)]
    unfolding recorded_def script_over_def Let_def add_ses_def by (cases "df_swapped d0") (auto intro!: exI [of _ "l @ [c]"])
qed

lemma vec_at_nth: "0 \<le> i \<Longrightarrow> i < int (length xs) \<Longrightarrow> vec_at xs i = Ok (xs ! nat i)"
  by (simp add: vec_at_def)

lemma record_slide:
  assumes "recorded d0 x y e d" "slide (df_A d0) (df_B d0) x y n"
  shows "\<exists>d1. record_to (x + int n, y + int n) x y d = Ok (x + int n, y + int n, d1) \<and> recorded d0 (x + int n) (y + int n) e d1"
  using assms
proof (induction n arbitrary: x y d)
  case 0
  then show ?case by (subst record_to.simps) auto
next
  case (Suc n)
  then have s: "0 \<le> x" "0 \<le> y" "x < int (length (df_A d0))" "y < int (length (df_B d0))" "df_A d0 ! nat x = df_B d0 ! nat y" "slide (df_A d0) (df_B d0) (x + 1) (y + 1) n"
    by (auto simp: slide_Suc)
  note f = recorded_fields [OF Suc.prems(1)]
  let ?c = "df_A d0 ! nat x"
  let ?d = "let d1 = d\<lparr>df_lcs := df_lcs d @ [?c]\<rparr> in if \<not> df_swapped d then add_ses ?c (x + 1) (y + 1) SES_COMMON d1 else add_ses ?c (y + 1) (x + 1) SES_COMMON d1"
  obtain d1 where d1: "record_to (x + 1 + int n, y + 1 + int n) (x + 1) (y + 1) ?d = Ok (x + 1 + int n, y + 1 + int n, d1)" "recorded d0 (x + 1 + int n) (y + 1 + int n) e d1"
    using Suc.IH [OF recorded_com [OF Suc.prems(1) s(3-5) refl] s(6)] by blast
  have c: "(if \<not> df_swapped d then vec_at (df_A d) x else vec_at (df_B d) y) = Ok ?c" using s f by (simp add: vec_at_nth)
  have e: "x + int (Suc n) = x + 1 + int n" "y + int (Suc n) = y + 1 + int n" by simp_all
  have "record_to (x + 1 + int n, y + 1 + int n) x y d = record_to (x + 1 + int n, y + 1 + int n) (x + 1) (y + 1) ?d"
    by (subst record_to.simps) (simp add: c del: bindO_Ok_iff)
  then show ?case using d1 unfolding e by metis
qed

lemma record_node:
  assumes r: "recorded d0 x y e d" and st: "(x1, y1, e1) \<in> {(x, y, e), (x, y + 1, e), (x + 1, y, e + 1)}" and sl: "slide (df_A d0) (df_B d0) x1 y1 n"
  shows "\<exists>d1. record_to (x1 + int n, y1 + int n) x y d = Ok (x1 + int n, y1 + int n, d1) \<and> recorded d0 (x1 + int n) (y1 + int n) e1 d1"
proof -
  note f = recorded_fields [OF r]
  have g: "0 \<le> x" "0 \<le> y" "x1 \<le> int (length (df_A d0))" "y1 \<le> int (length (df_B d0))" using r sl by (auto simp: recorded_def slide_def)
  consider "(x1, y1, e1) = (x, y, e)" | "(x1, y1, e1) = (x, y + 1, e)" | "(x1, y1, e1) = (x + 1, y, e + 1)" using st by blast
  then show ?thesis
  proof cases
    case 1
    then show ?thesis using record_slide [of d0 x y e d n] r sl by simp
  next
    case 2
    let ?d = "if \<not> df_swapped d then add_ses (df_B d ! nat y) 0 (y + 1) SES_ADD d else add_ses (df_B d ! nat y) (y + 1) 0 SES_DELETE d"
    have b: "vec_at (df_B d) y = Ok (df_B d ! nat y)" using 2 g f by (simp add: vec_at_nth)
    have "record_to (x + int n, y + 1 + int n) x y d = record_to (x + int n, y + 1 + int n) x (y + 1) ?d"
      by (subst record_to.simps) (simp add: b del: bindO_Ok_iff)
    moreover have "recorded d0 x (y + 1) e ?d" using recorded_ins [OF r] 2 g by simp
    ultimately show ?thesis using record_slide [of d0 x "y + 1" e ?d n] sl 2 by auto
  next
    case 3
    let ?d = "if \<not> df_swapped d then add_ses (df_A d ! nat x) (x + 1) 0 SES_DELETE d else add_ses (df_A d ! nat x) 0 (x + 1) SES_ADD d"
    have a: "vec_at (df_A d) x = Ok (df_A d ! nat x)" using 3 g f by (simp add: vec_at_nth)
    have "record_to (x + 1 + int n, y + int n) x y d = record_to (x + 1 + int n, y + int n) (x + 1) y ?d"
      by (subst record_to.simps) (simp add: a del: bindO_Ok_iff)
    moreover have "recorded d0 (x + 1) y (e + 1) ?d" using recorded_del [OF r] 3 g by simp
    ultimately show ?thesis using record_slide [of d0 "x + 1" y "e + 1" ?d n] sl 3 by auto
  qed
qed

abbreviation record_points :: "(int \<times> int) list \<Rightarrow> int \<times> int \<times> 'e diff \<Rightarrow> (int \<times> int \<times> 'e diff) outcome" where
  "record_points \<equiv> foldO (\<lambda>c (px, py, d). record_to c px py d)"

lemma record_trace:
  assumes "trace (df_A d0) (df_B d0) c r x y e pts" "ses_ok (df_ses d0)"
  shows "\<exists>d1. record_points (rev pts) (0, 0, d0) = Ok (x, y, d1) \<and> recorded d0 x y e d1"
  using assms
proof (induction rule: trace.induct)
  case (origin c)
  then show ?case using recorded_0 [of d0] by auto
next
  case (node c r x y e pts x1 y1 e1 n j)
  then obtain d1 where d1: "record_points (rev pts) (0, 0, d0) = Ok (x, y, d1)" "recorded d0 x y e d1" by blast
  show ?case using record_node [OF d1(2) node(2, 4)] d1(1) by (auto simp: foldO_last simp del: bindO_Ok_iff)
qed

lemma record_sequence_trace:
  assumes tr: "trace (df_A d) (df_B d) c r (y - df_delta d) y e pts" and pts: "pts \<noteq> []" and ok: "ses_ok (df_ses d)" "\<not> df_trivial d"
    and fr: "df_M d = length (df_A d)" "df_N d = length (df_B d)" "df_delta d = int (df_N d) - int (df_M d)"
  shows "\<exists>d1. recorded d (y - df_delta d) y e d1 \<and> record_sequence pts d = (if y = int (df_N d) then Ok (True, d1) else bindO (restart (y - df_delta d) y d1) (\<lambda>d2. Ok (False, d2)))"
proof -
  obtain d1 where d1: "record_points (rev pts) (0, 0, d) = Ok (y - df_delta d, y, d1)" "recorded d (y - df_delta d) y e d1"
    using record_trace [OF tr ok(1)] by blast
  have "y \<le> int (df_N d)" using d1(2) fr by (simp add: recorded_def)
  then have "record_sequence pts d = (if y = int (df_N d) then Ok (True, d1) else bindO (restart (y - df_delta d) y d1) (\<lambda>d2. Ok (False, d2)))"
    using d1(1) pts ok(2) recorded_fields [OF d1(2)] fr by (auto simp: record_sequence_def simp del: bindO_Ok_iff)
  with d1(2) show ?thesis by blast
qed

section \<open>The whole computation\<close>

text \<open>What is still to be done, in front of a script for what is done.\<close>

definition compose_ok :: "'e list \<Rightarrow> 'e list \<Rightarrow> 'e diff \<Rightarrow> bool" where
  "compose_ok a b d \<longleftrightarrow> search_start d \<and> ses_ok (df_ses d) \<and> \<not> df_trivial d \<and> df_edit_distance d = int (ses_edits (df_ses d)) \<and>
     df_lcs d = ses_common (df_ses d) \<and> a = ses_from (df_ses d) @ (if df_swapped d then df_B d else df_A d) \<and>
     b = ses_to (df_ses d) @ (if df_swapped d then df_A d else df_B d)"

definition diff_done :: "'e list \<Rightarrow> 'e list \<Rightarrow> 'e diff \<Rightarrow> bool" where
  "diff_done a b d \<longleftrightarrow> ses_from (df_ses d) = a \<and> ses_to (df_ses d) = b \<and> df_edit_distance d = int (ses_edits (df_ses d)) \<and> df_lcs d = ses_common (df_ses d)"

lemma recorded_distance:
  assumes "recorded d0 x y e d"
  shows "int (ses_edits (df_ses d)) = int (ses_edits (df_ses d0)) + (y - x) + 2 * e"
proof -
  obtain l s where d: "d = d0\<lparr>df_lcs := df_lcs d0 @ l, df_ses := s\<rparr>" "ses_common s = ses_common (df_ses d0) @ l" "int (length l) = x - e" using assms by (auto simp: recorded_def)
  have xy: "0 \<le> x" "0 \<le> y" "x \<le> int (length (df_A d0))" "y \<le> int (length (df_B d0))" using assms by (simp_all add: recorded_def)
  have "int (length (ses_from (df_ses d))) + int (length (ses_to (df_ses d))) = int (length (ses_from (df_ses d0))) + int (length (ses_to (df_ses d0))) + x + y"
    using assms xy by (auto simp: recorded_def script_over_def Let_def)
  moreover have "int (length (ses_common (df_ses d))) = int (length (ses_common (df_ses d0))) + (x - e)" using d by simp
  ultimately show ?thesis using ses_edits_count [of "df_ses d"] ses_edits_count [of "df_ses d0"] by simp
qed

lemma stop_progress:
  assumes st: "search_start d" and l: "int m = (q + 1) * (df_delta d + q + 1)" "MAX_CORDINATES_SIZE \<le> m" and q: "0 \<le> q" "q < int (df_M d)"
    and far: "far (df_A d) (df_B d) (df_delta d) q y" and y: "df_delta d \<le> y"
  shows "0 < y"
proof (rule ccontr)
  assume "\<not> 0 < y"
  have f: "df_M d = length (df_A d)" "df_N d = length (df_B d)" "df_delta d = int (df_N d) - int (df_M d)" "0 \<le> df_delta d" using st by (simp_all add: search_start_def search_frame_def)
  have z: "df_delta d = 0" using \<open>\<not> 0 < y\<close> y f(4) by simp
  have "moves (df_A d) (df_B d) 0 (0 + int (nat q)) 0" using q f z by (intro moves_ins_many moves.start) simp
  then have "moves (df_A d) (df_B d) (0 + int (nat q)) (0 + int (nat q)) (0 + int (nat q))" using q f by (intro moves_del_many) simp_all
  then have "q \<le> y" using far q f z by (auto simp: far_def)
  then have "q = 0" using \<open>\<not> 0 < y\<close> q by simp
  then show False using l z by (simp add: MAX_CORDINATES_SIZE_def)
qed

lemma search_step:
  assumes ok: "compose_ok a b d"
  obtains q y d3 d2 f p c where
    "compose_run (Suc n) d = (if y = int (df_N d) then Ok (d3\<lparr>df_fp := []\<rparr>)
      else bindO (restart (y - df_delta d) y d3) (\<lambda>d4. compose_run n (d4\<lparr>df_cords := []\<rparr>)))"
    "recorded d2 (y - df_delta d) y q d3"
    "d2 = d\<lparr>df_fp := f, df_path := p, df_cords := c, df_edit_distance := df_edit_distance d + df_delta d + 2 * q\<rparr>" "length p = length (df_path d)"
    "df_delta d \<le> y" "y \<le> int (df_N d)" "y \<noteq> int (df_N d) \<longrightarrow> 0 < y \<and> MAX_CORDINATES_SIZE \<le> df_M d * df_N d"
    "0 \<le> q" "y \<noteq> int (df_N d) \<longrightarrow> int MAX_CORDINATES_SIZE \<le> (q + 1) * (df_delta d + q + 1)"
    "\<forall>e. moves (df_A d) (df_B d) (int (df_M d)) (int (df_N d)) e \<longrightarrow> q \<le> e"
proof -
  have st: "search_start d" and so: "ses_ok (df_ses d)" "\<not> df_trivial d" using ok by (simp_all add: compose_ok_def)
  then have f: "df_M d = length (df_A d)" "df_N d = length (df_B d)" "df_delta d = int (df_N d) - int (df_M d)" "0 \<le> df_delta d" "\<not> df_edit_only d"
    by (simp_all add: search_start_def search_frame_def)
  obtain q d1 y pts where r: "onp_loop (Suc (df_M d)) (- 1) d = Ok (q, d1)" "0 \<le> q" "grown d (length (df_cords d1)) d1"
      "int (length (df_cords d1)) = (q + 1) * (df_delta d + q + 1)" "q \<le> int (df_M d)" "vec_at (df_path d1) (df_delta d + df_offset d) = Ok (path_val d1 (df_delta d))"
      "trace (df_A d) (df_B d) (df_cords d1) (path_val d1 (df_delta d)) (y - df_delta d) y q pts" "pts \<noteq> []"
      "y = int (df_N d) \<or> MAX_CORDINATES_SIZE \<le> length (df_cords d1) \<and> q < int (df_M d)" "far (df_A d) (df_B d) (df_delta d) q y"
      "\<forall>e. moves (df_A d) (df_B d) (int (df_M d)) (int (df_N d)) e \<longrightarrow> q \<le> e"
    using search_result [OF st] by blast
  note g = grown_fields [OF r(3)]
  define d2 where "d2 = d1\<lparr>df_edit_distance := df_edit_distance d1 + df_delta d1 + 2 * q\<rparr>"
  have t2: "trace (df_A d2) (df_B d2) (df_cords d1) (path_val d1 (df_delta d)) (y - df_delta d2) y q pts" using r(7) g by (simp add: d2_def)
  obtain d3 where d3: "recorded d2 (y - df_delta d2) y q d3"
      "record_sequence pts d2 = (if y = int (df_N d2) then Ok (True, d3) else bindO (restart (y - df_delta d2) y d3) (\<lambda>d4. Ok (False, d4)))"
    using record_sequence_trace [OF t2 r(8)] so f g by (auto simp: d2_def)
  have bt: "backtrack (length (df_cords d1)) (df_cords d1) (path_val d1 (df_delta d)) = Ok pts" by (rule trace_backtrack [OF r(7)]) (use trace_index [OF r(7)] in simp)
  have at2: "vec_at (df_path d2) (df_delta d + df_offset d2) = Ok (path_val d1 (df_delta d))" and bt2: "backtrack (length (df_cords d2)) (df_cords d2) (path_val d1 (df_delta d)) = Ok pts"
    using r(6) bt g by (simp_all add: d2_def)
  have e2: "\<not> df_edit_only d2" "df_delta d2 = df_delta d" "df_N d2 = df_N d" using f(5) g by (simp_all add: d2_def)
  have run: "compose_run (Suc n) d = (if y = int (df_N d) then Ok (d3\<lparr>df_fp := []\<rparr>)
      else bindO (restart (y - df_delta d) y d3) (\<lambda>d4. compose_run n (d4\<lparr>df_cords := []\<rparr>)))"
    unfolding compose_run.simps r(1) bindO.simps prod.case Let_def d2_def [symmetric] at2 if_not_P [OF e2(1)] bt2 d3(2) e2(2, 3)
    by (cases "y = int (df_N d)") (simp_all add: bindO_assoc del: bindO_Ok_iff)
  obtain f p c where d1: "d1 = d\<lparr>df_fp := f, df_path := p, df_cords := c\<rparr>" "length p = length (df_path d)" using r(3) unfolding grown_def by blast
  have d2: "d2 = d\<lparr>df_fp := f, df_path := p, df_cords := c, df_edit_distance := df_edit_distance d + df_delta d + 2 * q\<rparr>" using d1 by (simp add: d2_def)
  have rec: "recorded d2 (y - df_delta d) y q d3" using d3(1) unfolding e2(2) .
  have yy: "df_delta d \<le> y" "y \<le> int (df_N d)" using moves_grid [OF trace_moves [OF r(7)]] f by simp_all
  have pr: "0 < y \<and> MAX_CORDINATES_SIZE \<le> df_M d * df_N d" if "y \<noteq> int (df_N d)"
  proof -
    have m: "MAX_CORDINATES_SIZE \<le> length (df_cords d1)" "q < int (df_M d)" using r(9) that by auto
    have "(q + 1) * (df_delta d + q + 1) \<le> int (df_M d) * int (df_N d)" using r(2) m(2) f(3, 4) by (intro mult_mono) auto
    then have "length (df_cords d1) \<le> df_M d * df_N d" unfolding r(4) [symmetric] by (metis of_nat_le_iff of_nat_mult)
    then show ?thesis using m(1) stop_progress [OF st r(4) m(1) r(2) m(2) r(10) yy(1)] by simp
  qed
  have "int MAX_CORDINATES_SIZE \<le> (q + 1) * (df_delta d + q + 1)" if "y \<noteq> int (df_N d)" using r(4, 9) that by linarith
  then show ?thesis by (intro that [OF run rec d2 d1(2) yy]) (use pr r(2, 11) in blast)+
qed

lemma compose_run_ok:
  assumes "compose_ok a b d" "df_M d + df_N d < n"
  shows "\<exists>d1. compose_run n d = Ok d1 \<and> diff_done a b d1"
  using assms
proof (induction n arbitrary: d)
  case 0
  then show ?case by simp
next
  case (Suc n)
  obtain q y d3 d2 f p c where
      run: "compose_run (Suc n) d = (if y = int (df_N d) then Ok (d3\<lparr>df_fp := []\<rparr>) else bindO (restart (y - df_delta d) y d3) (\<lambda>d4. compose_run n (d4\<lparr>df_cords := []\<rparr>)))"
    and rec: "recorded d2 (y - df_delta d) y q d3"
    and d2: "d2 = d\<lparr>df_fp := f, df_path := p, df_cords := c, df_edit_distance := df_edit_distance d + df_delta d + 2 * q\<rparr>" "length p = length (df_path d)"
    and y: "df_delta d \<le> y" "y \<le> int (df_N d)" "y \<noteq> int (df_N d) \<longrightarrow> 0 < y \<and> MAX_CORDINATES_SIZE \<le> df_M d * df_N d"
    by (rule search_step [OF Suc.prems(1), of n]) blast
  have cd: "search_start d" "\<not> df_trivial d" "df_edit_distance d = int (ses_edits (df_ses d))" "df_lcs d = ses_common (df_ses d)"
      "a = ses_from (df_ses d) @ (if df_swapped d then df_B d else df_A d)" "b = ses_to (df_ses d) @ (if df_swapped d then df_A d else df_B d)"
    using Suc.prems(1) by (simp_all add: compose_ok_def)
  have fr: "df_M d = length (df_A d)" "df_N d = length (df_B d)" "df_delta d = int (df_N d) - int (df_M d)" "df_M d \<le> df_N d" "\<not> df_edit_only d"
      "df_M d + df_N d + 3 \<le> length (df_path d)"
    using cd(1) by (simp_all add: search_start_def search_frame_def)
  note rf = recorded_fields [OF rec]
  have sf: "ses_from (df_ses d3) = ses_from (df_ses d) @ (if df_swapped d then take (nat y) (df_B d) else take (nat (y - df_delta d)) (df_A d))"
      "ses_to (df_ses d3) = ses_to (df_ses d) @ (if df_swapped d then take (nat (y - df_delta d)) (df_A d) else take (nat y) (df_B d))"
    using rec d2(1) by (simp_all add: recorded_def script_over_def Let_def)
  have ed: "df_edit_distance d3 = int (ses_edits (df_ses d3))" using recorded_distance [OF rec] rf d2(1) cd(3) by simp
  have lc: "df_lcs d3 = ses_common (df_ses d3)" using rec d2(1) cd(4) by (auto simp: recorded_def)
  show ?case
  proof (cases "y = int (df_N d)")
    case True
    then have "diff_done a b (d3\<lparr>df_fp := []\<rparr>)" using sf ed lc cd(5, 6) fr(1-3) by (simp add: diff_done_def)
    then show ?thesis unfolding run if_P [OF True] by blast
  next
    case False
    define d4 where "d4 = d3\<lparr>df_A := drop (nat (y - df_delta d)) (df_A d), df_B := drop (nat y) (df_B d), df_M := length (df_A d) - nat (y - df_delta d), df_N := length (df_B d) - nat y,
      df_delta := int (length (df_B d) - nat y) - int (length (df_A d) - nat (y - df_delta d)), df_offset := int (length (df_A d) - nat (y - df_delta d)) + 1,
      df_fp := replicate (length (df_A d) - nat (y - df_delta d) + (length (df_B d) - nat y) + 3) (- 1), df_path := replicate (length (df_path d)) (- 1)\<rparr>"
    have rs: "restart (y - df_delta d) y d3 = Ok d4" using rf d2 y fr by (simp add: restart_def Let_def d4_def)
    have "compose_ok a b (d4\<lparr>df_cords := []\<rparr>)"
      using cd rf d2 sf ed lc fr y
      by (auto simp: compose_ok_def search_start_def search_frame_def d4_def nat_le_iff)
    moreover have "df_M (d4\<lparr>df_cords := []\<rparr>) + df_N (d4\<lparr>df_cords := []\<rparr>) < n" 
    proof -
      have "0 < nat y" "nat y \<le> length (df_B d)" using fr y False by simp_all
      then show ?thesis using Suc.prems(2) fr(1, 2) by (simp add: d4_def)
    qed
    ultimately have "\<exists>d1. compose_run n (d4\<lparr>df_cords := []\<rparr>) = Ok d1 \<and> diff_done a b d1" by (rule Suc.IH)
    then show ?thesis using run False rs by (simp del: compose_run.simps)
  qed
qed

lemma diff_new_fields:
  "df_swapped (diff_new df a b) = (\<not> length a < length b)" "df_A (diff_new df a b) = (if length a < length b then a else b)"
  "df_B (diff_new df a b) = (if length a < length b then b else a)" "df_M (diff_new df a b) = min (length a) (length b)" "df_N (diff_new df a b) = max (length a) (length b)"
  by (auto simp: diff_new_def Let_def)

lemma diff_new_ok:
  "compose_ok a b ((diff_new df a b)\<lparr>df_fp := replicate (df_M (diff_new df a b) + df_N (diff_new df a b) + 3) (- 1), df_path := replicate (df_M (diff_new df a b) + df_N (diff_new df a b) + 3) (- 1)\<rparr>)"
  by (auto simp: compose_ok_def search_start_def search_frame_def diff_new_def Let_def)

lemma compose_total: "\<exists>d. diff_compose (diff_new df a b) = Ok d \<and> diff_done a b d"
  unfolding diff_compose_def by (rule compose_run_ok [OF diff_new_ok]) simp

section \<open>The common subsequence is a longest one\<close>

lemma moves_subseq:
  assumes "moves A B x y e" "subseq c (drop (nat x) A)" "subseq c (drop (nat y) B)"
  shows "moves A B (int (length A)) (int (length B)) (e + int (length A) - x - int (length c))"
  using assms
proof (induction "nat (int (length A) - x) + nat (int (length B) - y)" arbitrary: x y e c rule: less_induct)
  case less
  have g: "0 \<le> x" "x \<le> int (length A)" "0 \<le> y" "y \<le> int (length B)" using moves_grid [OF less.prems(1)] by auto
  show ?case
  proof (cases "c = []")
    case True
    have "moves A B (x + int (nat (int (length A) - x))) y (e + int (nat (int (length A) - x)))" using g by (intro moves_del_many less.prems(1)) simp
    then have "moves A B (int (length A)) y (e + int (length A) - x)" using g by (simp add: algebra_simps)
    then have "moves A B (int (length A)) (y + int (nat (int (length B) - y))) (e + int (length A) - x)" using g by (intro moves_ins_many) simp_all
    then show ?thesis using g True by simp
  next
    case False
    then have xy: "x < int (length A)" "y < int (length B)" using less.prems(2, 3) g by (auto simp: not_less intro: ccontr)
    then have da: "drop (nat x) A = A ! nat x # drop (nat (x + 1)) A" and db: "drop (nat y) B = B ! nat y # drop (nat (y + 1)) B"
      using g Cons_nth_drop_Suc [of "nat x" A] Cons_nth_drop_Suc [of "nat y" B] by (simp_all add: nat_add_distrib)
    obtain z zs where c: "c = z # zs" using False by (cases c) auto
    consider "z \<noteq> A ! nat x" | "z \<noteq> B ! nat y" | "z = A ! nat x" "z = B ! nat y" by blast
    then show ?thesis
    proof cases
      case 1
      then have "subseq c (drop (nat (x + 1)) A)" using less.prems(2) c by (simp add: da)
      then have m: "moves A B (int (length A)) (int (length B)) (e + 1 + int (length A) - (x + 1) - int (length c))"
        using less.prems(3) xy g by (intro less.hyps [OF _ moves.del [OF less.prems(1) xy(1)]]) auto
      have "e + 1 + int (length A) - (x + 1) - int (length c) = e + int (length A) - x - int (length c)" by simp
      then show ?thesis using m by (simp only:)
    next
      case 2
      then have "subseq c (drop (nat (y + 1)) B)" using less.prems(3) c by (simp add: db)
      then show ?thesis using less.prems(2) xy g by (intro less.hyps [OF _ moves.ins [OF less.prems(1) xy(2)]]) auto
    next
      case 3
      then have "subseq zs (drop (nat (x + 1)) A)" "subseq zs (drop (nat (y + 1)) B)" using less.prems(2, 3) c by (simp_all add: da db)
      then have m: "moves A B (int (length A)) (int (length B)) (e + int (length A) - (x + 1) - int (length zs))"
        using 3 xy g by (intro less.hyps [OF _ moves.com [OF less.prems(1) xy]]) auto
      have "e + int (length A) - (x + 1) - int (length zs) = e + int (length A) - x - int (length c)" using c by simp
      then show ?thesis using m by (simp only:)
    qed
  qed
qed

lemma compose_longest:
  assumes "length a * length b < MAX_CORDINATES_SIZE" "diff_compose (diff_new df a b) = Ok d" "subseq c a" "subseq c b"
  shows "length c \<le> length (df_lcs d)"
proof -
  define D where "D = (diff_new df a b)\<lparr>df_fp := replicate (df_M (diff_new df a b) + df_N (diff_new df a b) + 3) (- 1),
    df_path := replicate (df_M (diff_new df a b) + df_N (diff_new df a b) + 3) (- 1)\<rparr>"
  have ok: "compose_ok a b D" unfolding D_def by (rule diff_new_ok)
  have fD: "df_A D = (if length a < length b then a else b)" "df_B D = (if length a < length b then b else a)" "df_M D = length (df_A D)" "df_N D = length (df_B D)"
    "df_delta D = int (length (df_B D)) - int (length (df_A D))" "df_lcs D = []"
    by (auto simp: D_def diff_new_def Let_def)
  have rD: "diff_compose (diff_new df a b) = compose_run (Suc (df_M D + df_N D)) D" by (simp add: diff_compose_def D_def)
  obtain q y d3 d2 f p cc where
      run: "compose_run (Suc (df_M D + df_N D)) D = (if y = int (df_N D) then Ok (d3\<lparr>df_fp := []\<rparr>)
        else bindO (restart (y - df_delta D) y d3) (\<lambda>d4. compose_run (df_M D + df_N D) (d4\<lparr>df_cords := []\<rparr>)))"
    and rec: "recorded d2 (y - df_delta D) y q d3"
    and d2: "d2 = D\<lparr>df_fp := f, df_path := p, df_cords := cc, df_edit_distance := df_edit_distance D + df_delta D + 2 * q\<rparr>"
    and y: "y \<noteq> int (df_N D) \<longrightarrow> 0 < y \<and> MAX_CORDINATES_SIZE \<le> df_M D * df_N D"
    and opt: "\<forall>e. moves (df_A D) (df_B D) (int (df_M D)) (int (df_N D)) e \<longrightarrow> q \<le> e"
    by (rule search_step [OF ok, of "df_M D + df_N D"]) blast
  have "df_M D * df_N D = length a * length b" using fD by simp
  then have yN: "y = int (df_N D)" using y assms(1) by auto
  have "subseq c (df_A D)" "subseq c (df_B D)" using assms(3, 4) fD by simp_all
  then have "moves (df_A D) (df_B D) (int (length (df_A D))) (int (length (df_B D))) (0 + int (length (df_A D)) - 0 - int (length c))"
    by (intro moves_subseq [of "df_A D" "df_B D" 0 0 0 c] moves.start) simp_all
  then have "q \<le> int (length (df_A D)) - int (length c)" using opt fD(3, 4) by auto
  moreover have "d = d3\<lparr>df_fp := []\<rparr>" using assms(2) unfolding rD run if_P [OF yN] by simp
  moreover have "int (length (df_lcs d3)) = y - df_delta D - q" using rec d2 fD(6) by (auto simp: recorded_def)
  moreover have "y - df_delta D = int (length (df_A D))" using yN fD(4, 5) by simp
  ultimately show ?thesis by simp
qed

section \<open>Equal sequences\<close>

lemma compose_equal:
  assumes "diff_compose (diff_new df a a) = Ok d"
  shows "df_edit_distance d = 0"
proof -
  define D where "D = (diff_new df a a)\<lparr>df_fp := replicate (df_M (diff_new df a a) + df_N (diff_new df a a) + 3) (- 1),
    df_path := replicate (df_M (diff_new df a a) + df_N (diff_new df a a) + 3) (- 1)\<rparr>"
  have ok: "compose_ok a a D" unfolding D_def by (rule diff_new_ok)
  have fD: "df_A D = a" "df_B D = a" "df_M D = length a" "df_N D = length a" "df_delta D = 0" "df_edit_distance D = 0" by (auto simp: D_def diff_new_def Let_def)
  have rD: "diff_compose (diff_new df a a) = compose_run (Suc (df_M D + df_N D)) D" by (simp add: diff_compose_def D_def)
  obtain q y d3 d2 f p cc where
      run: "compose_run (Suc (df_M D + df_N D)) D = (if y = int (df_N D) then Ok (d3\<lparr>df_fp := []\<rparr>)
        else bindO (restart (y - df_delta D) y d3) (\<lambda>d4. compose_run (df_M D + df_N D) (d4\<lparr>df_cords := []\<rparr>)))"
    and rec: "recorded d2 (y - df_delta D) y q d3"
    and d2: "d2 = D\<lparr>df_fp := f, df_path := p, df_cords := cc, df_edit_distance := df_edit_distance D + df_delta D + 2 * q\<rparr>"
    and q: "0 \<le> q" and y: "y \<noteq> int (df_N D) \<longrightarrow> int MAX_CORDINATES_SIZE \<le> (q + 1) * (df_delta D + q + 1)"
    and opt: "\<forall>e. moves (df_A D) (df_B D) (int (df_M D)) (int (df_N D)) e \<longrightarrow> q \<le> e"
    by (rule search_step [OF ok, of "df_M D + df_N D"]) blast
  have "moves a a (int (length a)) (int (length a)) (0 + int (length a) - 0 - int (length a))" by (intro moves_subseq [of a a 0 0 0 a] moves.start) simp_all
  then have q0: "q = 0" using opt q fD by auto
  then have yN: "y = int (df_N D)" using y fD(5) by (auto simp: MAX_CORDINATES_SIZE_def)
  have "d = d3\<lparr>df_fp := []\<rparr>" using assms unfolding rD run if_P [OF yN] by simp
  then show ?thesis using recorded_fields [OF rec] d2 q0 fD(5, 6) by simp
qed

section \<open>Patching\<close>

lemma patch_loop_ses:
  "patch_loop s pre (map fst (filter (\<lambda>p. ei_type (snd p) \<noteq> SES_ADD) s)) = Ok (pre @ map fst (filter (\<lambda>p. ei_type (snd p) \<noteq> SES_DELETE) s))"
proof (induction s arbitrary: pre)
  case (Cons p s)
  then show ?case by (cases p; cases "ei_type (snd p)") auto
qed simp

lemma subseq_filter_map: "(\<And>x. P x \<Longrightarrow> Q x) \<Longrightarrow> subseq (map f (filter P xs)) (map f (filter Q xs))"
  by (induction xs) auto

lemma ses_common_subseq: "subseq (ses_common s) (ses_from s)" "subseq (ses_common s) (ses_to s)"
  unfolding ses_common_def ses_from_def ses_to_def by (rule subseq_filter_map; simp)+

section \<open>The library's two-way difference as a function\<close>

definition two_way :: "'e list \<Rightarrow> 'e list \<Rightarrow> 'e diff" where
  "two_way a b = (case diff_compose (diff_new False a b) of Ok d \<Rightarrow> d | _ \<Rightarrow> diff_new False a b)"

lemma two_way_compose: "diff_compose (diff_new False a b) = Ok (two_way a b)"
  using compose_total [of False a b] by (auto simp: two_way_def)

lemma two_way_done: "ses_from (df_ses (two_way a b)) = a" "ses_to (df_ses (two_way a b)) = b" "df_edit_distance (two_way a b) = int (ses_edits (df_ses (two_way a b)))"
  using compose_total [of False a b] by (auto simp: two_way_compose diff_done_def)

lemma no_edits_same: "ses_edits s = 0 \<Longrightarrow> ses_from s = ses_to s"
  by (auto simp: ses_edits_def ses_from_def ses_to_def filter_empty_conv intro!: arg_cong [where f = "map fst"] filter_cong)

lemma two_way_distance: "df_edit_distance (two_way a b) = 0 \<longleftrightarrow> a = b"
  using compose_equal [OF two_way_compose [of a a]] two_way_done [of a b] no_edits_same [of "df_ses (two_way a b)"] by auto

section \<open>Properties\<close>

text \<open>
  C23. The difference of two sequences is always found, also when the search has to start again because more than two million points were stored: the
  script rebuilds the first sequence from its deletions and common elements and the second one from its additions and common elements, the edit
  distance counts its edits, the common subsequence is the one of the script, and patching the first sequence gives the second one.
\<close>

theorem diff_script_correct:
  "\<exists>d. diff_compose (diff_new deletes_first a b) = Ok d \<and> ses_from (df_ses d) = a \<and> ses_to (df_ses d) = b \<and>
     df_edit_distance d = int (ses_edits (df_ses d)) \<and> df_lcs d = ses_common (df_ses d) \<and> diff_patch d a = Ok b"
proof -
  obtain d where d: "diff_compose (diff_new deletes_first a b) = Ok d" "diff_done a b d" using compose_total by blast
  then show ?thesis using patch_loop_ses [of "ss_sequence (df_ses d)" "[]"] by (simp add: diff_patch_def diff_done_def ses_from_def ses_to_def)
qed

text \<open>
  C24. Below the limit at which the search starts again, the difference is a shortest one: the common subsequence it reports is a longest
  common subsequence of both sequences, and the edit distance is what is left of them.
\<close>

theorem diff_shortest:
  assumes "length a * length b < MAX_CORDINATES_SIZE"
  shows "\<exists>d. diff_compose (diff_new deletes_first a b) = Ok d \<and> subseq (df_lcs d) a \<and> subseq (df_lcs d) b \<and>
     (\<forall>c. subseq c a \<and> subseq c b \<longrightarrow> length c \<le> length (df_lcs d)) \<and>
     df_edit_distance d = int (length a) + int (length b) - 2 * int (length (df_lcs d))"
proof -
  obtain d where d: "diff_compose (diff_new deletes_first a b) = Ok d" "diff_done a b d" using compose_total by blast
  then show ?thesis
    using compose_longest [OF assms d(1)] ses_common_subseq [of "df_ses d"] ses_edits_count [of "df_ses d"]
    by (intro exI [of _ d]) (auto simp: diff_done_def)
qed

theorem diff_shortest_witness:
  "\<exists>d. diff_compose (diff_new False ''kitten'' ''sitting'') = Ok d \<and> 4 \<le> length (df_lcs d)"
proof -
  have "subseq ''ittn'' ''kitten''" "subseq ''ittn'' ''sitting''" by simp_all
  then show ?thesis using diff_shortest [of "''kitten''" "''sitting''" False] by (fastforce simp: MAX_CORDINATES_SIZE_def)
qed

end
