(* ===== verification/Diff3.thy ===== *)
theory Diff3
  imports Dtl
begin

text \<open>
  The three-way merge of \<^verbatim>\<open>src/src/dtl/Diff3.hpp\<close>, as \<^verbatim>\<open>util::merge\<close> (\<^verbatim>\<open>src/src/util/text.cpp\<close>) uses it on strings.  The locale \<open>diff_script\<close> is what
  the merge relies on of the two-way difference: the script rebuilds both sequences, and the distance is zero exactly for equal sequences.  It is
  interpreted on the model of \<^verbatim>\<open>dtl::Diff\<close> in \<open>Dtl\<close>.
\<close>

section \<open>The merge\<close>

record 'e diff3 =
  d3_A :: "'e list"
  d3_B :: "'e list"
  d3_C :: "'e list"
  d3_S :: "'e list"
  d3_ba :: "'e diff"
  d3_bc :: "'e diff"
  d3_conflict :: bool

definition diff3_new :: "'e list \<Rightarrow> 'e list \<Rightarrow> 'e list \<Rightarrow> 'e diff3" where
  "diff3_new a b c =
     \<lparr>d3_A = a, d3_B = b, d3_C = c, d3_S = [], d3_ba = diff_new False b a, d3_bc = diff_new False b c, d3_conflict = False\<rparr>"

definition diff3_compose :: "'e diff3 \<Rightarrow> 'e diff3 outcome" where
  "diff3_compose d =
     bindO (diff_compose (d3_ba d)) (\<lambda>ba. bindO (diff_compose (d3_bc d)) (\<lambda>bc. Ok (d\<lparr>d3_ba := ba, d3_bc := bc\<rparr>)))"

definition addDecentSequence :: "'e ses_elem list \<Rightarrow> 'e list" where
  "addDecentSequence s = map fst (filter (\<lambda>x. ei_type (snd x) = SES_ADD) s)"

text \<open>
  The loop of \<^verbatim>\<open>merge_\<close> over the two scripts: \<open>Ok (Some seq)\<close> is the merged sequence, \<open>Ok None\<close> a conflict.  Two common elements that differ match
  no branch of the loop body, which then repeats forever; scripts over the same base never get there.
\<close>

fun merge_loop :: "'e ses_elem list \<Rightarrow> 'e ses_elem list \<Rightarrow> 'e list \<Rightarrow> 'e list option outcome" where
  "merge_loop [] bc seq = Ok (Some (seq @ addDecentSequence bc))"
| "merge_loop ba [] seq = Ok (Some (seq @ addDecentSequence ba))"
| "merge_loop ((x, i) # ba) ((y, j) # bc) seq =
     (case (ei_type i, ei_type j) of
        (SES_COMMON, SES_COMMON) \<Rightarrow> (if x = y then merge_loop ba bc (seq @ [x]) else Diverge)
      | (SES_COMMON, SES_DELETE) \<Rightarrow> merge_loop ba bc seq
      | (SES_COMMON, SES_ADD) \<Rightarrow> merge_loop ((x, i) # ba) bc (seq @ [y])
      | (SES_DELETE, SES_COMMON) \<Rightarrow> merge_loop ba bc seq
      | (SES_DELETE, SES_DELETE) \<Rightarrow> (if x = y then merge_loop ba bc seq else Ok None)
      | (SES_DELETE, SES_ADD) \<Rightarrow> Ok None
      | (SES_ADD, SES_COMMON) \<Rightarrow> merge_loop ba ((y, j) # bc) (seq @ [x])
      | (SES_ADD, SES_DELETE) \<Rightarrow> Ok None
      | (SES_ADD, SES_ADD) \<Rightarrow> (if x = y then merge_loop ba bc (seq @ [x]) else Ok None))"

text \<open>A conflict sets the flag, and the base becomes the result.\<close>

definition diff3_merge :: "'e diff3 \<Rightarrow> (bool \<times> 'e diff3) outcome" where
  "diff3_merge d =
     (if df_edit_distance (d3_ba d) = 0 then
        (if df_edit_distance (d3_bc d) = 0 then Ok (True, d\<lparr>d3_S := d3_B d\<rparr>) else Ok (True, d\<lparr>d3_S := d3_C d\<rparr>))
      else if df_edit_distance (d3_bc d) = 0 then Ok (True, d\<lparr>d3_S := d3_A d\<rparr>)
      else
        bindO (merge_loop (ss_sequence (df_ses (d3_ba d))) (ss_sequence (df_ses (d3_bc d))) []) (\<lambda>m.
          let d1 = (case m of Some s \<Rightarrow> d\<lparr>d3_S := s\<rparr> | None \<Rightarrow> d\<lparr>d3_conflict := True, d3_S := d3_B d\<rparr>)
          in if d3_conflict d1 then Ok (False, d1) else Ok (True, d1)))"

text \<open>\<^verbatim>\<open>util::merge(a, b, c, out)\<close>: the new value of \<open>out\<close>, or \<open>None\<close> on a conflict.\<close>

definition text_merge :: "string \<Rightarrow> string \<Rightarrow> string \<Rightarrow> string option outcome" where
  "text_merge a b c =
     bindO (diff3_compose (diff3_new a b c)) (\<lambda>d. bindO (diff3_merge d) (\<lambda>(ok, d1). Ok (if ok then Some (d3_S d1) else None)))"

section \<open>Facts about the loop\<close>

definition script_from :: "'e ses_elem list \<Rightarrow> 'e list" where
  "script_from s = map fst (filter (\<lambda>x. ei_type (snd x) \<noteq> SES_ADD) s)"

definition script_to :: "'e ses_elem list \<Rightarrow> 'e list" where
  "script_to s = map fst (filter (\<lambda>x. ei_type (snd x) \<noteq> SES_DELETE) s)"

lemma script_simps [simp]:
  "script_from [] = []" "script_from ((x, i) # s) = (if ei_type i = SES_ADD then script_from s else x # script_from s)"
  "script_to [] = []" "script_to ((x, i) # s) = (if ei_type i = SES_DELETE then script_to s else x # script_to s)"
  by (simp_all add: script_from_def script_to_def)

lemma merge_loop_same: "merge_loop s s seq = Ok (Some (seq @ script_to s))"
proof (induction s arbitrary: seq)
  case Nil
  then show ?case by (simp add: addDecentSequence_def)
next
  case (Cons p s)
  then show ?case by (cases p; cases "ei_type (snd p)") auto
qed

lemma merge_loop_no_diverge:
  "script_from ba = script_from bc \<Longrightarrow> \<exists>r. merge_loop ba bc seq = Ok r"
  by (induction ba bc seq rule: merge_loop.induct) (auto split: edit_t.splits if_splits)

lemma merge_loop_swap: "merge_loop ba bc seq = merge_loop bc ba seq"
  by (induction ba bc seq rule: merge_loop.induct) (auto simp: addDecentSequence_def split: edit_t.splits, metis merge_loop.simps(1,2) neq_Nil_conv addDecentSequence_def)

lemma added_simps [simp]:
  "addDecentSequence [] = []" "addDecentSequence ((x, i) # s) = (if ei_type i = SES_ADD then x # addDecentSequence s else addDecentSequence s)"
  by (simp_all add: addDecentSequence_def)

lemma only_added: "script_from s = [] \<Longrightarrow> script_to s = addDecentSequence s"
  by (induction s) (auto split: if_splits)

lemma added_subseq: "subseq (addDecentSequence s) (script_to s)"
  by (induction s) auto

lemma merge_loop_keeps:
  "merge_loop ba bc seq = Ok (Some s) \<Longrightarrow> script_from ba = script_from bc \<Longrightarrow>
   \<exists>t. s = seq @ t \<and> subseq (addDecentSequence ba) t \<and> subseq (addDecentSequence bc) t"
  apply (induction ba bc seq rule: merge_loop.induct)
  subgoal for bc seq by (auto simp: addDecentSequence_def filter_empty_conv)
  subgoal for p ba seq by (cases p) (auto simp: addDecentSequence_def filter_empty_conv)
  subgoal for x i ba y j bc seq by (cases "ei_type i"; cases "ei_type j") (auto split: if_splits, (force intro: list_emb_Cons)+)
  done

section \<open>The interface of the two-way difference\<close>

definition merged :: "('e list \<Rightarrow> 'e list \<Rightarrow> 'e diff) \<Rightarrow> 'e list \<Rightarrow> 'e list \<Rightarrow> 'e list \<Rightarrow> 'e list option outcome" where
  "merged diff a b c =
     bindO (diff3_merge ((diff3_new a b c)\<lparr>d3_ba := diff b a, d3_bc := diff b c\<rparr>)) (\<lambda>(ok, d1). Ok (if ok then Some (d3_S d1) else None))"

abbreviation diff_edits :: "'e diff \<Rightarrow> 'e ses_elem list" where
  "diff_edits d \<equiv> ss_sequence (df_ses d)"

lemma merged_eq:
  "merged diff a b c =
     (if df_edit_distance (diff b a) = 0 then (if df_edit_distance (diff b c) = 0 then Ok (Some b) else Ok (Some c))
      else if df_edit_distance (diff b c) = 0 then Ok (Some a)
      else merge_loop (diff_edits (diff b a)) (diff_edits (diff b c)) [])"
  by (cases "merge_loop (diff_edits (diff b a)) (diff_edits (diff b c)) []")
    (auto simp: merged_def diff3_merge_def diff3_new_def Let_def split: option.splits)

lemma script_no_edits:
  "filter (\<lambda>p. ei_type (snd p) \<noteq> SES_COMMON) s = [] \<Longrightarrow> script_from s = script_to s"
  "filter (\<lambda>p. ei_type (snd p) \<noteq> SES_COMMON) s = [] \<Longrightarrow> addDecentSequence s = []"
  by (induction s) (auto split: if_splits)

locale diff_script =
  fixes diff :: "'e list \<Rightarrow> 'e list \<Rightarrow> 'e diff"
  assumes from_script: "script_from (diff_edits (diff b a)) = b"
    and to_script: "script_to (diff_edits (diff b a)) = a"
    and distance: "df_edit_distance (diff b a) = int (length (filter (\<lambda>p. ei_type (snd p) \<noteq> SES_COMMON) (diff_edits (diff b a))))"
    and distance_same: "df_edit_distance (diff b b) = 0"
begin

lemma distance_0: "df_edit_distance (diff b a) = 0 \<longleftrightarrow> b = a"
proof
  assume "df_edit_distance (diff b a) = 0"
  then have "script_from (diff_edits (diff b a)) = script_to (diff_edits (diff b a))" by (simp add: distance script_no_edits)
  then show "b = a" by (simp add: from_script to_script)
qed (simp add: distance_same)

lemma merged_total: "\<exists>r. merged diff a b c = Ok r"
  using merge_loop_no_diverge [of "diff_edits (diff b a)" "diff_edits (diff b c)" "[]"] by (simp add: merged_eq from_script)

lemma merged_same_sides: "merged diff a b a = Ok (Some a)"
  by (simp add: merged_eq distance_0 merge_loop_same to_script)

lemma merged_unchanged: "merged diff b b c = Ok (Some c)" "merged diff a b b = Ok (Some a)"
  by (simp_all add: merged_eq distance_0)

lemma merged_swap: "merged diff a b c = merged diff c b a"
  using merge_loop_swap [of "diff_edits (diff b a)" "diff_edits (diff b c)"] by (simp add: merged_eq distance_0)

lemma merged_keeps:
  assumes "merged diff a b c = Ok (Some s)"
  shows "subseq (addDecentSequence (diff_edits (diff b a))) s \<and> subseq (addDecentSequence (diff_edits (diff b c))) s"
proof (cases "b = a \<or> b = c")
  case True
  have "addDecentSequence (diff_edits (diff b b)) = []"
    using distance [of b b] by (simp add: distance_same script_no_edits)
  then show ?thesis
    using True assms added_subseq [of "diff_edits (diff b a)"] added_subseq [of "diff_edits (diff b c)"] to_script
    by (auto simp: merged_unchanged)
next
  case False
  then have "merge_loop (diff_edits (diff b a)) (diff_edits (diff b c)) [] = Ok (Some s)" using assms by (simp add: merged_eq distance_0)
  then show ?thesis using merge_loop_keeps [of "diff_edits (diff b a)" "diff_edits (diff b c)" "[]" s] by (simp add: from_script)
qed

end

interpretation two_way: diff_script two_way
  using two_way_done compose_equal [OF two_way_compose]
  by unfold_locales (simp_all add: script_from_def script_to_def ses_from_def ses_to_def ses_edits_def)

lemma text_merge_merged: "text_merge a b c = merged two_way a b c"
  by (simp add: text_merge_def merged_def diff3_compose_def diff3_new_def two_way_compose)

section \<open>Properties\<close>

text \<open>
  C25. The three-way merge of texts always ends, with a merged text or with a conflict.  It respects a side that did not change: if one side equals the base
  the result is the other side, and if both sides made the same change the result is that change.  The two sides may be exchanged.  A merge without a
  conflict loses no addition: what either side added to the base is in the merged text, in its order.
\<close>

theorem diff3_merge_spec:
  "(\<exists>r. text_merge a b c = Ok r) \<and> text_merge b b c = Ok (Some c) \<and> text_merge a b b = Ok (Some a) \<and> text_merge a b a = Ok (Some a) \<and>
   text_merge a b c = text_merge c b a \<and>
   (\<forall>s. text_merge a b c = Ok (Some s) \<longrightarrow>
     subseq (addDecentSequence (ss_sequence (df_ses (two_way b a)))) s \<and> subseq (addDecentSequence (ss_sequence (df_ses (two_way b c)))) s)"
  unfolding text_merge_merged
  by (intro conjI allI impI two_way.merged_total two_way.merged_unchanged two_way.merged_same_sides two_way.merged_keeps) (rule two_way.merged_swap)

theorem diff3_merge_spec_witness:
  "text_merge ''xab'' ''ab'' ''aby'' = Ok (Some ''xaby'') \<and> text_merge ''xab'' ''ab'' ''yab'' = Ok None \<and>
   subseq (addDecentSequence (ss_sequence (df_ses (two_way ''ab'' ''aby'')))) ''xaby''"
proof -
  have "text_merge ''xab'' ''ab'' ''aby'' = Ok (Some ''xaby'')" "text_merge ''xab'' ''ab'' ''yab'' = Ok None" by code_simp+
  then show ?thesis using diff3_merge_spec [of "''xab''" "''ab''" "''aby''"] by blast
qed

end
