(* ===== verification/Crstring.thy ===== *)
theory Crstring
  imports Vclock Diff3
begin

text \<open>
  The concurrent string of \<^verbatim>\<open>src/src/util/crstring.hpp\<close> and \<^verbatim>\<open>crstring.cpp\<close>: a text with a tracked
  version vector, merged with the three-way merge of \<^verbatim>\<open>util::merge\<close>.
\<close>

datatype merge_result = NO_CHANGE | UPDATED | MERGED | CONFLICT

record cr_string =
  crs_c :: "string tracked"
  crs_s :: string

definition cr_new :: "string \<Rightarrow> cr_string" where
  "cr_new i = \<lparr>crs_c = tracked_new i, crs_s = []\<rparr>"

definition cr_make :: "string tracked \<Rightarrow> string \<Rightarrow> cr_string" where
  "cr_make c s = \<lparr>crs_c = c, crs_s = s\<rparr>"

definition cr_init_set :: "string \<Rightarrow> cr_string \<Rightarrow> cr_string" where
  "cr_init_set s x = x\<lparr>crs_s := s\<rparr>"

definition cr_set :: "string \<Rightarrow> cr_string \<Rightarrow> cr_string" where
  "cr_set s x = x\<lparr>crs_s := s, crs_c := tracked_incr (crs_c x)\<rparr>"

text \<open>
  \<^verbatim>\<open>x.merge(y)\<close>: the switch on \<^verbatim>\<open>o._c.compare(_c)\<close>, then the merge of the clocks.  The three texts
  handed to \<^verbatim>\<open>util::merge\<close> are \<^verbatim>\<open>o._s\<close>, \<^verbatim>\<open>_s\<close> and \<^verbatim>\<open>o._s\<close> again.
\<close>

definition cr_merge :: "cr_string \<Rightarrow> cr_string \<Rightarrow> (merge_result \<times> cr_string) outcome" where
  "cr_merge x y =
     bindO (tracked_compare (crs_c y) (crs_c x)) (\<lambda>r.
     bindO (if r = - 1 then Ok (NO_CHANGE, x)
            else if r = 1 then Ok (UPDATED, x\<lparr>crs_s := crs_s y\<rparr>)
            else if r = 0 then
              bindO (tracked_identical (crs_c x) (crs_c y)) (\<lambda>same.
                if same then Ok (NO_CHANGE, x)
                else bindO (text_merge (crs_s y) (crs_s x) (crs_s y)) (\<lambda>m.
                  case m of
                    None \<Rightarrow> Ok (CONFLICT, x)
                  | Some t \<Rightarrow> Ok (MERGED, x\<lparr>crs_s := t, crs_c := tracked_incr (crs_c x)\<rparr>)))
            else Exit)
       (\<lambda>(res, x1). bindO (tracked_merge (crs_c x1) (crs_c y)) (\<lambda>c. Ok (res, x1\<lparr>crs_c := c\<rparr>))))"

section \<open>What a merge does\<close>

definition cr_inv :: "cr_string \<Rightarrow> bool" where
  "cr_inv x \<longleftrightarrow> tracked_inv (crs_c x) \<and> clock_small (tv_c (crs_c x))"

abbreviation cr_clock :: "cr_string \<Rightarrow> string clock" where
  "cr_clock x \<equiv> tv_c (crs_c x)"

definition cr_before :: "cr_string \<Rightarrow> cr_string \<Rightarrow> bool" where
  "cr_before x y \<longleftrightarrow> clock_le (cr_clock x) (cr_clock y) \<and> \<not> clock_le (cr_clock y) (cr_clock x)"

definition cr_concurrent :: "cr_string \<Rightarrow> cr_string \<Rightarrow> bool" where
  "cr_concurrent x y \<longleftrightarrow> \<not> clock_le (cr_clock x) (cr_clock y) \<and> \<not> clock_le (cr_clock y) (cr_clock x)"

lemma cr_compare:
  "cr_inv x \<Longrightarrow> cr_inv y \<Longrightarrow> tracked_compare (crs_c y) (crs_c x) =
     Ok (if cr_before y x then - 1 else if cr_before x y then 1 else 0)"
  by (simp add: cr_inv_def tracked_compare_spec vclock_compare_small cr_before_def)

lemma cr_clocks_join:
  "tracked_inv t \<Longrightarrow> cr_inv y \<Longrightarrow>
   tracked_merge t (crs_c y) = Ok (t\<lparr>tv_c := vclock_merge (tv_c t) (cr_clock y)\<rparr>)"
  by (simp add: cr_inv_def tracked_merge_spec)

lemma cr_inv_tracked [simp]: "cr_inv x \<Longrightarrow> tracked_inv (crs_c x)"
  by (simp add: cr_inv_def)

lemma cr_merge_newer:
  "cr_inv x \<Longrightarrow> cr_inv y \<Longrightarrow> cr_before x y \<Longrightarrow> cr_merge x y =
     Ok (UPDATED, x\<lparr>crs_s := crs_s y, crs_c := (crs_c x)\<lparr>tv_c := vclock_merge (cr_clock x) (cr_clock y)\<rparr>\<rparr>)"
  by (simp add: cr_merge_def cr_compare cr_before_def cr_clocks_join del: bindO_Ok_iff)

lemma cr_merge_older:
  "cr_inv x \<Longrightarrow> cr_inv y \<Longrightarrow> cr_before y x \<Longrightarrow> cr_merge x y =
     Ok (NO_CHANGE, x\<lparr>crs_c := (crs_c x)\<lparr>tv_c := vclock_merge (cr_clock x) (cr_clock y)\<rparr>\<rparr>)"
  by (simp add: cr_merge_def cr_compare cr_before_def cr_clocks_join del: bindO_Ok_iff)

lemma cr_merge_identical:
  assumes "cr_inv x" "cr_inv y" "cr_clock x = cr_clock y"
  shows "cr_merge x y = Ok (NO_CHANGE, x)"
proof -
  have "tracked_identical (crs_c x) (crs_c y) = Ok True"
    using assms by (simp add: tracked_identical_spec)
  moreover have "vclock_merge (cr_clock x) (cr_clock y) = cr_clock x"
    using assms by (simp add: cr_inv_def tracked_inv_def vclock_merge_idem)
  moreover have "x\<lparr>crs_c := (crs_c x)\<lparr>tv_c := cr_clock x\<rparr>\<rparr> = x" by simp
  ultimately show ?thesis
    using assms by (simp add: cr_merge_def cr_compare cr_before_def cr_clocks_join del: bindO_Ok_iff)
qed

lemma cr_merge_concurrent:
  assumes "cr_inv x" "cr_inv y" "cr_concurrent x y"
  shows "cr_merge x y = Ok (MERGED, x\<lparr>crs_s := crs_s y,
    crs_c := (crs_c x)\<lparr>tv_c := vclock_merge (tv_c (tracked_incr (crs_c x))) (cr_clock y)\<rparr>\<rparr>)"
proof -
  have "cr_clock x \<noteq> cr_clock y" using assms(3) by (auto simp: cr_concurrent_def clock_le_def)
  then have "tracked_identical (crs_c x) (crs_c y) = Ok False"
    using assms(1,2) by (simp add: tracked_identical_spec)
  moreover have "tracked_inv (tracked_incr (crs_c x))" "tv_i (tracked_incr (crs_c x)) = tv_i (crs_c x)"
    using assms(1) by (simp_all add: tracked_incr_spec)
  moreover from this have "(tracked_incr (crs_c x))\<lparr>tv_c := c\<rparr> = (crs_c x)\<lparr>tv_c := c\<rparr>" for c
    by (cases "tracked_incr (crs_c x)", cases "crs_c x") simp
  ultimately show ?thesis
    using assms
    by (simp add: cr_merge_def cr_compare cr_before_def cr_concurrent_def text_merge_merged
        two_way.merged_same_sides cr_clocks_join del: bindO_Ok_iff)
qed

section \<open>Properties\<close>

text \<open>
  Merging with a replica that is strictly ahead takes its text and reports UPDATED; merging with
  one that is strictly behind, or at the same version, keeps the text and reports NO_CHANGE.  In each
  case the clock becomes the least upper bound of both clocks and the replica keeps its own id.
\<close>

theorem cr_merge_ordered:
  assumes "cr_inv x" and "cr_inv y"
    and "cr_before x y \<or> cr_before y x \<or> cr_clock x = cr_clock y"
  shows "\<exists>res x'. cr_merge x y = Ok (res, x') \<and>
    (res, crs_s x') = (if cr_before x y then (UPDATED, crs_s y) else (NO_CHANGE, crs_s x)) \<and>
    cr_clock x' = vclock_merge (cr_clock x) (cr_clock y) \<and> tv_i (crs_c x') = tv_i (crs_c x)"
proof -
  have "vclock_merge (cr_clock x) (cr_clock x) = cr_clock x"
    using assms(1) by (simp add: cr_inv_def tracked_inv_def vclock_merge_idem)
  moreover have "\<not> (cr_before x y \<and> cr_before y x)" "cr_clock x = cr_clock y \<Longrightarrow> \<not> cr_before x y"
    by (auto simp: cr_before_def)
  ultimately show ?thesis
    using assms cr_merge_newer [OF assms(1,2)] cr_merge_older [OF assms(1,2)]
      cr_merge_identical [OF assms(1,2)]
    by auto
qed

theorem cr_merge_ordered_witness:
  "\<exists>res x'. cr_merge (cr_new ''a'') (cr_set ''hi'' (cr_new ''a'')) = Ok (res, x') \<and>
     res = UPDATED \<and> crs_s x' = ''hi''"
proof -
  let ?x = "cr_new ''a''" and ?y = "cr_set ''hi'' (cr_new ''a'')"
  have y: "cr_clock ?y = [(''a'', 2)]" and x: "cr_clock ?x = [(''a'', 1)]"
    by (simp_all add: cr_set_def cr_new_def tracked_new_def tracked_incr_def vclock_ref_def vclock_set_def)
  have "cr_inv ?x" by (simp add: cr_inv_def x clock_small_def) (simp add: cr_new_def tracked_inv_constructors)
  moreover have "cr_inv ?y"
    by (simp add: cr_inv_def y clock_small_def)
      (simp add: cr_set_def cr_new_def tracked_incr_spec tracked_inv_constructors)
  moreover have before: "cr_before ?x ?y"
    unfolding cr_before_def clock_le_def x y by (auto simp: vclock_val_def word_le_nat_alt)
  ultimately show ?thesis
    using cr_merge_ordered [of ?x ?y] by (auto simp: cr_set_def)
qed

text \<open>
  Concurrent edits are not merged, they are swapped.  Because the other replica's text is passed
  both as the left and as the right side of the three-way merge, the merge of two concurrent replicas
  always succeeds and yields the other replica's text; when both replicas merge each other, each ends
  with the text the other one had, and neither has combined the two edits.
\<close>

theorem cr_merge_concurrent_swaps:
  assumes "cr_inv x" and "cr_inv y" and "cr_concurrent x y"
  shows "\<exists>x' y'. cr_merge x y = Ok (MERGED, x') \<and> cr_merge y x = Ok (MERGED, y') \<and>
    crs_s x' = crs_s y \<and> crs_s y' = crs_s x"
  using cr_merge_concurrent [OF assms] cr_merge_concurrent [OF assms(2,1)] assms(3)
  by (auto simp: cr_concurrent_def)

theorem cr_merge_concurrent_swaps_witness:
  "\<exists>x' y'. cr_merge (cr_init_set ''left'' (cr_new ''a'')) (cr_init_set ''right'' (cr_new ''b''))
       = Ok (MERGED, x') \<and> crs_s x' = ''right''"
proof -
  let ?x = "cr_init_set ''left'' (cr_new ''a'')" and ?y = "cr_init_set ''right'' (cr_new ''b'')"
  have x: "cr_clock ?x = [(''a'', 1)]" and y: "cr_clock ?y = [(''b'', 1)]"
    by (simp_all add: cr_init_set_def cr_new_def tracked_new_def vclock_set_def)
  have "cr_inv ?x" "cr_inv ?y"
    by (simp_all add: cr_inv_def x y clock_small_def)
      (simp_all add: cr_init_set_def cr_new_def tracked_inv_constructors)
  moreover have "\<not> clock_le (cr_clock ?x) (cr_clock ?y)"
    unfolding x y clock_le_def by (rule notI, drule spec [of _ "''a''"]) (simp add: vclock_val_def)
  moreover have "\<not> clock_le (cr_clock ?y) (cr_clock ?x)"
    unfolding x y clock_le_def by (rule notI, drule spec [of _ "''b''"]) (simp add: vclock_val_def)
  ultimately show ?thesis
    using cr_merge_concurrent_swaps [of ?x ?y]
    by (auto simp: cr_concurrent_def cr_init_set_def)
qed

end
