(* ===== verification/Security.thy ===== *)
theory Security
  imports Mencode
begin

text \<open>
  Keys and encrypted channels, \<^verbatim>\<open>src/src/security/security.cpp\<close> and \<^verbatim>\<open>src/src/security/security_library.cpp\<close>.  The Botan library is a parameter of the
  model, the record \<open>botan\<close>: \<open>'k\<close> are its key objects and \<open>'r\<close> the state of its random number generator, which every operation that draws
  from it returns updated.  The global \<^verbatim>\<open>RNG\<close> is \<open>'r option\<close>, null until \<^verbatim>\<open>init_rng\<close>.  The locales \<open>eme_pair\<close> and \<open>symmetric_cipher\<close> name
  what the code relies on.
\<close>

record ('r, 'k) botan =
  b_seed :: 'r
  b_rsa_new :: "nat \<Rightarrow> 'r \<Rightarrow> 'k \<times> 'r"
  b_x509_pem :: "'k \<Rightarrow> string"
  b_pkcs8_pem :: "'k \<Rightarrow> string \<Rightarrow> 'r \<Rightarrow> string \<times> 'r"
  b_pkcs8_load :: "string \<Rightarrow> string \<Rightarrow> 'r \<Rightarrow> ('k option \<times> 'r) outcome"
  b_x509_load :: "string \<Rightarrow> 'k option outcome"
  b_max_input :: "'k \<Rightarrow> nat"
  b_eme_encrypt :: "'k \<Rightarrow> bytes \<Rightarrow> 'r \<Rightarrow> (bytes \<times> 'r) outcome"
  b_eme_decrypt :: "'k \<Rightarrow> bytes \<Rightarrow> bytes outcome"
  b_sign :: "'k \<Rightarrow> bytes \<Rightarrow> 'r \<Rightarrow> (bytes \<times> 'r) outcome"
  b_verify :: "'k \<Rightarrow> bytes \<Rightarrow> bytes \<Rightarrow> bool"
  b_dh_new :: "'r \<Rightarrow> 'k \<times> 'r"
  b_dh_public :: "'k \<Rightarrow> bytes"
  b_derive_key :: "'k \<Rightarrow> nat \<Rightarrow> bytes \<Rightarrow> string \<Rightarrow> 'k outcome"
  b_encipher :: "'k \<Rightarrow> bytes \<Rightarrow> bytes outcome"
  b_decipher :: "'k \<Rightarrow> bytes \<Rightarrow> bytes outcome"

section \<open>Constants and the random number generator\<close>

definition SIGNATURE_SIZE :: nat where "SIGNATURE_SIZE = 512"
definition RSA_SIZE :: nat where "RSA_SIZE = 4096"
definition CONVERSATION_PARAM :: string where "CONVERSATION_PARAM = ''firestr''"
definition DH_KEY_SIZE :: nat where "DH_KEY_SIZE = 32"

definition init_rng :: "('r, 'k) botan \<Rightarrow> 'r option \<Rightarrow> 'r" where
  "init_rng B g = (case g of Some r \<Rightarrow> r | None \<Rightarrow> b_seed B)"

definition validate_passphrase :: "string \<Rightarrow> unit outcome" where
  "validate_passphrase p = (if length p > 50 then Throw InvalidArgument else Ok ())"

section \<open>Private keys\<close>

record 'k private_key =
  pv_k :: 'k
  pv_encrypted :: string
  pv_public :: string

definition private_key_new :: "('r, 'k) botan \<Rightarrow> string \<Rightarrow> 'r option \<Rightarrow> ('k private_key \<times> 'r option) outcome" where
  "private_key_new B passphrase g =
     bindO (validate_passphrase passphrase) (\<lambda>_.
       let r = init_rng B g;
           (k, r1) = b_rsa_new B RSA_SIZE r;
           (ep, r2) = b_pkcs8_pem B k passphrase r1
       in contract (ep \<noteq> []) (contract (b_x509_pem B k \<noteq> [])
            (Ok (\<lparr>pv_k = k, pv_encrypted = ep, pv_public = b_x509_pem B k\<rparr>, Some r2))))"

definition private_key_load :: "('r, 'k) botan \<Rightarrow> string \<Rightarrow> string \<Rightarrow> 'r option \<Rightarrow> ('k private_key \<times> 'r option) outcome" where
  "private_key_load B ep passphrase g =
     contract (ep \<noteq> [])
       (bindO (validate_passphrase passphrase) (\<lambda>_.
          bindO (b_pkcs8_load B ep passphrase (init_rng B g)) (\<lambda>(ko, r1).
            case ko of
              None \<Rightarrow> Throw InvalidArgument
            | Some k \<Rightarrow> contract (b_x509_pem B k \<noteq> [])
                (Ok (\<lparr>pv_k = k, pv_encrypted = ep, pv_public = b_x509_pem B k\<rparr>, Some r1)))))"

text \<open>
  \<^verbatim>\<open>private_key::decrypt\<close> reads byte strings until an empty one: at the end of the stream reading gives the empty string.  It
  hands \<^verbatim>\<open>*RNG\<close> to the decryptor without \<^verbatim>\<open>init_rng\<close>, which is undefined on the null pointer.
\<close>

primrec decrypt_loop :: "cxx_lib \<Rightarrow> ('r, 'k) botan \<Rightarrow> 'k \<Rightarrow> nat \<Rightarrow> istream \<Rightarrow> bytes \<Rightarrow> bytes \<Rightarrow> bytes outcome" where
  "decrypt_loop L B k 0 s bs rs = Diverge"
| "decrypt_loop L B k (Suc n) s bs rs =
     (if bs = [] then Ok rs
      else bindO (b_eme_decrypt B k bs) (\<lambda>r.
             bindO (read_bytes L s) (\<lambda>(bs', s'). decrypt_loop L B k n s' bs' (rs @ r))))"

definition private_key_decrypt :: "cxx_lib \<Rightarrow> ('r, 'k) botan \<Rightarrow> 'k private_key \<Rightarrow> bytes \<Rightarrow> 'r option \<Rightarrow> bytes outcome" where
  "private_key_decrypt L B pk b g =
     (case g of
        None \<Rightarrow> Undef
      | Some _ \<Rightarrow>
          bindO (read_bytes L (stream_of (to_str b))) (\<lambda>(bs, s). decrypt_loop L B (pv_k pk) (length b + 2) s bs []))"

definition private_key_sign :: "('r, 'k) botan \<Rightarrow> 'k private_key \<Rightarrow> bytes \<Rightarrow> 'r option \<Rightarrow> (bytes \<times> 'r option) outcome" where
  "private_key_sign B pk b g =
     bindO (b_sign B (pv_k pk) b (init_rng B g)) (\<lambda>(r, r1). contract (length r = SIGNATURE_SIZE) (Ok (r, Some r1)))"

section \<open>Public keys\<close>

record 'k public_key =
  pu_ks :: string
  pu_k :: "'k option"

definition public_key_default :: "'k public_key" where
  "public_key_default = \<lparr>pu_ks = [], pu_k = None\<rparr>"

text \<open>\<^verbatim>\<open>set\<close> loads the key from the member \<^verbatim>\<open>_ks\<close>; its argument is only checked not to be empty.\<close>

definition public_key_set :: "('r, 'k) botan \<Rightarrow> string \<Rightarrow> 'k public_key \<Rightarrow> 'k public_key outcome" where
  "public_key_set B key p =
     contract (key \<noteq> [])
       (bindO (b_x509_load B (pu_ks p)) (\<lambda>ko. contract (ko \<noteq> None) (contract (pu_ks p \<noteq> []) (Ok (p\<lparr>pu_k := ko\<rparr>)))))"

definition public_key_of_string :: "('r, 'k) botan \<Rightarrow> string \<Rightarrow> 'k public_key outcome" where
  "public_key_of_string B key = contract (key \<noteq> []) (public_key_set B key \<lparr>pu_ks = key, pu_k = None\<rparr>)"

definition public_key_of_private :: "('r, 'k) botan \<Rightarrow> 'k private_key \<Rightarrow> 'k public_key outcome" where
  "public_key_of_private B pk = contract (pv_public pk \<noteq> []) (public_key_of_string B (pv_public pk))"

definition public_key_valid :: "'k public_key \<Rightarrow> bool" where
  "public_key_valid p \<longleftrightarrow> pu_k p \<noteq> None"

definition public_key_key :: "'k public_key \<Rightarrow> string outcome" where
  "public_key_key p = contract (pu_k p \<noteq> None) (contract (pu_ks p \<noteq> []) (Ok (pu_ks p)))"

definition public_key_copy :: "('r, 'k) botan \<Rightarrow> 'k public_key \<Rightarrow> 'k public_key outcome" where
  "public_key_copy B p =
     (if pu_k p = None then Ok \<lparr>pu_ks = pu_ks p, pu_k = None\<rparr>
      else bindO (public_key_key p) (\<lambda>key. public_key_set B key \<lparr>pu_ks = pu_ks p, pu_k = None\<rparr>))"

definition public_key_assign :: "('r, 'k) botan \<Rightarrow> 'k public_key \<Rightarrow> 'k public_key outcome" where
  "public_key_assign B p =
     bindO (b_x509_load B (pu_ks p)) (\<lambda>ko.
       contract (ko \<noteq> None) (contract (pu_ks p \<noteq> []) (Ok \<lparr>pu_ks = pu_ks p, pu_k = ko\<rparr>)))"

text \<open>
  \<^verbatim>\<open>public_key::encrypt\<close>: the plain text in pieces of at most \<^verbatim>\<open>maximum_input_size\<close>, each encrypted and written as a byte string.  With a
  maximum of 0 the loop would not advance.
\<close>

primrec encrypt_loop :: "cxx_lib \<Rightarrow> ('r, 'k) botan \<Rightarrow> 'k \<Rightarrow> nat \<Rightarrow> bytes \<Rightarrow> bytes \<Rightarrow> 'r \<Rightarrow> (bytes \<times> 'r) outcome" where
  "encrypt_loop L B k 0 b rs r = Diverge"
| "encrypt_loop L B k (Suc n) b rs r =
     (if b = [] then Ok (rs, r)
      else let size = min (b_max_input B k) (length b) in
        bindO (b_eme_encrypt B k (take size b) r) (\<lambda>(c, r1).
          encrypt_loop L B k n (drop size b) (rs @ encode_b L c) r1))"

definition public_key_encrypt :: "cxx_lib \<Rightarrow> ('r, 'k) botan \<Rightarrow> 'k public_key \<Rightarrow> bytes \<Rightarrow> 'r option \<Rightarrow> (bytes \<times> 'r option) outcome" where
  "public_key_encrypt L B p b g =
     (case pu_k p of
        None \<Rightarrow> Exit
      | Some k \<Rightarrow>
          contract (pu_ks p \<noteq> [])
            (bindO (encrypt_loop L B k (Suc (length b)) b [] (init_rng B g)) (\<lambda>(rs, r). Ok (to_bytes rs, Some r))))"

definition public_key_verify :: "('r, 'k) botan \<Rightarrow> 'k public_key \<Rightarrow> bytes \<Rightarrow> bytes \<Rightarrow> bool outcome" where
  "public_key_verify B p msg sig =
     (case pu_k p of None \<Rightarrow> Exit | Some k \<Rightarrow> contract (pu_ks p \<noteq> []) (Ok (b_verify B k msg sig)))"

section \<open>Keys on a stream\<close>

definition encode_private_key :: "cxx_lib \<Rightarrow> 'k private_key \<Rightarrow> bytes outcome" where
  "encode_private_key L k = contract (pv_encrypted k \<noteq> []) (Ok (encode_value L (value_of_string (pv_encrypted k))))"

definition decode_private_key ::
    "cxx_lib \<Rightarrow> ('r, 'k) botan \<Rightarrow> istream \<Rightarrow> string \<Rightarrow> 'r option \<Rightarrow> ('k private_key \<times> 'r option) outcome" where
  "decode_private_key L B s passphrase g =
     bindO (read_value L s) (\<lambda>(v, _). bindO (as_string v) (\<lambda>e. private_key_load B e passphrase g))"

definition encode_public_key :: "cxx_lib \<Rightarrow> 'k public_key \<Rightarrow> bytes outcome" where
  "encode_public_key L k = bindO (public_key_key k) (\<lambda>s. Ok (encode_value L (value_of_string s)))"

definition decode_public_key :: "cxx_lib \<Rightarrow> ('r, 'k) botan \<Rightarrow> istream \<Rightarrow> 'k public_key outcome" where
  "decode_public_key L B s = bindO (read_value L s) (\<lambda>(v, _). bindO (as_string v) (\<lambda>e. public_key_of_string B e))"

section \<open>Diffie-Hellman secrets\<close>

record 'k dh_secret =
  dh_pkey :: 'k
  dh_skey :: "'k option"
  dh_pub_value :: bytes
  dh_other_pub_value :: bytes

definition dh_secret_new :: "('r, 'k) botan \<Rightarrow> 'r option \<Rightarrow> ('k dh_secret \<times> 'r option) outcome" where
  "dh_secret_new B g =
     (let (k, r) = b_dh_new B (init_rng B g);
          p = b_dh_public B k
      in contract (p \<noteq> []) (Ok (\<lparr>dh_pkey = k, dh_skey = None, dh_pub_value = p, dh_other_pub_value = []\<rparr>, Some r)))"

definition dh_public_value :: "'k dh_secret \<Rightarrow> bytes outcome" where
  "dh_public_value s = contract (dh_pub_value s \<noteq> []) (Ok (dh_pub_value s))"

definition dh_other_public_value :: "'k dh_secret \<Rightarrow> bytes outcome" where
  "dh_other_public_value s = contract (dh_skey s = None \<or> dh_other_pub_value s \<noteq> []) (Ok (dh_other_pub_value s))"

definition create_symmetric_key :: "('r, 'k) botan \<Rightarrow> bytes \<Rightarrow> 'k dh_secret \<Rightarrow> 'r option \<Rightarrow> ('k dh_secret \<times> 'r option) outcome" where
  "create_symmetric_key B pv s g =
     bindO (b_derive_key B (dh_pkey s) DH_KEY_SIZE pv CONVERSATION_PARAM) (\<lambda>k.
       Ok (s\<lparr>dh_skey := Some k, dh_other_pub_value := pv\<rparr>, Some (init_rng B g)))"

definition dh_ready :: "'k dh_secret \<Rightarrow> bool" where
  "dh_ready s \<longleftrightarrow> dh_skey s \<noteq> None"

definition dh_encrypt :: "('r, 'k) botan \<Rightarrow> 'k dh_secret \<Rightarrow> bytes \<Rightarrow> bytes outcome" where
  "dh_encrypt B s bs = (case dh_skey s of None \<Rightarrow> Exit | Some k \<Rightarrow> b_encipher B k bs)"

definition dh_decrypt :: "('r, 'k) botan \<Rightarrow> 'k dh_secret \<Rightarrow> bytes \<Rightarrow> bytes outcome" where
  "dh_decrypt B s bs = (case dh_skey s of None \<Rightarrow> Exit | Some k \<Rightarrow> b_decipher B k bs)"

section \<open>Encrypted channels\<close>

record 'k channel =
  ch_secret :: "'k dh_secret"
  ch_key :: "'k public_key"

datatype sc_encryption_type = EPlaintext | ESymmetric | EAsymmetric | EUnknown

definition prefix_of :: "sc_encryption_type \<Rightarrow> char" where
  "prefix_of t = (case t of EPlaintext \<Rightarrow> CHR ''P'' | ESymmetric \<Rightarrow> CHR ''S'' | EAsymmetric \<Rightarrow> CHR ''A'' | EUnknown \<Rightarrow> CHR ''U'')"

record 'k encrypted_channels =
  ec_s :: "(string \<times> 'k channel) list"
  ec_pk :: "'k private_key"

definition encrypted_channels_new :: "'k private_key \<Rightarrow> 'k encrypted_channels" where
  "encrypted_channels_new pk = \<lparr>ec_s = [], ec_pk = pk\<rparr>"

definition append_prefix :: "char \<Rightarrow> bytes \<Rightarrow> bytes" where
  "append_prefix p bs = p # bs"

definition channel_encrypt_asymmetric ::
    "cxx_lib \<Rightarrow> ('r, 'k) botan \<Rightarrow> 'k channel option \<Rightarrow> bytes \<Rightarrow> 'r option \<Rightarrow> (bytes \<times> 'r option) outcome" where
  "channel_encrypt_asymmetric L B s bs g =
     (if bs = [] then Ok ([], g)
      else (case s of
              None \<Rightarrow> Ok ([], g)
            | Some c \<Rightarrow> bindO (public_key_encrypt L B (ch_key c) bs g) (\<lambda>(es, g1).
                Ok (append_prefix (prefix_of EAsymmetric) es, g1))))"

definition encrypt_asymmetric ::
    "cxx_lib \<Rightarrow> ('r, 'k) botan \<Rightarrow> 'k encrypted_channels \<Rightarrow> string \<Rightarrow> bytes \<Rightarrow> 'r option \<Rightarrow> (bytes \<times> 'r option) outcome" where
  "encrypt_asymmetric L B e i bs g = channel_encrypt_asymmetric L B (map_of (ec_s e) i) bs g"

definition encrypt_plaintext :: "bytes \<Rightarrow> bytes" where
  "encrypt_plaintext bs = append_prefix (prefix_of EPlaintext) bs"

definition channel_encrypt_symmetric :: "('r, 'k) botan \<Rightarrow> 'k channel option \<Rightarrow> bytes \<Rightarrow> bytes outcome" where
  "channel_encrypt_symmetric B s bs =
     (case s of
        None \<Rightarrow> Ok []
      | Some c \<Rightarrow> contract (dh_ready (ch_secret c))
          (bindO (dh_encrypt B (ch_secret c) bs) (\<lambda>es. Ok (append_prefix (prefix_of ESymmetric) es))))"

definition encrypt_symmetric :: "('r, 'k) botan \<Rightarrow> 'k encrypted_channels \<Rightarrow> string \<Rightarrow> bytes \<Rightarrow> bytes outcome" where
  "encrypt_symmetric B e i bs = channel_encrypt_symmetric B (map_of (ec_s e) i) bs"

definition channels_encrypt ::
    "cxx_lib \<Rightarrow> ('r, 'k) botan \<Rightarrow> 'k encrypted_channels \<Rightarrow> string \<Rightarrow> bytes \<Rightarrow> 'r option \<Rightarrow> (bytes \<times> 'r option) outcome" where
  "channels_encrypt L B e i bs g =
     (case map_of (ec_s e) i of
        None \<Rightarrow> Ok (encrypt_plaintext bs, g)
      | Some c \<Rightarrow>
          if \<not> dh_ready (ch_secret c) then channel_encrypt_asymmetric L B (Some c) bs g
          else bindO (channel_encrypt_symmetric B (Some c) bs) (\<lambda>es. Ok (es, g)))"

text \<open>\<^verbatim>\<open>decrypt\<close> leaves its out parameter \<^verbatim>\<open>et\<close> unset (\<open>None\<close>) for less than two bytes.\<close>

definition channels_decrypt ::
    "cxx_lib \<Rightarrow> ('r, 'k) botan \<Rightarrow> 'k encrypted_channels \<Rightarrow> string \<Rightarrow> bytes \<Rightarrow> 'r option \<Rightarrow> (bytes \<times> sc_encryption_type option) outcome" where
  "channels_decrypt L B e i bs g =
     (if length bs < 2 then Ok ([], None)
      else if hd bs = prefix_of EPlaintext then Ok (tl bs, Some EPlaintext)
      else if hd bs = prefix_of ESymmetric then
        (case map_of (ec_s e) i of
           None \<Rightarrow> Ok ([], Some ESymmetric)
         | Some c \<Rightarrow>
             if \<not> dh_ready (ch_secret c) then Ok ([], Some ESymmetric)
             else bindO (dh_decrypt B (ch_secret c) (tl bs)) (\<lambda>ds. Ok (ds, Some ESymmetric)))
      else if hd bs = prefix_of EAsymmetric then
        bindO (private_key_decrypt L B (ec_pk e) (tl bs) g) (\<lambda>ds. Ok (ds, Some EAsymmetric))
      else Ok ([], Some EUnknown))"

text \<open>\<^verbatim>\<open>_s[i]\<close>: the channel of \<open>i\<close>, default constructed when there is none, which draws a new Diffie-Hellman key.\<close>

definition channel_ref :: "('r, 'k) botan \<Rightarrow> 'k encrypted_channels \<Rightarrow> string \<Rightarrow> 'r option \<Rightarrow> ('k channel \<times> 'r option) outcome" where
  "channel_ref B e i g =
     (case map_of (ec_s e) i of
        Some c \<Rightarrow> Ok (c, g)
      | None \<Rightarrow> bindO (dh_secret_new B g) (\<lambda>(s, g1). Ok (\<lparr>ch_secret = s, ch_key = public_key_default\<rparr>, g1)))"

definition create_channel ::
    "('r, 'k) botan \<Rightarrow> 'k encrypted_channels \<Rightarrow> string \<Rightarrow> 'k public_key \<Rightarrow> 'r option \<Rightarrow> ('k encrypted_channels \<times> 'r option) outcome" where
  "create_channel B e i key g =
     contract (public_key_valid key)
       (bindO (channel_ref B e i g) (\<lambda>(s, g1).
          bindO (public_key_key key) (\<lambda>kk.
          bindO (if public_key_valid (ch_key s) then bindO (public_key_key (ch_key s)) (\<lambda>sk. Ok (sk = kk)) else Ok False) (\<lambda>same.
            if same then Ok (e\<lparr>ec_s := alist_put i s (ec_s e)\<rparr>, g1)
            else
              bindO (public_key_assign B key) (\<lambda>k1.
              bindO (dh_secret_new B g1) (\<lambda>(sec, g2).
                contract (public_key_valid k1)
                  (Ok (e\<lparr>ec_s := alist_put i \<lparr>ch_secret = sec, ch_key = k1\<rparr> (ec_s e)\<rparr>, g2))))))))"

definition create_channel_dh ::
    "('r, 'k) botan \<Rightarrow> 'k encrypted_channels \<Rightarrow> string \<Rightarrow> 'k public_key \<Rightarrow> bytes \<Rightarrow> 'r option \<Rightarrow> ('k encrypted_channels \<times> 'r option) outcome" where
  "create_channel_dh B e i key pv g =
     contract (public_key_valid key)
       (bindO (channel_ref B e i g) (\<lambda>(s, g1).
          bindO (public_key_key key) (\<lambda>kk.
          bindO (if public_key_valid (ch_key s) then bindO (public_key_key (ch_key s)) (\<lambda>sk. Ok (sk \<noteq> kk)) else Ok True) (\<lambda>changed.
          bindO (if changed then public_key_assign B key else Ok (ch_key s)) (\<lambda>k1.
          bindO (create_symmetric_key B pv (ch_secret s) g1) (\<lambda>(sec, g2).
            contract (public_key_valid k1) (contract (dh_ready sec)
              (Ok (e\<lparr>ec_s := alist_put i \<lparr>ch_secret = sec, ch_key = k1\<rparr> (ec_s e)\<rparr>, g2)))))))))"

definition get_channel :: "'k encrypted_channels \<Rightarrow> string \<Rightarrow> 'k channel outcome" where
  "get_channel e i = (case map_of (ec_s e) i of None \<Rightarrow> Exit | Some c \<Rightarrow> Ok c)"

definition remove_channel :: "string \<Rightarrow> 'k encrypted_channels \<Rightarrow> 'k encrypted_channels" where
  "remove_channel i e = (if alist_has i (ec_s e) then e\<lparr>ec_s := alist_del i (ec_s e)\<rparr> else e)"

section \<open>The decryption loop ends\<close>

lemma read_value_progress:
  assumes "read_value L s = Ok (v, s')"
  shows "progress s s'"
  using decode_value_ok [of "stream_fuel s" L] assms
  by (auto simp: read_value_def decoder_ok_def ok_from_def stream_fuel_def)

lemma read_value_end: "read_value L \<lparr>is_rest = [], is_good = True\<rparr> = Ok (VEmpty, \<lparr>is_rest = [], is_good = False\<rparr>)"
  by (simp add: read_value_def stream_fuel_def decode_value.simps is_peek_def)

lemma read_bytes_shrinks:
  assumes "read_bytes L s = Ok (bs, s')"
  shows "length (is_rest s') \<le> length (is_rest s) \<and> (bs \<noteq> [] \<longrightarrow> length (is_rest s') < length (is_rest s))"
proof (cases "is_good s")
  case True
  then obtain v where v: "read_value L s = Ok (v, s')" "bs = (case v of VBytes b \<Rightarrow> b | _ \<Rightarrow> [])"
    using assms by (auto simp: read_bytes_def)
  have "is_rest s \<noteq> []" if "bs \<noteq> []"
  proof
    assume "is_rest s = []"
    with True have "s = \<lparr>is_rest = [], is_good = True\<rparr>" by simp
    with v have "v = VEmpty" using read_value_end [of L] by simp
    with v that show False by simp
  qed
  moreover note read_value_progress [OF v(1)]
  ultimately show ?thesis using True by (auto simp: progress_def split: if_splits)
qed (use assms in \<open>simp add: read_bytes_def\<close>)

lemma decrypt_loop_no_diverge:
  assumes lib: "\<And>b. b_eme_decrypt B k b \<noteq> Diverge"
  shows "length (is_rest s) + 2 \<le> n \<Longrightarrow> decrypt_loop L B k n s bs rs \<noteq> Diverge"
proof (induction n arbitrary: s bs rs)
  case (Suc n)
  have "decrypt_loop L B k n s' bs' rs' \<noteq> Diverge" if "read_bytes L s = Ok (bs', s')" for bs' s' rs'
  proof (cases "bs' = []")
    case True
    obtain m where "n = Suc m" using Suc.prems by (cases n) auto
    with True show ?thesis by simp
  next
    case False
    then show ?thesis using Suc read_bytes_shrinks [OF that] by simp
  qed
  moreover have "read_bytes L s \<noteq> Diverge" using read_bytes_safe [of L s] by auto
  ultimately show ?case using lib by auto
qed simp

lemma private_key_decrypt_no_diverge:
  assumes "\<And>b. b_eme_decrypt B (pv_k pk) b \<noteq> Diverge"
  shows "private_key_decrypt L B pk b g \<noteq> Diverge"
proof -
  have "decrypt_loop L B (pv_k pk) (length b + 2) s bs [] \<noteq> Diverge" if "read_bytes L (stream_of (to_str b)) = Ok (bs, s)" for bs s
    using read_bytes_shrinks [OF that] by (intro decrypt_loop_no_diverge assms) (simp add: stream_of_def to_str_def)
  moreover have "read_bytes L (stream_of (to_str b)) \<noteq> Diverge" using read_bytes_safe [of L "stream_of (to_str b)"] by auto
  ultimately show ?thesis by (auto simp: private_key_decrypt_def split: option.splits)
qed

section \<open>What the code relies on of Botan\<close>

text \<open>
  Decryption with the private key of a pair undoes encryption with its public key, for inputs up to the announced maximum; the block cipher
  of a key undoes itself and its padded output is not empty; both sides of a Diffie-Hellman exchange derive the same key.
\<close>

locale botan_laws = lexical_cast L
  for L :: cxx_lib +
  fixes B :: "('r, 'k) botan"
    and pair :: "'k \<Rightarrow> 'k \<Rightarrow> bool"
  assumes max_input_pos: "pair pub prv \<Longrightarrow> 0 < b_max_input B pub"
    and eme_inverse: "pair pub prv \<Longrightarrow> length b \<le> b_max_input B pub \<Longrightarrow>
       \<exists>c r'. b_eme_encrypt B pub b r = Ok (c, r') \<and> c \<noteq> [] \<and> length c \<le> max_alloc L \<and> b_eme_decrypt B prv c = Ok b"
    and cipher_inverse: "\<exists>c. b_encipher B k b = Ok c \<and> c \<noteq> [] \<and> b_decipher B k c = Ok b"
    and dh_agree: "\<exists>k. b_derive_key B x DH_KEY_SIZE (b_dh_public B y) CONVERSATION_PARAM = Ok k \<and>
       b_derive_key B y DH_KEY_SIZE (b_dh_public B x) CONVERSATION_PARAM = Ok k"
begin

definition pieces :: "'k \<Rightarrow> bytes list \<Rightarrow> bytes list \<Rightarrow> bool" where
  "pieces prv cs ps \<longleftrightarrow> list_all2 (\<lambda>c p. c \<noteq> [] \<and> length c \<le> max_alloc L \<and> b_eme_decrypt B prv c = Ok p) cs ps"

lemma encrypt_loop_pieces:
  assumes "pair pub prv"
  shows "length b < n \<Longrightarrow> \<exists>cs ps r'. encrypt_loop L B pub n b rs r = Ok (rs @ concat (map (encode_b L) cs), r') \<and>
     pieces prv cs ps \<and> concat ps = b"
proof (induction n arbitrary: b rs r)
  case (Suc n)
  show ?case
  proof (cases "b = []")
    case True
    have "encrypt_loop L B pub (Suc n) b rs r = Ok (rs @ concat (map (encode_b L) []), r)" "pieces prv [] []" "concat [] = b"
      using True by (simp_all add: pieces_def)
    then show ?thesis by blast
  next
    case False
    define size where "size = min (b_max_input B pub) (length b)"
    have size: "0 < size" "size \<le> b_max_input B pub" "size \<le> length b"
      using False max_input_pos [OF assms] by (auto simp: size_def)
    obtain c r1 where c: "b_eme_encrypt B pub (take size b) r = Ok (c, r1)" "c \<noteq> []" "length c \<le> max_alloc L"
        "b_eme_decrypt B prv c = Ok (take size b)"
      using eme_inverse [OF assms, of "take size b" r] size by auto
    have "length (drop size b) < n" using Suc.prems size by simp
    then obtain cs ps r' where r: "encrypt_loop L B pub n (drop size b) (rs @ encode_b L c) r1 = Ok ((rs @ encode_b L c) @ concat (map (encode_b L) cs), r')"
        "pieces prv cs ps" "concat ps = drop size b"
      using Suc.IH [of "drop size b" "rs @ encode_b L c" r1] by blast
    have "encrypt_loop L B pub (Suc n) b rs r = Ok (rs @ concat (map (encode_b L) (c # cs)), r')"
      using False c(1) r(1) by (simp add: size_def [symmetric] Let_def del: bindO_Ok_iff)
    moreover have "pieces prv (c # cs) (take size b # ps)" "concat (take size b # ps) = b"
      using c r by (simp_all add: pieces_def)
    ultimately show ?thesis by blast
  qed
qed simp

lemma read_bytes_st_end: "\<exists>s. read_bytes L (st []) = Ok ([], s)"
  by (simp add: read_bytes_def read_value_end del: bindO_Ok_iff)

lemma decrypt_loop_pieces:
  assumes "pieces prv cs ps" "length cs < n"
  shows "\<exists>bs s. read_bytes L (st (concat (map (encode_b L) cs))) = Ok (bs, s) \<and> decrypt_loop L B prv n s bs rs = Ok (rs @ concat ps)"
  using assms
proof (induction cs arbitrary: ps n rs)
  case Nil
  obtain m where "n = Suc m" using Nil.prems by (cases n) auto
  with Nil read_bytes_st_end show ?case by (auto simp: pieces_def)
next
  case (Cons c cs)
  obtain p qs where ps: "ps = p # qs" "pieces prv cs qs" "c \<noteq> []" "length c \<le> max_alloc L" "b_eme_decrypt B prv c = Ok p"
    using Cons.prems(1) by (auto simp: pieces_def list_all2_Cons1)
  obtain m where m: "n = Suc m" "length cs < m" using Cons.prems(2) by (cases n) auto
  obtain bs s where "read_bytes L (st (concat (map (encode_b L) cs))) = Ok (bs, s)" "decrypt_loop L B prv m s bs (rs @ p) = Ok ((rs @ p) @ concat qs)"
    using Cons.IH [OF ps(2) m(2)] by blast
  then have "decrypt_loop L B prv n (st (concat (map (encode_b L) cs))) c rs = Ok (rs @ concat ps)"
    using ps m by (simp del: bindO_Ok_iff)
  moreover have "read_bytes L (st (concat (map (encode_b L) (c # cs)))) = Ok (c, st (concat (map (encode_b L) cs)))"
    using read_bytes_encode [OF ps(4)] by simp
  ultimately show ?case by blast
qed

lemma public_key_encrypt_decrypt:
  assumes "pu_k p = Some pub" "pu_ks p \<noteq> []" "pair pub (pv_k pk)" "g' \<noteq> None"
  shows "\<exists>es r. public_key_encrypt L B p b g = Ok (es, Some r) \<and> (b \<noteq> [] \<longrightarrow> es \<noteq> []) \<and> private_key_decrypt L B pk es g' = Ok b"
proof -
  obtain cs ps r where e: "encrypt_loop L B pub (Suc (length b)) b [] (init_rng B g) = Ok (concat (map (encode_b L) cs), r)"
      "pieces (pv_k pk) cs ps" "concat ps = b"
    using encrypt_loop_pieces [OF assms(3), of b "Suc (length b)" "[]" "init_rng B g"] by auto
  have "length cs \<le> length (concat (map (encode_b L) cs))"
    by (rule length_le_concat) (simp add: encode_b_def)
  then obtain bs s where d: "read_bytes L (st (concat (map (encode_b L) cs))) = Ok (bs, s)"
      "decrypt_loop L B (pv_k pk) (length (concat (map (encode_b L) cs)) + 2) s bs [] = Ok b"
    using decrypt_loop_pieces [OF e(2), of "length (concat (map (encode_b L) cs)) + 2" "[]"] e(3) by auto
  have "private_key_decrypt L B pk (concat (map (encode_b L) cs)) g' = Ok b"
    using d assms(4) by (auto simp: private_key_decrypt_def stream_of_def to_str_def simp del: bindO_Ok_iff)
  moreover have "public_key_encrypt L B p b g = Ok (concat (map (encode_b L) cs), Some r)"
    using e(1) assms(1, 2) by (simp add: public_key_encrypt_def to_bytes_def del: bindO_Ok_iff encrypt_loop.simps)
  moreover have "concat (map (encode_b L) cs) \<noteq> []" if "b \<noteq> []"
    using e(2, 3) that by (cases cs) (auto simp: pieces_def encode_b_def)
  ultimately show ?thesis by blast
qed

lemma dh_roundtrip: "dh_skey s = Some k \<Longrightarrow> dh_skey s' = Some k \<Longrightarrow> \<exists>es. dh_encrypt B s bs = Ok es \<and> es \<noteq> [] \<and> dh_decrypt B s' es = Ok bs"
  using cipher_inverse [of k bs] by (auto simp: dh_encrypt_def dh_decrypt_def)

end

section \<open>Well-formed channels\<close>

text \<open>
  A valid public key is the one its text loads to; a secret's public value belongs to its private key.  Creating and removing channels keeps
  this of every channel.
\<close>

definition public_key_ok :: "('r, 'k) botan \<Rightarrow> 'k public_key \<Rightarrow> bool" where
  "public_key_ok B p \<longleftrightarrow> pu_k p \<noteq> None \<and> pu_ks p \<noteq> [] \<and> b_x509_load B (pu_ks p) = Ok (pu_k p)"

definition secret_ok :: "('r, 'k) botan \<Rightarrow> 'k dh_secret \<Rightarrow> bool" where
  "secret_ok B s \<longleftrightarrow> dh_pub_value s = b_dh_public B (dh_pkey s) \<and> dh_pub_value s \<noteq> []"

definition channel_ok :: "('r, 'k) botan \<Rightarrow> 'k channel \<Rightarrow> bool" where
  "channel_ok B c \<longleftrightarrow> public_key_ok B (ch_key c) \<and> secret_ok B (ch_secret c)"

definition channels_ok :: "('r, 'k) botan \<Rightarrow> 'k encrypted_channels \<Rightarrow> bool" where
  "channels_ok B e \<longleftrightarrow> distinct (keys (ec_s e)) \<and> (\<forall>i c. map_of (ec_s e) i = Some c \<longrightarrow> channel_ok B c)"

lemma channels_ok_put: "channels_ok B e \<Longrightarrow> channel_ok B c \<Longrightarrow> channels_ok B (e\<lparr>ec_s := alist_put i c (ec_s e)\<rparr>)"
  by (auto simp: channels_ok_def)

lemma remove_channel_ok: "channels_ok B e \<Longrightarrow> channels_ok B (remove_channel i e)"
  unfolding channels_ok_def remove_channel_def by (simp del: map_of_eq_Some_iff)

lemma encrypted_channels_new_ok: "channels_ok B (encrypted_channels_new pk)"
  by (simp add: channels_ok_def encrypted_channels_new_def)

lemma dh_secret_new_ok: "dh_secret_new B g = Ok (s, g1) \<Longrightarrow> secret_ok B s \<and> \<not> dh_ready s"
  by (auto simp: dh_secret_new_def secret_ok_def dh_ready_def Let_def split: prod.splits)

lemma channel_ref_secret_ok:
  "channels_ok B e \<Longrightarrow> channel_ref B e i g = Ok (s, g1) \<Longrightarrow> secret_ok B (ch_secret s)"
  by (auto simp: channel_ref_def channels_ok_def channel_ok_def dest: dh_secret_new_ok split: option.splits)

lemma channel_ref_key_ok:
  "channels_ok B e \<Longrightarrow> channel_ref B e i g = Ok (s, g1) \<Longrightarrow> public_key_valid (ch_key s) \<Longrightarrow> public_key_ok B (ch_key s)"
  by (auto simp: channel_ref_def channels_ok_def channel_ok_def public_key_valid_def public_key_default_def split: option.splits)

lemma public_key_assign_ok: "public_key_assign B p = Ok q \<Longrightarrow> public_key_ok B q \<and> pu_ks q = pu_ks p"
  by (auto simp: public_key_assign_def public_key_ok_def)

lemma create_channel_ok:
  assumes ok: "channels_ok B e" and c: "create_channel B e i key g = Ok (e', g')"
  shows "channels_ok B e' \<and> (\<exists>ch. map_of (ec_s e') i = Some ch \<and> pu_ks (ch_key ch) = pu_ks key)"
proof -
  obtain s g1 kk same where r: "channel_ref B e i g = Ok (s, g1)" "public_key_key key = Ok kk"
      "(if public_key_valid (ch_key s) then bindO (public_key_key (ch_key s)) (\<lambda>sk. Ok (sk = kk)) else Ok False) = Ok same"
      "(if same then Ok (e\<lparr>ec_s := alist_put i s (ec_s e)\<rparr>, g1)
            else
              bindO (public_key_assign B key) (\<lambda>k1.
              bindO (dh_secret_new B g1) (\<lambda>(sec, g2).
                contract (public_key_valid k1)
                  (Ok (e\<lparr>ec_s := alist_put i \<lparr>ch_secret = sec, ch_key = k1\<rparr> (ec_s e)\<rparr>, g2))))) = Ok (e', g')"
    using c by (auto simp: create_channel_def split del: if_split)
  show ?thesis
  proof (cases same)
    case True
    then have v: "public_key_valid (ch_key s)" "public_key_key (ch_key s) = Ok kk" using r(3) by (auto split: if_splits)
    then have "channel_ok B s"
      using channel_ref_key_ok [OF ok r(1)] channel_ref_secret_ok [OF ok r(1)] by (simp add: channel_ok_def)
    moreover have "pu_ks (ch_key s) = pu_ks key" using v(2) r(2) by (simp add: public_key_key_def)
    ultimately show ?thesis using True r(4) channels_ok_put [OF ok] by auto
  next
    case False
    then obtain k1 sec where n: "public_key_assign B key = Ok k1" "dh_secret_new B g1 = Ok (sec, g')"
        "e' = e\<lparr>ec_s := alist_put i \<lparr>ch_secret = sec, ch_key = k1\<rparr> (ec_s e)\<rparr>"
      using r(4) by auto
    have "channel_ok B \<lparr>ch_secret = sec, ch_key = k1\<rparr>"
      using public_key_assign_ok [OF n(1)] dh_secret_new_ok [OF n(2)] by (simp add: channel_ok_def)
    then show ?thesis using n(3) channels_ok_put [OF ok] public_key_assign_ok [OF n(1)] by auto
  qed
qed

lemma create_channel_dh_ok:
  assumes ok: "channels_ok B e" and c: "create_channel_dh B e i key pv g = Ok (e', g')"
  shows "channels_ok B e'"
proof -
  obtain s g1 kk changed k1 sec where r: "channel_ref B e i g = Ok (s, g1)" "public_key_key key = Ok kk"
      "(if public_key_valid (ch_key s) then bindO (public_key_key (ch_key s)) (\<lambda>sk. Ok (sk \<noteq> kk)) else Ok True) = Ok changed"
      "(if changed then public_key_assign B key else Ok (ch_key s)) = Ok k1"
      "create_symmetric_key B pv (ch_secret s) g1 = Ok (sec, g')"
      "e' = e\<lparr>ec_s := alist_put i \<lparr>ch_secret = sec, ch_key = k1\<rparr> (ec_s e)\<rparr>"
    using c by (auto simp: create_channel_dh_def split del: if_split)
  have "public_key_ok B k1"
  proof (cases changed)
    case True
    then show ?thesis using r(4) public_key_assign_ok [of B key k1] by simp
  next
    case False
    then have "public_key_valid (ch_key s)" "k1 = ch_key s" using r(3, 4) by (auto split: if_splits)
    then show ?thesis using channel_ref_key_ok [OF ok r(1)] by simp
  qed
  moreover have "secret_ok B sec"
    using channel_ref_secret_ok [OF ok r(1)] r(5) by (auto simp: create_symmetric_key_def secret_ok_def)
  ultimately show ?thesis unfolding r(6) by (intro channels_ok_put [OF ok]) (simp add: channel_ok_def)
qed

section \<open>Two ends of a channel\<close>

text \<open>
  \<open>ends_agree\<close>: what A's channel \<open>i\<close> to B needs of B's channel \<open>j\<close> so that B can read what A sends: the key is that of B's private key,
  and a symmetric key of A is also B's.
\<close>

definition ends_agree :: "('k \<Rightarrow> 'k \<Rightarrow> bool) \<Rightarrow> 'k encrypted_channels \<Rightarrow> string \<Rightarrow> 'k encrypted_channels \<Rightarrow> string \<Rightarrow> bool" where
  "ends_agree pair eA i eB j \<longleftrightarrow>
     (case map_of (ec_s eA) i of
        None \<Rightarrow> True
      | Some c \<Rightarrow>
          pu_ks (ch_key c) \<noteq> [] \<and> (case pu_k (ch_key c) of None \<Rightarrow> False | Some pub \<Rightarrow> pair pub (pv_k (ec_pk eB))) \<and>
          (case dh_skey (ch_secret c) of
             None \<Rightarrow> True
           | Some k \<Rightarrow> (case map_of (ec_s eB) j of None \<Rightarrow> False | Some d \<Rightarrow> dh_skey (ch_secret d) = Some k)))"

text \<open>The encryption that \<^verbatim>\<open>encrypt\<close> chooses.\<close>

definition chosen_type :: "'k encrypted_channels \<Rightarrow> string \<Rightarrow> sc_encryption_type" where
  "chosen_type e i = (case map_of (ec_s e) i of None \<Rightarrow> EPlaintext | Some c \<Rightarrow> if dh_ready (ch_secret c) then ESymmetric else EAsymmetric)"

context botan_laws
begin

lemma channel_roundtrip:
  assumes agree: "ends_agree pair eA i eB j" and bs: "bs \<noteq> []" and g': "g' \<noteq> None"
  shows "\<exists>es g1. channels_encrypt L B eA i bs g = Ok (es, g1) \<and> (g \<noteq> None \<longrightarrow> g1 \<noteq> None) \<and>
     channels_decrypt L B eB j es g' = Ok (bs, Some (chosen_type eA i))"
proof (cases "map_of (ec_s eA) i")
  case None
  then show ?thesis using bs
    by (simp add: channels_encrypt_def channels_decrypt_def encrypt_plaintext_def append_prefix_def chosen_type_def Suc_less_eq2)
next
  case (Some c)
  obtain pub where pub: "pu_ks (ch_key c) \<noteq> []" "pu_k (ch_key c) = Some pub" "pair pub (pv_k (ec_pk eB))"
    using agree Some by (auto simp: ends_agree_def split: option.splits)
  show ?thesis
  proof (cases "dh_skey (ch_secret c)")
    case None
    obtain es r where es: "public_key_encrypt L B (ch_key c) bs g = Ok (es, Some r)" "es \<noteq> []" "private_key_decrypt L B (ec_pk eB) es g' = Ok bs"
      using public_key_encrypt_decrypt [OF pub(2, 1, 3) g'] bs by blast
    have "channels_encrypt L B eA i bs g = Ok (prefix_of EAsymmetric # es, Some r)"
      using Some None es(1) bs by (simp add: channels_encrypt_def channel_encrypt_asymmetric_def dh_ready_def append_prefix_def del: bindO_Ok_iff)
    moreover have "channels_decrypt L B eB j (prefix_of EAsymmetric # es) g' = Ok (bs, Some EAsymmetric)"
      using es by (simp add: channels_decrypt_def prefix_of_def Suc_less_eq2 del: bindO_Ok_iff)
    ultimately show ?thesis using Some None by (simp add: chosen_type_def dh_ready_def)
  next
    case k: (Some k)
    obtain d where d: "map_of (ec_s eB) j = Some d" "dh_skey (ch_secret d) = Some k"
      using agree Some k by (auto simp: ends_agree_def split: option.splits)
    obtain es where es: "dh_encrypt B (ch_secret c) bs = Ok es" "es \<noteq> []" "dh_decrypt B (ch_secret d) es = Ok bs"
      using dh_roundtrip [OF k d(2)] by blast
    have "channels_encrypt L B eA i bs g = Ok (prefix_of ESymmetric # es, g)"
      using Some k es(1) by (simp add: channels_encrypt_def channel_encrypt_symmetric_def dh_ready_def append_prefix_def del: bindO_Ok_iff)
    moreover have "channels_decrypt L B eB j (prefix_of ESymmetric # es) g' = Ok (bs, Some ESymmetric)"
      using es d by (simp add: channels_decrypt_def prefix_of_def dh_ready_def Suc_less_eq2 del: bindO_Ok_iff)
    ultimately show ?thesis using Some k by (simp add: chosen_type_def dh_ready_def)
  qed
qed

text \<open>One side of the key exchange: the channel exists, its key is the peer's, and the peer's public value arrives.\<close>

lemma create_channel_dh_known:
  assumes ok: "channels_ok B e" and c: "map_of (ec_s e) i = Some c" "ch_key c = key"
  shows "\<exists>k g1. b_derive_key B (dh_pkey (ch_secret c)) DH_KEY_SIZE (b_dh_public B y) CONVERSATION_PARAM = Ok k \<and>
     create_channel_dh B e i key (b_dh_public B y) g =
       Ok (e\<lparr>ec_s := alist_put i \<lparr>ch_secret = (ch_secret c)\<lparr>dh_skey := Some k, dh_other_pub_value := b_dh_public B y\<rparr>, ch_key = key\<rparr> (ec_s e)\<rparr>, g1)"
proof -
  have "channel_ok B c" using ok c(1) unfolding channels_ok_def by blast
  then have "public_key_ok B key" using c(2) by (simp add: channel_ok_def)
  then have kk: "public_key_valid key" "public_key_key key = Ok (pu_ks key)"
    by (simp_all add: public_key_ok_def public_key_valid_def public_key_key_def)
  obtain k where k: "b_derive_key B (dh_pkey (ch_secret c)) DH_KEY_SIZE (b_dh_public B y) CONVERSATION_PARAM = Ok k"
    using dh_agree by blast
  then show ?thesis
    using c kk by (simp add: create_channel_dh_def channel_ref_def create_symmetric_key_def dh_ready_def del: bindO_Ok_iff)
qed

lemma dh_exchange:
  assumes ok: "channels_ok B eA" "channels_ok B eB"
    and c: "map_of (ec_s eA) i = Some c" "map_of (ec_s eB) j = Some d"
    and key: "pu_k (ch_key c) = Some pubB" "pair pubB (pv_k (ec_pk eB))" "pu_k (ch_key d) = Some pubA" "pair pubA (pv_k (ec_pk eA))"
  shows "\<exists>eA' eB' gA' gB'. create_channel_dh B eA i (ch_key c) (dh_pub_value (ch_secret d)) gA = Ok (eA', gA') \<and>
     create_channel_dh B eB j (ch_key d) (dh_pub_value (ch_secret c)) gB = Ok (eB', gB') \<and>
     ends_agree pair eA' i eB' j \<and> ends_agree pair eB' j eA' i \<and> chosen_type eA' i = ESymmetric \<and> chosen_type eB' j = ESymmetric"
proof -
  have ch: "channel_ok B c" "channel_ok B d" using ok c unfolding channels_ok_def by blast+
  then have pv: "dh_pub_value (ch_secret c) = b_dh_public B (dh_pkey (ch_secret c))" "dh_pub_value (ch_secret d) = b_dh_public B (dh_pkey (ch_secret d))"
      "pu_ks (ch_key c) \<noteq> []" "pu_ks (ch_key d) \<noteq> []"
    by (simp_all add: channel_ok_def secret_ok_def public_key_ok_def)
  obtain k where k: "b_derive_key B (dh_pkey (ch_secret c)) DH_KEY_SIZE (b_dh_public B (dh_pkey (ch_secret d))) CONVERSATION_PARAM = Ok k"
      "b_derive_key B (dh_pkey (ch_secret d)) DH_KEY_SIZE (b_dh_public B (dh_pkey (ch_secret c))) CONVERSATION_PARAM = Ok k"
    using dh_agree by blast
  show ?thesis
    using create_channel_dh_known [OF ok(1) c(1) refl, of "dh_pkey (ch_secret d)" gA]
      create_channel_dh_known [OF ok(2) c(2) refl, of "dh_pkey (ch_secret c)" gB] k pv key
    by (auto simp: ends_agree_def chosen_type_def dh_ready_def)
qed

end

section \<open>A concrete library\<close>

text \<open>
  An instance of the parameter: a key is a number, a public key and its private key are the same number, encryption adds
  a first byte, and the derived key is the sum of the numbers.
\<close>

definition model_botan :: "(nat, nat) botan" where
  "model_botan =
     \<lparr>b_seed = 0, b_rsa_new = (\<lambda>_ r. (r, Suc r)), b_x509_pem = (\<lambda>k. replicate (Suc k) CHR ''k''),
      b_pkcs8_pem = (\<lambda>k p r. (replicate (Suc k) CHR ''p'', r)), b_pkcs8_load = (\<lambda>e p r. Ok (Some (length e - 1), r)),
      b_x509_load = (\<lambda>s. Ok (Some (length s - 1))), b_max_input = (\<lambda>_. 2),
      b_eme_encrypt = (\<lambda>k b r. Ok (CHR ''e'' # b, r)), b_eme_decrypt = (\<lambda>k b. Ok (tl b)),
      b_sign = (\<lambda>k b r. Ok (replicate 512 CHR ''s'', r)), b_verify = (\<lambda>k m s. True),
      b_dh_new = (\<lambda>r. (r, Suc r)), b_dh_public = (\<lambda>k. replicate (Suc k) CHR ''d''),
      b_derive_key = (\<lambda>k n p c. Ok (k + length p - 1)),
      b_encipher = (\<lambda>k b. Ok (CHR ''c'' # b)), b_decipher = (\<lambda>k b. Ok (tl b))\<rparr>"

interpretation mb: botan_laws decimal_lib model_botan "(=)"
proof unfold_locales
  fix pub prv :: nat and b :: bytes and r :: nat
  show "\<exists>c r'. b_eme_encrypt model_botan pub b r = Ok (c, r') \<and> c \<noteq> [] \<and> length c \<le> max_alloc decimal_lib \<and> b_eme_decrypt model_botan prv c = Ok b"
    if "length b \<le> b_max_input model_botan pub"
    using that by (simp add: model_botan_def decimal_lib_def)
qed (simp_all add: model_botan_def add.commute)

section \<open>Properties\<close>

definition sample_channel :: "nat \<Rightarrow> nat \<Rightarrow> nat channel" where
  "sample_channel peer dh =
     \<lparr>ch_secret = \<lparr>dh_pkey = dh, dh_skey = None, dh_pub_value = replicate (Suc dh) CHR ''d'', dh_other_pub_value = []\<rparr>,
      ch_key = \<lparr>pu_ks = replicate (Suc peer) CHR ''k'', pu_k = Some peer\<rparr>\<rparr>"

definition sample_end :: "nat \<Rightarrow> nat \<Rightarrow> nat \<Rightarrow> nat encrypted_channels" where
  "sample_end own peer dh =
     \<lparr>ec_s = [(''udp://p:1'', sample_channel peer dh)],
      ec_pk = \<lparr>pv_k = own, pv_encrypted = ''p'', pv_public = replicate (Suc own) CHR ''k''\<rparr>\<rparr>"

lemma sample_end_ok: "channels_ok model_botan (sample_end own peer dh)"
  by (simp add: channels_ok_def sample_end_def sample_channel_def channel_ok_def secret_ok_def public_key_ok_def model_botan_def)

text \<open>
  C14. What one end of a channel encrypts the other end decrypts to the same bytes, and learns how it was encrypted: in the clear
  when the sender has no channel, in pieces under the receiver's public key while there is no shared secret, and with the shared secret once
  it is there.
\<close>

theorem encrypted_channel_roundtrip:
  assumes "botan_laws L B pair" "ends_agree pair eA i eB j" "bs \<noteq> []" "g' \<noteq> None"
  shows "\<exists>es g1. channels_encrypt L B eA i bs g = Ok (es, g1) \<and>
     channels_decrypt L B eB j es g' = Ok (bs, Some (chosen_type eA i))"
  using botan_laws.channel_roundtrip [OF assms, of g] by blast

theorem encrypted_channel_roundtrip_witness:
  "\<exists>es g1. channels_encrypt decimal_lib model_botan (sample_end 1 2 5) ''udp://p:1'' ''hello'' None = Ok (es, g1) \<and>
     channels_decrypt decimal_lib model_botan (sample_end 2 1 6) ''udp://p:1'' es (Some 0) = Ok (''hello'', Some EAsymmetric)"
  using encrypted_channel_roundtrip [OF mb.botan_laws_axioms, of "sample_end 1 2 5" "''udp://p:1''" "sample_end 2 1 6" "''udp://p:1''" "''hello''" "Some 0" None]
  by (simp add: ends_agree_def chosen_type_def sample_end_def sample_channel_def dh_ready_def)

text \<open>
  C13. The key exchange succeeds: when both ends have a channel with the other's public key and each creates it again with the other's public
  value, both calls return, and from then on each end reads what the other encrypts, symmetrically, in both directions.
\<close>

theorem dh_channel_established:
  assumes "botan_laws L B pair" "channels_ok B eA" "channels_ok B eB"
    "map_of (ec_s eA) i = Some c" "map_of (ec_s eB) j = Some d"
    "pu_k (ch_key c) = Some pubB" "pair pubB (pv_k (ec_pk eB))" "pu_k (ch_key d) = Some pubA" "pair pubA (pv_k (ec_pk eA))"
    "bs \<noteq> []" "g \<noteq> None"
  shows "\<exists>eA' eB' gA' gB'. create_channel_dh B eA i (ch_key c) (dh_pub_value (ch_secret d)) gA = Ok (eA', gA') \<and>
     create_channel_dh B eB j (ch_key d) (dh_pub_value (ch_secret c)) gB = Ok (eB', gB') \<and>
     channels_ok B eA' \<and> channels_ok B eB' \<and>
     (\<exists>es g1. channels_encrypt L B eA' i bs g = Ok (es, g1) \<and> channels_decrypt L B eB' j es g = Ok (bs, Some ESymmetric)) \<and>
     (\<exists>es g1. channels_encrypt L B eB' j bs g = Ok (es, g1) \<and> channels_decrypt L B eA' i es g = Ok (bs, Some ESymmetric))"
proof -
  obtain eA' eB' gA' gB' where e: "create_channel_dh B eA i (ch_key c) (dh_pub_value (ch_secret d)) gA = Ok (eA', gA')"
      "create_channel_dh B eB j (ch_key d) (dh_pub_value (ch_secret c)) gB = Ok (eB', gB')"
      "ends_agree pair eA' i eB' j" "ends_agree pair eB' j eA' i" "chosen_type eA' i = ESymmetric" "chosen_type eB' j = ESymmetric"
    using botan_laws.dh_exchange [OF assms(1-9), of gA gB] by blast
  have "channels_ok B eA'" "channels_ok B eB'"
    using create_channel_dh_ok [OF assms(2) e(1)] create_channel_dh_ok [OF assms(3) e(2)] .
  then show ?thesis
    using e botan_laws.channel_roundtrip [OF assms(1) e(3) assms(10, 11), of g] botan_laws.channel_roundtrip [OF assms(1) e(4) assms(10, 11), of g]
    by auto
qed

theorem dh_channel_established_witness:
  "\<exists>eA' eB' gA' gB'.
     create_channel_dh model_botan (sample_end 1 2 5) ''udp://p:1'' (ch_key (sample_channel 2 5)) (dh_pub_value (ch_secret (sample_channel 1 6))) None = Ok (eA', gA') \<and>
     create_channel_dh model_botan (sample_end 2 1 6) ''udp://p:1'' (ch_key (sample_channel 1 6)) (dh_pub_value (ch_secret (sample_channel 2 5))) None = Ok (eB', gB') \<and>
     channels_ok model_botan eA' \<and> channels_ok model_botan eB' \<and>
     (\<exists>es g1. channels_encrypt decimal_lib model_botan eA' ''udp://p:1'' ''hi'' (Some 0) = Ok (es, g1) \<and>
        channels_decrypt decimal_lib model_botan eB' ''udp://p:1'' es (Some 0) = Ok (''hi'', Some ESymmetric)) \<and>
     (\<exists>es g1. channels_encrypt decimal_lib model_botan eB' ''udp://p:1'' ''hi'' (Some 0) = Ok (es, g1) \<and>
        channels_decrypt decimal_lib model_botan eA' ''udp://p:1'' es (Some 0) = Ok (''hi'', Some ESymmetric))"
  by (rule dh_channel_established [OF mb.botan_laws_axioms sample_end_ok sample_end_ok, where pubA = 1 and pubB = 2])
    (simp_all add: sample_end_def sample_channel_def)

end
