(* ===== verification/Message.thy ===== *)
theory Message
  imports Mencode
begin

text \<open>
  Messages, \<^verbatim>\<open>src/src/message/message.hpp\<close> and \<^verbatim>\<open>message.cpp\<close>: the envelope, its encoding on the wire, and the tests that services
  make on where a message came from and how it was encrypted.
\<close>

section \<open>Messages\<close>

datatype encryption_type = conversation | asymmetric | symmetric | plaintext
datatype source_type = local | remote

record metadata =
  mt_type :: string
  mt_to :: "string list"
  mt_from :: "string list"
  mt_extra :: dict
  mt_source :: source_type
  mt_encryption :: encryption_type
  mt_robust :: bool

record message =
  m_meta :: metadata
  m_data :: bytes

definition metadata_default :: metadata where
  "metadata_default = \<lparr>mt_type = [], mt_to = [], mt_from = [], mt_extra = [], mt_source = local,
     mt_encryption = conversation, mt_robust = True\<rparr>"

definition message_default :: message where
  "message_default = \<lparr>m_meta = metadata_default, m_data = []\<rparr>"

section \<open>Encoding\<close>

text \<open>\<^verbatim>\<open>operator<<\<close>: the type, then addresses and extra data as one byte string, then the data.\<close>

definition address_array :: "string list \<Rightarrow> array" where
  "address_array a = map VBytes a"

definition encode_message :: "cxx_lib \<Rightarrow> message \<Rightarrow> bytes" where
  "encode_message L m =
     (let meta = m_meta m;
          ms = encode_array L (address_array (mt_to meta)) @ encode_array L (address_array (mt_from meta)) @
               encode_dict L (mt_extra meta)
      in encode_b L (to_bytes (mt_type meta)) @ encode_b L (to_bytes ms) @ encode_b L (m_data m))"

fun address_of_array :: "array \<Rightarrow> string list outcome" where
  "address_of_array [] = Ok []"
| "address_of_array (v # vs) = bindO (as_string v) (\<lambda>s. bindO (address_of_array vs) (\<lambda>r. Ok (s # r)))"

text \<open>\<^verbatim>\<open>operator>>\<close> reads into an existing message: the addresses are appended to those it has.\<close>

definition read_message :: "cxx_lib \<Rightarrow> istream \<Rightarrow> message \<Rightarrow> (message \<times> istream) outcome" where
  "read_message L i m =
     bindO (read_bytes L i) (\<lambda>(mt, i1).
     bindO (read_bytes L i1) (\<lambda>(mb, i2).
     bindO (read_array L (stream_of (to_str mb))) (\<lambda>(dest, s1).
     bindO (read_array L s1) (\<lambda>(from, s2).
     bindO (read_dict L s2) (\<lambda>(extra, s3).
     bindO (address_of_array dest) (\<lambda>t.
     bindO (address_of_array from) (\<lambda>f.
     bindO (read_bytes L i2) (\<lambda>(data, i3).
       let meta = m_meta m in
       Ok (m\<lparr>m_meta := meta\<lparr>mt_type := to_str mt, mt_to := mt_to meta @ t, mt_from := mt_from meta @ f, mt_extra := extra\<rparr>,
             m_data := data\<rparr>, i3)))))))))"

definition decode_message :: "cxx_lib \<Rightarrow> bytes \<Rightarrow> message outcome" where
  "decode_message L b = bindO (read_message L (stream_of (to_str b)) message_default) (\<lambda>(m, _). Ok m)"

section \<open>Addresses and expectations\<close>

definition external_address :: "string \<Rightarrow> string \<Rightarrow> string" where
  "external_address host port = ''udp://'' @ host @ '':'' @ port"

definition external_address_str :: "string \<Rightarrow> string" where
  "external_address_str host_port = ''udp://'' @ host_port"

definition encryption_str :: "encryption_type \<Rightarrow> string" where
  "encryption_str t = (case t of symmetric \<Rightarrow> ''symmetric'' | asymmetric \<Rightarrow> ''asymmetric''
     | plaintext \<Rightarrow> ''plaintext'' | conversation \<Rightarrow> ''conversation'')"

definition is_local :: "message \<Rightarrow> bool" where
  "is_local m \<longleftrightarrow> mt_source (m_meta m) = local"

definition is_remote :: "message \<Rightarrow> bool" where
  "is_remote m \<longleftrightarrow> mt_source (m_meta m) = remote"

definition is_symmetric :: "message \<Rightarrow> bool" where
  "is_symmetric m \<longleftrightarrow> mt_encryption (m_meta m) = symmetric"

definition is_asymmetric :: "message \<Rightarrow> bool" where
  "is_asymmetric m \<longleftrightarrow> mt_encryption (m_meta m) = asymmetric"

definition is_plaintext :: "message \<Rightarrow> bool" where
  "is_plaintext m \<longleftrightarrow> mt_encryption (m_meta m) = plaintext"

definition expect_local :: "message \<Rightarrow> unit outcome" where
  "expect_local m = (if is_local m then Ok () else Throw RuntimeError)"

definition expect_remote :: "message \<Rightarrow> unit outcome" where
  "expect_remote m = (if is_remote m then Ok () else Throw RuntimeError)"

definition expect_symmetric :: "message \<Rightarrow> unit outcome" where
  "expect_symmetric m = (if is_symmetric m then Ok () else Throw RuntimeError)"

definition expect_asymmetric :: "message \<Rightarrow> unit outcome" where
  "expect_asymmetric m = (if is_asymmetric m then Ok () else Throw RuntimeError)"

definition expect_plaintext :: "message \<Rightarrow> unit outcome" where
  "expect_plaintext m = (if is_plaintext m then Ok () else Throw RuntimeError)"

text \<open>\<^verbatim>\<open>operator<<\<close> of an address; \<^verbatim>\<open>front\<close> of an empty deque is undefined.\<close>

definition show_address :: "string list \<Rightarrow> string outcome" where
  "show_address a = (case a of [] \<Rightarrow> Undef | x # xs \<Rightarrow> Ok (x @ concat (map (\<lambda>p. CHR '':'' # p) xs)))"

section \<open>Round trip\<close>

text \<open>What can be encoded: every part must fit one allocation, and the extra data must be well formed.\<close>

definition wf_message :: "cxx_lib \<Rightarrow> message \<Rightarrow> bool" where
  "wf_message L m \<longleftrightarrow>
     (let meta = m_meta m in
      length (mt_type meta) \<le> max_alloc L \<and> length (m_data m) \<le> max_alloc L \<and>
      length (encode_array L (address_array (mt_to meta)) @ encode_array L (address_array (mt_from meta)) @
              encode_dict L (mt_extra meta)) \<le> max_alloc L \<and>
      (\<forall>s \<in> set (mt_to meta) \<union> set (mt_from meta). length s \<le> max_alloc L) \<and> wf_value L (VDict (mt_extra meta)))"

definition as_received :: "message \<Rightarrow> message" where
  "as_received m = m\<lparr>m_meta := (m_meta m)\<lparr>mt_source := local, mt_encryption := conversation, mt_robust := True\<rparr>\<rparr>"

lemma address_of_array_address [simp]: "address_of_array (address_array a) = Ok a"
  by (induction a) (auto simp: address_array_def to_str_def)

text \<open>Whatever the bytes, decoding ends, returns or throws, and breaks no contract.\<close>

lemma address_of_array_safe: "safe (address_of_array a)"
proof (induction a)
  case (Cons v vs)
  have "safe (as_string v)" by (cases v) auto
  with Cons show ?case by (auto intro!: safe_bindO)
qed simp

lemma decode_message_safe: "safe (decode_message L b)"
  unfolding decode_message_def read_message_def
  by (auto intro!: safe_bindO read_bytes_safe read_array_safe read_dict_safe address_of_array_safe simp: Let_def split: prod.splits)

context lexical_cast
begin

lemma message_roundtrip:
  assumes "wf_message L m"
  shows "decode_message L (encode_message L m) = Ok (as_received m)"
proof -
  let ?meta = "m_meta m"
  define ms where "ms = encode_array L (address_array (mt_to ?meta)) @ encode_array L (address_array (mt_from ?meta)) @
      encode_dict L (mt_extra ?meta)"
  have len: "length (mt_type ?meta) \<le> max_alloc L" "length (m_data m) \<le> max_alloc L" "length ms \<le> max_alloc L"
    "wf_value L (VDict (mt_extra ?meta))" "\<forall>s \<in> set (mt_to ?meta) \<union> set (mt_from ?meta). length s \<le> max_alloc L"
    using assms by (simp_all add: wf_message_def ms_def Let_def)
  have wa: "wf_value L (VArray (address_array a))" if "\<forall>s \<in> set a. length s \<le> max_alloc L" for a
    using that by (auto simp: address_array_def list_all_iff)
  have r1: "read_bytes L (st (encode_b L (mt_type ?meta) @ encode_b L ms @ encode_b L (m_data m)))
      = Ok (mt_type ?meta, st (encode_b L ms @ encode_b L (m_data m)))" by (rule read_bytes_encode [OF len(1)])
  have r2: "read_bytes L (st (encode_b L ms @ encode_b L (m_data m))) = Ok (ms, st (encode_b L (m_data m)))"
    by (rule read_bytes_encode [OF len(3)])
  have r3: "read_bytes L (st (encode_b L (m_data m))) = Ok (m_data m, st [])"
    using read_bytes_encode [OF len(2), of "[]"] by simp
  have a1: "read_array L (st ms) = Ok (address_array (mt_to ?meta), st (encode_array L (address_array (mt_from ?meta)) @ encode_dict L (mt_extra ?meta)))"
    unfolding ms_def using len(5) by (intro read_array_encode wa) auto
  have a2: "read_array L (st (encode_array L (address_array (mt_from ?meta)) @ encode_dict L (mt_extra ?meta)))
      = Ok (address_array (mt_from ?meta), st (encode_dict L (mt_extra ?meta)))"
    using len(5) by (intro read_array_encode wa) auto
  have a3: "read_dict L (st (encode_dict L (mt_extra ?meta))) = Ok (mt_extra ?meta, st [])"
    using read_dict_encode [OF len(4), of "[]"] by simp
  show ?thesis
    using r1 r2 r3 a1 a2 a3
    by (simp add: decode_message_def encode_message_def read_message_def ms_def [symmetric] stream_of_def to_str_def to_bytes_def
        Let_def message_default_def metadata_default_def as_received_def del: bindO_Ok_iff)
qed

end

definition sample_message :: message where
  "sample_message = message_default\<lparr>m_meta := metadata_default\<lparr>mt_type := ''hi'', mt_to := [''udp://a:1'', ''chat''], mt_from := [''u''],
     mt_extra := [(''k'', VInt 7)]\<rparr>, m_data := ''data''\<rparr>"

lemma wf_sample_message: "wf_message decimal_lib sample_message"
  by (simp add: wf_message_def Let_def sample_message_def message_default_def metadata_default_def address_array_def encode_array_def
      encode_dict_def encode_b_def decimal_lib_def show_nat.simps enc_def show_sint_def)

text \<open>
  A message survives the wire: decoding what \<^verbatim>\<open>encode\<close> printed gives back type, both address lists, extra data and
  data.  Source, encryption and robustness are not part of the encoding: a decoded message is
  local, of conversation encryption and robust until the receiver sets them.
\<close>

theorem message_wire_roundtrip:
  assumes "lexical_cast L" "wf_message L m"
  shows "decode_message L (encode_message L m) = Ok (as_received m)"
  by (rule lexical_cast.message_roundtrip [OF assms])

theorem message_wire_roundtrip_witness:
  "decode_message decimal_lib (encode_message decimal_lib sample_message) = Ok (as_received sample_message)"
  by (rule message_wire_roundtrip [OF dec.lexical_cast_axioms wf_sample_message])

end
