(* ===== verification/User.thy ===== *)
theory User
  imports Security Message
begin

text \<open>
  Users, \<^verbatim>\<open>src/src/user/user.hpp\<close> and \<^verbatim>\<open>user.cpp\<close>: what is known of a user, the contact list with its index, greeters and introductions, their
  dictionaries, and the local user on disk.  Files are a map from paths to contents; joining paths and whether a file can be opened for
  writing are the parameter \<open>fs_lib\<close> (boost::filesystem and the operating system).  Copying a valid key loads it again from the same text, so copies of
  user information are the same value.
\<close>

section \<open>User information\<close>

definition MAX_ADDRESSES :: nat where "MAX_ADDRESSES = 3"

record 'k user_info =
  ui_addresses :: "string list"
  ui_name :: string
  ui_id :: string
  ui_pkey :: "'k public_key"

definition user_info_default :: "'k user_info" where
  "user_info_default = \<lparr>ui_addresses = [], ui_name = [], ui_id = [], ui_pkey = public_key_default\<rparr>"

definition user_info_make :: "string list \<Rightarrow> string \<Rightarrow> string \<Rightarrow> 'k public_key \<Rightarrow> 'k user_info outcome" where
  "user_info_make addresses name uid pub_key =
     contract (addresses \<noteq> []) (contract (name \<noteq> []) (contract (uid \<noteq> [])
       (bindO (public_key_key pub_key) (\<lambda>k. contract (k \<noteq> [])
         (Ok \<lparr>ui_addresses = addresses, ui_name = name, ui_id = uid, ui_pkey = pub_key\<rparr>)))))"

definition ui_address :: "'k user_info \<Rightarrow> string" where
  "ui_address u = (case ui_addresses u of [] \<Rightarrow> [] | a # _ \<Rightarrow> a)"

definition add_known_address :: "string \<Rightarrow> 'k user_info \<Rightarrow> 'k user_info" where
  "add_known_address v u =
     (let as = v # remove1 v (ui_addresses u)
      in u\<lparr>ui_addresses := if length as > MAX_ADDRESSES then butlast as else as\<rparr>)"

definition ui_set_name :: "string \<Rightarrow> 'k user_info \<Rightarrow> 'k user_info" where
  "ui_set_name v u = u\<lparr>ui_name := v\<rparr>"

definition ui_set_id :: "string \<Rightarrow> 'k user_info \<Rightarrow> 'k user_info" where
  "ui_set_id v u = u\<lparr>ui_id := v\<rparr>"

definition ui_set_key :: "('r, 'k) botan \<Rightarrow> 'k public_key \<Rightarrow> 'k user_info \<Rightarrow> 'k user_info outcome" where
  "ui_set_key B v u = bindO (public_key_assign B v) (\<lambda>k. Ok (u\<lparr>ui_pkey := k\<rparr>))"

section \<open>As dictionaries\<close>

definition from_user_info :: "'k user_info \<Rightarrow> dict outcome" where
  "from_user_info u =
     bindO (public_key_key (ui_pkey u)) (\<lambda>k.
       Ok ((if length (ui_addresses u) > 1 then [(''addrs'', VArray (address_array (ui_addresses u)))]
            else [(''address'', value_of_string (ui_address u))]) @
           [(''name'', value_of_string (ui_name u)), (''id'', value_of_string (ui_id u)), (''pkey'', value_of_string k)]))"

definition dict_string :: "dict \<Rightarrow> string \<Rightarrow> string outcome" where
  "dict_string d k = bindO (dict_get d k) as_string"

definition to_user_info :: "('r, 'k) botan \<Rightarrow> dict \<Rightarrow> 'k user_info outcome" where
  "to_user_info B d =
     bindO (if dict_has d ''addrs'' then bindO (bindO (dict_get d ''addrs'') as_array) address_of_array
            else bindO (dict_string d ''address'') (\<lambda>a. Ok [a])) (\<lambda>addrs.
       if addrs = [] then Throw RuntimeError
       else
         bindO (dict_string d ''name'') (\<lambda>name.
         bindO (dict_string d ''id'') (\<lambda>uid.
         bindO (dict_string d ''pkey'') (\<lambda>pkey.
         bindO (public_key_of_string B pkey) (\<lambda>k. user_info_make addrs name uid k)))))"

primrec users_to_array :: "'k user_info list \<Rightarrow> array outcome" where
  "users_to_array [] = Ok []"
| "users_to_array (u # us) = bindO (from_user_info u) (\<lambda>d. bindO (users_to_array us) (\<lambda>a. Ok (VDict d # a)))"

primrec array_to_list :: "(mvalue \<Rightarrow> 'a outcome) \<Rightarrow> array \<Rightarrow> 'a list outcome" where
  "array_to_list conv [] = Ok []"
| "array_to_list conv (v # vs) = bindO (conv v) (\<lambda>x. bindO (array_to_list conv vs) (\<lambda>r. Ok (x # r)))"

definition array_to_users :: "('r, 'k) botan \<Rightarrow> array \<Rightarrow> 'k user_info list outcome" where
  "array_to_users B a = array_to_list (\<lambda>v. bindO (as_dict v) (to_user_info B)) a"

section \<open>Greeters and introductions\<close>

record greet_server =
  gs_host :: string
  gs_port :: u16
  gs_key :: string

definition from_greet_server :: "greet_server \<Rightarrow> dict" where
  "from_greet_server g = [(''host'', value_of_string (gs_host g)), (''port'', value_of_int (ucast (gs_port g))), (''pub_key'', value_of_string (gs_key g))]"

definition to_greet_server :: "mvalue \<Rightarrow> greet_server outcome" where
  "to_greet_server v =
     bindO (as_dict v) (\<lambda>d.
     bindO (dict_string d ''host'') (\<lambda>h.
     bindO (bindO (dict_get d ''port'') as_int) (\<lambda>p.
     bindO (dict_string d ''pub_key'') (\<lambda>k.
       Ok \<lparr>gs_host = h, gs_port = ucast p, gs_key = k\<rparr>))))"

record 'k contact_introduction =
  in_from_id :: string
  in_greeter :: string
  in_message_text :: string
  in_contact :: "'k user_info"

definition introduction_eq :: "'k contact_introduction \<Rightarrow> 'k contact_introduction \<Rightarrow> bool" where
  "introduction_eq a b \<longleftrightarrow> ui_id (in_contact a) = ui_id (in_contact b)"

definition from_introduction :: "'k contact_introduction \<Rightarrow> dict outcome" where
  "from_introduction i =
     bindO (from_user_info (in_contact i)) (\<lambda>c.
       Ok [(''from_id'', value_of_string (in_from_id i)), (''greeter'', value_of_string (in_greeter i)),
           (''message'', value_of_string (in_message_text i)), (''contact'', VDict c)])"

definition to_introduction :: "('r, 'k) botan \<Rightarrow> dict \<Rightarrow> 'k contact_introduction outcome" where
  "to_introduction B d =
     bindO (dict_string d ''from_id'') (\<lambda>f.
     bindO (dict_string d ''greeter'') (\<lambda>g.
     bindO (dict_string d ''message'') (\<lambda>m.
     bindO (bindO (dict_get d ''contact'') as_dict) (\<lambda>c.
     bindO (to_user_info B c) (\<lambda>u.
       Ok \<lparr>in_from_id = f, in_greeter = g, in_message_text = m, in_contact = u\<rparr>)))))"

primrec introductions_to_array :: "'k contact_introduction list \<Rightarrow> array outcome" where
  "introductions_to_array [] = Ok []"
| "introductions_to_array (i # is) = bindO (from_introduction i) (\<lambda>d. bindO (introductions_to_array is) (\<lambda>a. Ok (VDict d # a)))"

section \<open>The contact list\<close>

text \<open>\<open>cl_map\<close> is the index \<^verbatim>\<open>_map\<close> from ids to positions of \<^verbatim>\<open>_list\<close>.\<close>

record 'k contact_list =
  cl_list :: "'k user_info list"
  cl_map :: "(string \<times> nat) list"

definition contact_list_new :: "'k contact_list" where
  "contact_list_new = \<lparr>cl_list = [], cl_map = []\<rparr>"

definition cl_add :: "'k user_info \<Rightarrow> 'k contact_list \<Rightarrow> (bool \<times> 'k contact_list) outcome" where
  "cl_add c l =
     (if alist_has (ui_id c) (cl_map l) then Ok (False, l)
      else
        let xs = cl_list l @ [c];
            l1 = l\<lparr>cl_list := xs, cl_map := alist_put (ui_id c) (length xs - 1) (cl_map l)\<rparr>
        in contract (cl_list l1 \<noteq> []) (case map_of (cl_map l1) (ui_id c) of
             None \<Rightarrow> Exit
           | Some i \<Rightarrow> if i < length xs then contract (xs ! i = c) (Ok (True, l1)) else Undef))"

definition cl_remove :: "'k user_info \<Rightarrow> 'k contact_list \<Rightarrow> (bool \<times> 'k contact_list) outcome" where
  "cl_remove c l =
     (case map_of (cl_map l) (ui_id c) of
        None \<Rightarrow> Ok (False, l)
      | Some k \<Rightarrow>
          if k \<ge> length (cl_list l) then Undef
          else
            let xs = take k (cl_list l) @ drop (Suc k) (cl_list l);
                m1 = alist_del (ui_id c) (cl_map l);
                m2 = fold (\<lambda>i m. alist_put (ui_id (xs ! i)) i m) [0..<length xs] m1
            in contract (\<not> alist_has (ui_id c) m2) (contract (length m2 = length xs)
                 (Ok (True, l\<lparr>cl_list := xs, cl_map := m2\<rparr>))))"

definition cl_has :: "string \<Rightarrow> 'k contact_list \<Rightarrow> bool" where
  "cl_has i l = alist_has i (cl_map l)"

definition cl_by_id :: "string \<Rightarrow> 'k contact_list \<Rightarrow> 'k user_info option outcome" where
  "cl_by_id i l =
     (case map_of (cl_map l) i of
        None \<Rightarrow> Ok None
      | Some k \<Rightarrow> if k < length (cl_list l) then Ok (Some (cl_list l ! k)) else Undef)"

definition cl_get :: "nat \<Rightarrow> 'k contact_list \<Rightarrow> 'k user_info option" where
  "cl_get i l = (if i \<ge> length (cl_list l) then None else Some (cl_list l ! i))"

definition cl_empty :: "'k contact_list \<Rightarrow> bool" where
  "cl_empty l \<longleftrightarrow> cl_list l = []"

definition cl_size :: "'k contact_list \<Rightarrow> nat outcome" where
  "cl_size l = contract (length (cl_list l) = length (cl_map l)) (Ok (length (cl_list l)))"

definition cl_clear :: "'k contact_list \<Rightarrow> 'k contact_list" where
  "cl_clear l = \<lparr>cl_list = [], cl_map = []\<rparr>"

primrec cl_add_all :: "'k user_info list \<Rightarrow> 'k contact_list \<Rightarrow> 'k contact_list outcome" where
  "cl_add_all [] l = Ok l"
| "cl_add_all (c # cs) l = bindO (cl_add c l) (\<lambda>(_, l1). cl_add_all cs l1)"

definition contact_list_of :: "'k user_info list \<Rightarrow> 'k contact_list outcome" where
  "contact_list_of cs =
     bindO (cl_add_all cs contact_list_new) (\<lambda>l.
       contract (length (cl_list l) = length (cl_map l)) (contract (length (cl_list l) \<le> length cs) (Ok l)))"

section \<open>The local user on disk\<close>

record 'k local_user =
  lu_info :: "'k user_info"
  lu_contacts :: "'k contact_list"
  lu_greeters :: "greet_server list"
  lu_introductions :: "'k contact_introduction list"
  lu_prv_key :: "'k private_key"

definition local_user_new :: "('r, 'k) botan \<Rightarrow> string \<Rightarrow> string \<Rightarrow> 'k private_key \<Rightarrow> 'k local_user outcome" where
  "local_user_new B name uuid pk =
     contract (pv_public pk \<noteq> [])
       (bindO (public_key_of_string B (pv_public pk)) (\<lambda>k.
        bindO (user_info_make [''local''] name uuid k) (\<lambda>i.
          contract (name \<noteq> [])
            (Ok \<lparr>lu_info = i, lu_contacts = contact_list_new, lu_greeters = [], lu_introductions = [], lu_prv_key = pk\<rparr>))))"

type_synonym files = "string \<rightharpoonup> bytes"

record fs_lib =
  fl_join :: "string \<Rightarrow> string \<Rightarrow> string"
  fl_writable :: "string \<Rightarrow> bool"

definition save_to_file :: "fs_lib \<Rightarrow> string \<Rightarrow> bytes \<Rightarrow> files \<Rightarrow> files outcome" where
  "save_to_file F f d fs = (if fl_writable F f then Ok (fs(f \<mapsto> d)) else Throw RuntimeError)"

definition load_from_file :: "(istream \<Rightarrow> ('a \<times> istream) outcome) \<Rightarrow> string \<Rightarrow> files \<Rightarrow> 'a \<Rightarrow> (bool \<times> 'a) outcome" where
  "load_from_file rd f fs r =
     (case fs f of None \<Rightarrow> Ok (False, r) | Some b \<Rightarrow> bindO (rd (stream_of b)) (\<lambda>(x, _). Ok (True, x)))"

definition local_user_file :: "fs_lib \<Rightarrow> string \<Rightarrow> string" where "local_user_file F h = fl_join F h ''local''"
definition private_key_file :: "fs_lib \<Rightarrow> string \<Rightarrow> string" where "private_key_file F h = fl_join F h ''private_key''"
definition contacts_file :: "fs_lib \<Rightarrow> string \<Rightarrow> string" where "contacts_file F h = fl_join F h ''contacts''"
definition greeters_file :: "fs_lib \<Rightarrow> string \<Rightarrow> string" where "greeters_file F h = fl_join F h ''greeters''"
definition introductions_file :: "fs_lib \<Rightarrow> string \<Rightarrow> string" where "introductions_file F h = fl_join F h ''introductions''"

definition user_created :: "fs_lib \<Rightarrow> string \<Rightarrow> files \<Rightarrow> bool" where
  "user_created F home fs \<longleftrightarrow> fs (local_user_file F home) \<noteq> None"

definition read_user_info :: "cxx_lib \<Rightarrow> ('r, 'k) botan \<Rightarrow> istream \<Rightarrow> ('k user_info \<times> istream) outcome" where
  "read_user_info L B s = bindO (read_dict L s) (\<lambda>(d, s1). bindO (to_user_info B d) (\<lambda>u. Ok (u, s1)))"

definition read_users :: "cxx_lib \<Rightarrow> ('r, 'k) botan \<Rightarrow> istream \<Rightarrow> ('k user_info list \<times> istream) outcome" where
  "read_users L B s = bindO (read_array L s) (\<lambda>(a, s1). bindO (array_to_users B a) (\<lambda>us. Ok (us, s1)))"

definition read_greeters :: "cxx_lib \<Rightarrow> istream \<Rightarrow> (greet_server list \<times> istream) outcome" where
  "read_greeters L s = bindO (read_array L s) (\<lambda>(a, s1). bindO (array_to_list to_greet_server a) (\<lambda>gs. Ok (gs, s1)))"

definition read_introductions :: "cxx_lib \<Rightarrow> ('r, 'k) botan \<Rightarrow> istream \<Rightarrow> ('k contact_introduction list \<times> istream) outcome" where
  "read_introductions L B s =
     bindO (read_array L s) (\<lambda>(a, s1). bindO (array_to_list (\<lambda>v. bindO (as_dict v) (to_introduction B)) a) (\<lambda>is. Ok (is, s1)))"

definition save_user :: "cxx_lib \<Rightarrow> fs_lib \<Rightarrow> string \<Rightarrow> 'k local_user \<Rightarrow> files \<Rightarrow> files outcome" where
  "save_user L F home lu fs =
     bindO (bindO (from_user_info (lu_info lu)) (\<lambda>d. save_to_file F (local_user_file F home) (encode_dict L d) fs)) (\<lambda>fs1.
     bindO (if fs1 (private_key_file F home) \<noteq> None then Ok fs1
            else if \<not> fl_writable F (private_key_file F home) then Throw RuntimeError
            else bindO (encode_private_key L (lu_prv_key lu)) (\<lambda>k. Ok (fs1(private_key_file F home \<mapsto> k)))) (\<lambda>fs2.
     bindO (bindO (users_to_array (cl_list (lu_contacts lu))) (\<lambda>a. save_to_file F (contacts_file F home) (encode_array L a) fs2)) (\<lambda>fs3.
     bindO (save_to_file F (greeters_file F home) (encode_array L (map (VDict \<circ> from_greet_server) (lu_greeters lu))) fs3) (\<lambda>fs4.
       bindO (introductions_to_array (lu_introductions lu)) (\<lambda>a. save_to_file F (introductions_file F home) (encode_array L a) fs4)))))"

definition load_user ::
    "cxx_lib \<Rightarrow> ('r, 'k) botan \<Rightarrow> fs_lib \<Rightarrow> string \<Rightarrow> string \<Rightarrow> 'r option \<Rightarrow> files \<Rightarrow> ('k local_user option \<times> 'r option) outcome" where
  "load_user L B F home passphrase g fs =
     bindO (load_from_file (read_user_info L B) (local_user_file F home) fs user_info_default) (\<lambda>(found, info).
       if \<not> found then Ok (None, g)
       else (case fs (private_key_file F home) of
               None \<Rightarrow> Ok (None, g)
             | Some kb \<Rightarrow>
                 bindO (decode_private_key L B (stream_of kb) passphrase g) (\<lambda>(prv_key, g1).
                 bindO (load_from_file (read_users L B) (contacts_file F home) fs []) (\<lambda>(_, us).
                 bindO (load_from_file (read_greeters L) (greeters_file F home) fs []) (\<lambda>(_, greeters).
                 bindO (load_from_file (read_introductions L B) (introductions_file F home) fs []) (\<lambda>(_, introductions).
                 bindO (contact_list_of us) (\<lambda>contacts.
                   Ok (Some \<lparr>lu_info = info, lu_contacts = contacts, lu_greeters = greeters, lu_introductions = introductions,
                        lu_prv_key = prv_key\<rparr>, g1))))))))"

definition load_contact :: "cxx_lib \<Rightarrow> ('r, 'k) botan \<Rightarrow> string \<Rightarrow> files \<Rightarrow> 'k user_info option outcome" where
  "load_contact L B f fs =
     (case fs f of None \<Rightarrow> Ok None | Some b \<Rightarrow> bindO (read_user_info L B (stream_of b)) (\<lambda>(u, _). Ok (Some u)))"

definition save_contact :: "cxx_lib \<Rightarrow> fs_lib \<Rightarrow> string \<Rightarrow> 'k user_info \<Rightarrow> files \<Rightarrow> files outcome" where
  "save_contact L F f u fs =
     (if \<not> fl_writable F f then Ok fs else bindO (from_user_info u) (\<lambda>d. Ok (fs(f \<mapsto> encode_dict L d))))"

section \<open>The contact list refines a list without duplicate ids\<close>

definition cl_ok :: "'k contact_list \<Rightarrow> bool" where
  "cl_ok l \<longleftrightarrow> distinct (map ui_id (cl_list l)) \<and> distinct (keys (cl_map l)) \<and> length (cl_map l) = length (cl_list l) \<and>
     (\<forall>i k. map_of (cl_map l) i = Some k \<longleftrightarrow> k < length (cl_list l) \<and> ui_id (cl_list l ! k) = i)"

definition spec_add :: "'k user_info \<Rightarrow> 'k user_info list \<Rightarrow> 'k user_info list" where
  "spec_add c us = (if ui_id c \<in> ui_id ` set us then us else us @ [c])"

definition spec_remove :: "'k user_info \<Rightarrow> 'k user_info list \<Rightarrow> 'k user_info list" where
  "spec_remove c us = filter (\<lambda>u. ui_id u \<noteq> ui_id c) us"

datatype 'k cl_op = Add "'k user_info" | Remove "'k user_info"

fun spec_run :: "'k cl_op list \<Rightarrow> 'k user_info list \<Rightarrow> 'k user_info list" where
  "spec_run [] us = us"
| "spec_run (Add c # es) us = spec_run es (spec_add c us)"
| "spec_run (Remove c # es) us = spec_run es (spec_remove c us)"

text \<open>
  The interface that the services use: every call returns, an addition appends unless the id is known, a removal removes exactly the entry of that id, and a
  lookup finds what is listed.
\<close>

locale directory =
  fixes add :: "'k user_info \<Rightarrow> 'd \<Rightarrow> (bool \<times> 'd) outcome"
    and remove :: "'k user_info \<Rightarrow> 'd \<Rightarrow> (bool \<times> 'd) outcome"
    and by_id :: "string \<Rightarrow> 'd \<Rightarrow> 'k user_info option outcome"
    and inv :: "'d \<Rightarrow> bool"
    and items :: "'d \<Rightarrow> 'k user_info list"
  assumes add_spec: "inv l \<Longrightarrow> \<exists>l'. add c l = Ok (ui_id c \<notin> ui_id ` set (items l), l') \<and> inv l' \<and> items l' = spec_add c (items l)"
    and remove_spec: "inv l \<Longrightarrow> \<exists>l'. remove c l = Ok (ui_id c \<in> ui_id ` set (items l), l') \<and> inv l' \<and> items l' = spec_remove c (items l)"
    and by_id_spec: "inv l \<Longrightarrow> by_id i l = Ok (find (\<lambda>u. ui_id u = i) (items l))"
begin

fun run :: "'k cl_op list \<Rightarrow> 'd \<Rightarrow> 'd outcome" where
  "run [] l = Ok l"
| "run (Add c # es) l = bindO (add c l) (\<lambda>(_, l1). run es l1)"
| "run (Remove c # es) l = bindO (remove c l) (\<lambda>(_, l1). run es l1)"

lemma run_spec: "inv l \<Longrightarrow> \<exists>l'. run es l = Ok l' \<and> inv l' \<and> items l' = spec_run es (items l)"
proof (induction es arbitrary: l)
  case (Cons e es)
  show ?case
  proof (cases e)
    case (Add c)
    obtain l1 where l1: "add c l = Ok (ui_id c \<notin> ui_id ` set (items l), l1)" "inv l1" "items l1 = spec_add c (items l)"
      using add_spec [OF Cons.prems] by blast
    from Cons.IH [OF l1(2)] obtain l' where "run es l1 = Ok l'" "inv l'" "items l' = spec_run es (items l1)" by blast
    with Add l1 show ?thesis by (simp del: bindO_Ok_iff)
  next
    case (Remove c)
    obtain l1 where l1: "remove c l = Ok (ui_id c \<in> ui_id ` set (items l), l1)" "inv l1" "items l1 = spec_remove c (items l)"
      using remove_spec [OF Cons.prems] by blast
    from Cons.IH [OF l1(2)] obtain l' where "run es l1 = Ok l'" "inv l'" "items l' = spec_run es (items l1)" by blast
    with Remove l1 show ?thesis by (simp del: bindO_Ok_iff)
  qed
qed simp

end

lemma cl_has_iff: "cl_ok l \<Longrightarrow> alist_has i (cl_map l) \<longleftrightarrow> i \<in> ui_id ` set (cl_list l)"
  unfolding cl_ok_def alist_has_def by (fastforce simp: in_set_conv_nth image_iff simp del: alist_has_iff)

lemma cl_add_spec:
  assumes ok: "cl_ok l"
  shows "\<exists>l'. cl_add c l = Ok (ui_id c \<notin> ui_id ` set (cl_list l), l') \<and> cl_ok l' \<and> cl_list l' = spec_add c (cl_list l)"
proof (cases "alist_has (ui_id c) (cl_map l)")
  case True
  then show ?thesis using ok cl_has_iff [OF ok] by (simp add: cl_add_def spec_add_def del: alist_has_iff)
next
  case False
  then have new: "ui_id c \<notin> ui_id ` set (cl_list l)" "ui_id c \<notin> fst ` set (cl_map l)"
    using cl_has_iff [OF ok, of "ui_id c"] by auto
  define l' where "l' = l\<lparr>cl_list := cl_list l @ [c], cl_map := alist_put (ui_id c) (length (cl_list l)) (cl_map l)\<rparr>"
  have "map_of (cl_map l') i = Some k \<longleftrightarrow> k < length (cl_list l') \<and> ui_id (cl_list l' ! k) = i" for i k
  proof (cases "i = ui_id c")
    case True
    have "ui_id (cl_list l ! k) \<noteq> ui_id c" if "k < length (cl_list l)" using that new(1) nth_mem by (metis image_eqI)
    then show ?thesis using True by (auto simp: l'_def nth_append less_Suc_eq)
  next
    case False
    then show ?thesis using ok by (auto simp: l'_def cl_ok_def nth_append less_Suc_eq)
  qed
  then have "cl_ok l'" using ok new by (simp add: cl_ok_def l'_def length_alist_put)
  moreover have "cl_add c l = Ok (True, l')"
    using False by (simp add: cl_add_def l'_def Let_def del: alist_has_iff)
  ultimately show ?thesis using new by (simp add: spec_add_def l'_def)
qed

lemma fold_put_index:
  assumes "n \<le> length us" "distinct (map ui_id us)"
  shows "map_of (fold (\<lambda>i m. alist_put (ui_id (us ! i)) i m) [0..<n] m) j = Some k \<longleftrightarrow>
     k < n \<and> ui_id (us ! k) = j \<or> (\<forall>i < n. ui_id (us ! i) \<noteq> j) \<and> map_of m j = Some k"
  using assms(1)
proof (induction n)
  case (Suc n)
  have inj: "i = k" if "i < length us" "k < length us" "ui_id (us ! i) = ui_id (us ! k)" for i k
    using that assms(2) by (metis length_map nth_eq_iff_index_eq nth_map)
  show ?case
  proof (cases "ui_id (us ! n) = j")
    case True
    then show ?thesis using Suc.prems inj [of k n] by (auto simp: less_Suc_eq)
  next
    case False
    then show ?thesis using Suc by (auto simp: less_Suc_eq)
  qed
qed simp

lemma fold_put_keys:
  "distinct (keys m) \<Longrightarrow> distinct (keys (fold (\<lambda>i m. alist_put (f i) i m) is m))"
  "fst ` set (fold (\<lambda>i m. alist_put (f i) i m) is m) = fst ` set m \<union> f ` set is"
  by (induction "is" arbitrary: m) auto

lemma length_eq_card_keys: "distinct (keys m) \<Longrightarrow> length m = card (fst ` set m)"
  by (metis distinct_card length_map list.set_map)

lemma distinct_remove_nth:
  assumes "distinct (map f xs)" "k < length xs"
  shows "take k xs @ drop (Suc k) xs = filter (\<lambda>x. f x \<noteq> f (xs ! k)) xs"
  using assms
proof (induction xs arbitrary: k)
  case (Cons x xs)
  show ?case
  proof (cases k)
    case 0
    then have "filter (\<lambda>y. f y \<noteq> f x) xs = xs" using Cons.prems by (auto simp: filter_id_conv image_iff)
    with 0 show ?thesis by simp
  next
    case (Suc j)
    then have "f x \<noteq> f (xs ! j)" using Cons.prems by (metis Suc_less_eq distinct.simps(2) image_eqI length_Cons list.set_map list.simps(9) nth_mem)
    with Suc Cons show ?thesis by simp
  qed
qed simp

lemma cl_remove_spec:
  assumes ok: "cl_ok l"
  shows "\<exists>l'. cl_remove c l = Ok (ui_id c \<in> ui_id ` set (cl_list l), l') \<and> cl_ok l' \<and> cl_list l' = spec_remove c (cl_list l)"
proof (cases "map_of (cl_map l) (ui_id c)")
  case None
  then have "ui_id c \<notin> ui_id ` set (cl_list l)" using cl_has_iff [OF ok, of "ui_id c"] by (simp add: alist_has_def del: alist_has_iff)
  then have "spec_remove c (cl_list l) = cl_list l" "(ui_id c \<in> ui_id ` set (cl_list l)) = False"
    by (auto simp: spec_remove_def filter_id_conv image_iff)
  then show ?thesis using None ok by (simp add: cl_remove_def)
next
  case (Some k)
  have ids: "distinct (map ui_id (cl_list l))" "distinct (keys (cl_map l))"
    and look: "\<And>i k. map_of (cl_map l) i = Some k \<longleftrightarrow> k < length (cl_list l) \<and> ui_id (cl_list l ! k) = i"
    using ok by (simp_all add: cl_ok_def del: map_of_eq_Some_iff)
  have k: "k < length (cl_list l)" "ui_id (cl_list l ! k) = ui_id c" using look Some by auto
  define us where "us = take k (cl_list l) @ drop (Suc k) (cl_list l)"
  define m1 where "m1 = alist_del (ui_id c) (cl_map l)"
  define m2 where "m2 = fold (\<lambda>i m. alist_put (ui_id (us ! i)) i m) [0..<length us] m1"
  have us: "us = spec_remove c (cl_list l)"
    using distinct_remove_nth [OF ids(1) k(1)] k(2) by (simp add: us_def spec_remove_def)
  have du: "distinct (map ui_id us)" using ids(1) by (simp add: us spec_remove_def distinct_map_filter)
  have m1_ids: "i \<in> ui_id ` set us" if "map_of m1 i = Some j" for i j
  proof -
    have "i \<noteq> ui_id c" "j < length (cl_list l)" "ui_id (cl_list l ! j) = i"
      using that look by (auto simp: m1_def split: if_splits simp del: map_of_eq_Some_iff)
    then show ?thesis by (auto simp: us spec_remove_def)
  qed
  have look2: "map_of m2 i = Some j \<longleftrightarrow> j < length us \<and> ui_id (us ! j) = i" for i j
  proof -
    have "\<exists>k < length us. ui_id (us ! k) = i" if "map_of m1 i = Some j"
      using m1_ids [OF that] by (auto simp: in_set_conv_nth)
    then show ?thesis using fold_put_index [OF order_refl du, of m1 i j] unfolding m2_def by blast
  qed
  have "distinct (keys m2)" using ids(2) by (simp add: m2_def m1_def fold_put_keys)
  moreover have keys2: "fst ` set m2 = ui_id ` set us"
  proof -
    have "i \<in> fst ` set m2 \<longleftrightarrow> (\<exists>j. map_of m2 i = Some j)" for i by (metis map_of_eq_None_iff option.exhaust option.simps(3))
    then have "i \<in> fst ` set m2 \<longleftrightarrow> (\<exists>j < length us. ui_id (us ! j) = i)" for i using look2 by simp
    moreover have "i \<in> ui_id ` set us \<longleftrightarrow> (\<exists>j < length us. ui_id (us ! j) = i)" for i by (metis image_iff in_set_conv_nth)
    ultimately show ?thesis by blast
  qed
  ultimately have len: "length m2 = length us"
    using length_eq_card_keys [of m2] distinct_card [OF du] by simp
  define l' where "l' = l\<lparr>cl_list := us, cl_map := m2\<rparr>"
  have "cl_ok l'" using du look2 len \<open>distinct (keys m2)\<close> by (simp add: cl_ok_def l'_def del: map_of_eq_Some_iff)
  moreover have "\<not> alist_has (ui_id c) m2" using keys2 by (auto simp: us spec_remove_def)
  then have "cl_remove c l = Ok (True, l')"
    using Some k(1) len by (simp add: cl_remove_def l'_def Let_def us_def [symmetric] m1_def [symmetric] m2_def [symmetric] del: alist_has_iff)
  moreover have "ui_id c \<in> ui_id ` set (cl_list l)" using k by (metis image_eqI nth_mem)
  ultimately show ?thesis using us by (auto simp: l'_def intro!: exI [of _ l'])
qed

lemma cl_by_id_spec:
  assumes ok: "cl_ok l"
  shows "cl_by_id i l = Ok (find (\<lambda>u. ui_id u = i) (cl_list l))"
proof (cases "map_of (cl_map l) i")
  case None
  then have "i \<notin> ui_id ` set (cl_list l)" using cl_has_iff [OF ok, of i] by (simp add: alist_has_def del: alist_has_iff)
  then have "find (\<lambda>u. ui_id u = i) (cl_list l) = None" by (auto simp: find_None_iff image_iff)
  then show ?thesis using None by (simp add: cl_by_id_def)
next
  case (Some k)
  have k: "k < length (cl_list l)" "ui_id (cl_list l ! k) = i" and d: "distinct (map ui_id (cl_list l))"
    using ok Some by (auto simp: cl_ok_def simp del: map_of_eq_Some_iff)
  have "ui_id (cl_list l ! j) \<noteq> i" if "j < k" for j
    using nth_eq_iff_index_eq [OF d, of j k] k that by simp
  then have "find (\<lambda>u. ui_id u = i) (cl_list l) = Some (cl_list l ! k)" using k by (auto simp: find_Some_iff intro!: exI [of _ k])
  then show ?thesis using Some k by (simp add: cl_by_id_def)
qed

lemma contact_list_new_ok: "cl_ok contact_list_new"
  by (simp add: cl_ok_def contact_list_new_def)

interpretation cl: directory cl_add cl_remove cl_by_id cl_ok cl_list
  by unfold_locales (simp_all add: cl_add_spec cl_remove_spec cl_by_id_spec)

fun cl_run :: "'k cl_op list \<Rightarrow> 'k contact_list \<Rightarrow> 'k contact_list outcome" where
  "cl_run [] l = Ok l"
| "cl_run (Add c # es) l = bindO (cl_add c l) (\<lambda>(_, l1). cl_run es l1)"
| "cl_run (Remove c # es) l = bindO (cl_remove c l) (\<lambda>(_, l1). cl_run es l1)"

lemma cl_run_eq: "cl_run es l = cl.run es l"
proof (induction es l rule: cl_run.induct)
  case (2 c es l)
  then show ?case by (cases "cl_add c l") (auto simp: cl.run.simps)
next
  case (3 c es l)
  then show ?case by (cases "cl_remove c l") (auto simp: cl.run.simps)
qed (simp add: cl.run.simps)

text \<open>
  C18. The contact list refines a plain list of users with distinct ids: after any sequence of additions and removals, none of which fails a
  check or leaves the index stale, it holds exactly what the plain list holds, in the same order, \<^verbatim>\<open>by_id\<close> finds exactly the user with that id, and
  index and list have the same size.
\<close>

theorem contact_list_refines:
  "\<exists>l. cl_run es contact_list_new = Ok l \<and> cl_list l = spec_run es [] \<and>
     (\<forall>i. cl_by_id i l = Ok (find (\<lambda>u. ui_id u = i) (spec_run es []))) \<and> cl_size l = Ok (length (spec_run es []))"
proof -
  obtain l where l: "cl_run es contact_list_new = Ok l" "cl_ok l" "cl_list l = spec_run es []"
    using cl.run_spec [OF contact_list_new_ok, of es] by (auto simp: cl_run_eq contact_list_new_def)
  moreover have "cl_size l = Ok (length (cl_list l))" using l(2) by (simp add: cl_size_def cl_ok_def)
  ultimately show ?thesis using cl_by_id_spec [OF l(2)] by auto
qed

section \<open>Saving and loading\<close>

definition fits :: "cxx_lib \<Rightarrow> string \<Rightarrow> bool" where
  "fits L s \<longleftrightarrow> length s \<le> max_alloc L"

definition wf_user_info :: "cxx_lib \<Rightarrow> ('r, 'k) botan \<Rightarrow> 'k user_info \<Rightarrow> bool" where
  "wf_user_info L B u \<longleftrightarrow> public_key_ok B (ui_pkey u) \<and> ui_addresses u \<noteq> [] \<and> ui_name u \<noteq> [] \<and> ui_id u \<noteq> [] \<and>
     fits L (ui_name u) \<and> fits L (ui_id u) \<and> fits L (pu_ks (ui_pkey u)) \<and> list_all (fits L) (ui_addresses u) \<and> 9 \<le> max_alloc L"

definition wf_greeter :: "cxx_lib \<Rightarrow> greet_server \<Rightarrow> bool" where
  "wf_greeter L g \<longleftrightarrow> fits L (gs_host g) \<and> fits L (gs_key g) \<and> 9 \<le> max_alloc L"

definition wf_introduction :: "cxx_lib \<Rightarrow> ('r, 'k) botan \<Rightarrow> 'k contact_introduction \<Rightarrow> bool" where
  "wf_introduction L B i \<longleftrightarrow> fits L (in_from_id i) \<and> fits L (in_greeter i) \<and> fits L (in_message_text i) \<and> wf_user_info L B (in_contact i)"

lemma public_key_ok_simps:
  assumes "public_key_ok B p"
  shows "public_key_key p = Ok (pu_ks p)" "public_key_of_string B (pu_ks p) = Ok p" "pu_ks p \<noteq> []"
  using assms by (simp_all add: public_key_ok_def public_key_key_def public_key_of_string_def public_key_set_def)

lemma user_info_dict:
  assumes wf: "wf_user_info L B u"
  shows "\<exists>d. from_user_info u = Ok d \<and> to_user_info B d = Ok u \<and> wf_value L (VDict d)"
proof -
  have k: "public_key_key (ui_pkey u) = Ok (pu_ks (ui_pkey u))" "public_key_of_string B (pu_ks (ui_pkey u)) = Ok (ui_pkey u)" "pu_ks (ui_pkey u) \<noteq> []"
    using public_key_ok_simps [of B "ui_pkey u"] wf by (simp_all add: wf_user_info_def)
  have make: "user_info_make (ui_addresses u) (ui_name u) (ui_id u) (ui_pkey u) = Ok u"
    using wf k by (simp add: user_info_make_def wf_user_info_def)
  note conv = from_user_info_def to_user_info_def dict_string_def dict_get_def dict_has_def value_of_string_def to_bytes_def to_str_def ui_address_def
  show ?thesis
  proof (cases "length (ui_addresses u) > 1")
    case True
    then show ?thesis
      using wf k make by (simp add: conv wf_user_info_def address_array_def [symmetric] del: bindO_Ok_iff)
        (auto simp: address_array_def list_all_iff fits_def)
  next
    case False
    then obtain a where a: "ui_addresses u = [a]" using wf by (cases "ui_addresses u") (auto simp: wf_user_info_def)
    with wf k make show ?thesis
      by (simp add: conv wf_user_info_def del: bindO_Ok_iff) (auto simp: fits_def)
  qed
qed

lemma users_array:
  assumes "list_all (wf_user_info L B) us"
  shows "\<exists>a. users_to_array us = Ok a \<and> array_to_users B a = Ok us \<and> wf_value L (VArray a)"
  using assms
proof (induction us)
  case (Cons u us)
  obtain d where d: "from_user_info u = Ok d" "to_user_info B d = Ok u" "wf_value L (VDict d)" using user_info_dict [of L B u] Cons.prems by (auto simp del: wf_value.simps)
  obtain a where a: "users_to_array us = Ok a" "array_to_users B a = Ok us" "wf_value L (VArray a)" using Cons by auto
  show ?case using d a by (auto simp: array_to_users_def simp del: wf_value.simps(3) bindO_Ok_iff)
qed (simp add: array_to_users_def)

lemma greeter_dict:
  assumes "wf_greeter L g"
  shows "to_greet_server (VDict (from_greet_server g)) = Ok g \<and> wf_value L (VDict (from_greet_server g))"
proof -
  have "(ucast (scast (ucast p :: u32) :: u64) :: u16) = p" for p :: u16
    by (rule bit_word_eqI) (auto simp: bit_simps)
  with assms show ?thesis
    by (auto simp: from_greet_server_def to_greet_server_def dict_string_def dict_get_def value_of_string_def value_of_int_def to_bytes_def to_str_def
        wf_greeter_def fits_def)
qed

lemma greeters_array:
  assumes "list_all (wf_greeter L) gs"
  shows "array_to_list to_greet_server (map (VDict \<circ> from_greet_server) gs) = Ok gs \<and> wf_value L (VArray (map (VDict \<circ> from_greet_server) gs))"
  using assms
proof (induction gs)
  case (Cons g gs)
  then show ?case using greeter_dict [of L g] by (simp del: wf_value.simps(3) bindO_Ok_iff)
qed simp

lemma introduction_dict:
  assumes "wf_introduction L B i"
  shows "\<exists>d. from_introduction i = Ok d \<and> to_introduction B d = Ok i \<and> wf_value L (VDict d)"
proof -
  obtain c where c: "from_user_info (in_contact i) = Ok c" "to_user_info B c = Ok (in_contact i)" "wf_value L (VDict c)"
    using user_info_dict [of L B "in_contact i"] assms by (auto simp: wf_introduction_def simp del: wf_value.simps)
  have "9 \<le> max_alloc L" using assms by (simp add: wf_introduction_def wf_user_info_def)
  with c assms show ?thesis
    by (auto simp: from_introduction_def to_introduction_def dict_string_def dict_get_def value_of_string_def to_bytes_def to_str_def
        wf_introduction_def fits_def simp del: bindO_Ok_iff)
qed

lemma introductions_array:
  assumes "list_all (wf_introduction L B) is"
  shows "\<exists>a. introductions_to_array is = Ok a \<and> array_to_list (\<lambda>v. bindO (as_dict v) (to_introduction B)) a = Ok is \<and> wf_value L (VArray a)"
  using assms
proof (induction "is")
  case (Cons i "is")
  obtain d where d: "from_introduction i = Ok d" "to_introduction B d = Ok i" "wf_value L (VDict d)" using introduction_dict [of L B i] Cons.prems by (auto simp del: wf_value.simps)
  obtain a where a: "introductions_to_array is = Ok a" "array_to_list (\<lambda>v. bindO (as_dict v) (to_introduction B)) a = Ok is" "wf_value L (VArray a)"
    using Cons by auto
  show ?case using d a by (auto simp del: wf_value.simps(3) bindO_Ok_iff)
qed simp

lemma cl_add_all_new:
  assumes "cl_ok l" "distinct (map ui_id (cl_list l @ us))"
  shows "\<exists>l'. cl_add_all us l = Ok l' \<and> cl_ok l' \<and> cl_list l' = cl_list l @ us"
  using assms
proof (induction us arbitrary: l)
  case (Cons u us)
  obtain l1 where l1: "cl_add u l = Ok (ui_id u \<notin> ui_id ` set (cl_list l), l1)" "cl_ok l1" "cl_list l1 = spec_add u (cl_list l)"
    using cl_add_spec [OF Cons.prems(1)] by blast
  have "cl_list l1 = cl_list l @ [u]" using l1(3) Cons.prems(2) by (auto simp: spec_add_def)
  with Cons.IH [OF l1(2)] Cons.prems(2) obtain l' where "cl_add_all us l1 = Ok l'" "cl_ok l'" "cl_list l' = cl_list l @ u # us" by auto
  then show ?case using l1(1) by (simp del: bindO_Ok_iff)
qed simp

lemma contact_list_of_distinct:
  "distinct (map ui_id us) \<Longrightarrow> \<exists>l. contact_list_of us = Ok l \<and> cl_ok l \<and> cl_list l = us"
  using cl_add_all_new [OF contact_list_new_ok, of us] by (auto simp: contact_list_of_def contact_list_new_def cl_ok_def)

definition wf_local_user :: "cxx_lib \<Rightarrow> ('r, 'k) botan \<Rightarrow> 'k local_user \<Rightarrow> bool" where
  "wf_local_user L B lu \<longleftrightarrow> wf_user_info L B (lu_info lu) \<and> list_all (wf_user_info L B) (cl_list (lu_contacts lu)) \<and> cl_ok (lu_contacts lu) \<and>
     list_all (wf_greeter L) (lu_greeters lu) \<and> list_all (wf_introduction L B) (lu_introductions lu) \<and>
     pv_encrypted (lu_prv_key lu) \<noteq> [] \<and> fits L (pv_encrypted (lu_prv_key lu))"

text \<open>What the files of a home directory hold after \<^verbatim>\<open>save_user\<close>.\<close>

definition user_files :: "cxx_lib \<Rightarrow> fs_lib \<Rightarrow> string \<Rightarrow> 'k local_user \<Rightarrow> dict \<Rightarrow> array \<Rightarrow> array \<Rightarrow> files \<Rightarrow> bool" where
  "user_files L F home lu d ca ia fs \<longleftrightarrow>
     fs (local_user_file F home) = Some (encode_dict L d) \<and>
     fs (private_key_file F home) = Some (encode_value L (value_of_string (pv_encrypted (lu_prv_key lu)))) \<and>
     fs (contacts_file F home) = Some (encode_array L ca) \<and>
     fs (greeters_file F home) = Some (encode_array L (map (VDict \<circ> from_greet_server) (lu_greeters lu))) \<and>
     fs (introductions_file F home) = Some (encode_array L ia)"

lemmas file_names = local_user_file_def private_key_file_def contacts_file_def greeters_file_def introductions_file_def

lemma save_user_files:
  assumes w: "\<And>f. fl_writable F f" and inj: "inj (fl_join F home)"
    and new: "case fs (private_key_file F home) of None \<Rightarrow> k = lu_prv_key lu | Some b \<Rightarrow> encode_private_key L k = Ok b"
    and d: "from_user_info (lu_info lu) = Ok d" and ca: "users_to_array (cl_list (lu_contacts lu)) = Ok ca"
    and ia: "introductions_to_array (lu_introductions lu) = Ok ia" and k: "pv_encrypted k \<noteq> []"
  shows "\<exists>fs'. save_user L F home lu fs = Ok fs' \<and> user_files L F home (lu\<lparr>lu_prv_key := k\<rparr>) d ca ia fs'"
proof -
  have j: "fl_join F home a = fl_join F home b \<longleftrightarrow> a = b" for a b using inj by (auto dest: injD)
  show ?thesis
    using w new d ca ia k
    by (cases "fs (private_key_file F home)") (simp_all add: save_user_def save_to_file_def user_files_def file_names j encode_private_key_def del: bindO_Ok_iff)
qed

context lexical_cast
begin

lemma read_value_whole: "wf_value L v \<Longrightarrow> read_value L (stream_of (encode_value L v)) = Ok (v, st [])"
  using read_value_encode [of v "[]"] by (simp add: stream_of_def)

lemma read_array_whole: "wf_value L (VArray a) \<Longrightarrow> read_array L (stream_of (encode_array L a)) = Ok (a, st [])"
  using read_array_encode [of a "[]"] by (simp add: stream_of_def)

lemma read_dict_whole: "wf_value L (VDict d) \<Longrightarrow> read_dict L (stream_of (encode_dict L d)) = Ok (d, st [])"
  using read_dict_encode [of d "[]"] by (simp add: stream_of_def)

lemma load_user_files:
  assumes f: "user_files L F home lu d ca ia fs" and wf: "wf_local_user L B lu"
    and d: "to_user_info B d = Ok (lu_info lu)" "wf_value L (VDict d)"
    and ca: "array_to_users B ca = Ok (cl_list (lu_contacts lu))" "wf_value L (VArray ca)"
    and ia: "array_to_list (\<lambda>v. bindO (as_dict v) (to_introduction B)) ia = Ok (lu_introductions lu)" "wf_value L (VArray ia)"
    and k: "private_key_load B (pv_encrypted (lu_prv_key lu)) pass g = Ok (lu_prv_key lu, g1)"
  shows "\<exists>l. load_user L B F home pass g fs = Ok (Some (lu\<lparr>lu_contacts := l\<rparr>), g1) \<and> cl_ok l \<and> cl_list l = cl_list (lu_contacts lu)"
proof -
  have gs: "array_to_list to_greet_server (map (VDict \<circ> from_greet_server) (lu_greeters lu)) = Ok (lu_greeters lu)"
      "wf_value L (VArray (map (VDict \<circ> from_greet_server) (lu_greeters lu)))"
    using greeters_array [of L "lu_greeters lu"] wf by (simp_all add: wf_local_user_def del: wf_value.simps)
  obtain l where l: "contact_list_of (cl_list (lu_contacts lu)) = Ok l" "cl_ok l" "cl_list l = cl_list (lu_contacts lu)"
    using contact_list_of_distinct [of "cl_list (lu_contacts lu)"] wf by (auto simp: wf_local_user_def cl_ok_def)
  have kv: "read_value L (stream_of (encode_value L (value_of_string (pv_encrypted (lu_prv_key lu))))) = Ok (VBytes (pv_encrypted (lu_prv_key lu)), st [])"
    using read_value_whole [of "VBytes (pv_encrypted (lu_prv_key lu))"] wf by (simp add: value_of_string_def to_bytes_def wf_local_user_def fits_def)
  have "load_user L B F home pass g fs = Ok (Some (lu\<lparr>lu_contacts := l\<rparr>), g1)"
    using f d(1) ca(1) ia(1) k gs(1) l(1) kv read_dict_whole [OF d(2)] read_array_whole [OF ca(2)] read_array_whole [OF ia(2)] read_array_whole [OF gs(2)]
    by (simp add: load_user_def load_from_file_def user_files_def read_user_info_def read_users_def read_greeters_def read_introductions_def
        decode_private_key_def to_str_def del: bindO_Ok_iff)
  with l show ?thesis by blast
qed

end

text \<open>
  C16. A saved user is loaded back, also when the home directory already holds what an earlier save wrote: after \<^verbatim>\<open>save_user\<close>, \<^verbatim>\<open>load_user\<close> with the passphrase of the key
  on file gives the same information, contacts in the same order, greeters and introductions, and the key on file.  That key is the user's when there was no key
  file, and stays whatever key was there: \<^verbatim>\<open>save_user\<close> never writes over a key.
\<close>

theorem user_saved_loaded:
  assumes "lexical_cast L" "wf_local_user L B (lu\<lparr>lu_prv_key := k\<rparr>)" "\<And>f. fl_writable F f" "inj (fl_join F home)"
    "case fs (private_key_file F home) of None \<Rightarrow> k = lu_prv_key lu | Some b \<Rightarrow> encode_private_key L k = Ok b"
    "private_key_load B (pv_encrypted k) pass g = Ok (k, g1)"
  shows "\<exists>fs' l. save_user L F home lu fs = Ok fs' \<and> load_user L B F home pass g fs' = Ok (Some (lu\<lparr>lu_prv_key := k, lu_contacts := l\<rparr>), g1) \<and>
     cl_ok l \<and> cl_list l = cl_list (lu_contacts lu)"
proof -
  let ?lu = "lu\<lparr>lu_prv_key := k\<rparr>"
  have wf: "wf_user_info L B (lu_info lu)" "list_all (wf_user_info L B) (cl_list (lu_contacts lu))" "list_all (wf_introduction L B) (lu_introductions lu)"
      "pv_encrypted k \<noteq> []"
    using assms(2) by (simp_all add: wf_local_user_def)
  obtain d where d: "from_user_info (lu_info lu) = Ok d" "to_user_info B d = Ok (lu_info ?lu)" "wf_value L (VDict d)"
    using user_info_dict [OF wf(1)] by auto
  obtain ca where ca: "users_to_array (cl_list (lu_contacts lu)) = Ok ca" "array_to_users B ca = Ok (cl_list (lu_contacts ?lu))" "wf_value L (VArray ca)"
    using users_array [OF wf(2)] by auto
  obtain ia where ia: "introductions_to_array (lu_introductions lu) = Ok ia"
      "array_to_list (\<lambda>v. bindO (as_dict v) (to_introduction B)) ia = Ok (lu_introductions ?lu)" "wf_value L (VArray ia)"
    using introductions_array [OF wf(3)] by auto
  have key: "private_key_load B (pv_encrypted (lu_prv_key ?lu)) pass g = Ok (lu_prv_key ?lu, g1)" using assms(6) by simp
  obtain fs' where fs': "save_user L F home lu fs = Ok fs'" "user_files L F home ?lu d ca ia fs'"
    using save_user_files [where F = F and home = home and fs = fs, OF assms(3, 4, 5) d(1) ca(1) ia(1) wf(4)] by blast
  show ?thesis
    using fs' lexical_cast.load_user_files [OF assms(1) fs'(2) assms(2) d(2, 3) ca(2, 3) ia(2, 3) key] by auto
qed

definition sample_info :: "nat \<Rightarrow> string \<Rightarrow> nat user_info" where
  "sample_info k name = \<lparr>ui_addresses = [''udp://a:1'', ''udp://b:2''], ui_name = name, ui_id = name, ui_pkey = \<lparr>pu_ks = replicate (Suc k) CHR ''k'', pu_k = Some k\<rparr>\<rparr>"

definition sample_user :: "nat local_user" where
  "sample_user = \<lparr>lu_info = sample_info 0 ''me'', lu_contacts = \<lparr>cl_list = [sample_info 1 ''you''], cl_map = [(''you'', 0)]\<rparr>,
     lu_greeters = [\<lparr>gs_host = ''h'', gs_port = 7070, gs_key = ''k''\<rparr>], lu_introductions = [],
     lu_prv_key = \<lparr>pv_k = 0, pv_encrypted = ''p'', pv_public = ''k''\<rparr>\<rparr>"

definition sample_fs :: fs_lib where
  "sample_fs = \<lparr>fl_join = (\<lambda>a b. a @ CHR ''/'' # b), fl_writable = (\<lambda>_. True)\<rparr>"

theorem user_saved_loaded_witness:
  "\<exists>fs' l. save_user decimal_lib sample_fs ''home'' sample_user [private_key_file sample_fs ''home'' \<mapsto> encode_value decimal_lib (VBytes ''p'')] = Ok fs' \<and>
     load_user decimal_lib model_botan sample_fs ''home'' ''pw'' None fs' = Ok (Some (sample_user\<lparr>lu_prv_key := lu_prv_key sample_user, lu_contacts := l\<rparr>), Some 0) \<and>
     cl_ok l \<and> cl_list l = cl_list (lu_contacts sample_user)"
proof (rule user_saved_loaded [OF dec.lexical_cast_axioms])
  show "wf_local_user decimal_lib model_botan (sample_user\<lparr>lu_prv_key := lu_prv_key sample_user\<rparr>)"
    by (auto simp: wf_local_user_def sample_user_def sample_info_def wf_user_info_def wf_greeter_def fits_def decimal_lib_def public_key_ok_def model_botan_def cl_ok_def)
  show "private_key_load model_botan (pv_encrypted (lu_prv_key sample_user)) ''pw'' None = Ok (lu_prv_key sample_user, Some 0)"
    by (simp add: private_key_load_def sample_user_def model_botan_def validate_passphrase_def init_rng_def)
  show "case [private_key_file sample_fs ''home'' \<mapsto> encode_value decimal_lib (VBytes ''p'')] (private_key_file sample_fs ''home'') of
      None \<Rightarrow> lu_prv_key sample_user = lu_prv_key sample_user | Some b \<Rightarrow> encode_private_key decimal_lib (lu_prv_key sample_user) = Ok b"
    by (simp add: encode_private_key_def sample_user_def value_of_string_def to_bytes_def)
qed (simp_all add: sample_fs_def inj_def)

end
