(* ===== verification/Udp_Wire.thy ===== *)
theory Udp_Wire
  imports Fire_Prelude
begin

text \<open>
  The datagram format of \<^verbatim>\<open>src/src/network/udp_queue.cpp\<close>: big-endian fields, the 13-byte header with
  mark, sequence number, chunk total and chunk number, the split of a message into chunks, and
  \<^verbatim>\<open>insert_chunk\<close>, which puts received chunks together again.
\<close>

unbundle bit_operations_syntax

section \<open>Constants\<close>

definition MAX_FLIGHT :: nat where "MAX_FLIGHT = 4"
definition RESEND_TICK_THRESHOLD :: nat where "RESEND_TICK_THRESHOLD = 1"
definition RESEND_THRESHOLD :: nat where "RESEND_THRESHOLD = 5"
definition UDP_PACKET_SIZE :: nat where "UDP_PACKET_SIZE = 512"
definition MAX_UDP_BUFF_SIZE :: nat where "MAX_UDP_BUFF_SIZE = UDP_PACKET_SIZE * 2"
definition SEQUENCE_BASE :: nat where "SEQUENCE_BASE = 1"
definition CHUNK_TOTAL_BASE :: nat where "CHUNK_TOTAL_BASE = SEQUENCE_BASE + 8"
definition CHUNK_BASE :: nat where "CHUNK_BASE = CHUNK_TOTAL_BASE + 2"
definition MESSAGE_BASE :: nat where "MESSAGE_BASE = CHUNK_BASE + 2"
definition HEADER_SIZE :: nat where "HEADER_SIZE = MESSAGE_BASE"
definition UDP_CHuNK_SIZE :: nat where "UDP_CHuNK_SIZE = UDP_PACKET_SIZE - HEADER_SIZE"
definition MAX_CHUNKS :: nat where "MAX_CHUNKS = 2 ^ 16"
definition MAX_MESSAGE_SIZE :: nat where "MAX_MESSAGE_SIZE = MAX_CHUNKS * UDP_CHuNK_SIZE"

lemmas udp_layout = SEQUENCE_BASE_def CHUNK_TOTAL_BASE_def CHUNK_BASE_def MESSAGE_BASE_def
  HEADER_SIZE_def UDP_CHuNK_SIZE_def UDP_PACKET_SIZE_def MAX_UDP_BUFF_SIZE_def MAX_CHUNKS_def
  MAX_MESSAGE_SIZE_def

section \<open>Messages and chunks\<close>

record endpoint =
  ep_protocol :: string
  ep_address :: string
  ep_port :: u16

record endpoint_message =
  em_ep :: endpoint
  em_data :: bytes
  em_robust :: bool

datatype msg_type = qmsg | msg | ack

text \<open>
  \<open>ch_write\<close> stands for the pair \<^verbatim>\<open>write_data\<close>, \<^verbatim>\<open>write_size\<close>: the bytes the pointer ranges over,
  \<open>None\<close> for the null pointer with size 0.
\<close>

record message_chunk =
  ch_valid :: bool
  ch_host :: string
  ch_port :: u16
  ch_sequence :: u64
  ch_total :: u16
  ch_chunk :: u16
  ch_data :: bytes
  ch_resent :: bool
  ch_type :: msg_type
  ch_write :: "bytes option"

definition chunk_default :: message_chunk where
  "chunk_default = \<lparr>ch_valid = False, ch_host = [], ch_port = 0, ch_sequence = 0, ch_total = 0,
     ch_chunk = 0, ch_data = [], ch_resent = False, ch_type = qmsg, ch_write = None\<rparr>"

section \<open>Big-endian fields\<close>

text \<open>
  The guard \<^verbatim>\<open>REQUIRE_GREATER_EQUAL(b.size() - offset, n)\<close> is an unsigned comparison: an offset past the
  end wraps to a huge number, passes, and the store is out of bounds.
\<close>

definition be_room :: "bytes \<Rightarrow> nat \<Rightarrow> nat \<Rightarrow> 'a outcome \<Rightarrow> 'a outcome" where
  "be_room b offset n k = (if offset \<le> length b then contract (length b - offset \<ge> n) k else Undef)"

definition byte_of :: "nat \<Rightarrow> u64 \<Rightarrow> char" where
  "byte_of s v = char_of (unat (drop_bit s v AND 0xFF))"

definition word_at :: "bytes \<Rightarrow> nat \<Rightarrow> u64" where
  "word_at b i = of_nat (of_char (b ! i))"

definition write_be_u64 :: "bytes \<Rightarrow> nat \<Rightarrow> u64 \<Rightarrow> bytes outcome" where
  "write_be_u64 b offset v =
     be_room b offset 8
       (Ok (b[offset := byte_of 56 v, offset + 1 := byte_of 48 v, offset + 2 := byte_of 40 v,
              offset + 3 := byte_of 32 v, offset + 4 := byte_of 24 v, offset + 5 := byte_of 16 v,
              offset + 6 := byte_of 8 v, offset + 7 := byte_of 0 v]))"

definition write_be_u32 :: "bytes \<Rightarrow> nat \<Rightarrow> u32 \<Rightarrow> bytes outcome" where
  "write_be_u32 b offset v =
     be_room b offset 4
       (Ok (b[offset := byte_of 24 (ucast v), offset + 1 := byte_of 16 (ucast v),
              offset + 2 := byte_of 8 (ucast v), offset + 3 := byte_of 0 (ucast v)]))"

definition write_be_u16 :: "bytes \<Rightarrow> nat \<Rightarrow> u16 \<Rightarrow> bytes outcome" where
  "write_be_u16 b offset v =
     be_room b offset 2 (Ok (b[offset := byte_of 8 (ucast v), offset + 1 := byte_of 0 (ucast v)]))"

definition read_be_u64 :: "bytes \<Rightarrow> nat \<Rightarrow> u64 outcome" where
  "read_be_u64 b offset =
     be_room b offset 8
       (Ok (push_bit 56 (word_at b offset) OR push_bit 48 (word_at b (offset + 1)) OR
            push_bit 40 (word_at b (offset + 2)) OR push_bit 32 (word_at b (offset + 3)) OR
            push_bit 24 (word_at b (offset + 4)) OR push_bit 16 (word_at b (offset + 5)) OR
            push_bit 8 (word_at b (offset + 6)) OR word_at b (offset + 7)))"

definition read_be_u32 :: "bytes \<Rightarrow> nat \<Rightarrow> u32 outcome" where
  "read_be_u32 b offset =
     be_room b offset 4
       (Ok (ucast (push_bit 24 (word_at b offset) OR push_bit 16 (word_at b (offset + 1)) OR
                   push_bit 8 (word_at b (offset + 2)) OR word_at b (offset + 3))))"

definition read_be_u16 :: "bytes \<Rightarrow> nat \<Rightarrow> u16 outcome" where
  "read_be_u16 b offset =
     be_room b offset 2
       (Ok (ucast (push_bit 8 (word_at b offset) OR word_at b (offset + 1))))"

section \<open>The wire format\<close>

fun mark_of :: "msg_type \<Rightarrow> char" where
  "mark_of msg = CHR ''!''"
| "mark_of qmsg = CHR ''=''"
| "mark_of ack = CHR ''@''"

definition write_bytes :: "message_chunk \<Rightarrow> bytes" where
  "write_bytes ch = (case ch_write ch of None \<Rightarrow> [] | Some w \<Rightarrow> w)"

text \<open>
  \<open>r\<close> is the reused output buffer; \<^verbatim>\<open>resize\<close> keeps its old bytes and fills up with zeros, and every
  byte is overwritten afterwards.
\<close>

definition vec_resize :: "nat \<Rightarrow> bytes \<Rightarrow> bytes" where
  "vec_resize n b = take n b @ replicate (n - length b) (CHR 0x00)"

definition vec_copy :: "bytes \<Rightarrow> nat \<Rightarrow> bytes \<Rightarrow> bytes outcome" where
  "vec_copy src at dst =
     (if at + length src \<le> length dst then Ok (take at dst @ src @ drop (at + length src) dst) else Undef)"

definition encode_udp_wire :: "bytes \<Rightarrow> message_chunk \<Rightarrow> bytes outcome" where
  "encode_udp_wire r ch =
     (let r0 = vec_resize (HEADER_SIZE + length (write_bytes ch)) r;
          r1 = r0[0 := mark_of (ch_type ch)] in
      bindO (write_be_u64 r1 SEQUENCE_BASE (ch_sequence ch)) (\<lambda>r2.
      bindO (write_be_u16 r2 CHUNK_TOTAL_BASE (ch_total ch)) (\<lambda>r3.
      bindO (write_be_u16 r3 CHUNK_BASE (ch_chunk ch)) (\<lambda>r4.
        vec_copy (write_bytes ch) MESSAGE_BASE r4))))"

fun type_of_mark :: "char \<Rightarrow> msg_type option" where
  "type_of_mark c =
     (if c = CHR ''!'' then Some msg else if c = CHR ''='' then Some qmsg
      else if c = CHR ''@'' then Some ack else None)"

definition decode_udp_wire :: "bytes \<Rightarrow> message_chunk outcome" where
  "decode_udp_wire b =
     contract (length b \<ge> HEADER_SIZE)
       (case type_of_mark (b ! 0) of
          None \<Rightarrow> Ok chunk_default
        | Some t \<Rightarrow>
            (let ch0 = chunk_default\<lparr>ch_type := t\<rparr> in
             if length b < SEQUENCE_BASE + 8 then Ok ch0
             else bindO (read_be_u64 b SEQUENCE_BASE) (\<lambda>s.
               let ch1 = ch0\<lparr>ch_sequence := s\<rparr> in
               if length b < CHUNK_TOTAL_BASE + 2 then Ok ch1
               else bindO (read_be_u16 b CHUNK_TOTAL_BASE) (\<lambda>t.
                 let ch2 = ch1\<lparr>ch_total := t\<rparr> in
                 contract (unat t \<le> MAX_CHUNKS)
                   (if length b < CHUNK_BASE + 2 then Ok ch2
                    else bindO (read_be_u16 b CHUNK_BASE) (\<lambda>n.
                      let ch3 = ch2\<lparr>ch_chunk := n\<rparr>; data_size = length b - HEADER_SIZE in
                      contract (length b \<ge> HEADER_SIZE)
                        (if data_size > 0 then
                           (if data_size > MAX_UDP_BUFF_SIZE then Ok ch3
                            else Ok (ch3\<lparr>ch_data := drop MESSAGE_BASE b, ch_valid := True\<rparr>))
                         else Ok (ch3\<lparr>ch_valid := True\<rparr>))))))))"

section \<open>Splitting a message\<close>

definition total_chunks :: "nat \<Rightarrow> u16 outcome" where
  "total_chunks data_size =
     contract (data_size > 0)
       (let r = of_nat (data_size div UDP_CHuNK_SIZE) :: u16;
            r' = (if data_size mod UDP_CHuNK_SIZE \<noteq> 0 then r + 1 else r)
        in contract (r' > 0) (Ok r'))"

definition create_prototype :: "u64 \<Rightarrow> endpoint_message \<Rightarrow> message_chunk outcome" where
  "create_prototype sequence m =
     bindO (total_chunks (length (em_data m))) (\<lambda>t.
       Ok (chunk_default\<lparr>ch_valid := True, ch_type := (if em_robust m then msg else qmsg),
             ch_host := ep_address (em_ep m), ch_port := ep_port (em_ep m), ch_sequence := sequence,
             ch_total := t, ch_chunk := 0\<rparr>))"

text \<open>
  \<^verbatim>\<open>end - start\<close> is unsigned: a chunk that starts past the end of the data would wrap, and the
  range would leave the data.
\<close>

definition nth_chunk :: "nat \<Rightarrow> message_chunk \<Rightarrow> bytes \<Rightarrow> message_chunk outcome" where
  "nth_chunk n prototype data =
     contract (n < unat (ch_total prototype))
       (let start = n * UDP_CHuNK_SIZE; end = min (length data) (start + UDP_CHuNK_SIZE) in
        if end < start then Undef
        else contract (end - start > 0)
          (Ok (prototype\<lparr>ch_chunk := of_nat n, ch_write := Some (take (end - start) (drop start data))\<rparr>)))"

section \<open>Reassembly\<close>

record working_message =
  wm_proto :: message_chunk
  wm_data :: bytes
  wm_set :: "bool list"
  wm_sent :: "bool list"
  wm_ticks :: nat
  wm_in_flight :: nat
  wm_queued :: nat
  wm_next_send :: nat

definition wm_default :: working_message where
  "wm_default = \<lparr>wm_proto = chunk_default, wm_data = [], wm_set = [], wm_sent = [], wm_ticks = 0,
     wm_in_flight = 0, wm_queued = 0, wm_next_send = 0\<rparr>"

type_synonym working_messages = "(u64 \<times> working_message) list"

definition wm_at :: "working_messages \<Rightarrow> u64 \<Rightarrow> working_message" where
  "wm_at w s = (case map_of w s of None \<Rightarrow> wm_default | Some wm \<Rightarrow> wm)"

text \<open>
  \<^verbatim>\<open>insert_chunk(c, w, complete)\<close>: the result is the completed message, if there is one, and the
  working set.  The working set is keyed by the sequence number alone.  \<^verbatim>\<open>data.size() - extra\<close> with
  \<^verbatim>\<open>extra = UDP_CHuNK_SIZE - c.data.size()\<close> in unsigned arithmetic is
  \<open>length data + length (ch_data c) - UDP_CHuNK_SIZE\<close> for any size of the last chunk.
\<close>

definition wm_prepare :: "message_chunk \<Rightarrow> working_message \<Rightarrow> working_message option" where
  "wm_prepare c wm =
     (if ch_total (wm_proto wm) = 0
      then (let total = unat (ch_total c); max_size = total * UDP_CHuNK_SIZE in
            if max_size > MAX_MESSAGE_SIZE then None
            else Some (wm\<lparr>wm_proto := c\<lparr>ch_data := []\<rparr>, wm_data := vec_resize max_size (wm_data wm),
                         wm_set := take total (wm_set wm) @ replicate (total - length (wm_set wm)) False\<rparr>))
      else Some wm)"

definition place_chunk :: "message_chunk \<Rightarrow> working_message \<Rightarrow> working_messages
    \<Rightarrow> (bytes option \<times> working_messages) outcome" where
  "place_chunk c wm w =
     (let n = unat (ch_chunk c); wt = unat (ch_total (wm_proto wm)) in
      contract (wt > 0)
      (if n \<ge> wt then Ok (None, w)
       else if unat (ch_total c) \<noteq> wt then Ok (None, w)
       else if wm_set wm ! n then Ok (None, w)
       else if n \<noteq> wt - 1 \<and> length (ch_data c) \<noteq> UDP_CHuNK_SIZE then Ok (None, w)
       else
        (let data = (if n = wt - 1
                     then vec_resize (length (wm_data wm) + length (ch_data c) - UDP_CHuNK_SIZE) (wm_data wm)
                     else wm_data wm) in
         bindO (vec_copy (ch_data c) (n * UDP_CHuNK_SIZE) data) (\<lambda>data'.
           let wm' = wm\<lparr>wm_data := data', wm_set := (wm_set wm)[n := True]\<rparr> in
           if bit_count (wm_set wm') \<noteq> wt then Ok (None, alist_put (ch_sequence c) wm' w)
           else Ok (Some data', alist_del (ch_sequence c) w)))))"

definition insert_chunk :: "message_chunk \<Rightarrow> working_messages \<Rightarrow> (bytes option \<times> working_messages) outcome" where
  "insert_chunk c w =
     contract (ch_type c = msg \<or> ch_type c = qmsg)
     (if ch_total c = 0 then Ok (None, w)
      else
       (let wm0 = wm_at w (ch_sequence c) in
        case wm_prepare c wm0 of
          None \<Rightarrow> Ok (None, alist_put (ch_sequence c) wm0 w)
        | Some wm \<Rightarrow> place_chunk c wm (alist_put (ch_sequence c) wm w)))"

section \<open>Byte order\<close>

lemma mask8: "(0xFF :: u64) = mask 8"
  by (simp add: mask_eq_exp_minus_1)

lemma of_char_byte_of: "(of_nat (of_char (byte_of s v)) :: u64) = take_bit 8 (drop_bit s v)"
proof -
  have t: "drop_bit s v AND 0xFF = take_bit 8 (drop_bit s v)"
    unfolding mask8 by (simp add: take_bit_eq_mask)
  have lt: "unat (take_bit 8 (drop_bit s v)) < 256"
    using take_bit_nat_less_exp [of 8 "unat (drop_bit s v)"] by (simp add: unsigned_take_bit_eq)
  then show ?thesis by (simp add: byte_of_def t)
qed

lemma be_join_step: "push_bit k (take_bit 8 (drop_bit k v)) OR take_bit k v = take_bit (k + 8) (v :: u64)"
  by (rule bit_word_eqI) (auto simp: bit_simps)

lemma be64_join:
  "push_bit 56 (take_bit 8 (drop_bit 56 v)) OR push_bit 48 (take_bit 8 (drop_bit 48 v)) OR
   push_bit 40 (take_bit 8 (drop_bit 40 v)) OR push_bit 32 (take_bit 8 (drop_bit 32 v)) OR
   push_bit 24 (take_bit 8 (drop_bit 24 v)) OR push_bit 16 (take_bit 8 (drop_bit 16 v)) OR
   push_bit 8 (take_bit 8 (drop_bit 8 v)) OR take_bit 8 (drop_bit 0 v) = (v :: u64)"
  using be_join_step [of 8 v] be_join_step [of 16 v] be_join_step [of 24 v] be_join_step [of 32 v]
    be_join_step [of 40 v] be_join_step [of 48 v] be_join_step [of 56 v]
  by (simp add: take_bit_word_eq_self)

lemma be16_join:
  "ucast (push_bit 8 (take_bit 8 (drop_bit 8 (ucast v :: u64))) OR take_bit 8 (drop_bit 0 (ucast v :: u64))) = (v :: u16)"
proof (rule bit_word_eqI)
  fix n :: nat assume "n < LENGTH(16)"
  then have n: "n < 16" by simp
  then have "n < 8 \<or> 8 \<le> n" by arith
  with n show "bit (ucast (push_bit 8 (take_bit 8 (drop_bit 8 (ucast v :: u64))) OR
      take_bit 8 (drop_bit 0 (ucast v :: u64))) :: u16) n = bit v n"
    by (auto simp: bit_simps)
qed

lemma be32_join:
  "ucast (push_bit 24 (take_bit 8 (drop_bit 24 (ucast v :: u64))) OR push_bit 16 (take_bit 8 (drop_bit 16 (ucast v :: u64))) OR
     push_bit 8 (take_bit 8 (drop_bit 8 (ucast v :: u64))) OR take_bit 8 (drop_bit 0 (ucast v :: u64))) = (v :: u32)"
proof (rule bit_word_eqI)
  fix n :: nat assume "n < LENGTH(32)"
  then have n: "n < 32" by simp
  then have "n < 8 \<or> 8 \<le> n \<and> n < 16 \<or> 16 \<le> n \<and> n < 24 \<or> 24 \<le> n" by arith
  with n show "bit (ucast (push_bit 24 (take_bit 8 (drop_bit 24 (ucast v :: u64))) OR
     push_bit 16 (take_bit 8 (drop_bit 16 (ucast v :: u64))) OR
     push_bit 8 (take_bit 8 (drop_bit 8 (ucast v :: u64))) OR take_bit 8 (drop_bit 0 (ucast v :: u64))) :: u32) n = bit v n"
    by (auto simp: bit_simps)
qed

lemma be_roundtrip_u64:
  assumes "offset + 8 \<le> length b"
  shows "bindO (write_be_u64 b offset v) (\<lambda>b'. read_be_u64 b' offset) = Ok v"
  using assms be64_join [of v]
  by (simp add: write_be_u64_def read_be_u64_def be_room_def word_at_def of_char_byte_of nth_list_update)

lemma be_roundtrip_u32:
  assumes "offset + 4 \<le> length b"
  shows "bindO (write_be_u32 b offset v) (\<lambda>b'. read_be_u32 b' offset) = Ok v"
  using assms be32_join [of v]
  by (simp add: write_be_u32_def read_be_u32_def be_room_def word_at_def of_char_byte_of nth_list_update)

lemma be_roundtrip_u16:
  assumes "offset + 2 \<le> length b"
  shows "bindO (write_be_u16 b offset v) (\<lambda>b'. read_be_u16 b' offset) = Ok v"
  using assms be16_join [of v]
  by (simp add: write_be_u16_def read_be_u16_def be_room_def word_at_def of_char_byte_of nth_list_update)

definition wire_header :: "message_chunk \<Rightarrow> bytes" where
  "wire_header ch =
     [mark_of (ch_type ch),
      byte_of 56 (ch_sequence ch), byte_of 48 (ch_sequence ch), byte_of 40 (ch_sequence ch),
      byte_of 32 (ch_sequence ch), byte_of 24 (ch_sequence ch), byte_of 16 (ch_sequence ch),
      byte_of 8 (ch_sequence ch), byte_of 0 (ch_sequence ch),
      byte_of 8 (ucast (ch_total ch)), byte_of 0 (ucast (ch_total ch)),
      byte_of 8 (ucast (ch_chunk ch)), byte_of 0 (ucast (ch_chunk ch))]"

lemma length_wire_header [simp]: "length (wire_header ch) = 13"
  by (simp add: wire_header_def)

lemma length_vec_resize [simp]: "length (vec_resize n b) = n"
  by (simp add: vec_resize_def)

lemma split13:
  assumes "length r = 13 + n"
  obtains x0 x1 x2 x3 x4 x5 x6 x7 x8 x9 x10 x11 x12 rest
  where "r = x0 # x1 # x2 # x3 # x4 # x5 # x6 # x7 # x8 # x9 # x10 # x11 # x12 # rest" "length rest = n"
proof -
  have "length r = Suc (Suc (Suc (Suc (Suc (Suc (Suc (Suc (Suc (Suc (Suc (Suc (Suc n))))))))))))"
    using assms by simp
  then show ?thesis using that by (auto simp only: length_Suc_conv)
qed

lemma encode_udp_wire_eq: "encode_udp_wire r ch = Ok (wire_header ch @ write_bytes ch)"
proof -
  have "length (vec_resize (HEADER_SIZE + length (write_bytes ch)) r) = 13 + length (write_bytes ch)"
    by (simp add: udp_layout)
  then obtain x0 x1 x2 x3 x4 x5 x6 x7 x8 x9 x10 x11 x12 rest where
    r: "vec_resize (HEADER_SIZE + length (write_bytes ch)) r
      = x0 # x1 # x2 # x3 # x4 # x5 # x6 # x7 # x8 # x9 # x10 # x11 # x12 # rest"
    and rest: "length rest = length (write_bytes ch)" by (rule split13)
  show ?thesis
    unfolding encode_udp_wire_def r Let_def using rest
    by (simp add: write_be_u64_def write_be_u16_def be_room_def vec_copy_def udp_layout wire_header_def
        del: bindO_Ok_iff)
qed

lemma type_of_mark_of [simp]: "type_of_mark (mark_of t) = Some t"
  by (cases t) auto

lemma decode_udp_wire_header:
  assumes "length p \<le> MAX_UDP_BUFF_SIZE"
  shows "decode_udp_wire (wire_header ch @ p) =
    Ok (chunk_default\<lparr>ch_type := ch_type ch, ch_sequence := ch_sequence ch, ch_total := ch_total ch,
          ch_chunk := ch_chunk ch, ch_data := p, ch_valid := True\<rparr>)"
proof -
  let ?b = "wire_header ch @ p"
  have s: "read_be_u64 ?b SEQUENCE_BASE = Ok (ch_sequence ch)"
    using be64_join [of "ch_sequence ch"]
    by (simp add: read_be_u64_def be_room_def udp_layout word_at_def wire_header_def of_char_byte_of)
  have t: "read_be_u16 ?b CHUNK_TOTAL_BASE = Ok (ch_total ch)"
    using be16_join [of "ch_total ch"]
    by (simp add: read_be_u16_def be_room_def udp_layout word_at_def wire_header_def of_char_byte_of)
  have n: "read_be_u16 ?b CHUNK_BASE = Ok (ch_chunk ch)"
    using be16_join [of "ch_chunk ch"]
    by (simp add: read_be_u16_def be_room_def udp_layout word_at_def wire_header_def of_char_byte_of)
  have m: "type_of_mark (?b ! 0) = Some (ch_type ch)"
    by (simp add: wire_header_def del: type_of_mark.simps)
  have tot: "unat (ch_total ch) \<le> MAX_CHUNKS"
    using unsigned_less [of "ch_total ch", where ?'a = nat] by (simp add: MAX_CHUNKS_def)
  have drop: "drop MESSAGE_BASE ?b = p" by (simp add: udp_layout)
  show ?thesis
    unfolding decode_udp_wire_def m using assms s t n tot drop
    by (simp add: udp_layout chunk_default_def Let_def del: bindO_Ok_iff)
qed

lemma decode_udp_wire_total:
  assumes "length b \<ge> HEADER_SIZE"
  shows "\<exists>ch. decode_udp_wire b = Ok ch"
proof -
  have tot: "unat (t :: u16) \<le> 65536" for t
    using unsigned_less [of t, where ?'a = nat] by simp
  show ?thesis
    using assms
    by (auto simp: decode_udp_wire_def read_be_u64_def read_be_u16_def be_room_def udp_layout Let_def
        tot split: option.splits)
qed

text \<open>
  A datagram survives the wire: decoding what \<^verbatim>\<open>encode_udp_wire\<close> produced, whatever was in the reused
  buffer, yields a valid chunk with the same type, sequence number, total, chunk number and payload,
  for payloads up to the receive buffer's size; the datagram is the payload plus 13 bytes of header.
\<close>

theorem udp_wire_roundtrip:
  assumes "length (write_bytes ch) \<le> MAX_UDP_BUFF_SIZE"
  shows "\<exists>b ch'. encode_udp_wire r ch = Ok b \<and> length b = HEADER_SIZE + length (write_bytes ch) \<and>
    decode_udp_wire b = Ok ch' \<and> ch_valid ch' \<and> ch_type ch' = ch_type ch \<and>
    ch_sequence ch' = ch_sequence ch \<and> ch_total ch' = ch_total ch \<and> ch_chunk ch' = ch_chunk ch \<and>
    ch_data ch' = write_bytes ch"
  using decode_udp_wire_header [OF assms, of ch] encode_udp_wire_eq [of r ch]
  by (auto simp: udp_layout)

theorem udp_wire_roundtrip_witness:
  "\<exists>b ch'. encode_udp_wire ''old'' (chunk_default\<lparr>ch_type := ack, ch_chunk := 7\<rparr>) = Ok b \<and> length b = 13 \<and>
    decode_udp_wire b = Ok ch' \<and> ch_chunk ch' = 7"
  using udp_wire_roundtrip [of "chunk_default\<lparr>ch_type := ack, ch_chunk := 7\<rparr>" "''old''"]
  by (auto simp: chunk_default_def write_bytes_def udp_layout)

section \<open>The number of chunks\<close>

lemma total_chunks_fits:
  assumes "0 < n" "n \<le> 65535 * UDP_CHuNK_SIZE"
  shows "\<exists>t. total_chunks n = Ok t \<and> unat t = (n + UDP_CHuNK_SIZE - 1) div UDP_CHuNK_SIZE"
proof -
  have d: "n div 499 < 65536" using assms by (simp add: udp_layout div_less_iff_less_mult) 
  have u: "unat (of_nat (n div 499) :: u16) = n div 499" using d by (simp add: unat_of_nat take_bit_nat_eq_self)
  show ?thesis
  proof (cases "n mod 499 = 0")
    case True
    then have "n = 499 * (n div 499)" using mult_div_mod_eq [of 499 n] by simp
    then have "(n + 498) div 499 = n div 499" using div_mult_self2 [of 499 498 "n div 499"] by simp
    moreover have "n div 499 > 0" using True assms(1) by (auto simp: div_greater_zero_iff intro: ccontr)
    ultimately show ?thesis using True u 
      by (simp add: total_chunks_def udp_layout assms Let_def word_less_nat_alt)
  next
    case False
    define r where "r = n mod 499 - 1"
    have r: "n + 498 = r + 499 * Suc (n div 499)" "r < 499"
      using mult_div_mod_eq [of 499 n] False mod_less_divisor [of 499 n] by (simp_all add: r_def)
    then have c: "(n + 498) div 499 = Suc (n div 499)"
      using div_mult_self2 [of 499 r "Suc (n div 499)"] by simp
    have "n \<noteq> 65535 * 499" using False by auto
    then have "n < 65535 * 499" using assms by (simp add: udp_layout)
    then have l: "Suc (n div 499) < 65536" using div_less_iff_less_mult [of 499 n 65535] by simp
    have "of_nat (n div 499) + 1 = (of_nat (Suc (n div 499)) :: u16)" by simp
    then have "unat (of_nat (n div 499) + 1 :: u16) = Suc (n div 499)"
      using l by (simp only: unat_of_nat) (simp add: take_bit_nat_eq_self)
    then show ?thesis using False c
      by (simp add: total_chunks_def udp_layout assms Let_def word_less_nat_alt)
  qed
qed

lemma total_chunks_wraps:
  assumes "65535 * UDP_CHuNK_SIZE < n" "n \<le> MAX_MESSAGE_SIZE"
  shows "total_chunks n = Exit"
proof -
  have w: "(65536 :: u16) = 0" by simp
  define k where "k = n - 65535 * 499"
  have k: "n = k + 65535 * 499" "0 < k" "k \<le> 499" using assms by (simp_all add: udp_layout k_def)
  have "n mod 499 = k mod 499" unfolding k(1) by (rule mod_mult_self1)
  moreover have "n div 499 = 65535 + k div 499" unfolding k(1) by (rule div_mult_self1) simp
  ultimately consider "n = 65536 * 499" | "n mod 499 \<noteq> 0 \<and> n div 499 = 65535"
    using k by (cases "k = 499") auto
  then show ?thesis
  proof cases
    case 1
    then show ?thesis by (simp add: total_chunks_def udp_layout)
  next
    case 2
    then show ?thesis using assms by (simp add: total_chunks_def udp_layout Let_def)
  qed
qed

section \<open>Chunks of a message\<close>

definition chunk_bytes :: "bytes \<Rightarrow> nat \<Rightarrow> bytes" where
  "chunk_bytes data n = take UDP_CHuNK_SIZE (drop (n * UDP_CHuNK_SIZE) data)"

definition splits_into :: "bytes \<Rightarrow> nat \<Rightarrow> bool" where
  "splits_into data t \<longleftrightarrow> t > 0 \<and> (t - 1) * UDP_CHuNK_SIZE < length data \<and> length data \<le> t * UDP_CHuNK_SIZE"

lemma splits_intoI:
  assumes "0 < length data" "t = (length data + UDP_CHuNK_SIZE - 1) div UDP_CHuNK_SIZE"
  shows "splits_into data t"
proof -
  let ?l = "length data"
  have e: "?l + 498 = 499 * t + (?l + 498) mod 499"
    using mult_div_mod_eq [of 499 "?l + 498", symmetric] assms(2) by (simp add: udp_layout add.commute)
  have m: "(?l + 498) mod 499 < 499" by simp
  have "t \<noteq> 0" using e m assms(1) by (cases "t = 0") linarith+
  then show ?thesis using e m by (cases t) (simp_all add: splits_into_def udp_layout)
qed

lemma splits_into_lt:
  assumes "splits_into data t" "n < t"
  shows "n * UDP_CHuNK_SIZE < length data"
proof -
  have "n * UDP_CHuNK_SIZE \<le> (t - 1) * UDP_CHuNK_SIZE" using assms(2) by (intro mult_le_mono1) simp
  moreover have "(t - 1) * UDP_CHuNK_SIZE < length data" using assms(1) by (simp add: splits_into_def)
  ultimately show ?thesis by (rule le_less_trans)
qed

lemma chunk_bytes_full:
  assumes "splits_into data t" "n < t" "n \<noteq> t - 1"
  shows "length (chunk_bytes data n) = UDP_CHuNK_SIZE"
proof -
  have "Suc n * UDP_CHuNK_SIZE \<le> (t - 1) * UDP_CHuNK_SIZE"
    using assms(2,3) by (intro mult_le_mono1) simp
  also have "\<dots> < length data" using assms(1) by (simp add: splits_into_def)
  finally show ?thesis by (simp add: chunk_bytes_def udp_layout)
qed

lemma chunk_bytes_last:
  assumes "splits_into data t"
  shows "length (chunk_bytes data (t - 1)) = length data - (t - 1) * UDP_CHuNK_SIZE"
  using assms by (cases t) (auto simp: chunk_bytes_def splits_into_def min_def)

lemma nth_chunk_eq:
  assumes "splits_into data (unat (ch_total p))" "n < unat (ch_total p)"
  shows "nth_chunk n p data = Ok (p\<lparr>ch_chunk := of_nat n, ch_write := Some (chunk_bytes data n)\<rparr>)"
  using splits_into_lt [OF assms] assms(2)
  by (auto simp: nth_chunk_def chunk_bytes_def Let_def min_def UDP_CHuNK_SIZE_def UDP_PACKET_SIZE_def HEADER_SIZE_def
      MESSAGE_BASE_def CHUNK_BASE_def CHUNK_TOTAL_BASE_def SEQUENCE_BASE_def)

lemma chunks_concat:
  "length data \<le> t * UDP_CHuNK_SIZE \<Longrightarrow> concat (map (chunk_bytes data) [0..<t]) = data"
proof -
  have "concat (map (chunk_bytes data) [0..<k]) = take (k * UDP_CHuNK_SIZE) data" for k
  proof (induction k)
    case (Suc k)
    then show ?case using take_add [of "k * UDP_CHuNK_SIZE" UDP_CHuNK_SIZE data]
      by (simp add: chunk_bytes_def add.commute)
  qed simp
  then show "length data \<le> t * UDP_CHuNK_SIZE \<Longrightarrow> ?thesis" by simp
qed

text \<open>
  Splitting: \<^verbatim>\<open>create_prototype\<close> and \<^verbatim>\<open>nth_chunk\<close> cut a nonempty message of at most 65535 full chunks
  into \<open>total\<close> chunks whose payloads, in order, concatenate to the message; each payload is between 1 and
  499 bytes, so that every datagram fits the 512-byte packet, and no access leaves the data.
\<close>

theorem split_message:
  assumes "0 < length (em_data m)" "length (em_data m) \<le> 65535 * UDP_CHuNK_SIZE"
  shows "\<exists>p. create_prototype s m = Ok p \<and> ch_sequence p = s \<and>
    (\<forall>n < unat (ch_total p). \<exists>c w. nth_chunk n p (em_data m) = Ok c \<and> ch_write c = Some w \<and>
        0 < length w \<and> HEADER_SIZE + length w \<le> UDP_PACKET_SIZE \<and> unat (ch_chunk c) = n) \<and>
    concat (map (\<lambda>n. case nth_chunk n p (em_data m) of Ok c \<Rightarrow> write_bytes c | _ \<Rightarrow> [])
      [0..<unat (ch_total p)]) = em_data m"
proof -
  obtain t where t: "total_chunks (length (em_data m)) = Ok t"
    "unat t = (length (em_data m) + UDP_CHuNK_SIZE - 1) div UDP_CHuNK_SIZE"
    using total_chunks_fits [OF assms] by blast
  have sp: "splits_into (em_data m) (unat t)" using splits_intoI [OF assms(1) t(2)] .
  let ?p = "chunk_default\<lparr>ch_valid := True, ch_type := (if em_robust m then msg else qmsg),
             ch_host := ep_address (em_ep m), ch_port := ep_port (em_ep m), ch_sequence := s,
             ch_total := t, ch_chunk := 0\<rparr>"
  have p: "create_prototype s m = Ok ?p" using t(1) by (simp add: create_prototype_def)
  have nth: "nth_chunk n ?p (em_data m) = Ok (?p\<lparr>ch_chunk := of_nat n, ch_write := Some (chunk_bytes (em_data m) n)\<rparr>)"
    if "n < unat t" for n
    using nth_chunk_eq [of "em_data m" ?p n] sp that by simp
  have pos: "0 < length (chunk_bytes (em_data m) n) \<and> length (chunk_bytes (em_data m) n) \<le> UDP_CHuNK_SIZE"
    if "n < unat t" for n
    using splits_into_lt [OF sp that] by (simp add: chunk_bytes_def udp_layout)
  have ch: "unat (of_nat n :: u16) = n" if "n < unat t" for n
    using that unsigned_less [of t, where ?'a = nat] by (simp add: unat_of_nat take_bit_nat_eq_self)
  have cat: "concat (map (\<lambda>n. case nth_chunk n ?p (em_data m) of Ok c \<Rightarrow> write_bytes c | _ \<Rightarrow> []) [0..<unat t]) = em_data m"
  proof -
    have "map (\<lambda>n. case nth_chunk n ?p (em_data m) of Ok c \<Rightarrow> write_bytes c | _ \<Rightarrow> []) [0..<unat t]
        = map (chunk_bytes (em_data m)) [0..<unat t]"
      by (rule map_cong [OF refl]) (simp add: nth write_bytes_def)
    with chunks_concat [of "em_data m" "unat t"] sp show ?thesis
      unfolding splits_into_def by (simp only:)
  qed
  have size: "HEADER_SIZE + UDP_CHuNK_SIZE = UDP_PACKET_SIZE" by (simp add: udp_layout)
  have "\<exists>c w. nth_chunk n ?p (em_data m) = Ok c \<and> ch_write c = Some w \<and>
        0 < length w \<and> HEADER_SIZE + length w \<le> UDP_PACKET_SIZE \<and> unat (ch_chunk c) = n" if "n < unat t" for n
    using nth [OF that] pos [OF that] ch [OF that] unfolding size [symmetric]
    by (intro exI [of _ "?p\<lparr>ch_chunk := of_nat n, ch_write := Some (chunk_bytes (em_data m) n)\<rparr>"]
        exI [of _ "chunk_bytes (em_data m) n"] conjI) simp_all
  with p cat show ?thesis by (intro exI [of _ ?p] conjI) simp_all
qed

theorem split_message_witness:
  "\<exists>p. create_prototype 5 \<lparr>em_ep = \<lparr>ep_protocol = ''udp'', ep_address = ''h'', ep_port = 1\<rparr>,
      em_data = ''hello'', em_robust = True\<rparr> = Ok p \<and> ch_sequence p = 5"
  using split_message [of "\<lparr>em_ep = \<lparr>ep_protocol = ''udp'', ep_address = ''h'', ep_port = 1\<rparr>,
      em_data = ''hello'', em_robust = True\<rparr>" 5]
  by (auto simp: udp_layout)

text \<open>
  C40. The largest message: \<^verbatim>\<open>socket_can_send\<close> admits messages of up to \<^verbatim>\<open>MAX_MESSAGE_SIZE\<close> = 65536 chunks, but
  the chunk count is kept in 16 bits.  Up to 65535 chunks it is the rounded-up quotient; for the 499 sizes
  above it wraps to 0, and \<^verbatim>\<open>ENSURE_GREATER(total_chunks, 0)\<close> ends the process.
\<close>

theorem total_chunks_range:
  assumes "0 < n" "n \<le> MAX_MESSAGE_SIZE"
  shows "if n \<le> 65535 * UDP_CHuNK_SIZE
    then \<exists>t. total_chunks n = Ok t \<and> unat t = (n + UDP_CHuNK_SIZE - 1) div UDP_CHuNK_SIZE
    else total_chunks n = Exit"
  using total_chunks_fits [OF assms(1)] total_chunks_wraps [OF _ assms(2)] by simp

theorem total_chunks_range_witness:
  "total_chunks 32702464 = Exit \<and> (\<exists>t. total_chunks 500 = Ok t \<and> unat t = 2)"
  using total_chunks_range [of 32702464] total_chunks_range [of 500] by (simp add: udp_layout)

section \<open>Reassembly of one message\<close>

definition received :: "message_chunk \<Rightarrow> bytes \<Rightarrow> nat \<Rightarrow> message_chunk" where
  "received p data n = p\<lparr>ch_chunk := of_nat n, ch_data := chunk_bytes data n\<rparr>"

fun insert_all :: "message_chunk list \<Rightarrow> working_messages \<Rightarrow> (bytes list \<times> working_messages) outcome" where
  "insert_all [] w = Ok ([], w)"
| "insert_all (c # cs) w =
     bindO (insert_chunk c w) (\<lambda>(d, w1). bindO (insert_all cs w1) (\<lambda>(ds, w2).
       Ok ((case d of None \<Rightarrow> ds | Some x \<Rightarrow> x # ds), w2)))"

definition partial_message :: "message_chunk \<Rightarrow> bytes \<Rightarrow> nat set \<Rightarrow> working_message \<Rightarrow> bool" where
  "partial_message p data K wm \<longleftrightarrow>
     (let t = unat (ch_total p) in
      unat (ch_total (wm_proto wm)) = t \<and> length (wm_set wm) = t \<and> (\<forall>i < t. wm_set wm ! i \<longleftrightarrow> i \<in> K) \<and>
      length (wm_data wm) = (if t - 1 \<in> K then length data else t * UDP_CHuNK_SIZE) \<and>
      (\<forall>j < length data. j div UDP_CHuNK_SIZE \<in> K \<longrightarrow> wm_data wm ! j = data ! j))"

lemma alist_put_put [simp]: "alist_put k v (alist_put k v' ps) = alist_put k v ps"
  by (induction ps) auto

lemma alist_del_put [simp]: "alist_del k (alist_put k v ps) = alist_del k ps"
  by (induction ps) (auto simp: alist_del_def)

lemma alist_put_same: "map_of ps k = Some v \<Longrightarrow> alist_put k v ps = ps"
  by (induction ps) auto

lemma alist_del_absent: "map_of ps k = None \<Longrightarrow> alist_del k ps = ps"
  by (induction ps) (auto simp: alist_del_def split: if_splits)

definition wm_init :: "message_chunk \<Rightarrow> working_message" where
  "wm_init c = wm_default\<lparr>wm_proto := c\<lparr>ch_data := []\<rparr>,
     wm_data := replicate (unat (ch_total c) * UDP_CHuNK_SIZE) (CHR 0x00),
     wm_set := replicate (unat (ch_total c)) False\<rparr>"

lemma u16_bound: "unat (t :: u16) \<le> 65535"
  using unsigned_less [of t, where ?'a = nat] by simp

lemma insert_chunk_fresh:
  assumes "map_of w (ch_sequence c) = None" "ch_total c \<noteq> 0" "ch_type c \<noteq> ack"
  shows "insert_chunk c w = insert_chunk c (alist_put (ch_sequence c) (wm_init c) w)"
proof -
  have t: "unat (ch_total c) \<noteq> 0" using assms(2) by (simp add: unat_eq_0)
  have m: "\<not> unat (ch_total c) * UDP_CHuNK_SIZE > MAX_MESSAGE_SIZE"
    using mult_le_mono1 [OF u16_bound [of "ch_total c"], of 499] by (simp add: udp_layout)
  have "wm_prepare c wm_default = Some (wm_init c)"
    using m by (simp add: wm_prepare_def wm_init_def wm_default_def chunk_default_def vec_resize_def Let_def)
  moreover have "wm_prepare c (wm_init c) = Some (wm_init c)"
    using assms(2) by (simp add: wm_prepare_def wm_init_def)
  ultimately show ?thesis using assms(2) by (simp add: insert_chunk_def wm_at_def assms(1) Let_def)
qed

text \<open>One chunk of the message arrives; \<open>partial_message\<close> describes the working set before and after.\<close>

lemma vec_resize_shrink: "n \<le> length b \<Longrightarrow> vec_resize n b = take n b"
  by (simp add: vec_resize_def)

lemma vec_copy_nth:
  assumes "at + length s \<le> length d"
  shows "\<exists>d'. vec_copy s at d = Ok d' \<and> length d' = length d \<and>
    (\<forall>j < length d. d' ! j = (if at \<le> j \<and> j < at + length s then s ! (j - at) else d ! j))"
  using assms by (auto simp: vec_copy_def nth_append min_def)

lemma partial_insert:
  assumes inv: "partial_message p data K wm" and sp: "splits_into data (unat (ch_total p))"
    and n: "n < unat (ch_total p)" "n \<notin> K"
  defines "t \<equiv> unat (ch_total p)"
  defines "base \<equiv> (if n = t - 1
    then vec_resize (length (wm_data wm) + length (chunk_bytes data n) - UDP_CHuNK_SIZE) (wm_data wm) else wm_data wm)"
  shows "\<exists>d'. vec_copy (chunk_bytes data n) (n * UDP_CHuNK_SIZE) base = Ok d' \<and>
    partial_message p data (insert n K) (wm\<lparr>wm_data := d', wm_set := (wm_set wm)[n := True]\<rparr>)"
proof -
  have t: "t > 0" "(t - 1) * 499 < length data" "length data \<le> t * 499" "n < t"
    using sp n by (auto simp: splits_into_def t_def udp_layout)
  have c: "UDP_CHuNK_SIZE = 499" by (simp add: udp_layout)
  have wl: "length (wm_data wm) = (if t - 1 \<in> K then length data else t * 499)"
    and wd: "\<forall>j < length data. j div 499 \<in> K \<longrightarrow> wm_data wm ! j = data ! j"
    using inv by (simp_all add: partial_message_def Let_def t_def c)
  have cl: "length (chunk_bytes data n) = (if n = t - 1 then length data - (t - 1) * 499 else 499)"
    using chunk_bytes_full [OF sp n(1)] chunk_bytes_last [OF sp] by (simp add: t_def c)
  have t1: "t * 499 = (t - 1) * 499 + 499" using t(1) by (cases t) auto
  have bl: "length base = (if t - 1 \<in> insert n K then length data else t * 499)"
    using wl cl t t1 n(2) by (auto simp: base_def c)
  have bn: "base ! j = wm_data wm ! j" if "j < length data" for j
  proof (cases "n = t - 1")
    case True
    then have "base = take (length data) (wm_data wm)"
      using wl cl t t1 n(2) by (simp add: base_def c vec_resize_shrink)
    then show ?thesis using that by simp
  qed (simp add: base_def)
  have fit: "n * 499 + length (chunk_bytes data n) \<le> length data"
    using splits_into_lt [OF sp n(1)] by (simp add: chunk_bytes_def c)
  have ld: "length data \<le> length base" using bl t(3) by simp
  obtain d' where d': "vec_copy (chunk_bytes data n) (n * 499) base = Ok d'" "length d' = length base"
    "\<forall>j < length base. d' ! j = (if n * 499 \<le> j \<and> j < n * 499 + length (chunk_bytes data n)
        then chunk_bytes data n ! (j - n * 499) else base ! j)"
    using vec_copy_nth [of "n * 499" "chunk_bytes data n" base] fit ld by auto
  have good: "d' ! j = data ! j" if j: "j < length data" "j div 499 \<in> insert n K" for j
  proof (cases "j div 499 = n")
    case True
    have e: "j = n * 499 + j mod 499" using True by (metis div_mult_mod_eq)
    have m: "j mod 499 < 499" by simp
    have "n * 499 \<le> j" using e by linarith
    moreover have "j < n * 499 + length (chunk_bytes data n)"
      using e m j(1) unfolding chunk_bytes_def c length_take length_drop min_def by (simp split: if_splits) linarith
    moreover from calculation have "chunk_bytes data n ! (j - n * 499) = data ! j"
      using j(1) by (simp add: chunk_bytes_def c)
    ultimately show ?thesis using d'(3) j(1) ld by simp
  next
    case False
    have "\<not> (n * 499 \<le> j \<and> j < n * 499 + length (chunk_bytes data n))"
    proof
      assume "n * 499 \<le> j \<and> j < n * 499 + length (chunk_bytes data n)"
      then have "n * 499 \<le> j" "j < n * 499 + 499" using chunk_bytes_def [of data n] c by auto
      then have "j div 499 = n" by (intro div_nat_eqI) (simp_all add: mult.commute)
      with False show False by simp
    qed
    then have "d' ! j = wm_data wm ! j" using d'(3) ld j(1) bn by auto
    then show ?thesis using wd j False by simp
  qed
  have "partial_message p data (insert n K) (wm\<lparr>wm_data := d', wm_set := (wm_set wm)[n := True]\<rparr>)"
    using inv good bl d'(2) t(4)
    by (auto simp: partial_message_def Let_def nth_list_update c t_def [symmetric])
  then show ?thesis using d'(1) by (auto simp: c)
qed

lemma partial_message_fresh:
  "unat (ch_total p) > 0 \<Longrightarrow> partial_message p data {} (wm_init (received p data n))"
  by (simp add: partial_message_def wm_init_def received_def)

lemma partial_bit_count:
  assumes "partial_message p data K wm" "K \<subseteq> {..<unat (ch_total p)}"
  shows "bit_count (wm_set wm) = unat (ch_total p) \<longleftrightarrow> K = {..<unat (ch_total p)}"
  using assms bit_count_full [of "wm_set wm"] by (auto simp: partial_message_def Let_def)

lemma partial_message_complete:
  assumes "partial_message p data {..<unat (ch_total p)} wm" "splits_into data (unat (ch_total p))"
  shows "wm_data wm = data"
proof (rule nth_equalityI)
  let ?t = "unat (ch_total p)"
  show len: "length (wm_data wm) = length data"
    using assms by (simp add: partial_message_def Let_def splits_into_def)
  fix j assume j: "j < length (wm_data wm)"
  then have "j < ?t * 499" using assms(2) len by (simp add: splits_into_def udp_layout)
  then have "j div UDP_CHuNK_SIZE < ?t" by (simp add: udp_layout div_less_iff_less_mult)
  then show "wm_data wm ! j = data ! j" using assms(1) j len by (simp add: partial_message_def Let_def)
qed

lemma insert_chunk_step:
  assumes w: "map_of w (ch_sequence p) = Some wm" and inv: "partial_message p data K wm"
    and K: "K \<subseteq> {..<unat (ch_total p)}" "K \<noteq> {..<unat (ch_total p)}"
    and sp: "splits_into data (unat (ch_total p))" and n: "n < unat (ch_total p)"
    and ty: "ch_type p \<noteq> ack"
  shows "\<exists>r. insert_chunk (received p data n) w = Ok r \<and>
     (if insert n K = {..<unat (ch_total p)} then r = (Some data, alist_del (ch_sequence p) w)
      else fst r = None \<and> (\<exists>wm'. snd r = alist_put (ch_sequence p) wm' w \<and> partial_message p data (insert n K) wm'))"
proof -
  let ?c = "received p data n" and ?t = "unat (ch_total p)"
  have nn: "unat (of_nat n :: u16) = n"
    using n unsigned_less [of "ch_total p", where ?'a = nat] by (simp add: unat_of_nat take_bit_nat_eq_self)
  have c: "ch_sequence ?c = ch_sequence p" "unat (ch_chunk ?c) = n" "ch_total ?c = ch_total p"
    "ch_data ?c = chunk_bytes data n" "ch_type ?c = ch_type p"
    by (simp_all add: received_def nn)
  have t: "unat (ch_total (wm_proto wm)) = ?t" "?t > 0" "wm_set wm ! n \<longleftrightarrow> n \<in> K"
    using inv n by (simp_all add: partial_message_def Let_def)
  have t0: "ch_total (wm_proto wm) \<noteq> 0" "ch_total p \<noteq> 0" using t by (auto simp: unat_eq_0)
  have ty': "ch_type p = msg \<or> ch_type p = qmsg" using ty by (cases "ch_type p") auto
  have ins: "insert_chunk ?c w = place_chunk ?c wm w"
    using t0 ty' by (simp add: insert_chunk_def c wm_at_def w wm_prepare_def alist_put_same)
  show ?thesis
  proof (cases "n \<in> K")
    case True
    then have "place_chunk ?c wm w = Ok (None, w)" using t n by (simp add: place_chunk_def c Let_def)
    then show ?thesis using True K(2) inv ins w by (auto simp: insert_absorb alist_put_same intro: exI [of _ wm])
  next
    case False
    obtain d' where d': "vec_copy (chunk_bytes data n) (n * UDP_CHuNK_SIZE)
        (if n = ?t - 1 then vec_resize (length (wm_data wm) + length (chunk_bytes data n) - UDP_CHuNK_SIZE) (wm_data wm)
         else wm_data wm) = Ok d'"
      "partial_message p data (insert n K) (wm\<lparr>wm_data := d', wm_set := (wm_set wm)[n := True]\<rparr>)"
      using partial_insert [OF inv sp n False] by auto
    let ?wm = "wm\<lparr>wm_data := d', wm_set := (wm_set wm)[n := True]\<rparr>"
    have nb: "(n \<noteq> ?t - 1 \<and> length (chunk_bytes data n) \<noteq> UDP_CHuNK_SIZE) = False"
      using chunk_bytes_full [OF sp n] by blast
    have pl: "place_chunk ?c wm w =
        (if bit_count ((wm_set wm)[n := True]) \<noteq> ?t then Ok (None, alist_put (ch_sequence p) ?wm w)
         else Ok (Some d', alist_del (ch_sequence p) w))"
      unfolding place_chunk_def c t(1) Let_def nb d'(1) using t False n by (simp del: bindO_Ok_iff)
    have bc: "bit_count ((wm_set wm)[n := True]) = ?t \<longleftrightarrow> insert n K = {..<?t}"
      using partial_bit_count [OF d'(2)] K(1) n by simp
    show ?thesis
    proof (cases "insert n K = {..<?t}")
      case True
      then have "d' = data" using partial_message_complete [of p data ?wm] d'(2) sp by simp
      then show ?thesis using True ins pl bc by simp
    next
      case False
      then show ?thesis using ins pl bc d'(2) by auto
    qed
  qed
qed

lemma insert_all_partial:
  assumes "map_of w (ch_sequence p) = Some wm" "partial_message p data K wm"
    "K \<subseteq> {..<unat (ch_total p)}" "splits_into data (unat (ch_total p))" "ch_type p \<noteq> ack"
    "set ns \<subseteq> {..<unat (ch_total p)}" "K \<union> set ns \<noteq> {..<unat (ch_total p)}"
  shows "\<exists>wm'. insert_all (map (received p data) ns) w = Ok ([], alist_put (ch_sequence p) wm' w) \<and>
    partial_message p data (K \<union> set ns) wm'"
  using assms
proof (induction ns arbitrary: K w wm)
  case Nil
  then show ?case by (auto simp: alist_put_same intro: exI [of _ wm])
next
  case (Cons n ns)
  let ?t = "unat (ch_total p)"
  have ne: "K \<noteq> {..<?t}" "insert n K \<noteq> {..<?t}" "insert n K \<subseteq> {..<?t}" "n < ?t" using Cons.prems by auto
  obtain wm1 where w1: "insert_chunk (received p data n) w = Ok (None, alist_put (ch_sequence p) wm1 w)"
      "partial_message p data (insert n K) wm1"
    using insert_chunk_step [OF Cons.prems(1,2,3) ne(1) Cons.prems(4) ne(4) Cons.prems(5)] ne(2) by auto
  have "\<exists>wm'. insert_all (map (received p data) ns) (alist_put (ch_sequence p) wm1 w)
      = Ok ([], alist_put (ch_sequence p) wm' (alist_put (ch_sequence p) wm1 w)) \<and>
    partial_message p data (insert n K \<union> set ns) wm'"
    using Cons.prems ne w1 by (intro Cons.IH [where wm = wm1]) auto
  then show ?case using w1(1) by auto
qed

lemma insert_all_append:
  "insert_all (xs @ ys) w = bindO (insert_all xs w) (\<lambda>(d, w1). bindO (insert_all ys w1) (\<lambda>(e, w2). Ok (d @ e, w2)))"
proof (induction xs arbitrary: w)
  case Nil
  then show ?case by (cases "insert_all ys w") auto
next
  case (Cons c cs)
  show ?case
    by (cases "insert_chunk c w")
      (auto simp: Cons.IH outcome_simps split_beta simp del: bindO_Ok_iff intro!: arg_cong2 [where f = bindO] split: option.splits)
qed

lemma reassemble:
  assumes "0 < length data" "length data \<le> 65535 * UDP_CHuNK_SIZE"
    and "total_chunks (length data) = Ok (ch_total p)" "ch_type p \<noteq> ack"
    and "map_of w (ch_sequence p) = None"
    and "n < unat (ch_total p)" "n \<notin> set ns" "insert n (set ns) = {..<unat (ch_total p)}"
  shows "(\<exists>w'. insert_all (map (received p data) ns) w = Ok ([], w')) \<and>
    insert_all (map (received p data) (ns @ [n])) w = Ok ([data], w)"
proof -
  let ?t = "unat (ch_total p)" and ?s = "ch_sequence p"
  have sp: "splits_into data ?t" using splits_intoI total_chunks_fits [OF assms(1,2)] assms(1,3) by fastforce
  have t0: "ch_total p \<noteq> 0" using assms(6) by auto
  have run: "\<exists>wm'. insert_all (map (received p data) ns) w = Ok ([], alist_put ?s wm' w) \<and>
      partial_message p data (set ns) wm'" if ne: "ns \<noteq> []"
  proof -
    obtain n0 ns' where ns: "ns = n0 # ns'" using ne by (cases ns) auto
    let ?w = "alist_put ?s (wm_init (received p data n0)) w"
    have "\<exists>wm'. insert_all (map (received p data) ns) ?w = Ok ([], alist_put ?s wm' ?w) \<and>
        partial_message p data ({} \<union> set ns) wm'"
      using assms(4,6,7,8) sp partial_message_fresh [of p data n0]
      by (intro insert_all_partial [where wm = "wm_init (received p data n0)"]) auto
    moreover have "insert_chunk (received p data n0) w = insert_chunk (received p data n0) ?w"
      using insert_chunk_fresh [of w "received p data n0"] assms(4,5) t0 by (simp add: received_def)
    ultimately show ?thesis using ns by auto
  qed
  have last: "insert_chunk (received p data n) w' = Ok (Some data, w)"
    if "map_of w' ?s = Some wm'" "partial_message p data (set ns) wm'" "alist_del ?s w' = w" for w' wm'
    using insert_chunk_step [OF that(1,2) _ _ sp assms(6,4)] assms(6,7,8) that(3) by auto
  show ?thesis
  proof (cases "ns = []")
    case True
    let ?w = "alist_put ?s (wm_init (received p data n)) w"
    have "insert_chunk (received p data n) w = insert_chunk (received p data n) ?w"
      using insert_chunk_fresh [of w "received p data n"] assms(4,5) t0 by (simp add: received_def)
    also have "\<dots> = Ok (Some data, w)"
      using last [of ?w "wm_init (received p data n)"] True partial_message_fresh [of p data n] assms(5,6)
      by (simp add: alist_del_absent)
    finally show ?thesis using True by simp
  next
    case False
    then obtain wm' where wm': "insert_all (map (received p data) ns) w = Ok ([], alist_put ?s wm' w)"
      "partial_message p data (set ns) wm'" using run by blast
    have "insert_chunk (received p data n) (alist_put ?s wm' w) = Ok (Some data, w)"
      using last [of "alist_put ?s wm' w" wm'] wm'(2) assms(5) by (simp add: alist_del_absent)
    then show ?thesis using wm'(1) by (simp add: insert_all_append del: bindO_Ok_iff)
  qed
qed

text \<open>
  C8. Reassembly: the chunks of one message may arrive in any order and any number of times.  As long as a
  chunk is missing nothing is delivered; the arrival of the last missing chunk delivers exactly the
  message, once, and leaves the working set as it was before the first chunk.
\<close>

theorem reassemble_message:
  assumes "0 < length data" "length data \<le> 65535 * UDP_CHuNK_SIZE"
    and "total_chunks (length data) = Ok (ch_total p)" "ch_type p \<noteq> ack"
    and "map_of w (ch_sequence p) = None"
    and "n < unat (ch_total p)" "n \<notin> set ns" "insert n (set ns) = {..<unat (ch_total p)}"
  shows "(\<exists>w'. insert_all (map (received p data) ns) w = Ok ([], w')) \<and>
    insert_all (map (received p data) (ns @ [n])) w = Ok ([data], w)"
  using reassemble [OF assms] .

theorem reassemble_message_witness:
  "insert_all (map (received (chunk_default\<lparr>ch_type := msg, ch_total := 1, ch_sequence := 9\<rparr>) ''hello'') ([] @ [0])) []
    = Ok ([''hello''], [])"
  using reassemble_message [of "''hello''" "chunk_default\<lparr>ch_type := msg, ch_total := 1, ch_sequence := 9\<rparr>" "[]" 0 "[]"]
  by (auto simp: total_chunks_def udp_layout Let_def lessThan_Suc word_less_nat_alt)

section \<open>Arbitrary chunks from the network\<close>

text \<open>
  What holds of the incoming working set whatever arrives: the bit vectors have \<open>total\<close> bits, and the
  data has room for every chunk not yet seen.
\<close>

definition in_wm_ok :: "working_message \<Rightarrow> bool" where
  "in_wm_ok wm \<longleftrightarrow>
     (let t = unat (ch_total (wm_proto wm)) in
      t > 0 \<and> length (wm_set wm) = t \<and>
      (if wm_set wm ! (t - 1) then length (wm_data wm) \<ge> (t - 1) * UDP_CHuNK_SIZE
       else length (wm_data wm) = t * UDP_CHuNK_SIZE))"

definition in_working_ok :: "working_messages \<Rightarrow> bool" where
  "in_working_ok w \<longleftrightarrow> (\<forall>s wm. map_of w s = Some wm \<longrightarrow> in_wm_ok wm)"

lemma in_working_ok_put: "in_working_ok w \<Longrightarrow> in_wm_ok wm \<Longrightarrow> in_working_ok (alist_put s wm w)"
  by (auto simp: in_working_ok_def)

lemma in_working_ok_del: "in_working_ok w \<Longrightarrow> in_working_ok (alist_del s w)"
  by (auto simp: in_working_ok_def)

lemma wm_prepare_ok:
  assumes "in_working_ok w" "ch_total c \<noteq> 0"
  shows "\<exists>wm. wm_prepare c (wm_at w (ch_sequence c)) = Some wm \<and> in_wm_ok wm"
proof (cases "map_of w (ch_sequence c)")
  case None
  have t: "unat (ch_total c) > 0" using assms(2) by (simp add: unat_gt_0)
  have m: "\<not> unat (ch_total c) * UDP_CHuNK_SIZE > MAX_MESSAGE_SIZE"
    using mult_le_mono1 [OF u16_bound [of "ch_total c"], of 499] by (simp add: udp_layout)
  have "wm_prepare c wm_default = Some (wm_init c)"
    using m by (simp add: wm_prepare_def wm_init_def wm_default_def chunk_default_def vec_resize_def Let_def)
  moreover have "in_wm_ok (wm_init c)" using t by (simp add: in_wm_ok_def wm_init_def)
  ultimately show ?thesis using None by (simp add: wm_at_def)
next
  case (Some wm)
  then have "in_wm_ok wm" using assms(1) by (simp add: in_working_ok_def)
  moreover from this have "ch_total (wm_proto wm) \<noteq> 0" by (auto simp: in_wm_ok_def)
  ultimately show ?thesis using Some by (simp add: wm_at_def wm_prepare_def)
qed

lemma place_chunk_safe:
  assumes wm: "in_wm_ok wm" and w: "in_working_ok w"
  shows "\<exists>r. place_chunk c wm w = Ok r \<and> in_working_ok (snd r)"
proof -
  define n where "n = unat (ch_chunk c)"
  define t where "t = unat (ch_total (wm_proto wm))"
  define data where "data = (if n = t - 1
     then vec_resize (length (wm_data wm) + length (ch_data c) - UDP_CHuNK_SIZE) (wm_data wm) else wm_data wm)"
  have t: "t > 0" "length (wm_set wm) = t" using wm by (simp_all add: in_wm_ok_def t_def Let_def)
  have "t * UDP_CHuNK_SIZE = (t - 1) * UDP_CHuNK_SIZE + UDP_CHuNK_SIZE" using t(1) by (cases t) auto
  then have room: "(if wm_set wm ! (t - 1) then (t - 1) * UDP_CHuNK_SIZE \<le> length (wm_data wm)
      else length (wm_data wm) = (t - 1) * UDP_CHuNK_SIZE + UDP_CHuNK_SIZE)"
    using wm by (auto simp: in_wm_ok_def t_def [symmetric] Let_def)
  show ?thesis
  proof (cases "n \<ge> t \<or> unat (ch_total c) \<noteq> t \<or> wm_set wm ! n \<or> n \<noteq> t - 1 \<and> length (ch_data c) \<noteq> UDP_CHuNK_SIZE")
    case True
    then have "place_chunk c wm w = Ok (None, w)"
      using t(1) by (auto simp: place_chunk_def n_def [symmetric] t_def [symmetric] Let_def)
    then show ?thesis using w by simp
  next
    case False
    then have n: "n < t" "\<not> wm_set wm ! n" by auto
    have fit: "n * UDP_CHuNK_SIZE + length (ch_data c) \<le> length data \<and>
      (if n = t - 1 then (t - 1) * UDP_CHuNK_SIZE \<le> length data else length data = length (wm_data wm))"
    proof (cases "n = t - 1")
      case True
      then show ?thesis using n room by (simp add: data_def)
    next
      case ne: False
      then have "Suc n * UDP_CHuNK_SIZE \<le> (t - 1) * UDP_CHuNK_SIZE" using n by (intro mult_le_mono1) simp
      then show ?thesis using room ne False by (auto simp: data_def split: if_splits)
    qed
    obtain d' where d': "vec_copy (ch_data c) (n * UDP_CHuNK_SIZE) data = Ok d'" "length d' = length data"
      using vec_copy_nth fit by blast
    let ?wm = "wm\<lparr>wm_data := d', wm_set := (wm_set wm)[n := True]\<rparr>"
    have "in_wm_ok ?wm"
    proof (cases "n = t - 1")
      case True
      then show ?thesis using t n(1) fit d'(2) by (simp add: in_wm_ok_def t_def [symmetric] Let_def)
    next
      case ne: False
      then show ?thesis using wm fit d'(2) by (auto simp: in_wm_ok_def t_def [symmetric] Let_def)
    qed
    moreover have "place_chunk c wm w =
        (if bit_count ((wm_set wm)[n := True]) \<noteq> t then Ok (None, alist_put (ch_sequence c) ?wm w)
         else Ok (Some d', alist_del (ch_sequence c) w))"
      using False t(1) d'(1)
      unfolding place_chunk_def n_def [symmetric] t_def [symmetric] Let_def data_def [symmetric] d'(1)
      by (auto simp del: bindO_Ok_iff)
    ultimately show ?thesis using w by (simp add: in_working_ok_put in_working_ok_del)
  qed
qed

lemma insert_chunk_ok:
  assumes "in_working_ok w" "ch_type c \<noteq> ack"
  shows "\<exists>r. insert_chunk c w = Ok r \<and> in_working_ok (snd r)"
proof -
  have ty: "ch_type c = msg \<or> ch_type c = qmsg" using assms(2) by (cases "ch_type c") auto
  show ?thesis
  proof (cases "ch_total c = 0")
    case True
    then show ?thesis using ty assms(1) by (simp add: insert_chunk_def)
  next
    case False
    then obtain wm where wm: "wm_prepare c (wm_at w (ch_sequence c)) = Some wm" "in_wm_ok wm"
      using wm_prepare_ok [OF assms(1)] by blast
    then show ?thesis
      using place_chunk_safe [OF wm(2) in_working_ok_put [OF assms(1) wm(2)], of c] False ty
      by (simp add: insert_chunk_def Let_def)
  qed
qed

text \<open>
  Memory safety of reassembly: whatever data chunks arrive, with any total, chunk number, sequence number
  and payload length, \<^verbatim>\<open>insert_chunk\<close> neither writes outside the message buffer or the bit vector nor fails
  a contract check, and keeps the working set in order.
\<close>

theorem insert_chunk_safe:
  assumes "in_working_ok w" "ch_type c \<noteq> ack"
  shows "\<exists>r. insert_chunk c w = Ok r \<and> in_working_ok (snd r)"
  using insert_chunk_ok [OF assms] .

theorem insert_chunk_safe_witness:
  "\<exists>r. insert_chunk (chunk_default\<lparr>ch_total := 3, ch_chunk := 900, ch_data := ''x''\<rparr>) [] = Ok r \<and> in_working_ok (snd r)"
  by (rule insert_chunk_safe) (simp_all add: in_working_ok_def chunk_default_def)

text \<open>
  The incoming working set is keyed by the sequence number alone, and every sender counts from 1: when two
  peers send messages with the same sequence number and chunk count, the receiver joins the first
  chunk of one to the last of the other and delivers a message nobody sent.
\<close>

theorem two_senders_mix:
  assumes "0 < length d1" "splits_into d1 2" "splits_into d2 2"
    and "ch_total p1 = 2" "ch_total p2 = 2" "ch_type p1 \<noteq> ack" "ch_type p2 \<noteq> ack"
    and "ch_sequence p1 = s" "ch_sequence p2 = s" "map_of w s = None"
  shows "insert_all [received p1 d1 0, received p2 d2 1] w = Ok ([chunk_bytes d1 0 @ chunk_bytes d2 1], w)"
proof -
  let ?mix = "chunk_bytes d1 0 @ chunk_bytes d2 1"
  have l1: "length (chunk_bytes d1 0) = UDP_CHuNK_SIZE" using chunk_bytes_full [OF assms(2), of 0] by simp
  have l2: "0 < length (chunk_bytes d2 1)" "length (chunk_bytes d2 1) \<le> UDP_CHuNK_SIZE"
    using splits_into_lt [OF assms(3), of 1] by (simp_all add: chunk_bytes_def udp_layout)
  have sp: "splits_into ?mix 2" using l1 l2 by (simp add: splits_into_def)
  have c0: "received p1 d1 0 = received p1 ?mix 0"
    using l1 by (simp add: received_def chunk_bytes_def)
  have c1: "chunk_bytes ?mix 1 = chunk_bytes d2 1"
    using l1 l2(2) by (simp add: chunk_bytes_def)
  have u: "{..<unat (ch_total p1)} = {0, 1}" "{..<unat (ch_total p2)} = {0, 1}" using assms(4,5) by auto
  let ?w = "alist_put s (wm_init (received p1 ?mix 0)) w"
  have fresh: "insert_chunk (received p1 ?mix 0) w = insert_chunk (received p1 ?mix 0) ?w"
    using insert_chunk_fresh [of w "received p1 ?mix 0"] assms by (simp add: received_def)
  obtain wm1 where i1: "insert_chunk (received p1 ?mix 0) w = Ok (None, alist_put s wm1 w)"
      "partial_message p1 ?mix {0} wm1"
    using insert_chunk_step [of ?w p1 "wm_init (received p1 ?mix 0)" ?mix "{}" 0]
      partial_message_fresh [of p1 ?mix 0] sp assms(4,6,8) fresh u(1) by auto
  have pm: "partial_message p2 ?mix {0} wm1" using i1(2) assms(4,5) by (simp add: partial_message_def)
  have "insert_chunk (received p2 ?mix 1) (alist_put s wm1 w) = Ok (Some ?mix, w)"
  proof -
    have "insert 1 {0} = {..<unat (ch_total p2)}" "{0} \<noteq> {..<unat (ch_total p2)}" using u(2) by auto
    then show ?thesis
      using insert_chunk_step [of "alist_put s wm1 w" p2 wm1 ?mix "{0}" 1] pm sp assms(5,7,9,10)
      by (simp add: alist_del_absent del: insert_iff)
  qed
  moreover have "received p2 ?mix 1 = received p2 d2 1" unfolding received_def c1 ..
  ultimately show ?thesis using i1(1) c0 by (simp del: bindO_Ok_iff)
qed

theorem two_senders_mix_witness:
  "insert_all [received (chunk_default\<lparr>ch_host := ''a'', ch_total := 2, ch_sequence := 1\<rparr>) (replicate 500 CHR ''A'') 0,
     received (chunk_default\<lparr>ch_host := ''b'', ch_total := 2, ch_sequence := 1\<rparr>) (replicate 500 CHR ''B'') 1] []
   = Ok ([replicate 499 CHR ''A'' @ [CHR ''B'']], [])"
proof -
  have b: "chunk_bytes (replicate 500 CHR ''B'') 1 = [CHR ''B'']"
    by (simp add: chunk_bytes_def udp_layout numeral_eq_Suc)
  have a: "chunk_bytes (replicate 500 CHR ''A'') 0 = replicate 499 CHR ''A''"
    by (simp add: chunk_bytes_def udp_layout)
  show ?thesis
    using two_senders_mix [of "replicate 500 CHR ''A''" "replicate 500 CHR ''B''"
        "chunk_default\<lparr>ch_host := ''a'', ch_total := 2, ch_sequence := 1\<rparr>"
        "chunk_default\<lparr>ch_host := ''b'', ch_total := 2, ch_sequence := 1\<rparr>" 1 "[]"] a b
    by (simp add: splits_into_def udp_layout chunk_default_def)
qed

end
