(* ===== verification/Fire_Queue.thy ===== *)
theory Fire_Queue
  imports Fire_Prelude
begin

text \<open>
  The thread-safe queue of \<^verbatim>\<open>src/src/util/queue.hpp\<close>.  Every operation of the class takes the mutex for its whole
  body, so a concurrent execution is a sequence of whole operations; a \<^verbatim>\<open>pop\<close> that waits on the
  condition variable is the result \<open>Blocked\<close>, which leaves the queue as it is.
\<close>

section \<open>The queue\<close>

record 'a queue =
  q_items :: "'a list"
  q_done :: bool

datatype 'a popped = Got 'a | NoItem | Blocked

definition queue_new :: "'a queue" where
  "queue_new = \<lparr>q_items = [], q_done = False\<rparr>"

definition queue_push :: "'a \<Rightarrow> 'a queue \<Rightarrow> 'a queue outcome" where
  "queue_push v q =
     (let q' = q\<lparr>q_items := q_items q @ [v]\<rparr>
      in contract (length (q_items q') > 0) (Ok q'))"

definition queue_emplace_push :: "'a \<Rightarrow> 'a queue \<Rightarrow> 'a queue outcome" where
  "queue_emplace_push v q =
     (let q' = q\<lparr>q_items := q_items q @ [v]\<rparr>
      in contract (length (q_items q') > 0) (Ok q'))"

definition queue_emplace_front :: "'a \<Rightarrow> 'a queue \<Rightarrow> 'a queue outcome" where
  "queue_emplace_front v q =
     (let q' = q\<lparr>q_items := v # q_items q\<rparr>
      in contract (length (q_items q') > 0) (Ok q'))"

text \<open>
  \<^verbatim>\<open>pop(v, wait)\<close>: when waiting, the loop \<^verbatim>\<open>while(_q.empty())\<close> leaves with \<^verbatim>\<open>false\<close> once the queue
  is done and blocks otherwise; a done queue gives \<^verbatim>\<open>false\<close> to a waiting caller even when items
  are left, but a caller that does not wait still drains them.
\<close>

definition queue_pop :: "bool \<Rightarrow> 'a queue \<Rightarrow> 'a popped \<times> 'a queue" where
  "queue_pop wait q =
     (if wait then
        (case q_items q of
           [] \<Rightarrow> (if q_done q then (NoItem, q) else (Blocked, q))
         | v # vs \<Rightarrow> (if q_done q then (NoItem, q) else (Got v, q\<lparr>q_items := vs\<rparr>)))
      else
        (case q_items q of
           [] \<Rightarrow> (NoItem, q)
         | v # vs \<Rightarrow> (Got v, q\<lparr>q_items := vs\<rparr>)))"

text \<open>
  \<^verbatim>\<open>pop_front(wait)\<close> returns nothing: \<open>Ok (True, q)\<close> is a return, \<open>Ok (False, q)\<close> a caller that
  is blocked, \<open>Exit\<close> the failed \<^verbatim>\<open>REQUIRE_FALSE(_q.empty())\<close>.
\<close>

definition queue_pop_front :: "bool \<Rightarrow> 'a queue \<Rightarrow> (bool \<times> 'a queue) outcome" where
  "queue_pop_front wait q =
     (if wait then
        (case q_items q of
           [] \<Rightarrow> Ok (q_done q, q)
         | v # vs \<Rightarrow> (if q_done q then Ok (True, q) else Ok (True, q\<lparr>q_items := vs\<rparr>)))
      else
        (case q_items q of
           [] \<Rightarrow> Exit
         | v # vs \<Rightarrow> Ok (True, q\<lparr>q_items := vs\<rparr>)))"

definition queue_front :: "'a queue \<Rightarrow> 'a outcome" where
  "queue_front q = (case q_items q of [] \<Rightarrow> Exit | v # _ \<Rightarrow> Ok v)"

definition queue_size :: "'a queue \<Rightarrow> nat" where
  "queue_size q = length (q_items q)"

definition queue_empty :: "'a queue \<Rightarrow> bool" where
  "queue_empty q \<longleftrightarrow> q_items q = []"

definition queue_set_done :: "'a queue \<Rightarrow> 'a queue" where
  "queue_set_done q = q\<lparr>q_done := True\<rparr>"

definition queue_is_done :: "'a queue \<Rightarrow> bool" where
  "queue_is_done q = q_done q"

named_theorems queue_simps "what the queue operations do to the contents"

lemma queue_push_Ok [queue_simps]: "queue_push v q = Ok (q\<lparr>q_items := q_items q @ [v]\<rparr>)"
  by (simp add: queue_push_def)

lemma queue_emplace_push_Ok [queue_simps]:
  "queue_emplace_push v q = Ok (q\<lparr>q_items := q_items q @ [v]\<rparr>)"
  by (simp add: queue_emplace_push_def)

lemma queue_emplace_front_Ok [queue_simps]:
  "queue_emplace_front v q = Ok (q\<lparr>q_items := v # q_items q\<rparr>)"
  by (simp add: queue_emplace_front_def)

lemma queue_pop_Got:
  "queue_pop w q = (Got v, q') \<Longrightarrow> q_items q = v # q_items q' \<and> q_done q' = q_done q"
  by (auto simp: queue_pop_def split: if_splits list.splits)

lemma queue_pop_not_Got:
  "queue_pop w q = (r, q') \<Longrightarrow> \<forall>v. r \<noteq> Got v \<Longrightarrow> q' = q"
  by (auto simp: queue_pop_def split: if_splits list.splits)

section \<open>The interface the clients rely on\<close>

text \<open>
  A first-in first-out channel: \<open>items\<close> abstracts the queue to its contents.  The laws are what
  the post office, the connection manager and the services use of \<^verbatim>\<open>util::queue\<close>.  A schedule is
  one step per critical section, of any number of threads; \<open>run\<close> collects, in order, the values
  that the pops delivered.
\<close>

datatype 'a queue_op = Push 'a | Pop bool | Done

fun ops_pushed :: "'a queue_op list \<Rightarrow> 'a list" where
  "ops_pushed [] = []"
| "ops_pushed (Push v # es) = v # ops_pushed es"
| "ops_pushed (_ # es) = ops_pushed es"

locale fifo =
  fixes push :: "'a \<Rightarrow> 'q \<Rightarrow> 'q outcome"
    and pop :: "bool \<Rightarrow> 'q \<Rightarrow> 'a popped \<times> 'q"
    and set_done :: "'q \<Rightarrow> 'q"
    and items :: "'q \<Rightarrow> 'a list"
  assumes push_ok: "\<exists>q'. push v q = Ok q' \<and> items q' = items q @ [v]"
    and pop_got: "pop w q = (Got v, q') \<Longrightarrow> items q = v # items q'"
    and pop_none: "pop w q = (r, q') \<Longrightarrow> (\<And>v. r \<noteq> Got v) \<Longrightarrow> items q' = items q"
    and done_items: "items (set_done q) = items q"
begin

fun run :: "'a queue_op list \<Rightarrow> 'q \<Rightarrow> 'a list \<times> 'q" where
  "run [] q = ([], q)"
| "run (Push v # es) q = (case push v q of Ok q' \<Rightarrow> run es q' | _ \<Rightarrow> ([], q))"
| "run (Pop w # es) q =
     (case pop w q of
        (Got v, q') \<Rightarrow> (let (out, q'') = run es q' in (v # out, q''))
      | (_, q') \<Rightarrow> run es q')"
| "run (Done # es) q = run es (set_done q)"

lemma run_fifo:
  "run es q = (out, q') \<Longrightarrow> out @ items q' = items q @ ops_pushed es"
proof (induction es q arbitrary: out q' rule: run.induct)
  case (1 q)
  then show ?case by simp
next
  case (2 v es q)
  obtain q1 where "push v q = Ok q1" "items q1 = items q @ [v]"
    using push_ok by blast
  with 2 show ?case by simp
next
  case (3 w es q)
  obtain r q1 where r: "pop w q = (r, q1)" by (cases "pop w q")
  show ?case
  proof (cases r)
    case (Got v)
    with r have "items q = v # items q1" by (auto intro: pop_got)
    with 3 r Got show ?thesis by (auto split: prod.splits)
  next
    case NoItem
    with r have "items q1 = items q" by (auto intro: pop_none)
    with 3 r NoItem show ?thesis by simp
  next
    case Blocked
    with r have "items q1 = items q" by (auto intro: pop_none)
    with 3 r Blocked show ?thesis by simp
  qed
next
  case (4 es q)
  then show ?case by (simp add: done_items)
qed

end

interpretation uq: fifo queue_push queue_pop queue_set_done "q_items :: 'a queue \<Rightarrow> 'a list"
  by unfold_locales (auto simp: queue_simps queue_set_done_def dest: queue_pop_Got queue_pop_not_Got)

section \<open>Interleaved runs of the operations\<close>

fun queue_run :: "'a queue_op list \<Rightarrow> 'a queue \<Rightarrow> 'a list \<times> 'a queue" where
  "queue_run [] q = ([], q)"
| "queue_run (Push v # es) q =
     (case queue_push v q of Ok q' \<Rightarrow> queue_run es q' | _ \<Rightarrow> ([], q))"
| "queue_run (Pop w # es) q =
     (case queue_pop w q of
        (Got v, q') \<Rightarrow> (let (out, q'') = queue_run es q' in (v # out, q''))
      | (_, q') \<Rightarrow> queue_run es q')"
| "queue_run (Done # es) q = queue_run es (queue_set_done q)"

lemma queue_run_eq: "queue_run es q = uq.run es q"
  by (induction es q rule: queue_run.induct) (auto simp: uq.run.simps split: prod.splits popped.splits outcome.splits)

text \<open>
  C22. Any interleaving of pushes, pops and done() on a queue delivers the pushed values in the
  order of their pushes, each exactly once: what the pops returned followed by what is still in
  the queue is what was in it followed by what was pushed.
\<close>

theorem queue_run_fifo:
  "let (out, q') = queue_run es q in out @ q_items q' = q_items q @ ops_pushed es"
  by (auto simp: queue_run_eq dest: uq.run_fifo split: prod.splits)

end
