(* ===== verification/Udp_Connection.thy ===== *)
theory Udp_Connection
  imports Udp_Wire Fire_Queue
begin

text \<open>
  The UDP connection of \<^verbatim>\<open>src/src/network/udp_queue.cpp\<close>: the round robin over the outgoing messages, the window of chunks
  in flight, acknowledgements, resends, and the handlers that the \<^verbatim>\<open>io_service\<close> runs one at a time.  The
  model keeps the queue of posted handlers and the datagrams handed to the socket; sockets and
  clocks are the environment, which chooses the events.
\<close>

section \<open>State\<close>

datatype io_task = AddToWorkingSet endpoint_message | DoSend | Resend

text \<open>
  A ring item holds a pointer to a working message and its resend queue; a pointer into the
  \<^verbatim>\<open>unordered_map\<close> is stable until the entry is erased, so the model keeps the entry's key.
  \<open>u_wire\<close> collects the datagrams given to \<^verbatim>\<open>async_send_to\<close>, with their destination.
\<close>

record udp_stats =
  st_dropped :: nat
  st_bytes_sent :: nat
  st_bytes_recv :: nat

record udp_connection =
  u_in_working :: working_messages
  u_out_working :: working_messages
  u_in_queue :: "endpoint_message queue"
  u_next_message :: nat
  u_ring :: "(u64 \<times> u16 queue) list"
  u_out_queue :: "message_chunk queue"
  u_out_buffer :: bytes
  u_sequence :: u64
  u_error :: bool
  u_stats :: udp_stats
  u_io :: "io_task list"
  u_wire :: "((string \<times> u16) \<times> bytes) list"

definition udp_connection_new :: udp_connection where
  "udp_connection_new = \<lparr>u_in_working = [], u_out_working = [], u_in_queue = queue_new, u_next_message = 0,
     u_ring = [], u_out_queue = queue_new, u_out_buffer = [], u_sequence = 0, u_error = False,
     u_stats = \<lparr>st_dropped = 0, st_bytes_sent = 0, st_bytes_recv = 0\<rparr>, u_io = [], u_wire = []\<rparr>"

definition post :: "io_task \<Rightarrow> udp_connection \<Rightarrow> udp_connection" where
  "post t c = c\<lparr>u_io := u_io c @ [t]\<rparr>"

definition post_send :: "udp_connection \<Rightarrow> udp_connection" where
  "post_send c = post DoSend c"

definition put_out :: "u64 \<Rightarrow> working_message \<Rightarrow> udp_connection \<Rightarrow> udp_connection" where
  "put_out s wm c = c\<lparr>u_out_working := alist_put s wm (u_out_working c)\<rparr>"

section \<open>Outgoing messages\<close>

definition bits_resize :: "nat \<Rightarrow> bool list \<Rightarrow> bool list" where
  "bits_resize n bs = take n bs @ replicate (n - length bs) False"

definition init_working :: "message_chunk \<Rightarrow> bytes \<Rightarrow> udp_connection \<Rightarrow> udp_connection outcome" where
  "init_working proto data c =
     contract (ch_total proto > 0)
       (let wm = wm_at (u_out_working c) (ch_sequence proto); t = unat (ch_total proto);
            wm' = wm\<lparr>wm_proto := proto, wm_data := data, wm_set := bits_resize t (wm_set wm),
                     wm_sent := bits_resize t (wm_sent wm)\<rparr>;
            c1 = put_out (ch_sequence proto) wm' c
        in Ok (c1\<lparr>u_ring := u_ring c1 @ [(ch_sequence proto, queue_new)]\<rparr>))"

text \<open>\<^verbatim>\<open>find_if\<close> compares \<^verbatim>\<open>wm->proto.sequence\<close>, reading through the pointer; \<open>remove_first\<close> erases the item found.\<close>

fun remove_first :: "('a \<Rightarrow> bool) \<Rightarrow> 'a list \<Rightarrow> 'a list" where
  "remove_first P [] = []"
| "remove_first P (x # xs) = (if P x then xs else x # remove_first P xs)"

definition item_sequence :: "udp_connection \<Rightarrow> u64 \<times> u16 queue \<Rightarrow> u64" where
  "item_sequence c r = ch_sequence (wm_proto (wm_at (u_out_working c) (fst r)))"

definition cleanup_message :: "u64 \<Rightarrow> udp_connection \<Rightarrow> udp_connection outcome" where
  "cleanup_message s c =
     contract (list_ex (\<lambda>r. item_sequence c r = s) (u_ring c))
       (Ok (c\<lparr>u_ring := remove_first (\<lambda>r. item_sequence c r = s) (u_ring c),
              u_out_working := alist_del s (u_out_working c)\<rparr>))"

definition all_sent :: "working_message \<Rightarrow> bool" where
  "all_sent wm \<longleftrightarrow> bit_count (wm_sent wm) = unat (ch_total (wm_proto wm))"

definition sent_chunk :: "message_chunk \<Rightarrow> udp_connection \<Rightarrow> udp_connection outcome" where
  "sent_chunk ch c =
     contract (ch_type ch \<noteq> ack) (contract (\<not> ch_resent ch)
      (let wm = wm_at (u_out_working c) (ch_sequence ch); n = unat (ch_chunk ch) in
       if n \<ge> length (wm_sent wm) then Undef
       else
        (let wm1 = wm\<lparr>wm_sent := (wm_sent wm)[n := True],
                      wm_queued := (if wm_queued wm > 0 then wm_queued wm - 1 else wm_queued wm)\<rparr>;
             robust = (ch_type (wm_proto wm1) = msg) in
         if robust then Ok (put_out (ch_sequence ch) (wm1\<lparr>wm_in_flight := wm_in_flight wm1 + 1\<rparr>) c)
         else if all_sent wm1 then cleanup_message (ch_sequence ch) (put_out (ch_sequence ch) wm1 c)
         else Ok (put_out (ch_sequence ch) wm1 c))))"

definition validate_chunk :: "message_chunk \<Rightarrow> udp_connection \<Rightarrow> udp_connection outcome" where
  "validate_chunk ch c =
     contract (ch_type ch = ack)
      (let n = unat (ch_chunk ch); s = ch_sequence ch in
       case map_of (u_out_working c) s of
         None \<Rightarrow> Ok c
       | Some wm \<Rightarrow>
          (if ch_chunk ch \<ge> ch_total (wm_proto wm) then Ok c
           else if ch_total ch \<noteq> ch_total (wm_proto wm) then Ok c
           else if n \<ge> length (wm_set wm) then Undef
           else if wm_set wm ! n then Ok c
           else
            (let wm1 = wm\<lparr>wm_set := (wm_set wm)[n := True], wm_ticks := 0,
                          wm_in_flight := (if wm_in_flight wm > 0 then wm_in_flight wm - 1 else wm_in_flight wm)\<rparr>;
                 t = unat (ch_total (wm_proto wm1)); c1 = put_out s wm1 c in
             if bit_count (wm_set wm1) \<noteq> t then Ok c1
             else contract (bit_count (wm_sent wm1) = t)
                  (contract (wm_in_flight wm1 = 0) (contract (wm_queued wm1 = 0) (cleanup_message s c1))))))"

definition send_right_away :: "message_chunk \<Rightarrow> udp_connection \<Rightarrow> udp_connection outcome" where
  "send_right_away ch c =
     bindO (queue_emplace_push ch (u_out_queue c)) (\<lambda>q. Ok (post_send (c\<lparr>u_out_queue := q\<rparr>)))"

text \<open>The result is the chunk to queue, if there is one, and the message with its counters updated.\<close>

definition get_next_chunk :: "working_message \<Rightarrow> (message_chunk option \<times> working_message) outcome" where
  "get_next_chunk wm =
     contract (ch_total (wm_proto wm) > 0)
      (let robust = (ch_type (wm_proto wm) = msg); in_flight = (if robust then wm_in_flight wm else 0) in
       if in_flight + wm_queued wm > MAX_FLIGHT then Ok (None, wm)
       else
        (let t = MAX_FLIGHT - (in_flight + wm_queued wm) in
         if t = 0 \<or> wm_next_send wm \<ge> unat (ch_total (wm_proto wm)) then Ok (None, wm)
         else bindO (nth_chunk (wm_next_send wm) (wm_proto wm) (wm_data wm)) (\<lambda>ch.
           Ok (Some ch, wm\<lparr>wm_next_send := wm_next_send wm + 1, wm_queued := wm_queued wm + 1\<rparr>))))"

definition incr_next_message :: "udp_connection \<Rightarrow> (bool \<times> udp_connection) outcome" where
  "incr_next_message c =
     (if u_ring c = [] then Ok (False, c\<lparr>u_next_message := 0\<rparr>)
      else (let i = (u_next_message c + 1) mod length (u_ring c) in
            contract (i < length (u_ring c)) (Ok (True, c\<lparr>u_next_message := i\<rparr>))))"

definition queue_resend :: "nat \<Rightarrow> u16 \<Rightarrow> udp_connection \<Rightarrow> udp_connection outcome" where
  "queue_resend i n c =
     (if i \<ge> length (u_ring c) then Undef
      else bindO (queue_emplace_push n (snd (u_ring c ! i))) (\<lambda>q.
        Ok (post_send (c\<lparr>u_ring := (u_ring c)[i := (fst (u_ring c ! i), q)]\<rparr>))))"

text \<open>
  One turn of the \<^verbatim>\<open>do ... while(_next_message != end)\<close> loop, \<open>True\<close> for the \<^verbatim>\<open>break\<close>; the loop has one unit
  of fuel per ring item.
\<close>

definition queue_turn :: "udp_connection \<Rightarrow> (bool \<times> udp_connection) outcome" where
  "queue_turn c =
     (let i = u_next_message c in
      if i \<ge> length (u_ring c) then Undef
      else
       (let (s, resends) = u_ring c ! i; wm = wm_at (u_out_working c) s in
        bindO (get_next_chunk wm) (\<lambda>(got, wm').
          case got of
            Some ch \<Rightarrow> bindO (queue_emplace_push ch (u_out_queue c)) (\<lambda>q.
              Ok (True, put_out s wm' (c\<lparr>u_out_queue := q\<rparr>)))
          | None \<Rightarrow>
             (case queue_pop False resends of
                (Got n, resends') \<Rightarrow>
                  bindO (nth_chunk (unat n) (wm_proto wm) (wm_data wm)) (\<lambda>mc.
                  bindO (queue_emplace_push (mc\<lparr>ch_resent := True\<rparr>) (u_out_queue c)) (\<lambda>q.
                    Ok (True, c\<lparr>u_ring := (u_ring c)[i := (s, resends')], u_out_queue := q\<rparr>)))
              | _ \<Rightarrow> bindO (incr_next_message c) (\<lambda>(_, c1). Ok (False, c1))))))"

fun queue_loop :: "nat \<Rightarrow> nat \<Rightarrow> udp_connection \<Rightarrow> udp_connection outcome" where
  "queue_loop 0 fin c = Diverge"
| "queue_loop (Suc fuel) fin c =
     bindO (queue_turn c) (\<lambda>(stop, c1).
       if stop \<or> u_next_message c1 = fin then Ok c1 else queue_loop fuel fin c1)"

definition queue_next_chunk :: "udp_connection \<Rightarrow> udp_connection outcome" where
  "queue_next_chunk c =
     bindO (incr_next_message c) (\<lambda>(some, c1).
       if \<not> some then Ok c1 else queue_loop (length (u_ring c1)) (u_next_message c1) c1)"

section \<open>Sending\<close>

definition add_to_working_set :: "endpoint_message \<Rightarrow> udp_connection \<Rightarrow> udp_connection outcome" where
  "add_to_working_set m c =
     contract (em_data m \<noteq> [])
       (let c1 = c\<lparr>u_sequence := u_sequence c + 1\<rparr> in
        bindO (create_prototype (u_sequence c1) m) (\<lambda>proto. init_working proto (em_data m) c1))"

text \<open>A caller that asked to block then polls until \<^verbatim>\<open>_out_queue\<close> is empty; the polling changes nothing.\<close>

definition connection_send :: "endpoint_message \<Rightarrow> udp_connection \<Rightarrow> bool \<times> udp_connection" where
  "connection_send m c =
     (if em_data m = [] then (False, c)
      else if length (em_data m) > MAX_MESSAGE_SIZE then (False, c)
      else (True, post DoSend (post (AddToWorkingSet m) c)))"

text \<open>
  \<open>valid_address\<close> says which host strings \<^verbatim>\<open>address::from_string\<close> accepts; for others it throws, after the
  chunk was taken from the queue, and the run thread logs the error and goes on.
\<close>

definition do_send :: "(string \<Rightarrow> bool) \<Rightarrow> udp_connection \<Rightarrow> udp_connection outcome" where
  "do_send valid_address c =
     bindO (if q_items (u_out_queue c) = [] then queue_next_chunk c else Ok c) (\<lambda>c1.
     if q_items (u_out_queue c1) = [] then Ok c1
     else
      (case queue_pop False (u_out_queue c1) of
         (Got ch, q) \<Rightarrow>
           bindO (encode_udp_wire (u_out_buffer c1) ch) (\<lambda>b.
           let c2 = c1\<lparr>u_out_queue := q, u_out_buffer := b,
                       u_stats := (u_stats c1)\<lparr>st_bytes_sent := st_bytes_sent (u_stats c1) + length b\<rparr>\<rparr> in
           if \<not> valid_address (ch_host ch) then Ok c2
           else
            (let c3 = c2\<lparr>u_wire := u_wire c2 @ [((ch_host ch, ch_port ch), b)]\<rparr> in
             if \<not> ch_resent ch \<and> ch_type ch \<noteq> ack then sent_chunk ch c3 else Ok c3))
       | (_, q) \<Rightarrow> Exit))"

definition handle_write :: "(string \<Rightarrow> bool) \<Rightarrow> bool \<Rightarrow> udp_connection \<Rightarrow> udp_connection outcome" where
  "handle_write valid_address err c = do_send valid_address (c\<lparr>u_error := err\<rparr>)"

section \<open>Receiving\<close>

definition make_ack :: "string \<Rightarrow> u16 \<Rightarrow> message_chunk \<Rightarrow> message_chunk" where
  "make_ack host port ch = chunk_default\<lparr>ch_type := ack, ch_host := host, ch_port := port,
     ch_sequence := ch_sequence ch, ch_total := ch_total ch, ch_chunk := ch_chunk ch\<rparr>"

definition UDP :: string where "UDP = ''udp''"

text \<open>\<open>datagram\<close> is the part of \<^verbatim>\<open>_in_buffer\<close> that was received; \<open>host\<close>, \<open>port\<close> are those of \<^verbatim>\<open>_in_endpoint\<close>.\<close>

definition handle_read :: "bool \<Rightarrow> string \<Rightarrow> u16 \<Rightarrow> bytes \<Rightarrow> udp_connection \<Rightarrow> udp_connection outcome" where
  "handle_read err host port datagram c =
     (if err then Ok (c\<lparr>u_error := True\<rparr>)
      else contract (length datagram \<le> MAX_UDP_BUFF_SIZE)
       (let c1 = c\<lparr>u_stats := (u_stats c)\<lparr>st_bytes_recv := st_bytes_recv (u_stats c) + length datagram\<rparr>\<rparr> in
        bindO (if length datagram \<ge> HEADER_SIZE then decode_udp_wire datagram else Ok chunk_default) (\<lambda>ch.
        if \<not> ch_valid ch then Ok c1
        else if ch_type ch \<noteq> ack then
          (let robust = (ch_type ch = msg) in
           bindO (if robust then send_right_away (make_ack host port ch) c1 else Ok c1) (\<lambda>c2.
           bindO (insert_chunk ch (u_in_working c2)) (\<lambda>(complete, w).
           let c3 = c2\<lparr>u_in_working := w\<rparr> in
           case complete of
             None \<Rightarrow> Ok c3
           | Some data \<Rightarrow>
               bindO (queue_emplace_push \<lparr>em_ep = \<lparr>ep_protocol = UDP, ep_address = host, ep_port = port\<rparr>,
                                          em_data = data, em_robust = robust\<rparr> (u_in_queue c3)) (\<lambda>q.
                 Ok (c3\<lparr>u_in_queue := q\<rparr>)))))
        else bindO (validate_chunk ch c1) (\<lambda>c2. Ok (post_send c2)))))"

section \<open>Resending\<close>

fun resend_scan :: "nat \<Rightarrow> working_message \<Rightarrow> nat list \<Rightarrow> nat \<Rightarrow> nat \<Rightarrow> udp_connection
    \<Rightarrow> (nat \<times> udp_connection) outcome" where
  "resend_scan i wm [] cnt resent_m c = Ok (resent_m, c)"
| "resend_scan i wm (n # ns) cnt resent_m c =
     (if cnt \<ge> wm_next_send wm then Ok (resent_m, c)
      else if n \<ge> length (wm_set wm) \<or> n \<ge> length (wm_sent wm) then Undef
      else if wm_set wm ! n \<or> \<not> wm_sent wm ! n then resend_scan i wm ns (cnt + 1) resent_m c
      else if resent_m + 1 > MAX_FLIGHT then Ok (resent_m + 1, c)
      else bindO (queue_resend i (of_nat n)
                   (c\<lparr>u_stats := (u_stats c)\<lparr>st_dropped := st_dropped (u_stats c) + 1\<rparr>\<rparr>))
             (\<lambda>c1. resend_scan i wm ns (cnt + 1) (resent_m + 1) c1))"

definition resend_item :: "nat \<Rightarrow> udp_connection \<Rightarrow> (nat \<times> udp_connection) outcome" where
  "resend_item i c =
     (let wm = wm_at (u_out_working c) (fst (u_ring c ! i)); t = unat (ch_total (wm_proto wm)) in
      contract (t > 0) (contract (length (wm_data wm) > 0)
       (if bit_count (wm_set wm) = t then Ok (0, c) else resend_scan i wm [0..<t] 0 0 c)))"

text \<open>The body of the \<^verbatim>\<open>for\<close> loop over the ring: has anything been resent, which messages are exhausted.\<close>

definition resend_visit :: "nat \<Rightarrow> bool \<times> u64 list \<times> udp_connection \<Rightarrow> (bool \<times> u64 list \<times> udp_connection) outcome" where
  "resend_visit i = (\<lambda>(resent, em, c).
     let s = fst (u_ring c ! i); wm0 = wm_at (u_out_working c) s in
     contract (ch_total (wm_proto wm0) > 0)
      (let wm = wm0\<lparr>wm_ticks := wm_ticks wm0 + 1\<rparr>; c1 = put_out s wm c;
           skip = (wm_ticks wm \<le> RESEND_TICK_THRESHOLD); robust = (ch_type (wm_proto wm) = msg) in
       bindO (if robust \<and> \<not> skip then resend_item i c1 else Ok (0, c1)) (\<lambda>(k, c2).
         let erase = (if robust then wm_ticks wm \<ge> RESEND_THRESHOLD else all_sent wm) in
         Ok (resent \<or> k > 0, (if erase then em @ [ch_sequence (wm_proto wm)] else em), c2))))"

definition resend :: "udp_connection \<Rightarrow> udp_connection outcome" where
  "resend c =
     bindO (foldO resend_visit [0..<length (u_ring c)] (False, [], c)) (\<lambda>(resent, em, c1).
     bindO (foldO cleanup_message em c1) (\<lambda>c2.
       Ok (if resent then post_send c2 else c2)))"

section \<open>The \<^verbatim>\<open>io_service\<close>\<close>

definition run_task :: "(string \<Rightarrow> bool) \<Rightarrow> io_task \<Rightarrow> udp_connection \<Rightarrow> udp_connection outcome" where
  "run_task valid_address t c =
     (case t of AddToWorkingSet m \<Rightarrow> add_to_working_set m c | DoSend \<Rightarrow> do_send valid_address c | Resend \<Rightarrow> resend c)"

section \<open>The invariant\<close>

lemma bit_count_card: "bit_count bs = card {i. i < length bs \<and> bs ! i}"
  by (simp add: bit_count_def length_filter_conv_card)

lemma bit_count_subset:
  assumes "length as = length bs" "\<forall>i < length bs. as ! i \<longrightarrow> bs ! i"
  shows "bit_count as \<le> bit_count bs"
  unfolding bit_count_card using assms by (intro card_mono) auto

lemma bit_count_psubset:
  assumes "length as = length bs" "\<forall>i < length bs. as ! i \<longrightarrow> bs ! i" "n < length bs" "bs ! n" "\<not> as ! n"
  shows "bit_count as < bit_count bs"
  unfolding bit_count_card using assms by (intro psubset_card_mono) auto

lemma bit_count_below:
  assumes "\<forall>i < length bs. bs ! i \<longrightarrow> i < k"
  shows "bit_count bs \<le> k"
proof -
  have "card {i. i < length bs \<and> bs ! i} \<le> card {..<k}" using assms by (intro card_mono) auto
  then show ?thesis by (simp add: bit_count_card)
qed

lemma bit_count_below_less:
  assumes "\<forall>i < length bs. bs ! i \<longrightarrow> i < k" "n < k" "n < length bs" "\<not> bs ! n"
  shows "bit_count bs < k"
proof -
  have "card {i. i < length bs \<and> bs ! i} \<le> card ({..<k} - {n})" using assms by (intro card_mono) auto
  then show ?thesis using assms(2) by (simp add: bit_count_card)
qed

text \<open>
  An outgoing message: acknowledged chunks were sent, sent chunks were queued, and the counters count them:
  \<open>queued\<close> those queued but not sent, \<open>in_flight\<close> those sent but not acknowledged.
\<close>

definition out_wm_ok :: "u64 \<Rightarrow> working_message \<Rightarrow> bool" where
  "out_wm_ok s wm \<longleftrightarrow>
     (let t = unat (ch_total (wm_proto wm)) in
      ch_sequence (wm_proto wm) = s \<and> ch_type (wm_proto wm) \<noteq> ack \<and> \<not> ch_resent (wm_proto wm) \<and>
      splits_into (wm_data wm) t \<and> length (wm_set wm) = t \<and> length (wm_sent wm) = t \<and>
      wm_next_send wm \<le> t \<and>
      (\<forall>i < t. wm_set wm ! i \<longrightarrow> wm_sent wm ! i) \<and>
      (\<forall>i < t. wm_sent wm ! i \<longrightarrow> i < wm_next_send wm) \<and>
      wm_queued wm + bit_count (wm_sent wm) = wm_next_send wm \<and>
      wm_in_flight wm + wm_queued wm \<le> MAX_FLIGHT \<and>
      (if ch_type (wm_proto wm) = msg then wm_in_flight wm + bit_count (wm_set wm) = bit_count (wm_sent wm)
       else wm_in_flight wm = 0 \<and> bit_count (wm_sent wm) < t))"

text \<open>
  The ring and the map hold the same messages, resend queues hold chunk numbers of their message, and
  sequence numbers in use are at most the last one given out.
\<close>

definition conn_core :: "udp_connection \<Rightarrow> bool" where
  "conn_core c \<longleftrightarrow>
     distinct (keys (u_ring c)) \<and> fst ` set (u_ring c) = fst ` set (u_out_working c) \<and>
     (\<forall>s wm. map_of (u_out_working c) s = Some wm \<longrightarrow> out_wm_ok s wm \<and> s \<le> u_sequence c \<and>
        (\<forall>q. (s, q) \<in> set (u_ring c) \<longrightarrow> (\<forall>n \<in> set (q_items q). n < ch_total (wm_proto wm)))) \<and>
     in_working_ok (u_in_working c)"

definition acks_only :: "message_chunk queue \<Rightarrow> bool" where
  "acks_only q \<longleftrightarrow> (\<forall>ch \<in> set (q_items q). ch_type ch = ack)"

definition message_fits :: "endpoint_message \<Rightarrow> bool" where
  "message_fits m \<longleftrightarrow> 0 < length (em_data m) \<and> length (em_data m) \<le> 65535 * UDP_CHuNK_SIZE"

definition conn_ok :: "udp_connection \<Rightarrow> bool" where
  "conn_ok c \<longleftrightarrow> conn_core c \<and> acks_only (u_out_queue c) \<and>
     (\<forall>m. AddToWorkingSet m \<in> set (u_io c) \<longrightarrow> message_fits m)"

lemma conn_core_frame:
  assumes "u_ring c' = u_ring c" "u_out_working c' = u_out_working c" "u_sequence c' = u_sequence c"
    "u_in_working c' = u_in_working c"
  shows "conn_core c' = conn_core c"
  using assms by (simp add: conn_core_def)

lemma conn_core_wm:
  assumes "conn_core c" "map_of (u_out_working c) s = Some wm"
  shows "out_wm_ok s wm" "s \<le> u_sequence c" "s \<in> fst ` set (u_ring c)"
proof -
  show "out_wm_ok s wm" "s \<le> u_sequence c" using assms by (auto simp: conn_core_def)
  have "s \<in> fst ` set (u_out_working c)" using assms(2) by (metis domI dom_map_of_conv_image_fst)
  then show "s \<in> fst ` set (u_ring c)" using assms(1) by (simp add: conn_core_def)
qed

lemma conn_core_ring_wm:
  assumes "conn_core c" "(s, q) \<in> set (u_ring c)"
  obtains wm where "map_of (u_out_working c) s = Some wm" "out_wm_ok s wm" "wm_at (u_out_working c) s = wm"
    "\<forall>n \<in> set (q_items q). n < ch_total (wm_proto wm)"
proof -
  have "s \<in> fst ` set (u_out_working c)" using assms by (force simp: conn_core_def)
  then obtain wm where wm: "map_of (u_out_working c) s = Some wm"
    by (metis domD dom_map_of_conv_image_fst)
  then show ?thesis using that assms by (auto simp: conn_core_def wm_at_def)
qed

lemma conn_core_put_out:
  assumes "conn_core c" "map_of (u_out_working c) s = Some wm" "out_wm_ok s wm'"
    "ch_total (wm_proto wm') = ch_total (wm_proto wm)"
  shows "conn_core (put_out s wm' c)"
proof -
  have "s \<in> fst ` set (u_out_working c)" using assms(2) by (metis domI dom_map_of_conv_image_fst)
  then have "insert s (fst ` set (u_out_working c)) = fst ` set (u_out_working c)" by blast
  then show ?thesis using assms by (auto simp: conn_core_def put_out_def)
qed

lemma item_sequence_key:
  assumes "conn_core c" "r \<in> set (u_ring c)"
  shows "item_sequence c r = fst r"
  using assms conn_core_ring_wm [of c "fst r" "snd r"]
  by (auto simp: item_sequence_def out_wm_ok_def Let_def)

lemma remove_first_key:
  "distinct (keys rs) \<Longrightarrow> remove_first (\<lambda>r. fst r = s) rs = filter (\<lambda>r. fst r \<noteq> s) rs"
  by (induction rs) (auto intro!: filter_True [symmetric], force)

lemma remove_first_cong:
  "(\<And>r. r \<in> set rs \<Longrightarrow> P r = Q r) \<Longrightarrow> remove_first P rs = remove_first Q rs"
  by (induction rs) auto

definition without :: "u64 \<Rightarrow> udp_connection \<Rightarrow> udp_connection" where
  "without s c = c\<lparr>u_ring := filter (\<lambda>r. fst r \<noteq> s) (u_ring c), u_out_working := alist_del s (u_out_working c)\<rparr>"

lemma cleanup_message_eq:
  assumes "conn_core c" "s \<in> fst ` set (u_ring c)"
  shows "cleanup_message s c = Ok (without s c)"
proof -
  have d: "distinct (keys (u_ring c))" using assms(1) by (simp add: conn_core_def)
  have "remove_first (\<lambda>r. item_sequence c r = s) (u_ring c) = remove_first (\<lambda>r. fst r = s) (u_ring c)"
    by (rule remove_first_cong) (simp add: item_sequence_key [OF assms(1)])
  moreover have "list_ex (\<lambda>r. item_sequence c r = s) (u_ring c)"
    using assms item_sequence_key [OF assms(1)] by (auto simp: list_ex_iff)
  ultimately show ?thesis using remove_first_key [OF d] by (simp add: cleanup_message_def without_def)
qed

lemma without_core:
  assumes "conn_core c"
  shows "conn_core (without s c)"
proof -
  have d: "distinct (keys (filter P (u_ring c)))" for P
    using assms distinct_map_filter by (auto simp: conn_core_def)
  have "fst ` set (filter (\<lambda>r. fst r \<noteq> s) (u_ring c)) = fst ` set (u_ring c) - {s}" by auto
  then show ?thesis using assms d by (auto simp: conn_core_def without_def)
qed

section \<open>The operations keep the invariant\<close>

definition sendable :: "udp_connection \<Rightarrow> message_chunk \<Rightarrow> bool" where
  "sendable c ch \<longleftrightarrow> ch_type ch \<noteq> ack \<and>
     (\<not> ch_resent ch \<longrightarrow> (\<exists>wm. map_of (u_out_working c) (ch_sequence ch) = Some wm \<and>
        unat (ch_chunk ch) < wm_next_send wm \<and> \<not> wm_sent wm ! unat (ch_chunk ch)))"

lemma sendable_frame:
  "u_out_working c' = u_out_working c \<Longrightarrow> sendable c' ch = sendable c ch"
  by (simp add: sendable_def)

lemma sent_chunk_ok:
  assumes core: "conn_core c" and s: "sendable c ch" "\<not> ch_resent ch"
  shows "\<exists>c'. sent_chunk ch c = Ok c' \<and> conn_core c' \<and> u_out_queue c' = u_out_queue c \<and> u_io c' = u_io c"
proof -
  let ?s = "ch_sequence ch" and ?n = "unat (ch_chunk ch)"
  obtain wm where wm: "map_of (u_out_working c) ?s = Some wm" "?n < wm_next_send wm" "\<not> wm_sent wm ! ?n"
    using s by (auto simp: sendable_def)
  define t where "t = unat (ch_total (wm_proto wm))"
  have ok: "out_wm_ok ?s wm" using conn_core_wm [OF core wm(1)] by simp
  have l: "length (wm_sent wm) = t" "length (wm_set wm) = t" "wm_next_send wm \<le> t" "splits_into (wm_data wm) t"
    "\<forall>i < t. wm_set wm ! i \<longrightarrow> wm_sent wm ! i" "\<forall>i < t. wm_sent wm ! i \<longrightarrow> i < wm_next_send wm"
    "wm_queued wm + bit_count (wm_sent wm) = wm_next_send wm" "wm_in_flight wm + wm_queued wm \<le> MAX_FLIGHT"
    "ch_sequence (wm_proto wm) = ?s" "ch_type (wm_proto wm) \<noteq> ack" "\<not> ch_resent (wm_proto wm)"
    and k: "if ch_type (wm_proto wm) = msg then wm_in_flight wm + bit_count (wm_set wm) = bit_count (wm_sent wm)
       else wm_in_flight wm = 0 \<and> bit_count (wm_sent wm) < t"
    using ok by (simp_all add: out_wm_ok_def t_def [symmetric] Let_def)
  have n: "?n < t" using wm(2) l(3) by simp
  have cnt: "bit_count ((wm_sent wm)[?n := True]) = Suc (bit_count (wm_sent wm))"
    using bit_count_set [of ?n "wm_sent wm"] wm(3) n l(1) by simp
  have q: "wm_queued wm > 0"
    using bit_count_below_less [of "wm_sent wm" "wm_next_send wm" ?n] l(1,6,7) wm(2,3) n by simp
  define wm1 where "wm1 = wm\<lparr>wm_sent := (wm_sent wm)[?n := True], wm_queued := wm_queued wm - 1\<rparr>"
  have at: "wm_at (u_out_working c) ?s = wm" using wm(1) by (simp add: wm_at_def)
  have run: "sent_chunk ch c =
     (if ch_type (wm_proto wm) = msg then Ok (put_out ?s (wm1\<lparr>wm_in_flight := wm_in_flight wm + 1\<rparr>) c)
      else if all_sent wm1 then cleanup_message ?s (put_out ?s wm1 c) else Ok (put_out ?s wm1 c))"
    using s n l(1) q by (simp add: sent_chunk_def sendable_def at wm1_def)
  have bits: "\<forall>i < t. wm_set wm ! i \<longrightarrow> (wm_sent wm)[?n := True] ! i"
    "\<forall>i < t. (wm_sent wm)[?n := True] ! i \<longrightarrow> i < wm_next_send wm"
    using l(1,5,6) wm(2) n by (auto simp: nth_list_update)
  show ?thesis
  proof (cases "ch_type (wm_proto wm) = msg")
    case True
    have "out_wm_ok ?s (wm1\<lparr>wm_in_flight := wm_in_flight wm + 1\<rparr>)"
      using l k q cnt bits True by (simp add: out_wm_ok_def wm1_def t_def [symmetric])
    then have "conn_core (put_out ?s (wm1\<lparr>wm_in_flight := wm_in_flight wm + 1\<rparr>) c)"
      using conn_core_put_out [OF core wm(1)] by (simp add: wm1_def)
    then show ?thesis using run True by (simp add: put_out_def)
  next
    case False
    have fin: "all_sent wm1 \<longleftrightarrow> Suc (bit_count (wm_sent wm)) = t" by (simp add: all_sent_def wm1_def cnt t_def)
    show ?thesis
    proof (cases "all_sent wm1")
      case True
      let ?c = "put_out ?s wm1 c"
      have seq: "item_sequence ?c r = item_sequence c r" for r
        using wm(1) by (cases "fst r = ?s") (simp_all add: item_sequence_def put_out_def wm_at_def wm1_def)
      have "cleanup_message ?s c = Ok (without ?s c)"
        using cleanup_message_eq [OF core] conn_core_wm [OF core wm(1)] by simp
      then have "cleanup_message ?s ?c = Ok (without ?s c)"
        by (simp add: cleanup_message_def seq) (simp add: put_out_def without_def)
      then show ?thesis using run False True without_core [OF core] by (simp add: without_def)
    next
      case ns: False
      then have "Suc (bit_count (wm_sent wm)) < t" using fin False k by simp
      then have "out_wm_ok ?s wm1"
        using l k q cnt bits False by (simp add: out_wm_ok_def wm1_def t_def [symmetric])
      then have "conn_core (put_out ?s wm1 c)"
        using conn_core_put_out [OF core wm(1)] by (simp add: wm1_def)
      then show ?thesis using run False ns by (simp add: put_out_def)
    qed
  qed
qed

text \<open>An acknowledgement is honest when the chunk it names was sent; only a peer that received it can know.\<close>

definition honest_ack :: "udp_connection \<Rightarrow> message_chunk \<Rightarrow> bool" where
  "honest_ack c ch \<longleftrightarrow> (\<forall>wm. map_of (u_out_working c) (ch_sequence ch) = Some wm \<longrightarrow>
     ch_total ch = ch_total (wm_proto wm) \<longrightarrow> ch_chunk ch < ch_total (wm_proto wm) \<longrightarrow>
     wm_sent wm ! unat (ch_chunk ch))"

lemma validate_chunk_ok:
  assumes core: "conn_core c" and a: "ch_type ch = ack" "honest_ack c ch"
  shows "\<exists>c'. validate_chunk ch c = Ok c' \<and> conn_core c' \<and> u_out_queue c' = u_out_queue c \<and> u_io c' = u_io c"
proof (cases "map_of (u_out_working c) (ch_sequence ch)")
  case None
  then show ?thesis using core a by (simp add: validate_chunk_def)
next
  case (Some wm)
  let ?s = "ch_sequence ch" and ?n = "unat (ch_chunk ch)"
  define t where "t = unat (ch_total (wm_proto wm))"
  have ok: "out_wm_ok ?s wm" using conn_core_wm [OF core Some] by simp
  have l: "length (wm_sent wm) = t" "length (wm_set wm) = t" "wm_next_send wm \<le> t" "splits_into (wm_data wm) t"
    "\<forall>i < t. wm_set wm ! i \<longrightarrow> wm_sent wm ! i" "\<forall>i < t. wm_sent wm ! i \<longrightarrow> i < wm_next_send wm"
    "wm_queued wm + bit_count (wm_sent wm) = wm_next_send wm" "wm_in_flight wm + wm_queued wm \<le> MAX_FLIGHT"
    "ch_sequence (wm_proto wm) = ?s" "ch_type (wm_proto wm) \<noteq> ack" "\<not> ch_resent (wm_proto wm)"
    and k: "if ch_type (wm_proto wm) = msg then wm_in_flight wm + bit_count (wm_set wm) = bit_count (wm_sent wm)
       else wm_in_flight wm = 0 \<and> bit_count (wm_sent wm) < t"
    using ok by (simp_all add: out_wm_ok_def t_def [symmetric] Let_def)
  show ?thesis
  proof (cases "ch_chunk ch \<ge> ch_total (wm_proto wm) \<or> ch_total ch \<noteq> ch_total (wm_proto wm) \<or> wm_set wm ! ?n")
    case True
    then have "validate_chunk ch c = Ok c"
      using a(1) Some l(2) by (auto simp: validate_chunk_def t_def Let_def word_le_nat_alt)
    then show ?thesis using core by simp
  next
    case False
    have n: "?n < t" "\<not> wm_set wm ! ?n" "wm_sent wm ! ?n"
      using False a(2) Some by (auto simp: honest_ack_def t_def word_le_nat_alt word_less_nat_alt)
    have cnt: "bit_count ((wm_set wm)[?n := True]) = Suc (bit_count (wm_set wm))"
      using bit_count_set [of ?n "wm_set wm"] n l(2) by simp
    have less: "bit_count (wm_set wm) < bit_count (wm_sent wm)"
      using bit_count_psubset [of "wm_set wm" "wm_sent wm" ?n] l(1,2,5) n by simp
    have le: "bit_count (wm_sent wm) \<le> t" using bit_count_le [of "wm_sent wm"] l(1) by simp
    define wm1 where "wm1 = wm\<lparr>wm_set := (wm_set wm)[?n := True], wm_ticks := 0,
      wm_in_flight := (if wm_in_flight wm > 0 then wm_in_flight wm - 1 else wm_in_flight wm)\<rparr>"
    have bits: "\<forall>i < t. (wm_set wm)[?n := True] ! i \<longrightarrow> wm_sent wm ! i"
      using l(2,5) n by (auto simp: nth_list_update)
    have "out_wm_ok ?s wm1"
      using l k cnt bits less by (auto simp: out_wm_ok_def wm1_def t_def [symmetric] Let_def split: if_splits)
    then have core1: "conn_core (put_out ?s wm1 c)"
      using conn_core_put_out [OF core Some] by (simp add: wm1_def)
    have run: "validate_chunk ch c =
      (if Suc (bit_count (wm_set wm)) \<noteq> t then Ok (put_out ?s wm1 c)
       else contract (bit_count (wm_sent wm) = t) (contract (wm_in_flight wm1 = 0)
         (contract (wm_queued wm = 0) (cleanup_message ?s (put_out ?s wm1 c)))))"
    proof -
      have f: "wm_proto wm1 = wm_proto wm" "wm_set wm1 = (wm_set wm)[?n := True]" "wm_sent wm1 = wm_sent wm"
        "wm_queued wm1 = wm_queued wm" by (simp_all add: wm1_def)
      have "\<not> length (wm_set wm) \<le> ?n" using n l(2) by simp
      then show ?thesis
        using a(1) False unfolding validate_chunk_def Let_def Some option.case wm1_def [symmetric] f cnt t_def [symmetric]
        by simp
    qed
    show ?thesis
    proof (cases "Suc (bit_count (wm_set wm)) = t")
      case True
      then have full: "bit_count (wm_sent wm) = t" using less le by simp
      then have "ch_type (wm_proto wm) = msg" "wm_queued wm = 0" using k l(3,7) by (auto split: if_splits)
      then have "wm_in_flight wm1 = 0" using k full True by (simp add: wm1_def)
      moreover have "?s \<in> fst ` set (u_ring (put_out ?s wm1 c))"
        using conn_core_wm [OF core Some] by (simp add: put_out_def)
      ultimately have "validate_chunk ch c = Ok (without ?s (put_out ?s wm1 c))"
        using run True full \<open>wm_queued wm = 0\<close> cleanup_message_eq [OF core1] by simp
      then show ?thesis using without_core [OF core1, of ?s] by (simp add: without_def put_out_def)
    next
      case ne: False
      then show ?thesis using run core1 by (simp add: put_out_def)
    qed
  qed
qed

lemma get_next_chunk_cases:
  assumes "out_wm_ok s wm"
  shows "get_next_chunk wm = Ok (None, wm) \<or>
    (\<exists>ch. get_next_chunk wm =
        Ok (Some ch, wm\<lparr>wm_next_send := wm_next_send wm + 1, wm_queued := wm_queued wm + 1\<rparr>) \<and>
      ch_type ch \<noteq> ack \<and> \<not> ch_resent ch \<and> ch_sequence ch = s \<and> unat (ch_chunk ch) = wm_next_send wm \<and>
      wm_next_send wm < unat (ch_total (wm_proto wm)) \<and>
      out_wm_ok s (wm\<lparr>wm_next_send := wm_next_send wm + 1, wm_queued := wm_queued wm + 1\<rparr>))"
proof -
  define t where "t = unat (ch_total (wm_proto wm))"
  let ?n = "wm_next_send wm" and ?f = "wm_in_flight wm + wm_queued wm"
  have ok: "splits_into (wm_data wm) t" "wm_next_send wm \<le> t" "?f \<le> MAX_FLIGHT" "t > 0"
    "ch_type (wm_proto wm) \<noteq> ack" "\<not> ch_resent (wm_proto wm)" "ch_sequence (wm_proto wm) = s"
    "ch_type (wm_proto wm) \<noteq> msg \<longrightarrow> wm_in_flight wm = 0"
    "\<forall>i < t. wm_sent wm ! i \<longrightarrow> i < wm_next_send wm"
    using assms by (simp_all add: out_wm_ok_def t_def [symmetric] Let_def splits_into_def)
  have tot: "ch_total (wm_proto wm) > 0" using ok(4) by (simp add: t_def word_less_nat_alt)
  have fl: "(if ch_type (wm_proto wm) = msg then wm_in_flight wm else 0) + wm_queued wm = ?f"
    using ok(8) by simp
  show ?thesis
  proof (cases "?f = MAX_FLIGHT \<or> ?n \<ge> t")
    case True
    then have "get_next_chunk wm = Ok (None, wm)"
      using tot ok(3) unfolding get_next_chunk_def Let_def fl t_def [symmetric] by auto
    then show ?thesis by simp
  next
    case False
    then have n: "?n < t" and f: "?f < MAX_FLIGHT" using ok(3) by auto
    let ?ch = "(wm_proto wm)\<lparr>ch_chunk := of_nat ?n, ch_write := Some (chunk_bytes (wm_data wm) ?n)\<rparr>"
    let ?wm = "wm\<lparr>wm_next_send := ?n + 1, wm_queued := wm_queued wm + 1\<rparr>"
    have nth: "nth_chunk ?n (wm_proto wm) (wm_data wm) = Ok ?ch"
      using nth_chunk_eq [of "wm_data wm" "wm_proto wm" ?n] ok(1) n by (simp add: t_def)
    have run: "get_next_chunk wm = Ok (Some ?ch, ?wm)"
      using tot f n unfolding get_next_chunk_def Let_def fl t_def [symmetric] nth by simp
    have un: "unat (of_nat ?n :: u16) = ?n"
      using n u16_bound [of "ch_total (wm_proto wm)"] by (simp add: t_def unat_of_nat take_bit_nat_eq_self)
    have "\<forall>i < t. wm_sent wm ! i \<longrightarrow> i < ?n + 1" using ok(9) by auto
    then have "out_wm_ok s ?wm"
      using assms n f by (auto simp: out_wm_ok_def t_def [symmetric] Let_def split: if_splits)
    then show ?thesis using run un n ok(5,6,7) by (simp add: t_def)
  qed
qed

lemma conn_core_resends:
  assumes "conn_core c" "i < length (u_ring c)" "u_ring c ! i = (s, q)"
    "map_of (u_out_working c) s = Some wm" "\<forall>n \<in> set (q_items q'). n < ch_total (wm_proto wm)"
  shows "conn_core (c\<lparr>u_ring := (u_ring c)[i := (s, q')]\<rparr>)"
proof -
  let ?r = "(u_ring c)[i := (s, q')]"
  have k: "keys ?r = keys (u_ring c)"
    using assms(2,3) by (metis fst_conv list_update_id map_update nth_map)
  have d: "distinct (keys (u_ring c))" using assms(1) by (simp add: conn_core_def)
  have ks: "fst ` set ?r = fst ` set (u_ring c)" using k by (metis list.set_map)
  have "(s', p) \<in> set (u_ring c) \<or> s' = s \<and> p = q'" if "(s', p) \<in> set ?r" for s' p
    using that set_update_subset_insert [of "u_ring c" i "(s, q')"] by auto
  moreover have "(s', p) \<in> set ?r \<longrightarrow> (\<forall>n \<in> set (q_items p). n < ch_total (wm_proto wm'))"
    if "map_of (u_out_working c) s' = Some wm'" for s' p wm'
    using calculation [of s' p] assms(1,4,5) that by (auto simp: conn_core_def)
  ultimately show ?thesis using assms(1) d k ks by (simp add: conn_core_def)
qed

definition item_blocked :: "udp_connection \<Rightarrow> nat \<Rightarrow> bool" where
  "item_blocked c i \<longleftrightarrow>
     get_next_chunk (wm_at (u_out_working c) (fst (u_ring c ! i))) =
       Ok (None, wm_at (u_out_working c) (fst (u_ring c ! i))) \<and>
     q_items (snd (u_ring c ! i)) = []"

definition queued_one :: "udp_connection \<Rightarrow> udp_connection \<Rightarrow> bool" where
  "queued_one c c' \<longleftrightarrow> conn_core c' \<and> u_io c' = u_io c \<and>
     (\<exists>ch. q_items (u_out_queue c') = [ch] \<and> sendable c' ch)"

lemma queue_turn_cases:
  assumes core: "conn_core c" and i: "u_next_message c < length (u_ring c)" and e: "q_items (u_out_queue c) = []"
  shows "(\<exists>c'. queue_turn c = Ok (True, c') \<and> queued_one c c') \<or>
    (queue_turn c = Ok (False, c\<lparr>u_next_message := (u_next_message c + 1) mod length (u_ring c)\<rparr>) \<and>
     item_blocked c (u_next_message c))"
proof -
  obtain s q where r: "u_ring c ! u_next_message c = (s, q)" by fastforce
  have mem: "(s, q) \<in> set (u_ring c)" using i r by (metis nth_mem)
  obtain wm where wm: "map_of (u_out_working c) s = Some wm" "out_wm_ok s wm" "wm_at (u_out_working c) s = wm"
    "\<forall>n \<in> set (q_items q). n < ch_total (wm_proto wm)" using conn_core_ring_wm [OF core mem] .
  have ne: "u_ring c \<noteq> []" using i by auto
  have incr: "incr_next_message c = Ok (True, c\<lparr>u_next_message := (u_next_message c + 1) mod length (u_ring c)\<rparr>)"
    using ne by (simp add: incr_next_message_def Let_def)
  from get_next_chunk_cases [OF wm(2)] show ?thesis
  proof
    assume none: "get_next_chunk wm = Ok (None, wm)"
    show ?thesis
    proof (cases "q_items q")
      case Nil
      then have "queue_turn c = Ok (False, c\<lparr>u_next_message := (u_next_message c + 1) mod length (u_ring c)\<rparr>)"
        using i r wm(3) none incr by (simp add: queue_turn_def queue_pop_def del: bindO_Ok_iff)
      then show ?thesis using Nil none r wm(3) by (simp add: item_blocked_def)
    next
      case (Cons n ns)
      let ?q = "q\<lparr>q_items := ns\<rparr>"
      let ?mc = "(wm_proto wm)\<lparr>ch_chunk := n, ch_write := Some (chunk_bytes (wm_data wm) (unat n)), ch_resent := True\<rparr>"
      let ?c = "c\<lparr>u_ring := (u_ring c)[u_next_message c := (s, ?q)], u_out_queue := (u_out_queue c)\<lparr>q_items := [?mc]\<rparr>\<rparr>"
      have n: "unat n < unat (ch_total (wm_proto wm))" using wm(4) Cons by (simp add: word_less_nat_alt)
      have "nth_chunk (unat n) (wm_proto wm) (wm_data wm)
          = Ok ((wm_proto wm)\<lparr>ch_chunk := n, ch_write := Some (chunk_bytes (wm_data wm) (unat n))\<rparr>)"
        using nth_chunk_eq [of "wm_data wm" "wm_proto wm" "unat n"] n wm(2) by (simp add: out_wm_ok_def Let_def)
      then have run: "queue_turn c = Ok (True, ?c)"
        using i r wm(3) none Cons e
        by (simp add: queue_turn_def queue_pop_def queue_emplace_push_Ok del: bindO_Ok_iff)
      have "conn_core (c\<lparr>u_ring := (u_ring c)[u_next_message c := (s, ?q)]\<rparr>)"
        using conn_core_resends [OF core i r wm(1)] wm(4) Cons by simp
      then have "conn_core ?c" by (simp add: conn_core_def)
      moreover have "sendable ?c ?mc" using wm(2) by (simp add: sendable_def out_wm_ok_def Let_def)
      ultimately show ?thesis using run by (simp add: queued_one_def)
    qed
  next
    let ?wm = "wm\<lparr>wm_next_send := wm_next_send wm + 1, wm_queued := wm_queued wm + 1\<rparr>"
    assume "\<exists>ch. get_next_chunk wm = Ok (Some ch, ?wm) \<and>
      ch_type ch \<noteq> ack \<and> \<not> ch_resent ch \<and> ch_sequence ch = s \<and> unat (ch_chunk ch) = wm_next_send wm \<and>
      wm_next_send wm < unat (ch_total (wm_proto wm)) \<and> out_wm_ok s ?wm"
    then obtain ch where g: "get_next_chunk wm = Ok (Some ch, ?wm)"
      and ch: "ch_type ch \<noteq> ack" "\<not> ch_resent ch" "ch_sequence ch = s" "unat (ch_chunk ch) = wm_next_send wm"
        "wm_next_send wm < unat (ch_total (wm_proto wm))" "out_wm_ok s ?wm" by blast
    let ?c = "put_out s ?wm (c\<lparr>u_out_queue := (u_out_queue c)\<lparr>q_items := [ch]\<rparr>\<rparr>)"
    have run: "queue_turn c = Ok (True, ?c)"
      using i r wm(3) g e by (simp add: queue_turn_def queue_emplace_push_Ok del: bindO_Ok_iff)
    have "conn_core (put_out s ?wm c)" using conn_core_put_out [OF core wm(1) ch(6)] by simp
    then have "conn_core ?c" by (simp add: conn_core_def put_out_def)
    moreover have "\<not> wm_sent wm ! wm_next_send wm"
      using wm(2) ch(5) by (auto simp: out_wm_ok_def Let_def)
    ultimately show ?thesis using run ch by (simp add: queued_one_def sendable_def put_out_def)
  qed
qed

lemma queue_loop_cases:
  assumes "conn_core c" "fin < length (u_ring c)" "q_items (u_out_queue c) = []"
    "u_next_message c = (fin + (length (u_ring c) - fuel)) mod length (u_ring c)"
    "0 < fuel" "fuel \<le> length (u_ring c)"
  shows "(\<exists>c'. queue_loop fuel fin c = Ok c' \<and> queued_one c c') \<or>
    (queue_loop fuel fin c = Ok (c\<lparr>u_next_message := fin\<rparr>) \<and>
     (\<forall>k < fuel. item_blocked c ((fin + (length (u_ring c) - fuel + k)) mod length (u_ring c))))"
  using assms
proof (induction fuel arbitrary: c)
  case (Suc f)
  let ?N = "length (u_ring c)"
  have N: "?N > 0" using Suc.prems(2) by linarith
  then have N2: "u_next_message c < ?N" using Suc.prems(4) by (metis mod_less_divisor)
  define c1 where "c1 = c\<lparr>u_next_message := (u_next_message c + 1) mod ?N\<rparr>"
  from queue_turn_cases [OF Suc.prems(1) N2 Suc.prems(3)] show ?case
  proof
    assume "\<exists>c'. queue_turn c = Ok (True, c') \<and> queued_one c c'"
    then obtain c' where "queue_turn c = Ok (True, c')" "queued_one c c'" by blast
    then have "queue_loop (Suc f) fin c = Ok c'" by (simp del: bindO_Ok_iff)
    then show ?thesis using \<open>queued_one c c'\<close> by blast
  next
    assume t: "queue_turn c = Ok (False, c\<lparr>u_next_message := (u_next_message c + 1) mod ?N\<rparr>) \<and>
      item_blocked c (u_next_message c)"
    then have t1: "queue_turn c = Ok (False, c1)" and b: "item_blocked c (u_next_message c)"
      by (simp_all add: c1_def)
    have nx: "u_next_message c1 = (fin + (?N - f)) mod ?N"
      using Suc.prems(4,6) by (simp add: c1_def mod_simps Suc_diff_Suc add_Suc_right [symmetric] del: add_Suc_right)
    have idx: "(fin + (?N - Suc f + 0)) mod ?N = u_next_message c" using Suc.prems(4) by simp
    show ?thesis
    proof (cases "f = 0")
      case True
      then have "u_next_message c1 = fin" using nx Suc.prems(2) by simp
      then have "queue_loop (Suc f) fin c = Ok (c\<lparr>u_next_message := fin\<rparr>)"
        using t1 by (simp add: c1_def del: bindO_Ok_iff)
      then show ?thesis using b idx True by simp
    next
      case False
      have neq: "u_next_message c1 \<noteq> fin"
      proof (cases "fin + (?N - f) < ?N")
        case True
        then show ?thesis using nx False Suc.prems(6) by simp
      next
        case ge: False
        then have "(fin + (?N - f)) mod ?N = fin + (?N - f) - ?N"
          using Suc.prems(2,6) False by (simp add: le_mod_geq)
        then show ?thesis using nx ge False Suc.prems(2,6) by linarith
      qed
      have c1: "conn_core c1" "u_ring c1 = u_ring c" "q_items (u_out_queue c1) = []" "u_io c1 = u_io c"
        using Suc.prems(1,3) by (simp_all add: c1_def conn_core_def)
      have loop: "queue_loop (Suc f) fin c = queue_loop f fin c1" using t1 neq by (simp del: bindO_Ok_iff)
      have blk: "item_blocked c1 j = item_blocked c j" for j by (simp add: item_blocked_def c1_def)
      have q1: "queued_one c1 c' = queued_one c c'" for c' by (simp add: queued_one_def c1(4))
      have all: "\<forall>k < Suc f. item_blocked c ((fin + (?N - Suc f + k)) mod ?N)"
        if "\<forall>k < f. item_blocked c ((fin + (?N - f + k)) mod ?N)"
      proof (intro allI impI)
        fix k assume "k < Suc f"
        then show "item_blocked c ((fin + (?N - Suc f + k)) mod ?N)"
          using that b idx Suc.prems(6) by (cases k) (auto simp: Suc_diff_Suc)
      qed
      have up: "c1\<lparr>u_next_message := fin\<rparr> = c\<lparr>u_next_message := fin\<rparr>" by (simp add: c1_def)
      show ?thesis
        using Suc.IH [of c1] c1 nx False Suc.prems(2,6) all unfolding loop blk q1 up by auto
    qed
  qed
qed simp

lemma round_index:
  assumes "i < (N :: nat)" "e < N"
  shows "\<exists>k < N. (e + k) mod N = i"
proof (cases "e \<le> i")
  case True
  then show ?thesis using assms by (intro exI [of _ "i - e"]) simp
next
  case False
  then have "e + (i + N - e) = i + N" using assms by simp
  then show ?thesis using assms False by (intro exI [of _ "i + N - e"]) (auto simp: mod_if)
qed

lemma queue_next_chunk_cases:
  assumes core: "conn_core c" and e: "q_items (u_out_queue c) = []"
  shows "(\<exists>c'. queue_next_chunk c = Ok c' \<and> queued_one c c') \<or>
    (\<exists>k. queue_next_chunk c = Ok (c\<lparr>u_next_message := k\<rparr>) \<and> (\<forall>i < length (u_ring c). item_blocked c i))"
proof (cases "u_ring c = []")
  case True
  then show ?thesis by (auto simp: queue_next_chunk_def incr_next_message_def)
next
  case False
  let ?N = "length (u_ring c)"
  define k where "k = (u_next_message c + 1) mod ?N"
  define c1 where "c1 = c\<lparr>u_next_message := k\<rparr>"
  have k: "k < ?N" using False by (simp add: k_def)
  have run: "queue_next_chunk c = queue_loop ?N k c1"
    using False k by (simp add: queue_next_chunk_def incr_next_message_def Let_def k_def c1_def del: bindO_Ok_iff)
  have c1: "conn_core c1" "u_ring c1 = u_ring c" "q_items (u_out_queue c1) = []" "u_next_message c1 = k"
    using core e by (simp_all add: c1_def conn_core_def)
  have q: "queued_one c1 c' = queued_one c c'" for c' by (simp add: queued_one_def c1_def)
  have b: "item_blocked c1 j = item_blocked c j" for j by (simp add: item_blocked_def c1_def)
  have all: "\<forall>i < ?N. item_blocked c i" if "\<forall>j < ?N. item_blocked c ((k + (?N - ?N + j)) mod ?N)"
    using that round_index [OF _ k] by (metis add_0 cancel_comm_monoid_add_class.diff_cancel)
  have "(\<exists>c'. queue_loop ?N k c1 = Ok c' \<and> queued_one c c') \<or>
    (queue_loop ?N k c1 = Ok (c1\<lparr>u_next_message := k\<rparr>) \<and> (\<forall>j < ?N. item_blocked c ((k + (?N - ?N + j)) mod ?N)))"
    using queue_loop_cases [of c1 k ?N] c1 k False unfolding c1(2) q b by simp
  then show ?thesis unfolding run using all by (auto simp: c1_def)
qed

lemma cleanup_message_wire: "cleanup_message s c = Ok c' \<Longrightarrow> u_wire c' = u_wire c"
  by (auto simp: cleanup_message_def)

lemma sent_chunk_wire: "sent_chunk ch c = Ok c' \<Longrightarrow> u_wire c' = u_wire c"
  by (auto simp: sent_chunk_def Let_def put_out_def dest!: cleanup_message_wire split: if_splits)

lemma queue_turn_wire: "queue_turn c = Ok (b, c') \<Longrightarrow> u_wire c' = u_wire c"
  by (auto simp: queue_turn_def Let_def put_out_def incr_next_message_def split: if_splits prod.splits option.splits popped.splits)

lemma queue_loop_wire: "queue_loop f e c = Ok c' \<Longrightarrow> u_wire c' = u_wire c"
proof (induction f arbitrary: c)
  case (Suc f)
  from Suc.prems obtain b c1 where t: "queue_turn c = Ok (b, c1)"
    "(if b \<or> u_next_message c1 = e then Ok c1 else queue_loop f e c1) = Ok c'" by auto
  then show ?case using Suc.IH [of c1] queue_turn_wire [OF t(1)] by (auto split: if_splits)
qed simp

lemma queue_next_chunk_wire: "queue_next_chunk c = Ok c' \<Longrightarrow> u_wire c' = u_wire c"
  by (auto simp: queue_next_chunk_def incr_next_message_def Let_def dest!: queue_loop_wire split: if_splits)

lemma do_send_cases:
  assumes ok: "conn_ok c"
  shows "\<exists>c'. do_send va c = Ok c' \<and> conn_ok c' \<and>
    ((\<exists>d. u_wire c' = u_wire c @ [d]) \<or>
     (\<exists>h. \<not> va h) \<or>
     u_wire c' = u_wire c \<and> q_items (u_out_queue c) = [] \<and> (\<forall>i < length (u_ring c). item_blocked c i))"
proof -
  have core: "conn_core c" "acks_only (u_out_queue c)"
    and io: "\<forall>m. AddToWorkingSet m \<in> set (u_io c) \<longrightarrow> message_fits m"
    using ok by (simp_all add: conn_ok_def)
  define pick where "pick = (if q_items (u_out_queue c) = [] then queue_next_chunk c else Ok c)"
  have send: "\<exists>c'. do_send va c = Ok c' \<and> conn_ok c' \<and> ((\<exists>d. u_wire c' = u_wire c1 @ [d]) \<or> (\<exists>h. \<not> va h))"
    if p: "pick = Ok c1" and c1: "conn_core c1" "u_io c1 = u_io c" "q_items (u_out_queue c1) = ch # rest"
      "\<forall>x \<in> set rest. ch_type x = ack" "ch_type ch \<noteq> ack \<longrightarrow> sendable c1 ch" for c1 ch rest
  proof -
    obtain b where b: "encode_udp_wire (u_out_buffer c1) ch = Ok b" using encode_udp_wire_eq by blast
    define c2 where "c2 = c1\<lparr>u_out_queue := (u_out_queue c1)\<lparr>q_items := rest\<rparr>, u_out_buffer := b,
       u_stats := (u_stats c1)\<lparr>st_bytes_sent := st_bytes_sent (u_stats c1) + length b\<rparr>\<rparr>"
    define c3 where "c3 = c2\<lparr>u_wire := u_wire c2 @ [((ch_host ch, ch_port ch), b)]\<rparr>"
    have run: "do_send va c = (if \<not> va (ch_host ch) then Ok c2
        else if \<not> ch_resent ch \<and> ch_type ch \<noteq> ack then sent_chunk ch c3 else Ok c3)"
      using p c1(3) b unfolding do_send_def pick_def [symmetric] c3_def c2_def
      by (simp add: queue_pop_def Let_def del: bindO_Ok_iff)
    have c3: "conn_core c3" "u_io c3 = u_io c" "q_items (u_out_queue c3) = rest" "u_wire c3 = u_wire c1 @ [((ch_host ch, ch_port ch), b)]"
      using c1 by (simp_all add: c3_def c2_def conn_core_def)
    have ok2: "conn_ok c2" "conn_ok c3"
      using c1 io by (simp_all add: c3_def c2_def conn_core_def conn_ok_def acks_only_def)
    have "\<exists>c'. sent_chunk ch c3 = Ok c' \<and> conn_ok c' \<and> u_wire c' = u_wire c3"
      if x: "\<not> ch_resent ch" "ch_type ch \<noteq> ack"
    proof -
      have "sendable c3 ch" using c1(5) x(2) by (simp add: sendable_def c3_def c2_def)
      from sent_chunk_ok [OF c3(1) this x(1)] sent_chunk_wire [of ch c3]
      show ?thesis using ok2(2) by (fastforce simp: conn_ok_def)
    qed
    then show ?thesis using run ok2 c3(4) by (cases "va (ch_host ch)") auto
  qed
  show ?thesis
  proof (cases "q_items (u_out_queue c)")
    case Nil
    from queue_next_chunk_cases [OF core(1) Nil] show ?thesis
    proof
      assume "\<exists>c'. queue_next_chunk c = Ok c' \<and> queued_one c c'"
      then obtain c1 ch where c1: "pick = Ok c1" "conn_core c1" "u_io c1 = u_io c" "q_items (u_out_queue c1) = [ch]"
        "sendable c1 ch" using Nil by (auto simp: pick_def queued_one_def)
      then have "u_wire c1 = u_wire c" using queue_next_chunk_wire [of c c1] Nil by (simp add: pick_def)
      then show ?thesis using send [OF c1(1,2,3,4)] c1(5) by auto
    next
      assume "\<exists>k. queue_next_chunk c = Ok (c\<lparr>u_next_message := k\<rparr>) \<and> (\<forall>i < length (u_ring c). item_blocked c i)"
      then obtain k where k: "queue_next_chunk c = Ok (c\<lparr>u_next_message := k\<rparr>)" "\<forall>i < length (u_ring c). item_blocked c i"
        by blast
      then have "do_send va c = Ok (c\<lparr>u_next_message := k\<rparr>)" using Nil by (simp add: do_send_def del: bindO_Ok_iff)
      moreover have "conn_ok (c\<lparr>u_next_message := k\<rparr>)" using ok by (simp add: conn_ok_def conn_core_def)
      ultimately show ?thesis using k(2) Nil by auto
    qed
  next
    case (Cons ch rest)
    then have "pick = Ok c" "ch_type ch = ack" "\<forall>x \<in> set rest. ch_type x = ack"
      using core(2) by (simp_all add: pick_def acks_only_def)
    from send [OF this(1) core(1) refl Cons this(3)] this(2) show ?thesis by auto
  qed
qed

lemma add_to_working_set_ok:
  assumes core: "conn_core c" and m: "message_fits m" and fresh: "u_sequence c < u_sequence c + 1"
  shows "\<exists>c'. add_to_working_set m c = Ok c' \<and> conn_core c' \<and> u_out_queue c' = u_out_queue c \<and> u_io c' = u_io c"
proof -
  let ?s = "u_sequence c + 1"
  obtain t where t: "total_chunks (length (em_data m)) = Ok t"
    "unat t = (length (em_data m) + UDP_CHuNK_SIZE - 1) div UDP_CHuNK_SIZE"
    using total_chunks_fits m by (auto simp: message_fits_def)
  have sp: "splits_into (em_data m) (unat t)" using splits_intoI t(2) m by (simp add: message_fits_def)
  have t0: "t > 0" "unat t > 0" using sp by (simp_all add: splits_into_def word_less_nat_alt)
  define p where "p = chunk_default\<lparr>ch_valid := True, ch_type := (if em_robust m then msg else qmsg),
       ch_host := ep_address (em_ep m), ch_port := ep_port (em_ep m), ch_sequence := ?s, ch_total := t, ch_chunk := 0\<rparr>"
  have new: "?s \<notin> fst ` set (u_out_working c)"
  proof
    assume "?s \<in> fst ` set (u_out_working c)"
    then obtain wm where "map_of (u_out_working c) ?s = Some wm" by (metis domD dom_map_of_conv_image_fst)
    then have "?s \<le> u_sequence c" using conn_core_wm [OF core] by blast
    then show False using fresh by simp
  qed
  then have none: "map_of (u_out_working c) ?s = None" by (simp add: map_of_eq_None_iff)
  define wm where "wm = wm_default\<lparr>wm_proto := p, wm_data := em_data m, wm_set := replicate (unat t) False,
      wm_sent := replicate (unat t) False\<rparr>"
  define c' where "c' = (put_out ?s wm (c\<lparr>u_sequence := ?s\<rparr>))\<lparr>u_ring := u_ring c @ [(?s, queue_new)]\<rparr>"
  have ne: "em_data m \<noteq> []" using m by (auto simp: message_fits_def)
  have run: "add_to_working_set m c = Ok c'"
    using ne t(1) t0(1) none
    by (simp add: add_to_working_set_def create_prototype_def init_working_def wm_at_def bits_resize_def
        wm_default_def c'_def wm_def p_def Let_def put_out_def del: bindO_Ok_iff)
  have ok: "out_wm_ok ?s wm"
    using sp t0 by (simp add: out_wm_ok_def wm_def p_def wm_default_def chunk_default_def MAX_FLIGHT_def)
  have keys: "fst ` set (u_ring c) = fst ` set (u_out_working c)" "distinct (keys (u_ring c))"
    using core by (simp_all add: conn_core_def)
  have old: "out_wm_ok s' wm' \<and> s' \<le> ?s \<and> (\<forall>q. (s', q) \<in> set (u_ring c) \<longrightarrow> (\<forall>n \<in> set (q_items q). n < ch_total (wm_proto wm')))"
    if "map_of (u_out_working c) s' = Some wm'" for s' wm'
  proof -
    have "s' \<le> u_sequence c" using conn_core_wm [OF core that] by simp
    then have "s' \<le> ?s" using fresh by (meson order.trans less_imp_le)
    then show ?thesis using core that by (simp add: conn_core_def)
  qed
  have ring: "(?s, q) \<notin> set (u_ring c)" for q using new keys(1) by (metis fst_conv image_eqI)
  have "conn_core c'"
    using keys new ok old core ring
    by (auto simp: conn_core_def c'_def put_out_def queue_new_def split: if_splits)
  then show ?thesis using run by (simp add: c'_def put_out_def)
qed

definition ring_shape :: "udp_connection \<Rightarrow> udp_connection \<Rightarrow> bool" where
  "ring_shape c c' \<longleftrightarrow> conn_core c' \<and> keys (u_ring c') = keys (u_ring c) \<and> u_out_queue c' = u_out_queue c \<and>
     (\<forall>m. AddToWorkingSet m \<in> set (u_io c') \<longrightarrow> AddToWorkingSet m \<in> set (u_io c))"

lemma ring_shape_refl: "conn_core c \<Longrightarrow> ring_shape c c"
  by (simp add: ring_shape_def)

lemma ring_shape_trans: "ring_shape a b \<Longrightarrow> ring_shape b c \<Longrightarrow> ring_shape a c"
  by (simp add: ring_shape_def)

lemma keys_eq_nth:
  "keys xs = keys ys \<Longrightarrow> length xs = length ys \<and> (\<forall>i < length ys. fst (xs ! i) = fst (ys ! i))"
  by (metis length_map nth_map)

lemma queue_resend_ok:
  assumes core: "conn_core c" and i: "i < length (u_ring c)"
    and wm: "map_of (u_out_working c) (fst (u_ring c ! i)) = Some wm" and n: "n < ch_total (wm_proto wm)"
  shows "\<exists>c'. queue_resend i n c = Ok c' \<and> ring_shape c c' \<and> u_out_working c' = u_out_working c"
proof -
  obtain s q where r: "u_ring c ! i = (s, q)" by fastforce
  let ?q = "q\<lparr>q_items := q_items q @ [n]\<rparr>"
  have old: "\<forall>n \<in> set (q_items q). n < ch_total (wm_proto wm)"
    using core i r wm by (metis conn_core_ring_wm fst_conv nth_mem option.inject)
  have "conn_core (c\<lparr>u_ring := (u_ring c)[i := (s, ?q)]\<rparr>)"
    using conn_core_resends [OF core i r] wm r old n by simp
  moreover have "keys ((u_ring c)[i := (s, ?q)]) = keys (u_ring c)"
    using i r by (metis fst_conv list_update_id map_update nth_map)
  moreover have "queue_resend i n c = Ok (post_send (c\<lparr>u_ring := (u_ring c)[i := (s, ?q)]\<rparr>))"
    using i r by (simp add: queue_resend_def queue_emplace_push_Ok)
  ultimately show ?thesis by (simp add: ring_shape_def post_send_def post_def conn_core_def)
qed

lemma resend_scan_ok:
  assumes "conn_core c" "i < length (u_ring c)" "map_of (u_out_working c) (fst (u_ring c ! i)) = Some wm"
    "\<forall>n \<in> set ns. n < unat (ch_total (wm_proto wm))"
  shows "\<exists>k c'. resend_scan i wm ns cnt m c = Ok (k, c') \<and> ring_shape c c' \<and> u_out_working c' = u_out_working c"
  using assms
proof (induction ns arbitrary: cnt m c)
  case Nil
  then show ?case by (simp add: ring_shape_refl)
next
  case (Cons n ns)
  let ?c = "c\<lparr>u_stats := (u_stats c)\<lparr>st_dropped := st_dropped (u_stats c) + 1\<rparr>\<rparr>"
  have "out_wm_ok (fst (u_ring c ! i)) wm" using conn_core_wm [OF Cons.prems(1,3)] by simp
  then have l: "\<not> (n \<ge> length (wm_set wm) \<or> n \<ge> length (wm_sent wm))"
    using Cons.prems(4) by (simp add: out_wm_ok_def Let_def)
  have un: "(of_nat n :: u16) < ch_total (wm_proto wm)"
    using Cons.prems(4) u16_bound [of "ch_total (wm_proto wm)"]
    by (simp add: word_less_nat_alt unat_of_nat take_bit_nat_eq_self)
  have core: "conn_core ?c" using Cons.prems(1) by (simp add: conn_core_def)
  obtain c1 where c1: "queue_resend i (of_nat n) ?c = Ok c1" "ring_shape ?c c1" "u_out_working c1 = u_out_working c"
    using queue_resend_ok [OF core, of i wm "of_nat n"] Cons.prems(2,3) un by auto
  have sh: "ring_shape c c1" using c1(2) by (simp add: ring_shape_def)
  have key: "fst (u_ring c1 ! i) = fst (u_ring c ! i)" "i < length (u_ring c1)"
    using keys_eq_nth [of "u_ring c1" "u_ring c"] sh Cons.prems(2) by (simp_all add: ring_shape_def)
  have "\<exists>k c'. resend_scan i wm ns (cnt + 1) (m + 1) c1 = Ok (k, c') \<and> ring_shape c1 c' \<and> u_out_working c' = u_out_working c1"
    using Cons.prems(3,4) sh c1(3) key by (intro Cons.IH) (simp_all add: ring_shape_def)
  then have rec: "\<exists>k c'. resend_scan i wm ns (cnt + 1) (m + 1) c1 = Ok (k, c') \<and> ring_shape c c' \<and> u_out_working c' = u_out_working c"
    using ring_shape_trans [OF sh] c1(3) by metis
  show ?case
  proof (cases "cnt \<ge> wm_next_send wm")
    case True
    then show ?thesis using Cons.prems(1) by (simp add: ring_shape_refl)
  next
    case go: False
    show ?thesis
    proof (cases "wm_set wm ! n \<or> \<not> wm_sent wm ! n")
      case True
      then have "resend_scan i wm (n # ns) cnt m c = resend_scan i wm ns (cnt + 1) m c" using go l by simp
      then show ?thesis using Cons.IH [of c "cnt + 1" m] Cons.prems by simp
    next
      case False
      show ?thesis
      proof (cases "m + 1 > MAX_FLIGHT")
        case True
        then show ?thesis using False go l Cons.prems(1) by (simp add: ring_shape_refl)
      next
        case m: False
        then have "resend_scan i wm (n # ns) cnt m c = resend_scan i wm ns (cnt + 1) (m + 1) c1"
          using False go l c1(1) by (simp del: bindO_Ok_iff)
        then show ?thesis using rec by simp
      qed
    qed
  qed
qed

lemma resend_visit_ok:
  assumes core: "conn_core c" and i: "i < length (u_ring c)"
    and em: "distinct em" "set em \<subseteq> set (take i (keys (u_ring c)))"
  shows "\<exists>b em' c'. resend_visit i (r, em, c) = Ok (b, em', c') \<and> ring_shape c c' \<and>
    distinct em' \<and> set em' \<subseteq> set (take (Suc i) (keys (u_ring c)))"
proof -
  obtain s q where ri: "u_ring c ! i = (s, q)" by fastforce
  have mem: "(s, q) \<in> set (u_ring c)" using i ri by (metis nth_mem)
  obtain wm0 where wm0: "map_of (u_out_working c) s = Some wm0" "out_wm_ok s wm0" "wm_at (u_out_working c) s = wm0"
    using conn_core_ring_wm [OF core mem] .
  define wm where "wm = wm0\<lparr>wm_ticks := wm_ticks wm0 + 1\<rparr>"
  define c1 where "c1 = put_out s wm c"
  have ok: "out_wm_ok s wm" using wm0(2) by (auto simp: out_wm_ok_def wm_def Let_def)
  have t: "unat (ch_total (wm_proto wm)) > 0" "length (wm_data wm) > 0" "ch_sequence (wm_proto wm) = s"
    using ok by (auto simp: out_wm_ok_def splits_into_def Let_def)
  then have t0: "ch_total (wm_proto wm0) > 0" by (simp add: wm_def word_less_nat_alt)
  have core1: "conn_core c1" using conn_core_put_out [OF core wm0(1) ok] by (simp add: c1_def wm_def)
  have sh1: "ring_shape c c1" using core1 by (simp add: ring_shape_def c1_def put_out_def)
  have c1f: "u_ring c1 = u_ring c" "map_of (u_out_working c1) s = Some wm" "wm_at (u_out_working c1) s = wm"
    by (simp_all add: c1_def put_out_def wm_at_def)
  have item: "\<exists>k c2. resend_item i c1 = Ok (k, c2) \<and> ring_shape c c2"
  proof (cases "bit_count (wm_set wm) = unat (ch_total (wm_proto wm))")
    case True
    then show ?thesis using sh1 t c1f ri by (simp add: resend_item_def)
  next
    case False
    have "\<exists>k c2. resend_scan i wm [0..<unat (ch_total (wm_proto wm))] 0 0 c1 = Ok (k, c2) \<and> ring_shape c1 c2"
      using resend_scan_ok [OF core1, of i wm "[0..<unat (ch_total (wm_proto wm))]" 0 0] i ri c1f by auto
    then show ?thesis using False t c1f ri ring_shape_trans [OF sh1] by (auto simp: resend_item_def)
  qed
  obtain k c2 where k: "(if ch_type (wm_proto wm) = msg \<and> \<not> wm_ticks wm \<le> RESEND_TICK_THRESHOLD then resend_item i c1
      else Ok (0, c1)) = Ok (k, c2)" "ring_shape c c2"
    using item sh1 by (cases "ch_type (wm_proto wm) = msg \<and> \<not> wm_ticks wm \<le> RESEND_TICK_THRESHOLD") auto
  have run: "\<exists>b e. resend_visit i (r, em, c) = Ok (b, (if e then em @ [s] else em), c2)"
    using t0 ri wm0(3) t(3) k(1) unfolding wm_def c1_def
    by (auto simp: resend_visit_def Let_def)
  have tk: "take (Suc i) (keys (u_ring c)) = take i (keys (u_ring c)) @ [s]"
    using i ri by (simp add: take_Suc_conv_app_nth)
  have "distinct (take (Suc i) (keys (u_ring c)))"
    using core by (intro distinct_take) (simp add: conn_core_def)
  then have "s \<notin> set (take i (keys (u_ring c)))" unfolding tk by simp
  then show ?thesis using run k(2) em tk by (auto split: if_splits)
qed

lemma resend_visits_ok:
  assumes "conn_core c" "k + length is = length (u_ring c)" "is = [k..<length (u_ring c)]"
    "distinct em" "set em \<subseteq> set (take k (keys (u_ring c)))"
  shows "\<exists>b em' c'. foldO resend_visit is (r, em, c) = Ok (b, em', c') \<and> ring_shape c c' \<and>
    distinct em' \<and> set em' \<subseteq> set (keys (u_ring c))"
  using assms
proof (induction "is" arbitrary: k r em c)
  case Nil
  then show ?case by (auto simp: ring_shape_refl dest: in_set_takeD)
next
  case (Cons i is')
  have "[k..<length (u_ring c)] = i # is'" using Cons.prems(3) by simp
  then have k: "k < length (u_ring c)" "i = k" "is' = [Suc k..<length (u_ring c)]"
    unfolding upt_eq_Cons_conv by auto
  obtain b em1 c1 where v: "resend_visit k (r, em, c) = Ok (b, em1, c1)" "ring_shape c c1" "distinct em1"
    "set em1 \<subseteq> set (take (Suc k) (keys (u_ring c)))"
    using resend_visit_ok [OF Cons.prems(1) k(1) Cons.prems(4,5), of r] by blast
  have keys: "keys (u_ring c1) = keys (u_ring c)" "length (u_ring c1) = length (u_ring c)" "conn_core c1"
    using v(2) keys_eq_nth [of "u_ring c1" "u_ring c"] by (simp_all add: ring_shape_def)
  have "\<exists>b' em' c'. foldO resend_visit is' (b, em1, c1) = Ok (b', em', c') \<and> ring_shape c1 c' \<and>
    distinct em' \<and> set em' \<subseteq> set (keys (u_ring c1))"
    using Cons.IH [of c1 "Suc k" em1 b] Cons.prems(2) keys k v(3,4) by simp
  then show ?case using v(1,2) k(2) keys(1) ring_shape_trans [OF v(2)] by fastforce
qed

lemma cleanup_all_ok:
  assumes "conn_core c" "distinct em" "set em \<subseteq> set (keys (u_ring c))"
  shows "\<exists>c'. foldO cleanup_message em c = Ok c' \<and> conn_core c' \<and> u_out_queue c' = u_out_queue c \<and> u_io c' = u_io c"
  using assms
proof (induction em arbitrary: c)
  case (Cons s em)
  have run: "cleanup_message s c = Ok (without s c)" using cleanup_message_eq [OF Cons.prems(1)] Cons.prems(3) by simp
  have sub: "set em \<subseteq> set (keys (u_ring (without s c)))"
    using Cons.prems(2,3) by (force simp: without_def)
  have "\<exists>c'. foldO cleanup_message em (without s c) = Ok c' \<and> conn_core c' \<and>
      u_out_queue c' = u_out_queue (without s c) \<and> u_io c' = u_io (without s c)"
    using Cons.prems(2) sub without_core [OF Cons.prems(1)] by (intro Cons.IH) auto
  then show ?case using run by (simp add: without_def del: bindO_Ok_iff)
qed simp

lemma resend_ok:
  assumes ok: "conn_ok c"
  shows "\<exists>c'. resend c = Ok c' \<and> conn_ok c'"
proof -
  have core: "conn_core c" using ok by (simp add: conn_ok_def)
  obtain b em c1 where v: "foldO resend_visit [0..<length (u_ring c)] (False, [], c) = Ok (b, em, c1)"
    "ring_shape c c1" "distinct em" "set em \<subseteq> set (keys (u_ring c))"
    using resend_visits_ok [OF core, of 0 "[0..<length (u_ring c)]" "[]" False] by auto
  have c1: "conn_core c1" "keys (u_ring c1) = keys (u_ring c)" using v(2) by (simp_all add: ring_shape_def)
  obtain c2 where c2: "foldO cleanup_message em c1 = Ok c2" "conn_core c2" "u_out_queue c2 = u_out_queue c1" "u_io c2 = u_io c1"
    using cleanup_all_ok [OF c1(1) v(3)] v(4) c1(2) by auto
  have ok2: "conn_ok c2" using ok v(2) c2 by (auto simp: conn_ok_def ring_shape_def)
  then have "conn_ok (post_send c2)" by (auto simp: conn_ok_def conn_core_def post_send_def post_def)
  then show ?thesis using v(1) c2(1) ok2 by (auto simp: resend_def)
qed

definition read_honest :: "udp_connection \<Rightarrow> bytes \<Rightarrow> bool" where
  "read_honest c d \<longleftrightarrow> (\<forall>ch. decode_udp_wire d = Ok ch \<longrightarrow> ch_type ch = ack \<longrightarrow> honest_ack c ch)"

lemma handle_read_ok:
  assumes ok: "conn_ok c" and d: "length d \<le> MAX_UDP_BUFF_SIZE" and h: "read_honest c d"
  shows "\<exists>c'. handle_read err host port d c = Ok c' \<and> conn_ok c'"
proof (cases err)
  case True
  then show ?thesis using ok by (simp add: handle_read_def conn_ok_def conn_core_def)
next
  case False
  define c1 where "c1 = c\<lparr>u_stats := (u_stats c)\<lparr>st_bytes_recv := st_bytes_recv (u_stats c) + length d\<rparr>\<rparr>"
  have ok1: "conn_ok c1" using ok by (simp add: c1_def conn_ok_def conn_core_def)
  define dec where "dec = (if length d \<ge> HEADER_SIZE then decode_udp_wire d else Ok chunk_default)"
  obtain ch where ch: "dec = Ok ch" using decode_udp_wire_total [of d] by (cases "HEADER_SIZE \<le> length d") (auto simp: dec_def)
  have run: "handle_read err host port d c =
     (if \<not> ch_valid ch then Ok c1
      else if ch_type ch \<noteq> ack then
        bindO (if ch_type ch = msg then send_right_away (make_ack host port ch) c1 else Ok c1) (\<lambda>c2.
        bindO (insert_chunk ch (u_in_working c2)) (\<lambda>(complete, w).
           let c3 = c2\<lparr>u_in_working := w\<rparr> in
           case complete of
             None \<Rightarrow> Ok c3
           | Some data \<Rightarrow>
               bindO (queue_emplace_push \<lparr>em_ep = \<lparr>ep_protocol = UDP, ep_address = host, ep_port = port\<rparr>,
                                          em_data = data, em_robust = (ch_type ch = msg)\<rparr> (u_in_queue c3)) (\<lambda>q.
                 Ok (c3\<lparr>u_in_queue := q\<rparr>))))
      else bindO (validate_chunk ch c1) (\<lambda>c2. Ok (post_send c2)))"
    using False d ch unfolding handle_read_def dec_def [symmetric] c1_def Let_def by simp
  show ?thesis
  proof (cases "ch_valid ch")
    case v: True
    show ?thesis
    proof (cases "ch_type ch = ack")
      case True
      have "dec = decode_udp_wire d" using ch v by (cases "HEADER_SIZE \<le> length d") (auto simp: dec_def chunk_default_def)
      then have "honest_ack c1 ch" using h ch True by (simp add: read_honest_def honest_ack_def c1_def)
      then obtain c2 where c2: "validate_chunk ch c1 = Ok c2" "conn_core c2" "u_out_queue c2 = u_out_queue c1" "u_io c2 = u_io c1"
        using validate_chunk_ok [of c1 ch] ok1 True by (auto simp: conn_ok_def)
      have "conn_ok (post_send c2)"
        using c2 ok1 by (auto simp: conn_ok_def conn_core_def post_send_def post_def)
      then show ?thesis using run v True c2(1) by (simp del: bindO_Ok_iff)
    next
      case data: False
      define c2 where "c2 = (if ch_type ch = msg
        then post_send (c1\<lparr>u_out_queue := (u_out_queue c1)\<lparr>q_items := q_items (u_out_queue c1) @ [make_ack host port ch]\<rparr>\<rparr>)
        else c1)"
      have ok2: "conn_ok c2"
        using ok1 by (auto simp: c2_def conn_ok_def conn_core_def post_send_def post_def acks_only_def make_ack_def)
      have s: "(if ch_type ch = msg then send_right_away (make_ack host port ch) c1 else Ok c1) = Ok c2"
        by (simp add: c2_def send_right_away_def queue_emplace_push_Ok)
      have w2: "in_working_ok (u_in_working c2)" using ok2 by (simp add: conn_ok_def conn_core_def)
      obtain complete w where ins: "insert_chunk ch (u_in_working c2) = Ok (complete, w)" "in_working_ok w"
        using insert_chunk_ok [OF w2 data] by (metis prod.collapse)
      have "conn_ok (c2\<lparr>u_in_working := w\<rparr>)" "conn_ok (c2\<lparr>u_in_working := w, u_in_queue := q\<rparr>)" for q
        using ok2 ins(2) by (simp_all add: conn_ok_def conn_core_def)
      then show ?thesis using run v data s ins(1)
        by (cases complete) (simp_all add: queue_emplace_push_Ok del: bindO_Ok_iff)
    qed
  qed (use run ok1 in simp)
qed

section \<open>Events\<close>

text \<open>
  What can happen to a connection: a caller sends, the \<^verbatim>\<open>io_service\<close> runs the next posted handler, the resend thread
  ticks, a write completes, a datagram arrives.
\<close>

datatype udp_event =
  Send endpoint_message | RunNext | Tick | Written bool | Received bool string u16 bytes

fun udp_handle :: "(string \<Rightarrow> bool) \<Rightarrow> udp_event \<Rightarrow> udp_connection \<Rightarrow> udp_connection outcome" where
  "udp_handle va (Send m) c = Ok (snd (connection_send m c))"
| "udp_handle va RunNext c = (case u_io c of [] \<Rightarrow> Ok c | t # ts \<Rightarrow> run_task va t (c\<lparr>u_io := ts\<rparr>))"
| "udp_handle va Tick c = Ok (post Resend c)"
| "udp_handle va (Written err) c = handle_write va err c"
| "udp_handle va (Received err host port d) c = handle_read err host port d c"

text \<open>
  The environment's side: no message has one of the 499 sizes that wrap the chunk count, fewer than \<open>2 ^ 64\<close>
  messages are sent, a datagram fits the receive buffer, and acknowledgements are honest.
\<close>

fun env_ok :: "udp_event \<Rightarrow> udp_connection \<Rightarrow> bool" where
  "env_ok (Send m) c = (\<not> (65535 * UDP_CHuNK_SIZE < length (em_data m) \<and> length (em_data m) \<le> MAX_MESSAGE_SIZE))"
| "env_ok RunNext c = (u_sequence c < u_sequence c + 1)"
| "env_ok (Received err host port d) c = (length d \<le> MAX_UDP_BUFF_SIZE \<and> read_honest c d)"
| "env_ok _ c = True"

lemma udp_handle_ok:
  assumes ok: "conn_ok c" and env: "env_ok e c"
  shows "\<exists>c'. udp_handle va e c = Ok c' \<and> conn_ok c'"
proof (cases e)
  case (Send m)
  then show ?thesis using ok env
    by (auto simp: connection_send_def conn_ok_def conn_core_def post_def message_fits_def)
next
  case RunNext
  show ?thesis
  proof (cases "u_io c")
    case Nil
    then show ?thesis using RunNext ok by simp
  next
    case (Cons t ts)
    let ?c = "c\<lparr>u_io := ts\<rparr>"
    have ok1: "conn_ok ?c" using ok Cons by (auto simp: conn_ok_def conn_core_def)
    have "\<exists>c'. run_task va t ?c = Ok c' \<and> conn_ok c'"
    proof (cases t)
      case (AddToWorkingSet m)
      have "message_fits m" using ok Cons AddToWorkingSet by (simp add: conn_ok_def)
      then have "\<exists>c'. add_to_working_set m ?c = Ok c' \<and> conn_core c' \<and> u_out_queue c' = u_out_queue ?c \<and> u_io c' = u_io ?c"
        using add_to_working_set_ok [of ?c m] ok1 env RunNext by (simp add: conn_ok_def)
      then show ?thesis using AddToWorkingSet ok1 by (auto simp: run_task_def conn_ok_def)
    next
      case DoSend
      then show ?thesis using do_send_cases [OF ok1, of va] by (auto simp: run_task_def)
    next
      case Resend
      then show ?thesis using resend_ok [OF ok1] by (simp add: run_task_def)
    qed
    then show ?thesis using RunNext Cons by simp
  qed
next
  case Tick
  then show ?thesis using ok by (auto simp: post_def conn_ok_def conn_core_def)
next
  case (Written err)
  have "conn_ok (c\<lparr>u_error := err\<rparr>)" using ok by (simp add: conn_ok_def conn_core_def)
  then show ?thesis using Written do_send_cases [of "c\<lparr>u_error := err\<rparr>" va] by (auto simp: handle_write_def)
next
  case (Received err host port d)
  then show ?thesis using handle_read_ok [OF ok, of d] env by simp
qed

inductive udp_reach :: "(string \<Rightarrow> bool) \<Rightarrow> udp_connection \<Rightarrow> bool" for va where
  start: "udp_reach va udp_connection_new"
| step: "udp_reach va c \<Longrightarrow> env_ok e c \<Longrightarrow> udp_handle va e c = Ok c' \<Longrightarrow> udp_reach va c'"

inductive_cases udp_reachE: "udp_reach va c"

lemma udp_reach_ok: "udp_reach va c \<Longrightarrow> conn_ok c"
proof (induction rule: udp_reach.induct)
  case start
  then show ?case
    by (simp add: conn_ok_def conn_core_def udp_connection_new_def queue_new_def acks_only_def in_working_ok_def)
next
  case (step c e c')
  then show ?case using udp_handle_ok [of c e va] by auto
qed

section \<open>Properties of the connection\<close>

lemma unfit_task_exits:
  assumes "65535 * UDP_CHuNK_SIZE < length (em_data m)" "length (em_data m) \<le> MAX_MESSAGE_SIZE" "u_io c = []"
  shows "connection_send m c = (True, post DoSend (post (AddToWorkingSet m) c)) \<and> udp_handle va RunNext (post DoSend (post (AddToWorkingSet m) c)) = Exit"
proof -
  have "em_data m \<noteq> []" using assms(1) by auto
  then show ?thesis using assms total_chunks_wraps [OF assms(1,2)]
    by (simp add: connection_send_def post_def run_task_def add_to_working_set_def create_prototype_def Let_def contract_def)
qed

text \<open>
  C4. In every state that a UDP connection can reach in the environment of \<open>env_ok\<close>, every event of that environment is handled without a failed contract check, an access
  outside a container, a dangling ring item or an endless round-robin loop: sends of any size but the 499 that wrap the chunk count, posted handlers before the
  \<open>2 ^ 64\<close>th message, resend ticks, completed writes, and arbitrary datagrams whose acknowledgements are of chunks that were sent.  The 499 sizes have to be left out:
  \<^verbatim>\<open>send\<close> takes such a message in any of these states, and the handler it posts ends the process.
\<close>

theorem udp_connection_safe:
  assumes "udp_reach va c"
  shows "(\<forall>e. env_ok e c \<longrightarrow> (\<exists>c'. udp_handle va e c = Ok c')) \<and>
    (\<forall>m. \<not> env_ok (Send m) c \<and> u_io c = [] \<longrightarrow> fst (connection_send m c) \<and> bindO (udp_handle va (Send m) c) (udp_handle va RunNext) = Exit)"
proof (intro conjI allI impI)
  show "\<exists>c'. udp_handle va e c = Ok c'" if "env_ok e c" for e using udp_handle_ok [OF udp_reach_ok [OF assms] that] by blast
  fix m assume "\<not> env_ok (Send m) c \<and> u_io c = []"
  then have m: "65535 * UDP_CHuNK_SIZE < length (em_data m)" "length (em_data m) \<le> MAX_MESSAGE_SIZE" "u_io c = []" by simp_all
  from unfit_task_exits [OF m, of va] show "fst (connection_send m c)" "bindO (udp_handle va (Send m) c) (udp_handle va RunNext) = Exit" by simp_all
qed

theorem udp_connection_safe_witness:
  "(\<exists>c'. udp_handle (\<lambda>_. True) (Received False ''h'' 7 ''garbage'') udp_connection_new = Ok c')"
proof -
  have "env_ok (Received False ''h'' 7 ''garbage'') udp_connection_new"
    by (simp add: read_honest_def udp_layout decode_udp_wire_def)
  then show ?thesis using udp_connection_safe [OF udp_reach.start, of "\<lambda>_. True"] by blast
qed

text \<open>
  The window: for every outgoing message of a reachable connection, chunks queued or in flight never exceed
  \<^verbatim>\<open>MAX_FLIGHT\<close>, the counters are exactly the chunks queued but not sent and (for robust messages) sent but not acknowledged, and an
  acknowledged chunk has been sent.
\<close>

theorem udp_window:
  assumes "udp_reach va c" "map_of (u_out_working c) s = Some wm"
  shows "wm_in_flight wm + wm_queued wm \<le> MAX_FLIGHT \<and>
    wm_queued wm = wm_next_send wm - bit_count (wm_sent wm) \<and>
    (ch_type (wm_proto wm) = msg \<longrightarrow> wm_in_flight wm = bit_count (wm_sent wm) - bit_count (wm_set wm)) \<and>
    (\<forall>i < unat (ch_total (wm_proto wm)). wm_set wm ! i \<longrightarrow> wm_sent wm ! i)"
proof -
  have "out_wm_ok s wm" using udp_reach_ok [OF assms(1)] conn_core_wm assms(2) by (auto simp: conn_ok_def)
  then show ?thesis by (auto simp: out_wm_ok_def Let_def)
qed

text \<open>
  The round robin is work conserving: \<^verbatim>\<open>do_send\<close> puts one datagram on the wire unless there is no ack to send and every message
  in the ring is blocked, that is, has its window full or everything sent, and nothing to resend.
\<close>

theorem do_send_work_conserving:
  assumes "udp_reach va c" "\<forall>h. va h"
  shows "\<exists>c'. do_send va c = Ok c' \<and>
    ((\<exists>d. u_wire c' = u_wire c @ [d]) \<or>
     q_items (u_out_queue c) = [] \<and>
     (\<forall>(s, resends) \<in> set (u_ring c). q_items resends = [] \<and>
        (\<exists>wm. map_of (u_out_working c) s = Some wm \<and> get_next_chunk wm = Ok (None, wm))))"
proof -
  have ok: "conn_ok c" "conn_core c" using udp_reach_ok [OF assms(1)] by (simp_all add: conn_ok_def)
  have blocked: "q_items q = [] \<and> (\<exists>wm. map_of (u_out_working c) s = Some wm \<and> get_next_chunk wm = Ok (None, wm))"
    if all: "\<forall>i < length (u_ring c). item_blocked c i" and mem: "(s, q) \<in> set (u_ring c)" for s q
  proof -
    obtain i where i: "i < length (u_ring c)" "u_ring c ! i = (s, q)" using mem by (auto simp: in_set_conv_nth)
    obtain wm where "map_of (u_out_working c) s = Some wm" "wm_at (u_out_working c) s = wm"
      using conn_core_ring_wm [OF ok(2) mem] by metis
    then show ?thesis using all i by (auto simp: item_blocked_def)
  qed
  obtain c' where c': "do_send va c = Ok c'"
    "(\<exists>d. u_wire c' = u_wire c @ [d]) \<or> (\<exists>h. \<not> va h) \<or>
     u_wire c' = u_wire c \<and> q_items (u_out_queue c) = [] \<and> (\<forall>i < length (u_ring c). item_blocked c i)"
    using do_send_cases [OF ok(1), of va] by blast
  then show ?thesis using assms(2) blocked by fast
qed

definition ack_datagram :: "u64 \<Rightarrow> u16 \<Rightarrow> u16 \<Rightarrow> bytes" where
  "ack_datagram s t n =
     wire_header (chunk_default\<lparr>ch_type := ack, ch_sequence := s, ch_total := t, ch_chunk := n\<rparr>)"

lemma handle_read_ack:
  "handle_read False host port (ack_datagram s t n) c =
    bindO (validate_chunk (chunk_default\<lparr>ch_type := ack, ch_sequence := s, ch_total := t, ch_chunk := n, ch_valid := True\<rparr>)
        (c\<lparr>u_stats := (u_stats c)\<lparr>st_bytes_recv := st_bytes_recv (u_stats c) + 13\<rparr>\<rparr>)) (\<lambda>c2. Ok (post_send c2))"
proof -
  let ?ch = "chunk_default\<lparr>ch_type := ack, ch_sequence := s, ch_total := t, ch_chunk := n\<rparr>"
  have "decode_udp_wire (wire_header ?ch @ []) = Ok (?ch\<lparr>ch_valid := True\<rparr>)"
    using decode_udp_wire_header [of "[]" ?ch] by (simp add: chunk_default_def)
  then show ?thesis
    by (simp add: handle_read_def ack_datagram_def udp_layout Let_def del: bindO_Ok_iff)
qed

text \<open>
  A forged acknowledgement ends the process: if all chunks of an outgoing message but one are
  acknowledged and that one has not been sent yet, a datagram that acknowledges it makes \<^verbatim>\<open>validate_chunk\<close> fail
  \<^verbatim>\<open>CHECK_EQUAL(wm.sent.count(), wm.proto.total_chunks)\<close>.
\<close>

theorem forged_ack_exits:
  assumes "udp_reach va c" "map_of (u_out_working c) s = Some wm"
    and "n < ch_total (wm_proto wm)" "\<not> wm_sent wm ! unat n"
    and "\<forall>i < unat (ch_total (wm_proto wm)). i \<noteq> unat n \<longrightarrow> wm_set wm ! i"
  shows "udp_handle va (Received False host port (ack_datagram s (ch_total (wm_proto wm)) n)) c = Exit"
proof -
  define t where "t = unat (ch_total (wm_proto wm))"
  have ok: "out_wm_ok s wm" using udp_reach_ok [OF assms(1)] conn_core_wm assms(2) by (auto simp: conn_ok_def)
  have l: "length (wm_set wm) = t" "length (wm_sent wm) = t" "\<forall>i < t. wm_set wm ! i \<longrightarrow> wm_sent wm ! i"
    using ok by (simp_all add: out_wm_ok_def Let_def t_def)
  have n: "unat n < t" "\<not> wm_set wm ! unat n" using assms(3,4) l(3) by (auto simp: t_def word_less_nat_alt)
  have full: "bit_count ((wm_set wm)[unat n := True]) = t"
    using bit_count_full [of "(wm_set wm)[unat n := True]"] l(1) assms(5) n(1)
    by (auto simp: t_def nth_list_update)
  have part: "bit_count (wm_sent wm) \<noteq> t"
    using bit_count_full [of "wm_sent wm"] l(2) assms(4) n(1) by auto
  let ?ch = "chunk_default\<lparr>ch_type := ack, ch_sequence := s, ch_total := ch_total (wm_proto wm), ch_chunk := n, ch_valid := True\<rparr>"
  have "validate_chunk ?ch c1 = Exit" if "u_out_working c1 = u_out_working c" for c1
  proof -
    have "\<not> ch_total (wm_proto wm) \<le> n" "\<not> length (wm_set wm) \<le> unat n"
      using assms(3) n(1) l(1) by (simp_all add: linorder_not_le)
    then show ?thesis using that assms(2) n(2) full part
      by (simp add: validate_chunk_def Let_def t_def contract_def)
  qed
  then show ?thesis by (simp add: handle_read_ack)
qed

definition hello_message :: endpoint_message where
  "hello_message = \<lparr>em_ep = \<lparr>ep_protocol = ''udp'', ep_address = ''h'', ep_port = 1\<rparr>, em_data = ''hello'', em_robust = True\<rparr>"

definition hello_queued :: udp_connection where
  "hello_queued = (case add_to_working_set hello_message (udp_connection_new\<lparr>u_io := [DoSend]\<rparr>) of Ok c \<Rightarrow> c | _ \<Rightarrow> udp_connection_new)"

lemma hello_total: "total_chunks (Suc (Suc (Suc (Suc (Suc 0))))) = Ok 1"
  by (simp add: total_chunks_def udp_layout word_less_nat_alt)

lemma hello_added: "add_to_working_set hello_message (udp_connection_new\<lparr>u_io := [DoSend]\<rparr>) = Ok hello_queued"
  by (simp add: hello_queued_def add_to_working_set_def hello_message_def create_prototype_def hello_total init_working_def
      Let_def word_less_nat_alt udp_connection_new_def chunk_default_def del: bindO_Ok_iff)

lemma hello_reach: "udp_reach (\<lambda>_. True) hello_queued"
proof -
  let ?c1 = "udp_connection_new\<lparr>u_io := [AddToWorkingSet hello_message, DoSend]\<rparr>"
  have s: "udp_handle (\<lambda>_. True) (Send hello_message) udp_connection_new = Ok ?c1"
    by (simp add: connection_send_def hello_message_def udp_layout post_def udp_connection_new_def)
  have e: "env_ok (Send hello_message) udp_connection_new" by (simp add: hello_message_def udp_layout)
  have r1: "udp_reach (\<lambda>_. True) ?c1" by (rule udp_reach.step [OF udp_reach.start e s])
  have "udp_handle (\<lambda>_. True) RunNext ?c1 = Ok hello_queued" using hello_added by (simp add: run_task_def)
  moreover have "env_ok RunNext ?c1" by (simp add: udp_connection_new_def)
  ultimately show ?thesis using udp_reach.step [OF r1] by blast
qed

lemma hello_wm:
  "\<exists>wm. map_of (u_out_working hello_queued) 1 = Some wm \<and> ch_total (wm_proto wm) = 1 \<and> wm_sent wm = [False] \<and> wm_set wm = [False]"
  by (simp add: hello_queued_def add_to_working_set_def hello_message_def create_prototype_def hello_total init_working_def
      Let_def word_less_nat_alt udp_connection_new_def chunk_default_def put_out_def bits_resize_def wm_at_def wm_default_def
      del: bindO_Ok_iff)

theorem forged_ack_exits_witness:
  "udp_handle (\<lambda>_. True) (Received False ''evil'' 9 (ack_datagram 1 1 0)) hello_queued = Exit"
proof -
  obtain wm where wm: "map_of (u_out_working hello_queued) 1 = Some wm" "ch_total (wm_proto wm) = 1" "wm_sent wm = [False]"
    using hello_wm by blast
  show ?thesis using forged_ack_exits [OF hello_reach wm(1), of 0 "''evil''" 9] wm by (simp add: word_less_nat_alt)
qed

theorem udp_window_witness:
  "\<exists>wm. map_of (u_out_working hello_queued) 1 = Some wm \<and> wm_in_flight wm + wm_queued wm \<le> MAX_FLIGHT"
  using hello_wm udp_window [OF hello_reach] by blast

theorem do_send_work_conserving_witness:
  "\<exists>c'. do_send (\<lambda>_. True) hello_queued = Ok c'"
  using do_send_work_conserving [OF hello_reach] by blast

section \<open>End to end\<close>

text \<open>A sender with one quick message, \<open>k\<close> of whose \<open>t\<close> chunks have been sent.\<close>

definition quick_wm :: "message_chunk \<Rightarrow> bytes \<Rightarrow> nat \<Rightarrow> working_message" where
  "quick_wm p data k = wm_default\<lparr>wm_proto := p, wm_data := data, wm_set := replicate (unat (ch_total p)) False,
     wm_sent := replicate k True @ replicate (unat (ch_total p) - k) False, wm_next_send := k\<rparr>"

definition quick_state :: "message_chunk \<Rightarrow> bytes \<Rightarrow> nat \<Rightarrow> udp_connection \<Rightarrow> bool" where
  "quick_state p data k c \<longleftrightarrow> q_items (u_out_queue c) = [] \<and>
     (if k < unat (ch_total p)
      then u_ring c = [(ch_sequence p, queue_new)] \<and> u_out_working c = [(ch_sequence p, quick_wm p data k)]
      else u_ring c = [] \<and> u_out_working c = [])"

definition chunk_datagram :: "message_chunk \<Rightarrow> bytes \<Rightarrow> nat \<Rightarrow> bytes" where
  "chunk_datagram p data n = wire_header (p\<lparr>ch_chunk := of_nat n\<rparr>) @ chunk_bytes data n"

lemma sent_prefix_update:
  "k < t \<Longrightarrow> (replicate k True @ replicate (t - k) False)[k := True] = replicate (Suc k) True @ replicate (t - Suc k) False"
  by (simp add: list_update_append Suc_diff_Suc [symmetric] replicate_app_Cons_same)

lemma bit_count_append [simp]: "bit_count (as @ bs) = bit_count as + bit_count bs"
  by (simp add: bit_count_def)

lemma bit_count_replicate_True [simp]: "bit_count (replicate n True) = n"
  by (induction n) auto

lemma do_send_quick:
  assumes q: "quick_state p data k c" and k: "k < unat (ch_total p)" and sp: "splits_into data (unat (ch_total p))"
    and p: "ch_type p = qmsg" "\<not> ch_resent p" "va (ch_host p)"
  shows "\<exists>c'. do_send va c = Ok c' \<and> quick_state p data (Suc k) c' \<and>
    u_wire c' = u_wire c @ [((ch_host p, ch_port p), chunk_datagram p data k)]"
proof -
  define t where "t = unat (ch_total p)"
  define s where "s = ch_sequence p"
  define ch where "ch = p\<lparr>ch_chunk := of_nat k, ch_write := Some (chunk_bytes data k)\<rparr>"
  let ?wm = "quick_wm p data k"
  have e: "q_items (u_out_queue c) = []" and r: "u_ring c = [(s, queue_new)]" and w: "u_out_working c = [(s, ?wm)]"
    using q k by (simp_all add: quick_state_def s_def)
  have tot: "ch_total p > 0" using k by (simp add: word_less_nat_alt)
  have nk: "nth_chunk k p data = Ok ch" using nth_chunk_eq [OF sp k] by (simp add: ch_def)
  have un: "unat (of_nat k :: u16) = k"
    using k u16_bound [of "ch_total p"] by (simp add: unat_of_nat take_bit_nat_eq_self)
  define wm1 where "wm1 = ?wm\<lparr>wm_next_send := Suc k, wm_queued := 1\<rparr>"
  have g: "get_next_chunk ?wm = Ok (Some ch, wm1)"
    using tot k p(1) nk by (simp add: get_next_chunk_def quick_wm_def wm_default_def wm1_def MAX_FLIGHT_def)
  define c1 where "c1 = c\<lparr>u_next_message := 0, u_out_queue := (u_out_queue c)\<lparr>q_items := [ch]\<rparr>, u_out_working := [(s, wm1)]\<rparr>"
  have incr: "incr_next_message c = Ok (True, c\<lparr>u_next_message := 0\<rparr>)"
    using r by (simp add: incr_next_message_def)
  have turn: "queue_turn (c\<lparr>u_next_message := 0\<rparr>) = Ok (True, c1)"
    using r w g e by (simp add: queue_turn_def wm_at_def queue_emplace_push_Ok put_out_def c1_def del: bindO_Ok_iff)
  have nx: "queue_next_chunk c = Ok c1"
    using incr turn r by (simp add: queue_next_chunk_def del: bindO_Ok_iff)
  define b where "b = chunk_datagram p data k"
  have enc: "encode_udp_wire (u_out_buffer c1) ch = Ok b"
    using encode_udp_wire_eq [of _ ch] by (simp add: b_def chunk_datagram_def ch_def write_bytes_def wire_header_def)
  define c3 where "c3 = c1\<lparr>u_out_queue := (u_out_queue c1)\<lparr>q_items := []\<rparr>, u_out_buffer := b,
     u_stats := (u_stats c1)\<lparr>st_bytes_sent := st_bytes_sent (u_stats c1) + length b\<rparr>,
     u_wire := u_wire c1 @ [((ch_host p, ch_port p), b)]\<rparr>"
  have chf: "ch_host ch = ch_host p" "ch_port ch = ch_port p" "ch_type ch = qmsg" "\<not> ch_resent ch" "ch_sequence ch = s"
    "unat (ch_chunk ch) = k" using p un by (simp_all add: ch_def s_def)
  have run: "do_send va c = sent_chunk ch c3"
    using e nx enc chf p(3)
    by (simp add: do_send_def c3_def queue_pop_def Let_def c1_def del: bindO_Ok_iff)
  define wm2 where "wm2 = quick_wm p data (Suc k)"
  have wm2: "wm1\<lparr>wm_sent := (wm_sent wm1)[k := True], wm_queued := 0\<rparr> = wm2"
    using sent_prefix_update [of k t] k by (simp add: wm1_def wm2_def quick_wm_def t_def wm_default_def)
  have all: "all_sent wm2 \<longleftrightarrow> Suc k = t"
    using k by (simp add: all_sent_def wm2_def quick_wm_def t_def)
  have lw: "\<not> length (wm_sent wm1) \<le> k" "wm_queued wm1 = 1" "ch_type (wm_proto wm2) = qmsg"
    using k p(1) by (simp_all add: wm1_def wm2_def quick_wm_def)
  have at: "wm_at (u_out_working c3) s = wm1" by (simp add: c3_def c1_def wm_at_def)
  have put: "put_out s wm2 c3 = c3\<lparr>u_out_working := [(s, wm2)]\<rparr>" by (simp add: put_out_def c3_def c1_def)
  have sent: "sent_chunk ch c3 = (if Suc k = t then cleanup_message s (put_out s wm2 c3) else Ok (put_out s wm2 c3))"
    using chf lw at wm2 all by (simp add: sent_chunk_def Let_def)
  have ring3: "u_ring c3 = [(s, queue_new)]" using r by (simp add: c3_def c1_def)
  have wire: "u_wire c3 = u_wire c @ [((ch_host p, ch_port p), b)]" "q_items (u_out_queue c3) = []"
    by (simp_all add: c3_def c1_def)
  show ?thesis
  proof (cases "Suc k = t")
    case True
    have "item_sequence (put_out s wm2 c3) (s, queue_new) = s"
      unfolding item_sequence_def put by (simp add: wm_at_def) (simp add: wm2_def quick_wm_def s_def)
    then have "cleanup_message s (put_out s wm2 c3) = Ok (c3\<lparr>u_ring := [], u_out_working := []\<rparr>)"
      using ring3 by (simp add: cleanup_message_def put alist_del_def)
    then show ?thesis using run sent True wire by (simp add: quick_state_def t_def b_def)
  next
    case False
    then have "Suc k < t" using k by (simp add: t_def)
    then show ?thesis using run sent False wire put ring3
      by (simp add: quick_state_def t_def b_def s_def wm2_def)
  qed
qed

lemma bindO_foldO_Nil [simp]: "bindO m (foldO f []) = m"
  by (cases m) auto

lemma quick_sends:
  assumes "quick_state p data k c" "k + j \<le> unat (ch_total p)" "splits_into data (unat (ch_total p))"
    "ch_type p = qmsg" "\<not> ch_resent p" "va (ch_host p)"
  shows "\<exists>c'. foldO (\<lambda>_. do_send va) [0..<j] c = Ok c' \<and> quick_state p data (k + j) c' \<and>
    u_wire c' = u_wire c @ map (\<lambda>n. ((ch_host p, ch_port p), chunk_datagram p data n)) [k..<k + j]"
  using assms
proof (induction j)
  case (Suc j)
  then obtain c1 where c1: "foldO (\<lambda>_. do_send va) [0..<j] c = Ok c1" "quick_state p data (k + j) c1"
    "u_wire c1 = u_wire c @ map (\<lambda>n. ((ch_host p, ch_port p), chunk_datagram p data n)) [k..<k + j]" by auto
  obtain c2 where c2: "do_send va c1 = Ok c2" "quick_state p data (Suc (k + j)) c2"
    "u_wire c2 = u_wire c1 @ [((ch_host p, ch_port p), chunk_datagram p data (k + j))]"
    using do_send_quick [where va = va, OF c1(2) _ Suc.prems(3,4,5,6)] Suc.prems(2) by auto
  then show ?case using c1 by (simp add: foldO_append del: bindO_Ok_iff)
qed simp

definition wire_proto :: "message_chunk \<Rightarrow> message_chunk" where
  "wire_proto p = chunk_default\<lparr>ch_type := ch_type p, ch_sequence := ch_sequence p, ch_total := ch_total p, ch_valid := True\<rparr>"

definition delivered :: "string \<Rightarrow> u16 \<Rightarrow> bytes \<Rightarrow> endpoint_message" where
  "delivered host port data = \<lparr>em_ep = \<lparr>ep_protocol = UDP, ep_address = host, ep_port = port\<rparr>, em_data = data, em_robust = False\<rparr>"

lemma decode_chunk_datagram:
  "decode_udp_wire (chunk_datagram p data n) = Ok (received (wire_proto p) data n)"
proof -
  have "length (chunk_bytes data n) \<le> MAX_UDP_BUFF_SIZE" by (simp add: chunk_bytes_def udp_layout)
  from decode_udp_wire_header [OF this, of "p\<lparr>ch_chunk := of_nat n\<rparr>"] show ?thesis
    by (simp add: chunk_datagram_def received_def wire_proto_def chunk_default_def)
qed

lemma handle_read_chunk:
  assumes "ch_type p = qmsg"
    and "insert_chunk (received (wire_proto p) data n) (u_in_working c) = Ok (d, w)"
  shows "\<exists>c'. handle_read False host port (chunk_datagram p data n) c = Ok c' \<and> u_in_working c' = w \<and>
    q_items (u_in_queue c') = q_items (u_in_queue c) @ (case d of None \<Rightarrow> [] | Some x \<Rightarrow> [delivered host port x])"
proof -
  have l: "HEADER_SIZE \<le> length (chunk_datagram p data n)" "length (chunk_datagram p data n) \<le> MAX_UDP_BUFF_SIZE"
    by (simp_all add: chunk_datagram_def chunk_bytes_def udp_layout)
  have f: "ch_valid (received (wire_proto p) data n)" "ch_type (received (wire_proto p) data n) = qmsg"
    using assms(1) by (simp_all add: received_def wire_proto_def)
  show ?thesis
    using assms(2) l f
    by (cases d) (simp_all add: handle_read_def decode_chunk_datagram Let_def queue_emplace_push_Ok delivered_def del: bindO_Ok_iff)
qed

lemma handle_reads:
  assumes "ch_type p = qmsg"
    and "insert_all (map (received (wire_proto p) data) ns) (u_in_working c) = Ok (ds, w)"
  shows "\<exists>c'. foldO (\<lambda>n. handle_read False host port (chunk_datagram p data n)) ns c = Ok c' \<and> u_in_working c' = w \<and>
    q_items (u_in_queue c') = q_items (u_in_queue c) @ map (delivered host port) ds"
  using assms(2)
proof (induction ns arbitrary: c ds)
  case (Cons n ns)
  from Cons.prems obtain d w1 ds1 where i: "insert_chunk (received (wire_proto p) data n) (u_in_working c) = Ok (d, w1)"
      "insert_all (map (received (wire_proto p) data) ns) w1 = Ok (ds1, w)"
      "ds = (case d of None \<Rightarrow> ds1 | Some x \<Rightarrow> x # ds1)" by auto
  obtain c1 where c1: "handle_read False host port (chunk_datagram p data n) c = Ok c1" "u_in_working c1 = w1"
      "q_items (u_in_queue c1) = q_items (u_in_queue c) @ (case d of None \<Rightarrow> [] | Some x \<Rightarrow> [delivered host port x])"
    using handle_read_chunk [OF assms(1) i(1)] by blast
  obtain c2 where "foldO (\<lambda>n. handle_read False host port (chunk_datagram p data n)) ns c1 = Ok c2" "u_in_working c2 = w"
      "q_items (u_in_queue c2) = q_items (u_in_queue c1) @ map (delivered host port) ds1"
    using Cons.IH [of c1 ds1] i(2) c1(2) by auto
  then show ?case using c1 i(3) by (cases d) (simp_all del: bindO_Ok_iff)
qed simp

text \<open>How often a collector that forgets everything when it is complete becomes complete.\<close>

primrec completions :: "nat \<Rightarrow> nat set \<Rightarrow> nat list \<Rightarrow> nat" where
  "completions t A [] = 0"
| "completions t A (n # ns) = (if insert n A = {..<t} then Suc (completions t {} ns) else completions t (insert n A) ns)"

lemma completions_part: "A \<union> set ns \<subset> {..<t} \<Longrightarrow> completions t A (ns @ ms) = completions t (A \<union> set ns) ms"
proof (induction ns arbitrary: A)
  case (Cons n ns)
  then have "insert n A \<noteq> {..<t}" by auto
  then show ?case using Cons.IH [of "insert n A"] Cons.prems by simp
qed simp

lemma completions_round:
  "n \<notin> set ns \<Longrightarrow> insert n (set ns) = {..<t} \<Longrightarrow> completions t {} (ns @ n # ms) = Suc (completions t {} ms)"
  using completions_part [of "{}" ns t "n # ms"] by auto

lemma first_round:
  "{..<t} \<subseteq> set ns \<Longrightarrow> set ns \<subseteq> {..<t} \<Longrightarrow> 0 < t \<Longrightarrow> \<exists>xs n ms. ns = xs @ n # ms \<and> n \<notin> set xs \<and> insert n (set xs) = {..<t}"
proof (induction ns rule: rev_induct)
  case (snoc n ns)
  show ?case
  proof (cases "{..<t} \<subseteq> set ns")
    case True
    then obtain xs k ms where "ns = xs @ k # ms" "k \<notin> set xs" "insert k (set xs) = {..<t}" using snoc by auto
    then show ?thesis by (intro exI [of _ xs] exI [of _ k] exI [of _ "ms @ [n]"]) simp
  next
    case False
    then show ?thesis using snoc.prems by (intro exI [of _ ns] exI [of _ n] exI [of _ "[]"]) auto
  qed
qed auto

lemma reassemble_some:
  assumes "0 < length data" "length data \<le> 65535 * UDP_CHuNK_SIZE" "total_chunks (length data) = Ok (ch_total p)" "ch_type p \<noteq> ack" "map_of w (ch_sequence p) = None"
    and "set ns \<subset> {..<unat (ch_total p)}"
  shows "\<exists>w'. insert_all (map (received p data) ns) w = Ok ([], w')"
proof -
  let ?t = "unat (ch_total p)"
  obtain n where n: "n < ?t" "n \<notin> set ns" using assms(6) by auto
  obtain ms where ms: "set ms = {..<?t} - set ns - {n}" using finite_list [of "{..<?t} - set ns - {n}"] by auto
  have s: "n \<notin> set (ns @ ms)" "insert n (set (ns @ ms)) = {..<?t}" using n ms assms(6) by auto
  obtain w' where w: "insert_all (map (received p data) (ns @ ms)) w = Ok ([], w')" using reassemble [OF assms(1-5) n(1) s] by blast
  show ?thesis
  proof (cases "insert_all (map (received p data) ns) w")
    case (Ok r)
    then obtain d w1 where r: "insert_all (map (received p data) ns) w = Ok (d, w1)" by (cases r) auto
    then have "d = []" using w by (auto simp: insert_all_append)
    then show ?thesis using r by simp
  qed (use w in \<open>simp_all add: insert_all_append\<close>)
qed

text \<open>Whatever chunks of a message come, in whatever order and how often, the message is delivered each time that they have become complete.\<close>

lemma reassemble_any:
  assumes "0 < length data" "length data \<le> 65535 * UDP_CHuNK_SIZE" "total_chunks (length data) = Ok (ch_total p)" "ch_type p \<noteq> ack" "map_of w (ch_sequence p) = None"
    and "set ns \<subseteq> {..<unat (ch_total p)}"
  shows "\<exists>w'. insert_all (map (received p data) ns) w = Ok (replicate (completions (unat (ch_total p)) {} ns) data, w')"
  using assms(6)
proof (induction ns rule: length_induct)
  case (1 ns)
  let ?t = "unat (ch_total p)"
  show ?case
  proof (cases "set ns = {..<?t} \<and> 0 < ?t")
    case True
    then obtain xs n ms where ns: "ns = xs @ n # ms" and n: "n \<notin> set xs" "insert n (set xs) = {..<?t}" using first_round [of ?t ns] by auto
    have "n < ?t" using n(2) by auto
    then have one: "insert_all (map (received p data) (xs @ [n])) w = Ok ([data], w)" using reassemble [OF assms(1-5) _ n] by blast
    obtain w' where w': "insert_all (map (received p data) ms) w = Ok (replicate (completions ?t {} ms) data, w')"
      using "1.IH" "1.prems" ns by (metis (no_types, lifting) Suc_leI Un_subset_iff add_Suc_right le_add2 le_imp_less_Suc length_Cons length_append set_append set_subset_Cons subset_trans)
    have "map (received p data) ns = map (received p data) (xs @ [n]) @ map (received p data) ms" by (simp add: ns)
    then have "insert_all (map (received p data) ns) w = Ok (data # replicate (completions ?t {} ms) data, w')"
      using one w' by (simp only: insert_all_append) simp
    then show ?thesis using completions_round [OF n, of ms] ns by simp
  next
    case False
    show ?thesis
    proof (cases "ns = []")
      case nonempty: False
      then have s: "set ns \<subset> {..<?t}" using False "1.prems" by (cases ns) auto
      then show ?thesis using reassemble_some [OF assms(1-5) s] completions_part [of "{}" ns ?t "[]"] by simp
    qed simp
  qed
qed

lemma completions_once: "n \<notin> set ns \<Longrightarrow> insert n (set ns) = {..<t} \<Longrightarrow> completions t {} (ns @ [n]) = 1"
  using completions_round [of n ns t "[]"] by simp

text \<open>What a new connection puts on the wire for a quick message: the datagrams of its chunks, in order; \<open>p\<close> is the header they share.\<close>

lemma quick_message_sent:
  assumes "message_fits m" "\<not> em_robust m" "va (ep_address (em_ep m))"
  shows "\<exists>c1 c2 p. add_to_working_set m udp_connection_new = Ok c1 \<and> foldO (\<lambda>_. do_send va) [0..<unat (ch_total p)] c1 = Ok c2 \<and> u_out_working c2 = [] \<and> u_ring c2 = [] \<and>
    u_wire c2 = map (\<lambda>n. ((ep_address (em_ep m), ep_port (em_ep m)), chunk_datagram p (em_data m) n)) [0..<unat (ch_total p)] \<and>
    total_chunks (length (em_data m)) = Ok (ch_total p) \<and> 0 < unat (ch_total p) \<and> ch_type p = qmsg \<and>
    ch_total (wire_proto p) = ch_total p \<and> ch_sequence (wire_proto p) = 1 \<and> ch_type (wire_proto p) \<noteq> ack"
proof -
  have len: "0 < length (em_data m)" "length (em_data m) \<le> 65535 * UDP_CHuNK_SIZE"
    using assms(1) by (simp_all add: message_fits_def)
  obtain t where t: "total_chunks (length (em_data m)) = Ok t"
    "unat t = (length (em_data m) + UDP_CHuNK_SIZE - 1) div UDP_CHuNK_SIZE"
    using total_chunks_fits [OF len] by blast
  have sp: "splits_into (em_data m) (unat t)" using splits_intoI [OF len(1) t(2)] .
  have t0: "t > 0" "unat t > 0" using sp by (simp_all add: splits_into_def word_less_nat_alt)
  define p where "p = chunk_default\<lparr>ch_valid := True, ch_type := qmsg,
       ch_host := ep_address (em_ep m), ch_port := ep_port (em_ep m), ch_sequence := 1, ch_total := t, ch_chunk := 0\<rparr>"
  define c1 where "c1 = udp_connection_new\<lparr>u_sequence := 1, u_out_working := [(1, quick_wm p (em_data m) 0)], u_ring := [(1, queue_new)]\<rparr>"
  have ne: "em_data m \<noteq> []" using len(1) by auto
  have add: "add_to_working_set m udp_connection_new = Ok c1"
    using ne t(1) t0(1) assms(2)
    by (simp add: add_to_working_set_def create_prototype_def init_working_def wm_at_def bits_resize_def
        wm_default_def udp_connection_new_def c1_def quick_wm_def p_def Let_def put_out_def del: bindO_Ok_iff)
  have q: "quick_state p (em_data m) 0 c1"
    using t0 by (simp add: quick_state_def c1_def p_def udp_connection_new_def queue_new_def)
  have pf: "ch_type p = qmsg" "\<not> ch_resent p" "va (ch_host p)" "ch_total p = t" "ch_host p = ep_address (em_ep m)"
    "ch_port p = ep_port (em_ep m)" "u_wire c1 = []"
    using assms(3) by (simp_all add: p_def chunk_default_def c1_def udp_connection_new_def)
  obtain c2 where c2: "foldO (\<lambda>_. do_send va) [0..<unat t] c1 = Ok c2" "quick_state p (em_data m) (unat t) c2"
    "u_wire c2 = map (\<lambda>n. ((ch_host p, ch_port p), chunk_datagram p (em_data m) n)) [0..<unat t]"
    using quick_sends [OF q, of "unat t" va] sp pf by auto
  have "u_out_working c2 = []" "u_ring c2 = []" using c2(2) pf(4) by (simp_all add: quick_state_def)
  moreover have "ch_total (wire_proto p) = t" "ch_sequence (wire_proto p) = 1" "ch_type (wire_proto p) \<noteq> ack" by (simp_all add: wire_proto_def p_def)
  ultimately show ?thesis using add c2(1,3) pf t(1) t0(2) by (intro exI [of _ c1] exI [of _ c2] exI [of _ p]) simp
qed

lemma datagrams_read:
  assumes "ch_type p = qmsg" "insert_all (map (received (wire_proto p) d) ns) (u_in_working peer) = Ok (xs, w)" "set ns \<subseteq> {..<t}"
  shows "\<exists>peer'. foldO (\<lambda>i. handle_read False host port (map (chunk_datagram p d) [0..<t] ! i)) ns peer = Ok peer' \<and> u_in_working peer' = w \<and>
    q_items (u_in_queue peer') = q_items (u_in_queue peer) @ map (delivered host port) xs"
proof -
  have "foldO (\<lambda>i. handle_read False host port (map (chunk_datagram p d) [0..<t] ! i)) ks c = foldO (\<lambda>i. handle_read False host port (chunk_datagram p d i)) ks c"
    if "set ks \<subseteq> {..<t}" for ks c
    using that
  proof (induction ks arbitrary: c)
    case (Cons x xs)
    then have "map (chunk_datagram p d) [0..<t] ! x = chunk_datagram p d x" by simp
    then show ?case using Cons by (cases "handle_read False host port (chunk_datagram p d x) c") auto
  qed simp
  then show ?thesis using handle_reads [OF assms(1,2)] assms(3) by metis
qed

text \<open>
  C3. End to end: a quick message to a valid address, of a size that the chunk count can hold, given to a new connection is added to the working set, and as many runs of
  \<^verbatim>\<open>do_send\<close> as it has chunks put the chunks' datagrams on the wire in order and forget the message.  A peer that is not collecting a message with its number gets any of
  these datagrams in any order and any number of times without fault, and puts the message, with the sender's address, into its queue each time that it has become complete:
  nothing as long as a chunk is missing, the message once when the last missing chunk comes, and again only after every chunk has come again.
\<close>

theorem quick_message_delivered:
  assumes "message_fits m" "\<not> em_robust m" "va (ep_address (em_ep m))"
    and "map_of (u_in_working peer) 1 = None"
  shows "\<exists>c1 c2 t ds. add_to_working_set m udp_connection_new = Ok c1 \<and>
    foldO (\<lambda>_. do_send va) [0..<t] c1 = Ok c2 \<and> u_out_working c2 = [] \<and> u_ring c2 = [] \<and>
    u_wire c2 = map (\<lambda>d. ((ep_address (em_ep m), ep_port (em_ep m)), d)) ds \<and> length ds = t \<and> 0 < t \<and>
    (\<forall>ns. set ns \<subseteq> {..<t} \<longrightarrow>
      (\<exists>peer'. foldO (\<lambda>i. handle_read False host port (ds ! i)) ns peer = Ok peer' \<and>
        q_items (u_in_queue peer') = q_items (u_in_queue peer) @ replicate (completions t {} ns) (delivered host port (em_data m)))) \<and>
    (\<forall>ns n. n < t \<and> n \<notin> set ns \<and> insert n (set ns) = {..<t} \<longrightarrow> completions t {} ns = 0 \<and> completions t {} (ns @ [n]) = 1 \<and>
      (\<exists>peer'. foldO (\<lambda>i. handle_read False host port (ds ! i)) (ns @ [n]) peer = Ok peer' \<and>
        q_items (u_in_queue peer') = q_items (u_in_queue peer) @ [delivered host port (em_data m)] \<and>
        u_in_working peer' = u_in_working peer))"
proof -
  have len: "0 < length (em_data m)" "length (em_data m) \<le> 65535 * UDP_CHuNK_SIZE" using assms(1) by (simp_all add: message_fits_def)
  obtain c1 c2 p where s: "add_to_working_set m udp_connection_new = Ok c1" "foldO (\<lambda>_. do_send va) [0..<unat (ch_total p)] c1 = Ok c2" "u_out_working c2 = []" "u_ring c2 = []"
    "u_wire c2 = map (\<lambda>n. ((ep_address (em_ep m), ep_port (em_ep m)), chunk_datagram p (em_data m) n)) [0..<unat (ch_total p)]"
    "total_chunks (length (em_data m)) = Ok (ch_total p)" "0 < unat (ch_total p)" "ch_type p = qmsg"
    and f: "ch_total (wire_proto p) = ch_total p" "ch_sequence (wire_proto p) = 1" "ch_type (wire_proto p) \<noteq> ack"
    using quick_message_sent [of m va] assms(1-3) by blast
  let ?t = "unat (ch_total p)"
  define ds where "ds = map (chunk_datagram p (em_data m)) [0..<?t]"
  have wire: "u_wire c2 = map (\<lambda>d. ((ep_address (em_ep m), ep_port (em_ep m)), d)) ds" "length ds = ?t" using s(5) by (simp_all add: ds_def)
  have any: "\<exists>peer'. foldO (\<lambda>i. handle_read False host port (ds ! i)) ns peer = Ok peer' \<and>
        q_items (u_in_queue peer') = q_items (u_in_queue peer) @ replicate (completions ?t {} ns) (delivered host port (em_data m))"
    if n: "set ns \<subseteq> {..<?t}" for ns
  proof -
    obtain w where "insert_all (map (received (wire_proto p) (em_data m)) ns) (u_in_working peer) = Ok (replicate (completions ?t {} ns) (em_data m), w)"
      using reassemble_any [OF len, of "wire_proto p" "u_in_working peer" ns] s(6) f assms(4) n by auto
    then show ?thesis using datagrams_read [OF s(8) _ n] unfolding ds_def by (metis map_replicate)
  qed
  have once: "\<exists>peer'. foldO (\<lambda>i. handle_read False host port (ds ! i)) (ns @ [n]) peer = Ok peer' \<and>
        q_items (u_in_queue peer') = q_items (u_in_queue peer) @ [delivered host port (em_data m)] \<and> u_in_working peer' = u_in_working peer"
    if n: "n < ?t" "n \<notin> set ns" "insert n (set ns) = {..<?t}" for ns n
  proof -
    have "insert_all (map (received (wire_proto p) (em_data m)) (ns @ [n])) (u_in_working peer) = Ok ([em_data m], u_in_working peer)"
      using reassemble [OF len, of "wire_proto p" "u_in_working peer" n ns] s(6) f assms(4) n by simp
    moreover have "set (ns @ [n]) \<subseteq> {..<?t}" using n(3) by auto
    ultimately show ?thesis using datagrams_read [OF s(8), where peer = peer] unfolding ds_def by fastforce
  qed
  have counts: "completions ?t {} ns = 0 \<and> completions ?t {} (ns @ [n]) = 1" if n: "n \<notin> set ns" "insert n (set ns) = {..<?t}" for ns n
    using completions_part [of "{}" ns ?t "[]"] completions_once [OF n] n by auto
  show ?thesis
    by (rule exI [of _ c1], rule exI [of _ c2], rule exI [of _ ?t], rule exI [of _ ds])
      (intro conjI allI impI; (elim conjE)?; (rule s(1-4) wire s(7) any once conjunct1 [OF counts] conjunct2 [OF counts]; assumption?))
qed

theorem quick_message_delivered_witness:
  "\<exists>c1 c2 t. add_to_working_set (hello_message\<lparr>em_robust := False\<rparr>) udp_connection_new = Ok c1 \<and>
     foldO (\<lambda>_. do_send (\<lambda>_. True)) [0..<t] c1 = Ok c2 \<and> u_out_working c2 = []"
  using quick_message_delivered [of "hello_message\<lparr>em_robust := False\<rparr>" "\<lambda>_. True" udp_connection_new]
  by (fastforce simp: hello_message_def message_fits_def udp_layout udp_connection_new_def)

end
