(* ===== verification/Address.thy ===== *)
theory Address
  imports Udp_Connection Lexical
begin

text \<open>
  Addresses and connection parameters: \<^verbatim>\<open>src/src/util/string.hpp\<close> (\<^verbatim>\<open>split\<close>, \<^verbatim>\<open>trim\<close>),
  \<^verbatim>\<open>src/src/network/endpoint.cpp\<close>, \<^verbatim>\<open>message_queue.cpp\<close> and \<^verbatim>\<open>connection.cpp\<close>.  An \<^verbatim>\<open>std::invalid_argument\<close> object
  that is constructed and not thrown has no effect, so the code after it runs; an index past the end of the
  token vector is \<open>Undef\<close>.
\<close>

section \<open>Splitting strings\<close>

definition is_space :: "char \<Rightarrow> bool" where
  "is_space c \<longleftrightarrow> c = CHR '' '' \<or> (9 \<le> (of_char c :: nat) \<and> (of_char c :: nat) \<le> 13)"

definition trim :: "string \<Rightarrow> string" where
  "trim s = rev (dropWhile is_space (rev (dropWhile is_space s)))"

text \<open>\<^verbatim>\<open>boost::tokenizer\<close> with a \<^verbatim>\<open>char_separator\<close>: the maximal runs without the separator, empty runs dropped.\<close>

fun tokenize :: "char \<Rightarrow> string \<Rightarrow> string \<Rightarrow> string list" where
  "tokenize d [] cur = (if cur = [] then [] else [cur])"
| "tokenize d (c # cs) cur =
     (if c = d then (if cur = [] then tokenize d cs [] else cur # tokenize d cs [])
      else tokenize d cs (cur @ [c]))"

definition split :: "string \<Rightarrow> char \<Rightarrow> string list outcome" where
  "split s d =
     (let r = filter (\<lambda>t. t \<noteq> []) (map trim (tokenize d s []))
      in contract (r \<noteq> []) (Ok r))"

definition at :: "'a list \<Rightarrow> nat \<Rightarrow> 'a outcome" where
  "at xs i = (if i < length xs then Ok (xs ! i) else Undef)"

section \<open>Ports and endpoints\<close>

text \<open>\<^verbatim>\<open>boost::lexical_cast\<close> for the port type and for the integer options.\<close>

record port_lib =
  show_port :: "u16 \<Rightarrow> string"
  read_port :: "string \<Rightarrow> u16 option"
  read_opt :: "string \<Rightarrow> int option"

locale port_cast =
  fixes P :: port_lib
  assumes show_port: "show_port P p = show_nat (unat p)"
    and read_port: "read_port P (show_nat (unat p)) = Some p"
    and read_opt: "n < 2 ^ 31 \<Longrightarrow> read_opt P (show_nat n) = Some (int n)"

definition port_to_string :: "port_lib \<Rightarrow> u16 \<Rightarrow> string" where
  "port_to_string P p = show_port P p"

definition parse_port :: "port_lib \<Rightarrow> string \<Rightarrow> u16 outcome" where
  "parse_port P s = (case read_port P s of Some p \<Rightarrow> Ok p | None \<Rightarrow> Throw InvalidArgument)"

definition parse_host_port :: "port_lib \<Rightarrow> string \<Rightarrow> (string \<times> u16) outcome" where
  "parse_host_port P a =
     bindO (split a CHR '':'') (\<lambda>s.
     bindO (at s 0) (\<lambda>h. bindO (at s 1) (\<lambda>t. bindO (parse_port P t) (\<lambda>p. Ok (h, p)))))"

section \<open>Queue addresses\<close>

type_synonym queue_options = "(string \<times> string) list"

record address_components =
  ac_address :: string
  ac_transport :: string
  ac_host :: string
  ac_port :: u16
  ac_options :: queue_options

definition parse_option :: "string \<Rightarrow> queue_options \<Rightarrow> queue_options outcome" where
  "parse_option s opts =
     bindO (split s CHR ''='') (\<lambda>p.
       Ok (if length p = 1 then omap_put (p ! 0) ''1'' opts
           else if length p = 2 then omap_put (p ! 0) (p ! 1) opts
           else opts))"

definition parse_options :: "string list \<Rightarrow> queue_options outcome" where
  "parse_options ss =
     contract (ss \<noteq> [])
       (bindO (foldO parse_option ss []) (\<lambda>opts. contract (length ss = length opts) (Ok opts)))"

text \<open>\<^verbatim>\<open>std::map::insert\<close> of a range keeps the entries that are already there.\<close>

definition map_insert :: "queue_options \<Rightarrow> queue_options \<Rightarrow> queue_options" where
  "map_insert opts new = foldl (\<lambda>opts (k, v). if alist_has k opts then opts else omap_put k v opts) opts new"

definition substr2 :: "string \<Rightarrow> string outcome" where
  "substr2 s = (if length s < 2 then Throw OutOfRange else Ok (drop 2 s))"

definition parse_address :: "port_lib \<Rightarrow> string \<Rightarrow> queue_options \<Rightarrow> address_components outcome" where
  "parse_address P queue_address defaults =
     bindO (split queue_address CHR '','') (\<lambda>s.
     contract (length s \<ge> 1)
     (bindO (split (s ! 0) CHR '':'') (\<lambda>a.
      bindO (at a 0) (\<lambda>transport.
      bindO (at a 1) (\<lambda>host0.
      bindO (substr2 host0) (\<lambda>host.
      bindO (at a 2) (\<lambda>p.
      bindO (parse_port P p) (\<lambda>port.
      bindO (if length s > 1
             then bindO (parse_options (drop 1 s)) (\<lambda>overrides. Ok (map_insert defaults overrides))
             else Ok defaults) (\<lambda>options.
        Ok \<lparr>ac_address = queue_address, ac_transport = transport, ac_host = host, ac_port = port,
            ac_options = options\<rparr>)))))))))"

section \<open>Connection parameters\<close>

definition TCP :: string where "TCP = ''tcp''"

datatype endpoint_type = tcp | udp | unknown
datatype connect_mode = bind | connect | delayed_connect

record asio_params =
  ap_type :: endpoint_type
  ap_mode :: connect_mode
  ap_uri :: string
  ap_host :: string
  ap_port :: u16
  ap_local_port :: u16
  ap_block :: bool
  ap_wait :: int
  ap_track_incoming :: bool

definition determine_connection_mode :: "queue_options \<Rightarrow> connect_mode" where
  "determine_connection_mode opts =
     (if alist_has ''bnd'' opts then bind else if alist_has ''con'' opts then connect
      else if alist_has ''dcon'' opts then delayed_connect else connect)"

definition determine_type :: "string \<Rightarrow> endpoint_type" where
  "determine_type t = (let s = take 3 t in if s = TCP then tcp else if s = UDP then udp else unknown)"

definition get_opt :: "(string \<Rightarrow> 'a option) \<Rightarrow> queue_options \<Rightarrow> string \<Rightarrow> 'a \<Rightarrow> 'a outcome" where
  "get_opt cast opts k d =
     (case map_of opts k of
        Some v \<Rightarrow> (case cast v of Some x \<Rightarrow> Ok x | None \<Rightarrow> Throw BadLexicalCast)
      | None \<Rightarrow> Ok d)"

definition parse_params :: "port_lib \<Rightarrow> address_components \<Rightarrow> asio_params outcome" where
  "parse_params P c =
     (let opts = ac_options c in
      bindO (get_opt Some opts ''local_port'' ''0'') (\<lambda>lp.
      bindO (parse_port P lp) (\<lambda>local_port.
      bindO (get_opt (read_opt P) opts ''block'' 0) (\<lambda>block.
      bindO (get_opt (read_opt P) opts ''wait'' 0) (\<lambda>wait.
      bindO (get_opt (read_opt P) opts ''track_incoming'' 0) (\<lambda>track.
        Ok \<lparr>ap_type = determine_type (ac_transport c), ap_mode = determine_connection_mode opts,
            ap_uri = ac_address c, ap_host = ac_host c, ap_port = ac_port c, ap_local_port = local_port,
            ap_block = (block \<noteq> 0), ap_wait = wait, ap_track_incoming = (track \<noteq> 0)\<rparr>))))))"

text \<open>Stream output of an unsigned integer is its decimal notation.\<close>

definition make_pro_address :: "string \<Rightarrow> string \<Rightarrow> u16 \<Rightarrow> u16 \<Rightarrow> string" where
  "make_pro_address proto host port local_port =
     proto @ ''://'' @ host @ '':'' @ show_nat (unat port) @
     (if local_port > 0 then '',local_port='' @ show_nat (unat local_port) else [])"

definition make_tcp_address :: "string \<Rightarrow> u16 \<Rightarrow> u16 \<Rightarrow> string" where
  "make_tcp_address host port local_port = make_pro_address TCP host port local_port"

definition make_udp_address :: "string \<Rightarrow> u16 \<Rightarrow> u16 \<Rightarrow> string" where
  "make_udp_address host port local_port = make_pro_address UDP host port local_port"

definition make_address_str :: "endpoint \<Rightarrow> string" where
  "make_address_str e = ep_protocol e @ ''://'' @ ep_address e @ '':'' @ show_nat (unat (ep_port e))"

section \<open>The UDP queue\<close>

text \<open>
  \<^verbatim>\<open>udp_queue\<close> puts name resolution with a cache in front of the connection.  \<open>resolver\<close> is
  \<^verbatim>\<open>udp::resolver::resolve\<close> with the first address of the answer; it throws when there is none.
\<close>

record udp_queue =
  uq_con :: udp_connection
  uq_rmap :: "(string \<times> string) list"
  uq_block :: bool

definition resolve :: "port_lib \<Rightarrow> (string \<Rightarrow> string \<Rightarrow> string option) \<Rightarrow> endpoint \<Rightarrow> udp_queue
    \<Rightarrow> (string \<times> udp_queue) outcome" where
  "resolve P resolver ep q =
     (case map_of (uq_rmap q) (ep_address ep) of
        Some a \<Rightarrow> Ok (a, q)
      | None \<Rightarrow>
         (case resolver (ep_address ep) (port_to_string P (ep_port ep)) of
            None \<Rightarrow> Throw LibraryError
          | Some a \<Rightarrow>
              (let m = alist_put a a (alist_put (ep_address ep) a (uq_rmap q))
               in Ok (case map_of m (ep_address ep) of Some r \<Rightarrow> r | None \<Rightarrow> [], q\<lparr>uq_rmap := m\<rparr>))))"

definition udp_queue_send :: "port_lib \<Rightarrow> (string \<Rightarrow> string \<Rightarrow> string option) \<Rightarrow> endpoint_message \<Rightarrow> udp_queue
    \<Rightarrow> (bool \<times> udp_queue) outcome" where
  "udp_queue_send P resolver m q =
     bindO (resolve P resolver (em_ep m) q) (\<lambda>(address, q1).
       let cm = (if address \<noteq> ep_address (em_ep m) then m\<lparr>em_ep := (em_ep m)\<lparr>ep_address := address\<rparr>\<rparr> else m);
           (sent, con) = connection_send cm (uq_con q1)
       in Ok (sent, q1\<lparr>uq_con := con\<rparr>))"

definition udp_queue_receive :: "udp_queue \<Rightarrow> endpoint_message popped \<times> udp_queue" where
  "udp_queue_receive q =
     (let (r, iq) = queue_pop (uq_block q) (u_in_queue (uq_con q))
      in (r, q\<lparr>uq_con := (uq_con q)\<lparr>u_in_queue := iq\<rparr>\<rparr>))"

section \<open>Decimal ports\<close>

definition decimal_ports :: port_lib where
  "decimal_ports = \<lparr>show_port = (\<lambda>p. show_nat (unat p)),
     read_port = (\<lambda>s. case read_nat s of Some n \<Rightarrow> (if n < 65536 then Some (of_nat n) else None) | None \<Rightarrow> None),
     read_opt = (\<lambda>s. map_option int (read_nat s))\<rparr>"

interpretation dp: port_cast decimal_ports
proof
  fix p :: u16
  show "show_port decimal_ports p = show_nat (unat p)" by (simp add: decimal_ports_def)
  have "unat p < 65536" using u16_bound [of p] by simp
  then show "read_port decimal_ports (show_nat (unat p)) = Some p" by (simp add: decimal_ports_def)
next
  fix n :: nat
  show "read_opt decimal_ports (show_nat n) = Some (int n)" by (simp add: decimal_ports_def)
qed

section \<open>Clean strings\<close>

definition clean :: "string \<Rightarrow> bool" where
  "clean s \<longleftrightarrow> s \<noteq> [] \<and> (\<forall>c \<in> set s. \<not> is_space c \<and> c \<noteq> CHR '':'' \<and> c \<noteq> CHR '','' \<and> c \<noteq> CHR ''='')"

lemma trim_id: "(\<forall>c \<in> set s. \<not> is_space c) \<Longrightarrow> trim s = s"
proof -
  assume a: "\<forall>c \<in> set s. \<not> is_space c"
  then have "dropWhile is_space s = s" by (cases s) auto
  moreover have "dropWhile is_space (rev s) = rev s" using a by (cases "rev s") (auto dest: arg_cong [where f = set])
  ultimately show ?thesis by (simp add: trim_def)
qed

lemma tokenize_run: "d \<notin> set a \<Longrightarrow> tokenize d (a @ s) cur = tokenize d s (cur @ a)"
  by (induction a arbitrary: cur) auto

lemma tokenize_end: "d \<notin> set a \<Longrightarrow> a \<noteq> [] \<Longrightarrow> tokenize d a [] = [a]"
  using tokenize_run [of d a "[]" "[]"] by simp

lemma tokenize_sep: "d \<notin> set a \<Longrightarrow> a \<noteq> [] \<Longrightarrow> tokenize d (a @ d # s) [] = a # tokenize d s []"
  using tokenize_run [of d a "d # s" "[]"] by simp

lemma show_nat_chars: "c \<in> set (show_nat n) \<Longrightarrow> is_digit c"
  using show_nat_digits [of n] by (auto simp: list_all_iff)

lemma digit_not_space: "is_digit c \<Longrightarrow> \<not> is_space c \<and> c \<noteq> CHR '':'' \<and> c \<noteq> CHR '','' \<and> c \<noteq> CHR ''=''"
  by (auto simp: is_digit_def is_space_def)

lemma clean_show_nat: "clean (show_nat n)"
  using show_nat_digits [of n] digit_not_space show_nat_chars by (auto simp: clean_def)

lemma space_punct [simp]: "\<not> is_space CHR '':''" "\<not> is_space CHR ''/''" "\<not> is_space CHR '',''" "\<not> is_space CHR ''=''"
  by (simp_all add: is_space_def)

lemma clean_parts: "clean s \<Longrightarrow> s \<noteq> []" "clean s \<Longrightarrow> CHR '':'' \<notin> set s" "clean s \<Longrightarrow> CHR '','' \<notin> set s"
    "clean s \<Longrightarrow> CHR ''='' \<notin> set s" "clean s \<Longrightarrow> trim s = s"
  using trim_id [of s] by (auto simp: clean_def)

lemma clean_no_space: "clean s \<Longrightarrow> c \<in> set s \<Longrightarrow> \<not> is_space c"
  by (auto simp: clean_def)

context port_cast
begin

lemma parse_port_show: "parse_port P (show_nat (unat p)) = Ok p"
  by (simp add: parse_port_def read_port)

lemma host_port: "clean h \<Longrightarrow> parse_host_port P (h @ '':'' @ port_to_string P p) = Ok (h, p)"
  using clean_show_nat [of "unat p"]
  by (simp add: parse_host_port_def split_def tokenize_sep tokenize_end clean_parts port_to_string_def show_port
      at_def parse_port_show Let_def del: bindO_Ok_iff)

lemma split_host:
  assumes "clean proto" "clean host"
  shows "split (proto @ ''://'' @ host @ '':'' @ show_nat (unat port)) CHR '':'' =
    Ok [proto, ''//'' @ host, show_nat (unat port)]"
proof -
  have h: "trim (''//'' @ host) = ''//'' @ host" using trim_id [of "''//'' @ host"] clean_no_space [OF assms(2)] by auto
  have t: "tokenize CHR '':'' (proto @ ''://'' @ host @ '':'' @ show_nat (unat port)) []
      = [proto, ''//'' @ host, show_nat (unat port)]"
    using tokenize_sep [of "CHR '':''" proto] tokenize_sep [of "CHR '':''" "''//'' @ host"]
      tokenize_end [of "CHR '':''" "show_nat (unat port)"] clean_parts [OF assms(1)] clean_parts [OF assms(2)]
      clean_parts [OF clean_show_nat [of "unat port"]]
    by simp
  show ?thesis unfolding split_def t
    using h clean_parts(5) [OF assms(1)] clean_parts [OF clean_show_nat [of "unat port"]] clean_parts(1) [OF assms(1)] by simp
qed

lemma parse_made_address:
  assumes "clean proto" "clean host" "map_of defaults ''local_port'' = None"
  shows "parse_address P (make_pro_address proto host port lport) defaults =
    Ok \<lparr>ac_address = make_pro_address proto host port lport, ac_transport = proto, ac_host = host, ac_port = port,
        ac_options = (if lport > 0 then omap_put ''local_port'' (show_nat (unat lport)) defaults else defaults)\<rparr>"
proof -
  let ?a = "proto @ ''://'' @ host @ '':'' @ show_nat (unat port)"
  let ?o = "''local_port='' @ show_nat (unat lport)"
  have nc: "CHR '','' \<notin> set ?a" "?a \<noteq> []" and sp: "\<forall>c \<in> set ?a. \<not> is_space c"
    using clean_parts [OF assms(1)] clean_parts [OF assms(2)] clean_parts [OF clean_show_nat [of "unat port"]]
      clean_no_space [OF assms(1)] clean_no_space [OF assms(2)] clean_no_space [OF clean_show_nat [of "unat port"]] by auto
  have ta: "trim ?a = ?a" using trim_id [OF sp] .
  have rest: "bindO (split ?a CHR '':'') (\<lambda>a.
      bindO (at a 0) (\<lambda>transport.
      bindO (at a 1) (\<lambda>host0.
      bindO (substr2 host0) (\<lambda>host.
      bindO (at a 2) (\<lambda>p.
      bindO (parse_port P p) (\<lambda>port. f transport host port)))))) = f proto host port" for f :: "_ \<Rightarrow> _ \<Rightarrow> _ \<Rightarrow> 'b outcome"
    unfolding split_host [OF assms(1,2)] by (simp add: at_def substr2_def parse_port_show del: bindO_Ok_iff)
  show ?thesis
  proof (cases "lport > 0")
    case False
    then have mk: "make_pro_address proto host port lport = ?a" by (simp add: make_pro_address_def)
    have "split ?a CHR '','' = Ok [?a]" using tokenize_end [OF nc] ta nc(2) by (simp add: split_def)
    then show ?thesis unfolding parse_address_def mk using False rest by (simp del: bindO_Ok_iff)
  next
    case True
    then have mk: "make_pro_address proto host port lport = ?a @ CHR '','' # ?o" by (simp add: make_pro_address_def)
    have so: "\<forall>c \<in> set ?o. \<not> is_space c"
      using clean_no_space [OF clean_show_nat [of "unat lport"]] by (auto simp: is_space_def)
    have co: "CHR '','' \<notin> set ?o" "?o \<noteq> []" using clean_parts [OF clean_show_nat [of "unat lport"]] by auto
    have "split (?a @ CHR '','' # ?o) CHR '','' = Ok [?a, ?o]"
      unfolding split_def tokenize_sep [OF nc] tokenize_end [OF co] using ta trim_id [OF so] nc(2) by simp
    moreover have "split ?o CHR ''='' = Ok [''local_port'', show_nat (unat lport)]"
    proof -
      have "tokenize CHR ''='' (''local_port'' @ CHR ''='' # show_nat (unat lport)) [] = [''local_port'', show_nat (unat lport)]"
        using tokenize_sep [of "CHR ''=''" "''local_port''"] tokenize_end [of "CHR ''=''" "show_nat (unat lport)"]
          clean_parts [OF clean_show_nat [of "unat lport"]] by simp
      moreover have "trim ''local_port'' = ''local_port''" by (rule trim_id) (simp add: is_space_def)
      ultimately show ?thesis using clean_parts [OF clean_show_nat [of "unat lport"]] by (simp add: split_def)
    qed
    ultimately show ?thesis unfolding parse_address_def mk using True rest assms(3)
      by (simp add: parse_options_def parse_option_def map_insert_def map_of_eq_None_iff del: bindO_Ok_iff)
  qed
qed

end

section \<open>Properties of addresses\<close>

text \<open>
  Address round trip: for a transport and a host without separators and spaces, parsing the address that
  \<^verbatim>\<open>make_tcp_address\<close> or \<^verbatim>\<open>make_udp_address\<close> prints gives back host, port and, through \<^verbatim>\<open>parse_params\<close>, the local port.
\<close>

theorem address_roundtrip:
  assumes "port_cast P" "clean host"
  shows "\<exists>a p. parse_address P (make_udp_address host port local_port) [] = Ok a \<and> parse_params P a = Ok p \<and>
    ap_type p = udp \<and> ap_mode p = connect \<and> ap_host p = host \<and> ap_port p = port \<and> ap_local_port p = local_port \<and>
    \<not> ap_block p \<and> ap_uri p = make_udp_address host port local_port"
proof -
  have c: "clean UDP" by (simp add: clean_def UDP_def is_space_def)
  have t: "determine_type UDP = udp" by (simp add: determine_type_def UDP_def TCP_def)
  let ?o = "if local_port > 0 then omap_put ''local_port'' (show_nat (unat local_port)) [] else []"
  have m: "determine_connection_mode ?o = connect" by (cases "local_port > 0") (simp_all add: determine_connection_mode_def)
  have "local_port > 0 \<or> local_port = 0" by (simp add: word_gt_0)
  then show ?thesis
    unfolding make_udp_address_def
      port_cast.parse_made_address [OF assms(1) c assms(2), of "[]" port local_port, simplified]
    using t m port_cast.parse_port_show [OF assms(1), of local_port] port_cast.read_port [OF assms(1), of 0]
    by (auto simp: parse_params_def get_opt_def parse_port_def)
qed

theorem address_roundtrip_witness:
  "\<exists>a p. parse_address decimal_ports (make_udp_address ''example.org'' 8080 7) [] = Ok a \<and>
    parse_params decimal_ports a = Ok p \<and> ap_host p = ''example.org'' \<and> ap_port p = 8080 \<and> ap_local_port p = 7"
  using address_roundtrip [OF dp.port_cast_axioms, of "''example.org''" 8080 7]
  by (auto simp: clean_def is_space_def)

lemma map_insert_keeps: "map_of opts k = Some v \<Longrightarrow> omap_ok opts \<Longrightarrow> map_of (map_insert opts new) k = Some v \<and> omap_ok (map_insert opts new)"
proof (induction new arbitrary: opts)
  case (Cons e new)
  obtain k' v' where e: "e = (k', v')" by (cases e)
  let ?o = "if alist_has k' opts then opts else omap_put k' v' opts"
  have "k \<in> fst ` set opts" using Cons.prems(1) by (metis domI dom_map_of_conv_image_fst)
  then have "map_of ?o k = Some v" "omap_ok ?o" using Cons.prems by auto
  then show ?case using Cons.IH [of ?o] e by (simp add: map_insert_def)
qed (simp add: map_insert_def)

text \<open>
  Options in an address do not override the defaults: \<^verbatim>\<open>c.options.insert(overrides...)\<close> keeps an entry
  that is there, so for every option the defaults set, whatever the address says is ignored.
\<close>

theorem defaults_not_overridden:
  assumes "omap_ok defaults" "map_of defaults k = Some v" "parse_address P address defaults = Ok a"
  shows "map_of (ac_options a) k = Some v"
  using assms map_insert_keeps [OF assms(2,1)]
  by (auto simp: parse_address_def split: if_splits)

theorem defaults_not_overridden_witness:
  "\<exists>a. parse_address decimal_ports (make_udp_address ''h'' 1 7) [(''block'', ''1'')] = Ok a \<and>
     map_of (ac_options a) ''block'' = Some ''1''"
proof -
  have c: "clean UDP" "clean ''h''" by (simp_all add: clean_def UDP_def is_space_def)
  obtain a where a: "parse_address decimal_ports (make_udp_address ''h'' 1 7) [(''block'', ''1'')] = Ok a"
    using dp.parse_made_address [OF c, of "[(''block'', ''1'')]" 1 7] by (simp add: make_udp_address_def)
  then show ?thesis using defaults_not_overridden [OF _ _ a, of "''block''" "''1''"] by auto
qed

text \<open>
  A malformed address is not rejected: the exceptions for a missing host or port are constructed and
  never thrown, and an address without a colon, or a host-port pair without one, makes the code index
  past the end of its token vector.
\<close>

theorem malformed_address_undefined:
  assumes "clean s"
  shows "parse_address P s defaults = Undef \<and> parse_host_port P s = Undef"
proof -
  have "split s d = Ok [s]" if "d \<notin> set s" for d
    using clean_parts [OF assms] tokenize_end [OF that] by (simp add: split_def)
  then show ?thesis using clean_parts [OF assms]
    by (simp add: parse_address_def parse_host_port_def at_def del: bindO_Ok_iff bindO_Undef_iff)
qed

theorem malformed_address_undefined_witness:
  "parse_address decimal_ports ''localhost'' [] = Undef"
  using malformed_address_undefined [of "''localhost''" decimal_ports "[]"] by (simp add: clean_def is_space_def)

text \<open>
  The resolver cache: once a host has been resolved, sending to it uses the cached address without asking the resolver again,
  and an address the resolver returned is never resolved a second time.
\<close>

theorem resolve_cached:
  assumes "resolve P resolver ep q = Ok (a, q1)" "map_of (uq_rmap q) (ep_address ep) = None"
    and "ep_address ep' = ep_address ep \<or> ep_address ep' = a"
  shows "resolver (ep_address ep) (port_to_string P (ep_port ep)) = Some a \<and> resolve P other ep' q1 = Ok (a, q1)"
  using assms by (auto simp: resolve_def Let_def split: option.splits if_splits)

theorem resolve_cached_witness:
  "resolve decimal_ports (\<lambda>_ _. None) \<lparr>ep_protocol = ''udp'', ep_address = ''10.0.0.1'', ep_port = 5\<rparr>
     \<lparr>uq_con = udp_connection_new, uq_rmap = [(''h'', ''10.0.0.1''), (''10.0.0.1'', ''10.0.0.1'')], uq_block = False\<rparr>
   = Ok (''10.0.0.1'', \<lparr>uq_con = udp_connection_new, uq_rmap = [(''h'', ''10.0.0.1''), (''10.0.0.1'', ''10.0.0.1'')], uq_block = False\<rparr>)"
  using resolve_cached [of decimal_ports "\<lambda>_ _. Some ''10.0.0.1''" "\<lparr>ep_protocol = ''udp'', ep_address = ''h'', ep_port = 5\<rparr>"
      "\<lparr>uq_con = udp_connection_new, uq_rmap = [], uq_block = False\<rparr>" "''10.0.0.1''"
      "\<lparr>uq_con = udp_connection_new, uq_rmap = [(''h'', ''10.0.0.1''), (''10.0.0.1'', ''10.0.0.1'')], uq_block = False\<rparr>"
      "\<lparr>ep_protocol = ''udp'', ep_address = ''10.0.0.1'', ep_port = 5\<rparr>" "\<lambda>_ _. None"]
  by (simp add: resolve_def)

end
