(* ===== verification/Messages.thy ===== *)
theory Messages
  imports Message Address
begin

text \<open>
  The messages that services exchange: structures sent with \<^verbatim>\<open>as_message\<close> (\<^verbatim>\<open>src/src/message/message.hpp\<close>) over \<^verbatim>\<open>src/src/util/serialize.hpp\<close>, and the greeter,
  application and pinhole messages of \<^verbatim>\<open>src/src/messages/\<close>, which travel in the metadata.  A reader that misses a field throws.
\<close>

section \<open>Structures as messages\<close>

text \<open>
  The common part of \<^verbatim>\<open>as_message\<close>; \<^verbatim>\<open>from_port\<close> is an \<^verbatim>\<open>int\<close>.  What a structure writes with \<^verbatim>\<open>f_s\<close> is a dictionary, and \<^verbatim>\<open>mencode_out::val\<close> is an
  empty value when nothing was written.
\<close>

record as_message =
  am_from_id :: string
  am_from_ip :: string
  am_from_port :: u32

definition as_message_default :: as_message where
  "as_message_default = \<lparr>am_from_id = [], am_from_ip = [], am_from_port = 0\<rparr>"

definition out_val :: "dict \<Rightarrow> mvalue" where
  "out_val d = (if d \<noteq> [] then VDict d else VEmpty)"

definition in_dict :: "mvalue \<Rightarrow> dict" where
  "in_dict v = (case v of VDict d \<Rightarrow> d | _ \<Rightarrow> [])"

definition to_message :: "cxx_lib \<Rightarrow> string \<Rightarrow> as_message \<Rightarrow> dict \<Rightarrow> message outcome" where
  "to_message L type c flds =
     (let e0 = [];
          e1 = (if am_from_id c \<noteq> [] then dict_put ''from_id'' (value_of_string (am_from_id c)) e0 else e0);
          e2 = (if am_from_ip c \<noteq> [] then dict_put ''from_ip'' (value_of_string (am_from_ip c)) e1 else e1);
          e3 = (if am_from_port c \<noteq> 0 then dict_put ''from_port'' (value_of_int (am_from_port c)) e2 else e2);
          m = message_default\<lparr>m_meta := metadata_default\<lparr>mt_type := type, mt_extra := e3\<rparr>, m_data := encode_value L (out_val flds)\<rparr>
      in contract (mt_type (m_meta m) = type) (Ok m))"

definition opt_field :: "dict \<Rightarrow> string \<Rightarrow> (mvalue \<Rightarrow> 'a outcome) \<Rightarrow> 'a \<Rightarrow> 'a outcome" where
  "opt_field d k conv dflt = (if dict_has d k then bindO (dict_get d k) conv else Ok dflt)"

definition from_message :: "cxx_lib \<Rightarrow> string \<Rightarrow> message \<Rightarrow> (as_message \<times> dict) outcome" where
  "from_message L type m =
     contract (mt_type (m_meta m) = type)
       (let e = mt_extra (m_meta m) in
        bindO (opt_field e ''from_id'' as_string []) (\<lambda>i.
        bindO (opt_field e ''from_ip'' as_string []) (\<lambda>p.
        bindO (opt_field e ''from_port'' as_int32 0) (\<lambda>q.
        bindO (decode L (m_data m)) (\<lambda>v. Ok (\<lparr>am_from_id = i, am_from_ip = p, am_from_port = q\<rparr>, in_dict v))))))"

text \<open>\<^verbatim>\<open>t = _d[k]\<close>: a missing key is added as an empty value, whose conversion throws.\<close>

definition in_field :: "dict \<Rightarrow> string \<Rightarrow> (mvalue \<Rightarrow> 'a outcome) \<Rightarrow> 'a outcome" where
  "in_field d k conv = conv (fst (dict_ref k d))"

section \<open>Greeter messages\<close>

definition GREET_KEY_REQUEST :: string where "GREET_KEY_REQUEST = ''greet_key_request''"
definition GREET_KEY_RESPONSE :: string where "GREET_KEY_RESPONSE = ''greet_key_response''"
definition GREET_REGISTER :: string where "GREET_REGISTER = ''greet_register''"
definition GREET_FIND_REQUEST :: string where "GREET_FIND_REQUEST = ''greet_request''"
definition GREET_FIND_RESPONSE :: string where "GREET_FIND_RESPONSE = ''greet_response''"

definition extra_message :: "string \<Rightarrow> dict \<Rightarrow> message" where
  "extra_message type e = message_default\<lparr>m_meta := metadata_default\<lparr>mt_type := type, mt_extra := e\<rparr>\<rparr>"

definition extra_string :: "message \<Rightarrow> string \<Rightarrow> string outcome" where
  "extra_string m k = bindO (dict_get (mt_extra (m_meta m)) k) as_string"

definition extra_int :: "message \<Rightarrow> string \<Rightarrow> u64 outcome" where
  "extra_int m k = bindO (dict_get (mt_extra (m_meta m)) k) as_int"

definition port_value :: "u16 \<Rightarrow> mvalue" where
  "port_value p = value_of_int (ucast p)"

record greet_endpoint =
  ge_ip :: string
  ge_port :: u16

definition greet_key_request_message :: "string \<Rightarrow> message" where
  "greet_key_request_message response_address = extra_message GREET_KEY_REQUEST [(''response_address'', value_of_string response_address)]"

definition greet_key_request_of :: "message \<Rightarrow> string outcome" where
  "greet_key_request_of m = contract (mt_type (m_meta m) = GREET_KEY_REQUEST) (extra_string m ''response_address'')"

definition greet_key_response_message :: "string \<Rightarrow> message" where
  "greet_key_response_message key = extra_message GREET_KEY_RESPONSE [(''pub_key'', value_of_string key)]"

record greet_key_response =
  kr_host :: string
  kr_port :: u16
  kr_key :: string

definition greet_key_response_of :: "message \<Rightarrow> greet_key_response outcome" where
  "greet_key_response_of m =
     contract (mt_type (m_meta m) = GREET_KEY_RESPONSE)
       (bindO (extra_string m ''pub_key'') (\<lambda>k.
        bindO (extra_string m ''from_ip'') (\<lambda>h.
        bindO (extra_int m ''from_port'') (\<lambda>p. Ok \<lparr>kr_host = h, kr_port = ucast p, kr_key = k\<rparr>))))"

record greet_register =
  gr_id :: string
  gr_local :: greet_endpoint
  gr_pub_key :: string
  gr_response :: string

definition greet_register_message :: "greet_register \<Rightarrow> message" where
  "greet_register_message r =
     extra_message GREET_REGISTER
       [(''from_id'', value_of_string (gr_id r)), (''loc_ip'', value_of_string (ge_ip (gr_local r))), (''loc_port'', port_value (ge_port (gr_local r))),
        (''pub_key'', value_of_string (gr_pub_key r)), (''response_address'', value_of_string (gr_response r))]"

definition greet_register_of :: "message \<Rightarrow> greet_register outcome" where
  "greet_register_of m =
     contract (mt_type (m_meta m) = GREET_REGISTER)
       (bindO (extra_string m ''from_id'') (\<lambda>i.
        bindO (extra_string m ''loc_ip'') (\<lambda>h.
        bindO (extra_int m ''loc_port'') (\<lambda>p.
        bindO (extra_string m ''pub_key'') (\<lambda>k.
        bindO (extra_string m ''response_address'') (\<lambda>a.
          Ok \<lparr>gr_id = i, gr_local = \<lparr>ge_ip = h, ge_port = ucast p\<rparr>, gr_pub_key = k, gr_response = a\<rparr>))))))"

record greet_find_request =
  fq_from_id :: string
  fq_search_id :: string

definition greet_find_request_message :: "greet_find_request \<Rightarrow> message" where
  "greet_find_request_message r =
     extra_message GREET_FIND_REQUEST [(''from_id'', value_of_string (fq_from_id r)), (''search_id'', value_of_string (fq_search_id r))]"

definition greet_find_request_of :: "message \<Rightarrow> greet_find_request outcome" where
  "greet_find_request_of m =
     contract (mt_type (m_meta m) = GREET_FIND_REQUEST)
       (bindO (extra_string m ''from_id'') (\<lambda>f.
        bindO (extra_string m ''search_id'') (\<lambda>s. Ok \<lparr>fq_from_id = f, fq_search_id = s\<rparr>)))"

record greet_find_response =
  fr_found :: bool
  fr_id :: string
  fr_local :: greet_endpoint
  fr_ext :: greet_endpoint

definition greet_find_response_message :: "greet_find_response \<Rightarrow> message" where
  "greet_find_response_message r =
     extra_message GREET_FIND_RESPONSE
       [(''search_id'', value_of_string (fr_id r)), (''loc_ip'', value_of_string (ge_ip (fr_local r))), (''loc_port'', port_value (ge_port (fr_local r))),
        (''ext_ip'', value_of_string (ge_ip (fr_ext r))), (''ext_port'', port_value (ge_port (fr_ext r))),
        (''found'', value_of_int (if fr_found r then 1 else 0))]"

definition greet_find_response_of :: "message \<Rightarrow> greet_find_response outcome" where
  "greet_find_response_of m =
     contract (mt_type (m_meta m) = GREET_FIND_RESPONSE)
       (bindO (extra_string m ''search_id'') (\<lambda>i.
        bindO (extra_string m ''loc_ip'') (\<lambda>lh.
        bindO (extra_int m ''loc_port'') (\<lambda>lp.
        bindO (extra_string m ''ext_ip'') (\<lambda>eh.
        bindO (extra_int m ''ext_port'') (\<lambda>ep.
        bindO (extra_int m ''found'') (\<lambda>f.
          Ok \<lparr>fr_found = (f = 1), fr_id = i, fr_local = \<lparr>ge_ip = lh, ge_port = ucast lp\<rparr>, fr_ext = \<lparr>ge_ip = eh, ge_port = ucast ep\<rparr>\<rparr>)))))))"

section \<open>Application and pinhole messages\<close>

definition NEW_APP :: string where "NEW_APP = ''new_app''"
definition REQ_APP :: string where "REQ_APP = ''req_app''"
definition PINHOLE :: string where "PINHOLE = ''pinhole''"

record new_app =
  na_id :: string
  na_type :: string
  na_from_id :: string
  na_data :: bytes

definition new_app_message :: "new_app \<Rightarrow> message" where
  "new_app_message a = (extra_message NEW_APP [(''app_id'', value_of_string (na_id a)), (''app_type'', value_of_string (na_type a))])\<lparr>m_data := na_data a\<rparr>"

definition new_app_of :: "message \<Rightarrow> new_app outcome" where
  "new_app_of m =
     contract (mt_type (m_meta m) = NEW_APP)
       (bindO (extra_string m ''app_id'') (\<lambda>i.
        bindO (extra_string m ''app_type'') (\<lambda>t.
        bindO (extra_string m ''from_id'') (\<lambda>f. Ok \<lparr>na_id = i, na_type = t, na_from_id = f, na_data = m_data m\<rparr>))))"

record request_app =
  ra_app_address :: string
  ra_conversation_id :: string
  ra_from_id :: string

definition request_app_message :: "request_app \<Rightarrow> message" where
  "request_app_message r =
     extra_message REQ_APP [(''app_addr'', value_of_string (ra_app_address r)), (''conv_id'', value_of_string (ra_conversation_id r))]"

definition request_app_of :: "message \<Rightarrow> request_app outcome" where
  "request_app_of m =
     contract (mt_type (m_meta m) = REQ_APP)
       (bindO (extra_string m ''app_addr'') (\<lambda>a.
        bindO (extra_string m ''conv_id'') (\<lambda>c.
        bindO (extra_string m ''from_id'') (\<lambda>f. Ok \<lparr>ra_app_address = a, ra_conversation_id = c, ra_from_id = f\<rparr>))))"

definition pinhole_message :: message where
  "pinhole_message = extra_message PINHOLE []"

definition pinhole_of :: "message \<Rightarrow> unit outcome" where
  "pinhole_of m = contract (mt_type (m_meta m) = PINHOLE) (Ok ())"

section \<open>Round trips\<close>

named_theorems message_conv "how the message structures are written and read"

lemmas [message_conv] = extra_message_def extra_string_def extra_int_def dict_get_def value_of_string_def value_of_int_def port_value_def to_bytes_def to_str_def
  message_default_def metadata_default_def

lemma port_value_roundtrip [simp]: "(ucast (scast (ucast p :: u32) :: u64) :: u16) = p"
  by (rule bit_word_eqI) (auto simp: bit_simps)

lemma greet_register_roundtrip: "greet_register_of (greet_register_message r) = Ok r"
  by (simp add: greet_register_of_def greet_register_message_def message_conv)

lemma greet_find_request_roundtrip: "greet_find_request_of (greet_find_request_message r) = Ok r"
  by (simp add: greet_find_request_of_def greet_find_request_message_def message_conv)

lemma greet_find_response_roundtrip: "greet_find_response_of (greet_find_response_message r) = Ok r"
  by (cases "fr_found r") (simp_all add: greet_find_response_of_def greet_find_response_message_def message_conv)

lemma greet_key_request_roundtrip: "greet_key_request_of (greet_key_request_message a) = Ok a"
  by (simp add: greet_key_request_of_def greet_key_request_message_def message_conv)

text \<open>The sender of an application message is filled in on the way (\<^verbatim>\<open>sender::send\<close>).\<close>

lemma new_app_without_sender: "new_app_of (new_app_message a) = Throw RuntimeError"
  by (simp add: new_app_of_def new_app_message_def message_conv)

context lexical_cast
begin

lemma as_message_roundtrip:
  assumes "wf_value L (VDict flds)" "to_message L type c flds = Ok m"
  shows "from_message L type m = Ok (c, flds)"
proof -
  have d: "decode L (encode_value L (out_val flds)) = Ok (out_val flds)"
    using assms(1) by (intro decode_encode) (auto simp: out_val_def)
  have i: "in_dict (out_val flds) = flds" by (simp add: out_val_def in_dict_def)
  have p: "(ucast (scast (am_from_port c) :: u64) :: u32) = am_from_port c" by (rule bit_word_eqI) (auto simp: bit_simps)
  show ?thesis
    using assms(2) d i p
    by (auto simp: to_message_def from_message_def opt_field_def dict_has_def dict_put_def as_int32_def message_conv Let_def split: if_splits)
qed

end

end
