(* ===== verification/Mailbox.thy ===== *)
theory Mailbox
  imports Fire_Queue Message
begin

text \<open>
  Mailboxes: the two-queue \<^verbatim>\<open>util::mailbox\<close> of \<^verbatim>\<open>src/src/util/mailbox.hpp\<close> and the message mailbox with
  its statistics of \<^verbatim>\<open>src/src/message/mailbox.cpp\<close>.  Both queues satisfy the \<open>fifo\<close> contract of \<open>Fire_Queue\<close>.
\<close>

section \<open>The generic mailbox\<close>

record 'l umailbox =
  um_address :: string
  um_in :: "'l queue"
  um_out :: "'l queue"

definition umailbox_new :: "string \<Rightarrow> 'l umailbox" where
  "umailbox_new a = \<lparr>um_address = a, um_in = queue_new, um_out = queue_new\<rparr>"

definition um_set_address :: "string \<Rightarrow> 'l umailbox \<Rightarrow> 'l umailbox" where
  "um_set_address a b = b\<lparr>um_address := a\<rparr>"

definition um_push_inbox :: "'l \<Rightarrow> 'l umailbox \<Rightarrow> 'l umailbox outcome" where
  "um_push_inbox l b = bindO (queue_push l (um_in b)) (\<lambda>q. Ok (b\<lparr>um_in := q\<rparr>))"

definition um_pop_inbox :: "bool \<Rightarrow> 'l umailbox \<Rightarrow> 'l popped \<times> 'l umailbox" where
  "um_pop_inbox wait b = (let (r, q) = queue_pop wait (um_in b) in (r, b\<lparr>um_in := q\<rparr>))"

definition um_push_outbox :: "'l \<Rightarrow> 'l umailbox \<Rightarrow> 'l umailbox outcome" where
  "um_push_outbox l b = bindO (queue_push l (um_out b)) (\<lambda>q. Ok (b\<lparr>um_out := q\<rparr>))"

definition um_pop_outbox :: "bool \<Rightarrow> 'l umailbox \<Rightarrow> 'l popped \<times> 'l umailbox" where
  "um_pop_outbox wait b = (let (r, q) = queue_pop wait (um_out b) in (r, b\<lparr>um_out := q\<rparr>))"

definition um_in_size :: "'l umailbox \<Rightarrow> nat" where
  "um_in_size b = queue_size (um_in b)"

definition um_out_size :: "'l umailbox \<Rightarrow> nat" where
  "um_out_size b = queue_size (um_out b)"

definition um_done :: "'l umailbox \<Rightarrow> 'l umailbox" where
  "um_done b = b\<lparr>um_in := queue_set_done (um_in b), um_out := queue_set_done (um_out b)\<rparr>"

section \<open>The message mailbox\<close>

text \<open>The counters are \<^verbatim>\<open>size_t\<close> and wrap.\<close>

record mailbox_stats =
  in_push_count :: u64
  in_pop_count :: u64
  out_push_count :: u64
  out_pop_count :: u64
  stats_on :: bool

definition mailbox_stats_new :: mailbox_stats where
  "mailbox_stats_new = \<lparr>in_push_count = 0, in_pop_count = 0, out_push_count = 0, out_pop_count = 0, stats_on = False\<rparr>"

definition mailbox_stats_reset :: "mailbox_stats \<Rightarrow> mailbox_stats" where
  "mailbox_stats_reset s = s\<lparr>in_push_count := 0, out_push_count := 0, in_pop_count := 0, out_pop_count := 0\<rparr>"

record mailbox =
  mb_m :: "message umailbox"
  mb_stats :: mailbox_stats

definition mailbox_new :: "string \<Rightarrow> mailbox" where
  "mailbox_new a = \<lparr>mb_m = umailbox_new a, mb_stats = mailbox_stats_new\<rparr>"

definition mailbox_done :: "mailbox \<Rightarrow> mailbox" where
  "mailbox_done b = b\<lparr>mb_m := um_done (mb_m b)\<rparr>"

definition mailbox_address :: "mailbox \<Rightarrow> string" where
  "mailbox_address b = um_address (mb_m b)"

definition mailbox_set_address :: "string \<Rightarrow> mailbox \<Rightarrow> mailbox" where
  "mailbox_set_address a b = b\<lparr>mb_m := um_set_address a (mb_m b)\<rparr>"

definition push_inbox :: "message \<Rightarrow> mailbox \<Rightarrow> mailbox outcome" where
  "push_inbox m b =
     (let s = mb_stats b;
          s' = (if stats_on s then s\<lparr>in_push_count := in_push_count s + 1\<rparr> else s)
      in bindO (um_push_inbox m (mb_m b)) (\<lambda>u. Ok (b\<lparr>mb_m := u, mb_stats := s'\<rparr>)))"

definition is_got :: "'a popped \<Rightarrow> bool" where
  "is_got r \<longleftrightarrow> (case r of Got _ \<Rightarrow> True | _ \<Rightarrow> False)"

definition pop_inbox :: "bool \<Rightarrow> mailbox \<Rightarrow> message popped \<times> mailbox" where
  "pop_inbox wait b =
     (let (p, u) = um_pop_inbox wait (mb_m b);
          s = mb_stats b;
          s' = (if stats_on s \<and> is_got p then s\<lparr>in_pop_count := in_pop_count s + 1\<rparr> else s)
      in (p, b\<lparr>mb_m := u, mb_stats := s'\<rparr>))"

definition push_outbox :: "message \<Rightarrow> mailbox \<Rightarrow> mailbox outcome" where
  "push_outbox m b =
     (let s = mb_stats b;
          s' = (if stats_on s then s\<lparr>out_push_count := out_push_count s + 1\<rparr> else s)
      in bindO (um_push_outbox m (mb_m b)) (\<lambda>u. Ok (b\<lparr>mb_m := u, mb_stats := s'\<rparr>)))"

definition pop_outbox :: "bool \<Rightarrow> mailbox \<Rightarrow> message popped \<times> mailbox" where
  "pop_outbox wait b =
     (let (p, u) = um_pop_outbox wait (mb_m b);
          s = mb_stats b;
          s' = (if stats_on s \<and> is_got p then s\<lparr>out_pop_count := out_pop_count s + 1\<rparr> else s)
      in (p, b\<lparr>mb_m := u, mb_stats := s'\<rparr>))"

definition mailbox_in_size :: "mailbox \<Rightarrow> nat" where
  "mailbox_in_size b = um_in_size (mb_m b)"

definition mailbox_out_size :: "mailbox \<Rightarrow> nat" where
  "mailbox_out_size b = um_out_size (mb_m b)"

definition mailbox_stats_switch :: "bool \<Rightarrow> mailbox \<Rightarrow> mailbox" where
  "mailbox_stats_switch on b = b\<lparr>mb_stats := (mb_stats b)\<lparr>stats_on := on\<rparr>\<rparr>"

section \<open>What a mailbox promises\<close>

abbreviation inbox :: "mailbox \<Rightarrow> message list" where
  "inbox b \<equiv> q_items (um_in (mb_m b))"

abbreviation outbox :: "mailbox \<Rightarrow> message list" where
  "outbox b \<equiv> q_items (um_out (mb_m b))"

lemmas mailbox_defs = push_inbox_def pop_inbox_def push_outbox_def pop_outbox_def um_push_inbox_def um_pop_inbox_def
  um_push_outbox_def um_pop_outbox_def mailbox_done_def um_done_def queue_set_done_def mailbox_in_size_def um_in_size_def
  mailbox_out_size_def um_out_size_def queue_size_def mailbox_address_def is_got_def

lemma queue_pop_items: "queue_pop w q = (r, q') \<Longrightarrow> q_items q = (case r of Got v \<Rightarrow> [v] | _ \<Rightarrow> []) @ q_items q'"
  by (auto simp: queue_pop_def split: if_splits list.splits)

interpretation inb: fifo push_inbox pop_inbox mailbox_done inbox
  by unfold_locales
    (auto simp: mailbox_defs queue_simps Let_def dest!: queue_pop_items split: prod.splits popped.splits)

interpretation outb: fifo push_outbox pop_outbox mailbox_done outbox
  by unfold_locales
    (auto simp: mailbox_defs queue_simps Let_def dest!: queue_pop_items split: prod.splits popped.splits)

lemma push_inbox_Ok: "\<exists>b'. push_inbox m b = Ok b' \<and> inbox b' = inbox b @ [m] \<and> outbox b' = outbox b
    \<and> mailbox_address b' = mailbox_address b"
  by (auto simp: mailbox_defs queue_simps Let_def)

lemma pop_outbox_nowait:
  "pop_outbox False b = (r, b') \<Longrightarrow>
     (case r of Got m \<Rightarrow> outbox b = m # outbox b' | NoItem \<Rightarrow> outbox b = [] \<and> outbox b' = [] | Blocked \<Rightarrow> False) \<and>
     inbox b' = inbox b \<and> mailbox_address b' = mailbox_address b"
  by (auto simp: mailbox_defs queue_pop_def Let_def split: list.splits popped.splits)

section \<open>Statistics\<close>

text \<open>While the statistics are on, pushed minus popped moves with the size of each queue, modulo the width of the counters.\<close>

datatype mail_op = InPush message | InPop bool | OutPush message | OutPop bool | MailDone

fun mailbox_step :: "mail_op \<Rightarrow> mailbox \<Rightarrow> mailbox outcome" where
  "mailbox_step (InPush m) b = push_inbox m b"
| "mailbox_step (InPop w) b = Ok (snd (pop_inbox w b))"
| "mailbox_step (OutPush m) b = push_outbox m b"
| "mailbox_step (OutPop w) b = Ok (snd (pop_outbox w b))"
| "mailbox_step MailDone b = Ok (mailbox_done b)"

definition in_balance :: "mailbox \<Rightarrow> u64" where
  "in_balance b = of_nat (mailbox_in_size b) - (in_push_count (mb_stats b) - in_pop_count (mb_stats b))"

definition out_balance :: "mailbox \<Rightarrow> u64" where
  "out_balance b = of_nat (mailbox_out_size b) - (out_push_count (mb_stats b) - out_pop_count (mb_stats b))"

lemma mailbox_step_balance:
  assumes "stats_on (mb_stats b)"
  shows "\<exists>b'. mailbox_step e b = Ok b' \<and> stats_on (mb_stats b') \<and> in_balance b' = in_balance b \<and> out_balance b' = out_balance b"
  using assms
  by (cases e)
    (auto simp: mailbox_defs in_balance_def out_balance_def queue_simps queue_pop_def Let_def split: list.splits)

end
