(* ===== verification/Fire_Monad.thy ===== *)
theory Fire_Monad
  imports Fire_Prelude
begin

text \<open>
  Methods of a service that keep state: an action takes the state and gives an outcome together with the state that is left, also when it
  throws, because the service thread catches the exception and goes on with that state.
\<close>

type_synonym ('s, 'a) action = "'s \<Rightarrow> 'a outcome \<times> 's"

definition retA :: "'a \<Rightarrow> ('s, 'a) action" where
  "retA a s = (Ok a, s)"

definition bindA :: "('s, 'a) action \<Rightarrow> ('a \<Rightarrow> ('s, 'b) action) \<Rightarrow> ('s, 'b) action" where
  "bindA m f s =
     (case m s of (Ok a, s1) \<Rightarrow> f a s1 | (Throw e, s1) \<Rightarrow> (Throw e, s1) | (Exit, s1) \<Rightarrow> (Exit, s1) | (Undef, s1) \<Rightarrow> (Undef, s1) | (Diverge, s1) \<Rightarrow> (Diverge, s1))"

definition thenA :: "('s, 'a) action \<Rightarrow> ('s, 'b) action \<Rightarrow> ('s, 'b) action" where
  "thenA m k = bindA m (\<lambda>_. k)"

definition getA :: "('s \<Rightarrow> 'a) \<Rightarrow> ('s, 'a) action" where
  "getA f s = (Ok (f s), s)"

definition modA :: "('s \<Rightarrow> 's) \<Rightarrow> ('s, unit) action" where
  "modA f s = (Ok (), f s)"

definition liftA :: "'a outcome \<Rightarrow> ('s, 'a) action" where
  "liftA r s = (r, s)"

text \<open>A call on a part of the state: when it does not return, the part is as it was.\<close>

definition partA :: "('s \<Rightarrow> 'p) \<Rightarrow> ('p \<Rightarrow> 's \<Rightarrow> 's) \<Rightarrow> ('p \<Rightarrow> ('a \<times> 'p) outcome) \<Rightarrow> ('s, 'a) action" where
  "partA get put f s =
     (case f (get s) of Ok (a, p) \<Rightarrow> (Ok a, put p s) | Throw e \<Rightarrow> (Throw e, s) | Exit \<Rightarrow> (Exit, s) | Undef \<Rightarrow> (Undef, s) | Diverge \<Rightarrow> (Diverge, s))"

text \<open>The contract macros, and \<^verbatim>\<open>try { ... } catch(...) { log }\<close>.\<close>

definition requireA :: "bool \<Rightarrow> ('s, unit) action" where
  "requireA b = liftA (if b then Ok () else Exit)"

definition catchA :: "('s, unit) action \<Rightarrow> ('s, unit) action" where
  "catchA m s = (case m s of (Throw e, s1) \<Rightarrow> (Ok (), s1) | r \<Rightarrow> r)"

primrec forA :: "('a \<Rightarrow> ('s, unit) action) \<Rightarrow> 'a list \<Rightarrow> ('s, unit) action" where
  "forA f [] = retA ()"
| "forA f (x # xs) = thenA (f x) (forA f xs)"

named_theorems action_simps "evaluation of actions"

lemma bindA_Ok [action_simps]: "m s = (Ok a, s1) \<Longrightarrow> bindA m f s = f a s1"
  by (simp add: bindA_def)

lemma bindA_simps [action_simps, simp]:
  "bindA (retA a) f s = f a s" "bindA (getA g) f s = f (g s) s" "bindA (modA h) k s = k () (h s)"
  "bindA (liftA (Ok a)) f s = f a s" "bindA (liftA (Throw e)) f s = (Throw e, s)" "bindA (liftA Exit) f s = (Exit, s)"
  by (simp_all add: bindA_def retA_def getA_def modA_def liftA_def)

lemma requireA_simps [action_simps, simp]:
  "b \<Longrightarrow> bindA (requireA b) f s = f () s" "\<not> b \<Longrightarrow> bindA (requireA b) f s = (Exit, s)"
  by (simp_all add: requireA_def)

lemma bindA_assoc [simp]: "bindA (bindA m f) g = bindA m (\<lambda>a. bindA (f a) g)"
  by (rule ext) (auto simp: bindA_def split: prod.splits outcome.splits)

lemma bindA_ret [simp]: "bindA m retA = m"
  by (rule ext) (auto simp: bindA_def retA_def split: prod.splits outcome.splits)

lemma thenA_bind [simp]: "bindA (thenA m k) f = thenA m (bindA k f)" "thenA m k s = bindA m (\<lambda>_. k) s"
  by (simp_all add: thenA_def)

lemma snd_simps [simp]: "snd (retA a s) = s" "snd (getA g s) = s" "snd (modA f s) = f s" "snd (liftA r s) = s" "snd (requireA b s) = s"
  by (simp_all add: retA_def getA_def modA_def liftA_def requireA_def)

section \<open>Invariants of actions\<close>

text \<open>\<open>keeps I m\<close>: from a state that satisfies \<open>I\<close>, \<open>m\<close> ends, in whatever way, in a state that satisfies it.\<close>

definition keeps :: "('s \<Rightarrow> bool) \<Rightarrow> ('s, 'a) action \<Rightarrow> bool" where
  "keeps I m \<longleftrightarrow> (\<forall>s. I s \<longrightarrow> I (snd (m s)))"

named_theorems keeps_intros "rules for the invariant of an action"

lemma keepsD: "keeps I m \<Longrightarrow> I s \<Longrightarrow> I (snd (m s))"
  by (simp add: keeps_def)

lemma keeps_quiet [keeps_intros]: "keeps I (retA a)" "keeps I (getA g)" "keeps I (liftA r)" "keeps I (requireA b)"
  by (simp_all add: keeps_def)

lemma keeps_modA: "(\<And>s. I s \<Longrightarrow> I (f s)) \<Longrightarrow> keeps I (modA f)"
  by (simp add: keeps_def)

lemma keeps_partA:
  assumes "\<And>s a p. I s \<Longrightarrow> f (get s) = Ok (a, p) \<Longrightarrow> I (put p s)"
  shows "keeps I (partA get put f)"
  unfolding keeps_def partA_def using assms by (auto split: outcome.splits prod.splits)

lemma bind_at:
  assumes "I (snd (m s))" "\<And>a. keeps I (f a)"
  shows "I (snd (bindA m f s))"
proof -
  obtain r s1 where ms: "m s = (r, s1)" by (cases "m s")
  then show ?thesis using assms by (cases r) (auto simp: bindA_def keeps_def)
qed

lemma keeps_bind [keeps_intros]: "keeps I m \<Longrightarrow> (\<And>a. keeps I (f a)) \<Longrightarrow> keeps I (bindA m f)"
  by (metis bind_at keeps_def)

lemma keeps_then [keeps_intros]: "keeps I m \<Longrightarrow> keeps I k \<Longrightarrow> keeps I (thenA m k)"
  by (simp add: thenA_def keeps_bind)

lemma keeps_get_bind: "(\<And>s. I s \<Longrightarrow> I (snd (f (g s) s))) \<Longrightarrow> keeps I (bindA (getA g) f)"
  by (simp add: keeps_def)

lemma keeps_catch [keeps_intros]: "keeps I m \<Longrightarrow> keeps I (catchA m)"
  unfolding keeps_def catchA_def by (auto split: prod.splits outcome.splits)

lemma keeps_if [keeps_intros]: "(b \<Longrightarrow> keeps I m) \<Longrightarrow> (\<not> b \<Longrightarrow> keeps I k) \<Longrightarrow> keeps I (if b then m else k)"
  by simp

lemma keeps_option [keeps_intros]: "keeps I m \<Longrightarrow> (\<And>a. keeps I (k a)) \<Longrightarrow> keeps I (case c of None \<Rightarrow> m | Some a \<Rightarrow> k a)"
  by (cases c) auto

lemma keeps_pair [keeps_intros]: "(\<And>a b. keeps I (k a b)) \<Longrightarrow> keeps I (case p of (a, b) \<Rightarrow> k a b)"
  by (cases p) auto

lemma keeps_let [keeps_intros]: "(\<And>x. keeps I (k x)) \<Longrightarrow> keeps I (let x = e in k x)"
  by simp

lemma keeps_for [keeps_intros]: "(\<And>x. keeps I (f x)) \<Longrightarrow> keeps I (forA f xs)"
  by (induction xs) (simp_all add: keeps_quiet keeps_then)

text \<open>A test of the state before the rest: the rest may rely on the state having passed it.\<close>

lemma keeps_guard:
  assumes "keeps I m" "keeps (\<lambda>s. I s \<and> C s) k" "\<And>s. I s \<Longrightarrow> \<not> b s \<Longrightarrow> C s"
  shows "keeps I (bindA (getA b) (\<lambda>x. if x then m else k))"
  using assms by (simp add: keeps_def)

text \<open>The same from one given state, which steps that only read or check leave as it is.\<close>

definition ends :: "('s \<Rightarrow> bool) \<Rightarrow> ('s, 'a) action \<Rightarrow> 's \<Rightarrow> bool" where
  "ends I m s \<longleftrightarrow> I (snd (m s))"

lemma keeps_ends: "(\<And>s. I s \<Longrightarrow> ends I m s) \<Longrightarrow> keeps I m"
  by (simp add: keeps_def ends_def)

lemma ends_keeps: "keeps I m \<Longrightarrow> I s \<Longrightarrow> ends I m s"
  by (simp add: keeps_def ends_def)

named_theorems ends_intros "rules for an action from a given state"

lemma ends_quiet [ends_intros]: "I s \<Longrightarrow> ends I (retA a) s" "I s \<Longrightarrow> ends I (liftA r) s" "I s \<Longrightarrow> ends I (getA g) s" "I s \<Longrightarrow> ends I (requireA b) s"
  by (simp_all add: ends_def)

lemma ends_get [ends_intros]: "ends I (f (g s)) s \<Longrightarrow> ends I (bindA (getA g) f) s"
  by (simp add: ends_def)

lemma ends_lift [ends_intros]: "I s \<Longrightarrow> (\<And>a. r = Ok a \<Longrightarrow> ends I (f a) s) \<Longrightarrow> ends I (bindA (liftA r) f) s"
  by (cases r) (simp_all add: ends_def bindA_def liftA_def)

lemma ends_require [ends_intros]: "I s \<Longrightarrow> (b \<Longrightarrow> ends I k s) \<Longrightarrow> ends I (thenA (requireA b) k) s"
  by (cases b) (simp_all add: ends_def)

lemma ends_then_lift [ends_intros]: "I s \<Longrightarrow> (r = Ok () \<Longrightarrow> ends I k s) \<Longrightarrow> ends I (thenA (liftA r) k) s"
  by (cases r) (simp_all add: ends_def bindA_def liftA_def)

lemma ends_if [ends_intros]: "(b \<Longrightarrow> ends I m s) \<Longrightarrow> (\<not> b \<Longrightarrow> ends I k s) \<Longrightarrow> ends I (if b then m else k) s"
  by simp

lemma ends_option [ends_intros]: "(c = None \<Longrightarrow> ends I m s) \<Longrightarrow> (\<And>a. c = Some a \<Longrightarrow> ends I (k a) s) \<Longrightarrow> ends I (case c of None \<Rightarrow> m | Some a \<Rightarrow> k a) s"
  by (cases c) auto

lemma ends_pair [ends_intros]: "(\<And>a b. p = (a, b) \<Longrightarrow> ends I (k a b) s) \<Longrightarrow> ends I (case p of (a, b) \<Rightarrow> k a b) s"
  by (cases p) auto

lemma ends_then: "ends J m s \<Longrightarrow> (\<And>s1. J s1 \<Longrightarrow> I s1) \<Longrightarrow> (\<And>s1. J s1 \<Longrightarrow> ends I k s1) \<Longrightarrow> ends I (thenA m k) s"
  unfolding ends_def thenA_def bindA_def by (auto split: prod.splits outcome.splits)

lemma ends_bind: "ends J m s \<Longrightarrow> (\<And>s1. J s1 \<Longrightarrow> I s1) \<Longrightarrow> (\<And>a s1. J s1 \<Longrightarrow> ends I (f a) s1) \<Longrightarrow> ends I (bindA m f) s"
  unfolding ends_def bindA_def by (auto split: prod.splits outcome.splits)

text \<open>A step of a running program: it may throw, but after a failed check there is no next state.\<close>

definition survives :: "('s, 'a) action \<Rightarrow> 's \<Rightarrow> 's \<Rightarrow> bool" where
  "survives m s s1 \<longleftrightarrow> (case m s of (Ok _, s2) \<Rightarrow> s1 = s2 | (Throw _, s2) \<Rightarrow> s1 = s2 | _ \<Rightarrow> False)"

lemma survives_keeps: "survives m s s1 \<Longrightarrow> I s \<Longrightarrow> keeps I m \<Longrightarrow> I s1"
  using keepsD [of I m s] by (auto simp: survives_def split: prod.splits outcome.splits)

end
