(* ===== verification/Service.thy ===== *)
theory Service
  imports Messages Mailbox Fire_Monad
begin

text \<open>
  The base class of the services, \<^verbatim>\<open>src/src/service/service.cpp\<close>: handlers by message type and the turn of the service thread.
\<close>

text \<open>\<^verbatim>\<open>service_map\<close>: handlers by message type; a type without a handler is logged.\<close>

definition service_handle :: "(string \<times> (message \<Rightarrow> ('s, unit) action)) list \<Rightarrow> message \<Rightarrow> ('s, bool) action" where
  "service_handle hs m = (case map_of hs (mt_type (m_meta m)) of None \<Rightarrow> retA False | Some h \<Rightarrow> thenA (h m) (retA True))"

definition service_map_handle :: "string \<Rightarrow> 'h \<Rightarrow> (string \<times> 'h) list \<Rightarrow> (string \<times> 'h) list outcome" where
  "service_map_handle t h hs = contract (t \<noteq> []) (Ok (alist_put t h hs))"

text \<open>One turn of \<^verbatim>\<open>service_thread\<close>: the message popped is dispatched, an exception is logged.\<close>

definition service_turn :: "(string \<times> (message \<Rightarrow> ('s, unit) action)) list \<Rightarrow> message \<Rightarrow> ('s, unit) action" where
  "service_turn hs m = catchA (thenA (service_handle hs m) (retA ()))"

lemma keeps_service_turn:
  assumes "\<And>t h. (t, h) \<in> set hs \<Longrightarrow> keeps I (h m)"
  shows "keeps I (service_turn hs m)"
proof (cases "map_of hs (mt_type (m_meta m))")
  case None
  then show ?thesis unfolding service_turn_def service_handle_def by (auto intro: keeps_intros)
next
  case (Some h)
  then have "keeps I (h m)" using assms map_of_SomeD by metis
  with Some show ?thesis unfolding service_turn_def service_handle_def by (auto intro!: keeps_intros)
qed

lemma service_turn_handler:
  assumes "map_of hs (mt_type (m_meta m)) = Some h"
  shows "service_turn hs m = catchA (h m)"
proof -
  have "thenA (thenA k (retA True)) (retA ()) = k" for k :: "('a, unit) action"
    by (rule ext) (auto simp: thenA_def bindA_def retA_def split: prod.splits outcome.splits)
  then show ?thesis using assms by (simp add: service_turn_def service_handle_def)
qed

end
