(* ===== verification/User_Service.thy ===== *)
theory User_Service
  imports User Service
begin

text \<open>
  The user service, \<^verbatim>\<open>src/src/user/user_service.cpp\<close>: contacts, their connection state, pings, connection
  requests, greeters and introductions.  One step is one message of the service thread, one turn of the ping or reconnect thread, or
  one call of the user interface.

  A \<^verbatim>\<open>contact_data\<close> points to the user information object that the contact list holds for its id, or held when the contact was
  removed; \<open>us_gone\<close> keeps the removed ones, and \<open>cd_set\<close> says whether the pointer is not null.  Events are listed as the structures that
  \<^verbatim>\<open>send_event\<close> encodes.
\<close>

section \<open>Constants and messages\<close>

definition SERVICE_ADDRESS :: string where "SERVICE_ADDRESS = ''user_service''"
definition PING_REQUEST :: string where "PING_REQUEST = ''ping_request''"
definition REGISTER_WITH_GREETER :: string where "REGISTER_WITH_GREETER = ''reg_with_greeter''"
definition INTRODUCTION :: string where "INTRODUCTION = ''contact_intro''"
definition PING :: string where "PING = ''!''"
definition PING_TICKS :: nat where "PING_TICKS = 12"
definition PING_THRESH :: nat where "PING_THRESH = 5 * PING_TICKS"
definition RECONNECT_TICKS :: nat where "RECONNECT_TICKS = 30"
definition PING_CONNECTED :: char where "PING_CONNECTED = CHR ''c''"
definition PING_IDLE :: char where "PING_IDLE = CHR ''i''"
definition PING_DISCONNECTED :: char where "PING_DISCONNECTED = CHR ''d''"
definition LOCAL :: string where "LOCAL = ''local''"
definition PROTOCOL_VERSION :: u32 where "PROTOCOL_VERSION = 0"
definition CLIENT_VERSION :: u32 where "CLIENT_VERSION = 11"

record ping =
  pg_to :: string
  pg_from_id :: string
  pg_state :: char

definition ping_message :: "ping \<Rightarrow> message" where
  "ping_message r = message_default\<lparr>m_meta := metadata_default\<lparr>mt_type := PING, mt_to := [pg_to r, SERVICE_ADDRESS],
     mt_extra := [(''from_id'', value_of_string (pg_from_id r))]\<rparr>, m_data := [pg_state r]\<rparr>"

definition ping_of :: "message \<Rightarrow> ping outcome" where
  "ping_of m =
     contract (mt_type (m_meta m) = PING) (contract (length (mt_from (m_meta m)) > 1)
       (bindO (extra_string m ''from_id'') (\<lambda>i.
          Ok \<lparr>pg_to = [], pg_from_id = i, pg_state = (case m_data m of [c] \<Rightarrow> c | _ \<Rightarrow> PING_DISCONNECTED)\<rparr>)))"

record ping_request =
  pr_public_secret :: bytes
  pr_send_back :: u32
  pr_pv :: u32
  pr_cv :: u32

definition ping_request_out :: "ping_request \<Rightarrow> dict" where
  "ping_request_out r = [(''send_back'', value_of_int (pr_send_back r)), (''public_secret'', VBytes (pr_public_secret r)),
     (''pv'', value_of_int (pr_pv r)), (''cv'', value_of_int (pr_cv r))]"

definition ping_request_in :: "dict \<Rightarrow> ping_request outcome" where
  "ping_request_in d =
     bindO (in_field d ''send_back'' as_int32) (\<lambda>b.
     bindO (in_field d ''public_secret'' as_bytes) (\<lambda>s.
     bindO (if dict_has d ''pv'' then in_field d ''pv'' as_int32 else Ok 0) (\<lambda>pv.
     bindO (if dict_has d ''cv'' then in_field d ''cv'' as_int32 else Ok 4) (\<lambda>cv.
       Ok \<lparr>pr_public_secret = s, pr_send_back = b, pr_pv = pv, pr_cv = cv\<rparr>))))"

record register_with_greeter =
  rg_tcp_addr :: string
  rg_udp_addr :: string
  rg_pub_key :: string

definition register_out :: "register_with_greeter \<Rightarrow> dict" where
  "register_out r = [(''tcp_addr'', value_of_string (rg_tcp_addr r)), (''udp_addr'', value_of_string (rg_udp_addr r)), (''pub_key'', value_of_string (rg_pub_key r))]"

definition register_in :: "dict \<Rightarrow> register_with_greeter outcome" where
  "register_in d =
     bindO (in_field d ''tcp_addr'' as_string) (\<lambda>t.
     bindO (in_field d ''udp_addr'' as_string) (\<lambda>u.
     bindO (in_field d ''pub_key'' as_string) (\<lambda>k. Ok \<lparr>rg_tcp_addr = t, rg_udp_addr = u, rg_pub_key = k\<rparr>)))"

definition introduction_message :: "cxx_lib \<Rightarrow> string \<Rightarrow> 'k contact_introduction \<Rightarrow> message outcome" where
  "introduction_message L to i =
     bindO (from_introduction i) (\<lambda>d.
       Ok (message_default\<lparr>m_meta := metadata_default\<lparr>mt_type := INTRODUCTION, mt_to := [to, SERVICE_ADDRESS]\<rparr>, m_data := encode_dict L d\<rparr>))"

definition introduction_of :: "cxx_lib \<Rightarrow> ('r, 'k) botan \<Rightarrow> message \<Rightarrow> 'k contact_introduction outcome" where
  "introduction_of L B m =
     contract (mt_type (m_meta m) = INTRODUCTION) (contract (mt_from (m_meta m) \<noteq> [])
       (bindO (decode_to_dict L (m_data m)) (to_introduction B)))"

section \<open>State\<close>

datatype contact_state = OFFLINE | CONNECTING | CONNECTED

record contact_data =
  cd_state :: contact_state
  cd_set :: bool
  cd_last_ping :: nat
  cd_client_version :: u32
  cd_protocol_version :: u32
  cd_idle :: bool

definition contact_data_default :: contact_data where
  "contact_data_default = \<lparr>cd_state = OFFLINE, cd_set = False, cd_last_ping = 0, cd_client_version = 0, cd_protocol_version = 0, cd_idle = False\<rparr>"

datatype user_event = ContactConnected string | ContactDisconnected string string | NewIntroduction nat | ActivityChanged string

record ('r, 'k) us_env =
  ue_L :: cxx_lib
  ue_B :: "('r, 'k) botan"
  ue_F :: fs_lib
  ue_ports :: port_lib
  ue_lan_ip :: "string \<Rightarrow> string"
  ue_idle :: bool

record ('r, 'k) user_service =
  us_user :: "'k local_user"
  us_gone :: "(string \<times> 'k user_info) list"
  us_home :: string
  us_in_host :: string
  us_in_port :: u16
  us_contacts :: "(string \<times> contact_data) list"
  us_channels :: "'k encrypted_channels"
  us_rng :: "'r option"
  us_mail :: mailbox
  us_events :: "user_event list"
  us_fs :: files

type_synonym ('r, 'k, 'a) us_action = "(('r, 'k) user_service, 'a) action"

section \<open>Small steps\<close>

definition send_event :: "user_event \<Rightarrow> ('r, 'k, unit) us_action" where
  "send_event e = modA (\<lambda>s. s\<lparr>us_events := us_events s @ [e]\<rparr>)"

definition us_push_outbox :: "message \<Rightarrow> ('r, 'k, unit) us_action" where
  "us_push_outbox m = partA us_mail (\<lambda>b s. s\<lparr>us_mail := b\<rparr>) (\<lambda>b. bindO (push_outbox m b) (\<lambda>b1. Ok ((), b1)))"

definition us_save :: "('r, 'k) us_env \<Rightarrow> ('r, 'k, unit) us_action" where
  "us_save E = bindA (getA (\<lambda>s. s)) (\<lambda>s.
     partA us_fs (\<lambda>f s. s\<lparr>us_fs := f\<rparr>) (\<lambda>f. bindO (save_user (ue_L E) (ue_F E) (us_home s) (us_user s) f) (\<lambda>f1. Ok ((), f1))))"

definition us_create_channel :: "('r, 'k) us_env \<Rightarrow> string \<Rightarrow> 'k public_key \<Rightarrow> ('r, 'k, unit) us_action" where
  "us_create_channel E a key =
     partA (\<lambda>s. (us_channels s, us_rng s)) (\<lambda>(c, g) s. s\<lparr>us_channels := c, us_rng := g\<rparr>)
       (\<lambda>(c, g). bindO (create_channel (ue_B E) c a key g) (\<lambda>p. Ok ((), p)))"

definition us_create_channel_dh :: "('r, 'k) us_env \<Rightarrow> string \<Rightarrow> 'k public_key \<Rightarrow> bytes \<Rightarrow> ('r, 'k, unit) us_action" where
  "us_create_channel_dh E a key pv =
     partA (\<lambda>s. (us_channels s, us_rng s)) (\<lambda>(c, g) s. s\<lparr>us_channels := c, us_rng := g\<rparr>)
       (\<lambda>(c, g). bindO (create_channel_dh (ue_B E) c a key pv g) (\<lambda>p. Ok ((), p)))"

definition by_id :: "string \<Rightarrow> ('r, 'k, 'k user_info option) us_action" where
  "by_id i = bindA (getA (\<lambda>s. cl_by_id i (lu_contacts (us_user s)))) liftA"

text \<open>The object behind a \<^verbatim>\<open>contact_data\<close> of the id: the listed contact, else the one that was removed.\<close>

definition contact_object :: "('r, 'k) user_service \<Rightarrow> string \<Rightarrow> 'k user_info option" where
  "contact_object s i =
     (case find (\<lambda>u. ui_id u = i) (cl_list (lu_contacts (us_user s))) of Some u \<Rightarrow> Some u | None \<Rightarrow> map_of (us_gone s) i)"

definition put_contact :: "string \<Rightarrow> contact_data \<Rightarrow> ('r, 'k, unit) us_action" where
  "put_contact i cd = modA (\<lambda>s. s\<lparr>us_contacts := omap_put i cd (us_contacts s)\<rparr>)"

text \<open>\<^verbatim>\<open>_contacts[id]\<close>\<close>

definition contact_ref :: "string \<Rightarrow> ('r, 'k, contact_data) us_action" where
  "contact_ref i = getA (\<lambda>s. case map_of (us_contacts s) i of Some cd \<Rightarrow> cd | None \<Rightarrow> contact_data_default)"

definition update_listed :: "string \<Rightarrow> ('k user_info \<Rightarrow> 'k user_info) \<Rightarrow> 'k contact_list \<Rightarrow> 'k contact_list" where
  "update_listed i f l = l\<lparr>cl_list := map (\<lambda>u. if ui_id u = i then f u else u) (cl_list l)\<rparr>"

definition contact_available :: "('r, 'k) user_service \<Rightarrow> string \<Rightarrow> bool" where
  "contact_available s i = (case map_of (us_contacts s) i of None \<Rightarrow> False | Some cd \<Rightarrow> cd_set cd \<and> cd_state cd = CONNECTED)"

definition contact_idle :: "('r, 'k) user_service \<Rightarrow> string \<Rightarrow> bool" where
  "contact_idle s i = (case map_of (us_contacts s) i of None \<Rightarrow> False | Some cd \<Rightarrow> cd_set cd \<and> cd_idle cd)"

definition is_contact_connecting :: "('r, 'k) user_service \<Rightarrow> string \<Rightarrow> bool" where
  "is_contact_connecting s i = (case map_of (us_contacts s) i of None \<Rightarrow> False | Some cd \<Rightarrow> cd_set cd \<and> cd_state cd = CONNECTING)"

definition available :: "nat \<Rightarrow> bool" where
  "available ticks \<longleftrightarrow> ticks \<le> PING_THRESH"

definition add_contact_data :: "'k user_info \<Rightarrow> ('r, 'k, unit) us_action" where
  "add_contact_data u =
     put_contact (ui_id u) \<lparr>cd_state = OFFLINE, cd_set = True, cd_last_ping = PING_THRESH, cd_client_version = 0, cd_protocol_version = 0, cd_idle = False\<rparr>"

definition update_address :: "('r, 'k) us_env \<Rightarrow> string \<Rightarrow> ('r, 'k, unit) us_action" where
  "update_address E address =
     bindA (getA (\<lambda>s. ui_address (lu_info (us_user s)))) (\<lambda>a.
       if a = address then retA ()
       else thenA (modA (\<lambda>s. s\<lparr>us_user := (us_user s)\<lparr>lu_info := add_known_address address (lu_info (us_user s))\<rparr>\<rparr>)) (us_save E))"

section \<open>Connection state\<close>

definition contact_connecting :: "string \<Rightarrow> ('r, 'k, bool) us_action" where
  "contact_connecting i =
     bindA (by_id i) (\<lambda>c. case c of
       None \<Rightarrow> retA False
     | Some u \<Rightarrow> bindA (contact_ref (ui_id u)) (\<lambda>cd.
         thenA (put_contact (ui_id u) (cd\<lparr>cd_idle := True, cd_set := True, cd_last_ping := 0, cd_state := CONNECTING\<rparr>)) (retA True)))"

definition contact_connected :: "string \<Rightarrow> ('r, 'k, bool) us_action" where
  "contact_connected i =
     bindA (by_id i) (\<lambda>c. case c of
       None \<Rightarrow> retA False
     | Some u \<Rightarrow> bindA (contact_ref (ui_id u)) (\<lambda>cd.
         if cd_state cd = CONNECTED then retA False
         else thenA (requireA (cd_state cd = CONNECTING))
           (thenA (put_contact (ui_id u) (cd\<lparr>cd_set := True, cd_idle := True, cd_last_ping := 0, cd_state := CONNECTED\<rparr>)) (retA True))))"

definition fire_contact_connected_event :: "string \<Rightarrow> ('r, 'k, unit) us_action" where
  "fire_contact_connected_event i = bindA (contact_connected i) (\<lambda>b. if b then send_event (ContactConnected i) else retA ())"

definition fire_contact_activity_changed_event :: "string \<Rightarrow> ('r, 'k, unit) us_action" where
  "fire_contact_activity_changed_event i = send_event (ActivityChanged i)"

definition fire_contact_disconnected_event :: "string \<Rightarrow> ('r, 'k, unit) us_action" where
  "fire_contact_disconnected_event i =
     bindA (by_id i) (\<lambda>c. case c of
       None \<Rightarrow> retA ()
     | Some _ \<Rightarrow> bindA (contact_ref i) (\<lambda>cd.
         if cd_state cd = OFFLINE then put_contact i cd
         else thenA (requireA (cd_set cd))
           (thenA (put_contact i (cd\<lparr>cd_state := OFFLINE, cd_last_ping := PING_THRESH\<rparr>))
             (if cd_state cd = CONNECTED then
                bindA (getA (\<lambda>s. contact_object s i)) (\<lambda>o1. case o1 of
                  None \<Rightarrow> liftA Undef
                | Some u \<Rightarrow>
                    thenA (modA (\<lambda>s. s\<lparr>us_channels := fold remove_channel (ui_addresses u) (us_channels s)\<rparr>))
                      (send_event (ContactDisconnected i (ui_name u))))
              else requireA (cd_state cd = CONNECTING)))))"

definition update_contact_version :: "string \<Rightarrow> u32 \<Rightarrow> u32 \<Rightarrow> ('r, 'k, unit) us_action" where
  "update_contact_version i pv cv =
     (if sint pv < 0 \<or> sint cv < 0 then retA ()
      else bindA (by_id i) (\<lambda>c. case c of
        None \<Rightarrow> retA ()
      | Some u \<Rightarrow> bindA (contact_ref (ui_id u)) (\<lambda>cd. put_contact (ui_id u) (cd\<lparr>cd_protocol_version := pv, cd_client_version := cv\<rparr>))))"

definition check_contact_version :: "string \<Rightarrow> ('r, 'k, u32 \<times> u32) us_action" where
  "check_contact_version i =
     bindA (by_id i) (\<lambda>c. case c of
       None \<Rightarrow> retA (0, 0)
     | Some u \<Rightarrow> bindA (getA (\<lambda>s. map_of (us_contacts s) (ui_id u))) (\<lambda>ci. case ci of
         None \<Rightarrow> liftA Exit
       | Some cd \<Rightarrow> thenA (requireA (sint (cd_protocol_version cd) \<ge> 0)) (thenA (requireA (sint (cd_client_version cd) \<ge> 0))
           (retA (cd_protocol_version cd, cd_client_version cd)))))"

section \<open>Pings and connection requests\<close>

definition send_ping_to :: "char \<Rightarrow> string \<Rightarrow> bool \<Rightarrow> ('r, 'k, unit) us_action" where
  "send_ping_to sv i force =
     bindA (getA (\<lambda>s. map_of (us_contacts s) i)) (\<lambda>po. case po of
       None \<Rightarrow> retA ()
     | Some p \<Rightarrow>
         if \<not> cd_set p \<or> (cd_state p = OFFLINE \<and> \<not> force) then retA ()
         else bindA (getA (\<lambda>s. contact_object s i)) (\<lambda>o1. case o1 of
           None \<Rightarrow> liftA Undef
         | Some c \<Rightarrow>
             bindA (bindA (getA (\<lambda>s. get_channel (us_channels s) (ui_address c))) liftA) (\<lambda>ch.
             thenA (requireA (dh_ready (ch_secret ch)))
             (bindA (by_id (ui_id c)) (\<lambda>l. case l of
               None \<Rightarrow> put_contact i (p\<lparr>cd_set := False\<rparr>)
             | Some _ \<Rightarrow> bindA (getA (\<lambda>s. ui_id (lu_info (us_user s)))) (\<lambda>me.
                 let m = ping_message \<lparr>pg_to = ui_address c, pg_from_id = me, pg_state = sv\<rparr>
                 in us_push_outbox (m\<lparr>m_meta := (m_meta m)\<lparr>mt_encryption := symmetric\<rparr>\<rparr>)))))))"

definition send_ping :: "char \<Rightarrow> ('r, 'k, unit) us_action" where
  "send_ping sv =
     thenA (requireA (sv = PING_CONNECTED \<or> sv = PING_DISCONNECTED \<or> sv = PING_IDLE))
       (bindA (getA (\<lambda>s. keys (us_contacts s))) (\<lambda>is. forA (\<lambda>i. send_ping_to sv i False) is))"

definition send_ping_request_address :: "('r, 'k) us_env \<Rightarrow> string \<Rightarrow> 'k public_key \<Rightarrow> bool \<Rightarrow> ('r, 'k, unit) us_action" where
  "send_ping_request_address E address key send_back =
     bindA (getA (\<lambda>s. ui_id (lu_info (us_user s)))) (\<lambda>me.
     thenA (us_create_channel E address key)
     (bindA (bindA (getA (\<lambda>s. get_channel (us_channels s) address)) liftA) (\<lambda>ch.
      bindA (liftA (dh_public_value (ch_secret ch))) (\<lambda>pv.
      bindA (liftA (to_message (ue_L E) PING_REQUEST (as_message_default\<lparr>am_from_id := me\<rparr>)
               (ping_request_out \<lparr>pr_public_secret = pv, pr_send_back = (if send_back then 1 else 0), pr_pv = PROTOCOL_VERSION, pr_cv = CLIENT_VERSION\<rparr>))) (\<lambda>m.
        us_push_outbox (m\<lparr>m_meta := (m_meta m)\<lparr>mt_to := [address, SERVICE_ADDRESS], mt_encryption := asymmetric\<rparr>\<rparr>))))))"

definition send_ping_request :: "('r, 'k) us_env \<Rightarrow> 'k user_info \<Rightarrow> bool \<Rightarrow> ('r, 'k, unit) us_action" where
  "send_ping_request E c send_back =
     bindA (getA (\<lambda>s. is_contact_connecting s (ui_id c))) (\<lambda>b1. thenA (requireA (\<not> b1))
     (bindA (getA (\<lambda>s. contact_available s (ui_id c))) (\<lambda>b2. thenA (requireA (\<not> b2))
       (forA (\<lambda>a. if a = LOCAL then retA () else catchA (send_ping_request_address E a (ui_pkey c) send_back)) (ui_addresses c)))))"

definition send_ping_requests :: "('r, 'k) us_env \<Rightarrow> ('r, 'k, unit) us_action" where
  "send_ping_requests E =
     bindA (getA (\<lambda>s. cl_list (lu_contacts (us_user s)))) (\<lambda>cs.
       forA (\<lambda>c. bindA (getA (\<lambda>s. is_contact_connecting s (ui_id c) \<or> contact_available s (ui_id c))) (\<lambda>b.
         if b then retA () else send_ping_request E c True)) cs)"

definition update_contact_address :: "('r, 'k) us_env \<Rightarrow> string \<Rightarrow> string \<Rightarrow> u16 \<Rightarrow> ('r, 'k, unit) us_action" where
  "update_contact_address E i ip port =
     bindA (by_id i) (\<lambda>co. case co of
       None \<Rightarrow> retA ()
     | Some c \<Rightarrow>
         let a = make_udp_address ip port 0 in
         thenA (us_create_channel E a (ui_pkey c))
           (if ui_address c = a then retA ()
            else thenA (modA (\<lambda>s. s\<lparr>us_user := (us_user s)\<lparr>lu_contacts := update_listed i (add_known_address a) (lu_contacts (us_user s))\<rparr>\<rparr>)) (us_save E)))"

definition setup_security_conversation :: "('r, 'k) us_env \<Rightarrow> string \<Rightarrow> 'k public_key \<Rightarrow> bytes \<Rightarrow> ('r, 'k, unit) us_action" where
  "setup_security_conversation E address key pv = thenA (requireA (address \<noteq> [])) (us_create_channel_dh E address key pv)"

section \<open>Greeters\<close>

definition request_register :: "('r, 'k) us_env \<Rightarrow> greet_server \<Rightarrow> ('r, 'k, unit) us_action" where
  "request_register E g =
     bindA (liftA (to_message (ue_L E) REGISTER_WITH_GREETER as_message_default
              (register_out \<lparr>rg_tcp_addr = make_tcp_address (gs_host g) (gs_port g) 0, rg_udp_addr = make_udp_address (gs_host g) (gs_port g) 0, rg_pub_key = gs_key g\<rparr>))) (\<lambda>m.
       us_push_outbox (m\<lparr>m_meta := (m_meta m)\<lparr>mt_to := [SERVICE_ADDRESS]\<rparr>\<rparr>))"

definition find_contact_with_greeter :: "'k user_info \<Rightarrow> string \<Rightarrow> ('r, 'k, unit) us_action" where
  "find_contact_with_greeter c greeter =
     thenA (requireA (greeter \<noteq> []))
     (bindA (getA (\<lambda>s. is_contact_connecting s (ui_id c))) (\<lambda>b1. thenA (requireA (\<not> b1))
     (bindA (getA (\<lambda>s. contact_available s (ui_id c))) (\<lambda>b2. thenA (requireA (\<not> b2))
     (bindA (getA (\<lambda>s. ui_id (lu_info (us_user s)))) (\<lambda>me.
       let m = greet_find_request_message \<lparr>fq_from_id = me, fq_search_id = ui_id c\<rparr>
       in us_push_outbox (m\<lparr>m_meta := (m_meta m)\<lparr>mt_to := [greeter, ''outside'']\<rparr>\<rparr>)))))))"

definition do_regiser_with_greeter :: "('r, 'k) us_env \<Rightarrow> register_with_greeter \<Rightarrow> ('r, 'k, unit) us_action" where
  "do_regiser_with_greeter E r =
     bindA (getA (\<lambda>s. s)) (\<lambda>s0.
     thenA (requireA (us_in_port s0 > 0))
     (let host = ue_lan_ip E (us_in_host s0) in
      thenA (update_address E (make_udp_address host (us_in_port s0) 0))
      (bindA (getA (\<lambda>s. lu_info (us_user s))) (\<lambda>info.
       bindA (liftA (public_key_key (ui_pkey info))) (\<lambda>kk.
       let gm = greet_register_message \<lparr>gr_id = ui_id info, gr_local = \<lparr>ge_ip = host, ge_port = us_in_port s0\<rparr>, gr_pub_key = kk, gr_response = SERVICE_ADDRESS\<rparr> in
       bindA (liftA (public_key_of_string (ue_B E) (rg_pub_key r))) (\<lambda>k1.
       thenA (us_create_channel E (rg_tcp_addr r) k1)
       (bindA (liftA (public_key_of_string (ue_B E) (rg_pub_key r))) (\<lambda>k2.
       thenA (us_create_channel E (rg_udp_addr r) k2)
       (thenA (us_push_outbox (gm\<lparr>m_meta := (m_meta gm)\<lparr>mt_to := [rg_tcp_addr r, ''outside'']\<rparr>\<rparr>))
       (thenA (us_push_outbox (gm\<lparr>m_meta := (m_meta gm)\<lparr>mt_to := [rg_udp_addr r, ''outside'']\<rparr>\<rparr>))
       (bindA (getA (\<lambda>s. cl_list (lu_contacts (us_user s)))) (\<lambda>cs.
         forA (\<lambda>c. bindA (getA (\<lambda>s. is_contact_connecting s (ui_id c) \<or> contact_available s (ui_id c))) (\<lambda>b.
           if b then retA () else find_contact_with_greeter c (rg_tcp_addr r))) cs))))))))))))"

definition greeter_exists :: "greet_server list \<Rightarrow> string \<Rightarrow> u16 \<Rightarrow> bool" where
  "greeter_exists gs host port \<longleftrightarrow> find (\<lambda>g. gs_host g = host \<and> gs_port g = port) gs \<noteq> None"

definition add_greeter :: "('r, 'k) us_env \<Rightarrow> string \<Rightarrow> u16 \<Rightarrow> string \<Rightarrow> ('r, 'k, unit) us_action" where
  "add_greeter E host port pub_key =
     (if host = [] \<or> port = 0 \<or> pub_key = [] then retA ()
      else bindA (getA (\<lambda>s. greeter_exists (lu_greeters (us_user s)) host port)) (\<lambda>b.
        if b then retA ()
        else
          let g = \<lparr>gs_host = host, gs_port = port, gs_key = pub_key\<rparr> in
          thenA (modA (\<lambda>s. s\<lparr>us_user := (us_user s)\<lparr>lu_greeters := lu_greeters (us_user s) @ [g]\<rparr>\<rparr>))
            (thenA (us_save E) (request_register E g))))"

definition add_greeter_address :: "('r, 'k) us_env \<Rightarrow> string \<Rightarrow> ('r, 'k, unit) us_action" where
  "add_greeter_address E address =
     bindA (liftA (parse_host_port (ue_ports E) address)) (\<lambda>(host, port).
       let m = greet_key_request_message SERVICE_ADDRESS
       in us_push_outbox (m\<lparr>m_meta := (m_meta m)\<lparr>mt_to := [make_tcp_address host port 0, ''outside'']\<rparr>\<rparr>))"

fun erase_first :: "('a \<Rightarrow> bool) \<Rightarrow> 'a list \<Rightarrow> 'a list" where
  "erase_first p [] = []"
| "erase_first p (x # xs) = (if p x then xs else x # erase_first p xs)"

definition remove_greeter :: "('r, 'k) us_env \<Rightarrow> string \<Rightarrow> ('r, 'k, unit) us_action" where
  "remove_greeter E address =
     bindA (liftA (parse_host_port (ue_ports E) address)) (\<lambda>(host, port).
     bindA (getA (\<lambda>s. greeter_exists (lu_greeters (us_user s)) host port)) (\<lambda>b.
       if \<not> b then retA ()
       else thenA (modA (\<lambda>s. s\<lparr>us_user := (us_user s)\<lparr>lu_greeters := erase_first (\<lambda>g. gs_host g = host \<and> gs_port g = port) (lu_greeters (us_user s))\<rparr>\<rparr>)) (us_save E)))"

section \<open>Introductions\<close>

definition has_id :: "'k contact_introduction list \<Rightarrow> string \<Rightarrow> bool" where
  "has_id is i \<longleftrightarrow> length (filter (\<lambda>x. ui_id (in_contact x) = i) is) > 0"

definition add_introduction :: "('r, 'k) us_env \<Rightarrow> 'k contact_introduction \<Rightarrow> ('r, 'k, nat option) us_action" where
  "add_introduction E i =
     bindA (by_id (ui_id (in_contact i))) (\<lambda>cs.
       if cs \<noteq> None then retA None
       else bindA (getA (\<lambda>s. lu_introductions (us_user s))) (\<lambda>is.
         if has_id is (ui_id (in_contact i)) then retA None
         else thenA (modA (\<lambda>s. s\<lparr>us_user := (us_user s)\<lparr>lu_introductions := is @ [i]\<rparr>\<rparr>))
           (thenA (us_save E) (retA (Some (length is))))))"

definition remove_introduction :: "('r, 'k) us_env \<Rightarrow> 'k contact_introduction \<Rightarrow> ('r, 'k, unit) us_action" where
  "remove_introduction E i =
     bindA (getA (\<lambda>s. lu_introductions (us_user s))) (\<lambda>is.
       if find (\<lambda>x. introduction_eq x i) is = None then retA ()
       else thenA (modA (\<lambda>s. s\<lparr>us_user := (us_user s)\<lparr>lu_introductions := erase_first (\<lambda>x. introduction_eq x i) is\<rparr>\<rparr>)) (us_save E))"

definition send_introduction :: "('r, 'k) us_env \<Rightarrow> string \<Rightarrow> 'k contact_introduction \<Rightarrow> ('r, 'k, unit) us_action" where
  "send_introduction E to i =
     thenA (requireA (to \<noteq> []))
     (bindA (by_id to) (\<lambda>co. case co of
        None \<Rightarrow> retA ()
      | Some c \<Rightarrow> bindA (liftA (introduction_message (ue_L E) (ui_address c) i)) us_push_outbox))"

section \<open>Handlers\<close>

definition fire_new_introduction :: "nat \<Rightarrow> ('r, 'k, unit) us_action" where
  "fire_new_introduction i = send_event (NewIntroduction i)"

text \<open>The effect of a ping on the ticks and the idle flag: \<^verbatim>\<open>switch(r.state)\<close>.\<close>

definition ping_ticks :: "char \<Rightarrow> nat" where
  "ping_ticks sv = (if sv = PING_DISCONNECTED then PING_THRESH + PING_THRESH else 0)"

definition ping_idle :: "char \<Rightarrow> bool \<Rightarrow> bool" where
  "ping_idle sv prev = (if sv = PING_IDLE then True else if sv = PING_CONNECTED then False else prev)"

definition received_ping :: "message \<Rightarrow> ('r, 'k, unit) us_action" where
  "received_ping m =
     thenA (requireA (mt_type (m_meta m) = PING))
     (thenA (liftA (expect_remote m))
     (thenA (liftA (expect_symmetric m))
     (bindA (liftA (ping_of m)) (\<lambda>r.
      bindA (getA (\<lambda>s. map_of (us_contacts s) (pg_from_id r))) (\<lambda>po. case po of
        None \<Rightarrow> retA ()
      | Some p \<Rightarrow>
          if \<not> cd_set p then retA ()
          else
            let i = pg_from_id r;
                ticks = ping_ticks (pg_state r);
                idle = ping_idle (pg_state r) (cd_idle p);
                fire_event = (available ticks \<noteq> available (cd_last_ping p) \<or> cd_state p = CONNECTING)
            in thenA (put_contact i (p\<lparr>cd_last_ping := ticks, cd_idle := idle\<rparr>))
               (thenA (requireA (pg_state r = PING_DISCONNECTED \<longrightarrow> \<not> available ticks))
               (thenA (if fire_event
                       then (if available ticks then fire_contact_connected_event i else fire_contact_disconnected_event i)
                       else retA ())
                 (if idle \<noteq> cd_idle p then fire_contact_activity_changed_event i else retA ()))))))))"

definition user_idle_state :: "('r, 'k) us_env \<Rightarrow> char" where
  "user_idle_state E = (if ue_idle E then PING_IDLE else PING_CONNECTED)"

text \<open>
  What follows the checks of \<^verbatim>\<open>received_connect_request\<close>.  After the address of the contact was updated, \<^verbatim>\<open>c\<close> is the listed object with
  the new address, so it is read again.
\<close>

definition answer_connect_request :: "('r, 'k) us_env \<Rightarrow> string \<Rightarrow> string \<Rightarrow> u16 \<Rightarrow> ping_request \<Rightarrow> ('r, 'k, unit) us_action" where
  "answer_connect_request E i ip port r =
     thenA (update_contact_address E i ip port)
     (bindA (getA (\<lambda>s. contact_object s i)) (\<lambda>o1. case o1 of
        None \<Rightarrow> liftA Undef
      | Some c \<Rightarrow>
          thenA (if pr_send_back r \<noteq> 0 then send_ping_request E c False else retA ())
          (bindA (contact_connecting i) (\<lambda>_.
           thenA (setup_security_conversation E (make_udp_address ip port 0) (ui_pkey c) (pr_public_secret r))
             (send_ping_to (user_idle_state E) i True)))))"

definition received_connect_request :: "('r, 'k) us_env \<Rightarrow> message \<Rightarrow> ('r, 'k, unit) us_action" where
  "received_connect_request E m =
     thenA (requireA (mt_type (m_meta m) = PING_REQUEST))
     (thenA (liftA (expect_remote m))
     (thenA (liftA (expect_asymmetric m))
     (bindA (liftA (from_message (ue_L E) PING_REQUEST m)) (\<lambda>(am, d).
      bindA (liftA (ping_request_in d)) (\<lambda>r.
      bindA (by_id (am_from_id am)) (\<lambda>co. case co of
        None \<Rightarrow> retA ()
      | Some c \<Rightarrow>
          thenA (update_contact_version (ui_id c) (pr_pv r) (pr_cv r))
          (bindA (getA (\<lambda>s. contact_available s (ui_id c))) (\<lambda>b1. if b1 then retA () else
           bindA (getA (\<lambda>s. is_contact_connecting s (ui_id c))) (\<lambda>b2. if b2 then retA () else
             answer_connect_request E (ui_id c) (am_from_ip am) (ucast (am_from_port am)) r)))))))))"

definition received_register_with_greeter :: "('r, 'k) us_env \<Rightarrow> message \<Rightarrow> ('r, 'k, unit) us_action" where
  "received_register_with_greeter E m =
     thenA (requireA (mt_type (m_meta m) = REGISTER_WITH_GREETER))
     (thenA (liftA (expect_local m))
     (bindA (liftA (from_message (ue_L E) REGISTER_WITH_GREETER m)) (\<lambda>(am, d).
      bindA (liftA (register_in d)) (do_regiser_with_greeter E))))"

definition received_greet_key_response :: "('r, 'k) us_env \<Rightarrow> message \<Rightarrow> ('r, 'k, unit) us_action" where
  "received_greet_key_response E m =
     thenA (requireA (mt_type (m_meta m) = GREET_KEY_RESPONSE))
     (thenA (liftA (expect_remote m))
     (if \<not> is_plaintext m \<and> \<not> is_asymmetric m then retA ()
      else bindA (liftA (greet_key_response_of m)) (\<lambda>rs. add_greeter E (kr_host rs) (kr_port rs) (kr_key rs))))"

definition received_greet_find_response :: "('r, 'k) us_env \<Rightarrow> message \<Rightarrow> ('r, 'k, unit) us_action" where
  "received_greet_find_response E m =
     thenA (requireA (mt_type (m_meta m) = GREET_FIND_RESPONSE))
     (thenA (liftA (expect_remote m))
     (thenA (liftA (expect_asymmetric m))
     (bindA (liftA (greet_find_response_of m)) (\<lambda>rs.
        if \<not> fr_found rs then retA ()
        else bindA (by_id (fr_id rs)) (\<lambda>co. case co of
          None \<Rightarrow> retA ()
        | Some c \<Rightarrow>
            bindA (getA (\<lambda>s. map_of (us_contacts s) (ui_id c) \<noteq> None)) (\<lambda>b0. thenA (requireA b0)
            (bindA (getA (\<lambda>s. contact_available s (ui_id c) \<or> is_contact_connecting s (ui_id c))) (\<lambda>b.
               if b then retA ()
               else
                 let loc = make_udp_address (ge_ip (fr_local rs)) (ge_port (fr_local rs)) 0;
                     ext = make_udp_address (ge_ip (fr_ext rs)) (ge_port (fr_ext rs)) 0
                 in thenA (send_ping_request_address E loc (ui_pkey c) True)
                   (if ext \<noteq> loc then send_ping_request_address E ext (ui_pkey c) True else retA ())))))))))"

definition received_introduction :: "('r, 'k) us_env \<Rightarrow> message \<Rightarrow> ('r, 'k, unit) us_action" where
  "received_introduction E m =
     thenA (liftA (expect_remote m))
     (thenA (liftA (expect_symmetric m))
     (bindA (liftA (introduction_of (ue_L E) (ue_B E) m)) (\<lambda>i.
      bindA (by_id (in_from_id i)) (\<lambda>c. case c of
        None \<Rightarrow> retA ()
      | Some _ \<Rightarrow> bindA (add_introduction E i) (\<lambda>ix. case ix of None \<Rightarrow> retA () | Some n \<Rightarrow> fire_new_introduction n)))))"

section \<open>Calls of the user interface\<close>

definition remove_contact :: "('r, 'k) us_env \<Rightarrow> string \<Rightarrow> ('r, 'k, unit) us_action" where
  "remove_contact E i =
     bindA (by_id i) (\<lambda>co. case co of
       None \<Rightarrow> retA ()
     | Some c \<Rightarrow>
         thenA (fire_contact_disconnected_event i)
         (thenA (modA (\<lambda>s. s\<lparr>us_gone := (i, c) # us_gone s\<rparr>))
         (thenA (partA (\<lambda>s. lu_contacts (us_user s)) (\<lambda>l s. s\<lparr>us_user := (us_user s)\<lparr>lu_contacts := l\<rparr>\<rparr>) (cl_remove c)) (us_save E))))"

record 'k identity =
  iy_contact :: "'k user_info"
  iy_greeter :: string

definition confirm_contact :: "('r, 'k) us_env \<Rightarrow> 'k identity \<Rightarrow> ('r, 'k, bool) us_action" where
  "confirm_contact E cf =
     (let c = iy_contact cf; i = ui_id c in
      bindA (getA (\<lambda>s. ui_id (lu_info (us_user s)))) (\<lambda>me. if i = me then retA False else
      bindA (by_id i) (\<lambda>o1. if o1 \<noteq> None then retA False else
      thenA (partA (\<lambda>s. lu_contacts (us_user s)) (\<lambda>l s. s\<lparr>us_user := (us_user s)\<lparr>lu_contacts := l\<rparr>\<rparr>) (cl_add c))
      (thenA (add_contact_data c)
      (thenA (us_save E)
      (thenA (if iy_greeter cf \<noteq> [] then add_greeter_address E (iy_greeter cf) else retA ())
      (bindA (getA (\<lambda>s. is_contact_connecting s i \<or> contact_available s i)) (\<lambda>b. thenA (requireA (\<not> b))
      (thenA (send_ping_request E c True) (retA True))))))))))"

section \<open>Threads\<close>

definition reconnect :: "('r, 'k) us_env \<Rightarrow> ('r, 'k, unit) us_action" where
  "reconnect E = bindA (getA (\<lambda>s. lu_greeters (us_user s))) (\<lambda>gs. thenA (forA (request_register E) gs) (send_ping_requests E))"

text \<open>
  One turn of the reconnect thread and of the ping thread, with their local tick counters; \<^verbatim>\<open>ticks\<close> is an unsigned 64-bit counter, and
  neither is ever above its bound by more than one.  An exception leaves the counter as it was and skips the rest of the turn.
\<close>

definition reconnect_turn :: "('r, 'k) us_env \<Rightarrow> nat \<Rightarrow> ('r, 'k, nat) us_action" where
  "reconnect_turn E ticks = (if ticks \<ge> RECONNECT_TICKS then thenA (reconnect E) (retA 1) else retA (Suc ticks))"

definition tick_contact :: "string \<Rightarrow> ('r, 'k, unit) us_action" where
  "tick_contact i =
     bindA (getA (\<lambda>s. map_of (us_contacts s) i)) (\<lambda>po. case po of
       None \<Rightarrow> retA ()
     | Some p \<Rightarrow>
         if cd_state p = OFFLINE \<or> \<not> cd_set p then retA ()
         else
           let ticks = Suc (cd_last_ping p) in
           thenA (put_contact i (p\<lparr>cd_last_ping := ticks\<rparr>))
             (if available ticks \<noteq> available (cd_last_ping p)
              then thenA (requireA (\<not> available ticks)) (fire_contact_disconnected_event i)
              else retA ()))"

definition tick_contacts :: "('r, 'k, unit) us_action" where
  "tick_contacts = bindA (getA (\<lambda>s. keys (us_contacts s))) (forA tick_contact)"

definition ping_turn :: "('r, 'k) us_env \<Rightarrow> nat \<Rightarrow> ('r, 'k, nat) us_action" where
  "ping_turn E send_ticks =
     (if send_ticks > PING_TICKS then thenA (send_ping (user_idle_state E)) (thenA tick_contacts (retA 0))
      else thenA tick_contacts (retA (Suc send_ticks)))"

section \<open>Start, dispatch and stop\<close>

definition user_service_start :: "('r, 'k) us_env \<Rightarrow> ('r, 'k, unit) us_action" where
  "user_service_start E =
     bindA (getA (\<lambda>s. s)) (\<lambda>s0. thenA (requireA (us_home s0 \<noteq> []))
     (thenA (update_address E (make_udp_address (us_in_host s0) (us_in_port s0) 0))
     (bindA (getA (\<lambda>s. cl_list (lu_contacts (us_user s)))) (forA add_contact_data))))"

definition user_service_stop :: "('r, 'k, unit) us_action" where
  "user_service_stop = send_ping PING_DISCONNECTED"

definition init_handlers :: "('r, 'k) us_env \<Rightarrow> (string \<times> (message \<Rightarrow> ('r, 'k, unit) us_action)) list" where
  "init_handlers E =
     [(PING, received_ping), (PING_REQUEST, received_connect_request E), (REGISTER_WITH_GREETER, received_register_with_greeter E),
      (GREET_KEY_RESPONSE, received_greet_key_response E), (GREET_FIND_RESPONSE, received_greet_find_response E),
      (INTRODUCTION, received_introduction E)]"

definition user_turn :: "('r, 'k) us_env \<Rightarrow> message \<Rightarrow> ('r, 'k, unit) us_action" where
  "user_turn E = service_turn (init_handlers E)"

section \<open>The invariant: events follow the connection states\<close>

text \<open>What a client of the events knows: the ids that are online after the events so far, if connects and disconnects alternate for every id.\<close>

fun online_after :: "user_event list \<Rightarrow> string set \<Rightarrow> string set option" where
  "online_after [] on = Some on"
| "online_after (ContactConnected i # es) on = (if i \<in> on then None else online_after es (insert i on))"
| "online_after (ContactDisconnected i n # es) on = (if i \<in> on then online_after es (on - {i}) else None)"
| "online_after (NewIntroduction k # es) on = online_after es on"
| "online_after (ActivityChanged i # es) on = online_after es on"

lemma online_after_append:
  "online_after (es @ fs) on = (case online_after es on of None \<Rightarrow> None | Some on1 \<Rightarrow> online_after fs on1)"
  by (induction es on rule: online_after.induct) auto

definition connected_ids :: "('r, 'k) user_service \<Rightarrow> string set" where
  "connected_ids s = {i. \<exists>cd. map_of (us_contacts s) i = Some cd \<and> cd_state cd = CONNECTED}"

definition listed_ids :: "('r, 'k) user_service \<Rightarrow> string set" where
  "listed_ids s = ui_id ` set (cl_list (lu_contacts (us_user s)))"

definition us_ok :: "('r, 'k) user_service \<Rightarrow> bool" where
  "us_ok s \<longleftrightarrow> omap_ok (us_contacts s) \<and> cl_ok (lu_contacts (us_user s)) \<and>
     online_after (us_events s) {} = Some (connected_ids s) \<and>
     (\<forall>i cd. map_of (us_contacts s) i = Some cd \<longrightarrow> cd_state cd \<noteq> OFFLINE \<longrightarrow> cd_set cd \<and> i \<in> listed_ids s) \<and>
     listed_ids s \<subseteq> dom (map_of (us_contacts s))"

lemma by_id_ok [simp]:
  "us_ok s \<Longrightarrow> bindA (by_id i) f s = f (find (\<lambda>u. ui_id u = i) (cl_list (lu_contacts (us_user s)))) s"
  by (simp add: by_id_def bindA_def getA_def liftA_def us_ok_def cl_by_id_spec)

lemma find_listed:
  "find (\<lambda>u. ui_id u = i) (cl_list (lu_contacts (us_user s))) = Some u \<Longrightarrow> i \<in> listed_ids s \<and> ui_id u = i"
  "find (\<lambda>u. ui_id u = i) (cl_list (lu_contacts (us_user s))) = None \<Longrightarrow> i \<notin> listed_ids s"
  by (auto simp: listed_ids_def find_Some_iff find_None_iff)

text \<open>Only the contacts, the events and the contact list matter.\<close>

lemma us_ok_cong:
  assumes "us_contacts s' = us_contacts s" "us_events s' = us_events s" "lu_contacts (us_user s') = lu_contacts (us_user s)"
  shows "us_ok s' = us_ok s" "connected_ids s' = connected_ids s" "listed_ids s' = listed_ids s"
  using assms by (simp_all add: us_ok_def connected_ids_def listed_ids_def)

lemma us_ok_put:
  assumes ok: "us_ok s" and st: "cd_state cd \<noteq> OFFLINE \<Longrightarrow> cd_set cd \<and> i \<in> listed_ids s"
    and ev: "online_after (us_events s @ es) {} = Some (if cd_state cd = CONNECTED then insert i (connected_ids s) else connected_ids s - {i})"
  shows "us_ok (s\<lparr>us_contacts := omap_put i cd (us_contacts s), us_events := us_events s @ es\<rparr>)"
proof -
  have om: "omap_ok (us_contacts s)" using ok by (simp add: us_ok_def)
  define s' where "s' = s\<lparr>us_contacts := omap_put i cd (us_contacts s), us_events := us_events s @ es\<rparr>"
  have c: "connected_ids s' = (if cd_state cd = CONNECTED then insert i (connected_ids s) else connected_ids s - {i})"
    using om by (auto simp: s'_def connected_ids_def)
  have l: "listed_ids s' = listed_ids s" by (simp add: s'_def listed_ids_def)
  show ?thesis using ok st ev om c l unfolding us_ok_def s'_def [symmetric]
    by (auto simp: s'_def)
qed

text \<open>The invariant together with a fact about the contact data.\<close>

definition us_okC :: "((string \<rightharpoonup> contact_data) \<Rightarrow> bool) \<Rightarrow> ('r, 'k) user_service \<Rightarrow> bool" where
  "us_okC C s \<longleftrightarrow> us_ok s \<and> C (map_of (us_contacts s))"

lemma us_okC_True [simp]: "us_okC (\<lambda>_. True) = us_ok"
  by (simp add: us_okC_def fun_eq_iff)

lemma us_okC_cong:
  assumes "us_okC C s" "us_contacts s' = us_contacts s" "us_events s' = us_events s" "lu_contacts (us_user s') = lu_contacts (us_user s)"
  shows "us_okC C s'"
  using assms by (simp add: us_okC_def us_ok_def connected_ids_def listed_ids_def)

lemma keeps_push_outbox [keeps_intros]: "keeps (us_okC C) (us_push_outbox m)"
  unfolding us_push_outbox_def by (rule keeps_partA) (auto elim!: us_okC_cong)

lemma keeps_save [keeps_intros]: "keeps (us_okC C) (us_save E)"
  unfolding us_save_def by (intro keeps_bind keeps_quiet keeps_partA) (auto elim!: us_okC_cong)

lemma keeps_create_channel [keeps_intros]:
  "keeps (us_okC C) (us_create_channel E a key)" "keeps (us_okC C) (us_create_channel_dh E a key pv)"
  unfolding us_create_channel_def us_create_channel_dh_def by (rule keeps_partA; auto elim!: us_okC_cong)+

lemma keeps_by_id [keeps_intros]: "keeps (us_okC C) (by_id i)"
  unfolding by_id_def by (intro keeps_intros)

lemma keeps_events [keeps_intros]:
  "keeps (us_okC C) (send_event (NewIntroduction k))" "keeps (us_okC C) (send_event (ActivityChanged i))"
  unfolding send_event_def
  by (rule keeps_modA; simp add: us_okC_def us_ok_def connected_ids_def listed_ids_def online_after_append)+

lemma keeps_user:
  assumes "\<And>u. lu_contacts (f u) = lu_contacts u"
  shows "keeps (us_okC C) (modA (\<lambda>s. s\<lparr>us_user := f (us_user s)\<rparr>))"
  using assms by (intro keeps_modA) (auto elim!: us_okC_cong)

lemma update_listed_ok:
  assumes "\<And>u. ui_id (f u) = ui_id u"
  shows "cl_ok (update_listed i f l) = cl_ok l" "ui_id ` set (cl_list (update_listed i f l)) = ui_id ` set (cl_list l)"
proof -
  have ids: "map ui_id (cl_list (update_listed i f l)) = map ui_id (cl_list l)"
    using assms by (simp add: update_listed_def)
  have nth: "ui_id (cl_list (update_listed i f l) ! k) = ui_id (cl_list l ! k)" if "k < length (cl_list l)" for k
    using assms that by (simp add: update_listed_def)
  show "cl_ok (update_listed i f l) = cl_ok l"
    unfolding cl_ok_def ids using nth by (auto simp: update_listed_def simp del: map_of_eq_Some_iff)
  show "ui_id ` set (cl_list (update_listed i f l)) = ui_id ` set (cl_list l)"
    using ids by (metis list.set_map)
qed

lemma add_known_address_id [simp]: "ui_id (add_known_address a u) = ui_id u"
  by (simp add: add_known_address_def Let_def)

lemma keeps_update_listed [keeps_intros]:
  "keeps (us_okC C) (modA (\<lambda>s. s\<lparr>us_user := (us_user s)\<lparr>lu_contacts := update_listed i (add_known_address a) (lu_contacts (us_user s))\<rparr>\<rparr>))"
  by (rule keeps_modA) (simp add: us_okC_def us_ok_def connected_ids_def listed_ids_def update_listed_ok)

lemma keeps_us_quiet [keeps_intros]:
  "keeps (us_okC C) (update_address E a)"
  "keeps (us_okC C) (send_ping_request_address E a key b)"
  "keeps (us_okC C) (update_contact_address E i ip port)"
  "keeps (us_okC C) (setup_security_conversation E a key pv)"
  "keeps (us_okC C) (request_register E g)"
  "keeps (us_okC C) (find_contact_with_greeter c gr)"
  "keeps (us_okC C) (add_greeter E host port pk)"
  "keeps (us_okC C) (add_greeter_address E a)"
  "keeps (us_okC C) (remove_greeter E a)"
  "keeps (us_okC C) (add_introduction E i1)"
  "keeps (us_okC C) (remove_introduction E i1)"
  "keeps (us_okC C) (send_introduction E to i1)"
  "keeps (us_okC C) (check_contact_version i)"
  unfolding update_address_def send_ping_request_address_def update_contact_address_def setup_security_conversation_def request_register_def
    find_contact_with_greeter_def add_greeter_def add_greeter_address_def remove_greeter_def add_introduction_def remove_introduction_def
    send_introduction_def check_contact_version_def Let_def
  by (intro keeps_intros keeps_user; simp)+

lemma keeps_us_requests [keeps_intros]:
  "keeps (us_okC C) (send_ping_request E c b)"
  "keeps (us_okC C) (send_ping_requests E)"
  "keeps (us_okC C) (do_regiser_with_greeter E r)"
  "keeps (us_okC C) (reconnect E)"
  unfolding send_ping_request_def send_ping_requests_def do_regiser_with_greeter_def reconnect_def Let_def
  by (intro keeps_intros)+

text \<open>Contact data written back with the same state.\<close>

lemma put_same_state:
  assumes ok: "us_okC C s" and cd: "map_of (us_contacts s) i = Some p" and same: "cd_state q = cd_state p" "cd_set q = cd_set p"
    and C: "C ((map_of (us_contacts s))(i \<mapsto> q))"
  shows "us_okC C (snd (put_contact i q s))"
proof -
  have "online_after (us_events s @ []) {} = Some (if cd_state q = CONNECTED then insert i (connected_ids s) else connected_ids s - {i})"
    using ok cd same by (auto simp: us_okC_def us_ok_def connected_ids_def)
  moreover have "cd_state q \<noteq> OFFLINE \<Longrightarrow> cd_set q \<and> i \<in> listed_ids s"
    using ok cd same unfolding us_okC_def us_ok_def by metis
  ultimately have "us_ok (snd (put_contact i q s))"
    using us_ok_put [of s q i "[]"] ok by (simp add: put_contact_def us_okC_def)
  moreover have "omap_ok (us_contacts s)" using ok by (simp add: us_okC_def us_ok_def)
  ultimately show ?thesis using C by (simp add: us_okC_def put_contact_def)
qed

lemma put_not_connected:
  assumes ok: "us_ok s" and "i \<notin> connected_ids s" "cd_state q \<noteq> CONNECTED" "cd_state q \<noteq> OFFLINE \<Longrightarrow> cd_set q \<and> i \<in> listed_ids s"
  shows "us_ok (snd (put_contact i q s))"
proof -
  have "online_after (us_events s) {} = Some (connected_ids s)" using ok by (simp add: us_ok_def)
  then show ?thesis using us_ok_put [of s q i "[]"] assms by (simp add: put_contact_def)
qed

lemma listed_data:
  assumes "us_ok s" "i \<in> listed_ids s"
  obtains cd where "map_of (us_contacts s) i = Some cd" "contact_ref i s = (Ok cd, s)"
  using assms unfolding us_ok_def contact_ref_def getA_def by (auto simp: dom_def)

lemma connect_event_ok:
  assumes "us_ok s" "i \<in> listed_ids s" "i \<notin> connected_ids s" "cd_state q = CONNECTED" "cd_set q"
  shows "us_ok (s\<lparr>us_contacts := omap_put i q (us_contacts s), us_events := us_events s @ [ContactConnected i]\<rparr>)"
  using assms by (intro us_ok_put) (auto simp: us_ok_def online_after_append)

lemma disconnect_event_ok:
  assumes "us_ok s" "i \<in> connected_ids s" "cd_state q = OFFLINE"
  shows "us_ok (s\<lparr>us_contacts := omap_put i q (us_contacts s), us_events := us_events s @ [ContactDisconnected i n]\<rparr>)"
  using assms by (intro us_ok_put) (auto simp: us_ok_def online_after_append)

lemma unlisted_find: "i \<notin> listed_ids s \<Longrightarrow> find (\<lambda>u. ui_id u = i) (cl_list (lu_contacts (us_user s))) = None"
  by (auto simp: listed_ids_def find_None_iff)

lemma listed_find:
  assumes "i \<in> listed_ids s"
  obtains u where "find (\<lambda>u. ui_id u = i) (cl_list (lu_contacts (us_user s))) = Some u" "ui_id u = i"
proof (cases "find (\<lambda>u. ui_id u = i) (cl_list (lu_contacts (us_user s)))")
  case None
  then show ?thesis using assms find_listed(2) by blast
next
  case (Some u)
  then show ?thesis using that find_listed(1) by blast
qed

text \<open>What the connection state machine does from every state of a listed contact.\<close>

lemma fire_connected_eq:
  assumes ok: "us_ok s" and cd: "map_of (us_contacts s) i = Some cd"
  shows "fire_contact_connected_event i s =
    (if i \<notin> listed_ids s \<or> cd_state cd = CONNECTED then (Ok (), s)
     else if cd_state cd = OFFLINE then (Exit, s)
     else (Ok (), s\<lparr>us_contacts := omap_put i (cd\<lparr>cd_set := True, cd_idle := True, cd_last_ping := 0, cd_state := CONNECTED\<rparr>) (us_contacts s),
                    us_events := us_events s @ [ContactConnected i]\<rparr>))"
proof (cases "i \<in> listed_ids s")
  case False
  then show ?thesis using ok by (simp add: fire_contact_connected_event_def contact_connected_def unlisted_find retA_def)
next
  case True
  obtain u where u: "find (\<lambda>u. ui_id u = i) (cl_list (lu_contacts (us_user s))) = Some u" "ui_id u = i" using listed_find [OF True] by blast
  have ref: "contact_ref i s = (Ok cd, s)" using cd by (simp add: contact_ref_def getA_def)
  show ?thesis using True ok u ref
    by (cases "cd_state cd") (simp_all add: fire_contact_connected_event_def contact_connected_def bindA_Ok put_contact_def send_event_def retA_def modA_def)
qed

lemma contact_connecting_eq:
  assumes ok: "us_ok s" and cd: "map_of (us_contacts s) i = Some cd"
  shows "contact_connecting i s =
    (if i \<notin> listed_ids s then (Ok False, s)
     else (Ok True, s\<lparr>us_contacts := omap_put i (cd\<lparr>cd_idle := True, cd_set := True, cd_last_ping := 0, cd_state := CONNECTING\<rparr>) (us_contacts s)\<rparr>))"
proof (cases "i \<in> listed_ids s")
  case False
  then show ?thesis using ok by (simp add: contact_connecting_def unlisted_find retA_def)
next
  case True
  obtain u where u: "find (\<lambda>u. ui_id u = i) (cl_list (lu_contacts (us_user s))) = Some u" "ui_id u = i" using listed_find [OF True] by blast
  have "contact_ref i s = (Ok cd, s)" using cd by (simp add: contact_ref_def getA_def)
  then show ?thesis using True ok u by (simp add: contact_connecting_def bindA_Ok put_contact_def retA_def)
qed

lemma fire_disconnected_eq:
  assumes ok: "us_ok s" and cd: "map_of (us_contacts s) i = Some cd"
  shows "fire_contact_disconnected_event i s =
    (if i \<notin> listed_ids s then (Ok (), s)
     else if cd_state cd = OFFLINE then (Ok (), s\<lparr>us_contacts := omap_put i cd (us_contacts s)\<rparr>)
     else let s1 = s\<lparr>us_contacts := omap_put i (cd\<lparr>cd_state := OFFLINE, cd_last_ping := PING_THRESH\<rparr>) (us_contacts s)\<rparr> in
       if cd_state cd = CONNECTING then (Ok (), s1)
       else let u = the (contact_object s i)
         in (Ok (), s1\<lparr>us_channels := fold remove_channel (ui_addresses u) (us_channels s), us_events := us_events s @ [ContactDisconnected i (ui_name u)]\<rparr>))"
proof (cases "i \<in> listed_ids s")
  case False
  then show ?thesis using ok by (simp add: fire_contact_disconnected_event_def unlisted_find retA_def)
next
  case True
  obtain u where u: "find (\<lambda>u. ui_id u = i) (cl_list (lu_contacts (us_user s))) = Some u" "ui_id u = i" using listed_find [OF True] by blast
  have ref: "contact_ref i s = (Ok cd, s)" using cd by (simp add: contact_ref_def getA_def)
  have "cd_state cd \<noteq> OFFLINE \<Longrightarrow> cd_set cd" using ok cd unfolding us_ok_def by metis
  then show ?thesis using True ok u ref
    by (cases "cd_state cd")
      (simp_all add: fire_contact_disconnected_event_def bindA_Ok put_contact_def send_event_def retA_def modA_def contact_object_def requireA_def liftA_def)
qed

lemma put_self: "omap_ok ps \<Longrightarrow> map_of ps k = Some v \<Longrightarrow> omap_put k v ps = ps"
  proof (induction k v ps rule: omap_put.induct)
  case (2 k v p ps)
  have "\<not> k < fst p" if "k \<noteq> fst p" using 2 that by (auto dest!: map_of_SomeD)
  then show ?case using 2 by (cases p) auto
qed simp


lemma update_contact_version_eq:
  assumes ok: "us_ok s" and cd: "i \<in> listed_ids s \<Longrightarrow> map_of (us_contacts s) i = Some cd"
  shows "update_contact_version i pv cv s =
    (if sint pv < 0 \<or> sint cv < 0 \<or> i \<notin> listed_ids s then (Ok (), s)
     else put_contact i (cd\<lparr>cd_protocol_version := pv, cd_client_version := cv\<rparr>) s)"
proof (cases "i \<in> listed_ids s")
  case False
  then show ?thesis using ok by (simp add: update_contact_version_def unlisted_find retA_def)
next
  case True
  obtain u where u: "find (\<lambda>u. ui_id u = i) (cl_list (lu_contacts (us_user s))) = Some u" "ui_id u = i" using listed_find [OF True] by blast
  have "contact_ref i s = (Ok cd, s)" using cd True by (simp add: contact_ref_def getA_def)
  then show ?thesis using True ok u by (simp add: update_contact_version_def bindA_Ok retA_def)
qed

lemma listed_dom: "us_ok s \<Longrightarrow> i \<in> listed_ids s \<Longrightarrow> \<exists>cd. map_of (us_contacts s) i = Some cd"
  unfolding us_ok_def by blast

lemma keeps_update_contact_version [keeps_intros]: "keeps us_ok (update_contact_version i pv cv)"
  unfolding keeps_def
proof (intro allI impI)
  fix s :: "('a, 'b) user_service" assume ok: "us_ok s"
  show "us_ok (snd (update_contact_version i pv cv s))"
  proof (cases "i \<in> listed_ids s")
    case True
    then obtain cd where cd: "map_of (us_contacts s) i = Some cd" using listed_dom [OF ok] by blast
    show ?thesis using ok True put_same_state [of "\<lambda>_. True" s i cd "cd\<lparr>cd_protocol_version := pv, cd_client_version := cv\<rparr>"] cd
      by (simp add: update_contact_version_eq [OF ok cd])
  next
    case False
    then show ?thesis using ok update_contact_version_eq [OF ok, of i contact_data_default pv cv] by simp
  qed
qed

lemma fire_connected_ok:
  assumes ok: "us_ok s" and cd: "map_of (us_contacts s) i = Some cd"
  shows "us_ok (snd (fire_contact_connected_event i s))"
  using connect_event_ok [OF ok, of i "cd\<lparr>cd_set := True, cd_idle := True, cd_last_ping := 0, cd_state := CONNECTED\<rparr>"] ok cd
  by (simp add: fire_connected_eq [OF ok cd] connected_ids_def)

lemma fire_disconnected_ok:
  assumes ok: "us_ok s" and cd: "map_of (us_contacts s) i = Some cd"
  shows "us_ok (snd (fire_contact_disconnected_event i s))"
proof -
  let ?q = "cd\<lparr>cd_state := OFFLINE, cd_last_ping := PING_THRESH\<rparr>"
  have om: "omap_ok (us_contacts s)" using ok by (simp add: us_ok_def)
  have con: "us_ok (s\<lparr>us_contacts := omap_put i ?q (us_contacts s), us_channels := ch, us_events := us_events s @ [ContactDisconnected i n]\<rparr>)"
    if "cd_state cd = CONNECTED" for ch n
    using disconnect_event_ok [OF ok, of i ?q n] that cd
    by (auto simp: connected_ids_def elim!: us_okC_cong [of "\<lambda>_. True", simplified])
  have ing: "us_ok (s\<lparr>us_contacts := omap_put i ?q (us_contacts s)\<rparr>)" if "cd_state cd = CONNECTING"
    using put_not_connected [OF ok, of i ?q] that cd by (simp add: put_contact_def connected_ids_def)
  show ?thesis using ok con ing put_self [OF om cd] by (cases "cd_state cd") (simp_all add: fire_disconnected_eq [OF ok cd] Let_def)
qed

text \<open>No contact of the set is connected.\<close>

definition none_of :: "string set \<Rightarrow> (string \<rightharpoonup> contact_data) \<Rightarrow> bool" where
  "none_of S m \<longleftrightarrow> (\<forall>i\<in>S. \<forall>cd. m i = Some cd \<longrightarrow> cd_state cd \<noteq> CONNECTED)"

lemma none_of_empty [simp]: "none_of {} = (\<lambda>_. True)"
  by (simp add: none_of_def fun_eq_iff)

lemma none_of_same: "none_of S m \<Longrightarrow> m i = Some p \<Longrightarrow> cd_state q = cd_state p \<Longrightarrow> none_of S (m(i \<mapsto> q))"
  by (auto simp: none_of_def)

lemma us_okC_ok [simp]: "us_okC C s \<Longrightarrow> us_ok s"
  by (simp add: us_okC_def)

lemma ends_by_id [ends_intros]:
  "us_okC C s \<Longrightarrow> ends (us_okC C) (f (find (\<lambda>u. ui_id u = i) (cl_list (lu_contacts (us_user s))))) s \<Longrightarrow> ends (us_okC C) (bindA (by_id i) f) s"
  by (simp add: ends_def)

lemma ends_put_same:
  assumes "us_okC (none_of S) s" "map_of (us_contacts s) i = Some p" "cd_state q = cd_state p"
    "cd_set q = cd_set p \<or> cd_state p = OFFLINE"
  shows "ends (us_okC (none_of S)) (put_contact i q) s"
proof (cases "cd_set q = cd_set p")
  case True
  then show ?thesis using assms none_of_same [of S _ i p q] unfolding ends_def by (intro put_same_state) (auto simp: us_okC_def)
next
  case False
  then have "us_ok (snd (put_contact i q s))" using assms by (intro put_not_connected) (auto simp: us_okC_def connected_ids_def)
  moreover have "omap_ok (us_contacts s)" using assms(1) by (simp add: us_okC_def us_ok_def)
  ultimately show ?thesis using assms none_of_same [of S _ i p q] by (simp add: ends_def us_okC_def put_contact_def)
qed

lemma keeps_send_ping_to [keeps_intros]: "keeps (us_okC (none_of S)) (send_ping_to sv i force)"
  unfolding send_ping_to_def bindA_assoc Let_def
proof (intro keeps_ends ends_intros ends_keeps [OF keeps_push_outbox])
  fix s :: "('a, 'b) user_service" and p c
  assume ok: "us_okC (none_of S) s" and p: "map_of (us_contacts s) i = Some p" and c: "contact_object s i = Some c"
    and none: "find (\<lambda>u. ui_id u = ui_id c) (cl_list (lu_contacts (us_user s))) = None"
  have "i \<notin> listed_ids s"
  proof
    assume "i \<in> listed_ids s"
    then obtain u where "find (\<lambda>u. ui_id u = i) (cl_list (lu_contacts (us_user s))) = Some u" "ui_id u = i" using listed_find by blast
    then show False using c none by (simp add: contact_object_def)
  qed
  then have "cd_state p = OFFLINE" using ok p unfolding us_okC_def us_ok_def by metis
  then show "ends (us_okC (none_of S)) (put_contact i (p\<lparr>cd_set := False\<rparr>)) s" using ok p by (intro ends_put_same) auto
qed auto

lemma keeps_send_ping [keeps_intros]: "keeps (us_okC (none_of S)) (send_ping sv)"
  unfolding send_ping_def by (intro keeps_intros)

lemma ends_fire:
  assumes "us_ok s" "map_of (us_contacts s) i = Some cd"
  shows "ends us_ok (fire_contact_connected_event i) s" "ends us_ok (fire_contact_disconnected_event i) s"
  using assms by (simp_all add: ends_def fire_connected_ok fire_disconnected_ok)

lemmas keeps_plain [keeps_intros] =
  keeps_push_outbox [where C = "\<lambda>_. True", unfolded us_okC_True] keeps_save [where C = "\<lambda>_. True", unfolded us_okC_True]
  keeps_by_id [where C = "\<lambda>_. True", unfolded us_okC_True] keeps_events [where C = "\<lambda>_. True", unfolded us_okC_True]
  keeps_us_quiet [where C = "\<lambda>_. True", unfolded us_okC_True] keeps_us_requests [where C = "\<lambda>_. True", unfolded us_okC_True]
  keeps_send_ping_to [where S = "{}", unfolded none_of_empty us_okC_True] keeps_send_ping [where S = "{}", unfolded none_of_empty us_okC_True]

lemma keeps_weaken: "keeps (us_okC C) m \<Longrightarrow> us_okC C s \<Longrightarrow> ends us_ok m s"
  by (metis ends_def keepsD us_okC_ok)

lemma ends_put_present:
  assumes "us_ok s" "map_of (us_contacts s) i = Some p" "cd_state q = cd_state p" "cd_set q = cd_set p"
  shows "ends (us_okC (\<lambda>m. m i \<noteq> None)) (put_contact i q) s"
proof -
  have "us_okC (\<lambda>m. m i \<noteq> None) s" using assms by (simp add: us_okC_def)
  then show ?thesis using assms unfolding ends_def by (intro put_same_state [of _ s i p]) auto
qed

lemma ends_fire_present:
  assumes "us_okC (\<lambda>m. m i \<noteq> None) s"
  shows "ends us_ok (fire_contact_connected_event i) s" "ends us_ok (fire_contact_disconnected_event i) s"
  using assms ends_fire unfolding us_okC_def by blast+

lemma keeps_received_ping [keeps_intros]: "keeps us_ok (received_ping m)"
  unfolding received_ping_def Let_def
proof (intro keeps_ends ends_intros)
  fix s :: "('a, 'b) user_service" and r p
  assume ok: "us_ok s" and p: "map_of (us_contacts s) (pg_from_id r) = Some p"
  let ?i = "pg_from_id r" and ?q = "p\<lparr>cd_last_ping := ping_ticks (pg_state r), cd_idle := ping_idle (pg_state r) (cd_idle p)\<rparr>"
  have "ends us_ok (thenA (requireA b) (thenA (if f then if g then fire_contact_connected_event ?i else fire_contact_disconnected_event ?i else retA ()) (if h then fire_contact_activity_changed_event ?i else retA ()))) s1"
    if "us_okC (\<lambda>m. m ?i \<noteq> None) s1" for b f g h and s1 :: "('a, 'b) user_service"
    using that unfolding fire_contact_activity_changed_event_def
    by (intro ends_intros ends_then [where J = us_ok] ends_fire_present ends_keeps keeps_intros) (auto simp: us_okC_def)
  then show "ends us_ok (thenA (put_contact ?i ?q) (thenA (requireA (pg_state r = PING_DISCONNECTED \<longrightarrow> \<not> available (ping_ticks (pg_state r))))
      (thenA (if available (ping_ticks (pg_state r)) \<noteq> available (cd_last_ping p) \<or> cd_state p = CONNECTING
         then if available (ping_ticks (pg_state r)) then fire_contact_connected_event ?i else fire_contact_disconnected_event ?i else retA ())
       (if ping_idle (pg_state r) (cd_idle p) \<noteq> cd_idle p then fire_contact_activity_changed_event ?i else retA ())))) s"
    using ok p by (intro ends_then [OF ends_put_present [OF ok p]]) auto
qed auto

lemma keeps_connecting:
  assumes "us_okC (none_of {i}) s"
  shows "ends us_ok (contact_connecting i) s"
proof (cases "i \<in> listed_ids s")
  case True
  have ok: "us_ok s" and nc: "i \<notin> connected_ids s" using assms by (auto simp: us_okC_def none_of_def connected_ids_def)
  obtain cd where cd: "map_of (us_contacts s) i = Some cd" using listed_dom [OF ok True] by blast
  show ?thesis using put_not_connected [OF ok nc, of "cd\<lparr>cd_idle := True, cd_set := True, cd_last_ping := 0, cd_state := CONNECTING\<rparr>"] True
    by (simp add: ends_def contact_connecting_eq [OF ok cd] put_contact_def)
next
  case False
  then show ?thesis using assms by (simp add: ends_def contact_connecting_def unlisted_find)
qed

lemma guard_available:
  "us_ok s \<Longrightarrow> \<not> contact_available s i \<Longrightarrow> us_okC (none_of {i}) s"
  unfolding us_okC_def us_ok_def none_of_def contact_available_def by (fastforce split: option.splits)

lemma keeps_answer:
  assumes "us_okC (none_of {i}) s"
  shows "ends us_ok (answer_connect_request E i ip port r) s"
proof -
  let ?J = "us_okC (none_of {i})"
  have tail: "ends us_ok (bindA (contact_connecting i) (\<lambda>_. thenA (setup_security_conversation E a k pv) (send_ping_to sv i True))) s1"
    if "?J s1" for s1 :: "('a, 'b) user_service" and a k pv sv
    using that by (intro ends_bind [OF keeps_connecting] ends_keeps keeps_intros)
  have mid: "ends us_ok (thenA (if b then send_ping_request E c False else retA ())
       (bindA (contact_connecting i) (\<lambda>_. thenA (setup_security_conversation E a k pv) (send_ping_to sv i True)))) s1"
    if "?J s1" for s1 :: "('a, 'b) user_service" and b c a k pv sv
    using that by (intro ends_then [where J = ?J] tail ends_keeps keeps_intros) auto
  show ?thesis unfolding answer_connect_request_def
    using assms by (intro ends_then [where J = ?J] ends_get ends_option ends_quiet mid ends_keeps [OF keeps_us_quiet(3)]) auto
qed

lemma ends_by_id_ok [ends_intros]:
  "us_ok s \<Longrightarrow> ends us_ok (f (find (\<lambda>u. ui_id u = i) (cl_list (lu_contacts (us_user s))))) s \<Longrightarrow> ends us_ok (bindA (by_id i) f) s"
  by (simp add: ends_def)

lemma keeps_received_connect_request [keeps_intros]: "keeps us_ok (received_connect_request E m)"
  unfolding received_connect_request_def
  by (intro keeps_ends ends_intros ends_then [where J = us_ok] ends_keeps [OF keeps_update_contact_version] keeps_answer guard_available) auto

lemma keeps_handlers [keeps_intros]:
  "keeps us_ok (received_register_with_greeter E m)" "keeps us_ok (received_greet_key_response E m)"
  "keeps us_ok (received_greet_find_response E m)" "keeps us_ok (received_introduction E m)"
  unfolding received_register_with_greeter_def received_greet_key_response_def received_greet_find_response_def received_introduction_def
    fire_new_introduction_def Let_def
  by (intro keeps_intros)+

lemma keeps_user_turn [keeps_intros]: "keeps us_ok (user_turn E m)"
  unfolding user_turn_def by (rule keeps_service_turn) (auto simp: init_handlers_def intro: keeps_intros)

lemma keeps_tick_contact [keeps_intros]: "keeps us_ok (tick_contact i)"
  unfolding tick_contact_def Let_def
proof (intro keeps_ends ends_intros)
  fix s :: "('a, 'b) user_service" and p
  assume ok: "us_ok s" and p: "map_of (us_contacts s) i = Some p"
  have "ends us_ok (if b then thenA (requireA c) (fire_contact_disconnected_event i) else retA ()) s1"
    if "us_okC (\<lambda>m. m i \<noteq> None) s1" for b c and s1 :: "('a, 'b) user_service"
    using that by (intro ends_intros ends_fire_present) auto
  then show "ends us_ok (thenA (put_contact i (p\<lparr>cd_last_ping := Suc (cd_last_ping p)\<rparr>))
      (if available (Suc (cd_last_ping p)) \<noteq> available (cd_last_ping p)
       then thenA (requireA (\<not> available (Suc (cd_last_ping p)))) (fire_contact_disconnected_event i) else retA ())) s"
    by (intro ends_then [OF ends_put_present [OF ok p]]) auto
qed auto

lemma keeps_threads [keeps_intros]: "keeps us_ok tick_contacts" "keeps us_ok (ping_turn E n)" "keeps us_ok (reconnect_turn E n)" "keeps us_ok user_service_stop"
  unfolding tick_contacts_def ping_turn_def reconnect_turn_def user_service_stop_def by (intro keeps_intros)+

text \<open>Adding and removing contacts.\<close>

lemma ends_remove:
  assumes "us_okC (\<lambda>m. \<forall>cd. m i = Some cd \<longrightarrow> cd_state cd = OFFLINE) s" "ui_id c = i"
  shows "ends us_ok (partA (\<lambda>s. lu_contacts (us_user s)) (\<lambda>l s. s\<lparr>us_user := (us_user s)\<lparr>lu_contacts := l\<rparr>\<rparr>) (cl_remove c)) s"
proof -
  have ok: "us_ok s" using assms by (simp add: us_okC_def)
  then have "cl_ok (lu_contacts (us_user s))" by (simp add: us_ok_def)
  then obtain b l where l: "cl_remove c (lu_contacts (us_user s)) = Ok (b, l)" "cl_ok l" "cl_list l = spec_remove c (cl_list (lu_contacts (us_user s)))"
    using cl_remove_spec by blast
  define s' where "s' = s\<lparr>us_user := (us_user s)\<lparr>lu_contacts := l\<rparr>\<rparr>"
  have ids: "listed_ids s' = listed_ids s - {i}" using l assms(2) by (auto simp: s'_def listed_ids_def spec_remove_def)
  have same: "us_contacts s' = us_contacts s" "us_events s' = us_events s" "connected_ids s' = connected_ids s" "lu_contacts (us_user s') = l"
    by (simp_all add: s'_def connected_ids_def)
  have off: "map_of (us_contacts s) i = Some cd \<Longrightarrow> cd_state cd = OFFLINE" for cd using assms by (simp add: us_okC_def)
  have "us_ok s'" using ok l(2) off unfolding us_ok_def ids same by blast
  then show ?thesis using l by (simp add: ends_def partA_def s'_def)
qed

lemma ends_disconnect_offline:
  assumes ok: "us_ok s" and i: "i \<in> listed_ids s"
  shows "ends (us_okC (\<lambda>m. \<forall>cd. m i = Some cd \<longrightarrow> cd_state cd = OFFLINE)) (fire_contact_disconnected_event i) s"
proof -
  obtain cd where cd: "map_of (us_contacts s) i = Some cd" using listed_dom [OF ok i] by blast
  have om: "omap_ok (us_contacts s)" using ok by (simp add: us_ok_def)
  have "us_ok (snd (fire_contact_disconnected_event i s))" by (rule fire_disconnected_ok [OF ok cd])
  moreover have "map_of (us_contacts (snd (fire_contact_disconnected_event i s))) i = Some q \<Longrightarrow> cd_state q = OFFLINE" for q
    using om i cd by (auto simp: fire_disconnected_eq [OF ok cd] Let_def split: if_splits)
  ultimately show ?thesis by (simp add: ends_def us_okC_def)
qed

lemma keeps_remove_contact [keeps_intros]: "keeps us_ok (remove_contact E i)"
  unfolding remove_contact_def
proof (intro keeps_ends ends_intros)
  fix s :: "('a, 'b) user_service" and c
  assume ok: "us_ok s" and c: "find (\<lambda>u. ui_id u = i) (cl_list (lu_contacts (us_user s))) = Some c"
  let ?J = "us_okC (\<lambda>m. \<forall>cd. m i = Some cd \<longrightarrow> cd_state cd = OFFLINE)"
  have i: "i \<in> listed_ids s" "ui_id c = i" using find_listed(1) [OF c] by auto
  have gone: "ends ?J (modA (\<lambda>s. s\<lparr>us_gone := (i, c) # us_gone s\<rparr>)) s1" if "?J s1" for s1 :: "('a, 'b) user_service"
    using that by (auto simp: ends_def elim!: us_okC_cong)
  show "ends us_ok (thenA (fire_contact_disconnected_event i) (thenA (modA (\<lambda>s. s\<lparr>us_gone := (i, c) # us_gone s\<rparr>))
     (thenA (partA (\<lambda>s. lu_contacts (us_user s)) (\<lambda>l s. s\<lparr>us_user := (us_user s)\<lparr>lu_contacts := l\<rparr>\<rparr>) (cl_remove c)) (us_save E)))) s"
    by (intro ends_then [OF ends_disconnect_offline [OF ok i(1)]] ends_then [OF gone] ends_then [where J = us_ok] ends_remove ends_keeps [OF keeps_plain(2)])
      (auto simp: i)
qed auto

lemma us_ok_add:
  assumes ok: "us_ok s" and new: "ui_id c \<notin> listed_ids s"
    and l: "cl_ok l" "cl_list l = cl_list (lu_contacts (us_user s)) @ [c]" and q: "cd_state q = OFFLINE"
  shows "us_ok (s\<lparr>us_user := (us_user s)\<lparr>lu_contacts := l\<rparr>, us_contacts := omap_put (ui_id c) q (us_contacts s)\<rparr>)"
proof -
  define s' where "s' = s\<lparr>us_user := (us_user s)\<lparr>lu_contacts := l\<rparr>, us_contacts := omap_put (ui_id c) q (us_contacts s)\<rparr>"
  have om: "omap_ok (us_contacts s)" using ok by (simp add: us_ok_def)
  have off: "map_of (us_contacts s) (ui_id c) = Some cd \<Longrightarrow> cd_state cd = OFFLINE" for cd using ok new unfolding us_ok_def by blast
  have ids: "listed_ids s' = insert (ui_id c) (listed_ids s)" using l by (simp add: s'_def listed_ids_def)
  have con: "connected_ids s' = connected_ids s" using om q off by (force simp: s'_def connected_ids_def split: if_splits)
  have same: "us_events s' = us_events s" "lu_contacts (us_user s') = l" "map_of (us_contacts s') = (map_of (us_contacts s))(ui_id c \<mapsto> q)" "omap_ok (us_contacts s')"
    using om by (simp_all add: s'_def)
  have "us_ok s'" using ok l(1) q same(4) unfolding us_ok_def ids same(1-3) con by auto
  then show ?thesis by (simp add: s'_def)
qed

lemma ends_add_contact:
  assumes ok: "us_ok s" and new: "ui_id c \<notin> listed_ids s" and k: "keeps us_ok k"
  shows "ends us_ok (thenA (partA (\<lambda>s. lu_contacts (us_user s)) (\<lambda>l s. s\<lparr>us_user := (us_user s)\<lparr>lu_contacts := l\<rparr>\<rparr>) (cl_add c)) (thenA (add_contact_data c) k)) s"
proof -
  have "cl_ok (lu_contacts (us_user s))" using ok by (simp add: us_ok_def)
  then obtain b l where l: "cl_add c (lu_contacts (us_user s)) = Ok (b, l)" "cl_ok l" "cl_list l = spec_add c (cl_list (lu_contacts (us_user s)))"
    using cl_add_spec by blast
  have "spec_add c (cl_list (lu_contacts (us_user s))) = cl_list (lu_contacts (us_user s)) @ [c]" using new by (simp add: spec_add_def listed_ids_def)
  then have "us_ok (s\<lparr>us_user := (us_user s)\<lparr>lu_contacts := l\<rparr>, us_contacts := omap_put (ui_id c) q (us_contacts s)\<rparr>)" if "cd_state q = OFFLINE" for q
    using us_ok_add [OF ok new l(2)] l(3) that by simp
  then show ?thesis using l k
    by (simp add: ends_def partA_def bindA_def [of "partA _ _ _"] add_contact_data_def put_contact_def keepsD)
qed

lemma keeps_confirm_contact [keeps_intros]: "keeps us_ok (confirm_contact E cf)"
  unfolding confirm_contact_def Let_def
proof (rule keeps_ends, intro ends_intros ends_add_contact keeps_intros)
  fix s :: "('a, 'b) user_service"
  assume "\<not> find (\<lambda>u. ui_id u = ui_id (iy_contact cf)) (cl_list (lu_contacts (us_user s))) \<noteq> None"
  then show "ui_id (iy_contact cf) \<notin> listed_ids s" using find_listed(2) by blast
qed auto

text \<open>The service as it starts: no contact data and no events yet, and a loaded user.\<close>

definition us_fresh :: "('r, 'k) user_service \<Rightarrow> bool" where
  "us_fresh s \<longleftrightarrow> us_contacts s = [] \<and> us_events s = [] \<and> cl_ok (lu_contacts (us_user s))"

lemma add_all_data:
  "us_events s = [] \<Longrightarrow> omap_ok (us_contacts s) \<Longrightarrow> (\<forall>i cd. map_of (us_contacts s) i = Some cd \<longrightarrow> cd_state cd = OFFLINE) \<Longrightarrow>
   \<exists>s1. forA add_contact_data us s = (Ok (), s1) \<and> us_events s1 = [] \<and> us_user s1 = us_user s \<and> omap_ok (us_contacts s1) \<and>
     (\<forall>i cd. map_of (us_contacts s1) i = Some cd \<longrightarrow> cd_state cd = OFFLINE) \<and> dom (map_of (us_contacts s1)) = dom (map_of (us_contacts s)) \<union> ui_id ` set us"
proof (induction us arbitrary: s)
  case (Cons u us)
  obtain s0 where s0: "add_contact_data u s = (Ok (), s0)" "us_events s0 = []" "us_user s0 = us_user s" "omap_ok (us_contacts s0)"
    "\<forall>i cd. map_of (us_contacts s0) i = Some cd \<longrightarrow> cd_state cd = OFFLINE" "dom (map_of (us_contacts s0)) = insert (ui_id u) (dom (map_of (us_contacts s)))"
    using Cons.prems by (simp add: add_contact_data_def put_contact_def modA_def)
  then show ?case using Cons.IH [of s0] by (simp add: bindA_Ok)
qed (simp add: retA_def)


lemma update_address_quiet:
  "\<exists>r s1. update_address E a s = (r, s1) \<and> us_contacts s1 = us_contacts s \<and> us_events s1 = us_events s \<and> lu_contacts (us_user s1) = lu_contacts (us_user s)"
proof -
  have "keeps (\<lambda>s1. us_contacts s1 = us_contacts s \<and> us_events s1 = us_events s \<and> lu_contacts (us_user s1) = lu_contacts (us_user s)) (update_address E a)"
    unfolding update_address_def us_save_def by (intro keeps_intros keeps_modA keeps_partA) auto
  from keepsD [OF this] show ?thesis by (metis prod.exhaust_sel)
qed

lemma user_service_start_ok:
  assumes "us_fresh s" "user_service_start E s = (Ok (), s1)"
  shows "us_ok s1"
proof -
  obtain r s0 where s0: "update_address E (make_udp_address (us_in_host s) (us_in_port s) 0) s = (r, s0)"
    "us_contacts s0 = []" "us_events s0 = []" "cl_ok (lu_contacts (us_user s0))"
    using update_address_quiet [of E "make_udp_address (us_in_host s) (us_in_port s) 0" s] assms(1) unfolding us_fresh_def by auto
  have "us_home s \<noteq> []" using assms(2) by (rule_tac ccontr) (simp add: user_service_start_def)
  then have run: "bindA (update_address E (make_udp_address (us_in_host s) (us_in_port s) 0)) (\<lambda>_. bindA (getA (\<lambda>s. cl_list (lu_contacts (us_user s)))) (forA add_contact_data)) s = (Ok (), s1)"
    using assms(2) by (simp add: user_service_start_def)
  then have "forA add_contact_data (cl_list (lu_contacts (us_user s0))) s0 = (Ok (), s1)"
    using s0(1) by (cases r) (simp_all add: bindA_def getA_def)
  then have s1: "us_events s1 = []" "us_user s1 = us_user s0" "omap_ok (us_contacts s1)" "dom (map_of (us_contacts s1)) = listed_ids s0"
    "map_of (us_contacts s1) i = Some cd \<Longrightarrow> cd_state cd = OFFLINE" for i cd
    using add_all_data [of s0 "cl_list (lu_contacts (us_user s0))"] s0 by (auto simp: listed_ids_def)
  then have "connected_ids s1 = {}" by (fastforce simp: connected_ids_def)
  then show ?thesis using s1 s0(4) unfolding us_ok_def by (auto simp: listed_ids_def)
qed

section \<open>Runs of the service\<close>

text \<open>
  A step is a message of the service thread, a turn of the ping or the reconnect thread, or a call of the user interface.
\<close>

inductive us_step :: "('r, 'k) us_env \<Rightarrow> ('r, 'k) user_service \<Rightarrow> ('r, 'k) user_service \<Rightarrow> bool" for E where
  Message: "survives (user_turn E m) s s1 \<Longrightarrow> us_step E s s1"
| Ping: "survives (ping_turn E n) s s1 \<Longrightarrow> us_step E s s1"
| Reconnect: "survives (reconnect_turn E n) s s1 \<Longrightarrow> us_step E s s1"
| Confirm: "survives (confirm_contact E cf) s s1 \<Longrightarrow> us_step E s s1"
| Remove: "survives (remove_contact E i) s s1 \<Longrightarrow> us_step E s s1"
| AddGreeter: "survives (add_greeter_address E a) s s1 \<Longrightarrow> us_step E s s1"
| RemoveGreeter: "survives (remove_greeter E a) s s1 \<Longrightarrow> us_step E s s1"
| RemoveIntroduction: "survives (remove_introduction E i1) s s1 \<Longrightarrow> us_step E s s1"
| SendIntroduction: "survives (send_introduction E to i1) s s1 \<Longrightarrow> us_step E s s1"

inductive_cases us_step_cases: "us_step E s s1"

lemma us_step_ok: "us_step E s s1 \<Longrightarrow> us_ok s \<Longrightarrow> us_ok s1"
  by (erule us_step_cases; erule survives_keeps [where I = us_ok]; (assumption | intro keeps_intros))

lemma us_steps_ok:
  assumes "(us_step E)\<^sup>*\<^sup>* s s1" "us_ok s"
  shows "us_ok s1"
  using assms by (induction rule: rtranclp_induct) (auto intro: us_step_ok)

text \<open>
  C5. The events tell the connection states: however the service is started and run, connects and disconnects alternate for every contact, and the
  contacts that are online after the events so far are exactly those whose connection state is connected, all of them listed contacts.
\<close>

theorem events_follow_states:
  assumes "us_fresh s" "user_service_start E s = (Ok (), s0)" "(us_step E)\<^sup>*\<^sup>* s0 s1"
  shows "online_after (us_events s1) {} = Some (connected_ids s1) \<and> connected_ids s1 \<subseteq> listed_ids s1"
proof -
  have "us_ok s1" using us_steps_ok [OF assms(3)] user_service_start_ok [OF assms(1, 2)] by blast
  then show ?thesis unfolding us_ok_def connected_ids_def by fastforce
qed

section \<open>Contacts that fall silent\<close>

text \<open>\<open>n\<close> turns of the ping thread, which counts \<open>k\<close> turns since its last ping.\<close>

primrec ping_turns :: "('r, 'k) us_env \<Rightarrow> nat \<Rightarrow> nat \<Rightarrow> ('r, 'k, nat) us_action" where
  "ping_turns E 0 k = retA k"
| "ping_turns E (Suc n) k = bindA (ping_turn E k) (ping_turns E n)"

definition tick_data :: "contact_data \<Rightarrow> contact_data" where
  "tick_data cd =
     (if cd_state cd = OFFLINE \<or> \<not> cd_set cd then cd
      else if available (cd_last_ping cd) \<and> \<not> available (Suc (cd_last_ping cd)) then cd\<lparr>cd_state := OFFLINE, cd_last_ping := PING_THRESH\<rparr>
      else cd\<lparr>cd_last_ping := Suc (cd_last_ping cd)\<rparr>)"

lemma tick_contact_spec:
  assumes ok: "us_ok s" and cd: "map_of (us_contacts s) i = Some cd"
  shows "\<exists>s1. tick_contact i s = (Ok (), s1) \<and> us_ok s1 \<and> us_user s1 = us_user s \<and> map_of (us_contacts s1) = (map_of (us_contacts s))(i \<mapsto> tick_data cd)"
proof (cases "cd_state cd = OFFLINE \<or> \<not> cd_set cd")
  case True
  then show ?thesis using ok cd by (auto simp: tick_contact_def tick_data_def retA_def fun_upd_idem)
next
  case False
  let ?q = "cd\<lparr>cd_last_ping := Suc (cd_last_ping cd)\<rparr>"
  define s1 where "s1 = s\<lparr>us_contacts := omap_put i ?q (us_contacts s)\<rparr>"
  have om: "omap_ok (us_contacts s)" using ok by (simp add: us_ok_def)
  have ok1: "us_ok s1" using put_same_state [of "\<lambda>_. True" s i cd ?q] ok cd by (simp add: s1_def put_contact_def)
  have cd1: "map_of (us_contacts s1) i = Some ?q" using om by (simp add: s1_def)
  have i: "i \<in> listed_ids s1" using ok1 cd1 False unfolding us_ok_def by (metis contact_data.select_convs(1) contact_data.surjective contact_data.update_convs(3))
  have run: "tick_contact i s = (if available (Suc (cd_last_ping cd)) \<noteq> available (cd_last_ping cd)
       then bindA (requireA (\<not> available (Suc (cd_last_ping cd)))) (\<lambda>_. fire_contact_disconnected_event i) s1 else (Ok (), s1))"
    using False cd by (simp add: tick_contact_def put_contact_def s1_def retA_def)
  have ok2: "us_ok (snd (fire_contact_disconnected_event i s1))" by (rule fire_disconnected_ok [OF ok1 cd1])
  show ?thesis
  proof (cases "available (cd_last_ping cd) \<and> \<not> available (Suc (cd_last_ping cd))")
    case True
    then have "tick_contact i s = fire_contact_disconnected_event i s1" using run by simp
    moreover have "us_user s1 = us_user s" "map_of (us_contacts s1) = (map_of (us_contacts s))(i \<mapsto> ?q)" "omap_ok (us_contacts s1)"
      using om by (simp_all add: s1_def)
    ultimately show ?thesis using False True ok2 i
      by (auto simp: fire_disconnected_eq [OF ok1 cd1] Let_def tick_data_def split: if_splits)
  next
    case av: False
    then have "tick_contact i s = (Ok (), s1)" using run by (auto simp: available_def)
    then show ?thesis using False av ok1 om by (auto simp: tick_data_def s1_def)
  qed
qed

lemma tick_for_spec:
  assumes "us_ok s" "distinct is" "set is \<subseteq> dom (map_of (us_contacts s))"
  shows "\<exists>s1. forA tick_contact is s = (Ok (), s1) \<and> us_ok s1 \<and> us_user s1 = us_user s \<and>
    map_of (us_contacts s1) = (\<lambda>k. if k \<in> set is then map_option tick_data (map_of (us_contacts s) k) else map_of (us_contacts s) k)"
  using assms
proof (induction "is" arbitrary: s)
  case (Cons i "is")
  then obtain cd where cd: "map_of (us_contacts s) i = Some cd" by auto
  obtain s0 where s0: "tick_contact i s = (Ok (), s0)" "us_ok s0" "us_user s0 = us_user s" "map_of (us_contacts s0) = (map_of (us_contacts s))(i \<mapsto> tick_data cd)"
    using tick_contact_spec [OF Cons.prems(1) cd] by blast
  have "set is \<subseteq> dom (map_of (us_contacts s0))" using Cons.prems(3) by (auto simp: s0(4))
  then obtain s1 where s1: "forA tick_contact is s0 = (Ok (), s1)" "us_ok s1" "us_user s1 = us_user s0"
    "map_of (us_contacts s1) = (\<lambda>k. if k \<in> set is then map_option tick_data (map_of (us_contacts s0) k) else map_of (us_contacts s0) k)"
    using Cons.IH [OF s0(2)] Cons.prems(2) by auto
  have "map_of (us_contacts s1) = (\<lambda>k. if k \<in> set (i # is) then map_option tick_data (map_of (us_contacts s) k) else map_of (us_contacts s) k)"
    using s0(4) s1(4) cd Cons.prems(2) by (auto simp: fun_eq_iff)
  then show ?case using s0 s1 by (simp add: bindA_Ok)
qed (simp add: retA_def)

lemma tick_contacts_spec:
  assumes "us_ok s"
  shows "\<exists>s1. tick_contacts s = (Ok (), s1) \<and> us_ok s1 \<and> map_of (us_contacts s1) = map_option tick_data \<circ> map_of (us_contacts s)"
proof -
  have om: "omap_ok (us_contacts s)" using assms by (simp add: us_ok_def)
  have d: "set (keys (us_contacts s)) = dom (map_of (us_contacts s))" by (simp add: dom_map_of_conv_image_fst)
  obtain s1 where s1: "forA tick_contact (keys (us_contacts s)) s = (Ok (), s1)" "us_ok s1"
    "map_of (us_contacts s1) = (\<lambda>k. if k \<in> set (keys (us_contacts s)) then map_option tick_data (map_of (us_contacts s) k) else map_of (us_contacts s) k)"
    using tick_for_spec [OF assms omap_distinct [OF om]] d by auto
  then have "map_of (us_contacts s1) = map_option tick_data \<circ> map_of (us_contacts s)"
    using d by (auto simp: fun_eq_iff domIff simp del: set_map)
  then show ?thesis using s1 by (auto simp: tick_contacts_def)
qed

lemma tick_data_count:
  assumes "cd_set cd" "cd_state cd \<noteq> OFFLINE" "cd_last_ping cd = 0"
  shows "(tick_data ^^ n) cd = (if n \<le> PING_THRESH then cd\<lparr>cd_last_ping := n\<rparr> else cd\<lparr>cd_state := OFFLINE, cd_last_ping := PING_THRESH\<rparr>)"
  using assms by (induction n) (auto simp: tick_data_def available_def)

text \<open>
  Everybody who is not offline can be sent a ping: there is a channel with a shared secret for the address, and the addresses of the others, whose channels go when they are
  dropped, are different ones.
\<close>

definition pingable :: "('r, 'k) user_service \<Rightarrow> bool" where
  "pingable s \<longleftrightarrow>
     (\<forall>i cd c. map_of (us_contacts s) i = Some cd \<longrightarrow> cd_state cd \<noteq> OFFLINE \<longrightarrow> contact_object s i = Some c \<longrightarrow>
        (\<exists>ch. get_channel (us_channels s) (ui_address c) = Ok ch \<and> dh_ready (ch_secret ch)) \<and>
        (\<forall>j d. j \<noteq> i \<longrightarrow> contact_object s j = Some d \<longrightarrow> ui_address c \<notin> set (ui_addresses d)))"

lemma pingable_same:
  assumes "pingable s" "us_user t = us_user s" "us_gone t = us_gone s"
    and "\<And>i cd. map_of (us_contacts t) i = Some cd \<Longrightarrow> cd_state cd \<noteq> OFFLINE \<Longrightarrow> \<exists>cd'. map_of (us_contacts s) i = Some cd' \<and> cd_state cd' \<noteq> OFFLINE"
    and "\<And>i cd c. map_of (us_contacts t) i = Some cd \<Longrightarrow> cd_state cd \<noteq> OFFLINE \<Longrightarrow> contact_object s i = Some c \<Longrightarrow>
      get_channel (us_channels t) (ui_address c) = get_channel (us_channels s) (ui_address c)"
  shows "pingable t"
proof -
  have o: "contact_object t i = contact_object s i" for i by (simp add: contact_object_def assms(2,3) split: option.splits)
  show ?thesis
    unfolding pingable_def o
  proof (intro allI impI)
    fix i cd c
    assume i: "map_of (us_contacts t) i = Some cd" "cd_state cd \<noteq> OFFLINE" "contact_object s i = Some c"
    obtain cd' where "map_of (us_contacts s) i = Some cd'" "cd_state cd' \<noteq> OFFLINE" using assms(4) [OF i(1,2)] by blast
    then show "(\<exists>ch. get_channel (us_channels t) (ui_address c) = Ok ch \<and> dh_ready (ch_secret ch)) \<and>
        (\<forall>j d. j \<noteq> i \<longrightarrow> contact_object s j = Some d \<longrightarrow> ui_address c \<notin> set (ui_addresses d))"
      using assms(1) i(3) unfolding assms(5) [OF i] pingable_def by blast
  qed
qed

lemma get_remove_channels: "a \<notin> set as \<Longrightarrow> get_channel (fold remove_channel as e) a = get_channel e a"
proof (induction as arbitrary: e)
  case (Cons x as)
  have "get_channel (remove_channel x e) a = get_channel e a" using Cons.prems by (simp add: get_channel_def remove_channel_def)
  then show ?case using Cons by simp
qed simp

lemma not_offline_object:
  assumes "us_ok s" "map_of (us_contacts s) i = Some cd" "cd_state cd \<noteq> OFFLINE"
  shows "\<exists>c. contact_object s i = Some c \<and> find (\<lambda>u. ui_id u = i) (cl_list (lu_contacts (us_user s))) = Some c \<and> ui_id c = i \<and> cd_set cd"
proof -
  have i: "i \<in> listed_ids s" "cd_set cd" using assms unfolding us_ok_def by blast+
  then obtain c where c: "find (\<lambda>u. ui_id u = i) (cl_list (lu_contacts (us_user s))) = Some c"
    using find_listed(2) by (cases "find (\<lambda>u. ui_id u = i) (cl_list (lu_contacts (us_user s)))") blast+
  then show ?thesis using find_listed(1) [OF c] i(2) by (simp add: contact_object_def)
qed

lemma tick_pingable:
  assumes ok: "us_ok s" and p: "pingable s" and cd: "map_of (us_contacts s) i = Some cd"
  shows "pingable (snd (tick_contact i s))"
proof (cases "cd_state cd = OFFLINE \<or> \<not> cd_set cd")
  case True
  then show ?thesis using p cd by (simp add: tick_contact_def retA_def)
next
  case False
  let ?q = "cd\<lparr>cd_last_ping := Suc (cd_last_ping cd)\<rparr>"
  define s1 where "s1 = s\<lparr>us_contacts := omap_put i ?q (us_contacts s)\<rparr>"
  have om: "omap_ok (us_contacts s)" using ok by (simp add: us_ok_def)
  have ok1: "us_ok s1" using put_same_state [of "\<lambda>_. True" s i cd ?q] ok cd by (simp add: s1_def put_contact_def)
  have cd1: "map_of (us_contacts s1) i = Some ?q" "omap_ok (us_contacts s1)" using om by (simp_all add: s1_def)
  have p1: "pingable s1" by (rule pingable_same [OF p]) (use om cd False in \<open>auto simp: s1_def split: if_splits\<close>)
  have run: "tick_contact i s = (if available (Suc (cd_last_ping cd)) \<noteq> available (cd_last_ping cd)
       then bindA (requireA (\<not> available (Suc (cd_last_ping cd)))) (\<lambda>_. fire_contact_disconnected_event i) s1 else (Ok (), s1))"
    using False cd by (simp add: tick_contact_def put_contact_def s1_def retA_def)
  have "pingable (snd (fire_contact_disconnected_event i s1))"
  proof (cases "i \<in> listed_ids s1")
    case listed: True
    obtain c where c: "contact_object s1 i = Some c" using not_offline_object [OF ok1 cd1(1)] False by auto
    define t where "t = snd (fire_contact_disconnected_event i s1)"
    have t: "us_user t = us_user s1" "us_gone t = us_gone s1" "us_channels t = (if cd_state cd = CONNECTING then us_channels s1 else fold remove_channel (ui_addresses c) (us_channels s1))"
      "map_of (us_contacts t) = (map_of (us_contacts s1))(i \<mapsto> ?q\<lparr>cd_state := OFFLINE, cd_last_ping := PING_THRESH\<rparr>)"
      using listed c False cd1(2) by (auto simp: t_def fire_disconnected_eq [OF ok1 cd1(1)] Let_def)
    have "pingable t"
    proof (rule pingable_same [OF p1 t(1,2)])
      fix j d assume j: "map_of (us_contacts t) j = Some d" "cd_state d \<noteq> OFFLINE"
      then have ji: "j \<noteq> i" "map_of (us_contacts s1) j = Some d" unfolding t(4) by (auto split: if_splits)
      then show "\<exists>cd'. map_of (us_contacts s1) j = Some cd' \<and> cd_state cd' \<noteq> OFFLINE" using j(2) by blast
      fix b assume b: "contact_object s1 j = Some b"
      have "ui_address b \<notin> set (ui_addresses c)" using p1 ji j(2) b c unfolding pingable_def by metis
      then show "get_channel (us_channels t) (ui_address b) = get_channel (us_channels s1) (ui_address b)" by (simp add: t(3) get_remove_channels)
    qed
    then show ?thesis by (simp add: t_def)
  qed (use p1 in \<open>simp add: fire_disconnected_eq [OF ok1 cd1(1)]\<close>)
  then show ?thesis using p1 by (auto simp: run requireA_def bindA_def liftA_def)
qed

lemma tick_all_pingable:
  "us_ok s \<Longrightarrow> pingable s \<Longrightarrow> set is \<subseteq> dom (map_of (us_contacts s)) \<Longrightarrow> pingable (snd (forA tick_contact is s))"
proof (induction "is" arbitrary: s)
  case (Cons i "is")
  obtain cd where cd: "map_of (us_contacts s) i = Some cd" using Cons.prems(3) by auto
  obtain s0 where s0: "tick_contact i s = (Ok (), s0)" "us_ok s0" "map_of (us_contacts s0) = (map_of (us_contacts s))(i \<mapsto> tick_data cd)"
    using tick_contact_spec [OF Cons.prems(1) cd] by blast
  have p: "pingable s0" using tick_pingable [OF Cons.prems(1,2) cd] s0(1) by simp
  have d: "set is \<subseteq> dom (map_of (us_contacts s0))" using Cons.prems(3) s0(3) by auto
  show ?case using Cons.IH [OF s0(2) p d] s0(1) by (simp add: bindA_Ok)
qed (simp add: retA_def)

text \<open>A ping to everybody changes the mailbox only.\<close>

lemma send_ping_to_ends:
  assumes "us_ok s" "pingable s"
  shows "\<exists>b. send_ping_to sv i False s = (Ok (), s\<lparr>us_mail := b\<rparr>)"
proof (cases "\<exists>cd. map_of (us_contacts s) i = Some cd \<and> cd_set cd \<and> cd_state cd \<noteq> OFFLINE")
  case True
  then obtain cd where cd: "map_of (us_contacts s) i = Some cd" "cd_set cd" "cd_state cd \<noteq> OFFLINE" by blast
  obtain c where c: "contact_object s i = Some c" "find (\<lambda>u. ui_id u = i) (cl_list (lu_contacts (us_user s))) = Some c" "ui_id c = i"
    using not_offline_object [OF assms(1) cd(1,3)] by blast
  obtain ch where ch: "get_channel (us_channels s) (ui_address c) = Ok ch" "dh_ready (ch_secret ch)"
    using assms(2) cd(1,3) c(1) unfolding pingable_def by blast
  let ?m = "(ping_message \<lparr>pg_to = ui_address c, pg_from_id = ui_id (lu_info (us_user s)), pg_state = sv\<rparr>)"
  obtain b where "push_outbox (?m\<lparr>m_meta := (m_meta ?m)\<lparr>mt_encryption := symmetric\<rparr>\<rparr>) (us_mail s) = Ok b"
    by (simp add: mailbox_defs queue_simps Let_def)
  then show ?thesis using cd c ch by (intro exI [of _ b]) (simp add: send_ping_to_def by_id_ok [OF assms(1)] us_push_outbox_def partA_def Let_def)
next
  case False
  then show ?thesis by (intro exI [of _ "us_mail s"]) (auto simp: send_ping_to_def retA_def split: option.splits)
qed

lemma send_ping_ends:
  assumes "us_ok s" "pingable s"
  shows "\<exists>b. send_ping (user_idle_state E) s = (Ok (), s\<lparr>us_mail := b\<rparr>)"
proof -
  have "\<exists>b. forA (\<lambda>i. send_ping_to sv i False) is s = (Ok (), s\<lparr>us_mail := b\<rparr>)" for sv "is"
    using assms
  proof (induction "is" arbitrary: s)
    case Nil
    then show ?case by (intro exI [of _ "us_mail s"]) (simp add: retA_def)
  next
    case (Cons i "is")
    obtain b where b: "send_ping_to sv i False s = (Ok (), s\<lparr>us_mail := b\<rparr>)" using send_ping_to_ends [OF Cons.prems] by blast
    have "us_ok (s\<lparr>us_mail := b\<rparr>)" "pingable (s\<lparr>us_mail := b\<rparr>)"
      using Cons.prems us_ok_cong(1) [of "s\<lparr>us_mail := b\<rparr>" s] by (auto intro: pingable_same [OF Cons.prems(2)])
    then obtain b2 where "forA (\<lambda>i. send_ping_to sv i False) is (s\<lparr>us_mail := b\<rparr>) = (Ok (), s\<lparr>us_mail := b2\<rparr>)" using Cons.IH by fastforce
    then show ?case using b by (auto simp: bindA_Ok)
  qed
  then show ?thesis by (auto simp: send_ping_def user_idle_state_def)
qed

lemma ping_turn_spec:
  assumes "us_ok s" "pingable s"
  shows "\<exists>k1 s1. ping_turn E k s = (Ok k1, s1) \<and> us_ok s1 \<and> pingable s1 \<and> map_of (us_contacts s1) = map_option tick_data \<circ> map_of (us_contacts s)"
proof -
  have tick: "\<exists>s1. tick_contacts t = (Ok (), s1) \<and> us_ok s1 \<and> pingable s1 \<and> map_of (us_contacts s1) = map_option tick_data \<circ> map_of (us_contacts t)"
    if "us_ok t" "pingable t" for t :: "('a, 'b) user_service"
  proof -
    have "set (keys (us_contacts t)) = dom (map_of (us_contacts t))" by (simp add: dom_map_of_conv_image_fst)
    then have "pingable (snd (tick_contacts t))" using tick_all_pingable [OF that, of "keys (us_contacts t)"] by (simp add: tick_contacts_def)
    then show ?thesis using tick_contacts_spec [OF that(1)] by auto
  qed
  obtain b where b: "send_ping (user_idle_state E) s = (Ok (), s\<lparr>us_mail := b\<rparr>)" using send_ping_ends [OF assms] by blast
  have "us_ok (s\<lparr>us_mail := b\<rparr>)" "pingable (s\<lparr>us_mail := b\<rparr>)"
    using assms us_ok_cong(1) [of "s\<lparr>us_mail := b\<rparr>" s] by (auto intro: pingable_same [OF assms(2)])
  from tick [OF this] tick [OF assms] b show ?thesis
    by (cases "k > PING_TICKS") (auto simp: ping_turn_def bindA_Ok retA_def)
qed

lemma ping_turns_data:
  "us_ok s \<Longrightarrow> pingable s \<Longrightarrow>
     \<exists>k1 s1. ping_turns E n k s = (Ok k1, s1) \<and> us_ok s1 \<and> map_of (us_contacts s1) = map_option (tick_data ^^ n) \<circ> map_of (us_contacts s)"
proof (induction n arbitrary: k s)
  case (Suc n)
  obtain k0 s0 where s0: "ping_turn E k s = (Ok k0, s0)" "us_ok s0" "pingable s0" "map_of (us_contacts s0) = map_option tick_data \<circ> map_of (us_contacts s)"
    using ping_turn_spec [OF Suc.prems] by blast
  from Suc.IH [OF s0(2,3)] obtain k1 s1 where "ping_turns E n k0 s0 = (Ok k1, s1)" "us_ok s1" "map_of (us_contacts s1) = map_option (tick_data ^^ n) \<circ> map_of (us_contacts s0)" by blast
  then show ?case using s0 by (auto simp: bindA_Ok fun_eq_iff option.map_comp funpow_Suc_right comp_def simp del: funpow.simps)
qed (auto simp: retA_def option.map_id0 fun_eq_iff)

text \<open>
  C17. A connected contact that stays silent is dropped, and not before its time: when every contact that is not offline can be sent a ping, over a channel with a shared secret
  to an address that no other contact has, the turns of the ping thread, with the pings they send, return; the contact is connected for \<^verbatim>\<open>PING_THRESH\<close> turns after its last ping and dropped by the next one, and the events say so.
\<close>

theorem silent_contact_dropped:
  assumes "us_ok s" "pingable s" "map_of (us_contacts s) i = Some cd" "cd_state cd = CONNECTED" "cd_last_ping cd = 0"
  shows "\<exists>k1 s1. ping_turns E n k s = (Ok k1, s1) \<and> (i \<in> connected_ids s1 \<longleftrightarrow> n \<le> PING_THRESH) \<and> online_after (us_events s1) {} = Some (connected_ids s1)"
proof -
  have set: "cd_set cd" using assms unfolding us_ok_def by (metis contact_state.distinct(3))
  obtain k1 s1 where s1: "ping_turns E n k s = (Ok k1, s1)" "us_ok s1" "map_of (us_contacts s1) = map_option (tick_data ^^ n) \<circ> map_of (us_contacts s)"
    using ping_turns_data [OF assms(1,2)] by blast
  then have "map_of (us_contacts s1) i = Some ((tick_data ^^ n) cd)" using assms(3) by simp
  then have "i \<in> connected_ids s1 \<longleftrightarrow> n \<le> PING_THRESH" using tick_data_count [OF set _ assms(5), of n] assms(4) by (simp add: connected_ids_def)
  then show ?thesis using s1 by (auto simp: us_ok_def)
qed

text \<open>
  A dropped contact takes the channels of all its addresses with it.  If another contact that is not offline is reached at one of them, the next ping finds no channel, and the
  check of \<^verbatim>\<open>get_channel\<close> ends the process.
\<close>

theorem shared_address_exits:
  assumes "us_ok s" "map_of (us_contacts s) i = Some cd" "cd_state cd = CONNECTED" "cd_last_ping cd = PING_THRESH" "contact_object s i = Some d"
    and "map_of (us_contacts s) j = Some ce" "cd_state ce \<noteq> OFFLINE" "contact_object s j = Some c" "j \<noteq> i" "ui_address c \<in> set (ui_addresses d)"
  shows "\<exists>s1. tick_contact i s = (Ok (), s1) \<and> fst (send_ping_to sv j False s1) = Exit"
proof -
  let ?q = "cd\<lparr>cd_last_ping := Suc (cd_last_ping cd)\<rparr>"
  have set: "cd_set cd" "cd_set ce" "i \<in> listed_ids s" using assms(1-3,6,7) unfolding us_ok_def by (metis contact_state.distinct(3))+
  define s0 where "s0 = s\<lparr>us_contacts := omap_put i ?q (us_contacts s)\<rparr>"
  have om: "omap_ok (us_contacts s)" using assms(1) by (simp add: us_ok_def)
  have ok: "us_ok s0" using put_same_state [of "\<lambda>_. True" s i cd ?q] assms(1,2,3) set by (simp add: s0_def put_contact_def)
  have obj: "contact_object s0 k = contact_object s k" for k by (simp add: contact_object_def s0_def split: option.splits)
  have cd0: "map_of (us_contacts s0) i = Some ?q" "omap_ok (us_contacts s0)" "i \<in> listed_ids s0" "contact_object s0 i = Some d" "contact_object s0 j = Some c"
      "map_of (us_contacts s0) j = Some ce"
    using om set(3) assms(5,6,8,9) unfolding obj by (simp_all add: s0_def listed_ids_def)
  have run: "tick_contact i s = fire_contact_disconnected_event i s0"
    using assms(2-4) set(1) by (simp add: tick_contact_def put_contact_def s0_def available_def)
  obtain s1 where s1: "fire_contact_disconnected_event i s0 = (Ok (), s1)" "us_channels s1 = fold remove_channel (ui_addresses d) (us_channels s0)" "us_user s1 = us_user s0" "us_gone s1 = us_gone s0"
    "map_of (us_contacts s1) j = Some ce"
    using cd0 assms(3,9) by (simp add: fire_disconnected_eq [OF ok cd0(1)] Let_def)
  have gone: "a \<in> set as \<Longrightarrow> get_channel (fold remove_channel as e) a = Exit" for a as and e :: "'b encrypted_channels"
  proof (induction as arbitrary: e)
    case (Cons x as)
    show ?case
    proof (cases "a \<in> set as")
      case False
      then have "a = x" using Cons.prems by simp
      moreover have "get_channel (remove_channel a e) a = Exit" by (simp add: get_channel_def remove_channel_def map_of_eq_None_iff [THEN iffD2])
      ultimately show ?thesis using get_remove_channels [OF False, of "remove_channel x e"] by simp
    qed (use Cons.IH in simp)
  qed simp
  have "contact_object s1 j = Some c" using cd0(5) s1(3,4) by (simp add: contact_object_def split: option.splits)
  then have "fst (send_ping_to sv j False s1) = Exit"
    using s1(2,5) set(2) assms(7) gone [OF assms(10)] by (simp add: send_ping_to_def bindA_def getA_def liftA_def)
  then show ?thesis using run s1(1) by auto
qed

section \<open>Pings\<close>

definition ping_from :: "string \<Rightarrow> char \<Rightarrow> message \<Rightarrow> bool" where
  "ping_from i sv m \<longleftrightarrow> mt_type (m_meta m) = PING \<and> is_remote m \<and> is_symmetric m \<and> length (mt_from (m_meta m)) > 1 \<and>
     extra_string m ''from_id'' = Ok i \<and> m_data m = [sv]"

lemma received_ping_eq:
  assumes m: "ping_from i sv m" and p: "map_of (us_contacts s) i = Some p" "cd_set p"
  shows "received_ping m s =
    bindA (if available (ping_ticks sv) \<noteq> available (cd_last_ping p) \<or> cd_state p = CONNECTING
           then if available (ping_ticks sv) then fire_contact_connected_event i else fire_contact_disconnected_event i else retA ())
      (\<lambda>_. if ping_idle sv (cd_idle p) \<noteq> cd_idle p then fire_contact_activity_changed_event i else retA ())
      (s\<lparr>us_contacts := omap_put i (p\<lparr>cd_last_ping := ping_ticks sv, cd_idle := ping_idle sv (cd_idle p)\<rparr>) (us_contacts s)\<rparr>)"
proof -
  have "ping_of m = Ok \<lparr>pg_to = [], pg_from_id = i, pg_state = sv\<rparr>" "expect_remote m = Ok ()" "expect_symmetric m = Ok ()"
    using m by (simp_all add: ping_from_def ping_of_def expect_remote_def expect_symmetric_def)
  moreover have "sv = PING_DISCONNECTED \<longrightarrow> \<not> available (ping_ticks sv)"
    by (simp add: ping_ticks_def available_def PING_THRESH_def PING_TICKS_def)
  ultimately show ?thesis using m p by (simp add: received_ping_def ping_from_def put_contact_def Let_def)
qed

lemma user_turn_ping: "mt_type (m_meta m) = PING \<Longrightarrow> user_turn E m = catchA (received_ping m)"
  unfolding user_turn_def by (rule service_turn_handler) (simp add: init_handlers_def)

text \<open>
  A ping names its sender in an extra field that nothing ties to the channel it came through.  When a listed contact is offline, a
  "disconnected" ping in its name is accepted and marks it unavailable without changing its state, and the next "connected" ping in its name fails the
  check of \<^verbatim>\<open>contact_connected\<close> that the contact is connecting, which exits the program.
\<close>

theorem offline_ping_exits:
  assumes "us_ok s" "i \<in> listed_ids s" "map_of (us_contacts s) i = Some cd" "cd_set cd" "cd_state cd = OFFLINE" "cd_last_ping cd = PING_THRESH"
    "ping_from i PING_DISCONNECTED m1" "ping_from i PING_CONNECTED m2"
  shows "\<exists>s1. user_turn E m1 s = (Ok (), s1) \<and> fst (user_turn E m2 s1) = Exit"
proof -
  let ?q = "cd\<lparr>cd_last_ping := PING_THRESH + PING_THRESH\<rparr>"
  define s0 where "s0 = s\<lparr>us_contacts := omap_put i ?q (us_contacts s)\<rparr>"
  have om: "omap_ok (us_contacts s)" using assms(1) by (simp add: us_ok_def)
  have av: "available PING_THRESH" "\<not> available (PING_THRESH + PING_THRESH)" "available 0"
    by (simp_all add: available_def PING_THRESH_def PING_TICKS_def)
  have pt: "ping_ticks PING_DISCONNECTED = PING_THRESH + PING_THRESH" "ping_ticks PING_CONNECTED = 0" "ping_idle PING_DISCONNECTED b = b" "ping_idle PING_CONNECTED b = False" for b
    by (simp_all add: ping_ticks_def ping_idle_def PING_DISCONNECTED_def PING_CONNECTED_def PING_IDLE_def)
  have ok0: "us_ok s0" using put_same_state [of "\<lambda>_. True" s i cd ?q] assms by (simp add: s0_def put_contact_def)
  have s0: "map_of (us_contacts s0) i = Some ?q" "omap_ok (us_contacts s0)" "i \<in> listed_ids s0" using om assms(2) by (simp_all add: s0_def listed_ids_def)
  have f: "fire_contact_disconnected_event i s0 = (Ok (), s0)"
    using assms(5) s0 put_self [OF s0(2, 1)] by (simp add: fire_disconnected_eq [OF ok0 s0(1)])
  have "received_ping m1 s = (Ok (), s0)"
    using f av assms(5, 6) by (simp add: received_ping_eq [OF assms(7, 3, 4)] pt s0_def [symmetric] bindA_Ok retA_def)
  then have one: "user_turn E m1 s = (Ok (), s0)" using assms(7) by (simp add: user_turn_ping ping_from_def catchA_def)
  let ?r = "cd\<lparr>cd_last_ping := 0, cd_idle := False\<rparr>"
  define s1 where "s1 = s0\<lparr>us_contacts := omap_put i ?r (us_contacts s0)\<rparr>"
  have ok1: "us_ok s1" using put_same_state [of "\<lambda>_. True" s0 i ?q ?r] ok0 s0 by (simp add: s1_def put_contact_def)
  have cd1: "map_of (us_contacts s1) i = Some ?r" using s0 by (simp add: s1_def)
  have "i \<in> listed_ids s1" using s0(3) by (simp add: s1_def listed_ids_def)
  then have "fire_contact_connected_event i s1 = (Exit, s1)" using assms(5) by (simp add: fire_connected_eq [OF ok1 cd1])
  then have "received_ping m2 s0 = (Exit, s1)"
    using av assms(4, 5) by (simp add: received_ping_eq [OF assms(8) s0(1)] pt s1_def [symmetric] bindA_def)
  then have "fst (user_turn E m2 s0) = Exit" using assms(8) by (simp add: user_turn_ping ping_from_def catchA_def)
  with one show ?thesis by blast
qed


text \<open>Concrete instances.\<close>

definition sample_env :: "(nat, nat) us_env" where
  "sample_env = \<lparr>ue_L = decimal_lib, ue_B = model_botan, ue_F = sample_fs, ue_ports = decimal_ports, ue_lan_ip = (\<lambda>h. h), ue_idle = False\<rparr>"

definition sample_service :: "(nat, nat) user_service" where
  "sample_service = \<lparr>us_user = sample_user, us_gone = [], us_home = ''home'', us_in_host = ''a'', us_in_port = 1, us_contacts = [],
     us_channels = encrypted_channels_new (lu_prv_key sample_user), us_rng = None, us_mail = mailbox_new SERVICE_ADDRESS, us_events = [], us_fs = Map.empty\<rparr>"

definition sample_data :: "contact_state \<Rightarrow> nat \<Rightarrow> contact_data" where
  "sample_data c n = \<lparr>cd_state = c, cd_set = True, cd_last_ping = n, cd_client_version = 0, cd_protocol_version = 0, cd_idle = False\<rparr>"

definition sample_ping :: "char \<Rightarrow> message" where
  "sample_ping sv = (let m = ping_message \<lparr>pg_to = ''x'', pg_from_id = ''you'', pg_state = sv\<rparr>
     in m\<lparr>m_meta := (m_meta m)\<lparr>mt_source := remote, mt_encryption := symmetric, mt_from := [''a'', ''b'']\<rparr>\<rparr>)"

lemma sample_ping_from: "ping_from ''you'' sv (sample_ping sv)"
  by (simp add: ping_from_def sample_ping_def ping_message_def message_default_def metadata_default_def is_remote_def is_symmetric_def
      extra_string_def dict_get_def value_of_string_def to_str_def to_bytes_def)

lemma sample_contacts_ok: "cl_ok (lu_contacts sample_user)"
  by (auto simp: sample_user_def sample_info_def cl_ok_def)

lemma sample_ok:
  "us_ok (sample_service\<lparr>us_contacts := [(''you'', sample_data OFFLINE PING_THRESH)]\<rparr>)"
  "us_ok (sample_service\<lparr>us_contacts := [(''you'', sample_data CONNECTED 0)], us_events := [ContactConnected ''you'']\<rparr>)"
  using sample_contacts_ok
  by (auto simp: us_ok_def sample_service_def connected_ids_def listed_ids_def sample_data_def sample_user_def sample_info_def)

definition silent_service :: "(nat, nat) user_service" where
  "silent_service = sample_service\<lparr>us_contacts := [(''you'', sample_data CONNECTED 0)], us_events := [ContactConnected ''you''],
     us_channels := (encrypted_channels_new (lu_prv_key sample_user))\<lparr>ec_s :=
       [(''udp://a:1'', \<lparr>ch_secret = \<lparr>dh_pkey = 0, dh_skey = Some 0, dh_pub_value = [], dh_other_pub_value = []\<rparr>, ch_key = \<lparr>pu_ks = ''k'', pu_k = None\<rparr>\<rparr>)]\<rparr>\<rparr>"

theorem silent_contact_dropped_witness:
  "\<exists>k s1. ping_turns sample_env 61 0 silent_service = (Ok k, s1) \<and> ''you'' \<notin> connected_ids s1 \<and> online_after (us_events s1) {} = Some (connected_ids s1)"
proof -
  have ok: "us_ok silent_service"
    using sample_ok(2) us_ok_cong(1) [of silent_service "sample_service\<lparr>us_contacts := [(''you'', sample_data CONNECTED 0)], us_events := [ContactConnected ''you'']\<rparr>"]
    by (simp add: silent_service_def)
  have p: "pingable silent_service"
    by (auto simp: pingable_def silent_service_def contact_object_def sample_service_def sample_user_def sample_info_def ui_address_def get_channel_def dh_ready_def split: if_splits)
  have c: "map_of (us_contacts silent_service) ''you'' = Some (sample_data CONNECTED 0)" by (simp add: silent_service_def)
  show ?thesis
    using silent_contact_dropped [OF ok p c, of sample_env 61 0] by (auto simp: sample_data_def PING_THRESH_def PING_TICKS_def)
qed

theorem offline_ping_exits_witness:
  "\<exists>s1. user_turn sample_env (sample_ping PING_DISCONNECTED) (sample_service\<lparr>us_contacts := [(''you'', sample_data OFFLINE PING_THRESH)]\<rparr>) = (Ok (), s1) \<and>
     fst (user_turn sample_env (sample_ping PING_CONNECTED) s1) = Exit"
proof (rule offline_ping_exits [OF sample_ok(1), of "''you''" "sample_data OFFLINE PING_THRESH"])
  show "''you'' \<in> listed_ids (sample_service\<lparr>us_contacts := [(''you'', sample_data OFFLINE PING_THRESH)]\<rparr>)"
    by (simp add: listed_ids_def sample_service_def sample_user_def sample_info_def)
qed (simp_all add: sample_data_def sample_ping_from)


theorem events_follow_states_witness:
  "online_after (us_events (sample_service\<lparr>us_contacts := [(''you'', sample_data OFFLINE 0)]\<rparr>)) {} =
     Some (connected_ids (sample_service\<lparr>us_contacts := [(''you'', sample_data OFFLINE 0)]\<rparr>)) \<and>
   connected_ids (sample_service\<lparr>us_contacts := [(''you'', sample_data OFFLINE 0)]\<rparr>) \<subseteq> listed_ids (sample_service\<lparr>us_contacts := [(''you'', sample_data OFFLINE 0)]\<rparr>)"
proof (rule events_follow_states [where E = sample_env])
  let ?s0 = "sample_service\<lparr>us_contacts := [(''you'', sample_data OFFLINE PING_THRESH)]\<rparr>"
  show "us_fresh sample_service" using sample_contacts_ok by (simp add: us_fresh_def sample_service_def)
  have one: "show_nat (Suc 0) = ''1''" by code_simp
  show "user_service_start sample_env sample_service = (Ok (), ?s0)"
    by (simp add: user_service_start_def sample_service_def update_address_def sample_user_def sample_info_def ui_address_def make_udp_address_def
        make_pro_address_def one UDP_def add_contact_data_def put_contact_def sample_data_def retA_def modA_def)
  have "user_turn sample_env (sample_ping PING_CONNECTED) ?s0 = (Ok (), sample_service\<lparr>us_contacts := [(''you'', sample_data OFFLINE 0)]\<rparr>)"
    using sample_ping_from [of PING_CONNECTED] received_ping_eq [OF sample_ping_from [of PING_CONNECTED], of ?s0 "sample_data OFFLINE PING_THRESH"]
    by (simp add: user_turn_ping ping_from_def catchA_def sample_data_def available_def ping_ticks_def ping_idle_def PING_CONNECTED_def PING_DISCONNECTED_def PING_IDLE_def retA_def)
  then show "(us_step sample_env)\<^sup>*\<^sup>* ?s0 (sample_service\<lparr>us_contacts := [(''you'', sample_data OFFLINE 0)]\<rparr>)"
    by (intro r_into_rtranclp us_step.Message [of _ "sample_ping PING_CONNECTED"]) (simp add: survives_def)
qed

end
