(* ===== verification/Conversation.thy ===== *)
theory Conversation
  imports User Service
begin

text \<open>
  One conversation, \<^verbatim>\<open>src/src/conversation/conversation.cpp\<close>, and the sender of \<^verbatim>\<open>src/src/messages/sender.cpp\<close>: the contacts in the conversation, the
  contacts that were proposed, and what every member answered when asked whether it knows a proposed contact.
\<close>

section \<open>Sending\<close>

text \<open>The user service gives the sender the local user: its contacts and its id.\<close>

definition sender_send :: "'k local_user \<Rightarrow> string \<Rightarrow> message \<Rightarrow> mailbox \<Rightarrow> (bool \<times> mailbox) outcome" where
  "sender_send lu to m mail =
     bindO (cl_by_id to (lu_contacts lu)) (\<lambda>contact. case contact of
       None \<Rightarrow> Ok (False, mail)
     | Some c \<Rightarrow>
         let meta = (m_meta m)\<lparr>mt_to := [ui_address c, mailbox_address mail],
               mt_extra := dict_put ''from_id'' (value_of_string (ui_id (lu_info lu))) (mt_extra (m_meta m))\<rparr>
         in bindO (push_outbox (m\<lparr>m_meta := meta\<rparr>) mail) (\<lambda>b. Ok (True, b)))"

definition send_to_local_app :: "'k local_user \<Rightarrow> string \<Rightarrow> message \<Rightarrow> mailbox \<Rightarrow> (bool \<times> mailbox) outcome" where
  "send_to_local_app lu address m mail =
     (let e1 = dict_put ''from_id'' (value_of_string (ui_id (lu_info lu))) (mt_extra (m_meta m));
          e2 = dict_put ''local_app_id'' (value_of_string (mailbox_address mail)) e1
      in bindO (push_outbox (m\<lparr>m_meta := (m_meta m)\<lparr>mt_to := [address], mt_extra := e2\<rparr>\<rparr>) mail) (\<lambda>b. Ok (True, b)))"

section \<open>State\<close>

definition SCRIPT_APP :: string where "SCRIPT_APP = ''SCRIPT_APP''"

record app_metadatum =
  ap_type :: string
  ap_id :: string
  ap_address :: string

datatype req_state = SENT | DONT_KNOW | KNOW

record know_request =
  kq_to :: string
  kq_state :: req_state

record pending_contact =
  pc_id :: string
  pc_from :: string
  pc_name :: string

record pending_contact_add =
  pa_contact :: pending_contact
  pa_requests :: "(string \<times> know_request) list"

definition pending_default :: pending_contact_add where
  "pending_default = \<lparr>pa_contact = \<lparr>pc_id = [], pc_from = [], pc_name = []\<rparr>, pa_requests = []\<rparr>"

text \<open>\<open>Unknown\<close> is \<^verbatim>\<open>clique_status::DONT_KNOW\<close>.\<close>

datatype clique = NOT_PART | PART | Unknown

record clique_status =
  qs_is_part :: clique
  qs_contacts :: "string set"

record 'k conversation =
  cv_id :: string
  cv_mail :: mailbox
  cv_contacts :: "'k contact_list"
  cv_removed :: "string set"
  cv_apps :: "(string \<times> app_metadatum) list"
  cv_pending :: "(string \<times> pending_contact_add) list"
  cv_initiated :: bool

definition conversation_new :: "string \<Rightarrow> bool \<Rightarrow> 'k conversation outcome" where
  "conversation_new i by_user =
     contract (i \<noteq> []) (Ok \<lparr>cv_id = i, cv_mail = mailbox_new i, cv_contacts = contact_list_new, cv_removed = {}, cv_apps = [],
       cv_pending = [], cv_initiated = by_user\<rparr>)"

section \<open>Proposed contacts\<close>

definition asked_about :: "string \<Rightarrow> 'k conversation \<Rightarrow> 'k conversation" where
  "asked_about i s =
     (let a = (case map_of (cv_pending s) i of Some a \<Rightarrow> a | None \<Rightarrow> pending_default);
          a1 = a\<lparr>pa_contact := (pa_contact a)\<lparr>pc_id := i\<rparr>,
                 pa_requests := fold (\<lambda>c rs. alist_put (ui_id c) \<lparr>kq_to = ui_id c, kq_state = SENT\<rparr> rs) (cl_list (cv_contacts s)) []\<rparr>
      in s\<lparr>cv_pending := alist_put i a1 (cv_pending s)\<rparr>)"

definition know_contact :: "string \<Rightarrow> string \<Rightarrow> req_state \<Rightarrow> 'k conversation \<Rightarrow> 'k conversation" where
  "know_contact i from sv s =
     (case map_of (cv_pending s) i of
        None \<Rightarrow> s
      | Some p \<Rightarrow> (case map_of (pa_requests p) from of
          None \<Rightarrow> s
        | Some r \<Rightarrow> s\<lparr>cv_pending := alist_put i (p\<lparr>pa_requests := alist_put from (r\<lparr>kq_state := sv\<rparr>) (pa_requests p)\<rparr>) (cv_pending s)\<rparr>))"

definition count_state :: "req_state \<Rightarrow> (string \<times> know_request) list \<Rightarrow> nat" where
  "count_state sv rs = length (filter (\<lambda>p. kq_state (snd p) = sv) rs)"

definition part_of_clique :: "string \<Rightarrow> 'k conversation \<Rightarrow> clique_status outcome" where
  "part_of_clique i s =
     (case map_of (cv_pending s) i of
        None \<Rightarrow> Ok \<lparr>qs_is_part = Unknown, qs_contacts = {}\<rparr>
      | Some p \<Rightarrow>
          let requests = pa_requests p in
          bindO (cl_size (cv_contacts s)) (\<lambda>n. Ok (
            if length requests \<noteq> n then \<lparr>qs_is_part = Unknown, qs_contacts = {}\<rparr>
            else if count_state SENT requests > 0 then \<lparr>qs_is_part = Unknown, qs_contacts = {}\<rparr>
            else if count_state KNOW requests = length requests then \<lparr>qs_is_part = PART, qs_contacts = {}\<rparr>
            else \<lparr>qs_is_part = NOT_PART, qs_contacts = set (map (\<lambda>q. kq_to (snd q)) (filter (\<lambda>q. kq_state (snd q) = DONT_KNOW) requests))\<rparr>)))"

definition conv_remove_contact :: "string \<Rightarrow> 'k conversation \<Rightarrow> 'k conversation outcome" where
  "conv_remove_contact i s =
     bindO (cl_by_id i (cv_contacts s)) (\<lambda>co.
     bindO (case co of
       None \<Rightarrow> Ok s
     | Some c \<Rightarrow> bindO (cl_remove c (cv_contacts s)) (\<lambda>(_, l). Ok (s\<lparr>cv_contacts := l, cv_removed := insert i (cv_removed s)\<rparr>))) (\<lambda>s1.
       Ok (s1\<lparr>cv_pending := alist_del i (cv_pending s1)\<rparr>)))"

definition conv_add_contact :: "'k user_info \<Rightarrow> 'k conversation \<Rightarrow> 'k conversation outcome" where
  "conv_add_contact c s =
     bindO (cl_add c (cv_contacts s)) (\<lambda>(_, l). Ok (s\<lparr>cv_contacts := l, cv_removed := cv_removed s - {ui_id c}\<rparr>))"

section \<open>Applications and messages\<close>

definition has_app :: "string \<Rightarrow> 'k conversation \<Rightarrow> bool" where
  "has_app a s = alist_has a (cv_apps s)"

definition add_app :: "app_metadatum \<Rightarrow> 'k conversation \<Rightarrow> 'k conversation outcome" where
  "add_app d s =
     contract (ap_type d \<noteq> SCRIPT_APP \<or> ap_id d \<noteq> []) (contract (ap_type d \<noteq> []) (contract (ap_address d \<noteq> [])
       (Ok (s\<lparr>cv_apps := omap_put (ap_address d) d (cv_apps s)\<rparr>))))"

definition conv_send_to :: "'k local_user \<Rightarrow> string \<Rightarrow> message \<Rightarrow> 'k conversation \<Rightarrow> (bool \<times> 'k conversation) outcome" where
  "conv_send_to lu to m s = bindO (sender_send lu to m (cv_mail s)) (\<lambda>(b, mail). Ok (b, s\<lparr>cv_mail := mail\<rparr>))"

primrec send_all :: "'k local_user \<Rightarrow> 'k user_info list \<Rightarrow> message \<Rightarrow> bool \<Rightarrow> 'k conversation \<Rightarrow> (bool \<times> 'k conversation) outcome" where
  "send_all lu [] m sent s = Ok (sent, s)"
| "send_all lu (c # cs) m sent s = bindO (conv_send_to lu (ui_id c) m s) (\<lambda>(b, s1). send_all lu cs m (sent \<or> b) s1)"

definition conv_send :: "'k local_user \<Rightarrow> message \<Rightarrow> 'k conversation \<Rightarrow> (bool \<times> 'k conversation) outcome" where
  "conv_send lu m s = send_all lu (cl_list (cv_contacts s)) m False s"

section \<open>The decision about a proposed contact\<close>

text \<open>The answers in the order they arrive; the last answer of a member counts.\<close>

definition last_answer :: "(string \<times> req_state) list \<Rightarrow> string \<Rightarrow> req_state" where
  "last_answer as c = (case map_of (rev as) c of None \<Rightarrow> SENT | Some sv \<Rightarrow> sv)"

definition hear :: "string \<Rightarrow> (string \<times> req_state) list \<Rightarrow> 'k conversation \<Rightarrow> 'k conversation" where
  "hear i as s = fold (\<lambda>(from, sv) s. know_contact i from sv s) as s"

definition requests_are :: "string \<Rightarrow> (string \<Rightarrow> req_state) \<Rightarrow> 'k conversation \<Rightarrow> bool" where
  "requests_are i f s \<longleftrightarrow> (\<exists>p. map_of (cv_pending s) i = Some p \<and> distinct (keys (pa_requests p)) \<and>
     map_of (pa_requests p) = (\<lambda>c. if c \<in> ui_id ` set (cl_list (cv_contacts s)) then Some \<lparr>kq_to = c, kq_state = f c\<rparr> else None))"

lemma asked_requests: "cl_ok (cv_contacts s) \<Longrightarrow> requests_are i (\<lambda>_. SENT) (asked_about i s)"
proof -
  define rs where "rs us r0 = fold (\<lambda>c rs. alist_put (ui_id c) \<lparr>kq_to = ui_id c, kq_state = SENT\<rparr> rs) us r0" for us :: "'a user_info list" and r0
  have "distinct (keys r0) \<Longrightarrow> distinct (keys (rs us r0)) \<and>
     map_of (rs us r0) = (\<lambda>c. if c \<in> ui_id ` set us then Some \<lparr>kq_to = c, kq_state = SENT\<rparr> else map_of r0 c)" for us r0
    unfolding rs_def by (induction us arbitrary: r0) (auto simp: fun_eq_iff)
  from this [of "[]" "cl_list (cv_contacts s)"] show ?thesis
    by (auto simp: requests_are_def asked_about_def Let_def rs_def fun_eq_iff)
qed

lemma know_requests:
  assumes "requests_are i f s"
  shows "requests_are i (f(from := (if from \<in> ui_id ` set (cl_list (cv_contacts s)) then sv else f from))) (know_contact i from sv s)"
    "cv_contacts (know_contact i from sv s) = cv_contacts s"
proof -
  obtain p where p: "map_of (cv_pending s) i = Some p" "distinct (keys (pa_requests p))"
    "map_of (pa_requests p) = (\<lambda>c. if c \<in> ui_id ` set (cl_list (cv_contacts s)) then Some \<lparr>kq_to = c, kq_state = f c\<rparr> else None)"
    using assms unfolding requests_are_def by blast
  show c: "cv_contacts (know_contact i from sv s) = cv_contacts s"
    using p(1) by (simp add: know_contact_def split: option.splits)
  show "requests_are i (f(from := (if from \<in> ui_id ` set (cl_list (cv_contacts s)) then sv else f from))) (know_contact i from sv s)"
  proof (cases "from \<in> ui_id ` set (cl_list (cv_contacts s))")
    case True
    then show ?thesis using p unfolding requests_are_def c by (auto simp: know_contact_def fun_eq_iff)
  next
    case False
    then show ?thesis using p assms unfolding requests_are_def c by (auto simp: know_contact_def fun_eq_iff)
  qed
qed

lemma hear_requests:
  assumes "requests_are i f s"
  shows "requests_are i (\<lambda>c. case map_of (rev as) c of None \<Rightarrow> f c | Some sv \<Rightarrow> if c \<in> ui_id ` set (cl_list (cv_contacts s)) then sv else f c) (hear i as s) \<and>
    cv_contacts (hear i as s) = cv_contacts s"
proof (induction as rule: rev_induct)
  case Nil
  then show ?case using assms by (simp add: hear_def)
next
  case (snoc a as)
  obtain from0 st0 where a: "a = (from0, st0)" by (cases a)
  have h: "hear i (as @ [a]) s = know_contact i from0 st0 (hear i as s)" by (simp add: hear_def a)
  show ?case using know_requests [OF conjunct1 [OF snoc], of from0 st0] snoc
    unfolding h by (auto simp: a requests_are_def fun_eq_iff split: option.splits if_splits)
qed

abbreviation member_ids :: "'k conversation \<Rightarrow> string set" where
  "member_ids s \<equiv> ui_id ` set (cl_list (cv_contacts s))"

lemma count_state_zero: "count_state v rs = 0 \<longleftrightarrow> (\<forall>p\<in>set rs. kq_state (snd p) \<noteq> v)"
  by (auto simp: count_state_def filter_empty_conv)

lemma count_state_all: "count_state v rs = length rs \<longleftrightarrow> (\<forall>p\<in>set rs. kq_state (snd p) = v)"
  unfolding count_state_def using length_filter_less [of _ rs "\<lambda>p. kq_state (snd p) = v"] by (auto simp: less_le)

lemma part_of_clique_requests:
  assumes ok: "cl_ok (cv_contacts s)" and rq: "requests_are i f s"
  shows "part_of_clique i s = Ok (
    if \<exists>c\<in>member_ids s. f c = SENT then \<lparr>qs_is_part = Unknown, qs_contacts = {}\<rparr>
    else if \<forall>c\<in>member_ids s. f c = KNOW then \<lparr>qs_is_part = PART, qs_contacts = {}\<rparr>
    else \<lparr>qs_is_part = NOT_PART, qs_contacts = {c \<in> member_ids s. f c = DONT_KNOW}\<rparr>)"
proof -
  obtain p where p: "map_of (cv_pending s) i = Some p" and d: "distinct (keys (pa_requests p))"
    and m: "map_of (pa_requests p) = (\<lambda>c. if c \<in> member_ids s then Some \<lparr>kq_to = c, kq_state = f c\<rparr> else None)"
    using rq unfolding requests_are_def by blast
  have rs: "set (pa_requests p) = (\<lambda>c. (c, \<lparr>kq_to = c, kq_state = f c\<rparr>)) ` member_ids s"
  proof -
    have "(c, r) \<in> set (pa_requests p) \<longleftrightarrow> c \<in> member_ids s \<and> r = \<lparr>kq_to = c, kq_state = f c\<rparr>" for c r
      using m map_of_eq_Some_iff [OF d, of c r] by (auto split: if_splits)
    then show ?thesis by (auto simp: image_iff)
  qed
  have dm: "distinct (map ui_id (cl_list (cv_contacts s)))" and sz: "cl_size (cv_contacts s) = Ok (length (cl_list (cv_contacts s)))"
    using ok by (simp_all add: cl_ok_def cl_size_def)
  have "card (fst ` set (pa_requests p)) = card (member_ids s)" by (simp add: rs image_image)
  then have len: "length (pa_requests p) = length (cl_list (cv_contacts s))"
    using length_eq_card_keys [OF d] distinct_card [OF dm] by simp
  have sent: "count_state SENT (pa_requests p) > 0 \<longleftrightarrow> (\<exists>c\<in>member_ids s. f c = SENT)"
    using count_state_zero [of SENT "pa_requests p"] by (auto simp: rs)
  have know: "count_state KNOW (pa_requests p) = length (pa_requests p) \<longleftrightarrow> (\<forall>c\<in>member_ids s. f c = KNOW)"
    by (auto simp: count_state_all rs)
  have dont: "set (map (\<lambda>q. kq_to (snd q)) (filter (\<lambda>q. kq_state (snd q) = DONT_KNOW) (pa_requests p))) = {c \<in> member_ids s. f c = DONT_KNOW}"
    by (force simp: rs)
  show ?thesis unfolding part_of_clique_def p using len sz sent know dont by (simp add: Let_def del: set_map)
qed

text \<open>
  C7. The decision about a proposed contact, when nobody joins or leaves meanwhile: whatever answers arrive, in whatever order and from whomever, the
  conversation waits while a member has not answered, admits the contact exactly when the last answer of every member is that it knows it, and
  otherwise refuses it and names exactly the members that do not, of which there is at least one.
\<close>

theorem clique_decision:
  assumes "cl_ok (cv_contacts s)"
  shows "part_of_clique i (hear i as (asked_about i s)) = Ok (
    if \<exists>c\<in>member_ids s. last_answer as c = SENT then \<lparr>qs_is_part = Unknown, qs_contacts = {}\<rparr>
    else if \<forall>c\<in>member_ids s. last_answer as c = KNOW then \<lparr>qs_is_part = PART, qs_contacts = {}\<rparr>
    else \<lparr>qs_is_part = NOT_PART, qs_contacts = {c \<in> member_ids s. last_answer as c = DONT_KNOW}\<rparr>)"
proof -
  let ?s = "hear i as (asked_about i s)"
  have c: "cv_contacts (asked_about i s) = cv_contacts s" by (simp add: asked_about_def Let_def)
  have "requests_are i (\<lambda>c. case map_of (rev as) c of None \<Rightarrow> SENT | Some v \<Rightarrow> if c \<in> member_ids s then v else SENT) ?s" "cv_contacts ?s = cv_contacts s"
    using hear_requests [OF asked_requests [OF assms], of i as] unfolding c by simp_all
  moreover have "(case map_of (rev as) c of None \<Rightarrow> SENT | Some v \<Rightarrow> if c \<in> member_ids s then v else SENT) = last_answer as c" if "c \<in> member_ids s" for c
    using that by (simp add: last_answer_def split: option.split)
  ultimately show ?thesis using part_of_clique_requests [of ?s i] assms by (auto cong: conj_cong bex_cong ball_cong)
qed

text \<open>An instance: two members, one knows the contact and one does not.\<close>

definition sample_member :: "string \<Rightarrow> nat user_info" where
  "sample_member i = \<lparr>ui_addresses = [''udp://'' @ i], ui_name = i, ui_id = i, ui_pkey = \<lparr>pu_ks = ''k'', pu_k = Some 0\<rparr>\<rparr>"

definition indexed :: "'k user_info list \<Rightarrow> 'k contact_list" where
  "indexed us = \<lparr>cl_list = us, cl_map = zip (map ui_id us) [0..<length us]\<rparr>"

lemma indexed_ok:
  assumes "distinct (map ui_id us)"
  shows "cl_ok (indexed us)"
proof -
  have "map_of (zip (map ui_id us) [0..<length us]) i = Some k \<longleftrightarrow> k < length us \<and> ui_id (us ! k) = i" for i k
    using assms by (subst map_of_eq_Some_iff) (auto simp: set_zip intro!: exI [of _ k])
  then show ?thesis using assms by (simp add: cl_ok_def indexed_def del: map_of_eq_Some_iff)
qed

definition sample_members :: "nat contact_list" where
  "sample_members = indexed [sample_member ''ann'', sample_member ''bob'']"

definition sample_conversation :: "nat conversation" where
  "sample_conversation = \<lparr>cv_id = ''c'', cv_mail = mailbox_new ''c'', cv_contacts = sample_members, cv_removed = {}, cv_apps = [], cv_pending = [], cv_initiated = True\<rparr>"

lemma sample_members_ok: "cl_ok sample_members"
  unfolding sample_members_def by (rule indexed_ok) (simp add: sample_member_def)

theorem clique_decision_witness:
  "part_of_clique ''eve'' (hear ''eve'' [(''ann'', DONT_KNOW), (''bob'', DONT_KNOW), (''zoe'', KNOW), (''ann'', KNOW)] (asked_about ''eve'' sample_conversation)) =
     Ok \<lparr>qs_is_part = NOT_PART, qs_contacts = {''bob''}\<rparr>"
proof -
  have ok: "cl_ok (cv_contacts sample_conversation)" using sample_members_ok by (simp add: sample_conversation_def)
  have "member_ids sample_conversation = {''ann'', ''bob''}" by (simp add: sample_conversation_def sample_members_def sample_member_def indexed_def)
  moreover have "{c. (c = ''ann'' \<or> c = ''bob'') \<and> last_answer [(''ann'', DONT_KNOW), (''bob'', DONT_KNOW), (''zoe'', KNOW), (''ann'', KNOW)] c = DONT_KNOW} = {''bob''}"
    by (auto simp: last_answer_def)
  ultimately show ?thesis
    using clique_decision [OF ok, of "''eve''" "[(''ann'', DONT_KNOW), (''bob'', DONT_KNOW), (''zoe'', KNOW), (''ann'', KNOW)]"]
    by (simp add: last_answer_def)
qed

end
