(* ===== verification/Conversation_Service.thy ===== *)
theory Conversation_Service
  imports Conversation
begin

text \<open>
  The conversation service, \<^verbatim>\<open>src/src/conversation/conversation_service.cpp\<close>: conversations are created, synchronised with their members, extended after every
  member was asked, and left.  One step is one message of the service thread or one call of the user interface.

  A conversation lives in the map under its id; the pointers that the code passes around are ids here.  \<open>cs_post\<close> lists the mailboxes given to the post
  office, \<open>cs_user\<close> is the local user of the user service.  A \<^verbatim>\<open>std::set\<close> of strings is an ordered list.
\<close>

section \<open>Constants and messages\<close>

definition CONVERSATION_SERVICE :: string where "CONVERSATION_SERVICE = ''conversation_service''"
definition SYNC_CONVERSATION :: string where "SYNC_CONVERSATION = ''sync_conversation_msg''"
definition QUIT_CONVERSATION :: string where "QUIT_CONVERSATION = ''quit_conversation_msg''"
definition ASK_CONTACT_REQ :: string where "ASK_CONTACT_REQ = ''ask_contact_req_msg''"
definition ASK_CONTACT_RES :: string where "ASK_CONTACT_RES = ''ask_contact_res_msg''"

definition id_set_of :: "string list \<Rightarrow> string list" where
  "id_set_of xs = fold insort_insert xs []"

definition out_id_set :: "string list \<Rightarrow> mvalue" where
  "out_id_set xs = VArray (map value_of_string xs)"

primrec in_ids :: "array \<Rightarrow> string list outcome" where
  "in_ids [] = Ok []"
| "in_ids (v # vs) = bindO (as_string v) (\<lambda>i. bindO (in_ids vs) (\<lambda>is. Ok (i # is)))"

definition in_id_set :: "mvalue \<Rightarrow> string list outcome" where
  "in_id_set v = bindO (as_array v) (\<lambda>a. bindO (in_ids a) (\<lambda>is. Ok (id_set_of is)))"

record sync_conversation_msg =
  sy_conversation_id :: string
  sy_contacts :: "string list"
  sy_apps :: "string list"

definition sync_out :: "sync_conversation_msg \<Rightarrow> dict" where
  "sync_out r = [(''conversation_id'', value_of_string (sy_conversation_id r)), (''contacts'', out_id_set (sy_contacts r)), (''apps'', out_id_set (sy_apps r))]"

definition sync_in :: "dict \<Rightarrow> sync_conversation_msg outcome" where
  "sync_in d =
     bindO (in_field d ''conversation_id'' as_string) (\<lambda>i.
     bindO (in_field d ''contacts'' in_id_set) (\<lambda>c.
     bindO (in_field d ''apps'' in_id_set) (\<lambda>a. Ok \<lparr>sy_conversation_id = i, sy_contacts = c, sy_apps = a\<rparr>)))"

definition quit_out :: "string \<Rightarrow> dict" where
  "quit_out i = [(''conversation_id'', value_of_string i)]"

definition quit_in :: "dict \<Rightarrow> string outcome" where
  "quit_in d = in_field d ''conversation_id'' as_string"

record ask_contact_req_msg =
  aq_conversation_id :: string
  aq_id :: string

definition ask_req_out :: "ask_contact_req_msg \<Rightarrow> dict" where
  "ask_req_out r = [(''conversation_id'', value_of_string (aq_conversation_id r)), (''id'', value_of_string (aq_id r))]"

definition ask_req_in :: "dict \<Rightarrow> ask_contact_req_msg outcome" where
  "ask_req_in d =
     bindO (in_field d ''conversation_id'' as_string) (\<lambda>c.
     bindO (in_field d ''id'' as_string) (\<lambda>i. Ok \<lparr>aq_conversation_id = c, aq_id = i\<rparr>))"

record ask_contact_res_msg =
  as_id :: string
  as_conversation_id :: string
  as_status :: u32

definition ask_res_out :: "ask_contact_res_msg \<Rightarrow> dict" where
  "ask_res_out r = [(''id'', value_of_string (as_id r)), (''conversation_id'', value_of_string (as_conversation_id r)), (''status'', value_of_int (as_status r))]"

definition ask_res_in :: "dict \<Rightarrow> ask_contact_res_msg outcome" where
  "ask_res_in d =
     bindO (in_field d ''id'' as_string) (\<lambda>i.
     bindO (in_field d ''conversation_id'' as_string) (\<lambda>c.
     bindO (in_field d ''status'' as_int32) (\<lambda>s. Ok \<lparr>as_id = i, as_conversation_id = c, as_status = s\<rparr>)))"

section \<open>State\<close>

datatype conv_event = NewConversation string | QuitConversation string | ConversationSynced string
  | ContactRemoved string string | ContactAdded string string | NotPartOfClique string string "string set" | ConversationAlert string bool

text \<open>
  \<open>cs_held\<close> are the conversations that were quit and that the user interface still holds a pointer to: a conversation takes its mailbox out of the post office when it is
  destroyed, which is when the last pointer goes.  \<open>cs_lost\<close> is no state of the code: it notes the open conversations whose mailbox was taken out by an older one with the same id.
\<close>

record 'k conversation_service =
  cs_user :: "'k local_user"
  cs_mail :: mailbox
  cs_convs :: "(string \<times> 'k conversation) list"
  cs_events :: "conv_event list"
  cs_post :: "string list"
  cs_held :: "string list"
  cs_lost :: "string set"

type_synonym ('k, 'a) cs_action = "('k conversation_service, 'a) action"

definition cs_event :: "conv_event \<Rightarrow> ('k, unit) cs_action" where
  "cs_event e = modA (\<lambda>s. s\<lparr>cs_events := cs_events s @ [e]\<rparr>)"

definition fire_new_conversation_event :: "string \<Rightarrow> ('k, unit) cs_action" where
  "fire_new_conversation_event i = thenA (requireA (i \<noteq> [])) (cs_event (NewConversation i))"

definition fire_quit_conversation_event :: "string \<Rightarrow> ('k, unit) cs_action" where
  "fire_quit_conversation_event i = thenA (requireA (i \<noteq> [])) (cs_event (QuitConversation i))"

definition fire_conversation_synced_event :: "string \<Rightarrow> ('k, unit) cs_action" where
  "fire_conversation_synced_event i = thenA (requireA (i \<noteq> [])) (cs_event (ConversationSynced i))"

definition fire_contact_removed :: "string \<Rightarrow> string \<Rightarrow> ('k, unit) cs_action" where
  "fire_contact_removed i c = thenA (requireA (i \<noteq> [])) (thenA (requireA (c \<noteq> [])) (cs_event (ContactRemoved i c)))"

definition fire_contact_added :: "string \<Rightarrow> string \<Rightarrow> ('k, unit) cs_action" where
  "fire_contact_added i c = thenA (requireA (i \<noteq> [])) (thenA (requireA (c \<noteq> [])) (cs_event (ContactAdded i c)))"

definition fire_not_part_of_clique :: "string \<Rightarrow> string \<Rightarrow> string set \<Rightarrow> ('k, unit) cs_action" where
  "fire_not_part_of_clique i c cs =
     thenA (requireA (i \<noteq> [])) (thenA (requireA (c \<noteq> [])) (thenA (requireA (cs \<noteq> {})) (cs_event (NotPartOfClique i c cs))))"

definition fire_conversation_alert :: "string \<Rightarrow> bool \<Rightarrow> ('k, unit) cs_action" where
  "fire_conversation_alert i v = cs_event (ConversationAlert i v)"

text \<open>A call on the conversation with the id.\<close>

definition on_conv :: "string \<Rightarrow> ('k conversation \<Rightarrow> ('a \<times> 'k conversation) outcome) \<Rightarrow> ('k, 'a) cs_action" where
  "on_conv i f =
     bindA (getA (\<lambda>s. map_of (cs_convs s) i)) (\<lambda>vo. case vo of
       None \<Rightarrow> liftA Undef
     | Some v \<Rightarrow> bindA (liftA (f v)) (\<lambda>(a, v1). thenA (modA (\<lambda>s. s\<lparr>cs_convs := omap_put i v1 (cs_convs s)\<rparr>)) (retA a)))"

definition read_conv :: "string \<Rightarrow> ('k conversation \<Rightarrow> 'a outcome) \<Rightarrow> ('k, 'a) cs_action" where
  "read_conv i f =
     bindA (getA (\<lambda>s. map_of (cs_convs s) i)) (\<lambda>vo. case vo of None \<Rightarrow> liftA Undef | Some v \<Rightarrow> liftA (f v))"

definition cs_send :: "string \<Rightarrow> message \<Rightarrow> ('k, bool) cs_action" where
  "cs_send to m = bindA (getA cs_user) (\<lambda>lu. partA cs_mail (\<lambda>b s. s\<lparr>cs_mail := b\<rparr>) (sender_send lu to m))"

text \<open>\<^verbatim>\<open>for(auto c : s->contacts().list()) _sender->send(c->id(), m)\<close>\<close>

definition cs_send_members :: "string \<Rightarrow> message \<Rightarrow> ('k, unit) cs_action" where
  "cs_send_members i m =
     bindA (read_conv i (\<lambda>v. Ok (cl_list (cv_contacts v)))) (forA (\<lambda>c. thenA (cs_send (ui_id c) m) (retA ())))"

section \<open>Synchronising\<close>

definition sync_existing_conversation :: "cxx_lib \<Rightarrow> string \<Rightarrow> ('k, unit) cs_action" where
  "sync_existing_conversation L i =
     bindA (read_conv i (\<lambda>v. to_message L SYNC_CONVERSATION as_message_default
         (sync_out \<lparr>sy_conversation_id = cv_id v, sy_contacts = id_set_of (map ui_id (cl_list (cv_contacts v))),
                    sy_apps = id_set_of (map (\<lambda>a. ap_address (snd a)) (cv_apps v))\<rparr>))) (cs_send_members i)"

definition sync_existing_conversation_id :: "cxx_lib \<Rightarrow> string \<Rightarrow> ('k, unit) cs_action" where
  "sync_existing_conversation_id L i =
     bindA (getA (\<lambda>s. alist_has i (cs_convs s))) (\<lambda>b. if \<not> b then retA () else sync_existing_conversation L i)"

definition add_contact_to_conversation_p :: "cxx_lib \<Rightarrow> 'k user_info \<Rightarrow> string \<Rightarrow> ('k, unit) cs_action" where
  "add_contact_to_conversation_p L c i =
     bindA (read_conv i (\<lambda>v. cl_by_id (ui_id c) (cv_contacts v))) (\<lambda>o1. if o1 \<noteq> None then retA ()
     else thenA (on_conv i (\<lambda>v. bindO (conv_add_contact c v) (\<lambda>v1. Ok ((), v1))))
       (thenA (sync_existing_conversation L i)
       (bindA (read_conv i (\<lambda>v. Ok (cv_id v))) (\<lambda>ci. thenA (fire_conversation_synced_event ci) (fire_contact_added ci (ui_id c))))))"

definition ask_about :: "cxx_lib \<Rightarrow> string \<Rightarrow> string \<Rightarrow> ('k, unit) cs_action" where
  "ask_about L c i =
     thenA (requireA (c \<noteq> []))
     (thenA (on_conv i (\<lambda>v. Ok ((), asked_about c v)))
     (bindA (read_conv i (\<lambda>v. to_message L ASK_CONTACT_REQ as_message_default (ask_req_out \<lparr>aq_conversation_id = cv_id v, aq_id = c\<rparr>))) (cs_send_members i)))"

definition add_contact_to_conversation :: "cxx_lib \<Rightarrow> 'k user_info \<Rightarrow> string \<Rightarrow> ('k, unit) cs_action" where
  "add_contact_to_conversation L c i =
     bindA (read_conv i (\<lambda>v. cl_by_id (ui_id c) (cv_contacts v))) (\<lambda>o1. if o1 \<noteq> None then retA ()
     else bindA (read_conv i (\<lambda>v. Ok (cl_empty (cv_contacts v) \<and> cv_pending v = []))) (\<lambda>b.
       if b then add_contact_to_conversation_p L c i else ask_about L (ui_id c) i))"

definition request_apps :: "string \<Rightarrow> string \<Rightarrow> string list \<Rightarrow> ('k, unit) cs_action" where
  "request_apps from_id i apps =
     forA (\<lambda>a. bindA (getA cs_user) (\<lambda>lu.
       thenA (on_conv i (\<lambda>v.
         let n = request_app_message \<lparr>ra_app_address = a, ra_conversation_id = cv_id v, ra_from_id = []\<rparr>
         in if from_id = [] then conv_send lu n v else conv_send_to lu from_id n v)) (retA ()))) apps"

definition open_conversation :: "string \<Rightarrow> ('k, bool) cs_action" where
  "open_conversation i =
     bindA (getA (\<lambda>s. alist_has i (cs_convs s))) (\<lambda>b. if b then retA False
     else bindA (liftA (conversation_new i False)) (\<lambda>v.
       thenA (modA (\<lambda>s. s\<lparr>cs_convs := omap_put i v (cs_convs s), cs_post := cs_post s @ [i], cs_lost := cs_lost s - {i}\<rparr>)) (retA True)))"

definition sync_conversation :: "cxx_lib \<Rightarrow> string \<Rightarrow> string \<Rightarrow> 'k contact_list \<Rightarrow> string list \<Rightarrow> ('k, unit) cs_action" where
  "sync_conversation L from_id i contacts apps =
     bindA (open_conversation i) (\<lambda>is_new.
     thenA (forA (\<lambda>c. add_contact_to_conversation L c i) (cl_list contacts))
     (bindA (read_conv i (\<lambda>v. Ok (filter (\<lambda>a. \<not> has_app a v) apps))) (\<lambda>need_apps.
     thenA (if is_new then fire_new_conversation_event i else retA ())
       (request_apps from_id i need_apps))))"

definition create_conversation :: "cxx_lib \<Rightarrow> string \<Rightarrow> 'k contact_list \<Rightarrow> ('k, unit) cs_action" where
  "create_conversation L i contacts =
     thenA (sync_conversation L [] i contacts []) (on_conv i (\<lambda>v. Ok ((), v\<lparr>cv_initiated := True\<rparr>)))"

definition quit_conversation :: "cxx_lib \<Rightarrow> string \<Rightarrow> ('k, unit) cs_action" where
  "quit_conversation L i =
     bindA (getA (\<lambda>s. alist_has i (cs_convs s))) (\<lambda>b. if \<not> b then retA ()
     else bindA (read_conv i (\<lambda>v. to_message L QUIT_CONVERSATION as_message_default (quit_out (cv_id v)))) (\<lambda>m.
       thenA (cs_send_members i m)
       (thenA (modA (\<lambda>s. s\<lparr>cs_convs := alist_del i (cs_convs s), cs_held := cs_held s @ [i]\<rparr>)) (fire_quit_conversation_event i))))"

text \<open>The destructor of a conversation that was quit: it removes the mailbox with its address from the post office, whoever put it there.\<close>

definition destroy_conversation :: "string \<Rightarrow> ('k, unit) cs_action" where
  "destroy_conversation i =
     bindA (getA (\<lambda>s. i \<in> set (cs_held s))) (\<lambda>b. if \<not> b then retA ()
     else modA (\<lambda>s. s\<lparr>cs_held := remove1 i (cs_held s), cs_post := removeAll i (cs_post s),
            cs_lost := (if alist_has i (cs_convs s) then insert i (cs_lost s) else cs_lost s)\<rparr>))"

definition broadcast_message :: "message \<Rightarrow> ('k, unit) cs_action" where
  "broadcast_message m =
     bindA (getA (\<lambda>s. keys (cs_convs s)))
       (forA (\<lambda>i. on_conv i (\<lambda>v. bindO (push_inbox m (cv_mail v)) (\<lambda>b. Ok ((), v\<lparr>cv_mail := b\<rparr>)))))"

definition conversation_service_stop :: "cxx_lib \<Rightarrow> ('k, unit) cs_action" where
  "conversation_service_stop L = bindA (getA (\<lambda>s. map (\<lambda>p. cv_id (snd p)) (cs_convs s))) (forA (quit_conversation L))"

section \<open>Handlers\<close>

definition user_contact :: "string \<Rightarrow> ('k, 'k user_info option) cs_action" where
  "user_contact i = bindA (getA (\<lambda>s. cl_by_id i (lu_contacts (cs_user s)))) liftA"

primrec known_contacts :: "string list \<Rightarrow> ('k, 'k user_info list) cs_action" where
  "known_contacts [] = retA []"
| "known_contacts (i # is) =
     bindA (getA (\<lambda>s. ui_id (lu_info (cs_user s)))) (\<lambda>self.
       if i = self then known_contacts is
       else bindA (user_contact i) (\<lambda>oc. case oc of
         None \<Rightarrow> known_contacts is
       | Some c \<Rightarrow> bindA (known_contacts is) (\<lambda>cs. retA (c # cs))))"

definition received_sync :: "cxx_lib \<Rightarrow> message \<Rightarrow> ('k, unit) cs_action" where
  "received_sync L m =
     thenA (requireA (mt_type (m_meta m) = SYNC_CONVERSATION))
     (thenA (liftA (expect_symmetric m))
     (bindA (liftA (from_message L SYNC_CONVERSATION m)) (\<lambda>(am, d).
      bindA (liftA (sync_in d)) (\<lambda>r.
      bindA (user_contact (am_from_id am)) (\<lambda>co. case co of
        None \<Rightarrow> retA ()
      | Some c \<Rightarrow>
          bindA (known_contacts (sy_contacts r)) (\<lambda>cs.
          bindA (liftA (contact_list_of (c # cs))) (\<lambda>contacts.
            sync_conversation L (am_from_id am) (sy_conversation_id r) contacts (sy_apps r))))))))"

definition received_quit :: "cxx_lib \<Rightarrow> message \<Rightarrow> ('k, unit) cs_action" where
  "received_quit L m =
     thenA (requireA (mt_type (m_meta m) = QUIT_CONVERSATION))
     (thenA (liftA (expect_symmetric m))
     (bindA (liftA (from_message L QUIT_CONVERSATION m)) (\<lambda>(am, d).
      bindA (liftA (quit_in d)) (\<lambda>i.
      bindA (user_contact (am_from_id am)) (\<lambda>co. case co of
        None \<Rightarrow> retA ()
      | Some _ \<Rightarrow>
          bindA (getA (\<lambda>s. alist_has i (cs_convs s))) (\<lambda>b. if \<not> b then retA ()
          else thenA (on_conv i (\<lambda>v. bindO (conv_remove_contact (am_from_id am) v) (\<lambda>v1. Ok ((), v1))))
            (fire_contact_removed i (am_from_id am))))))))"

definition received_ask_contact_req :: "cxx_lib \<Rightarrow> message \<Rightarrow> ('k, unit) cs_action" where
  "received_ask_contact_req L m =
     thenA (requireA (mt_type (m_meta m) = ASK_CONTACT_REQ))
     (thenA (liftA (expect_symmetric m))
     (bindA (liftA (from_message L ASK_CONTACT_REQ m)) (\<lambda>(am, d).
      bindA (liftA (ask_req_in d)) (\<lambda>a.
      bindA (getA (\<lambda>s. cl_has (am_from_id am) (lu_contacts (cs_user s)))) (\<lambda>hc. if \<not> hc then retA ()
      else bindA (getA (\<lambda>s. alist_has (aq_conversation_id a) (cs_convs s))) (\<lambda>b. if \<not> b then retA ()
      else bindA (getA (\<lambda>s. cl_has (aq_id a) (lu_contacts (cs_user s)))) (\<lambda>know.
        bindA (liftA (to_message L ASK_CONTACT_RES as_message_default
            (ask_res_out \<lparr>as_id = aq_id a, as_conversation_id = aq_conversation_id a, as_status = (if know then 1 else 0)\<rparr>))) (\<lambda>r.
          thenA (cs_send (am_from_id am) r) (retA ())))))))))"

definition received_ask_contact_res :: "cxx_lib \<Rightarrow> message \<Rightarrow> ('k, unit) cs_action" where
  "received_ask_contact_res L m =
     thenA (requireA (mt_type (m_meta m) = ASK_CONTACT_RES))
     (thenA (liftA (expect_symmetric m))
     (bindA (liftA (from_message L ASK_CONTACT_RES m)) (\<lambda>(am, d).
      bindA (liftA (ask_res_in d)) (\<lambda>r.
      bindA (user_contact (am_from_id am)) (\<lambda>fc. case fc of
        None \<Rightarrow> retA ()
      | Some _ \<Rightarrow> bindA (user_contact (as_id r)) (\<lambda>co. case co of
          None \<Rightarrow> retA ()
        | Some c \<Rightarrow>
            bindA (getA (\<lambda>s. alist_has (as_conversation_id r) (cs_convs s))) (\<lambda>b. if \<not> b then retA ()
            else
              let i = as_conversation_id r in
              thenA (on_conv i (\<lambda>v. Ok ((), know_contact (as_id r) (am_from_id am) (if as_status r = 1 then KNOW else DONT_KNOW) v)))
              (bindA (read_conv i (part_of_clique (as_id r))) (\<lambda>q. case qs_is_part q of
                 PART \<Rightarrow> add_contact_to_conversation_p L c i
               | NOT_PART \<Rightarrow> bindA (read_conv i (\<lambda>v. Ok (cv_id v))) (\<lambda>ci. fire_not_part_of_clique ci (ui_id c) (qs_contacts q))
               | Unknown \<Rightarrow> retA ())))))))))"

definition cs_handlers :: "cxx_lib \<Rightarrow> (string \<times> (message \<Rightarrow> ('k, unit) cs_action)) list" where
  "cs_handlers L =
     [(SYNC_CONVERSATION, received_sync L), (QUIT_CONVERSATION, received_quit L), (ASK_CONTACT_REQ, received_ask_contact_req L),
      (ASK_CONTACT_RES, received_ask_contact_res L)]"

definition conversation_turn :: "cxx_lib \<Rightarrow> message \<Rightarrow> ('k, unit) cs_action" where
  "conversation_turn L = service_turn (cs_handlers L)"

section \<open>The invariant\<close>

definition conv_ok :: "string \<Rightarrow> 'k conversation \<Rightarrow> bool" where
  "conv_ok i v \<longleftrightarrow> cv_id v = i \<and> i \<noteq> [] \<and> cl_ok (cv_contacts v) \<and> mailbox_address (cv_mail v) = i"

definition cs_ok :: "'k conversation_service \<Rightarrow> bool" where
  "cs_ok s \<longleftrightarrow> omap_ok (cs_convs s) \<and> cl_ok (lu_contacts (cs_user s)) \<and> (\<forall>i v. map_of (cs_convs s) i = Some v \<longrightarrow> conv_ok i v) \<and>
     fst ` set (cs_convs s) \<subseteq> set (cs_post s) \<union> cs_lost s"

lemma cs_ok_conv: "cs_ok s \<Longrightarrow> map_of (cs_convs s) i = Some v \<Longrightarrow> conv_ok i v"
  by (simp add: cs_ok_def)

lemma cs_ok_has: "cs_ok s \<Longrightarrow> alist_has i (cs_convs s) \<Longrightarrow> \<exists>v. map_of (cs_convs s) i = Some v \<and> conv_ok i v"
  unfolding cs_ok_def alist_has_def by auto

lemma cs_ok_put: "cs_ok s \<Longrightarrow> conv_ok i v \<Longrightarrow> i \<in> set (cs_post s) \<union> cs_lost s \<Longrightarrow> cs_ok (s\<lparr>cs_convs := omap_put i v (cs_convs s)\<rparr>)"
  by (auto simp: cs_ok_def)

lemma cs_ok_posted: "cs_ok s \<Longrightarrow> map_of (cs_convs s) i = Some v \<Longrightarrow> i \<in> set (cs_post s) \<union> cs_lost s"
  unfolding cs_ok_def by (metis image_subset_iff fst_conv map_of_SomeD)

lemma keeps_cs_event [keeps_intros]: "keeps cs_ok (cs_event e)"
  unfolding cs_event_def by (rule keeps_modA) (simp add: cs_ok_def)

lemma keeps_cs_fire [keeps_intros]:
  "keeps cs_ok (fire_new_conversation_event i)" "keeps cs_ok (fire_quit_conversation_event i)" "keeps cs_ok (fire_conversation_synced_event i)"
  "keeps cs_ok (fire_contact_removed i c)" "keeps cs_ok (fire_contact_added i c)" "keeps cs_ok (fire_not_part_of_clique i c S)" "keeps cs_ok (fire_conversation_alert i b)"
  unfolding fire_new_conversation_event_def fire_quit_conversation_event_def fire_conversation_synced_event_def fire_contact_removed_def fire_contact_added_def
    fire_not_part_of_clique_def fire_conversation_alert_def
  by (intro keeps_intros)+

lemma keeps_read_conv [keeps_intros]: "keeps cs_ok (read_conv i f)"
  unfolding read_conv_def by (intro keeps_intros)

lemma keeps_on_conv:
  assumes "\<And>v a v1. conv_ok i v \<Longrightarrow> f v = Ok (a, v1) \<Longrightarrow> conv_ok i v1"
  shows "keeps cs_ok (on_conv i f)"
  unfolding on_conv_def
proof (intro keeps_ends ends_intros)
  fix s :: "'a conversation_service" and v r x v1
  assume ok: "cs_ok s" and v: "map_of (cs_convs s) i = Some v" and r: "f v = Ok r" "r = (x, v1)"
  have "conv_ok i v1" using assms cs_ok_conv [OF ok v] r by blast
  then show "ends cs_ok (thenA (modA (\<lambda>s. s\<lparr>cs_convs := omap_put i v1 (cs_convs s)\<rparr>)) (retA x)) s"
    using cs_ok_put [OF ok] cs_ok_posted [OF ok v] by (simp add: ends_def)
qed auto

lemma push_outbox_address: "push_outbox m b = Ok b1 \<Longrightarrow> mailbox_address b1 = mailbox_address b"
  by (auto simp: mailbox_defs queue_simps Let_def)

lemma push_inbox_address: "push_inbox m b = Ok b1 \<Longrightarrow> mailbox_address b1 = mailbox_address b"
  by (auto simp: mailbox_defs queue_simps Let_def)

lemma sender_send_address: "sender_send lu to m b = Ok (r, b1) \<Longrightarrow> mailbox_address b1 = mailbox_address b"
  by (auto simp: sender_send_def Let_def push_outbox_address split: option.splits)

lemma conv_send_to_ok: "conv_ok i v \<Longrightarrow> conv_send_to lu to m v = Ok (b, v1) \<Longrightarrow> conv_ok i v1"
  by (auto simp: conv_send_to_def conv_ok_def dest: sender_send_address)

lemma send_all_ok: "conv_ok i v \<Longrightarrow> send_all lu cs m b v = Ok (b1, v1) \<Longrightarrow> conv_ok i v1"
  by (induction cs arbitrary: v b) (auto dest: conv_send_to_ok)

lemma keeps_cs_send [keeps_intros]: "keeps cs_ok (cs_send to m)"
  unfolding cs_send_def by (intro keeps_bind keeps_quiet keeps_partA) (auto simp: cs_ok_def)

lemma keeps_cs_send_members [keeps_intros]: "keeps cs_ok (cs_send_members i m)"
  unfolding cs_send_members_def by (intro keeps_intros)

lemma conv_add_contact_ok: "conv_ok i v \<Longrightarrow> conv_add_contact c v = Ok v1 \<Longrightarrow> conv_ok i v1"
  using cl_add_spec [of "cv_contacts v" c] by (auto simp: conv_add_contact_def conv_ok_def)

lemma conv_remove_contact_ok:
  assumes "conv_ok i v" "conv_remove_contact c v = Ok v1"
  shows "conv_ok i v1"
proof (cases "cl_by_id c (cv_contacts v)")
  case (Ok o1)
  show ?thesis
  proof (cases o1)
    case None
    then show ?thesis using assms Ok by (auto simp: conv_remove_contact_def conv_ok_def)
  next
    case (Some u)
    have "cl_ok (cv_contacts v)" using assms(1) by (simp add: conv_ok_def)
    then obtain b l where "cl_remove u (cv_contacts v) = outcome.Ok (b, l)" "cl_ok l" using cl_remove_spec by blast
    then show ?thesis using assms Ok Some by (auto simp: conv_remove_contact_def conv_ok_def)
  qed
qed (use assms in \<open>simp_all add: conv_remove_contact_def\<close>)

lemma conv_quiet_ok [simp]:
  "conv_ok i (asked_about x v) = conv_ok i v" "conv_ok i (know_contact x f q v) = conv_ok i v" "conv_ok i (v\<lparr>cv_initiated := b\<rparr>) = conv_ok i v"
  by (simp_all add: conv_ok_def asked_about_def know_contact_def Let_def split: option.splits)

lemma keeps_sync [keeps_intros]:
  "keeps cs_ok (sync_existing_conversation L i)" "keeps cs_ok (sync_existing_conversation_id L i)" "keeps cs_ok (add_contact_to_conversation_p L c i)"
  "keeps cs_ok (ask_about L x i)"
  unfolding sync_existing_conversation_def sync_existing_conversation_id_def add_contact_to_conversation_p_def ask_about_def
  by (intro keeps_intros keeps_on_conv; auto dest: conv_add_contact_ok)+

lemma keeps_request_apps [keeps_intros]: "keeps cs_ok (request_apps f i apps)"
  unfolding request_apps_def
  by (intro keeps_intros keeps_on_conv) (auto simp: Let_def conv_send_def dest: send_all_ok conv_send_to_ok split: if_splits)

lemma keeps_open_conversation [keeps_intros]: "keeps cs_ok (open_conversation i)"
  unfolding open_conversation_def
proof (intro keeps_ends ends_intros)
  fix s :: "'a conversation_service" and v :: "'a conversation"
  assume ok: "cs_ok s" and v: "conversation_new i False = Ok v"
  then have "conv_ok i v" using contact_list_new_ok
    by (cases "i = []") (auto simp: conversation_new_def conv_ok_def mailbox_new_def umailbox_new_def mailbox_address_def)
  then show "ends cs_ok (thenA (modA (\<lambda>s. s\<lparr>cs_convs := omap_put i v (cs_convs s), cs_post := cs_post s @ [i], cs_lost := cs_lost s - {i}\<rparr>)) (retA True)) s"
    using ok by (auto simp: ends_def cs_ok_def)
qed auto

lemma keeps_cs_ops [keeps_intros]:
  "keeps cs_ok (add_contact_to_conversation L c i)" "keeps cs_ok (sync_conversation L f i l apps)" "keeps cs_ok (create_conversation L i l)"
  unfolding add_contact_to_conversation_def sync_conversation_def create_conversation_def
  by (intro keeps_intros keeps_on_conv; auto)+

lemma omap_ok_del: "omap_ok ps \<Longrightarrow> omap_ok (alist_del k ps)"
  unfolding alist_del_def by (induction ps) auto

lemma keeps_erase [keeps_intros]: "keeps cs_ok (modA (\<lambda>s. s\<lparr>cs_convs := alist_del i (cs_convs s), cs_held := h s\<rparr>))"
  by (rule keeps_modA) (auto simp: cs_ok_def omap_ok_del split: if_splits)

lemma keeps_destroy [keeps_intros]: "keeps cs_ok (destroy_conversation i)"
  unfolding destroy_conversation_def by (intro keeps_intros keeps_modA) (auto simp: cs_ok_def)

lemma keeps_cs_quit [keeps_intros]:
  "keeps cs_ok (quit_conversation L i)" "keeps cs_ok (broadcast_message m)" "keeps cs_ok (conversation_service_stop L)"
  unfolding quit_conversation_def broadcast_message_def conversation_service_stop_def
  by (intro keeps_intros keeps_on_conv; auto simp: conv_ok_def push_inbox_address)+

lemma keeps_user_contact [keeps_intros]: "keeps cs_ok (user_contact i)"
  unfolding user_contact_def by (intro keeps_intros)

lemma keeps_known_contacts [keeps_intros]: "keeps cs_ok (known_contacts is)"
proof (induction "is")
  case (Cons i "is")
  then show ?case unfolding known_contacts.simps by (intro keeps_intros)
qed (simp add: keeps_quiet)

lemma keeps_clique [keeps_intros]:
  "keeps I a \<Longrightarrow> keeps I b \<Longrightarrow> keeps I c \<Longrightarrow> keeps I (case q of NOT_PART \<Rightarrow> a | PART \<Rightarrow> b | Unknown \<Rightarrow> c)"
  by (cases q) auto

lemma keeps_cs_handlers [keeps_intros]:
  "keeps cs_ok (received_sync L m)" "keeps cs_ok (received_quit L m)" "keeps cs_ok (received_ask_contact_req L m)" "keeps cs_ok (received_ask_contact_res L m)"
  unfolding received_sync_def received_quit_def received_ask_contact_req_def received_ask_contact_res_def Let_def
  by (intro keeps_intros keeps_on_conv; auto dest: conv_remove_contact_ok)+

lemma keeps_conversation_turn [keeps_intros]: "keeps cs_ok (conversation_turn L m)"
  unfolding conversation_turn_def by (rule keeps_service_turn) (auto simp: cs_handlers_def intro: keeps_intros)

text \<open>The calls on one conversation that the user interface makes directly.\<close>

definition ui_add_app :: "app_metadatum \<Rightarrow> string \<Rightarrow> ('k, unit) cs_action" where
  "ui_add_app d i = on_conv i (\<lambda>v. bindO (add_app d v) (\<lambda>v1. Ok ((), v1)))"

definition ui_send :: "message \<Rightarrow> string \<Rightarrow> ('k, bool) cs_action" where
  "ui_send m i = bindA (getA cs_user) (\<lambda>lu. on_conv i (conv_send lu m))"

lemma add_app_ok: "conv_ok i v \<Longrightarrow> add_app d v = Ok v1 \<Longrightarrow> conv_ok i v1"
  by (auto simp: add_app_def conv_ok_def split: if_splits)

lemma keeps_ui [keeps_intros]: "keeps cs_ok (ui_add_app d i)" "keeps cs_ok (ui_send m i)"
  unfolding ui_add_app_def ui_send_def by (intro keeps_intros keeps_on_conv; auto simp: conv_send_def dest: add_app_ok send_all_ok)+

inductive cs_step :: "cxx_lib \<Rightarrow> 'k conversation_service \<Rightarrow> 'k conversation_service \<Rightarrow> bool" for L where
  Message: "survives (conversation_turn L m) s s1 \<Longrightarrow> cs_step L s s1"
| Create: "survives (create_conversation L i l) s s1 \<Longrightarrow> cs_step L s s1"
| Quit: "survives (quit_conversation L i) s s1 \<Longrightarrow> cs_step L s s1"
| Sync: "survives (sync_existing_conversation_id L i) s s1 \<Longrightarrow> cs_step L s s1"
| AddContact: "survives (add_contact_to_conversation L c i) s s1 \<Longrightarrow> cs_step L s s1"
| Broadcast: "survives (broadcast_message m) s s1 \<Longrightarrow> cs_step L s s1"
| Alert: "survives (fire_conversation_alert i b) s s1 \<Longrightarrow> cs_step L s s1"
| AddApp: "survives (ui_add_app d i) s s1 \<Longrightarrow> cs_step L s s1"
| Send: "survives (ui_send m i) s s1 \<Longrightarrow> cs_step L s s1"
| Destroy: "survives (destroy_conversation i) s s1 \<Longrightarrow> cs_step L s s1"
| User: "cl_ok (lu_contacts lu) \<Longrightarrow> cs_step L s (s\<lparr>cs_user := lu\<rparr>)"

inductive_cases cs_step_cases: "cs_step L s s1"

lemma cs_step_ok: "cs_step L s s1 \<Longrightarrow> cs_ok s \<Longrightarrow> cs_ok s1"
proof (erule cs_step_cases)
  fix lu assume "s1 = s\<lparr>cs_user := lu\<rparr>" "cl_ok (lu_contacts lu)" "cs_ok s"
  then show "cs_ok s1" by (simp add: cs_ok_def)
qed (erule survives_keeps [where I = cs_ok]; (assumption | intro keeps_intros))+

definition conversation_service_new :: "'k local_user \<Rightarrow> 'k conversation_service" where
  "conversation_service_new lu = \<lparr>cs_user = lu, cs_mail = mailbox_new CONVERSATION_SERVICE, cs_convs = [], cs_events = [], cs_post = [], cs_held = [], cs_lost = {}\<rparr>"

lemma cs_new_ok: "cl_ok (lu_contacts lu) \<Longrightarrow> cs_ok (conversation_service_new lu)"
  by (simp add: cs_ok_def conversation_service_new_def)

lemma cs_steps_ok:
  assumes "cl_ok (lu_contacts lu)" "(cs_step L)\<^sup>*\<^sup>* (conversation_service_new lu) s"
  shows "cs_ok s"
  using assms(2) by (induction rule: rtranclp_induct) (auto intro: cs_step_ok cs_new_ok assms(1))

section \<open>Calls on a conversation of the service\<close>

lemma read_conv_eq: "map_of (cs_convs s) i = Some v \<Longrightarrow> bindA (read_conv i f) k s = bindA (liftA (f v)) k s"
  by (simp add: read_conv_def)

lemma on_conv_eq:
  "map_of (cs_convs s) i = Some v \<Longrightarrow> f v = Ok (a, v1) \<Longrightarrow> bindA (on_conv i f) k s = k a (s\<lparr>cs_convs := omap_put i v1 (cs_convs s)\<rparr>)"
  by (simp add: on_conv_def)

lemma read_conv_alone: "map_of (cs_convs s) i = Some v \<Longrightarrow> read_conv i f s = (f v, s)"
  by (simp add: read_conv_def liftA_def)

lemma to_message_Ok: "\<exists>m. to_message L t c d = Ok m \<and> mt_type (m_meta m) = t"
  by (simp add: to_message_def Let_def)

lemma member_find:
  assumes "conv_ok i v"
  shows "cl_by_id c (cv_contacts v) = Ok (find (\<lambda>u. ui_id u = c) (cl_list (cv_contacts v)))"
  using assms cl_by_id_spec unfolding conv_ok_def by blast

lemma find_None_member: "find (\<lambda>u. ui_id u = c) (cl_list l) = None \<longleftrightarrow> c \<notin> ui_id ` set (cl_list l)"
  by (auto simp: find_None_iff)

text \<open>
  A conversation from which everybody has left while a proposal was open cannot grow again: adding a contact to it succeeds, but the contact is only
  proposed, nobody is left to be asked, nothing is sent and nothing is announced, and the conversation is as empty, with an open proposal, as before.
\<close>

theorem deserted_conversation_stuck:
  assumes "cs_ok s" "map_of (cs_convs s) i = Some v" "cl_list (cv_contacts v) = []" "cv_pending v \<noteq> []" "ui_id c \<noteq> []"
  shows "\<exists>v1. add_contact_to_conversation L c i s = (Ok (), s\<lparr>cs_convs := omap_put i v1 (cs_convs s)\<rparr>) \<and>
    cl_list (cv_contacts v1) = [] \<and> cv_pending v1 \<noteq> [] \<and> cv_mail v1 = cv_mail v"
proof -
  let ?v1 = "asked_about (ui_id c) v" and ?s1 = "s\<lparr>cs_convs := omap_put i (asked_about (ui_id c) v) (cs_convs s)\<rparr>"
  have om: "omap_ok (cs_convs s)" using assms(1) by (simp add: cs_ok_def)
  have cv: "cl_by_id (ui_id c) (cv_contacts v) = Ok None"
    using member_find [OF cs_ok_conv [OF assms(1, 2)], of "ui_id c"] assms(3) by simp
  have v1: "map_of (cs_convs ?s1) i = Some ?v1" using om by simp
  obtain m where m: "to_message L ASK_CONTACT_REQ as_message_default (ask_req_out \<lparr>aq_conversation_id = cv_id ?v1, aq_id = ui_id c\<rparr>) = Ok m"
    using to_message_Ok by blast
  have "cs_send_members i m ?s1 = (Ok (), ?s1)"
    using v1 assms(3) by (simp add: cs_send_members_def read_conv_eq asked_about_def Let_def retA_def)
  then have "ask_about L (ui_id c) i s = (Ok (), ?s1)"
    using assms(2, 5) v1 m by (simp add: ask_about_def on_conv_eq read_conv_eq)
  then have "add_contact_to_conversation L c i s = (Ok (), ?s1)"
    using assms(2-4) cv by (simp add: add_contact_to_conversation_def read_conv_eq cl_empty_def)
  then show ?thesis using assms(3)
    by (intro exI [of _ ?v1]) (simp add: asked_about_def Let_def, metis alist_has_iff empty_iff image_empty insertI1 list.set(1) set_keys_alist_put)
qed

section \<open>Synchronisation messages\<close>

lemma cl_add_all_spec:
  "cl_ok l \<Longrightarrow> \<exists>l1. cl_add_all us l = Ok l1 \<and> cl_ok l1 \<and> set (cl_list l1) \<subseteq> set (cl_list l) \<union> set us \<and> length (cl_list l1) \<le> length (cl_list l) + length us"
proof (induction us arbitrary: l)
  case (Cons u us)
  obtain b l0 where l0: "cl_add u l = Ok (b, l0)" "cl_ok l0" "cl_list l0 = spec_add u (cl_list l)" using cl_add_spec [OF Cons.prems] by blast
  then have "set (cl_list l0) \<subseteq> insert u (set (cl_list l))" "length (cl_list l0) \<le> Suc (length (cl_list l))" by (auto simp: spec_add_def)
  then show ?case using Cons.IH [OF l0(2)] l0(1) by fastforce
qed simp

lemma contact_list_of_spec: "\<exists>l. contact_list_of us = Ok l \<and> cl_ok l \<and> set (cl_list l) \<subseteq> set us"
proof -
  obtain l where l: "cl_add_all us contact_list_new = Ok l" "cl_ok l" "set (cl_list l) \<subseteq> set us" "length (cl_list l) \<le> length us"
    using cl_add_all_spec [OF contact_list_new_ok, of us] by (auto simp: contact_list_new_def)
  then show ?thesis by (simp add: contact_list_of_def cl_ok_def)
qed

lemma user_contact_eq:
  assumes "cs_ok s"
  shows "bindA (user_contact i) k s = k (find (\<lambda>u. ui_id u = i) (cl_list (lu_contacts (cs_user s)))) s"
  using assms by (simp add: user_contact_def cl_by_id_spec cs_ok_def)

lemma known_contacts_spec:
  assumes ok: "cs_ok s"
  shows "\<exists>cs. known_contacts is s = (Ok cs, s) \<and> (\<forall>c\<in>set cs. ui_id c \<in> set is \<and> ui_id c \<noteq> ui_id (lu_info (cs_user s)) \<and> c \<in> set (cl_list (lu_contacts (cs_user s))))"
proof (induction "is")
  case (Cons i "is")
  then obtain cs where cs: "known_contacts is s = (Ok cs, s)"
    "\<forall>c\<in>set cs. ui_id c \<in> set is \<and> ui_id c \<noteq> ui_id (lu_info (cs_user s)) \<and> c \<in> set (cl_list (lu_contacts (cs_user s)))" by blast
  show ?case
  proof (cases "i = ui_id (lu_info (cs_user s)) \<or> find (\<lambda>u. ui_id u = i) (cl_list (lu_contacts (cs_user s))) = None")
    case True
    then show ?thesis using cs ok by (auto simp: user_contact_eq)
  next
    case False
    then obtain c where c: "find (\<lambda>u. ui_id u = i) (cl_list (lu_contacts (cs_user s))) = Some c" by blast
    then have "ui_id c = i" "c \<in> set (cl_list (lu_contacts (cs_user s)))" by (auto simp: find_Some_iff)
    then show ?thesis using False cs ok c by (auto simp: user_contact_eq bindA_Ok retA_def)
  qed
qed (simp add: retA_def)

definition sync_message :: "cxx_lib \<Rightarrow> message \<Rightarrow> string \<Rightarrow> sync_conversation_msg \<Rightarrow> bool" where
  "sync_message L m from_id r \<longleftrightarrow> mt_type (m_meta m) = SYNC_CONVERSATION \<and> is_symmetric m \<and>
     (\<exists>am d. from_message L SYNC_CONVERSATION m = Ok (am, d) \<and> am_from_id am = from_id \<and> sync_in d = Ok r)"

lemma sync_turn:
  assumes "sync_message L m from_id r" "cs_ok s" "find (\<lambda>u. ui_id u = from_id) (cl_list (lu_contacts (cs_user s))) = Some c"
  shows "conversation_turn L m s = catchA (bindA (known_contacts (sy_contacts r)) (\<lambda>cs. bindA (liftA (contact_list_of (c # cs))) (\<lambda>contacts.
     sync_conversation L from_id (sy_conversation_id r) contacts (sy_apps r)))) s"
proof -
  have t: "conversation_turn L m = catchA (received_sync L m)"
    unfolding conversation_turn_def using assms(1) by (intro service_turn_handler) (simp add: cs_handlers_def sync_message_def)
  obtain am d where m: "from_message L SYNC_CONVERSATION m = Ok (am, d)" "am_from_id am = from_id" "sync_in d = Ok r"
      "mt_type (m_meta m) = SYNC_CONVERSATION" "expect_symmetric m = Ok ()"
    using assms(1) by (auto simp: sync_message_def expect_symmetric_def)
  show ?thesis unfolding t catchA_def using m assms(2, 3) by (simp add: received_sync_def user_contact_eq)
qed

lemma add_member_quiet:
  assumes "cs_ok s" "map_of (cs_convs s) i = Some v" "ui_id c \<in> member_ids v"
  shows "add_contact_to_conversation L c i s = (Ok (), s)"
  using assms member_find [OF cs_ok_conv [OF assms(1, 2)], of "ui_id c"]
  by (simp add: add_contact_to_conversation_def read_conv_eq find_None_member retA_def)

lemma add_members_quiet:
  assumes "cs_ok s" "map_of (cs_convs s) i = Some v" "\<forall>c\<in>set cs. ui_id c \<in> member_ids v"
  shows "forA (\<lambda>c. add_contact_to_conversation L c i) cs s = (Ok (), s)"
  using assms(3) by (induction cs) (simp_all add: retA_def bindA_Ok add_member_quiet [OF assms(1, 2)])

text \<open>
  Synchronisation comes to rest: a message about a known conversation that names only members, contacts the user does not know and the user itself,
  and only applications the conversation has, changes nothing, sends nothing and announces nothing.
\<close>

theorem settled_sync_is_silent:
  assumes "cs_ok s" "sync_message L m from_id r" "map_of (cs_convs s) (sy_conversation_id r) = Some v"
    and "\<forall>c\<in>set (cl_list (lu_contacts (cs_user s))). ui_id c \<in> insert from_id (set (sy_contacts r)) \<longrightarrow> ui_id c \<in> member_ids v"
    and "\<forall>a\<in>set (sy_apps r). has_app a v"
  shows "conversation_turn L m s = (Ok (), s)"
proof (cases "find (\<lambda>u. ui_id u = from_id) (cl_list (lu_contacts (cs_user s)))")
  case None
  have t: "conversation_turn L m = catchA (received_sync L m)"
    unfolding conversation_turn_def using assms(2) by (intro service_turn_handler) (simp add: cs_handlers_def sync_message_def)
  show ?thesis unfolding t using None assms(1, 2) by (auto simp: catchA_def received_sync_def sync_message_def expect_symmetric_def user_contact_eq retA_def)
next
  case (Some c)
  then have c: "c \<in> set (cl_list (lu_contacts (cs_user s)))" "ui_id c = from_id" by (auto simp: find_Some_iff)
  obtain cs where cs: "known_contacts (sy_contacts r) s = (Ok cs, s)" "\<forall>c\<in>set cs. ui_id c \<in> set (sy_contacts r) \<and> c \<in> set (cl_list (lu_contacts (cs_user s)))"
    using known_contacts_spec [OF assms(1)] by blast
  obtain l where l: "contact_list_of (c # cs) = Ok l" "set (cl_list l) \<subseteq> set (c # cs)" using contact_list_of_spec by blast
  have mem: "\<forall>u\<in>set (cl_list l). ui_id u \<in> member_ids v" using l(2) cs(2) c assms(4) by auto
  have "filter (\<lambda>a. \<not> has_app a v) (sy_apps r) = []" using assms(5) by (simp add: filter_empty_conv)
  moreover have "alist_has (sy_conversation_id r) (cs_convs s)" using assms(3) by (simp add: alist_has_def del: alist_has_iff)
  ultimately have "sync_conversation L from_id (sy_conversation_id r) l (sy_apps r) s = (Ok (), s)"
    using assms(3) add_members_quiet [OF assms(1, 3) mem]
    by (simp add: sync_conversation_def open_conversation_def bindA_Ok read_conv_eq request_apps_def retA_def del: alist_has_iff)
  then show ?thesis using cs(1) l(1) by (simp add: sync_turn [OF assms(2, 1) Some] catchA_def bindA_Ok)
qed

text \<open>
  A contact that sends a synchronisation message with an empty conversation id ends the program: the conversation that is then created checks that its id is
  not empty.
\<close>

theorem empty_conversation_id_exits:
  assumes "cs_ok s" "sync_message L m from_id r" "from_id \<in> ui_id ` set (cl_list (lu_contacts (cs_user s)))" "sy_conversation_id r = []"
  shows "conversation_turn L m s = (Exit, s)"
proof -
  obtain c where c: "find (\<lambda>u. ui_id u = from_id) (cl_list (lu_contacts (cs_user s))) = Some c"
    using assms(3) find_None_member [of from_id "lu_contacts (cs_user s)"] by (cases "find (\<lambda>u. ui_id u = from_id) (cl_list (lu_contacts (cs_user s)))") auto
  obtain cs where cs: "known_contacts (sy_contacts r) s = (Ok cs, s)" using known_contacts_spec [OF assms(1)] by blast
  obtain l where l: "contact_list_of (c # cs) = Ok l" using contact_list_of_spec by blast
  have "\<not> alist_has [] (cs_convs s)" using cs_ok_has [OF assms(1)] unfolding conv_ok_def by blast
  then have "sync_conversation L from_id [] l (sy_apps r) s = (Exit, s)"
    by (simp add: sync_conversation_def open_conversation_def conversation_new_def contract_def del: alist_has_iff)
  then show ?thesis using cs l assms(4) by (simp add: sync_turn [OF assms(2, 1) c] catchA_def bindA_Ok)
qed

text \<open>
  C6. In every reachable state each conversation is kept under its own id, which is not empty, its mailbox has that id as its address, and its members have distinct ids,
  each found by its id.  Its mailbox is in the post office, unless an older conversation with the same id, which was quit, was destroyed while this one was open.
\<close>

theorem conversations_consistent:
  assumes "cl_ok (lu_contacts lu)" "(cs_step L)\<^sup>*\<^sup>* (conversation_service_new lu) s" "map_of (cs_convs s) i = Some v"
  shows "cv_id v = i \<and> i \<noteq> [] \<and> mailbox_address (cv_mail v) = i \<and> (i \<notin> cs_lost s \<longrightarrow> i \<in> set (cs_post s)) \<and> distinct (map ui_id (cl_list (cv_contacts v))) \<and>
    (\<forall>c. cl_by_id c (cv_contacts v) = Ok (find (\<lambda>u. ui_id u = c) (cl_list (cv_contacts v))))"
proof -
  have ok: "cs_ok s" by (rule cs_steps_ok [OF assms(1, 2)])
  have "conv_ok i v" by (rule cs_ok_conv [OF ok assms(3)])
  then show ?thesis using cs_ok_posted [OF ok assms(3)] cl_by_id_spec [of "cv_contacts v"] by (auto simp: conv_ok_def cl_ok_def)
qed

text \<open>
  The exception is real: when a conversation was quit, another member's message has opened it again, and only then the interface lets go of the old one, the destructor of the
  old one removes the mailbox of the new one.  The conversation stays in the map and gets no more mail.
\<close>

theorem late_destructor_unlists:
  assumes "cl_ok (lu_contacts lu)" "(cs_step L)\<^sup>*\<^sup>* (conversation_service_new lu) s" "i \<in> set (cs_held s)" "map_of (cs_convs s) i = Some v"
  shows "\<exists>s1. (cs_step L)\<^sup>*\<^sup>* (conversation_service_new lu) s1 \<and> destroy_conversation i s = (Ok (), s1) \<and> map_of (cs_convs s1) i = Some v \<and> i \<notin> set (cs_post s1)"
proof -
  obtain s1 where s1: "destroy_conversation i s = (Ok (), s1)" "cs_convs s1 = cs_convs s" "i \<notin> set (cs_post s1)"
    using assms(3) by (simp add: destroy_conversation_def modA_def)
  then have "cs_step L s s1" by (intro cs_step.Destroy [of i]) (simp add: survives_def)
  then show ?thesis using s1 assms(2,4) by (intro exI [of _ s1]) (auto intro: rtranclp.rtrancl_into_rtrancl)
qed

text \<open>
  A vote of a member that has left still counts, and a member that has joined since is not asked: from a conversation of a and b, when b has vouched
  for x and left and c has joined with the consent of a, the consent of a alone admits x, although c was never asked about x.
\<close>

theorem departed_vote_counts:
  assumes "cl_ok (cv_contacts s)" "cl_list (cv_contacts s) = [a, b]" "cv_pending s = []"
    and "distinct [ui_id a, ui_id b, ui_id c, x]"
  shows "\<exists>s3 s6. conv_remove_contact (ui_id b) (know_contact x (ui_id b) KNOW (asked_about x s)) = Ok s3 \<and>
    part_of_clique (ui_id c) (know_contact (ui_id c) (ui_id a) KNOW (asked_about (ui_id c) s3)) = Ok \<lparr>qs_is_part = PART, qs_contacts = {}\<rparr> \<and>
    conv_add_contact c (know_contact (ui_id c) (ui_id a) KNOW (asked_about (ui_id c) s3)) = Ok s6 \<and>
    part_of_clique x (know_contact x (ui_id a) KNOW s6) = Ok \<lparr>qs_is_part = PART, qs_contacts = {}\<rparr> \<and> member_ids s6 = {ui_id a, ui_id c}"
proof -
  let ?s2 = "know_contact x (ui_id b) KNOW (asked_about x s)"
  have s2: "cv_contacts ?s2 = cv_contacts s" "cl_by_id (ui_id b) (cv_contacts s) = Ok (Some b)"
    using assms by (auto simp: asked_about_def know_contact_def Let_def cl_by_id_spec split: option.splits)
  obtain r l where l: "cl_remove b (cv_contacts s) = Ok (r, l)" "cl_ok l" "cl_list l = [a]"
    using cl_remove_spec [OF assms(1), of b] assms(2, 4) by (auto simp: spec_remove_def)
  define s3 where "s3 = ?s2\<lparr>cv_contacts := l, cv_removed := insert (ui_id b) (cv_removed ?s2), cv_pending := alist_del (ui_id b) (cv_pending ?s2)\<rparr>"
  have r3: "conv_remove_contact (ui_id b) ?s2 = Ok s3" using s2 l by (simp add: conv_remove_contact_def s3_def)
  have p3: "map_of (cv_pending s3) x = Some \<lparr>pa_contact = \<lparr>pc_id = x, pc_from = [], pc_name = []\<rparr>,
      pa_requests = [(ui_id a, \<lparr>kq_to = ui_id a, kq_state = SENT\<rparr>), (ui_id b, \<lparr>kq_to = ui_id b, kq_state = KNOW\<rparr>)]\<rparr>"
    using assms(2-4) by (auto simp: s3_def asked_about_def know_contact_def Let_def pending_default_def)
  define s5 where "s5 = know_contact (ui_id c) (ui_id a) KNOW (asked_about (ui_id c) s3)"
  have c5: "cv_contacts s5 = l" "map_of (cv_pending s5) x = map_of (cv_pending s3) x"
    using assms(4) by (auto simp: s5_def s3_def asked_about_def know_contact_def Let_def split: option.splits)
  have sz: "cl_size l = Ok 1" using l by (simp add: cl_size_def cl_ok_def)
  have q5: "part_of_clique (ui_id c) s5 = Ok \<lparr>qs_is_part = PART, qs_contacts = {}\<rparr>"
  proof -
    have "cv_contacts s3 = l" by (simp add: s3_def)
    then have "requests_are (ui_id c) ((\<lambda>_. SENT)(ui_id a := KNOW)) s5"
      using know_requests(1) [OF asked_requests, of s3 "ui_id c" "ui_id a" KNOW] l unfolding s5_def by (simp add: asked_about_def Let_def)
    then show ?thesis using part_of_clique_requests [of s5 "ui_id c"] c5(1) l by simp
  qed
  obtain r6 l6 where l6: "cl_add c l = Ok (r6, l6)" "cl_ok l6" "cl_list l6 = [a, c]"
    using cl_add_spec [OF l(2), of c] l(3) assms(4) by (auto simp: spec_add_def)
  define s6 where "s6 = s5\<lparr>cv_contacts := l6, cv_removed := cv_removed s5 - {ui_id c}\<rparr>"
  have r6: "conv_add_contact c s5 = Ok s6" using l6 c5(1) by (simp add: conv_add_contact_def s6_def)
  have p6: "map_of (cv_pending s6) x = map_of (cv_pending s3) x" using c5(2) by (simp add: s6_def)
  have "cl_size l6 = Ok 2" using l6 by (simp add: cl_size_def cl_ok_def)
  then have q6: "part_of_clique x (know_contact x (ui_id a) KNOW s6) = Ok \<lparr>qs_is_part = PART, qs_contacts = {}\<rparr>"
    using p6 p3 assms(4) by (simp add: part_of_clique_def know_contact_def s6_def count_state_def)
  have "member_ids s6 = {ui_id a, ui_id c}" using l6 by (simp add: s6_def)
  then show ?thesis using r3 q5 r6 q6 unfolding s5_def by blast
qed

text \<open>Concrete instances.\<close>

definition sample_sync :: "sync_conversation_msg \<Rightarrow> message" where
  "sample_sync r = (case to_message decimal_lib SYNC_CONVERSATION (as_message_default\<lparr>am_from_id := ''ann''\<rparr>) (sync_out r) of
     Ok m \<Rightarrow> m\<lparr>m_meta := (m_meta m)\<lparr>mt_encryption := symmetric\<rparr>\<rparr> | _ \<Rightarrow> message_default)"

lemma sample_sync_message:
  assumes "wf_value decimal_lib (VDict (sync_out r))" "sync_in (sync_out r) = Ok r"
  shows "sync_message decimal_lib (sample_sync r) ''ann'' r"
proof -
  obtain m where m: "to_message decimal_lib SYNC_CONVERSATION (as_message_default\<lparr>am_from_id := ''ann''\<rparr>) (sync_out r) = Ok m" "mt_type (m_meta m) = SYNC_CONVERSATION"
    using to_message_Ok by blast
  then have s: "sample_sync r = m\<lparr>m_meta := (m_meta m)\<lparr>mt_encryption := symmetric\<rparr>\<rparr>" by (simp add: sample_sync_def)
  have "from_message decimal_lib SYNC_CONVERSATION m = Ok (as_message_default\<lparr>am_from_id := ''ann''\<rparr>, sync_out r)"
    by (rule dec.as_message_roundtrip [OF assms(1) m(1)])
  then have "from_message decimal_lib SYNC_CONVERSATION (sample_sync r) = Ok (as_message_default\<lparr>am_from_id := ''ann''\<rparr>, sync_out r)"
    by (simp add: from_message_def s)
  then show ?thesis using m(2) assms(2) by (simp add: sync_message_def s is_symmetric_def)
qed

definition sample_cs :: "nat conversation_service" where
  "sample_cs = \<lparr>cs_user = sample_user\<lparr>lu_contacts := sample_members\<rparr>, cs_mail = mailbox_new CONVERSATION_SERVICE, cs_convs = [(''c'', sample_conversation)],
     cs_events = [], cs_post = [''c''], cs_held = [], cs_lost = {}\<rparr>"

lemma sample_cs_ok: "cs_ok sample_cs"
  using sample_members_ok
  by (auto simp: cs_ok_def sample_cs_def conv_ok_def sample_conversation_def mailbox_new_def umailbox_new_def mailbox_address_def split: if_splits)

abbreviation sample_sync_msg :: "string \<Rightarrow> sync_conversation_msg" where
  "sample_sync_msg i \<equiv> \<lparr>sy_conversation_id = i, sy_contacts = [''bob'', ''me'', ''zoe''], sy_apps = []\<rparr>"

lemma sample_sync_from_ann:
  "sync_message decimal_lib (sample_sync (sample_sync_msg ''c'')) ''ann'' (sample_sync_msg ''c'')"
  "sync_message decimal_lib (sample_sync (sample_sync_msg [])) ''ann'' (sample_sync_msg [])"
  by (rule sample_sync_message;
      simp add: sync_out_def sync_in_def out_id_set_def in_id_set_def in_field_def dict_ref_def id_set_of_def insort_insert_key_def value_of_string_def to_bytes_def to_str_def
        decimal_lib_def show_nat.simps)+

theorem settled_sync_is_silent_witness: "conversation_turn decimal_lib (sample_sync (sample_sync_msg ''c'')) sample_cs = (Ok (), sample_cs)"
  by (rule settled_sync_is_silent [OF sample_cs_ok sample_sync_from_ann(1), of sample_conversation])
    (auto simp: sample_cs_def sample_conversation_def sample_members_def indexed_def)

theorem empty_conversation_id_exits_witness: "conversation_turn decimal_lib (sample_sync (sample_sync_msg [])) sample_cs = (Exit, sample_cs)"
  by (rule empty_conversation_id_exits [OF sample_cs_ok sample_sync_from_ann(2)]) (simp_all add: sample_cs_def sample_members_def indexed_def sample_member_def)

theorem deserted_conversation_stuck_witness:
  "\<exists>v1. add_contact_to_conversation decimal_lib (sample_member ''eve'') ''c''
      (sample_cs\<lparr>cs_convs := [(''c'', sample_conversation\<lparr>cv_contacts := contact_list_new, cv_pending := [(''dan'', pending_default)]\<rparr>)]\<rparr>) =
     (Ok (), sample_cs\<lparr>cs_convs := omap_put ''c'' v1 [(''c'', sample_conversation\<lparr>cv_contacts := contact_list_new, cv_pending := [(''dan'', pending_default)]\<rparr>)]\<rparr>) \<and>
     cl_list (cv_contacts v1) = [] \<and> cv_pending v1 \<noteq> [] \<and> cv_mail v1 = mailbox_new ''c''"
proof -
  let ?v = "sample_conversation\<lparr>cv_contacts := contact_list_new, cv_pending := [(''dan'', pending_default)]\<rparr>"
  have "cs_ok (sample_cs\<lparr>cs_convs := [(''c'', ?v)]\<rparr>)"
    using sample_members_ok contact_list_new_ok
    by (auto simp: cs_ok_def sample_cs_def conv_ok_def sample_conversation_def mailbox_new_def umailbox_new_def mailbox_address_def split: if_splits)
  from deserted_conversation_stuck [OF this, of "''c''" ?v "sample_member ''eve''" decimal_lib] show ?thesis
    by (simp add: contact_list_new_def sample_member_def sample_conversation_def sample_cs_def)
qed

theorem departed_vote_counts_witness:
  "\<exists>s3 s6. conv_remove_contact ''bob'' (know_contact ''eve'' ''bob'' KNOW (asked_about ''eve'' sample_conversation)) = Ok s3 \<and>
    part_of_clique ''cat'' (know_contact ''cat'' ''ann'' KNOW (asked_about ''cat'' s3)) = Ok \<lparr>qs_is_part = PART, qs_contacts = {}\<rparr> \<and>
    conv_add_contact (sample_member ''cat'') (know_contact ''cat'' ''ann'' KNOW (asked_about ''cat'' s3)) = Ok s6 \<and>
    part_of_clique ''eve'' (know_contact ''eve'' ''ann'' KNOW s6) = Ok \<lparr>qs_is_part = PART, qs_contacts = {}\<rparr> \<and> member_ids s6 = {''ann'', ''cat''}"
  using departed_vote_counts [of sample_conversation "sample_member ''ann''" "sample_member ''bob''" "sample_member ''cat''" "''eve''"] sample_members_ok
  by (simp add: sample_conversation_def sample_members_def indexed_def sample_member_def)

theorem conversations_consistent_witness:
  "cv_id (sample_conversation\<lparr>cv_contacts := contact_list_new\<rparr>) = ''c'' \<and> mailbox_address (cv_mail sample_conversation) = ''c''"
proof -
  let ?lu = "sample_user\<lparr>lu_contacts := sample_members\<rparr>"
  let ?v = "sample_conversation\<lparr>cv_contacts := contact_list_new\<rparr>"
  let ?s = "(conversation_service_new ?lu)\<lparr>cs_convs := [(''c'', ?v)], cs_events := [NewConversation ''c''], cs_post := [''c'']\<rparr>"
  have "create_conversation decimal_lib ''c'' contact_list_new (conversation_service_new ?lu) = (Ok (), ?s)"
    by (simp add: create_conversation_def sync_conversation_def open_conversation_def conversation_service_new_def conversation_new_def contact_list_new_def
        read_conv_eq on_conv_eq on_conv_def fire_new_conversation_event_def cs_event_def request_apps_def retA_def sample_conversation_def contract_def modA_def)
  then have "(cs_step decimal_lib)\<^sup>*\<^sup>* (conversation_service_new ?lu) ?s"
    by (intro r_into_rtranclp cs_step.Create [of _ "''c''" contact_list_new]) (simp add: survives_def)
  from conversations_consistent [OF _ this, of "''c''" ?v] sample_members_ok show ?thesis by simp
qed

end
