(* ===== verification/Disk_Store.thy ===== *)
theory Disk_Store
  imports User Fire_Monad
begin

text \<open>
  The key-value store of the applications, \<^verbatim>\<open>src/src/util/disk_store.cpp\<close>: an index from keys to file names, one file per value, and a file for the index.  Copies of a
  store share index and mutex, so one state stands for all of them.  File names come from \<^verbatim>\<open>uuid()\<close> and are arguments here.
\<close>

section \<open>Operations\<close>

record disk_store =
  ds_path :: string
  ds_index :: dict
  ds_fs :: files

definition INDEX :: string where "INDEX = ''index''"

definition get_index_file :: "fs_lib \<Rightarrow> string \<Rightarrow> string" where
  "get_index_file F dir = fl_join F dir INDEX"

definition get_value_file :: "fs_lib \<Rightarrow> string \<Rightarrow> string \<Rightarrow> string" where
  "get_value_file F dir i = fl_join F dir i"

definition delete_file :: "string \<Rightarrow> files \<Rightarrow> (bool \<times> files) outcome" where
  "delete_file f fs = contract (f \<noteq> []) (Ok (fs f \<noteq> None, fs(f := None)))"

definition disk_store_new :: "files \<Rightarrow> disk_store" where
  "disk_store_new fs = \<lparr>ds_path = [], ds_index = [], ds_fs = fs\<rparr>"

definition ds_save :: "fs_lib \<Rightarrow> string \<Rightarrow> bytes \<Rightarrow> (disk_store, unit) action" where
  "ds_save F f b = partA ds_fs (\<lambda>fs s. s\<lparr>ds_fs := fs\<rparr>) (\<lambda>fs. bindO (save_to_file F f b fs) (\<lambda>fs1. Ok ((), fs1)))"

definition save_index :: "cxx_lib \<Rightarrow> fs_lib \<Rightarrow> (disk_store, unit) action" where
  "save_index L F =
     bindA (getA (\<lambda>s. s)) (\<lambda>s. thenA (requireA (ds_path s \<noteq> [])) (ds_save F (get_index_file F (ds_path s)) (encode_dict L (ds_index s))))"

text \<open>\<^verbatim>\<open>(*_index)[key].as_string()\<close>, the mutable access that adds an empty value for a missing key.\<close>

definition index_id :: "string \<Rightarrow> (disk_store, string) action" where
  "index_id k =
     bindA (getA (\<lambda>s. dict_ref k (ds_index s))) (\<lambda>(v, ix). thenA (modA (\<lambda>s. s\<lparr>ds_index := ix\<rparr>)) (liftA (as_string v)))"

definition ds_load :: "cxx_lib \<Rightarrow> fs_lib \<Rightarrow> (string \<Rightarrow> bool) \<Rightarrow> string \<Rightarrow> (disk_store, unit) action" where
  "ds_load L F exists path =
     thenA (requireA (path \<noteq> []))
     (if \<not> exists path then liftA (Throw RuntimeError)
      else thenA (modA (\<lambda>s. s\<lparr>ds_path := path\<rparr>))
        (bindA (getA (\<lambda>s. load_from_file (read_dict L) (get_index_file F path) (ds_fs s) (ds_index s))) (\<lambda>r.
         bindA (liftA r) (\<lambda>(_, ix). modA (\<lambda>s. s\<lparr>ds_index := ix\<rparr>)))))"

text \<open>The constructor with a path, on the new empty store; copies share everything.\<close>

definition disk_store_open :: "cxx_lib \<Rightarrow> fs_lib \<Rightarrow> (string \<Rightarrow> bool) \<Rightarrow> string \<Rightarrow> (disk_store, unit) action" where
  "disk_store_open L F exists path =
     thenA (requireA (path \<noteq> []))
     (bindA (getA ds_path) (\<lambda>p0. thenA (requireA (p0 = []))
     (thenA (ds_load L F exists path) (bindA (getA ds_path) (\<lambda>p1. requireA (p1 \<noteq> []))))))"

definition ds_loaded :: "disk_store \<Rightarrow> bool" where
  "ds_loaded s \<longleftrightarrow> ds_path s \<noteq> []"

definition get_value :: "cxx_lib \<Rightarrow> fs_lib \<Rightarrow> string \<Rightarrow> (disk_store, mvalue) action" where
  "get_value L F k =
     bindA (index_id k) (\<lambda>i.
     bindA (getA (\<lambda>s. load_from_file (read_value L) (get_value_file F (ds_path s) i) (ds_fs s) VEmpty)) (\<lambda>r.
     bindA (liftA r) (\<lambda>(_, v). retA v)))"

definition ds_get :: "cxx_lib \<Rightarrow> fs_lib \<Rightarrow> string \<Rightarrow> (disk_store, mvalue) action" where
  "ds_get L F k = bindA (getA ds_path) (\<lambda>p. thenA (requireA (p \<noteq> [])) (get_value L F k))"

definition ds_has :: "string \<Rightarrow> disk_store \<Rightarrow> bool" where
  "ds_has k s = dict_has (ds_index s) k"

definition set_intern :: "cxx_lib \<Rightarrow> fs_lib \<Rightarrow> string \<Rightarrow> string \<Rightarrow> mvalue \<Rightarrow> (disk_store, unit) action" where
  "set_intern L F u k v =
     bindA (getA (ds_has k)) (\<lambda>b.
     bindA (if b then index_id k
            else thenA (modA (\<lambda>s. s\<lparr>ds_index := dict_put k (value_of_string u) (ds_index s)\<rparr>)) (retA u)) (\<lambda>i.
     thenA (requireA (i \<noteq> []))
     (bindA (getA ds_path) (\<lambda>p. ds_save F (get_value_file F p i) (encode_value L v)))))"

definition ds_set :: "cxx_lib \<Rightarrow> fs_lib \<Rightarrow> string \<Rightarrow> string \<Rightarrow> mvalue \<Rightarrow> (disk_store, unit) action" where
  "ds_set L F u k v = thenA (set_intern L F u k v) (save_index L F)"

definition remove_intern :: "cxx_lib \<Rightarrow> fs_lib \<Rightarrow> string \<Rightarrow> (disk_store, bool) action" where
  "remove_intern L F k =
     bindA (getA (ds_has k)) (\<lambda>b. if \<not> b then retA False
     else bindA (index_id k) (\<lambda>i.
       bindA (getA ds_path) (\<lambda>p.
       thenA (partA ds_fs (\<lambda>fs s. s\<lparr>ds_fs := fs\<rparr>) (delete_file (get_value_file F p i)))
       (thenA (modA (\<lambda>s. s\<lparr>ds_index := snd (dict_remove k (ds_index s))\<rparr>))
       (thenA (save_index L F) (retA True))))))"

definition ds_remove :: "cxx_lib \<Rightarrow> fs_lib \<Rightarrow> string \<Rightarrow> (disk_store, bool) action" where
  "ds_remove L F k = remove_intern L F k"

definition ds_clear :: "cxx_lib \<Rightarrow> fs_lib \<Rightarrow> (disk_store, unit) action" where
  "ds_clear L F =
     bindA (getA (\<lambda>s. fold insort_insert (keys (ds_index s)) [])) (forA (\<lambda>k. thenA (remove_intern L F k) (retA ())))"

definition ds_size :: "disk_store \<Rightarrow> nat" where
  "ds_size s = length (ds_index s)"

text \<open>A new name is drawn for every entry; it is used when the key is new.\<close>

definition import_from :: "cxx_lib \<Rightarrow> fs_lib \<Rightarrow> string list \<Rightarrow> dict \<Rightarrow> (disk_store, unit) action" where
  "import_from L F us d = thenA (forA (\<lambda>(u, k, v). set_intern L F u k v) (zip us d)) (save_index L F)"

primrec export_keys :: "cxx_lib \<Rightarrow> fs_lib \<Rightarrow> string list \<Rightarrow> dict \<Rightarrow> (disk_store, dict) action" where
  "export_keys L F [] d = retA d"
| "export_keys L F (k # ks) d = bindA (get_value L F k) (\<lambda>v. export_keys L F ks (dict_put k v d))"

definition export_to :: "cxx_lib \<Rightarrow> fs_lib \<Rightarrow> dict \<Rightarrow> (disk_store, dict) action" where
  "export_to L F d = bindA (getA (\<lambda>s. keys (ds_index s))) (\<lambda>ks. export_keys L F ks d)"

text \<open>
  Assignment: stores that share the mutex are the same; otherwise \<^verbatim>\<open>CHECK(_index != _index)\<close> compares the member with itself.
\<close>

definition ds_assign :: "bool \<Rightarrow> disk_store \<Rightarrow> disk_store \<Rightarrow> disk_store outcome" where
  "ds_assign same_mutex s o1 =
     (if same_mutex then Ok s else contract (ds_index s \<noteq> ds_index s) (Ok (s\<lparr>ds_path := ds_path o1, ds_index := ds_index o1\<rparr>)))"

section \<open>A store is a map from keys to values\<close>

definition ds_view :: "cxx_lib \<Rightarrow> fs_lib \<Rightarrow> disk_store \<Rightarrow> string \<rightharpoonup> mvalue" where
  "ds_view L F s k =
     (case map_of (ds_index s) k of
        Some (VBytes i) \<Rightarrow> (case ds_fs s (get_value_file F (ds_path s) i) of
          Some b \<Rightarrow> (case read_value L (stream_of b) of Ok (v, _) \<Rightarrow> Some v | _ \<Rightarrow> None)
        | None \<Rightarrow> None)
      | _ \<Rightarrow> None)"

text \<open>
  A name for a file in a directory, without a slash and none of the two names that lead elsewhere: what \<^verbatim>\<open>uuid()\<close> draws.  A store is in order when it has
  distinct good keys, each with such a name of its own, different from the index file, the files hold encoded values, and the index on disk is the index in memory.
\<close>

definition plain_name :: "string \<Rightarrow> bool" where
  "plain_name x \<longleftrightarrow> x \<noteq> [] \<and> CHR ''/'' \<notin> set x \<and> x \<noteq> ''.'' \<and> x \<noteq> ''..''"

lemma plain_not_empty [simp]: "plain_name x \<Longrightarrow> x \<noteq> []"
  by (simp add: plain_name_def)

lemma plain_INDEX [simp]: "plain_name INDEX"
  by (simp add: plain_name_def INDEX_def)

definition ds_ok :: "cxx_lib \<Rightarrow> fs_lib \<Rightarrow> disk_store \<Rightarrow> bool" where
  "ds_ok L F s \<longleftrightarrow> ds_path s \<noteq> [] \<and> wf_value L (VDict (ds_index s)) \<and> distinct (map snd (ds_index s)) \<and>
     (\<forall>k x. map_of (ds_index s) k = Some x \<longrightarrow>
        (\<exists>i v. x = VBytes i \<and> plain_name i \<and> i \<noteq> INDEX \<and> wf_value L v \<and> ds_fs s (get_value_file F (ds_path s) i) = Some (encode_value L v))) \<and>
     (case ds_fs s (get_index_file F (ds_path s)) of None \<Rightarrow> ds_index s = [] | Some b \<Rightarrow> b = encode_dict L (ds_index s))"

text \<open>What is relied on of the file system: different plain names in a directory are different files, and no write fails.\<close>

locale disk_env = lexical_cast L for L +
  fixes F :: fs_lib
  assumes join_inj: "plain_name a \<Longrightarrow> plain_name b \<Longrightarrow> fl_join F p a = fl_join F p b \<Longrightarrow> a = b"
    and join_some: "p \<noteq> [] \<Longrightarrow> fl_join F p a \<noteq> []"
    and writable: "fl_writable F f"
begin

lemma view_eq:
  assumes "ds_ok L F s" "map_of (ds_index s) k = Some x"
  obtains i v where "x = VBytes i" "plain_name i" "i \<noteq> INDEX" "wf_value L v" "ds_fs s (get_value_file F (ds_path s) i) = Some (encode_value L v)" "ds_view L F s k = Some v"
proof -
  obtain i v where *: "x = VBytes i" "plain_name i" "i \<noteq> INDEX" "wf_value L v" "ds_fs s (get_value_file F (ds_path s) i) = Some (encode_value L v)"
    using assms unfolding ds_ok_def by blast
  then have "ds_view L F s k = Some v" using assms(2) read_value_whole [of v] by (simp add: ds_view_def)
  with * that show thesis by blast
qed

lemma view_None: "ds_ok L F s \<Longrightarrow> ds_view L F s k = None \<longleftrightarrow> map_of (ds_index s) k = None"
  by (cases "map_of (ds_index s) k") (auto simp: ds_view_def elim: view_eq)

lemma index_id_eq:
  assumes "map_of (ds_index s) k = Some (VBytes i)"
  shows "index_id k s = (Ok i, s)"
  using assms by (simp add: index_id_def dict_ref_def liftA_def to_str_def)

lemma get_law:
  assumes ok: "ds_ok L F s" and k: "ds_view L F s k = Some v"
  shows "ds_get L F k s = (Ok v, s)"
proof -
  obtain x where x: "map_of (ds_index s) k = Some x" using view_None [OF ok, of k] k by (cases "map_of (ds_index s) k") auto
  obtain i w where *: "x = VBytes i" "wf_value L w" "ds_fs s (get_value_file F (ds_path s) i) = Some (encode_value L w)" "ds_view L F s k = Some w"
    using view_eq [OF ok x] by metis
  have p: "ds_path s \<noteq> []" using ok by (simp add: ds_ok_def)
  have "index_id k s = (Ok i, s)" using index_id_eq x *(1) by simp
  then show ?thesis using p * k read_value_whole [OF *(2)] by (simp add: ds_get_def get_value_def bindA_Ok load_from_file_def retA_def)
qed

end

definition fresh_name :: "cxx_lib \<Rightarrow> string \<Rightarrow> disk_store \<Rightarrow> bool" where
  "fresh_name L u s \<longleftrightarrow> plain_name u \<and> u \<noteq> INDEX \<and> length u \<le> max_alloc L \<and> VBytes u \<notin> snd ` set (ds_index s)"

context disk_env
begin

lemma file_neq: "plain_name i \<Longrightarrow> plain_name j \<Longrightarrow> i \<noteq> j \<Longrightarrow> get_value_file F p i \<noteq> get_value_file F p j" "plain_name i \<Longrightarrow> i \<noteq> INDEX \<Longrightarrow> get_value_file F p i \<noteq> get_index_file F p"
  using join_inj plain_INDEX by (auto simp: get_value_file_def get_index_file_def)

text \<open>The store after a value was written under the file name that the index has for its key.\<close>

lemma written_ok:
  assumes p: "ds_path s \<noteq> []" and wf: "wf_value L (VDict ix)" "distinct (map snd ix)" and k: "map_of ix k = Some (VBytes i)" "plain_name i" "i \<noteq> INDEX" "wf_value L v"
    and rest: "\<And>j x. map_of ix j = Some x \<Longrightarrow> j \<noteq> k \<Longrightarrow> \<exists>i w. x = VBytes i \<and> plain_name i \<and> i \<noteq> INDEX \<and> wf_value L w \<and> ds_fs s (get_value_file F (ds_path s) i) = Some (encode_value L w) \<and> ds_view L F s j = Some w"
    and none: "\<And>j. map_of ix j = None \<Longrightarrow> ds_view L F s j = None"
  shows "ds_ok L F (s\<lparr>ds_index := ix, ds_fs := (ds_fs s)(get_value_file F (ds_path s) i \<mapsto> encode_value L v, get_index_file F (ds_path s) \<mapsto> encode_dict L ix)\<rparr>) \<and>
    ds_view L F (s\<lparr>ds_index := ix, ds_fs := (ds_fs s)(get_value_file F (ds_path s) i \<mapsto> encode_value L v, get_index_file F (ds_path s) \<mapsto> encode_dict L ix)\<rparr>) = (ds_view L F s)(k \<mapsto> v)"
proof -
  define s' where "s' = s\<lparr>ds_index := ix, ds_fs := (ds_fs s)(get_value_file F (ds_path s) i \<mapsto> encode_value L v, get_index_file F (ds_path s) \<mapsto> encode_dict L ix)\<rparr>"
  have d: "distinct (keys ix)" using wf(1) by simp
  have other: "x \<noteq> VBytes i" if "map_of ix j = Some x" "j \<noteq> k" for j x
  proof
    assume "x = VBytes i"
    then have "(j, VBytes i) \<in> set ix" "(k, VBytes i) \<in> set ix" using that k(1) map_of_SomeD by fastforce+
    then show False using wf(2) that(2) by (metis eq_key_imp_eq_value distinct_map inj_onD prod.inject snd_conv)
  qed
  have fk: "ds_fs s' (get_value_file F (ds_path s) i) = Some (encode_value L v)" using file_neq(2) [OF k(2, 3)] by (simp add: s'_def)
  have fj: "\<exists>i w. x = VBytes i \<and> plain_name i \<and> i \<noteq> INDEX \<and> wf_value L w \<and> ds_fs s' (get_value_file F (ds_path s) i) = Some (encode_value L w) \<and> ds_view L F s j = Some w"
    if j: "map_of ix j = Some x" "j \<noteq> k" for j x
  proof -
    obtain i' w where w: "x = VBytes i'" "plain_name i'" "i' \<noteq> INDEX" "wf_value L w" "ds_fs s (get_value_file F (ds_path s) i') = Some (encode_value L w)" "ds_view L F s j = Some w"
      using rest [OF j] by blast
    then show ?thesis using other [OF j] file_neq k(2) by (auto simp: s'_def)
  qed
  have all: "\<exists>i w. x = VBytes i \<and> plain_name i \<and> i \<noteq> INDEX \<and> wf_value L w \<and> ds_fs s' (get_value_file F (ds_path s) i) = Some (encode_value L w)"
    if "map_of ix j = Some x" for j x using fj [OF that] fk k that by (cases "j = k") auto
  have ok: "ds_ok L F s'" using p wf all unfolding ds_ok_def by (simp add: s'_def)
  have "ds_view L F s' j = ((ds_view L F s)(k \<mapsto> v)) j" for j
  proof (cases "j = k")
    case True
    then show ?thesis using k(1) fk read_value_whole [OF k(4)] by (simp add: ds_view_def s'_def)
  next
    case False
    show ?thesis
    proof (cases "map_of ix j")
      case None
      then show ?thesis using none [OF None] False by (simp add: ds_view_def s'_def)
    next
      case (Some x)
      obtain i' w where w: "x = VBytes i'" "wf_value L w" "ds_fs s' (get_value_file F (ds_path s) i') = Some (encode_value L w)" "ds_view L F s j = Some w"
        using fj [OF Some False] by blast
      have "ds_index s' = ix" "ds_path s' = ds_path s" by (simp_all add: s'_def)
      then have "ds_view L F s' j = Some w" using w Some read_value_whole [OF w(2)] unfolding ds_view_def by simp
      then show ?thesis using w False by simp
    qed
  qed
  then show ?thesis using ok unfolding s'_def [symmetric] by auto
qed

lemma set_law:
  assumes ok: "ds_ok L F s" and v: "wf_value L v" and k: "k \<noteq> []" "length k \<le> max_alloc L" and u: "fresh_name L u s"
  shows "\<exists>s'. ds_set L F u k v s = (Ok (), s') \<and> ds_ok L F s' \<and> ds_view L F s' = (ds_view L F s)(k \<mapsto> v) \<and> ds_path s' = ds_path s \<and>
    snd ` set (ds_index s') \<subseteq> insert (VBytes u) (snd ` set (ds_index s))"
proof -
  have p: "ds_path s \<noteq> []" and wf: "wf_value L (VDict (ds_index s))" "distinct (map snd (ds_index s))" using ok by (auto simp: ds_ok_def)
  have rest: "\<exists>i w. x = VBytes i \<and> plain_name i \<and> i \<noteq> INDEX \<and> wf_value L w \<and> ds_fs s (get_value_file F (ds_path s) i) = Some (encode_value L w) \<and> ds_view L F s j = Some w"
    if "map_of (ds_index s) j = Some x" for j x using view_eq [OF ok that] by metis
  have none: "map_of (ds_index s) j = None \<Longrightarrow> ds_view L F s j = None" for j using view_None [OF ok] by simp
  show ?thesis
  proof (cases "map_of (ds_index s) k")
    case (Some x)
    obtain i w where i: "x = VBytes i" "plain_name i" "i \<noteq> INDEX" using view_eq [OF ok Some] by metis
    have "index_id k s = (Ok i, s)" using index_id_eq Some i(1) by simp
    then have "ds_set L F u k v s = (Ok (), s\<lparr>ds_index := ds_index s, ds_fs := (ds_fs s)(get_value_file F (ds_path s) i \<mapsto> encode_value L v, get_index_file F (ds_path s) \<mapsto> encode_dict L (ds_index s))\<rparr>)"
      using i p Some by (simp add: ds_set_def set_intern_def ds_has_def dict_has_def alist_has_def bindA_Ok save_index_def ds_save_def partA_def save_to_file_def writable del: alist_has_iff)
    then show ?thesis using written_ok [OF p wf Some [unfolded i(1)] i(2, 3) v rest none] by auto
  next
    case None
    let ?ix = "dict_put k (VBytes u) (ds_index s)"
    have put: "?ix = ds_index s @ [(k, VBytes u)]" using None by (simp add: dict_put_def alist_put_new map_of_eq_None_iff)
    have wf1: "wf_value L (VDict ?ix)" "distinct (map snd ?ix)" using wf k u None unfolding put fresh_name_def by (auto simp: map_of_eq_None_iff)
    have look: "map_of ?ix j = (if j = k then Some (VBytes u) else map_of (ds_index s) j)" for j by (simp add: dict_put_def)
    have "ds_set L F u k v s = (Ok (), s\<lparr>ds_index := ?ix, ds_fs := (ds_fs s)(get_value_file F (ds_path s) u \<mapsto> encode_value L v, get_index_file F (ds_path s) \<mapsto> encode_dict L ?ix)\<rparr>)"
      using u p None by (simp add: fresh_name_def ds_set_def set_intern_def ds_has_def dict_has_def alist_has_def save_index_def ds_save_def partA_def bindA_def save_to_file_def writable value_of_string_def to_bytes_def
          modA_def getA_def retA_def thenA_def requireA_def liftA_def del: alist_has_iff)
    moreover have "ds_ok L F (s\<lparr>ds_index := ?ix, ds_fs := (ds_fs s)(get_value_file F (ds_path s) u \<mapsto> encode_value L v, get_index_file F (ds_path s) \<mapsto> encode_dict L ?ix)\<rparr>) \<and>
      ds_view L F (s\<lparr>ds_index := ?ix, ds_fs := (ds_fs s)(get_value_file F (ds_path s) u \<mapsto> encode_value L v, get_index_file F (ds_path s) \<mapsto> encode_dict L ?ix)\<rparr>) = (ds_view L F s)(k \<mapsto> v)"
      using u rest none look by (intro written_ok [OF p wf1 _ _ _ v]) (auto simp: fresh_name_def split: if_splits)
    ultimately show ?thesis by (auto simp: put)
  qed
qed

end

context disk_env
begin

lemma remove_law:
  assumes ok: "ds_ok L F s"
  shows "\<exists>s'. ds_remove L F k s = (Ok (ds_view L F s k \<noteq> None), s') \<and> ds_ok L F s' \<and> ds_view L F s' = (ds_view L F s)(k := None) \<and> ds_path s' = ds_path s \<and>
    snd ` set (ds_index s') \<subseteq> snd ` set (ds_index s)"
proof (cases "map_of (ds_index s) k")
  case None
  then have "ds_view L F s k = None" using view_None [OF ok] by simp
  then show ?thesis using ok None by (auto simp: ds_remove_def remove_intern_def ds_has_def dict_has_def alist_has_def retA_def fun_upd_idem simp del: alist_has_iff)
next
  case (Some x)
  have p: "ds_path s \<noteq> []" and wf: "wf_value L (VDict (ds_index s))" "distinct (map snd (ds_index s))" using ok by (auto simp: ds_ok_def)
  obtain i w where i: "x = VBytes i" "plain_name i" "i \<noteq> INDEX" "ds_view L F s k = Some w" using view_eq [OF ok Some] by metis
  let ?ix = "alist_del k (ds_index s)"
  define s' where "s' = s\<lparr>ds_index := ?ix, ds_fs := ((ds_fs s)(get_value_file F (ds_path s) i := None))(get_index_file F (ds_path s) \<mapsto> encode_dict L ?ix)\<rparr>"
  have d: "distinct (keys (ds_index s))" using wf(1) by simp
  have wf1: "wf_value L (VDict ?ix)" "distinct (map snd ?ix)" using wf
    by (auto simp: alist_del_def list_all_iff distinct_map_filter intro: distinct_keys_alist_del [unfolded alist_del_def])
  have "index_id k s = (Ok i, s)" using index_id_eq Some i(1) by simp
  moreover have "get_value_file F (ds_path s) i \<noteq> []" using join_some [OF p] by (simp add: get_value_file_def)
  ultimately have run: "ds_remove L F k s = (Ok True, s')"
    using p Some by (simp add: ds_remove_def remove_intern_def ds_has_def dict_has_def alist_has_def bindA_Ok delete_file_def partA_def dict_remove_def bindA_def [of "partA _ _ _"]
        save_index_def ds_save_def save_to_file_def writable retA_def s'_def del: alist_has_iff)
  have other: "x' \<noteq> VBytes i" if "map_of (ds_index s) j = Some x'" "j \<noteq> k" for j x'
    using that Some i(1) wf(2) map_of_SomeD by (metis distinct_map inj_onD prod.inject snd_conv)
  have keep: "\<exists>i' v. x' = VBytes i' \<and> plain_name i' \<and> i' \<noteq> INDEX \<and> wf_value L v \<and> ds_fs s' (get_value_file F (ds_path s) i') = Some (encode_value L v) \<and> ds_view L F s j = Some v"
    if j: "map_of ?ix j = Some x'" for j x'
  proof -
    have j': "j \<noteq> k" "map_of (ds_index s) j = Some x'" using j by (auto split: if_splits)
    obtain i' v where v: "x' = VBytes i'" "plain_name i'" "i' \<noteq> INDEX" "wf_value L v" "ds_fs s (get_value_file F (ds_path s) i') = Some (encode_value L v)" "ds_view L F s j = Some v"
      using view_eq [OF ok j'(2)] by metis
    then show ?thesis using other [OF j'(2, 1)] file_neq i(2) by (auto simp: s'_def)
  qed
  have all: "\<exists>i' v. x' = VBytes i' \<and> plain_name i' \<and> i' \<noteq> INDEX \<and> wf_value L v \<and> ds_fs s' (get_value_file F (ds_path s) i') = Some (encode_value L v)"
    if "map_of ?ix j = Some x'" for j x' using keep [OF that] by blast
  have ok': "ds_ok L F s'" using p wf1 all unfolding ds_ok_def by (simp add: s'_def)
  have "ds_view L F s' j = ((ds_view L F s)(k := None)) j" for j
  proof (cases "map_of ?ix j")
    case None
    then have "ds_view L F s' j = None" by (simp add: ds_view_def s'_def)
    moreover have "j \<noteq> k \<Longrightarrow> ds_view L F s j = None" using None view_None [OF ok, of j] by (simp split: if_splits)
    ultimately show ?thesis by simp
  next
    case (Some x')
    obtain i' v where v: "x' = VBytes i'" "wf_value L v" "ds_fs s' (get_value_file F (ds_path s) i') = Some (encode_value L v)" "ds_view L F s j = Some v"
      using keep [OF Some] by blast
    have "ds_index s' = ?ix" "ds_path s' = ds_path s" "j \<noteq> k" using Some by (auto simp: s'_def split: if_splits)
    then show ?thesis using v Some read_value_whole [OF v(2)] unfolding ds_view_def by simp
  qed
  then show ?thesis using run ok' i(4) by (auto simp: s'_def alist_del_def)
qed

lemma reload_law:
  assumes ok: "ds_ok L F s" and "exists (ds_path s)"
  shows "ds_load L F exists (ds_path s) (disk_store_new (ds_fs s)) = (Ok (), s)"
proof -
  have p: "ds_path s \<noteq> []" and wf: "wf_value L (VDict (ds_index s))" using ok by (auto simp: ds_ok_def)
  have "case ds_fs s (get_index_file F (ds_path s)) of None \<Rightarrow> ds_index s = [] | Some b \<Rightarrow> b = encode_dict L (ds_index s)" using ok by (simp add: ds_ok_def)
  then have "load_from_file (read_dict L) (get_index_file F (ds_path s)) (ds_fs s) [] = Ok (ds_fs s (get_index_file F (ds_path s)) \<noteq> None, ds_index s)"
    using read_dict_whole [OF wf] by (auto simp: load_from_file_def split: option.splits)
  then show ?thesis using p assms(2) by (simp add: ds_load_def disk_store_new_def modA_def)
qed

end

text \<open>The interface the applications use, and what follows for every sequence of calls.\<close>

datatype ds_op = Put string string mvalue | Del string

fun spec_ops :: "ds_op list \<Rightarrow> (string \<rightharpoonup> mvalue) \<Rightarrow> (string \<rightharpoonup> mvalue)" where
  "spec_ops [] m = m"
| "spec_ops (Put u k v # es) m = spec_ops es (m(k \<mapsto> v))"
| "spec_ops (Del k # es) m = spec_ops es (m(k := None))"

fun names :: "ds_op list \<Rightarrow> string list" where
  "names [] = []"
| "names (Put u k v # es) = u # names es"
| "names (Del k # es) = names es"

locale keyed_store =
  fixes put :: "string \<Rightarrow> string \<Rightarrow> mvalue \<Rightarrow> ('s, unit) action" and del :: "string \<Rightarrow> ('s, bool) action" and get :: "string \<Rightarrow> ('s, mvalue) action"
    and inv :: "'s \<Rightarrow> bool" and view :: "'s \<Rightarrow> string \<rightharpoonup> mvalue" and good :: "string \<Rightarrow> mvalue \<Rightarrow> bool" and used :: "'s \<Rightarrow> string set" and name_ok :: "string \<Rightarrow> bool"
  assumes put_spec: "inv s \<Longrightarrow> good k v \<Longrightarrow> name_ok u \<Longrightarrow> u \<notin> used s \<Longrightarrow>
      \<exists>s'. put u k v s = (Ok (), s') \<and> inv s' \<and> view s' = (view s)(k \<mapsto> v) \<and> used s' \<subseteq> insert u (used s)"
    and del_spec: "inv s \<Longrightarrow> \<exists>s'. del k s = (Ok (view s k \<noteq> None), s') \<and> inv s' \<and> view s' = (view s)(k := None) \<and> used s' \<subseteq> used s"
    and get_spec: "inv s \<Longrightarrow> view s k = Some v \<Longrightarrow> get k s = (Ok v, s)"
begin

fun run :: "ds_op list \<Rightarrow> ('s, unit) action" where
  "run [] = retA ()"
| "run (Put u k v # es) = thenA (put u k v) (run es)"
| "run (Del k # es) = thenA (thenA (del k) (retA ())) (run es)"

fun goods :: "ds_op list \<Rightarrow> bool" where
  "goods [] = True"
| "goods (Put u k v # es) = (good k v \<and> name_ok u \<and> goods es)"
| "goods (Del k # es) = goods es"

lemma run_refines:
  "inv s \<Longrightarrow> goods es \<Longrightarrow> distinct (names es) \<Longrightarrow> set (names es) \<inter> used s = {} \<Longrightarrow> \<exists>s'. run es s = (Ok (), s') \<and> inv s' \<and> view s' = spec_ops es (view s)"
proof (induction es arbitrary: s rule: run.induct)
  case (2 u k v es)
  then obtain s1 where s1: "put u k v s = (Ok (), s1)" "inv s1" "view s1 = (view s)(k \<mapsto> v)" "used s1 \<subseteq> insert u (used s)"
    using put_spec [of s k v u] by auto
  have "set (names es) \<inter> used s1 = {}" using 2(4, 5) s1(4) by auto
  then have "\<exists>s'. run es s1 = (Ok (), s') \<and> inv s' \<and> view s' = spec_ops es (view s1)" using 2 s1(2) by simp
  then show ?case using s1 by (simp add: bindA_Ok)
next
  case (3 k es)
  obtain s1 where s1: "del k s = (Ok (view s k \<noteq> None), s1)" "inv s1" "view s1 = (view s)(k := None)" "used s1 \<subseteq> used s"
    using del_spec [OF 3(2)] by blast
  have "set (names es) \<inter> used s1 = {}" using 3(5) s1(4) by auto
  then have "\<exists>s'. run es s1 = (Ok (), s') \<and> inv s' \<and> view s' = spec_ops es (view s1)" using 3 s1(2) by simp
  then show ?case using s1 by (simp add: bindA_Ok)
qed (simp add: retA_def)

end

definition good_entry :: "cxx_lib \<Rightarrow> string \<Rightarrow> mvalue \<Rightarrow> bool" where
  "good_entry L k v \<longleftrightarrow> k \<noteq> [] \<and> length k \<le> max_alloc L \<and> wf_value L v"

definition used_names :: "disk_store \<Rightarrow> string set" where
  "used_names s = {u. VBytes u \<in> snd ` set (ds_index s)}"

definition good_name :: "cxx_lib \<Rightarrow> string \<Rightarrow> bool" where
  "good_name L u \<longleftrightarrow> plain_name u \<and> u \<noteq> INDEX \<and> length u \<le> max_alloc L"

sublocale disk_env \<subseteq> disk: keyed_store "ds_set L F" "ds_remove L F" "ds_get L F" "ds_ok L F" "ds_view L F" "good_entry L" used_names "good_name L"
proof unfold_locales
  fix s k v u
  assume "ds_ok L F s" "good_entry L k v" "good_name L u" "u \<notin> used_names s"
  then obtain s' where "ds_set L F u k v s = (Ok (), s')" "ds_ok L F s'" "ds_view L F s' = (ds_view L F s)(k \<mapsto> v)"
    "snd ` set (ds_index s') \<subseteq> insert (VBytes u) (snd ` set (ds_index s))"
    using set_law [of s v k u] by (auto simp: good_entry_def good_name_def used_names_def fresh_name_def)
  then show "\<exists>s'. ds_set L F u k v s = (Ok (), s') \<and> ds_ok L F s' \<and> ds_view L F s' = (ds_view L F s)(k \<mapsto> v) \<and> used_names s' \<subseteq> insert u (used_names s)"
    unfolding used_names_def by blast
next
  fix s k
  assume "ds_ok L F s"
  from remove_law [OF this, of k] show "\<exists>s'. ds_remove L F k s = (Ok (ds_view L F s k \<noteq> None), s') \<and> ds_ok L F s' \<and> ds_view L F s' = (ds_view L F s)(k := None) \<and> used_names s' \<subseteq> used_names s"
    unfolding used_names_def by blast
qed (rule get_law)

lemma sample_fs_env: "disk_env decimal_lib sample_fs"
  by unfold_locales (auto simp: sample_fs_def)

interpretation sample_disk: disk_env decimal_lib sample_fs
  by (rule sample_fs_env)

primrec ds_step :: "cxx_lib \<Rightarrow> fs_lib \<Rightarrow> ds_op \<Rightarrow> (disk_store, unit) action" where
  "ds_step L F (Put u k v) = ds_set L F u k v"
| "ds_step L F (Del k) = thenA (ds_remove L F k) (retA ())"

primrec op_ok :: "cxx_lib \<Rightarrow> ds_op \<Rightarrow> bool" where
  "op_ok L (Put u k v) \<longleftrightarrow> good_entry L k v \<and> good_name L u"
| "op_ok L (Del k) \<longleftrightarrow> True"

context disk_env
begin

lemma run_eq: "forA (ds_step L F) es = disk.run es" "disk.goods es = list_all (op_ok L) es"
  by (induction es rule: disk.run.induct) simp_all

lemma has_view: "ds_ok L F s \<Longrightarrow> ds_has k s \<longleftrightarrow> ds_view L F s k \<noteq> None"
  using view_None [of s k] by (simp add: ds_has_def dict_has_def alist_has_def del: alist_has_iff)

lemma run_store:
  assumes "ds_ok L F s" "list_all (op_ok L) es" "distinct (names es)" "set (names es) \<inter> used_names s = {}"
  shows "\<exists>s1. forA (ds_step L F) es s = (Ok (), s1) \<and> ds_ok L F s1 \<and> ds_view L F s1 = spec_ops es (ds_view L F s)"
  using disk.run_refines [OF assms(1) _ assms(3, 4)] assms(2) by (simp add: run_eq)

end

text \<open>
  C11. The store refines a map from keys to values: any sequence of insertions under nonempty keys and of removals succeeds, when new names are drawn for the files, and then
  every key that is present reads back its last value, exactly the keys of the map are present, and a new store loaded from the same directory is the
  same store.
\<close>

theorem disk_store_refines:
  assumes "disk_env L F" "ds_ok L F s" "list_all (op_ok L) es" "distinct (names es)" "set (names es) \<inter> used_names s = {}"
  shows "\<exists>s1. forA (ds_step L F) es s = (Ok (), s1) \<and> ds_view L F s1 = spec_ops es (ds_view L F s) \<and>
    (\<forall>k v. spec_ops es (ds_view L F s) k = Some v \<longrightarrow> ds_get L F k s1 = (Ok v, s1)) \<and> (\<forall>k. ds_has k s1 \<longleftrightarrow> spec_ops es (ds_view L F s) k \<noteq> None) \<and>
    ds_load L F (\<lambda>_. True) (ds_path s1) (disk_store_new (ds_fs s1)) = (Ok (), s1)"
proof -
  obtain s1 where s1: "forA (ds_step L F) es s = (Ok (), s1)" "ds_ok L F s1" "ds_view L F s1 = spec_ops es (ds_view L F s)"
    using disk_env.run_store [OF assms] by blast
  then show ?thesis
    using disk_env.get_law [OF assms(1) s1(2)] disk_env.has_view [OF assms(1) s1(2)] disk_env.reload_law [OF assms(1) s1(2), of "\<lambda>_. True"] by auto
qed

definition sample_store :: disk_store where
  "sample_store = \<lparr>ds_path = ''d'', ds_index = [], ds_fs = Map.empty\<rparr>"

theorem disk_store_refines_witness:
  "\<exists>s1. forA (ds_step decimal_lib sample_fs) [Put ''u'' ''k'' VEmpty, Put ''w'' ''l'' (VBytes ''x''), Put ''z'' ''k'' (VBytes ''y''), Del ''l''] sample_store = (Ok (), s1) \<and>
     ds_get decimal_lib sample_fs ''k'' s1 = (Ok (VBytes ''y''), s1) \<and> \<not> ds_has ''l'' s1 \<and>
     ds_load decimal_lib sample_fs (\<lambda>_. True) (ds_path s1) (disk_store_new (ds_fs s1)) = (Ok (), s1)"
proof -
  let ?es = "[Put ''u'' ''k'' VEmpty, Put ''w'' ''l'' (VBytes ''x''), Put ''z'' ''k'' (VBytes ''y''), Del ''l'']"
  have ok: "ds_ok decimal_lib sample_fs sample_store" by (simp add: ds_ok_def sample_store_def)
  have good: "list_all (op_ok decimal_lib) ?es" by (simp add: good_entry_def good_name_def plain_name_def INDEX_def decimal_lib_def)
  have fresh: "distinct (names ?es)" "set (names ?es) \<inter> used_names sample_store = {}" by (simp_all add: used_names_def sample_store_def)
  from disk_store_refines [OF sample_fs_env ok good fresh] show ?thesis by auto
qed

text \<open>
  Reading a key that is not in the store poisons it: the mutable access to the index adds an empty entry, the call throws, and from then on the store says
  it has the key, while reading, writing and removing it all throw and leave the store as it is.
\<close>

theorem failed_get_poisons_key:
  assumes "ds_path s \<noteq> []" "map_of (ds_index s) k = None"
  shows "\<exists>s1. ds_get L F k s = (Throw RuntimeError, s1) \<and> ds_has k s1 \<and> ds_get L F k s1 = (Throw RuntimeError, s1) \<and>
    ds_set L F u k v s1 = (Throw RuntimeError, s1) \<and> ds_remove L F k s1 = (Throw RuntimeError, s1)"
proof -
  define s1 where "s1 = s\<lparr>ds_index := dict_put k VEmpty (ds_index s)\<rparr>"
  have i0: "index_id k s = (Throw RuntimeError, s1)" using assms(2) by (simp add: index_id_def dict_ref_def s1_def liftA_def)
  have m: "map_of (ds_index s1) k = Some VEmpty" by (simp add: s1_def dict_put_def)
  then have i1: "index_id k s1 = (Throw RuntimeError, s1)" by (simp add: index_id_def dict_ref_def liftA_def)
  have has: "ds_has k s1" using m by (simp add: ds_has_def dict_has_def alist_has_def del: alist_has_iff)
  have p: "ds_path s1 \<noteq> []" using assms(1) by (simp add: s1_def)
  have "ds_get L F k s = (Throw RuntimeError, s1)" using i0 assms(1) by (simp add: ds_get_def get_value_def bindA_def [of "index_id k"])
  moreover have "ds_get L F k s1 = (Throw RuntimeError, s1)" using i1 p by (simp add: ds_get_def get_value_def bindA_def [of "index_id k"])
  moreover have "ds_set L F u k v s1 = (Throw RuntimeError, s1)"
    using i1 has by (simp add: ds_set_def set_intern_def bindA_def [of "index_id k"])
  moreover have "ds_remove L F k s1 = (Throw RuntimeError, s1)" using i1 has by (simp add: ds_remove_def remove_intern_def bindA_def [of "index_id k"])
  ultimately show ?thesis using has by blast
qed

theorem failed_get_poisons_key_witness:
  "\<exists>s1. ds_get decimal_lib sample_fs ''k'' sample_store = (Throw RuntimeError, s1) \<and> ds_has ''k'' s1 \<and> ds_get decimal_lib sample_fs ''k'' s1 = (Throw RuntimeError, s1) \<and>
    ds_set decimal_lib sample_fs ''u'' ''k'' VEmpty s1 = (Throw RuntimeError, s1) \<and> ds_remove decimal_lib sample_fs ''k'' s1 = (Throw RuntimeError, s1)"
  by (rule failed_get_poisons_key) (simp_all add: sample_store_def)

lemma assign_exits: "ds_assign False s o1 = Exit"
  by (simp add: ds_assign_def contract_def)

section \<open>Export and import of a whole store\<close>

text \<open>The store with its index written: what a call that only writes the index at its end leaves.\<close>

definition index_saved :: "cxx_lib \<Rightarrow> fs_lib \<Rightarrow> disk_store \<Rightarrow> disk_store" where
  "index_saved L F s = s\<lparr>ds_fs := (ds_fs s)(get_index_file F (ds_path s) \<mapsto> encode_dict L (ds_index s))\<rparr>"

context disk_env
begin

lemma save_index_saved: "ds_path s \<noteq> [] \<Longrightarrow> save_index L F s = (Ok (), index_saved L F s)"
  by (simp add: save_index_def ds_save_def partA_def save_to_file_def writable index_saved_def)

lemma index_saved_ok:
  assumes "ds_ok L F s"
  shows "ds_ok L F (index_saved L F s) \<and> ds_view L F (index_saved L F s) = ds_view L F s"
proof -
  have f: "ds_fs (index_saved L F s) (get_value_file F (ds_path s) i) = ds_fs s (get_value_file F (ds_path s) i)" if "map_of (ds_index s) k = Some (VBytes i)" for k i
    using view_eq [OF assms that] file_neq(2) [of i] by (auto simp: index_saved_def)
  have g: "ds_path (index_saved L F s) = ds_path s" "ds_index (index_saved L F s) = ds_index s" by (simp_all add: index_saved_def)
  have "ds_view L F (index_saved L F s) k = ds_view L F s k" for k
    using f [of k] unfolding ds_view_def g by (auto split: option.splits mvalue.splits)
  moreover have "\<exists>i v. x = VBytes i \<and> plain_name i \<and> i \<noteq> INDEX \<and> wf_value L v \<and> ds_fs (index_saved L F s) (get_value_file F (ds_path s) i) = Some (encode_value L v)"
    if x: "map_of (ds_index s) k = Some x" for k x
  proof -
    obtain i v where "x = VBytes i" "plain_name i" "i \<noteq> INDEX" "wf_value L v" "ds_fs s (get_value_file F (ds_path s) i) = Some (encode_value L v)"
      using view_eq [OF assms x] by metis
    then show ?thesis using f [of k i] x by auto
  qed
  moreover have "ds_fs (index_saved L F s) (get_index_file F (ds_path s)) = Some (encode_dict L (ds_index s))" by (simp add: index_saved_def)
  moreover have "ds_path s \<noteq> []" "wf_value L (VDict (ds_index s))" "distinct (map snd (ds_index s))" using assms by (simp_all add: ds_ok_def)
  ultimately show ?thesis unfolding ds_ok_def g by auto
qed

lemma set_intern_new:
  assumes "map_of (ds_index s) k = None"
  shows "set_intern L F u k v s =
    (if u = [] then (Exit, s\<lparr>ds_index := dict_put k (value_of_string u) (ds_index s)\<rparr>)
     else (Ok (), s\<lparr>ds_index := dict_put k (value_of_string u) (ds_index s), ds_fs := (ds_fs s)(get_value_file F (ds_path s) u \<mapsto> encode_value L v)\<rparr>))"
  using assms
  by (simp add: set_intern_def ds_has_def dict_has_def alist_has_def ds_save_def partA_def save_to_file_def writable bindA_def retA_def modA_def getA_def thenA_def requireA_def liftA_def
      del: alist_has_iff)

lemma set_intern_known:
  assumes "map_of (ds_index s) k = Some x"
  shows "set_intern L F u k v s =
    (case as_string x of Ok i \<Rightarrow>
       if i = [] then (Exit, s) else (Ok (), s\<lparr>ds_fs := (ds_fs s)(get_value_file F (ds_path s) i \<mapsto> encode_value L v)\<rparr>)
     | Throw e \<Rightarrow> (Throw e, s) | Exit \<Rightarrow> (Exit, s) | Undef \<Rightarrow> (Undef, s) | Diverge \<Rightarrow> (Diverge, s))"
proof -
  have "index_id k s = (as_string x, s)" using assms by (simp add: index_id_def dict_ref_def liftA_def)
  then show ?thesis
    using assms
    by (auto simp: set_intern_def ds_has_def dict_has_def alist_has_def ds_save_def partA_def save_to_file_def writable bindA_def retA_def modA_def getA_def thenA_def requireA_def liftA_def
        simp del: alist_has_iff split: outcome.splits)
qed

lemma set_intern_saved:
  assumes p: "ds_path s \<noteq> []" and set: "ds_set L F u k v (index_saved L F s) = (Ok (), t)"
  shows "\<exists>s'. set_intern L F u k v s = (Ok (), s') \<and> index_saved L F s' = t \<and> ds_path s' = ds_path s"
proof -
  obtain t1 where t1: "set_intern L F u k v (index_saved L F s) = (Ok (), t1)" "save_index L F t1 = (Ok (), t)"
    using set by (auto simp: ds_set_def bindA_def split: prod.splits outcome.splits)
  have g: "ds_path (index_saved L F s) = ds_path s" "ds_index (index_saved L F s) = ds_index s" by (simp_all add: index_saved_def)
  show ?thesis
  proof (cases "map_of (ds_index s) k")
    case None
    then show ?thesis
      using t1 p set_intern_new [of s k u v] set_intern_new [of "index_saved L F s" k u v]
      by (auto simp: g save_index_saved index_saved_def fun_upd_twist split: if_splits)
  next
    case (Some x)
    then show ?thesis
      using t1 p set_intern_known [of s k x u v] set_intern_known [of "index_saved L F s" k x u v]
      by (auto simp: g save_index_saved index_saved_def fun_upd_twist split: if_splits outcome.splits)
  qed
qed

lemma forA_set_saved:
  "ds_path s \<noteq> [] \<Longrightarrow> forA (\<lambda>(u, k, v). ds_set L F u k v) xs (index_saved L F s) = (Ok (), t) \<Longrightarrow>
   \<exists>s'. forA (\<lambda>(u, k, v). set_intern L F u k v) xs s = (Ok (), s') \<and> index_saved L F s' = t \<and> ds_path s' = ds_path s"
proof (induction xs arbitrary: s)
  case (Cons e xs)
  obtain u k v where e: "e = (u, k, v)" by (cases e)
  obtain t1 where t1: "ds_set L F u k v (index_saved L F s) = (Ok (), t1)" "forA (\<lambda>(u, k, v). ds_set L F u k v) xs t1 = (Ok (), t)"
    using Cons.prems(2) by (auto simp: e bindA_def split: prod.splits outcome.splits)
  obtain s1 where s1: "set_intern L F u k v s = (Ok (), s1)" "index_saved L F s1 = t1" "ds_path s1 = ds_path s"
    using set_intern_saved [OF Cons.prems(1) t1(1)] by blast
  then show ?case using Cons.IH [of s1] t1(2) Cons.prems(1) by (simp add: e bindA_Ok)
qed (simp add: retA_def)

end

definition puts :: "string list \<Rightarrow> dict \<Rightarrow> ds_op list" where
  "puts us d = map (\<lambda>(u, k, v). Put u k v) (zip us d)"

lemma puts_facts:
  assumes "length us = length d"
  shows "names (puts us d) = us" "spec_ops (puts us d) m = m ++ map_of (rev d)"
    "list_all (op_ok L) (puts us d) \<longleftrightarrow> list_all (\<lambda>(k, v). good_entry L k v) d \<and> list_all (good_name L) us"
  using assms
  by (induction us d arbitrary: m rule: list_induct2) (auto simp: puts_def)

context disk_env
begin

lemma forA_puts: "forA (\<lambda>(u, k, v). ds_set L F u k v) (zip us d) = forA (ds_step L F) (puts us d)"
  by (induction us d rule: list_induct2') (auto simp: puts_def)

lemma import_law:
  assumes ok: "ds_ok L F s" and d: "wf_value L (VDict d)" and us: "length us = length d" "distinct us" "list_all (good_name L) us" "set us \<inter> used_names s = {}"
  shows "\<exists>s'. import_from L F us d s = (Ok (), s') \<and> ds_ok L F s' \<and> ds_view L F s' = ds_view L F s ++ map_of d"
proof -
  have p: "ds_path s \<noteq> []" using ok by (simp add: ds_ok_def)
  have keys: "distinct (keys d)" and good: "list_all (\<lambda>(k, v). good_entry L k v) d" using d by (auto simp: list_all_iff good_entry_def)
  have used: "used_names (index_saved L F s) = used_names s" by (simp add: used_names_def index_saved_def)
  obtain t where t: "forA (ds_step L F) (puts us d) (index_saved L F s) = (Ok (), t)" "ds_ok L F t" "ds_view L F t = spec_ops (puts us d) (ds_view L F s)"
    using run_store [of "index_saved L F s" "puts us d"] index_saved_ok [OF ok] puts_facts [OF us(1)] us good used by auto
  obtain s' where s': "forA (\<lambda>(u, k, v). set_intern L F u k v) (zip us d) s = (Ok (), s')" "index_saved L F s' = t" "ds_path s' = ds_path s"
    using forA_set_saved [OF p, of "zip us d" t] t(1) by (auto simp: forA_puts)
  have "import_from L F us d s = (Ok (), t)" using s' p save_index_saved [of s'] by (simp add: import_from_def bindA_Ok)
  moreover have "map_of (rev d) = map_of d" using keys by (intro map_of_inject_set [THEN iffD2]) (simp_all add: rev_map [symmetric] distinct_rev)
  ultimately show ?thesis using t puts_facts(2) [OF us(1)] by auto
qed

lemma export_keys_law:
  "ds_ok L F s \<Longrightarrow> \<forall>k \<in> set ks. ds_view L F s k \<noteq> None \<Longrightarrow> distinct (keys d @ ks) \<Longrightarrow>
   export_keys L F ks d s = (Ok (d @ map (\<lambda>k. (k, the (ds_view L F s k))) ks), s)"
proof (induction ks arbitrary: d)
  case (Cons k ks)
  then obtain v where v: "ds_view L F s k = Some v" by auto
  have "ds_path s \<noteq> []" using Cons.prems(1) by (simp add: ds_ok_def)
  then have "get_value L F k s = (Ok v, s)" using get_law [OF Cons.prems(1) v] by (simp add: ds_get_def)
  moreover have "dict_put k v d = d @ [(k, v)]" using Cons.prems(3) by (simp add: dict_put_def alist_put_new)
  ultimately show ?case using Cons v by (simp add: bindA_Ok)
qed (simp add: retA_def)

lemma export_law:
  assumes ok: "ds_ok L F s"
  shows "\<exists>d. export_to L F [] s = (Ok d, s) \<and> map_of d = ds_view L F s \<and> wf_value L (VDict d) \<and> length d = length (ds_index s)"
proof -
  let ?ks = "keys (ds_index s)"
  let ?d = "map (\<lambda>k. (k, the (ds_view L F s k))) ?ks"
  have wf: "wf_value L (VDict (ds_index s))" using ok by (simp add: ds_ok_def)
  have view: "\<exists>v. ds_view L F s k = Some v \<and> wf_value L v" if k: "k \<in> set ?ks" for k
  proof -
    obtain x where x: "map_of (ds_index s) k = Some x" using k by (metis map_of_eq_None_iff not_None_eq image_set)
    show ?thesis using view_eq [OF ok x] by metis
  qed
  have "export_to L F [] s = (Ok ?d, s)" using export_keys_law [OF ok, of ?ks "[]"] view wf by (auto simp: export_to_def)
  moreover have "map_of ?d = ds_view L F s"
  proof
    fix k
    show "map_of ?d k = ds_view L F s k"
    proof (cases "k \<in> set ?ks")
      case True
      then show ?thesis using view [OF True] by (auto simp del: map_map simp: map_of_map_restrict restrict_map_def)
    next
      case False
      then have "ds_view L F s k = None" using view_None [OF ok] by (simp add: map_of_eq_None_iff)
      then show ?thesis using False by (simp del: map_map add: map_of_map_restrict restrict_map_def)
    qed
  qed
  moreover have "wf_value L (VDict ?d)" using wf view by (fastforce simp: list_all_iff o_def)
  moreover have "length ?d = length (ds_index s)" by simp
  ultimately show ?thesis by blast
qed

end

definition outside_kept :: "fs_lib \<Rightarrow> string \<Rightarrow> files \<Rightarrow> disk_store \<Rightarrow> bool" where
  "outside_kept F p fs s \<longleftrightarrow> ds_path s = p \<and> (\<forall>k i. map_of (ds_index s) k = Some (VBytes i) \<longrightarrow> plain_name i) \<and>
     (\<forall>f. (\<forall>x. plain_name x \<longrightarrow> f \<noteq> fl_join F p x) \<longrightarrow> ds_fs s f = fs f)"

context disk_env
begin

lemma keeps_set_intern:
  assumes "plain_name u"
  shows "keeps (outside_kept F p fs) (set_intern L F u k v)"
  unfolding keeps_def
proof (intro allI impI)
  fix s
  assume o: "outside_kept F p fs s"
  show "outside_kept F p fs (snd (set_intern L F u k v s))"
  proof (cases "map_of (ds_index s) k")
    case None
    then show ?thesis using o assms by (auto simp: set_intern_new outside_kept_def get_value_file_def value_of_string_def to_bytes_def dict_put_def)
  next
    case (Some x)
    then show ?thesis using o by (cases x) (auto simp: set_intern_known outside_kept_def get_value_file_def to_str_def)
  qed
qed

lemma keeps_save_index: "keeps (outside_kept F p fs) (save_index L F)"
  unfolding keeps_def
proof (intro allI impI)
  fix s
  assume "outside_kept F p fs s"
  then show "outside_kept F p fs (snd (save_index L F s))"
  proof (cases "ds_path s = []")
    case True
    then have "save_index L F s = (Exit, s)" by (simp add: save_index_def)
    then show ?thesis using \<open>outside_kept F p fs s\<close> by simp
  next
    case False
    then show ?thesis using \<open>outside_kept F p fs s\<close> by (auto simp: save_index_saved index_saved_def outside_kept_def get_index_file_def)
  qed
qed

lemma keeps_imports: "list_all plain_name us \<Longrightarrow> keeps (outside_kept F p fs) (forA (\<lambda>(u, k, v). set_intern L F u k v) (zip us d))"
proof (induction us d rule: list_induct2')
  case (4 u us e d)
  then show ?case by (cases e) (simp add: keeps_bind keeps_set_intern)
qed (simp_all add: keeps_quiet)

lemma keeps_import: "list_all plain_name us \<Longrightarrow> keeps (outside_kept F p fs) (import_from L F us d)"
  unfolding import_from_def by (intro keeps_then keeps_imports keeps_save_index)

lemma import_outside:
  assumes "import_from L F us d s = (r, s')" "list_all (good_name L) us" "ds_index s = []"
  shows "ds_path s' = ds_path s" "\<And>f. (\<And>x. plain_name x \<Longrightarrow> f \<noteq> fl_join F (ds_path s) x) \<Longrightarrow> ds_fs s' f = ds_fs s f"
proof -
  have "list_all plain_name us" using assms(2) by (auto simp: list_all_iff good_name_def)
  then have "outside_kept F (ds_path s) (ds_fs s) s'"
    using keepsD [OF keeps_import [of us "ds_path s" "ds_fs s" d], of s] assms(1, 3) by (simp add: outside_kept_def)
  then show "ds_path s' = ds_path s" "\<And>f. (\<And>x. plain_name x \<Longrightarrow> f \<noteq> fl_join F (ds_path s) x) \<Longrightarrow> ds_fs s' f = ds_fs s f"
    by (auto simp: outside_kept_def)
qed

end

context disk_env
begin

text \<open>Only the files in the directory of a store matter to it.\<close>

lemma ds_files_cong:
  assumes ok: "ds_ok L F s" and "ds_path t = ds_path s" "ds_index t = ds_index s" "\<And>x. plain_name x \<Longrightarrow> ds_fs t (fl_join F (ds_path s) x) = ds_fs s (fl_join F (ds_path s) x)"
  shows "ds_ok L F t" "ds_view L F t = ds_view L F s"
proof -
  have f: "ds_fs t (get_value_file F (ds_path s) i) = ds_fs s (get_value_file F (ds_path s) i)" if "map_of (ds_index s) k = Some (VBytes i)" for k i
    using view_eq [OF ok that] assms(4) [of i] by (auto simp: get_value_file_def)
  have g: "ds_fs t (get_index_file F (ds_path s)) = ds_fs s (get_index_file F (ds_path s))" using assms(4) [of INDEX] by (simp add: get_index_file_def)
  have "ds_view L F t k = ds_view L F s k" for k
    using f [of k] unfolding ds_view_def assms(2, 3) by (auto split: option.splits mvalue.splits)
  then show "ds_view L F t = ds_view L F s" by auto
  have "\<exists>i v. x = VBytes i \<and> plain_name i \<and> i \<noteq> INDEX \<and> wf_value L v \<and> ds_fs t (get_value_file F (ds_path s) i) = Some (encode_value L v)"
    if x: "map_of (ds_index s) k = Some x" for k x
  proof -
    obtain i v where "x = VBytes i" "plain_name i" "i \<noteq> INDEX" "wf_value L v" "ds_fs s (get_value_file F (ds_path s) i) = Some (encode_value L v)"
      using view_eq [OF ok x] by metis
    then show ?thesis using f [of k i] x by auto
  qed
  then show "ds_ok L F t" using ok unfolding ds_ok_def assms(2, 3) g by blast
qed

lemma empty_store_ok: "p \<noteq> [] \<Longrightarrow> fs (get_index_file F p) = None \<Longrightarrow> ds_ok L F \<lparr>ds_path = p, ds_index = [], ds_fs = fs\<rparr>"
  by (simp add: ds_ok_def)

text \<open>A store opened on an empty directory and filled with what another store exported.\<close>

lemma open_import:
  assumes p: "p \<noteq> []" "exists p" and none: "fs (get_index_file F p) = None"
    and d: "wf_value L (VDict d)" and us: "length us = length d" "distinct us" "list_all (good_name L) us"
  shows "ds_load L F exists p (disk_store_new fs) = (Ok (), \<lparr>ds_path = p, ds_index = [], ds_fs = fs\<rparr>)"
    "disk_store_open L F exists p (disk_store_new fs) = (Ok (), \<lparr>ds_path = p, ds_index = [], ds_fs = fs\<rparr>)"
    "\<exists>s. import_from L F us d \<lparr>ds_path = p, ds_index = [], ds_fs = fs\<rparr> = (Ok (), s) \<and> ds_ok L F s \<and> ds_view L F s = map_of d"
proof -
  show l: "ds_load L F exists p (disk_store_new fs) = (Ok (), \<lparr>ds_path = p, ds_index = [], ds_fs = fs\<rparr>)"
    using reload_law [OF empty_store_ok [of p fs], of exists] p none by simp
  show "disk_store_open L F exists p (disk_store_new fs) = (Ok (), \<lparr>ds_path = p, ds_index = [], ds_fs = fs\<rparr>)"
    using p l by (simp add: disk_store_open_def disk_store_new_def bindA_Ok [of "ds_load L F exists p"]) (simp add: requireA_def liftA_def)
  have "ds_view L F \<lparr>ds_path = p, ds_index = [], ds_fs = fs\<rparr> = Map.empty" by (simp add: ds_view_def fun_eq_iff)
  then show "\<exists>s. import_from L F us d \<lparr>ds_path = p, ds_index = [], ds_fs = fs\<rparr> = (Ok (), s) \<and> ds_ok L F s \<and> ds_view L F s = map_of d"
    using import_law [OF empty_store_ok [where p = p and fs = fs, OF p(1) none] d us] by (auto simp: used_names_def)
qed

end

end
