(* ===== verification/Compression.thy ===== *)
theory Compression
  imports Mencode
begin

text \<open>
  Compression, \<^verbatim>\<open>src/src/util/compress.cpp\<close>.  Google's snappy is a parameter; \<open>snappy_laws\<close> is what it promises.
\<close>

record snappy_lib =
  sn_compress :: "bytes \<Rightarrow> bytes"
  sn_uncompress :: "bytes \<Rightarrow> bytes option"

definition compress :: "snappy_lib \<Rightarrow> bytes \<Rightarrow> bytes" where
  "compress S i = to_bytes (sn_compress S i)"

definition uncompress :: "snappy_lib \<Rightarrow> bytes \<Rightarrow> bytes" where
  "uncompress S i = (case sn_uncompress S i of Some s \<Rightarrow> to_bytes s | None \<Rightarrow> [])"

locale snappy_laws =
  fixes S :: snappy_lib
  assumes uncompress_compress: "sn_uncompress S (sn_compress S b) = Some b"
    and compress_nonempty: "sn_compress S b \<noteq> []"

definition model_snappy :: snappy_lib where
  "model_snappy = \<lparr>sn_compress = (\<lambda>b. CHR ''z'' # b), sn_uncompress = (\<lambda>b. case b of [] \<Rightarrow> None | _ # r \<Rightarrow> Some r)\<rparr>"

interpretation ms: snappy_laws model_snappy
  by unfold_locales (simp_all add: model_snappy_def)

end
