(* ===== verification/App.thy ===== *)
theory App
  imports Disk_Store Compression
begin

text \<open>
  Apps, \<^verbatim>\<open>src/src/gui/app/app.cpp\<close>, with the directories of \<^verbatim>\<open>src/src/util/filesystem.cpp\<close>: an app is an id, a name, its code and a store of data that
  travels with it; it lives in a directory, and is sent to another user as a message.  The reference to the store of local data is not part of the
  model.  What boost::filesystem knows of directories is the parameter \<open>dir_lib\<close>.
\<close>

section \<open>Files and directories\<close>

text \<open>
  \<open>dl_above d\<close> are the directories that \<^verbatim>\<open>create_directories(d)\<close> makes, \<open>dl_inside d p\<close> says that \<^verbatim>\<open>remove_all(d)\<close> removes \<open>p\<close>, and \<open>dl_entries d\<close>
  lists the directories in \<open>d\<close>.
\<close>

record dir_lib =
  dl_fs :: fs_lib
  dl_above :: "string \<Rightarrow> string list"
  dl_inside :: "string \<Rightarrow> string \<Rightarrow> bool"
  dl_entries :: "string \<Rightarrow> string set \<Rightarrow> string list"

record disk =
  dk_files :: files
  dk_dirs :: "string set"

type_synonym 'a disk_action = "(disk, 'a) action"

definition path_exists :: "disk \<Rightarrow> string \<Rightarrow> bool" where
  "path_exists w p \<longleftrightarrow> p \<in> dk_dirs w \<or> dk_files w p \<noteq> None"

definition create_directory :: "dir_lib \<Rightarrow> string \<Rightarrow> bool disk_action" where
  "create_directory D dir =
     thenA (requireA (dir \<noteq> []))
     (bindA (getA (\<lambda>w. path_exists w dir)) (\<lambda>b. if b then retA True
      else if \<not> fl_writable (dl_fs D) dir then liftA (Throw RuntimeError)
      else thenA (modA (\<lambda>w. w\<lparr>dk_dirs := dk_dirs w \<union> set (dl_above D dir)\<rparr>)) (getA (\<lambda>w. path_exists w dir))))"

definition delete_directory :: "dir_lib \<Rightarrow> string \<Rightarrow> bool disk_action" where
  "delete_directory D dir =
     thenA (requireA (dir \<noteq> []))
     (bindA (getA (\<lambda>w. path_exists w dir)) (\<lambda>b. if \<not> b then retA False
      else thenA (modA (\<lambda>w. \<lparr>dk_files = (\<lambda>p. if dl_inside D dir p then None else dk_files w p), dk_dirs = {p \<in> dk_dirs w. \<not> dl_inside D dir p}\<rparr>))
             (getA (\<lambda>w. \<not> path_exists w dir))))"

definition disk_save :: "dir_lib \<Rightarrow> string \<Rightarrow> bytes \<Rightarrow> unit disk_action" where
  "disk_save D f b = partA dk_files (\<lambda>fs w. w\<lparr>dk_files := fs\<rparr>) (\<lambda>fs. bindO (save_to_file (dl_fs D) f b fs) (\<lambda>fs1. Ok ((), fs1)))"

text \<open>An output stream that cannot be opened is not good.\<close>

definition stream_save :: "dir_lib \<Rightarrow> string \<Rightarrow> bytes \<Rightarrow> bool disk_action" where
  "stream_save D f b = (if fl_writable (dl_fs D) f then thenA (modA (\<lambda>w. w\<lparr>dk_files := (dk_files w)(f \<mapsto> b)\<rparr>)) (retA True) else retA False)"

section \<open>The store of an app\<close>

record data_store =
  st_path :: string
  st_index :: dict

definition data_store_new :: data_store where
  "data_store_new = \<lparr>st_path = [], st_index = []\<rparr>"

definition store_on :: "data_store \<Rightarrow> disk \<Rightarrow> disk_store" where
  "store_on sd w = \<lparr>ds_path = st_path sd, ds_index = st_index sd, ds_fs = dk_files w\<rparr>"

text \<open>A call on the store, which works on the files of the disk.\<close>

definition storeA :: "data_store \<Rightarrow> (disk_store, 'a) action \<Rightarrow> ('a \<times> data_store) disk_action" where
  "storeA sd act w =
     (let (r, s) = act (store_on sd w); w1 = w\<lparr>dk_files := ds_fs s\<rparr>
      in (bindO r (\<lambda>a. Ok (a, \<lparr>st_path = ds_path s, st_index = ds_index s\<rparr>)), w1))"

section \<open>Apps\<close>

definition APP_MESSAGE :: string where "APP_MESSAGE = ''app_message''"
definition METADATA_FILE :: string where "METADATA_FILE = ''metadata''"
definition CODE_FILE :: string where "CODE_FILE = ''code.lua''"
definition DATA_PATH :: string where "DATA_PATH = ''data''"
definition REMOVE_TAG_FILE :: string where "REMOVE_TAG_FILE = ''removed''"

definition get_metadata_file :: "dir_lib \<Rightarrow> string \<Rightarrow> string" where "get_metadata_file D dir = fl_join (dl_fs D) dir METADATA_FILE"
definition get_code_file :: "dir_lib \<Rightarrow> string \<Rightarrow> string" where "get_code_file D dir = fl_join (dl_fs D) dir CODE_FILE"
definition get_data_path :: "dir_lib \<Rightarrow> string \<Rightarrow> string" where "get_data_path D dir = fl_join (dl_fs D) dir DATA_PATH"
definition get_remove_tag_path :: "dir_lib \<Rightarrow> string \<Rightarrow> string" where "get_remove_tag_path D dir = fl_join (dl_fs D) dir REMOVE_TAG_FILE"

definition app_removed :: "dir_lib \<Rightarrow> string \<Rightarrow> disk \<Rightarrow> bool" where
  "app_removed D dir w = path_exists w (get_remove_tag_path D dir)"

definition tag_app_removed :: "dir_lib \<Rightarrow> string \<Rightarrow> bool disk_action" where
  "tag_app_removed D dir =
     bindA (getA (\<lambda>w. path_exists w dir)) (\<lambda>b. if \<not> b then retA False else stream_save D (get_remove_tag_path D dir) ''1'')"

record app_metadata =
  md_path :: string
  md_id :: string
  md_name :: string

text \<open>\<^verbatim>\<open>_launched_local\<close> is not set by the copy constructor: \<open>None\<close> is the indeterminate value.\<close>

record app =
  ap_meta :: app_metadata
  ap_code :: string
  ap_data :: data_store
  ap_launched_local :: "bool option"
  ap_is_tmp :: bool

abbreviation "ap_id a \<equiv> md_id (ap_meta a)"
abbreviation "ap_name a \<equiv> md_name (ap_meta a)"
abbreviation "ap_path a \<equiv> md_path (ap_meta a)"

definition blank_app :: "string \<Rightarrow> bool \<Rightarrow> app" where
  "blank_app i l = \<lparr>ap_meta = \<lparr>md_path = [], md_id = i, md_name = []\<rparr>, ap_code = [], ap_data = data_store_new, ap_launched_local = Some l, ap_is_tmp = False\<rparr>"

definition app_with_id :: "string \<Rightarrow> app outcome" where
  "app_with_id i = contract (i \<noteq> []) (Ok (blank_app i True))"

definition app_fresh :: "string \<Rightarrow> app outcome" where
  "app_fresh uuid = contract (uuid \<noteq> []) (Ok (blank_app uuid True))"

definition extra_string :: "message \<Rightarrow> string \<Rightarrow> string outcome" where
  "extra_string m k = bindO (dict_get (mt_extra (m_meta m)) k) as_string"

definition app_from_message :: "cxx_lib \<Rightarrow> dir_lib \<Rightarrow> string list \<Rightarrow> string \<Rightarrow> message \<Rightarrow> app disk_action" where
  "app_from_message L D us app_dir m =
     thenA (requireA (mt_type (m_meta m) = APP_MESSAGE))
     (bindA (liftA (extra_string m ''app_id'')) (\<lambda>i.
      bindA (liftA (extra_string m ''app_name'')) (\<lambda>n.
      bindA (liftA (extra_string m ''code'')) (\<lambda>c.
      bindA (getA (\<lambda>w. path_exists w)) (\<lambda>ex.
      bindA (storeA data_store_new (ds_load L (dl_fs D) ex (get_data_path D app_dir))) (\<lambda>(_, sd).
      bindA (liftA (decode_to_dict L (m_data m))) (\<lambda>d.
      bindA (storeA sd (import_from L (dl_fs D) us d)) (\<lambda>(_, sd1).
        if i = [] then liftA (Throw RuntimeError)
        else retA \<lparr>ap_meta = \<lparr>md_path = app_dir, md_id = i, md_name = n\<rparr>, ap_code = c, ap_data = sd1, ap_launched_local = Some False, ap_is_tmp = False\<rparr>))))))))"

definition app_destroy :: "dir_lib \<Rightarrow> app \<Rightarrow> unit disk_action" where
  "app_destroy D a =
     (if \<not> ap_is_tmp a then retA ()
      else thenA (requireA (ap_path a \<noteq> [])) (thenA (delete_directory D (ap_path a)) (retA ())))"

definition message_of_app :: "cxx_lib \<Rightarrow> dir_lib \<Rightarrow> app \<Rightarrow> message disk_action" where
  "message_of_app L D a =
     thenA (requireA (ap_id a \<noteq> []))
     (bindA (storeA (ap_data a) (export_to L (dl_fs D) [])) (\<lambda>(d, _).
        let meta = metadata_default\<lparr>mt_type := APP_MESSAGE,
          mt_extra := dict_put ''code'' (value_of_string (ap_code a)) (dict_put ''app_name'' (value_of_string (ap_name a)) (dict_put ''app_id'' (value_of_string (ap_id a)) []))\<rparr>
        in retA \<lparr>m_meta = meta, m_data = to_bytes (encode_dict L d)\<rparr>))"

definition app_copy :: "app \<Rightarrow> app" where
  "app_copy o1 = o1\<lparr>ap_launched_local := None\<rparr>"

text \<open>Assignment assigns the stores, which exits unless they share their state.\<close>

definition app_assign :: "bool \<Rightarrow> bool \<Rightarrow> disk \<Rightarrow> app \<Rightarrow> app \<Rightarrow> app outcome" where
  "app_assign same same_store w a o1 =
     (if same then Ok a
      else bindO (ds_assign same_store (store_on (ap_data a) w) (store_on (ap_data o1) w)) (\<lambda>s.
        Ok (a\<lparr>ap_meta := ap_meta o1, ap_code := ap_code o1, ap_data := \<lparr>st_path = ds_path s, st_index = ds_index s\<rparr>, ap_is_tmp := ap_is_tmp o1\<rparr>)))"

definition app_clone :: "string \<Rightarrow> app \<Rightarrow> app" where
  "app_clone uuid a = (let c = app_copy a in c\<lparr>ap_meta := (ap_meta c)\<lparr>md_id := uuid\<rparr>, ap_is_tmp := False\<rparr>)"

definition app_id :: "app \<Rightarrow> string outcome" where
  "app_id a = contract (ap_id a \<noteq> []) (Ok (ap_id a))"

definition app_set_path :: "string \<Rightarrow> app \<Rightarrow> app" where
  "app_set_path v a = a\<lparr>ap_meta := (ap_meta a)\<lparr>md_path := v\<rparr>\<rparr>"

definition app_set_name :: "string \<Rightarrow> app \<Rightarrow> app" where
  "app_set_name v a = a\<lparr>ap_meta := (ap_meta a)\<lparr>md_name := v\<rparr>\<rparr>"

definition app_set_code :: "string \<Rightarrow> app \<Rightarrow> app" where
  "app_set_code v a = a\<lparr>ap_code := v\<rparr>"

definition app_set_launched_local :: "bool \<Rightarrow> app \<Rightarrow> app" where
  "app_set_launched_local v a = a\<lparr>ap_launched_local := Some v\<rparr>"

definition app_set_tmp :: "app \<Rightarrow> app" where
  "app_set_tmp a = a\<lparr>ap_is_tmp := True\<rparr>"

section \<open>Saving and loading\<close>

definition save_app :: "cxx_lib \<Rightarrow> dir_lib \<Rightarrow> string list \<Rightarrow> string \<Rightarrow> app \<Rightarrow> bool disk_action" where
  "save_app L D us dir a =
     thenA (requireA (ap_id a \<noteq> [])) (thenA (requireA (ap_name a \<noteq> []))
     (bindA (getA (\<lambda>w. path_exists w dir)) (\<lambda>b. if \<not> b then retA False
      else
        thenA (disk_save D (get_metadata_file D dir) (encode_dict L (dict_put ''name'' (value_of_string (ap_name a)) (dict_put ''id'' (value_of_string (ap_id a)) []))))
        (bindA (stream_save D (get_code_file D dir) (ap_code a)) (\<lambda>good. if \<not> good then retA False
         else
           thenA (create_directory D (get_data_path D dir))
           (if ap_path a = dir then retA True
            else
              thenA (delete_directory D (get_data_path D dir)) (thenA (create_directory D (get_data_path D dir))
              (bindA (storeA (ap_data a) (export_to L (dl_fs D) [])) (\<lambda>(dc, _).
               bindA (getA (\<lambda>w. path_exists w)) (\<lambda>ex.
               bindA (storeA data_store_new (disk_store_open L (dl_fs D) ex (get_data_path D dir))) (\<lambda>(_, cs).
               bindA (storeA cs (import_from L (dl_fs D) us dc)) (\<lambda>_. retA True))))))))))))"

definition load_app_metadata :: "cxx_lib \<Rightarrow> dir_lib \<Rightarrow> string \<Rightarrow> app_metadata option disk_action" where
  "load_app_metadata L D dir =
     thenA (requireA (dir \<noteq> []))
     (bindA (getA (\<lambda>w. load_from_file (read_dict L) (get_metadata_file D dir) (dk_files w) [])) (\<lambda>r.
      bindA (liftA r) (\<lambda>(found, d).
        if \<not> found then retA None
        else
          let (vi, d1) = dict_ref ''id'' d; (vn, _) = dict_ref ''name'' d1 in
          bindA (liftA (as_string vi)) (\<lambda>i. bindA (liftA (as_string vn)) (\<lambda>n.
            if i = [] \<or> n = [] then liftA (Throw RuntimeError) else retA (Some \<lparr>md_path = dir, md_id = i, md_name = n\<rparr>))))))"

text \<open>\<^verbatim>\<open>while(std::getline(c, line))\<close>, each line appended with a newline.\<close>

function read_lines :: "string \<Rightarrow> string" where
  "read_lines s =
     (if s = [] then [] else takeWhile (\<lambda>c. c \<noteq> CHR 10) s @ CHR 10 # read_lines (drop 1 (dropWhile (\<lambda>c. c \<noteq> CHR 10) s)))"
  by pat_completeness auto
termination
proof (relation "measure length")
  fix s :: string
  assume "s \<noteq> []"
  then have "0 < length s" by simp
  then show "(drop 1 (dropWhile (\<lambda>c. c \<noteq> CHR 10) s), s) \<in> measure length"
    using length_dropWhile_le [of "\<lambda>c. c \<noteq> CHR 10" s] unfolding in_measure length_drop by linarith
qed simp

declare read_lines.simps [simp del]

definition load_app :: "cxx_lib \<Rightarrow> dir_lib \<Rightarrow> string \<Rightarrow> app option disk_action" where
  "load_app L D dir =
     bindA (getA (\<lambda>w. path_exists w dir)) (\<lambda>b. if \<not> b then retA None
     else bindA (load_app_metadata L D dir) (\<lambda>mo. case mo of None \<Rightarrow> retA None
     | Some m \<Rightarrow>
        bindA (getA (\<lambda>w. dk_files w (get_code_file D dir))) (\<lambda>co. case co of None \<Rightarrow> retA None
        | Some c \<Rightarrow>
           bindA (liftA (app_with_id (md_id m))) (\<lambda>a0.
           let code = read_lines c; a = app_set_code code (app_set_name (md_name m) (app_set_path (md_path m) a0)) in
           thenA (create_directory D (get_data_path D dir))
           (bindA (getA (\<lambda>w. path_exists w)) (\<lambda>ex.
            bindA (storeA (ap_data a) (ds_load L (dl_fs D) ex (get_data_path D dir))) (\<lambda>(_, sd).
              thenA (requireA (ap_path a \<noteq> [] \<and> ap_id a \<noteq> [] \<and> ap_name a \<noteq> [] \<and> ap_name a = md_name m \<and> ap_id a = md_id m \<and> ap_code a = code))
                (retA (Some (a\<lparr>ap_data := sd\<rparr>))))))))))"

definition export_app_as_message :: "cxx_lib \<Rightarrow> snappy_lib \<Rightarrow> dir_lib \<Rightarrow> string \<Rightarrow> app \<Rightarrow> unit disk_action" where
  "export_app_as_message L S D file a =
     bindA (message_of_app L D a) (\<lambda>m. disk_save D file (encode_b L (compress S (encode_message L m))))"

definition decode_app_message :: "cxx_lib \<Rightarrow> snappy_lib \<Rightarrow> bytes \<Rightarrow> message outcome" where
  "decode_app_message L S b = decode_message L (uncompress S b)"

definition import_app_as_message :: "cxx_lib \<Rightarrow> snappy_lib \<Rightarrow> string \<Rightarrow> message disk_action" where
  "import_app_as_message L S file =
     bindA (getA (\<lambda>w. load_from_file (read_bytes L) file (dk_files w) [])) (\<lambda>r.
     bindA (liftA r) (\<lambda>(_, b). liftA (decode_app_message L S b)))"

section \<open>Stores on a disk\<close>

lemma storeA_Ok:
  assumes "act (store_on sd w) = (Ok a, s)"
  shows "storeA sd act w = (Ok (a, \<lparr>st_path = ds_path s, st_index = ds_index s\<rparr>), w\<lparr>dk_files := ds_fs s\<rparr>)"
  using assms by (simp add: storeA_def)

lemma store_on_back: "store_on \<lparr>st_path = ds_path s, st_index = ds_index s\<rparr> (w\<lparr>dk_files := ds_fs s\<rparr>) = s"
  by (simp add: store_on_def)

lemma store_on_new: "store_on data_store_new w = disk_store_new (dk_files w)"
  by (simp add: store_on_def data_store_new_def disk_store_new_def)

lemma storeA_quiet:
  assumes "act (store_on sd w) = (Ok a, store_on sd w)"
  shows "storeA sd act w = (Ok (a, sd), w)"
  using assms by (simp add: storeA_def store_on_def)

section \<open>Directories\<close>

text \<open>
  What is relied on of boost::filesystem: \<^verbatim>\<open>create_directories\<close> makes the directory itself, \<^verbatim>\<open>remove_all\<close> removes it and the files with plain names directly in
  it, and nothing beside it; a directory joined with a plain name begins with the directory.
\<close>

locale dir_env = disk_env L "dl_fs D" for L and D :: dir_lib +
  assumes above_self: "d \<in> set (dl_above D d)"
    and inside_self: "dl_inside D d d"
    and inside_child: "plain_name x \<Longrightarrow> dl_inside D d (fl_join (dl_fs D) d x)"
    and beside: "x \<in> {METADATA_FILE, CODE_FILE, REMOVE_TAG_FILE} \<Longrightarrow> \<not> dl_inside D (get_data_path D d) (fl_join (dl_fs D) d x)"
    and child: "plain_name x \<Longrightarrow> take (length d) (fl_join (dl_fs D) d x) = d"
    and tag_apart: "get_remove_tag_path D d \<notin> set (dl_above D d) \<union> set (dl_above D (get_data_path D d))"
    and parent: "\<not> dl_inside D (get_data_path D d) d"
    and nested: "x \<in> {METADATA_FILE, CODE_FILE, REMOVE_TAG_FILE} \<Longrightarrow> plain_name y \<Longrightarrow> fl_join (dl_fs D) d x \<noteq> fl_join (dl_fs D) (get_data_path D d) y"
begin

lemma plain_files [simp]: "plain_name METADATA_FILE" "plain_name CODE_FILE" "plain_name REMOVE_TAG_FILE"
  by (simp_all add: plain_name_def METADATA_FILE_def CODE_FILE_def REMOVE_TAG_FILE_def)

lemma own_files: "get_metadata_file D dir \<noteq> get_code_file D dir" "get_remove_tag_path D dir \<noteq> get_metadata_file D dir" "get_remove_tag_path D dir \<noteq> get_code_file D dir"
  using join_inj [OF plain_files(1, 2), of dir] join_inj [OF plain_files(3, 1), of dir] join_inj [OF plain_files(3, 2), of dir]
  by (auto simp: get_metadata_file_def get_code_file_def get_remove_tag_path_def METADATA_FILE_def CODE_FILE_def REMOVE_TAG_FILE_def)

lemma create_ok: "dir \<noteq> [] \<Longrightarrow> create_directory D dir w =
    (Ok True, if path_exists w dir then w else w\<lparr>dk_dirs := dk_dirs w \<union> set (dl_above D dir)\<rparr>)"
  using above_self [of dir] by (simp add: create_directory_def writable retA_def getA_def path_exists_def)

lemma create_exists: "dir \<noteq> [] \<Longrightarrow> path_exists (snd (create_directory D dir w)) dir"
  using above_self [of dir] by (simp add: create_ok path_exists_def)

lemma delete_ok: "dir \<noteq> [] \<Longrightarrow> path_exists w dir \<Longrightarrow> delete_directory D dir w =
    (Ok True, \<lparr>dk_files = (\<lambda>p. if dl_inside D dir p then None else dk_files w p), dk_dirs = {p \<in> dk_dirs w. \<not> dl_inside D dir p}\<rparr>)"
  using inside_self [of dir] by (simp add: delete_directory_def getA_def path_exists_def)

text \<open>The message of an app.\<close>

definition app_meta_extra :: "app \<Rightarrow> dict" where
  "app_meta_extra a = [(''app_id'', VBytes (ap_id a)), (''app_name'', VBytes (ap_name a)), (''code'', VBytes (ap_code a))]"

end

definition app_letter :: "app \<Rightarrow> bytes \<Rightarrow> message" where
  "app_letter a b = \<lparr>m_meta = metadata_default\<lparr>mt_type := APP_MESSAGE,
     mt_extra := [(''app_id'', VBytes (ap_id a)), (''app_name'', VBytes (ap_name a)), (''code'', VBytes (ap_code a))]\<rparr>, m_data = b\<rparr>"

definition app_ok :: "cxx_lib \<Rightarrow> dir_lib \<Rightarrow> disk \<Rightarrow> app \<Rightarrow> bool" where
  "app_ok L D w a \<longleftrightarrow> ap_id a \<noteq> [] \<and> ds_ok L (dl_fs D) (store_on (ap_data a) w)"

definition app_view :: "cxx_lib \<Rightarrow> dir_lib \<Rightarrow> disk \<Rightarrow> app \<Rightarrow> string \<rightharpoonup> mvalue" where
  "app_view L D w a = ds_view L (dl_fs D) (store_on (ap_data a) w)"

text \<open>A directory for data in which no store has been.\<close>

definition fresh_data_dir :: "dir_lib \<Rightarrow> string \<Rightarrow> disk \<Rightarrow> bool" where
  "fresh_data_dir D dir w \<longleftrightarrow> path_exists w (get_data_path D dir) \<and> dk_files w (get_index_file (dl_fs D) (get_data_path D dir)) = None"

definition new_names :: "cxx_lib \<Rightarrow> app \<Rightarrow> string list \<Rightarrow> bool" where
  "new_names L a us \<longleftrightarrow> length us = length (st_index (ap_data a)) \<and> distinct us \<and> list_all (good_name L) us"

context dir_env
begin

lemma export_app:
  assumes "app_ok L D w a"
  obtains d where "storeA (ap_data a) (export_to L (dl_fs D) []) w = (Ok (d, ap_data a), w)" "map_of d = app_view L D w a" "wf_value L (VDict d)"
    "length d = length (st_index (ap_data a))"
proof -
  obtain d where d: "export_to L (dl_fs D) [] (store_on (ap_data a) w) = (Ok d, store_on (ap_data a) w)" "map_of d = app_view L D w a" "wf_value L (VDict d)"
    "length d = length (ds_index (store_on (ap_data a) w))"
    using export_law [of "store_on (ap_data a) w"] assms by (auto simp: app_ok_def app_view_def)
  have "storeA (ap_data a) (export_to L (dl_fs D) []) w = (Ok (d, ap_data a), w)" by (rule storeA_quiet) (rule d(1))
  then show thesis using that d by (simp add: store_on_def)
qed

lemma message_of_app_ok:
  assumes "app_ok L D w a"
  obtains d where "message_of_app L D a w = (Ok (app_letter a (encode_dict L d)), w)" "map_of d = app_view L D w a" "wf_value L (VDict d)"
    "length d = length (st_index (ap_data a))"
proof -
  obtain d where d: "storeA (ap_data a) (export_to L (dl_fs D) []) w = (Ok (d, ap_data a), w)" "map_of d = app_view L D w a" "wf_value L (VDict d)"
    "length d = length (st_index (ap_data a))" using export_app [OF assms] .
  moreover have "message_of_app L D a w = (Ok (app_letter a (encode_dict L d)), w)"
    using assms d(1) by (simp add: message_of_app_def bindA_Ok [of "storeA (ap_data a) (export_to L (dl_fs D) [])"] app_ok_def app_letter_def dict_put_def alist_put_new value_of_string_def to_bytes_def retA_def)
  ultimately show thesis using that by blast
qed

lemma from_message_ok:
  assumes d: "wf_value L (VDict d)" and us: "length us = length d" "distinct us" "list_all (good_name L) us" and i: "ap_id a \<noteq> []" and fresh: "fresh_data_dir D dir w" and dir: "dir \<noteq> []"
  shows "\<exists>a' w'. app_from_message L D us dir (app_letter a (encode_dict L d)) w = (Ok a', w') \<and> app_ok L D w' a' \<and> app_view L D w' a' = map_of d \<and>
    ap_id a' = ap_id a \<and> ap_name a' = ap_name a \<and> ap_code a' = ap_code a \<and> ap_path a' = dir \<and> dk_dirs w' = dk_dirs w"
proof -
  let ?p = "get_data_path D dir"
  have p: "?p \<noteq> []" using join_some [OF dir] by (simp add: get_data_path_def)
  have ex: "path_exists w ?p" "dk_files w (get_index_file (dl_fs D) ?p) = None" using fresh by (simp_all add: fresh_data_dir_def)
  let ?s0 = "\<lparr>ds_path = ?p, ds_index = [], ds_fs = dk_files w\<rparr>"
  note oi = open_import [where fs = "dk_files w" and p = "get_data_path D dir" and exists = "path_exists w", OF p ex d us]
  have l: "storeA data_store_new (ds_load L (dl_fs D) (path_exists w) ?p) w = (Ok ((), \<lparr>st_path = ?p, st_index = []\<rparr>), w)"
    using oi(1) by (simp add: storeA_def store_on_new)
  obtain s where s: "import_from L (dl_fs D) us d ?s0 = (Ok (), s)" "ds_ok L (dl_fs D) s" "ds_view L (dl_fs D) s = map_of d" using oi(3) by blast
  let ?sd = "\<lparr>st_path = ds_path s, st_index = ds_index s\<rparr>" and ?w = "w\<lparr>dk_files := ds_fs s\<rparr>"
  have im: "storeA \<lparr>st_path = ?p, st_index = []\<rparr> (import_from L (dl_fs D) us d) w = (Ok ((), ?sd), ?w)"
    using s(1) by (simp add: storeA_def store_on_def)
  have dec: "decode_to_dict L (encode_dict L d) = Ok d" using read_dict_whole [OF d] by (simp add: decode_to_dict_def to_str_def)
  let ?a = "\<lparr>ap_meta = \<lparr>md_path = dir, md_id = ap_id a, md_name = ap_name a\<rparr>, ap_code = ap_code a, ap_data = ?sd, ap_launched_local = Some False, ap_is_tmp = False\<rparr>"
  have "app_from_message L D us dir (app_letter a (encode_dict L d)) w = (Ok ?a, ?w)"
    using l im i dec
    by (simp add: app_from_message_def app_letter_def extra_string_def dict_get_def to_str_def retA_def
        bindA_Ok [of "storeA data_store_new (ds_load L (dl_fs D) (path_exists w) ?p)"] bindA_Ok [of "storeA \<lparr>st_path = ?p, st_index = []\<rparr> (import_from L (dl_fs D) us d)"])
  then show ?thesis using s i by (simp add: app_ok_def app_view_def store_on_back)
qed

end

definition app_card :: "app \<Rightarrow> dict" where
  "app_card a = [(''id'', VBytes (ap_id a)), (''name'', VBytes (ap_name a))]"

text \<open>The files of an app's store are not among those that saving to a directory replaces.\<close>

definition store_apart :: "dir_lib \<Rightarrow> string \<Rightarrow> app \<Rightarrow> bool" where
  "store_apart D dir a \<longleftrightarrow> (\<forall>x. plain_name x \<longrightarrow> (let f = fl_join (dl_fs D) (st_path (ap_data a)) x in
     f \<noteq> get_metadata_file D dir \<and> f \<noteq> get_code_file D dir \<and> f \<noteq> get_remove_tag_path D dir \<and> \<not> dl_inside D (get_data_path D dir) f))"

text \<open>
  An app can be saved in a directory: in its own, when its store is there; in another one, when names are drawn for the entries of its data and its store is
  not among what is replaced.
\<close>

definition saveable :: "cxx_lib \<Rightarrow> dir_lib \<Rightarrow> string list \<Rightarrow> string \<Rightarrow> disk \<Rightarrow> app \<Rightarrow> bool" where
  "saveable L D us dir w a \<longleftrightarrow>
     (if ap_path a = dir then st_path (ap_data a) = get_data_path D dir \<and> get_data_path D dir \<in> dk_dirs w else new_names L a us \<and> store_apart D dir a)"

text \<open>What a directory holds in which an app was saved.\<close>

definition app_saved :: "cxx_lib \<Rightarrow> dir_lib \<Rightarrow> string \<Rightarrow> app \<Rightarrow> (string \<rightharpoonup> mvalue) \<Rightarrow> disk \<Rightarrow> bool" where
  "app_saved L D dir a v w \<longleftrightarrow> dir \<in> dk_dirs w \<and> get_data_path D dir \<in> dk_dirs w \<and> dk_files w (get_metadata_file D dir) = Some (encode_dict L (app_card a)) \<and>
     dk_files w (get_code_file D dir) = Some (ap_code a) \<and>
     (\<exists>s. ds_ok L (dl_fs D) s \<and> ds_view L (dl_fs D) s = v \<and> ds_path s = get_data_path D dir \<and> ds_fs s = dk_files w)"

context dir_env
begin

lemma save_ok:
  assumes ok: "app_ok L D w a" and n: "ap_name a \<noteq> []" and dir: "dir \<noteq> []" "dir \<in> dk_dirs w" "ap_path a \<noteq> dir" and us: "new_names L a us" and apart: "store_apart D dir a"
  shows "\<exists>w'. save_app L D us dir a w = (Ok True, w') \<and> app_saved L D dir a (app_view L D w a) w' \<and>
    dk_files w' (get_remove_tag_path D dir) = dk_files w (get_remove_tag_path D dir) \<and> dk_dirs w' \<subseteq> dk_dirs w \<union> set (dl_above D (get_data_path D dir))"
proof -
  let ?p = "get_data_path D dir" and ?mf = "get_metadata_file D dir" and ?cf = "get_code_file D dir"
  have p: "?p \<noteq> []" using join_some [OF dir(1)] by (simp add: get_data_path_def)
  have i: "ap_id a \<noteq> []" using ok by (simp add: app_ok_def)
  have mc: "?mf \<noteq> ?cf" by (rule own_files)
  define w1 where "w1 = w\<lparr>dk_files := (dk_files w)(?mf \<mapsto> encode_dict L (app_card a), ?cf \<mapsto> ap_code a)\<rparr>"
  define w2 where "w2 = snd (create_directory D ?p w1)"
  define w3 where "w3 = snd (delete_directory D ?p w2)"
  define w4 where "w4 = snd (create_directory D ?p w3)"
  have c2: "create_directory D ?p w1 = (Ok True, w2)" and e2: "path_exists w2 ?p" using create_ok [OF p, of w1] create_exists [OF p, of w1] by (simp_all add: w2_def)
  have c3: "delete_directory D ?p w2 = (Ok True, w3)" and w3: "w3 = \<lparr>dk_files = (\<lambda>f. if dl_inside D ?p f then None else dk_files w2 f), dk_dirs = {f \<in> dk_dirs w2. \<not> dl_inside D ?p f}\<rparr>"
    using delete_ok [OF p e2] by (simp_all add: w3_def)
  have n3: "\<not> path_exists w3 ?p" using inside_self [of ?p] by (simp add: w3 path_exists_def)
  have c4: "create_directory D ?p w3 = (Ok True, w4)" and w4: "w4 = w3\<lparr>dk_dirs := dk_dirs w3 \<union> set (dl_above D ?p)\<rparr>" using create_ok [OF p, of w3] n3 by (simp_all add: w4_def)
  have f2: "dk_files w2 = dk_files w1" "dir \<in> dk_dirs w2" using create_ok [OF p, of w1] dir(2) by (auto simp: w2_def w1_def)
  have f4: "dk_files w4 f = (if dl_inside D ?p f then None else dk_files w1 f)" for f using f2 by (simp add: w4 w3)
  have d4: "dir \<in> dk_dirs w4" "?p \<in> dk_dirs w4" using f2(2) parent above_self [of ?p] by (simp_all add: w4 w3)
  have same: "dk_files w4 (fl_join (dl_fs D) (st_path (ap_data a)) x) = dk_files w (fl_join (dl_fs D) (st_path (ap_data a)) x)" if "plain_name x" for x
    using apart f4 that by (auto simp: store_apart_def Let_def w1_def)
  have a4: "app_ok L D w4 a" "app_view L D w4 a = app_view L D w a"
    using ds_files_cong [of "store_on (ap_data a) w" "store_on (ap_data a) w4"] same ok by (simp_all add: app_ok_def app_view_def store_on_def)
  obtain d where d: "storeA (ap_data a) (export_to L (dl_fs D) []) w4 = (Ok (d, ap_data a), w4)" "map_of d = app_view L D w a" "wf_value L (VDict d)"
    "length d = length (st_index (ap_data a))" using export_app [OF a4(1)] a4(2) by metis
  have ex: "path_exists w4 ?p" "dk_files w4 (get_index_file (dl_fs D) ?p) = None" using d4(2) inside_child by (simp_all add: path_exists_def f4 get_index_file_def)
  have us': "length us = length d" "distinct us" "list_all (good_name L) us" using us d(4) by (simp_all add: new_names_def)
  let ?s0 = "\<lparr>ds_path = ?p, ds_index = [], ds_fs = dk_files w4\<rparr>"
  note oi = open_import [where fs = "dk_files w4" and p = ?p and exists = "path_exists w4", OF p ex d(3) us']
  obtain s where s: "import_from L (dl_fs D) us d ?s0 = (Ok (), s)" "ds_ok L (dl_fs D) s" "ds_view L (dl_fs D) s = map_of d" using oi(3) by blast
  note out = import_outside [OF s(1) us'(3), simplified]
  have o: "storeA data_store_new (disk_store_open L (dl_fs D) (path_exists w4) ?p) w4 = (Ok ((), \<lparr>st_path = ?p, st_index = []\<rparr>), w4)"
    using oi(2) by (simp add: storeA_def store_on_new)
  have im: "storeA \<lparr>st_path = ?p, st_index = []\<rparr> (import_from L (dl_fs D) us d) w4 = (Ok ((), \<lparr>st_path = ds_path s, st_index = ds_index s\<rparr>), w4\<lparr>dk_files := ds_fs s\<rparr>)"
    using s(1) by (simp add: storeA_def store_on_def)
  have m1: "disk_save D ?mf (encode_dict L (app_card a)) w = (Ok (), w\<lparr>dk_files := (dk_files w)(?mf \<mapsto> encode_dict L (app_card a))\<rparr>)"
    by (simp add: disk_save_def partA_def save_to_file_def writable)
  have card: "dict_put ''name'' (value_of_string (ap_name a)) (dict_put ''id'' (value_of_string (ap_id a)) []) = app_card a"
    by (simp add: app_card_def dict_put_def alist_put_new value_of_string_def to_bytes_def)
  have run: "save_app L D us dir a w = (Ok True, w4\<lparr>dk_files := ds_fs s\<rparr>)"
    using i n dir c2 c3 c4 d(1) o im m1
    by (simp add: save_app_def card path_exists_def [of w] stream_save_def writable w1_def [symmetric] bindA_Ok [of "disk_save D ?mf (encode_dict L (app_card a))"]
        bindA_Ok [of "create_directory D ?p"] bindA_Ok [of "delete_directory D ?p"] bindA_Ok [of "storeA (ap_data a) (export_to L (dl_fs D) [])"]
        bindA_Ok [of "storeA data_store_new (disk_store_open L (dl_fs D) (path_exists w4) ?p)"] bindA_Ok [of "storeA \<lparr>st_path = ?p, st_index = []\<rparr> (import_from L (dl_fs D) us d)"] retA_def)
  have "ds_fs s ?mf = Some (encode_dict L (app_card a))" "ds_fs s ?cf = Some (ap_code a)"
    using out(2) [of ?mf] out(2) [of ?cf] nested beside mc by (auto simp: f4 w1_def get_metadata_file_def get_code_file_def)
  then have "app_saved L D dir a (app_view L D w a) (w4\<lparr>dk_files := ds_fs s\<rparr>)"
    using s(2, 3) d(2) d4 out(1) by (auto simp: app_saved_def)
  moreover have "ds_fs s (get_remove_tag_path D dir) = dk_files w (get_remove_tag_path D dir)"
  proof -
    let ?rf = "get_remove_tag_path D dir"
    have ne: "?rf \<noteq> ?mf" "?rf \<noteq> ?cf" by (rule own_files)+
    have "ds_fs s ?rf = dk_files w4 ?rf" using out(2) [of ?rf] nested by (auto simp: get_remove_tag_path_def)
    moreover have "\<not> dl_inside D ?p ?rf" using beside by (simp add: get_remove_tag_path_def)
    ultimately show ?thesis using ne by (simp add: f4 w1_def)
  qed
  moreover have "dk_dirs w4 \<subseteq> dk_dirs w \<union> set (dl_above D ?p)" using create_ok [OF p, of w1] by (auto simp: w4 w3 w2_def w1_def split: if_splits)
  ultimately show ?thesis using run by auto
qed

text \<open>Saving an app in its own directory writes the metadata and the code, and leaves the store as it is.\<close>

lemma save_own_ok:
  assumes ok: "app_ok L D w a" and n: "ap_name a \<noteq> []" and dir: "dir \<noteq> []" "dir \<in> dk_dirs w" "ap_path a = dir"
    and st: "st_path (ap_data a) = get_data_path D dir" "get_data_path D dir \<in> dk_dirs w"
  shows "\<exists>w'. save_app L D us dir a w = (Ok True, w') \<and> app_saved L D dir a (app_view L D w a) w' \<and>
    dk_files w' (get_remove_tag_path D dir) = dk_files w (get_remove_tag_path D dir) \<and> dk_dirs w' \<subseteq> dk_dirs w \<union> set (dl_above D (get_data_path D dir))"
proof -
  let ?p = "get_data_path D dir" and ?mf = "get_metadata_file D dir" and ?cf = "get_code_file D dir"
  have p: "?p \<noteq> []" using join_some [OF dir(1)] by (simp add: get_data_path_def)
  have i: "ap_id a \<noteq> []" using ok by (simp add: app_ok_def)
  define w1 where "w1 = w\<lparr>dk_files := (dk_files w)(?mf \<mapsto> encode_dict L (app_card a), ?cf \<mapsto> ap_code a)\<rparr>"
  have c: "create_directory D ?p w1 = (Ok True, w1)" using create_ok [OF p, of w1] st(2) by (simp add: path_exists_def w1_def)
  have m1: "disk_save D ?mf (encode_dict L (app_card a)) w = (Ok (), w\<lparr>dk_files := (dk_files w)(?mf \<mapsto> encode_dict L (app_card a))\<rparr>)"
    by (simp add: disk_save_def partA_def save_to_file_def writable)
  have card: "dict_put ''name'' (value_of_string (ap_name a)) (dict_put ''id'' (value_of_string (ap_id a)) []) = app_card a"
    by (simp add: app_card_def dict_put_def alist_put_new value_of_string_def to_bytes_def)
  have run: "save_app L D us dir a w = (Ok True, w1)"
    using i n dir c m1
    by (simp add: save_app_def card path_exists_def [of w] stream_save_def writable w1_def [symmetric] bindA_Ok [of "disk_save D ?mf (encode_dict L (app_card a))"]
        bindA_Ok [of "create_directory D ?p"] retA_def)
  have same: "dk_files w1 (fl_join (dl_fs D) ?p x) = dk_files w (fl_join (dl_fs D) ?p x)" if "plain_name x" for x
    using nested [of METADATA_FILE x dir] nested [of CODE_FILE x dir] that by (auto simp: w1_def get_metadata_file_def get_code_file_def)
  have a1: "ds_ok L (dl_fs D) (store_on (ap_data a) w1)" "ds_view L (dl_fs D) (store_on (ap_data a) w1) = app_view L D w a"
    using ds_files_cong [of "store_on (ap_data a) w" "store_on (ap_data a) w1"] same ok by (simp_all add: app_ok_def app_view_def store_on_def st(1))
  have "dk_files w1 ?mf = Some (encode_dict L (app_card a))" "dk_files w1 ?cf = Some (ap_code a)" "dk_files w1 (get_remove_tag_path D dir) = dk_files w (get_remove_tag_path D dir)"
    using own_files [of dir] by (simp_all add: w1_def)
  moreover have "dk_dirs w1 = dk_dirs w" by (simp add: w1_def)
  moreover have "ds_path (store_on (ap_data a) w1) = ?p" "ds_fs (store_on (ap_data a) w1) = dk_files w1" using st(1) by (simp_all add: store_on_def)
  ultimately show ?thesis using run a1 dir(2) st(2) unfolding app_saved_def by auto
qed

lemma save_any_ok:
  assumes "app_ok L D w a" "ap_name a \<noteq> []" "dir \<noteq> []" "dir \<in> dk_dirs w" "saveable L D us dir w a"
  shows "\<exists>w'. save_app L D us dir a w = (Ok True, w') \<and> app_saved L D dir a (app_view L D w a) w' \<and>
    dk_files w' (get_remove_tag_path D dir) = dk_files w (get_remove_tag_path D dir) \<and> dk_dirs w' \<subseteq> dk_dirs w \<union> set (dl_above D (get_data_path D dir))"
proof (cases "ap_path a = dir")
  case True
  then show ?thesis using save_own_ok [OF assms(1-4)] assms(5) by (simp add: saveable_def)
next
  case False
  then show ?thesis using save_ok [OF assms(1-4)] assms(5) by (simp add: saveable_def)
qed

end

lemma read_lines_eq: "read_lines s = (if s = [] \<or> last s = CHR 10 then s else s @ [CHR 10])"
proof (induction s rule: read_lines.induct)
  case (1 s)
  let ?P = "\<lambda>c. c \<noteq> CHR 10"
  show ?case
  proof (cases "s = []")
    case True
    then show ?thesis by (simp add: read_lines.simps)
  next
    case False
    have s: "s = takeWhile ?P s @ dropWhile ?P s" by simp
    show ?thesis
    proof (cases "dropWhile ?P s")
      case Nil
      then have "takeWhile ?P s = s" "last s \<noteq> CHR 10" using False s by (auto simp: dropWhile_eq_Nil_conv)
      moreover have "read_lines s = takeWhile ?P s @ CHR 10 # read_lines (drop 1 (dropWhile ?P s))" using False by (subst read_lines.simps) simp
      moreover have "read_lines [] = []" by (simp add: read_lines.simps)
      ultimately show ?thesis using False unfolding Nil by simp
    next
      case (Cons c r)
      then have c: "c = CHR 10" using hd_dropWhile [of ?P s] by auto
      then have split: "s = takeWhile ?P s @ CHR 10 # r" using s Cons by simp
      have "read_lines s = takeWhile ?P s @ CHR 10 # read_lines r" using False Cons by (subst read_lines.simps) simp
      also have "read_lines r = (if r = [] \<or> last r = CHR 10 then r else r @ [CHR 10])" using 1 False Cons by simp
      finally have "read_lines s = (if r = [] \<or> last r = CHR 10 then takeWhile ?P s @ CHR 10 # r else takeWhile ?P s @ CHR 10 # r @ [CHR 10])" by simp
      moreover have "last s = (if r = [] then CHR 10 else last r)" by (subst split) simp
      moreover have "takeWhile ?P s @ CHR 10 # r @ [CHR 10] = s @ [CHR 10]" by (subst (2) split) simp
      ultimately show ?thesis using split False by simp
    qed
  qed
qed

context dir_env
begin

lemma load_metadata_ok:
  assumes "dir \<noteq> []" "ap_id a \<noteq> []" "ap_name a \<noteq> []" "wf_value L (VDict (app_card a))" "dk_files w (get_metadata_file D dir) = Some (encode_dict L (app_card a))"
  shows "load_app_metadata L D dir w = (Ok (Some \<lparr>md_path = dir, md_id = ap_id a, md_name = ap_name a\<rparr>), w)"
proof -
  have "load_from_file (read_dict L) (get_metadata_file D dir) (dk_files w) [] = Ok (True, app_card a)"
    using assms(5) read_dict_whole [OF assms(4)] by (simp add: load_from_file_def)
  then show ?thesis using assms(1-3) by (simp add: load_app_metadata_def dict_ref_def app_card_def to_str_def retA_def)
qed

lemma load_ok:
  assumes "dir \<noteq> []" "ap_id a \<noteq> []" "ap_name a \<noteq> []" "wf_value L (VDict (app_card a))" "app_saved L D dir a v w"
  shows "\<exists>a'. load_app L D dir w = (Ok (Some a'), w) \<and> ap_meta a' = \<lparr>md_path = dir, md_id = ap_id a, md_name = ap_name a\<rparr> \<and> ap_code a' = read_lines (ap_code a) \<and>
    app_ok L D w a' \<and> app_view L D w a' = v \<and> (\<forall>us. saveable L D us dir w a')"
proof -
  let ?p = "get_data_path D dir"
  obtain s where s: "ds_ok L (dl_fs D) s" "ds_view L (dl_fs D) s = v" "ds_path s = ?p" "ds_fs s = dk_files w" using assms(5) by (auto simp: app_saved_def)
  have w: "path_exists w dir" "path_exists w ?p" "dk_files w (get_code_file D dir) = Some (ap_code a)" "dk_files w (get_metadata_file D dir) = Some (encode_dict L (app_card a))"
    using assms(5) by (simp_all add: app_saved_def path_exists_def)
  have p: "?p \<noteq> []" using join_some [OF assms(1)] by (simp add: get_data_path_def)
  have meta: "load_app_metadata L D dir w = (Ok (Some \<lparr>md_path = dir, md_id = ap_id a, md_name = ap_name a\<rparr>), w)" by (rule load_metadata_ok [OF assms(1-4) w(4)])
  have c: "create_directory D ?p w = (Ok True, w)" using create_ok [OF p, of w] w(2) by simp
  have "ds_load L (dl_fs D) (path_exists w) ?p (disk_store_new (dk_files w)) = (Ok (), s)" using reload_law [OF s(1), of "path_exists w"] s(3, 4) w(2) by simp
  then have l: "storeA data_store_new (ds_load L (dl_fs D) (path_exists w) ?p) w = (Ok ((), \<lparr>st_path = ds_path s, st_index = ds_index s\<rparr>), w)"
    using s(4) by (simp add: storeA_def store_on_new)
  let ?a = "(blank_app (ap_id a) True)\<lparr>ap_meta := \<lparr>md_path = dir, md_id = ap_id a, md_name = ap_name a\<rparr>, ap_code := read_lines (ap_code a), ap_data := \<lparr>st_path = ds_path s, st_index = ds_index s\<rparr>\<rparr>"
  have "load_app L D dir w = (Ok (Some ?a), w)"
    using w assms(1-3) meta c l
    by (simp add: load_app_def bindA_Ok [of "load_app_metadata L D dir"] bindA_Ok [of "create_directory D ?p"] bindA_Ok [of "storeA data_store_new (ds_load L (dl_fs D) (path_exists w) ?p)"]
        app_with_id_def blank_app_def app_set_code_def app_set_name_def app_set_path_def Let_def retA_def)
  moreover have "store_on (ap_data ?a) w = s" using s(4) by (simp add: store_on_def)
  moreover have "saveable L D us dir w ?a" for us using s(3) assms(5) by (simp add: saveable_def app_saved_def)
  ultimately show ?thesis using s(1, 2) assms(2) by (intro exI [of _ ?a]) (simp add: app_ok_def app_view_def)
qed

end

text \<open>An instance of the directories: paths are lists of characters joined by a slash.\<close>

definition sample_dirs :: dir_lib where
  "sample_dirs = \<lparr>dl_fs = sample_fs, dl_above = (\<lambda>d. [d]), dl_inside = (\<lambda>d p. p = d \<or> take (length d + 1) p = d @ ''/''), dl_entries = (\<lambda>d ds. if d = ''a'' then [''a/i''] else [])\<rparr>"

lemma sample_dir_env: "dir_env decimal_lib sample_dirs"
proof -
  have f: "dl_fs sample_dirs = sample_fs" by (simp add: sample_dirs_def)
  show ?thesis
    by (intro dir_env.intro dir_env_axioms.intro)
      (auto simp: f sample_fs_env, auto simp: sample_dirs_def sample_fs_def get_data_path_def METADATA_FILE_def CODE_FILE_def REMOVE_TAG_FILE_def get_remove_tag_path_def DATA_PATH_def append_eq_append_conv_if)
qed

interpretation sd: dir_env decimal_lib sample_dirs
  by (rule sample_dir_env)

end
