(* ===== verification/App_Service.thy ===== *)
theory App_Service
  imports App
begin

text \<open>
  The service that keeps the installed apps, \<^verbatim>\<open>src/src/gui/app/app_service.cpp\<close>: it finds them in the directory \<^verbatim>\<open>apps\<close> of the home directory,
  makes new ones and received ones in \<^verbatim>\<open>tmp\<close>, saves, removes, exports and imports them.  The mutex is held by every public operation; the mail is only used
  for the event that the list has changed.
\<close>

section \<open>State\<close>

definition APP_HOME :: string where "APP_HOME = ''apps''"
definition LOCAL_DATA :: string where "LOCAL_DATA = ''data''"
definition TMP_APP_HOME :: string where "TMP_APP_HOME = ''tmp''"
definition DATA_DIR :: string where "DATA_DIR = ''data''"
definition APPS_UPDATED :: string where "APPS_UPDATED = ''apps_updated''"

definition get_app_home :: "dir_lib \<Rightarrow> string \<Rightarrow> string" where "get_app_home D home = fl_join (dl_fs D) home APP_HOME"
definition get_tmp_app_home :: "dir_lib \<Rightarrow> string \<Rightarrow> string" where "get_tmp_app_home D home = fl_join (dl_fs D) home TMP_APP_HOME"
definition get_local_data_dir :: "dir_lib \<Rightarrow> string \<Rightarrow> string" where "get_local_data_dir D home = fl_join (dl_fs D) home LOCAL_DATA"
definition get_app_dir :: "dir_lib \<Rightarrow> string \<Rightarrow> string \<Rightarrow> string" where "get_app_dir D root i = fl_join (dl_fs D) root i"
definition get_app_data_dir :: "dir_lib \<Rightarrow> string \<Rightarrow> string" where "get_app_data_dir D root = fl_join (dl_fs D) root DATA_DIR"

record app_service =
  as_app_home :: string
  as_tmp_home :: string
  as_apps :: "(string \<times> app_metadata) list"
  as_local :: data_store
  as_disk :: disk
  as_events :: "string list"

type_synonym 'a as_action = "(app_service, 'a) action"

definition onDisk :: "'a disk_action \<Rightarrow> 'a as_action" where
  "onDisk m s = (let (r, w) = m (as_disk s) in (r, s\<lparr>as_disk := w\<rparr>))"

definition fire_apps_updated_event :: "unit as_action" where
  "fire_apps_updated_event = modA (\<lambda>s. s\<lparr>as_events := as_events s @ [APPS_UPDATED]\<rparr>)"

section \<open>Operations\<close>

definition load_apps :: "cxx_lib \<Rightarrow> dir_lib \<Rightarrow> unit as_action" where
  "load_apps L D =
     bindA (getA (\<lambda>s. dl_entries D (as_app_home s) (dk_dirs (as_disk s)))) (forA (\<lambda>p.
       bindA (getA (\<lambda>s. p \<in> dk_dirs (as_disk s) \<and> \<not> app_removed D p (as_disk s))) (\<lambda>b. if \<not> b then retA ()
       else bindA (onDisk (load_app_metadata L D p)) (\<lambda>mo. case mo of None \<Rightarrow> retA ()
         | Some m \<Rightarrow> modA (\<lambda>s. s\<lparr>as_apps := alist_put (md_id m) m (as_apps s)\<rparr>)))))"

definition app_service_start :: "cxx_lib \<Rightarrow> dir_lib \<Rightarrow> string \<Rightarrow> unit as_action" where
  "app_service_start L D home =
     thenA (modA (\<lambda>s. s\<lparr>as_app_home := get_app_home D home, as_tmp_home := get_tmp_app_home D home\<rparr>))
     (thenA (onDisk (create_directory D (get_local_data_dir D home)))
     (bindA (getA (\<lambda>s. path_exists (as_disk s))) (\<lambda>ex.
      bindA (onDisk (storeA data_store_new (ds_load L (dl_fs D) ex (get_local_data_dir D home)))) (\<lambda>(_, sd).
      thenA (modA (\<lambda>s. s\<lparr>as_local := sd\<rparr>))
      (thenA (onDisk (create_directory D (get_app_home D home)))
      (thenA (load_apps L D)
      (bindA (getA (\<lambda>s. as_app_home s \<noteq> [] \<and> as_tmp_home s \<noteq> [])) requireA)))))))"

definition available_apps :: "app_service \<Rightarrow> (string \<times> app_metadata) list" where
  "available_apps s = as_apps s"

definition as_load_app :: "cxx_lib \<Rightarrow> dir_lib \<Rightarrow> string \<Rightarrow> app option as_action" where
  "as_load_app L D i =
     bindA (getA (\<lambda>s. map_of (as_apps s) i)) (\<lambda>mo. case mo of None \<Rightarrow> retA None | Some m \<Rightarrow> onDisk (load_app L D (md_path m)))"

definition setup_tmp_dir :: "dir_lib \<Rightarrow> message \<Rightarrow> string \<Rightarrow> string disk_action" where
  "setup_tmp_dir D m tmp_root =
     bindA (liftA (extra_string m ''app_id'')) (\<lambda>i.
       let t = get_app_dir D tmp_root i in thenA (create_directory D (get_app_data_dir D t)) (retA t))"

definition setup_tmp_app :: "cxx_lib \<Rightarrow> dir_lib \<Rightarrow> app \<Rightarrow> string \<Rightarrow> app disk_action" where
  "setup_tmp_app L D a tmp_root =
     bindA (liftA (app_id a)) (\<lambda>i.
       let t = get_app_dir D tmp_root i; d = get_app_data_dir D t
       in thenA (create_directory D d)
          (bindA (getA (\<lambda>w. path_exists w)) (\<lambda>ex.
           bindA (storeA (ap_data a) (ds_load L (dl_fs D) ex d)) (\<lambda>(_, sd).
             retA (app_set_tmp ((app_set_path t a)\<lparr>ap_data := sd\<rparr>))))))"

definition create_app :: "cxx_lib \<Rightarrow> dir_lib \<Rightarrow> string list \<Rightarrow> message \<Rightarrow> app as_action" where
  "create_app L D us m =
     bindA (getA as_tmp_home) (\<lambda>h.
     bindA (onDisk (setup_tmp_dir D m h)) (\<lambda>tmp_dir.
     bindA (onDisk (app_from_message L D us tmp_dir m)) (\<lambda>a. retA (app_set_tmp a))))"

definition create_new_app :: "cxx_lib \<Rightarrow> dir_lib \<Rightarrow> string \<Rightarrow> app as_action" where
  "create_new_app L D uuid =
     bindA (getA as_tmp_home) (\<lambda>h. bindA (liftA (app_fresh uuid)) (\<lambda>a. onDisk (setup_tmp_app L D a h)))"

definition as_save_app :: "cxx_lib \<Rightarrow> dir_lib \<Rightarrow> string list \<Rightarrow> app \<Rightarrow> bool as_action" where
  "as_save_app L D us a =
     bindA (getA as_app_home) (\<lambda>h. thenA (requireA (h \<noteq> []))
     (bindA (liftA (app_id a)) (\<lambda>i.
       let app_dir = get_app_dir D h i in
       thenA (onDisk (create_directory D app_dir))
       (bindA (onDisk (save_app L D us app_dir a)) (\<lambda>saved.
        bindA (onDisk (load_app_metadata L D app_dir)) (\<lambda>mo. case mo of None \<Rightarrow> retA False
          | Some m \<Rightarrow>
             thenA (modA (\<lambda>s. s\<lparr>as_apps := alist_put (md_id m) m (as_apps s)\<rparr>)) (thenA fire_apps_updated_event (retA saved))))))))"

definition as_remove_app :: "dir_lib \<Rightarrow> string \<Rightarrow> bool as_action" where
  "as_remove_app D i =
     thenA (requireA (i \<noteq> []))
     (bindA (getA (\<lambda>s. (as_app_home s, map_of (as_apps s) i))) (\<lambda>(h, mo). case mo of None \<Rightarrow> retA False
      | Some m \<Rightarrow>
         thenA (requireA (md_id m \<noteq> [])) (thenA (requireA (md_path m \<noteq> []))
         (thenA (requireA (take (length h) (md_path m) = h))
         (bindA (onDisk (tag_app_removed D (md_path m))) (\<lambda>b. if \<not> b then retA False
          else thenA (modA (\<lambda>s. s\<lparr>as_apps := alist_del i (as_apps s)\<rparr>)) (thenA fire_apps_updated_event (retA True))))))))"

definition clone_app :: "cxx_lib \<Rightarrow> dir_lib \<Rightarrow> string \<Rightarrow> string list \<Rightarrow> app \<Rightarrow> bool as_action" where
  "clone_app L D uuid us a =
     bindA (getA as_app_home) (\<lambda>h. thenA (requireA (h \<noteq> [])) (thenA (requireA (ap_name a \<noteq> [])) (as_save_app L D us (app_clone uuid a))))"

definition export_app :: "cxx_lib \<Rightarrow> snappy_lib \<Rightarrow> dir_lib \<Rightarrow> app \<Rightarrow> string \<Rightarrow> unit as_action" where
  "export_app L S D a file = onDisk (export_app_as_message L S D file a)"

definition import_app :: "cxx_lib \<Rightarrow> snappy_lib \<Rightarrow> dir_lib \<Rightarrow> string list \<Rightarrow> string \<Rightarrow> app as_action" where
  "import_app L S D us file = bindA (onDisk (import_app_as_message L S file)) (create_app L D us)"

lemma onDisk_Ok: "m (as_disk s) = (Ok a, w) \<Longrightarrow> onDisk m s = (Ok a, s\<lparr>as_disk := w\<rparr>)"
  by (simp add: onDisk_def)

lemma letter_received: "as_received (app_letter a b) = app_letter a b"
  by (simp add: as_received_def app_letter_def metadata_default_def)

lemma letter_id [simp]: "extra_string (app_letter a b) ''app_id'' = Ok (ap_id a)"
  by (simp add: extra_string_def app_letter_def dict_get_def to_str_def)

lemma data_dirs: "get_app_data_dir D t = get_data_path D t"
  by (simp add: get_app_data_dir_def get_data_path_def DATA_DIR_def DATA_PATH_def)

context dir_env
begin

lemma create_app_ok:
  assumes d: "wf_value L (VDict d)" and us: "length us = length d" "distinct us" "list_all (good_name L) us" and i: "ap_id a \<noteq> []" and h: "as_tmp_home s \<noteq> []"
    and none: "dk_files (as_disk s) (get_index_file (dl_fs D) (get_data_path D (get_app_dir D (as_tmp_home s) (ap_id a)))) = None"
  shows "\<exists>a' s'. create_app L D us (app_letter a (encode_dict L d)) s = (Ok a', s') \<and> app_ok L D (as_disk s') a' \<and> app_view L D (as_disk s') a' = map_of d \<and>
    ap_id a' = ap_id a \<and> ap_name a' = ap_name a \<and> ap_code a' = ap_code a \<and> ap_is_tmp a' \<and> dk_dirs (as_disk s) \<subseteq> dk_dirs (as_disk s')"
proof -
  let ?t = "get_app_dir D (as_tmp_home s) (ap_id a)"
  have t: "?t \<noteq> []" using join_some [OF h] by (simp add: get_app_dir_def)
  have p: "get_data_path D ?t \<noteq> []" using join_some [OF t] by (simp add: get_data_path_def)
  define w where "w = snd (create_directory D (get_data_path D ?t) (as_disk s))"
  have c: "create_directory D (get_data_path D ?t) (as_disk s) = (Ok True, w)" using create_ok [OF p, of "as_disk s"] by (simp add: w_def)
  have "dk_files w = dk_files (as_disk s)" using create_ok [OF p, of "as_disk s"] by (simp add: w_def)
  then have fresh: "fresh_data_dir D ?t w" using create_exists [OF p, of "as_disk s"] none by (simp add: fresh_data_dir_def w_def)
  have su: "onDisk (setup_tmp_dir D (app_letter a (encode_dict L d)) (as_tmp_home s)) s = (Ok ?t, s\<lparr>as_disk := w\<rparr>)"
    using c by (intro onDisk_Ok) (simp add: setup_tmp_dir_def data_dirs Let_def bindA_Ok [of "create_directory D (get_data_path D ?t)"] retA_def)
  obtain a' w' where a': "app_from_message L D us ?t (app_letter a (encode_dict L d)) w = (Ok a', w')" "app_ok L D w' a'" "app_view L D w' a' = map_of d"
    "ap_id a' = ap_id a" "ap_name a' = ap_name a" "ap_code a' = ap_code a" "dk_dirs w' = dk_dirs w"
    using from_message_ok [OF d us i fresh t] by blast
  have dirs: "dk_dirs (as_disk s) \<subseteq> dk_dirs w" using create_ok [OF p, of "as_disk s"] by (auto simp: w_def)
  have "onDisk (app_from_message L D us ?t (app_letter a (encode_dict L d))) (s\<lparr>as_disk := w\<rparr>) = (Ok a', s\<lparr>as_disk := w'\<rparr>)"
    using onDisk_Ok [of "app_from_message L D us ?t (app_letter a (encode_dict L d))" "s\<lparr>as_disk := w\<rparr>" a' w'] a'(1) by simp
  then have "create_app L D us (app_letter a (encode_dict L d)) s = (Ok (app_set_tmp a'), s\<lparr>as_disk := w'\<rparr>)"
    using su by (simp add: create_app_def bindA_Ok [of "onDisk (setup_tmp_dir D (app_letter a (encode_dict L d)) (as_tmp_home s))"] bindA_Ok [of "onDisk (app_from_message L D us ?t (app_letter a (encode_dict L d)))"] retA_def)
  then show ?thesis using a' dirs by (simp add: app_ok_def app_view_def app_set_tmp_def)
qed

lemma import_app_ok:
  assumes S: "snappy_laws S" and ok: "app_ok L D (as_disk s) a" and us: "new_names L a us" and h: "as_tmp_home s \<noteq> []"
    and fits: "\<And>m. message_of_app L D a (as_disk s) = (Ok m, as_disk s) \<Longrightarrow> wf_message L m \<and> length (compress S (encode_message L m)) \<le> max_alloc L"
    and none: "dk_files (as_disk s) (get_index_file (dl_fs D) (get_data_path D (get_app_dir D (as_tmp_home s) (ap_id a)))) = None"
    and other: "file \<noteq> get_index_file (dl_fs D) (get_data_path D (get_app_dir D (as_tmp_home s) (ap_id a)))"
  shows "\<exists>s1 s2 a'. export_app L S D a file s = (Ok (), s1) \<and> import_app L S D us file s1 = (Ok a', s2) \<and> app_ok L D (as_disk s2) a' \<and>
    app_view L D (as_disk s2) a' = app_view L D (as_disk s) a \<and> ap_id a' = ap_id a \<and> ap_name a' = ap_name a \<and> ap_code a' = ap_code a \<and> ap_is_tmp a'"
proof -
  obtain d where d: "message_of_app L D a (as_disk s) = (Ok (app_letter a (encode_dict L d)), as_disk s)" "map_of d = app_view L D (as_disk s) a" "wf_value L (VDict d)"
    "length d = length (st_index (ap_data a))" using message_of_app_ok [OF ok] .
  let ?m = "app_letter a (encode_dict L d)"
  let ?z = "compress S (encode_message L ?m)"
  define s1 where "s1 = s\<lparr>as_disk := (as_disk s)\<lparr>dk_files := (dk_files (as_disk s))(file \<mapsto> encode_b L ?z)\<rparr>\<rparr>"
  have ex: "export_app L S D a file s = (Ok (), s1)"
    using d(1) unfolding export_app_def
    by (subst onDisk_Ok [where a = "()"])
      (simp_all add: export_app_as_message_def bindA_Ok [of "message_of_app L D a"] disk_save_def partA_def save_to_file_def writable s1_def)
  have un: "uncompress S ?z = encode_message L ?m" using snappy_laws.uncompress_compress [OF S] by (simp add: compress_def uncompress_def to_bytes_def)
  have dec: "decode_message L (encode_message L ?m) = Ok ?m" using message_roundtrip [of ?m] fits [OF d(1)] by (simp add: letter_received)
  have "load_from_file (read_bytes L) file (dk_files (as_disk s1)) [] = Ok (True, ?z)"
    using read_bytes_encode [of ?z "[]"] fits [OF d(1)] by (simp add: load_from_file_def s1_def stream_of_def)
  then have im: "onDisk (import_app_as_message L S file) s1 = (Ok ?m, s1)"
    using onDisk_Ok [of "import_app_as_message L S file" s1 ?m "as_disk s1"] un dec by (simp add: import_app_as_message_def decode_app_message_def liftA_def)
  have i: "ap_id a \<noteq> []" using ok by (simp add: app_ok_def)
  obtain a' s2 where "create_app L D us ?m s1 = (Ok a', s2)" "app_ok L D (as_disk s2) a'" "app_view L D (as_disk s2) a' = map_of d"
    "ap_id a' = ap_id a" "ap_name a' = ap_name a" "ap_code a' = ap_code a" "ap_is_tmp a'"
    using create_app_ok [OF d(3), of us a s1] us d(4) i h none other by (auto simp: new_names_def s1_def)
  then show ?thesis using ex im d(2) by (intro exI [of _ s1] exI [of _ s2] exI [of _ a']) (simp add: import_app_def bindA_Ok [of "onDisk (import_app_as_message L S file)"])
qed

end

section \<open>What a start finds\<close>

definition listed :: "cxx_lib \<Rightarrow> dir_lib \<Rightarrow> disk \<Rightarrow> string \<Rightarrow> app_metadata option outcome" where
  "listed L D w p = (if p \<in> dk_dirs w \<and> \<not> app_removed D p w then fst (load_app_metadata L D p w) else Ok None)"

lemma load_metadata_reads: "snd (load_app_metadata L D p w) = w"
proof -
  have "keeps (\<lambda>v. v = w) (load_app_metadata L D p)"
    unfolding load_app_metadata_def Let_def by (intro keeps_intros)
  then show ?thesis by (simp add: keeps_def)
qed

definition list_app :: "app_metadata option \<Rightarrow> (string \<times> app_metadata) list \<Rightarrow> (string \<times> app_metadata) list" where
  "list_app mo as = (case mo of None \<Rightarrow> as | Some m \<Rightarrow> alist_put (md_id m) m as)"

lemma load_apps_eq:
  assumes "\<forall>p \<in> set (dl_entries D (as_app_home s) (dk_dirs (as_disk s))). listed L D (as_disk s) p = Ok (f p)"
  shows "load_apps L D s = (Ok (), s\<lparr>as_apps := fold (\<lambda>p. list_app (f p)) (dl_entries D (as_app_home s) (dk_dirs (as_disk s))) (as_apps s)\<rparr>)"
proof -
  define step where "step = (\<lambda>p. bindA (getA (\<lambda>s. p \<in> dk_dirs (as_disk s) \<and> \<not> app_removed D p (as_disk s))) (\<lambda>b. if \<not> b then retA ()
       else bindA (onDisk (load_app_metadata L D p)) (\<lambda>mo. case mo of None \<Rightarrow> retA ()
         | Some m \<Rightarrow> modA (\<lambda>s. s\<lparr>as_apps := alist_put (md_id m) m (as_apps s)\<rparr>))))"
  have step: "step p t = (Ok (), t\<lparr>as_apps := list_app (f p) (as_apps t)\<rparr>)" if "listed L D (as_disk t) p = Ok (f p)" for p t
  proof (cases "p \<in> dk_dirs (as_disk t) \<and> \<not> app_removed D p (as_disk t)")
    case True
    then have "load_app_metadata L D p (as_disk t) = (Ok (f p), as_disk t)" using that load_metadata_reads [of L D p "as_disk t"] by (metis listed_def prod.collapse)
    then have "onDisk (load_app_metadata L D p) t = (Ok (f p), t)" by (simp add: onDisk_def)
    then show ?thesis using True by (cases "f p") (simp_all add: step_def bindA_Ok [of "onDisk (load_app_metadata L D p)"] list_app_def retA_def modA_def)
  next
    case False
    then have "f p = None" using that by (auto simp: listed_def split: if_splits)
    then show ?thesis using False by (simp add: step_def list_app_def retA_def)
  qed
  have "forA step ps t = (Ok (), t\<lparr>as_apps := fold (\<lambda>p. list_app (f p)) ps (as_apps t)\<rparr>)"
    if "\<forall>p \<in> set ps. listed L D (as_disk t) p = Ok (f p)" for ps t
    using that
  proof (induction ps arbitrary: t)
    case (Cons p ps)
    show ?case using step [of t p] Cons by (simp add: bindA_Ok [of "step p"])
  qed (simp add: retA_def)
  then show ?thesis using assms by (simp add: load_apps_def step_def)
qed

lemma fold_list_app_other:
  "\<forall>p \<in> set ps. \<forall>m. f p = Some m \<longrightarrow> md_id m \<noteq> i \<Longrightarrow> map_of (fold (\<lambda>p. list_app (f p)) ps as) i = map_of as i"
  by (induction ps arbitrary: as) (auto simp: list_app_def split: option.splits)

lemma fold_list_app_one:
  assumes "p \<in> set ps" "f p = Some m" "\<forall>q \<in> set ps. q \<noteq> p \<longrightarrow> (\<forall>m'. f q = Some m' \<longrightarrow> md_id m' \<noteq> md_id m)"
  shows "map_of (fold (\<lambda>p. list_app (f p)) ps as) (md_id m) = Some m"
  using assms
proof (induction ps arbitrary: as)
  case (Cons q ps)
  show ?case
  proof (cases "p \<in> set ps")
    case True
    then show ?thesis using Cons by simp
  next
    case False
    then have "q = p" using Cons.prems(1) by simp
    moreover have "map_of (fold (\<lambda>p. list_app (f p)) ps (list_app (f p) as)) (md_id m) = map_of (list_app (f p) as) (md_id m)"
      using Cons.prems(3) False by (intro fold_list_app_other) auto
    moreover have "map_of (list_app (f p) as) (md_id m) = Some m" using Cons.prems(2) by (simp add: list_app_def)
    ultimately show ?thesis by simp
  qed
qed simp

text \<open>The other directories of the home can be read and hold other apps.\<close>

definition others_apart :: "cxx_lib \<Rightarrow> dir_lib \<Rightarrow> disk \<Rightarrow> string \<Rightarrow> string \<Rightarrow> string \<Rightarrow> bool" where
  "others_apart L D w home dir i \<longleftrightarrow> (\<forall>p \<in> set (dl_entries D home (dk_dirs w)). p \<noteq> dir \<longrightarrow> (\<exists>mo. listed L D w p = Ok mo \<and> (\<forall>m. mo = Some m \<longrightarrow> md_id m \<noteq> i)))"

definition next_start :: "cxx_lib \<Rightarrow> dir_lib \<Rightarrow> app_service \<Rightarrow> unit outcome \<times> app_service" where
  "next_start L D s = load_apps L D (s\<lparr>as_apps := [], as_events := []\<rparr>)"

lemma next_start_finds:
  assumes "others_apart L D (as_disk s) (as_app_home s) dir (md_id m)" "listed L D (as_disk s) dir = Ok (Some m)" "dir \<in> set (dl_entries D (as_app_home s) (dk_dirs (as_disk s)))"
  shows "\<exists>s1. next_start L D s = (Ok (), s1) \<and> map_of (as_apps s1) (md_id m) = Some m"
proof -
  define f where "f p = (case listed L D (as_disk s) p of Ok mo \<Rightarrow> mo | _ \<Rightarrow> None)" for p
  have "\<forall>p \<in> set (dl_entries D (as_app_home s) (dk_dirs (as_disk s))). listed L D (as_disk s) p = Ok (f p)"
    using assms(1, 2) by (auto simp: others_apart_def f_def split: outcome.splits)
  moreover have "map_of (fold (\<lambda>p. list_app (f p)) (dl_entries D (as_app_home s) (dk_dirs (as_disk s))) []) (md_id m) = Some m"
    using assms by (intro fold_list_app_one [of dir]) (auto simp: f_def others_apart_def split: outcome.splits)
  ultimately show ?thesis using load_apps_eq [of D "s\<lparr>as_apps := [], as_events := []\<rparr>" L f] by (simp add: next_start_def)
qed

lemma next_start_misses:
  assumes "others_apart L D (as_disk s) (as_app_home s) dir i" "listed L D (as_disk s) dir = Ok None"
  shows "\<exists>s1. next_start L D s = (Ok (), s1) \<and> map_of (as_apps s1) i = None"
proof -
  define f where "f p = (case listed L D (as_disk s) p of Ok mo \<Rightarrow> mo | _ \<Rightarrow> None)" for p
  have "\<forall>p \<in> set (dl_entries D (as_app_home s) (dk_dirs (as_disk s))). listed L D (as_disk s) p = Ok (f p)"
    using assms by (auto simp: others_apart_def f_def split: outcome.splits)
  moreover have "map_of (fold (\<lambda>p. list_app (f p)) (dl_entries D (as_app_home s) (dk_dirs (as_disk s))) []) i = map_of [] i"
    using assms by (intro fold_list_app_other) (auto simp: f_def others_apart_def split: outcome.splits)
  ultimately show ?thesis using load_apps_eq [of D "s\<lparr>as_apps := [], as_events := []\<rparr>" L f] by (simp add: next_start_def)
qed

section \<open>Saving and removing\<close>

context dir_env
begin

lemma as_save_ok:
  assumes ok: "app_ok L D (as_disk s) a" and n: "ap_name a \<noteq> []" and h: "as_app_home s \<noteq> []" and card: "wf_value L (VDict (app_card a))"
    and dir: "dir = get_app_dir D (as_app_home s) (ap_id a)" "dk_files (as_disk s) dir = None" and can: "saveable L D us dir (as_disk s) a"
  shows "\<exists>w. as_save_app L D us a s = (Ok True, s\<lparr>as_disk := w, as_apps := alist_put (ap_id a) \<lparr>md_path = dir, md_id = ap_id a, md_name = ap_name a\<rparr> (as_apps s),
      as_events := as_events s @ [APPS_UPDATED]\<rparr>) \<and> app_saved L D dir a (app_view L D (as_disk s) a) w \<and>
    dk_files w (get_remove_tag_path D dir) = dk_files (as_disk s) (get_remove_tag_path D dir) \<and> (\<not> app_removed D dir (as_disk s) \<longrightarrow> \<not> app_removed D dir w)"
proof -
  have d: "dir \<noteq> []" using join_some [OF h] dir(1) by (simp add: get_app_dir_def)
  have i: "ap_id a \<noteq> []" using ok by (simp add: app_ok_def)
  define w1 where "w1 = snd (create_directory D dir (as_disk s))"
  have c: "create_directory D dir (as_disk s) = (Ok True, w1)" and f1: "dk_files w1 = dk_files (as_disk s)" using create_ok [OF d, of "as_disk s"] by (simp_all add: w1_def)
  have d1: "dir \<in> dk_dirs w1" using create_exists [OF d, of "as_disk s"] f1 dir(2) by (simp add: path_exists_def w1_def)
  have ok1: "app_ok L D w1 a" "app_view L D w1 a = app_view L D (as_disk s) a" using ok f1 by (simp_all add: app_ok_def app_view_def store_on_def)
  have "dk_dirs (as_disk s) \<subseteq> dk_dirs w1" using create_ok [OF d, of "as_disk s"] by (auto simp: w1_def)
  then have can1: "saveable L D us dir w1 a" using can by (auto simp: saveable_def)
  obtain w where w: "save_app L D us dir a w1 = (Ok True, w)" "app_saved L D dir a (app_view L D (as_disk s) a) w"
      "dk_files w (get_remove_tag_path D dir) = dk_files (as_disk s) (get_remove_tag_path D dir)" "dk_dirs w \<subseteq> dk_dirs w1 \<union> set (dl_above D (get_data_path D dir))"
    using save_any_ok [OF ok1(1) n d d1 can1] ok1(2) f1 by auto
  have m: "load_app_metadata L D dir w = (Ok (Some \<lparr>md_path = dir, md_id = ap_id a, md_name = ap_name a\<rparr>), w)"
    using load_metadata_ok [OF d i n card] w(2) by (simp add: app_saved_def)
  have "onDisk (create_directory D dir) s = (Ok True, s\<lparr>as_disk := w1\<rparr>)" "onDisk (save_app L D us dir a) (s\<lparr>as_disk := w1\<rparr>) = (Ok True, s\<lparr>as_disk := w\<rparr>)"
      "onDisk (load_app_metadata L D dir) (s\<lparr>as_disk := w\<rparr>) = (Ok (Some \<lparr>md_path = dir, md_id = ap_id a, md_name = ap_name a\<rparr>), s\<lparr>as_disk := w\<rparr>)"
    using c w(1) m by (simp_all add: onDisk_def)
  then have "as_save_app L D us a s = (Ok True, s\<lparr>as_disk := w, as_apps := alist_put (ap_id a) \<lparr>md_path = dir, md_id = ap_id a, md_name = ap_name a\<rparr> (as_apps s),
      as_events := as_events s @ [APPS_UPDATED]\<rparr>)"
    using h i by (simp add: as_save_app_def app_id_def dir(1) [symmetric] Let_def bindA_Ok [of "onDisk (create_directory D dir)"] bindA_Ok [of "onDisk (save_app L D us dir a)"]
        bindA_Ok [of "onDisk (load_app_metadata L D dir)"] fire_apps_updated_event_def retA_def)
  moreover have "dk_dirs w1 \<subseteq> dk_dirs (as_disk s) \<union> set (dl_above D dir)" using create_ok [OF d, of "as_disk s"] by (auto simp: w1_def)
  then have "\<not> app_removed D dir (as_disk s) \<longrightarrow> \<not> app_removed D dir w" using w(3, 4) tag_apart [of dir] by (auto simp: app_removed_def path_exists_def)
  ultimately show ?thesis using w(2, 3) by blast
qed

lemma saved_listed:
  assumes "app_saved L D dir a v w" "dir \<noteq> []" "ap_id a \<noteq> []" "ap_name a \<noteq> []" "wf_value L (VDict (app_card a))" "\<not> app_removed D dir w"
  shows "listed L D w dir = Ok (Some \<lparr>md_path = dir, md_id = ap_id a, md_name = ap_name a\<rparr>)"
  using assms(1, 6) load_metadata_ok [OF assms(2-5), of w] by (simp add: listed_def app_saved_def)

lemma as_remove_ok:
  assumes "map_of (as_apps s) i = Some m" "plain_name i" "md_id m = i" "md_path m = get_app_dir D (as_app_home s) i" "as_app_home s \<noteq> []" "path_exists (as_disk s) (md_path m)"
  shows "as_remove_app D i s = (Ok True, s\<lparr>as_disk := (as_disk s)\<lparr>dk_files := (dk_files (as_disk s))(get_remove_tag_path D (md_path m) \<mapsto> ''1'')\<rparr>,
    as_apps := alist_del i (as_apps s), as_events := as_events s @ [APPS_UPDATED]\<rparr>)"
proof -
  have p: "md_path m \<noteq> []" "take (length (as_app_home s)) (md_path m) = as_app_home s" using join_some assms(2, 4, 5) child by (simp_all add: get_app_dir_def)
  have "onDisk (tag_app_removed D (md_path m)) s = (Ok True, s\<lparr>as_disk := (as_disk s)\<lparr>dk_files := (dk_files (as_disk s))(get_remove_tag_path D (md_path m) \<mapsto> ''1'')\<rparr>\<rparr>)"
    using assms(6) by (simp add: onDisk_def tag_app_removed_def stream_save_def writable retA_def)
  then show ?thesis using assms p by (simp add: as_remove_app_def bindA_Ok [of "onDisk (tag_app_removed D (get_app_dir D (as_app_home s) i))"] fire_apps_updated_event_def retA_def)
qed

end

lemma bindA_OkD: "bindA m f s = (Ok b, s2) \<Longrightarrow> \<exists>a s1. m s = (Ok a, s1) \<and> f a s1 = (Ok b, s2)"
  by (auto simp: bindA_def split: prod.splits outcome.splits)

lemma onDisk_OkD: "onDisk m s = (Ok a, s1) \<Longrightarrow> m (as_disk s) = (Ok a, as_disk s1) \<and> s1 = s\<lparr>as_disk := as_disk s1\<rparr>"
  by (auto simp: onDisk_def split: prod.splits)

lemma from_message_path: "app_from_message L D us dir m w = (Ok a, w1) \<Longrightarrow> ap_path a = dir"
  unfolding app_from_message_def
  by (auto simp: thenA_def requireA_def liftA_def getA_def retA_def dest!: bindA_OkD split: prod.splits if_splits)

lemma create_app_path:
  assumes "create_app L D us m s = (Ok a, s1)" "extra_string m ''app_id'' = Ok i"
  shows "ap_is_tmp a \<and> ap_path a = get_app_dir D (as_tmp_home s) i"
proof -
  obtain t s2 where t: "onDisk (setup_tmp_dir D m (as_tmp_home s)) s = (Ok t, s2)" "bindA (onDisk (app_from_message L D us t m)) (\<lambda>a. retA (app_set_tmp a)) s2 = (Ok a, s1)"
  proof -
    have "bindA (onDisk (setup_tmp_dir D m (as_tmp_home s))) (\<lambda>t. bindA (onDisk (app_from_message L D us t m)) (\<lambda>a. retA (app_set_tmp a))) s = (Ok a, s1)"
      using assms(1) by (simp add: create_app_def)
    then show thesis using bindA_OkD that by fast
  qed
  have "t = get_app_dir D (as_tmp_home s) i"
    using onDisk_OkD [OF t(1)] assms(2) by (auto simp: setup_tmp_dir_def Let_def retA_def dest!: bindA_OkD)
  then show ?thesis using t(2) by (auto simp: retA_def app_set_tmp_def dest!: bindA_OkD onDisk_OkD from_message_path)
qed

context dir_env
begin

lemma as_save_load:
  assumes "app_ok L D (as_disk s) a" "ap_name a \<noteq> []" "as_app_home s \<noteq> []" "wf_value L (VDict (app_card a))"
    and "dir = get_app_dir D (as_app_home s) (ap_id a)" "dk_files (as_disk s) dir = None" "saveable L D us dir (as_disk s) a" "\<not> app_removed D dir (as_disk s)"
  shows "\<exists>s1 a'. as_save_app L D us a s = (Ok True, s1) \<and> as_load_app L D (ap_id a) s1 = (Ok (Some a'), s1) \<and>
    ap_id a' = ap_id a \<and> ap_name a' = ap_name a \<and> ap_code a' = (if ap_code a = [] \<or> last (ap_code a) = CHR 10 then ap_code a else ap_code a @ [CHR 10]) \<and>
    app_view L D (as_disk s1) a' = app_view L D (as_disk s) a \<and>
    app_ok L D (as_disk s1) a' \<and> (\<forall>us. saveable L D us dir (as_disk s1) a') \<and>
    (others_apart L D (as_disk s1) (as_app_home s) dir (ap_id a) \<and> dir \<in> set (dl_entries D (as_app_home s) (dk_dirs (as_disk s1))) \<longrightarrow>
      (\<exists>s2. next_start L D s1 = (Ok (), s2) \<and> map_of (as_apps s2) (ap_id a) = Some \<lparr>md_path = dir, md_id = ap_id a, md_name = ap_name a\<rparr>))"
proof -
  have d: "dir \<noteq> []" "ap_id a \<noteq> []" using join_some [OF assms(3)] assms(1, 5) by (simp_all add: get_app_dir_def app_ok_def)
  let ?m = "\<lparr>md_path = dir, md_id = ap_id a, md_name = ap_name a\<rparr>"
  obtain w where w: "as_save_app L D us a s = (Ok True, s\<lparr>as_disk := w, as_apps := alist_put (ap_id a) ?m (as_apps s), as_events := as_events s @ [APPS_UPDATED]\<rparr>)"
      "app_saved L D dir a (app_view L D (as_disk s) a) w" "\<not> app_removed D dir w"
    using as_save_ok [OF assms(1-7)] assms(8) by blast
  define s1 where "s1 = s\<lparr>as_disk := w, as_apps := alist_put (ap_id a) ?m (as_apps s), as_events := as_events s @ [APPS_UPDATED]\<rparr>"
  obtain a' where a': "load_app L D dir w = (Ok (Some a'), w)" "ap_meta a' = ?m" "ap_code a' = read_lines (ap_code a)" "app_view L D w a' = app_view L D (as_disk s) a"
      "app_ok L D w a'" "\<forall>us. saveable L D us dir w a'"
    using load_ok [OF d(1, 2) assms(2, 4) w(2)] by blast
  have l: "as_load_app L D (ap_id a) s1 = (Ok (Some a'), s1)" using a'(1) by (simp add: as_load_app_def s1_def onDisk_def)
  have "\<exists>s2. next_start L D s1 = (Ok (), s2) \<and> map_of (as_apps s2) (ap_id a) = Some ?m"
    if "others_apart L D w (as_app_home s) dir (ap_id a)" "dir \<in> set (dl_entries D (as_app_home s) (dk_dirs w))"
    using next_start_finds [of L D s1 dir ?m] saved_listed [OF w(2) d assms(2, 4) w(3)] that by (simp add: s1_def)
  then show ?thesis using w(1) l a' by (intro exI [of _ s1] exI [of _ a']) (simp add: s1_def [symmetric] read_lines_eq, simp add: s1_def)
qed

lemma remove_save_lost:
  assumes "app_ok L D (as_disk s) a" "ap_name a \<noteq> []" "as_app_home s \<noteq> []" "wf_value L (VDict (app_card a))"
    and "dir = get_app_dir D (as_app_home s) (ap_id a)" "dk_files (as_disk s) dir = None" "saveable L D us dir (as_disk s) a"
    and "map_of (as_apps s) (ap_id a) = Some m" "md_id m = ap_id a" "md_path m = dir" "dir \<in> dk_dirs (as_disk s)" "dir \<noteq> get_remove_tag_path D dir" "plain_name (ap_id a)"
  shows "\<exists>s1 s2. as_remove_app D (ap_id a) s = (Ok True, s1) \<and> as_save_app L D us a s1 = (Ok True, s2) \<and> map_of (available_apps s2) (ap_id a) \<noteq> None \<and>
    (others_apart L D (as_disk s2) (as_app_home s) dir (ap_id a) \<longrightarrow> (\<exists>s3. next_start L D s2 = (Ok (), s3) \<and> map_of (available_apps s3) (ap_id a) = None))"
proof -
  have i: "ap_id a \<noteq> []" using assms(1) by (simp add: app_ok_def)
  define s1 where "s1 = s\<lparr>as_disk := (as_disk s)\<lparr>dk_files := (dk_files (as_disk s))(get_remove_tag_path D dir \<mapsto> ''1'')\<rparr>,
    as_apps := alist_del (ap_id a) (as_apps s), as_events := as_events s @ [APPS_UPDATED]\<rparr>"
  have r: "as_remove_app D (ap_id a) s = (Ok True, s1)"
    using as_remove_ok [OF assms(8) assms(13) assms(9)] assms(3, 5, 10, 11) by (simp add: path_exists_def s1_def)
  have same: "dk_files (as_disk s1) (fl_join (dl_fs D) (st_path (ap_data a)) x) = dk_files (as_disk s) (fl_join (dl_fs D) (st_path (ap_data a)) x)" if "plain_name x" for x
    using assms(7) that nested [of REMOVE_TAG_FILE x dir] by (auto simp: saveable_def store_apart_def Let_def s1_def get_remove_tag_path_def split: if_splits)
  have ok1: "app_ok L D (as_disk s1) a"
    using ds_files_cong [of "store_on (ap_data a) (as_disk s)" "store_on (ap_data a) (as_disk s1)"] same assms(1) by (simp add: app_ok_def store_on_def)
  have h1: "as_app_home s1 = as_app_home s" "dk_files (as_disk s1) dir = None" "dk_files (as_disk s1) (get_remove_tag_path D dir) = Some ''1''"
    using assms(6, 12) by (simp_all add: s1_def)
  have can1: "saveable L D us dir (as_disk s1) a" using assms(7) by (simp add: saveable_def s1_def)
  obtain s2 where s2: "as_save_app L D us a s1 = (Ok True, s2)" "map_of (as_apps s2) (ap_id a) \<noteq> None" "as_app_home s2 = as_app_home s"
      "dk_files (as_disk s2) (get_remove_tag_path D dir) = Some ''1''"
    using as_save_ok [OF ok1 assms(2) _ assms(4) _ _ can1] h1 assms(3, 5) by auto
  have "listed L D (as_disk s2) dir = Ok None" using s2(4) by (simp add: listed_def app_removed_def path_exists_def)
  then show ?thesis using r s2 next_start_misses [of L D s2 dir "ap_id a"] by (auto simp: available_apps_def)
qed

end

definition sample_app :: app where
  "sample_app = \<lparr>ap_meta = \<lparr>md_path = ''t'', md_id = ''i'', md_name = ''n''\<rparr>, ap_code = ''x'', ap_data = \<lparr>st_path = ''t/data'', st_index = [(''k'', VBytes ''u'')]\<rparr>,
     ap_launched_local = Some True, ap_is_tmp = False\<rparr>"

definition sample_app_disk :: disk where
  "sample_app_disk = \<lparr>dk_files = [''t/data/u'' \<mapsto> encode_value decimal_lib (VBytes ''v''), ''t/data/index'' \<mapsto> encode_dict decimal_lib [(''k'', VBytes ''u'')]], dk_dirs = {''a/i''}\<rparr>"

definition sample_service :: app_service where
  "sample_service = \<lparr>as_app_home = ''a'', as_tmp_home = ''p'', as_apps = [(''i'', \<lparr>md_path = ''a/i'', md_id = ''i'', md_name = ''n''\<rparr>)], as_local = data_store_new,
     as_disk = sample_app_disk, as_events = []\<rparr>"

lemma sample_app_ok: "app_ok decimal_lib sample_dirs sample_app_disk sample_app"
  by (auto simp: app_ok_def sample_app_def sample_app_disk_def ds_ok_def store_on_def sample_dirs_def sample_fs_def get_value_file_def get_index_file_def INDEX_def plain_name_def decimal_lib_def
      simp del: encode_value.simps intro!: exI [of _ "VBytes ''v''"])

lemma sample_app_view: "app_view decimal_lib sample_dirs sample_app_disk sample_app = [''k'' \<mapsto> VBytes ''v'']"
proof -
  have "read_value decimal_lib (stream_of (encode_value decimal_lib (VBytes ''v''))) = Ok (VBytes ''v'', stream_of [])"
    using dec.read_value_whole [of "VBytes ''v''"] by (simp add: decimal_lib_def stream_of_def del: encode_value.simps)
  then show ?thesis
    by (simp add: app_view_def ds_view_def store_on_def sample_app_def sample_app_disk_def sample_dirs_def sample_fs_def get_value_file_def fun_eq_iff del: encode_value.simps)
qed

text \<open>The same app as it was loaded from its own directory, changed since, and a service that has it.\<close>

definition own_app :: app where
  "own_app = \<lparr>ap_meta = \<lparr>md_path = ''a/i'', md_id = ''i'', md_name = ''n''\<rparr>, ap_code = ''y'', ap_data = \<lparr>st_path = ''a/i/data'', st_index = [(''k'', VBytes ''u'')]\<rparr>,
     ap_launched_local = Some True, ap_is_tmp = False\<rparr>"

definition own_disk :: disk where
  "own_disk = \<lparr>dk_files = [''a/i/data/u'' \<mapsto> encode_value decimal_lib (VBytes ''v''), ''a/i/data/index'' \<mapsto> encode_dict decimal_lib [(''k'', VBytes ''u'')],
     ''a/i/code.lua'' \<mapsto> ''x'', ''a/i/metadata'' \<mapsto> encode_dict decimal_lib (app_card own_app)], dk_dirs = {''a/i'', ''a/i/data''}\<rparr>"

definition own_service :: app_service where
  "own_service = sample_service\<lparr>as_disk := own_disk\<rparr>"

lemma own_app_ok: "app_ok decimal_lib sample_dirs own_disk own_app"
  by (auto simp: app_ok_def own_app_def own_disk_def ds_ok_def store_on_def sample_dirs_def sample_fs_def get_value_file_def get_index_file_def INDEX_def plain_name_def decimal_lib_def
      simp del: encode_value.simps intro!: exI [of _ "VBytes ''v''"])

lemma own_facts:
  "saveable decimal_lib sample_dirs [] ''a/i'' own_disk own_app" "wf_value decimal_lib (VDict (app_card own_app))" "dk_files own_disk ''a/i'' = None"
  "\<not> app_removed sample_dirs ''a/i'' own_disk" "ap_name own_app \<noteq> []" "ap_id own_app = ''i''" "ap_code own_app = ''y''" "ap_path own_app = ''a/i''"
  by (simp_all add: saveable_def own_app_def own_disk_def app_card_def decimal_lib_def sample_dirs_def sample_fs_def get_data_path_def get_remove_tag_path_def DATA_PATH_def REMOVE_TAG_FILE_def
      app_removed_def path_exists_def)

lemma one_entry: "length d = Suc 0 \<Longrightarrow> map_of d = [k \<mapsto> v] \<Longrightarrow> d = [(k, v)]"
  by (cases d) (auto simp: fun_eq_iff split: if_splits)

lemma sample_letter: "message_of_app decimal_lib sample_dirs sample_app sample_app_disk = (Ok (app_letter sample_app (encode_dict decimal_lib [(''k'', VBytes ''v'')])), sample_app_disk)"
proof -
  obtain d where d: "message_of_app decimal_lib sample_dirs sample_app sample_app_disk = (Ok (app_letter sample_app (encode_dict decimal_lib d)), sample_app_disk)"
    "map_of d = app_view decimal_lib sample_dirs sample_app_disk sample_app" "length d = length (st_index (ap_data sample_app))"
    by (rule sd.message_of_app_ok [OF sample_app_ok])
  have "length d = Suc 0" using d(3) by (simp add: sample_app_def)
  then have "d = [(''k'', VBytes ''v'')]" using d(2) unfolding sample_app_view by (rule one_entry)
  then show ?thesis using d(1) by (simp only:)
qed

lemma sample_letter_fits: "wf_message decimal_lib (app_letter sample_app (encode_dict decimal_lib [(''k'', VBytes ''v'')])) \<and>
    length (compress model_snappy (encode_message decimal_lib (app_letter sample_app (encode_dict decimal_lib [(''k'', VBytes ''v'')])))) \<le> max_alloc decimal_lib"
  by (simp add: wf_message_def Let_def app_letter_def sample_app_def metadata_default_def address_array_def encode_array_def APP_MESSAGE_def
      encode_dict_def encode_b_def decimal_lib_def show_nat.simps enc_def encode_message_def compress_def model_snappy_def to_bytes_def)

lemma sample_facts:
  "new_names decimal_lib sample_app [''w'']" "saveable decimal_lib sample_dirs [''w''] ''a/i'' sample_app_disk sample_app" "plain_name (ap_id sample_app)" "wf_value decimal_lib (VDict (app_card sample_app))" "get_app_dir sample_dirs ''a'' ''i'' = ''a/i''" "ap_path sample_app \<noteq> ''a/i''"
  "dk_files sample_app_disk ''a/i'' = None" "store_apart sample_dirs ''a/i'' sample_app" "\<not> app_removed sample_dirs ''a/i'' sample_app_disk" "ap_name sample_app \<noteq> []"
  "map_of (as_apps sample_service) ''i'' = Some \<lparr>md_path = ''a/i'', md_id = ''i'', md_name = ''n''\<rparr>" "''a/i'' \<in> dk_dirs sample_app_disk" "''a/i'' \<noteq> get_remove_tag_path sample_dirs ''a/i''"
  by (simp_all add: saveable_def plain_name_def new_names_def sample_app_def good_name_def INDEX_def decimal_lib_def app_card_def sample_dirs_def sample_fs_def get_app_dir_def sample_app_disk_def store_apart_def Let_def
      get_metadata_file_def get_code_file_def get_remove_tag_path_def get_data_path_def METADATA_FILE_def CODE_FILE_def REMOVE_TAG_FILE_def DATA_PATH_def app_removed_def path_exists_def sample_service_def)

text \<open>A file system in which \<^verbatim>\<open>p/..\<close> leads to the directory of everything.\<close>

definition climbing_dirs :: dir_lib where
  "climbing_dirs = sample_dirs\<lparr>dl_inside := (\<lambda>d p. d = ''p/..'' \<or> dl_inside sample_dirs d p)\<rparr>"

lemma climbing_dir_env: "dir_env decimal_lib climbing_dirs"
proof -
  have f: "dl_fs climbing_dirs = sample_fs" by (simp add: climbing_dirs_def sample_dirs_def)
  have n: "d @ ''/data'' \<noteq> ''p/..''" for d :: string by (cases d; cases "tl d"; cases "tl (tl d)") auto
  show ?thesis
    by (intro dir_env.intro dir_env_axioms.intro)
      (auto simp: f sample_fs_env,
       auto simp: climbing_dirs_def sample_dirs_def sample_fs_def get_data_path_def METADATA_FILE_def CODE_FILE_def REMOVE_TAG_FILE_def get_remove_tag_path_def DATA_PATH_def
         append_eq_append_conv_if n)
qed

interpretation climbing: dir_env decimal_lib climbing_dirs
  by (rule climbing_dir_env)

definition climbing_app :: app where
  "climbing_app = blank_app ''..'' True"

definition climbing_service :: app_service where
  "climbing_service = sample_service\<lparr>as_disk := \<lparr>dk_files = [''user'' \<mapsto> ''me''], dk_dirs = {''p/..''}\<rparr>\<rparr>"

section \<open>Properties\<close>

text \<open>
  C26. An app exported to a file and imported from it again, here or by another user, is the same app: it has the id, the name, the code and every entry of
  the data it had.  The imported app is a temporary one.
\<close>

theorem app_exported_imported:
  assumes "dir_env L D" "snappy_laws S" "app_ok L D (as_disk s) a" "new_names L a us" "as_tmp_home s \<noteq> []"
    and "\<And>m. message_of_app L D a (as_disk s) = (Ok m, as_disk s) \<Longrightarrow> wf_message L m \<and> length (compress S (encode_message L m)) \<le> max_alloc L"
    and "dk_files (as_disk s) (get_index_file (dl_fs D) (get_data_path D (get_app_dir D (as_tmp_home s) (ap_id a)))) = None"
    and "file \<noteq> get_index_file (dl_fs D) (get_data_path D (get_app_dir D (as_tmp_home s) (ap_id a)))"
  shows "\<exists>s1 s2 a'. export_app L S D a file s = (Ok (), s1) \<and> import_app L S D us file s1 = (Ok a', s2) \<and>
    app_view L D (as_disk s2) a' = app_view L D (as_disk s) a \<and> ap_id a' = ap_id a \<and> ap_name a' = ap_name a \<and> ap_code a' = ap_code a \<and> ap_is_tmp a'"
  using dir_env.import_app_ok [OF assms(1-5) _ assms(7, 8)] assms(6) by fast

theorem app_exported_imported_witness:
  "\<exists>s1 s2 a'. export_app decimal_lib model_snappy sample_dirs sample_app ''f'' sample_service = (Ok (), s1) \<and>
    import_app decimal_lib model_snappy sample_dirs [''w''] ''f'' s1 = (Ok a', s2) \<and> app_view decimal_lib sample_dirs (as_disk s2) a' = [''k'' \<mapsto> VBytes ''v'']"
proof -
  have d: "as_disk sample_service = sample_app_disk" by (simp add: sample_service_def)
  have names: "new_names decimal_lib sample_app [''w'']" by (simp add: new_names_def sample_app_def good_name_def plain_name_def INDEX_def decimal_lib_def)
  have fits: "wf_message decimal_lib m \<and> length (compress model_snappy (encode_message decimal_lib m)) \<le> max_alloc decimal_lib"
    if "message_of_app decimal_lib sample_dirs sample_app (as_disk sample_service) = (Ok m, as_disk sample_service)" for m
    using that sample_letter sample_letter_fits unfolding d by simp
  have "\<exists>s1 s2 a'. export_app decimal_lib model_snappy sample_dirs sample_app ''f'' sample_service = (Ok (), s1) \<and>
    import_app decimal_lib model_snappy sample_dirs [''w''] ''f'' s1 = (Ok a', s2) \<and>
    app_view decimal_lib sample_dirs (as_disk s2) a' = app_view decimal_lib sample_dirs (as_disk sample_service) sample_app \<and>
    ap_id a' = ap_id sample_app \<and> ap_name a' = ap_name sample_app \<and> ap_code a' = ap_code sample_app \<and> ap_is_tmp a'"
    by (rule app_exported_imported [OF sample_dir_env ms.snappy_laws_axioms _ names _ fits])
      (simp_all add: d sample_app_ok, simp_all add: sample_service_def sample_app_disk_def sample_app_def sample_dirs_def sample_fs_def get_index_file_def get_data_path_def get_app_dir_def DATA_PATH_def INDEX_def)
  then show ?thesis unfolding d sample_app_view by blast
qed



text \<open>
  An app that was removed and is saved again is lost at the next start: removing leaves a tag in its directory, saving does not take it away, and the
  next start skips directories with a tag, although until then the app is among the available ones.
\<close>

theorem resaved_app_lost:
  assumes "dir_env L D" "app_ok L D (as_disk s) a" "ap_name a \<noteq> []" "as_app_home s \<noteq> []" "wf_value L (VDict (app_card a))"
    and "dir = get_app_dir D (as_app_home s) (ap_id a)" "dk_files (as_disk s) dir = None" "saveable L D us dir (as_disk s) a"
    and "map_of (as_apps s) (ap_id a) = Some m" "md_id m = ap_id a" "md_path m = dir" "dir \<in> dk_dirs (as_disk s)" "dir \<noteq> get_remove_tag_path D dir" "plain_name (ap_id a)"
  shows "\<exists>s1 s2. as_remove_app D (ap_id a) s = (Ok True, s1) \<and> as_save_app L D us a s1 = (Ok True, s2) \<and> map_of (available_apps s2) (ap_id a) \<noteq> None \<and>
    (others_apart L D (as_disk s2) (as_app_home s) dir (ap_id a) \<longrightarrow> (\<exists>s3. next_start L D s2 = (Ok (), s3) \<and> map_of (available_apps s3) (ap_id a) = None))"
  using dir_env.remove_save_lost [OF assms] .

theorem resaved_app_lost_witness:
  "\<exists>s1 s2 s3. as_remove_app sample_dirs ''i'' sample_service = (Ok True, s1) \<and> as_save_app decimal_lib sample_dirs [''w''] sample_app s1 = (Ok True, s2) \<and>
    map_of (available_apps s2) ''i'' \<noteq> None \<and> next_start decimal_lib sample_dirs s2 = (Ok (), s3) \<and> map_of (available_apps s3) ''i'' = None"
proof -
  have d: "as_disk sample_service = sample_app_disk" "as_app_home sample_service = ''a''" by (simp_all add: sample_service_def)
  have e: "dl_entries sample_dirs ''a'' ds = [''a/i'']" for ds by (simp add: sample_dirs_def)
  have a: "ap_id sample_app = ''i''" by (simp add: sample_app_def)
  show ?thesis
    using resaved_app_lost [OF sample_dir_env, of sample_service sample_app "''a/i''" "[''w'']"] sample_facts sample_app_ok
    by (auto simp: d e a others_apart_def)
qed

text \<open>
  C39. The directory of a received app is chosen by its sender: it is the id in the message, joined to the directory of temporary apps, and it is not
  checked.  When the app is closed everything in that directory is removed, also when the id leads out of the directory of temporary apps.
\<close>

theorem received_app_deletes:
  assumes "create_app L D us m s = (Ok a, s1)" "extra_string m ''app_id'' = Ok i" "get_app_dir D (as_tmp_home s) i \<noteq> []"
    and "path_exists (as_disk s1) (get_app_dir D (as_tmp_home s) i)"
  shows "\<exists>w. app_destroy D a (as_disk s1) = (Ok (), w) \<and> (\<forall>p. dl_inside D (get_app_dir D (as_tmp_home s) i) p \<longrightarrow> dk_files w p = None)"
proof -
  have a: "ap_is_tmp a" "ap_path a = get_app_dir D (as_tmp_home s) i" using create_app_path [OF assms(1, 2)] by simp_all
  show ?thesis using assms(3, 4) by (simp add: app_destroy_def a delete_directory_def bindA_def getA_def modA_def thenA_def retA_def requireA_def liftA_def)
qed

theorem received_app_deletes_witness:
  "\<exists>a s1 w. create_app decimal_lib climbing_dirs [] (app_letter climbing_app (encode_dict decimal_lib [])) climbing_service = (Ok a, s1) \<and>
    dk_files (as_disk climbing_service) ''user'' = Some ''me'' \<and> app_destroy climbing_dirs a (as_disk s1) = (Ok (), w) \<and> dk_files w ''user'' = None"
proof -
  have i: "ap_id climbing_app = ''..''" by (simp add: climbing_app_def blank_app_def)
  have dir: "get_app_dir climbing_dirs (as_tmp_home climbing_service) ''..'' = ''p/..''"
    by (simp add: climbing_service_def sample_service_def get_app_dir_def climbing_dirs_def sample_dirs_def sample_fs_def)
  obtain a s1 where c: "create_app decimal_lib climbing_dirs [] (app_letter climbing_app (encode_dict decimal_lib [])) climbing_service = (Ok a, s1)"
      "dk_dirs (as_disk climbing_service) \<subseteq> dk_dirs (as_disk s1)"
    using climbing.create_app_ok [of "[]" "[]" climbing_app climbing_service]
    by (auto simp: i dir, auto simp: climbing_service_def sample_service_def get_data_path_def get_index_file_def climbing_dirs_def sample_dirs_def sample_fs_def)
  have "path_exists (as_disk s1) ''p/..''" using c(2) by (auto simp: path_exists_def climbing_service_def)
  then obtain w where "app_destroy climbing_dirs a (as_disk s1) = (Ok (), w)" "\<forall>p. dl_inside climbing_dirs ''p/..'' p \<longrightarrow> dk_files w p = None"
    using received_app_deletes [OF c(1), of "''..''"] unfolding letter_id i dir by auto
  then show ?thesis using c(1) by (auto simp: climbing_dirs_def climbing_service_def)
qed

end
