(* ===== verification/Lua_Base.thy ===== *)
theory Lua_Base
  imports Disk_Store Vclock Messages
begin

text \<open>
  What the scripts of the apps can store and send, \<^verbatim>\<open>src/src/gui/lua/base.cpp\<close>: Lua values and tables are turned into values and dictionaries and back,
  messages of scripts and events of widgets into messages, and scripts get byte buffers, clocks and the store of their app.

  A Lua value is the tree that a script sees; a table is the list of its entries in the order in which \<^verbatim>\<open>lua_next\<close> gives them.  The conversions between
  numbers and text are those of the Lua library and parameters.
\<close>

section \<open>Lua values\<close>

datatype lua =
    LNil
  | LBool bool
  | LInt u64
  | LNum u64
  | LStr string
  | LTable "(lua \<times> lua) list"
  | LOther

text \<open>
  \<open>str_num\<close> is the number that Lua reads in a string, \<open>num_str\<close> and \<open>int_str\<close> are the strings it makes of numbers, and \<open>num_int\<close> is the conversion of a
  double to an integer of 64 bits.
\<close>

record lua_lib =
  str_num :: "string \<Rightarrow> u64 option"
  num_str :: "u64 \<Rightarrow> string"
  int_str :: "u64 \<Rightarrow> string"
  num_int :: "u64 \<Rightarrow> u64"

text \<open>A C string ends at the first zero byte.\<close>

definition cstr :: "string \<Rightarrow> string" where
  "cstr s = takeWhile (\<lambda>c. c \<noteq> CHR 0x00) s"

text \<open>\<^verbatim>\<open>lua_isinteger\<close>, \<^verbatim>\<open>lua_isnumber\<close> with \<^verbatim>\<open>lua_tonumber\<close>, and \<^verbatim>\<open>lua_isstring\<close> with \<^verbatim>\<open>lua_tostring\<close>; a string that reads as a number is a number, and a number is a string.\<close>

definition lua_number :: "lua_lib \<Rightarrow> lua \<Rightarrow> u64 option" where
  "lua_number Z v = (case v of LNum n \<Rightarrow> Some n | LStr s \<Rightarrow> str_num Z s | _ \<Rightarrow> None)"

definition lua_string :: "lua_lib \<Rightarrow> lua \<Rightarrow> string option" where
  "lua_string Z v = (case v of LStr s \<Rightarrow> Some s | LInt i \<Rightarrow> Some (int_str Z i) | LNum n \<Rightarrow> Some (num_str Z n) | _ \<Rightarrow> None)"

section \<open>From Lua to values\<close>

definition ARRAY_K :: string where "ARRAY_K = ''__a''"

text \<open>The key of an entry: an index, or a string; \<^verbatim>\<open>lua_tostring\<close> of anything else is a null pointer.\<close>

definition lua_key :: "lua_lib \<Rightarrow> lua \<Rightarrow> (u64 \<times> string) outcome" where
  "lua_key Z k =
     (case k of
        LInt i \<Rightarrow> Ok (i, [])
      | _ \<Rightarrow> (case lua_number Z k of Some n \<Rightarrow> Ok (num_int Z n, [])
               | None \<Rightarrow> (case lua_string Z k of Some s \<Rightarrow> Ok (- 1, cstr s) | None \<Rightarrow> Undef)))"

text \<open>\<^verbatim>\<open>(*a)[ik] = v\<close> after the array was made long enough; a negative index lies outside.\<close>

definition array_insert :: "cxx_lib \<Rightarrow> u64 \<Rightarrow> mvalue \<Rightarrow> array \<Rightarrow> array outcome" where
  "array_insert L ik v a =
     (let i = (if ik \<noteq> 0 then sint ik - 1 else 0)
      in if int (length a) \<le> i then
           (if nat i + 1 > max_alloc L then Throw LengthError else Ok ((array_resize (nat i + 1) a)[nat i := v]))
         else if i < 0 then Undef
         else Ok (a[nat i := v]))"

definition table_insert :: "cxx_lib \<Rightarrow> u64 \<Rightarrow> string \<Rightarrow> mvalue \<Rightarrow> dict \<Rightarrow> dict outcome" where
  "table_insert L ik key v d =
     (if ik \<noteq> - 1 then
        bindO (if dict_has d ARRAY_K then bindO (dict_get d ARRAY_K) as_array else Ok []) (\<lambda>a.
        bindO (array_insert L ik v a) (\<lambda>a1. Ok (dict_put ARRAY_K (VArray a1) d)))
      else Ok (dict_put key v d))"

text \<open>The value of an entry; entries with other values are skipped.\<close>

function to_dict :: "cxx_lib \<Rightarrow> lua_lib \<Rightarrow> (lua \<times> lua) list \<Rightarrow> dict \<Rightarrow> dict outcome"
  and entry_value :: "cxx_lib \<Rightarrow> lua_lib \<Rightarrow> lua \<Rightarrow> mvalue option outcome" where
  "to_dict L Z [] d = Ok d"
| "to_dict L Z (e # es) d =
     bindO (lua_key Z (fst e)) (\<lambda>(ik, key). bindO (entry_value L Z (snd e)) (\<lambda>vo.
       case vo of None \<Rightarrow> to_dict L Z es d
       | Some v \<Rightarrow> bindO (table_insert L ik key v d) (to_dict L Z es)))"
| "entry_value L Z v =
     (case v of
        LInt i \<Rightarrow> Ok (Some (VInt i))
      | LTable t \<Rightarrow> bindO (to_dict L Z t []) (\<lambda>d. Ok (Some (VDict d)))
      | _ \<Rightarrow> (case lua_number Z v of Some n \<Rightarrow> Ok (Some (VDouble n))
               | None \<Rightarrow> (case lua_string Z v of Some s \<Rightarrow> Ok (Some (VBytes (cstr s))) | None \<Rightarrow> Ok None)))"
  by pat_completeness auto
termination
  by (relation "measure (case_sum (\<lambda>(L, Z, es, d). 2 * size_list (size_prod size size) es) (\<lambda>(L, Z, v). 2 * size v + 1))") auto

definition to_value :: "cxx_lib \<Rightarrow> lua_lib \<Rightarrow> lua \<Rightarrow> mvalue outcome" where
  "to_value L Z v =
     (case v of
        LTable t \<Rightarrow> bindO (to_dict L Z t []) (\<lambda>d. Ok (VDict d))
      | LInt i \<Rightarrow> Ok (VInt i)
      | _ \<Rightarrow> (case lua_number Z v of Some n \<Rightarrow> Ok (VDouble n)
               | None \<Rightarrow> (case lua_string Z v of Some s \<Rightarrow> Ok (VBytes (cstr s))
                 | None \<Rightarrow> (case v of LBool b \<Rightarrow> Ok (VBool b) | _ \<Rightarrow> Ok (VBool False)))))"

section \<open>From values to Lua\<close>

text \<open>
  \<open>None\<close> is a value for which nothing is pushed: an empty one, a boolean or a size.  Inside a table \<^verbatim>\<open>lua_settable\<close> then takes the key for the value and the
  table for the key, and removes the table from the stack; the stack is out of step from there on, which is \<open>Undef\<close> here.
\<close>

definition table_set :: "lua \<Rightarrow> lua option \<Rightarrow> (lua \<times> lua) list \<Rightarrow> (lua \<times> lua) list outcome" where
  "table_set k vo t = (case vo of None \<Rightarrow> Undef | Some v \<Rightarrow> Ok (alist_put k v t))"

function push_value :: "mvalue \<Rightarrow> lua option outcome"
  and push_array :: "mvalue list \<Rightarrow> u64 \<Rightarrow> (lua \<times> lua) list \<Rightarrow> (lua \<times> lua) list outcome"
  and push_dict :: "dict \<Rightarrow> (lua \<times> lua) list \<Rightarrow> (lua \<times> lua) list outcome" where
  "push_value v =
     (case v of
        VInt i \<Rightarrow> Ok (Some (LInt i))
      | VDouble n \<Rightarrow> Ok (Some (LNum n))
      | VBytes b \<Rightarrow> Ok (Some (LStr (cstr (to_str b))))
      | VDict d \<Rightarrow> bindO (push_dict d []) (\<lambda>t. Ok (Some (LTable t)))
      | VArray a \<Rightarrow> bindO (push_array a 1 []) (\<lambda>t. Ok (Some (LTable t)))
      | _ \<Rightarrow> Ok None)"
| "push_array [] i t = Ok t"
| "push_array (v # vs) i t = bindO (push_value v) (\<lambda>vo. bindO (table_set (LInt i) vo t) (push_array vs (i + 1)))"
| "push_dict [] t = Ok t"
| "push_dict (e # es) t =
     bindO (if fst e = ARRAY_K then (case snd e of VArray a \<Rightarrow> push_array a 1 t | _ \<Rightarrow> Throw RuntimeError)
            else bindO (push_value (snd e)) (\<lambda>vo. table_set (LStr (cstr (fst e))) vo t)) (push_dict es)"
  by pat_completeness auto
termination
  by (relation "measure (case_sum (\<lambda>v. 2 * size v + 1) (case_sum (\<lambda>(vs, i, t). 2 * size_list size vs) (\<lambda>(es, t). 2 * size_list (size_prod (\<lambda>_. 0) size) es)))") auto

section \<open>Byte buffers\<close>

definition bd_get :: "int \<Rightarrow> bytes \<Rightarrow> char" where
  "bd_get i d = (if i < 0 then CHR 0x00 else if nat i \<ge> length d then CHR 0x00 else d ! nat i)"

definition bd_resize :: "cxx_lib \<Rightarrow> nat \<Rightarrow> bytes \<Rightarrow> bytes outcome" where
  "bd_resize L n d = (if n > max_alloc L then Throw LengthError else Ok (take n d @ replicate (n - length d) (CHR 0x00)))"

definition bd_set :: "cxx_lib \<Rightarrow> int \<Rightarrow> char \<Rightarrow> bytes \<Rightarrow> bytes outcome" where
  "bd_set L i c d =
     (if i < 0 then Ok d
      else bindO (if nat i \<ge> length d then bd_resize L (nat i + 1) d else Ok d) (\<lambda>d1. Ok (d1[nat i := c])))"

definition bd_overlay :: "cxx_lib \<Rightarrow> int \<Rightarrow> bytes \<Rightarrow> bytes \<Rightarrow> bytes outcome" where
  "bd_overlay L i n d =
     (if i < 0 then Ok d
      else bindO (if nat i + length n \<ge> length d then bd_resize L (nat i + length n) d else Ok d) (\<lambda>d1.
        contract (length d1 \<ge> nat i + length n) (Ok (take (nat i) d1 @ n @ drop (nat i + length n) d1))))"

text \<open>\<^verbatim>\<open>sub\<close> advances iterators without a check.\<close>

definition bd_sub :: "nat \<Rightarrow> nat \<Rightarrow> bytes \<Rightarrow> bytes outcome" where
  "bd_sub p s d = (if p + s > length d then Undef else Ok (take s (drop p d)))"

definition bd_append :: "bytes \<Rightarrow> bytes \<Rightarrow> bytes" where
  "bd_append n d = d @ n"

section \<open>Clocks\<close>

record vclock_wrapper =
  vw_good :: bool
  vw_c :: "string tracked"

definition vw_of :: "string tracked \<Rightarrow> vclock_wrapper" where "vw_of c = \<lparr>vw_good = True, vw_c = c\<rparr>"
definition vw_new :: "string \<Rightarrow> vclock_wrapper" where "vw_new i = \<lparr>vw_good = True, vw_c = tracked_new i\<rparr>"
definition vw_bad :: vclock_wrapper where "vw_bad = \<lparr>vw_good = False, vw_c = tracked_new []\<rparr>"

definition vw_increment :: "vclock_wrapper \<Rightarrow> vclock_wrapper" where
  "vw_increment w = w\<lparr>vw_c := tracked_incr (vw_c w)\<rparr>"

definition vw_merge :: "vclock_wrapper \<Rightarrow> vclock_wrapper \<Rightarrow> vclock_wrapper outcome" where
  "vw_merge w o1 = bindO (tracked_merge (vw_c w) (vw_c o1)) (\<lambda>c. Ok (w\<lparr>vw_c := c\<rparr>))"

definition vw_conflict :: "vclock_wrapper \<Rightarrow> vclock_wrapper \<Rightarrow> bool outcome" where "vw_conflict w o1 = tracked_conflict (vw_c w) (vw_c o1)"
definition vw_concurrent :: "vclock_wrapper \<Rightarrow> vclock_wrapper \<Rightarrow> bool outcome" where "vw_concurrent w o1 = tracked_concurrent (vw_c w) (vw_c o1)"
definition vw_compare :: "vclock_wrapper \<Rightarrow> vclock_wrapper \<Rightarrow> int outcome" where "vw_compare w o1 = tracked_compare (vw_c w) (vw_c o1)"
definition vw_same :: "vclock_wrapper \<Rightarrow> vclock_wrapper \<Rightarrow> bool outcome" where "vw_same w o1 = tracked_identical (vw_c w) (vw_c o1)"

text \<open>What a dictionary entry is as a buffer, and as a clock; whatever is thrown while it is read makes a clock that is not good.\<close>

definition value_bin :: "mvalue option \<Rightarrow> bytes" where
  "value_bin vo = (case vo of Some (VBytes b) \<Rightarrow> b | _ \<Rightarrow> [])"

definition value_vclock :: "mvalue option \<Rightarrow> vclock_wrapper" where
  "value_vclock vo = (case vo of Some (VDict d) \<Rightarrow> (case to_tracked_sclock d of Ok c \<Rightarrow> vw_of c | _ \<Rightarrow> vw_bad) | _ \<Rightarrow> vw_bad)"

section \<open>Messages of widgets and scripts\<close>

definition EVENT_MESSAGE :: string where "EVENT_MESSAGE = ''#e''"
definition SCRIPT_MESSAGE :: string where "SCRIPT_MESSAGE = ''#s''"

record event_message =
  em_obj :: string
  em_type :: string
  em_v :: mvalue

definition msg_extra :: "message \<Rightarrow> string \<Rightarrow> string outcome" where
  "msg_extra m k = bindO (dict_get (mt_extra (m_meta m)) k) as_string"

definition event_from_message :: "cxx_lib \<Rightarrow> message \<Rightarrow> event_message outcome" where
  "event_from_message L m =
     contract (mt_type (m_meta m) = EVENT_MESSAGE)
       (bindO (msg_extra m ''o'') (\<lambda>ob. bindO (msg_extra m ''t'') (\<lambda>t. bindO (decode L (m_data m)) (\<lambda>v. Ok \<lparr>em_obj = ob, em_type = t, em_v = v\<rparr>))))"

definition event_to_message :: "cxx_lib \<Rightarrow> event_message \<Rightarrow> message" where
  "event_to_message L e =
     \<lparr>m_meta = metadata_default\<lparr>mt_type := EVENT_MESSAGE, mt_extra := dict_put ''t'' (value_of_string (em_type e)) (dict_put ''o'' (value_of_string (em_obj e)) [])\<rparr>,
      m_data = to_bytes (encode_value L (em_v e))\<rparr>"

record script_message =
  sm_type :: string
  sm_from_id :: string
  sm_local_app_id :: string
  sm_v :: dict
  sm_robust :: bool

definition script_new :: script_message where
  "script_new = \<lparr>sm_type = [], sm_from_id = [], sm_local_app_id = [], sm_v = [], sm_robust = True\<rparr>"

definition script_from_message :: "cxx_lib \<Rightarrow> message \<Rightarrow> script_message outcome" where
  "script_from_message L m =
     contract (mt_type (m_meta m) = SCRIPT_MESSAGE)
       (bindO (msg_extra m ''from_id'') (\<lambda>f.
        bindO (if dict_has (mt_extra (m_meta m)) ''t'' then msg_extra m ''t'' else Ok []) (\<lambda>t.
        bindO (if dict_has (mt_extra (m_meta m)) ''local_app_id'' then msg_extra m ''local_app_id'' else Ok []) (\<lambda>a.
        bindO (decode_to_dict L (m_data m)) (\<lambda>v. Ok \<lparr>sm_type = t, sm_from_id = f, sm_local_app_id = a, sm_v = v, sm_robust = True\<rparr>)))))"

definition script_to_message :: "cxx_lib \<Rightarrow> script_message \<Rightarrow> message" where
  "script_to_message L s =
     \<lparr>m_meta = metadata_default\<lparr>mt_type := SCRIPT_MESSAGE, mt_extra := (if sm_type s \<noteq> [] then dict_put ''t'' (value_of_string (sm_type s)) [] else []),
        mt_robust := sm_robust s\<rparr>,
      m_data = to_bytes (encode_dict L (sm_v s))\<rparr>"

definition sm_not_robust :: "script_message \<Rightarrow> script_message" where "sm_not_robust s = s\<lparr>sm_robust := False\<rparr>"
definition sm_get :: "string \<Rightarrow> script_message \<Rightarrow> mvalue outcome" where "sm_get k s = dict_get (sm_v s) k"
definition sm_set :: "string \<Rightarrow> mvalue \<Rightarrow> script_message \<Rightarrow> script_message" where "sm_set k v s = s\<lparr>sm_v := dict_put k v (sm_v s)\<rparr>"
definition sm_has :: "string \<Rightarrow> script_message \<Rightarrow> bool" where "sm_has k s = dict_has (sm_v s) k"
definition sm_get_bin :: "string \<Rightarrow> script_message \<Rightarrow> bytes" where "sm_get_bin k s = value_bin (map_of (sm_v s) k)"
definition sm_set_bin :: "string \<Rightarrow> bytes \<Rightarrow> script_message \<Rightarrow> script_message" where "sm_set_bin k d s = sm_set k (VBytes d) s"
definition sm_set_vclock :: "string \<Rightarrow> vclock_wrapper \<Rightarrow> script_message \<Rightarrow> script_message" where "sm_set_vclock k w s = sm_set k (VDict (tracked_to_dict (vw_c w))) s"
definition sm_get_vclock :: "string \<Rightarrow> script_message \<Rightarrow> vclock_wrapper" where "sm_get_vclock k s = value_vclock (map_of (sm_v s) k)"
definition sm_set_type :: "string \<Rightarrow> script_message \<Rightarrow> script_message" where "sm_set_type t s = s\<lparr>sm_type := t\<rparr>"
definition sm_is_local :: "script_message \<Rightarrow> bool" where "sm_is_local s \<longleftrightarrow> sm_local_app_id s \<noteq> []"

definition sm_app :: "script_message \<Rightarrow> string" where
  "sm_app s = (if \<not> sm_is_local s then ''0'' else sm_local_app_id s)"

definition sm_from :: "'k contact_list \<Rightarrow> script_message \<Rightarrow> string outcome" where
  "sm_from cs s =
     bindO (cl_by_id (sm_from_id s) cs) (\<lambda>co. case co of None \<Rightarrow> Ok ''0''
       | Some c \<Rightarrow> if sm_is_local s then Ok ''0'' else contract (ui_id c \<noteq> []) (Ok (ui_id c)))"

text \<open>The functions a script calls, with the arguments on its stack; \<open>self\<close> says that the first one is an object of the right type.\<close>

definition script_message_set :: "cxx_lib \<Rightarrow> lua_lib \<Rightarrow> bool \<Rightarrow> lua list \<Rightarrow> script_message \<Rightarrow> script_message outcome" where
  "script_message_set L Z self args s =
     (if length args \<noteq> 3 \<or> \<not> self then Ok s
      else case lua_string Z (args ! 1) of None \<Rightarrow> Ok s
        | Some k \<Rightarrow> if cstr k = [] then Ok s else bindO (to_value L Z (args ! 2)) (\<lambda>v. Ok (sm_set (cstr k) v s)))"

text \<open>The value returned is the top of the stack, which is the key when nothing was pushed.\<close>

definition script_message_get :: "lua_lib \<Rightarrow> bool \<Rightarrow> lua list \<Rightarrow> script_message \<Rightarrow> lua outcome" where
  "script_message_get Z self args s =
     (if length args \<noteq> 2 \<or> \<not> self then Ok LNil
      else case lua_string Z (args ! 1) of None \<Rightarrow> Ok LNil
        | Some k \<Rightarrow> if \<not> sm_has (cstr k) s then Ok LNil
            else bindO (sm_get (cstr k) s) (\<lambda>v. bindO (push_value v) (\<lambda>vo. Ok (case vo of Some x \<Rightarrow> x | None \<Rightarrow> LStr k))))"

section \<open>The store of an app\<close>

type_synonym 'a store_action = "(disk_store, 'a) action"

definition sr_get :: "cxx_lib \<Rightarrow> fs_lib \<Rightarrow> string \<Rightarrow> string store_action" where
  "sr_get L F k = bindA (getA (ds_has k)) (\<lambda>b. if \<not> b then retA [] else bindA (ds_get L F k) (\<lambda>v. liftA (as_string v)))"

definition sr_set :: "cxx_lib \<Rightarrow> fs_lib \<Rightarrow> string \<Rightarrow> string \<Rightarrow> string \<Rightarrow> unit store_action" where
  "sr_set L F u k v = ds_set L F u k (value_of_string v)"

definition sr_get_bin :: "cxx_lib \<Rightarrow> fs_lib \<Rightarrow> string \<Rightarrow> bytes store_action" where
  "sr_get_bin L F k = bindA (getA (ds_has k)) (\<lambda>b. if \<not> b then retA [] else bindA (ds_get L F k) (\<lambda>v. retA (value_bin (Some v))))"

definition sr_set_bin :: "cxx_lib \<Rightarrow> fs_lib \<Rightarrow> string \<Rightarrow> string \<Rightarrow> bytes \<Rightarrow> unit store_action" where
  "sr_set_bin L F u k d = ds_set L F u k (VBytes d)"

definition sr_set_vclock :: "cxx_lib \<Rightarrow> fs_lib \<Rightarrow> string \<Rightarrow> string \<Rightarrow> vclock_wrapper \<Rightarrow> unit store_action" where
  "sr_set_vclock L F u k w = ds_set L F u k (VDict (tracked_to_dict (vw_c w)))"

definition sr_get_vclock :: "cxx_lib \<Rightarrow> fs_lib \<Rightarrow> string \<Rightarrow> vclock_wrapper store_action" where
  "sr_get_vclock L F k s =
     (case bindA (getA (ds_has k)) (\<lambda>b. if \<not> b then retA vw_bad else bindA (ds_get L F k) (\<lambda>v. retA (value_vclock (Some v)))) s of
        (Throw e, s1) \<Rightarrow> (Ok vw_bad, s1) | r \<Rightarrow> r)"

definition store_ref_set :: "cxx_lib \<Rightarrow> lua_lib \<Rightarrow> fs_lib \<Rightarrow> string \<Rightarrow> bool \<Rightarrow> lua list \<Rightarrow> unit store_action" where
  "store_ref_set L Z F u self args =
     (if length args \<noteq> 3 \<or> \<not> self then retA ()
      else case lua_string Z (args ! 1) of None \<Rightarrow> retA ()
        | Some k \<Rightarrow> if cstr k = [] then retA () else bindA (liftA (to_value L Z (args ! 2))) (\<lambda>v. ds_set L F u (cstr k) v))"

definition store_ref_get :: "cxx_lib \<Rightarrow> lua_lib \<Rightarrow> fs_lib \<Rightarrow> bool \<Rightarrow> lua list \<Rightarrow> lua store_action" where
  "store_ref_get L Z F self args =
     (if length args \<noteq> 2 \<or> \<not> self then retA LNil
      else case lua_string Z (args ! 1) of None \<Rightarrow> retA LNil
        | Some k \<Rightarrow> bindA (getA (ds_has (cstr k))) (\<lambda>b. if \<not> b then retA LNil
            else bindA (ds_get L F (cstr k)) (\<lambda>v. bindA (liftA (push_value v)) (\<lambda>vo. retA (case vo of Some x \<Rightarrow> x | None \<Rightarrow> LStr k)))))"

section \<open>Tables that survive\<close>

text \<open>Entries of an array and of a record, in the order in which Lua gives them: first the indices from one, then the string keys.\<close>

fun array_entries :: "nat \<Rightarrow> lua list \<Rightarrow> (lua \<times> lua) list" where
  "array_entries i [] = []"
| "array_entries i (v # vs) = (LInt (of_nat i), v) # array_entries (Suc i) vs"

definition hash_entries :: "(string \<times> lua) list \<Rightarrow> (lua \<times> lua) list" where
  "hash_entries ps = map (\<lambda>(k, v). (LStr k, v)) ps"

definition text_ok :: "lua_lib \<Rightarrow> string \<Rightarrow> bool" where
  "text_ok Z s \<longleftrightarrow> str_num Z s = None \<and> cstr s = s"

text \<open>Values without booleans, functions, gaps in arrays, numbers as strings and strings that Lua would take for numbers.\<close>

inductive plain :: "cxx_lib \<Rightarrow> lua_lib \<Rightarrow> lua \<Rightarrow> bool" for L Z where
  int: "plain L Z (LInt i)"
| num: "plain L Z (LNum n)"
| str: "text_ok Z s \<Longrightarrow> plain L Z (LStr s)"
| tab: "(\<And>v. v \<in> set vs \<Longrightarrow> plain L Z v) \<Longrightarrow> length vs \<le> max_alloc L \<Longrightarrow> length vs < 2 ^ 63 \<Longrightarrow> distinct (keys ps) \<Longrightarrow>
    (\<And>k v. (k, v) \<in> set ps \<Longrightarrow> text_ok Z k \<and> k \<noteq> ARRAY_K) \<Longrightarrow> (\<And>k v. (k, v) \<in> set ps \<Longrightarrow> plain L Z v) \<Longrightarrow> plain L Z (LTable (array_entries 1 vs @ hash_entries ps))"

definition there_and_back :: "cxx_lib \<Rightarrow> lua_lib \<Rightarrow> lua \<Rightarrow> mvalue \<Rightarrow> bool" where
  "there_and_back L Z v m \<longleftrightarrow> entry_value L Z v = Ok (Some m) \<and> push_value m = Ok (Some v)"

declare entry_value.simps [simp del] push_value.simps [simp del]

definition arr :: "array \<Rightarrow> dict" where
  "arr a = (if a = [] then [] else [(ARRAY_K, VArray a)])"

lemma word_index:
  assumes "n < (2::nat) ^ 63"
  shows "sint (of_nat n :: u64) = int n" "unat (of_nat n :: u64) = n" "(of_nat (Suc n) :: u64) \<noteq> - 1" "(of_nat (Suc n) :: u64) - 1 = of_nat n" "(of_nat (Suc n) :: u64) \<noteq> 0"
proof -
  show u: "unat (of_nat n :: u64) = n" using assms by (simp add: unat_of_nat take_bit_nat_eq_self)
  have "sint (of_nat n :: u64) = signed_take_bit 63 (int n)" using u by (simp add: sint_uint uint_nat)
  also have "signed_take_bit 63 (int n) = int n" using assms by (intro signed_take_bit_int_eq_self) auto
  finally show "sint (of_nat n :: u64) = int n" .
  show "(of_nat (Suc n) :: u64) - 1 = of_nat n" by simp
  have v: "unat (of_nat (Suc n) :: u64) = Suc n" using assms by (simp add: unat_of_nat take_bit_nat_eq_self del: of_nat_Suc)
  show "(of_nat (Suc n) :: u64) \<noteq> 0" using v by (metis unat_0 nat.distinct(1))
  have w: "unat (of_nat (Suc (Suc n)) :: u64) = Suc (Suc n)" using assms by (simp add: unat_of_nat take_bit_nat_eq_self del: of_nat_Suc)
  show "(of_nat (Suc n) :: u64) \<noteq> - 1"
  proof
    assume "(of_nat (Suc n) :: u64) = - 1"
    then have "(of_nat (Suc (Suc n)) :: u64) = 0" by simp
    then show False using w by simp
  qed
qed

lemma array_insert_next:
  assumes "Suc (length a) < 2 ^ 63" "length a < max_alloc L"
  shows "array_insert L (of_nat (Suc (length a))) v a = Ok (a @ [v])"
proof -
  have "sint (of_nat (Suc (length a)) :: u64) = int (Suc (length a))" using word_index(1) [OF assms(1)] .
  moreover have "(of_nat (Suc (length a)) :: u64) \<noteq> 0" using word_index(5) [of "length a"] assms(1) by simp
  moreover have "nat (int (Suc (length a)) - 1) = length a" "int (Suc (length a)) - 1 = int (length a)" by simp_all
  ultimately show ?thesis using assms(2) by (simp only: array_insert_def Let_def) (simp add: array_resize_def list_update_append)
qed

lemma table_insert_next:
  assumes "Suc (length a) < 2 ^ 63" "length a < max_alloc L"
  shows "table_insert L (of_nat (Suc (length a))) k v (arr a) = Ok (arr (a @ [v]))"
  using word_index(3) [of "length a"] array_insert_next [OF assms] assms(1)
  by (cases "a = []") (simp_all add: table_insert_def arr_def dict_has_def alist_has_def dict_get_def dict_put_def del: alist_has_iff of_nat_Suc)


lemma to_dict_array:
  "list_all2 (there_and_back L Z) vs ms \<Longrightarrow> length as + length vs \<le> max_alloc L \<Longrightarrow> length as + length vs < 2 ^ 63 \<Longrightarrow>
   to_dict L Z (array_entries (Suc (length as)) vs @ es) (arr as) = to_dict L Z es (arr (as @ ms))"
proof (induction vs ms arbitrary: as rule: list_all2_induct)
  case (Cons v vs m ms)
  have v: "entry_value L Z v = Ok (Some m)" using Cons.hyps(1) by (simp add: there_and_back_def)
  have "table_insert L (of_nat (Suc (length as))) [] m (arr as) = Ok (arr (as @ [m]))" using Cons.prems by (intro table_insert_next) simp_all
  moreover have "to_dict L Z (array_entries (Suc (length (as @ [m]))) vs @ es) (arr (as @ [m])) = to_dict L Z es (arr ((as @ [m]) @ ms))"
    using Cons.prems by (intro Cons.IH) simp_all
  ultimately show ?case using v by (simp add: lua_key_def)
qed simp

lemma to_dict_hash:
  "list_all2 (\<lambda>p q. fst q = fst p \<and> text_ok Z (fst p) \<and> there_and_back L Z (snd p) (snd q)) ps qs \<Longrightarrow> distinct (keys d @ keys ps) \<Longrightarrow>
   to_dict L Z (hash_entries ps) d = Ok (d @ qs)"
proof (induction ps qs arbitrary: d rule: list_all2_induct)
  case (Cons p ps q qs)
  obtain k v m where pq: "p = (k, v)" "q = (k, m)" using Cons.hyps(1) by (cases p; cases q) auto
  have k: "lua_key Z (LStr k) = Ok (- 1, k)" and v: "entry_value L Z v = Ok (Some m)"
    using Cons.hyps(1) by (simp_all add: pq lua_key_def lua_number_def lua_string_def text_ok_def there_and_back_def)
  have "table_insert L (- 1) k m d = Ok (d @ [(k, m)])" using Cons.prems by (simp add: pq table_insert_def dict_put_def alist_put_new)
  moreover have "to_dict L Z (hash_entries ps) (d @ [(k, m)]) = Ok ((d @ [(k, m)]) @ qs)" using Cons.prems by (intro Cons.IH) (simp add: pq)
  ultimately show ?case using k v by (simp add: pq hash_entries_def)
qed (simp add: hash_entries_def)

lemma array_keys: "fst ` set (array_entries i vs) = (\<lambda>j. LInt (of_nat j)) ` {i..<i + length vs}"
proof (induction vs arbitrary: i)
  case (Cons v vs)
  have "{i..<i + length (v # vs)} = insert i {Suc i..<Suc i + length vs}" by auto
  then show ?case using Cons by simp
qed simp

lemma push_array_entries:
  "list_all2 (there_and_back L Z) vs ms \<Longrightarrow> i + length vs < 2 ^ 64 \<Longrightarrow> (\<forall>j. i \<le> j \<and> j < i + length vs \<longrightarrow> LInt (of_nat j) \<notin> fst ` set t) \<Longrightarrow>
   push_array ms (of_nat i) t = Ok (t @ array_entries i vs)"
proof (induction vs ms arbitrary: i t rule: list_all2_induct)
  case (Cons v vs m ms)
  have v: "push_value m = Ok (Some v)" using Cons.hyps(1) by (simp add: there_and_back_def)
  have "LInt (of_nat i) \<notin> fst ` set t" using Cons.prems(2) by auto
  then have s: "table_set (LInt (of_nat i)) (Some v) t = Ok (t @ [(LInt (of_nat i), v)])" by (simp add: table_set_def alist_put_new)
  have ne: "(of_nat j :: u64) \<noteq> of_nat i" if "i < j" "j < 2 ^ 64" for j
  proof -
    have "unat (of_nat j :: u64) = j" "unat (of_nat i :: u64) = i" using that by (simp_all add: unat_of_nat take_bit_nat_eq_self)
    then show ?thesis using that(1) by auto
  qed
  have "push_array ms (of_nat (Suc i)) (t @ [(LInt (of_nat i), v)]) = Ok ((t @ [(LInt (of_nat i), v)]) @ array_entries (Suc i) vs)"
    using Cons.prems ne by (intro Cons.IH) auto
  then show ?case using v s by (simp add: add.commute)
qed simp

lemma list_all2_choice: "(\<And>x. x \<in> set xs \<Longrightarrow> \<exists>y. R x y) \<Longrightarrow> \<exists>ys. list_all2 R xs ys"
proof (induction xs)
  case (Cons x xs)
  obtain y ys where "R x y" "list_all2 R xs ys" using Cons.IH Cons.prems by (metis list.set_intros)
  then show ?case by (intro exI [of _ "y # ys"]) simp
qed auto

lemma push_dict_hash:
  "list_all2 (\<lambda>p q. fst q = fst p \<and> text_ok Z (fst p) \<and> there_and_back L Z (snd p) (snd q)) ps qs \<Longrightarrow> ARRAY_K \<notin> set (keys ps) \<Longrightarrow> distinct (keys ps) \<Longrightarrow>
   (\<forall>k \<in> set (keys ps). LStr k \<notin> fst ` set t) \<Longrightarrow> push_dict qs t = Ok (t @ hash_entries ps)"
proof (induction ps qs arbitrary: t rule: list_all2_induct)
  case (Cons p ps q qs)
  obtain k v m where pq: "p = (k, v)" "q = (k, m)" using Cons.hyps(1) by (cases p; cases q) auto
  have k: "cstr k = k" "k \<noteq> ARRAY_K" and v: "push_value m = Ok (Some v)"
    using Cons.hyps(1) Cons.prems(1) by (auto simp: pq text_ok_def there_and_back_def)
  have s: "table_set (LStr k) (Some v) t = Ok (t @ [(LStr k, v)])" using Cons.prems(3) by (simp add: pq table_set_def alist_put_new)
  have "push_dict qs (t @ [(LStr k, v)]) = Ok ((t @ [(LStr k, v)]) @ hash_entries ps)" using Cons.prems by (intro Cons.IH) (auto simp: pq)
  then show ?case using k v s by (simp add: pq hash_entries_def)
qed (simp add: hash_entries_def)

lemma plain_back: "plain L Z v \<Longrightarrow> \<exists>m. there_and_back L Z v m"
proof (induction rule: plain.induct)
  case (int i)
  then show ?case by (intro exI [of _ "VInt i"]) (simp add: there_and_back_def entry_value.simps push_value.simps)
next
  case (num n)
  then show ?case by (intro exI [of _ "VDouble n"]) (simp add: there_and_back_def entry_value.simps push_value.simps lua_number_def)
next
  case (str s)
  then show ?case by (intro exI [of _ "VBytes s"]) (simp add: there_and_back_def entry_value.simps push_value.simps lua_number_def lua_string_def text_ok_def to_str_def)
next
  case (tab vs ps)
  obtain ms where ms: "list_all2 (there_and_back L Z) vs ms" using list_all2_choice [of vs "there_and_back L Z"] tab.IH(1) by blast
  let ?R = "\<lambda>p q. fst q = fst p \<and> text_ok Z (fst p) \<and> there_and_back L Z (snd p) (snd q)"
  have "\<exists>q. ?R p q" if p: "p \<in> set ps" for p
  proof -
    obtain k v where kv: "p = (k, v)" by (cases p)
    then obtain m where "there_and_back L Z v m" using tab.IH(2) p by blast
    then show ?thesis using tab.hyps(5) p kv by (intro exI [of _ "(k, m)"]) auto
  qed
  then obtain qs where qs: "list_all2 ?R ps qs" using list_all2_choice [of ps ?R] by blast
  have ak: "ARRAY_K \<notin> set (keys ps)" using tab.hyps(5) by fastforce
  have len: "length ms = length vs" using ms by (simp add: list_all2_lengthD)
  have "to_dict L Z (array_entries (Suc (length ([] :: array))) vs @ hash_entries ps) (arr []) = to_dict L Z (hash_entries ps) (arr ([] @ ms))"
    using tab.hyps(2, 3) by (intro to_dict_array [OF ms]) simp_all
  moreover have "to_dict L Z (hash_entries ps) (arr ms) = Ok (arr ms @ qs)" using tab.hyps(4) ak by (intro to_dict_hash [OF qs]) (auto simp: arr_def)
  ultimately have d: "to_dict L Z (array_entries 1 vs @ hash_entries ps) [] = Ok (arr ms @ qs)" by (simp add: arr_def)
  have pa: "push_array ms (of_nat 1) [] = Ok ([] @ array_entries 1 vs)" using tab.hyps(3) by (intro push_array_entries [OF ms]) simp_all
  have ph: "push_dict qs (array_entries 1 vs) = Ok (array_entries 1 vs @ hash_entries ps)"
    using ak tab.hyps(4) by (intro push_dict_hash [OF qs]) (auto simp: array_keys)
  have "push_dict (arr ms @ qs) [] = Ok (array_entries 1 vs @ hash_entries ps)"
  proof (cases "ms = []")
    case True
    then show ?thesis using ph len by (simp add: arr_def)
  next
    case False
    then show ?thesis using ph pa by (simp add: arr_def)
  qed
  then show ?case using d by (intro exI [of _ "VDict (arr ms @ qs)"]) (simp add: there_and_back_def entry_value.simps push_value.simps)
qed

lemma to_value_entry: "entry_value L Z v = Ok (Some m) \<Longrightarrow> to_value L Z v = Ok m"
  by (cases v) (auto simp: to_value_def entry_value.simps lua_number_def lua_string_def split: option.splits)

lemma to_value_push:
  assumes "plain L Z v"
  obtains m where "to_value L Z v = Ok m" "push_value m = Ok (Some v)"
  using plain_back [OF assms] to_value_entry by (auto simp: there_and_back_def)

lemma decode_to_dict_encode: "lexical_cast L \<Longrightarrow> wf_value L (VDict d) \<Longrightarrow> decode_to_dict L (encode_dict L d) = Ok d"
  using lexical_cast.read_dict_whole [of L d] by (simp add: decode_to_dict_def to_str_def)

definition sent_by :: "string \<Rightarrow> message \<Rightarrow> message" where
  "sent_by i m = m\<lparr>m_meta := (m_meta m)\<lparr>mt_extra := dict_put ''from_id'' (VBytes i) (mt_extra (m_meta m))\<rparr>\<rparr>"

lemma script_received:
  assumes "lexical_cast L" "wf_value L (VDict (sm_v s))"
  shows "script_from_message L (sent_by i (script_to_message L s)) = Ok (s\<lparr>sm_from_id := i, sm_local_app_id := [], sm_robust := True\<rparr>)"
  using decode_to_dict_encode [OF assms]
  by (simp add: script_from_message_def script_to_message_def sent_by_def msg_extra_def dict_get_def dict_put_def dict_has_def alist_has_def value_of_string_def to_bytes_def to_str_def
      del: alist_has_iff)

definition sample_lua :: lua_lib where
  "sample_lua = \<lparr>str_num = (\<lambda>s. if s \<noteq> [] \<and> list_all is_digit s then Some 0 else None), num_str = (\<lambda>_. ''0''), int_str = (\<lambda>_. ''0''), num_int = (\<lambda>n. n)\<rparr>"

definition sample_table :: lua where
  "sample_table = LTable [(LInt 1, LInt 5), (LInt 2, LStr ''a''), (LStr ''x'', LTable [(LStr ''y'', LInt 7)])]"

lemma sample_table_plain: "plain decimal_lib sample_lua sample_table"
proof -
  have ok: "text_ok sample_lua ''x''" "text_ok sample_lua ''y''" "text_ok sample_lua ''a''" by (simp_all add: text_ok_def cstr_def sample_lua_def is_digit_def)
  have "plain decimal_lib sample_lua (LTable (array_entries 1 [] @ hash_entries [(''y'', LInt 7)]))"
    using ok by (intro plain.tab) (auto simp: ARRAY_K_def intro: plain.int)
  then have t: "plain decimal_lib sample_lua (LTable [(LStr ''y'', LInt 7)])" by (simp add: hash_entries_def)
  have "plain decimal_lib sample_lua (LTable (array_entries 1 [LInt 5, LStr ''a''] @ hash_entries [(''x'', LTable [(LStr ''y'', LInt 7)])]))"
    using ok t by (intro plain.tab) (auto simp: ARRAY_K_def decimal_lib_def intro: plain.intros)
  then show ?thesis by (simp add: hash_entries_def sample_table_def numeral_2_eq_2)
qed

lemma sample_table_value: "to_value decimal_lib sample_lua sample_table = Ok (VDict [(ARRAY_K, VArray [VInt 5, VBytes ''a'']), (''x'', VDict [(''y'', VInt 7)])])"
  by (simp add: sample_table_def to_value_def lua_key_def entry_value.simps table_insert_def array_insert_def array_resize_def dict_put_def dict_has_def dict_get_def
      lua_number_def lua_string_def sample_lua_def cstr_def is_digit_def ARRAY_K_def decimal_lib_def)

text \<open>The clocks that a script can get hold of: new ones, ones it reads, received ones, and what it makes of them.\<close>

inductive script_clock :: "vclock_wrapper \<Rightarrow> bool" where
  new: "script_clock (vw_new i)"
| read: "script_clock (value_vclock vo)"
| incr: "script_clock w \<Longrightarrow> script_clock (vw_increment w)"
| merge: "script_clock w \<Longrightarrow> script_clock w1 \<Longrightarrow> vw_merge w w1 = Ok w2 \<Longrightarrow> script_clock w2"

lemma sclock_entries_ok: "sclock_entries d c = Ok c1 \<Longrightarrow> clock_ok c \<Longrightarrow> clock_ok c1"
  by (induction d c rule: sclock_entries.induct) auto

lemma to_tracked_inv: "to_tracked_sclock d = Ok c \<Longrightarrow> tracked_inv c"
  by (auto simp: to_tracked_sclock_def to_sclock_def intro!: tracked_inv_constructors(3) elim: sclock_entries_ok)

lemma script_clock_inv: "script_clock w \<Longrightarrow> tracked_inv (vw_c w)"
proof (induction rule: script_clock.induct)
  case (read vo)
  show ?case by (auto simp: value_vclock_def vw_bad_def vw_of_def tracked_inv_constructors dest: to_tracked_inv split: option.splits mvalue.splits outcome.splits)
next
  case (merge w w1 w2)
  then show ?case using tracked_merge_spec [of "vw_c w" "vw_c w1"] by (auto simp: vw_merge_def)
qed (simp_all add: vw_new_def vw_increment_def tracked_inv_constructors tracked_incr_spec)

section \<open>Properties\<close>



text \<open>Any other text changes on the way: one that Lua reads as a number comes back as that number, the rest up to the first zero byte.\<close>

theorem text_comes_back_as:
  assumes "k \<noteq> []" "cstr k = k"
  shows "\<exists>s1. script_message_set L Z True [LOther, LStr k, LStr t] s = Ok s1 \<and>
    script_message_get Z True [LOther, LStr k] s1 = Ok (case str_num Z t of Some n \<Rightarrow> LNum n | None \<Rightarrow> LStr (cstr t))"
proof -
  have "cstr (cstr t) = cstr t" by (simp add: cstr_def)
  then show ?thesis using assms
    by (cases "str_num Z t")
      (simp_all add: script_message_set_def script_message_get_def lua_string_def lua_number_def to_value_def sm_has_def sm_get_def sm_set_def dict_has_def dict_get_def dict_put_def
        alist_has_def push_value.simps to_str_def del: alist_has_iff)
qed

theorem text_comes_back_as_witness:
  "\<exists>s1. script_message_set decimal_lib sample_lua True [LOther, LStr ''k'', LStr ''abc''] script_new = Ok s1 \<and>
    script_message_get sample_lua True [LOther, LStr ''k''] s1 = Ok (case str_num sample_lua ''abc'' of Some n \<Rightarrow> LNum n | None \<Rightarrow> LStr (cstr ''abc''))"
  by (rule text_comes_back_as) (simp_all add: cstr_def)

text \<open>
  A boolean that a script puts in a message does not come back: getting it gives the key, a text that Lua takes for true, whatever the boolean was.
\<close>

theorem boolean_comes_back_as_key:
  assumes "k \<noteq> []" "cstr k = k"
  shows "\<exists>s1. script_message_set L Z True [LOther, LStr k, LBool b] s = Ok s1 \<and> script_message_get Z True [LOther, LStr k] s1 = Ok (LStr k)"
  using assms
  by (simp add: script_message_set_def script_message_get_def lua_string_def lua_number_def to_value_def sm_has_def sm_get_def sm_set_def dict_has_def dict_get_def dict_put_def alist_has_def
      push_value.simps del: alist_has_iff)

theorem boolean_comes_back_as_key_witness:
  "\<exists>s1. script_message_set decimal_lib sample_lua True [LOther, LStr ''done'', LBool False] script_new = Ok s1 \<and> script_message_get sample_lua True [LOther, LStr ''done''] s1 = Ok (LStr ''done'')"
  by (rule boolean_comes_back_as_key) (simp_all add: cstr_def)

text \<open>
  A negative index other than minus one in a table writes outside the array that is made for the indices, whatever the rest of the table holds; a script
  can do that by storing or sending such a table.
\<close>

theorem negative_index_undefined:
  assumes "sint i < - 1" "entry_value L Z v = Ok (Some m)"
  shows "script_message_set L Z True [LOther, LStr ''k'', LTable ((LInt i, v) # es)] s = Undef"
proof -
  have i: "i \<noteq> - 1" "i \<noteq> 0" using assms(1) by auto
  have "array_insert L i m [] = Undef" using assms(1) i by (simp add: array_insert_def)
  then have "to_dict L Z ((LInt i, v) # es) [] = Undef" using assms(2) i by (simp add: lua_key_def table_insert_def dict_has_def)
  then show ?thesis by (simp add: script_message_set_def lua_string_def cstr_def to_value_def)
qed

theorem negative_index_undefined_witness:
  "script_message_set decimal_lib sample_lua True [LOther, LStr ''k'', LTable [(LInt (- 5), LInt 7)]] script_new = Undef"
  by (rule negative_index_undefined [where m = "VInt 7"]) (simp_all add: entry_value.simps)

text \<open>
  C29. Every clock that a script can get hold of is a proper one, also one read from a message of another user: it has an entry of its own id, so merging and
  comparing never fail a check.
\<close>

theorem script_clocks_typed:
  assumes "script_clock w" "script_clock w1"
  shows "tracked_inv (vw_c w) \<and> (\<exists>w2. vw_merge w w1 = Ok w2 \<and> script_clock w2) \<and> vw_same w w1 = Ok (tv_c (vw_c w) = tv_c (vw_c w1)) \<and>
    vw_compare w w1 = vclock_compare (tv_c (vw_c w)) (tv_c (vw_c w1))"
proof -
  have i: "tracked_inv (vw_c w)" "tracked_inv (vw_c w1)" using assms script_clock_inv by blast+
  then obtain w2 where m: "vw_merge w w1 = Ok w2" using tracked_merge_spec(1) [OF i] by (simp add: vw_merge_def)
  then show ?thesis using i script_clock.merge [OF assms m] by (simp add: vw_same_def vw_compare_def tracked_identical_spec tracked_compare_spec)
qed

theorem script_clocks_typed_witness:
  "\<exists>w2. vw_merge (vw_new ''a'') (value_vclock (Some (VDict [(''i'', VBytes ''b''), (''v'', VDict [])]))) = Ok w2 \<and> script_clock w2"
  using script_clocks_typed [OF script_clock.new script_clock.read] by blast

text \<open>
  Writing a buffer over another one at an offset makes the target long enough, fills the gap with zero bytes and leaves the rest as it was, and reading the
  place gives what was written; reading is defined exactly for places inside the buffer.
\<close>

theorem buffer_overlay:
  assumes "0 \<le> i" "nat i + length n \<le> max_alloc L"
  shows "\<exists>d1. bd_overlay L i n d = Ok d1 \<and> length d1 = max (length d) (nat i + length n) \<and> bd_sub (nat i) (length n) d1 = Ok n \<and>
    (\<forall>j < length d1. j < nat i \<or> nat i + length n \<le> j \<longrightarrow> d1 ! j = bd_get (int j) d) \<and> (\<forall>p s. bd_sub p s d1 = Undef \<longleftrightarrow> length d1 < p + s)"
proof (cases "length d \<le> nat i + length n")
  case True
  define e where "e = d @ replicate (nat i + length n - length d) (CHR 0x00)"
  have o: "bd_overlay L i n d = Ok (take (nat i) e @ n)" "length e = nat i + length n"
    using True assms by (simp_all add: bd_overlay_def bd_resize_def e_def)
  have "(take (nat i) e @ n) ! j = bd_get (int j) d" if "j < nat i" for j
    using that True by (auto simp: nth_append e_def bd_get_def)
  then show ?thesis using o True by (intro exI [of _ "take (nat i) e @ n"]) (auto simp: bd_sub_def)
next
  case False
  then have o: "bd_overlay L i n d = Ok (take (nat i) d @ n @ drop (nat i + length n) d)" using assms by (simp add: bd_overlay_def)
  have "(take (nat i) d @ n @ drop (nat i + length n) d) ! j = bd_get (int j) d" if "j < length d" "j < nat i \<or> nat i + length n \<le> j" for j
    using that False by (auto simp: nth_append bd_get_def)
  then show ?thesis using o False by (intro exI [of _ "take (nat i) d @ n @ drop (nat i + length n) d"]) (auto simp: bd_sub_def)
qed

theorem buffer_overlay_witness:
  "\<exists>d1. bd_overlay decimal_lib 3 ''xy'' ''a'' = Ok d1 \<and> length d1 = 5 \<and> bd_sub 3 2 d1 = Ok ''xy''"
proof -
  have l: "length ''xy'' = 2" by simp
  obtain d1 where d: "bd_overlay decimal_lib 3 ''xy'' ''a'' = Ok d1" "length d1 = max (length ''a'') (nat 3 + length ''xy'')" "bd_sub (nat 3) (length ''xy'') d1 = Ok ''xy''"
    using buffer_overlay [of 3 "''xy''" decimal_lib "''a''"] by (auto simp: decimal_lib_def)
  then show ?thesis unfolding l by (intro exI [of _ d1]) (simp add: nat_numeral)
qed

end
