(* ===== verification/Lua_Api.thy ===== *)
theory Lua_Api
  imports Lua_Base Conversation
begin

text \<open>
  What a running app's script can do and what happens to it, \<^verbatim>\<open>src/src/gui/lua/api.cpp\<close>, with the widgets of \<^verbatim>\<open>widgets.cpp\<close>, the sound devices of \<^verbatim>\<open>audio.cpp\<close>
  and the references of \<^verbatim>\<open>base.cpp\<close>.  The script gets references to widgets, which are values; the \<open>lua_api\<close> keeps its own copy of each under its id.  The
  interface, behind \<^verbatim>\<open>api::frontend\<close>, is told what to show: the calls are collected in \<open>la_effects\<close>, and its answers come from the environment.  The Lua
  interpreter is a parameter: it may call the operations of the api while it runs.
\<close>

type_synonym ref_id = u64

section \<open>References\<close>

text \<open>A reference has an \<^verbatim>\<open>int\<close> id.  The records extend each other as the classes do.\<close>

record basic_ref =
  r_id :: u32

record observable_ref = basic_ref +
  r_name :: string

record button_ref = observable_ref +
  bt_callback :: string

record edit_ref = observable_ref +
  ed_edited :: string
  ed_finished :: string

record text_edit_ref = observable_ref +
  te_edited :: string

record dropdown_ref = observable_ref +
  dd_callback :: string

record timer_ref = basic_ref +
  ti_callback :: string

record microphone_ref = basic_ref +
  mi_callback :: string

text \<open>\<open>None\<close> is a member that is not initialised.  Lines, circles and images of a drawing know the drawing.\<close>

record draw_item = basic_ref +
  di_view :: u32

record draw_ref = observable_ref +
  dw_released :: string
  dw_pressed :: string
  dw_moved :: string
  dw_dragged :: string
  dw_pen :: "u32 option"
  dw_lines :: "(u32 \<times> draw_item) list"
  dw_circles :: "(u32 \<times> draw_item) list"
  dw_images :: "(u32 \<times> draw_item) list"

record image_ref = observable_ref +
  im_good :: "bool option"

record contact_ref =
  co_user_id :: string
  co_is_self :: bool

text \<open>An id of an \<^verbatim>\<open>int\<close> reference as the interface gets it.\<close>

definition rid :: "u32 \<Rightarrow> ref_id" where
  "rid i = scast i"

section \<open>State\<close>

text \<open>What the interface and the conversation service are told; coordinates of drawings are doubles.\<close>

datatype widget = Grid | Button string | Label string | Edit string | Text_Edit string | List_Box | Dropdown | Pen string u32 | Drawing u32 u32 | Timer u32
  | Image bytes | Mic string | Speaker string

datatype layout = Place ref_id u32 u32 | Place_Across ref_id u32 u32 u32 u32 | Grid_Place ref_id ref_id u32 u32 | Grid_Place_Across ref_id ref_id u32 u32 u32 u32
  | Height u32 | Width u32 | Grow

datatype change = Enable bool | Visible bool | Set_Style string | Button_Set_Text string | Label_Set_Text string | Edit_Set_Text string | Text_Edit_Set_Text string
  | Set_Image ref_id | List_Add ref_id | List_Remove ref_id | Clear | Add_Item string | Select u32 | Set_Width u32

datatype device = Timer_Start | Timer_Stop | Set_Interval u32 | Mic_Start | Mic_Stop | Mute | Unmute | Play bytes

datatype shape = Line | Circle | Picture

datatype effect = Add ref_id widget | Layout layout | Change ref_id change | Device ref_id device
  | Draw ref_id ref_id shape ref_id "u64 list" | Redraw ref_id ref_id shape "u64 list" | Set_Pen ref_id ref_id shape ref_id
  | Print string | Alert | Report_Error string | Adjust_Size | Conversation_Alert string bool

record 's lua_api =
  la_script :: 's
  la_who_started_id :: string
  la_mail :: mailbox
  la_effects :: "effect list"
  la_contact_quit_callback :: string
  la_contact_joined_callback :: string
  la_message_callback :: string
  la_local_message_callback :: string
  la_message_callbacks :: "(string \<times> string) list"
  la_local_message_callbacks :: "(string \<times> string) list"
  la_button_refs :: "(u32 \<times> button_ref) list"
  la_label_refs :: "(u32 \<times> observable_ref) list"
  la_edit_refs :: "(u32 \<times> edit_ref) list"
  la_text_edit_refs :: "(u32 \<times> text_edit_ref) list"
  la_list_refs :: "(u32 \<times> observable_ref) list"
  la_dropdown_refs :: "(u32 \<times> dropdown_ref) list"
  la_grid_refs :: "(u32 \<times> observable_ref) list"
  la_draw_refs :: "(u32 \<times> draw_ref) list"
  la_timer_refs :: "(u32 \<times> timer_ref) list"
  la_image_refs :: "(u32 \<times> image_ref) list"
  la_mic_refs :: "(u32 \<times> microphone_ref) list"
  la_speaker_refs :: "(u32 \<times> basic_ref) list"
  la_ids :: ref_id
  la_observable_names :: "(string \<times> u32) list"
  la_error :: "int \<times> string"

type_synonym ('s, 'a) api_action = "('s lua_api, 'a) action"

section \<open>The interpreter and the environment\<close>

text \<open>
  What the interpreter passes to a function of the script.  A call ends normally, with an error of the script (message and line) or with another exception; it
  may also not return, as the script may loop or fail a check inside the api.
\<close>

datatype script_arg = AText string | AInt u32 | ABin bytes | AMessage script_message | AContact contact_ref

datatype call_result = Called | CallFailed string int | CallUnknown

datatype do_result = DoOk | DoFailed | DoThrew string

text \<open>The shared objects that the api refers to, as they are at the time of a call, and what the interface answers.\<close>

record 'k api_env =
  ae_cxx :: cxx_lib
  ae_user :: "'k local_user"
  ae_available :: "string \<Rightarrow> bool"
  ae_conv :: "'k conversation"
  ae_launched_local :: bool
  ae_visible :: bool
  ae_edit_text :: "ref_id \<Rightarrow> string"
  ae_text_edit_text :: "ref_id \<Rightarrow> string"
  ae_image_good :: "bytes \<Rightarrow> bool"

record ('k, 's) script_engine =
  se_new :: 's
  se_do :: "'k api_env \<Rightarrow> string \<Rightarrow> ('s, do_result) api_action"
  se_call :: "'k api_env \<Rightarrow> string \<Rightarrow> script_arg list \<Rightarrow> ('s, call_result) api_action"
  se_last_error :: "'s \<Rightarrow> string"
  se_last_line :: "'s \<Rightarrow> int"

definition effect :: "effect \<Rightarrow> ('s, unit) api_action" where
  "effect e = modA (\<lambda>a. a\<lparr>la_effects := la_effects a @ [e]\<rparr>)"

definition report_error :: "string \<Rightarrow> int \<Rightarrow> ('s, unit) api_action" where
  "report_error e line = thenA (modA (\<lambda>a. a\<lparr>la_error := (line, e)\<rparr>)) (effect (Report_Error e))"

definition new_id :: "('s, ref_id) api_action" where
  "new_id a = (Ok (la_ids a + 1), a\<lparr>la_ids := la_ids a + 1\<rparr>)"

definition reset_refs :: "'s lua_api \<Rightarrow> 's lua_api" where
  "reset_refs a = a\<lparr>la_button_refs := [], la_edit_refs := [], la_text_edit_refs := [], la_list_refs := [], la_timer_refs := [], la_grid_refs := [],
     la_image_refs := [], la_observable_names := []\<rparr>"

definition api_reset :: "('k, 's) script_engine \<Rightarrow> ('s, unit) api_action" where
  "api_reset N = modA (\<lambda>a. (reset_refs a)\<lparr>la_script := se_new N\<rparr>)"

definition lua_api_new :: "('k, 's) script_engine \<Rightarrow> mailbox \<Rightarrow> string \<Rightarrow> 's lua_api" where
  "lua_api_new N mail who =
     \<lparr>la_script = se_new N, la_who_started_id = who, la_mail = mail, la_effects = [], la_contact_quit_callback = [], la_contact_joined_callback = [],
      la_message_callback = [], la_local_message_callback = [], la_message_callbacks = [], la_local_message_callbacks = [], la_button_refs = [], la_label_refs = [],
      la_edit_refs = [], la_text_edit_refs = [], la_list_refs = [], la_dropdown_refs = [], la_grid_refs = [], la_draw_refs = [], la_timer_refs = [], la_image_refs = [],
      la_mic_refs = [], la_speaker_refs = [], la_ids = 0, la_observable_names = [], la_error = (- 1, [])\<rparr>"

section \<open>Running code and calling functions\<close>

text \<open>\<^verbatim>\<open>execute\<close> gives the line and the message of an error, the message empty when there is none.\<close>

definition execute :: "('k, 's) script_engine \<Rightarrow> 'k api_env \<Rightarrow> string \<Rightarrow> ('s, int \<times> string) api_action" where
  "execute N E s =
     thenA (requireA (s \<noteq> []))
       (bindA (se_do N E s) (\<lambda>r. case r of
          DoOk \<Rightarrow> retA (- 1, [])
        | DoFailed \<Rightarrow> getA (\<lambda>a. (se_last_line N (la_script a), se_last_error N (la_script a)))
        | DoThrew w \<Rightarrow> retA (- 1, w)))"

definition run_code :: "('k, 's) script_engine \<Rightarrow> 'k api_env \<Rightarrow> string \<Rightarrow> bool \<Rightarrow> ('s, unit) api_action" where
  "run_code N E code adjust =
     thenA (requireA (code \<noteq> []))
       (thenA (modA (\<lambda>a. a\<lparr>la_error := (- 1, [])\<rparr>))
         (bindA (execute N E code) (\<lambda>(line, msg).
            thenA (if msg \<noteq> [] then report_error msg line else retA ()) (if adjust then effect Adjust_Size else retA ()))))"

text \<open>
  The handlers around calls of the script: an error of the script is reported with its line, any other exception as unknown, with the line that the interpreter
  remembers or without one.
\<close>

definition guarded :: "('k, 's) script_engine \<Rightarrow> string \<Rightarrow> string \<Rightarrow> bool \<Rightarrow> ('s, call_result) api_action \<Rightarrow> ('s, unit) api_action" where
  "guarded N what unk lln body a =
     (let other = (\<lambda>a1. report_error unk (if lln then se_last_line N (la_script a1) else - 1) a1) in
      case body a of
        (Ok Called, a1) \<Rightarrow> (Ok (), a1)
      | (Ok (CallFailed m l), a1) \<Rightarrow> report_error (what @ m) l a1
      | (Ok CallUnknown, a1) \<Rightarrow> other a1
      | (Throw e, a1) \<Rightarrow> other a1
      | (Exit, a1) \<Rightarrow> (Exit, a1) | (Undef, a1) \<Rightarrow> (Undef, a1) | (Diverge, a1) \<Rightarrow> (Diverge, a1))"

text \<open>\<^verbatim>\<open>catch(...)\<close> that throws again only while \<open>p\<close> holds.\<close>

definition rethrow_if :: "('s lua_api \<Rightarrow> bool) \<Rightarrow> ('s, call_result) api_action \<Rightarrow> ('s, call_result) api_action" where
  "rethrow_if p body a =
     (case body a of
        (Throw e, a1) \<Rightarrow> (if p a1 then Throw e else Ok Called, a1)
      | (Ok r, a1) \<Rightarrow> (if p a1 then Ok r else Ok Called, a1)
      | r \<Rightarrow> r)"

section \<open>Making widgets\<close>

text \<open>
  All makers work alike: the next id, cut to an \<^verbatim>\<open>int\<close>, an entry in the map of the kind, the call of the interface, and the check that the id is not zero.
\<close>

definition make_ref :: "(u32 \<Rightarrow> 'r) \<Rightarrow> (u32 \<Rightarrow> 'r \<Rightarrow> 's lua_api \<Rightarrow> 's lua_api) \<Rightarrow> widget \<Rightarrow> ('s, 'r) api_action" where
  "make_ref mk put w =
     bindA new_id (\<lambda>n. let i = ucast n; ref = mk i in
       thenA (modA (put i ref)) (thenA (effect (Add (rid i) w)) (thenA (requireA (i \<noteq> 0)) (retA ref))))"

definition make_grid :: "('s, observable_ref) api_action" where
  "make_grid = make_ref (\<lambda>i. \<lparr>r_id = i, r_name = []\<rparr>) (\<lambda>i r a. a\<lparr>la_grid_refs := alist_put i r (la_grid_refs a)\<rparr>) Grid"

definition make_button :: "string \<Rightarrow> ('s, button_ref) api_action" where
  "make_button t =
     make_ref (\<lambda>i. \<lparr>r_id = i, r_name = [], bt_callback = []\<rparr>) (\<lambda>i r a. a\<lparr>la_button_refs := alist_put i r (la_button_refs a)\<rparr>) (Button t)"

definition make_label :: "string \<Rightarrow> ('s, observable_ref) api_action" where
  "make_label t = make_ref (\<lambda>i. \<lparr>r_id = i, r_name = []\<rparr>) (\<lambda>i r a. a\<lparr>la_label_refs := alist_put i r (la_label_refs a)\<rparr>) (Label t)"

definition make_edit :: "string \<Rightarrow> ('s, edit_ref) api_action" where
  "make_edit t =
     make_ref (\<lambda>i. \<lparr>r_id = i, r_name = [], ed_edited = [], ed_finished = []\<rparr>) (\<lambda>i r a. a\<lparr>la_edit_refs := alist_put i r (la_edit_refs a)\<rparr>) (Edit t)"

definition make_text_edit :: "string \<Rightarrow> ('s, text_edit_ref) api_action" where
  "make_text_edit t =
     make_ref (\<lambda>i. \<lparr>r_id = i, r_name = [], te_edited = []\<rparr>) (\<lambda>i r a. a\<lparr>la_text_edit_refs := alist_put i r (la_text_edit_refs a)\<rparr>) (Text_Edit t)"

definition make_list :: "('s, observable_ref) api_action" where
  "make_list = make_ref (\<lambda>i. \<lparr>r_id = i, r_name = []\<rparr>) (\<lambda>i r a. a\<lparr>la_list_refs := alist_put i r (la_list_refs a)\<rparr>) List_Box"

definition make_dropdown :: "('s, dropdown_ref) api_action" where
  "make_dropdown =
     make_ref (\<lambda>i. \<lparr>r_id = i, r_name = [], dd_callback = []\<rparr>) (\<lambda>i r a. a\<lparr>la_dropdown_refs := alist_put i r (la_dropdown_refs a)\<rparr>) Dropdown"

definition make_pen :: "string \<Rightarrow> u32 \<Rightarrow> ('s, observable_ref) api_action" where
  "make_pen color w = make_ref (\<lambda>i. \<lparr>r_id = i, r_name = []\<rparr>) (\<lambda>_ _ a. a) (Pen color w)"

definition make_draw :: "u32 \<Rightarrow> u32 \<Rightarrow> ('s, draw_ref) api_action" where
  "make_draw w h =
     make_ref (\<lambda>i. \<lparr>r_id = i, r_name = [], dw_released = [], dw_pressed = [], dw_moved = [], dw_dragged = [], dw_pen = None, dw_lines = [], dw_circles = [], dw_images = []\<rparr>)
       (\<lambda>i r a. a\<lparr>la_draw_refs := alist_put i r (la_draw_refs a)\<rparr>) (Drawing w h)"

definition make_timer :: "u32 \<Rightarrow> string \<Rightarrow> ('s, timer_ref) api_action" where
  "make_timer msec callback =
     make_ref (\<lambda>i. \<lparr>r_id = i, ti_callback = callback\<rparr>) (\<lambda>i r a. a\<lparr>la_timer_refs := alist_put i r (la_timer_refs a)\<rparr>) (Timer msec)"

definition make_image :: "'k api_env \<Rightarrow> bytes \<Rightarrow> ('s, image_ref) api_action" where
  "make_image E d =
     bindA (make_ref (\<lambda>i. \<lparr>r_id = i, r_name = [], im_good = None\<rparr>) (\<lambda>i r a. a\<lparr>la_image_refs := alist_put i r (la_image_refs a)\<rparr>) (Image d))
       (\<lambda>r. retA (r\<lparr>im_good := Some (ae_image_good E d)\<rparr>))"

definition make_mic :: "string \<Rightarrow> string \<Rightarrow> ('s, microphone_ref) api_action" where
  "make_mic callback codec =
     make_ref (\<lambda>i. \<lparr>r_id = i, mi_callback = callback\<rparr>) (\<lambda>i r a. a\<lparr>la_mic_refs := alist_put i r (la_mic_refs a)\<rparr>) (Mic codec)"

text \<open>\<^verbatim>\<open>make_speaker\<close> has no check of the id.\<close>

definition make_speaker :: "string \<Rightarrow> ('s, basic_ref) api_action" where
  "make_speaker codec =
     bindA new_id (\<lambda>n. let i = ucast n; ref = \<lparr>r_id = i\<rparr> in
       thenA (modA (\<lambda>a. a\<lparr>la_speaker_refs := alist_put i ref (la_speaker_refs a)\<rparr>)) (thenA (effect (Add (rid i) (Speaker codec))) (retA ref)))"

section \<open>Observables\<close>

text \<open>\<^verbatim>\<open>get_observable\<close> gives a pointer into the first of eight maps that has the id: here, which map it is.\<close>

datatype observable = OButton | ODropdown | OLabel | OEdit | OTextEdit | OList | OGrid | ODraw

definition get_observable :: "u32 \<Rightarrow> 's lua_api \<Rightarrow> observable option" where
  "get_observable i a =
     (if alist_has i (la_button_refs a) then Some OButton
      else if alist_has i (la_dropdown_refs a) then Some ODropdown
      else if alist_has i (la_label_refs a) then Some OLabel
      else if alist_has i (la_edit_refs a) then Some OEdit
      else if alist_has i (la_text_edit_refs a) then Some OTextEdit
      else if alist_has i (la_list_refs a) then Some OList
      else if alist_has i (la_grid_refs a) then Some OGrid
      else if alist_has i (la_draw_refs a) then Some ODraw
      else None)"

text \<open>A change of the entry of a key, where there is one.\<close>

definition alist_upd :: "'k \<Rightarrow> ('v \<Rightarrow> 'v) \<Rightarrow> ('k \<times> 'v) list \<Rightarrow> ('k \<times> 'v) list" where
  "alist_upd k f ps = map (\<lambda>p. (fst p, if fst p = k then f (snd p) else snd p)) ps"

definition put_name :: "observable \<Rightarrow> u32 \<Rightarrow> string \<Rightarrow> 's lua_api \<Rightarrow> 's lua_api" where
  "put_name k i n a =
     (case k of
        OButton \<Rightarrow> a\<lparr>la_button_refs := alist_upd i (r_name_update (\<lambda>_. n)) (la_button_refs a)\<rparr>
      | ODropdown \<Rightarrow> a\<lparr>la_dropdown_refs := alist_upd i (r_name_update (\<lambda>_. n)) (la_dropdown_refs a)\<rparr>
      | OLabel \<Rightarrow> a\<lparr>la_label_refs := alist_upd i (r_name_update (\<lambda>_. n)) (la_label_refs a)\<rparr>
      | OEdit \<Rightarrow> a\<lparr>la_edit_refs := alist_upd i (r_name_update (\<lambda>_. n)) (la_edit_refs a)\<rparr>
      | OTextEdit \<Rightarrow> a\<lparr>la_text_edit_refs := alist_upd i (r_name_update (\<lambda>_. n)) (la_text_edit_refs a)\<rparr>
      | OList \<Rightarrow> a\<lparr>la_list_refs := alist_upd i (r_name_update (\<lambda>_. n)) (la_list_refs a)\<rparr>
      | OGrid \<Rightarrow> a\<lparr>la_grid_refs := alist_upd i (r_name_update (\<lambda>_. n)) (la_grid_refs a)\<rparr>
      | ODraw \<Rightarrow> a\<lparr>la_draw_refs := alist_upd i (r_name_update (\<lambda>_. n)) (la_draw_refs a)\<rparr>)"

text \<open>The script's own reference \<open>h\<close> is renamed too.\<close>

definition set_name :: "string \<Rightarrow> 'z observable_ref_scheme \<Rightarrow> ('s, 'z observable_ref_scheme) api_action" where
  "set_name n h =
     bindA (getA (get_observable (r_id h))) (\<lambda>k. case k of
       None \<Rightarrow> retA h
     | Some k \<Rightarrow> thenA (modA (\<lambda>a. (put_name k (r_id h) n a)\<lparr>la_observable_names := alist_put n (r_id h) (la_observable_names a)\<rparr>)) (retA (h\<lparr>r_name := n\<rparr>)))"

section \<open>Callbacks of widgets\<close>

text \<open>Setting a callback changes the api's entry and the script's reference, if the id is known.\<close>

definition set_callback :: "('s lua_api \<Rightarrow> (u32 \<times> 'r) list) \<Rightarrow> ((u32 \<times> 'r) list \<Rightarrow> 's lua_api \<Rightarrow> 's lua_api) \<Rightarrow> ('r \<Rightarrow> u32) \<Rightarrow> ('r \<Rightarrow> 'r) \<Rightarrow> 'r \<Rightarrow> ('s, 'r) api_action" where
  "set_callback refs put key f h =
     bindA (getA (\<lambda>a. alist_has (key h) (refs a))) (\<lambda>b.
       if \<not> b then retA h else thenA (modA (\<lambda>a. put (alist_upd (key h) f (refs a)) a)) (retA (f h)))"

definition button_set_callback :: "string \<Rightarrow> button_ref \<Rightarrow> ('s, button_ref) api_action" where
  "button_set_callback c = set_callback la_button_refs (\<lambda>x a. a\<lparr>la_button_refs := x\<rparr>) r_id (bt_callback_update (\<lambda>_. c))"

definition edit_set_edited_callback :: "string \<Rightarrow> edit_ref \<Rightarrow> ('s, edit_ref) api_action" where
  "edit_set_edited_callback c = set_callback la_edit_refs (\<lambda>x a. a\<lparr>la_edit_refs := x\<rparr>) r_id (ed_edited_update (\<lambda>_. c))"

definition edit_set_finished_callback :: "string \<Rightarrow> edit_ref \<Rightarrow> ('s, edit_ref) api_action" where
  "edit_set_finished_callback c = set_callback la_edit_refs (\<lambda>x a. a\<lparr>la_edit_refs := x\<rparr>) r_id (ed_finished_update (\<lambda>_. c))"

definition text_edit_set_edited_callback :: "string \<Rightarrow> text_edit_ref \<Rightarrow> ('s, text_edit_ref) api_action" where
  "text_edit_set_edited_callback c = set_callback la_text_edit_refs (\<lambda>x a. a\<lparr>la_text_edit_refs := x\<rparr>) r_id (te_edited_update (\<lambda>_. c))"

definition dropdown_set_callback :: "string \<Rightarrow> dropdown_ref \<Rightarrow> ('s, dropdown_ref) api_action" where
  "dropdown_set_callback c = set_callback la_dropdown_refs (\<lambda>x a. a\<lparr>la_dropdown_refs := x\<rparr>) r_id (dd_callback_update (\<lambda>_. c))"

definition timer_set_callback :: "string \<Rightarrow> timer_ref \<Rightarrow> ('s, timer_ref) api_action" where
  "timer_set_callback c = set_callback la_timer_refs (\<lambda>x a. a\<lparr>la_timer_refs := x\<rparr>) r_id (ti_callback_update (\<lambda>_. c))"

definition mic_set_callback :: "string \<Rightarrow> microphone_ref \<Rightarrow> ('s, microphone_ref) api_action" where
  "mic_set_callback c = set_callback la_mic_refs (\<lambda>x a. a\<lparr>la_mic_refs := x\<rparr>) r_id (mi_callback_update (\<lambda>_. c))"

definition draw_set :: "(draw_ref \<Rightarrow> draw_ref) \<Rightarrow> draw_ref \<Rightarrow> ('s, draw_ref) api_action" where
  "draw_set = set_callback la_draw_refs (\<lambda>x a. a\<lparr>la_draw_refs := x\<rparr>) r_id"

definition set_mouse_released_callback :: "string \<Rightarrow> draw_ref \<Rightarrow> ('s, draw_ref) api_action" where
  "set_mouse_released_callback c = draw_set (dw_released_update (\<lambda>_. c))"
definition set_mouse_pressed_callback :: "string \<Rightarrow> draw_ref \<Rightarrow> ('s, draw_ref) api_action" where
  "set_mouse_pressed_callback c = draw_set (dw_pressed_update (\<lambda>_. c))"
definition set_mouse_moved_callback :: "string \<Rightarrow> draw_ref \<Rightarrow> ('s, draw_ref) api_action" where
  "set_mouse_moved_callback c = draw_set (dw_moved_update (\<lambda>_. c))"
definition set_mouse_dragged_callback :: "string \<Rightarrow> draw_ref \<Rightarrow> ('s, draw_ref) api_action" where
  "set_mouse_dragged_callback c = draw_set (dw_dragged_update (\<lambda>_. c))"
definition set_pen :: "observable_ref \<Rightarrow> draw_ref \<Rightarrow> ('s, draw_ref) api_action" where
  "set_pen p = draw_set (dw_pen_update (\<lambda>_. Some (r_id p)))"

section \<open>What scripts do to widgets\<close>

definition widget_enable :: "u32 \<Rightarrow> ('s, unit) api_action" where "widget_enable i = effect (Change (rid i) (Enable True))"
definition widget_disable :: "u32 \<Rightarrow> ('s, unit) api_action" where "widget_disable i = effect (Change (rid i) (Enable False))"
definition widget_show :: "u32 \<Rightarrow> ('s, unit) api_action" where "widget_show i = effect (Change (rid i) (Visible True))"
definition widget_hide :: "u32 \<Rightarrow> ('s, unit) api_action" where "widget_hide i = effect (Change (rid i) (Visible False))"
definition set_style :: "u32 \<Rightarrow> string \<Rightarrow> ('s, unit) api_action" where "set_style i t = effect (Change (rid i) (Set_Style t))"
definition button_set_text :: "u32 \<Rightarrow> string \<Rightarrow> ('s, unit) api_action" where "button_set_text i t = effect (Change (rid i) (Button_Set_Text t))"
definition button_set_image :: "u32 \<Rightarrow> u32 \<Rightarrow> ('s, unit) api_action" where "button_set_image i j = effect (Change (rid i) (Set_Image (rid j)))"
definition label_set_text :: "u32 \<Rightarrow> string \<Rightarrow> ('s, unit) api_action" where "label_set_text i t = effect (Change (rid i) (Label_Set_Text t))"
definition edit_set_text :: "u32 \<Rightarrow> string \<Rightarrow> ('s, unit) api_action" where "edit_set_text i t = effect (Change (rid i) (Edit_Set_Text t))"
definition text_edit_set_text :: "u32 \<Rightarrow> string \<Rightarrow> ('s, unit) api_action" where "text_edit_set_text i t = effect (Change (rid i) (Text_Edit_Set_Text t))"

definition list_add :: "u32 \<Rightarrow> u32 \<Rightarrow> ('s, unit) api_action" where
  "list_add i j = thenA (requireA (j \<noteq> 0)) (effect (Change (rid i) (List_Add (rid j))))"

definition list_remove :: "u32 \<Rightarrow> u32 \<Rightarrow> ('s, unit) api_action" where
  "list_remove i j = thenA (requireA (j \<noteq> 0)) (effect (Change (rid i) (List_Remove (rid j))))"

definition list_clear :: "u32 \<Rightarrow> ('s, unit) api_action" where "list_clear i = effect (Change (rid i) Clear)"
definition dropdown_add :: "u32 \<Rightarrow> string \<Rightarrow> ('s, unit) api_action" where "dropdown_add i t = effect (Change (rid i) (Add_Item t))"
definition dropdown_clear :: "u32 \<Rightarrow> ('s, unit) api_action" where "dropdown_clear i = effect (Change (rid i) Clear)"
definition pen_set_width :: "u32 \<Rightarrow> u32 \<Rightarrow> ('s, unit) api_action" where "pen_set_width i w = effect (Change (rid i) (Set_Width w))"
definition draw_clear :: "u32 \<Rightarrow> ('s, unit) api_action" where "draw_clear i = effect (Change (rid i) Clear)"

definition api_place :: "u32 \<Rightarrow> u32 \<Rightarrow> u32 \<Rightarrow> ('s, unit) api_action" where "api_place i r c = effect (Layout (Place (rid i) r c))"
definition api_place_across :: "u32 \<Rightarrow> u32 \<Rightarrow> u32 \<Rightarrow> u32 \<Rightarrow> u32 \<Rightarrow> ('s, unit) api_action" where
  "api_place_across i r c rs cs = effect (Layout (Place_Across (rid i) r c rs cs))"
definition grid_place :: "u32 \<Rightarrow> u32 \<Rightarrow> u32 \<Rightarrow> u32 \<Rightarrow> ('s, unit) api_action" where "grid_place g i r c = effect (Layout (Grid_Place (rid g) (rid i) r c))"
definition grid_place_across :: "u32 \<Rightarrow> u32 \<Rightarrow> u32 \<Rightarrow> u32 \<Rightarrow> u32 \<Rightarrow> u32 \<Rightarrow> ('s, unit) api_action" where
  "grid_place_across g i r c rs cs = effect (Layout (Grid_Place_Across (rid g) (rid i) r c rs cs))"
definition api_height :: "u32 \<Rightarrow> ('s, unit) api_action" where "api_height h = effect (Layout (Height h))"
definition api_width :: "u32 \<Rightarrow> ('s, unit) api_action" where "api_width w = effect (Layout (Width w))"
definition api_grow :: "('s, unit) api_action" where "api_grow = effect (Layout Grow)"

definition timer_start :: "u32 \<Rightarrow> ('s, unit) api_action" where "timer_start i = effect (Device (rid i) Timer_Start)"
definition timer_stop :: "u32 \<Rightarrow> ('s, unit) api_action" where "timer_stop i = effect (Device (rid i) Timer_Stop)"
definition timer_set_interval :: "u32 \<Rightarrow> u32 \<Rightarrow> ('s, unit) api_action" where "timer_set_interval i msec = effect (Device (rid i) (Set_Interval msec))"
definition mic_start :: "u32 \<Rightarrow> ('s, unit) api_action" where "mic_start i = effect (Device (rid i) Mic_Start)"
definition mic_stop :: "u32 \<Rightarrow> ('s, unit) api_action" where "mic_stop i = effect (Device (rid i) Mic_Stop)"
definition speaker_mute :: "u32 \<Rightarrow> ('s, unit) api_action" where "speaker_mute i = effect (Device (rid i) Mute)"
definition speaker_unmute :: "u32 \<Rightarrow> ('s, unit) api_action" where "speaker_unmute i = effect (Device (rid i) Unmute)"
definition speaker_play :: "u32 \<Rightarrow> bytes \<Rightarrow> ('s, unit) api_action" where "speaker_play i d = effect (Device (rid i) (Play d))"

text \<open>
  Drawing on the script's reference \<open>h\<close>, with its pen, which is not initialised before \<^verbatim>\<open>set_pen\<close>.  The new reference is also kept in \<open>h\<close>, under the id of the
  drawing, so that each one replaces the last.
\<close>

definition draw_item_new :: "draw_ref \<Rightarrow> ('s, draw_item) api_action" where
  "draw_item_new h = bindA new_id (\<lambda>n. retA \<lparr>r_id = ucast n, di_view = r_id h\<rparr>)"

definition draw_shape :: "shape \<Rightarrow> u64 list \<Rightarrow> draw_ref \<Rightarrow> draw_item \<Rightarrow> ('s, unit) api_action" where
  "draw_shape k ps h r = (case dw_pen h of None \<Rightarrow> liftA Undef | Some p \<Rightarrow> effect (Draw (rid (r_id h)) (rid (r_id r)) k (rid p) ps))"

definition draw_line :: "u64 list \<Rightarrow> draw_ref \<Rightarrow> ('s, draw_item \<times> draw_ref) api_action" where
  "draw_line ps h = bindA (draw_item_new h) (\<lambda>r. thenA (draw_shape Line ps h r) (retA (r, h\<lparr>dw_lines := alist_put (r_id h) r (dw_lines h)\<rparr>)))"

definition draw_circle :: "u64 list \<Rightarrow> draw_ref \<Rightarrow> ('s, draw_item \<times> draw_ref) api_action" where
  "draw_circle ps h = bindA (draw_item_new h) (\<lambda>r. thenA (draw_shape Circle ps h r) (retA (r, h\<lparr>dw_circles := alist_put (r_id h) r (dw_circles h)\<rparr>)))"

text \<open>The reference for an image that is not good is \<open>None\<close>, in the code one without an api.\<close>

definition draw_image :: "image_ref \<Rightarrow> u64 list \<Rightarrow> draw_ref \<Rightarrow> ('s, draw_item option \<times> draw_ref) api_action" where
  "draw_image m ps h =
     (case im_good m of
        None \<Rightarrow> liftA Undef
      | Some False \<Rightarrow> retA (None, h)
      | Some True \<Rightarrow> bindA (draw_item_new h) (\<lambda>r.
          thenA (effect (Draw (rid (r_id h)) (rid (r_id r)) Picture (rid (r_id m)) ps)) (retA (Some r, h\<lparr>dw_images := alist_put (r_id h) r (dw_images h)\<rparr>))))"

definition line_set :: "u64 list \<Rightarrow> draw_item \<Rightarrow> ('s, unit) api_action" where "line_set ps r = effect (Redraw (rid (di_view r)) (rid (r_id r)) Line ps)"
definition circle_set :: "u64 list \<Rightarrow> draw_item \<Rightarrow> ('s, unit) api_action" where "circle_set ps r = effect (Redraw (rid (di_view r)) (rid (r_id r)) Circle ps)"
definition line_set_pen :: "u32 \<Rightarrow> draw_item \<Rightarrow> ('s, unit) api_action" where "line_set_pen p r = effect (Set_Pen (rid (di_view r)) (rid (r_id r)) Line (rid p))"
definition circle_set_pen :: "u32 \<Rightarrow> draw_item \<Rightarrow> ('s, unit) api_action" where "circle_set_pen p r = effect (Set_Pen (rid (di_view r)) (rid (r_id r)) Circle (rid p))"

definition image_set :: "u64 list \<Rightarrow> draw_item option \<Rightarrow> ('s, unit) api_action" where
  "image_set ps ro = (case ro of None \<Rightarrow> retA () | Some r \<Rightarrow> effect (Redraw (rid (di_view r)) (rid (r_id r)) Picture ps))"

section \<open>Contacts, apps and sending\<close>

definition contact_name :: "'k api_env \<Rightarrow> contact_ref \<Rightarrow> string outcome" where
  "contact_name E r =
     (if co_is_self r then Ok (ui_name (lu_info (ae_user E)))
      else bindO (cl_by_id (co_user_id r) (lu_contacts (ae_user E))) (\<lambda>c. Ok (case c of None \<Rightarrow> [] | Some c \<Rightarrow> ui_name c)))"

definition contact_online :: "'k api_env \<Rightarrow> contact_ref \<Rightarrow> bool" where
  "contact_online E r \<longleftrightarrow> co_is_self r \<or> ae_available E (co_user_id r)"

definition empty_contact_ref :: contact_ref where
  "empty_contact_ref = \<lparr>co_user_id = ''0'', co_is_self = False\<rparr>"

definition total_contacts :: "'k api_env \<Rightarrow> nat outcome" where
  "total_contacts E = cl_size (cv_contacts (ae_conv E))"

definition last_contact :: "'k api_env \<Rightarrow> u32 outcome" where
  "last_contact E = bindO (total_contacts E) (\<lambda>n. Ok (of_nat n - 1))"

definition get_contact :: "'k api_env \<Rightarrow> nat \<Rightarrow> contact_ref outcome" where
  "get_contact E i =
     (case cl_get i (cv_contacts (ae_conv E)) of
        None \<Rightarrow> Ok empty_contact_ref
      | Some c \<Rightarrow> contract (ui_id c \<noteq> []) (Ok \<lparr>co_user_id = ui_id c, co_is_self = False\<rparr>))"

definition api_self :: "'k api_env \<Rightarrow> contact_ref" where
  "api_self E = \<lparr>co_user_id = ui_id (lu_info (ae_user E)), co_is_self = True\<rparr>"

definition who_started :: "'k api_env \<Rightarrow> ('s, contact_ref) api_action" where
  "who_started E =
     (if ae_launched_local E then bindA (retA (api_self E)) (\<lambda>r. thenA (requireA (co_user_id r \<noteq> [])) (retA r))
      else bindA (getA la_who_started_id) (\<lambda>i. bindA (liftA (cl_by_id i (cv_contacts (ae_conv E)))) (\<lambda>c. case c of
          None \<Rightarrow> liftA Exit
        | Some c \<Rightarrow> thenA (requireA (ui_id c \<noteq> [])) (retA \<lparr>co_user_id = ui_id c, co_is_self = False\<rparr>))))"

definition get_app :: "'k api_env \<Rightarrow> nat \<Rightarrow> string outcome" where
  "get_app E i =
     (let apps = cv_apps (ae_conv E) in
      if i \<ge> length apps then Ok ''0'' else contract (ap_address (snd (apps ! i)) \<noteq> []) (Ok (ap_address (snd (apps ! i)))))"

definition make_vclock :: "'k api_env \<Rightarrow> vclock_wrapper" where
  "make_vclock E = vw_new (ui_id (lu_info (ae_user E)))"

definition api_send :: "'k api_env \<Rightarrow> string \<Rightarrow> message \<Rightarrow> ('s, unit) api_action" where
  "api_send E to m = thenA (partA la_mail (\<lambda>b a. a\<lparr>la_mail := b\<rparr>) (sender_send (ae_user E) to m)) (retA ())"

definition lua_send_all :: "'k api_env \<Rightarrow> script_message \<Rightarrow> ('s, unit) api_action" where
  "lua_send_all E m = forA (\<lambda>c. api_send E (ui_id c) (script_to_message (ae_cxx E) m)) (cl_list (cv_contacts (ae_conv E)))"

definition send_event :: "'k api_env \<Rightarrow> event_message \<Rightarrow> ('s, unit) api_action" where
  "send_event E e = forA (\<lambda>c. api_send E (ui_id c) (event_to_message (ae_cxx E) e)) (cl_list (cv_contacts (ae_conv E)))"

definition send_simple_event :: "'k api_env \<Rightarrow> string \<Rightarrow> string \<Rightarrow> ('s, unit) api_action" where
  "send_simple_event E name type = (if name = [] then retA () else send_event E \<lparr>em_obj = name, em_type = type, em_v = VEmpty\<rparr>)"

definition lua_send_to :: "'k api_env \<Rightarrow> contact_ref \<Rightarrow> script_message \<Rightarrow> ('s, unit) api_action" where
  "lua_send_to E r m =
     bindA (liftA (cl_by_id (co_user_id r) (cv_contacts (ae_conv E)))) (\<lambda>c. case c of
       None \<Rightarrow> retA () | Some c \<Rightarrow> api_send E (ui_id c) (script_to_message (ae_cxx E) m))"

definition app_send :: "'k api_env \<Rightarrow> string \<Rightarrow> script_message \<Rightarrow> ('s, unit) api_action" where
  "app_send E app m = thenA (partA la_mail (\<lambda>b a. a\<lparr>la_mail := b\<rparr>) (send_to_local_app (ae_user E) app (script_to_message (ae_cxx E) m))) (retA ())"

definition send_local :: "'k api_env \<Rightarrow> script_message \<Rightarrow> ('s, unit) api_action" where
  "send_local E m = forA (\<lambda>p. thenA (requireA (ap_address (snd p) \<noteq> [])) (app_send E (ap_address (snd p)) m)) (cv_apps (ae_conv E))"

definition api_print :: "string \<Rightarrow> ('s, unit) api_action" where
  "api_print t = effect (Print t)"

definition api_alert :: "'k api_env \<Rightarrow> ('s, unit) api_action" where
  "api_alert E = thenA (effect (Conversation_Alert (cv_id (ae_conv E)) (ae_visible E))) (effect Alert)"

section \<open>Messages to the script\<close>

definition set_message_callback :: "string \<Rightarrow> ('s, unit) api_action" where
  "set_message_callback c = modA (\<lambda>a. a\<lparr>la_message_callback := c\<rparr>)"
definition set_message_callback_by_type :: "string \<Rightarrow> string \<Rightarrow> ('s, unit) api_action" where
  "set_message_callback_by_type t c = modA (\<lambda>a. a\<lparr>la_message_callbacks := alist_put t c (la_message_callbacks a)\<rparr>)"
definition set_local_message_callback :: "string \<Rightarrow> ('s, unit) api_action" where
  "set_local_message_callback c = modA (\<lambda>a. a\<lparr>la_local_message_callback := c\<rparr>)"
definition set_local_message_callback_by_type :: "string \<Rightarrow> string \<Rightarrow> ('s, unit) api_action" where
  "set_local_message_callback_by_type t c = modA (\<lambda>a. a\<lparr>la_local_message_callbacks := alist_put t c (la_local_message_callbacks a)\<rparr>)"
definition set_contact_quit_callback :: "string \<Rightarrow> ('s, unit) api_action" where
  "set_contact_quit_callback c = modA (\<lambda>a. a\<lparr>la_contact_quit_callback := c\<rparr>)"
definition set_contact_joined_callback :: "string \<Rightarrow> ('s, unit) api_action" where
  "set_contact_joined_callback c = modA (\<lambda>a. a\<lparr>la_contact_joined_callback := c\<rparr>)"

text \<open>The function for a message: the one for its type, else the general one, among those for local or for remote messages.\<close>

definition callback_for :: "script_message \<Rightarrow> 's lua_api \<Rightarrow> string" where
  "callback_for m a =
     (let c = (if sm_type m \<noteq> [] then
                 (case map_of (if sm_is_local m then la_local_message_callbacks a else la_message_callbacks a) (sm_type m) of Some c \<Rightarrow> c | None \<Rightarrow> [])
               else [])
      in if c = [] then if sm_is_local m then la_local_message_callback a else la_message_callback a else c)"

definition call_if :: "('k, 's) script_engine \<Rightarrow> 'k api_env \<Rightarrow> string \<Rightarrow> script_arg list \<Rightarrow> ('s, call_result) api_action" where
  "call_if N E c args = (if c = [] then retA Called else se_call N E c args)"

definition message_received :: "('k, 's) script_engine \<Rightarrow> 'k api_env \<Rightarrow> script_message \<Rightarrow> ('s, unit) api_action" where
  "message_received N E m =
     guarded N ''error in message_received: '' ''error in message_received: unknown'' True
       (bindA (getA (callback_for m)) (\<lambda>c. call_if N E c [AMessage m]))"

definition contact_event :: "('k, 's) script_engine \<Rightarrow> 'k api_env \<Rightarrow> string \<Rightarrow> ('s lua_api \<Rightarrow> string) \<Rightarrow> ('s, call_result) api_action" where
  "contact_event N E i callback =
     bindA (liftA (cl_by_id i (lu_contacts (ae_user E)))) (\<lambda>c. case c of
       None \<Rightarrow> retA Called
     | Some c \<Rightarrow> thenA (requireA (ui_id c \<noteq> []))
         (bindA (getA callback) (\<lambda>f. call_if N E f [AContact \<lparr>co_user_id = ui_id c, co_is_self = False\<rparr>])))"

definition api_contact_quit :: "('k, 's) script_engine \<Rightarrow> 'k api_env \<Rightarrow> string \<Rightarrow> ('s, unit) api_action" where
  "api_contact_quit N E i =
     guarded N ''error in contact_quit: '' ''error in contact_quit: unknown'' True (contact_event N E i la_contact_quit_callback)"

definition api_contact_joined :: "('k, 's) script_engine \<Rightarrow> 'k api_env \<Rightarrow> string \<Rightarrow> ('s, unit) api_action" where
  "api_contact_joined N E i =
     guarded N ''error in contact_joined: '' ''error in contact_joined: unknown'' True (contact_event N E i la_contact_joined_callback)"

section \<open>Events of the own interface\<close>

text \<open>
  A text field that changed: with a function for it, the others in the conversation get the new text under the name of the field, then the function is called.
\<close>

definition text_event :: "('k, 's) script_engine \<Rightarrow> 'k api_env \<Rightarrow> string \<Rightarrow> string \<Rightarrow> string \<Rightarrow> string \<Rightarrow> ('s, call_result) api_action" where
  "text_event N E callback name type text =
     (if callback = [] then retA Called
      else thenA (if name \<noteq> [] then send_event E \<lparr>em_obj = name, em_type = type, em_v = value_of_string text\<rparr> else retA ())
        (se_call N E callback [AText text]))"

definition edit_edited :: "('k, 's) script_engine \<Rightarrow> 'k api_env \<Rightarrow> ref_id \<Rightarrow> ('s, unit) api_action" where
  "edit_edited N E i =
     guarded N [] ''error in edit_edited: unknown'' False
       (bindA (getA (\<lambda>a. map_of (la_edit_refs a) (ucast i))) (\<lambda>r. case r of
          None \<Rightarrow> retA Called
        | Some r \<Rightarrow> text_event N E (ed_edited r) (r_name r) ''e'' (ae_edit_text E (rid (r_id r)))))"

definition edit_finished :: "('k, 's) script_engine \<Rightarrow> 'k api_env \<Rightarrow> ref_id \<Rightarrow> ('s, unit) api_action" where
  "edit_finished N E i =
     guarded N ''error in edit_finished: '' ''error in edit_finished: unknown'' False
       (bindA (getA (\<lambda>a. map_of (la_edit_refs a) (ucast i))) (\<lambda>r. case r of
          None \<Rightarrow> retA Called
        | Some r \<Rightarrow> text_event N E (ed_finished r) (r_name r) ''f'' (ae_edit_text E (rid (r_id r)))))"

definition text_edit_edited :: "('k, 's) script_engine \<Rightarrow> 'k api_env \<Rightarrow> ref_id \<Rightarrow> ('s, unit) api_action" where
  "text_edit_edited N E i =
     guarded N ''error in text_edit_edited: '' ''error in text_edit_edited: unknown'' False
       (bindA (getA (\<lambda>a. map_of (la_text_edit_refs a) (ucast i))) (\<lambda>r. case r of
          None \<Rightarrow> retA Called
        | Some r \<Rightarrow> text_event N E (te_edited r) (r_name r) ''e'' (ae_text_edit_text E (rid (r_id r)))))"

text \<open>The functions of buttons and timers are code that is run.\<close>

definition button_clicked :: "('k, 's) script_engine \<Rightarrow> 'k api_env \<Rightarrow> ref_id \<Rightarrow> ('s, unit) api_action" where
  "button_clicked N E i =
     bindA (getA (\<lambda>a. map_of (la_button_refs a) (ucast i))) (\<lambda>r. case r of
       None \<Rightarrow> retA ()
     | Some r \<Rightarrow>
         if bt_callback r = [] then retA ()
         else thenA (send_simple_event E (r_name r) ''b'') (run_code N E (bt_callback r) False))"

definition timer_triggered :: "('k, 's) script_engine \<Rightarrow> 'k api_env \<Rightarrow> ref_id \<Rightarrow> ('s, unit) api_action" where
  "timer_triggered N E i =
     bindA (getA (\<lambda>a. map_of (la_timer_refs a) (ucast i))) (\<lambda>r. case r of
       None \<Rightarrow> retA () | Some r \<Rightarrow> if ti_callback r = [] then retA () else run_code N E (ti_callback r) False)"

text \<open>The event of a dropdown is sent also when it has no name.\<close>

definition dropdown_selected :: "('k, 's) script_engine \<Rightarrow> 'k api_env \<Rightarrow> ref_id \<Rightarrow> u32 \<Rightarrow> ('s, unit) api_action" where
  "dropdown_selected N E i item =
     guarded N [] ''error in dropdown: unknown'' False
       (bindA (getA (\<lambda>a. map_of (la_dropdown_refs a) (ucast i))) (\<lambda>r. case r of
          None \<Rightarrow> retA Called
        | Some r \<Rightarrow>
            if dd_callback r = [] then retA Called
            else thenA (send_event E \<lparr>em_obj = r_name r, em_type = ''s'', em_v = value_of_int item\<rparr>) (se_call N E (dd_callback r) [AInt item])))"

definition got_sound :: "('k, 's) script_engine \<Rightarrow> 'k api_env \<Rightarrow> ref_id \<Rightarrow> bytes \<Rightarrow> ('s, unit) api_action" where
  "got_sound N E i d =
     guarded N ''error in got_sound: '' ''error in got_sound: unknown'' True
       (bindA (getA (\<lambda>a. map_of (la_mic_refs a) (ucast i))) (\<lambda>r. case r of
          None \<Rightarrow> retA Called | Some r \<Rightarrow> call_if N E (mi_callback r) [ABin d]))"

text \<open>The mouse on a drawing.  The functions of \<^verbatim>\<open>draw_ref\<close> call the script; those of the api first tell the others.\<close>

definition mouse_pressed :: "('k, 's) script_engine \<Rightarrow> 'k api_env \<Rightarrow> draw_ref \<Rightarrow> u32 \<Rightarrow> u32 \<Rightarrow> u32 \<Rightarrow> ('s, unit) api_action" where
  "mouse_pressed N E r b x y = guarded N ''error in mouse_pressed: '' ''error in mouse_pressed: unknown'' False (call_if N E (dw_pressed r) [AInt b, AInt x, AInt y])"

definition mouse_released :: "('k, 's) script_engine \<Rightarrow> 'k api_env \<Rightarrow> draw_ref \<Rightarrow> u32 \<Rightarrow> u32 \<Rightarrow> u32 \<Rightarrow> ('s, unit) api_action" where
  "mouse_released N E r b x y = guarded N ''error in mouse_released: '' ''error in mouse_released: unknown'' False (call_if N E (dw_released r) [AInt b, AInt x, AInt y])"

definition mouse_dragged :: "('k, 's) script_engine \<Rightarrow> 'k api_env \<Rightarrow> draw_ref \<Rightarrow> u32 \<Rightarrow> u32 \<Rightarrow> u32 \<Rightarrow> ('s, unit) api_action" where
  "mouse_dragged N E r b x y = guarded N ''error in mouse_dragged: '' ''error in mouse_dragged: unknown'' False (call_if N E (dw_dragged r) [AInt b, AInt x, AInt y])"

definition mouse_moved :: "('k, 's) script_engine \<Rightarrow> 'k api_env \<Rightarrow> draw_ref \<Rightarrow> u32 \<Rightarrow> u32 \<Rightarrow> ('s, unit) api_action" where
  "mouse_moved N E r x y = guarded N ''error in mouse_moved: '' ''error in mouse_moved: unknown'' False (call_if N E (dw_moved r) [AInt x, AInt y])"

definition draw_event :: "'k api_env \<Rightarrow> ref_id \<Rightarrow> string \<Rightarrow> dict \<Rightarrow> (draw_ref \<Rightarrow> ('s, unit) api_action) \<Rightarrow> ('s, unit) api_action" where
  "draw_event E i type d k =
     bindA (getA (\<lambda>a. map_of (la_draw_refs a) (ucast i))) (\<lambda>r. case r of
       None \<Rightarrow> retA ()
     | Some r \<Rightarrow> thenA (if r_name r \<noteq> [] then send_event E \<lparr>em_obj = r_name r, em_type = type, em_v = VDict d\<rparr> else retA ()) (k r))"

definition mouse_dict :: "u32 \<Rightarrow> u32 \<Rightarrow> u32 \<Rightarrow> dict" where
  "mouse_dict b x y = dict_put ''y'' (value_of_int y) (dict_put ''x'' (value_of_int x) (dict_put ''b'' (value_of_int b) []))"

definition draw_mouse_pressed :: "('k, 's) script_engine \<Rightarrow> 'k api_env \<Rightarrow> ref_id \<Rightarrow> u32 \<Rightarrow> u32 \<Rightarrow> u32 \<Rightarrow> ('s, unit) api_action" where
  "draw_mouse_pressed N E i b x y = draw_event E i ''p'' (mouse_dict b x y) (\<lambda>r. mouse_pressed N E r b x y)"

definition draw_mouse_released :: "('k, 's) script_engine \<Rightarrow> 'k api_env \<Rightarrow> ref_id \<Rightarrow> u32 \<Rightarrow> u32 \<Rightarrow> u32 \<Rightarrow> ('s, unit) api_action" where
  "draw_mouse_released N E i b x y = draw_event E i ''r'' (mouse_dict b x y) (\<lambda>r. mouse_released N E r b x y)"

definition draw_mouse_dragged :: "('k, 's) script_engine \<Rightarrow> 'k api_env \<Rightarrow> ref_id \<Rightarrow> u32 \<Rightarrow> u32 \<Rightarrow> u32 \<Rightarrow> ('s, unit) api_action" where
  "draw_mouse_dragged N E i b x y = draw_event E i ''d'' (mouse_dict b x y) (\<lambda>r. mouse_dragged N E r b x y)"

definition draw_mouse_moved :: "('k, 's) script_engine \<Rightarrow> 'k api_env \<Rightarrow> ref_id \<Rightarrow> u32 \<Rightarrow> u32 \<Rightarrow> ('s, unit) api_action" where
  "draw_mouse_moved N E i x y =
     draw_event E i ''m'' (dict_put ''y'' (value_of_int y) (dict_put ''x'' (value_of_int x) [])) (\<lambda>r. mouse_moved N E r x y)"

section \<open>Events of the others\<close>

definition button_handle :: "('k, 's) script_engine \<Rightarrow> 'k api_env \<Rightarrow> u32 \<Rightarrow> ('s, call_result) api_action" where
  "button_handle N E i =
     bindA (getA (\<lambda>a. map_of (la_button_refs a) i)) (\<lambda>r. case r of
       None \<Rightarrow> retA Called | Some r \<Rightarrow> if bt_callback r = [] then retA Called else thenA (run_code N E (bt_callback r) False) (retA Called))"

definition edit_handle :: "('k, 's) script_engine \<Rightarrow> 'k api_env \<Rightarrow> u32 \<Rightarrow> string \<Rightarrow> mvalue \<Rightarrow> ('s, call_result) api_action" where
  "edit_handle N E i t v =
     rethrow_if (\<lambda>a. alist_has i (la_edit_refs a))
       (bindA (getA (\<lambda>a. map_of (la_edit_refs a) i)) (\<lambda>r. case r of
          None \<Rightarrow> retA Called
        | Some r \<Rightarrow>
            let c = (if t = ''e'' then ed_edited r else if t = ''f'' then ed_finished r else [])
            in if c = [] then retA Called else bindA (liftA (as_string v)) (\<lambda>x. se_call N E c [AText x])))"

definition text_edit_handle :: "('k, 's) script_engine \<Rightarrow> 'k api_env \<Rightarrow> u32 \<Rightarrow> mvalue \<Rightarrow> ('s, call_result) api_action" where
  "text_edit_handle N E i v =
     rethrow_if (\<lambda>a. alist_has i (la_text_edit_refs a))
       (bindA (getA (\<lambda>a. map_of (la_text_edit_refs a) i)) (\<lambda>r. case r of
          None \<Rightarrow> retA Called
        | Some r \<Rightarrow> if te_edited r = [] then retA Called else bindA (liftA (as_string v)) (\<lambda>x. se_call N E (te_edited r) [AText x])))"

definition dropdown_handle :: "('k, 's) script_engine \<Rightarrow> 'k api_env \<Rightarrow> u32 \<Rightarrow> mvalue \<Rightarrow> ('s, call_result) api_action" where
  "dropdown_handle N E i v =
     bindA (getA (\<lambda>a. map_of (la_dropdown_refs a) i)) (\<lambda>r. case r of
       None \<Rightarrow> retA Called
     | Some r \<Rightarrow>
         if dd_callback r = [] then retA Called
         else bindA (liftA (as_int32 v)) (\<lambda>k. thenA (effect (Change (rid i) (Select k))) (se_call N E (dd_callback r) [AInt k])))"

definition mouse_args :: "dict \<Rightarrow> (u32 \<times> u32 \<times> u32) outcome" where
  "mouse_args d = bindO (in_field d ''b'' as_int32) (\<lambda>b. bindO (in_field d ''x'' as_int32) (\<lambda>x. bindO (in_field d ''y'' as_int32) (\<lambda>y. Ok (b, x, y))))"

definition draw_handle :: "('k, 's) script_engine \<Rightarrow> 'k api_env \<Rightarrow> u32 \<Rightarrow> string \<Rightarrow> mvalue \<Rightarrow> ('s, call_result) api_action" where
  "draw_handle N E i t v =
     bindA (getA (\<lambda>a. map_of (la_draw_refs a) i)) (\<lambda>r. case r of
       None \<Rightarrow> retA Called
     | Some r \<Rightarrow> bindA (liftA (as_dict v)) (\<lambda>d.
         if t = ''p'' then bindA (liftA (mouse_args d)) (\<lambda>(b, x, y). thenA (mouse_pressed N E r b x y) (retA Called))
         else if t = ''r'' then bindA (liftA (mouse_args d)) (\<lambda>(b, x, y). thenA (mouse_released N E r b x y) (retA Called))
         else if t = ''d'' then bindA (liftA (mouse_args d)) (\<lambda>(b, x, y). thenA (mouse_dragged N E r b x y) (retA Called))
         else if t = ''m'' then
           bindA (liftA (in_field d ''x'' as_int32)) (\<lambda>x. bindA (liftA (in_field d ''y'' as_int32)) (\<lambda>y. thenA (mouse_moved N E r x y) (retA Called)))
         else retA Called))"

text \<open>The other observables have nothing to do for an event.\<close>

definition observable_handle :: "('k, 's) script_engine \<Rightarrow> 'k api_env \<Rightarrow> observable \<Rightarrow> u32 \<Rightarrow> string \<Rightarrow> mvalue \<Rightarrow> ('s, call_result) api_action" where
  "observable_handle N E k i t v =
     (case k of
        OButton \<Rightarrow> button_handle N E i
      | ODropdown \<Rightarrow> dropdown_handle N E i v
      | OEdit \<Rightarrow> edit_handle N E i t v
      | OTextEdit \<Rightarrow> text_edit_handle N E i v
      | ODraw \<Rightarrow> draw_handle N E i t v
      | _ \<Rightarrow> retA Called)"

definition event_received :: "('k, 's) script_engine \<Rightarrow> 'k api_env \<Rightarrow> event_message \<Rightarrow> ('s, unit) api_action" where
  "event_received N E e =
     guarded N ''error in event_received: '' ''error in event recieved: unknown'' True
       (bindA (getA (\<lambda>a. map_of (la_observable_names a) (em_obj e))) (\<lambda>io. case io of
          None \<Rightarrow> retA Called
        | Some i \<Rightarrow> bindA (getA (get_observable i)) (\<lambda>ko. case ko of
            None \<Rightarrow> retA Called | Some k \<Rightarrow> observable_handle N E k i (em_type e) (em_v e))))"

end
