(* ===== verification/Lua_Script.thy ===== *)
theory Lua_Script
  imports Lua_Api
begin

text \<open>
  What holds of a running app, \<^verbatim>\<open>src/src/gui/lua/api.cpp\<close> as modelled in \<open>Lua_Api\<close>: the references that the api keeps, whatever the script does and whatever
  happens to it; which function of the script gets a message; how an event of a widget reaches the same widget of the other users.
\<close>

section \<open>The references of the api\<close>

text \<open>Every reference with the id it is kept under, and the ids of those that can have a name.\<close>

definition refs_of :: "(u32 \<times> 'z basic_ref_scheme) list \<Rightarrow> (u32 \<times> u32) list" where
  "refs_of ps = map (\<lambda>p. (fst p, r_id (snd p))) ps"

definition api_refs :: "'s lua_api \<Rightarrow> (u32 \<times> u32) list" where
  "api_refs a =
     refs_of (la_button_refs a) @ refs_of (la_dropdown_refs a) @ refs_of (la_label_refs a) @ refs_of (la_edit_refs a) @ refs_of (la_text_edit_refs a) @
     refs_of (la_list_refs a) @ refs_of (la_grid_refs a) @ refs_of (la_draw_refs a) @ refs_of (la_timer_refs a) @ refs_of (la_image_refs a) @
     refs_of (la_mic_refs a) @ refs_of (la_speaker_refs a)"

definition observable_ids :: "'s lua_api \<Rightarrow> u32 set" where
  "observable_ids a =
     fst ` (set (refs_of (la_button_refs a)) \<union> set (refs_of (la_dropdown_refs a)) \<union> set (refs_of (la_label_refs a)) \<union> set (refs_of (la_edit_refs a)) \<union>
       set (refs_of (la_text_edit_refs a)) \<union> set (refs_of (la_list_refs a)) \<union> set (refs_of (la_grid_refs a)) \<union> set (refs_of (la_draw_refs a)))"

definition refs_ok :: "'s lua_api \<Rightarrow> bool" where
  "refs_ok a \<longleftrightarrow> la_ids a < 2 ^ 32 \<and> distinct (map fst (api_refs a)) \<and> (\<forall>(i, j) \<in> set (api_refs a). j = i \<and> 0 < i \<and> ucast i \<le> la_ids a) \<and>
     snd ` set (la_observable_names a) \<subseteq> observable_ids a"

lemma refs_of_simps [simp]: "refs_of [] = []" "fst ` set (refs_of ps) = fst ` set ps" "map fst (refs_of ps) = keys ps"
  by (force simp: refs_of_def)+

lemma refs_of_put: "i \<notin> fst ` set ps \<Longrightarrow> refs_of (alist_put i r ps) = refs_of ps @ [(i, r_id r)]"
  by (simp add: refs_of_def alist_put_new)

lemma alist_upd_simps [simp]: "fst ` set (alist_upd k f ps) = fst ` set ps" "keys (alist_upd k f ps) = keys ps"
  by (force simp: alist_upd_def)+

lemma map_of_alist_upd [simp]: "map_of (alist_upd k f ps) j = (if j = k then map_option f (map_of ps j) else map_of ps j)"
  by (induction ps) (auto simp: alist_upd_def)

lemma refs_of_upd: "(\<And>r. r_id (f r) = r_id r) \<Longrightarrow> refs_of (alist_upd k f ps) = refs_of ps"
  by (simp add: refs_of_def alist_upd_def)

lemma observable_ids_iff: "i \<in> observable_ids a \<longleftrightarrow> get_observable i a \<noteq> None"
  by (simp add: observable_ids_def get_observable_def image_Un)

lemma observable_ids_refs: "observable_ids a \<subseteq> fst ` set (api_refs a)"
  by (simp add: observable_ids_def api_refs_def image_Un) blast

text \<open>A state with the same references and names, or the same with a new one.\<close>

lemma refs_ok_same:
  assumes "refs_ok a" "api_refs b = api_refs a" "la_ids b = la_ids a" "observable_ids b = observable_ids a" "snd ` set (la_observable_names b) \<subseteq> observable_ids a"
  shows "refs_ok b"
  using assms by (simp add: refs_ok_def)

lemma unat_lt32: "n < 2 ^ 32 \<longleftrightarrow> unat (n :: u64) < 2 ^ 32"
  by (simp add: word_less_nat_alt)

lemma unat_plus_one: "n < 2 ^ 32 \<Longrightarrow> unat (n + 1 :: u64) = Suc (unat n)"
  unfolding unat_lt32 by (subst unat_word_ariths) (simp add: word_size)

lemma ucast_small: "(n :: u64) < 2 ^ 32 \<Longrightarrow> ucast (ucast n :: u32) = n"
  unfolding unat_lt32 by (simp add: unsigned_ucast_eq word_unat_eq_iff unsigned_take_bit_eq take_bit_nat_eq_self)

lemma refs_ok_new:
  assumes "refs_ok a" "la_ids b = la_ids a + 1" "la_ids b < 2 ^ 32" "set (api_refs b) = insert (ucast (la_ids b), ucast (la_ids b)) (set (api_refs a))"
    and "length (api_refs b) = Suc (length (api_refs a))" "observable_ids a \<subseteq> observable_ids b" "la_observable_names b = la_observable_names a"
  shows "refs_ok b"
proof -
  have d: "distinct (map fst (api_refs a))" and o: "\<forall>(i, j) \<in> set (api_refs a). j = i \<and> 0 < i \<and> ucast i \<le> la_ids a" and l: "la_ids a < 2 ^ 32"
    using assms(1) by (simp_all add: refs_ok_def)
  define k :: u32 where "k = ucast (la_ids b)"
  have n: "la_ids a < la_ids b" unfolding assms(2) word_less_nat_alt using unat_plus_one [OF l] by simp
  have k: "ucast k = la_ids b" unfolding k_def by (rule ucast_small [OF assms(3)])
  have k0: "0 < k" using k n by (auto simp: word_neq_0_conv [symmetric])
  have new: "k \<notin> fst ` set (api_refs a)" using o k n by fastforce
  have "set (map fst (api_refs b)) = insert k (set (map fst (api_refs a)))" unfolding set_map assms(4) k_def [symmetric] by simp
  then have "card (set (map fst (api_refs b))) = Suc (card (set (map fst (api_refs a))))" using new by simp
  then have "distinct (map fst (api_refs b))" using distinct_card [OF d] assms(5) by (intro card_distinct) simp
  moreover have "\<forall>(i, j) \<in> set (api_refs b). j = i \<and> 0 < i \<and> ucast i \<le> la_ids b"
    using o k k0 n unfolding assms(4) k_def [symmetric] by force
  ultimately show ?thesis using assms(1, 3, 6, 7) by (auto simp: refs_ok_def)
qed

lemma refs_ok_more_ids: "refs_ok a \<Longrightarrow> api_refs b = api_refs a \<Longrightarrow> observable_ids b = observable_ids a \<Longrightarrow> la_observable_names b = la_observable_names a \<Longrightarrow>
    la_ids b = la_ids a + 1 \<Longrightarrow> la_ids b < 2 ^ 32 \<Longrightarrow> refs_ok b"
  unfolding refs_ok_def word_le_nat_alt using unat_plus_one [of "la_ids a"] by force

text \<open>What a maker may do with the maps.\<close>

definition adds :: "(u32 \<Rightarrow> 'r) \<Rightarrow> (u32 \<Rightarrow> 'r \<Rightarrow> 's lua_api \<Rightarrow> 's lua_api) \<Rightarrow> bool" where
  "adds mk put \<longleftrightarrow>
     (\<forall>i a. la_ids (put i (mk i) a) = la_ids a \<and> la_observable_names (put i (mk i) a) = la_observable_names a \<and>
       (i \<notin> fst ` set (api_refs a) \<longrightarrow>
          set (api_refs (put i (mk i) a)) = insert (i, i) (set (api_refs a)) \<and> length (api_refs (put i (mk i) a)) = Suc (length (api_refs a)) \<and>
          observable_ids a \<subseteq> observable_ids (put i (mk i) a)))"

lemma make_ref_state:
  assumes "survives (make_ref mk put w) a a1"
  obtains b where "b = put (ucast (la_ids a + 1)) (mk (ucast (la_ids a + 1))) (a\<lparr>la_ids := la_ids a + 1\<rparr>)" "\<exists>e. a1 = b\<lparr>la_effects := e\<rparr>"
  using assms by (auto simp: survives_def make_ref_def new_id_def bindA_def effect_def modA_def requireA_def liftA_def retA_def Let_def split: if_splits)

lemma view_simps [simp]:
  "api_refs (a\<lparr>la_effects := e\<rparr>) = api_refs a" "observable_ids (a\<lparr>la_effects := e\<rparr>) = observable_ids a"
  "api_refs (a\<lparr>la_ids := n\<rparr>) = api_refs a" "observable_ids (a\<lparr>la_ids := n\<rparr>) = observable_ids a"
  by (simp_all add: api_refs_def observable_ids_def)

lemma fresh_id:
  assumes "refs_ok a" "la_ids a + 1 < 2 ^ 32"
  shows "ucast (la_ids a + 1) \<notin> fst ` set (api_refs a)"
proof
  assume "ucast (la_ids a + 1) \<in> fst ` set (api_refs a)"
  then have "ucast (ucast (la_ids a + 1) :: u32) \<le> la_ids a" using assms(1) by (auto simp: refs_ok_def)
  then show False using ucast_small [OF assms(2)] unat_plus_one [of "la_ids a"] assms(1) by (simp add: refs_ok_def word_le_nat_alt)
qed

lemma make_ref_ok:
  assumes "refs_ok a" "survives (make_ref mk put w) a a1" "la_ids a1 < 2 ^ 32" "adds mk put"
  shows "refs_ok a1"
proof -
  define c where "c = a\<lparr>la_ids := la_ids a + 1\<rparr>"
  define i :: u32 where "i = ucast (la_ids a + 1)"
  obtain b e where b: "b = put i (mk i) c" and a1: "a1 = b\<lparr>la_effects := e\<rparr>" using make_ref_state [OF assms(2)] unfolding c_def i_def by blast
  have c: "la_ids c = la_ids a + 1" "la_observable_names c = la_observable_names a" "api_refs c = api_refs a" "observable_ids c = observable_ids a"
    by (simp_all add: c_def)
  have n: "la_ids b = la_ids a + 1" "la_observable_names b = la_observable_names a" using assms(4) by (simp_all add: adds_def b c)
  have l: "la_ids a + 1 < 2 ^ 32" using assms(3) n by (simp add: a1)
  have "i \<notin> fst ` set (api_refs c)" using fresh_id [OF assms(1) l] by (simp only: i_def c not_False_eq_True)
  then have r: "set (api_refs b) = insert (i, i) (set (api_refs a))" "length (api_refs b) = Suc (length (api_refs a))" "observable_ids a \<subseteq> observable_ids b"
    using assms(4) [unfolded adds_def, rule_format, of i c] unfolding b c by blast+
  have "la_ids b < 2 ^ 32" using l by (simp only: n)
  moreover have "set (api_refs b) = insert (ucast (la_ids b), ucast (la_ids b)) (set (api_refs a))" using r(1) by (simp only: i_def n)
  ultimately have "refs_ok b" using refs_ok_new [OF assms(1) n(1)] r(2, 3) n(2) by blast
  then show ?thesis by (simp add: a1 refs_ok_def)
qed

lemma fresh_parts:
  "i \<notin> fst ` set (api_refs a) \<longleftrightarrow>
     i \<notin> fst ` set (la_button_refs a) \<and> i \<notin> fst ` set (la_dropdown_refs a) \<and> i \<notin> fst ` set (la_label_refs a) \<and> i \<notin> fst ` set (la_edit_refs a) \<and>
     i \<notin> fst ` set (la_text_edit_refs a) \<and> i \<notin> fst ` set (la_list_refs a) \<and> i \<notin> fst ` set (la_grid_refs a) \<and> i \<notin> fst ` set (la_draw_refs a) \<and>
     i \<notin> fst ` set (la_timer_refs a) \<and> i \<notin> fst ` set (la_image_refs a) \<and> i \<notin> fst ` set (la_mic_refs a) \<and> i \<notin> fst ` set (la_speaker_refs a)"
  by (simp add: api_refs_def image_Un)

lemmas adds_simps = adds_def fresh_parts api_refs_def observable_ids_def refs_of_put image_Un

lemma makers_add:
  "adds (\<lambda>i. \<lparr>r_id = i, r_name = []\<rparr>) (\<lambda>i r a. a\<lparr>la_grid_refs := alist_put i r (la_grid_refs a)\<rparr>)"
  "adds (\<lambda>i. \<lparr>r_id = i, r_name = [], bt_callback = []\<rparr>) (\<lambda>i r a. a\<lparr>la_button_refs := alist_put i r (la_button_refs a)\<rparr>)"
  "adds (\<lambda>i. \<lparr>r_id = i, r_name = []\<rparr>) (\<lambda>i r a. a\<lparr>la_label_refs := alist_put i r (la_label_refs a)\<rparr>)"
  "adds (\<lambda>i. \<lparr>r_id = i, r_name = [], ed_edited = [], ed_finished = []\<rparr>) (\<lambda>i r a. a\<lparr>la_edit_refs := alist_put i r (la_edit_refs a)\<rparr>)"
  "adds (\<lambda>i. \<lparr>r_id = i, r_name = [], te_edited = []\<rparr>) (\<lambda>i r a. a\<lparr>la_text_edit_refs := alist_put i r (la_text_edit_refs a)\<rparr>)"
  "adds (\<lambda>i. \<lparr>r_id = i, r_name = []\<rparr>) (\<lambda>i r a. a\<lparr>la_list_refs := alist_put i r (la_list_refs a)\<rparr>)"
  "adds (\<lambda>i. \<lparr>r_id = i, r_name = [], dd_callback = []\<rparr>) (\<lambda>i r a. a\<lparr>la_dropdown_refs := alist_put i r (la_dropdown_refs a)\<rparr>)"
  "adds (\<lambda>i. \<lparr>r_id = i, r_name = [], dw_released = [], dw_pressed = [], dw_moved = [], dw_dragged = [], dw_pen = None, dw_lines = [], dw_circles = [], dw_images = []\<rparr>)
     (\<lambda>i r a. a\<lparr>la_draw_refs := alist_put i r (la_draw_refs a)\<rparr>)"
  "adds (\<lambda>i. \<lparr>r_id = i, ti_callback = c\<rparr>) (\<lambda>i r a. a\<lparr>la_timer_refs := alist_put i r (la_timer_refs a)\<rparr>)"
  "adds (\<lambda>i. \<lparr>r_id = i, r_name = [], im_good = None\<rparr>) (\<lambda>i r a. a\<lparr>la_image_refs := alist_put i r (la_image_refs a)\<rparr>)"
  "adds (\<lambda>i. \<lparr>r_id = i, mi_callback = c\<rparr>) (\<lambda>i r a. a\<lparr>la_mic_refs := alist_put i r (la_mic_refs a)\<rparr>)"
  by (simp_all add: adds_simps) (blast+)?

section \<open>Scripts\<close>

text \<open>
  What a script can do to the api in one step: change its own variables, or call an operation, which may throw.  The operations on a widget only show something
  (\<open>effect\<close>).  A script makes fewer than \<open>2 ^ 32\<close> references, as their ids are cut to 32 bits.
\<close>

inductive script_step :: "'k api_env \<Rightarrow> 's lua_api \<Rightarrow> 's lua_api \<Rightarrow> bool" for E where
  own: "script_step E a (a\<lparr>la_script := z\<rparr>)"
| grid: "survives (make_grid) a a1 \<Longrightarrow> script_step E a a1"
| make_button: "survives (make_button t) a a1 \<Longrightarrow> script_step E a a1"
| make_label: "survives (make_label t) a a1 \<Longrightarrow> script_step E a a1"
| make_edit: "survives (make_edit t) a a1 \<Longrightarrow> script_step E a a1"
| make_text_edit: "survives (make_text_edit t) a a1 \<Longrightarrow> script_step E a a1"
| make_list: "survives (make_list) a a1 \<Longrightarrow> script_step E a a1"
| make_dropdown: "survives (make_dropdown) a a1 \<Longrightarrow> script_step E a a1"
| make_pen: "survives (make_pen t w) a a1 \<Longrightarrow> script_step E a a1"
| make_draw: "survives (make_draw w h) a a1 \<Longrightarrow> script_step E a a1"
| make_timer: "survives (make_timer w t) a a1 \<Longrightarrow> script_step E a a1"
| make_image: "survives (make_image E d) a a1 \<Longrightarrow> script_step E a a1"
| make_mic: "survives (make_mic t u) a a1 \<Longrightarrow> script_step E a a1"
| make_speaker: "survives (make_speaker t) a a1 \<Longrightarrow> script_step E a a1"
| set_name: "survives (set_name n (o1 :: observable_ref)) a a1 \<Longrightarrow> script_step E a a1"
| button_set_callback: "survives (button_set_callback t b) a a1 \<Longrightarrow> script_step E a a1"
| edit_set_edited_callback: "survives (edit_set_edited_callback t e) a a1 \<Longrightarrow> script_step E a a1"
| edit_set_finished_callback: "survives (edit_set_finished_callback t e) a a1 \<Longrightarrow> script_step E a a1"
| text_edit_set_edited_callback: "survives (text_edit_set_edited_callback t x) a a1 \<Longrightarrow> script_step E a a1"
| dropdown_set_callback: "survives (dropdown_set_callback t p) a a1 \<Longrightarrow> script_step E a a1"
| timer_set_callback: "survives (timer_set_callback t i) a a1 \<Longrightarrow> script_step E a a1"
| mic_set_callback: "survives (mic_set_callback t m) a a1 \<Longrightarrow> script_step E a a1"
| set_mouse_released_callback: "survives (set_mouse_released_callback t r) a a1 \<Longrightarrow> script_step E a a1"
| set_mouse_pressed_callback: "survives (set_mouse_pressed_callback t r) a a1 \<Longrightarrow> script_step E a a1"
| set_mouse_moved_callback: "survives (set_mouse_moved_callback t r) a a1 \<Longrightarrow> script_step E a a1"
| set_mouse_dragged_callback: "survives (set_mouse_dragged_callback t r) a a1 \<Longrightarrow> script_step E a a1"
| set_pen: "survives (set_pen o1 r) a a1 \<Longrightarrow> script_step E a a1"
| draw_line: "survives (draw_line ps r) a a1 \<Longrightarrow> script_step E a a1"
| draw_circle: "survives (draw_circle ps r) a a1 \<Longrightarrow> script_step E a a1"
| draw_image: "survives (draw_image g ps r) a a1 \<Longrightarrow> script_step E a a1"
| shown: "survives (effect f) a a1 \<Longrightarrow> script_step E a a1"
| set_message_callback: "survives (set_message_callback t) a a1 \<Longrightarrow> script_step E a a1"
| set_message_callback_by_type: "survives (set_message_callback_by_type t u) a a1 \<Longrightarrow> script_step E a a1"
| set_local_message_callback: "survives (set_local_message_callback t) a a1 \<Longrightarrow> script_step E a a1"
| set_local_message_callback_by_type: "survives (set_local_message_callback_by_type t u) a a1 \<Longrightarrow> script_step E a a1"
| set_contact_quit_callback: "survives (set_contact_quit_callback t) a a1 \<Longrightarrow> script_step E a a1"
| set_contact_joined_callback: "survives (set_contact_joined_callback t) a a1 \<Longrightarrow> script_step E a a1"
| lua_send_all: "survives (lua_send_all E s) a a1 \<Longrightarrow> script_step E a a1"
| lua_send_to: "survives (lua_send_to E c s) a a1 \<Longrightarrow> script_step E a a1"
| app_send: "survives (app_send E t s) a a1 \<Longrightarrow> script_step E a a1"
| send_local: "survives (send_local E s) a a1 \<Longrightarrow> script_step E a a1"
| who_started: "survives (who_started E) a a1 \<Longrightarrow> script_step E a a1"

inductive script_steps :: "'k api_env \<Rightarrow> 's lua_api \<Rightarrow> 's lua_api \<Rightarrow> bool" for E where
  nothing: "script_steps E a a"
| more: "script_steps E a a1 \<Longrightarrow> script_step E a1 a2 \<Longrightarrow> la_ids a2 = la_ids a1 \<or> la_ids a2 < 2 ^ 32 \<Longrightarrow> script_steps E a a2"

text \<open>The interpreter changes the api only as a script can, whatever it runs and in whatever way it stops.\<close>

locale interpreter =
  fixes N :: "('k, 's) script_engine"
  assumes runs: "script_steps E a (snd (se_do N E c a))"
    and calls: "script_steps E a (snd (se_call N E f args a))"

lemma refs_ok_fields [simp]:
  "refs_ok (a\<lparr>la_effects := e\<rparr>) = refs_ok a" "refs_ok (a\<lparr>la_script := z\<rparr>) = refs_ok a" "refs_ok (a\<lparr>la_mail := b\<rparr>) = refs_ok a" "refs_ok (a\<lparr>la_error := r\<rparr>) = refs_ok a"
  "refs_ok (a\<lparr>la_message_callback := t\<rparr>) = refs_ok a" "refs_ok (a\<lparr>la_local_message_callback := t\<rparr>) = refs_ok a" "refs_ok (a\<lparr>la_message_callbacks := ts\<rparr>) = refs_ok a"
  "refs_ok (a\<lparr>la_local_message_callbacks := ts\<rparr>) = refs_ok a" "refs_ok (a\<lparr>la_contact_quit_callback := t\<rparr>) = refs_ok a" "refs_ok (a\<lparr>la_contact_joined_callback := t\<rparr>) = refs_ok a"
  by (simp_all add: refs_ok_def api_refs_def observable_ids_def)

lemmas refs_simps = refs_ok_def api_refs_def observable_ids_def refs_of_upd

lemma refs_ok_upd [simp]:
  "refs_ok (a\<lparr>la_button_refs := alist_upd i (bt_callback_update f) (la_button_refs a)\<rparr>) = refs_ok a"
  "refs_ok (a\<lparr>la_edit_refs := alist_upd i (ed_edited_update f) (la_edit_refs a)\<rparr>) = refs_ok a"
  "refs_ok (a\<lparr>la_edit_refs := alist_upd i (ed_finished_update f) (la_edit_refs a)\<rparr>) = refs_ok a"
  "refs_ok (a\<lparr>la_text_edit_refs := alist_upd i (te_edited_update f) (la_text_edit_refs a)\<rparr>) = refs_ok a"
  "refs_ok (a\<lparr>la_dropdown_refs := alist_upd i (dd_callback_update f) (la_dropdown_refs a)\<rparr>) = refs_ok a"
  "refs_ok (a\<lparr>la_timer_refs := alist_upd i (ti_callback_update f) (la_timer_refs a)\<rparr>) = refs_ok a"
  "refs_ok (a\<lparr>la_mic_refs := alist_upd i (mi_callback_update f) (la_mic_refs a)\<rparr>) = refs_ok a"
  by (simp_all add: refs_simps)

lemma refs_ok_draw: "(\<And>r. r_id (f r) = r_id r) \<Longrightarrow> refs_ok (a\<lparr>la_draw_refs := alist_upd i f (la_draw_refs a)\<rparr>) = refs_ok a"
  by (simp add: refs_simps)

lemma put_name_refs:
  "api_refs (put_name k i n a) = api_refs a" "observable_ids (put_name k i n a) = observable_ids a" "la_ids (put_name k i n a) = la_ids a"
  "la_observable_names (put_name k i n a) = la_observable_names a"
  by (cases k; simp add: put_name_def api_refs_def observable_ids_def refs_of_upd)+

lemma alist_put_values: "snd ` set (alist_put k v ps) \<subseteq> insert v (snd ` set ps)"
  by (induction ps) auto

lemma refs_ok_named:
  assumes "refs_ok a" "get_observable i a = Some k"
  shows "refs_ok ((put_name k i n a)\<lparr>la_observable_names := alist_put n i (la_observable_names a)\<rparr>)"
proof (rule refs_ok_same [OF assms(1)])
  let ?b = "(put_name k i n a)\<lparr>la_observable_names := alist_put n i (la_observable_names a)\<rparr>"
  show "api_refs ?b = api_refs a" "observable_ids ?b = observable_ids a" "la_ids ?b = la_ids a"
    using put_name_refs [of k i n a] by (simp_all add: api_refs_def observable_ids_def)
  have "i \<in> observable_ids a" using assms(2) by (simp add: observable_ids_iff)
  then show "snd ` set (la_observable_names ?b) \<subseteq> observable_ids a"
    using alist_put_values [of n i "la_observable_names a"] assms(1) by (auto simp: refs_ok_def)
qed

section \<open>The references stay in order\<close>

lemma refs_kept [keeps_intros]:
  "keeps refs_ok (effect e)" "keeps refs_ok (report_error t l)" "keeps refs_ok (set_message_callback t)" "keeps refs_ok (set_message_callback_by_type t u)"
  "keeps refs_ok (set_local_message_callback t)" "keeps refs_ok (set_local_message_callback_by_type t u)" "keeps refs_ok (set_contact_quit_callback t)"
  "keeps refs_ok (set_contact_joined_callback t)"
  by (auto simp: effect_def report_error_def set_message_callback_def set_message_callback_by_type_def set_local_message_callback_def
      set_local_message_callback_by_type_def set_contact_quit_callback_def set_contact_joined_callback_def thenA_def intro!: keeps_modA keeps_bind)

lemma keeps_set_name: "keeps refs_ok (set_name n h)"
  unfolding keeps_def set_name_def by (auto simp: thenA_def refs_ok_named split: option.splits)

lemma keeps_set_callback:
  assumes "\<And>a i. refs_ok (put (alist_upd i f (refs a)) a) = refs_ok a"
  shows "keeps refs_ok (set_callback refs put key f h)"
  unfolding set_callback_def keeps_def using assms by (auto simp: thenA_def)

lemma keeps_callbacks:
  "keeps refs_ok (button_set_callback t b)" "keeps refs_ok (edit_set_edited_callback t e)" "keeps refs_ok (edit_set_finished_callback t e)"
  "keeps refs_ok (text_edit_set_edited_callback t x)" "keeps refs_ok (dropdown_set_callback t p)" "keeps refs_ok (timer_set_callback t i)"
  "keeps refs_ok (mic_set_callback t m)"
  unfolding button_set_callback_def edit_set_edited_callback_def edit_set_finished_callback_def text_edit_set_edited_callback_def dropdown_set_callback_def
    timer_set_callback_def mic_set_callback_def
  by (rule keeps_set_callback; simp)+

lemma keeps_draw_set: "(\<And>r. r_id (f r) = r_id r) \<Longrightarrow> keeps refs_ok (draw_set f h)"
  unfolding draw_set_def by (rule keeps_set_callback) (simp add: refs_ok_draw)

lemma keeps_drawing:
  "keeps refs_ok (set_mouse_released_callback t r)" "keeps refs_ok (set_mouse_pressed_callback t r)" "keeps refs_ok (set_mouse_moved_callback t r)"
  "keeps refs_ok (set_mouse_dragged_callback t r)" "keeps refs_ok (set_pen p r)"
  unfolding set_mouse_released_callback_def set_mouse_pressed_callback_def set_mouse_moved_callback_def set_mouse_dragged_callback_def set_pen_def
  by (rule keeps_draw_set; simp)+

lemma keeps_api_send [keeps_intros]: "keeps refs_ok (api_send E i m)" "keeps refs_ok (app_send E t s)"
  unfolding api_send_def app_send_def by (auto intro!: keeps_intros keeps_partA)

lemma keeps_sending [keeps_intros]:
  "keeps refs_ok (lua_send_all E s)" "keeps refs_ok (lua_send_to E c s)" "keeps refs_ok (send_local E s)" "keeps refs_ok (send_event E e)" "keeps refs_ok (send_simple_event E n t)"
  "keeps refs_ok (who_started E)"
  unfolding lua_send_all_def lua_send_to_def send_local_def send_event_def send_simple_event_def who_started_def by (auto intro!: keeps_intros)

text \<open>Makers that only take an id.\<close>

lemma refs_ok_id: "refs_ok a \<Longrightarrow> la_ids a + 1 < 2 ^ 32 \<Longrightarrow> refs_ok (a\<lparr>la_ids := la_ids a + 1\<rparr>)"
  by (rule refs_ok_more_ids [of a]) simp_all

lemmas action_defs = survives_def new_id_def bindA_def thenA_def effect_def modA_def requireA_def liftA_def retA_def getA_def

lemma only_id:
  "survives (make_pen t w) a a1 \<Longrightarrow> \<exists>e. a1 = a\<lparr>la_ids := la_ids a + 1, la_effects := e\<rparr>"
  "survives (draw_line ps r) a a1 \<Longrightarrow> \<exists>e. a1 = a\<lparr>la_ids := la_ids a + 1, la_effects := e\<rparr>"
  "survives (draw_circle ps r) a a1 \<Longrightarrow> \<exists>e. a1 = a\<lparr>la_ids := la_ids a + 1, la_effects := e\<rparr>"
  by (auto simp: make_pen_def make_ref_def draw_line_def draw_circle_def draw_item_new_def draw_shape_def action_defs Let_def split: if_splits option.splits)

lemma draw_image_state: "survives (draw_image g ps r) a a1 \<Longrightarrow> a1 = a \<or> (\<exists>e. a1 = a\<lparr>la_ids := la_ids a + 1, la_effects := e\<rparr>)"
  by (auto simp: draw_image_def draw_item_new_def action_defs Let_def split: if_splits option.splits bool.splits)

lemma refs_ok_only_id: "\<exists>e. a1 = a\<lparr>la_ids := la_ids a + 1, la_effects := e\<rparr> \<Longrightarrow> refs_ok a \<Longrightarrow> la_ids a1 < 2 ^ 32 \<Longrightarrow> refs_ok a1"
  by (auto simp: refs_ok_id)

lemma speaker_state:
  "survives (make_speaker t) a a1 \<Longrightarrow> a1 = a\<lparr>la_ids := la_ids a + 1,
     la_speaker_refs := alist_put (ucast (la_ids a + 1)) \<lparr>r_id = ucast (la_ids a + 1)\<rparr> (la_speaker_refs a),
     la_effects := la_effects a @ [Add (rid (ucast (la_ids a + 1))) (Speaker t)]\<rparr>"
  by (simp add: make_speaker_def action_defs Let_def)

lemma survives_bind_ret: "survives (bindA m (\<lambda>r. retA (f r))) a a1 \<Longrightarrow> survives m a a1"
  by (auto simp: survives_def bindA_def retA_def split: prod.splits outcome.splits)

lemma step_refs:
  assumes "script_step E a a1" "la_ids a1 < 2 ^ 32" "refs_ok a"
  shows "refs_ok a1"
  using assms
proof (induction rule: script_step.induct)
  case (make_speaker t a a1)
  note a1 = speaker_state [OF make_speaker(1)]
  have l: "la_ids a + 1 < 2 ^ 32" using make_speaker(2) by (simp add: a1)
  have "ucast (la_ids a + 1) \<notin> fst ` set (la_speaker_refs a)" using fresh_id [OF make_speaker(3) l] by (simp add: fresh_parts)
  then show ?case by (intro refs_ok_new [OF make_speaker(3)]) (use l in \<open>simp_all add: a1 api_refs_def observable_ids_def refs_of_put\<close>)
next
  case (make_image d a a1)
  then show ?case unfolding make_image_def by (blast intro: make_ref_ok makers_add dest: survives_bind_ret)
next
  case (draw_image g ps r a a1)
  then show ?case using draw_image_state refs_ok_only_id by blast
qed ((simp; fail) | (blast intro: refs_ok_only_id dest: only_id) | (blast intro: survives_keeps refs_kept keeps_callbacks keeps_drawing keeps_set_name keeps_api_send keeps_sending)
   | (simp only: make_grid_def make_button_def make_label_def make_edit_def make_text_edit_def make_list_def make_dropdown_def make_draw_def make_timer_def make_mic_def; blast intro: make_ref_ok makers_add))+

lemma steps_refs: "script_steps E a a1 \<Longrightarrow> refs_ok a \<Longrightarrow> refs_ok a1"
proof (induction rule: script_steps.induct)
  case (more a a1 a2)
  then have "la_ids a2 < 2 ^ 32" by (auto simp: refs_ok_def)
  with more show ?case using step_refs by blast
qed

lemma keeps_rethrow_if [keeps_intros]: "keeps I m \<Longrightarrow> keeps I (rethrow_if p m)"
  unfolding keeps_def rethrow_if_def by (auto split: prod.splits outcome.splits)

lemma keeps_guarded [keeps_intros]:
  assumes "keeps refs_ok m"
  shows "keeps refs_ok (guarded N t u l m)"
proof -
  have "refs_ok (snd (report_error x y a))" if "refs_ok a" for x y and a :: "'a lua_api" using keepsD [OF refs_kept(2) that] .
  with assms show ?thesis unfolding keeps_def guarded_def Let_def by (auto split: prod.splits outcome.splits call_result.splits)
qed

lemma distinct_parts:
  "distinct (map fst (b @ d @ l @ e @ t @ li @ g @ dr @ ti @ im @ m @ s)) \<Longrightarrow> distinct (map fst (d @ l @ dr @ m @ s))"
  unfolding map_append distinct_append set_append Int_Un_distrib Un_empty by (elim conjE, intro conjI; assumption)

lemma keeps_reset: "keeps refs_ok (api_reset N)"
proof -
  have "refs_ok (reset_refs a)" if "refs_ok a" for a :: "'a lua_api"
  proof -
    have "distinct (map fst (api_refs a))" using that by (simp add: refs_ok_def)
    then have "distinct (map fst (api_refs (reset_refs a)))"
      by (simp add: api_refs_def reset_refs_def distinct_parts del: map_append distinct_append)
    moreover have "set (api_refs (reset_refs a)) \<subseteq> set (api_refs a)" by (auto simp: api_refs_def reset_refs_def)
    ultimately show ?thesis using that by (auto simp: refs_ok_def reset_refs_def)
  qed
  then show ?thesis by (auto simp: api_reset_def intro: keeps_modA)
qed

context interpreter
begin

lemma keeps_engine [keeps_intros]: "keeps refs_ok (se_do N E c)" "keeps refs_ok (se_call N E f args)"
  unfolding keeps_def by (blast intro: steps_refs runs calls)+

lemma keeps_run [keeps_intros]: "keeps refs_ok (run_code N E t b)"
  unfolding run_code_def execute_def
  by (auto intro!: keeps_intros keeps_modA split: do_result.splits)

lemma keeps_mouse [keeps_intros]:
  "keeps refs_ok (mouse_pressed N E r b x y)" "keeps refs_ok (mouse_released N E r b x y)" "keeps refs_ok (mouse_dragged N E r b x y)" "keeps refs_ok (mouse_moved N E r x y)"
  unfolding mouse_pressed_def mouse_released_def mouse_dragged_def mouse_moved_def call_if_def by (auto intro!: keeps_intros)

lemma keeps_observables [keeps_intros]: "keeps refs_ok (observable_handle N E k i t v)"
  unfolding observable_handle_def button_handle_def dropdown_handle_def edit_handle_def text_edit_handle_def draw_handle_def Let_def
  by (auto intro!: keeps_intros split: observable.splits)

lemma keeps_api_handlers [keeps_intros]:
  "keeps refs_ok (message_received N E s)" "keeps refs_ok (event_received N E v)" "keeps refs_ok (api_contact_quit N E t)" "keeps refs_ok (api_contact_joined N E t)"
  "keeps refs_ok (edit_edited N E i)" "keeps refs_ok (edit_finished N E i)" "keeps refs_ok (text_edit_edited N E i)" "keeps refs_ok (button_clicked N E i)"
  "keeps refs_ok (timer_triggered N E i)" "keeps refs_ok (dropdown_selected N E i k)" "keeps refs_ok (got_sound N E i d)"
  unfolding message_received_def event_received_def api_contact_quit_def api_contact_joined_def contact_event_def edit_edited_def edit_finished_def text_edit_edited_def
    text_event_def button_clicked_def timer_triggered_def dropdown_selected_def got_sound_def call_if_def
  by (auto intro!: keeps_intros)

lemma keeps_mouse_events [keeps_intros]:
  "keeps refs_ok (draw_mouse_pressed N E i k x y)" "keeps refs_ok (draw_mouse_released N E i k x y)" "keeps refs_ok (draw_mouse_dragged N E i k x y)"
  "keeps refs_ok (draw_mouse_moved N E i x y)"
  unfolding draw_mouse_pressed_def draw_mouse_released_def draw_mouse_dragged_def draw_mouse_moved_def draw_event_def by (auto intro!: keeps_intros)

end

section \<open>Runs of an app\<close>

text \<open>What happens to an app: it is started with its code, and then gets messages, events and resets in any order and in changing circumstances.\<close>

inductive api_event :: "('k, 's) script_engine \<Rightarrow> 'k api_env \<Rightarrow> 's lua_api \<Rightarrow> 's lua_api \<Rightarrow> bool" for N E where
  runs_code: "survives (run_code N E t b) a a1 \<Longrightarrow> api_event N E a a1"
| message_received: "survives (message_received N E s) a a1 \<Longrightarrow> api_event N E a a1"
| event_received: "survives (event_received N E v) a a1 \<Longrightarrow> api_event N E a a1"
| api_contact_quit: "survives (api_contact_quit N E t) a a1 \<Longrightarrow> api_event N E a a1"
| api_contact_joined: "survives (api_contact_joined N E t) a a1 \<Longrightarrow> api_event N E a a1"
| edit_edited: "survives (edit_edited N E i) a a1 \<Longrightarrow> api_event N E a a1"
| edit_finished: "survives (edit_finished N E i) a a1 \<Longrightarrow> api_event N E a a1"
| text_edit_edited: "survives (text_edit_edited N E i) a a1 \<Longrightarrow> api_event N E a a1"
| button_clicked: "survives (button_clicked N E i) a a1 \<Longrightarrow> api_event N E a a1"
| timer_triggered: "survives (timer_triggered N E i) a a1 \<Longrightarrow> api_event N E a a1"
| dropdown_selected: "survives (dropdown_selected N E i k) a a1 \<Longrightarrow> api_event N E a a1"
| got_sound: "survives (got_sound N E i d) a a1 \<Longrightarrow> api_event N E a a1"
| draw_mouse_pressed: "survives (draw_mouse_pressed N E i k x y) a a1 \<Longrightarrow> api_event N E a a1"
| draw_mouse_released: "survives (draw_mouse_released N E i k x y) a a1 \<Longrightarrow> api_event N E a a1"
| draw_mouse_dragged: "survives (draw_mouse_dragged N E i k x y) a a1 \<Longrightarrow> api_event N E a a1"
| draw_mouse_moved: "survives (draw_mouse_moved N E i x y) a a1 \<Longrightarrow> api_event N E a a1"
| api_reset: "survives (api_reset N) a a1 \<Longrightarrow> api_event N E a a1"

inductive api_reach :: "('k, 's) script_engine \<Rightarrow> mailbox \<Rightarrow> string \<Rightarrow> 's lua_api \<Rightarrow> bool" for N mail who where
  start: "api_reach N mail who (lua_api_new N mail who)"
| event: "api_reach N mail who a \<Longrightarrow> api_event N E a a1 \<Longrightarrow> api_reach N mail who a1"

lemma refs_ok_start: "refs_ok (lua_api_new N mail who)"
  by (simp add: refs_ok_def lua_api_new_def api_refs_def observable_ids_def)

context interpreter
begin

lemma event_refs:
  assumes "api_event N E a a1" "refs_ok a"
  shows "refs_ok a1"
  using assms by (induction rule: api_event.induct) (blast intro: survives_keeps keeps_run keeps_api_handlers keeps_mouse_events keeps_reset)+

lemma reach_refs: "api_reach N mail who a \<Longrightarrow> refs_ok a"
  by (induction rule: api_reach.induct) (simp add: refs_ok_start, blast intro: event_refs)

end

section \<open>A small interpreter\<close>

text \<open>
  Its variables are the calls that it got.  The code \<open>edit\<close> makes a text field with a name and a function; the function \<open>fail\<close> is not there, and one code never
  ends.
\<close>

type_synonym calls = "(string \<times> script_arg list) list"

definition sample_edit :: "(calls, do_result) api_action" where
  "sample_edit =
     bindA (make_edit []) (\<lambda>r. bindA (set_name ''name'' r) (\<lambda>r. bindA (edit_set_edited_callback ''changed'' r) (\<lambda>_. retA DoOk)))"

definition sample_engine :: "('k, calls) script_engine" where
  "sample_engine =
     \<lparr>se_new = [],
      se_do = (\<lambda>E c a. if c = ''edit'' \<and> 0 < la_ids a + 1 \<and> la_ids a + 1 < 2 ^ 32 then sample_edit a else if c = ''loop'' then (Diverge, a) else (Ok DoOk, a)),
      se_call = (\<lambda>E f args. if f = ''fail'' then retA (CallFailed ''no function'' 1) else bindA (modA (\<lambda>a. a\<lparr>la_script := la_script a @ [(f, args)]\<rparr>)) (\<lambda>_. retA Called)),
      se_last_error = (\<lambda>_. []), se_last_line = (\<lambda>_. 0)\<rparr>"

lemma set_name_slice: "survives (set_name n h) a a1 \<Longrightarrow> survives (set_name n \<lparr>r_id = r_id h, r_name = r_name h\<rparr>) a a1"
  by (auto simp: set_name_def action_defs split: option.splits)

lemma total_ops:
  "\<exists>h1 a1. set_name n h a = (Ok h1, a1) \<and> la_ids a1 = la_ids a"
  "\<exists>r1 a1. edit_set_edited_callback t r a = (Ok r1, a1) \<and> la_ids a1 = la_ids a"
  by (auto simp: set_name_def edit_set_edited_callback_def set_callback_def action_defs put_name_refs split: option.splits)

lemma make_edit_ok:
  assumes "0 < la_ids a + 1" "la_ids a + 1 < 2 ^ 32"
  shows "\<exists>r a1. make_edit t a = (Ok r, a1) \<and> la_ids a1 = la_ids a + 1"
proof -
  have "ucast (la_ids a + 1) \<noteq> (0 :: u32)" using ucast_small [OF assms(2)] assms(1) by auto
  then show ?thesis by (auto simp: make_edit_def make_ref_def action_defs Let_def)
qed

lemma sample_edit_steps:
  assumes "0 < la_ids a + 1" "la_ids a + 1 < 2 ^ 32"
  shows "script_steps E a (snd (sample_edit a))"
proof -
  obtain r a1 where 1: "make_edit [] a = (Ok r, a1)" "la_ids a1 = la_ids a + 1" using make_edit_ok [OF assms] by blast
  obtain h a2 where 2: "set_name ''name'' r a1 = (Ok h, a2)" "la_ids a2 = la_ids a1" using total_ops(1) by blast
  obtain q a3 where 3: "edit_set_edited_callback ''changed'' h a2 = (Ok q, a3)" "la_ids a3 = la_ids a2" using total_ops(2) by blast
  have "script_step E a a1" by (rule script_step.make_edit [where t = "[]"]) (simp add: survives_def 1)
  moreover have "script_step E a1 a2" by (rule script_step.set_name [OF set_name_slice [of "''name''" r]]) (simp add: survives_def 2)
  moreover have "script_step E a2 a3" by (rule script_step.edit_set_edited_callback [where t = "''changed''" and e = h]) (simp add: survives_def 3)
  ultimately have "script_steps E a a3" using assms(2) 1 2 3 by (metis script_steps.intros)
  then show ?thesis by (simp add: sample_edit_def bindA_def retA_def 1 2 3)
qed

interpretation si: interpreter sample_engine
proof (unfold_locales, goal_cases)
  case (1 E a c)
  show ?case
    using sample_edit_steps [of a E] script_steps.nothing [of E a] by (simp add: sample_engine_def)
next
  case (2 E a f args)
  have "script_steps E a (a\<lparr>la_script := la_script a @ [(f, args)]\<rparr>)"
    using script_steps.more [OF script_steps.nothing script_step.own] by simp
  then show ?case by (simp add: sample_engine_def retA_def modA_def bindA_def script_steps.nothing)
qed

section \<open>An app in a conversation\<close>

definition sample_api_env :: "nat api_env" where
  "sample_api_env =
     \<lparr>ae_cxx = decimal_lib, ae_user = sample_user, ae_available = (\<lambda>_. True), ae_conv = sample_conversation\<lparr>cv_contacts := indexed [sample_info 1 ''you'']\<rparr>,
      ae_launched_local = True, ae_visible = True, ae_edit_text = (\<lambda>_. ''hi''), ae_text_edit_text = (\<lambda>_. []), ae_image_good = (\<lambda>_. True)\<rparr>"

definition sample_app :: "calls lua_api" where
  "sample_app = snd (run_code sample_engine sample_api_env ''edit'' False (lua_api_new (sample_engine :: (nat, calls) script_engine) (mailbox_new ''app'') ''you''))"

lemma sample_run:
  "run_code sample_engine sample_api_env ''edit'' False (lua_api_new (sample_engine :: (nat, calls) script_engine) (mailbox_new ''app'') ''you'') = (Ok (), sample_app)"
  "la_edit_refs sample_app = [(1, \<lparr>r_id = 1, r_name = ''name'', ed_edited = ''changed'', ed_finished = []\<rparr>)]"
  "la_observable_names sample_app = [(''name'', 1)]" "la_mail sample_app = mailbox_new ''app''" "get_observable 1 sample_app = Some OEdit"
  "la_message_callback sample_app = []" "la_message_callbacks sample_app = []" "la_local_message_callback sample_app = []" "la_local_message_callbacks sample_app = []"
  by (simp_all add: sample_app_def run_code_def execute_def sample_engine_def sample_edit_def make_edit_def make_ref_def set_name_def edit_set_edited_callback_def
      set_callback_def lua_api_new_def action_defs Let_def get_observable_def put_name_def alist_upd_def)

lemma sample_reach: "api_reach (sample_engine :: (nat, calls) script_engine) (mailbox_new ''app'') ''you'' sample_app"
proof (rule api_reach.event [OF api_reach.start])
  show "api_event sample_engine sample_api_env (lua_api_new (sample_engine :: (nat, calls) script_engine) (mailbox_new ''app'') ''you'') sample_app"
    by (rule api_event.runs_code [where t = "''edit''" and b = False]) (simp add: survives_def sample_run)
qed

text \<open>
  C30. Whatever a script does and whatever happens to its app, the references stay in order: an id stands for one reference of one kind, the entry under an id has that
  id, no id is above the counter, so the next one is new, and a name stands for a widget that is there.
\<close>

theorem refs_consistent:
  assumes "interpreter N" "api_reach N mail who a"
  shows "distinct (map fst (api_refs a)) \<and> (\<forall>(i, j) \<in> set (api_refs a). j = i \<and> 0 < i \<and> ucast i \<le> la_ids a) \<and>
    (\<forall>n i. map_of (la_observable_names a) n = Some i \<longrightarrow> get_observable i a \<noteq> None)"
proof -
  have r: "refs_ok a" using interpreter.reach_refs [OF assms] .
  then have "\<forall>n i. map_of (la_observable_names a) n = Some i \<longrightarrow> i \<in> observable_ids a" by (force simp: refs_ok_def dest: map_of_SomeD)
  with r show ?thesis by (simp add: refs_ok_def observable_ids_iff)
qed

theorem refs_consistent_witness:
  "map_of (la_observable_names sample_app) ''name'' = Some 1 \<and> get_observable 1 sample_app \<noteq> None \<and> distinct (map fst (api_refs sample_app))"
  using refs_consistent [OF si.interpreter_axioms sample_reach] by (simp add: sample_run)

section \<open>Events reach the other users\<close>

text \<open>What the sender makes of an event for one contact.\<close>

definition event_to :: "'k api_env \<Rightarrow> mailbox \<Rightarrow> event_message \<Rightarrow> 'k user_info \<Rightarrow> message" where
  "event_to E mail e c =
     (let m = sent_by (ui_id (lu_info (ae_user E))) (event_to_message (ae_cxx E) e) in m\<lparr>m_meta := (m_meta m)\<lparr>mt_to := [ui_address c, mailbox_address mail]\<rparr>\<rparr>)"

lemma api_send_event:
  assumes "cl_by_id i (lu_contacts (ae_user E)) = Ok (Some c)"
  shows "\<exists>box. api_send E i (event_to_message (ae_cxx E) e) a = (Ok (), a\<lparr>la_mail := box\<rparr>) \<and> outbox box = outbox (la_mail a) @ [event_to E (la_mail a) e c] \<and>
    mailbox_address box = mailbox_address (la_mail a)"
  using assms
  by (auto simp: api_send_def partA_def sender_send_def Let_def event_to_def sent_by_def mailbox_defs queue_simps thenA_def bindA_def retA_def value_of_string_def to_bytes_def)

lemma send_event_all:
  assumes "\<And>c. c \<in> set cs \<Longrightarrow> cl_by_id (ui_id c) (lu_contacts (ae_user E)) = Ok (Some c)"
  shows "\<exists>box. forA (\<lambda>c. api_send E (ui_id c) (event_to_message (ae_cxx E) e)) cs a = (Ok (), a\<lparr>la_mail := box\<rparr>) \<and>
    outbox box = outbox (la_mail a) @ map (event_to E (la_mail a) e) cs"
  using assms
proof (induction cs arbitrary: a)
  case Nil
  show ?case by (rule exI [of _ "la_mail a"]) (simp add: retA_def)
next
  case (Cons c cs)
  obtain b where b: "api_send E (ui_id c) (event_to_message (ae_cxx E) e) a = (Ok (), a\<lparr>la_mail := b\<rparr>)"
    "outbox b = outbox (la_mail a) @ [event_to E (la_mail a) e c]" "mailbox_address b = mailbox_address (la_mail a)"
    using api_send_event [of "ui_id c" E c e a] Cons.prems by auto
  obtain b2 where b2: "forA (\<lambda>c. api_send E (ui_id c) (event_to_message (ae_cxx E) e)) cs (a\<lparr>la_mail := b\<rparr>) = (Ok (), a\<lparr>la_mail := b2\<rparr>)"
    "outbox b2 = outbox b @ map (event_to E b e) cs"
    using Cons.IH [of "a\<lparr>la_mail := b\<rparr>"] Cons.prems by auto
  moreover have "event_to E b e = event_to E (la_mail a) e" by (rule ext) (simp add: event_to_def b(3))
  ultimately show ?case using b by (intro exI [of _ b2]) (simp add: thenA_def bindA_Ok)
qed

lemma event_received_from:
  assumes "lexical_cast (ae_cxx E)" "wf_value (ae_cxx E) (em_v e)"
  shows "event_from_message (ae_cxx E) (event_to E mail e c) = Ok e"
  using lexical_cast.decode_encode [OF assms]
  by (simp add: event_from_message_def event_to_def sent_by_def event_to_message_def msg_extra_def dict_get_def dict_put_def alist_has_def value_of_string_def to_bytes_def to_str_def
      Let_def del: alist_has_iff)



text \<open>A name alone does not share the edits: without a function for edits an edit does nothing at all.\<close>

theorem unheard_edit_not_sent:
  assumes "map_of (la_edit_refs a) (ucast i) = Some r" "ed_edited r = []"
  shows "edit_edited N E i a = (Ok (), a)"
  using assms by (simp add: edit_edited_def guarded_def text_event_def bindA_def getA_def retA_def)

theorem unheard_edit_not_sent_witness:
  fixes N :: "('k, 's) script_engine"
  shows "edit_edited N E 1 (a\<lparr>la_edit_refs := [(1, \<lparr>r_id = 1, r_name = ''name'', ed_edited = [], ed_finished = []\<rparr>)]\<rparr>) =
    (Ok (), a\<lparr>la_edit_refs := [(1, \<lparr>r_id = 1, r_name = ''name'', ed_edited = [], ed_finished = []\<rparr>)]\<rparr>)"
  by (rule unheard_edit_not_sent [where r = "\<lparr>r_id = 1, r_name = ''name'', ed_edited = [], ed_finished = []\<rparr>"]) simp_all

section \<open>What other users send never ends an app\<close>

text \<open>An action that returns or throws, from any state.\<close>

definition returns :: "('s, 'a) action \<Rightarrow> bool" where
  "returns m \<longleftrightarrow> (\<forall>s. case fst (m s) of Ok _ \<Rightarrow> True | Throw _ \<Rightarrow> True | _ \<Rightarrow> False)"

named_theorems returns_intros "rules for actions that return or throw"

lemma returns_basic [returns_intros]:
  "returns (retA a)" "returns (getA g)" "returns (modA f)" "returns (liftA (Ok x))" "b \<Longrightarrow> returns (requireA b)"
  by (simp_all add: returns_def retA_def getA_def modA_def liftA_def requireA_def)

lemma returns_bind [returns_intros]:
  assumes "returns m" "\<And>x. returns (f x)"
  shows "returns (bindA m f)"
  unfolding returns_def
proof
  fix s
  show "case fst (bindA m f s) of Ok _ \<Rightarrow> True | Throw _ \<Rightarrow> True | _ \<Rightarrow> False"
  proof (cases "m s")
    case (Pair r s1)
    then show ?thesis using assms(1) assms(2) [unfolded returns_def, rule_format] unfolding returns_def [of m]
      by (cases r) (auto simp: bindA_def dest!: spec [of _ s])
  qed
qed

lemma returns_then [returns_intros]: "returns m \<Longrightarrow> returns k \<Longrightarrow> returns (thenA m k)"
  by (simp add: thenA_def returns_bind)

lemma returns_rethrow_if [returns_intros]: "returns m \<Longrightarrow> returns (rethrow_if p m)"
  unfolding returns_def rethrow_if_def by (auto split: prod.splits outcome.splits) (metis fst_conv outcome.simps)+

lemma returns_if [returns_intros]: "(b \<Longrightarrow> returns m) \<Longrightarrow> (\<not> b \<Longrightarrow> returns k) \<Longrightarrow> returns (if b then m else k)"
  by simp

lemma returns_option [returns_intros]: "returns m \<Longrightarrow> (\<And>a. c = Some a \<Longrightarrow> returns (k a)) \<Longrightarrow> returns (case c of None \<Rightarrow> m | Some a \<Rightarrow> k a)"
  by (cases c) auto

lemma returns_pair [returns_intros]: "(\<And>a b. returns (k a b)) \<Longrightarrow> returns (case p of (a, b) \<Rightarrow> k a b)"
  by (cases p) auto

text \<open>A guarded call does not even throw.\<close>

lemma guarded_ok:
  assumes "returns m"
  shows "\<exists>a1. guarded N t u l m a = (Ok (), a1)"
proof (cases "m a")
  case (Pair r a1)
  then show ?thesis using assms [unfolded returns_def, rule_format, of a]
    by (cases r) (auto simp: guarded_def Let_def report_error_def effect_def thenA_def modA_def bindA_def split: call_result.splits)
qed

lemma returns_ok: "(\<And>a. \<exists>a1. m a = (Ok (), a1)) \<Longrightarrow> returns m"
proof -
  assume *: "\<And>a. \<exists>a1. m a = (Ok (), a1)"
  show ?thesis unfolding returns_def
  proof
    fix a
    obtain a1 where "m a = (Ok (), a1)" using * [of a] ..
    then show "case fst (m a) of Ok _ \<Rightarrow> True | Throw _ \<Rightarrow> True | _ \<Rightarrow> False" by simp
  qed
qed

text \<open>An interpreter on which every function and every code ends.\<close>

definition scripts_end :: "('k, 's) script_engine \<Rightarrow> bool" where
  "scripts_end N \<longleftrightarrow> (\<forall>E c. returns (se_do N E c)) \<and> (\<forall>E f args. returns (se_call N E f args))"

lemma scripts_endD [returns_intros]: "scripts_end N \<Longrightarrow> returns (se_do N E c)" "scripts_end N \<Longrightarrow> returns (se_call N E f args)"
  by (simp_all add: scripts_end_def)

lemma value_throws [returns_intros]:
  "returns (liftA (as_string v))" "returns (liftA (as_int32 v))" "returns (liftA (as_dict v))" "returns (liftA (mouse_args d))" "returns (liftA (in_field d k as_int32))"
proof -
  have i: "\<exists>x. as_int32 v = Ok x \<or> as_int32 v = Throw RuntimeError" for v by (cases v) (auto simp: as_int32_def)
  have f: "\<exists>x. in_field d k as_int32 = Ok x \<or> in_field d k as_int32 = Throw RuntimeError" for d k unfolding in_field_def by (rule i)
  show "returns (liftA (as_string v))" "returns (liftA (as_dict v))" by (cases v; simp add: returns_def liftA_def)+
  show "returns (liftA (as_int32 v))" using i [of v] by (auto simp: returns_def liftA_def)
  show "returns (liftA (in_field d k as_int32))" using f [of d k] by (auto simp: returns_def liftA_def)
  show "returns (liftA (mouse_args d))"
    using f [of d "''b''"] f [of d "''x''"] f [of d "''y''"] by (auto simp: returns_def liftA_def mouse_args_def)
qed

lemma returns_effect [returns_intros]: "returns (effect e)" "returns (report_error t l)"
  by (auto simp: effect_def report_error_def intro!: returns_intros)

lemma returns_run [returns_intros]: "scripts_end N \<Longrightarrow> c \<noteq> [] \<Longrightarrow> returns (run_code N E c b)"
  unfolding run_code_def execute_def by (auto intro!: returns_intros split: do_result.splits)

lemma returns_mouse [returns_intros]:
  assumes "scripts_end N"
  shows "returns (mouse_pressed N E r b x y)" "returns (mouse_released N E r b x y)" "returns (mouse_dragged N E r b x y)" "returns (mouse_moved N E r x y)"
  unfolding mouse_pressed_def mouse_released_def mouse_dragged_def mouse_moved_def call_if_def
  by (rule returns_ok, rule guarded_ok, use assms in \<open>auto intro!: returns_intros\<close>)+

lemma returns_handle [returns_intros]: "scripts_end N \<Longrightarrow> returns (observable_handle N E k i t v)"
  unfolding observable_handle_def button_handle_def dropdown_handle_def edit_handle_def text_edit_handle_def draw_handle_def Let_def
  by (cases k) (auto intro!: returns_intros)

text \<open>
  C34. Whatever message or event another user sends to an app, with whatever values in it, and whoever joins or quits: if the functions of the script end, the api
  goes on, with an error reported at most.
\<close>

theorem peer_input_survived:
  assumes "scripts_end N" "cl_ok (lu_contacts (ae_user E))" "[] \<notin> ui_id ` set (cl_list (lu_contacts (ae_user E)))"
  shows "(\<exists>a1. message_received N E s a = (Ok (), a1)) \<and> (\<exists>a1. event_received N E e a = (Ok (), a1)) \<and>
    (\<exists>a1. api_contact_joined N E i a = (Ok (), a1)) \<and> (\<exists>a1. api_contact_quit N E i a = (Ok (), a1))"
proof -
  have c: "returns (contact_event N E i f)" for f :: "'b lua_api \<Rightarrow> string"
  proof -
    define c where "c = find (\<lambda>u. ui_id u = i) (cl_list (lu_contacts (ae_user E)))"
    have c: "cl_by_id i (lu_contacts (ae_user E)) = Ok c" unfolding c_def by (rule cl_by_id_spec [OF assms(2)])
    have u: "ui_id u \<noteq> []" if "c = Some u" for u
      using that assms(3) unfolding c_def find_Some_iff by (metis image_eqI nth_mem)
    have eq: "bindA (liftA (Ok c)) g = g c" for g :: "_ \<Rightarrow> ('b, call_result) api_action" by (rule ext) simp
    show ?thesis unfolding contact_event_def c eq call_if_def using assms(1) u by (intro returns_intros)
  qed
  have m: "returns (bindA (getA (callback_for s)) (\<lambda>f. call_if N E f [AMessage s]))"
    unfolding call_if_def using assms(1) by (intro returns_intros)
  have e: "returns (bindA (getA (\<lambda>a. map_of (la_observable_names a) (em_obj e))) (\<lambda>io. case io of None \<Rightarrow> retA Called
      | Some i \<Rightarrow> bindA (getA (get_observable i)) (\<lambda>ko. case ko of None \<Rightarrow> retA Called | Some k \<Rightarrow> observable_handle N E k i (em_type e) (em_v e))))"
    using assms(1) by (intro returns_intros)
  show ?thesis
    unfolding message_received_def event_received_def api_contact_joined_def api_contact_quit_def
    using guarded_ok [OF m] guarded_ok [OF e] guarded_ok [OF c] by blast
qed

theorem peer_input_survived_witness:
  "\<exists>a1. event_received (sample_engine\<lparr>se_do := \<lambda>_ _. retA DoOk\<rparr>) sample_api_env \<lparr>em_obj = ''name'', em_type = ''e'', em_v = VBool True\<rparr> sample_app = (Ok (), a1)"
proof -
  have "scripts_end (sample_engine\<lparr>se_do := \<lambda>_ _. retA DoOk\<rparr> :: (nat, calls) script_engine)"
    by (auto simp: scripts_end_def sample_engine_def intro!: returns_intros)
  moreover have "cl_ok (lu_contacts (ae_user sample_api_env))" by (auto simp: sample_api_env_def sample_user_def sample_info_def cl_ok_def)
  moreover have "[] \<notin> ui_id ` set (cl_list (lu_contacts (ae_user sample_api_env)))" by (simp add: sample_api_env_def sample_user_def sample_info_def)
  ultimately show ?thesis using peer_input_survived by blast
qed

section \<open>Where messages go\<close>

text \<open>A message as the sender of \<open>i\<close> can make it: the fields of a local app are only fields.\<close>

definition forged :: "string \<Rightarrow> message \<Rightarrow> message" where
  "forged app m = m\<lparr>m_meta := (m_meta m)\<lparr>mt_source := remote, mt_extra := dict_put ''local_app_id'' (VBytes app) (mt_extra (m_meta m))\<rparr>\<rparr>"

lemma forged_received:
  assumes "lexical_cast L" "wf_value L (VDict (sm_v s))"
  shows "script_from_message L (forged app (sent_by i (script_to_message L s))) = Ok (s\<lparr>sm_from_id := i, sm_local_app_id := app, sm_robust := True\<rparr>)"
  using decode_to_dict_encode [OF assms]
  by (simp add: script_from_message_def script_to_message_def forged_def sent_by_def msg_extra_def dict_get_def dict_put_def dict_has_def alist_has_def value_of_string_def to_bytes_def
      to_str_def del: alist_has_iff)

text \<open>
  A message of another user that carries the id of an app goes to the function for messages of local apps, comes from that app and from no contact as far as the
  script can see.
\<close>

theorem forged_message_is_local:
  assumes "lexical_cast L" "wf_value L (VDict (sm_v s))" "app \<noteq> []" "sm_type s = []" "la_local_message_callback a = f" "f \<noteq> []"
    and "cl_ok cs" "i \<in> ui_id ` set (cl_list cs)"
  shows "is_remote (forged app (sent_by i (script_to_message L s))) \<and>
    (\<exists>m. script_from_message L (forged app (sent_by i (script_to_message L s))) = Ok m \<and>
       message_received N E m a = guarded N ''error in message_received: '' ''error in message_received: unknown'' True (se_call N E f [AMessage m]) a \<and>
       sm_app m = app \<and> sm_from cs m = Ok ''0'')"
proof -
  let ?m = "s\<lparr>sm_from_id := i, sm_local_app_id := app, sm_robust := True\<rparr>"
  have "callback_for ?m a = f" using assms(3-6) by (simp add: callback_for_def sm_is_local_def)
  then have "message_received N E ?m a = guarded N ''error in message_received: '' ''error in message_received: unknown'' True (se_call N E f [AMessage ?m]) a"
    using assms(6) by (simp add: message_received_def call_if_def guarded_def)
  moreover have "sm_from cs ?m = Ok ''0''" using assms(3) cl_by_id_spec [OF assms(7)] by (auto simp: sm_from_def sm_is_local_def split: option.splits)
  ultimately show ?thesis
    using assms(3) forged_received [OF assms(1, 2)] by (auto simp: forged_def is_remote_def sm_app_def sm_is_local_def)
qed

theorem forged_message_is_local_witness:
  "is_remote (forged ''app2'' (sent_by ''you'' (script_to_message decimal_lib script_new))) \<and>
    (\<exists>m. script_from_message decimal_lib (forged ''app2'' (sent_by ''you'' (script_to_message decimal_lib script_new))) = Ok m \<and> sm_app m = ''app2'')"
proof -
  have "cl_ok (indexed [sample_info 1 ''you''])" by (rule indexed_ok) simp
  moreover have "''you'' \<in> ui_id ` set (cl_list (indexed [sample_info 1 ''you'']))" by (simp add: indexed_def sample_info_def)
  ultimately show ?thesis
    using forged_message_is_local [OF dec.lexical_cast_axioms, of script_new "''app2''" "sample_app\<lparr>la_local_message_callback := ''f''\<rparr>" "''f''"]
    by (fastforce simp: script_new_def)
qed

text \<open>A reset gives the script new variables but leaves its functions registered, and all widgets but those of seven kinds.\<close>

lemma reset_keeps_callbacks:
  assumes "api_reset N a = (Ok (), b)"
  shows "la_script b = se_new N \<and> callback_for m b = callback_for m a \<and> la_label_refs b = la_label_refs a \<and> la_dropdown_refs b = la_dropdown_refs a \<and>
    la_draw_refs b = la_draw_refs a \<and> la_mic_refs b = la_mic_refs a \<and> la_contact_joined_callback b = la_contact_joined_callback a"
  using assms by (auto simp: api_reset_def reset_refs_def modA_def callback_for_def Let_def)

text \<open>After the user who started an app has left the conversation, an app that asks who started it ends the process.\<close>

lemma who_started_exits:
  assumes "cl_ok (cv_contacts (ae_conv E))" "la_who_started_id a \<notin> ui_id ` set (cl_list (cv_contacts (ae_conv E)))" "\<not> ae_launched_local E"
  shows "who_started E a = (Exit, a)"
proof -
  have "find (\<lambda>u. ui_id u = la_who_started_id a) (cl_list (cv_contacts (ae_conv E))) = None" using assms(2) unfolding find_None_iff by (metis image_eqI)
  then show ?thesis using assms(3) cl_by_id_spec [OF assms(1)] by (simp add: who_started_def liftA_def)
qed

text \<open>Code that is empty ends the process as well: the check is in \<^verbatim>\<open>run\<close>, and an app that was received may have none.\<close>

lemma empty_code_exits: "run_code N E [] b a = (Exit, a)"
  by (simp add: run_code_def)

end
