(* ===== verification/Backend_Client.thy ===== *)
theory Backend_Client
  imports Lua_Script
begin

text \<open>
  The thread of an app, \<^verbatim>\<open>src/src/gui/lua/backend_client.cpp\<close>: what the interface has to tell the script it puts as a message into the app's own inbox, and the
  service thread takes the messages of the interface and of the other users from there, one after the other, and calls the api.  Also how \<^verbatim>\<open>script_app\<close>
  (\<^verbatim>\<open>src/src/gui/app/script_app.cpp\<close>) starts an app.
\<close>

section \<open>Messages of the interface\<close>

definition RUN_CODE :: string where "RUN_CODE = ''r_c''"
definition BUTTON_CLICKED :: string where "BUTTON_CLICKED = ''b_c''"
definition DROPDOWN_SELECTED :: string where "DROPDOWN_SELECTED = ''n_s''"
definition EDIT_EDITED :: string where "EDIT_EDITED = ''e_e''"
definition EDIT_FINISHED :: string where "EDIT_FINISHED = ''e_f''"
definition TEXT_EDIT_EDITED :: string where "TEXT_EDIT_EDITED = ''t_e''"
definition TIMER_TRIGGERED :: string where "TIMER_TRIGGERED = ''t_t''"
definition GOT_SOUND :: string where "GOT_SOUND = ''g_s''"
definition DRAW_MOUSE_PRESSED :: string where "DRAW_MOUSE_PRESSED = ''d_p''"
definition DRAW_MOUSE_RELEASED :: string where "DRAW_MOUSE_RELEASED = ''d_r''"
definition DRAW_MOUSE_DRAGGED :: string where "DRAW_MOUSE_DRAGGED = ''d_d''"
definition DRAW_MOUSE_MOVED :: string where "DRAW_MOUSE_MOVED = ''d_m''"
definition CONTACT_QUIT :: string where "CONTACT_QUIT = ''c_q''"
definition CONTACT_JOINED :: string where "CONTACT_JOINED = ''c_j''"
definition RESET_BACKEND :: string where "RESET_BACKEND = ''r_b''"

text \<open>One constructor for each method of \<^verbatim>\<open>backend_client\<close> that puts a message into the inbox, with its arguments.\<close>

datatype ui_event = Run_Code string | Reset | Button_Clicked ref_id | Dropdown_Selected ref_id u32 | Edit_Edited ref_id | Edit_Finished ref_id | Text_Edit_Edited ref_id
  | Timer_Triggered ref_id | Got_Sound ref_id bytes | Mouse_Pressed ref_id u32 u32 u32 | Mouse_Released ref_id u32 u32 u32 | Mouse_Dragged ref_id u32 u32 u32
  | Mouse_Moved ref_id u32 u32 | Contact_Quit string

text \<open>The structures: the type of the message, and what \<^verbatim>\<open>f_s\<close> and \<^verbatim>\<open>f_sk\<close> write.\<close>

definition id_dict :: "ref_id \<Rightarrow> dict" where
  "id_dict i = dict_put ''id'' (VSize i) []"

definition click_dict :: "ref_id \<Rightarrow> u32 \<Rightarrow> u32 \<Rightarrow> u32 \<Rightarrow> dict" where
  "click_dict i b x y = dict_put ''y'' (value_of_int y) (dict_put ''x'' (value_of_int x) (dict_put ''b'' (value_of_int b) (id_dict i)))"

fun ui_structure :: "ui_event \<Rightarrow> string \<times> dict" where
  "ui_structure (Run_Code c) = (RUN_CODE, dict_put ''code'' (value_of_string c) [])"
| "ui_structure Reset = (RESET_BACKEND, [])"
| "ui_structure (Button_Clicked i) = (BUTTON_CLICKED, id_dict i)"
| "ui_structure (Dropdown_Selected i k) = (DROPDOWN_SELECTED, dict_put ''item'' (value_of_int k) (id_dict i))"
| "ui_structure (Edit_Edited i) = (EDIT_EDITED, id_dict i)"
| "ui_structure (Edit_Finished i) = (EDIT_FINISHED, id_dict i)"
| "ui_structure (Text_Edit_Edited i) = (TEXT_EDIT_EDITED, id_dict i)"
| "ui_structure (Timer_Triggered i) = (TIMER_TRIGGERED, id_dict i)"
| "ui_structure (Got_Sound i d) = (GOT_SOUND, dict_put ''d'' (VBytes d) (id_dict i))"
| "ui_structure (Mouse_Pressed i b x y) = (DRAW_MOUSE_PRESSED, click_dict i b x y)"
| "ui_structure (Mouse_Released i b x y) = (DRAW_MOUSE_RELEASED, click_dict i b x y)"
| "ui_structure (Mouse_Dragged i b x y) = (DRAW_MOUSE_DRAGGED, click_dict i b x y)"
| "ui_structure (Mouse_Moved i x y) = (DRAW_MOUSE_MOVED, dict_put ''y'' (value_of_int y) (dict_put ''x'' (value_of_int x) (id_dict i)))"
| "ui_structure (Contact_Quit u) = (CONTACT_QUIT, dict_put ''id'' (value_of_string u) [])"

definition backend_push :: "cxx_lib \<Rightarrow> ui_event \<Rightarrow> ('s, unit) api_action" where
  "backend_push L ev =
     (let (type, d) = ui_structure ev in
      bindA (liftA (to_message L type as_message_default d)) (\<lambda>m.
        partA la_mail (\<lambda>b a. a\<lparr>la_mail := b\<rparr>) (\<lambda>b. bindO (push_inbox m b) (\<lambda>b. Ok ((), b)))))"

section \<open>Handlers\<close>

text \<open>The handlers of the interface's messages ignore messages of other users.\<close>

definition on_local :: "cxx_lib \<Rightarrow> string \<Rightarrow> (dict \<Rightarrow> ('s, unit) api_action) \<Rightarrow> message \<Rightarrow> ('s, unit) api_action" where
  "on_local L type k m = (if \<not> is_local m then retA () else bindA (liftA (from_message L type m)) (\<lambda>(_, d). k d))"

definition with_id :: "dict \<Rightarrow> (ref_id \<Rightarrow> ('s, unit) api_action) \<Rightarrow> ('s, unit) api_action" where
  "with_id d k = bindA (liftA (in_field d ''id'' as_size)) k"

definition with_int :: "dict \<Rightarrow> string \<Rightarrow> (u32 \<Rightarrow> ('s, unit) api_action) \<Rightarrow> ('s, unit) api_action" where
  "with_int d f k = bindA (liftA (in_field d f as_int32)) k"

definition with_click :: "dict \<Rightarrow> (ref_id \<Rightarrow> u32 \<Rightarrow> u32 \<Rightarrow> u32 \<Rightarrow> ('s, unit) api_action) \<Rightarrow> ('s, unit) api_action" where
  "with_click d k = with_id d (\<lambda>i. with_int d ''b'' (\<lambda>b. with_int d ''x'' (\<lambda>x. with_int d ''y'' (\<lambda>y. k i b x y))))"

definition send_contact_joined :: "'k api_env \<Rightarrow> ('s, unit) api_action" where
  "send_contact_joined E =
     bindA (liftA (to_message (ae_cxx E) CONTACT_JOINED as_message_default [])) (\<lambda>m. forA (\<lambda>c. api_send E (ui_id c) m) (cl_list (cv_contacts (ae_conv E))))"

definition received_contact_joined :: "('k, 's) script_engine \<Rightarrow> 'k api_env \<Rightarrow> message \<Rightarrow> ('s, unit) api_action" where
  "received_contact_joined N E m =
     thenA (requireA (mt_type (m_meta m) = CONTACT_JOINED))
    (thenA (liftA (expect_remote m))
    (thenA (liftA (expect_symmetric m))
       (bindA (liftA (from_message (ae_cxx E) CONTACT_JOINED m)) (\<lambda>(j, _). api_contact_joined N E (am_from_id j)))))"

definition received_script_message :: "('k, 's) script_engine \<Rightarrow> 'k api_env \<Rightarrow> message \<Rightarrow> ('s, unit) api_action" where
  "received_script_message N E m =
     thenA (requireA (mt_type (m_meta m) = SCRIPT_MESSAGE)) (bindA (liftA (script_from_message (ae_cxx E) m)) (message_received N E))"

definition received_event_message :: "('k, 's) script_engine \<Rightarrow> 'k api_env \<Rightarrow> message \<Rightarrow> ('s, unit) api_action" where
  "received_event_message N E m =
     thenA (requireA (mt_type (m_meta m) = EVENT_MESSAGE)) (bindA (liftA (event_from_message (ae_cxx E) m)) (event_received N E))"

definition run_and_join :: "('k, 's) script_engine \<Rightarrow> 'k api_env \<Rightarrow> string \<Rightarrow> ('s, unit) api_action" where
  "run_and_join N E code = thenA (run_code N E code True) (send_contact_joined E)"

definition received_reset :: "('k, 's) script_engine \<Rightarrow> message \<Rightarrow> ('s, unit) api_action" where
  "received_reset N m = (if \<not> is_local m then retA () else api_reset N)"

definition backend_handlers :: "('k, 's) script_engine \<Rightarrow> 'k api_env \<Rightarrow> (string \<times> (message \<Rightarrow> ('s, unit) api_action)) list" where
  "backend_handlers N E =
     (let L = ae_cxx E; on = (\<lambda>t k. (t, on_local L t k)) in
      [(CONTACT_JOINED, received_contact_joined N E), (SCRIPT_MESSAGE, received_script_message N E), (EVENT_MESSAGE, received_event_message N E),
       on RUN_CODE (\<lambda>d. bindA (liftA (in_field d ''code'' as_string)) (run_and_join N E)),
       (RESET_BACKEND, received_reset N),
       on BUTTON_CLICKED (\<lambda>d. with_id d (button_clicked N E)),
       on DROPDOWN_SELECTED (\<lambda>d. with_id d (\<lambda>i. with_int d ''item'' (dropdown_selected N E i))),
       on EDIT_EDITED (\<lambda>d. with_id d (edit_edited N E)),
       on EDIT_FINISHED (\<lambda>d. with_id d (edit_finished N E)),
       on TEXT_EDIT_EDITED (\<lambda>d. with_id d (text_edit_edited N E)),
       on TIMER_TRIGGERED (\<lambda>d. with_id d (timer_triggered N E)),
       on GOT_SOUND (\<lambda>d. with_id d (\<lambda>i. bindA (liftA (in_field d ''d'' as_bytes)) (got_sound N E i))),
       on DRAW_MOUSE_PRESSED (\<lambda>d. with_click d (draw_mouse_pressed N E)),
       on DRAW_MOUSE_RELEASED (\<lambda>d. with_click d (draw_mouse_released N E)),
       on DRAW_MOUSE_DRAGGED (\<lambda>d. with_click d (draw_mouse_dragged N E)),
       on DRAW_MOUSE_MOVED (\<lambda>d. with_id d (\<lambda>i. with_int d ''x'' (\<lambda>x. with_int d ''y'' (draw_mouse_moved N E i x)))),
       on CONTACT_QUIT (\<lambda>d. bindA (liftA (in_field d ''id'' as_string)) (api_contact_quit N E))])"

text \<open>A turn of the thread: the next message of the inbox, if there is one.\<close>

definition backend_turn :: "('k, 's) script_engine \<Rightarrow> 'k api_env \<Rightarrow> ('s, unit) api_action" where
  "backend_turn N E a =
     (case pop_inbox False (la_mail a) of
        (Got m, b) \<Rightarrow> service_turn (backend_handlers N E) m (a\<lparr>la_mail := b\<rparr>)
      | (_, b) \<Rightarrow> (Ok (), a\<lparr>la_mail := b\<rparr>))"

section \<open>Starting an app\<close>

text \<open>The app's mailbox has its id as address and exists before the start; then the api is made, and the code of the app is the first thing the thread gets to do.\<close>

definition script_app_mail :: "string \<Rightarrow> mailbox outcome" where
  "script_app_mail i = contract (i \<noteq> []) (Ok (mailbox_new i))"

definition script_app_start :: "('k, 's) script_engine \<Rightarrow> cxx_lib \<Rightarrow> mailbox \<Rightarrow> string \<Rightarrow> string \<Rightarrow> unit outcome \<times> 's lua_api" where
  "script_app_start N L mail from_id code = backend_push L (Run_Code code) (lua_api_new N mail from_id)"

section \<open>The thread does what the interface asks\<close>

text \<open>The call of the api that an event of the interface stands for.\<close>

fun ui_call :: "('k, 's) script_engine \<Rightarrow> 'k api_env \<Rightarrow> ui_event \<Rightarrow> ('s, unit) api_action" where
  "ui_call N E (Run_Code c) = run_and_join N E c"
| "ui_call N E Reset = api_reset N"
| "ui_call N E (Button_Clicked i) = button_clicked N E i"
| "ui_call N E (Dropdown_Selected i k) = dropdown_selected N E i k"
| "ui_call N E (Edit_Edited i) = edit_edited N E i"
| "ui_call N E (Edit_Finished i) = edit_finished N E i"
| "ui_call N E (Text_Edit_Edited i) = text_edit_edited N E i"
| "ui_call N E (Timer_Triggered i) = timer_triggered N E i"
| "ui_call N E (Got_Sound i d) = got_sound N E i d"
| "ui_call N E (Mouse_Pressed i b x y) = draw_mouse_pressed N E i b x y"
| "ui_call N E (Mouse_Released i b x y) = draw_mouse_released N E i b x y"
| "ui_call N E (Mouse_Dragged i b x y) = draw_mouse_dragged N E i b x y"
| "ui_call N E (Mouse_Moved i x y) = draw_mouse_moved N E i x y"
| "ui_call N E (Contact_Quit u) = api_contact_quit N E u"

lemmas type_defs = RUN_CODE_def BUTTON_CLICKED_def DROPDOWN_SELECTED_def EDIT_EDITED_def EDIT_FINISHED_def TEXT_EDIT_EDITED_def TIMER_TRIGGERED_def GOT_SOUND_def
  DRAW_MOUSE_PRESSED_def DRAW_MOUSE_RELEASED_def DRAW_MOUSE_DRAGGED_def DRAW_MOUSE_MOVED_def CONTACT_QUIT_def CONTACT_JOINED_def RESET_BACKEND_def SCRIPT_MESSAGE_def EVENT_MESSAGE_def

lemma lift_Ok [simp]: "bindA (liftA (Ok x)) f = f x"
  by (rule ext) simp

lemma cut_int: "ucast (scast (x :: u32) :: u64) = x"
  by (rule bit_word_eqI) (auto simp: bit_simps)

lemma int_field [simp]: "as_int32 (value_of_int x) = Ok x"
  by (simp add: as_int32_def value_of_int_def cut_int)

lemma string_field [simp]: "as_string (value_of_string t) = Ok t"
  by (simp add: value_of_string_def to_bytes_def to_str_def)

lemmas field_defs = with_id_def with_int_def with_click_def in_field_def dict_ref_def dict_put_def id_dict_def click_dict_def

lemma ui_handler:
  assumes "from_message (ae_cxx E) (fst (ui_structure ev)) m = Ok (c, snd (ui_structure ev))" "is_local m"
  shows "\<exists>h. map_of (backend_handlers N E) (fst (ui_structure ev)) = Some h \<and> h m = ui_call N E ev"
  using assms by (cases ev) (simp_all add: backend_handlers_def Let_def type_defs on_local_def received_reset_def field_defs)

lemma ui_message:
  assumes "lexical_cast L" "wf_value L (VDict (snd (ui_structure ev)))"
  shows "\<exists>m. to_message L (fst (ui_structure ev)) as_message_default (snd (ui_structure ev)) = Ok m \<and> mt_type (m_meta m) = fst (ui_structure ev) \<and> is_local m \<and>
    from_message L (fst (ui_structure ev)) m = Ok (as_message_default, snd (ui_structure ev))"
proof -
  obtain m where m: "to_message L (fst (ui_structure ev)) as_message_default (snd (ui_structure ev)) = Ok m" by (simp add: to_message_def Let_def as_message_default_def)
  moreover have "mt_type (m_meta m) = fst (ui_structure ev)" "is_local m"
    using m by (auto simp: to_message_def Let_def as_message_default_def is_local_def message_default_def metadata_default_def)
  moreover have "from_message L (fst (ui_structure ev)) m = Ok (as_message_default, snd (ui_structure ev))"
    using lexical_cast.as_message_roundtrip [OF assms m] .
  ultimately show ?thesis by blast
qed

lemma pop_inbox_next: "inbox b = m # ms \<Longrightarrow> \<exists>b1. pop_inbox False b = (Got m, b1) \<and> inbox b1 = ms \<and> outbox b1 = outbox b"
  by (simp add: mailbox_defs queue_pop_def Let_def)

lemma ui_forward:
  assumes "lexical_cast (ae_cxx E)" "wf_value (ae_cxx E) (VDict (snd (ui_structure ev)))"
  shows "\<exists>m. (\<forall>a :: 's lua_api. \<exists>b. backend_push (ae_cxx E) ev a = (Ok (), a\<lparr>la_mail := b\<rparr>) \<and> inbox b = inbox (la_mail a) @ [m] \<and> outbox b = outbox (la_mail a)) \<and>
    (\<forall>(a :: 's lua_api) ms. inbox (la_mail a) = m # ms \<longrightarrow>
      (\<exists>b. backend_turn N E a = catchA (ui_call N E ev) (a\<lparr>la_mail := b\<rparr>) \<and> inbox b = ms \<and> outbox b = outbox (la_mail a)))"
proof -
  obtain m where m: "to_message (ae_cxx E) (fst (ui_structure ev)) as_message_default (snd (ui_structure ev)) = Ok m" "mt_type (m_meta m) = fst (ui_structure ev)" "is_local m"
    "from_message (ae_cxx E) (fst (ui_structure ev)) m = Ok (as_message_default, snd (ui_structure ev))"
    using ui_message [OF assms] by blast
  have "\<exists>b. backend_push (ae_cxx E) ev a = (Ok (), a\<lparr>la_mail := b\<rparr>) \<and> inbox b = inbox (la_mail a) @ [m] \<and> outbox b = outbox (la_mail a)" for a :: "'s lua_api"
  proof -
    obtain b where "push_inbox m (la_mail a) = Ok b" "inbox b = inbox (la_mail a) @ [m]" "outbox b = outbox (la_mail a)" using push_inbox_Ok by blast
    then show ?thesis using m(1) by (cases "ui_structure ev") (auto simp: backend_push_def partA_def intro!: exI [of _ b])
  qed
  moreover have "\<exists>b. backend_turn N E a = catchA (ui_call N E ev) (a\<lparr>la_mail := b\<rparr>) \<and> inbox b = ms \<and> outbox b = outbox (la_mail a)"
    if q: "inbox (la_mail a) = m # ms" for a :: "'s lua_api" and ms
  proof -
    obtain b where b: "pop_inbox False (la_mail a) = (Got m, b)" "inbox b = ms" "outbox b = outbox (la_mail a)"
      using pop_inbox_next [OF q] by blast
    obtain h where "map_of (backend_handlers N E) (mt_type (m_meta m)) = Some h" "h m = ui_call N E ev" using ui_handler [OF m(4, 3)] m(2) by auto
    then show ?thesis using b by (intro exI [of _ b]) (simp add: backend_turn_def service_turn_handler)
  qed
  ultimately show ?thesis by blast
qed

text \<open>
  C32. What the interface tells the backend goes to the end of the app's inbox, and when it is its turn the thread makes exactly the call of the api that was asked for,
  with the same arguments.
\<close>

theorem ui_event_forwarded:
  assumes "lexical_cast (ae_cxx E)" "wf_value (ae_cxx E) (VDict (snd (ui_structure ev)))"
  shows "\<exists>m. (\<forall>a :: 's lua_api. \<exists>b. backend_push (ae_cxx E) ev a = (Ok (), a\<lparr>la_mail := b\<rparr>) \<and> inbox b = inbox (la_mail a) @ [m] \<and> outbox b = outbox (la_mail a)) \<and>
    (\<forall>(a :: 's lua_api) ms. inbox (la_mail a) = m # ms \<longrightarrow>
      (\<exists>b. backend_turn N E a = catchA (ui_call N E ev) (a\<lparr>la_mail := b\<rparr>) \<and> inbox b = ms \<and> outbox b = outbox (la_mail a)))"
  using assms by (rule ui_forward)

text \<open>
  C33. Another user cannot act as the interface: a message that came from outside, of whatever type and content, changes nothing unless it is a message or an event
  for the script or says that its sender joined.
\<close>

theorem remote_cannot_drive_interface:
  assumes "is_remote m" "mt_type (m_meta m) \<notin> {SCRIPT_MESSAGE, EVENT_MESSAGE, CONTACT_JOINED}"
  shows "service_turn (backend_handlers N E) m a = (Ok (), a)"
proof -
  have l: "\<not> is_local m" using assms(1) by (simp add: is_local_def is_remote_def)
  show ?thesis
    using assms(2) l by (auto simp: service_turn_def service_handle_def backend_handlers_def on_local_def received_reset_def catchA_def Let_def retA_def)
qed

theorem ui_event_forwarded_witness:
  "\<exists>m. (\<forall>a :: calls lua_api. \<exists>b. backend_push decimal_lib (Edit_Edited 1) a = (Ok (), a\<lparr>la_mail := b\<rparr>) \<and> inbox b = inbox (la_mail a) @ [m]) \<and>
    (\<forall>(a :: calls lua_api). inbox (la_mail a) = [m] \<longrightarrow>
      (\<exists>b. backend_turn sample_engine sample_api_env a = catchA (edit_edited sample_engine sample_api_env 1) (a\<lparr>la_mail := b\<rparr>)))"
proof -
  have c: "ae_cxx sample_api_env = decimal_lib" by (simp add: sample_api_env_def)
  have w: "wf_value (ae_cxx sample_api_env) (VDict (snd (ui_structure (Edit_Edited 1))))" by (simp add: c id_dict_def dict_put_def decimal_lib_def)
  have x: "lexical_cast (ae_cxx sample_api_env)" unfolding c by (rule dec.lexical_cast_axioms)
  show ?thesis using ui_event_forwarded [OF x w, where 's = calls and N = sample_engine] unfolding c ui_call.simps by meson
qed

theorem remote_cannot_drive_interface_witness:
  "service_turn (backend_handlers sample_engine sample_api_env)
     (message_default\<lparr>m_meta := metadata_default\<lparr>mt_type := RUN_CODE, mt_source := remote\<rparr>, m_data := encode_value decimal_lib (VDict [(''code'', VBytes ''loop'')])\<rparr>) sample_app =
   (Ok (), sample_app)"
  by (rule remote_cannot_drive_interface) (simp_all add: is_remote_def type_defs)

text \<open>
  C35. An app without code ends the process: its first turn fails the check that code to run is not empty.  An app that another user sent may have none.
\<close>

theorem app_without_code_exits:
  assumes "lexical_cast (ae_cxx E)" "4 \<le> max_alloc (ae_cxx E)" "inbox mail = []" "script_app_start N (ae_cxx E) mail from_id [] = (r, a)"
  shows "fst (backend_turn N E a) = Exit"
proof -
  have w: "wf_value (ae_cxx E) (VDict (snd (ui_structure (Run_Code []))))" using assms(2) by (simp add: dict_put_def value_of_string_def to_bytes_def)
  have i: "inbox (la_mail (lua_api_new N mail from_id)) = []" using assms(3) by (simp add: lua_api_new_def)
  obtain m b where m: "backend_push (ae_cxx E) (Run_Code []) (lua_api_new N mail from_id) = (Ok (), (lua_api_new N mail from_id)\<lparr>la_mail := b\<rparr>)" "inbox b = [m]"
    and t: "\<And>a :: 'b lua_api. inbox (la_mail a) = [m] \<Longrightarrow> \<exists>c. backend_turn N E a = catchA (ui_call N E (Run_Code [])) (a\<lparr>la_mail := c\<rparr>)"
    using ui_forward [OF assms(1) w, where 's = 'b and N = N] i by force
  then have "inbox (la_mail a) = [m]" using assms(4) by (auto simp: script_app_start_def)
  then obtain c where "backend_turn N E a = catchA (ui_call N E (Run_Code [])) (a\<lparr>la_mail := c\<rparr>)" using t by blast
  then show ?thesis by (simp add: catchA_def run_and_join_def run_code_def)
qed

theorem app_without_code_exits_witness:
  "fst (backend_turn sample_engine sample_api_env (snd (script_app_start (sample_engine :: (nat, calls) script_engine) decimal_lib (mailbox_new ''app'') ''you'' []))) = Exit"
proof -
  have c: "ae_cxx sample_api_env = decimal_lib" "4 \<le> max_alloc decimal_lib" by (simp_all add: sample_api_env_def decimal_lib_def)
  have i: "inbox (mailbox_new ''app'') = []" by (simp add: mailbox_new_def umailbox_new_def queue_new_def)
  show ?thesis
    using app_without_code_exits [of sample_api_env "mailbox_new ''app''" sample_engine "''you''", unfolded c] dec.lexical_cast_axioms c(2) i by (metis prod.collapse)
qed

text \<open>Messages and events for the script are taken with any encryption, also with none, unlike the message of a user who joined.\<close>

lemma script_message_any_encryption:
  "received_script_message N E (m\<lparr>m_meta := (m_meta m)\<lparr>mt_encryption := x\<rparr>\<rparr>) = received_script_message N E m"
  "received_event_message N E (m\<lparr>m_meta := (m_meta m)\<lparr>mt_encryption := x\<rparr>\<rparr>) = received_event_message N E m"
  by (simp_all add: received_script_message_def received_event_message_def script_from_message_def event_from_message_def msg_extra_def)

text \<open>The turns of the thread are runs of the app, so the references stay in order.\<close>

context interpreter
begin

lemma keeps_on_local: "(\<And>d. keeps refs_ok (k d)) \<Longrightarrow> keeps refs_ok (on_local L t k m)"
  unfolding on_local_def by (intro keeps_intros)

lemma keeps_with: "(\<And>i. keeps refs_ok (f i)) \<Longrightarrow> keeps refs_ok (with_id d f)" "(\<And>x. keeps refs_ok (g x)) \<Longrightarrow> keeps refs_ok (with_int d n g)"
  unfolding with_id_def with_int_def by (intro keeps_intros; assumption)+

lemma keeps_received:
  "keeps refs_ok (received_reset N m)" "keeps refs_ok (received_contact_joined N E m)" "keeps refs_ok (received_script_message N E m)" "keeps refs_ok (received_event_message N E m)" "keeps refs_ok (run_and_join N E c)"
  unfolding received_reset_def received_contact_joined_def received_script_message_def received_event_message_def run_and_join_def send_contact_joined_def
  by (auto intro!: keeps_intros keeps_reset)

lemma keeps_turn: "keeps refs_ok (backend_turn N E)"
proof -
  have h: "keeps refs_ok (h m)" if "(t, h) \<in> set (backend_handlers N E)" for t h m
    using that keeps_reset keeps_received
    by (auto simp: backend_handlers_def Let_def with_click_def intro!: keeps_on_local keeps_with keeps_intros)
  have "keeps refs_ok (service_turn (backend_handlers N E) m)" for m by (rule keeps_service_turn [OF h])
  then show ?thesis unfolding keeps_def backend_turn_def by (auto split: prod.splits popped.splits)
qed

end

end
