(* ===== verification/Chat.thy ===== *)
theory Chat
  imports Conversation Vclock
begin

text \<open>
  The chat app, \<^verbatim>\<open>src/src/gui/app/chat.cpp\<close>: what it shows is a text to which it appends, and every text message carries the writer's version vector, by which
  a receiver recognises what it already has.  Also the thread that hands an app its mail (\<^verbatim>\<open>src/src/gui/mail_service.cpp\<close>).  Widgets are left out except for what is
  typed and what is shown.
\<close>

section \<open>Messages\<close>

definition CHAT :: string where "CHAT = ''CHAT_APP''"
definition MESSAGE :: string where "MESSAGE = ''m''"
definition JOINED :: string where "JOINED = ''j''"

record text_message =
  tx_from :: as_message
  tx_text :: string
  tx_clock :: "string tracked"
  tx_has_clock :: bool

definition text_fields :: "text_message \<Rightarrow> dict" where
  "text_fields t = dict_put ''c'' (VDict (tracked_to_dict (tx_clock t))) (dict_put ''t'' (value_of_string (tx_text t)) [])"

definition text_to_message :: "cxx_lib \<Rightarrow> text_message \<Rightarrow> message outcome" where
  "text_to_message L t = to_message L MESSAGE (tx_from t) (text_fields t)"

definition text_from_message :: "cxx_lib \<Rightarrow> message \<Rightarrow> text_message outcome" where
  "text_from_message L m =
     bindO (from_message L MESSAGE m) (\<lambda>(c, d).
     bindO (in_field d ''t'' as_string) (\<lambda>t.
       if \<not> dict_has d ''c'' then Ok \<lparr>tx_from = c, tx_text = t, tx_clock = tracked_new [], tx_has_clock = False\<rparr>
       else bindO (in_field d ''c'' as_dict) (\<lambda>cd. bindO (to_tracked_sclock cd) (\<lambda>k.
         Ok \<lparr>tx_from = c, tx_text = t, tx_clock = k, tx_has_clock = True\<rparr>))))"

section \<open>State\<close>

text \<open>
  \<open>ch_input\<close> is what the user has typed, \<open>ch_text\<close> the HTML that is shown, and \<open>ch_alerts\<close> counts the alerts.  What a call reads of the services is its
  environment: the local user, the contacts of the conversation, and the time.
\<close>

record chat_app =
  ch_id :: string
  ch_clock :: "string tracked"
  ch_mail :: mailbox
  ch_text :: string
  ch_input :: string
  ch_alerts :: nat

record 'k chat_env =
  ce_cxx :: cxx_lib
  ce_user :: "'k local_user"
  ce_contacts :: "'k contact_list"
  ce_now :: string

type_synonym 'a chat_action = "(chat_app, 'a) action"

definition chat_new :: "'k chat_env \<Rightarrow> string \<Rightarrow> chat_app" where
  "chat_new E i = \<lparr>ch_id = i, ch_clock = tracked_new (ui_id (lu_info (ce_user E))), ch_mail = mailbox_new i, ch_text = [], ch_input = [], ch_alerts = 0\<rparr>"

text \<open>The line goes through a C string, so it ends at the first zero.\<close>

definition c_str :: "string \<Rightarrow> string" where
  "c_str s = takeWhile (\<lambda>c. c \<noteq> CHR 0x00) s"

definition quoted :: "string \<Rightarrow> string" where
  "quoted s = CHR 39 # s @ [CHR 39]"

definition make_message_str :: "string \<Rightarrow> string \<Rightarrow> string \<Rightarrow> string \<Rightarrow> string" where
  "make_message_str now color name text =
     c_str (''<font color='' @ quoted ''gray'' @ ''>'' @ now @ ''</font> <b><font color='' @ quoted color @ ''>'' @ name @ ''</font></b>: '' @ text @ ''<br/>'')"

section \<open>Operations\<close>

definition chat_send_all :: "'k chat_env \<Rightarrow> message \<Rightarrow> unit chat_action" where
  "chat_send_all E m =
     forA (\<lambda>c. partA ch_mail (\<lambda>b s. s\<lparr>ch_mail := b\<rparr>) (\<lambda>b. bindO (sender_send (ce_user E) (ui_id c) m b) (\<lambda>(_, b1). Ok ((), b1))))
       (cl_list (ce_contacts E))"

definition chat_join :: "'k chat_env \<Rightarrow> unit chat_action" where
  "chat_join E = bindA (liftA (to_message (ce_cxx E) JOINED as_message_default [])) (chat_send_all E)"

definition add_text :: "string \<Rightarrow> unit chat_action" where
  "add_text q = modA (\<lambda>s. s\<lparr>ch_text := ch_text s @ q\<rparr>)"

definition chat_start :: "'k chat_env \<Rightarrow> unit chat_action" where
  "chat_start E = thenA (chat_join E) (add_text (make_message_str (ce_now E) ''red'' ''notice'' ''Chat Started''))"

definition send_message :: "'k chat_env \<Rightarrow> unit chat_action" where
  "send_message E =
     bindA (getA (\<lambda>s. trim (ch_input s))) (\<lambda>text. if text = [] then retA () else
       thenA (modA (\<lambda>s. s\<lparr>ch_input := []\<rparr>))
       (thenA (add_text (make_message_str (ce_now E) ''blue'' (ui_name (lu_info (ce_user E))) text))
       (thenA (modA (\<lambda>s. s\<lparr>ch_clock := tracked_incr (ch_clock s)\<rparr>))
       (bindA (getA ch_clock) (\<lambda>k.
        bindA (liftA (text_to_message (ce_cxx E) \<lparr>tx_from = as_message_default, tx_text = text, tx_clock = k, tx_has_clock = False\<rparr>)) (\<lambda>m.
        thenA (chat_send_all E m)
          (if cl_list (ce_contacts E) = [] then add_text (make_message_str (ce_now E) ''red'' ''notice'' ''nobody here...'') else retA ())))))))"

definition alerted :: "unit chat_action" where
  "alerted = modA (\<lambda>s. s\<lparr>ch_alerts := Suc (ch_alerts s)\<rparr>)"

definition contact_joined :: "'k chat_env \<Rightarrow> string \<Rightarrow> unit chat_action" where
  "contact_joined E i =
     thenA (requireA (i \<noteq> []))
     (bindA (liftA (cl_by_id i (ce_contacts E))) (\<lambda>co. case co of None \<Rightarrow> retA ()
      | Some c \<Rightarrow> add_text (make_message_str (ce_now E) ''red'' ''notice'' (ui_name c @ '' joined''))))"

definition contact_quit :: "'k chat_env \<Rightarrow> string \<Rightarrow> unit chat_action" where
  "contact_quit E i =
     thenA (requireA (i \<noteq> []))
     (bindA (liftA (cl_by_id i (lu_contacts (ce_user E)))) (\<lambda>co. case co of None \<Rightarrow> retA ()
      | Some c \<Rightarrow> add_text (make_message_str (ce_now E) ''red'' ''notice'' (ui_name c @ '' quit''))))"

text \<open>The clock decides whether a message is new: a message at or below the own clock was seen before, a new one is merged into it.\<close>

definition take_clock :: "text_message \<Rightarrow> bool chat_action" where
  "take_clock t =
     (if \<not> tx_has_clock t then retA True
      else bindA (getA ch_clock) (\<lambda>k. bindA (liftA (tracked_less_eq (tx_clock t) k)) (\<lambda>old. if old then retA False
        else bindA (liftA (tracked_merge k (tx_clock t))) (\<lambda>k1. thenA (modA (\<lambda>s. s\<lparr>ch_clock := k1\<rparr>)) (retA True)))))"

definition received_text :: "'k chat_env \<Rightarrow> message \<Rightarrow> unit chat_action" where
  "received_text E m =
     bindA (liftA (text_from_message (ce_cxx E) m)) (\<lambda>t.
     bindA (liftA (cl_by_id (am_from_id (tx_from t)) (ce_contacts E))) (\<lambda>co. case co of None \<Rightarrow> retA ()
      | Some c \<Rightarrow> bindA (take_clock t) (\<lambda>fresh. if \<not> fresh then retA ()
          else thenA (add_text (make_message_str (ce_now E) ''black'' (ui_name c) (tx_text t))) alerted)))"

definition chat_check_mail :: "'k chat_env \<Rightarrow> message \<Rightarrow> unit chat_action" where
  "chat_check_mail E m = catchA (
     thenA (liftA (if is_remote m then expect_symmetric m else expect_plaintext m))
       (if mt_type (m_meta m) = MESSAGE then received_text E m
        else if mt_type (m_meta m) = JOINED then bindA (liftA (from_message (ce_cxx E) JOINED m)) (\<lambda>(j, _). contact_joined E (am_from_id j))
        else retA ()))"

text \<open>A turn of the mail thread: the next message of the inbox is handed to the app.\<close>

definition mail_service_turn :: "('s \<Rightarrow> mailbox) \<Rightarrow> (mailbox \<Rightarrow> 's \<Rightarrow> 's) \<Rightarrow> (message \<Rightarrow> ('s, unit) action) \<Rightarrow> ('s, unit) action" where
  "mail_service_turn get put check s =
     (case pop_inbox True (get s) of (Got m, b) \<Rightarrow> check m (put b s) | (_, b) \<Rightarrow> (Ok (), put b s))"

definition chat_turn :: "'k chat_env \<Rightarrow> unit chat_action" where
  "chat_turn E = mail_service_turn ch_mail (\<lambda>b s. s\<lparr>ch_mail := b\<rparr>) (chat_check_mail E)"

section \<open>A conversation of chats\<close>

text \<open>
  The users of one chat, each with its app, and the letters that are on their way, which stay there: a letter may arrive late, in any order and any number of
  times.  What a user knows is kept beside the clocks: what it wrote, what it heard, and what the writer of a message it heard knew when writing.  A message
  is named by its author and its number.
\<close>

type_synonym msg_name = "string \<times> nat"

record sent =
  sn_name :: msg_name
  sn_text :: string
  sn_clock :: "string tracked"
  sn_letter :: message

record chat_net =
  nt_apps :: "string \<Rightarrow> chat_app"
  nt_sent :: "sent list"
  nt_known :: "string \<Rightarrow> msg_name set"
  nt_past :: "msg_name \<Rightarrow> msg_name set"
  nt_count :: "string \<Rightarrow> nat"

abbreviation sn_author :: "sent \<Rightarrow> string" where "sn_author x \<equiv> fst (sn_name x)"

definition net_start :: "(string \<Rightarrow> 'k chat_env) \<Rightarrow> string \<Rightarrow> chat_net" where
  "net_start E i = \<lparr>nt_apps = (\<lambda>u. chat_new (E u) i), nt_sent = [], nt_known = (\<lambda>_. {}), nt_past = (\<lambda>_. {}), nt_count = (\<lambda>_. 0)\<rparr>"

definition arrived :: "message \<Rightarrow> message" where
  "arrived m = m\<lparr>m_meta := (m_meta m)\<lparr>mt_source := remote, mt_encryption := symmetric\<rparr>\<rparr>"

definition wrote :: "string \<Rightarrow> string \<Rightarrow> chat_app \<Rightarrow> chat_net \<Rightarrow> chat_net" where
  "wrote i text a N =
     (let name = (i, Suc (nt_count N i)); known = insert name (nt_known N i);
          letters = drop (length (outbox (ch_mail (nt_apps N i)))) (outbox (ch_mail a))
      in N\<lparr>nt_apps := (nt_apps N)(i := a), nt_count := (nt_count N)(i := snd name), nt_known := (nt_known N)(i := known), nt_past := (nt_past N)(name := known),
           nt_sent := nt_sent N @ map (\<lambda>m. \<lparr>sn_name = name, sn_text = trim text, sn_clock = ch_clock a, sn_letter = m\<rparr>) letters\<rparr>)"

definition heard :: "string \<Rightarrow> sent \<Rightarrow> chat_app \<Rightarrow> chat_net \<Rightarrow> chat_net" where
  "heard j x a N = N\<lparr>nt_apps := (nt_apps N)(j := a), nt_known := (nt_known N)(j := nt_known N j \<union> nt_past N (sn_name x))\<rparr>"

text \<open>The counters have 64 bits and are compared as signed numbers; nobody writes so many messages.\<close>

inductive net_step :: "string set \<Rightarrow> (string \<Rightarrow> 'k chat_env) \<Rightarrow> chat_net \<Rightarrow> chat_net \<Rightarrow> bool" for U E where
  Write: "i \<in> U \<Longrightarrow> trim text \<noteq> [] \<Longrightarrow> length (trim text) \<le> max_alloc (ce_cxx (E i)) \<Longrightarrow> nt_count N i + 2 < 2 ^ 63 \<Longrightarrow>
     send_message ((E i)\<lparr>ce_now := now\<rparr>) ((nt_apps N i)\<lparr>ch_input := text\<rparr>) = (Ok (), a) \<Longrightarrow> net_step U E N (wrote i text a N)"
| Hear: "j \<in> U \<Longrightarrow> x \<in> set (nt_sent N) \<Longrightarrow> cl_by_id (sn_author x) (ce_contacts (E j)) = Ok (Some c) \<Longrightarrow>
     chat_check_mail ((E j)\<lparr>ce_now := now\<rparr>) (arrived (sn_letter x)) (nt_apps N j) = (Ok (), a) \<Longrightarrow> net_step U E N (heard j x a N)"

inductive net_reach :: "string set \<Rightarrow> (string \<Rightarrow> 'k chat_env) \<Rightarrow> string \<Rightarrow> chat_net \<Rightarrow> bool" for U E i where
  Start: "net_reach U E i (net_start E i)"
| Next: "net_reach U E i N \<Longrightarrow> net_step U E N N' \<Longrightarrow> net_reach U E i N'"

section \<open>Letters\<close>

definition letter_to :: "'k local_user \<Rightarrow> string \<Rightarrow> message \<Rightarrow> 'k user_info \<Rightarrow> message" where
  "letter_to lu a m c = m\<lparr>m_meta := (m_meta m)\<lparr>mt_to := [ui_address c, a], mt_extra := dict_put ''from_id'' (value_of_string (ui_id (lu_info lu))) (mt_extra (m_meta m))\<rparr>\<rparr>"

lemma push_outbox_Ok: "\<exists>b'. push_outbox m b = Ok b' \<and> outbox b' = outbox b @ [m] \<and> inbox b' = inbox b \<and> mailbox_address b' = mailbox_address b"
  by (auto simp: mailbox_defs queue_simps Let_def)

lemma cl_by_id_total: "cl_ok l \<Longrightarrow> \<exists>co. cl_by_id i l = Ok co"
  by (auto simp: cl_by_id_def cl_ok_def split: option.splits)

lemma sender_send_ends:
  assumes "cl_ok (lu_contacts lu)"
  shows "\<exists>r b. sender_send lu u m mail = Ok (r, b) \<and> (\<exists>ls. outbox b = outbox mail @ ls \<and> set ls \<subseteq> range (letter_to lu (mailbox_address mail) m)) \<and>
    inbox b = inbox mail \<and> mailbox_address b = mailbox_address mail"
proof -
  obtain co where co: "cl_by_id u (lu_contacts lu) = Ok co" using cl_by_id_total [OF assms] by blast
  show ?thesis
  proof (cases co)
    case None
    then show ?thesis using co by (auto simp: sender_send_def)
  next
    case (Some c)
    obtain b where "push_outbox (letter_to lu (mailbox_address mail) m c) mail = Ok b" "outbox b = outbox mail @ [letter_to lu (mailbox_address mail) m c]" "inbox b = inbox mail"
      "mailbox_address b = mailbox_address mail"
      using push_outbox_Ok by blast
    then show ?thesis using co Some by (auto simp: sender_send_def letter_to_def)
  qed
qed

lemma chat_send_all_ends:
  assumes "cl_ok (lu_contacts (ce_user E))"
  shows "\<exists>b ls. chat_send_all E m s = (Ok (), s\<lparr>ch_mail := b\<rparr>) \<and> outbox b = outbox (ch_mail s) @ ls \<and>
    set ls \<subseteq> range (letter_to (ce_user E) (mailbox_address (ch_mail s)) m) \<and> inbox b = inbox (ch_mail s) \<and> mailbox_address b = mailbox_address (ch_mail s)"
proof -
  have "\<exists>b ls. forA (\<lambda>c. partA ch_mail (\<lambda>b s. s\<lparr>ch_mail := b\<rparr>) (\<lambda>b. bindO (sender_send (ce_user E) (ui_id c) m b) (\<lambda>(_, b1). Ok ((), b1)))) cs s = (Ok (), s\<lparr>ch_mail := b\<rparr>) \<and>
    outbox b = outbox (ch_mail s) @ ls \<and> set ls \<subseteq> range (letter_to (ce_user E) (mailbox_address (ch_mail s)) m) \<and> inbox b = inbox (ch_mail s) \<and> mailbox_address b = mailbox_address (ch_mail s)" for cs
  proof (induction cs arbitrary: s)
    case Nil
    show ?case by (intro exI [of _ "ch_mail s"] exI [of _ "[]"]) (simp add: retA_def)
  next
    case (Cons c cs)
    obtain r b ls where b: "sender_send (ce_user E) (ui_id c) m (ch_mail s) = Ok (r, b)" "outbox b = outbox (ch_mail s) @ ls"
      "set ls \<subseteq> range (letter_to (ce_user E) (mailbox_address (ch_mail s)) m)" "inbox b = inbox (ch_mail s)" "mailbox_address b = mailbox_address (ch_mail s)"
      using sender_send_ends [OF assms] by meson
    obtain b1 ls1 where b1: "forA (\<lambda>c. partA ch_mail (\<lambda>b s. s\<lparr>ch_mail := b\<rparr>) (\<lambda>b. bindO (sender_send (ce_user E) (ui_id c) m b) (\<lambda>(_, b1). Ok ((), b1)))) cs (s\<lparr>ch_mail := b\<rparr>) = (Ok (), s\<lparr>ch_mail := b1\<rparr>)"
      "outbox b1 = outbox b @ ls1" "set ls1 \<subseteq> range (letter_to (ce_user E) (mailbox_address b) m)" "inbox b1 = inbox b" "mailbox_address b1 = mailbox_address b"
      using Cons.IH [of "s\<lparr>ch_mail := b\<rparr>"] by auto
    let ?one = "\<lambda>c. partA ch_mail (\<lambda>b s. s\<lparr>ch_mail := b\<rparr>) (\<lambda>b. bindO (sender_send (ce_user E) (ui_id c) m b) (\<lambda>(_, b1). Ok ((), b1)))"
    have "?one c s = (Ok (), s\<lparr>ch_mail := b\<rparr>)" using b(1) by (simp add: partA_def)
    then have "forA ?one (c # cs) s = (Ok (), s\<lparr>ch_mail := b1\<rparr>)" using b1(1) by (simp only: forA.simps thenA_def bindA_Ok)
    then show ?case using b(2-5) b1(2-5) by (intro exI [of _ b1] exI [of _ "ls @ ls1"]) simp
  qed
  then show ?thesis by (simp add: chat_send_all_def)
qed

definition clock_fits :: "cxx_lib \<Rightarrow> string tracked \<Rightarrow> bool" where
  "clock_fits L t \<longleftrightarrow> tracked_inv t \<and> length (tv_i t) \<le> max_alloc L \<and> (\<forall>k \<in> set (keys (tv_c t)). k \<noteq> [] \<and> length k \<le> max_alloc L)"

lemma text_fields_wf:
  assumes "clock_fits L (tx_clock t)" "length (tx_text t) \<le> max_alloc L" "1 \<le> max_alloc L"
  shows "wf_value L (VDict (text_fields t))"
proof -
  have "distinct (keys (tv_c (tx_clock t)))" using assms(1) by (simp add: clock_fits_def tracked_inv_def clock_ok_def omap_distinct)
  then have "wf_value L (VDict (sclock_to_dict (tv_c (tx_clock t))))"
    using assms(1) by (auto simp: sclock_to_dict_eq clock_fits_def list_all_iff comp_def)
  then show ?thesis using assms by (simp add: text_fields_def tracked_to_dict_def dict_put_def value_of_string_def to_bytes_def clock_fits_def)
qed

lemma text_letter:
  assumes "lexical_cast L" "clock_fits L k" "length t \<le> max_alloc L" "1 \<le> max_alloc L"
  shows "\<exists>m. text_to_message L \<lparr>tx_from = as_message_default, tx_text = t, tx_clock = k, tx_has_clock = False\<rparr> = Ok m \<and>
    (\<forall>lu a c. mt_type (m_meta (letter_to lu a m c)) = MESSAGE \<and>
      text_from_message L (arrived (letter_to lu a m c)) = Ok \<lparr>tx_from = as_message_default\<lparr>am_from_id := ui_id (lu_info lu)\<rparr>, tx_text = t, tx_clock = k, tx_has_clock = True\<rparr>)"
proof -
  let ?f = "text_fields \<lparr>tx_from = as_message_default, tx_text = t, tx_clock = k, tx_has_clock = False\<rparr>"
  have wf: "wf_value L (VDict ?f)" using text_fields_wf assms by simp
  have d: "decode L (encode_value L (VDict ?f)) = Ok (VDict ?f)" using lexical_cast.decode_encode [OF assms(1) wf] .
  have n: "?f \<noteq> []" by (simp add: text_fields_def dict_put_def)
  have rt: "to_tracked_sclock (tracked_to_dict k) = Ok k" using assms(2) by (intro to_tracked_roundtrip) (simp add: clock_fits_def)
  have fld: "in_field ?f ''t'' as_string = Ok t" "dict_has ?f ''c''" "in_field ?f ''c'' as_dict = Ok (tracked_to_dict k)"
    by (simp_all add: text_fields_def in_field_def dict_ref_def dict_has_def dict_put_def value_of_string_def to_bytes_def to_str_def)
  show ?thesis using d n rt fld
    by (simp add: text_to_message_def to_message_def as_message_default_def Let_def letter_to_def arrived_def text_from_message_def from_message_def out_val_def in_dict_def
        opt_field_def dict_has_def dict_put_def dict_get_def message_default_def metadata_default_def value_of_string_def to_bytes_def to_str_def)
qed

section \<open>Clocks whose counters do not overflow\<close>

abbreviation count_of :: "string clock \<Rightarrow> string \<Rightarrow> nat" where
  "count_of c i \<equiv> unat (vclock_val c i)"

definition entries_ok :: "string set \<Rightarrow> string tracked \<Rightarrow> bool" where
  "entries_ok U t \<longleftrightarrow> tracked_inv t \<and> set (keys (tv_c t)) \<subseteq> U \<and> (\<forall>k v. map_of (tv_c t) k = Some v \<longrightarrow> 1 \<le> unat v \<and> unat v < 2 ^ 63)"

lemma entries_clock_ok: "entries_ok U t \<Longrightarrow> clock_ok (tv_c t)"
  by (simp add: entries_ok_def tracked_inv_def)

lemma entries_tracked: "entries_ok U t \<Longrightarrow> tracked_inv t"
  by (simp add: entries_ok_def)

lemma entries_small: "entries_ok U t \<Longrightarrow> clock_small (tv_c t)"
  by (auto simp: entries_ok_def tracked_inv_def clock_small_def list_all_iff clock_ok_def omap_distinct)

lemma entries_map:
  assumes "entries_ok U t"
  shows "map_of (tv_c t) n = (if vclock_val (tv_c t) n = 0 then None else Some (vclock_val (tv_c t) n))"
proof (cases "map_of (tv_c t) n")
  case (Some v)
  then have "1 \<le> unat v" using assms by (simp add: entries_ok_def)
  then have "v \<noteq> 0" by auto
  then show ?thesis using Some by (simp add: vclock_val_def)
qed (simp add: vclock_val_def)

lemma clock_leD: "clock_le c d \<Longrightarrow> count_of c k \<le> count_of d k"
  by (simp add: clock_le_def word_le_nat_alt)

lemma clock_leI: "(\<And>k. count_of c k \<le> count_of d k) \<Longrightarrow> clock_le c d"
  by (simp add: clock_le_def word_le_nat_alt)

lemma clock_le_refl [simp]: "clock_le c c"
  by (simp add: clock_le_def)

lemma clock_le_trans: "clock_le a b \<Longrightarrow> clock_le b c \<Longrightarrow> clock_le a c"
  by (auto simp: clock_le_def intro: order_trans)

lemma entries_eq:
  assumes t: "entries_ok U t" and k: "entries_ok U k" and le: "clock_le (tv_c t) (tv_c k)" "clock_le (tv_c k) (tv_c t)"
  shows "tv_c t = tv_c k"
proof (rule clock_eqI [OF entries_clock_ok [OF t] entries_clock_ok [OF k]])
  fix n
  have "vclock_val (tv_c t) n = vclock_val (tv_c k) n" using le by (meson antisym clock_le_def)
  then show "map_of (tv_c t) n = map_of (tv_c k) n" by (simp only: entries_map [OF t] entries_map [OF k])
qed

lemma entries_merge:
  assumes t: "entries_ok U t" and k: "entries_ok U k"
  shows "entries_ok U (k\<lparr>tv_c := vclock_merge (tv_c k) (tv_c t)\<rparr>)"
    "count_of (vclock_merge (tv_c k) (tv_c t)) n = max (count_of (tv_c k) n) (count_of (tv_c t) n)"
    "map_of (vclock_merge (tv_c k) (tv_c t)) n = (case map_of (tv_c t) n of None \<Rightarrow> map_of (tv_c k) n | Some v \<Rightarrow> Some (max (vclock_val (tv_c k) n) v))"
proof -
  have i: "tracked_inv k" "tracked_inv t" using t k by (simp_all add: entries_ok_def)
  have ok: "clock_ok (tv_c k)" "clock_ok (tv_c t)" using entries_clock_ok t k by blast+
  show "count_of (vclock_merge (tv_c k) (tv_c t)) n = max (count_of (tv_c k) n) (count_of (tv_c t) n)"
    by (simp add: vclock_val_merge [OF ok] max_def word_le_nat_alt)
  have m: "map_of (vclock_merge (tv_c k) (tv_c t)) n = (case map_of (tv_c t) n of None \<Rightarrow> map_of (tv_c k) n | Some v \<Rightarrow> Some (max (vclock_val (tv_c k) n) v))" for n
    by (rule map_of_vclock_merge [OF ok])
  then show "map_of (vclock_merge (tv_c k) (tv_c t)) n = (case map_of (tv_c t) n of None \<Rightarrow> map_of (tv_c k) n | Some v \<Rightarrow> Some (max (vclock_val (tv_c k) n) v))" .
  have "set (keys (vclock_merge (tv_c k) (tv_c t))) \<subseteq> U"
  proof
    fix n assume "n \<in> set (keys (vclock_merge (tv_c k) (tv_c t)))"
    then have "map_of (vclock_merge (tv_c k) (tv_c t)) n \<noteq> None" by (simp add: map_of_eq_None_iff)
    then have "map_of (tv_c t) n \<noteq> None \<or> map_of (tv_c k) n \<noteq> None" unfolding m by (auto split: option.splits)
    then have "n \<in> set (keys (tv_c t)) \<union> set (keys (tv_c k))" by (simp add: map_of_eq_None_iff del: not_None_eq)
    then show "n \<in> U" using t k by (auto simp: entries_ok_def)
  qed
  then show "entries_ok U (k\<lparr>tv_c := vclock_merge (tv_c k) (tv_c t)\<rparr>)"
    using tracked_merge_spec(2) [OF i] k t unfolding entries_ok_def
    by (auto simp: m max_def vclock_val_def split: option.splits if_splits)
qed

lemma entries_incr:
  assumes "entries_ok U t" "count_of (tv_c t) (tv_i t) + 1 < 2 ^ 63" "tv_i t \<in> U"
  shows "entries_ok U (tracked_incr t)" "tv_i (tracked_incr t) = tv_i t" "map_of (tv_c (tracked_incr t)) k = (if k = tv_i t then Some (vclock_val (tv_c t) k + 1) else map_of (tv_c t) k)"
    "count_of (tv_c (tracked_incr t)) k = (if k = tv_i t then Suc (count_of (tv_c t) k) else count_of (tv_c t) k)"
proof -
  have i: "tracked_inv t" using assms(1) by (simp add: entries_ok_def)
  obtain v where v: "map_of (tv_c t) (tv_i t) = Some v" using i by (auto simp: tracked_inv_def vclock_has_iff)
  have u: "unat (v + 1) = Suc (unat v)" using assms(2) v by (simp add: vclock_val_def unat_word_ariths mod_less)
  show "count_of (tv_c (tracked_incr t)) k = (if k = tv_i t then Suc (count_of (tv_c t) k) else count_of (tv_c t) k)"
    using tracked_incr_spec(3) [OF i, of k] u v by (simp add: vclock_val_def)
  have m: "map_of (tv_c (tracked_incr t)) = (map_of (tv_c t))(tv_i t \<mapsto> v + 1)"
    using i v by (simp add: tracked_incr_def vclock_ref_def tracked_inv_def)
  then show "map_of (tv_c (tracked_incr t)) k = (if k = tv_i t then Some (vclock_val (tv_c t) k + 1) else map_of (tv_c t) k)" using v by (simp add: vclock_val_def)
  show tv: "tv_i (tracked_incr t) = tv_i t" using tracked_incr_spec(2) [OF i] .
  have "set (keys (tv_c (tracked_incr t))) = insert (tv_i t) (set (keys (tv_c t)))"
    using m by (metis dom_fun_upd dom_map_of_conv_image_fst list.set_map option.distinct(1))
  then show "entries_ok U (tracked_incr t)"
    using assms tracked_incr_spec(1) [OF i] m u v unfolding entries_ok_def by (auto simp: vclock_val_def)
qed

section \<open>What the clocks know\<close>

text \<open>A clock starts at one, so the message with number \<open>n\<close> raises the counter of its author to \<open>n + 1\<close>.\<close>

definition seen :: "string clock \<Rightarrow> msg_name set" where
  "seen c = {(i, n). 1 \<le> n \<and> n < count_of c i}"

definition net_clock :: "chat_net \<Rightarrow> string \<Rightarrow> string clock" where
  "net_clock N i = tv_c (ch_clock (nt_apps N i))"

definition chat_users :: "string set \<Rightarrow> (string \<Rightarrow> 'k chat_env) \<Rightarrow> cxx_lib \<Rightarrow> bool" where
  "chat_users U E L \<longleftrightarrow> lexical_cast L \<and> 1 \<le> max_alloc L \<and> (\<forall>i\<in>U. i \<noteq> [] \<and> length i \<le> max_alloc L \<and> ce_cxx (E i) = L \<and> ui_id (lu_info (ce_user (E i))) = i \<and>
     cl_ok (lu_contacts (ce_user (E i))))"

text \<open>Every entry of a clock is from a message, except the own one.\<close>

definition own_clock :: "string set \<Rightarrow> string \<Rightarrow> string tracked \<Rightarrow> bool" where
  "own_clock U i t \<longleftrightarrow> entries_ok U t \<and> tv_i t = i \<and> (\<forall>k v. map_of (tv_c t) k = Some v \<longrightarrow> k \<noteq> i \<longrightarrow> 2 \<le> unat v)"

definition sent_ok :: "string set \<Rightarrow> cxx_lib \<Rightarrow> chat_net \<Rightarrow> sent \<Rightarrow> bool" where
  "sent_ok U L N x \<longleftrightarrow> sn_author x \<in> U \<and> own_clock U (sn_author x) (sn_clock x) \<and> 2 \<le> count_of (tv_c (sn_clock x)) (sn_author x) \<and>
     Suc (snd (sn_name x)) = count_of (tv_c (sn_clock x)) (sn_author x) \<and> nt_past N (sn_name x) = seen (tv_c (sn_clock x)) \<and>
     mt_type (m_meta (sn_letter x)) = MESSAGE \<and>
     text_from_message L (arrived (sn_letter x)) =
       Ok \<lparr>tx_from = as_message_default\<lparr>am_from_id := sn_author x\<rparr>, tx_text = sn_text x, tx_clock = sn_clock x, tx_has_clock = True\<rparr>"

text \<open>Who has seen a message has seen what its author had seen.\<close>

definition causal :: "sent list \<Rightarrow> string clock \<Rightarrow> bool" where
  "causal xs c \<longleftrightarrow> (\<forall>x\<in>set xs. count_of (tv_c (sn_clock x)) (sn_author x) \<le> count_of c (sn_author x) \<longrightarrow> clock_le (tv_c (sn_clock x)) c)"

definition net_inv :: "string set \<Rightarrow> cxx_lib \<Rightarrow> chat_net \<Rightarrow> bool" where
  "net_inv U L N \<longleftrightarrow>
     (\<forall>i\<in>U. own_clock U i (ch_clock (nt_apps N i)) \<and> nt_known N i = seen (net_clock N i) \<and> count_of (net_clock N i) i = Suc (nt_count N i) \<and>
        causal (nt_sent N) (net_clock N i) \<and> (\<forall>k\<in>U. count_of (net_clock N i) k \<le> Suc (nt_count N k))) \<and>
     (\<forall>x\<in>set (nt_sent N). sent_ok U L N x \<and> causal (nt_sent N) (tv_c (sn_clock x)) \<and> (\<forall>k\<in>U. count_of (tv_c (sn_clock x)) k \<le> Suc (nt_count N k)))"

lemma own_entries: "own_clock U i t \<Longrightarrow> entries_ok U t"
  by (simp add: own_clock_def)

text \<open>For such clocks the comparison that the app makes is the order of what they have seen.\<close>

lemma less_eq_own:
  assumes t: "own_clock U i t" and k: "own_clock U j k"
  shows "tracked_less_eq t k = Ok (clock_le (tv_c t) (tv_c k))"
proof -
  note e = own_entries [OF t] own_entries [OF k]
  have c: "vclock_compare (tv_c t) (tv_c k) = Ok (if clock_le (tv_c t) (tv_c k) \<and> \<not> clock_le (tv_c k) (tv_c t) then - 1
        else if clock_le (tv_c k) (tv_c t) \<and> \<not> clock_le (tv_c t) (tv_c k) then 1 else 0)"
    by (rule vclock_compare_small [OF entries_small [OF e(1)] entries_small [OF e(2)]])
  have i: "tracked_inv t" "tracked_inv k" using entries_tracked e by blast+
  have "tracked_less_eq t k = vclock_less_eq (tv_c t) (tv_c k)"
    using tracked_inv_nonempty [OF i(2)] i(1) by (simp add: tracked_less_eq_def tracked_inv_def)
  then show ?thesis using entries_eq [OF e] by (auto simp: vclock_less_eq_def c vclock_identical_def simp del: bindO_Ok_iff)
qed

lemma own_clock_merge:
  assumes t: "own_clock U i t" "2 \<le> count_of (tv_c t) i" and k: "own_clock U j k"
  shows "tracked_merge k t = Ok (k\<lparr>tv_c := vclock_merge (tv_c k) (tv_c t)\<rparr>)" "own_clock U j (k\<lparr>tv_c := vclock_merge (tv_c k) (tv_c t)\<rparr>)"
    "count_of (vclock_merge (tv_c k) (tv_c t)) n = max (count_of (tv_c k) n) (count_of (tv_c t) n)"
proof -
  note e = own_entries [OF t(1)] own_entries [OF k]
  show "tracked_merge k t = Ok (k\<lparr>tv_c := vclock_merge (tv_c k) (tv_c t)\<rparr>)" using tracked_merge_spec(1) entries_tracked e by blast
  show "count_of (vclock_merge (tv_c k) (tv_c t)) n = max (count_of (tv_c k) n) (count_of (tv_c t) n)" by (rule entries_merge(2) [OF e])
  have own: "2 \<le> unat v" if "map_of (tv_c t) n = Some v" for n v
    using that t unfolding own_clock_def by (cases "n = i") (auto simp: vclock_val_def)
  show "own_clock U j (k\<lparr>tv_c := vclock_merge (tv_c k) (tv_c t)\<rparr>)"
    using entries_merge(1) [OF e] k own unfolding own_clock_def
    by (auto simp: entries_merge(3) [OF e] max_def vclock_val_def word_le_nat_alt split: option.splits if_splits)
qed

lemma own_clock_incr:
  assumes "own_clock U i t" "count_of (tv_c t) i + 1 < 2 ^ 63" "i \<in> U"
  shows "own_clock U i (tracked_incr t)" "count_of (tv_c (tracked_incr t)) k = (if k = i then Suc (count_of (tv_c t) i) else count_of (tv_c t) k)"
proof -
  have e: "entries_ok U t" "count_of (tv_c t) (tv_i t) + 1 < 2 ^ 63" "tv_i t \<in> U" "tv_i t = i" using assms by (simp_all add: own_clock_def)
  show "count_of (tv_c (tracked_incr t)) k = (if k = i then Suc (count_of (tv_c t) i) else count_of (tv_c t) k)" using entries_incr(4) [OF e(1-3)] e(4) by simp
  show "own_clock U i (tracked_incr t)" using assms(1) entries_incr [OF e(1-3)] e(4) unfolding own_clock_def by auto
qed

section \<open>The invariant of a conversation\<close>

lemma usersD:
  assumes "chat_users U E L"
  shows "lexical_cast L" "1 \<le> max_alloc L"
    and "i \<in> U \<Longrightarrow> i \<noteq> [] \<and> length i \<le> max_alloc L \<and> ce_cxx (E i) = L \<and> ui_id (lu_info (ce_user (E i))) = i \<and> cl_ok (lu_contacts (ce_user (E i)))"
  using assms by (simp_all add: chat_users_def)

lemma own_clock_fits: "chat_users U E L \<Longrightarrow> own_clock U i t \<Longrightarrow> i \<in> U \<Longrightarrow> clock_fits L t"
  using usersD(3) [of U E L] unfolding own_clock_def entries_ok_def clock_fits_def by (meson subsetD)

lemma write_ends:
  fixes E :: "string \<Rightarrow> 'k chat_env"
  assumes us: "chat_users U E L" and i: "i \<in> U" and k: "own_clock U i (tracked_incr (ch_clock s))"
    and t: "trim text \<noteq> []" "length (trim text) \<le> max_alloc L" and run: "send_message ((E i)\<lparr>ce_now := now\<rparr>) (s\<lparr>ch_input := text\<rparr>) = (Ok (), a)"
  shows "ch_clock a = tracked_incr (ch_clock s) \<and> (\<exists>ls. outbox (ch_mail a) = outbox (ch_mail s) @ ls \<and> (\<forall>l\<in>set ls. mt_type (m_meta l) = MESSAGE \<and>
    text_from_message L (arrived l) = Ok \<lparr>tx_from = as_message_default\<lparr>am_from_id := i\<rparr>, tx_text = trim text, tx_clock = ch_clock a, tx_has_clock = True\<rparr>))"
proof -
  let ?E = "(E i)\<lparr>ce_now := now\<rparr>" and ?k = "tracked_incr (ch_clock s)"
  note ui = usersD(3) [OF us i]
  obtain m where m: "text_to_message L \<lparr>tx_from = as_message_default, tx_text = trim text, tx_clock = ?k, tx_has_clock = False\<rparr> = Ok m"
    and lt: "\<And>(lu :: 'k local_user) a c. mt_type (m_meta (letter_to lu a m c)) = MESSAGE \<and>
      text_from_message L (arrived (letter_to lu a m c)) = Ok \<lparr>tx_from = as_message_default\<lparr>am_from_id := ui_id (lu_info lu)\<rparr>, tx_text = trim text, tx_clock = ?k, tx_has_clock = True\<rparr>"
    using text_letter [OF usersD(1) [OF us] own_clock_fits [OF us k i] t(2) usersD(2) [OF us]] by blast
  define s1 where "s1 = s\<lparr>ch_input := [], ch_text := ch_text s @ make_message_str now ''blue'' (ui_name (lu_info (ce_user (E i)))) (trim text), ch_clock := ?k\<rparr>"
  obtain b ls where b: "chat_send_all ?E m s1 = (Ok (), s1\<lparr>ch_mail := b\<rparr>)" "outbox b = outbox (ch_mail s1) @ ls"
    "set ls \<subseteq> range (letter_to (ce_user ?E) (mailbox_address (ch_mail s1)) m)"
    using chat_send_all_ends [of ?E m s1] ui by auto
  have "send_message ?E (s\<lparr>ch_input := text\<rparr>) =
      thenA (chat_send_all ?E m) (if cl_list (ce_contacts ?E) = [] then add_text (make_message_str now ''red'' ''notice'' ''nobody here...'') else retA ()) s1"
    using t(1) m ui by (simp add: send_message_def add_text_def s1_def)
  then have "ch_clock a = ?k" "ch_mail a = b" using run b(1) by (auto simp: bindA_Ok add_text_def retA_def modA_def s1_def split: if_splits)
  moreover have "\<forall>l\<in>set ls. mt_type (m_meta l) = MESSAGE \<and>
    text_from_message L (arrived l) = Ok \<lparr>tx_from = as_message_default\<lparr>am_from_id := i\<rparr>, tx_text = trim text, tx_clock = ?k, tx_has_clock = True\<rparr>"
  proof
    fix l assume "l \<in> set ls"
    then obtain c where "l = letter_to (ce_user ?E) (mailbox_address (ch_mail s1)) m c" using b(3) by blast
    then show "mt_type (m_meta l) = MESSAGE \<and>
      text_from_message L (arrived l) = Ok \<lparr>tx_from = as_message_default\<lparr>am_from_id := i\<rparr>, tx_text = trim text, tx_clock = ?k, tx_has_clock = True\<rparr>"
      using lt [of "ce_user ?E"] ui by simp
  qed
  ultimately show ?thesis using b(2) by (auto simp: s1_def)
qed

lemma hear_ends:
  assumes us: "chat_users U E L" and j: "j \<in> U" and x: "sent_ok U L N x" and k: "own_clock U j (ch_clock s)"
    and c: "cl_by_id (sn_author x) (ce_contacts (E j)) = Ok (Some c)"
  shows "chat_check_mail ((E j)\<lparr>ce_now := now\<rparr>) (arrived (sn_letter x)) s = (Ok (),
    if clock_le (tv_c (sn_clock x)) (tv_c (ch_clock s)) then s
    else s\<lparr>ch_clock := (ch_clock s)\<lparr>tv_c := vclock_merge (tv_c (ch_clock s)) (tv_c (sn_clock x))\<rparr>,
           ch_text := ch_text s @ make_message_str now ''black'' (ui_name c) (sn_text x), ch_alerts := Suc (ch_alerts s)\<rparr>)"
proof -
  have o: "own_clock U (sn_author x) (sn_clock x)" "2 \<le> count_of (tv_c (sn_clock x)) (sn_author x)" using x by (simp_all add: sent_ok_def)
  have "expect_symmetric (arrived (sn_letter x)) = Ok ()" "is_remote (arrived (sn_letter x))" "mt_type (m_meta (arrived (sn_letter x))) = MESSAGE"
    using x by (simp_all add: arrived_def expect_symmetric_def is_symmetric_def is_remote_def sent_ok_def)
  moreover have "text_from_message (ce_cxx ((E j)\<lparr>ce_now := now\<rparr>)) (arrived (sn_letter x)) =
      Ok \<lparr>tx_from = as_message_default\<lparr>am_from_id := sn_author x\<rparr>, tx_text = sn_text x, tx_clock = sn_clock x, tx_has_clock = True\<rparr>"
    using x usersD(3) [OF us j] by (simp add: sent_ok_def)
  ultimately show ?thesis using c
    by (simp add: chat_check_mail_def received_text_def take_clock_def less_eq_own [OF o(1) k] own_clock_merge(1) [OF o k] add_text_def alerted_def
        catchA_def retA_def modA_def bindA_def getA_def thenA_def liftA_def)
qed

lemma seen_le: "clock_le c d \<Longrightarrow> seen c \<subseteq> seen d"
  unfolding seen_def using clock_leD [of c d] by (auto intro: less_le_trans)

lemma seen_merge: "(\<And>n. count_of e n = max (count_of c n) (count_of d n)) \<Longrightarrow> seen e = seen c \<union> seen d"
  by (auto simp: seen_def)

lemma causal_merge:
  assumes "causal xs c" "causal xs d" "\<And>n. count_of e n = max (count_of c n) (count_of d n)"
  shows "causal xs e"
proof -
  have le: "clock_le c e" "clock_le d e" using assms(3) by (auto intro!: clock_leI)
  show ?thesis unfolding causal_def
  proof (intro ballI impI)
    fix x assume x: "x \<in> set xs" "count_of (tv_c (sn_clock x)) (sn_author x) \<le> count_of e (sn_author x)"
    then have "clock_le (tv_c (sn_clock x)) c \<or> clock_le (tv_c (sn_clock x)) d" using assms(1,2) x(1) unfolding causal_def by (auto simp: assms(3) le_max_iff_disj)
    then show "clock_le (tv_c (sn_clock x)) e" using le clock_le_trans by blast
  qed
qed

lemma heard_inv:
  assumes us: "chat_users U E L" and inv: "net_inv U L N" and j: "j \<in> U" and x: "x \<in> set (nt_sent N)" and c: "cl_by_id (sn_author x) (ce_contacts (E j)) = Ok (Some c)"
    and run: "chat_check_mail ((E j)\<lparr>ce_now := now\<rparr>) (arrived (sn_letter x)) (nt_apps N j) = (Ok (), a)"
  shows "net_inv U L (heard j x a N)"
proof -
  have sx: "sent_ok U L N x" "causal (nt_sent N) (tv_c (sn_clock x))" "\<forall>k\<in>U. count_of (tv_c (sn_clock x)) k \<le> Suc (nt_count N k)" using inv x by (auto simp: net_inv_def)
  have nj: "own_clock U j (ch_clock (nt_apps N j))" "nt_known N j = seen (net_clock N j)" "count_of (net_clock N j) j = Suc (nt_count N j)"
    "causal (nt_sent N) (net_clock N j)" "\<forall>k\<in>U. count_of (net_clock N j) k \<le> Suc (nt_count N k)" using inv j by (auto simp: net_inv_def)
  have o: "own_clock U (sn_author x) (sn_clock x)" "2 \<le> count_of (tv_c (sn_clock x)) (sn_author x)" "nt_past N (sn_name x) = seen (tv_c (sn_clock x))" using sx(1) by (simp_all add: sent_ok_def)
  note mrg = own_clock_merge [OF o(1,2) nj(1)]
  have "own_clock U j (ch_clock a) \<and> (\<forall>n. count_of (tv_c (ch_clock a)) n = max (count_of (net_clock N j) n) (count_of (tv_c (sn_clock x)) n))"
  proof (cases "clock_le (tv_c (sn_clock x)) (net_clock N j)")
    case True
    then show ?thesis using run hear_ends [OF us j sx(1) nj(1) c, of now] nj(1) clock_leD [OF True] by (simp add: net_clock_def max_absorb1)
  next
    case False
    then show ?thesis using run hear_ends [OF us j sx(1) nj(1) c, of now] mrg(2,3) by (auto simp: net_clock_def)
  qed
  then have a: "own_clock U j (ch_clock a)" "\<And>n. count_of (tv_c (ch_clock a)) n = max (count_of (net_clock N j) n) (count_of (tv_c (sn_clock x)) n)" by blast+
  have "seen (tv_c (ch_clock a)) = nt_known N j \<union> nt_past N (sn_name x)" using seen_merge [of "tv_c (ch_clock a)"] a(2) nj(2) o(3) by simp
  moreover have "causal (nt_sent N) (tv_c (ch_clock a))" using causal_merge [OF nj(4) sx(2)] a(2) by blast
  moreover have "count_of (tv_c (ch_clock a)) j = Suc (nt_count N j)" using a(2) [of j] nj(3) sx(3) j by (simp add: max_absorb1)
  moreover have "\<forall>k\<in>U. count_of (tv_c (ch_clock a)) k \<le> Suc (nt_count N k)" using a(2) nj(5) sx(3) by simp
  moreover have "sent_ok U L (heard j x a N) y = sent_ok U L N y" for y by (simp add: sent_ok_def heard_def)
  ultimately show ?thesis using inv a(1) unfolding net_inv_def by (auto simp: net_clock_def heard_def)
qed

lemma wrote_inv:
  assumes us: "chat_users U E L" and inv: "net_inv U L N" and i: "i \<in> U" and t: "trim text \<noteq> []" "length (trim text) \<le> max_alloc (ce_cxx (E i))"
    and n: "nt_count N i + 2 < 2 ^ 63" and run: "send_message ((E i)\<lparr>ce_now := now\<rparr>) ((nt_apps N i)\<lparr>ch_input := text\<rparr>) = (Ok (), a)"
  shows "net_inv U L (wrote i text a N)"
proof -
  let ?N = "wrote i text a N"
  have ni: "own_clock U i (ch_clock (nt_apps N i))" "nt_known N i = seen (net_clock N i)" "count_of (net_clock N i) i = Suc (nt_count N i)"
    "causal (nt_sent N) (net_clock N i)" "\<forall>k\<in>U. count_of (net_clock N i) k \<le> Suc (nt_count N k)" using inv i by (auto simp: net_inv_def)
  have inc: "own_clock U i (tracked_incr (ch_clock (nt_apps N i)))"
    "\<And>k. count_of (tv_c (tracked_incr (ch_clock (nt_apps N i)))) k = (if k = i then Suc (Suc (nt_count N i)) else count_of (net_clock N i) k)"
    using own_clock_incr [OF ni(1) _ i] ni(3) n by (simp_all add: net_clock_def)
  have tl: "length (trim text) \<le> max_alloc L" using t(2) usersD(3) [OF us i] by simp
  obtain ls where a: "ch_clock a = tracked_incr (ch_clock (nt_apps N i))" "outbox (ch_mail a) = outbox (ch_mail (nt_apps N i)) @ ls"
    and ls: "\<forall>l\<in>set ls. mt_type (m_meta l) = MESSAGE \<and>
    text_from_message L (arrived l) = Ok \<lparr>tx_from = as_message_default\<lparr>am_from_id := i\<rparr>, tx_text = trim text, tx_clock = ch_clock a, tx_has_clock = True\<rparr>"
    using write_ends [OF us i inc(1) t(1) tl run] by blast
  define K where "K = tv_c (ch_clock a)"
  have K: "own_clock U i (ch_clock a)" "\<And>k. count_of K k = (if k = i then Suc (Suc (nt_count N i)) else count_of (net_clock N i) k)" using inc a(1) by (simp_all add: K_def)
  have oldK: "clock_le (net_clock N i) K" using K(2) ni(3) by (auto intro!: clock_leI)
  have sK: "seen K = insert (i, Suc (nt_count N i)) (nt_known N i)" unfolding ni(2) seen_def K(2) using ni(3) by (auto split: if_splits)
  have sent: "nt_sent ?N = nt_sent N @ map (\<lambda>m. \<lparr>sn_name = (i, Suc (nt_count N i)), sn_text = trim text, sn_clock = ch_clock a, sn_letter = m\<rparr>) ls"
    by (simp add: wrote_def Let_def a(2))
  have fields: "nt_known ?N = (nt_known N)(i := seen K)" "nt_past ?N = (nt_past N)((i, Suc (nt_count N i)) := seen K)" "nt_count ?N = (nt_count N)(i := Suc (nt_count N i))"
    "nt_apps ?N = (nt_apps N)(i := a)"
    by (simp_all add: wrote_def Let_def sK)
  have old: "sent_ok U L N x" "causal (nt_sent N) (tv_c (sn_clock x))" "\<forall>k\<in>U. count_of (tv_c (sn_clock x)) k \<le> Suc (nt_count N k)" if "x \<in> set (nt_sent N)" for x
    using that inv by (auto simp: net_inv_def)
  have caus: "causal (nt_sent ?N) c" if "causal (nt_sent N) c" "count_of c i \<le> Suc (nt_count N i)" for c
    using that K(2) unfolding causal_def sent by (auto simp: K_def [symmetric])
  have causK: "causal (nt_sent ?N) K" unfolding causal_def
  proof (intro ballI impI)
    fix x assume x: "x \<in> set (nt_sent ?N)" "count_of (tv_c (sn_clock x)) (sn_author x) \<le> count_of K (sn_author x)"
    show "clock_le (tv_c (sn_clock x)) K"
    proof (cases "x \<in> set (nt_sent N)")
      case True
      have "count_of (tv_c (sn_clock x)) (sn_author x) \<le> count_of (net_clock N i) (sn_author x)"
        using x(2) old(3) [OF True] i ni(3) by (cases "sn_author x = i") (auto simp: K(2))
      then show ?thesis using ni(4) True oldK clock_le_trans unfolding causal_def by blast
    next
      case False
      then have "tv_c (sn_clock x) = K" using x(1) by (auto simp: sent K_def)
      then show ?thesis by (simp add: clock_le_def)
    qed
  qed
  have bK: "\<forall>k\<in>U. count_of K k \<le> Suc (nt_count ?N k)" using K(2) ni(5) by (simp add: fields(3))
  have okold: "sent_ok U L ?N x" if "x \<in> set (nt_sent N)" for x
  proof -
    have "Suc (snd (sn_name x)) \<le> Suc (nt_count N i)" if "sn_author x = i" using old(1,3) [OF \<open>x \<in> set (nt_sent N)\<close>] that i by (auto simp: sent_ok_def)
    then have "sn_name x \<noteq> (i, Suc (nt_count N i))" by auto
    then show ?thesis using old(1) [OF that] by (simp add: sent_ok_def fields)
  qed
  have oknew: "sent_ok U L ?N \<lparr>sn_name = (i, Suc (nt_count N i)), sn_text = trim text, sn_clock = ch_clock a, sn_letter = l\<rparr>" if "l \<in> set ls" for l
    using ls that K i by (simp add: sent_ok_def fields K_def [symmetric])
  have other: "\<forall>k\<in>U. count_of c k \<le> Suc (nt_count ?N k)" if "\<forall>k\<in>U. count_of c k \<le> Suc (nt_count N k)" for c using that by (auto simp: fields(3) le_SucI)
  show ?thesis unfolding net_inv_def
  proof (intro conjI ballI)
    fix u assume u: "u \<in> U"
    then have nu: "own_clock U u (ch_clock (nt_apps N u))" "nt_known N u = seen (net_clock N u)" "count_of (net_clock N u) u = Suc (nt_count N u)"
      "causal (nt_sent N) (net_clock N u)" "\<forall>k\<in>U. count_of (net_clock N u) k \<le> Suc (nt_count N k)" using inv by (auto simp: net_inv_def)
    have nc: "net_clock ?N u = (if u = i then K else net_clock N u)" by (simp add: net_clock_def fields K_def)
    show "own_clock U u (ch_clock (nt_apps ?N u))" "nt_known ?N u = seen (net_clock ?N u)" "count_of (net_clock ?N u) u = Suc (nt_count ?N u)"
      using nu K by (auto simp: fields nc)
    show "causal (nt_sent ?N) (net_clock ?N u)" using causK caus [OF nu(4)] nu(5) i by (simp add: nc)
    show "count_of (net_clock ?N u) k \<le> Suc (nt_count ?N k)" if "k \<in> U" for k using bK other [OF nu(5)] that by (simp add: nc)
  next
    fix x assume x: "x \<in> set (nt_sent ?N)"
    show "sent_ok U L ?N x" using x okold oknew unfolding sent by auto
    show "causal (nt_sent ?N) (tv_c (sn_clock x))"
      using x causK caus [OF old(2)] old(3) i unfolding sent by (auto simp: K_def)
    show "count_of (tv_c (sn_clock x)) k \<le> Suc (nt_count ?N k)" if "k \<in> U" for k
      using x bK other [OF old(3)] that unfolding sent by (auto simp: K_def)
  qed
qed

lemma reach_inv:
  assumes "net_reach U E i N" "chat_users U E L"
  shows "net_inv U L N"
  using assms(1)
proof (induction rule: net_reach.induct)
  case Start
  have "count_of (tv_c (tracked_new u)) k = (if k = u then 1 else 0)" "own_clock U u (tracked_new u)" if "u \<in> U" for u k
    using that tracked_inv_constructors(1) [of u] by (auto simp: own_clock_def entries_ok_def tracked_new_def vclock_val_def vclock_set_def)
  then show ?case using usersD(3) [OF assms(2)] by (auto simp: net_inv_def net_start_def chat_new_def net_clock_def causal_def seen_def)
next
  case (Next N N')
  from Next(2) show ?case
  proof cases
    case (Write i t now a)
    then show ?thesis using wrote_inv [OF assms(2) Next(3)] by blast
  next
    case (Hear j x c now a)
    then show ?thesis using heard_inv [OF assms(2) Next(3)] by blast
  qed
qed

lemma known_iff:
  assumes "net_inv U L N" "j \<in> U" "x \<in> set (nt_sent N)"
  shows "sn_name x \<in> nt_known N j \<longleftrightarrow> clock_le (tv_c (sn_clock x)) (net_clock N j)"
proof -
  have x: "2 \<le> count_of (tv_c (sn_clock x)) (sn_author x)" "Suc (snd (sn_name x)) = count_of (tv_c (sn_clock x)) (sn_author x)"
    and j: "nt_known N j = seen (net_clock N j)" "causal (nt_sent N) (net_clock N j)"
    using assms by (auto simp: net_inv_def sent_ok_def)
  have "sn_name x \<in> nt_known N j \<longleftrightarrow> count_of (tv_c (sn_clock x)) (sn_author x) \<le> count_of (net_clock N j) (sn_author x)"
    using x by (cases "sn_name x") (auto simp: j(1) seen_def)
  then show ?thesis using j(2) assms(3) by (auto simp: causal_def dest: clock_leD)
qed

lemma chat_hears:
  assumes "chat_users U E L" "net_reach U E i N" "j \<in> U" "x \<in> set (nt_sent N)" "cl_by_id (sn_author x) (ce_contacts (E j)) = Ok (Some c)"
  shows "\<exists>a. chat_check_mail ((E j)\<lparr>ce_now := now\<rparr>) (arrived (sn_letter x)) (nt_apps N j) = (Ok (), a)"
proof -
  have "sent_ok U L N x" "own_clock U j (ch_clock (nt_apps N j))" using reach_inv [OF assms(2,1)] assms(3,4) by (auto simp: net_inv_def)
  then show ?thesis using hear_ends [OF assms(1,3) _ _ assms(5)] by blast
qed

text \<open>
  C38. Every message of a chat is shown once, and only as long as it is news: in every state that a conversation can reach, with messages lost, delayed, reordered
  and repeated, a user who receives a message from somebody in the conversation shows it exactly when it does not know it yet, neither from having received it nor
  from a message whose author knew it.
\<close>

theorem chat_shows_news:
  assumes "chat_users U E L" "net_reach U E i N" "j \<in> U" "x \<in> set (nt_sent N)" "cl_by_id (sn_author x) (ce_contacts (E j)) = Ok (Some c)"
  shows "\<exists>a. chat_check_mail ((E j)\<lparr>ce_now := now\<rparr>) (arrived (sn_letter x)) (nt_apps N j) = (Ok (), a) \<and>
    ch_text a = ch_text (nt_apps N j) @ (if sn_name x \<in> nt_known N j then [] else make_message_str now ''black'' (ui_name c) (sn_text x)) \<and>
    sn_name x \<in> nt_known (heard j x a N) j"
proof -
  have inv: "net_inv U L N" by (rule reach_inv [OF assms(2,1)])
  then have x: "sent_ok U L N x" and k: "own_clock U j (ch_clock (nt_apps N j))" using assms(3,4) by (auto simp: net_inv_def)
  have past: "sn_name x \<in> nt_past N (sn_name x)" using x by (cases "sn_name x") (auto simp: sent_ok_def seen_def)
  then show ?thesis using hear_ends [OF assms(1,3) x k assms(5), of now] known_iff [OF inv assms(3,4)]
    by (auto simp: net_clock_def heard_def)
qed

text \<open>
  The other side of it: a message that is overtaken is lost.  Whoever hears the answer to a message before the message does not show the message when it comes.
\<close>

theorem overtaken_message_lost:
  assumes "chat_users U E L" "net_reach U E i N" "j \<in> U" "x \<in> set (nt_sent N)" "y \<in> set (nt_sent N)" "sn_name x \<in> nt_past N (sn_name y)"
    "cl_by_id (sn_author x) (ce_contacts (E j)) = Ok (Some c)" "cl_by_id (sn_author y) (ce_contacts (E j)) = Ok (Some d)"
    "chat_check_mail ((E j)\<lparr>ce_now := now\<rparr>) (arrived (sn_letter y)) (nt_apps N j) = (Ok (), a)"
  shows "chat_check_mail ((E j)\<lparr>ce_now := later\<rparr>) (arrived (sn_letter x)) a = (Ok (), a)"
proof -
  let ?N = "heard j y a N"
  have inv: "net_inv U L ?N" by (rule heard_inv [OF assms(1) reach_inv [OF assms(2,1)] assms(3,5,8,9)])
  have m: "x \<in> set (nt_sent ?N)" and a: "nt_apps ?N j = a" and kn: "sn_name x \<in> nt_known ?N j" using assms(4,6) by (simp_all add: heard_def)
  have x: "sent_ok U L ?N x" and k: "own_clock U j (ch_clock (nt_apps ?N j))" using inv m assms(3) by (auto simp: net_inv_def)
  show ?thesis using hear_ends [OF assms(1,3) x k assms(7), of later] known_iff [OF inv assms(3) m] kn by (simp add: net_clock_def a)
qed

definition sample_chat :: "string \<Rightarrow> nat chat_env" where
  "sample_chat u = (let others = indexed (map (sample_info 1) (filter (\<lambda>v. v \<noteq> u) [''a'', ''b'', ''c''])) in
     \<lparr>ce_cxx = decimal_lib, ce_user = sample_user\<lparr>lu_info := sample_info 0 u, lu_contacts := others\<rparr>, ce_contacts = others, ce_now = ''12''\<rparr>)"

lemma sample_chat_users: "chat_users {''a'', ''b'', ''c''} sample_chat decimal_lib"
proof -
  have "cl_ok (lu_contacts (ce_user (sample_chat u)))" for u
    by (auto simp: sample_chat_def Let_def sample_info_def intro!: indexed_ok)
  moreover have "1 \<le> max_alloc decimal_lib" "1 \<le> max_alloc decimal_lib" by (simp_all add: decimal_lib_def)
  ultimately show ?thesis using dec.lexical_cast_axioms by (auto simp: chat_users_def sample_chat_def Let_def sample_info_def)
qed

lemma sample_write:
  assumes "u \<in> {''a'', ''b''}" "trim text \<noteq> []"
  shows "\<exists>a l ls. send_message ((sample_chat u)\<lparr>ce_now := now\<rparr>) (s\<lparr>ch_input := text\<rparr>) = (Ok (), a) \<and> outbox (ch_mail a) = outbox (ch_mail s) @ l # ls"
proof -
  let ?E = "(sample_chat u)\<lparr>ce_now := now\<rparr>"
  have send: "\<exists>b l. sender_send (ce_user ?E) v m mail = Ok (True, b) \<and> outbox b = outbox mail @ [l]" if "v \<in> {''a'', ''b'', ''c''} - {u}" for v m mail
    using assms(1) that by (auto simp: sample_chat_def indexed_def cl_by_id_def sample_info_def sender_send_def mailbox_defs queue_simps Let_def)
  have "\<exists>b l ls. chat_send_all ?E m s1 = (Ok (), s1\<lparr>ch_mail := b\<rparr>) \<and> outbox b = outbox (ch_mail s1) @ l # ls" for m s1
  proof -
    define v where "v = (if u = ''a'' then ''b'' else ''a'')"
    have vw: "map ui_id (cl_list (ce_contacts ?E)) = [v, ''c'']" "v \<in> {''a'', ''b'', ''c''} - {u}" "''c'' \<in> {''a'', ''b'', ''c''} - {u}"
      using assms(1) by (auto simp: sample_chat_def indexed_def sample_info_def Let_def v_def)
    obtain b l where b: "sender_send (ce_user ?E) v m (ch_mail s1) = Ok (True, b)" "outbox b = outbox (ch_mail s1) @ [l]" using send vw(2) by blast
    obtain b1 l1 where b1: "sender_send (ce_user ?E) ''c'' m b = Ok (True, b1)" "outbox b1 = outbox b @ [l1]" using send vw(3) by blast
    have "chat_send_all ?E m s1 = (Ok (), s1\<lparr>ch_mail := b1\<rparr>)"
      using vw(1) b(1) b1(1) by (auto simp: chat_send_all_def partA_def bindA_def thenA_def retA_def)
    then show ?thesis using b(2) b1(2) by (intro exI [of _ b1]) simp
  qed
  then obtain b l ls where b: "chat_send_all ?E m s1 = (Ok (), s1\<lparr>ch_mail := b m s1\<rparr>)" "outbox (b m s1) = outbox (ch_mail s1) @ l m s1 # ls m s1" for m s1 by metis
  have "cl_list (ce_contacts ?E) \<noteq> []" using assms(1) by (auto simp: sample_chat_def indexed_def Let_def)
  then show ?thesis using assms(2)
    by (simp add: send_message_def add_text_def text_to_message_def to_message_def Let_def as_message_default_def message_default_def metadata_default_def
        bindA_Ok [OF b(1)] retA_def) (intro exI conjI, rule b(1), simp add: b(2))
qed

lemma sample_contact: "u \<in> {''a'', ''b''} \<Longrightarrow> v \<in> {''b'', ''c''} \<Longrightarrow> u \<noteq> v \<Longrightarrow> cl_by_id u (ce_contacts (sample_chat v)) = Ok (Some (sample_info 1 u))"
  by (auto simp: sample_chat_def indexed_def cl_by_id_def sample_info_def Let_def)

lemma sample_limit: "ce_cxx (sample_chat u) = decimal_lib" "2 \<le> max_alloc decimal_lib"
  by (simp_all add: sample_chat_def Let_def decimal_lib_def)

text \<open>The message with the first words of somebody, and the state after it.\<close>

lemma sample_says:
  assumes r: "net_reach {''a'', ''b'', ''c''} sample_chat ''i'' N" and u: "u \<in> {''a'', ''b''}" "nt_count N u = 0"
  shows "\<exists>a x. net_reach {''a'', ''b'', ''c''} sample_chat ''i'' (wrote u ''hi'' a N) \<and> set (nt_sent N) \<subseteq> set (nt_sent (wrote u ''hi'' a N)) \<and>
    x \<in> set (nt_sent (wrote u ''hi'' a N)) \<and> sn_name x = (u, 1) \<and> sn_text x = ''hi'' \<and> nt_known N u \<subseteq> nt_past (wrote u ''hi'' a N) (sn_name x)"
proof -
  have t: "trim ''hi'' = ''hi''" by (simp add: trim_def is_space_def)
  obtain a l ls where a: "send_message ((sample_chat u)\<lparr>ce_now := []\<rparr>) ((nt_apps N u)\<lparr>ch_input := ''hi''\<rparr>) = (Ok (), a)" "outbox (ch_mail a) = outbox (ch_mail (nt_apps N u)) @ l # ls"
    using sample_write [OF u(1), of "''hi''" "[]" "nt_apps N u"] t by auto
  have "net_step {''a'', ''b'', ''c''} sample_chat N (wrote u ''hi'' a N)"
    using u a(1) t sample_limit by (intro net_step.Write) auto
  then have "net_reach {''a'', ''b'', ''c''} sample_chat ''i'' (wrote u ''hi'' a N)" by (rule net_reach.Next [OF r])
  then show ?thesis using u(2) a(2) t
    by (intro exI [of _ a] exI [of _ "\<lparr>sn_name = (u, Suc 0), sn_text = ''hi'', sn_clock = ch_clock a, sn_letter = l\<rparr>"]) (auto simp: wrote_def Let_def)
qed

theorem chat_shows_news_witness:
  "\<exists>N x a. net_reach {''a'', ''b'', ''c''} sample_chat ''i'' N \<and> x \<in> set (nt_sent N) \<and>
     chat_check_mail ((sample_chat ''b'')\<lparr>ce_now := ''9''\<rparr>) (arrived (sn_letter x)) (nt_apps N ''b'') = (Ok (), a) \<and>
     ch_text a = ch_text (nt_apps N ''b'') @ make_message_str ''9'' ''black'' ''a'' ''hi''"
proof -
  have c0: "nt_count (net_start sample_chat ''i'') ''a'' = 0" by (simp add: net_start_def)
  obtain N a x where N: "N = wrote ''a'' ''hi'' a (net_start sample_chat ''i'')" and s: "net_reach {''a'', ''b'', ''c''} sample_chat ''i'' N"
    "x \<in> set (nt_sent N)" "sn_name x = (''a'', 1)" "sn_text x = ''hi''"
    using sample_says [OF net_reach.Start _ c0] by blast
  have k: "sn_name x \<notin> nt_known N ''b''" by (simp add: N wrote_def Let_def net_start_def)
  show ?thesis
    using chat_shows_news [OF sample_chat_users s(1) _ s(2), of "''b''" "sample_info 1 ''a''" "''9''"] sample_contact [of "''a''" "''b''"] s k
    by (auto simp: sample_info_def)
qed

theorem overtaken_message_lost_witness:
  "\<exists>N x y a. net_reach {''a'', ''b'', ''c''} sample_chat ''i'' N \<and> x \<in> set (nt_sent N) \<and> y \<in> set (nt_sent N) \<and> sn_name x \<noteq> sn_name y \<and>
     chat_check_mail ((sample_chat ''c'')\<lparr>ce_now := ''9''\<rparr>) (arrived (sn_letter y)) (nt_apps N ''c'') = (Ok (), a) \<and>
     chat_check_mail ((sample_chat ''c'')\<lparr>ce_now := ''9''\<rparr>) (arrived (sn_letter x)) a = (Ok (), a)"
proof -
  let ?U = "{''a'', ''b'', ''c''}"
  have c0: "nt_count (net_start sample_chat ''i'') ''a'' = 0" by (simp add: net_start_def)
  obtain N1 a1 x where N1: "N1 = wrote ''a'' ''hi'' a1 (net_start sample_chat ''i'')" and s1: "net_reach ?U sample_chat ''i'' N1"
    "x \<in> set (nt_sent N1)" "sn_name x = (''a'', 1)"
    using sample_says [OF net_reach.Start _ c0] by blast
  obtain a2 where a2: "chat_check_mail ((sample_chat ''b'')\<lparr>ce_now := ''9''\<rparr>) (arrived (sn_letter x)) (nt_apps N1 ''b'') = (Ok (), a2)"
    using chat_hears [OF sample_chat_users s1(1) _ s1(2), of "''b''" "sample_info 1 ''a''" "''9''"] s1(3) sample_contact [of "''a''" "''b''"] by auto
  let ?N2 = "heard ''b'' x a2 N1"
  have r2: "net_reach ?U sample_chat ''i'' ?N2"
    using s1 a2 sample_contact [of "''a''" "''b''"] by (intro net_reach.Next [OF s1(1)] net_step.Hear) auto
  have c2: "nt_count ?N2 ''b'' = 0" by (simp add: N1 heard_def wrote_def net_start_def Let_def)
  have k2: "sn_name x \<in> nt_known ?N2 ''b''" by (simp add: N1 heard_def wrote_def Let_def s1(3) net_start_def)
  obtain N3 y where s3: "net_reach ?U sample_chat ''i'' N3" "set (nt_sent ?N2) \<subseteq> set (nt_sent N3)"
    "y \<in> set (nt_sent N3)" "sn_name y = (''b'', 1)" "nt_known ?N2 ''b'' \<subseteq> nt_past N3 (sn_name y)"
    using sample_says [OF r2 _ c2] by blast
  have x3: "x \<in> set (nt_sent N3)" using s1(2) s3(2) by (auto simp: heard_def)
  obtain a4 where a4: "chat_check_mail ((sample_chat ''c'')\<lparr>ce_now := ''9''\<rparr>) (arrived (sn_letter y)) (nt_apps N3 ''c'') = (Ok (), a4)"
    using chat_hears [OF sample_chat_users s3(1) _ s3(3), of "''c''" "sample_info 1 ''b''" "''9''"] s3(4) sample_contact [of "''b''" "''c''"] by auto
  have "chat_check_mail ((sample_chat ''c'')\<lparr>ce_now := ''9''\<rparr>) (arrived (sn_letter x)) a4 = (Ok (), a4)"
    using k2 s1(3) s3(4,5) sample_contact [of "''a''" "''c''"] sample_contact [of "''b''" "''c''"]
    by (intro overtaken_message_lost [OF sample_chat_users s3(1) _ x3 s3(3) _ _ _ a4]) auto
  then show ?thesis using s3(1,3,4) x3 s1(3) a4 by (intro exI [of _ N3] exI [of _ x] exI [of _ y] exI [of _ a4]) simp
qed

end
