(* ===== verification/App_Editor.thy ===== *)
theory App_Editor
  imports Backend_Client App_Service Crstring Chat
begin

text \<open>
  The editor of apps, \<^verbatim>\<open>src/src/gui/app/app_editor.cpp\<close>: every user in the conversation has the code and the data of the app and may change both; each change is sent
  to the others, and the app runs while it is written.  The code is a replicated text (\<open>Crstring\<close>).  Left out are the looks: labels, icons, completion and colours
  of the text.  What is typed, the place of the cursor, marks in the text and the timer are part of the model.
\<close>

section \<open>Messages\<close>

definition APP_EDITOR :: string where "APP_EDITOR = ''APP_EDITOR''"
definition SCRIPT_CODE_MESSAGE :: string where "SCRIPT_CODE_MESSAGE = ''scpt''"
definition SCRIPT_INIT_MESSAGE :: string where "SCRIPT_INIT_MESSAGE = ''init''"
definition CURSOR_POS_MESSAGE :: string where "CURSOR_POS_MESSAGE = ''cp''"
definition ERROR_SELECTION :: string where "ERROR_SELECTION = ''error''"

record text_script =
  ts_from :: as_message
  ts_init :: bool
  ts_code :: cr_string
  ts_data :: bytes

definition script_fields :: "text_script \<Rightarrow> dict" where
  "script_fields t =
     (let d = (if ts_init t then dict_put ''i'' (VBool True) [] else []) in
      dict_put ''d'' (VBytes (ts_data t)) (dict_put ''l'' (VDict (tracked_to_dict (crs_c (ts_code t)))) (dict_put ''c'' (value_of_string (crs_s (ts_code t))) d)))"

definition text_script_to_message :: "cxx_lib \<Rightarrow> text_script \<Rightarrow> message outcome" where
  "text_script_to_message L t = to_message L SCRIPT_CODE_MESSAGE (ts_from t) (script_fields t)"

definition text_script_from_message :: "cxx_lib \<Rightarrow> message \<Rightarrow> text_script outcome" where
  "text_script_from_message L m =
     bindO (from_message L SCRIPT_CODE_MESSAGE m) (\<lambda>(a, d).
     bindO (if dict_has d ''i'' then in_field d ''i'' as_bool else Ok False) (\<lambda>i.
     bindO (in_field d ''c'' as_string) (\<lambda>c.
     bindO (in_field d ''l'' as_dict) (\<lambda>ld.
     bindO (to_tracked_sclock ld) (\<lambda>l.
     bindO (in_field d ''d'' as_bytes) (\<lambda>b. Ok \<lparr>ts_from = a, ts_init = i, ts_code = cr_make l c, ts_data = b\<rparr>))))))"

record cursor_pos =
  cp_from :: as_message
  cp_s :: u32
  cp_e :: u32
  cp_c :: string

definition cursor_fields :: "cursor_pos \<Rightarrow> dict" where
  "cursor_fields p = dict_put ''c'' (value_of_string (cp_c p)) (dict_put ''e'' (value_of_int (cp_e p)) (dict_put ''s'' (value_of_int (cp_s p)) []))"

definition cursor_pos_from_message :: "cxx_lib \<Rightarrow> message \<Rightarrow> cursor_pos outcome" where
  "cursor_pos_from_message L m =
     bindO (from_message L CURSOR_POS_MESSAGE m) (\<lambda>(a, d).
     bindO (in_field d ''s'' as_int32) (\<lambda>s. bindO (in_field d ''e'' as_int32) (\<lambda>e. bindO (in_field d ''c'' as_string) (\<lambda>c.
       Ok \<lparr>cp_from = a, cp_s = s, cp_e = e, cp_c = c\<rparr>))))"

section \<open>State\<close>

datatype run_state = CODE_CHANGED | DONE_TYPING | READY
datatype start_state = GET_CODE | DONE_START

record selection =
  sl_start :: u32
  sl_end :: u32
  sl_color :: string

text \<open>
  \<open>ew_script\<close> and \<open>ew_pos\<close> are the text in the widget and the place of the cursor; \<open>ew_lua\<close> is the api with the mailbox of the editor, \<open>ew_slots\<close> are the messages that
  the thread of the app has handed to the thread of the interface, and \<open>ew_service\<close> is the service of apps with the disk.
\<close>

record 's app_editor =
  ew_from_id :: string
  ew_id :: string
  ew_code :: cr_string
  ew_app :: app
  ew_script :: string
  ew_pos :: nat
  ew_data_bytes :: bytes
  ew_selections :: "(string \<times> selection) list"
  ew_cursor_color :: string
  ew_prev_code :: string
  ew_prev_pos :: nat
  ew_run_state :: run_state
  ew_started :: start_state
  ew_dirty :: bool
  ew_alerts :: nat
  ew_lua :: "'s lua_api"
  ew_slots :: "message list"
  ew_service :: app_service

text \<open>
  What the editor is given: the api's environment, the paths, the names drawn for new data, the colour of the own cursor, and what the widget shows of a text that it is
  given with \<^verbatim>\<open>setText\<close>, which may take it for HTML.
\<close>

record 'k editor_env =
  ee_api :: "'k api_env"
  ee_dirs :: dir_lib
  ee_names :: "string list"
  ee_color :: "string \<Rightarrow> string"
  ee_shown :: "string \<Rightarrow> string"

type_synonym ('s, 'a) ew_action = "('s app_editor, 'a) action"

abbreviation "ee_cxx E \<equiv> ae_cxx (ee_api E)"
abbreviation "ee_fs E \<equiv> dl_fs (ee_dirs E)"
abbreviation "ee_contacts E \<equiv> cv_contacts (ae_conv (ee_api E))"
abbreviation "ee_me E \<equiv> ui_id (lu_info (ae_user (ee_api E)))"

definition on_lua :: "('s, 'a) api_action \<Rightarrow> ('s, 'a) ew_action" where
  "on_lua m s = (let (r, a) = m (ew_lua s) in (r, s\<lparr>ew_lua := a\<rparr>))"

definition on_data :: "(disk_store, 'a) action \<Rightarrow> ('s, 'a) ew_action" where
  "on_data m s =
     (let (r, w) = storeA (ap_data (ew_app s)) m (as_disk (ew_service s)); s1 = s\<lparr>ew_service := (ew_service s)\<lparr>as_disk := w\<rparr>\<rparr> in
      case r of Ok (a, sd) \<Rightarrow> (Ok a, s1\<lparr>ew_app := (ew_app s)\<lparr>ap_data := sd\<rparr>\<rparr>) | Throw e \<Rightarrow> (Throw e, s1) | Exit \<Rightarrow> (Exit, s1) | Undef \<Rightarrow> (Undef, s1) | Diverge \<Rightarrow> (Diverge, s1))"

definition on_service :: "'a as_action \<Rightarrow> ('s, 'a) ew_action" where
  "on_service m s = (let (r, x) = m (ew_service s) in (r, s\<lparr>ew_service := x\<rparr>))"

definition editor_new :: "('k, 's) script_engine \<Rightarrow> 'k editor_env \<Rightarrow> string \<Rightarrow> string \<Rightarrow> app \<Rightarrow> app_service \<Rightarrow> 's app_editor" where
  "editor_new N E from_id i a sv =
     \<lparr>ew_from_id = from_id, ew_id = i, ew_code = cr_init_set (ap_code a) (cr_new (ee_me E)), ew_app = a, ew_script = [], ew_pos = 0, ew_data_bytes = [], ew_selections = [],
      ew_cursor_color = ee_color E (ee_me E), ew_prev_code = [], ew_prev_pos = 0, ew_run_state = READY, ew_started = DONE_START, ew_dirty = False, ew_alerts = 0,
      ew_lua = lua_api_new N (mailbox_new i) [], ew_slots = [], ew_service = sv\<rparr>"

section \<open>Sending\<close>

definition editor_send :: "'k editor_env \<Rightarrow> string \<Rightarrow> message \<Rightarrow> ('s, unit) ew_action" where
  "editor_send E to m = on_lua (api_send (ee_api E) to m)"

definition editor_send_all :: "'k editor_env \<Rightarrow> message \<Rightarrow> ('s, unit) ew_action" where
  "editor_send_all E m = forA (\<lambda>c. editor_send E (ui_id c) m) (cl_list (ee_contacts E))"

definition prepare_script_message :: "'k editor_env \<Rightarrow> bool \<Rightarrow> ('s, message) ew_action" where
  "prepare_script_message E send_data =
     bindA (getA ew_code) (\<lambda>c.
     bindA (if send_data then bindA (on_data (export_to (ee_cxx E) (ee_fs E) [])) (\<lambda>d. retA (encode_dict (ee_cxx E) d)) else retA []) (\<lambda>b.
       liftA (text_script_to_message (ee_cxx E) \<lparr>ts_from = as_message_default, ts_init = False, ts_code = c, ts_data = b\<rparr>)))"

definition send_script :: "'k editor_env \<Rightarrow> bool \<Rightarrow> ('s, unit) ew_action" where
  "send_script E send_data = bindA (prepare_script_message E send_data) (editor_send_all E)"

definition send_script_to :: "'k editor_env \<Rightarrow> string \<Rightarrow> ('s, unit) ew_action" where
  "send_script_to E i = bindA (prepare_script_message E True) (editor_send E i)"

definition ask_for_script :: "'k editor_env \<Rightarrow> ('s, unit) ew_action" where
  "ask_for_script E =
     bindA (getA ew_from_id) (\<lambda>f. thenA (requireA (f \<noteq> []))
       (if f = ee_me E then retA ()
        else bindA (liftA (to_message (ee_cxx E) SCRIPT_INIT_MESSAGE as_message_default [])) (editor_send E f)))"

text \<open>The selection is not sent while it is empty at the start of the text.\<close>

definition cursor_changed :: "'k editor_env \<Rightarrow> u32 \<Rightarrow> u32 \<Rightarrow> ('s, unit) ew_action" where
  "cursor_changed E start end1 =
     (if start = 0 \<and> end1 = 0 then retA ()
      else bindA (getA ew_cursor_color) (\<lambda>c.
        bindA (liftA (to_message (ee_cxx E) CURSOR_POS_MESSAGE as_message_default (cursor_fields \<lparr>cp_from = as_message_default, cp_s = start, cp_e = end1, cp_c = c\<rparr>)))
          (editor_send_all E)))"

section \<open>Running the code\<close>

definition set_selection :: "string \<Rightarrow> u32 \<Rightarrow> u32 \<Rightarrow> string \<Rightarrow> ('s, unit) ew_action" where
  "set_selection key start end1 color = modA (\<lambda>s. s\<lparr>ew_selections := omap_put key \<lparr>sl_start = start, sl_end = end1, sl_color = color\<rparr> (ew_selections s)\<rparr>)"

definition clear_selection :: "string \<Rightarrow> ('s, unit) ew_action" where
  "clear_selection key = modA (\<lambda>s. s\<lparr>ew_selections := alist_del key (ew_selections s)\<rparr>)"

definition editor_alerted :: "('s, unit) ew_action" where
  "editor_alerted = modA (\<lambda>s. s\<lparr>ew_alerts := Suc (ew_alerts s)\<rparr>)"

text \<open>The app starts again: what it had drawn goes, and the code is put in the mailbox for the thread of the app.\<close>

definition run_script :: "'k editor_env \<Rightarrow> ('s, unit) ew_action" where
  "run_script E =
     thenA editor_alerted
    (thenA (clear_selection ERROR_SELECTION)
    (thenA (on_lua (backend_push (ee_cxx E) Reset))
    (bindA (getA (\<lambda>s. crs_s (ew_code s))) (\<lambda>code.
       if code \<noteq> [] then on_lua (backend_push (ee_cxx E) (Run_Code code)) else retA ()))))"

text \<open>A mark at the line of the last error, which counts from one behind a line that is put in front of the code; \<open>place line\<close> is where the line is in the widget.\<close>

definition update_error :: "(nat \<Rightarrow> u32 \<times> u32) \<Rightarrow> string \<Rightarrow> ('s, unit) ew_action" where
  "update_error place color =
     bindA (getA (\<lambda>s. fst (la_error (ew_lua s)))) (\<lambda>line.
       if line = - 1 then retA ()
       else if line - 2 \<ge> 0 then set_selection ERROR_SELECTION (fst (place (nat (line - 2)))) (snd (place (nat (line - 2)))) color
       else clear_selection ERROR_SELECTION)"

definition editor_start :: "'k editor_env \<Rightarrow> ('s, unit) ew_action" where
  "editor_start E =
     thenA (modA (\<lambda>s. s\<lparr>ew_started := (if ap_code (ew_app s) = [] then GET_CODE else DONE_START), ew_script := c_str (ap_code (ew_app s)), ew_pos := 0\<rparr>)) (run_script E)"

section \<open>Typing and data\<close>

definition text_typed :: "'k editor_env \<Rightarrow> ('s, unit) ew_action" where
  "text_typed E = thenA (modA (\<lambda>s. s\<lparr>ew_code := cr_set (ew_script s) (ew_code s), ew_dirty := True\<rparr>)) (send_script E False)"

text \<open>What the widget does when a key is pressed and when the cursor is moved: it changes itself first.\<close>

definition key_pressed :: "'k editor_env \<Rightarrow> string \<Rightarrow> nat \<Rightarrow> ('s, unit) ew_action" where
  "key_pressed E txt pos =
     thenA (modA (\<lambda>s. s\<lparr>ew_script := txt, ew_pos := pos\<rparr>)) (thenA (cursor_changed E (of_nat pos) (of_nat pos)) (text_typed E))"

definition cursor_moved :: "'k editor_env \<Rightarrow> nat \<Rightarrow> u32 \<Rightarrow> u32 \<Rightarrow> ('s, unit) ew_action" where
  "cursor_moved E pos start end1 = thenA (modA (\<lambda>s. s\<lparr>ew_pos := pos\<rparr>)) (cursor_changed E start end1)"

definition data_updated :: "'k editor_env \<Rightarrow> ('s, unit) ew_action" where
  "data_updated E =
     thenA (modA (\<lambda>s. s\<lparr>ew_run_state := CODE_CHANGED, ew_code := (ew_code s)\<lparr>crs_c := tracked_incr (crs_c (ew_code s))\<rparr>\<rparr>)) (send_script E True)"

definition data_value :: "cxx_lib \<Rightarrow> bytes \<Rightarrow> string \<Rightarrow> mvalue" where
  "data_value L file vt = (if vt = ''<file>'' then VBytes file else case read_double L vt of Some d \<Rightarrow> VDouble d | None \<Rightarrow> value_of_string vt)"

definition add_data :: "'k editor_env \<Rightarrow> string \<Rightarrow> string \<Rightarrow> string \<Rightarrow> ('s, unit) ew_action" where
  "add_data E uuid key val =
     (let k = trim key; vt = trim val in
      if k = [] then retA ()
      else bindA (getA ew_data_bytes) (\<lambda>file.
        thenA (on_data (ds_set (ee_cxx E) (ee_fs E) uuid k (data_value (ee_cxx E) file vt)))
       (thenA (modA (\<lambda>s. s\<lparr>ew_data_bytes := []\<rparr>)) (data_updated E))))"

definition data_item_remove :: "'k editor_env \<Rightarrow> string \<Rightarrow> ('s, unit) ew_action" where
  "data_item_remove E key = bindA (on_data (ds_remove (ee_cxx E) (ee_fs E) key)) (\<lambda>_. data_updated E)"

definition load_data_from_file :: "bytes option \<Rightarrow> ('s, unit) ew_action" where
  "load_data_from_file f = (case f of None \<Rightarrow> retA () | Some b \<Rightarrow> modA (\<lambda>s. s\<lparr>ew_data_bytes := b\<rparr>))"

definition editor_contact_quit :: "'k editor_env \<Rightarrow> string \<Rightarrow> ('s, unit) ew_action" where
  "editor_contact_quit E i = thenA (requireA (i \<noteq> [])) (on_lua (backend_push (ee_cxx E) (Contact_Quit i)))"

section \<open>Saving\<close>

text \<open>\<open>answer\<close> is the name the user gives when it is asked for one.\<close>

definition set_app_name :: "string option \<Rightarrow> ('s, bool) ew_action" where
  "set_app_name answer =
     bindA (getA (\<lambda>s. md_name (ap_meta (ew_app s)))) (\<lambda>n. if n \<noteq> [] then retA True
       else case answer of
         None \<Rightarrow> retA False
       | Some r \<Rightarrow> if r = [] then retA False else thenA (modA (\<lambda>s. s\<lparr>ew_app := app_set_name r (ew_app s)\<rparr>)) (retA True))"

definition update_app_code :: "('s, unit) ew_action" where
  "update_app_code = modA (\<lambda>s. s\<lparr>ew_app := app_set_code (crs_s (ew_code s)) (ew_app s)\<rparr>)"

definition editor_save_app :: "'k editor_env \<Rightarrow> string option \<Rightarrow> ('s, unit) ew_action" where
  "editor_save_app E answer = catchA (
     bindA (set_app_name answer) (\<lambda>named. if \<not> named then retA () else
       thenA update_app_code
       (bindA (getA ew_app) (\<lambda>a.
        bindA (on_service (as_save_app (ee_cxx E) (ee_dirs E) (ee_names E) a)) (\<lambda>_. modA (\<lambda>s. s\<lparr>ew_dirty := False\<rparr>))))))"

definition editor_export_app :: "'k editor_env \<Rightarrow> snappy_lib \<Rightarrow> string option \<Rightarrow> string \<Rightarrow> ('s, unit) ew_action" where
  "editor_export_app E S answer file = catchA (
     thenA (bindA (set_app_name answer) (\<lambda>_. update_app_code))
       (if file = [] then retA () else bindA (getA ew_app) (\<lambda>a. on_service (export_app (ee_cxx E) S (ee_dirs E) a file))))"

section \<open>The timer\<close>

definition init_update :: "'k editor_env \<Rightarrow> ('s, unit) ew_action" where
  "init_update E = bindA (getA ew_started) (\<lambda>b. if b \<noteq> GET_CODE then retA () else thenA (ask_for_script E) (modA (\<lambda>s. s\<lparr>ew_started := DONE_START\<rparr>)))"

definition set_run_state :: "run_state \<Rightarrow> ('s, unit) ew_action" where
  "set_run_state r = modA (\<lambda>s. s\<lparr>ew_run_state := r\<rparr>)"

definition editor_update :: "'k editor_env \<Rightarrow> ('s, unit) ew_action" where
  "editor_update E =
     thenA (init_update E)
     (bindA (getA (\<lambda>s. (crs_s (ew_code s), ew_pos s, ew_prev_code s, ew_prev_pos s, ew_run_state s))) (\<lambda>(code, pos, prev_code, prev_pos, r).
      thenA (case r of
          READY \<Rightarrow> if code \<noteq> prev_code then set_run_state CODE_CHANGED else retA ()
        | CODE_CHANGED \<Rightarrow> if pos = prev_pos \<and> code = prev_code then set_run_state DONE_TYPING else retA ()
        | DONE_TYPING \<Rightarrow>
            if pos = prev_pos \<and> code = prev_code then thenA (run_script E) (set_run_state READY)
            else if code \<noteq> prev_code then set_run_state CODE_CHANGED else set_run_state DONE_TYPING)
        (modA (\<lambda>s. s\<lparr>ew_prev_code := code, ew_prev_pos := pos\<rparr>))))"

section \<open>Receiving\<close>

text \<open>The text in the widget is set anew, which puts the cursor at the start; it goes back if its place still exists, and that is a change of the cursor.\<close>

definition show_code :: "'k editor_env \<Rightarrow> ('s, unit) ew_action" where
  "show_code E =
     bindA (getA ew_pos) (\<lambda>pos.
     thenA (modA (\<lambda>s. s\<lparr>ew_script := ee_shown E (c_str (crs_s (ew_code s))), ew_pos := 0\<rparr>))
     (bindA (getA (\<lambda>s. pos \<le> length (ew_script s) \<and> pos \<noteq> 0)) (\<lambda>b.
       if b then thenA (modA (\<lambda>s. s\<lparr>ew_pos := pos\<rparr>)) (cursor_changed E (of_nat pos) (of_nat pos)) else retA ())))"

definition import_data :: "'k editor_env \<Rightarrow> merge_result \<Rightarrow> bytes \<Rightarrow> ('s, unit) ew_action" where
  "import_data E res b =
     bindA (liftA (decode_to_dict (ee_cxx E) b)) (\<lambda>d.
     thenA (if res = UPDATED then on_data (ds_clear (ee_cxx E) (ee_fs E)) else retA ())
     (thenA (on_data (import_from (ee_cxx E) (ee_fs E) (ee_names E) d))
     (thenA (modA (\<lambda>s. s\<lparr>ew_prev_code := crs_s (ew_code s), ew_run_state := READY\<rparr>)) (run_script E))))"

definition received_code :: "'k editor_env \<Rightarrow> message \<Rightarrow> ('s, unit) ew_action" where
  "received_code E m =
     thenA (requireA (mt_type (m_meta m) = SCRIPT_CODE_MESSAGE))
     (bindA (liftA (text_script_from_message (ee_cxx E) m)) (\<lambda>t.
       if \<not> cl_has (am_from_id (ts_from t)) (ee_contacts E) then retA ()
       else bindA (getA ew_code) (\<lambda>x. bindA (liftA (cr_merge x (ts_code t))) (\<lambda>(res, x1).
         thenA (modA (\<lambda>s. s\<lparr>ew_code := x1, ew_dirty := True\<rparr>))
        (thenA (show_code E)
          (if ts_data t = [] then retA () else import_data E res (ts_data t)))))))"

definition received_script_init :: "'k editor_env \<Rightarrow> message \<Rightarrow> ('s, unit) ew_action" where
  "received_script_init E m =
     thenA (requireA (mt_type (m_meta m) = SCRIPT_INIT_MESSAGE))
     (bindA (liftA (from_message (ee_cxx E) SCRIPT_INIT_MESSAGE m)) (\<lambda>(i, _).
       if \<not> cl_has (am_from_id i) (ee_contacts E) then retA () else send_script_to E (am_from_id i)))"

definition received_cursor_pos :: "'k editor_env \<Rightarrow> message \<Rightarrow> ('s, unit) ew_action" where
  "received_cursor_pos E m =
     thenA (requireA (mt_type (m_meta m) = CURSOR_POS_MESSAGE))
     (bindA (liftA (cursor_pos_from_message (ee_cxx E) m)) (\<lambda>p.
       if \<not> cl_has (am_from_id (cp_from p)) (ee_contacts E) then retA ()
       else if length (cp_c p) \<noteq> 3 then retA ()
       else set_selection (am_from_id (cp_from p)) (cp_s p) (cp_e p) (cp_c p)))"

text \<open>
  The thread of the app takes the mail; messages for the editor it hands over to the thread of the interface, which takes them in the same order and shows an exception in
  a dialog.
\<close>

definition emit_got :: "message \<Rightarrow> ('s, unit) ew_action" where
  "emit_got m = modA (\<lambda>s. s\<lparr>ew_slots := ew_slots s @ [m]\<rparr>)"

definition editor_handlers :: "('k, 's) script_engine \<Rightarrow> 'k editor_env \<Rightarrow> (string \<times> (message \<Rightarrow> ('s, unit) ew_action)) list" where
  "editor_handlers N E =
     map (\<lambda>(t, h). (t, \<lambda>m. on_lua (h m))) (backend_handlers N (ee_api E)) @
     [(SCRIPT_CODE_MESSAGE, emit_got), (SCRIPT_INIT_MESSAGE, emit_got), (CURSOR_POS_MESSAGE, emit_got)]"

definition editor_turn :: "('k, 's) script_engine \<Rightarrow> 'k editor_env \<Rightarrow> ('s, unit) ew_action" where
  "editor_turn N E s =
     (case pop_inbox True (la_mail (ew_lua s)) of
        (Got m, b) \<Rightarrow> service_turn (editor_handlers N E) m (s\<lparr>ew_lua := (ew_lua s)\<lparr>la_mail := b\<rparr>\<rparr>)
      | (_, b) \<Rightarrow> (Ok (), s\<lparr>ew_lua := (ew_lua s)\<lparr>la_mail := b\<rparr>\<rparr>))"

definition editor_slot :: "'k editor_env \<Rightarrow> ('s, unit) ew_action" where
  "editor_slot E s =
     (case ew_slots s of [] \<Rightarrow> (Ok (), s)
      | m # ms \<Rightarrow> catchA (if mt_type (m_meta m) = SCRIPT_CODE_MESSAGE then received_code E m
          else if mt_type (m_meta m) = SCRIPT_INIT_MESSAGE then received_script_init E m else received_cursor_pos E m) (s\<lparr>ew_slots := ms\<rparr>))"

section \<open>When the code runs\<close>

abbreviation "ew_mail s \<equiv> la_mail (ew_lua s)"

definition put_mail :: "mailbox \<Rightarrow> 's app_editor \<Rightarrow> 's app_editor" where
  "put_mail b s = s\<lparr>ew_lua := (ew_lua s)\<lparr>la_mail := b\<rparr>\<rparr>"

lemma put_mail_simps [simp]:
  "ew_mail (put_mail b s) = b" "ew_code (put_mail b s) = ew_code s" "put_mail c (put_mail b s) = put_mail c s" "put_mail (ew_mail s) s = s"
  by (simp_all add: put_mail_def)

definition ui_letter :: "cxx_lib \<Rightarrow> ui_event \<Rightarrow> message" where
  "ui_letter L ev = (case to_message L (fst (ui_structure ev)) as_message_default (snd (ui_structure ev)) of Ok m \<Rightarrow> m)"

definition run_letters :: "cxx_lib \<Rightarrow> string \<Rightarrow> message list" where
  "run_letters L code = map (ui_letter L) (Reset # (if code = [] then [] else [Run_Code code]))"

definition push_ui :: "cxx_lib \<Rightarrow> ui_event \<Rightarrow> 's app_editor \<Rightarrow> 's app_editor" where
  "push_ui L ev s = snd (on_lua (backend_push L ev) s)"

lemma push_ui_ends:
  "on_lua (backend_push L ev) s = (Ok (), push_ui L ev s)" "\<exists>b. push_ui L ev s = put_mail b s \<and> inbox b = inbox (ew_mail s) @ [ui_letter L ev] \<and> outbox b = outbox (ew_mail s)"
proof -
  obtain m where m: "to_message L (fst (ui_structure ev)) as_message_default (snd (ui_structure ev)) = Ok m" by (simp add: to_message_def Let_def as_message_default_def)
  obtain b where b: "push_inbox m (ew_mail s) = Ok b" "inbox b = inbox (ew_mail s) @ [m]" "outbox b = outbox (ew_mail s)" using push_inbox_Ok by blast
  have p: "on_lua (backend_push L ev) s = (Ok (), put_mail b s)" using m b(1) by (cases "ui_structure ev") (simp add: on_lua_def backend_push_def partA_def put_mail_def)
  then show "on_lua (backend_push L ev) s = (Ok (), push_ui L ev s)" by (simp add: push_ui_def)
  show "\<exists>b. push_ui L ev s = put_mail b s \<and> inbox b = inbox (ew_mail s) @ [ui_letter L ev] \<and> outbox b = outbox (ew_mail s)"
    using p m b by (intro exI [of _ b]) (simp add: push_ui_def ui_letter_def)
qed

lemma run_script_ends:
  "\<exists>b. run_script E s = (Ok (), put_mail b (s\<lparr>ew_alerts := Suc (ew_alerts s), ew_selections := alist_del ERROR_SELECTION (ew_selections s)\<rparr>)) \<and>
     inbox b = inbox (ew_mail s) @ run_letters (ee_cxx E) (crs_s (ew_code s)) \<and> outbox b = outbox (ew_mail s)"
proof -
  let ?L = "ee_cxx E" and ?s = "s\<lparr>ew_alerts := Suc (ew_alerts s), ew_selections := alist_del ERROR_SELECTION (ew_selections s)\<rparr>"
  obtain b where b: "push_ui ?L Reset ?s = put_mail b ?s" "inbox b = inbox (ew_mail s) @ [ui_letter ?L Reset]" "outbox b = outbox (ew_mail s)"
    using push_ui_ends(2) [of ?L Reset ?s] by auto
  let ?code = "crs_s (ew_code s)"
  obtain b1 where b1: "push_ui ?L (Run_Code ?code) (put_mail b ?s) = put_mail b1 ?s" "inbox b1 = inbox b @ [ui_letter ?L (Run_Code ?code)]" "outbox b1 = outbox b"
    using push_ui_ends(2) [of ?L "Run_Code ?code" "put_mail b ?s"] by auto
  have p: "on_lua (backend_push ?L Reset) ?s = (Ok (), put_mail b ?s)" "on_lua (backend_push ?L (Run_Code ?code)) (put_mail b ?s) = (Ok (), put_mail b1 ?s)"
    using push_ui_ends(1) [of ?L Reset ?s] push_ui_ends(1) [of ?L "Run_Code ?code" "put_mail b ?s"] b(1) b1(1) by simp_all
  have r: "run_script E s = (if ?code \<noteq> [] then (Ok (), put_mail b1 ?s) else (Ok (), put_mail b ?s))"
    using p by (simp add: run_script_def editor_alerted_def clear_selection_def bindA_def modA_def getA_def retA_def)
  show ?thesis
    by (rule exI [of _ "if ?code = [] then b else b1"]) (use r b b1 in \<open>simp add: run_letters_def\<close>)
qed

definition took :: "run_state \<Rightarrow> 's app_editor \<Rightarrow> 's app_editor" where
  "took r s = s\<lparr>ew_run_state := r, ew_prev_code := crs_s (ew_code s), ew_prev_pos := ew_pos s\<rparr>"

lemma update_cases:
  assumes "ew_started s = DONE_START"
  shows "crs_s (ew_code s) \<noteq> ew_prev_code s \<Longrightarrow> editor_update E s = (Ok (), took CODE_CHANGED s)"
    "ew_run_state s = CODE_CHANGED \<Longrightarrow> crs_s (ew_code s) = ew_prev_code s \<Longrightarrow> ew_pos s = ew_prev_pos s \<Longrightarrow> editor_update E s = (Ok (), took DONE_TYPING s)"
    "ew_run_state s = DONE_TYPING \<Longrightarrow> crs_s (ew_code s) = ew_prev_code s \<Longrightarrow> ew_pos s = ew_prev_pos s \<Longrightarrow>
       editor_update E s = (Ok (), took READY (snd (run_script E s)))"
    "ew_run_state s = READY \<Longrightarrow> crs_s (ew_code s) = ew_prev_code s \<Longrightarrow> editor_update E s = (Ok (), took READY s)"
proof -
  have i: "init_update E s = (Ok (), s)" using assms by (simp add: init_update_def bindA_def getA_def retA_def)
  note d = editor_update_def bindA_def getA_def retA_def i set_run_state_def modA_def took_def
  show "crs_s (ew_code s) \<noteq> ew_prev_code s \<Longrightarrow> editor_update E s = (Ok (), took CODE_CHANGED s)"
    by (cases "ew_run_state s") (simp_all add: d)
  show "ew_run_state s = CODE_CHANGED \<Longrightarrow> crs_s (ew_code s) = ew_prev_code s \<Longrightarrow> ew_pos s = ew_prev_pos s \<Longrightarrow> editor_update E s = (Ok (), took DONE_TYPING s)"
    by (simp add: d)
  show "ew_run_state s = READY \<Longrightarrow> crs_s (ew_code s) = ew_prev_code s \<Longrightarrow> editor_update E s = (Ok (), took READY s)"
    by (simp add: d)
  obtain b where r: "run_script E s = (Ok (), put_mail b (s\<lparr>ew_alerts := Suc (ew_alerts s), ew_selections := alist_del ERROR_SELECTION (ew_selections s)\<rparr>))"
    using run_script_ends by blast
  show "ew_run_state s = DONE_TYPING \<Longrightarrow> crs_s (ew_code s) = ew_prev_code s \<Longrightarrow> ew_pos s = ew_prev_pos s \<Longrightarrow>
       editor_update E s = (Ok (), took READY (snd (run_script E s)))"
    using r by (simp add: d put_mail_def)
qed

lemma editor_send_ends:
  assumes "cl_ok (lu_contacts (ae_user (ee_api E)))"
  shows "\<exists>b ls. editor_send E u m s = (Ok (), put_mail b s) \<and> outbox b = outbox (ew_mail s) @ ls \<and>
    set ls \<subseteq> range (letter_to (ae_user (ee_api E)) (mailbox_address (ew_mail s)) m) \<and> inbox b = inbox (ew_mail s) \<and> mailbox_address b = mailbox_address (ew_mail s)"
proof -
  obtain r b ls where b: "sender_send (ae_user (ee_api E)) u m (ew_mail s) = Ok (r, b)" "outbox b = outbox (ew_mail s) @ ls"
    "set ls \<subseteq> range (letter_to (ae_user (ee_api E)) (mailbox_address (ew_mail s)) m)" "inbox b = inbox (ew_mail s)" "mailbox_address b = mailbox_address (ew_mail s)"
    using sender_send_ends [OF assms] by meson
  then show ?thesis by (intro exI [of _ b] exI [of _ ls]) (simp add: editor_send_def api_send_def on_lua_def partA_def thenA_def bindA_def retA_def put_mail_def)
qed

lemma editor_send_all_ends:
  assumes "cl_ok (lu_contacts (ae_user (ee_api E)))"
  shows "\<exists>b ls. editor_send_all E m s = (Ok (), put_mail b s) \<and> outbox b = outbox (ew_mail s) @ ls \<and>
    set ls \<subseteq> range (letter_to (ae_user (ee_api E)) (mailbox_address (ew_mail s)) m) \<and> inbox b = inbox (ew_mail s) \<and> mailbox_address b = mailbox_address (ew_mail s)"
proof -
  have "\<exists>b ls. forA (\<lambda>c. editor_send E (ui_id c) m) cs s = (Ok (), put_mail b s) \<and> outbox b = outbox (ew_mail s) @ ls \<and>
    set ls \<subseteq> range (letter_to (ae_user (ee_api E)) (mailbox_address (ew_mail s)) m) \<and> inbox b = inbox (ew_mail s) \<and> mailbox_address b = mailbox_address (ew_mail s)" for cs
  proof (induction cs arbitrary: s)
    case Nil
    show ?case by (intro exI [of _ "ew_mail s"] exI [of _ "[]"]) (simp add: retA_def)
  next
    case (Cons c cs)
    obtain b ls where b: "editor_send E (ui_id c) m s = (Ok (), put_mail b s)" "outbox b = outbox (ew_mail s) @ ls"
      "set ls \<subseteq> range (letter_to (ae_user (ee_api E)) (mailbox_address (ew_mail s)) m)" "inbox b = inbox (ew_mail s)" "mailbox_address b = mailbox_address (ew_mail s)"
      using editor_send_ends [OF assms] by meson
    obtain b1 ls1 where b1: "forA (\<lambda>c. editor_send E (ui_id c) m) cs (put_mail b s) = (Ok (), put_mail b1 s)" "outbox b1 = outbox b @ ls1"
      "set ls1 \<subseteq> range (letter_to (ae_user (ee_api E)) (mailbox_address b) m)" "inbox b1 = inbox b" "mailbox_address b1 = mailbox_address b"
      using Cons.IH [of "put_mail b s"] by auto
    have "forA (\<lambda>c. editor_send E (ui_id c) m) (c # cs) s = (Ok (), put_mail b1 s)" using b(1) b1(1) by (simp only: forA.simps thenA_def bindA_Ok)
    then show ?case using b(2-5) b1(2-5) by (intro exI [of _ b1] exI [of _ "ls @ ls1"]) simp
  qed
  then show ?thesis by (simp add: editor_send_all_def)
qed

text \<open>
  What happens between two ticks of the timer and does not run the app: the user types, moves the cursor, adds, loads and removes data, saves and exports, the error of
  the app is shown, messages are handed over to the interface, and it takes them, except code that comes with data.
\<close>

definition own_ops :: "'k editor_env \<Rightarrow> snappy_lib \<Rightarrow> ('s, unit) ew_action set" where
  "own_ops E S = {m. \<exists>txt pos. m = key_pressed E txt pos} \<union> {m. \<exists>pos x y. m = cursor_moved E pos x y} \<union> {m. \<exists>u k v. m = add_data E u k v} \<union> range (data_item_remove E) \<union>
     range load_data_from_file \<union> range (editor_save_app E) \<union> {m. \<exists>n file. m = editor_export_app E S n file} \<union> {m. \<exists>place color. m = update_error place color}"

definition brings_data :: "'k editor_env \<Rightarrow> message \<Rightarrow> bool" where
  "brings_data E m \<longleftrightarrow> mt_type (m_meta m) = SCRIPT_CODE_MESSAGE \<and>
     (case text_script_from_message (ee_cxx E) m of Ok t \<Rightarrow> cl_has (am_from_id (ts_from t)) (ee_contacts E) \<and> ts_data t \<noteq> [] | _ \<Rightarrow> False)"

inductive between :: "'k editor_env \<Rightarrow> snappy_lib \<Rightarrow> 's app_editor \<Rightarrow> 's app_editor \<Rightarrow> bool" for E S where
  Own: "m \<in> own_ops E S \<Longrightarrow> survives m s s1 \<Longrightarrow> between E S s s1"
| Handed: "survives (emit_got m) s s1 \<Longrightarrow> between E S s s1"
| Taken: "ew_slots s = m # ms \<Longrightarrow> \<not> brings_data E m \<Longrightarrow> survives (editor_slot E) s s1 \<Longrightarrow> between E S s s1"

abbreviation "ew_text s \<equiv> crs_s (ew_code s)"

text \<open>Rounds that end with a tick: while there is typing every tick finds another code than the one before; at rest code, cursor and the state of the timer are kept.\<close>

inductive typing :: "'k editor_env \<Rightarrow> snappy_lib \<Rightarrow> 's app_editor \<Rightarrow> 's app_editor \<Rightarrow> bool" for E S where
  One: "(between E S)\<^sup>*\<^sup>* s a \<Longrightarrow> ew_text a \<noteq> ew_prev_code s \<Longrightarrow> survives (editor_update E) a b \<Longrightarrow> typing E S s b"
| More: "(between E S)\<^sup>*\<^sup>* s a \<Longrightarrow> ew_text a \<noteq> ew_prev_code s \<Longrightarrow> survives (editor_update E) a b \<Longrightarrow> typing E S b c \<Longrightarrow> typing E S s c"

inductive resting :: "'k editor_env \<Rightarrow> snappy_lib \<Rightarrow> nat \<Rightarrow> 's app_editor \<Rightarrow> 's app_editor \<Rightarrow> bool" for E S where
  Rest: "resting E S 0 s s"
| Tick: "(between E S)\<^sup>*\<^sup>* s a \<Longrightarrow> ew_text a = ew_text s \<Longrightarrow> ew_pos a = ew_pos s \<Longrightarrow> ew_run_state a = ew_run_state s \<Longrightarrow>
    survives (editor_update E) a b \<Longrightarrow> resting E S n b c \<Longrightarrow> resting E S (Suc n) s c"

definition waits :: "message list \<Rightarrow> string \<Rightarrow> nat \<Rightarrow> 's app_editor \<Rightarrow> bool" where
  "waits ms p q s \<longleftrightarrow> inbox (ew_mail s) = ms \<and> ew_prev_code s = p \<and> ew_prev_pos s = q \<and> ew_started s = DONE_START"

lemma waits_mod: "(\<And>s. ew_lua (f s) = ew_lua s \<and> ew_prev_code (f s) = ew_prev_code s \<and> ew_prev_pos (f s) = ew_prev_pos s \<and> ew_started (f s) = ew_started s) \<Longrightarrow> keeps (waits ms p q) (modA f)"
  by (rule keeps_modA) (simp add: waits_def)

lemma waits_data: "keeps (waits ms p q) (on_data m)"
  unfolding keeps_def on_data_def Let_def waits_def by (auto split: prod.splits outcome.splits)

lemma waits_service: "keeps (waits ms p q) (on_service m)"
  unfolding keeps_def on_service_def Let_def waits_def by (auto split: prod.splits)

lemma push_outbox_keeps: "push_outbox m b = Ok c \<Longrightarrow> inbox c = inbox b"
  using push_outbox_Ok [of m b] by auto

lemma sender_send_inbox: "sender_send lu u m mail = Ok (r, b) \<Longrightarrow> inbox b = inbox mail"
  by (auto simp: sender_send_def Let_def dest!: push_outbox_keeps split: option.splits)

lemma waits_send: "keeps (waits ms p q :: 's app_editor \<Rightarrow> bool) (editor_send E u m)"
proof -
  have "inbox (la_mail (snd (api_send (ee_api E) u m a))) = inbox (la_mail a)" for a :: "'s lua_api"
    using sender_send_inbox [of "ae_user (ee_api E)" u m "la_mail a"] by (auto simp: api_send_def partA_def bindA_def retA_def split: outcome.splits prod.splits)
  then show ?thesis unfolding keeps_def editor_send_def on_lua_def Let_def split_beta waits_def snd_conv by (intro allI impI) (simp del: split_paired_All)
qed

lemma waits_send_all: "keeps (waits ms p q) (editor_send_all E m)"
  unfolding editor_send_all_def by (rule keeps_for) (rule waits_send)

lemmas waits_basic = waits_mod waits_data waits_service waits_send waits_send_all

lemma waits_prepare: "keeps (waits ms p q) (prepare_script_message E b)"
  unfolding prepare_script_message_def by (intro keeps_intros waits_basic)

lemma waits_script: "keeps (waits ms p q) (send_script E b)" "keeps (waits ms p q) (send_script_to E i)"
  unfolding send_script_def send_script_to_def by (intro keeps_intros waits_basic waits_prepare)+

lemma waits_cursor: "keeps (waits ms p q) (cursor_changed E x y)"
  unfolding cursor_changed_def by (intro keeps_intros waits_basic)

lemma waits_typed: "keeps (waits ms p q) (key_pressed E txt pos)" "keeps (waits ms p q) (cursor_moved E pos x y)"
  unfolding key_pressed_def text_typed_def cursor_moved_def by (intro keeps_intros waits_basic waits_script waits_cursor; simp)+

lemma waits_updated: "keeps (waits ms p q) (data_updated E)"
  unfolding data_updated_def by (intro keeps_intros waits_basic waits_script; simp)

lemma waits_add: "keeps (waits ms p q) (add_data E u k v)" "keeps (waits ms p q) (data_item_remove E k)" "keeps (waits ms p q) (load_data_from_file f)"
  unfolding add_data_def Let_def data_item_remove_def load_data_from_file_def by (intro keeps_intros waits_basic waits_updated; simp)+

lemma waits_name: "keeps (waits ms p q) (set_app_name n)" "keeps (waits ms p q) update_app_code"
  unfolding set_app_name_def update_app_code_def by (intro keeps_intros waits_basic; simp)+

lemma waits_save: "keeps (waits ms p q) (editor_save_app E n)" "keeps (waits ms p q) (editor_export_app E S n file)"
  unfolding editor_save_app_def editor_export_app_def by (intro keeps_intros waits_basic waits_name; simp)+

lemma waits_error: "keeps (waits ms p q) (update_error place color)"
  unfolding update_error_def set_selection_def clear_selection_def by (intro keeps_intros waits_basic; simp)

lemma waits_own: "m \<in> own_ops E S \<Longrightarrow> keeps (waits ms p q) m"
  by (auto simp: own_ops_def intro: waits_typed waits_add waits_save waits_error)

lemma waits_show: "keeps (waits ms p q) (show_code E)"
  unfolding show_code_def by (intro keeps_intros waits_basic waits_cursor; simp)

lemma keeps_lift: "(\<And>a. r = Ok a \<Longrightarrow> keeps I (f a)) \<Longrightarrow> keeps I (bindA (liftA r) f)"
  by (cases r) (auto simp: keeps_def bindA_def liftA_def)

lemma waits_code:
  assumes "\<not> brings_data E m" "mt_type (m_meta m) = SCRIPT_CODE_MESSAGE"
  shows "keeps (waits ms p q) (received_code E m)"
proof -
  have "keeps (waits ms p q) (if \<not> cl_has (am_from_id (ts_from t)) (ee_contacts E) then retA ()
       else bindA (getA ew_code) (\<lambda>x. bindA (liftA (cr_merge x (ts_code t))) (\<lambda>(res, x1).
         thenA (modA (\<lambda>s. s\<lparr>ew_code := x1, ew_dirty := True\<rparr>))
        (thenA (show_code E) (if ts_data t = [] then retA () else import_data E res (ts_data t))))))"
    if t: "text_script_from_message (ee_cxx E) m = Ok t" for t
  proof (cases "cl_has (am_from_id (ts_from t)) (ee_contacts E)")
    case True
    then have "ts_data t = []" using t assms by (simp add: brings_data_def)
    then show ?thesis by (simp only: True simp_thms if_True if_False) (intro keeps_intros waits_basic waits_show; simp)
  qed (simp add: keeps_quiet)
  then show ?thesis unfolding received_code_def by (intro keeps_then keeps_quiet keeps_lift)
qed

lemma waits_asked: "keeps (waits ms p q) (received_script_init E m)" "keeps (waits ms p q) (received_cursor_pos E m)"
  unfolding received_script_init_def received_cursor_pos_def set_selection_def by (intro keeps_intros waits_basic waits_script; simp)+

lemma between_waits:
  assumes "between E S s s1" "waits ms p q s"
  shows "waits ms p q s1"
  using assms
proof cases
  case (Own m)
  then show ?thesis using assms(2) waits_own by (metis survives_keeps [where I = "waits ms p q"])
next
  case (Handed m)
  have "keeps (waits ms p q) (emit_got m)" unfolding emit_got_def by (rule waits_mod) simp
  then show ?thesis by (rule survives_keeps [where I = "waits ms p q", OF Handed assms(2)])
next
  case (Taken m ms1)
  let ?h = "if mt_type (m_meta m) = SCRIPT_CODE_MESSAGE then received_code E m
    else if mt_type (m_meta m) = SCRIPT_INIT_MESSAGE then received_script_init E m else received_cursor_pos E m"
  have "keeps (waits ms p q) (catchA ?h)" using Taken(2) by (intro keeps_catch keeps_if waits_code waits_asked)
  moreover have "waits ms p q (s\<lparr>ew_slots := ms1\<rparr>)" using assms(2) by (simp add: waits_def)
  moreover have "survives (catchA ?h) (s\<lparr>ew_slots := ms1\<rparr>) s1" using Taken(1,3) by (simp add: survives_def editor_slot_def)
  ultimately show ?thesis using survives_keeps [where I = "waits ms p q"] by blast
qed

lemma betweens_wait: "(between E S)\<^sup>*\<^sup>* s a \<Longrightarrow> waits ms p q s \<Longrightarrow> waits ms p q a"
  by (induction rule: rtranclp_induct) (auto intro: between_waits)

definition settling :: "cxx_lib \<Rightarrow> message list \<Rightarrow> nat \<Rightarrow> 's app_editor \<Rightarrow> bool" where
  "settling L ms n s \<longleftrightarrow> waits (ms @ (if n < 2 then [] else run_letters L (ew_text s))) (ew_text s) (ew_pos s) s \<and>
     ew_run_state s = (if n = 0 then CODE_CHANGED else if n = 1 then DONE_TYPING else READY)"

lemma waitsD: "waits ms p q s \<Longrightarrow> inbox (ew_mail s) = ms \<and> ew_prev_code s = p \<and> ew_prev_pos s = q \<and> ew_started s = DONE_START"
  by (simp add: waits_def)

lemma tick_ends:
  assumes "ew_started s = DONE_START"
  shows "\<exists>a. editor_update E s = (Ok (), a)"
proof -
  have i: "init_update E s = (Ok (), s)" using assms by (simp add: init_update_def bindA_def getA_def retA_def)
  obtain b where "run_script E s = (Ok (), b)" using run_script_ends by blast
  then show ?thesis by (cases "ew_run_state s") (simp_all add: editor_update_def bindA_def getA_def retA_def i set_run_state_def modA_def)
qed

lemma survivesI: "m s = (Ok x, a) \<Longrightarrow> survives m s a"
  by (simp add: survives_def)

lemma survives_Ok: "m s = (Ok x, a) \<Longrightarrow> survives m s b \<Longrightarrow> b = a"
  by (simp add: survives_def)

lemma typing_tick:
  assumes "(between E S)\<^sup>*\<^sup>* s a" "ew_text a \<noteq> ew_prev_code s" "survives (editor_update E) a b" "waits ms (ew_prev_code s) q s"
  shows "settling (ee_cxx E) ms 0 b"
proof -
  have w: "waits ms (ew_prev_code s) q a" by (rule betweens_wait [OF assms(1,4)])
  have "editor_update E a = (Ok (), took CODE_CHANGED a)" using update_cases(1) [of a E] w assms(2) by (simp add: waits_def)
  then have "b = took CODE_CHANGED a" using assms(3) by (rule survives_Ok)
  then show ?thesis using w by (simp add: settling_def waits_def took_def)
qed

lemma typing_settles: "typing E S s b \<Longrightarrow> waits ms (ew_prev_code s) q s \<Longrightarrow> settling (ee_cxx E) ms 0 b"
proof (induction arbitrary: q rule: typing.induct)
  case (One s a b)
  then show ?case by (rule typing_tick)
next
  case (More s a b c)
  have "settling (ee_cxx E) ms 0 b" using typing_tick [OF More(1-3) More.prems] .
  then have "waits ms (ew_prev_code b) (ew_pos b) b" by (simp add: settling_def waits_def)
  then show ?case by (rule More.IH)
qed

lemma resting_tick:
  assumes "settling (ee_cxx E) ms k s" "(between E S)\<^sup>*\<^sup>* s a" "ew_text a = ew_text s" "ew_pos a = ew_pos s" "ew_run_state a = ew_run_state s" "survives (editor_update E) a b"
  shows "settling (ee_cxx E) ms (Suc k) b \<and> ew_text b = ew_text s"
proof -
  have w: "waits (ms @ (if k < 2 then [] else run_letters (ee_cxx E) (ew_text s))) (ew_text s) (ew_pos s) a" using betweens_wait [OF assms(2)] assms(1) by (simp add: settling_def)
  have f: "ew_started a = DONE_START" "ew_text a = ew_prev_code a" "ew_pos a = ew_prev_pos a" using w assms(3,4) by (simp_all add: waits_def)
  have r: "ew_run_state a = (if k = 0 then CODE_CHANGED else if k = 1 then DONE_TYPING else READY)" using assms(1,5) by (simp add: settling_def)
  consider "k = 0" | "k = 1" | "2 \<le> k" by linarith
  then show ?thesis
  proof cases
    case 1
    then have "b = took DONE_TYPING a" using survives_Ok [OF update_cases(2) [OF f(1), of E] assms(6)] f r by simp
    then show ?thesis using 1 w assms(3,4) by (simp add: settling_def waits_def took_def)
  next
    case 2
    obtain c where c: "run_script E a = (Ok (), put_mail c (a\<lparr>ew_alerts := Suc (ew_alerts a), ew_selections := alist_del ERROR_SELECTION (ew_selections a)\<rparr>))"
      "inbox c = inbox (ew_mail a) @ run_letters (ee_cxx E) (ew_text a)" using run_script_ends by blast
    have "b = took READY (snd (run_script E a))" using 2 survives_Ok [OF update_cases(3) [OF f(1), of E] assms(6)] f r by simp
    then show ?thesis using 2 w c assms(3,4) by (simp add: settling_def waits_def took_def put_mail_def)
  next
    case 3
    then have "b = took READY a" using survives_Ok [OF update_cases(4) [OF f(1), of E] assms(6)] f r by simp
    then show ?thesis using 3 w assms(3,4) by (simp add: settling_def waits_def took_def)
  qed
qed

lemma resting_settles: "resting E S n s b \<Longrightarrow> settling (ee_cxx E) ms k s \<Longrightarrow> settling (ee_cxx E) ms (k + n) b \<and> ew_text b = ew_text s"
proof (induction arbitrary: k rule: resting.induct)
  case (Tick s a b n c)
  then show ?case using resting_tick [OF Tick.prems Tick.hyps(1-5)] Tick.IH [of "Suc k"] by simp
qed simp

lemma import_runs:
  assumes "import_data E r b s = (Ok (), c)" "waits ms p q s"
  shows "inbox (ew_mail c) = ms @ run_letters (ee_cxx E) (ew_text c) \<and> ew_prev_code c = ew_text c \<and> ew_run_state c = READY"
proof -
  obtain d where d: "thenA (if r = UPDATED then on_data (ds_clear (ee_cxx E) (ee_fs E)) else retA ())
     (thenA (on_data (import_from (ee_cxx E) (ee_fs E) (ee_names E) d))
     (thenA (modA (\<lambda>s. s\<lparr>ew_prev_code := crs_s (ew_code s), ew_run_state := READY\<rparr>)) (run_script E))) s = (Ok (), c)"
    using assms(1) unfolding import_data_def by (auto simp: liftA_def dest!: bindA_OkD)
  obtain x s1 where s1: "(if r = UPDATED then on_data (ds_clear (ee_cxx E) (ee_fs E)) else retA ()) s = (Ok x, s1)"
    "thenA (on_data (import_from (ee_cxx E) (ee_fs E) (ee_names E) d)) (thenA (modA (\<lambda>s. s\<lparr>ew_prev_code := crs_s (ew_code s), ew_run_state := READY\<rparr>)) (run_script E)) s1 = (Ok (), c)"
    using bindA_OkD [OF d [unfolded thenA_def]] unfolding thenA_def by blast
  obtain y s2 where s2: "on_data (import_from (ee_cxx E) (ee_fs E) (ee_names E) d) s1 = (Ok y, s2)"
    "bindA (modA (\<lambda>s. s\<lparr>ew_prev_code := crs_s (ew_code s), ew_run_state := READY\<rparr>)) (\<lambda>_. run_script E) s2 = (Ok (), c)"
    using bindA_OkD [OF s1(2) [unfolded thenA_def]] by blast
  then have s3: "run_script E (s2\<lparr>ew_prev_code := crs_s (ew_code s2), ew_run_state := READY\<rparr>) = (Ok (), c)" by (simp add: bindA_def modA_def)
  have "keeps (waits ms p q) (if r = UPDATED then on_data (ds_clear (ee_cxx E) (ee_fs E)) else retA ())" by (intro keeps_intros waits_basic)
  from keepsD [OF this assms(2)] have "waits ms p q s1" by (simp only: s1(1) snd_conv)
  from keepsD [OF waits_data [where m = "import_from (ee_cxx E) (ee_fs E) (ee_names E) d"] this] have "waits ms p q s2" by (simp only: s2(1) snd_conv)
  moreover obtain e where "run_script E (s2\<lparr>ew_prev_code := crs_s (ew_code s2), ew_run_state := READY\<rparr>) = (Ok (), put_mail e (s2\<lparr>ew_prev_code := crs_s (ew_code s2), ew_run_state := READY,
      ew_alerts := Suc (ew_alerts s2), ew_selections := alist_del ERROR_SELECTION (ew_selections s2)\<rparr>))" "inbox e = inbox (ew_mail s2) @ run_letters (ee_cxx E) (ew_text s2)"
    using run_script_ends [of E "s2\<lparr>ew_prev_code := crs_s (ew_code s2), ew_run_state := READY\<rparr>"] by auto
  ultimately show ?thesis using s3 by (auto simp: waits_def put_mail_def)
qed

lemma received_data_runs:
  assumes "brings_data E m" "received_code E m s = (Ok (), c)" "waits ms p q s"
  shows "inbox (ew_mail c) = ms @ run_letters (ee_cxx E) (ew_text c) \<and> ew_prev_code c = ew_text c \<and> ew_run_state c = READY"
proof -
  obtain t where t: "text_script_from_message (ee_cxx E) m = Ok t" "cl_has (am_from_id (ts_from t)) (ee_contacts E)" "ts_data t \<noteq> []"
    using assms(1) by (auto simp: brings_data_def split: outcome.splits)
  let ?k = "\<lambda>(res, x1). thenA (modA (\<lambda>s. s\<lparr>ew_code := x1, ew_dirty := True\<rparr>)) (thenA (show_code E) (if ts_data t = [] then retA () else import_data E res (ts_data t)))"
  have "bindA (liftA (cr_merge (ew_code s) (ts_code t))) ?k s = (Ok (), c)"
    using assms(1,2) t(1,2) by (simp add: received_code_def brings_data_def liftA_def bindA_def getA_def requireA_def thenA_def)
  then obtain res x1 where "thenA (modA (\<lambda>s. s\<lparr>ew_code := x1, ew_dirty := True\<rparr>)) (thenA (show_code E) (import_data E res (ts_data t))) s = (Ok (), c)"
    using t(3) by (cases "cr_merge (ew_code s) (ts_code t)") (auto simp: liftA_def bindA_def)
  then have "bindA (show_code E) (\<lambda>_. import_data E res (ts_data t)) (s\<lparr>ew_code := x1, ew_dirty := True\<rparr>) = (Ok (), c)" by (simp add: bindA_def modA_def)
  from bindA_OkD [OF this] obtain y s1 where s1: "show_code E (s\<lparr>ew_code := x1, ew_dirty := True\<rparr>) = (Ok y, s1)" "import_data E res (ts_data t) s1 = (Ok (), c)"
    using bindA_OkD by blast
  have "waits ms p q (s\<lparr>ew_code := x1, ew_dirty := True\<rparr>)" using assms(3) by (simp add: waits_def)
  from keepsD [OF waits_show [where E = E] this] have "waits ms p q s1" by (simp only: s1(1) snd_conv)
  then show ?thesis by (rule import_runs [OF s1(2)])
qed

text \<open>
  C37. The app runs when the typing is over.  As long as every tick finds another code than the tick before, the editor puts nothing in the inbox of the app, while the user
  types, moves the cursor, changes data, saves and exports, and codes without data, questions and cursors are received.  When from then on code, cursor and data rest, the
  second tick resets the app and puts the code in its inbox, if it is not empty, and further ticks put in nothing.  Code that comes with data is the exception: it is run at
  once.  No tick fails.  What the thread of the app takes out of the inbox, and what the widgets of the running app and leaving contacts put in, is left out.
\<close>

theorem code_runs_when_settled:
  assumes "ew_started s = DONE_START" "typing E S s a" "resting E S n a b"
  shows "inbox (ew_mail a) = inbox (ew_mail s) \<and> ew_text b = ew_text a \<and>
    inbox (ew_mail b) = inbox (ew_mail s) @ (if n < 2 then [] else run_letters (ee_cxx E) (ew_text a)) \<and>
    (\<exists>c. editor_update E b = (Ok (), c)) \<and>
    (\<forall>m c. brings_data E m \<and> received_code E m b = (Ok (), c) \<longrightarrow>
       inbox (ew_mail c) = inbox (ew_mail b) @ run_letters (ee_cxx E) (ew_text c) \<and> ew_run_state c = READY)"
proof -
  have a: "settling (ee_cxx E) (inbox (ew_mail s)) 0 a" using typing_settles [OF assms(2), of "inbox (ew_mail s)" "ew_prev_pos s"] assms(1) by (simp add: waits_def)
  have b: "settling (ee_cxx E) (inbox (ew_mail s)) n b" "ew_text b = ew_text a" using resting_settles [OF assms(3) a] by simp_all
  have "waits (inbox (ew_mail b)) (ew_prev_code b) (ew_prev_pos b) b" using b(1) by (simp add: settling_def waits_def)
  then have "inbox (ew_mail c) = inbox (ew_mail b) @ run_letters (ee_cxx E) (ew_text c) \<and> ew_run_state c = READY" if "brings_data E m" "received_code E m b = (Ok (), c)" for m c
    using received_data_runs [OF that] by simp
  moreover have "inbox (ew_mail a) = inbox (ew_mail s)" using a by (simp add: settling_def waits_def)
  moreover have "inbox (ew_mail b) = inbox (ew_mail s) @ (if n < 2 then [] else run_letters (ee_cxx E) (ew_text a))" "\<exists>c. editor_update E b = (Ok (), c)"
    using b tick_ends [of b E] by (simp_all add: settling_def waits_def)
  ultimately show ?thesis using b(2) by blast
qed

definition sample_editor_env :: "string \<Rightarrow> nat editor_env" where
  "sample_editor_env u =
     \<lparr>ee_api = sample_api_env\<lparr>ae_user := ce_user (sample_chat u), ae_conv := sample_conversation\<lparr>cv_contacts := ce_contacts (sample_chat u)\<rparr>\<rparr>,
      ee_dirs = sample_dirs, ee_names = [], ee_color = (\<lambda>_. ''abc''), ee_shown = (\<lambda>s. s)\<rparr>"

definition sample_editor :: "string \<Rightarrow> calls app_editor" where
  "sample_editor u = editor_new (sample_engine :: (nat, calls) script_engine) (sample_editor_env u) ''a'' ''i'' App_Service.sample_app App_Service.sample_service"

lemma sample_editor_code: "ew_code (sample_editor u) = cr_init_set ''x'' (cr_new u)"
  by (simp add: sample_editor_def editor_new_def sample_editor_env_def sample_api_env_def App_Service.sample_app_def sample_chat_def sample_info_def Let_def)

theorem code_runs_when_settled_witness:
  "\<exists>a b. typing (sample_editor_env ''a'') model_snappy (sample_editor ''a'') a \<and> resting (sample_editor_env ''a'') model_snappy 2 a b \<and>
      inbox (ew_mail b) = [ui_letter decimal_lib Reset, ui_letter decimal_lib (Run_Code ''hi'')]"
proof -
  let ?E = "sample_editor_env ''a''" and ?s = "sample_editor ''a''"
  have L: "ee_cxx ?E = decimal_lib" by (simp add: sample_editor_env_def sample_api_env_def)
  have s: "ew_started ?s = DONE_START" "inbox (ew_mail ?s) = []" "ew_prev_code ?s = []"
    by (simp_all add: sample_editor_def editor_new_def lua_api_new_def mailbox_new_def umailbox_new_def queue_new_def)
  have cl: "cl_ok (lu_contacts (ae_user (ee_api ?E)))" by (auto simp: sample_editor_env_def sample_api_env_def sample_chat_def Let_def sample_info_def intro!: indexed_ok)
  let ?s1 = "?s\<lparr>ew_script := ''hi'', ew_pos := 0, ew_code := cr_set ''hi'' (ew_code ?s), ew_dirty := True\<rparr>"
  obtain m where m: "text_script_to_message (ee_cxx ?E) \<lparr>ts_from = as_message_default, ts_init = False, ts_code = ew_code ?s1, ts_data = []\<rparr> = Ok m"
    by (simp add: text_script_to_message_def to_message_def Let_def as_message_default_def)
  obtain b where "editor_send_all ?E m ?s1 = (Ok (), put_mail b ?s1)" using editor_send_all_ends [OF cl] by meson
  then have k: "key_pressed ?E ''hi'' 0 ?s = (Ok (), put_mail b ?s1)"
    using m by (simp add: key_pressed_def cursor_changed_def text_typed_def send_script_def prepare_script_message_def bindA_def modA_def getA_def retA_def liftA_def)
  have "key_pressed ?E ''hi'' 0 \<in> own_ops ?E model_snappy" by (auto simp: own_ops_def)
  then have "between ?E model_snappy ?s (put_mail b ?s1)" using survivesI [of "key_pressed ?E ''hi'' 0", OF k] by (rule between.Own)
  then have k1: "(between ?E model_snappy)\<^sup>*\<^sup>* ?s (put_mail b ?s1)" by blast
  have t: "ew_text (put_mail b ?s1) = ''hi''" by (simp add: cr_set_def)
  have k2: "waits (inbox (ew_mail ?s)) (ew_prev_code ?s) (ew_prev_pos ?s) (put_mail b ?s1)" using betweens_wait [OF k1] s(1) by (simp add: waits_def)
  obtain a where a: "editor_update ?E (put_mail b ?s1) = (Ok (), a)" using tick_ends [of "put_mail b ?s1" ?E] k2 by (auto simp: waits_def)
  have ty: "typing ?E model_snappy ?s a" using k1 a t s(3) by (intro typing.One) (auto simp: survives_def)
  have ad: "a = took CODE_CHANGED (put_mail b ?s1)" using update_cases(1) [of "put_mail b ?s1" ?E] k2 t s(3) a by (simp add: waits_def)
  have as: "ew_started a = DONE_START" "ew_text a = ''hi''" using k2 t by (simp_all add: ad took_def waits_def)
  obtain c where c: "editor_update ?E a = (Ok (), c)" using tick_ends [OF as(1)] by blast
  have "c = took DONE_TYPING a" using update_cases(2) [OF as(1), of ?E] c by (simp add: ad took_def put_mail_def)
  then have cs: "ew_started c = DONE_START" using as(1) by (simp add: took_def)
  obtain e where e: "editor_update ?E c = (Ok (), e)" using tick_ends [OF cs] by blast
  have "resting ?E model_snappy (Suc 0) c e"
    by (rule resting.Tick [OF rtranclp.rtrancl_refl refl refl refl survivesI [of "editor_update ?E", OF e] resting.Rest])
  then have "resting ?E model_snappy (Suc (Suc 0)) a e"
    by (rule resting.Tick [OF rtranclp.rtrancl_refl refl refl refl survivesI [of "editor_update ?E", OF c]])
  then have re: "resting ?E model_snappy 2 a e" by (simp add: numeral_2_eq_2)
  show ?thesis using ty re code_runs_when_settled [OF s(1) ty re] as(2) s(2) by (intro exI [of _ a] exI [of _ e]) (simp add: L run_letters_def)
qed

end
