(* ===== verification/Versions.thy ===== *)
theory Versions
  imports Fire_Prelude
begin

text \<open>
  Versions of a text that several users change and send to each other, without messages and without the program: what holds of the counters and the texts, and the moves
  that keep it.  The editors of apps (\<open>Editor_Net\<close>) make these moves.
\<close>

section \<open>Versions\<close>

text \<open>
  What the editors of one app agree on, without messages: \<open>C\<close> and \<open>T\<close> are the counters and the text of every user, \<open>M\<close> the texts that were said, each with its counters, and
  \<open>V\<close> all versions with the user who made them.  Who counts a version of its maker has everything that version was made from.
\<close>

type_synonym counts = "string \<Rightarrow> nat"

definition versions_ok :: "string set \<Rightarrow> (string \<Rightarrow> counts) \<Rightarrow> (string \<Rightarrow> string) \<Rightarrow> (counts \<times> string) set \<Rightarrow> (string \<times> counts \<times> string) set \<Rightarrow> bool" where
  "versions_ok U C T M V \<longleftrightarrow>
     (\<forall>i. i \<in> U \<longrightarrow> (\<exists>a. (a, C i, T i) \<in> V)) \<and> (\<forall>c s. (c, s) \<in> M \<longrightarrow> (\<exists>a. (a, c, s) \<in> V)) \<and>
     (\<forall>a c s. (a, c, s) \<in> V \<longrightarrow> a \<in> U) \<and> (\<forall>a c s k. (a, c, s) \<in> V \<longrightarrow> k \<in> U \<longrightarrow> c k \<le> C k k) \<and>
     (\<forall>a c s b d u. (a, c, s) \<in> V \<longrightarrow> (b, d, u) \<in> V \<longrightarrow> c a \<le> d a \<longrightarrow> c \<le> d) \<and>
     (\<forall>a c s b u. (a, c, s) \<in> V \<longrightarrow> (b, c, u) \<in> V \<longrightarrow> s = u) \<and>
     (\<forall>a c s j. (a, c, s) \<in> V \<longrightarrow> j \<in> U \<longrightarrow> c \<le> C j \<longrightarrow> a \<noteq> j \<longrightarrow> (\<exists>d u. (d, u) \<in> M \<and> c \<le> d \<and> d \<le> C j)) \<and>
     (\<forall>j c s. j \<in> U \<longrightarrow> (c, s) \<in> M \<longrightarrow> c \<le> C j \<longrightarrow> (\<forall>d u. (d, u) \<in> M \<longrightarrow> d \<le> C j \<longrightarrow> d \<le> c) \<longrightarrow> T j = s)"

lemma versions_okI:
  assumes "\<And>i. i \<in> U \<Longrightarrow> \<exists>a. (a, C i, T i) \<in> V" "\<And>c s. (c, s) \<in> M \<Longrightarrow> \<exists>a. (a, c, s) \<in> V"
    and "\<And>a c s. (a, c, s) \<in> V \<Longrightarrow> a \<in> U" "\<And>a c s k. (a, c, s) \<in> V \<Longrightarrow> k \<in> U \<Longrightarrow> c k \<le> C k k"
    and "\<And>a c s b d u. (a, c, s) \<in> V \<Longrightarrow> (b, d, u) \<in> V \<Longrightarrow> c a \<le> d a \<Longrightarrow> c \<le> d"
    and "\<And>a c s b u. (a, c, s) \<in> V \<Longrightarrow> (b, c, u) \<in> V \<Longrightarrow> s = u"
    and "\<And>a c s j. (a, c, s) \<in> V \<Longrightarrow> j \<in> U \<Longrightarrow> c \<le> C j \<Longrightarrow> a \<noteq> j \<Longrightarrow> \<exists>d u. (d, u) \<in> M \<and> c \<le> d \<and> d \<le> C j"
    and "\<And>j c s. j \<in> U \<Longrightarrow> (c, s) \<in> M \<Longrightarrow> c \<le> C j \<Longrightarrow> (\<And>d u. (d, u) \<in> M \<Longrightarrow> d \<le> C j \<Longrightarrow> d \<le> c) \<Longrightarrow> T j = s"
  shows "versions_ok U C T M V"
  unfolding versions_ok_def using assms by (intro conjI) blast+

lemma v_current: "versions_ok U C T M V \<Longrightarrow> i \<in> U \<Longrightarrow> \<exists>a. (a, C i, T i) \<in> V"
  unfolding versions_ok_def by (elim conjE) metis

lemma v_said: "versions_ok U C T M V \<Longrightarrow> (c, s) \<in> M \<Longrightarrow> \<exists>a. (a, c, s) \<in> V"
  unfolding versions_ok_def by (elim conjE) metis

lemma v_maker: "versions_ok U C T M V \<Longrightarrow> (a, c, s) \<in> V \<Longrightarrow> a \<in> U"
  unfolding versions_ok_def by (elim conjE) metis

lemma v_bound: "versions_ok U C T M V \<Longrightarrow> (a, c, s) \<in> V \<Longrightarrow> k \<in> U \<Longrightarrow> c k \<le> C k k"
  unfolding versions_ok_def by (elim conjE) metis

lemma v_follows: "versions_ok U C T M V \<Longrightarrow> (a, c, s) \<in> V \<Longrightarrow> (b, d, u) \<in> V \<Longrightarrow> c a \<le> d a \<Longrightarrow> c \<le> d"
  unfolding versions_ok_def by (elim conjE) blast

lemma v_text: "versions_ok U C T M V \<Longrightarrow> (a, c, s) \<in> V \<Longrightarrow> (b, c, u) \<in> V \<Longrightarrow> s = u"
  unfolding versions_ok_def by (elim conjE) metis

lemma v_heard: "versions_ok U C T M V \<Longrightarrow> (a, c, s) \<in> V \<Longrightarrow> j \<in> U \<Longrightarrow> c \<le> C j \<Longrightarrow> a \<noteq> j \<Longrightarrow> \<exists>d u. (d, u) \<in> M \<and> c \<le> d \<and> d \<le> C j"
  unfolding versions_ok_def by (elim conjE) metis

lemma v_agree:
  assumes "versions_ok U C T M V" "j \<in> U" "(c, s) \<in> M" "c \<le> C j" "\<And>d u. (d, u) \<in> M \<Longrightarrow> d \<le> C j \<Longrightarrow> d \<le> c"
  shows "T j = s"
proof -
  have "\<forall>j c s. j \<in> U \<longrightarrow> (c, s) \<in> M \<longrightarrow> c \<le> C j \<longrightarrow> (\<forall>d u. (d, u) \<in> M \<longrightarrow> d \<le> C j \<longrightarrow> d \<le> c) \<longrightarrow> T j = s"
    using assms(1) unfolding versions_ok_def by (elim conjE) assumption
  then have "(\<forall>d u. (d, u) \<in> M \<longrightarrow> d \<le> C j \<longrightarrow> d \<le> c) \<longrightarrow> T j = s" using assms(2-4) by metis
  then show ?thesis using assms(5) by metis
qed

text \<open>A version that one user makes of its own version, and perhaps of another one that was said, and that is said at once or not.\<close>

lemma version_made:
  assumes ok: "versions_ok U C T M V" and i: "i \<in> U" and up: "C i \<le> c" "c i = Suc (C i i)" and bnd: "\<And>k. k \<in> U \<Longrightarrow> k \<noteq> i \<Longrightarrow> c k \<le> C k k"
    and src: "\<And>a d u. (a, d, u) \<in> V \<Longrightarrow> d a \<le> c a \<Longrightarrow> d \<le> c \<and> (a = i \<or> d \<le> C i \<or> (\<exists>e v. (e, v) \<in> M \<and> d \<le> e \<and> e \<le> c))"
    and said: "M' = insert (c, t) M \<or> M' = M \<and> (\<exists>d. (d, t) \<in> M \<and> d \<le> c \<and> (\<forall>e u. (e, u) \<in> M \<longrightarrow> e \<le> c \<longrightarrow> d \<le> e \<longrightarrow> e = d))"
  shows "versions_ok U (C(i := c)) (T(i := t)) M' (insert (i, c, t) V)"
proof -
  have new: "d i < c i" if "(a, d, u) \<in> V" for a d u using v_bound [OF ok that i] up(2) by simp
  have newV: "\<not> c \<le> d" if "(a, d, u) \<in> V" for a d u using new [OF that] by (auto simp: le_fun_def not_le)
  have newC: "\<not> c \<le> C j" if "j \<in> U" for j using v_current [OF ok that] newV by metis
  have newM: "\<not> c \<le> d" if "(d, u) \<in> M" for d u using v_said [OF ok that] newV by blast
  have M': "M \<subseteq> M'" "M' \<subseteq> insert (c, t) M" using said by auto
  show ?thesis
  proof (rule versions_okI)
    show "\<exists>a. (a, (C(i := c)) j, (T(i := t)) j) \<in> insert (i, c, t) V" if "j \<in> U" for j using v_current [OF ok that] by auto
    show "\<exists>a. (a, d, u) \<in> insert (i, c, t) V" if "(d, u) \<in> M'" for d u using v_said [OF ok, of d u] that M' by blast
    show "a \<in> U" if "(a, d, u) \<in> insert (i, c, t) V" for a d u using v_maker [OF ok, of a d u] that i by blast
    show "d k \<le> (C(i := c)) k k" if "(a, d, u) \<in> insert (i, c, t) V" "k \<in> U" for a d u k
      using v_bound [OF ok, of a d u k] that bnd new [of a d u] by auto
    show "d \<le> e" if "(a, d, u) \<in> insert (i, c, t) V" "(b, e, v) \<in> insert (i, c, t) V" "d a \<le> e a" for a d u b e v
      using that src [of a d u] v_follows [OF ok, of a d u b e v] new [of b e v] by auto
    show "s = u" if "(a, d, s) \<in> insert (i, c, t) V" "(b, d, u) \<in> insert (i, c, t) V" for a d s b u
      using that v_text [OF ok, of a d s b u] new [of a d s] new [of b d u] by auto
    show "\<exists>e v. (e, v) \<in> M' \<and> d \<le> e \<and> e \<le> (C(i := c)) j" if "(a, d, u) \<in> insert (i, c, t) V" "j \<in> U" "d \<le> (C(i := c)) j" "a \<noteq> j" for a d u j
    proof (cases "j = i")
      case True
      then have v: "(a, d, u) \<in> V" "d a \<le> c a" and ai: "a \<noteq> i" using that by (auto simp: le_fun_def)
      then consider "d \<le> C i" | "\<exists>e v. (e, v) \<in> M \<and> d \<le> e \<and> e \<le> c" using src [OF v] ai by blast
      then show ?thesis
      proof cases
        case 1
        then obtain e v where "(e, v) \<in> M" "d \<le> e" "e \<le> C i" using v_heard [OF ok v(1) i _ ai] by blast
        then show ?thesis using M' True up(1) by (auto intro: order_trans)
      next
        case 2
        then show ?thesis using M' True by auto
      qed
    next
      case False
      then have "(a, d, u) \<in> V" "d \<le> C j" using that newC [of j] by auto
      then show ?thesis using v_heard [OF ok _ that(2) _ that(4), of d u] M' False by fastforce
    qed
    show "(T(i := t)) j = s" if "j \<in> U" "(d, s) \<in> M'" "d \<le> (C(i := c)) j" "\<And>e u. (e, u) \<in> M' \<Longrightarrow> e \<le> (C(i := c)) j \<Longrightarrow> e \<le> d" for j d s
    proof (cases "j = i")
      case True
      from said show ?thesis
      proof
        assume m: "M' = insert (c, t) M"
        then have "c \<le> d" using that(4) [of c t] True by simp
        then have "(d, s) \<notin> M" using newM by blast
        then show ?thesis using that(2) m True by simp
      next
        assume m: "M' = M \<and> (\<exists>d. (d, t) \<in> M \<and> d \<le> c \<and> (\<forall>e u. (e, u) \<in> M \<longrightarrow> e \<le> c \<longrightarrow> d \<le> e \<longrightarrow> e = d))"
        then obtain e where e: "(e, t) \<in> M" "e \<le> c" "\<forall>f u. (f, u) \<in> M \<longrightarrow> f \<le> c \<longrightarrow> e \<le> f \<longrightarrow> f = e" by blast
        have "e \<le> d" using that(4) [of e t] m e True by simp
        then have "d = e" using e(3) that(2,3) m True by auto
        then show ?thesis using v_said [OF ok e(1)] v_said [OF ok, of d s] that(2) m v_text [OF ok] True by auto
      qed
    next
      case False
      then have "(d, s) \<in> M" using that(1,2,3) M' newC [of j] by auto
      then show ?thesis using v_agree [OF ok that(1), of d s] that(3,4) M' False by auto
    qed
  qed
qed

text \<open>A newer version that was said is taken as it is.\<close>

lemma version_taken:
  assumes ok: "versions_ok U C T M V" and i: "i \<in> U" and m: "(d, t) \<in> M" and le: "C i \<le> d"
  shows "versions_ok U (C(i := d)) (T(i := t)) M V"
proof -
  obtain b where b: "(b, d, t) \<in> V" using v_said [OF ok m] by blast
  have di: "d i = C i i" using v_bound [OF ok b i] le by (simp add: le_fun_def antisym)
  show ?thesis
  proof (rule versions_okI)
    show "\<exists>a. (a, (C(i := d)) j, (T(i := t)) j) \<in> V" if "j \<in> U" for j using v_current [OF ok that] b by auto
    show "\<exists>a. (a, e, u) \<in> V" if "(e, u) \<in> M" for e u using v_said [OF ok that] .
    show "a \<in> U" if "(a, e, u) \<in> V" for a e u using v_maker [OF ok that] .
    show "e k \<le> (C(i := d)) k k" if "(a, e, u) \<in> V" "k \<in> U" for a e u k using v_bound [OF ok that] di by (cases "k = i") auto
    show "e \<le> f" if "(a, e, u) \<in> V" "(c, f, v) \<in> V" "e a \<le> f a" for a e u c f v using v_follows [OF ok that] .
    show "s = u" if "(a, e, s) \<in> V" "(c, e, u) \<in> V" for a e s c u using v_text [OF ok that] .
    show "\<exists>f v. (f, v) \<in> M \<and> e \<le> f \<and> f \<le> (C(i := d)) j" if "(a, e, u) \<in> V" "j \<in> U" "e \<le> (C(i := d)) j" "a \<noteq> j" for a e u j
      using v_heard [OF ok that(1,2) _ that(4)] that(3) m by (cases "j = i") auto
    show "(T(i := t)) j = s" if "j \<in> U" "(e, s) \<in> M" "e \<le> (C(i := d)) j" "\<And>f u. (f, u) \<in> M \<Longrightarrow> f \<le> (C(i := d)) j \<Longrightarrow> f \<le> e" for j e s
    proof (cases "j = i")
      case True
      then have "e = d" using that(3) that(4) [OF m] by simp
      then show ?thesis using v_said [OF ok that(2)] b v_text [OF ok] True by auto
    next
      case False
      then show ?thesis using v_agree [OF ok that(1,2)] that(3,4) by auto
    qed
  qed
qed

text \<open>A user says the version that it has.\<close>

lemma version_said:
  assumes ok: "versions_ok U C T M V" and i: "i \<in> U"
  shows "versions_ok U C T (insert (C i, T i) M) V"
proof (rule versions_okI)
  obtain b where b: "(b, C i, T i) \<in> V" using v_current [OF ok i] by blast
  show "\<exists>a. (a, c, s) \<in> V" if "(c, s) \<in> insert (C i, T i) M" for c s using that v_said [OF ok] b by blast
  show "\<exists>d u. (d, u) \<in> insert (C i, T i) M \<and> c \<le> d \<and> d \<le> C j" if "(a, c, s) \<in> V" "j \<in> U" "c \<le> C j" "a \<noteq> j" for a c s j
    using v_heard [OF ok that] by blast
  show "T j = s" if j: "j \<in> U" and s: "(c, s) \<in> insert (C i, T i) M" and le: "c \<le> C j" and top: "\<And>d u. (d, u) \<in> insert (C i, T i) M \<Longrightarrow> d \<le> C j \<Longrightarrow> d \<le> c" for j c s
  proof (cases "(c, s) \<in> M")
    case True
    then show ?thesis using v_agree [OF ok j True le] top by blast
  next
    case False
    then have c: "c = C i" "s = T i" using s by simp_all
    have pick: "T j = s" if ex: "\<exists>d u. (d, u) \<in> M \<and> C i \<le> d \<and> d \<le> C k" and k: "C k = C i \<or> k = j" for k
    proof -
      obtain d u where d: "(d, u) \<in> M" "C i \<le> d" "d \<le> C k" using ex by blast
      then have "d \<le> C j" using k le c(1) by auto
      then have "d = C i" using top [of d u] d(1,2) c(1) by auto
      then have "(C i, u) \<in> M" "u = T i" using d(1) v_said [OF ok d(1)] v_text [OF ok _ b] by auto
      then show ?thesis using v_agree [OF ok j, of "C i" u] le top c by auto
    qed
    show ?thesis
    proof (cases "b = j")
      case False
      then show ?thesis using v_heard [OF ok b j] le c(1) pick [of j] by blast
    next
      case True
      then show ?thesis using v_heard [OF ok b i order_refl] pick [of i] c(2) by (cases "i = j") auto
    qed
  qed
qed (use v_current [OF ok] v_maker [OF ok] v_bound [OF ok] v_follows [OF ok] v_text [OF ok] in blast)+

definition first_counts :: "string \<Rightarrow> counts" where
  "first_counts i k = (if k = i then 1 else 0)"

lemma first_counts_le: "first_counts i i \<le> first_counts j i \<longleftrightarrow> i = j" "first_counts i \<le> first_counts j \<longleftrightarrow> i = j" "first_counts i k \<le> first_counts k k"
  by (auto simp: first_counts_def le_fun_def split: if_splits)

lemma versions_start: "versions_ok U first_counts T {} {(i, first_counts i, T i) | i. i \<in> U}"
proof (rule versions_okI)
  show "s = u" if "(a, c, s) \<in> {(i, first_counts i, T i) | i. i \<in> U}" "(b, c, u) \<in> {(i, first_counts i, T i) | i. i \<in> U}" for a c s b u
  proof -
    have "c = first_counts a" "c = first_counts b" using that by auto
    then have "a = b" using first_counts_le(2) [of a b] by simp
    then show ?thesis using that by auto
  qed
qed (auto simp: first_counts_le)

end
