(* ===== verification/Editor_Net.thy ===== *)
theory Editor_Net
  imports App_Editor Versions
begin

text \<open>
  The editors of apps of all users of a conversation (\<open>App_Editor\<close>) with the letters between them: what the merge of codes, the operations and the letters do to the
  versions of the code, and that the editors agree on the last word.
\<close>

section \<open>Merging codes\<close>

definition code_ok :: "string set \<Rightarrow> string \<Rightarrow> cr_string \<Rightarrow> bool" where
  "code_ok U i x \<longleftrightarrow> entries_ok U (crs_c x) \<and> tv_i (crs_c x) = i"

lemma code_inv: "entries_ok U (crs_c x) \<Longrightarrow> cr_inv x"
  by (simp add: cr_inv_def entries_tracked entries_small)

lemma merge_older:
  assumes "entries_ok U t" "entries_ok U k" "clock_le (tv_c t) (tv_c k)"
  shows "vclock_merge (tv_c k) (tv_c t) = tv_c k"
proof -
  note m = entries_merge(1,2) [OF assms(1,2)]
  have "clock_le (vclock_merge (tv_c k) (tv_c t)) (tv_c k)" "clock_le (tv_c k) (vclock_merge (tv_c k) (tv_c t))"
    using clock_leD [OF assms(3)] by (auto intro!: clock_leI simp: m(2))
  then show ?thesis using entries_eq [OF m(1) assms(2)] by simp
qed

lemma merge_newer:
  assumes "entries_ok U t" "entries_ok U k" "clock_le (tv_c k) (tv_c t)"
  shows "vclock_merge (tv_c k) (tv_c t) = tv_c t"
proof -
  note m = entries_merge(1,2) [OF assms(1,2)]
  have "clock_le (vclock_merge (tv_c k) (tv_c t)) (tv_c t)" "clock_le (tv_c t) (vclock_merge (tv_c k) (tv_c t))"
    using clock_leD [OF assms(3)] by (auto intro!: clock_leI simp: m(2))
  then show ?thesis using entries_eq [OF m(1) assms(1)] by simp
qed

text \<open>An older text changes nothing, a newer one is taken as it is, and a concurrent one is taken as a new version of one's own.\<close>

lemma code_merge:
  assumes x: "code_ok U j x" and y: "entries_ok U (crs_c y)" and j: "j \<in> U" "count_of (cr_clock x) j + 1 < 2 ^ 63"
  shows "\<exists>res x1. cr_merge x y = Ok (res, x1) \<and> code_ok U j x1 \<and>
    (if clock_le (cr_clock y) (cr_clock x) then x1 = x
     else if clock_le (cr_clock x) (cr_clock y) then crs_s x1 = crs_s y \<and> cr_clock x1 = cr_clock y
     else crs_s x1 = crs_s y \<and> (\<forall>k. count_of (cr_clock x1) k = max (if k = j then Suc (count_of (cr_clock x) k) else count_of (cr_clock x) k) (count_of (cr_clock y) k)))"
proof -
  have e: "entries_ok U (crs_c x)" and i: "tv_i (crs_c x) = j" using x by (simp_all add: code_ok_def)
  note cx = code_inv [OF e] and cy = code_inv [OF y]
  have put: "(crs_c x)\<lparr>tv_c := cr_clock x\<rparr> = crs_c x" "x\<lparr>crs_c := crs_c x\<rparr> = x" by simp_all
  consider (same) "cr_clock x = cr_clock y" | (older) "cr_before y x" | (newer) "cr_before x y" | (conc) "cr_concurrent x y"
    using entries_eq [OF e y] unfolding cr_before_def cr_concurrent_def by blast
  then show ?thesis
  proof cases
    case same
    then show ?thesis using cr_merge_identical [OF cx cy same] x by (simp add: code_ok_def)
  next
    case older
    then have le: "clock_le (cr_clock y) (cr_clock x)" by (simp add: cr_before_def)
    show ?thesis using cr_merge_older [OF cx cy older] merge_older [OF y e le] le x put by (simp add: code_ok_def)
  next
    case newer
    then have le: "clock_le (cr_clock x) (cr_clock y)" "\<not> clock_le (cr_clock y) (cr_clock x)" by (simp_all add: cr_before_def)
    have "entries_ok U ((crs_c x)\<lparr>tv_c := cr_clock y\<rparr>)" using entries_merge(1) [OF y e] merge_newer [OF y e le(1)] by simp
    then show ?thesis using cr_merge_newer [OF cx cy newer] merge_newer [OF y e le(1)] le i by (simp add: code_ok_def)
  next
    case conc
    then have le: "\<not> clock_le (cr_clock y) (cr_clock x)" "\<not> clock_le (cr_clock x) (cr_clock y)" by (simp_all add: cr_concurrent_def)
    have jx: "count_of (tv_c (crs_c x)) (tv_i (crs_c x)) + 1 < 2 ^ 63" "tv_i (crs_c x) \<in> U" using j i by simp_all
    note inc = entries_incr [OF e jx]
    note m = entries_merge(1,2) [OF y inc(1)]
    have r: "(tracked_incr (crs_c x))\<lparr>tv_c := c\<rparr> = (crs_c x)\<lparr>tv_c := c\<rparr>" for c using inc(2) by (cases "tracked_incr (crs_c x)", cases "crs_c x") simp
    show ?thesis using cr_merge_concurrent [OF cx cy conc] le m(1) i by (simp add: code_ok_def r m(2) inc(4))
  qed
qed

section \<open>Letters of the editor\<close>

lemma script_fields_wf:
  assumes "clock_fits L (crs_c (ts_code t))" "length (crs_s (ts_code t)) \<le> max_alloc L" "length (ts_data t) \<le> max_alloc L" "1 \<le> max_alloc L" "\<not> ts_init t"
  shows "wf_value L (VDict (script_fields t))"
proof -
  have "distinct (keys (tv_c (crs_c (ts_code t))))" using assms(1) by (simp add: clock_fits_def tracked_inv_def clock_ok_def omap_distinct)
  then have "wf_value L (VDict (sclock_to_dict (tv_c (crs_c (ts_code t)))))"
    using assms(1) by (auto simp: sclock_to_dict_eq clock_fits_def list_all_iff comp_def)
  then show ?thesis using assms by (simp add: script_fields_def tracked_to_dict_def dict_put_def value_of_string_def to_bytes_def clock_fits_def)
qed

lemma script_letter:
  assumes "lexical_cast L" "clock_fits L (crs_c x)" "length (crs_s x) \<le> max_alloc L" "length b \<le> max_alloc L" "1 \<le> max_alloc L"
  shows "\<exists>m. text_script_to_message L \<lparr>ts_from = as_message_default, ts_init = False, ts_code = x, ts_data = b\<rparr> = Ok m \<and>
    (\<forall>lu a c. mt_type (m_meta (letter_to lu a m c)) = SCRIPT_CODE_MESSAGE \<and>
      text_script_from_message L (arrived (letter_to lu a m c)) = Ok \<lparr>ts_from = as_message_default\<lparr>am_from_id := ui_id (lu_info lu)\<rparr>, ts_init = False, ts_code = x, ts_data = b\<rparr>)"
proof -
  let ?t = "\<lparr>ts_from = as_message_default, ts_init = False, ts_code = x, ts_data = b\<rparr>"
  have d: "decode L (encode_value L (VDict (script_fields ?t))) = Ok (VDict (script_fields ?t))"
    using script_fields_wf [of L ?t] assms by (intro lexical_cast.decode_encode [OF assms(1)]) simp
  have n: "script_fields ?t \<noteq> []" by (simp add: script_fields_def dict_put_def)
  have rt: "to_tracked_sclock (tracked_to_dict (crs_c x)) = Ok (crs_c x)" using assms(2) by (intro to_tracked_roundtrip) (simp add: clock_fits_def)
  have mk: "cr_make (crs_c x) (crs_s x) = x" by (simp add: cr_make_def)
  have fld: "\<not> dict_has (script_fields ?t) ''i''" "in_field (script_fields ?t) ''c'' as_string = Ok (crs_s x)"
    "in_field (script_fields ?t) ''l'' as_dict = Ok (tracked_to_dict (crs_c x))" "in_field (script_fields ?t) ''d'' as_bytes = Ok b"
    by (simp_all add: script_fields_def in_field_def dict_ref_def dict_has_def dict_put_def value_of_string_def to_bytes_def to_str_def)
  show ?thesis using d n rt fld mk
    by (simp add: text_script_to_message_def to_message_def as_message_default_def Let_def letter_to_def arrived_def text_script_from_message_def from_message_def out_val_def in_dict_def
        opt_field_def dict_has_def dict_put_def dict_get_def message_default_def metadata_default_def value_of_string_def to_bytes_def to_str_def) blast
qed

section \<open>The editors of a conversation\<close>

text \<open>
  Letters stay on their way as in a chat.  \<open>en_sent\<close> are the letters with code, each with the code of its sender when it was sent; \<open>en_said\<close> are all codes that a user
  typed, changed the data of or sent, also while nobody else is there.
\<close>

record script_letter =
  ps_author :: string
  ps_code :: cr_string
  ps_letter :: message

record 's editor_net =
  en_eds :: "string \<Rightarrow> 's app_editor"
  en_sent :: "script_letter list"
  en_said :: "cr_string list"

definition scripts :: "'s app_editor \<Rightarrow> 's app_editor \<Rightarrow> message list" where
  "scripts s a = filter (\<lambda>m. mt_type (m_meta m) = SCRIPT_CODE_MESSAGE) (drop (length (outbox (ew_mail s))) (outbox (ew_mail a)))"

definition moved :: "string \<Rightarrow> bool \<Rightarrow> 's app_editor \<Rightarrow> 's editor_net \<Rightarrow> 's editor_net" where
  "moved i says a N =
     N\<lparr>en_eds := (en_eds N)(i := a), en_said := en_said N @ (if says then [ew_code a] else []),
       en_sent := en_sent N @ map (\<lambda>m. \<lparr>ps_author = i, ps_code = ew_code a, ps_letter = m\<rparr>) (scripts (en_eds N i) a)\<rparr>"

text \<open>The data can be sent, and the counter of the user has room.\<close>

definition data_fits :: "'k editor_env \<Rightarrow> 's app_editor \<Rightarrow> bool" where
  "data_fits E s \<longleftrightarrow> (\<forall>d. fst (on_data (export_to (ee_cxx E) (ee_fs E) []) s) = Ok d \<longrightarrow> length (encode_dict (ee_cxx E) d) \<le> max_alloc (ee_cxx E))"

definition has_room :: "string \<Rightarrow> 's app_editor \<Rightarrow> bool" where
  "has_room i s \<longleftrightarrow> count_of (cr_clock (ew_code s)) i + 1 < 2 ^ 63"

text \<open>
  A step of one user: a key, a change of the data, the answer to a request for the code, a letter with code, or anything else the editor does, which leaves the code as it
  is and sends none.
\<close>

inductive editor_step :: "string set \<Rightarrow> (string \<Rightarrow> 'k editor_env) \<Rightarrow> 's editor_net \<Rightarrow> 's editor_net \<Rightarrow> bool" for U E where
  Key: "i \<in> U \<Longrightarrow> has_room i (en_eds N i) \<Longrightarrow> length w \<le> max_alloc (ee_cxx (E i)) \<Longrightarrow> survives (key_pressed (E i) w pos) (en_eds N i) a \<Longrightarrow>
     editor_step U E N (moved i True a N)"
| Data: "i \<in> U \<Longrightarrow> has_room i (en_eds N i) \<Longrightarrow> data_fits (E i) (en_eds N i) \<Longrightarrow> survives (data_updated (E i)) (en_eds N i) a \<Longrightarrow> editor_step U E N (moved i True a N)"
| Ask: "i \<in> U \<Longrightarrow> data_fits (E i) (en_eds N i) \<Longrightarrow> survives (received_script_init (E i) m) (en_eds N i) a \<Longrightarrow> editor_step U E N (moved i True a N)"
| Hear: "j \<in> U \<Longrightarrow> has_room j (en_eds N j) \<Longrightarrow> x \<in> set (en_sent N) \<Longrightarrow> survives (received_code (E j) (arrived (ps_letter x))) (en_eds N j) a \<Longrightarrow>
     editor_step U E N (moved j False a N)"
| Other: "i \<in> U \<Longrightarrow> ew_code a = ew_code (en_eds N i) \<Longrightarrow> scripts (en_eds N i) a = [] \<Longrightarrow> editor_step U E N (moved i False a N)"

inductive editor_reach :: "string set \<Rightarrow> (string \<Rightarrow> 'k editor_env) \<Rightarrow> (string \<Rightarrow> 's app_editor) \<Rightarrow> 's editor_net \<Rightarrow> bool" for U E eds where
  Start: "editor_reach U E eds \<lparr>en_eds = eds, en_sent = [], en_said = []\<rparr>"
| Next: "editor_reach U E eds N \<Longrightarrow> editor_step U E N N' \<Longrightarrow> editor_reach U E eds N'"

definition editors :: "string set \<Rightarrow> (string \<Rightarrow> 'k editor_env) \<Rightarrow> (string \<Rightarrow> 's app_editor) \<Rightarrow> cxx_lib \<Rightarrow> bool" where
  "editors U E eds L \<longleftrightarrow> lexical_cast L \<and> 1 \<le> max_alloc L \<and>
     (\<forall>i\<in>U. i \<noteq> [] \<and> length i \<le> max_alloc L \<and> ee_cxx (E i) = L \<and> ee_me (E i) = i \<and> cl_ok (lu_contacts (ae_user (ee_api (E i)))) \<and>
        (\<exists>txt. ew_code (eds i) = cr_init_set txt (cr_new i) \<and> length txt \<le> max_alloc L))"

section \<open>What the operations do to the code and the letters\<close>

definition quiet :: "'s app_editor \<Rightarrow> 's app_editor \<Rightarrow> bool" where
  "quiet s a \<longleftrightarrow> ew_code a = ew_code s \<and> (\<exists>ls. outbox (ew_mail a) = outbox (ew_mail s) @ ls \<and> (\<forall>l\<in>set ls. mt_type (m_meta l) \<noteq> SCRIPT_CODE_MESSAGE))"

lemma quiet_refl [simp]: "quiet s s"
  by (auto simp: quiet_def)

lemma quiet_same: "quiet s a \<Longrightarrow> ew_code b = ew_code a \<Longrightarrow> outbox (ew_mail b) = outbox (ew_mail a) \<Longrightarrow> quiet s b"
  by (simp add: quiet_def)

lemma quiet_trans: "quiet s a \<Longrightarrow> quiet a b \<Longrightarrow> quiet s b"
  unfolding quiet_def by (elim conjE exE, intro conjI, simp) (rule_tac x = "ls @ lsa" in exI, auto)

lemma calm_mod: "(\<And>s. ew_code (f s) = ew_code s \<and> ew_lua (f s) = ew_lua s) \<Longrightarrow> keeps (quiet s0) (modA f)"
  by (rule keeps_modA) (auto intro: quiet_same)

lemma calm_data: "keeps (quiet s0) (on_data m)"
  unfolding keeps_def on_data_def Let_def by (auto split: prod.splits outcome.splits intro: quiet_same)

lemma calm_push: "keeps (quiet s0) (on_lua (backend_push L ev))"
proof -
  have "outbox (la_mail (snd (backend_push L ev a))) = outbox (la_mail a)" for a :: "'s lua_api"
  proof -
    obtain t d where u: "ui_structure ev = (t, d)" by (cases "ui_structure ev")
    obtain m where m: "to_message L t as_message_default d = Ok m" by (simp add: to_message_def Let_def as_message_default_def)
    obtain b where "push_inbox m (la_mail a) = Ok b" "outbox b = outbox (la_mail a)" using push_inbox_Ok by blast
    then show ?thesis using u m by (simp add: backend_push_def partA_def)
  qed
  then show ?thesis unfolding keeps_def on_lua_def Let_def split_beta snd_conv by (intro allI impI) (erule quiet_same, simp_all)
qed

lemma calm_send:
  assumes "cl_ok (lu_contacts (ae_user (ee_api E)))" "mt_type (m_meta m) \<noteq> SCRIPT_CODE_MESSAGE"
  shows "keeps (quiet s0) (editor_send_all E m)"
proof -
  have "quiet s (snd (editor_send_all E m s))" for s
  proof -
    obtain b ls where "editor_send_all E m s = (Ok (), put_mail b s)" "outbox b = outbox (ew_mail s) @ ls"
      "set ls \<subseteq> range (letter_to (ae_user (ee_api E)) (mailbox_address (ew_mail s)) m)" using editor_send_all_ends [OF assms(1)] by meson
    then show ?thesis using assms(2) by (auto simp: quiet_def letter_to_def)
  qed
  then show ?thesis unfolding keeps_def by (meson quiet_trans)
qed

lemma cursor_ends:
  assumes "cl_ok (lu_contacts (ae_user (ee_api E)))"
  shows "\<exists>s1. cursor_changed E x y s = (Ok (), s1) \<and> quiet s s1 \<and> (\<exists>b. s1 = put_mail b s)"
proof (cases "x = 0 \<and> y = 0")
  case True
  then show ?thesis by (intro exI [of _ s]) (auto simp: cursor_changed_def retA_def intro: exI [of _ "ew_mail s"])
next
  case False
  let ?f = "cursor_fields \<lparr>cp_from = as_message_default, cp_s = x, cp_e = y, cp_c = ew_cursor_color s\<rparr>"
  obtain m where m: "to_message (ee_cxx E) CURSOR_POS_MESSAGE as_message_default ?f = Ok m" "mt_type (m_meta m) = CURSOR_POS_MESSAGE"
    by (simp add: to_message_def Let_def as_message_default_def message_default_def metadata_default_def)
  have t: "mt_type (m_meta m) \<noteq> SCRIPT_CODE_MESSAGE" using m(2) by (simp add: CURSOR_POS_MESSAGE_def SCRIPT_CODE_MESSAGE_def)
  obtain b where b: "editor_send_all E m s = (Ok (), put_mail b s)" using editor_send_all_ends [OF assms] by meson
  have "quiet s (snd (editor_send_all E m s))" by (rule keepsD [OF calm_send [OF assms t] quiet_refl])
  moreover have "cursor_changed E x y s = editor_send_all E m s" using False m(1) by (auto simp: cursor_changed_def bindA_def getA_def liftA_def)
  ultimately show ?thesis using b by auto
qed

lemma calm_cursor: "cl_ok (lu_contacts (ae_user (ee_api E))) \<Longrightarrow> keeps (quiet s0) (cursor_changed E a b)"
  unfolding keeps_def by (metis cursor_ends quiet_trans snd_conv)

lemmas calm_basic = calm_mod calm_data calm_push calm_cursor

lemma calm_run: "keeps (quiet s0) (run_script E)"
  unfolding run_script_def editor_alerted_def clear_selection_def by (intro keeps_intros calm_basic) auto

lemma calm_show: "cl_ok (lu_contacts (ae_user (ee_api E))) \<Longrightarrow> keeps (quiet s0) (show_code E)"
  unfolding show_code_def by (intro keeps_intros calm_basic) auto

lemma calm_import: "keeps (quiet s0) (import_data E r b)"
  unfolding import_data_def by (intro keeps_intros calm_basic calm_run) auto

text \<open>Letters with code carry the code of the state after the step and the name of their author.\<close>

definition announces :: "cxx_lib \<Rightarrow> string \<Rightarrow> 's app_editor \<Rightarrow> 's app_editor \<Rightarrow> bool" where
  "announces L i s a \<longleftrightarrow> (\<exists>ls. outbox (ew_mail a) = outbox (ew_mail s) @ ls \<and>
     (\<forall>l\<in>set ls. mt_type (m_meta l) = SCRIPT_CODE_MESSAGE \<longrightarrow>
        (\<exists>t. text_script_from_message L (arrived l) = Ok t \<and> ts_code t = ew_code a \<and> am_from_id (ts_from t) = i)))"

lemma quiet_announces: "quiet s a \<Longrightarrow> announces L i s a"
  by (auto simp: quiet_def announces_def)

lemma announces_same: "announces L i s a \<Longrightarrow> outbox (ew_mail s0) = outbox (ew_mail s) \<Longrightarrow> announces L i s0 a"
  by (simp add: announces_def)

lemma quiet_announces_trans: "quiet s a \<Longrightarrow> announces L i a b \<Longrightarrow> announces L i s b"
  unfolding quiet_def announces_def by (elim conjE exE) (rule_tac x = "ls @ lsa" in exI, auto)

lemma announces_scripts: "announces L i s a \<Longrightarrow> l \<in> set (scripts s a) \<Longrightarrow>
  mt_type (m_meta l) = SCRIPT_CODE_MESSAGE \<and> (\<exists>t. text_script_from_message L (arrived l) = Ok t \<and> ts_code t = ew_code a \<and> am_from_id (ts_from t) = i)"
  by (auto simp: announces_def scripts_def)

lemma quiet_scripts: "quiet s a \<Longrightarrow> scripts s a = []"
  by (auto simp: quiet_def scripts_def)

definition code_fits :: "cxx_lib \<Rightarrow> 's app_editor \<Rightarrow> bool" where
  "code_fits L s \<longleftrightarrow> clock_fits L (crs_c (ew_code s)) \<and> length (crs_s (ew_code s)) \<le> max_alloc L \<and> 1 \<le> max_alloc L \<and> lexical_cast L"

lemma prepare_ends:
  assumes "prepare_script_message E sd s = (r, a)" "sd \<Longrightarrow> data_fits E s"
  shows "ew_code a = ew_code s \<and> ew_lua a = ew_lua s \<and>
    (\<forall>m. r = Ok m \<longrightarrow> (\<exists>b. length b \<le> max_alloc (ee_cxx E) \<and> text_script_to_message (ee_cxx E) \<lparr>ts_from = as_message_default, ts_init = False, ts_code = ew_code s, ts_data = b\<rparr> = Ok m))"
proof -
  have d: "ew_code (snd (on_data m s)) = ew_code s \<and> ew_lua (snd (on_data m s)) = ew_lua s" for m :: "(disk_store, dict) action"
    unfolding on_data_def Let_def by (auto split: prod.splits outcome.splits)
  show ?thesis
  proof (cases sd)
    case False
    then show ?thesis using assms(1) by (auto simp: prepare_script_message_def liftA_def intro!: exI [of _ "[]"])
  next
    case True
    obtain q s1 where q: "on_data (export_to (ee_cxx E) (ee_fs E) []) s = (q, s1)" by (cases "on_data (export_to (ee_cxx E) (ee_fs E) []) s")
    with True assms(1) d [of "export_to (ee_cxx E) (ee_fs E) []"] have s1: "ew_code s1 = ew_code s" "ew_lua s1 = ew_lua s" by simp_all
    show ?thesis
    proof (cases q)
      case (Ok x)
      then have "length (encode_dict (ee_cxx E) x) \<le> max_alloc (ee_cxx E)" using assms(2) True q unfolding data_fits_def by simp
      then show ?thesis using assms(1) True q Ok s1 by (auto simp: prepare_script_message_def liftA_def bindA_def retA_def getA_def intro!: exI [of _ "encode_dict (ee_cxx E) x"])
    qed (use assms(1) True q s1 in \<open>auto simp: prepare_script_message_def bindA_def getA_def\<close>)
  qed
qed

lemma script_sends:
  fixes E :: "'k editor_env"
  assumes f: "code_fits (ee_cxx E) s" and c: "cl_ok (lu_contacts (ae_user (ee_api E)))" and d: "sd \<Longrightarrow> data_fits E s"
    and out: "\<And>m a. \<exists>b ls. k m a = (Ok (), put_mail b a) \<and> outbox b = outbox (ew_mail a) @ ls \<and>
      set ls \<subseteq> range (letter_to (ae_user (ee_api E)) (mailbox_address (ew_mail a)) m) \<and> inbox b = inbox (ew_mail a) \<and> mailbox_address b = mailbox_address (ew_mail a)"
  shows "ew_code (snd (bindA (prepare_script_message E sd) k s)) = ew_code s \<and> announces (ee_cxx E) (ee_me E) s (snd (bindA (prepare_script_message E sd) k s))"
proof -
  obtain r a where p: "prepare_script_message E sd s = (r, a)" by (cases "prepare_script_message E sd s")
  note a = prepare_ends [OF p d]
  show ?thesis
  proof (cases r)
    case (Ok m)
    then obtain b where b: "length b \<le> max_alloc (ee_cxx E)" "text_script_to_message (ee_cxx E) \<lparr>ts_from = as_message_default, ts_init = False, ts_code = ew_code s, ts_data = b\<rparr> = Ok m"
      using a by blast
    have l: "\<exists>t. text_script_from_message (ee_cxx E) (arrived (letter_to lu q m e)) = Ok t \<and> ts_code t = ew_code s \<and> am_from_id (ts_from t) = ui_id (lu_info lu)" for lu :: "'k local_user" and q and e :: "'k user_info"
    proof -
      obtain m1 where m1: "text_script_to_message (ee_cxx E) \<lparr>ts_from = as_message_default, ts_init = False, ts_code = ew_code s, ts_data = b\<rparr> = Ok m1"
        "\<And>(lu :: 'k local_user) a c. text_script_from_message (ee_cxx E) (arrived (letter_to lu a m1 c)) = Ok \<lparr>ts_from = as_message_default\<lparr>am_from_id := ui_id (lu_info lu)\<rparr>, ts_init = False, ts_code = ew_code s, ts_data = b\<rparr>"
        using script_letter [where 'a = 'k, of "ee_cxx E" "ew_code s" b] f b(1) unfolding code_fits_def by blast
      then show ?thesis using b(2) by simp
    qed
    obtain b1 ls where k: "k m a = (Ok (), put_mail b1 a)" "outbox b1 = outbox (ew_mail a) @ ls"
      "set ls \<subseteq> range (letter_to (ae_user (ee_api E)) (mailbox_address (ew_mail a)) m)" using out by meson
    have e: "snd (bindA (prepare_script_message E sd) k s) = put_mail b1 a" using p Ok k(1) by (simp add: bindA_def)
    have "\<exists>t. text_script_from_message (ee_cxx E) (arrived x) = Ok t \<and> ts_code t = ew_code s \<and> am_from_id (ts_from t) = ee_me E" if "x \<in> set ls" for x
    proof -
      have "x \<in> range (letter_to (ae_user (ee_api E)) (mailbox_address (ew_mail a)) m)" using k(3) that by (rule subsetD)
      then show ?thesis using l by (elim rangeE) simp
    qed
    then show ?thesis unfolding e using k(2) a by (auto simp: announces_def)
  qed (use p a in \<open>auto simp: bindA_def announces_def\<close>)
qed

section \<open>What a step does\<close>

lemma data_fits_same: "ew_app s1 = ew_app s \<Longrightarrow> ew_service s1 = ew_service s \<Longrightarrow> data_fits E s1 = data_fits E s"
proof -
  assume "ew_app s1 = ew_app s" "ew_service s1 = ew_service s"
  then have "fst (on_data m s1) = fst (on_data m s)" for m :: "(disk_store, dict) action"
    by (auto simp: on_data_def Let_def split: prod.splits outcome.splits)
  then show ?thesis by (simp add: data_fits_def)
qed

lemma survives_snd: "survives m s a \<Longrightarrow> a = snd (m s)"
  by (auto simp: survives_def split: prod.splits outcome.splits)

lemma key_does:
  fixes s :: "'s app_editor"
  assumes c: "cl_ok (lu_contacts (ae_user (ee_api E)))" and f: "\<And>s1 :: 's app_editor. ew_code s1 = cr_set txt (ew_code s) \<Longrightarrow> code_fits (ee_cxx E) s1" and a: "survives (key_pressed E txt pos) s a"
  shows "ew_code a = cr_set txt (ew_code s) \<and> announces (ee_cxx E) (ee_me E) s a"
proof -
  let ?s1 = "s\<lparr>ew_script := txt, ew_pos := pos\<rparr>"
  obtain s2 b where s2: "cursor_changed E (of_nat pos) (of_nat pos) ?s1 = (Ok (), s2)" "quiet ?s1 s2" "s2 = put_mail b ?s1"
    using cursor_ends [OF c] by meson
  let ?s3 = "s2\<lparr>ew_code := cr_set txt (ew_code s), ew_dirty := True\<rparr>"
  have w: "ew_script s2 = txt" "ew_code s2 = ew_code s" using s2(3) by (simp_all add: put_mail_def)
  have st: "bindA (cursor_changed E (of_nat pos) (of_nat pos)) f ?s1 = f () s2" for f :: "unit \<Rightarrow> ('s, unit) ew_action"
    using s2(1) by (simp add: bindA_def)
  have e: "a = snd (bindA (prepare_script_message E False) (editor_send_all E) ?s3)"
    using survives_snd [OF a] w by (simp add: key_pressed_def text_typed_def st send_script_def)
  have fit: "code_fits (ee_cxx E) ?s3" by (rule f) simp
  have r: "ew_code a = ew_code ?s3 \<and> announces (ee_cxx E) (ee_me E) ?s3 a"
    unfolding e by (rule script_sends [OF fit c _ editor_send_all_ends [OF c]]) simp
  have "announces (ee_cxx E) (ee_me E) s2 a" by (rule announces_same [OF conjunct2 [OF r]]) simp
  then have "announces (ee_cxx E) (ee_me E) ?s1 a" by (rule quiet_announces_trans [OF s2(2)])
  then show ?thesis using r announces_same [of _ _ ?s1 a s] by simp
qed

lemma data_does:
  fixes s :: "'s app_editor"
  assumes c: "cl_ok (lu_contacts (ae_user (ee_api E)))" and d: "data_fits E s" and a: "survives (data_updated E) s a"
    and f: "\<And>s1 :: 's app_editor. ew_code s1 = (ew_code s)\<lparr>crs_c := tracked_incr (crs_c (ew_code s))\<rparr> \<Longrightarrow> code_fits (ee_cxx E) s1"
  shows "ew_code a = (ew_code s)\<lparr>crs_c := tracked_incr (crs_c (ew_code s))\<rparr> \<and> announces (ee_cxx E) (ee_me E) s a"
proof -
  let ?s1 = "s\<lparr>ew_run_state := CODE_CHANGED, ew_code := (ew_code s)\<lparr>crs_c := tracked_incr (crs_c (ew_code s))\<rparr>\<rparr>"
  have d1: "data_fits E ?s1" using d data_fits_same [of ?s1 s E] by simp
  have "a = snd (send_script E True ?s1)" using survives_snd [OF a] by (simp add: data_updated_def)
  then have r: "ew_code a = ew_code ?s1 \<and> announces (ee_cxx E) (ee_me E) ?s1 a"
    using script_sends [where k = "editor_send_all E" and sd = True, OF f c d1 editor_send_all_ends [OF c]] by (simp add: send_script_def)
  then show ?thesis using announces_same [of _ _ ?s1 a s] by simp
qed

lemma ask_does:
  assumes c: "cl_ok (lu_contacts (ae_user (ee_api E)))" and d: "data_fits E s" and f: "code_fits (ee_cxx E) s" and a: "survives (received_script_init E m) s a"
  shows "ew_code a = ew_code s \<and> announces (ee_cxx E) (ee_me E) s a"
proof -
  let ?I = "\<lambda>a. ew_code a = ew_code s \<and> announces (ee_cxx E) (ee_me E) s a"
  have s: "?I s" by (simp add: quiet_announces)
  have "?I (snd (send_script_to E i s))" for i
    using script_sends [where k = "editor_send E i" and sd = True, OF f c d editor_send_ends [OF c]] by (simp add: send_script_to_def)
  then have "ends ?I (received_script_init E m) s" unfolding received_script_init_def
    by (intro ends_intros s) (auto simp: ends_def intro: s)
  then show ?thesis using survives_snd [OF a] by (simp add: ends_def)
qed

lemma hear_does:
  assumes c: "cl_ok (lu_contacts (ae_user (ee_api E)))" and t: "text_script_from_message (ee_cxx E) m = Ok t" "mt_type (m_meta m) = SCRIPT_CODE_MESSAGE"
    and x: "cr_merge (ew_code s) (ts_code t) = Ok (res, x)" and a: "a = snd (received_code E m s)"
  shows "scripts s a = []" "ew_code a = (if cl_has (am_from_id (ts_from t)) (ee_contacts E) then x else ew_code s)"
proof -
  let ?s1 = "s\<lparr>ew_code := x, ew_dirty := True\<rparr>"
  have k: "keeps (quiet ?s1) (thenA (show_code E) (if ts_data t = [] then retA () else import_data E res (ts_data t)))"
    by (intro keeps_intros calm_show [OF c] calm_import)
  have q: "quiet ?s1 (snd (thenA (show_code E) (if ts_data t = [] then retA () else import_data E res (ts_data t)) ?s1))"
    by (rule keepsD [OF k]) simp
  have "a = (if cl_has (am_from_id (ts_from t)) (ee_contacts E) then snd (thenA (show_code E) (if ts_data t = [] then retA () else import_data E res (ts_data t)) ?s1) else s)"
    using a t x by (simp add: received_code_def bindA_Ok liftA_def getA_def)
  then show "scripts s a = []" "ew_code a = (if cl_has (am_from_id (ts_from t)) (ee_contacts E) then x else ew_code s)"
    using q quiet_scripts [OF q] by (auto simp: quiet_def scripts_def split: if_splits)
qed

section \<open>The invariant of the editors\<close>

definition code_counts :: "cr_string \<Rightarrow> counts" where
  "code_counts x k = count_of (cr_clock x) k"

lemma code_counts_le: "code_counts x \<le> code_counts y \<longleftrightarrow> clock_le (cr_clock x) (cr_clock y)"
  unfolding code_counts_def le_fun_def using clock_leD clock_leI by blast

definition said_codes :: "'s editor_net \<Rightarrow> (counts \<times> string) set" where
  "said_codes N = (\<lambda>x. (code_counts x, crs_s x)) ` set (en_said N)"

definition en_code :: "'s editor_net \<Rightarrow> string \<Rightarrow> cr_string" where
  "en_code N i = ew_code (en_eds N i)"

definition letter_ok :: "cxx_lib \<Rightarrow> cr_string list \<Rightarrow> script_letter \<Rightarrow> bool" where
  "letter_ok L xs x \<longleftrightarrow> ps_code x \<in> set xs \<and> mt_type (m_meta (ps_letter x)) = SCRIPT_CODE_MESSAGE \<and>
     (\<exists>t. text_script_from_message L (arrived (ps_letter x)) = Ok t \<and> ts_code t = ps_code x \<and> am_from_id (ts_from t) = ps_author x)"

definition editors_ok :: "string set \<Rightarrow> cxx_lib \<Rightarrow> 's editor_net \<Rightarrow> (string \<times> counts \<times> string) set \<Rightarrow> bool" where
  "editors_ok U L N V \<longleftrightarrow>
     versions_ok U (\<lambda>i. code_counts (en_code N i)) (\<lambda>i. crs_s (en_code N i)) (said_codes N) V \<and>
     (\<forall>i\<in>U. code_ok U i (en_code N i) \<and> length (crs_s (en_code N i)) \<le> max_alloc L) \<and>
     (\<forall>x\<in>set (en_said N). entries_ok U (crs_c x) \<and> length (crs_s x) \<le> max_alloc L) \<and>
     (\<forall>x\<in>set (en_sent N). letter_ok L (en_said N) x)"

lemma editorsD:
  assumes "editors U E eds L"
  shows "lexical_cast L" "1 \<le> max_alloc L" "i \<in> U \<Longrightarrow> i \<noteq> [] \<and> length i \<le> max_alloc L \<and> ee_cxx (E i) = L \<and> ee_me (E i) = i \<and> cl_ok (lu_contacts (ae_user (ee_api (E i))))"
    "i \<in> U \<Longrightarrow> \<exists>txt. ew_code (eds i) = cr_init_set txt (cr_new i) \<and> length txt \<le> max_alloc L"
  using assms by (simp_all add: editors_def)

lemma code_ok_fits:
  assumes "editors U E eds L" "i \<in> U" "code_ok U i (ew_code s)" "length (crs_s (ew_code s)) \<le> max_alloc L"
  shows "code_fits L s"
  using assms editorsD [OF assms(1)] unfolding code_ok_def entries_ok_def code_fits_def clock_fits_def by (meson subsetD)

lemma code_ok_incr:
  assumes "code_ok U i x" "i \<in> U" "count_of (cr_clock x) i + 1 < 2 ^ 63" "crs_c y = tracked_incr (crs_c x)"
  shows "code_ok U i y" "code_counts y k = (if k = i then Suc (code_counts x k) else code_counts x k)"
proof -
  have e: "entries_ok U (crs_c x)" "tv_i (crs_c x) = i" using assms(1) by (simp_all add: code_ok_def)
  note inc = entries_incr [OF e(1), unfolded e(2), OF assms(3,2)]
  show "code_ok U i y" using inc(1,2) by (simp add: code_ok_def assms(4))
  show "code_counts y k = (if k = i then Suc (code_counts x k) else code_counts x k)" using inc(4) by (simp add: code_counts_def assms(4))
qed

lemma moved_code: "en_code (moved i b a N) = (en_code N)(i := ew_code a)"
  by (auto simp: moved_def en_code_def)

lemma moved_said: "said_codes (moved i True a N) = insert (code_counts (ew_code a), crs_s (ew_code a)) (said_codes N)" "said_codes (moved i False a N) = said_codes N"
  by (simp_all add: moved_def said_codes_def)

lemma moved_upd: "(\<lambda>j. f (((en_code N)(i := x)) j)) = (\<lambda>j. f (en_code N j)) (i := f x)"
  by auto

lemma letter_ok_more: "letter_ok L xs x \<Longrightarrow> set xs \<subseteq> set ys \<Longrightarrow> letter_ok L ys x"
  by (auto simp: letter_ok_def)

text \<open>What is left to show of a step: the versions, and the code of the user who moved.\<close>

lemma moved_ok:
  assumes ok: "editors_ok U L N V" and code: "code_ok U i (ew_code a)" "length (crs_s (ew_code a)) \<le> max_alloc L"
    and lt: "b \<Longrightarrow> announces L i (en_eds N i) a" and b: "\<not> b \<Longrightarrow> scripts (en_eds N i) a = []"
    and v: "versions_ok U ((\<lambda>j. code_counts (en_code N j))(i := code_counts (ew_code a))) ((\<lambda>j. crs_s (en_code N j))(i := crs_s (ew_code a))) (said_codes (moved i b a N)) V'"
  shows "editors_ok U L (moved i b a N) V'"
  unfolding editors_ok_def
proof (intro conjI ballI)
  show "versions_ok U (\<lambda>j. code_counts (en_code (moved i b a N) j)) (\<lambda>j. crs_s (en_code (moved i b a N) j)) (said_codes (moved i b a N)) V'"
    using v unfolding moved_code moved_upd .
  show "code_ok U j (en_code (moved i b a N) j)" "length (crs_s (en_code (moved i b a N) j)) \<le> max_alloc L" if "j \<in> U" for j
    using ok code that by (auto simp: moved_code editors_ok_def)
  show "entries_ok U (crs_c x)" "length (crs_s x) \<le> max_alloc L" if "x \<in> set (en_said (moved i b a N))" for x
    using ok code that by (auto simp: moved_def editors_ok_def code_ok_def split: if_splits)
  fix x assume x: "x \<in> set (en_sent (moved i b a N))"
  show "letter_ok L (en_said (moved i b a N)) x"
  proof (cases "x \<in> set (en_sent N)")
    case True
    then have "letter_ok L (en_said N) x" using ok by (simp add: editors_ok_def)
    then show ?thesis by (rule letter_ok_more) (simp add: moved_def)
  next
    case False
    then obtain m where m: "m \<in> set (scripts (en_eds N i) a)" and e: "x = \<lparr>ps_author = i, ps_code = ew_code a, ps_letter = m\<rparr>" using x by (auto simp: moved_def)
    have "b" using b m by (cases b) auto
    then show ?thesis using announces_scripts [OF lt m] by (simp add: letter_ok_def e moved_def)
  qed
qed

text \<open>A version of one's own, with nothing but the own counter raised.\<close>

lemma own_version:
  assumes ok: "editors_ok U L N V" and i: "i \<in> U" and c: "\<And>k. code_counts x k = (if k = i then Suc (code_counts (en_code N i) k) else code_counts (en_code N i) k)"
  shows "versions_ok U ((\<lambda>j. code_counts (en_code N j))(i := code_counts x)) ((\<lambda>j. crs_s (en_code N j))(i := t)) (insert (code_counts x, t) (said_codes N)) (insert (i, code_counts x, t) V)"
proof -
  have v: "versions_ok U (\<lambda>j. code_counts (en_code N j)) (\<lambda>j. crs_s (en_code N j)) (said_codes N) V" using ok by (simp add: editors_ok_def)
  obtain b where b: "(b, code_counts (en_code N i), crs_s (en_code N i)) \<in> V" using v_current [OF v i] by blast
  have up: "code_counts (en_code N i) \<le> code_counts x" using c by (simp add: le_fun_def)
  show ?thesis
  proof (rule version_made [OF v i up])
    show "code_counts x i = Suc (code_counts (en_code N i) i)" by (simp add: c)
    show "code_counts x k \<le> code_counts (en_code N k) k" if "k \<in> U" "k \<noteq> i" for k using v_bound [OF v b that(1)] that(2) by (simp add: c)
    show "d \<le> code_counts x \<and> (a = i \<or> d \<le> code_counts (en_code N i) \<or> (\<exists>e v. (e, v) \<in> said_codes N \<and> d \<le> e \<and> e \<le> code_counts x))"
      if w: "(a, d, u) \<in> V" and le: "d a \<le> code_counts x a" for a d u
    proof -
      have "d a \<le> code_counts (en_code N i) a" using le c [of a] v_bound [OF v w i] by (cases "a = i") auto
      then have "d \<le> code_counts (en_code N i)" using v_follows [OF v w b] by simp
      then show ?thesis using up by auto
    qed
  qed simp
qed

text \<open>The version that comes of hearing a concurrent one.\<close>

lemma joined_version:
  assumes ok: "editors_ok U L N V" and j: "j \<in> U" and y: "y \<in> set (en_said N)"
    and nle: "\<not> code_counts y \<le> code_counts (en_code N j)"
    and c: "\<And>k. code_counts x k = max (if k = j then Suc (code_counts (en_code N j) k) else code_counts (en_code N j) k) (code_counts y k)"
  shows "versions_ok U ((\<lambda>i. code_counts (en_code N i))(j := code_counts x)) ((\<lambda>i. crs_s (en_code N i))(j := crs_s y)) (said_codes N) (insert (j, code_counts x, crs_s y) V)"
proof -
  have v: "versions_ok U (\<lambda>j. code_counts (en_code N j)) (\<lambda>j. crs_s (en_code N j)) (said_codes N) V" using ok by (simp add: editors_ok_def)
  obtain b where b: "(b, code_counts (en_code N j), crs_s (en_code N j)) \<in> V" using v_current [OF v j] by blast
  have m: "(code_counts y, crs_s y) \<in> said_codes N" using y by (auto simp: said_codes_def)
  obtain e where e: "(e, code_counts y, crs_s y) \<in> V" using v_said [OF v m] by blast
  have up: "code_counts (en_code N j) \<le> code_counts x" "code_counts y \<le> code_counts x" using c by (simp_all add: le_fun_def le_max_iff_disj)
  have src: "d \<le> code_counts (en_code N j) \<or> d \<le> code_counts y" if w: "(a, d, u) \<in> V" and le: "d a \<le> code_counts x a" for a d u
  proof -
    have "d a \<le> code_counts (en_code N j) a \<or> d a \<le> code_counts y a" using le c [of a] v_bound [OF v w j] by (cases "a = j") (auto simp: max_def split: if_splits)
    then show ?thesis using v_follows [OF v w b] v_follows [OF v w e] by blast
  qed
  have top: "f = code_counts y" if f: "(f, u) \<in> said_codes N" "f \<le> code_counts x" "code_counts y \<le> f" for f u
  proof -
    obtain a where w: "(a, f, u) \<in> V" using v_said [OF v f(1)] by blast
    have "f a \<le> code_counts x a" using f(2) by (simp add: le_fun_def)
    then have "f \<le> code_counts y" using src [OF w] nle order_trans [OF f(3)] by blast
    then show ?thesis using f(3) by (rule antisym)
  qed
  show ?thesis
  proof (rule version_made [OF v j up(1)])
    show "code_counts x j = Suc (code_counts (en_code N j) j)" using c [of j] v_bound [OF v e j] by simp
    show "code_counts x k \<le> code_counts (en_code N k) k" if "k \<in> U" "k \<noteq> j" for k using v_bound [OF v b that(1)] v_bound [OF v e that(1)] that(2) by (simp add: c)
    show "d \<le> code_counts x \<and> (a = j \<or> d \<le> code_counts (en_code N j) \<or> (\<exists>e v. (e, v) \<in> said_codes N \<and> d \<le> e \<and> e \<le> code_counts x))"
      if w: "(a, d, u) \<in> V" and le: "d a \<le> code_counts x a" for a d u
      using src [OF w le] up m by (meson order_trans)
    show "said_codes N = insert (code_counts x, crs_s y) (said_codes N) \<or> said_codes N = said_codes N \<and>
      (\<exists>d. (d, crs_s y) \<in> said_codes N \<and> d \<le> code_counts x \<and> (\<forall>e u. (e, u) \<in> said_codes N \<longrightarrow> e \<le> code_counts x \<longrightarrow> d \<le> e \<longrightarrow> e = d))"
      using m up(2) top by blast
  qed
qed

lemma type_ok:
  assumes us: "editors U E eds L" and ok: "editors_ok U L N V" and i: "i \<in> U" and room: "has_room i (en_eds N i)"
    and code: "ew_code a = x" "crs_c x = tracked_incr (crs_c (en_code N i))" "length (crs_s x) \<le> max_alloc L" and lt: "announces L i (en_eds N i) a"
  shows "\<exists>V'. editors_ok U L (moved i True a N) V'"
proof -
  have c: "code_ok U i (en_code N i)" using ok i by (simp add: editors_ok_def)
  have r: "count_of (cr_clock (en_code N i)) i + 1 < 2 ^ 63" using room by (simp add: has_room_def en_code_def)
  note inc = code_ok_incr [OF c i r code(2)]
  note v = own_version [OF ok i inc(2), of "crs_s x"]
  have "editors_ok U L (moved i True a N) (insert (i, code_counts x, crs_s x) V)"
    by (rule moved_ok [OF ok _ _ lt]) (use inc(1) code v in \<open>simp_all add: moved_said\<close>)
  then show ?thesis ..
qed

lemma said_ok:
  assumes ok: "editors_ok U L N V" and i: "i \<in> U" and code: "ew_code a = en_code N i" and lt: "announces L i (en_eds N i) a"
  shows "editors_ok U L (moved i True a N) V"
proof -
  have v: "versions_ok U (\<lambda>j. code_counts (en_code N j)) (\<lambda>j. crs_s (en_code N j)) (said_codes N) V" using ok by (simp add: editors_ok_def)
  show ?thesis
    by (rule moved_ok [OF ok _ _ lt]) (use ok i code version_said [OF v i] in \<open>simp_all add: moved_said editors_ok_def fun_upd_idem\<close>)
qed

lemma heard_ok:
  assumes us: "editors U E eds L" and ok: "editors_ok U L N V" and j: "j \<in> U" and room: "has_room j (en_eds N j)" and y: "y \<in> set (en_said N)"
    and m: "cr_merge (en_code N j) y = Ok (res, x)" and code: "ew_code a \<in> {x, en_code N j}" and sc: "scripts (en_eds N j) a = []"
  shows "\<exists>V'. editors_ok U L (moved j False a N) V'"
    and "x = en_code N j \<and> code_counts y \<le> code_counts (en_code N j) \<or> \<not> code_counts y \<le> code_counts (en_code N j) \<and> crs_s x = crs_s y"
proof -
  have v: "versions_ok U (\<lambda>j. code_counts (en_code N j)) (\<lambda>j. crs_s (en_code N j)) (said_codes N) V" using ok by (simp add: editors_ok_def)
  have c: "code_ok U j (en_code N j)" and l: "length (crs_s (en_code N j)) \<le> max_alloc L" and e: "entries_ok U (crs_c y)" "length (crs_s y) \<le> max_alloc L"
    using ok j y by (simp_all add: editors_ok_def)
  have r: "count_of (cr_clock (en_code N j)) j + 1 < 2 ^ 63" using room by (simp add: has_room_def en_code_def)
  have x: "code_ok U j x" "if code_counts y \<le> code_counts (en_code N j) then x = en_code N j
     else if code_counts (en_code N j) \<le> code_counts y then crs_s x = crs_s y \<and> cr_clock x = cr_clock y
     else crs_s x = crs_s y \<and> (\<forall>k. code_counts x k = max (if k = j then Suc (code_counts (en_code N j) k) else code_counts (en_code N j) k) (code_counts y k))"
    using code_merge [OF c e(1) j r] m unfolding code_counts_le code_counts_def by simp_all
  then show "x = en_code N j \<and> code_counts y \<le> code_counts (en_code N j) \<or> \<not> code_counts y \<le> code_counts (en_code N j) \<and> crs_s x = crs_s y"
    by (auto split: if_splits)
  have mem: "(code_counts y, crs_s y) \<in> said_codes N" using y by (auto simp: said_codes_def)
  have put: "\<exists>V'. editors_ok U L (moved j False a N) V'"
    if "code_ok U j (ew_code a)" "length (crs_s (ew_code a)) \<le> max_alloc L"
      "versions_ok U ((\<lambda>i. code_counts (en_code N i))(j := code_counts (ew_code a))) ((\<lambda>i. crs_s (en_code N i))(j := crs_s (ew_code a))) (said_codes N) V'" for V'
    by (rule exI [of _ V'], rule moved_ok [OF ok that(1,2) _ sc]) (unfold moved_said, simp_all add: that(3))
  show "\<exists>V'. editors_ok U L (moved j False a N) V'"
  proof (cases "ew_code a = en_code N j")
    case True
    then show ?thesis using put [of V] c l v by (simp add: fun_upd_idem)
  next
    case False
    then have ax: "ew_code a = x" "x \<noteq> en_code N j" using code by auto
    then have nle: "\<not> code_counts y \<le> code_counts (en_code N j)" and s: "crs_s x = crs_s y" using x(2) by (auto split: if_splits)
    show ?thesis
    proof (cases "code_counts (en_code N j) \<le> code_counts y")
      case True
      then have "code_counts x = code_counts y" using x(2) nle by (simp add: code_counts_def fun_eq_iff)
      then show ?thesis using put [of V] version_taken [OF v j mem True] x(1) s e(2) ax(1) by simp
    next
      case False
      then have "\<And>k. code_counts x k = max (if k = j then Suc (code_counts (en_code N j) k) else code_counts (en_code N j) k) (code_counts y k)" using x(2) nle by simp
      note w = joined_version [OF ok j y nle this, folded s, folded ax(1)]
      show ?thesis by (rule put [OF _ _ w]) (use x(1) s e(2) ax(1) in simp_all)
    qed
  qed
qed

lemma step_ok:
  fixes N :: "'s editor_net"
  assumes us: "editors U E eds L" and ok: "editors_ok U L N V" and step: "editor_step U E N N'"
  shows "\<exists>V'. editors_ok U L N' V'"
  using step
proof cases
  case (Key i w pos a)
  note e = editorsD(3) [OF us Key(2)]
  have c: "code_ok U i (en_code N i)" using ok Key(2) by (simp add: editors_ok_def)
  have r: "count_of (cr_clock (en_code N i)) i + 1 < 2 ^ 63" using Key(3) by (simp add: has_room_def en_code_def)
  have t: "crs_c (cr_set w (en_code N i)) = tracked_incr (crs_c (en_code N i))" "crs_s (cr_set w (en_code N i)) = w" by (simp_all add: cr_set_def)
  have f: "code_fits (ee_cxx (E i)) s1" if "ew_code s1 = cr_set w (ew_code (en_eds N i))" for s1 :: "'s app_editor"
    using code_ok_fits [OF us Key(2), of s1] code_ok_incr(1) [OF c Key(2) r t(1)] that Key(4) e t by (simp add: en_code_def)
  show ?thesis using type_ok [OF us ok Key(2,3) _ t(1), of a] key_does [OF _ f Key(5)] Key(1,4) e t by (simp add: en_code_def)
next
  case (Data i a)
  note e = editorsD(3) [OF us Data(2)]
  have c: "code_ok U i (en_code N i)" and l: "length (crs_s (en_code N i)) \<le> max_alloc L" using ok Data(2) by (simp_all add: editors_ok_def)
  have r: "count_of (cr_clock (en_code N i)) i + 1 < 2 ^ 63" using Data(3) by (simp add: has_room_def en_code_def)
  let ?x = "(en_code N i)\<lparr>crs_c := tracked_incr (crs_c (en_code N i))\<rparr>"
  have f: "code_fits (ee_cxx (E i)) s1" if "ew_code s1 = (ew_code (en_eds N i))\<lparr>crs_c := tracked_incr (crs_c (ew_code (en_eds N i)))\<rparr>" for s1 :: "'s app_editor"
    using code_ok_fits [OF us Data(2), of s1] code_ok_incr(1) [OF c Data(2) r, of ?x] that l e by (simp add: en_code_def)
  show ?thesis using type_ok [OF us ok Data(2,3), of a ?x] data_does [OF _ Data(4,5) f] Data(1) e l by (simp add: en_code_def)
next
  case (Ask i m a)
  note e = editorsD(3) [OF us Ask(2)]
  have f: "code_fits (ee_cxx (E i)) (en_eds N i)" using code_ok_fits [OF us Ask(2), of "en_eds N i"] ok Ask(2) e by (simp add: editors_ok_def en_code_def)
  show ?thesis using said_ok [OF ok Ask(2), of a] ask_does [OF _ Ask(3) f Ask(4)] Ask(1) e by (auto simp: en_code_def)
next
  case (Hear j x a)
  note e = editorsD(3) [OF us Hear(2)]
  obtain t where t: "mt_type (m_meta (ps_letter x)) = SCRIPT_CODE_MESSAGE" "text_script_from_message L (arrived (ps_letter x)) = Ok t" "ts_code t = ps_code x"
    and y: "ps_code x \<in> set (en_said N)" using ok Hear(4) by (auto simp: editors_ok_def letter_ok_def)
  have c: "code_ok U j (en_code N j)" "entries_ok U (crs_c (ps_code x))" using ok Hear(2) y by (simp_all add: editors_ok_def)
  have r: "count_of (cr_clock (en_code N j)) j + 1 < 2 ^ 63" using Hear(3) by (simp add: has_room_def en_code_def)
  obtain res x1 where m: "cr_merge (en_code N j) (ps_code x) = Ok (res, x1)" using code_merge [OF c Hear(2) r] by blast
  have d: "scripts (en_eds N j) a = []" "ew_code a \<in> {x1, en_code N j}"
    using hear_does [of "E j" "arrived (ps_letter x)" t "en_eds N j" res x1 a] e t m survives_snd [OF Hear(5)] by (auto simp: en_code_def arrived_def)
  then show ?thesis using heard_ok(1) [OF us ok Hear(2,3) y m d(2,1)] Hear(1) by simp
next
  case (Other i a)
  have v: "versions_ok U (\<lambda>j. code_counts (en_code N j)) (\<lambda>j. crs_s (en_code N j)) (said_codes N) V" using ok by (simp add: editors_ok_def)
  show ?thesis
    by (unfold Other(1), rule exI [of _ V], rule moved_ok [OF ok]) (use ok v Other(2-4) in \<open>simp_all add: moved_said editors_ok_def fun_upd_idem en_code_def\<close>)
qed

lemma versions_cong:
  assumes v: "versions_ok U C T M V" and e: "\<And>i. i \<in> U \<Longrightarrow> D i = C i" "\<And>i. i \<in> U \<Longrightarrow> S i = T i"
  shows "versions_ok U D S M V"
proof (rule versions_okI)
  show "\<exists>a. (a, D i, S i) \<in> V" if "i \<in> U" for i using v_current [OF v that] e that by simp
  show "c k \<le> D k k" if "(a, c, s) \<in> V" "k \<in> U" for a c s k using v_bound [OF v that] e that by simp
  show "\<exists>d u. (d, u) \<in> M \<and> c \<le> d \<and> d \<le> D j" if "(a, c, s) \<in> V" "j \<in> U" "c \<le> D j" "a \<noteq> j" for a c s j using v_heard [OF v that(1,2)] that(3,4) e that(2) by simp
  show "S j = s" if "j \<in> U" "(c, s) \<in> M" "c \<le> D j" "\<And>d u. (d, u) \<in> M \<Longrightarrow> d \<le> D j \<Longrightarrow> d \<le> c" for j c s
    using v_agree [OF v that(1,2)] that(3,4) e that(1) by simp
qed (use v_said [OF v] v_maker [OF v] v_follows [OF v] v_text [OF v] in blast)+

lemma editors_reach_ok:
  assumes r: "editor_reach U E eds N" and us: "editors U E eds L"
  shows "\<exists>V. editors_ok U L N V"
  using r
proof (induction rule: editor_reach.induct)
  case Start
  let ?N = "\<lparr>en_eds = eds, en_sent = [], en_said = []\<rparr>"
  have c: "code_counts (en_code ?N i) = first_counts i" "code_ok U i (en_code ?N i)" "length (crs_s (en_code ?N i)) \<le> max_alloc L" if i: "i \<in> U" for i
  proof -
    obtain w where w: "ew_code (eds i) = cr_init_set w (cr_new i)" "length w \<le> max_alloc L" using editorsD(4) [OF us i] by blast
    show "code_counts (en_code ?N i) = first_counts i" "length (crs_s (en_code ?N i)) \<le> max_alloc L"
      using w by (auto simp: en_code_def code_counts_def first_counts_def cr_init_set_def cr_new_def tracked_new_def vclock_val_def vclock_set_def)
    show "code_ok U i (en_code ?N i)" using i w tracked_inv_constructors(1) [of i]
      by (auto simp: en_code_def code_ok_def entries_ok_def cr_init_set_def cr_new_def tracked_new_def vclock_set_def)
  qed
  have "versions_ok U (\<lambda>i. code_counts (en_code ?N i)) (\<lambda>i. crs_s (en_code ?N i)) {} {(i, first_counts i, crs_s (en_code ?N i)) | i. i \<in> U}"
    by (rule versions_cong [OF versions_start]) (simp_all add: c(1))
  then show ?case using c by (auto simp: editors_ok_def said_codes_def)
next
  case (Next N N')
  then show ?case using step_ok [OF us] by blast
qed

text \<open>
  C36. Editors agree on the last word.  In every state that the editors of a conversation can reach, with changes by anybody at any time and letters lost, delayed,
  reordered and repeated: a code that takes every code said so far into account is what everybody has who has received it or something newer, and whoever is in the
  conversation with its author and receives it now has it then, whatever came before.
\<close>

theorem editors_agree:
  assumes "editors U E eds L" "editor_reach U E eds N" "j \<in> U" "x \<in> set (en_sent N)" "\<forall>y\<in>set (en_said N). clock_le (cr_clock y) (cr_clock (ps_code x))"
  shows "(clock_le (cr_clock (ps_code x)) (cr_clock (ew_code (en_eds N j))) \<longrightarrow> crs_s (ew_code (en_eds N j)) = crs_s (ps_code x)) \<and>
    (has_room j (en_eds N j) \<and> cl_has (ps_author x) (ee_contacts (E j)) \<longrightarrow>
      crs_s (ew_code (snd (received_code (E j) (arrived (ps_letter x)) (en_eds N j)))) = crs_s (ps_code x))"
proof -
  obtain V where ok: "editors_ok U L N V" using editors_reach_ok [OF assms(2,1)] by blast
  have v: "versions_ok U (\<lambda>j. code_counts (en_code N j)) (\<lambda>j. crs_s (en_code N j)) (said_codes N) V" using ok by (simp add: editors_ok_def)
  obtain t where t: "mt_type (m_meta (ps_letter x)) = SCRIPT_CODE_MESSAGE" "text_script_from_message L (arrived (ps_letter x)) = Ok t" "ts_code t = ps_code x" "am_from_id (ts_from t) = ps_author x"
    and y: "ps_code x \<in> set (en_said N)" using ok assms(4) by (auto simp: editors_ok_def letter_ok_def)
  have top: "d \<le> code_counts (ps_code x)" if "(d, u) \<in> said_codes N" for d u using that assms(5) by (auto simp: said_codes_def code_counts_le)
  have has: "crs_s (en_code N j) = crs_s (ps_code x)" if "code_counts (ps_code x) \<le> code_counts (en_code N j)"
    using v_agree [OF v assms(3) _ that, of "crs_s (ps_code x)"] top y by (auto simp: said_codes_def)
  have "crs_s (ew_code (snd (received_code (E j) (arrived (ps_letter x)) (en_eds N j)))) = crs_s (ps_code x)"
    if room: "has_room j (en_eds N j)" and con: "cl_has (ps_author x) (ee_contacts (E j))"
  proof -
    have c: "code_ok U j (en_code N j)" "entries_ok U (crs_c (ps_code x))" using ok assms(3) y by (simp_all add: editors_ok_def)
    have r: "count_of (cr_clock (en_code N j)) j + 1 < 2 ^ 63" using room by (simp add: has_room_def en_code_def)
    obtain res x1 where m: "cr_merge (en_code N j) (ps_code x) = Ok (res, x1)" using code_merge [OF c assms(3) r] by blast
    let ?a = "snd (received_code (E j) (arrived (ps_letter x)) (en_eds N j))"
    have d: "scripts (en_eds N j) ?a = []" "ew_code ?a = x1"
      using hear_does [of "E j" "arrived (ps_letter x)" t "en_eds N j" res x1 ?a] editorsD(3) [OF assms(1,3)] t m con by (simp_all add: en_code_def arrived_def)
    have "ew_code ?a \<in> {x1, en_code N j}" using d(2) by simp
    then show ?thesis using heard_ok(2) [OF assms(1) ok assms(3) room y m _ d(1)] d(2) has by auto
  qed
  then show ?thesis using has by (simp add: code_counts_le en_code_def)
qed

definition sample_editors :: "calls editor_net" where
  "sample_editors = \<lparr>en_eds = sample_editor, en_sent = [], en_said = []\<rparr>"

lemma sample_editors_ok: "editors {''a'', ''b'', ''c''} sample_editor_env sample_editor decimal_lib"
proof -
  have "cl_ok (lu_contacts (ce_user (sample_chat u)))" "ui_id (lu_info (ce_user (sample_chat u))) = u" for u
    by (auto simp: sample_chat_def Let_def sample_info_def intro!: indexed_ok)
  moreover have "1 \<le> max_alloc decimal_lib" "length ''x'' \<le> max_alloc decimal_lib" by (simp_all add: decimal_lib_def)
  ultimately show ?thesis using dec.lexical_cast_axioms sample_editor_code by (auto simp: editors_def sample_editor_env_def sample_api_env_def)
qed

lemma editor_send_known:
  assumes "cl_by_id u (lu_contacts (ae_user (ee_api E))) = Ok (Some c)"
  shows "\<exists>b. editor_send E u m s = (Ok (), put_mail b s) \<and> outbox b = outbox (ew_mail s) @ [letter_to (ae_user (ee_api E)) (mailbox_address (ew_mail s)) m c]"
proof -
  obtain b where "sender_send (ae_user (ee_api E)) u m (ew_mail s) = Ok (True, b)" "outbox b = outbox (ew_mail s) @ [letter_to (ae_user (ee_api E)) (mailbox_address (ew_mail s)) m c]"
    using push_outbox_Ok [of "letter_to (ae_user (ee_api E)) (mailbox_address (ew_mail s)) m c" "ew_mail s"] assms by (auto simp: sender_send_def letter_to_def)
  then show ?thesis by (intro exI [of _ b]) (simp add: editor_send_def api_send_def on_lua_def partA_def thenA_def bindA_def retA_def put_mail_def)
qed

lemma sample_sends:
  "\<exists>b l ls. editor_send_all (sample_editor_env ''a'') m s = (Ok (), put_mail b s) \<and> outbox b = outbox (ew_mail s) @ l # ls \<and> mt_type (m_meta l) = mt_type (m_meta m)"
proof -
  let ?E = "sample_editor_env ''a''"
  have c: "cl_list (ee_contacts ?E) = [sample_info 1 ''b'', sample_info 1 ''c'']"
    by (simp add: sample_editor_env_def sample_api_env_def sample_chat_def indexed_def Let_def)
  have k: "cl_by_id (ui_id c) (lu_contacts (ae_user (ee_api ?E))) = Ok (Some c)" if "c \<in> {sample_info 1 ''b'', sample_info 1 ''c''}" for c
    using that by (auto simp: sample_editor_env_def sample_api_env_def sample_chat_def indexed_def cl_by_id_def sample_info_def Let_def)
  let ?l = "\<lambda>c. letter_to (ae_user (ee_api ?E)) (mailbox_address (ew_mail s)) m c"
  obtain b where b: "editor_send ?E (ui_id (sample_info 1 ''b'')) m s = (Ok (), put_mail b s)" "outbox b = outbox (ew_mail s) @ [?l (sample_info 1 ''b'')]"
    using editor_send_known [OF k] by blast
  obtain b1 l1 where b1: "editor_send ?E (ui_id (sample_info 1 ''c'')) m (put_mail b s) = (Ok (), put_mail b1 s)" "outbox b1 = outbox b @ [l1]"
    using editor_send_known [OF k, of "sample_info 1 ''c''" m "put_mail b s"] by auto
  have "editor_send_all ?E m s = (Ok (), put_mail b1 s)"
    using c b(1) b1(1) by (simp add: editor_send_all_def thenA_def bindA_def retA_def)
  then show ?thesis using b(2) b1(2) by (intro exI [of _ b1] exI [of _ "?l (sample_info 1 ''b'')"] exI [of _ "[l1]"]) (simp add: letter_to_def)
qed

lemma sample_types:
  "\<exists>a x. editor_step {''a'', ''b'', ''c''} sample_editor_env sample_editors (moved ''a'' True a sample_editors) \<and>
     x \<in> set (en_sent (moved ''a'' True a sample_editors)) \<and> ps_author x = ''a'' \<and> en_said (moved ''a'' True a sample_editors) = [ps_code x] \<and> crs_s (ps_code x) = ''hi''"
proof -
  let ?E = "sample_editor_env ''a''" and ?s = "sample_editor ''a''"
  have cl: "cl_ok (lu_contacts (ae_user (ee_api ?E)))" using editorsD(3) [OF sample_editors_ok, of "''a''"] by simp
  let ?s1 = "?s\<lparr>ew_script := ''hi'', ew_pos := 2\<rparr>"
  obtain s2 b where s2: "cursor_changed ?E (of_nat 2) (of_nat 2) ?s1 = (Ok (), s2)" "quiet ?s1 s2" "s2 = put_mail b ?s1"
    using cursor_ends [OF cl, of "of_nat 2" "of_nat 2" ?s1] by blast
  let ?s3 = "s2\<lparr>ew_code := cr_set ''hi'' (ew_code ?s), ew_dirty := True\<rparr>"
  obtain m where m: "text_script_to_message (ee_cxx ?E) \<lparr>ts_from = as_message_default, ts_init = False, ts_code = ew_code ?s3, ts_data = []\<rparr> = Ok m" "mt_type (m_meta m) = SCRIPT_CODE_MESSAGE"
    by (simp add: text_script_to_message_def to_message_def Let_def as_message_default_def message_default_def metadata_default_def)
  obtain b1 l ls where b1: "editor_send_all ?E m ?s3 = (Ok (), put_mail b1 ?s3)" "outbox b1 = outbox (ew_mail ?s3) @ l # ls" "mt_type (m_meta l) = SCRIPT_CODE_MESSAGE"
    using sample_sends m(2) by metis
  let ?a = "put_mail b1 ?s3"
  have w: "ew_script s2 = ''hi''" "ew_code s2 = ew_code ?s" using s2(3) by (simp_all add: put_mail_def)
  have st: "bindA (cursor_changed ?E (of_nat 2) (of_nat 2)) f ?s1 = f () s2" for f :: "unit \<Rightarrow> (calls, unit) ew_action"
    using s2(1) by (simp add: bindA_def)
  have "send_script ?E False ?s3 = (Ok (), ?a)"
    using m(1) b1(1) by (simp add: send_script_def prepare_script_message_def bindA_def getA_def retA_def liftA_def)
  then have "key_pressed ?E ''hi'' 2 ?s = (Ok (), ?a)" using w st by (simp add: key_pressed_def text_typed_def)
  then have step: "editor_step {''a'', ''b'', ''c''} sample_editor_env sample_editors (moved ''a'' True ?a sample_editors)"
    by (intro editor_step.Key [where w = "''hi''" and pos = 2])
      (simp_all add: survives_def sample_editors_def has_room_def sample_editor_code cr_init_set_def cr_new_def tracked_new_def vclock_val_def vclock_set_def sample_editor_env_def sample_api_env_def decimal_lib_def)
  obtain ks where "outbox (ew_mail s2) = outbox (ew_mail ?s) @ ks" using s2(2) by (auto simp: quiet_def)
  then have "l \<in> set (scripts ?s ?a)" using b1 by (simp add: scripts_def)
  then have "\<lparr>ps_author = ''a'', ps_code = ew_code ?a, ps_letter = l\<rparr> \<in> set (en_sent (moved ''a'' True ?a sample_editors))"
    by (auto simp: moved_def sample_editors_def)
  moreover have "en_said (moved ''a'' True ?a sample_editors) = [ew_code ?a]" "crs_s (ew_code ?a) = ''hi''" by (simp_all add: moved_def sample_editors_def cr_set_def)
  ultimately show ?thesis using step by force
qed

theorem editors_agree_witness:
  "\<exists>N x. editor_reach {''a'', ''b'', ''c''} sample_editor_env sample_editor N \<and> x \<in> set (en_sent N) \<and>
     crs_s (ew_code (en_eds N ''b'')) = ''x'' \<and> crs_s (ew_code (snd (received_code (sample_editor_env ''b'') (arrived (ps_letter x)) (en_eds N ''b'')))) = ''hi''"
proof -
  obtain a x where s: "editor_step {''a'', ''b'', ''c''} sample_editor_env sample_editors (moved ''a'' True a sample_editors)"
    "x \<in> set (en_sent (moved ''a'' True a sample_editors))" "ps_author x = ''a''" "en_said (moved ''a'' True a sample_editors) = [ps_code x]" "crs_s (ps_code x) = ''hi''"
    using sample_types by blast
  let ?N = "moved ''a'' True a sample_editors"
  have r: "editor_reach {''a'', ''b'', ''c''} sample_editor_env sample_editor ?N"
    using editor_reach.Next [OF editor_reach.Start s(1) [unfolded sample_editors_def]] by (simp add: sample_editors_def)
  have b: "en_eds ?N ''b'' = sample_editor ''b''" by (simp add: moved_def sample_editors_def)
  have room: "has_room ''b'' (sample_editor ''b'')"
    by (simp add: has_room_def sample_editor_code cr_init_set_def cr_new_def tracked_new_def vclock_val_def vclock_set_def)
  have con: "cl_has ''a'' (ee_contacts (sample_editor_env ''b''))"
    by (simp add: sample_editor_env_def sample_api_env_def sample_chat_def indexed_def cl_has_def sample_info_def Let_def)
  show ?thesis
    using editors_agree [OF sample_editors_ok r _ s(2), of "''b''"] r s b room con sample_editor_code [of "''b''"]
    by (intro exI [of _ ?N] exI [of _ x]) (auto simp: cr_init_set_def cr_new_def)
qed

end
