(* ===== verification/App_Area.thy ===== *)
theory App_Area
  imports App_Editor Conversation_Service
begin

text \<open>
  The apps of a conversation, \<^verbatim>\<open>src/src/gui/app_area.cpp\<close> and \<^verbatim>\<open>conversation.cpp\<close>: apps that the user adds are sent to the others, apps that others add are made here
  too, requests for an app are answered, and the apps hear who quits.  Left out are the windows; the lists of contacts on the screen only show what the conversation has.
\<close>

section \<open>State\<close>

text \<open>An app on the screen: a chat, an editor, or an app with code, of which the api with its mailbox is the state.\<close>

datatype 's app_widget = Chat_Widget chat_app | Editor_Widget "'s app_editor" | Script_Widget "'s lua_api"

fun widget_mail :: "'s app_widget \<Rightarrow> mailbox" where
  "widget_mail (Chat_Widget c) = ch_mail c"
| "widget_mail (Editor_Widget e) = la_mail (ew_lua e)"
| "widget_mail (Script_Widget a) = la_mail a"

fun widget_type :: "'s app_widget \<Rightarrow> string" where
  "widget_type (Chat_Widget _) = CHAT"
| "widget_type (Editor_Widget _) = APP_EDITOR"
| "widget_type (Script_Widget _) = SCRIPT_APP"

record 's app_pair =
  pr_app :: "app option"
  pr_widget :: "'s app_widget"

text \<open>
  \<open>aa_post\<close> are the addresses of the mailboxes given to the post office of the conversation, none when the office is gone; \<open>aa_alerts\<close> are the alerts of the conversation.
  The map of apps has no order of its own; here it is the order of insertion.  An editor keeps a copy of the service of apps, which nothing here calls.
\<close>

record ('k, 's) app_area =
  aa_conv :: "'k conversation"
  aa_post :: "string list option"
  aa_apps :: "(string \<times> 's app_pair) list"
  aa_service :: app_service
  aa_alerts :: "(string \<times> bool) list"

record 'k area_env =
  re_editor :: "'k editor_env"
  re_now :: string

type_synonym ('k, 's, 'a) aa_action = "(('k, 's) app_area, 'a) action"

abbreviation "re_cxx R \<equiv> ee_cxx (re_editor R)"
abbreviation "re_dirs R \<equiv> ee_dirs (re_editor R)"
abbreviation "re_user R \<equiv> ae_user (ee_api (re_editor R))"

definition area_editor_env :: "'k area_env \<Rightarrow> ('k, 's) app_area \<Rightarrow> 'k editor_env" where
  "area_editor_env R s = (re_editor R)\<lparr>ee_api := (ee_api (re_editor R))\<lparr>ae_conv := aa_conv s\<rparr>\<rparr>"

definition area_chat_env :: "'k area_env \<Rightarrow> ('k, 's) app_area \<Rightarrow> 'k chat_env" where
  "area_chat_env R s = \<lparr>ce_cxx = re_cxx R, ce_user = re_user R, ce_contacts = cv_contacts (aa_conv s), ce_now = re_now R\<rparr>"

definition in_conv :: "('k conversation \<Rightarrow> ('a \<times> 'k conversation) outcome) \<Rightarrow> ('k, 's, 'a) aa_action" where
  "in_conv f = partA aa_conv (\<lambda>v s. s\<lparr>aa_conv := v\<rparr>) f"

definition in_service :: "'a as_action \<Rightarrow> ('k, 's, 'a) aa_action" where
  "in_service m s = (let (r, x) = m (aa_service s) in (r, s\<lparr>aa_service := x\<rparr>))"

definition post_mailbox :: "string \<Rightarrow> ('k, 's, unit) aa_action" where
  "post_mailbox i = modA (\<lambda>s. s\<lparr>aa_post := map_option (List.insert i) (aa_post s)\<rparr>)"

definition put_app :: "string \<Rightarrow> 's app_pair \<Rightarrow> ('k, 's, unit) aa_action" where
  "put_app i p = modA (\<lambda>s. s\<lparr>aa_apps := alist_put i p (aa_apps s)\<rparr>)"

definition area_alert :: "('k, 's, unit) aa_action" where
  "area_alert = modA (\<lambda>s. s\<lparr>aa_alerts := aa_alerts s @ [(cv_id (aa_conv s), False)]\<rparr>)"

section \<open>Starting apps\<close>

definition ran_on :: "('w, unit) action \<Rightarrow> 'w \<Rightarrow> 'w outcome" where
  "ran_on m w = (let (r, w1) = m w in bindO r (\<lambda>_. Ok w1))"

definition start_chat :: "'k area_env \<Rightarrow> string \<Rightarrow> ('k, 's, 's app_widget) aa_action" where
  "start_chat R i = bindA (getA (area_chat_env R)) (\<lambda>E. liftA (bindO (ran_on (chat_start E) (chat_new E i)) (\<lambda>c. Ok (Chat_Widget c))))"

definition start_editor :: "('k, 's) script_engine \<Rightarrow> 'k area_env \<Rightarrow> string \<Rightarrow> string \<Rightarrow> app \<Rightarrow> ('k, 's, 's app_widget) aa_action" where
  "start_editor N R from_id i a =
     bindA (getA (\<lambda>s. (area_editor_env R s, aa_service s))) (\<lambda>(E, sv). liftA (bindO (ran_on (editor_start E) (editor_new N E from_id i a sv)) (\<lambda>e. Ok (Editor_Widget e))))"

definition start_script :: "('k, 's) script_engine \<Rightarrow> 'k area_env \<Rightarrow> string \<Rightarrow> string \<Rightarrow> app \<Rightarrow> ('k, 's, 's app_widget) aa_action" where
  "start_script N R from_id i a =
     thenA (requireA (i \<noteq> []))
       (liftA (let (r, l) = script_app_start N (re_cxx R) (mailbox_new i) from_id (ap_code a) in bindO r (\<lambda>_. Ok (Script_Widget l))))"

section \<open>Apps of others\<close>

text \<open>When the post office is gone nothing is made, and the check of what was made fails.\<close>

definition add_new_app :: "('k, 's) script_engine \<Rightarrow> 'k area_env \<Rightarrow> string \<Rightarrow> new_app \<Rightarrow> ('k, 's, bool) aa_action" where
  "add_new_app N R uuid n =
     bindA (getA (\<lambda>s. has_app (na_id n) (aa_conv s))) (\<lambda>known. if known \<or> na_type n = [] \<or> na_id n = [] then retA False else
     bindA (getA aa_post) (\<lambda>post.
     let finish = (\<lambda>aid ao w. thenA (in_conv (\<lambda>v. bindO (add_app (app_metadatum.make (na_type n) aid (na_id n)) v) (\<lambda>v1. Ok ((), v1))))
                     (thenA (put_app (na_id n) \<lparr>pr_app = ao, pr_widget = w\<rparr>) (retA True))) in
     if na_type n = CHAT then
       thenA (requireA (post \<noteq> None)) (thenA (post_mailbox (na_id n)) (bindA (start_chat R (na_id n)) (finish [] None)))
     else if na_type n = APP_EDITOR then
       thenA (requireA (post \<noteq> None))
      (bindA (in_service (create_new_app (re_cxx R) (re_dirs R) uuid)) (\<lambda>a.
       let a1 = app_set_launched_local False a in
       thenA (post_mailbox (na_id n)) (bindA (start_editor N R (na_from_id n) (na_id n) a1) (finish [] (Some a1)))))
     else if na_type n = SCRIPT_APP then
       thenA (requireA (post \<noteq> None))
      (bindA (liftA (decode_message (re_cxx R) (na_data n))) (\<lambda>m.
       bindA (in_service (create_app (re_cxx R) (re_dirs R) (ee_names (re_editor R)) m)) (\<lambda>a.
       bindA (liftA (app_id a)) (\<lambda>i. if i = [] then retA False else
       thenA (post_mailbox (na_id n)) (bindA (start_script N R (na_from_id n) (na_id n) a) (finish i (Some a)))))))
     else retA False))"

section \<open>Apps of the user\<close>

text \<open>The app is shown and started, the conversation and the post office are told, and it is sent to everybody; \<open>i\<close> is the new id of the app on the screen.\<close>

definition add_own_app :: "'k area_env \<Rightarrow> string \<Rightarrow> string \<Rightarrow> string \<Rightarrow> app option \<Rightarrow> ('k, 's, 's app_widget) aa_action \<Rightarrow> ('k, 's, unit) aa_action" where
  "add_own_app R type i aid ao start =
     thenA (requireA (i \<noteq> []))
     (bindA (getA aa_post) (\<lambda>post. if post = None then retA () else
      bindA start (\<lambda>w.
      thenA (in_conv (\<lambda>v. bindO (add_app (app_metadatum.make type aid i) v) (\<lambda>v1. Ok ((), v1))))
     (thenA (post_mailbox i)
     (bindA (case ao of None \<Rightarrow> retA [] | Some a \<Rightarrow> bindA (in_service (onDisk (message_of_app (re_cxx R) (re_dirs R) a))) (\<lambda>m. retA (encode_message (re_cxx R) m))) (\<lambda>b.
      thenA (put_app i \<lparr>pr_app = ao, pr_widget = w\<rparr>)
        (bindA (in_conv (conv_send (re_user R) (new_app_message \<lparr>na_id = i, na_type = type, na_from_id = [], na_data = b\<rparr>))) (\<lambda>_. retA ()))))))))"

definition add_chat_app :: "'k area_env \<Rightarrow> string \<Rightarrow> ('k, 's, unit) aa_action" where
  "add_chat_app R i = add_own_app R CHAT i [] None (start_chat R i)"

definition area_create_new_app :: "'k area_env \<Rightarrow> string \<Rightarrow> string \<Rightarrow> ('k, 's, app) aa_action" where
  "area_create_new_app R example uuid = bindA (in_service (create_new_app (re_cxx R) (re_dirs R) uuid)) (\<lambda>a. retA (app_set_code example a))"

text \<open>\<open>example\<close> is the text of the example app.\<close>

definition add_app_editor :: "('k, 's) script_engine \<Rightarrow> 'k area_env \<Rightarrow> string \<Rightarrow> string \<Rightarrow> string \<Rightarrow> string \<Rightarrow> ('k, 's, unit) aa_action" where
  "add_app_editor N R example uuid i aid =
     bindA (if aid = [] then bindA (area_create_new_app R example uuid) (\<lambda>a. retA (Some a)) else in_service (as_load_app (re_cxx R) (re_dirs R) aid)) (\<lambda>ao.
     case ao of None \<Rightarrow> liftA Exit
     | Some a \<Rightarrow> add_own_app R APP_EDITOR i [] None (start_editor N R (ui_id (lu_info (re_user R))) i a))"

definition add_script_app :: "('k, 's) script_engine \<Rightarrow> 'k area_env \<Rightarrow> string \<Rightarrow> string \<Rightarrow> ('k, 's, unit) aa_action" where
  "add_script_app N R i aid =
     bindA (in_service (as_load_app (re_cxx R) (re_dirs R) aid)) (\<lambda>ao. case ao of None \<Rightarrow> retA ()
     | Some a \<Rightarrow> add_own_app R SCRIPT_APP i aid (Some a) (start_script N R (ui_id (lu_info (re_user R))) i a))"

section \<open>Mail of the conversation\<close>

definition CONVERSATION_SYNCED :: string where "CONVERSATION_SYNCED = ''conversation_synced_event''"
definition CONTACT_REMOVED :: string where "CONTACT_REMOVED = ''conversation_contact_removed''"
definition CONTACT_ADDED :: string where "CONTACT_ADDED = ''conversation_contact_added''"
definition CONTACT_CONNECTED :: string where "CONTACT_CONNECTED = ''contact_con''"
definition CONTACT_DISCONNECTED :: string where "CONTACT_DISCONNECTED = ''contact_discon''"
definition CONTACT_ACTIVITY_CHANGED :: string where "CONTACT_ACTIVITY_CHANGED = ''contact_activ''"

definition member_event_of :: "cxx_lib \<Rightarrow> string \<Rightarrow> message \<Rightarrow> (string \<times> string) outcome" where
  "member_event_of L type m =
     bindO (from_message L type m) (\<lambda>(_, d).
     bindO (in_field d ''conversation_id'' as_string) (\<lambda>c. bindO (in_field d ''contact_id'' as_string) (\<lambda>u. Ok (c, u))))"

definition contact_event_of :: "cxx_lib \<Rightarrow> string \<Rightarrow> message \<Rightarrow> string outcome" where
  "contact_event_of L type m =
     bindO (from_message L type m) (\<lambda>(_, d). bindO (in_field d ''id'' as_string) (\<lambda>i. bindO (in_field d ''name'' as_string) (\<lambda>_. Ok i)))"

definition activity_event_of :: "cxx_lib \<Rightarrow> message \<Rightarrow> string outcome" where
  "activity_event_of L m =
     bindO (from_message L CONTACT_ACTIVITY_CHANGED m) (\<lambda>(_, d). in_field d ''id'' as_string)"

fun widget_quit :: "'k chat_env \<Rightarrow> 'k editor_env \<Rightarrow> string \<Rightarrow> 's app_widget \<Rightarrow> 's app_widget outcome" where
  "widget_quit C E i (Chat_Widget c) = bindO (ran_on (contact_quit C i) c) (\<lambda>c. Ok (Chat_Widget c))"
| "widget_quit C E i (Editor_Widget e) = bindO (ran_on (editor_contact_quit E i) e) (\<lambda>e. Ok (Editor_Widget e))"
| "widget_quit C E i (Script_Widget a) = bindO (ran_on (thenA (requireA (i \<noteq> [])) (backend_push (ee_cxx E) (Contact_Quit i))) a) (\<lambda>a. Ok (Script_Widget a))"

definition app_contact_quit :: "'k area_env \<Rightarrow> string \<Rightarrow> string \<Rightarrow> ('k, 's, unit) aa_action" where
  "app_contact_quit R i a =
     bindA (getA (\<lambda>s. (map_of (aa_apps s) a, area_chat_env R s, area_editor_env R s))) (\<lambda>(po, C, E). case po of None \<Rightarrow> retA ()
     | Some p \<Rightarrow> bindA (liftA (widget_quit C E i (pr_widget p))) (\<lambda>w. put_app a (p\<lparr>pr_widget := w\<rparr>)))"

definition notify_apps_contact_quit :: "'k area_env \<Rightarrow> string \<Rightarrow> ('k, 's, unit) aa_action" where
  "notify_apps_contact_quit R i = bindA (getA (\<lambda>s. keys (aa_apps s))) (forA (app_contact_quit R i))"

definition received_new_app :: "('k, 's) script_engine \<Rightarrow> 'k area_env \<Rightarrow> string \<Rightarrow> message \<Rightarrow> ('k, 's, unit) aa_action" where
  "received_new_app N R uuid m =
     thenA (requireA (mt_type (m_meta m) = NEW_APP))
    (thenA (liftA (expect_remote m))
    (thenA (liftA (expect_symmetric m))
    (bindA (liftA (new_app_of m)) (\<lambda>n. bindA (add_new_app N R uuid n) (\<lambda>b. if \<not> b then retA () else area_alert)))))"

definition got_req_app_message :: "'k area_env \<Rightarrow> request_app \<Rightarrow> ('k, 's, unit) aa_action" where
  "got_req_app_message R q =
     bindA (getA (\<lambda>s. map_of (cv_apps (aa_conv s)) (ra_app_address q))) (\<lambda>do1. case do1 of None \<Rightarrow> retA ()
     | Some d \<Rightarrow>
         let answer = (\<lambda>b. bindA (in_conv (conv_send_to (re_user R) (ra_from_id q) (new_app_message \<lparr>na_id = ap_address d, na_type = ap_type d, na_from_id = [], na_data = b\<rparr>))) (\<lambda>_. retA ())) in
         if ap_type d \<noteq> SCRIPT_APP then answer []
         else bindA (getA (\<lambda>s. map_of (aa_apps s) (ap_address d))) (\<lambda>po. case po of None \<Rightarrow> retA ()
           | Some p \<Rightarrow> (case pr_app p of None \<Rightarrow> liftA Exit
               | Some a \<Rightarrow> bindA (in_service (onDisk (message_of_app (re_cxx R) (re_dirs R) a))) (\<lambda>m. answer (encode_message (re_cxx R) m)))))"

definition received_req_app :: "'k area_env \<Rightarrow> message \<Rightarrow> ('k, 's, unit) aa_action" where
  "received_req_app R m =
     thenA (requireA (mt_type (m_meta m) = REQ_APP))
    (thenA (liftA (expect_remote m)) (thenA (liftA (expect_symmetric m)) (bindA (liftA (request_app_of m)) (got_req_app_message R))))"

definition received_conversation_synced :: "message \<Rightarrow> ('k, 's, unit) aa_action" where
  "received_conversation_synced m = thenA (requireA (mt_type (m_meta m) = CONVERSATION_SYNCED)) (thenA (liftA (expect_local m)) area_alert)"

text \<open>Somebody left, or was added to, this conversation and is a contact of the user.\<close>

definition on_member_event :: "'k area_env \<Rightarrow> string \<Rightarrow> message \<Rightarrow> (string \<Rightarrow> ('k, 's, unit) aa_action) \<Rightarrow> ('k, 's, unit) aa_action" where
  "on_member_event R type m k =
     thenA (requireA (mt_type (m_meta m) = type))
    (thenA (liftA (expect_local m))
    (bindA (liftA (member_event_of (re_cxx R) type m)) (\<lambda>(c, u).
     bindA (getA (\<lambda>s. cv_id (aa_conv s))) (\<lambda>i. if c \<noteq> i then retA () else
     bindA (liftA (cl_by_id u (lu_contacts (re_user R)))) (\<lambda>co. if co = None then retA () else thenA (k u) area_alert)))))"

definition received_contact_removed :: "'k area_env \<Rightarrow> message \<Rightarrow> ('k, 's, unit) aa_action" where
  "received_contact_removed R m = on_member_event R CONTACT_REMOVED m (notify_apps_contact_quit R)"

definition received_contact_added :: "'k area_env \<Rightarrow> message \<Rightarrow> ('k, 's, unit) aa_action" where
  "received_contact_added R m = on_member_event R CONTACT_ADDED m (\<lambda>_. retA ())"

definition received_contact_connected :: "message \<Rightarrow> ('k, 's, unit) aa_action" where
  "received_contact_connected m = thenA (requireA (mt_type (m_meta m) = CONTACT_CONNECTED)) (liftA (expect_local m))"

definition received_contact_disconnected :: "'k area_env \<Rightarrow> message \<Rightarrow> ('k, 's, unit) aa_action" where
  "received_contact_disconnected R m =
     thenA (requireA (mt_type (m_meta m) = CONTACT_DISCONNECTED))
    (thenA (liftA (expect_local m))
    (bindA (liftA (contact_event_of (re_cxx R) CONTACT_DISCONNECTED m)) (\<lambda>i.
     bindA (getA (\<lambda>s. cl_by_id i (cv_contacts (aa_conv s)))) (\<lambda>r. bindA (liftA r) (\<lambda>co. if co = None then retA () else
       thenA (in_conv (\<lambda>v. bindO (conv_remove_contact i v) (\<lambda>v1. Ok ((), v1)))) (notify_apps_contact_quit R i))))))"

definition received_contact_activity_changed :: "'k area_env \<Rightarrow> message \<Rightarrow> ('k, 's, unit) aa_action" where
  "received_contact_activity_changed R m =
     thenA (requireA (mt_type (m_meta m) = CONTACT_ACTIVITY_CHANGED))
    (thenA (liftA (expect_local m))
    (bindA (liftA (activity_event_of (re_cxx R) m)) (\<lambda>i. bindA (getA (\<lambda>s. cl_by_id i (cv_contacts (aa_conv s)))) (\<lambda>r. bindA (liftA r) (\<lambda>_. retA ())))))"

definition area_handlers :: "('k, 's) script_engine \<Rightarrow> 'k area_env \<Rightarrow> string \<Rightarrow> (string \<times> (message \<Rightarrow> ('k, 's, unit) aa_action)) list" where
  "area_handlers N R uuid =
     [(NEW_APP, received_new_app N R uuid), (REQ_APP, received_req_app R), (CONVERSATION_SYNCED, received_conversation_synced), (CONTACT_REMOVED, received_contact_removed R),
      (CONTACT_ADDED, received_contact_added R), (CONTACT_CONNECTED, received_contact_connected), (CONTACT_DISCONNECTED, received_contact_disconnected R),
      (CONTACT_ACTIVITY_CHANGED, received_contact_activity_changed R)]"

definition conversation_check_mail :: "('k, 's) script_engine \<Rightarrow> 'k area_env \<Rightarrow> string \<Rightarrow> message \<Rightarrow> ('k, 's, unit) aa_action" where
  "conversation_check_mail N R uuid = service_turn (area_handlers N R uuid)"

section \<open>The apps are in order\<close>

text \<open>
  An app is kept under the address of its mailbox, the conversation lists it with its type, an app with code is there to be sent on, and its mailbox is in the post office.
\<close>

definition entry_ok :: "'k conversation \<Rightarrow> string \<Rightarrow> 's app_pair \<Rightarrow> bool" where
  "entry_ok v a p \<longleftrightarrow> a \<noteq> [] \<and> mailbox_address (widget_mail (pr_widget p)) = a \<and>
     (\<exists>d. map_of (cv_apps v) a = Some d \<and> ap_address d = a \<and> ap_type d = widget_type (pr_widget p) \<and>
        (ap_type d = SCRIPT_APP \<longrightarrow> pr_app p \<noteq> None))"

definition area_ok :: "('k, 's) app_area \<Rightarrow> bool" where
  "area_ok s \<longleftrightarrow> omap_ok (cv_apps (aa_conv s)) \<and>
     (\<forall>a p. map_of (aa_apps s) a = Some p \<longrightarrow> entry_ok (aa_conv s) a p \<and> (\<forall>ps. aa_post s = Some ps \<longrightarrow> a \<in> set ps))"

definition same_app :: "'s app_pair \<Rightarrow> 's app_pair \<Rightarrow> bool" where
  "same_app p q \<longleftrightarrow> pr_app q = pr_app p \<and> widget_type (pr_widget q) = widget_type (pr_widget p) \<and>
     mailbox_address (widget_mail (pr_widget q)) = mailbox_address (widget_mail (pr_widget p))"

definition keeps_apps :: "('k, 's) app_area \<Rightarrow> ('k, 's) app_area \<Rightarrow> bool" where
  "keeps_apps s0 s \<longleftrightarrow> area_ok s \<and> (\<forall>a p. map_of (aa_apps s0) a = Some p \<longrightarrow> (\<exists>q. map_of (aa_apps s) a = Some q \<and> same_app p q))"

lemma same_app_refl [simp]: "same_app p p"
  by (simp add: same_app_def)

lemma keeps_apps_refl: "area_ok s \<Longrightarrow> keeps_apps s s"
  by (simp add: keeps_apps_def)

lemma keeps_apps_mod:
  assumes "keeps_apps s0 s" "aa_apps s1 = aa_apps s" "cv_apps (aa_conv s1) = cv_apps (aa_conv s)" "\<And>ps a. aa_post s1 = Some ps \<Longrightarrow> \<exists>qs. aa_post s = Some qs \<and> set qs \<subseteq> set ps"
  shows "keeps_apps s0 s1"
proof -
  have "entry_ok (aa_conv s1) a p = entry_ok (aa_conv s) a p" for a and p :: "'b app_pair" by (simp add: entry_ok_def assms(3))
  moreover have "a \<in> set ps" if "map_of (aa_apps s) a = Some p" "aa_post s1 = Some ps" for a p ps
    using assms(4) [OF that(2)] assms(1) that(1) unfolding keeps_apps_def area_ok_def by blast
  ultimately show ?thesis using assms(1) unfolding keeps_apps_def area_ok_def assms(2,3) by simp
qed

lemma keeps_in_conv:
  assumes "\<And>v a v1. f v = Ok (a, v1) \<Longrightarrow> cv_apps v1 = cv_apps v"
  shows "keeps (keeps_apps s0) (in_conv f)"
  unfolding in_conv_def by (rule keeps_partA) (auto dest: assms elim!: keeps_apps_mod)

lemma keeps_in_service: "keeps (keeps_apps s0) (in_service m)"
  unfolding keeps_def in_service_def by (auto simp: Let_def split_beta elim!: keeps_apps_mod)

lemma keeps_area_alert: "keeps (keeps_apps s0) area_alert"
  unfolding area_alert_def by (rule keeps_modA) (auto elim!: keeps_apps_mod)

lemma conv_send_to_apps: "conv_send_to lu to m v = Ok (b, v1) \<Longrightarrow> cv_apps v1 = cv_apps v"
  by (auto simp: conv_send_to_def)

lemma send_all_apps: "send_all lu cs m b v = Ok (b1, v1) \<Longrightarrow> cv_apps v1 = cv_apps v"
  by (induction cs arbitrary: v b) (auto dest: conv_send_to_apps)

lemma conv_remove_apps: "conv_remove_contact i v = Ok v1 \<Longrightarrow> cv_apps v1 = cv_apps v"
  by (auto simp: conv_remove_contact_def split: option.splits)

lemma keeps_conv_ops:
  "keeps (keeps_apps s0) (in_conv (conv_send lu m))" "keeps (keeps_apps s0) (in_conv (conv_send_to lu to m))"
  "keeps (keeps_apps s0) (in_conv (\<lambda>v. bindO (conv_remove_contact i v) (\<lambda>v1. Ok ((), v1))))"
  by (rule keeps_in_conv; auto simp: conv_send_def dest: send_all_apps conv_send_to_apps conv_remove_apps)+

section \<open>What a start makes\<close>

text \<open>Starting and telling an app that somebody quit leave it the mailbox it has.\<close>

lemma keeps_sends: "keeps (\<lambda>c. mailbox_address (ch_mail c) = i) (chat_send_all E m)"
  unfolding chat_send_all_def by (intro keeps_intros keeps_partA) (auto dest: sender_send_address)

lemma keeps_chat_start: "keeps (\<lambda>c. mailbox_address (ch_mail c) = i) (chat_start E)"
  unfolding chat_start_def chat_join_def add_text_def by (intro keeps_intros keeps_sends keeps_modA) simp

lemma keeps_chat_quit: "keeps (\<lambda>c. mailbox_address (ch_mail c) = i) (contact_quit E u)"
  unfolding contact_quit_def add_text_def by (intro keeps_intros keeps_modA) simp

lemma keeps_push: "keeps (\<lambda>a. mailbox_address (la_mail a) = i) (backend_push L ev)"
  unfolding backend_push_def Let_def by (cases "ui_structure ev") (auto intro!: keeps_intros keeps_partA dest: push_inbox_address)

lemma keeps_on_lua: "keeps (\<lambda>a. mailbox_address (la_mail a) = i) m \<Longrightarrow> keeps (\<lambda>e. mailbox_address (la_mail (ew_lua e)) = i) (on_lua m)"
  unfolding keeps_def on_lua_def by (auto simp: Let_def split_beta)

lemma keeps_editor_start: "keeps (\<lambda>e. mailbox_address (la_mail (ew_lua e)) = i) (editor_start E)"
  unfolding editor_start_def run_script_def editor_alerted_def clear_selection_def
  by (intro keeps_intros keeps_on_lua keeps_push keeps_modA; simp)

lemma keeps_editor_quit: "keeps (\<lambda>e. mailbox_address (la_mail (ew_lua e)) = i) (editor_contact_quit E u)"
  unfolding editor_contact_quit_def by (intro keeps_intros keeps_on_lua keeps_push)

lemma ran_on_keeps: "ran_on m w = Ok w1 \<Longrightarrow> keeps I m \<Longrightarrow> I w \<Longrightarrow> I w1"
  unfolding ran_on_def keeps_def by (cases "m w") auto

lemma widget_quit_same:
  assumes "widget_quit C E i w = Ok w1"
  shows "widget_type w1 = widget_type w \<and> mailbox_address (widget_mail w1) = mailbox_address (widget_mail w)"
proof (cases w)
  case (Chat_Widget c)
  then show ?thesis using assms by (auto dest: ran_on_keeps [OF _ keeps_chat_quit])
next
  case (Editor_Widget e)
  then show ?thesis using assms by (auto dest: ran_on_keeps [OF _ keeps_editor_quit])
next
  case (Script_Widget a)
  have k: "keeps (\<lambda>a. mailbox_address (la_mail a) = j) (thenA (requireA (i \<noteq> [])) (backend_push (ee_cxx E) (Contact_Quit i)))" for j
    by (intro keeps_intros keeps_push)
  then show ?thesis using assms Script_Widget by (auto dest: ran_on_keeps [OF _ k])
qed

text \<open>An action that only reads, with what its result satisfies.\<close>

definition gives :: "('s, 'a) action \<Rightarrow> ('a \<Rightarrow> bool) \<Rightarrow> bool" where
  "gives m Q \<longleftrightarrow> (\<forall>s. snd (m s) = s \<and> (\<forall>a. fst (m s) = Ok a \<longrightarrow> Q a))"

lemma gives_lift: "(\<And>a. r = Ok a \<Longrightarrow> Q a) \<Longrightarrow> gives (liftA r) Q"
  by (simp add: gives_def liftA_def)

lemma gives_get: "(\<And>x. gives (f x) Q) \<Longrightarrow> gives (bindA (getA g) f) Q"
  by (simp add: gives_def)

lemma gives_require: "gives m Q \<Longrightarrow> gives (thenA (requireA b) m) Q"
  by (cases b) (simp_all add: gives_def thenA_def bindA_def requireA_def liftA_def)

lemma gives_bind: "gives m Q \<Longrightarrow> (\<And>a. Q a \<Longrightarrow> keeps I (f a)) \<Longrightarrow> keeps I (bindA m f)"
  unfolding keeps_def gives_def bindA_def by (auto split: prod.splits outcome.splits) (metis fst_conv snd_conv)+

definition fits_app :: "string \<Rightarrow> string \<Rightarrow> 's app_widget \<Rightarrow> bool" where
  "fits_app i t w \<longleftrightarrow> mailbox_address (widget_mail w) = i \<and> widget_type w = t"

lemma mailbox_new_address [simp]: "mailbox_address (mailbox_new i) = i"
  by (simp add: mailbox_new_def umailbox_new_def mailbox_address_def)

lemma started_app:
  "gives (start_chat R i) (fits_app i CHAT)" "gives (start_editor N R f i a) (fits_app i APP_EDITOR)" "gives (start_script N R f i a) (fits_app i SCRIPT_APP)"
proof -
  show "gives (start_chat R i) (fits_app i CHAT)" unfolding start_chat_def
    by (intro gives_get gives_lift) (auto simp: fits_app_def chat_new_def dest: ran_on_keeps [OF _ keeps_chat_start [of i]])
  have e: "mailbox_address (la_mail (ew_lua x)) = i" if "ran_on (editor_start E) (editor_new N E f i a sv) = Ok x" for E sv x
    by (rule ran_on_keeps [OF that keeps_editor_start]) (simp add: editor_new_def lua_api_new_def)
  show "gives (start_editor N R f i a) (fits_app i APP_EDITOR)" unfolding start_editor_def
    by (intro gives_get) (auto simp: fits_app_def e intro!: gives_lift split: prod.splits)
  have "mailbox_address (la_mail (snd (script_app_start N L (mailbox_new i) f c))) = i" for L c
    unfolding script_app_start_def by (rule keepsD [OF keeps_push]) (simp add: lua_api_new_def)
  then show "gives (start_script N R f i a) (fits_app i SCRIPT_APP)" unfolding start_script_def
    by (intro gives_require gives_lift) (auto simp: fits_app_def Let_def split_beta)
qed

section \<open>No message replaces an app\<close>

text \<open>While an app is being made its address is not in use; once its mailbox is posted it can be put in its place.\<close>

definition free_for :: "('k, 's) app_area \<Rightarrow> string \<Rightarrow> bool \<Rightarrow> ('k, 's) app_area \<Rightarrow> bool" where
  "free_for s0 i posted s \<longleftrightarrow> keeps_apps s0 s \<and> i \<noteq> [] \<and> map_of (aa_apps s) i = None \<and> (posted \<longrightarrow> (\<forall>ps. aa_post s = Some ps \<longrightarrow> i \<in> set ps))"

lemma free_keeps: "free_for s0 i b s \<Longrightarrow> keeps_apps s0 s"
  by (simp add: free_for_def)

lemma keeps_area_weaken: "keeps I m \<Longrightarrow> (\<And>s. J s \<Longrightarrow> I s) \<Longrightarrow> (\<And>s. J s \<Longrightarrow> K (snd (m s))) \<Longrightarrow> keeps (\<lambda>s. I s) m"
  by simp

lemma ends_free_service:
  assumes "free_for s0 i b s"
  shows "ends (free_for s0 i b) (in_service m) s"
proof -
  have k: "keeps_apps s0 (snd (in_service m s))" using keepsD [OF keeps_in_service free_keeps [OF assms]] .
  have "aa_apps (snd (in_service m s)) = aa_apps s" "aa_post (snd (in_service m s)) = aa_post s" by (simp_all add: in_service_def Let_def split_beta)
  then show ?thesis using k assms by (simp add: ends_def free_for_def)
qed

lemma ends_free_post:
  assumes "free_for s0 i b s"
  shows "ends (free_for s0 i True) (post_mailbox i) s"
proof -
  have "keeps_apps s0 (snd (post_mailbox i s))"
    using free_keeps [OF assms] by (rule keeps_apps_mod) (auto simp: post_mailbox_def)
  then show ?thesis using assms by (auto simp: ends_def free_for_def post_mailbox_def)
qed

lemma ends_gives: "gives m Q \<Longrightarrow> (\<And>a. Q a \<Longrightarrow> ends I (f a) s) \<Longrightarrow> I s \<Longrightarrow> ends I (bindA m f) s"
  unfolding gives_def ends_def bindA_def by (cases "m s", cases "fst (m s)") (auto dest!: spec [of _ s])

text \<open>The conversation is told first, then the app is in its place.\<close>

lemma add_app_free:
  assumes f: "free_for s0 i b s" and a: "add_app (app_metadatum.make t aid i) (aa_conv s) = Ok v"
  shows "free_for s0 i b (s\<lparr>aa_conv := v\<rparr>)" "map_of (cv_apps v) i = Some (app_metadatum.make t aid i)"
proof -
  have om: "omap_ok (cv_apps (aa_conv s))" using f by (simp add: free_for_def keeps_apps_def area_ok_def)
  have v: "v = (aa_conv s)\<lparr>cv_apps := omap_put i (app_metadatum.make t aid i) (cv_apps (aa_conv s))\<rparr>"
    using a by (auto simp: add_app_def contract_Ok_iff app_metadatum.defs)
  show "map_of (cv_apps v) i = Some (app_metadatum.make t aid i)" using om by (simp add: v)
  have "entry_ok v a p" if "map_of (aa_apps s) a = Some p" for a p
  proof -
    have "entry_ok (aa_conv s) a p" "a \<noteq> i" using f that by (auto simp: free_for_def keeps_apps_def area_ok_def)
    then show ?thesis using om by (simp add: entry_ok_def v)
  qed
  then show "free_for s0 i b (s\<lparr>aa_conv := v\<rparr>)" using f om by (auto simp: free_for_def keeps_apps_def area_ok_def v)
qed

lemma put_app_free:
  assumes f: "free_for s0 i True s" and e: "entry_ok (aa_conv s) i p"
  shows "keeps_apps s0 (snd (put_app i p s))"
proof -
  have "map_of (aa_apps s0) i = None" using f unfolding free_for_def keeps_apps_def by (metis not_None_eq)
  then show ?thesis using f e by (auto simp: put_app_def free_for_def keeps_apps_def area_ok_def)
qed

lemma finish_new:
  assumes f: "free_for s0 i True s" and w: "fits_app i t w" and q: "t = SCRIPT_APP \<Longrightarrow> ao \<noteq> None"
  shows "ends (keeps_apps s0) (thenA (in_conv (\<lambda>v. bindO (add_app (app_metadatum.make t aid i) v) (\<lambda>v1. Ok ((), v1)))) (thenA (put_app i \<lparr>pr_app = ao, pr_widget = w\<rparr>) (retA True))) s"
proof (cases "add_app (app_metadatum.make t aid i) (aa_conv s)")
  case (Ok v)
  note a = add_app_free [OF f Ok]
  have "entry_ok v i \<lparr>pr_app = ao, pr_widget = w\<rparr>"
    using a(2) w q f by (auto simp: entry_ok_def fits_app_def free_for_def app_metadatum.defs)
  then have "keeps_apps s0 (snd (put_app i \<lparr>pr_app = ao, pr_widget = w\<rparr> (s\<lparr>aa_conv := v\<rparr>)))" using put_app_free [OF a(1)] by simp
  then show ?thesis using Ok by (simp add: ends_def in_conv_def partA_def thenA_def bindA_def retA_def put_app_def modA_def)
qed (use free_keeps [OF f] in \<open>simp_all add: ends_def in_conv_def partA_def thenA_def bindA_def\<close>)

lemma ends_mono: "ends J m s \<Longrightarrow> (\<And>s1. J s1 \<Longrightarrow> I s1) \<Longrightarrow> ends I m s"
  by (simp add: ends_def)

lemma post_and_finish:
  assumes f: "free_for s0 i False s" and st: "gives start (fits_app i t)" and q: "t = SCRIPT_APP \<Longrightarrow> ao \<noteq> None"
  shows "ends (keeps_apps s0) (thenA (post_mailbox i) (bindA start (\<lambda>w. thenA (in_conv (\<lambda>v. bindO (add_app (app_metadatum.make t aid i) v) (\<lambda>v1. Ok ((), v1))))
    (thenA (put_app i \<lparr>pr_app = ao, pr_widget = w\<rparr>) (retA True))))) s"
proof (rule ends_then [OF ends_free_post [OF f] free_keeps])
  fix s1 :: "('a, 'b) app_area"
  assume s1: "free_for s0 i True s1"
  show "ends (keeps_apps s0) (bindA start (\<lambda>w. thenA (in_conv (\<lambda>v. bindO (add_app (app_metadatum.make t aid i) v) (\<lambda>v1. Ok ((), v1))))
    (thenA (put_app i \<lparr>pr_app = ao, pr_widget = w\<rparr>) (retA True)))) s1"
    by (rule ends_gives [OF st finish_new [OF s1 _ q] free_keeps [OF s1]])
qed

lemma app_types: "CHAT \<noteq> SCRIPT_APP" "APP_EDITOR \<noteq> SCRIPT_APP" "APP_EDITOR \<noteq> CHAT"
  by (simp_all add: CHAT_def SCRIPT_APP_def APP_EDITOR_def)

lemma keeps_add_new_app: "keeps (keeps_apps s0) (add_new_app N R uuid n)"
proof (rule keeps_ends)
  fix s :: "('a, 'b) app_area"
  assume k: "keeps_apps s0 s"
  show "ends (keeps_apps s0) (add_new_app N R uuid n) s"
  proof (cases "has_app (na_id n) (aa_conv s) \<or> na_type n = [] \<or> na_id n = []")
    case True
    then show ?thesis using k by (simp add: add_new_app_def ends_def retA_def)
  next
    case False
    have "map_of (aa_apps s) (na_id n) = None"
    proof (rule ccontr)
      assume "map_of (aa_apps s) (na_id n) \<noteq> None"
      then obtain p where "map_of (aa_apps s) (na_id n) = Some p" by blast
      then have "entry_ok (aa_conv s) (na_id n) p" using k by (simp add: keeps_apps_def area_ok_def)
      then show False using False by (auto simp: entry_ok_def has_app_def alist_has_def simp del: alist_has_iff)
    qed
    then have f: "free_for s0 (na_id n) False s" using k False by (simp add: free_for_def)
    show ?thesis
    proof (unfold add_new_app_def Let_def, intro ends_get, simp only: False if_False, intro ends_get ends_if ends_require)
      assume c: "na_type n = CHAT"
      show "ends (keeps_apps s0) (thenA (post_mailbox (na_id n)) (bindA (start_chat R (na_id n)) (\<lambda>w. thenA (in_conv (\<lambda>v. bindO (add_app (app_metadatum.make (na_type n) [] (na_id n)) v) (\<lambda>v1. Ok ((), v1))))
        (thenA (put_app (na_id n) \<lparr>pr_app = None, pr_widget = w\<rparr>) (retA True))))) s"
        unfolding c by (rule post_and_finish [OF f started_app(1)]) (simp add: app_types)
    next
      assume c: "na_type n = APP_EDITOR"
      show "ends (keeps_apps s0) (bindA (in_service (create_new_app (re_cxx R) (re_dirs R) uuid)) (\<lambda>a. thenA (post_mailbox (na_id n))
          (bindA (start_editor N R (na_from_id n) (na_id n) (app_set_launched_local False a)) (\<lambda>w. thenA (in_conv (\<lambda>v. bindO (add_app (app_metadatum.make (na_type n) [] (na_id n)) v) (\<lambda>v1. Ok ((), v1))))
        (thenA (put_app (na_id n) \<lparr>pr_app = Some (app_set_launched_local False a), pr_widget = w\<rparr>) (retA True)))))) s"
        unfolding c by (rule ends_bind [OF ends_free_service [OF f] free_keeps post_and_finish [OF _ started_app(2)]]) (simp_all add: app_types)
    next
      assume c: "na_type n = SCRIPT_APP"
      have put: "ends (keeps_apps s0) (bindA (liftA (app_id a)) (\<lambda>i. if i = [] then retA False else thenA (post_mailbox (na_id n))
          (bindA (start_script N R (na_from_id n) (na_id n) a) (\<lambda>w. thenA (in_conv (\<lambda>v. bindO (add_app (app_metadatum.make SCRIPT_APP i (na_id n)) v) (\<lambda>v1. Ok ((), v1))))
        (thenA (put_app (na_id n) \<lparr>pr_app = Some a, pr_widget = w\<rparr>) (retA True)))))) s1"
        if s1: "free_for s0 (na_id n) False s1" for a s1
        by (intro ends_lift ends_if ends_quiet free_keeps [OF s1], rule post_and_finish [OF s1 started_app(3)]) (auto simp: app_id_def contract_Ok_iff)
      show "ends (keeps_apps s0) (bindA (liftA (decode_message (re_cxx R) (na_data n))) (\<lambda>m. bindA (in_service (create_app (re_cxx R) (re_dirs R) (ee_names (re_editor R)) m)) (\<lambda>a.
          bindA (liftA (app_id a)) (\<lambda>i. if i = [] then retA False else thenA (post_mailbox (na_id n))
          (bindA (start_script N R (na_from_id n) (na_id n) a) (\<lambda>w. thenA (in_conv (\<lambda>v. bindO (add_app (app_metadatum.make (na_type n) i (na_id n)) v) (\<lambda>v1. Ok ((), v1))))
        (thenA (put_app (na_id n) \<lparr>pr_app = Some a, pr_widget = w\<rparr>) (retA True)))))))) s"
        unfolding c by (intro ends_lift k, rule ends_bind [OF ends_free_service [OF f] free_keeps put])
    qed (use k in \<open>simp_all add: ends_def retA_def\<close>)
  qed
qed

section \<open>Apps of the user and the other messages\<close>

lemma ends_own:
  assumes k: "keeps_apps s0 s" and i: "map_of (aa_apps s) i = None" and st: "gives start (fits_app i t)" and q: "t = SCRIPT_APP \<Longrightarrow> ao \<noteq> None"
  shows "ends (keeps_apps s0) (add_own_app R t i aid ao start) s"
proof -
  define d where "d = app_metadatum.make t aid i"
  let ?P = "\<lambda>b s. free_for s0 i b s \<and> map_of (cv_apps (aa_conv s)) i = Some d"
  have post: "ends (?P True) (post_mailbox i) s1" if "?P False s1" for s1
    using ends_free_post [of s0 i False s1] that by (auto simp: ends_def post_mailbox_def)
  have serv: "ends (?P True) (in_service m) s1" if "?P True s1" for m s1
    using ends_free_service [of s0 i True s1] that by (auto simp: ends_def in_service_def Let_def split_beta)
  have put: "keeps_apps s0 (snd (put_app i \<lparr>pr_app = ao, pr_widget = w\<rparr> s1))" if p: "?P True s1" and w: "fits_app i t w" for s1 w
  proof -
    have "entry_ok (aa_conv s1) i \<lparr>pr_app = ao, pr_widget = w\<rparr>" using p w q by (auto simp: entry_ok_def fits_app_def free_for_def d_def app_metadatum.defs)
    then show ?thesis using put_app_free p by blast
  qed
  have send: "ends (keeps_apps s0) (thenA (put_app i \<lparr>pr_app = ao, pr_widget = w\<rparr>) (bindA (in_conv (conv_send lu m)) (\<lambda>_. retA ()))) s1"
    if p: "?P True s1" and w: "fits_app i t w" for s1 w lu m
  proof -
    have ks: "keeps (keeps_apps s0) (bindA (in_conv (conv_send lu m)) (\<lambda>_. retA ()))" by (intro keeps_intros keeps_conv_ops)
    show ?thesis by (rule ends_then [where J = "keeps_apps s0"]) (use put [OF p w] ends_keeps [OF ks] in \<open>simp_all add: ends_def\<close>)
  qed
  have rest: "ends (keeps_apps s0) (thenA (post_mailbox i) (bindA (case ao of None \<Rightarrow> retA [] | Some a \<Rightarrow> bindA (in_service (onDisk (message_of_app (re_cxx R) (re_dirs R) a))) (\<lambda>m. retA (encode_message (re_cxx R) m))) (\<lambda>b.
      thenA (put_app i \<lparr>pr_app = ao, pr_widget = w\<rparr>) (bindA (in_conv (conv_send (re_user R) (new_app_message \<lparr>na_id = i, na_type = t, na_from_id = [], na_data = b\<rparr>))) (\<lambda>_. retA ()))))) s1"
    if p: "?P False s1" and w: "fits_app i t w" for s1 w
  proof (rule ends_then [OF post [OF p]])
    fix s2 assume s2: "?P True s2"
    have enc: "ends (?P True) (case ao of None \<Rightarrow> retA [] | Some a \<Rightarrow> bindA (in_service (onDisk (message_of_app (re_cxx R) (re_dirs R) a))) (\<lambda>m. retA (encode_message (re_cxx R) m))) s2"
      by (intro ends_option ends_quiet s2) (rule ends_bind [OF serv [OF s2]], assumption, erule ends_quiet)
    show "ends (keeps_apps s0) (bindA (case ao of None \<Rightarrow> retA [] | Some a \<Rightarrow> bindA (in_service (onDisk (message_of_app (re_cxx R) (re_dirs R) a))) (\<lambda>m. retA (encode_message (re_cxx R) m))) (\<lambda>b.
      thenA (put_app i \<lparr>pr_app = ao, pr_widget = w\<rparr>) (bindA (in_conv (conv_send (re_user R) (new_app_message \<lparr>na_id = i, na_type = t, na_from_id = [], na_data = b\<rparr>))) (\<lambda>_. retA ())))) s2"
      by (rule ends_bind [OF enc]) (auto intro: free_keeps send [OF _ w])
  qed (auto intro: free_keeps)
  have told: "ends (keeps_apps s0) (thenA (in_conv (\<lambda>v. bindO (add_app (app_metadatum.make t aid i) v) (\<lambda>v1. Ok ((), v1)))) r) s"
    if i0: "i \<noteq> []" and r: "\<And>s1. ?P False s1 \<Longrightarrow> ends (keeps_apps s0) r s1" for r :: "('a, 'b, unit) aa_action"
  proof (cases "add_app (app_metadatum.make t aid i) (aa_conv s)")
    case (Ok v)
    have f: "free_for s0 i False s" using k i i0 by (simp add: free_for_def)
    have "?P False (s\<lparr>aa_conv := v\<rparr>)" using add_app_free [OF f Ok] by (simp add: d_def)
    then have "ends (keeps_apps s0) r (s\<lparr>aa_conv := v\<rparr>)" by (rule r)
    then show ?thesis using Ok by (simp add: ends_def in_conv_def partA_def thenA_def bindA_def)
  qed (use k in \<open>simp_all add: ends_def in_conv_def partA_def thenA_def bindA_def\<close>)
  show ?thesis
    unfolding add_own_app_def
    by (intro ends_require ends_get ends_if ends_quiet k, rule ends_gives [OF st told k]) (use rest in simp_all)
qed

lemma keeps_app_contact_quit: "keeps (keeps_apps s0) (app_contact_quit R u a)"
proof (rule keeps_ends)
  fix s :: "('a, 'b) app_area"
  assume k: "keeps_apps s0 s"
  have "keeps_apps s0 (snd (put_app a (p\<lparr>pr_widget := w\<rparr>) s))" if p: "map_of (aa_apps s) a = Some p" and w: "widget_quit C E u (pr_widget p) = Ok w" for p w C E
  proof -
    have same: "same_app p (p\<lparr>pr_widget := w\<rparr>)" "entry_ok v b (p\<lparr>pr_widget := w\<rparr>) = entry_ok v b p" for v b
      using widget_quit_same [OF w] by (simp_all add: same_app_def entry_ok_def)
    have "same_app q (p\<lparr>pr_widget := w\<rparr>)" if "same_app q p" for q using that same(1) by (simp add: same_app_def)
    then show ?thesis using k p same(2) by (fastforce simp: keeps_apps_def area_ok_def put_app_def)
  qed
  then show "ends (keeps_apps s0) (app_contact_quit R u a) s"
    unfolding app_contact_quit_def using k
    by (auto simp: ends_def liftA_def bindA_def getA_def retA_def split: option.splits outcome.splits)
qed

lemma keeps_notify: "keeps (keeps_apps s0) (notify_apps_contact_quit R u)"
  unfolding notify_apps_contact_quit_def by (intro keeps_intros keeps_app_contact_quit)

lemma keeps_req: "keeps (keeps_apps s0) (got_req_app_message R q)"
  unfolding got_req_app_message_def Let_def by (intro keeps_intros keeps_in_service keeps_conv_ops)

lemma keeps_area_handlers: "(t, h) \<in> set (area_handlers N R uuid) \<Longrightarrow> keeps (keeps_apps s0) (h m)"
  by (auto simp: area_handlers_def received_new_app_def received_req_app_def received_conversation_synced_def received_contact_removed_def
      received_contact_added_def received_contact_connected_def received_contact_disconnected_def received_contact_activity_changed_def on_member_event_def Let_def
      intro!: keeps_intros keeps_req keeps_add_new_app keeps_area_alert keeps_conv_ops keeps_in_service keeps_notify)

lemma keeps_conversation_mail: "keeps (keeps_apps s0) (conversation_check_mail N R uuid m)"
  unfolding conversation_check_mail_def by (rule keeps_service_turn) (rule keeps_area_handlers)

section \<open>Runs of the area\<close>

text \<open>
  A message comes, the user adds an app under a new id, an app does something, the conversation service changes the conversation, or the service of apps changes.
\<close>

inductive area_step :: "('k, 's) script_engine \<Rightarrow> ('k, 's) app_area \<Rightarrow> ('k, 's) app_area \<Rightarrow> bool" for N where
  Mail: "survives (conversation_check_mail N R uuid m) s s1 \<Longrightarrow> area_step N s s1"
| Chat: "map_of (aa_apps s) i = None \<Longrightarrow> survives (add_chat_app R i) s s1 \<Longrightarrow> area_step N s s1"
| Editor: "map_of (aa_apps s) i = None \<Longrightarrow> survives (add_app_editor N R example uuid i aid) s s1 \<Longrightarrow> area_step N s s1"
| Script: "map_of (aa_apps s) i = None \<Longrightarrow> survives (add_script_app N R i aid) s s1 \<Longrightarrow> area_step N s s1"
| Run: "map_of (aa_apps s) a = Some p \<Longrightarrow> widget_type w = widget_type (pr_widget p) \<Longrightarrow> mailbox_address (widget_mail w) = mailbox_address (widget_mail (pr_widget p)) \<Longrightarrow>
     (ao = None \<longleftrightarrow> pr_app p = None) \<Longrightarrow> area_step N s (s\<lparr>aa_apps := alist_put a \<lparr>pr_app = ao, pr_widget = w\<rparr> (aa_apps s)\<rparr>)"
| Conversation: "cv_apps v = cv_apps (aa_conv s) \<Longrightarrow> area_step N s (s\<lparr>aa_conv := v\<rparr>)"
| Service: "area_step N s (s\<lparr>aa_service := x\<rparr>)"

inductive area_reach :: "('k, 's) script_engine \<Rightarrow> ('k, 's) app_area \<Rightarrow> ('k, 's) app_area \<Rightarrow> bool" for N s0 where
  Start: "aa_apps s0 = [] \<Longrightarrow> cv_apps (aa_conv s0) = [] \<Longrightarrow> area_reach N s0 s0"
| Next: "area_reach N s0 s \<Longrightarrow> area_step N s s1 \<Longrightarrow> area_reach N s0 s1"

lemma survives_ends: "survives m s s1 \<Longrightarrow> ends I m s \<Longrightarrow> I s1"
  by (auto simp: survives_def ends_def split: prod.splits outcome.splits)

lemma ends_service_pick:
  assumes k: "keeps_apps s0 s" and i: "map_of (aa_apps s) i = None" and f: "\<And>a s1. keeps_apps s0 s1 \<Longrightarrow> map_of (aa_apps s1) i = None \<Longrightarrow> ends (keeps_apps s0) (f a) s1"
  shows "ends (keeps_apps s0) (bindA (in_service m) f) s"
proof (rule ends_bind [where J = "\<lambda>s. keeps_apps s0 s \<and> map_of (aa_apps s) i = None"])
  show "ends (\<lambda>s. keeps_apps s0 s \<and> map_of (aa_apps s) i = None) (in_service m) s"
    using keepsD [OF keeps_in_service k] i by (simp add: ends_def in_service_def Let_def split_beta)
qed (auto intro: f)

lemma ret_bind [simp]: "bindA (retA a) f = f a"
  by (rule ext) (simp add: bindA_def retA_def)

lemma area_step_ok:
  assumes "area_step N s s1" "area_ok s"
  shows "area_ok s1"
  using assms(1)
proof cases
  case (Mail R uuid m)
  then show ?thesis using survives_keeps [OF Mail keeps_apps_refl [OF assms(2)] keeps_conversation_mail] by (simp add: keeps_apps_def)
next
  case (Chat i R)
  have "ends (keeps_apps s) (add_chat_app R i) s" unfolding add_chat_app_def
    by (rule ends_own [OF keeps_apps_refl [OF assms(2)] Chat(1) started_app(1)]) (simp add: app_types)
  then have "keeps_apps s s1" by (rule survives_ends [OF Chat(2)])
  then show ?thesis by (simp add: keeps_apps_def)
next
  case (Editor i R example uuid aid)
  note k = keeps_apps_refl [OF assms(2)]
  have own: "ends (keeps_apps s) (case ao of None \<Rightarrow> liftA Exit | Some a \<Rightarrow> add_own_app R APP_EDITOR i [] None (start_editor N R (ui_id (lu_info (re_user R))) i a)) s2"
    if "keeps_apps s s2" "map_of (aa_apps s2) i = None" for ao s2
    by (intro ends_option ends_quiet that(1)) (rule ends_own [OF that started_app(2)], simp add: app_types)
  have "ends (keeps_apps s) (add_app_editor N R example uuid i aid) s"
  proof (cases "aid = []")
    case True
    have e: "add_app_editor N R example uuid i aid = bindA (in_service (create_new_app (re_cxx R) (re_dirs R) uuid)) (\<lambda>a. case Some (app_set_code example a) of None \<Rightarrow> liftA Exit
        | Some a \<Rightarrow> add_own_app R APP_EDITOR i [] None (start_editor N R (ui_id (lu_info (re_user R))) i a))"
      using True by (simp add: add_app_editor_def area_create_new_app_def)
    show ?thesis unfolding e by (rule ends_service_pick [OF k Editor(1) own])
  next
    case False
    then show ?thesis unfolding add_app_editor_def by (simp only: if_False) (rule ends_service_pick [OF k Editor(1) own])
  qed
  then have "keeps_apps s s1" by (rule survives_ends [OF Editor(2)])
  then show ?thesis by (simp add: keeps_apps_def)
next
  case (Script i R aid)
  note k = keeps_apps_refl [OF assms(2)]
  have "ends (keeps_apps s) (case ao of None \<Rightarrow> retA () | Some a \<Rightarrow> add_own_app R SCRIPT_APP i aid (Some a) (start_script N R (ui_id (lu_info (re_user R))) i a)) s2"
    if "keeps_apps s s2" "map_of (aa_apps s2) i = None" for ao s2
    by (intro ends_option ends_quiet that(1)) (rule ends_own [OF that started_app(3)], simp)
  then have "ends (keeps_apps s) (add_script_app N R i aid) s" unfolding add_script_app_def by (intro ends_service_pick [OF k Script(1)])
  then have "keeps_apps s s1" by (rule survives_ends [OF Script(2)])
  then show ?thesis by (simp add: keeps_apps_def)
next
  case (Run a p w ao)
  have "entry_ok (aa_conv s) a p" using assms(2) Run(2) by (simp add: area_ok_def)
  then have "entry_ok (aa_conv s) a \<lparr>pr_app = ao, pr_widget = w\<rparr>" using Run(3-5) by (auto simp: entry_ok_def)
  then show ?thesis using assms(2) Run(1,2) by (auto simp: area_ok_def)
next
  case (Conversation v)
  then show ?thesis using assms(2) by (auto simp: area_ok_def entry_ok_def)
next
  case (Service x)
  then show ?thesis using assms(2) by (simp add: area_ok_def)
qed

lemma area_reach_ok: "area_reach N s0 s \<Longrightarrow> area_ok s"
  by (induction rule: area_reach.induct) (simp add: area_ok_def, rule area_step_ok)

text \<open>
  The apps of a conversation stay in order and nobody replaces them: in every reachable state each app is kept under the address of its mailbox, which the post office
  has, the conversation lists it with its type, and an app with code is there to be sent on; and whatever message comes, the apps that are there stay, each with its app,
  its type and its mailbox.
\<close>

theorem apps_in_order:
  assumes "area_reach N s0 s"
  shows "area_ok s \<and> (survives (conversation_check_mail N R uuid m) s s1 \<longrightarrow> (\<forall>a p. map_of (aa_apps s) a = Some p \<longrightarrow> (\<exists>q. map_of (aa_apps s1) a = Some q \<and> same_app p q)))"
proof (intro conjI impI)
  show ok: "area_ok s" using area_reach_ok [OF assms] .
  assume "survives (conversation_check_mail N R uuid m) s s1"
  then have "keeps_apps s s1" by (rule survives_keeps [OF _ keeps_apps_refl [OF ok] keeps_conversation_mail])
  then show "\<forall>a p. map_of (aa_apps s) a = Some p \<longrightarrow> (\<exists>q. map_of (aa_apps s1) a = Some q \<and> same_app p q)" by (simp add: keeps_apps_def)
qed

section \<open>An app reaches the others\<close>

lemma send_one:
  assumes "cl_ok (lu_contacts lu)"
  shows "\<exists>b v1. conv_send_to lu u m v = Ok (b, v1) \<and> cv_apps v1 = cv_apps v \<and> set (outbox (cv_mail v)) \<subseteq> set (outbox (cv_mail v1)) \<and> mailbox_address (cv_mail v1) = mailbox_address (cv_mail v) \<and>
    (\<forall>c. cl_by_id u (lu_contacts lu) = Ok (Some c) \<longrightarrow> letter_to lu (mailbox_address (cv_mail v)) m c \<in> set (outbox (cv_mail v1)))"
proof -
  obtain co where co: "cl_by_id u (lu_contacts lu) = Ok co" using cl_by_id_total [OF assms] by blast
  show ?thesis
  proof (cases co)
    case None
    then show ?thesis using co by (intro exI [of _ False] exI [of _ v]) (simp add: conv_send_to_def sender_send_def)
  next
    case (Some c)
    obtain b where "push_outbox (letter_to lu (mailbox_address (cv_mail v)) m c) (cv_mail v) = Ok b" "outbox b = outbox (cv_mail v) @ [letter_to lu (mailbox_address (cv_mail v)) m c]"
      "mailbox_address b = mailbox_address (cv_mail v)" using push_outbox_Ok by blast
    then show ?thesis using co Some by (auto simp: conv_send_to_def sender_send_def letter_to_def)
  qed
qed

lemma send_every:
  assumes "cl_ok (lu_contacts lu)"
  shows "\<exists>b1 v1. send_all lu cs m b v = Ok (b1, v1) \<and> cv_apps v1 = cv_apps v \<and> set (outbox (cv_mail v)) \<subseteq> set (outbox (cv_mail v1)) \<and>
    (\<forall>c\<in>set cs. \<forall>d. cl_by_id (ui_id c) (lu_contacts lu) = Ok (Some d) \<longrightarrow> letter_to lu (mailbox_address (cv_mail v)) m d \<in> set (outbox (cv_mail v1)))"
proof (induction cs arbitrary: v b)
  case Nil
  then show ?case by simp
next
  case (Cons c cs)
  obtain b2 v2 where v2: "conv_send_to lu (ui_id c) m v = Ok (b2, v2)" "cv_apps v2 = cv_apps v" "set (outbox (cv_mail v)) \<subseteq> set (outbox (cv_mail v2))"
    "mailbox_address (cv_mail v2) = mailbox_address (cv_mail v)" "\<And>d. cl_by_id (ui_id c) (lu_contacts lu) = Ok (Some d) \<Longrightarrow> letter_to lu (mailbox_address (cv_mail v)) m d \<in> set (outbox (cv_mail v2))"
    using send_one [OF assms] by meson
  obtain b3 v3 where v3: "send_all lu cs m (b \<or> b2) v2 = Ok (b3, v3)" "cv_apps v3 = cv_apps v2" "set (outbox (cv_mail v2)) \<subseteq> set (outbox (cv_mail v3))"
    "\<And>c d. c \<in> set cs \<Longrightarrow> cl_by_id (ui_id c) (lu_contacts lu) = Ok (Some d) \<Longrightarrow> letter_to lu (mailbox_address (cv_mail v2)) m d \<in> set (outbox (cv_mail v3))"
    using Cons.IH [of "b \<or> b2" v2] by meson
  show ?case using v2(1-3) v3(1-3) v2(4,5) v3(4) by (intro exI [of _ b3] exI [of _ v3]) auto
qed

text \<open>The letter with an app, as its receiver reads it.\<close>

definition app_news :: "string \<Rightarrow> string \<Rightarrow> bytes \<Rightarrow> message" where
  "app_news i t b = new_app_message \<lparr>na_id = i, na_type = t, na_from_id = [], na_data = b\<rparr>"

lemma app_news_read:
  "new_app_of (arrived (letter_to lu a (app_news i t b) c)) = Ok \<lparr>na_id = i, na_type = t, na_from_id = ui_id (lu_info lu), na_data = b\<rparr>"
  "mt_type (m_meta (arrived (letter_to lu a (app_news i t b) c))) = NEW_APP" "is_remote (arrived x)" "is_symmetric (arrived x)"
  by (simp_all add: app_news_def new_app_message_def letter_to_def arrived_def new_app_of_def extra_message_def Messages.extra_string_def dict_put_def dict_get_def value_of_string_def to_bytes_def
      to_str_def message_default_def metadata_default_def is_remote_def is_symmetric_def)

lemma start_script_Ok: "i \<noteq> [] \<Longrightarrow> \<exists>l. start_script N R f i a s = (Ok (Script_Widget l), s)"
proof -
  assume i: "i \<noteq> []"
  obtain m where m: "to_message (re_cxx R) (fst (ui_structure (Run_Code (ap_code a)))) as_message_default (snd (ui_structure (Run_Code (ap_code a)))) = Ok m"
    by (simp add: to_message_def Let_def as_message_default_def)
  obtain b where "push_inbox m (la_mail (lua_api_new N (mailbox_new i) f)) = Ok b" using push_inbox_Ok by blast
  then show ?thesis using i m by (auto simp: start_script_def script_app_start_def backend_push_def partA_def liftA_def)
qed

text \<open>Who receives the letter has the app: with the same id, name, code and data, under the same address.\<close>

lemma app_received:
  fixes N :: "('k, 's) script_engine"
  assumes D: "dir_env (re_cxx R) (re_dirs R)" and m: "new_app_of m = Ok \<lparr>na_id = i, na_type = SCRIPT_APP, na_from_id = f, na_data = encode_message (re_cxx R) (app_letter a (encode_dict (re_cxx R) d))\<rparr>"
    "mt_type (m_meta m) = NEW_APP" "is_remote m" "is_symmetric m"
    and wf: "wf_message (re_cxx R) (app_letter a (encode_dict (re_cxx R) d))" "wf_value (re_cxx R) (VDict d)"
    and us: "length (ee_names (re_editor R)) = length d" "distinct (ee_names (re_editor R))" "list_all (good_name (re_cxx R)) (ee_names (re_editor R))"
    and a: "ap_id a \<noteq> []" "i \<noteq> []" and s: "\<not> has_app i (aa_conv s)" "aa_post s \<noteq> None" "as_tmp_home (aa_service s) \<noteq> []"
    "dk_files (as_disk (aa_service s)) (get_index_file (dl_fs (re_dirs R)) (get_data_path (re_dirs R) (get_app_dir (re_dirs R) (as_tmp_home (aa_service s)) (ap_id a)))) = None"
  shows "\<exists>s1 l b. conversation_check_mail N R uuid m s = (Ok (), s1) \<and> map_of (aa_apps s1) i = Some \<lparr>pr_app = Some b, pr_widget = Script_Widget l\<rparr> \<and>
    ap_id b = ap_id a \<and> ap_name b = ap_name a \<and> ap_code b = ap_code a \<and> app_view (re_cxx R) (re_dirs R) (as_disk (aa_service s1)) b = map_of d \<and>
    map_of (cv_apps (aa_conv s1)) i = map_of (omap_put i (app_metadatum.make SCRIPT_APP (ap_id a) i) (cv_apps (aa_conv s))) i \<and> aa_alerts s1 = aa_alerts s @ [(cv_id (aa_conv s), False)]"
proof -
  let ?L = "re_cxx R" and ?D = "re_dirs R" and ?m = "app_letter a (encode_dict (re_cxx R) d)" and ?us = "ee_names (re_editor R)"
  have L: "lexical_cast ?L" using disk_env.axioms(1) [OF dir_env.axioms(1) [OF D]] .
  have dec: "decode_message ?L (encode_message ?L ?m) = Ok ?m" using lexical_cast.message_roundtrip [OF L wf(1)] by (simp add: letter_received)
  obtain b x where b: "create_app ?L ?D ?us ?m (aa_service s) = (Ok b, x)" "app_view ?L ?D (as_disk x) b = map_of d" "ap_id b = ap_id a" "ap_name b = ap_name a" "ap_code b = ap_code a"
    using dir_env.create_app_ok [OF D wf(2) us a(1) s(3,4)] by blast
  let ?s1 = "s\<lparr>aa_service := x\<rparr>"
  have c: "in_service (create_app ?L ?D ?us ?m) s = (Ok b, ?s1)" using b(1) by (simp add: in_service_def)
  obtain ps where ps: "aa_post s = Some ps" using s(2) by blast
  let ?s2 = "?s1\<lparr>aa_post := Some (List.insert i ps)\<rparr>"
  obtain l where l: "start_script N R f i b ?s2 = (Ok (Script_Widget l), ?s2)" using start_script_Ok [OF a(2)] by blast
  let ?d = "app_metadatum.make SCRIPT_APP (ap_id a) i"
  have add: "add_app ?d (aa_conv s) = Ok ((aa_conv s)\<lparr>cv_apps := omap_put i ?d (cv_apps (aa_conv s))\<rparr>)"
    using a by (simp add: add_app_def app_metadatum.defs SCRIPT_APP_def)
  let ?s3 = "?s2\<lparr>aa_conv := (aa_conv s)\<lparr>cv_apps := omap_put i ?d (cv_apps (aa_conv s))\<rparr>, aa_apps := alist_put i \<lparr>pr_app = Some b, pr_widget = Script_Widget l\<rparr> (aa_apps s)\<rparr>"
  have new: "add_new_app N R uuid \<lparr>na_id = i, na_type = SCRIPT_APP, na_from_id = f, na_data = encode_message ?L ?m\<rparr> s = (Ok True, ?s3)"
    using s(1) a dec c l add b(3) ps
    by (simp add: add_new_app_def app_types app_types(1) [symmetric] app_types(2) [symmetric] bindA_Ok [of "in_service (create_app ?L ?D ?us ?m)"] bindA_Ok [of "start_script N R f i b"] app_id_def post_mailbox_def in_conv_def put_app_def partA_def SCRIPT_APP_def CHAT_def APP_EDITOR_def
        thenA_def bindA_def getA_def liftA_def modA_def retA_def requireA_def)
  have h: "map_of (area_handlers N R uuid) (mt_type (m_meta m)) = Some (received_new_app N R uuid)" using m(2) by (simp add: area_handlers_def)
  have run: "conversation_check_mail N R uuid m s = (Ok (), ?s3\<lparr>aa_alerts := aa_alerts s @ [(cv_id (aa_conv s), False)]\<rparr>)"
    unfolding conversation_check_mail_def service_turn_handler [OF h]
    using new m by (simp add: received_new_app_def catchA_def expect_remote_def expect_symmetric_def bindA_Ok [of "add_new_app N R uuid \<lparr>na_id = i, na_type = SCRIPT_APP, na_from_id = f, na_data = encode_message ?L ?m\<rparr>"] area_alert_def modA_def)
  show ?thesis
    by (rule exI [of _ "?s3\<lparr>aa_alerts := aa_alerts s @ [(cv_id (aa_conv s), False)]\<rparr>"], rule exI [of _ l], rule exI [of _ b]) (simp add: run b)
qed

lemma add_script_sends:
  fixes N :: "('k, 's) script_engine"
  assumes D: "dir_env (re_cxx R) (re_dirs R)" and load: "as_load_app (re_cxx R) (re_dirs R) aid (aa_service s) = (Ok (Some a), sv)"
    and a: "app_ok (re_cxx R) (re_dirs R) (as_disk sv) a" and cs: "cl_ok (lu_contacts (re_user R))" and i: "i \<noteq> []" "aid \<noteq> []" and post: "aa_post s \<noteq> None"
  shows "\<exists>s1 d. add_script_app N R i aid s = (Ok (), s1) \<and> message_of_app (re_cxx R) (re_dirs R) a (as_disk sv) = (Ok (app_letter a (encode_dict (re_cxx R) d)), as_disk sv) \<and>
    map_of d = app_view (re_cxx R) (re_dirs R) (as_disk sv) a \<and> wf_value (re_cxx R) (VDict d) \<and> length d = length (st_index (ap_data a)) \<and>
    (\<forall>c\<in>set (cl_list (cv_contacts (aa_conv s))). \<forall>k. cl_by_id (ui_id c) (lu_contacts (re_user R)) = Ok (Some k) \<longrightarrow>
      letter_to (re_user R) (mailbox_address (cv_mail (aa_conv s))) (app_news i SCRIPT_APP (encode_message (re_cxx R) (app_letter a (encode_dict (re_cxx R) d)))) k \<in> set (outbox (cv_mail (aa_conv s1))))"
proof -
  let ?L = "re_cxx R" and ?D = "re_dirs R"
  obtain d where d: "message_of_app ?L ?D a (as_disk sv) = (Ok (app_letter a (encode_dict ?L d)), as_disk sv)" "map_of d = app_view ?L ?D (as_disk sv) a" "wf_value ?L (VDict d)"
    "length d = length (st_index (ap_data a))" using dir_env.message_of_app_ok [OF D a] .
  let ?b = "encode_message ?L (app_letter a (encode_dict ?L d))" and ?from = "ui_id (lu_info (re_user R))"
  obtain ps where ps: "aa_post s = Some ps" using post by blast
  define s0 where "s0 = s\<lparr>aa_service := sv\<rparr>"
  have l0: "in_service (as_load_app ?L ?D aid) s = (Ok (Some a), s0)" using load by (simp add: in_service_def s0_def)
  obtain l where l: "start_script N R ?from i a s0 = (Ok (Script_Widget l), s0)" using start_script_Ok [OF i(1)] by blast
  let ?m = "app_metadatum.make SCRIPT_APP aid i"
  define v where "v = (aa_conv s)\<lparr>cv_apps := omap_put i ?m (cv_apps (aa_conv s))\<rparr>"
  have add: "add_app ?m (aa_conv s0) = Ok v" using i by (simp add: add_app_def app_metadatum.defs SCRIPT_APP_def v_def s0_def)
  define s2 where "s2 = s0\<lparr>aa_conv := v, aa_post := Some (List.insert i ps)\<rparr>"
  have m: "in_service (onDisk (message_of_app ?L ?D a)) s2 = (Ok (app_letter a (encode_dict ?L d)), s2)" using d(1) by (simp add: in_service_def onDisk_def s2_def s0_def)
  define s3 where "s3 = s2\<lparr>aa_apps := alist_put i \<lparr>pr_app = Some a, pr_widget = Script_Widget l\<rparr> (aa_apps s)\<rparr>"
  obtain b v1 where v1: "send_all (re_user R) (cl_list (cv_contacts v)) (app_news i SCRIPT_APP ?b) False v = Ok (b, v1)"
    "\<And>c k. c \<in> set (cl_list (cv_contacts v)) \<Longrightarrow> cl_by_id (ui_id c) (lu_contacts (re_user R)) = Ok (Some k) \<Longrightarrow>
       letter_to (re_user R) (mailbox_address (cv_mail v)) (app_news i SCRIPT_APP ?b) k \<in> set (outbox (cv_mail v1))"
    using send_every [OF cs, of "cl_list (cv_contacts v)" "app_news i SCRIPT_APP ?b" False v] by blast
  have sent: "in_conv (conv_send (re_user R) (app_news i SCRIPT_APP ?b)) s3 = (Ok b, s3\<lparr>aa_conv := v1\<rparr>)"
    using v1(1) by (simp add: in_conv_def partA_def conv_send_def s3_def s2_def)
  have "add_own_app R SCRIPT_APP i aid (Some a) (start_script N R ?from i a) s0 = (Ok (), s3\<lparr>aa_conv := v1\<rparr>)"
  proof -
    have 1: "in_conv (\<lambda>v. bindO (add_app ?m v) (\<lambda>v1. Ok ((), v1))) s0 = (Ok (), s0\<lparr>aa_conv := v\<rparr>)" using add by (simp add: in_conv_def partA_def)
    have 2: "post_mailbox i (s0\<lparr>aa_conv := v\<rparr>) = (Ok (), s2)" using ps by (simp add: post_mailbox_def modA_def s2_def s0_def)
    have 3: "put_app i \<lparr>pr_app = Some a, pr_widget = Script_Widget l\<rparr> s2 = (Ok (), s3)" by (simp add: put_app_def modA_def s3_def s2_def s0_def)
    have p0: "aa_post s0 \<noteq> None" using ps by (simp add: s0_def)
    note step = bindA_Ok [where m = "start_script N R ?from i a"] bindA_Ok [where m = "in_conv (\<lambda>v. bindO (add_app ?m v) (\<lambda>v1. Ok ((), v1)))"] bindA_Ok [where m = "post_mailbox i"]
      bindA_Ok [where m = "in_service (onDisk (message_of_app ?L ?D a))"] bindA_Ok [where m = "put_app i \<lparr>pr_app = Some a, pr_widget = Script_Widget l\<rparr>"]
      bindA_Ok [where m = "in_conv (conv_send (re_user R) (app_news i SCRIPT_APP ?b))"]
    show ?thesis using i(1) p0 l 1 2 3 m sent by (simp add: add_own_app_def thenA_def requireA_def app_news_def [symmetric] step) (auto simp: retA_def)
  qed
  then have "add_script_app N R i aid s = (Ok (), s3\<lparr>aa_conv := v1\<rparr>)" using l0 by (simp add: add_script_app_def bindA_Ok [where m = "in_service (as_load_app ?L ?D aid)"])
  then show ?thesis using d v1(2) by (intro exI [of _ "s3\<lparr>aa_conv := v1\<rparr>"] exI [of _ d]) (simp add: v_def)
qed

text \<open>
  An app that the user adds to a conversation reaches the others: the user's copy is loaded, started, listed and sent; every contact of the conversation whom the user knows
  is sent a letter, and whoever gets it, and has no app under that address yet, ends with an app of the same id, name and code, whose data are the same for every key, listed
  under the same address, while the user is alerted.
\<close>

theorem shared_app_arrives:
  fixes N :: "('k, 's) script_engine" and N' :: "('k, 's) script_engine"
  assumes "dir_env (re_cxx R) (re_dirs R)" "dir_env (re_cxx R') (re_dirs R')" "re_cxx R' = re_cxx R"
    and "as_load_app (re_cxx R) (re_dirs R) aid (aa_service s) = (Ok (Some a), sv)" "app_ok (re_cxx R) (re_dirs R) (as_disk sv) a" "ap_id a = aid"
    and "\<And>m. message_of_app (re_cxx R) (re_dirs R) a (as_disk sv) = (Ok m, as_disk sv) \<Longrightarrow> wf_message (re_cxx R) m"
    and "cl_ok (lu_contacts (re_user R))" "i \<noteq> []" "aa_post s \<noteq> None" "c \<in> set (cl_list (cv_contacts (aa_conv s)))" "cl_by_id (ui_id c) (lu_contacts (re_user R)) = Ok (Some k)"
    and "new_names (re_cxx R) a (ee_names (re_editor R'))" "\<not> has_app i (aa_conv t)" "aa_post t \<noteq> None" "as_tmp_home (aa_service t) \<noteq> []"
    and "dk_files (as_disk (aa_service t)) (get_index_file (dl_fs (re_dirs R')) (get_data_path (re_dirs R') (get_app_dir (re_dirs R') (as_tmp_home (aa_service t)) aid))) = None"
  shows "\<exists>s1 l t1 w b. add_script_app N R i aid s = (Ok (), s1) \<and> l \<in> set (outbox (cv_mail (aa_conv s1))) \<and>
    mt_to (m_meta l) = [ui_address k, mailbox_address (cv_mail (aa_conv s))] \<and>
    conversation_check_mail N' R' uuid (arrived l) t = (Ok (), t1) \<and> map_of (aa_apps t1) i = Some \<lparr>pr_app = Some b, pr_widget = Script_Widget w\<rparr> \<and>
    ap_id b = aid \<and> ap_name b = ap_name a \<and> ap_code b = ap_code a \<and>
    app_view (re_cxx R') (re_dirs R') (as_disk (aa_service t1)) b = app_view (re_cxx R) (re_dirs R) (as_disk sv) a \<and>
    has_app i (aa_conv t1) \<and> aa_alerts t1 = aa_alerts t @ [(cv_id (aa_conv t), False)]"
proof -
  have i: "aid \<noteq> []" using assms(5,6) by (auto simp: app_ok_def)
  obtain s1 d where d: "add_script_app N R i aid s = (Ok (), s1)" "message_of_app (re_cxx R) (re_dirs R) a (as_disk sv) = (Ok (app_letter a (encode_dict (re_cxx R) d)), as_disk sv)"
    "map_of d = app_view (re_cxx R) (re_dirs R) (as_disk sv) a" "wf_value (re_cxx R) (VDict d)" "length d = length (st_index (ap_data a))"
    "letter_to (re_user R) (mailbox_address (cv_mail (aa_conv s))) (app_news i SCRIPT_APP (encode_message (re_cxx R) (app_letter a (encode_dict (re_cxx R) d)))) k \<in> set (outbox (cv_mail (aa_conv s1)))"
    using add_script_sends [OF assms(1,4,5,8,9) i assms(10), where N = N] assms(11,12) by blast
  let ?l = "letter_to (re_user R) (mailbox_address (cv_mail (aa_conv s))) (app_news i SCRIPT_APP (encode_message (re_cxx R) (app_letter a (encode_dict (re_cxx R) d)))) k"
  have us: "length (ee_names (re_editor R')) = length d" "distinct (ee_names (re_editor R'))" "list_all (good_name (re_cxx R')) (ee_names (re_editor R'))"
    using assms(3,13) d(5) by (simp_all add: new_names_def)
  have m: "new_app_of (arrived ?l) = Ok \<lparr>na_id = i, na_type = SCRIPT_APP, na_from_id = ui_id (lu_info (re_user R)), na_data = encode_message (re_cxx R') (app_letter a (encode_dict (re_cxx R') d))\<rparr>"
    by (simp add: app_news_read assms(3))
  have wf: "wf_message (re_cxx R') (app_letter a (encode_dict (re_cxx R') d))" "wf_value (re_cxx R') (VDict d)" using assms(3) assms(7) [OF d(2)] d(4) by simp_all
  obtain t1 w b where t1: "conversation_check_mail N' R' uuid (arrived ?l) t = (Ok (), t1)" "map_of (aa_apps t1) i = Some \<lparr>pr_app = Some b, pr_widget = Script_Widget w\<rparr>"
    "ap_id b = ap_id a" "ap_name b = ap_name a" "ap_code b = ap_code a" "app_view (re_cxx R') (re_dirs R') (as_disk (aa_service t1)) b = map_of d"
    "map_of (cv_apps (aa_conv t1)) i = map_of (omap_put i (app_metadatum.make SCRIPT_APP (ap_id a) i) (cv_apps (aa_conv t))) i" "aa_alerts t1 = aa_alerts t @ [(cv_id (aa_conv t), False)]"
    using app_received [OF assms(2) m app_news_read(2-4) wf us _ assms(9,14,15,16), where N = N' and uuid = uuid] i assms(6,17) by auto
  have "map_of (cv_apps (aa_conv t1)) i \<noteq> None" unfolding t1(7) by (simp add: map_of_eq_None_iff)
  then have "has_app i (aa_conv t1)" by (simp add: has_app_def map_of_eq_None_iff)
  moreover have "mt_to (m_meta ?l) = [ui_address k, mailbox_address (cv_mail (aa_conv s))]" by (simp add: letter_to_def)
  ultimately show ?thesis using d(1,3,6) t1(1-6,8) assms(6) by (intro exI [of _ s1] exI [of _ ?l] exI [of _ t1] exI [of _ w] exI [of _ b]) simp
qed


definition sample_area_env :: "string \<Rightarrow> string list \<Rightarrow> nat area_env" where
  "sample_area_env u us = \<lparr>re_editor = (sample_editor_env u)\<lparr>ee_names := us\<rparr>, re_now = ''12''\<rparr>"

definition sample_area :: "string \<Rightarrow> app_service \<Rightarrow> (nat, calls) app_area" where
  "sample_area u sv = \<lparr>aa_conv = sample_conversation\<lparr>cv_contacts := ce_contacts (sample_chat u)\<rparr>, aa_post = Some [], aa_apps = [], aa_service = sv, aa_alerts = []\<rparr>"

lemma sample_area_facts:
  "re_cxx (sample_area_env u us) = decimal_lib" "re_dirs (sample_area_env u us) = sample_dirs" "re_user (sample_area_env u us) = ce_user (sample_chat u)"
  "ee_names (re_editor (sample_area_env u us)) = us" "aa_service (sample_area u sv) = sv" "aa_post (sample_area u sv) = Some []" "aa_alerts (sample_area u sv) = []"
  "cv_id (aa_conv (sample_area u sv)) = ''c''" "\<not> has_app i (aa_conv (sample_area u sv))" "aa_apps (sample_area u sv) = []" "cv_apps (aa_conv (sample_area u sv)) = []"
  "cv_contacts (aa_conv (sample_area u sv)) = ce_contacts (sample_chat u)"
  by (simp_all add: sample_area_env_def sample_area_def sample_editor_env_def sample_api_env_def sample_conversation_def has_app_def)

lemma sample_app_on_disk:
  "\<exists>sv a. as_load_app decimal_lib sample_dirs ''i'' sv = (Ok (Some a), sv) \<and> app_ok decimal_lib sample_dirs (as_disk sv) a \<and> ap_id a = ''i'' \<and> ap_code a = ''x'' @ [CHR 10] \<and>
     app_view decimal_lib sample_dirs (as_disk sv) a = [''k'' \<mapsto> VBytes ''v''] \<and> new_names decimal_lib a [''w''] \<and>
     (\<forall>m. message_of_app decimal_lib sample_dirs a (as_disk sv) = (Ok m, as_disk sv) \<longrightarrow> wf_message decimal_lib m)"
proof -
  have s: "as_disk sample_service = sample_app_disk" "as_app_home sample_service = ''a''" "ap_id App_Service.sample_app = ''i''" "ap_name App_Service.sample_app = ''n''" "ap_code App_Service.sample_app = ''x''"
    by (simp_all add: sample_service_def App_Service.sample_app_def)
  obtain w where w: "app_saved decimal_lib sample_dirs ''a/i'' App_Service.sample_app [''k'' \<mapsto> VBytes ''v''] w"
    using sd.as_save_ok [of sample_service App_Service.sample_app "''a/i''" "[''w'']"] sample_facts by (auto simp: s sample_app_view sample_app_ok)
  obtain a where a: "load_app decimal_lib sample_dirs ''a/i'' w = (Ok (Some a), w)" "ap_meta a = \<lparr>md_path = ''a/i'', md_id = ''i'', md_name = ''n''\<rparr>" "ap_code a = read_lines ''x''"
    "app_ok decimal_lib sample_dirs w a" "app_view decimal_lib sample_dirs w a = [''k'' \<mapsto> VBytes ''v'']"
    using sd.load_ok [OF _ _ _ _ w] sample_facts by (auto simp: s)
  define sv where "sv = sample_service\<lparr>as_disk := w\<rparr>"
  have l: "as_load_app decimal_lib sample_dirs ''i'' sv = (Ok (Some a), sv)"
    using a(1) sample_facts(11) by (simp add: as_load_app_def onDisk_def sv_def)
  obtain d where d: "message_of_app decimal_lib sample_dirs a w = (Ok (app_letter a (encode_dict decimal_lib d)), w)" "map_of d = [''k'' \<mapsto> VBytes ''v'']" "wf_value decimal_lib (VDict d)"
    "length d = length (st_index (ap_data a))" using sd.message_of_app_ok [OF a(4)] unfolding a(5) by blast
  have "length d = card (fst ` set d)" using d(3) distinct_card [of "map fst d"] by simp
  also have "\<dots> = card (dom (map_of d))" by (simp add: dom_map_of_conv_image_fst)
  finally have one: "length d = Suc 0" by (simp add: d(2))
  have dd: "d = [(''k'', VBytes ''v'')]" by (rule one_entry [OF one d(2)])
  have code: "ap_code a = ''x'' @ [CHR 10]" using a(3) by (simp add: read_lines_eq)
  have "wf_message decimal_lib (app_letter a (encode_dict decimal_lib d))" unfolding dd
    using a(2) code by (simp add: wf_message_def Let_def app_letter_def metadata_default_def address_array_def encode_array_def APP_MESSAGE_def encode_dict_def encode_b_def decimal_lib_def show_nat.simps enc_def)
  moreover have "new_names decimal_lib a [''w'']" using d(4) one by (simp add: new_names_def good_name_def plain_name_def INDEX_def decimal_lib_def)
  ultimately show ?thesis using l a(2,4,5) code d(1) by (intro exI [of _ sv] exI [of _ a]) (simp add: sv_def)
qed

theorem shared_app_arrives_witness:
  "\<exists>sv s1 l t1 b w. add_script_app (sample_engine :: (nat, calls) script_engine) (sample_area_env ''a'' []) ''s'' ''i'' (sample_area ''a'' sv) = (Ok (), s1) \<and>
     l \<in> set (outbox (cv_mail (aa_conv s1))) \<and>
     conversation_check_mail (sample_engine :: (nat, calls) script_engine) (sample_area_env ''b'' [''w'']) ''u'' (arrived l) (sample_area ''b'' sample_service) = (Ok (), t1) \<and>
     map_of (aa_apps t1) ''s'' = Some \<lparr>pr_app = Some b, pr_widget = Script_Widget w\<rparr> \<and> ap_code b = ''x'' @ [CHR 10] \<and>
     app_view decimal_lib sample_dirs (as_disk (aa_service t1)) b = [''k'' \<mapsto> VBytes ''v''] \<and> aa_alerts t1 = [(''c'', False)]"
proof -
  obtain sv a where a: "as_load_app decimal_lib sample_dirs ''i'' sv = (Ok (Some a), sv)" "app_ok decimal_lib sample_dirs (as_disk sv) a" "ap_id a = ''i''" "ap_code a = ''x'' @ [CHR 10]"
     "app_view decimal_lib sample_dirs (as_disk sv) a = [''k'' \<mapsto> VBytes ''v'']" "new_names decimal_lib a [''w'']"
     "\<And>m. message_of_app decimal_lib sample_dirs a (as_disk sv) = (Ok m, as_disk sv) \<Longrightarrow> wf_message decimal_lib m"
    using sample_app_on_disk by blast
  let ?R = "sample_area_env ''a'' []" and ?S = "sample_area_env ''b'' [''w'']" and ?s = "sample_area ''a'' sv" and ?t = "sample_area ''b'' sample_service"
  have c: "sample_info 1 ''b'' \<in> set (cl_list (cv_contacts (aa_conv ?s)))" by (simp add: sample_area_facts sample_chat_def Let_def indexed_def)
  have k: "cl_by_id (ui_id (sample_info 1 ''b'')) (lu_contacts (re_user ?R)) = Ok (Some (sample_info 1 ''b''))"
    by (simp add: sample_area_facts sample_chat_def Let_def indexed_def cl_by_id_def sample_info_def)
  have ok: "cl_ok (lu_contacts (re_user ?R))" using sample_chat_users by (auto simp: chat_users_def sample_area_facts)
  have none: "dk_files (as_disk (aa_service ?t)) (get_index_file (dl_fs (re_dirs ?S)) (get_data_path (re_dirs ?S) (get_app_dir (re_dirs ?S) (as_tmp_home (aa_service ?t)) ''i''))) = None"
    "as_tmp_home (aa_service ?t) \<noteq> []"
    by (simp_all add: sample_area_facts sample_service_def sample_app_disk_def sample_dirs_def sample_fs_def get_index_file_def get_data_path_def get_app_dir_def DATA_PATH_def INDEX_def)
  obtain s1 l t1 w b where x: "add_script_app (sample_engine :: (nat, calls) script_engine) ?R ''s'' ''i'' ?s = (Ok (), s1)" "l \<in> set (outbox (cv_mail (aa_conv s1)))"
    "conversation_check_mail (sample_engine :: (nat, calls) script_engine) ?S ''u'' (arrived l) ?t = (Ok (), t1)" "map_of (aa_apps t1) ''s'' = Some \<lparr>pr_app = Some b, pr_widget = Script_Widget w\<rparr>"
    "ap_code b = ap_code a" "app_view (re_cxx ?S) (re_dirs ?S) (as_disk (aa_service t1)) b = app_view (re_cxx ?R) (re_dirs ?R) (as_disk sv) a" "aa_alerts t1 = aa_alerts ?t @ [(cv_id (aa_conv ?t), False)]"
    using shared_app_arrives [where N = "sample_engine :: (nat, calls) script_engine" and N' = "sample_engine :: (nat, calls) script_engine" and R = ?R and R' = ?S and s = ?s and t = ?t and aid = "''i''" and a = a and sv = sv and i = "''s''"
        and c = "sample_info 1 ''b''" and k = "sample_info 1 ''b''" and uuid = "''u''", OF _ _ _ _ _ a(3) _ ok _ _ c k] a(1,2,6,7) none
    by (simp add: sample_area_facts sample_dir_env) blast
  then show ?thesis using a(4,5)
    by (intro exI [of _ sv] exI [of _ s1] exI [of _ l] exI [of _ t1] exI [of _ b] exI [of _ w]) (simp add: sample_area_facts)
qed

theorem apps_in_order_witness:
  "\<exists>t. area_reach (sample_engine :: (nat, calls) script_engine) (sample_area ''b'' sample_service) t \<and> map_of (aa_apps t) ''s'' \<noteq> None \<and> area_ok t"
proof -
  let ?N = "sample_engine :: (nat, calls) script_engine" and ?t = "sample_area ''b'' sample_service :: (nat, calls) app_area"
  obtain l t1 p where t: "conversation_check_mail ?N (sample_area_env ''b'' [''w'']) ''u'' (arrived l) ?t = (Ok (), t1)" "map_of (aa_apps t1) ''s'' = Some p"
    using shared_app_arrives_witness by blast
  have "area_reach ?N ?t ?t" by (rule area_reach.Start) (simp_all add: sample_area_facts)
  then have r: "area_reach ?N ?t t1"
    by (rule area_reach.Next) (rule area_step.Mail [OF survivesI [of "conversation_check_mail ?N (sample_area_env ''b'' [''w'']) ''u'' (arrived l)", OF t(1)]])
  show ?thesis using apps_in_order [OF r] r t(2) by blast
qed

end
