(* ===== verification/Post_Office.thy ===== *)
theory Post_Office
  imports Mailbox
begin

text \<open>
  Message routing, \<^verbatim>\<open>src/src/message/post_office.cpp\<close>.  Post offices and mailboxes are objects of a world: the maps
  \<open>pw_offices\<close> and \<open>pw_boxes\<close> hold the objects that are alive, so that locking a weak pointer is a lookup, and a raw \<^verbatim>\<open>_parent\<close> pointer
  to an object that is gone is undefined behaviour.  \<^verbatim>\<open>_post_m\<close> stays locked while \<^verbatim>\<open>send\<close> calls a child: \<open>po_send\<close> carries the set of the offices whose mutex the
  calling thread holds, and locking one of them again is undefined behaviour (a deadlock in practice).  \<open>po_send\<close> recurses up and down
  the tree, so it carries fuel, the number of nested calls; \<open>po_send_no_diverge\<close> shows how much is enough.
\<close>

section \<open>State\<close>

text \<open>
  \<^verbatim>\<open>send_outside\<close> is virtual: \<open>po_out\<close> is the queue \<^verbatim>\<open>_out\<close> of a \<^verbatim>\<open>master_post_office\<close> and \<open>None\<close> in a plain \<^verbatim>\<open>post_office\<close>.
\<close>

record post_office =
  po_address :: string
  po_boxes :: "(string \<times> nat) list"
  po_offices :: "(string \<times> nat) list"
  po_parent :: "nat option"
  po_stats :: mailbox_stats
  po_out :: "message queue option"

record post_world =
  pw_boxes :: "nat \<rightharpoonup> mailbox"
  pw_offices :: "nat \<rightharpoonup> post_office"

definition post_office_new :: "string \<Rightarrow> post_office" where
  "post_office_new a = \<lparr>po_address = a, po_boxes = [], po_offices = [], po_parent = None, po_stats = mailbox_stats_new, po_out = None\<rparr>"

definition set_box :: "nat \<Rightarrow> mailbox \<Rightarrow> post_world \<Rightarrow> post_world" where
  "set_box b mb w = w\<lparr>pw_boxes := (pw_boxes w)(b \<mapsto> mb)\<rparr>"

definition set_office :: "nat \<Rightarrow> post_office \<Rightarrow> post_world \<Rightarrow> post_world" where
  "set_office i po w = w\<lparr>pw_offices := (pw_offices w)(i \<mapsto> po)\<rparr>"

abbreviation m_to :: "message \<Rightarrow> string list" where "m_to m \<equiv> mt_to (m_meta m)"
abbreviation m_from :: "message \<Rightarrow> string list" where "m_from m \<equiv> mt_from (m_meta m)"

definition pop_to :: "message \<Rightarrow> message" where
  "pop_to m = m\<lparr>m_meta := (m_meta m)\<lparr>mt_to := tl (m_to m)\<rparr>\<rparr>"

definition push_from :: "string \<Rightarrow> message \<Rightarrow> message" where
  "push_from a m = m\<lparr>m_meta := (m_meta m)\<lparr>mt_from := a # m_from m\<rparr>\<rparr>"

section \<open>Sending\<close>

definition master_send_outside :: "nat \<Rightarrow> post_office \<Rightarrow> message queue \<Rightarrow> message \<Rightarrow> post_world \<Rightarrow> (bool \<times> post_world) outcome" where
  "master_send_outside i po out m w =
     (let s = po_stats po;
          s' = (if stats_on s then s\<lparr>out_push_count := out_push_count s + 1\<rparr> else s)
      in bindO (queue_push m out) (\<lambda>q. Ok (True, set_office i (po\<lparr>po_stats := s', po_out := Some q\<rparr>) w)))"

definition base_send_outside :: "message \<Rightarrow> post_world \<Rightarrow> (bool \<times> post_world) outcome" where
  "base_send_outside m w = Ok (False, w)"

definition send_outside :: "nat \<Rightarrow> post_office \<Rightarrow> message \<Rightarrow> post_world \<Rightarrow> (bool \<times> post_world) outcome" where
  "send_outside i po m w = (case po_out po of Some q \<Rightarrow> master_send_outside i po q m w | None \<Rightarrow> base_send_outside m w)"

definition deliver_box :: "post_office \<Rightarrow> message \<Rightarrow> post_world \<Rightarrow> (bool \<times> post_world) outcome" where
  "deliver_box po m w =
     (case map_of (po_boxes po) (hd (m_to m)) of
        None \<Rightarrow> Ok (False, w)
      | Some b \<Rightarrow> (case pw_boxes w b of
          None \<Rightarrow> Ok (False, w)
        | Some mb \<Rightarrow> bindO (push_inbox m mb) (\<lambda>mb'. Ok (True, set_box b mb' w))))"

text \<open>\<^verbatim>\<open>if(meta.to.size() > 1 && meta.to.front() == _address) meta.to.pop_front()\<close>\<close>

definition strip_own :: "post_office \<Rightarrow> message \<Rightarrow> message" where
  "strip_own po m = (if length (m_to m) > 1 \<and> hd (m_to m) = po_address po then pop_to m else m)"

primrec po_send :: "nat \<Rightarrow> nat set \<Rightarrow> nat \<Rightarrow> message \<Rightarrow> post_world \<Rightarrow> (bool \<times> post_world) outcome" where
  "po_send 0 held i m w = Diverge"
| "po_send (Suc n) held i m w =
     (case pw_offices w i of
        None \<Rightarrow> Undef
      | Some po \<Rightarrow>
          if m_to m = [] then Ok (False, w)
          else
            let m1 = strip_own po m in
            if length (m_to m1) > 1 then
              if i \<in> held then Undef
              else
                bindO
                  (case map_of (po_offices po) (hd (m_to m1)) of
                     None \<Rightarrow> Ok (False, w)
                   | Some c \<Rightarrow>
                       if pw_offices w c = None then Ok (False, w)
                       else po_send n (insert i held) c (push_from (po_address po) (pop_to m1)) w)
                  (\<lambda>(sent, w1).
                     if sent then Ok (True, w1)
                     else
                       let m2 = push_from (po_address po) m1 in
                       case po_parent po of
                         Some p \<Rightarrow> po_send n held p m2 w1
                       | None \<Rightarrow> send_outside i po m2 w1)
            else contract (length (m_to m1) = 1) (deliver_box po m1 w))"

section \<open>Mailboxes and child offices\<close>

definition clean_mailboxes :: "post_office \<Rightarrow> post_world \<Rightarrow> post_office" where
  "clean_mailboxes po w =
     po\<lparr>po_boxes := fold alist_del (map fst (filter (\<lambda>p. pw_boxes w (snd p) = None) (po_boxes po))) (po_boxes po)\<rparr>"

definition po_add_box :: "nat \<Rightarrow> post_office \<Rightarrow> post_world \<Rightarrow> (bool \<times> post_office) outcome" where
  "po_add_box b po w =
     (case pw_boxes w b of
        None \<Rightarrow> Ok (False, po)
      | Some mb \<Rightarrow>
          contract (mailbox_address mb \<noteq> [])
            (let po1 = clean_mailboxes po w
             in Ok (True, po1\<lparr>po_boxes := alist_put (mailbox_address mb) b (po_boxes po1)\<rparr>)))"

definition po_has_box :: "nat \<Rightarrow> post_office \<Rightarrow> post_world \<Rightarrow> bool" where
  "po_has_box b po w = (case pw_boxes w b of None \<Rightarrow> False | Some mb \<Rightarrow> alist_has (mailbox_address mb) (po_boxes po))"

definition remove_mailbox :: "string \<Rightarrow> post_office \<Rightarrow> post_office" where
  "remove_mailbox a po = po\<lparr>po_boxes := alist_del a (po_boxes po)\<rparr>"

definition set_parent :: "nat \<Rightarrow> nat \<Rightarrow> post_world \<Rightarrow> post_world outcome" where
  "set_parent c p w =
     contract (p \<noteq> c)
       (case pw_offices w c of None \<Rightarrow> Undef | Some po \<Rightarrow> Ok (set_office c (po\<lparr>po_parent := Some p\<rparr>) w))"

definition po_add_office :: "nat \<Rightarrow> nat \<Rightarrow> post_world \<Rightarrow> (bool \<times> post_world) outcome" where
  "po_add_office c i w =
     (case (pw_offices w i, pw_offices w c) of
        (None, _) \<Rightarrow> Undef
      | (Some po, None) \<Rightarrow> Ok (False, w)
      | (Some po, Some co) \<Rightarrow>
          contract (c \<noteq> i) (contract (po_address co \<noteq> []) (contract (\<not> alist_has (po_address co) (po_offices po))
            (bindO (set_parent c i w) (\<lambda>w1.
              Ok (True, set_office i (po\<lparr>po_offices := alist_put (po_address co) c (po_offices po)\<rparr>) w1))))))"

definition po_has_office :: "nat \<Rightarrow> post_office \<Rightarrow> post_world \<Rightarrow> bool" where
  "po_has_office c po w = (case pw_offices w c of None \<Rightarrow> False | Some co \<Rightarrow> alist_has (po_address co) (po_offices po))"

definition remove_post_office :: "string \<Rightarrow> post_office \<Rightarrow> post_office" where
  "remove_post_office a po = po\<lparr>po_offices := alist_del a (po_offices po)\<rparr>"

definition outside_stats_switch :: "bool \<Rightarrow> post_office \<Rightarrow> post_office" where
  "outside_stats_switch on po = po\<lparr>po_stats := (po_stats po)\<lparr>stats_on := on\<rparr>\<rparr>"

section \<open>The send thread\<close>

text \<open>
  One mailbox of a round of \<^verbatim>\<open>send_thread\<close>, and a round: the loop over the copy of the mailboxes taken at its start.
  The flag is \<^verbatim>\<open>sent\<close>, which only decides how long the thread sleeps afterwards.
\<close>

definition send_box :: "nat \<Rightarrow> nat \<Rightarrow> nat \<Rightarrow> post_world \<Rightarrow> (bool \<times> post_world) outcome" where
  "send_box n i b w =
     (case pw_boxes w b of
        None \<Rightarrow> Ok (False, w)
      | Some sp \<Rightarrow>
          (case pop_outbox False sp of
             (Got m, sp') \<Rightarrow>
               let m1 = push_from (mailbox_address sp') m in
               contract (length (m_from m1) = 1)
                 (bindO (po_send n {} i m1 (set_box b sp' w)) (\<lambda>(_, w1). Ok (True, w1)))
           | (_, sp') \<Rightarrow> Ok (False, set_box b sp' w)))"

primrec send_boxes :: "nat \<Rightarrow> nat \<Rightarrow> (string \<times> nat) list \<Rightarrow> bool \<Rightarrow> post_world \<Rightarrow> (bool \<times> post_world) outcome" where
  "send_boxes n i [] sent w = Ok (sent, w)"
| "send_boxes n i (p # ps) sent w =
     bindO (send_box n i (snd p) w) (\<lambda>(s, w1). send_boxes n i ps (sent \<or> s) w1)"

definition send_round :: "nat \<Rightarrow> nat \<Rightarrow> post_world \<Rightarrow> (bool \<times> post_world) outcome" where
  "send_round n i w = (case pw_offices w i of None \<Rightarrow> Undef | Some po \<Rightarrow> send_boxes n i (po_boxes po) False w)"

section \<open>Every send delivers at most once, and ends\<close>

text \<open>The effect of a successful send: one message more in one inbox, or in the outside queue of one office.\<close>

definition delivered_one :: "post_world \<Rightarrow> post_world \<Rightarrow> bool" where
  "delivered_one w w' \<longleftrightarrow>
     (\<exists>b mb mb' m. pw_boxes w b = Some mb \<and> push_inbox m mb = Ok mb' \<and> w' = set_box b mb' w) \<or>
     (\<exists>i po q m s. pw_offices w i = Some po \<and> po_out po = Some q \<and>
        w' = set_office i (po\<lparr>po_stats := s, po_out := Some (q\<lparr>q_items := q_items q @ [m]\<rparr>)\<rparr>) w)"

definition sent_once :: "post_world \<Rightarrow> (bool \<times> post_world) outcome \<Rightarrow> bool" where
  "sent_once w r \<longleftrightarrow> (\<forall>sent w'. r = Ok (sent, w') \<longrightarrow> (if sent then delivered_one w w' else w' = w))"

lemma sent_once_False [simp]: "sent_once w (Ok (False, w))"
  by (simp add: sent_once_def)

lemma sent_once_bind:
  assumes "sent_once w r" "\<And>w1. r = Ok (False, w) \<Longrightarrow> sent_once w (f (False, w))" "\<And>w1. f (True, w1) = Ok (True, w1)"
  shows "sent_once w (bindO r f)"
proof (cases r)
  case (Ok p)
  obtain s w1 where p: "p = (s, w1)" by (cases p)
  show ?thesis
  proof (cases s)
    case True
    then show ?thesis using assms(1, 3) Ok p by simp
  next
    case False
    then show ?thesis using assms(1, 2) Ok p by (auto simp: sent_once_def)
  qed
qed (simp_all add: sent_once_def)

lemma deliver_box_once: "sent_once w (deliver_box po m w)"
  by (auto simp: deliver_box_def sent_once_def delivered_one_def split: option.splits)

lemma send_outside_once:
  assumes i: "pw_offices w i = Some po"
  shows "sent_once w (send_outside i po m w)"
proof (cases "po_out po")
  case None
  then show ?thesis by (simp add: send_outside_def base_send_outside_def)
next
  case (Some q)
  obtain s where s: "send_outside i po m w = Ok (True, set_office i (po\<lparr>po_stats := s, po_out := Some (q\<lparr>q_items := q_items q @ [m]\<rparr>)\<rparr>) w)"
    using Some by (simp add: send_outside_def master_send_outside_def queue_simps Let_def del: bindO_Ok_iff)
  have "delivered_one w (set_office i (po\<lparr>po_stats := s, po_out := Some (q\<lparr>q_items := q_items q @ [m]\<rparr>)\<rparr>) w)"
    unfolding delivered_one_def using i Some by blast
  with s show ?thesis by (simp add: sent_once_def)
qed

lemma po_send_once: "sent_once w (po_send n held i m w)"
proof (induction n arbitrary: held i m w)
  case 0
  then show ?case by (simp add: sent_once_def)
next
  case (Suc n)
  show ?case
  proof (cases "pw_offices w i")
    case None
    then show ?thesis by (simp add: sent_once_def)
  next
    case (Some po)
    have "sent_once w (contract c (deliver_box po m' w))" for c m'
      using deliver_box_once [of w po m'] by (simp add: contract_def sent_once_def)
    with Some Suc show ?thesis
      by (auto simp: Let_def sent_once_def [of w Undef] send_outside_once intro!: sent_once_bind split: option.splits)
  qed
qed

text \<open>
  The parent pointers of a well-formed world point to live offices and \<open>d\<close> is the depth of an office in its tree,
  at most \<open>D\<close>.
\<close>

definition post_wf :: "post_world \<Rightarrow> (nat \<Rightarrow> nat) \<Rightarrow> nat \<Rightarrow> bool" where
  "post_wf w d D \<longleftrightarrow>
     (\<forall>i po. pw_offices w i = Some po \<longrightarrow>
        d i \<le> D \<and> (case po_parent po of None \<Rightarrow> True | Some p \<Rightarrow> pw_offices w p \<noteq> None \<and> d p < d i))"

definition send_fuel :: "nat \<Rightarrow> nat \<Rightarrow> nat \<Rightarrow> nat" where
  "send_fuel D len dep = len * Suc D + dep + 1"

lemma post_wf_parent: "post_wf w d D \<Longrightarrow> pw_offices w i = Some po \<Longrightarrow> po_parent po = Some p \<Longrightarrow> pw_offices w p \<noteq> None \<and> d p < d i"
  by (fastforce simp: post_wf_def)

lemma post_wf_depth: "post_wf w d D \<Longrightarrow> pw_offices w i \<noteq> None \<Longrightarrow> d i \<le> D"
  by (auto simp: post_wf_def)

lemma m_to_pop_to [simp]: "m_to (pop_to m) = tl (m_to m)" by (simp add: pop_to_def)
lemma m_from_pop_to [simp]: "m_from (pop_to m) = m_from m" by (simp add: pop_to_def)
lemma m_to_push_from [simp]: "m_to (push_from a m) = m_to m" by (simp add: push_from_def)
lemma m_from_push_from [simp]: "m_from (push_from a m) = a # m_from m" by (simp add: push_from_def)

definition ends :: "'a outcome \<Rightarrow> bool" where
  "ends r \<longleftrightarrow> (\<exists>x. r = Ok x) \<or> r = Undef"

lemma po_ends_simps [simp]: "ends (Ok x)" "ends Undef" by (simp_all add: ends_def)

lemma po_ends_bind: "ends r \<Longrightarrow> (\<And>x. r = Ok x \<Longrightarrow> ends (f x)) \<Longrightarrow> ends (bindO r f)"
  by (auto simp: ends_def)

lemma deliver_box_Ok: "\<exists>x. deliver_box po m w = Ok x"
  using push_inbox_Ok by (fastforce simp: deliver_box_def split: option.splits)

lemma send_outside_Ok: "\<exists>x. send_outside i po m w = Ok x"
  by (auto simp: send_outside_def master_send_outside_def base_send_outside_def queue_simps Let_def split: option.splits)

lemma po_send_step:
  assumes "pw_offices w i = Some po" "m_to m \<noteq> []"
  shows "po_send (Suc n) held i m w =
     (if length (m_to (strip_own po m)) > 1 then
        if i \<in> held then Undef
        else bindO (case map_of (po_offices po) (hd (m_to (strip_own po m))) of
               None \<Rightarrow> Ok (False, w)
             | Some c \<Rightarrow> if pw_offices w c = None then Ok (False, w)
                       else po_send n (insert i held) c (push_from (po_address po) (pop_to (strip_own po m))) w)
          (\<lambda>(sent, w1). if sent then Ok (True, w1)
             else (case po_parent po of
                     Some p \<Rightarrow> po_send n held p (push_from (po_address po) (strip_own po m)) w1
                   | None \<Rightarrow> send_outside i po (push_from (po_address po) (strip_own po m)) w1))
      else contract (length (m_to (strip_own po m)) = 1) (deliver_box po (strip_own po m) w))"
  using assms unfolding po_send.simps Let_def by simp

lemma strip_own_to: "length (m_to (strip_own po m)) \<le> length (m_to m)" "m_to m \<noteq> [] \<Longrightarrow> m_to (strip_own po m) \<noteq> []"
  by (cases "m_to m"; auto simp: strip_own_def)+

lemma po_send_ends:
  assumes "post_wf w d D" "pw_offices w i \<noteq> None" "send_fuel D (length (m_to m)) (d i) \<le> n"
  shows "ends (po_send n held i m w)"
  using assms
proof (induction n arbitrary: held i m w)
  case 0
  then show ?case by (simp add: send_fuel_def)
next
  case (Suc n)
  obtain po where po: "pw_offices w i = Some po" using Suc.prems(2) by auto
  show ?case
  proof (cases "m_to m = []")
    case True
    with po show ?thesis by simp
  next
    case ne: False
    define m1 where "m1 = strip_own po m"
    have l1: "length (m_to m1) \<le> length (m_to m)" "m_to m1 \<noteq> []"
      using ne strip_own_to by (auto simp: m1_def)
    define child where "child = (case map_of (po_offices po) (hd (m_to m1)) of None \<Rightarrow> Ok (False, w)
       | Some c \<Rightarrow> if pw_offices w c = None then Ok (False, w)
                 else po_send n (insert i held) c (push_from (po_address po) (pop_to m1)) w)"
    have down: "send_fuel D (length (m_to m1) - 1) (d c) \<le> n" if "pw_offices w c \<noteq> None" for c
    proof -
      obtain k where k: "length (m_to m) = Suc k" using ne by (cases "m_to m") auto
      have "d c \<le> D" using post_wf_depth Suc.prems(1) that by blast
      moreover have "length (m_to m1) - 1 \<le> k" using l1 k by simp
      then have "(length (m_to m1) - 1) * Suc D \<le> k * Suc D" by (rule mult_le_mono1)
      ultimately show ?thesis using Suc.prems(3) k by (simp add: send_fuel_def)
    qed
    have ch: "ends child"
      using Suc.IH [OF Suc.prems(1)] down by (auto simp: child_def split: option.splits)
    have up: "ends (po_send n held p (push_from (po_address po) m1) w)" if "po_parent po = Some p" for p
    proof (rule Suc.IH [OF Suc.prems(1)])
      have p: "pw_offices w p \<noteq> None" "d p < d i" using post_wf_parent [OF Suc.prems(1) po that] by auto
      show "pw_offices w p \<noteq> None" by (rule p(1))
      have "length (m_to m1) * Suc D \<le> length (m_to m) * Suc D" using l1(1) by (rule mult_le_mono1)
      then show "send_fuel D (length (m_to (push_from (po_address po) m1))) (d p) \<le> n"
        using Suc.prems(3) p(2) by (simp add: send_fuel_def)
    qed
    have once: "sent_once w child" using po_send_once by (auto simp: child_def split: option.splits)
    have rest: "ends (case x of (sent, w1) \<Rightarrow> if sent then Ok (True, w1) else
        (case po_parent po of Some p \<Rightarrow> po_send n held p (push_from (po_address po) m1) w1
         | None \<Rightarrow> send_outside i po (push_from (po_address po) m1) w1))"
      if "child = Ok x" for x
    proof (cases x)
      case (Pair s w1)
      then have "s \<or> w1 = w" using that once by (auto simp: sent_once_def split: if_splits)
      then show ?thesis using up send_outside_Ok [of i po "push_from (po_address po) m1" w] Pair
        by (auto split: option.splits)
    qed
    have box: "ends (contract (length (m_to m1) = 1) (deliver_box po m1 w))" if "\<not> length (m_to m1) > 1"
    proof -
      have "length (m_to m1) = 1" using that l1(2) by (cases "m_to m1") auto
      then show ?thesis using deliver_box_Ok [of po m1 w] by auto
    qed
    show ?thesis
      unfolding po_send_step [OF po ne] m1_def [symmetric] child_def [symmetric]
      using box po_ends_bind [OF ch, OF rest] by simp
  qed
qed

section \<open>Relocking\<close>

lemma strip_own_short: "length (m_to m) \<le> 1 \<Longrightarrow> strip_own po m = m"
  by (simp add: strip_own_def)

lemma po_send_short:
  assumes "pw_offices w i = Some po" "length (m_to m) = 1"
  shows "po_send (Suc n) held i m w = deliver_box po m w"
  using assms by (subst po_send_step) (auto simp: strip_own_short)

text \<open>
  With at most two addresses left a child is only asked for a mailbox, so it never calls back: no office is locked twice.
\<close>

lemma po_send_no_relock:
  assumes "post_wf w d D" "pw_offices w i \<noteq> None" "length (m_to m) \<le> 2"
  shows "po_send n {} i m w \<noteq> Undef"
  using assms
proof (induction n arbitrary: i m w)
  case (Suc n)
  obtain po where po: "pw_offices w i = Some po" using Suc.prems(2) by auto
  show ?case
  proof (cases "m_to m = []")
    case True
    with po show ?thesis by simp
  next
    case ne: False
    define m1 where "m1 = strip_own po m"
    have l1: "length (m_to m1) \<le> 2" using strip_own_to(1) [of po m] Suc.prems(3) by (simp add: m1_def)
    define child where "child = (case map_of (po_offices po) (hd (m_to m1)) of None \<Rightarrow> Ok (False, w)
       | Some c \<Rightarrow> if pw_offices w c = None then Ok (False, w)
                 else po_send n (insert i {}) c (push_from (po_address po) (pop_to m1)) w)"
    have ch: "child \<noteq> Undef" if "length (m_to m1) > 1"
    proof -
      have "po_send n (insert i {}) c (push_from (po_address po) (pop_to m1)) w \<noteq> Undef" if "pw_offices w c = Some co" for c co
      proof (cases n)
        case (Suc k)
        have "length (m_to (push_from (po_address po) (pop_to m1))) = 1" using l1 \<open>1 < length (m_to m1)\<close> by simp
        from po_send_short [OF that this] Suc show ?thesis using deliver_box_Ok by (metis outcome.distinct(5))
      qed simp
      then show ?thesis by (auto simp: child_def split: option.splits)
    qed
    have once: "sent_once w child" using po_send_once by (auto simp: child_def split: option.splits)
    have up: "po_send n {} p (push_from (po_address po) m1) w \<noteq> Undef" if "po_parent po = Some p" for p
      using Suc.IH [OF Suc.prems(1)] post_wf_parent [OF Suc.prems(1) po that] l1 by simp
    have out: "send_outside i po m' w \<noteq> Undef" for m' using send_outside_Ok [of i po m' w] by auto
    have box: "deliver_box po m1 w \<noteq> Undef" using deliver_box_Ok [of po m1 w] by auto
    show ?thesis
      unfolding po_send_step [OF po ne] m1_def [symmetric] child_def [symmetric]
      using ch once up out box
      by (auto simp: sent_once_def split: if_splits option.splits)
  qed
qed simp

text \<open>
  With three or more, a child that does not know the next address hands the message back to the office that
  is waiting for it with its mutex locked.
\<close>

lemma po_send_relock:
  assumes P: "pw_offices w p = Some P" "c \<noteq> po_address P" "map_of (po_offices P) c = Some k"
    and C: "pw_offices w k = Some C" "po_parent C = Some p" "x \<noteq> po_address C" "map_of (po_offices C) x = None"
    and x: "x \<noteq> po_address P" and to: "m_to m = c # x # y # zs" and ne: "k \<noteq> p"
  shows "po_send (Suc (Suc (Suc n))) {} p m w = Undef"
proof -
  define m1 where "m1 = push_from (po_address P) (pop_to m)"
  define m2 where "m2 = push_from (po_address C) m1"
  have to1: "m_to m1 = x # y # zs" "m_to m2 = x # y # zs" using to by (simp_all add: m1_def m2_def)
  have s: "strip_own P m = m" "strip_own C m1 = m1" "strip_own P m2 = m2"
    using P(2) C(3) x to to1 by (simp_all add: strip_own_def)
  have "po_send (Suc n) {p} p m2 w = Undef"
    by (subst po_send_step [OF P(1)]) (simp_all add: to1 s)
  then have "po_send (Suc (Suc n)) {p} k m1 w = Undef"
    using C ne by (subst po_send_step [OF C(1)]) (simp_all add: to1 s m2_def [symmetric])
  then show ?thesis
    using P C by (subst po_send_step [OF P(1)]) (simp_all add: to s m1_def [symmetric])
qed

section \<open>Routing down and up the tree\<close>

definition office_addr :: "post_world \<Rightarrow> nat \<Rightarrow> string" where
  "office_addr w i = (case pw_offices w i of Some po \<Rightarrow> po_address po | None \<Rightarrow> [])"

text \<open>
  A line of offices from one of them up to the root of its tree: each is registered with the next under its address and
  has it as its parent.
\<close>

fun line :: "post_world \<Rightarrow> nat list \<Rightarrow> bool" where
  "line w [] = False"
| "line w [r] = (case pw_offices w r of None \<Rightarrow> False | Some po \<Rightarrow> po_parent po = None)"
| "line w (i # j # is) =
     (case (pw_offices w i, pw_offices w j) of
        (Some po, Some up) \<Rightarrow> po_parent po = Some j \<and> map_of (po_offices up) (po_address po) = Some i \<and>
           po_address po \<noteq> po_address up \<and> line w (j # is)
      | _ \<Rightarrow> False)"

text \<open>No office of the line takes the address \<open>a\<close> as its own or as a child's.\<close>

definition foreign :: "post_world \<Rightarrow> nat list \<Rightarrow> string \<Rightarrow> bool" where
  "foreign w is a \<longleftrightarrow>
     (\<forall>i \<in> set is. case pw_offices w i of None \<Rightarrow> True | Some po \<Rightarrow> po_address po \<noteq> a \<and> map_of (po_offices po) a = None)"

definition push_froms :: "string list \<Rightarrow> message \<Rightarrow> message" where
  "push_froms as m = fold push_from as m"

lemma push_froms_from: "m_from (push_froms as m) = rev as @ m_from m" "m_to (push_froms as m) = m_to m"
  by (induction as arbitrary: m) (simp_all add: push_froms_def)

lemma push_froms_data: "m_data (push_froms as m) = m_data m"
  by (induction as arbitrary: m) (simp_all add: push_froms_def push_from_def)

lemma line_live: "line w is \<Longrightarrow> i \<in> set is \<Longrightarrow> \<exists>po. pw_offices w i = Some po"
  by (induction w "is" rule: line.induct) (auto split: option.splits)

lemma po_send_up:
  assumes "line w (i # is)" "foreign w (i # is) a" "m_to m = a # b # bs" "length is < n"
  shows "\<exists>ro. pw_offices w (last (i # is)) = Some ro \<and>
     po_send n {} i m w = send_outside (last (i # is)) ro (push_froms (map (office_addr w) (i # is)) m) w"
  using assms
proof (induction "is" arbitrary: i m n)
  case Nil
  obtain k where n: "n = Suc k" using Nil.prems(4) by (cases n) auto
  obtain po where po: "pw_offices w i = Some po" "po_parent po = None" using Nil.prems(1) by (auto split: option.splits)
  have a: "a \<noteq> po_address po" "map_of (po_offices po) a = None" using Nil.prems(2) po by (auto simp: foreign_def)
  have s: "strip_own po m = m" using a Nil.prems(3) by (simp add: strip_own_def)
  show ?case
    unfolding n using po a Nil.prems(3)
    by (subst po_send_step [OF po(1)]) (simp_all add: s push_froms_def office_addr_def)
next
  case (Cons j js)
  obtain k where n: "n = Suc k" "length js < k" using Cons.prems(4) by (cases n) auto
  obtain po where po: "pw_offices w i = Some po" "po_parent po = Some j" "line w (j # js)"
    using Cons.prems(1) by (auto split: option.splits)
  have a: "a \<noteq> po_address po" "map_of (po_offices po) a = None" using Cons.prems(2) po by (auto simp: foreign_def)
  have s: "strip_own po m = m" using a Cons.prems(3) by (simp add: strip_own_def)
  have "po_send n {} i m w = po_send k {} j (push_from (po_address po) m) w"
    unfolding n using po a Cons.prems(3) by (subst po_send_step [OF po(1)]) (simp_all add: s)
  moreover have "foreign w (j # js) a" using Cons.prems(2) by (simp add: foreign_def)
  ultimately show ?case
    using Cons.IH [of j "push_from (po_address po) m" k] po n Cons.prems(3) by (simp add: push_froms_def office_addr_def)
qed

lemma line_suffix: "line w (xs @ i # ys) \<Longrightarrow> line w (i # ys)"
proof (induction xs)
  case (Cons x xs)
  obtain z zs where z: "xs @ i # ys = z # zs" by (cases "xs @ i # ys") auto
  then have "line w (xs @ i # ys)" using Cons.prems by (auto split: option.splits)
  then show ?case by (rule Cons.IH)
qed simp

text \<open>The line read downwards, from the root \<open>r\<close> to the office that has the mailbox.\<close>

lemma po_send_down:
  assumes "line w (rev is @ r # up)" "distinct (rev is @ r # up)" "held \<subseteq> set up"
    "m_to m = map (office_addr w) is @ [box]" "length is < n"
    "pw_offices w (last (r # is)) = Some po" "map_of (po_boxes po) box = Some b" "pw_boxes w b = Some mb"
  shows "\<exists>mb' m'. push_inbox m' mb = Ok mb' \<and> m_to m' = [box] \<and> m_data m' = m_data m \<and>
     po_send n held r m w = Ok (True, set_box b mb' w)"
  using assms
proof (induction "is" arbitrary: r up held m n)
  case Nil
  obtain k where n: "n = Suc k" using Nil.prems(5) by (cases n) auto
  have l: "length (m_to m) = 1" using Nil.prems(4) by simp
  obtain mb' where "push_inbox m mb = Ok mb'" using push_inbox_Ok by blast
  then show ?case
    using Nil.prems po_send_short [OF _ l, of w r po] n by (auto simp: deliver_box_def)
next
  case (Cons c cs)
  obtain k where n: "n = Suc k" "length cs < k" using Cons.prems(5) by (cases n) auto
  have ln: "line w (rev cs @ c # r # up)" using Cons.prems(1) by simp
  have "line w (c # r # up)" by (rule line_suffix [OF ln])
  then obtain co ro where o: "pw_offices w c = Some co" "pw_offices w r = Some ro"
      "map_of (po_offices ro) (po_address co) = Some c" "po_address co \<noteq> po_address ro"
    by (auto split: option.splits)
  have to: "m_to m = po_address co # map (office_addr w) cs @ [box]" using Cons.prems(4) o(1) by (simp add: office_addr_def)
  have s: "strip_own ro m = m" using to o(4) by (simp add: strip_own_def)
  have r: "r \<notin> held" "insert r held \<subseteq> set (r # up)" using Cons.prems(2, 3) by auto
  define m1 where "m1 = push_from (po_address ro) (pop_to m)"
  have "\<exists>mb' m'. push_inbox m' mb = Ok mb' \<and> m_to m' = [box] \<and> m_data m' = m_data m1 \<and>
      po_send k (insert r held) c m1 w = Ok (True, set_box b mb' w)"
  proof (rule Cons.IH [OF ln _ r(2) _ n(2)])
    show "distinct (rev cs @ c # r # up)" using Cons.prems(2) by simp
    show "m_to m1 = map (office_addr w) cs @ [box]" by (simp add: m1_def to)
    show "pw_offices w (last (c # cs)) = Some po" using Cons.prems(6) by simp
  qed (use Cons.prems in auto)
  moreover have "m_data m1 = m_data m" by (simp add: m1_def push_from_def pop_to_def)
  ultimately obtain mb' m' where m': "push_inbox m' mb = Ok mb'" "m_to m' = [box]" "m_data m' = m_data m"
      "po_send k (insert r held) c m1 w = Ok (True, set_box b mb' w)" by auto
  have "po_send n held r m w = Ok (True, set_box b mb' w)"
    unfolding n(1) using o r(1) m'(4) by (subst po_send_step [OF o(2)]) (simp_all add: to s m1_def [symmetric])
  with m' show ?case by blast
qed

section \<open>Replies\<close>

definition office_shape :: "post_office \<Rightarrow> string \<times> (string \<times> nat) list \<times> (string \<times> nat) list \<times> nat option" where
  "office_shape po = (po_address po, po_boxes po, po_offices po, po_parent po)"

definition same_shape :: "post_world \<Rightarrow> post_world \<Rightarrow> bool" where
  "same_shape w w' \<longleftrightarrow> (\<forall>i. map_option office_shape (pw_offices w i) = map_option office_shape (pw_offices w' i))"

lemma same_shape_Some:
  "same_shape w w' \<Longrightarrow> pw_offices w i = Some po \<Longrightarrow> \<exists>po'. pw_offices w' i = Some po' \<and> office_shape po' = office_shape po"
  unfolding same_shape_def by (metis map_option_eq_Some)

lemma line_same_shape: "line w is \<Longrightarrow> same_shape w w' \<Longrightarrow> line w' is"
proof (induction w "is" rule: line.induct)
  case (2 w r)
  then obtain po where "pw_offices w r = Some po" "po_parent po = None" by (auto split: option.splits)
  with same_shape_Some [OF 2(2)] show ?case by (fastforce simp: office_shape_def)
next
  case (3 w i j "is")
  then obtain po up where o: "pw_offices w i = Some po" "pw_offices w j = Some up" "po_parent po = Some j"
    "map_of (po_offices up) (po_address po) = Some i" "po_address po \<noteq> po_address up" "line w (j # is)"
    by (auto split: option.splits)
  obtain po' where po': "pw_offices w' i = Some po'" "office_shape po' = office_shape po" using same_shape_Some [OF 3(3) o(1)] by auto
  obtain up' where up': "pw_offices w' j = Some up'" "office_shape up' = office_shape up" using same_shape_Some [OF 3(3) o(2)] by auto
  have "line w' (j # is)" using 3(1) [OF refl o(1, 2, 6) 3(3)] .
  with o po' up' show ?case by (simp add: office_shape_def)
qed simp

lemma office_addr_same_shape: "same_shape w w' \<Longrightarrow> office_addr w' i = office_addr w i"
proof -
  assume a: "same_shape w w'"
  have "map_option office_shape (pw_offices w i) = map_option office_shape (pw_offices w' i)" using a by (simp add: same_shape_def)
  then show ?thesis by (cases "pw_offices w i"; cases "pw_offices w' i") (simp_all add: office_addr_def office_shape_def)
qed

lemma same_shape_set_box [simp]: "same_shape w (set_box b mb w)"
  by (simp add: same_shape_def set_box_def)

lemma same_shape_set_office:
  "pw_offices w i = Some po \<Longrightarrow> office_shape po' = office_shape po \<Longrightarrow> same_shape w (set_office i po' w)"
  by (simp add: same_shape_def set_office_def)

lemma foreign_set_box [simp]: "foreign (set_box b mb w) is a = foreign w is a"
  by (simp add: foreign_def set_box_def)

lemma send_outside_master:
  assumes "pw_offices w i = Some po" "po_out po = Some q"
  shows "\<exists>w1 po1. send_outside i po m w = Ok (True, w1) \<and> same_shape w w1 \<and> pw_boxes w1 = pw_boxes w \<and>
     pw_offices w1 i = Some po1 \<and> po_out po1 = Some (q\<lparr>q_items := q_items q @ [m]\<rparr>)"
proof -
  obtain s where s: "send_outside i po m w = Ok (True, set_office i (po\<lparr>po_stats := s, po_out := Some (q\<lparr>q_items := q_items q @ [m]\<rparr>)\<rparr>) w)"
    using assms by (simp add: send_outside_def master_send_outside_def queue_simps Let_def del: bindO_Ok_iff)
  show ?thesis
    using s same_shape_set_office [OF assms(1), of "po\<lparr>po_stats := s, po_out := Some (q\<lparr>q_items := q_items q @ [m]\<rparr>)\<rparr>"]
    by (auto simp: office_shape_def set_office_def)
qed

lemma reply_routed:
  assumes "line w (i # is)" "distinct (i # is)" "length is < n" "pw_offices w i = Some po"
    "map_of (po_boxes po) box = Some b" "pw_boxes w b = Some mb"
    "m_to r = rev (map (office_addr w) (i # is)) @ [box]"
  shows "\<exists>mb' r'. inbox mb' = inbox mb @ [r'] \<and> m_data r' = m_data r \<and>
     po_send n {} (last (i # is)) (pop_to r) w = Ok (True, set_box b mb' w)"
proof -
  define ds where "ds = rev (butlast (i # is))"
  define t where "t = last (i # is)"
  have e: "i # is = rev ds @ [t]" by (simp add: ds_def t_def)
  have ld: "line w (rev ds @ [t])" "distinct (rev ds @ [t])" using assms(1, 2) unfolding e by auto
  have to: "m_to (pop_to r) = map (office_addr w) ds @ [box]"
  proof -
    have "rev (map (office_addr w) (i # is)) = office_addr w t # map (office_addr w) ds"
      using arg_cong [OF e, of "\<lambda>xs. rev (map (office_addr w) xs)"] by (simp add: rev_map)
    then show ?thesis using assms(7) by simp
  qed
  have "last (t # ds) = i" by (cases "is = []") (auto simp: ds_def t_def last_rev)
  then have lo: "pw_offices w (last (t # ds)) = Some po" using assms(4) by simp
  have "length ds < n" using assms(3) by (simp add: ds_def)
  then obtain mb' r' where "push_inbox r' mb = Ok mb'" "m_data r' = m_data (pop_to r)"
      "po_send n {} t (pop_to r) w = Ok (True, set_box b mb' w)"
    using po_send_down [OF ld _ to _ lo assms(5, 6), of "{}" n] by auto
  moreover have "inbox mb' = inbox mb @ [r']" using push_inbox_Ok [of r' mb] calculation(1) by auto
  ultimately show ?thesis by (auto simp: pop_to_def t_def)
qed

section \<open>Properties\<close>

text \<open>A sample: a master office 0 with one child office 1, which has one mailbox with a message in its outbox.\<close>

definition sample_letter :: message where
  "sample_letter = message_default\<lparr>m_meta := metadata_default\<lparr>mt_type := ''hi'', mt_to := [''udp://b:2'', ''chat'']\<rparr>, m_data := ''data''\<rparr>"

definition sample_box :: mailbox where
  "sample_box = (mailbox_new ''me'')\<lparr>mb_m := (umailbox_new ''me'')\<lparr>um_out := \<lparr>q_items = [sample_letter], q_done = False\<rparr>\<rparr>\<rparr>"

definition sample_world :: post_world where
  "sample_world =
     \<lparr>pw_boxes = [5 \<mapsto> sample_box],
      pw_offices = [0 \<mapsto> (post_office_new ''udp://a:1'')\<lparr>po_offices := [(''app'', 1)], po_out := Some queue_new\<rparr>,
                    1 \<mapsto> (post_office_new ''app'')\<lparr>po_boxes := [(''me'', 5)], po_parent := Some 0\<rparr>]\<rparr>"

lemma sample_world_wf: "post_wf sample_world (\<lambda>i. i) 1"
  by (simp add: post_wf_def sample_world_def post_office_new_def)

text \<open>
  C15. Sending a message through a tree of post offices ends, throws nothing, and delivers to one place or to none: when it returns true,
  exactly one inbox or one outside queue has gained exactly one message, and when it returns false nothing changed.  The only
  other result, for messages with more than two addresses, is that an office is asked to lock the mutex it
  already holds.
\<close>

theorem post_send_delivers_once:
  assumes "post_wf w d D" "pw_offices w i \<noteq> None" "send_fuel D (length (m_to m)) (d i) \<le> n"
  shows "(\<exists>sent w'. po_send n {} i m w = Ok (sent, w') \<and> (if sent then delivered_one w w' else w' = w)) \<or>
     (length (m_to m) > 2 \<and> po_send n {} i m w = Undef)"
  using po_send_ends [OF assms, of "{}"] po_send_no_relock [OF assms(1, 2), of m n] po_send_once [of w n "{}" i m]
  by (fastforce simp: ends_def sent_once_def)

theorem post_send_delivers_once_witness:
  "\<exists>sent w'. po_send 6 {} 1 sample_letter sample_world = Ok (sent, w') \<and>
     (if sent then delivered_one sample_world w' else w' = sample_world)"
  using post_send_delivers_once [OF sample_world_wf, of 1 sample_letter 6]
  by (simp add: sample_world_def send_fuel_def sample_letter_def message_default_def metadata_default_def)

text \<open>
  C2. Replies reach the sender.  A message that a mailbox puts in its outbox for a foreign address climbs from its office through all
  parents to the outside queue of the master, unchanged but for its \<^verbatim>\<open>from\<close>; and a reply addressed to that \<^verbatim>\<open>from\<close>, once the master
  has taken its own address off, descends through the same offices into the inbox of the same mailbox.
\<close>

theorem reply_reaches_sender:
  assumes "line w (i # is)" "distinct (i # is)" "length is < n" "foreign w (i # is) a"
    "pw_offices w i = Some po" "map_of (po_boxes po) (mailbox_address sp) = Some b"
    "pw_offices w (last (i # is)) = Some ro" "po_out ro = Some q"
    "pw_boxes w b = Some sp" "outbox sp = m # ms" "m_from m = []" "m_to m = a # x # xs"
  shows "\<exists>w1 ro1 m1 sp1. send_box n i b w = Ok (True, w1) \<and>
     pw_offices w1 (last (i # is)) = Some ro1 \<and> po_out ro1 = Some (q\<lparr>q_items := q_items q @ [m1]\<rparr>) \<and>
     m_to m1 = m_to m \<and> m_data m1 = m_data m \<and> pw_boxes w1 b = Some sp1 \<and>
     (\<forall>r. m_to r = m_from m1 \<longrightarrow>
        (\<exists>sp2 r'. po_send n {} (last (i # is)) (pop_to r) w1 = Ok (True, set_box b sp2 w1) \<and>
           inbox sp2 = inbox sp1 @ [r'] \<and> m_data r' = m_data r))"
proof -
  obtain sp' where sp': "pop_outbox False sp = (Got m, sp')" "mailbox_address sp' = mailbox_address sp"
    using pop_outbox_nowait [of sp] assms(10)
    by (cases "pop_outbox False sp") (fastforce split: popped.splits)
  define w0 where "w0 = set_box b sp' w"
  define m0 where "m0 = push_from (mailbox_address sp) m"
  define m1 where "m1 = push_froms (map (office_addr w) (i # is)) m0"
  have sh: "same_shape w w0" by (simp add: w0_def)
  have addr: "office_addr w0 = office_addr w" using office_addr_same_shape [OF sh] by (simp add: fun_eq_iff)
  have "line w0 (i # is)" "foreign w0 (i # is) a" "m_to m0 = a # x # xs"
    using line_same_shape [OF assms(1) sh] assms(4, 12) by (simp_all add: w0_def m0_def)
  then obtain ro' where ro': "pw_offices w0 (last (i # is)) = Some ro'"
      "po_send n {} i m0 w0 = send_outside (last (i # is)) ro' (push_froms (map (office_addr w0) (i # is)) m0) w0"
    using po_send_up assms(3) by blast
  have [simp]: "ro' = ro" using ro'(1) assms(7) by (simp add: w0_def set_box_def)
  have up: "po_send n {} i m0 w0 = send_outside (last (i # is)) ro m1 w0"
    using ro'(2) addr by (simp add: m1_def)
  obtain w1 ro1 where w1: "send_outside (last (i # is)) ro m1 w0 = Ok (True, w1)" "same_shape w0 w1" "pw_boxes w1 = pw_boxes w0"
      "pw_offices w1 (last (i # is)) = Some ro1" "po_out ro1 = Some (q\<lparr>q_items := q_items q @ [m1]\<rparr>)"
    using send_outside_master [OF ro'(1), of q m1] assms(8) by auto
  have sh1: "same_shape w w1" using sh w1(2) by (simp add: same_shape_def)
  have addr1: "office_addr w1 = office_addr w" using office_addr_same_shape [OF sh1] by (simp add: fun_eq_iff)
  have send: "send_box n i b w = Ok (True, w1)"
    using sp' assms(9, 11) up w1(1)
    by (simp add: send_box_def w0_def [symmetric] m0_def [symmetric] Let_def)
  have froms: "m_from m1 = rev (map (office_addr w1) (i # is)) @ [mailbox_address sp]" "m_to m1 = m_to m" "m_data m1 = m_data m"
    using addr1 assms(11) by (simp_all add: m1_def m0_def push_froms_from push_froms_data push_from_def)
  obtain po1 where po1: "pw_offices w1 i = Some po1" "po_boxes po1 = po_boxes po"
    using same_shape_Some [OF sh1 assms(5)] by (auto simp: office_shape_def)
  have b1: "pw_boxes w1 b = Some sp'" using w1(3) by (simp add: w0_def set_box_def)
  have reply: "\<exists>sp2 r'. po_send n {} (last (i # is)) (pop_to r) w1 = Ok (True, set_box b sp2 w1) \<and>
       inbox sp2 = inbox sp' @ [r'] \<and> m_data r' = m_data r" if "m_to r = m_from m1" for r
  proof -
    have "map_of (po_boxes po1) (mailbox_address sp) = Some b" using assms(6) po1(2) by simp
    from reply_routed [OF line_same_shape [OF assms(1) sh1] assms(2, 3) po1(1) this b1 that [unfolded froms(1)]]
    show ?thesis by blast
  qed
  show ?thesis
    using send w1(4, 5) froms(2, 3) b1 reply by blast
qed

theorem reply_reaches_sender_witness:
  "\<exists>w1 ro1 m1 sp1. send_box 2 1 5 sample_world = Ok (True, w1) \<and>
     pw_offices w1 0 = Some ro1 \<and> po_out ro1 = Some (queue_new\<lparr>q_items := [m1]\<rparr>) \<and>
     m_to m1 = [''udp://b:2'', ''chat''] \<and> m_data m1 = ''data'' \<and> pw_boxes w1 5 = Some sp1 \<and>
     (\<forall>r. m_to r = m_from m1 \<longrightarrow>
        (\<exists>sp2 r'. po_send 2 {} 0 (pop_to r) w1 = Ok (True, set_box 5 sp2 w1) \<and>
           inbox sp2 = inbox sp1 @ [r'] \<and> m_data r' = m_data r))"
  using reply_reaches_sender [of sample_world 1 "[0]" 2 "''udp://b:2''"
      "(post_office_new ''app'')\<lparr>po_boxes := [(''me'', 5)], po_parent := Some 0\<rparr>" sample_box 5
      "(post_office_new ''udp://a:1'')\<lparr>po_offices := [(''app'', 1)], po_out := Some queue_new\<rparr>" queue_new sample_letter "[]"
      "''chat''" "[]"]
  by (simp add: sample_world_def post_office_new_def foreign_def sample_box_def sample_letter_def mailbox_new_def umailbox_new_def
      message_default_def metadata_default_def mailbox_address_def queue_new_def)

section \<open>Registering mailboxes and offices\<close>

lemma fold_alist_del: "fold alist_del ks ps = filter (\<lambda>p. fst p \<notin> set ks) ps"
  by (induction ks arbitrary: ps) (auto simp: alist_del_def intro: filter_cong)

text \<open>After an addition the office finds the new mailbox, and every mailbox it lists is alive.\<close>

lemma po_add_box_live:
  assumes "distinct (keys (po_boxes po))" "po_add_box b po w = Ok (True, po')"
  shows "po_has_box b po' w \<and> (\<forall>p \<in> set (po_boxes po'). pw_boxes w (snd p) \<noteq> None)"
proof -
  obtain mb where mb: "pw_boxes w b = Some mb" and po': "po' = (clean_mailboxes po w)\<lparr>po_boxes := alist_put (mailbox_address mb) b (po_boxes (clean_mailboxes po w))\<rparr>"
    using assms(2) by (auto simp: po_add_box_def Let_def split: option.splits)
  have live: "pw_boxes w (snd p) \<noteq> None" if "p \<in> set (po_boxes (clean_mailboxes po w))" for p
  proof -
    have "p \<in> set (po_boxes po)" "fst p \<notin> fst ` {q \<in> set (po_boxes po). pw_boxes w (snd q) = None}"
      using that by (auto simp: clean_mailboxes_def fold_alist_del)
    then show ?thesis by force
  qed
  have put: "p = (k, v) \<or> p \<in> set ps" if "p \<in> set (alist_put k v ps)" for p and k :: string and v :: nat and ps
    using that by (induction ps) (auto split: if_splits)
  show ?thesis
    using mb live put [of _ "mailbox_address mb" b] by (fastforce simp: po_has_box_def po')
qed

text \<open>Adding an office that no other office has for a parent keeps the parent pointers acyclic.\<close>

lemma po_add_office_wf:
  assumes wf: "post_wf w d D" and add: "po_add_office c i w = Ok (True, w')"
    and leaf: "\<forall>k po. pw_offices w k = Some po \<longrightarrow> po_parent po \<noteq> Some c"
  shows "post_wf w' (d(c := Suc (d i))) (Suc D)"
proof -
  obtain po co where o: "pw_offices w i = Some po" "pw_offices w c = Some co" "c \<noteq> i"
      "pw_offices w' = (pw_offices w)(c \<mapsto> co\<lparr>po_parent := Some i\<rparr>, i \<mapsto> po\<lparr>po_offices := alist_put (po_address co) c (po_offices po)\<rparr>)"
    using add by (auto simp: po_add_office_def set_parent_def set_office_def split: option.splits)
  have dep: "d k \<le> Suc D" if "pw_offices w k = Some p" for k p using post_wf_depth [OF wf, of k] that by simp
  have "d i \<le> D" using post_wf_depth [OF wf] o(1) by simp
  moreover have par: "pw_offices w p \<noteq> None \<and> d p < d k \<and> p \<noteq> c" if "pw_offices w k = Some q" "po_parent q = Some p" for k q p
    using post_wf_parent [OF wf that] leaf that by blast
  ultimately show ?thesis
    using o(1, 2, 3) dep unfolding post_wf_def o(4) by (auto split: option.splits if_splits dest: par)
qed

end
