(* ===== verification/Tcp_Queue.thy ===== *)
theory Tcp_Queue
  imports Mencode Address
begin

text \<open>
  The TCP connection and queue of \<^verbatim>\<open>src/src/network/tcp_queue.cpp\<close>: framing, the chain of asynchronous writes, keep-alive
  messages, and the life cycle of a connection.  Sockets and the \<^verbatim>\<open>io_service\<close> are the environment: whether a socket is
  open is part of the state, the outcome of an operation is an argument of its handler, and a
  pending asynchronous read is recorded in \<open>t_reading\<close>.
\<close>

section \<open>State\<close>

datatype con_state = connecting | connected | disconnected
datatype tcp_task = TDoClose | TDoSend
datatype tcp_read = NoRead | AwaitHeader | AwaitBody nat

definition RETRIES :: nat where "RETRIES = 0"
definition KEEP_ALIVE_THRESH :: nat where "KEEP_ALIVE_THRESH = 30"
definition KEEP_ALIVE_MSG :: bytes where "KEEP_ALIVE_MSG = ''%k''"
definition KEEP_ALIVE_ACK_MSG :: bytes where "KEEP_ALIVE_ACK_MSG = ''%a''"

text \<open>The queue of received messages and the queue of their connections are shared by the connections of a \<^verbatim>\<open>tcp_queue\<close>.\<close>

record tcp_shared =
  ts_in_queue :: "bytes queue"
  ts_last_in :: "nat queue"

record tcp_connection =
  t_id :: nat
  t_state :: con_state
  t_out_queue :: "bytes queue"
  t_track :: bool
  t_out_buffer :: bytes
  t_ep :: endpoint
  t_in_buffer :: bytes
  t_open :: bool
  t_error :: bool
  t_writing :: bool
  t_retries :: nat
  t_alive :: bool
  t_reading :: tcp_read
  t_io :: "tcp_task list"
  t_wire :: "bytes list"

definition tcp_connection_new :: "nat \<Rightarrow> bool \<Rightarrow> bool \<Rightarrow> tcp_connection" where
  "tcp_connection_new i track con = \<lparr>t_id = i, t_state = (if con then connected else disconnected), t_out_queue = queue_new,
     t_track = track, t_out_buffer = [], t_ep = \<lparr>ep_protocol = [], ep_address = [], ep_port = 0\<rparr>, t_in_buffer = [],
     t_open = con, t_error = False, t_writing = False, t_retries = RETRIES, t_alive = False, t_reading = NoRead,
     t_io = [], t_wire = []\<rparr>"

section \<open>Life cycle\<close>

definition tcp_close :: "tcp_connection \<Rightarrow> tcp_connection" where
  "tcp_close c = c\<lparr>t_state := disconnected, t_writing := False, t_io := t_io c @ [TDoClose]\<rparr>"

definition tcp_do_close :: "tcp_connection \<Rightarrow> tcp_connection" where
  "tcp_do_close c = c\<lparr>t_state := disconnected, t_writing := False, t_open := False\<rparr>"

definition tcp_is_connected :: "tcp_connection \<Rightarrow> bool" where
  "tcp_is_connected c \<longleftrightarrow> t_state c = connected"

definition tcp_is_disconnected :: "tcp_connection \<Rightarrow> bool" where
  "tcp_is_disconnected c \<longleftrightarrow> t_state c = disconnected"

definition tcp_is_connecting :: "tcp_connection \<Rightarrow> bool" where
  "tcp_is_connecting c \<longleftrightarrow> t_state c = connecting"

definition tcp_bind :: "bool \<Rightarrow> tcp_connection \<Rightarrow> tcp_connection outcome" where
  "tcp_bind err c =
     contract (t_state c = disconnected)
       (let c1 = c\<lparr>t_open := True\<rparr> in Ok (if err then c1\<lparr>t_error := True, t_state := disconnected\<rparr> else c1))"

text \<open>\<^verbatim>\<open>async_connect\<close> opens the socket when it is not open.\<close>

definition tcp_connect :: "tcp_connection \<Rightarrow> tcp_connection" where
  "tcp_connect c = (if t_state c \<noteq> disconnected then c else c\<lparr>t_state := connecting, t_open := True\<rparr>)"

definition tcp_start_read :: "tcp_connection \<Rightarrow> tcp_connection" where
  "tcp_start_read c = (if \<not> t_open c then tcp_close c else c\<lparr>t_reading := AwaitHeader\<rparr>)"

section \<open>Sending\<close>

definition encode_tcp_wire :: "cxx_lib \<Rightarrow> bytes \<Rightarrow> bytes" where
  "encode_tcp_wire L data = CHR ''!'' # encode_b L data"

text \<open>A caller that asked to block then polls until the queue is empty.\<close>

definition tcp_send :: "bytes \<Rightarrow> tcp_connection \<Rightarrow> (bool \<times> tcp_connection) outcome" where
  "tcp_send b c =
     bindO (queue_push b (t_out_queue c)) (\<lambda>q.
       let c1 = c\<lparr>t_out_queue := q\<rparr>;
           c2 = (if tcp_is_connected c1 then c1\<lparr>t_io := t_io c1 @ [TDoSend]\<rparr> else c1)
       in Ok (tcp_is_connected c2, c2))"

definition send_keep_alive :: "tcp_connection \<Rightarrow> tcp_connection outcome" where
  "send_keep_alive c = bindO (tcp_send KEEP_ALIVE_MSG c) (\<lambda>(_, c1). Ok c1)"

definition send_keep_alive_ack :: "tcp_connection \<Rightarrow> tcp_connection outcome" where
  "send_keep_alive_ack c = bindO (tcp_send KEEP_ALIVE_ACK_MSG c) (\<lambda>(_, c1). Ok c1)"

definition is_alive :: "tcp_connection \<Rightarrow> bool" where
  "is_alive c = t_alive c"

definition reset_alive :: "tcp_connection \<Rightarrow> tcp_connection" where
  "reset_alive c = c\<lparr>t_alive := False\<rparr>"

definition tcp_do_send :: "cxx_lib \<Rightarrow> bool \<Rightarrow> tcp_connection \<Rightarrow> tcp_connection outcome" where
  "tcp_do_send L force c =
     (if t_state c = disconnected then Ok c
      else if queue_empty (t_out_queue c) then Ok c
      else if \<not> force \<and> t_writing c then Ok c
      else bindO (queue_front (t_out_queue c)) (\<lambda>m.
        let b = encode_tcp_wire L m
        in Ok (c\<lparr>t_writing := True, t_out_buffer := b, t_wire := t_wire c @ [b]\<rparr>)))"

definition tcp_handle_write :: "cxx_lib \<Rightarrow> bool \<Rightarrow> tcp_connection \<Rightarrow> tcp_connection outcome" where
  "tcp_handle_write L err c =
     (if t_state c = disconnected then contract (\<not> t_writing c) (Ok c)
      else if err then Ok (tcp_close (c\<lparr>t_error := True\<rparr>))
      else if \<not> t_open c then Ok (tcp_close c)
      else contract (\<not> queue_empty (t_out_queue c))
        (bindO (queue_pop_front False (t_out_queue c)) (\<lambda>(_, q).
         let c1 = c\<lparr>t_out_queue := q\<rparr> in
         if queue_empty q then Ok (c1\<lparr>t_writing := False\<rparr>)
         else bindO (tcp_do_send L True c1) (\<lambda>c2. contract (t_writing c2) (Ok c2)))))"

definition tcp_handle_connect :: "cxx_lib \<Rightarrow> bool \<Rightarrow> tcp_connection \<Rightarrow> tcp_connection outcome" where
  "tcp_handle_connect L err c =
     (if t_state c \<noteq> connecting then Ok c
      else if \<not> t_open c then Ok (tcp_close c)
      else if \<not> err then
        (let c1 = tcp_start_read (c\<lparr>t_state := connected\<rparr>)
         in if \<not> queue_empty (t_out_queue c1) then tcp_do_send L False c1 else Ok c1)
      else if t_retries c > 0 then Ok (tcp_connect (c\<lparr>t_retries := t_retries c - 1, t_state := disconnected\<rparr>))
      else Ok (tcp_close (c\<lparr>t_error := True\<rparr>)))"

section \<open>Receiving\<close>

text \<open>
  The two scanning loops of \<^verbatim>\<open>handle_header\<close>: skip to the mark, then take the size up to the colon.  \<open>None\<close> is the
  end of the buffer in either loop, with everything consumed.
\<close>

definition scan_header :: "bytes \<Rightarrow> (string \<times> bytes) option" where
  "scan_header buf =
     (case dropWhile (\<lambda>x. x \<noteq> CHR ''!'') buf of
        [] \<Rightarrow> None
      | _ # r \<Rightarrow>
         (case dropWhile (\<lambda>x. x \<noteq> CHR '':'') r of
            [] \<Rightarrow> None
          | _ # body \<Rightarrow> Some (takeWhile (\<lambda>x. x \<noteq> CHR '':'') r, body)))"

definition garbage_count :: "bytes \<Rightarrow> nat" where
  "garbage_count buf = Suc (length (takeWhile (\<lambda>x. x \<noteq> CHR ''!'') buf))"

definition tcp_handle_body :: "bool \<Rightarrow> nat \<Rightarrow> tcp_connection \<times> tcp_shared \<Rightarrow> (tcp_connection \<times> tcp_shared) outcome" where
  "tcp_handle_body err sz = (\<lambda>(c, sh).
     contract (sz > 0)
     (if t_state c = disconnected then Ok (c, sh)
      else if err then Ok (tcp_close (c\<lparr>t_error := True\<rparr>), sh)
      else if \<not> t_open c then Ok (tcp_close c, sh)
      else if length (t_in_buffer c) < sz then Ok (c\<lparr>t_reading := AwaitBody sz\<rparr>, sh)
      else
       (let data = take sz (t_in_buffer c); c1 = c\<lparr>t_in_buffer := drop sz (t_in_buffer c)\<rparr> in
        bindO (if data = KEEP_ALIVE_MSG then bindO (send_keep_alive_ack c1) (\<lambda>c2. Ok (c2, sh))
               else if data = KEEP_ALIVE_ACK_MSG then Ok (c1\<lparr>t_alive := True\<rparr>, sh)
               else bindO (queue_emplace_push data (ts_in_queue sh)) (\<lambda>q.
                 let sh1 = sh\<lparr>ts_in_queue := q\<rparr> in
                 if t_track c1 then bindO (queue_push (t_id c1) (ts_last_in sh1)) (\<lambda>l. Ok (c1, sh1\<lparr>ts_last_in := l\<rparr>))
                 else Ok (c1, sh1)))
          (\<lambda>(c2, sh2). Ok (tcp_start_read c2, sh2)))))"

definition tcp_handle_header :: "cxx_lib \<Rightarrow> bool \<Rightarrow> tcp_connection \<times> tcp_shared \<Rightarrow> (tcp_connection \<times> tcp_shared) outcome" where
  "tcp_handle_header L err = (\<lambda>(c, sh).
     if t_state c = disconnected then Ok (c, sh)
     else if err then Ok (tcp_close (c\<lparr>t_error := True\<rparr>), sh)
     else if \<not> t_open c then Ok (tcp_close c, sh)
     else
      (case scan_header (t_in_buffer c) of
         None \<Rightarrow> Ok (tcp_start_read (c\<lparr>t_in_buffer := []\<rparr>), sh)
       | Some (size_buf, body) \<Rightarrow>
           contract (length body = length (t_in_buffer c) - Suc (length size_buf) - garbage_count (t_in_buffer c))
            (let c1 = c\<lparr>t_in_buffer := body\<rparr>;
                 sz = (case read_size L size_buf of Some n \<Rightarrow> unat n | None \<Rightarrow> 0) in
             if sz = 0 then Ok (tcp_start_read c1, sh)
             else if length body \<ge> sz then tcp_handle_body False sz (c1, sh)
             else Ok (c1\<lparr>t_reading := AwaitBody sz\<rparr>, sh))))"

text \<open>\<^verbatim>\<open>update_endpoint\<close>, with the address given or taken from the socket.\<close>

definition update_endpoint :: "string \<Rightarrow> u16 \<Rightarrow> tcp_connection \<Rightarrow> tcp_connection outcome" where
  "update_endpoint address port c =
     contract (address \<noteq> []) (contract (port > 0)
       (let c1 = c\<lparr>t_ep := \<lparr>ep_protocol = TCP, ep_address = address, ep_port = port\<rparr>\<rparr> in
        contract (ep_address (t_ep c1) \<noteq> []) (contract (ep_port (t_ep c1) > 0) (Ok c1))))"

section \<open>Completion of asynchronous operations\<close>

text \<open>
  Bytes arrive in segments of any size; \<^verbatim>\<open>async_read_until\<close> completes when the buffer holds a colon,
  \<^verbatim>\<open>async_read\<close> when it holds the missing bytes.
\<close>

definition tcp_arrive :: "bytes \<Rightarrow> tcp_connection \<Rightarrow> tcp_connection" where
  "tcp_arrive x c = c\<lparr>t_in_buffer := t_in_buffer c @ x\<rparr>"

definition tcp_ready :: "tcp_connection \<Rightarrow> bool" where
  "tcp_ready c =
     (case t_reading c of
        NoRead \<Rightarrow> False
      | AwaitHeader \<Rightarrow> CHR '':'' \<in> set (t_in_buffer c)
      | AwaitBody n \<Rightarrow> length (t_in_buffer c) \<ge> n)"

definition tcp_fire :: "cxx_lib \<Rightarrow> tcp_connection \<times> tcp_shared \<Rightarrow> (tcp_connection \<times> tcp_shared) outcome" where
  "tcp_fire L = (\<lambda>(c, sh).
     case t_reading c of
       NoRead \<Rightarrow> Ok (c, sh)
     | AwaitHeader \<Rightarrow> tcp_handle_header L False (c\<lparr>t_reading := NoRead\<rparr>, sh)
     | AwaitBody n \<Rightarrow> tcp_handle_body False n (c\<lparr>t_reading := NoRead\<rparr>, sh))"

section \<open>Framing\<close>

text \<open>A size fits \<^verbatim>\<open>size_t\<close>.  What the reader hands on: an empty message ends at its header, and two messages it takes for its own.\<close>

definition frameable :: "bytes \<Rightarrow> bool" where
  "frameable m \<longleftrightarrow> length m < 2 ^ 64"

definition handed_on :: "bytes \<Rightarrow> bool" where
  "handed_on m \<longleftrightarrow> m \<noteq> [] \<and> m \<noteq> KEEP_ALIVE_MSG \<and> m \<noteq> KEEP_ALIVE_ACK_MSG"

inductive tcp_run :: "cxx_lib \<Rightarrow> tcp_connection \<times> tcp_shared \<Rightarrow> bytes \<Rightarrow> tcp_connection \<times> tcp_shared \<Rightarrow> bool" for L s where
  idle: "tcp_run L s [] s"
| arrive: "tcp_run L s xs (c, sh) \<Longrightarrow> tcp_run L s (xs @ x) (tcp_arrive x c, sh)"
| fire: "tcp_run L s xs (c, sh) \<Longrightarrow> tcp_ready c \<Longrightarrow> tcp_fire L (c, sh) = Ok r \<Longrightarrow> tcp_run L s xs r"

text \<open>
  Where the reader stands in a stream of framed messages: \<open>got\<close> is delivered, \<open>rest\<close> is to come, and the buffer followed
  by the bytes still to arrive is the rest of the stream.
\<close>

definition stream_pos :: "cxx_lib \<Rightarrow> bytes list \<Rightarrow> bytes list \<Rightarrow> bytes \<Rightarrow> tcp_connection \<times> tcp_shared \<Rightarrow> bool" where
  "stream_pos L old rest fut = (\<lambda>(c, sh). t_state c \<noteq> disconnected \<and> t_open c \<and> q_items (ts_in_queue sh) = old \<and>
     (t_reading c = AwaitHeader \<and> t_in_buffer c @ fut = concat (map (encode_tcp_wire L) rest) \<or>
      (\<exists>m rest'. rest = m # rest' \<and> m \<noteq> [] \<and> t_reading c = AwaitBody (length m) \<and>
         t_in_buffer c @ fut = m @ concat (map (encode_tcp_wire L) rest'))))"

lemma split_at_sep:
  assumes "buf @ fut = pre @ d # t" "d \<notin> set pre" "d \<in> set buf"
  shows "\<exists>b. buf = pre @ d # b \<and> b @ fut = t"
proof -
  from assms(1) consider us where "buf = pre @ us" "us @ fut = d # t" | us where "pre = buf @ us"
    by (auto simp: append_eq_append_conv2)
  then show ?thesis
  proof cases
    case 1
    then show ?thesis using assms(2,3) by (cases us) auto
  next
    case 2
    then show ?thesis using assms(2,3) by auto
  qed
qed

context lexical_cast
begin

lemma size_text: "n < 2 ^ 64 \<Longrightarrow> read_size L (show_size L (of_nat n)) = Some (of_nat n)"
  by (rule read_show_size)

lemma fire_body:
  assumes "stream_pos L old (m # rest) fut (c, sh)" "m \<noteq> []"
    "t_in_buffer c @ fut = m @ concat (map (encode_tcp_wire L) rest)" "length (t_in_buffer c) \<ge> length m"
    "c' = c\<lparr>t_reading := r\<rparr>"
  shows "\<exists>st. tcp_handle_body False (length m) (c', sh) = Ok st \<and> stream_pos L (old @ filter handed_on [m]) rest fut st"
proof -
  have tk: "take (length m) (t_in_buffer c) = m" "drop (length m) (t_in_buffer c) @ fut = concat (map (encode_tcp_wire L) rest)"
    using assms(3,4) by (metis append_eq_conv_conj take_append diff_is_0_eq take_0 append_Nil2,
        metis append_eq_conv_conj drop_append diff_is_0_eq drop_0)
  have st: "t_state c \<noteq> disconnected" "t_open c" "q_items (ts_in_queue sh) = old"
    using assms(1) by (simp_all add: stream_pos_def)
  show ?thesis
    using st assms(2) tk assms(4,5)
    by (cases "m = KEEP_ALIVE_MSG"; cases "m = KEEP_ALIVE_ACK_MSG")
      (auto simp: tcp_handle_body_def queue_emplace_push_Ok queue_push_Ok stream_pos_def tcp_start_read_def Let_def handed_on_def
        send_keep_alive_ack_def tcp_send_def tcp_is_connected_def simp del: bindO_Ok_iff)
qed

lemma fire_step:
  assumes p: "stream_pos L old rest fut (c, sh)" and f: "\<forall>x \<in> set rest. frameable x" and r: "tcp_ready c"
  shows "\<exists>st old' rest'. tcp_fire L (c, sh) = Ok st \<and> stream_pos L old' rest' fut st \<and> old' @ filter handed_on rest' = old @ filter handed_on rest \<and>
    set rest' \<subseteq> set rest"
proof (cases "t_reading c = AwaitHeader")
  case True
  then have e: "t_in_buffer c @ fut = concat (map (encode_tcp_wire L) rest)" and colon: "CHR '':'' \<in> set (t_in_buffer c)"
    and st: "t_state c \<noteq> disconnected" "t_open c" "q_items (ts_in_queue sh) = old"
    using p r by (auto simp: stream_pos_def tcp_ready_def)
  have "rest \<noteq> []" using e colon by auto
  then obtain m rest' where rest: "rest = m # rest'" by (cases rest) auto
  have m: "length m < 2 ^ 64" using f rest by (auto simp: frameable_def)
  define ds where "ds = show_size L (of_nat (length m))"
  have ds: "CHR '':'' \<notin> set ds" using show_size_digits not_is_digit_punct unfolding ds_def by blast
  have "t_in_buffer c @ fut = (CHR ''!'' # ds) @ CHR '':'' # m @ concat (map (encode_tcp_wire L) rest')"
    using e by (simp add: rest encode_tcp_wire_def encode_b_def ds_def)
  then obtain b where b: "t_in_buffer c = (CHR ''!'' # ds) @ CHR '':'' # b" "b @ fut = m @ concat (map (encode_tcp_wire L) rest')"
    using split_at_sep [of "t_in_buffer c" fut "CHR ''!'' # ds"] ds colon by auto
  have scan: "scan_header (t_in_buffer c) = Some (ds, b)"
    using ds by (simp add: scan_header_def b dropWhile_append2 dropWhile_append takeWhile_tail split: list.splits)
  have sz: "(case read_size L ds of Some n \<Rightarrow> unat n | None \<Rightarrow> 0) = length m"
    using size_text [OF m] m by (simp add: ds_def unat_of_nat take_bit_nat_eq_self)
  have len: "length b = length (t_in_buffer c) - Suc (length ds) - garbage_count (t_in_buffer c)"
    by (simp add: garbage_count_def b)
  define c1 where "c1 = c\<lparr>t_reading := NoRead, t_in_buffer := b\<rparr>"
  have run: "tcp_fire L (c, sh) = (if m = [] then Ok (tcp_start_read c1, sh) else if length b \<ge> length m then tcp_handle_body False (length m) (c1, sh)
      else Ok (c1\<lparr>t_reading := AwaitBody (length m)\<rparr>, sh))"
    using True st m scan sz len by (simp add: tcp_fire_def tcp_handle_header_def c1_def Let_def)
  have p1: "stream_pos L old (m # rest') fut (c1\<lparr>t_reading := AwaitBody (length m)\<rparr>, sh)" if "m \<noteq> []"
    using st b(2) that by (simp add: stream_pos_def c1_def)
  show ?thesis
  proof (cases "m = []")
    case True
    have "stream_pos L old rest' fut (tcp_start_read c1, sh)" using st b(2) True by (simp add: stream_pos_def tcp_start_read_def c1_def)
    then show ?thesis using run True rest by (intro exI [of _ "(tcp_start_read c1, sh)"] exI [of _ old] exI [of _ rest']) (auto simp: handed_on_def)
  next
    case ne: False
    show ?thesis
  proof (cases "length b \<ge> length m")
    case True
    obtain s1 where "tcp_handle_body False (length m) (c1, sh) = Ok s1 \<and> stream_pos L (old @ filter handed_on [m]) rest' fut s1"
      using fire_body [OF p1 [OF ne] ne, where r = NoRead and c' = c1] True b(2) by (auto simp: c1_def)
    then show ?thesis using run True rest ne
      by (intro exI [of _ s1] exI [of _ "old @ filter handed_on [m]"] exI [of _ rest']) auto
  next
    case False
    then show ?thesis using run p1 [OF ne] rest ne
      by (intro exI [of _ "(c1\<lparr>t_reading := AwaitBody (length m)\<rparr>, sh)"] exI [of _ old] exI [of _ rest]) simp
  qed
  qed
next
  case False
  then obtain m rest' where rest: "rest = m # rest'" "m \<noteq> []" "t_reading c = AwaitBody (length m)"
      "t_in_buffer c @ fut = m @ concat (map (encode_tcp_wire L) rest')" using p by (auto simp: stream_pos_def)
  obtain s1 where "tcp_handle_body False (length m) (c\<lparr>t_reading := NoRead\<rparr>, sh) = Ok s1 \<and> stream_pos L (old @ filter handed_on [m]) rest' fut s1"
    using fire_body [where c = c and sh = sh and old = old and fut = fut and r = NoRead and m = m and rest = rest' and c' = "c\<lparr>t_reading := NoRead\<rparr>"] p f rest r
    by (auto simp: tcp_ready_def)
  then show ?thesis using rest
    by (intro exI [of _ s1] exI [of _ "old @ filter handed_on [m]"] exI [of _ rest']) (auto simp: tcp_fire_def)
qed

lemma run_pos:
  assumes "tcp_run L s xs s2" "stream_pos L old msgs (xs @ fut) s" "\<forall>x \<in> set msgs. frameable x"
  shows "\<exists>old' rest. stream_pos L old' rest fut s2 \<and> old' @ filter handed_on rest = old @ filter handed_on msgs \<and> set rest \<subseteq> set msgs"
  using assms
proof (induction arbitrary: fut rule: tcp_run.induct)
  case idle
  then show ?case by auto
next
  case (arrive xs c sh x)
  from arrive.IH [of "x @ fut"] arrive.prems obtain old' rest where
    "stream_pos L old' rest (x @ fut) (c, sh)" "old' @ filter handed_on rest = old @ filter handed_on msgs" "set rest \<subseteq> set msgs" by auto
  then show ?case by (intro exI [of _ old'] exI [of _ rest]) (simp add: stream_pos_def tcp_arrive_def)
next
  case (fire xs c sh r)
  from fire.IH [of fut] fire.prems obtain old1 rest1 where
    p: "stream_pos L old1 rest1 fut (c, sh)" "old1 @ filter handed_on rest1 = old @ filter handed_on msgs" "set rest1 \<subseteq> set msgs" by auto
  have "\<forall>x \<in> set rest1. frameable x" using p(3) fire.prems(2) by blast
  from fire_step [OF p(1) this fire.hyps(2)] fire.hyps(3) obtain old2 rest2 where
    "stream_pos L old2 rest2 fut r" "old2 @ filter handed_on rest2 = old1 @ filter handed_on rest1" "set rest2 \<subseteq> set rest1" by auto
  then show ?case using p by (intro exI [of _ old2] exI [of _ rest2]) auto
qed

end

text \<open>
  C12. TCP framing: a stream of framed messages, each shorter than \<open>2 ^ 64\<close> bytes, cut into segments anywhere, is put back together: whatever the order of arrivals and
  completed reads, the reader never fails, and when nothing more is ready the queue has received, in order, exactly those messages that are not empty and do not look like the
  reader's own keep-alives \<^verbatim>\<open>%k\<close> and \<^verbatim>\<open>%a\<close>, which it swallows, and the buffer is empty.
\<close>

theorem tcp_framing:
  assumes "lexical_cast L" "\<forall>m \<in> set msgs. frameable m"
    and "t_state c \<noteq> disconnected" "t_open c" "t_reading c = AwaitHeader" "t_in_buffer c = []"
    and "tcp_run L (c, sh) (concat (map (encode_tcp_wire L) msgs)) (c', sh')"
  shows "(tcp_ready c' \<longrightarrow> (\<exists>r. tcp_fire L (c', sh') = Ok r)) \<and>
    (\<not> tcp_ready c' \<longrightarrow> q_items (ts_in_queue sh') = q_items (ts_in_queue sh) @ filter handed_on msgs \<and> t_in_buffer c' = [])"
proof -
  have start: "stream_pos L (q_items (ts_in_queue sh)) msgs (concat (map (encode_tcp_wire L) msgs) @ []) (c, sh)"
    using assms(3-6) by (simp add: stream_pos_def)
  obtain old rest where p: "stream_pos L old rest [] (c', sh')" "old @ filter handed_on rest = q_items (ts_in_queue sh) @ filter handed_on msgs" "set rest \<subseteq> set msgs"
    using lexical_cast.run_pos [OF assms(1,7) start assms(2)] by blast
  have f: "\<forall>m \<in> set rest. frameable m" using p(3) assms(2) by blast
  have "rest = []" if n: "\<not> tcp_ready c'"
  proof (rule ccontr)
    assume "rest \<noteq> []"
    then obtain m rest' where rest: "rest = m # rest'" by (cases rest) auto
    then show False using p(1) n
      by (auto simp: stream_pos_def tcp_ready_def encode_tcp_wire_def encode_b_def)
  qed
  then show ?thesis using lexical_cast.fire_step [OF assms(1) p(1) f] p(1,2) by (auto simp: stream_pos_def)
qed

theorem tcp_framing_witness:
  "\<exists>c' sh'. tcp_run decimal_lib
       ((tcp_connection_new 1 False True)\<lparr>t_reading := AwaitHeader\<rparr>, \<lparr>ts_in_queue = queue_new, ts_last_in = queue_new\<rparr>)
       (concat (map (encode_tcp_wire decimal_lib) [''hi''])) (c', sh') \<and>
     (tcp_ready c' \<longrightarrow> (\<exists>r. tcp_fire decimal_lib (c', sh') = Ok r))"
proof -
  let ?c = "(tcp_connection_new 1 False True)\<lparr>t_reading := AwaitHeader\<rparr>"
  let ?sh = "\<lparr>ts_in_queue = queue_new, ts_last_in = queue_new :: nat queue\<rparr>"
  let ?xs = "concat (map (encode_tcp_wire decimal_lib) [''hi''])"
  have run: "tcp_run decimal_lib (?c, ?sh) ?xs (tcp_arrive ?xs ?c, ?sh)"
    using tcp_run.arrive [OF tcp_run.idle [of decimal_lib "(?c, ?sh)", unfolded prod.case], of ?xs]
    by (metis append_Nil tcp_run.arrive tcp_run.idle)
  show ?thesis
    using tcp_framing [OF dec.lexical_cast_axioms, of "[''hi'']" ?c ?sh "tcp_arrive ?xs ?c" ?sh] run
    by (auto simp: frameable_def tcp_connection_new_def)
qed

text \<open>
  Messages that look like keep-alives are lost: a message with the bytes of \<^verbatim>\<open>KEEP_ALIVE_MSG\<close> or \<^verbatim>\<open>KEEP_ALIVE_ACK_MSG\<close> is accepted by \<^verbatim>\<open>send\<close> and framed like any other,
  but the receiver takes it for the protocol's own and its queue stays as it was.
\<close>

theorem keep_alive_swallowed:
  assumes "m = KEEP_ALIVE_MSG \<or> m = KEEP_ALIVE_ACK_MSG" "t_state c \<noteq> disconnected" "t_open c" "t_in_buffer c = m"
  shows "\<exists>c'. tcp_handle_body False (length m) (c, sh) = Ok (c', sh) \<and> t_in_buffer c' = []"
proof -
  have ne: "KEEP_ALIVE_MSG \<noteq> KEEP_ALIVE_ACK_MSG" "m \<noteq> []" using assms(1) by (auto simp: KEEP_ALIVE_MSG_def KEEP_ALIVE_ACK_MSG_def)
  show ?thesis using assms ne
    by (auto simp: tcp_handle_body_def send_keep_alive_ack_def tcp_send_def queue_push_Ok tcp_start_read_def Let_def
        tcp_is_connected_def simp del: bindO_Ok_iff)
qed

theorem keep_alive_swallowed_witness:
  "\<exists>c'. tcp_handle_body False (length KEEP_ALIVE_MSG) ((tcp_connection_new 1 False True)\<lparr>t_in_buffer := KEEP_ALIVE_MSG\<rparr>,
      \<lparr>ts_in_queue = queue_new, ts_last_in = queue_new\<rparr>) = Ok (c', \<lparr>ts_in_queue = queue_new, ts_last_in = queue_new\<rparr>)"
  using keep_alive_swallowed [of KEEP_ALIVE_MSG "(tcp_connection_new 1 False True)\<lparr>t_in_buffer := KEEP_ALIVE_MSG\<rparr>"
      "\<lparr>ts_in_queue = queue_new, ts_last_in = queue_new\<rparr>"]
  by (auto simp: tcp_connection_new_def)

section \<open>The TCP queue\<close>

text \<open>
  \<open>tq_running\<close> says that the run and keep-alive threads exist; \<open>tq_ticks\<close> is the keep-alive thread's counter.
  \<open>bind_err\<close> and \<open>resolvable\<close> are the environment's answers to \<^verbatim>\<open>bind\<close> and to the resolver.
\<close>

record tcp_queue =
  tq_p :: asio_params
  tq_out :: "tcp_connection option"
  tq_shared :: tcp_shared
  tq_ins :: "tcp_connection list"
  tq_acceptor :: bool
  tq_running :: bool
  tq_ticks :: nat

definition tcp_queue_blank :: "asio_params \<Rightarrow> tcp_queue" where
  "tcp_queue_blank p = \<lparr>tq_p = p, tq_out = None, tq_shared = \<lparr>ts_in_queue = queue_new, ts_last_in = queue_new\<rparr>,
     tq_ins = [], tq_acceptor = False, tq_running = False, tq_ticks = 0\<rparr>"

definition tq_delayed_connect :: "bool \<Rightarrow> tcp_queue \<Rightarrow> tcp_queue outcome" where
  "tq_delayed_connect bind_err q =
     contract (tq_out q = None)
       (let c = tcp_connection_new 0 False False in
        bindO (if ap_local_port (tq_p q) > 0 then tcp_bind bind_err c else Ok c) (\<lambda>c1. Ok (q\<lparr>tq_out := Some c1\<rparr>)))"

definition tq_connect :: "bool \<Rightarrow> (string \<Rightarrow> u16 \<Rightarrow> bool) \<Rightarrow> tcp_queue \<Rightarrow> tcp_queue outcome" where
  "tq_connect bind_err resolvable q =
     contract (case tq_out q of None \<Rightarrow> True | Some c \<Rightarrow> t_state c = disconnected)
       (if \<not> resolvable (ap_host (tq_p q)) (ap_port (tq_p q)) then Ok q
        else bindO (if tq_out q = None then tq_delayed_connect bind_err q else Ok q) (\<lambda>q1.
          case tq_out q1 of
            None \<Rightarrow> Undef
          | Some c \<Rightarrow> bindO (update_endpoint (ap_host (tq_p q1)) (ap_port (tq_p q1)) c) (\<lambda>c1.
              Ok (q1\<lparr>tq_out := Some (tcp_connect c1)\<rparr>))))"

text \<open>A new queue in binding mode opens its acceptor and waits for the first connection.\<close>

definition tq_accept :: "tcp_queue \<Rightarrow> tcp_queue" where
  "tq_accept q = q\<lparr>tq_acceptor := True\<rparr>"

definition start_threads :: "tcp_queue \<Rightarrow> tcp_queue outcome" where
  "start_threads q =
     bindO (case tq_out q of None \<Rightarrow> Ok None | Some c \<Rightarrow> bindO (send_keep_alive c) (\<lambda>c1. bindO (send_keep_alive c1) (\<lambda>c2. Ok (Some c2))))
       (\<lambda>out. Ok (q\<lparr>tq_out := out, tq_running := True\<rparr>))"

definition tcp_queue_new :: "bool \<Rightarrow> (string \<Rightarrow> u16 \<Rightarrow> bool) \<Rightarrow> asio_params \<Rightarrow> tcp_queue outcome" where
  "tcp_queue_new bind_err resolvable p =
     bindO (case ap_mode p of
              bind \<Rightarrow> Ok (tq_accept (tcp_queue_blank p))
            | connect \<Rightarrow> tq_connect bind_err resolvable (tcp_queue_blank p)
            | delayed_connect \<Rightarrow> tq_delayed_connect bind_err (tcp_queue_blank p))
       (\<lambda>q. if ap_mode p \<noteq> delayed_connect then start_threads q else Ok q)"

definition create_tcp_queue :: "port_lib \<Rightarrow> bool \<Rightarrow> (string \<Rightarrow> u16 \<Rightarrow> bool) \<Rightarrow> string \<Rightarrow> queue_options \<Rightarrow> tcp_queue outcome" where
  "create_tcp_queue P bind_err resolvable address defaults =
     bindO (parse_address P address defaults) (\<lambda>c. bindO (parse_params P c) (\<lambda>p. tcp_queue_new bind_err resolvable p))"

definition tq_is_connected :: "tcp_queue \<Rightarrow> bool" where
  "tq_is_connected q = (case tq_out q of None \<Rightarrow> False | Some c \<Rightarrow> tcp_is_connected c)"

definition tq_is_connecting :: "tcp_queue \<Rightarrow> bool" where
  "tq_is_connecting q = (case tq_out q of None \<Rightarrow> False | Some c \<Rightarrow> tcp_is_connecting c)"

definition tq_is_disconnected :: "tcp_queue \<Rightarrow> bool" where
  "tq_is_disconnected q = (case tq_out q of None \<Rightarrow> False | Some c \<Rightarrow> tcp_is_disconnected c)"

definition tq_send :: "bool \<Rightarrow> (string \<Rightarrow> u16 \<Rightarrow> bool) \<Rightarrow> bytes \<Rightarrow> tcp_queue \<Rightarrow> (bool \<times> tcp_queue) outcome" where
  "tq_send bind_err resolvable b q =
     contract (ap_mode (tq_p q) \<noteq> bind) (contract (tq_out q \<noteq> None)
       (bindO (if tq_is_disconnected q \<and> ap_mode (tq_p q) = connect then tq_connect bind_err resolvable q else Ok q) (\<lambda>q1.
          case tq_out q1 of
            None \<Rightarrow> Undef
          | Some c \<Rightarrow> bindO (tcp_send b c) (\<lambda>(sent, c1). Ok (sent, q1\<lparr>tq_out := Some c1\<rparr>)))))"

definition tq_receive :: "tcp_queue \<Rightarrow> bytes popped \<times> tcp_queue" where
  "tq_receive q =
     (let (r, iq) = queue_pop (ap_block (tq_p q)) (ts_in_queue (tq_shared q))
      in (r, q\<lparr>tq_shared := (tq_shared q)\<lparr>ts_in_queue := iq\<rparr>\<rparr>))"

definition tq_connect_to :: "bool \<Rightarrow> (string \<Rightarrow> u16 \<Rightarrow> bool) \<Rightarrow> string \<Rightarrow> u16 \<Rightarrow> tcp_queue \<Rightarrow> tcp_queue outcome" where
  "tq_connect_to bind_err resolvable host port q =
     contract (ap_mode (tq_p q) = delayed_connect) (contract (host \<noteq> []) (contract (\<not> tq_running q)
       (contract (case tq_out q of None \<Rightarrow> True | Some c \<Rightarrow> t_state c = disconnected)
         (let p = (tq_p q)\<lparr>ap_uri := make_tcp_address host port 0, ap_host := host, ap_port := port, ap_mode := connect\<rparr> in
          bindO (tq_connect bind_err resolvable (q\<lparr>tq_p := p\<rparr>)) start_threads))))"

text \<open>An accepted connection; \<open>address\<close> and \<open>port\<close> are those of the remote end.\<close>

definition tq_handle_accept :: "bool \<Rightarrow> string \<Rightarrow> u16 \<Rightarrow> tcp_queue \<Rightarrow> tcp_queue outcome" where
  "tq_handle_accept err address port q =
     contract (tq_acceptor q)
       (if err then Ok q
        else
         (let nc = tcp_connection_new (Suc (length (tq_ins q))) (ap_track_incoming (tq_p q)) True in
          bindO (let c1 = nc\<lparr>t_ep := \<lparr>ep_protocol = TCP, ep_address = address, ep_port = port\<rparr>\<rparr> in
                 contract (address \<noteq> []) (contract (port > 0) (Ok c1))) (\<lambda>c1.
            Ok (q\<lparr>tq_ins := tq_ins q @ [tcp_start_read c1]\<rparr>))))"

text \<open>\<^verbatim>\<open>get_socket\<close> returns a pointer to a connection: its number, \<open>None\<close> for the null pointer.\<close>

definition get_socket :: "tcp_queue \<Rightarrow> nat option \<times> tcp_queue" where
  "get_socket q =
     (case ap_mode (tq_p q) of
        bind \<Rightarrow>
          (if ap_track_incoming (tq_p q) then
             (case queue_pop False (ts_last_in (tq_shared q)) of
                (Got i, l) \<Rightarrow> (Some i, q\<lparr>tq_shared := (tq_shared q)\<lparr>ts_last_in := l\<rparr>\<rparr>)
              | (_, l) \<Rightarrow> (None, q\<lparr>tq_shared := (tq_shared q)\<lparr>ts_last_in := l\<rparr>\<rparr>))
           else (None, q))
      | _ \<Rightarrow> (map_option t_id (tq_out q), q))"

text \<open>The endpoint behind such a pointer.\<close>

definition socket_endpoint :: "tcp_queue \<Rightarrow> nat \<Rightarrow> endpoint" where
  "socket_endpoint q i =
     (case find (\<lambda>c. t_id c = i) (tq_ins q) of
        Some c \<Rightarrow> t_ep c
      | None \<Rightarrow> (case tq_out q of Some c \<Rightarrow> t_ep c | None \<Rightarrow> \<lparr>ep_protocol = [], ep_address = [], ep_port = 0\<rparr>))"

text \<open>One round of the keep-alive thread.\<close>

definition keep_alive_round :: "tcp_queue \<Rightarrow> tcp_queue outcome" where
  "keep_alive_round q =
     (case tq_out q of
        None \<Rightarrow> Ok (q\<lparr>tq_ticks := tq_ticks q + 1\<rparr>)
      | Some c \<Rightarrow>
         (if \<not> tcp_is_disconnected c \<and> tq_ticks q > KEEP_ALIVE_THRESH then
            bindO (if is_alive c then bindO (send_keep_alive c) (\<lambda>c1. Ok (reset_alive c1)) else Ok (tcp_close c))
              (\<lambda>c1. Ok (q\<lparr>tq_out := Some c1, tq_ticks := 1\<rparr>))
          else Ok (q\<lparr>tq_ticks := tq_ticks q + 1\<rparr>)))"

section \<open>Keep-alive\<close>

lemma keep_alive_quiet:
  "tq_ticks q + k \<le> Suc KEEP_ALIVE_THRESH \<Longrightarrow>
   foldO (\<lambda>_. keep_alive_round) [0..<k] q = Ok (q\<lparr>tq_ticks := tq_ticks q + k\<rparr>)"
proof (induction k)
  case (Suc k)
  then show ?case by (simp add: foldO_append keep_alive_round_def split: option.splits)
qed simp

text \<open>
  Keep-alive: the round after 31 quiet ones tests the connection.  If an acknowledgement came it stays up and a new
  keep-alive is queued with the flag cleared; if none came it is closed; before that round the connection is untouched.
\<close>

theorem keep_alive_timeout:
  assumes "tq_out q = Some c" "t_state c \<noteq> disconnected" "tq_ticks q = 0"
  shows "\<exists>q1 q2 c2. foldO (\<lambda>_. keep_alive_round) [0..<31] q = Ok q1 \<and> tq_out q1 = Some c \<and>
    keep_alive_round q1 = Ok q2 \<and> tq_out q2 = Some c2 \<and> t_alive c2 = (t_alive c \<and> t_state c2 = disconnected) \<and>
    (if t_alive c then t_state c2 = t_state c \<and> q_items (t_out_queue c2) = q_items (t_out_queue c) @ [KEEP_ALIVE_MSG]
     else t_state c2 = disconnected)"
proof -
  have q1: "foldO (\<lambda>_. keep_alive_round) [0..<31] q = Ok (q\<lparr>tq_ticks := 31\<rparr>)"
    using keep_alive_quiet [of q 31] assms(3) by (simp add: KEEP_ALIVE_THRESH_def)
  show ?thesis
    unfolding q1 using assms
    by (cases "t_alive c")
      (auto simp: keep_alive_round_def KEEP_ALIVE_THRESH_def is_alive_def reset_alive_def send_keep_alive_def tcp_send_def
        queue_push_Ok tcp_is_disconnected_def tcp_is_connected_def tcp_close_def Let_def)
qed

theorem keep_alive_timeout_witness:
  "\<exists>q1 q2 c2. keep_alive_round q1 = Ok q2 \<and> tq_out q2 = Some c2 \<and> t_state c2 = disconnected"
proof -
  define c where "c = tcp_connection_new 0 False True"
  define q where "q = (tcp_queue_blank \<lparr>ap_type = tcp, ap_mode = connect, ap_uri = [], ap_host = ''h'', ap_port = 1, ap_local_port = 0,
     ap_block = False, ap_wait = 0, ap_track_incoming = False\<rparr>)\<lparr>tq_out := Some c\<rparr>"
  have c: "tq_out q = Some c" "t_state c \<noteq> disconnected" "tq_ticks q = 0" "\<not> t_alive c"
    by (simp_all add: q_def c_def tcp_connection_new_def tcp_queue_blank_def)
  show ?thesis using keep_alive_timeout [OF c(1,2,3)] c(4) by (metis (full_types))
qed

end
