(* ===== verification/Connection_Manager.thy ===== *)
theory Connection_Manager
  imports Tcp_Queue
begin

text \<open>
  \<^verbatim>\<open>src/src/network/connection_manager.cpp\<close>: one UDP queue, an optional listening TCP queue and a pool of outgoing TCP queues behind
  one \<^verbatim>\<open>send\<close> and one polling \<^verbatim>\<open>receive\<close>.  \<open>env\<close> collects the answers of the operating system.
\<close>

section \<open>State\<close>

datatype receive_state = IN_UDP1 | IN_UDP2 | IN_UDP3 | IN_UDP4 | IN_UDP5 | IN_UDP6 | IN_UDP7 | IN_UDP8 | IN_TCP | OUT_TCP | DONE

record net_env =
  ne_ports :: port_lib
  ne_bind_err :: bool
  ne_resolvable :: "string \<Rightarrow> u16 \<Rightarrow> bool"
  ne_resolver :: "string \<Rightarrow> string \<Rightarrow> string option"

record connection_manager =
  cm_rstate :: receive_state
  cm_out :: "(string \<times> nat) list"
  cm_pool :: "tcp_queue option list"
  cm_local_port :: u16
  cm_in :: "tcp_queue option"
  cm_udp :: udp_queue
  cm_tcp_listen :: bool
  cm_in_connections :: "(string \<times> nat) list"
  cm_tcp_send_queue :: "(string \<times> bytes) queue"

section \<open>The pool\<close>

definition create_tcp_endpoint :: "net_env \<Rightarrow> connection_manager \<Rightarrow> connection_manager outcome" where
  "create_tcp_endpoint E m =
     contract (cm_in m = None) (contract (cm_local_port m > 0)
       (bindO (create_tcp_queue (ne_ports E) (ne_bind_err E) (ne_resolvable E) (make_tcp_address ''*'' (cm_local_port m) 0)
                 [(''block'', ''0''), (''bnd'', ''1''), (''track_incoming'', ''1'')]) (\<lambda>q.
          Ok (m\<lparr>cm_in := Some q\<rparr>))))"

definition create_tcp_params :: "connection_manager \<Rightarrow> asio_params" where
  "create_tcp_params m = \<lparr>ap_type = tcp, ap_mode = delayed_connect, ap_uri = [], ap_host = [], ap_port = 0,
     ap_local_port = cm_local_port m, ap_block = False, ap_wait = 0, ap_track_incoming = False\<rparr>"

definition new_out_queue :: "net_env \<Rightarrow> connection_manager \<Rightarrow> tcp_queue outcome" where
  "new_out_queue E m = tcp_queue_new (ne_bind_err E) (ne_resolvable E) (create_tcp_params m)"

definition create_tcp_pool :: "net_env \<Rightarrow> connection_manager \<Rightarrow> connection_manager outcome" where
  "create_tcp_pool E m =
     foldO (\<lambda>i m. bindO (new_out_queue E m) (\<lambda>q. Ok (m\<lparr>cm_pool := (cm_pool m)[i := Some q]\<rparr>))) [0..<length (cm_pool m)] m"

text \<open>The loop over \<^verbatim>\<open>_out\<close> checks each index and drops the entries whose pool slot is empty.\<close>

definition cleanup_pool :: "connection_manager \<Rightarrow> connection_manager outcome" where
  "cleanup_pool m =
     (let pool = map (\<lambda>p. case p of Some q \<Rightarrow> (if tq_is_disconnected q then None else p) | None \<Rightarrow> None) (cm_pool m) in
      contract (\<forall>(a, i) \<in> set (cm_out m). i < length pool)
        (Ok (m\<lparr>cm_pool := pool, cm_out := filter (\<lambda>(a, i). pool ! i \<noteq> None) (cm_out m)\<rparr>)))"

definition teardown_and_repool_tcp_connections :: "net_env \<Rightarrow> connection_manager \<Rightarrow> connection_manager outcome" where
  "teardown_and_repool_tcp_connections E m =
     (let m1 = m\<lparr>cm_in := None, cm_in_connections := []\<rparr> in
      bindO (cleanup_pool m1) (\<lambda>m2.
        if cm_tcp_listen m2 then bindO (create_tcp_pool E m2) (create_tcp_endpoint E) else Ok m2))"

definition get_connected_queue :: "string \<Rightarrow> connection_manager \<Rightarrow> nat option outcome" where
  "get_connected_queue address m =
     (case map_of (cm_out m) address of
        None \<Rightarrow> Ok None
      | Some i \<Rightarrow>
         (if i \<ge> length (cm_pool m) then Undef
          else (case cm_pool m ! i of
                  None \<Rightarrow> Exit
                | Some q \<Rightarrow> Ok (if \<not> tq_is_disconnected q then Some i else None))))"

fun first_free :: "tcp_queue option list \<Rightarrow> nat" where
  "first_free [] = 0"
| "first_free (p # ps) = (case p of None \<Rightarrow> 0 | Some q \<Rightarrow> Suc (first_free ps))"

definition find_next_available :: "net_env \<Rightarrow> connection_manager \<Rightarrow> (nat \<times> connection_manager) outcome" where
  "find_next_available E m =
     (let i = first_free (cm_pool m) in
      if i < length (cm_pool m)
      then bindO (new_out_queue E m) (\<lambda>q. Ok (i, m\<lparr>cm_pool := (cm_pool m)[i := Some q]\<rparr>))
      else Ok (i, m))"

section \<open>Connecting and sending\<close>

text \<open>
  \<^verbatim>\<open>connect\<close> returns a queue of the pool, here its index, or a null pointer.  A \<^verbatim>\<open>Throw\<close> from parsing the address is
  caught and gives the null pointer; what was done to the pool before stays.
\<close>

definition finish_connect :: "net_env \<Rightarrow> string \<Rightarrow> nat \<Rightarrow> connection_manager \<Rightarrow> (nat option \<times> connection_manager) outcome" where
  "finish_connect E address i m =
     contract (i < length (cm_pool m))
       (case cm_pool m ! i of
          None \<Rightarrow> Exit
        | Some q \<Rightarrow> contract (tq_is_disconnected q)
            (case parse_address (ne_ports E) address [] of
               Throw e \<Rightarrow> Ok (None, m)
             | Ok a \<Rightarrow>
                 (let m1 = m\<lparr>cm_out := alist_put address i (cm_out m)\<rparr> in
                  bindO (tq_connect_to (ne_bind_err E) (ne_resolvable E) (ac_host a) (ac_port a) q) (\<lambda>q1.
                    Ok (Some i, m1\<lparr>cm_pool := (cm_pool m1)[i := Some q1]\<rparr>)))
             | Exit \<Rightarrow> Exit | Undef \<Rightarrow> Undef | Diverge \<Rightarrow> Diverge))"

definition cm_connect :: "net_env \<Rightarrow> string \<Rightarrow> connection_manager \<Rightarrow> (nat option \<times> connection_manager) outcome" where
  "cm_connect E address m =
     bindO (get_connected_queue address m) (\<lambda>c.
       case c of
         Some i \<Rightarrow> Ok (Some i, m)
       | None \<Rightarrow>
           bindO (find_next_available E m) (\<lambda>(i, m1).
             if i \<ge> length (cm_pool m1) then
               bindO (teardown_and_repool_tcp_connections E m1) (\<lambda>m2.
               bindO (find_next_available E m2) (\<lambda>(j, m3).
                 if j \<ge> length (cm_pool m3) then Ok (None, m3) else finish_connect E address j m3))
             else finish_connect E address i m1))"

definition cm_send :: "net_env \<Rightarrow> string \<Rightarrow> bytes \<Rightarrow> bool \<Rightarrow> connection_manager \<Rightarrow> (bool \<times> connection_manager) outcome" where
  "cm_send E dest b robust m =
     (let type = determine_type dest in
      if type = tcp then bindO (queue_push (dest, b) (cm_tcp_send_queue m)) (\<lambda>q. Ok (True, m\<lparr>cm_tcp_send_queue := q\<rparr>))
      else if type \<noteq> udp then Ok (False, m)
      else
       (case bindO (parse_address (ne_ports E) dest []) (\<lambda>a.
               udp_queue_send (ne_ports E) (ne_resolver E)
                 \<lparr>em_ep = \<lparr>ep_protocol = UDP, ep_address = ac_host a, ep_port = ac_port a\<rparr>, em_data = b, em_robust = robust\<rparr>
                 (cm_udp m)) of
          Ok (sent, u) \<Rightarrow> Ok (sent, m\<lparr>cm_udp := u\<rparr>)
        | Throw e \<Rightarrow> Ok (False, m)
        | Exit \<Rightarrow> Exit | Undef \<Rightarrow> Undef | Diverge \<Rightarrow> Diverge))"

text \<open>One round of \<^verbatim>\<open>tcp_send_thread\<close> on the item it took from the queue.\<close>

definition send_on_in :: "nat \<Rightarrow> bytes \<Rightarrow> tcp_queue \<Rightarrow> tcp_queue outcome" where
  "send_on_in i b q =
     (case find (\<lambda>c. t_id c = i) (tq_ins q) of
        None \<Rightarrow> Undef
      | Some c \<Rightarrow> bindO (tcp_send b c) (\<lambda>(_, c1). Ok (q\<lparr>tq_ins := map (\<lambda>x. if t_id x = i then c1 else x) (tq_ins q)\<rparr>)))"

definition in_disconnected :: "connection_manager \<Rightarrow> nat \<Rightarrow> bool" where
  "in_disconnected m i =
     (case cm_in m of None \<Rightarrow> True
      | Some q \<Rightarrow> (case find (\<lambda>c. t_id c = i) (tq_ins q) of None \<Rightarrow> True | Some c \<Rightarrow> tcp_is_disconnected c))"

definition send_outgoing :: "net_env \<Rightarrow> string \<Rightarrow> bytes \<Rightarrow> connection_manager \<Rightarrow> connection_manager outcome" where
  "send_outgoing E dest b m =
     bindO (cm_connect E dest m) (\<lambda>(c, m1).
       case c of
         None \<Rightarrow> Ok m1
       | Some i \<Rightarrow>
          (case cm_pool m1 ! i of
             None \<Rightarrow> Undef
           | Some q \<Rightarrow> bindO (tq_send (ne_bind_err E) (ne_resolvable E) b q) (\<lambda>(_, q1).
               Ok (m1\<lparr>cm_pool := (cm_pool m1)[i := Some q1]\<rparr>))))"

definition tcp_send_item :: "net_env \<Rightarrow> string \<Rightarrow> bytes \<Rightarrow> connection_manager \<Rightarrow> connection_manager outcome" where
  "tcp_send_item E dest b m =
     (case map_of (cm_in_connections m) dest of
        Some i \<Rightarrow>
          (if \<not> in_disconnected m i then
             (case cm_in m of None \<Rightarrow> Undef | Some q \<Rightarrow> bindO (send_on_in i b q) (\<lambda>q1. Ok (m\<lparr>cm_in := Some q1\<rparr>)))
           else send_outgoing E dest b m)
      | None \<Rightarrow> send_outgoing E dest b m)"

definition tcp_send_round :: "net_env \<Rightarrow> connection_manager \<Rightarrow> connection_manager outcome" where
  "tcp_send_round E m =
     (case queue_pop True (cm_tcp_send_queue m) of
        (Got (dest, b), q) \<Rightarrow> tcp_send_item E dest b (m\<lparr>cm_tcp_send_queue := q\<rparr>)
      | (_, q) \<Rightarrow> Ok (m\<lparr>cm_tcp_send_queue := q\<rparr>))"

section \<open>Receiving\<close>

definition next_udp_state :: "bool \<Rightarrow> receive_state \<Rightarrow> receive_state option" where
  "next_udp_state listen s =
     (case s of
        IN_UDP1 \<Rightarrow> Some IN_UDP2 | IN_UDP2 \<Rightarrow> Some IN_UDP3 | IN_UDP3 \<Rightarrow> Some IN_UDP4 | IN_UDP4 \<Rightarrow> Some IN_UDP5
      | IN_UDP5 \<Rightarrow> Some IN_UDP6 | IN_UDP6 \<Rightarrow> Some IN_UDP7 | IN_UDP7 \<Rightarrow> Some IN_UDP8
      | IN_UDP8 \<Rightarrow> Some (if listen then IN_TCP else OUT_TCP)
      | _ \<Rightarrow> None)"

definition transition_udp_state :: "connection_manager \<Rightarrow> connection_manager outcome" where
  "transition_udp_state m =
     contract (cm_rstate m \<noteq> IN_TCP) (contract (cm_rstate m \<noteq> OUT_TCP)
       (case next_udp_state (cm_tcp_listen m) (cm_rstate m) of
          None \<Rightarrow> Exit
        | Some s \<Rightarrow>
            contract (cm_rstate m \<noteq> IN_UDP8 \<or> s = IN_TCP \<or> s = OUT_TCP)
             (contract (s \<noteq> cm_rstate m) (Ok (m\<lparr>cm_rstate := s\<rparr>)))))"

type_synonym received_message = "endpoint \<times> bytes"

text \<open>The loop over \<^verbatim>\<open>_out\<close> in state \<open>OUT_TCP\<close>: the first outgoing queue that has a message.\<close>

fun poll_out :: "(string \<times> nat) list \<Rightarrow> connection_manager \<Rightarrow> (received_message option \<times> connection_manager) outcome" where
  "poll_out [] m = Ok (None, m)"
| "poll_out ((a, i) # ps) m =
     contract (i < length (cm_pool m))
       (case cm_pool m ! i of
          None \<Rightarrow> Exit
        | Some q \<Rightarrow>
           (case tq_receive q of
              (Got b, q1) \<Rightarrow>
                (case get_socket q1 of
                   (None, q2) \<Rightarrow> Exit
                 | (Some s, q2) \<Rightarrow> Ok (Some (socket_endpoint q2 s, b), m\<lparr>cm_pool := (cm_pool m)[i := Some q2]\<rparr>))
            | (_, q1) \<Rightarrow> poll_out ps (m\<lparr>cm_pool := (cm_pool m)[i := Some q1]\<rparr>)))"

definition receive_turn :: "connection_manager \<Rightarrow> (received_message option \<times> connection_manager) outcome" where
  "receive_turn m =
     (case cm_rstate m of
        IN_TCP \<Rightarrow>
          (let m1 = m\<lparr>cm_rstate := OUT_TCP\<rparr> in
           case cm_in m1 of
             None \<Rightarrow> Exit
           | Some q \<Rightarrow>
              (case tq_receive q of
                 (Got b, q1) \<Rightarrow>
                   (case get_socket q1 of
                      (None, q2) \<Rightarrow> Exit
                    | (Some s, q2) \<Rightarrow>
                        (let ep = socket_endpoint q2 s in
                         Ok (Some (ep, b), m1\<lparr>cm_in := Some q2,
                               cm_in_connections := alist_put (make_address_str ep) s (cm_in_connections m1)\<rparr>)))
               | (_, q1) \<Rightarrow> Ok (None, m1\<lparr>cm_in := Some q1\<rparr>)))
      | OUT_TCP \<Rightarrow> poll_out (cm_out m) (m\<lparr>cm_rstate := DONE\<rparr>)
      | DONE \<Rightarrow> Exit
      | _ \<Rightarrow>
          bindO (transition_udp_state m) (\<lambda>m1.
            case udp_queue_receive (cm_udp m1) of
              (Got um, u) \<Rightarrow> Ok (Some (em_ep um, em_data um), m1\<lparr>cm_udp := u\<rparr>)
            | (_, u) \<Rightarrow> Ok (None, m1\<lparr>cm_udp := u\<rparr>)))"

text \<open>The polling loop; ten states lead from \<open>IN_UDP1\<close> to \<open>DONE\<close>.\<close>

fun receive_loop :: "nat \<Rightarrow> connection_manager \<Rightarrow> (received_message option \<times> connection_manager) outcome" where
  "receive_loop 0 m = Diverge"
| "receive_loop (Suc fuel) m =
     (if cm_rstate m = DONE then Ok (None, m)
      else bindO (receive_turn m) (\<lambda>(r, m1). if r \<noteq> None then Ok (r, m1) else receive_loop fuel m1))"

definition cm_receive :: "connection_manager \<Rightarrow> (received_message option \<times> connection_manager) outcome" where
  "cm_receive m =
     receive_loop 11 (if cm_rstate m = DONE then m\<lparr>cm_rstate := IN_UDP1\<rparr> else m)"

definition cm_is_disconnected :: "string \<Rightarrow> connection_manager \<Rightarrow> bool" where
  "cm_is_disconnected addr m =
     (case map_of (cm_in_connections m) addr of None \<Rightarrow> True | Some i \<Rightarrow> in_disconnected m i)"

definition udp_params :: "u16 \<Rightarrow> asio_params" where
  "udp_params local_port = \<lparr>ap_type = udp, ap_mode = bind, ap_uri = [], ap_host = [], ap_port = 0,
     ap_local_port = local_port, ap_block = False, ap_wait = 0, ap_track_incoming = True\<rparr>"

definition create_udp_endpoint :: "u16 \<Rightarrow> udp_queue outcome" where
  "create_udp_endpoint local_port =
     contract (ap_local_port (udp_params local_port) > 0)
       (Ok \<lparr>uq_con = udp_connection_new, uq_rmap = [], uq_block = ap_block (udp_params local_port)\<rparr>)"

definition connection_manager_new :: "net_env \<Rightarrow> nat \<Rightarrow> u16 \<Rightarrow> bool \<Rightarrow> connection_manager outcome" where
  "connection_manager_new E n local_port tcp_listen =
     bindO (teardown_and_repool_tcp_connections E
              \<lparr>cm_rstate = IN_UDP1, cm_out = [], cm_pool = replicate n None, cm_local_port = local_port, cm_in = None,
               cm_udp = \<lparr>uq_con = udp_connection_new, uq_rmap = [], uq_block = False\<rparr>, cm_tcp_listen = tcp_listen,
               cm_in_connections = [], cm_tcp_send_queue = queue_new\<rparr>) (\<lambda>m.
     bindO (create_udp_endpoint local_port) (\<lambda>u.
       contract (cm_pool m \<noteq> []) (contract (\<not> cm_tcp_listen m \<or> cm_in m \<noteq> None) (Ok (m\<lparr>cm_udp := u\<rparr>)))))"

section \<open>The invariant\<close>

text \<open>
  Every queue of the pool is an outgoing one with its connection in place; \<^verbatim>\<open>_out\<close> names slots that are in
  use; when the manager listens there is a listening queue, and it knows the connection of every
  message it holds.
\<close>

definition pool_queue_ok :: "tcp_queue \<Rightarrow> bool" where
  "pool_queue_ok q \<longleftrightarrow> tq_out q \<noteq> None \<and> ap_mode (tq_p q) \<noteq> bind \<and> \<not> ap_block (tq_p q)"

definition listen_queue_ok :: "tcp_queue \<Rightarrow> bool" where
  "listen_queue_ok q \<longleftrightarrow> ap_mode (tq_p q) = bind \<and> ap_track_incoming (tq_p q) \<and> \<not> ap_block (tq_p q) \<and>
     length (q_items (ts_in_queue (tq_shared q))) = length (q_items (ts_last_in (tq_shared q)))"

definition cm_ok :: "connection_manager \<Rightarrow> bool" where
  "cm_ok m \<longleftrightarrow>
     (\<forall>q. Some q \<in> set (cm_pool m) \<longrightarrow> pool_queue_ok q) \<and>
     (\<forall>(a, i) \<in> set (cm_out m). i < length (cm_pool m) \<and> cm_pool m ! i \<noteq> None) \<and>
     (\<forall>q. cm_in m = Some q \<longrightarrow> listen_queue_ok q) \<and>
     (cm_in m = None \<longrightarrow> \<not> cm_tcp_listen m \<and> cm_rstate m \<noteq> IN_TCP) \<and>
     \<not> uq_block (cm_udp m)"

lemma tq_receive_cases:
  assumes "\<not> ap_block (tq_p q)"
  shows "(\<exists>b q1. tq_receive q = (Got b, q1) \<and> q_items (ts_in_queue (tq_shared q)) = b # q_items (ts_in_queue (tq_shared q1)) \<and>
      q1 = q\<lparr>tq_shared := (tq_shared q)\<lparr>ts_in_queue := ts_in_queue (tq_shared q1)\<rparr>\<rparr>) \<or>
    (tq_receive q = (NoItem, q) \<and> q_items (ts_in_queue (tq_shared q)) = [])"
  using assms by (cases "q_items (ts_in_queue (tq_shared q))") (auto simp: tq_receive_def queue_pop_def)

lemma get_socket_pool: "pool_queue_ok q \<Longrightarrow> \<exists>s. get_socket q = (Some s, q)"
  by (auto simp: get_socket_def pool_queue_ok_def split: connect_mode.splits)

lemma cm_ok_pool_update:
  assumes "cm_ok m" "pool_queue_ok q" "i < length (cm_pool m)"
  shows "cm_ok (m\<lparr>cm_pool := (cm_pool m)[i := Some q]\<rparr>)"
  using assms set_update_subset_insert [of "cm_pool m" i "Some q"]
  by (auto simp: cm_ok_def nth_list_update split: prod.splits)

lemma poll_out_ok:
  assumes "cm_ok m" "set ps \<subseteq> set (cm_out m)"
  shows "\<exists>r m'. poll_out ps m = Ok (r, m') \<and> cm_ok m' \<and> cm_rstate m' = cm_rstate m \<and> cm_udp m' = cm_udp m"
  using assms
proof (induction ps arbitrary: m)
  case (Cons p ps)
  obtain a i where p: "p = (a, i)" by (cases p)
  obtain q where q: "i < length (cm_pool m)" "cm_pool m ! i = Some q" using Cons.prems p by (fastforce simp: cm_ok_def)
  have qok: "pool_queue_ok q" using Cons.prems(1) q by (metis cm_ok_def nth_mem)
  then have "\<not> ap_block (tq_p q)" by (simp add: pool_queue_ok_def)
  from tq_receive_cases [OF this] show ?case
  proof
    assume "\<exists>b q1. tq_receive q = (Got b, q1) \<and> q_items (ts_in_queue (tq_shared q)) = b # q_items (ts_in_queue (tq_shared q1)) \<and>
      q1 = q\<lparr>tq_shared := (tq_shared q)\<lparr>ts_in_queue := ts_in_queue (tq_shared q1)\<rparr>\<rparr>"
    then obtain b q1 where b: "tq_receive q = (Got b, q1)" "tq_out q1 = tq_out q" "tq_p q1 = tq_p q"
      by (metis tcp_queue.select_convs(1,2) tcp_queue.surjective tcp_queue.update_convs(3))
    then have ok1: "pool_queue_ok q1" using qok by (simp add: pool_queue_ok_def)
    obtain s where "get_socket q1 = (Some s, q1)" using get_socket_pool [OF ok1] by blast
    then show ?thesis using p q b(1) cm_ok_pool_update [OF Cons.prems(1) ok1 q(1)] by simp
  next
    assume n: "tq_receive q = (NoItem, q) \<and> q_items (ts_in_queue (tq_shared q)) = []"
    have same: "m\<lparr>cm_pool := (cm_pool m)[i := Some q]\<rparr> = m" using q(2) by (metis connection_manager.surjective connection_manager.update_convs(3) list_update_id)
    show ?thesis using Cons.IH [OF Cons.prems(1)] Cons.prems(2) p q n same by auto
  qed
qed simp

definition rank :: "receive_state \<Rightarrow> nat" where
  "rank s = (case s of IN_UDP1 \<Rightarrow> 10 | IN_UDP2 \<Rightarrow> 9 | IN_UDP3 \<Rightarrow> 8 | IN_UDP4 \<Rightarrow> 7 | IN_UDP5 \<Rightarrow> 6 | IN_UDP6 \<Rightarrow> 5
     | IN_UDP7 \<Rightarrow> 4 | IN_UDP8 \<Rightarrow> 3 | IN_TCP \<Rightarrow> 2 | OUT_TCP \<Rightarrow> 1 | DONE \<Rightarrow> 0)"

lemma udp_receive_cases:
  assumes "\<not> uq_block u"
  shows "(\<exists>um q1. udp_queue_receive u = (Got um, u\<lparr>uq_con := (uq_con u)\<lparr>u_in_queue := q1\<rparr>\<rparr>) \<and>
      q_items (u_in_queue (uq_con u)) = um # q_items q1) \<or>
    (udp_queue_receive u = (NoItem, u) \<and> q_items (u_in_queue (uq_con u)) = [])"
  using assms by (cases "q_items (u_in_queue (uq_con u))") (auto simp: udp_queue_receive_def queue_pop_def)

lemma receive_turn_ok:
  assumes ok: "cm_ok m" and nd: "cm_rstate m \<noteq> DONE"
  shows "\<exists>r m'. receive_turn m = Ok (r, m') \<and> cm_ok m' \<and> rank (cm_rstate m') < rank (cm_rstate m) \<and>
    (r = None \<longrightarrow> cm_udp m' = cm_udp m) \<and>
    (cm_rstate m \<notin> {IN_TCP, OUT_TCP} \<longrightarrow>
      (case q_items (u_in_queue (uq_con (cm_udp m))) of [] \<Rightarrow> r = None | um # _ \<Rightarrow> r = Some (em_ep um, em_data um)))"
proof (cases "cm_rstate m = IN_TCP \<or> cm_rstate m = OUT_TCP")
  case False
  then obtain s where s: "next_udp_state (cm_tcp_listen m) (cm_rstate m) = Some s" "rank s < rank (cm_rstate m)"
    "s = IN_TCP \<longrightarrow> cm_tcp_listen m" "cm_rstate m = IN_UDP8 \<longrightarrow> s = IN_TCP \<or> s = OUT_TCP"
    using nd by (cases "cm_rstate m") (auto simp: next_udp_state_def rank_def)
  have tr: "transition_udp_state m = Ok (m\<lparr>cm_rstate := s\<rparr>)"
    using False s by (auto simp: transition_udp_state_def)
  have ok1: "cm_ok (m\<lparr>cm_rstate := s\<rparr>)" using ok s(3) by (auto simp: cm_ok_def)
  have run: "receive_turn m = (case udp_queue_receive (cm_udp m) of
        (Got um, u) \<Rightarrow> Ok (Some (em_ep um, em_data um), m\<lparr>cm_rstate := s, cm_udp := u\<rparr>)
      | (_, u) \<Rightarrow> Ok (None, m\<lparr>cm_rstate := s, cm_udp := u\<rparr>))"
    using False nd tr by (cases "cm_rstate m") (simp_all add: receive_turn_def del: bindO_Ok_iff)
  have "\<not> uq_block (cm_udp m)" using ok by (simp add: cm_ok_def)
  from udp_receive_cases [OF this] show ?thesis
  proof
    assume "\<exists>um q1. udp_queue_receive (cm_udp m) = (Got um, (cm_udp m)\<lparr>uq_con := (uq_con (cm_udp m))\<lparr>u_in_queue := q1\<rparr>\<rparr>) \<and>
      q_items (u_in_queue (uq_con (cm_udp m))) = um # q_items q1"
    then show ?thesis using run s(2) ok1 False by (auto simp: cm_ok_def)
  next
    assume "udp_queue_receive (cm_udp m) = (NoItem, cm_udp m) \<and> q_items (u_in_queue (uq_con (cm_udp m))) = []"
    then show ?thesis using run s(2) ok1 False by (auto simp: cm_ok_def)
  qed
next
  case tcp: True
  show ?thesis
  proof (cases "cm_rstate m = OUT_TCP")
    case True
    have "cm_ok (m\<lparr>cm_rstate := DONE\<rparr>)" using ok by (auto simp: cm_ok_def)
    from poll_out_ok [OF this, of "cm_out m"] show ?thesis using True by (auto simp: receive_turn_def rank_def)
  next
    case False
    then have st: "cm_rstate m = IN_TCP" using tcp by simp
    then obtain q where q: "cm_in m = Some q" "listen_queue_ok q" using ok by (auto simp: cm_ok_def)
    define m1 where "m1 = m\<lparr>cm_rstate := OUT_TCP\<rparr>"
    have ok1: "cm_ok m1" using ok q by (auto simp: cm_ok_def m1_def)
    have nb: "\<not> ap_block (tq_p q)" using q(2) by (simp add: listen_queue_ok_def)
    show ?thesis
    proof (cases "q_items (ts_in_queue (tq_shared q))")
      case Nil
      then have "tq_receive q = (NoItem, q)" using nb by (simp add: tq_receive_def queue_pop_def)
      then have "receive_turn m = Ok (None, m1)" using st q(1) by (simp add: receive_turn_def m1_def)
      then show ?thesis using ok1 st by (simp add: rank_def m1_def)
    next
      case (Cons b bs)
      obtain s ss where l: "q_items (ts_last_in (tq_shared q)) = s # ss"
        using q(2) Cons by (cases "q_items (ts_last_in (tq_shared q))") (auto simp: listen_queue_ok_def)
      define q2 where "q2 = q\<lparr>tq_shared := (tq_shared q)\<lparr>ts_in_queue := (ts_in_queue (tq_shared q))\<lparr>q_items := bs\<rparr>,
          ts_last_in := (ts_last_in (tq_shared q))\<lparr>q_items := ss\<rparr>\<rparr>\<rparr>"
      have "receive_turn m = Ok (Some (socket_endpoint q2 s, b), m1\<lparr>cm_in := Some q2,
          cm_in_connections := alist_put (make_address_str (socket_endpoint q2 s)) s (cm_in_connections m1)\<rparr>)"
        using st q nb Cons l
        by (simp add: receive_turn_def m1_def tq_receive_def queue_pop_def get_socket_def listen_queue_ok_def q2_def Let_def)
      moreover have "listen_queue_ok q2" using q(2) Cons l by (simp add: listen_queue_ok_def q2_def)
      ultimately show ?thesis using ok1 st by (auto simp: cm_ok_def rank_def m1_def)
    qed
  qed
qed

lemma receive_loop_ok:
  assumes "cm_ok m" "rank (cm_rstate m) < fuel"
  shows "\<exists>r m'. receive_loop fuel m = Ok (r, m') \<and> cm_ok m' \<and> (r = None \<longrightarrow> cm_rstate m' = DONE \<and> cm_udp m' = cm_udp m)"
  using assms
proof (induction fuel arbitrary: m)
  case (Suc fuel)
  show ?case
  proof (cases "cm_rstate m = DONE")
    case True
    then show ?thesis using Suc.prems by simp
  next
    case False
    obtain r m1 where t: "receive_turn m = Ok (r, m1)" "cm_ok m1" "rank (cm_rstate m1) < rank (cm_rstate m)"
      "r = None \<longrightarrow> cm_udp m1 = cm_udp m" using receive_turn_ok [OF Suc.prems(1) False] by blast
    show ?thesis
    proof (cases r)
      case None
      then have "receive_loop (Suc fuel) m = receive_loop fuel m1" using t(1) False by (simp del: bindO_Ok_iff)
      then show ?thesis using Suc.IH [OF t(2)] t(3,4) Suc.prems(2) None by auto
    next
      case (Some x)
      then have "receive_loop (Suc fuel) m = Ok (r, m1)" using t(1) False by (simp del: bindO_Ok_iff)
      then show ?thesis using t(2) Some by auto
    qed
  qed
qed simp

lemma cm_receive_start:
  assumes "cm_ok m"
  shows "\<exists>m0. cm_receive m = receive_loop 11 m0 \<and> cm_ok m0 \<and> cm_rstate m0 \<noteq> DONE \<and> rank (cm_rstate m0) < 11 \<and> cm_udp m0 = cm_udp m \<and>
    (cm_rstate m \<notin> {IN_TCP, OUT_TCP} \<longrightarrow> cm_rstate m0 \<notin> {IN_TCP, OUT_TCP})"
proof -
  have r: "rank s < 11" for s by (cases s) (simp_all add: rank_def)
  show ?thesis
  proof (cases "cm_rstate m = DONE")
    case True
    have "cm_ok (m\<lparr>cm_rstate := IN_UDP1\<rparr>)" using assms by (auto simp: cm_ok_def)
    then show ?thesis using True r by (intro exI [of _ "m\<lparr>cm_rstate := IN_UDP1\<rparr>"]) (simp add: cm_receive_def)
  next
    case False
    then show ?thesis using assms r by (auto simp: cm_receive_def)
  qed
qed

text \<open>
  Polling: between the deliveries of the reader threads, \<^verbatim>\<open>receive\<close> returns after at most ten polls, without failing a check, and keeps the manager in order.  It
  reports no message only in state \<open>DONE\<close>, having taken nothing from the UDP queue; and unless it is
  about to poll TCP, a waiting UDP message is returned, the oldest first.  \<open>cm_ok\<close> says that every message of the listening queue has its connection in the other queue.
\<close>

theorem cm_receive_total:
  assumes "cm_ok m"
  shows "\<exists>r m'. cm_receive m = Ok (r, m') \<and> cm_ok m' \<and>
    (r = None \<longrightarrow> cm_rstate m' = DONE \<and> cm_udp m' = cm_udp m) \<and>
    (\<forall>um rest. cm_rstate m \<notin> {IN_TCP, OUT_TCP} \<longrightarrow> q_items (u_in_queue (uq_con (cm_udp m))) = um # rest \<longrightarrow>
       r = Some (em_ep um, em_data um))"
proof -
  obtain m0 where m0: "cm_receive m = receive_loop 11 m0" "cm_ok m0" "cm_rstate m0 \<noteq> DONE" "rank (cm_rstate m0) < 11"
    "cm_udp m0 = cm_udp m" "cm_rstate m \<notin> {IN_TCP, OUT_TCP} \<longrightarrow> cm_rstate m0 \<notin> {IN_TCP, OUT_TCP}"
    using cm_receive_start [OF assms] by blast
  obtain r m' where l: "receive_loop 11 m0 = Ok (r, m')" "cm_ok m'" "r = None \<longrightarrow> cm_rstate m' = DONE \<and> cm_udp m' = cm_udp m0"
    using receive_loop_ok [OF m0(2,4)] by blast
  have first: "r = Some (em_ep um, em_data um)"
    if "cm_rstate m \<notin> {IN_TCP, OUT_TCP}" "q_items (u_in_queue (uq_con (cm_udp m))) = um # rest" for um rest
  proof -
    obtain r1 m1 where "receive_turn m0 = Ok (r1, m1)" "cm_rstate m0 \<notin> {IN_TCP, OUT_TCP} \<longrightarrow>
        (case q_items (u_in_queue (uq_con (cm_udp m0))) of [] \<Rightarrow> r1 = None | um # _ \<Rightarrow> r1 = Some (em_ep um, em_data um))"
      using receive_turn_ok [OF m0(2,3)] by blast
    then have "receive_turn m0 = Ok (Some (em_ep um, em_data um), m1)" using m0(5,6) that by simp
    then have "receive_loop (Suc 10) m0 = Ok (Some (em_ep um, em_data um), m1)"
      using m0(3) unfolding receive_loop.simps by (simp del: bindO_Ok_iff)
    moreover have "receive_loop (Suc 10) m0 = receive_loop 11 m0" by (simp del: receive_loop.simps)
    ultimately show ?thesis using l(1) by simp
  qed
  show ?thesis using m0(1,5) l first by auto
qed

definition blank_manager :: "bool \<Rightarrow> nat \<Rightarrow> connection_manager" where
  "blank_manager listen n = \<lparr>cm_rstate = IN_UDP1, cm_out = [], cm_pool = replicate n None, cm_local_port = 6060, cm_in = None,
     cm_udp = \<lparr>uq_con = udp_connection_new, uq_rmap = [], uq_block = False\<rparr>, cm_tcp_listen = listen,
     cm_in_connections = [], cm_tcp_send_queue = queue_new\<rparr>"

lemma blank_manager_ok: "cm_ok (blank_manager False n)"
  by (simp add: cm_ok_def blank_manager_def)

theorem cm_receive_total_witness:
  "\<exists>r m'. cm_receive (blank_manager False 3) = Ok (r, m') \<and> cm_ok m'"
  using cm_receive_total [OF blank_manager_ok [of 3]] by blast

text \<open>
  A delivery is two pushes, of the message and then of its connection, under a lock that \<^verbatim>\<open>receive\<close> does not take.  A \<^verbatim>\<open>receive\<close> that is about to poll TCP
  between the two finds the message without a connection, and its check ends the process.
\<close>

theorem receive_between_pushes_exits:
  assumes "cm_rstate m = IN_TCP" "cm_in m = Some q" "listen_queue_ok q" "q_items (ts_in_queue (tq_shared q)) = []"
    and "queue_emplace_push data (ts_in_queue (tq_shared q)) = Ok pushed"
  shows "cm_receive (m\<lparr>cm_in := Some (q\<lparr>tq_shared := (tq_shared q)\<lparr>ts_in_queue := pushed\<rparr>\<rparr>)\<rparr>) = Exit"
proof -
  let ?q = "q\<lparr>tq_shared := (tq_shared q)\<lparr>ts_in_queue := pushed\<rparr>\<rparr>"
  have q: "q_items (ts_last_in (tq_shared q)) = []" "\<not> ap_block (tq_p q)" "ap_mode (tq_p q) = bind" "ap_track_incoming (tq_p q)"
    using assms(3,4) by (simp_all add: listen_queue_ok_def)
  have p: "q_items pushed = [data]" using assms(4,5) by (auto simp: queue_emplace_push_Ok)
  obtain b q1 where r: "tq_receive ?q = (Got b, q1)" "q1 = ?q\<lparr>tq_shared := (tq_shared ?q)\<lparr>ts_in_queue := ts_in_queue (tq_shared q1)\<rparr>\<rparr>"
    using tq_receive_cases [of ?q] q(2) p by auto
  have "ap_mode (tq_p q1) = bind" "ap_track_incoming (tq_p q1)" "q_items (ts_last_in (tq_shared q1)) = []"
    using q by (subst r(2), simp)+
  then have "\<exists>q2. get_socket q1 = (None, q2)" by (simp add: get_socket_def queue_pop_def split: popped.splits prod.splits)
  then obtain q2 where "get_socket q1 = (None, q2)" by blast
  then have "receive_turn (m\<lparr>cm_in := Some ?q\<rparr>) = Exit" using assms(1) r(1) by (simp add: receive_turn_def Let_def)
  then have "receive_loop (Suc 10) (m\<lparr>cm_in := Some ?q\<rparr>) = Exit" using assms(1) unfolding receive_loop.simps by simp
  moreover have "receive_loop (Suc 10) x = receive_loop 11 x" for x by (simp del: receive_loop.simps)
  ultimately show ?thesis using assms(1) by (simp add: cm_receive_def del: receive_loop.simps)
qed

definition listening_queue :: tcp_queue where
  "listening_queue = tcp_queue_blank \<lparr>ap_type = tcp, ap_mode = bind, ap_uri = [], ap_host = ''*'', ap_port = 0, ap_local_port = 6060,
     ap_block = False, ap_wait = 0, ap_track_incoming = True\<rparr>"

theorem receive_between_pushes_exits_witness:
  "\<exists>pushed. cm_receive ((blank_manager True 3)\<lparr>cm_rstate := IN_TCP,
     cm_in := Some (listening_queue\<lparr>tq_shared := (tq_shared listening_queue)\<lparr>ts_in_queue := pushed\<rparr>\<rparr>)\<rparr>) = Exit"
  using receive_between_pushes_exits [of "(blank_manager True 3)\<lparr>cm_rstate := IN_TCP, cm_in := Some listening_queue\<rparr>" listening_queue "''hi''"]
  by (fastforce simp: listening_queue_def listen_queue_ok_def tcp_queue_blank_def queue_new_def queue_emplace_push_Ok)

section \<open>Outgoing connections\<close>

lemma new_out_queue_eq:
  "\<exists>q. new_out_queue E m = Ok q \<and> pool_queue_ok q \<and> tq_is_disconnected q \<and> ap_mode (tq_p q) = delayed_connect \<and> \<not> tq_running q"
  by (auto simp: new_out_queue_def tcp_queue_new_def tq_delayed_connect_def tcp_queue_blank_def create_tcp_params_def
      tcp_bind_def tcp_connection_new_def pool_queue_ok_def tq_is_disconnected_def tcp_is_disconnected_def Let_def)

lemma first_free_le: "first_free ps \<le> length ps"
  by (induction ps) (auto split: option.splits)

lemma first_free_None: "first_free ps < length ps \<Longrightarrow> ps ! first_free ps = None"
  by (induction ps) (auto split: option.splits)

lemma first_free_full: "first_free ps = length ps \<longleftrightarrow> None \<notin> set ps"
  by (induction ps) (auto split: option.splits)

definition slot_ready :: "connection_manager \<Rightarrow> nat \<Rightarrow> bool" where
  "slot_ready m i \<longleftrightarrow> i < length (cm_pool m) \<and>
     (\<exists>q. cm_pool m ! i = Some q \<and> pool_queue_ok q \<and> tq_is_disconnected q \<and> ap_mode (tq_p q) = delayed_connect \<and> \<not> tq_running q)"

lemma find_next_available_ok:
  assumes "cm_ok m"
  shows "\<exists>i m'. find_next_available E m = Ok (i, m') \<and> cm_ok m' \<and> cm_tcp_listen m' = cm_tcp_listen m \<and>
    length (cm_pool m') = length (cm_pool m) \<and> i \<le> length (cm_pool m) \<and>
    (if None \<in> set (cm_pool m) then slot_ready m' i else i = length (cm_pool m) \<and> m' = m)"
proof -
  let ?i = "first_free (cm_pool m)"
  obtain q where q: "new_out_queue E m = Ok q" "pool_queue_ok q" "tq_is_disconnected q" "ap_mode (tq_p q) = delayed_connect" "\<not> tq_running q"
    using new_out_queue_eq by blast
  show ?thesis
  proof (cases "None \<in> set (cm_pool m)")
    case True
    then have i: "?i < length (cm_pool m)" using first_free_full [of "cm_pool m"] first_free_le [of "cm_pool m"] by linarith
    let ?m = "m\<lparr>cm_pool := (cm_pool m)[?i := Some q]\<rparr>"
    have "cm_ok ?m" using cm_ok_pool_update [OF assms q(2) i] .
    moreover have "slot_ready ?m ?i" using q i by (simp add: slot_ready_def)
    moreover have "find_next_available E m = Ok (?i, ?m)" using q(1) i by (simp add: find_next_available_def Let_def)
    ultimately show ?thesis using True i by auto
  next
    case False
    then have "?i = length (cm_pool m)" using first_free_full by simp
    then show ?thesis using False assms by (simp add: find_next_available_def)
  qed
qed

definition dead_slot :: "tcp_queue option \<Rightarrow> bool" where
  "dead_slot p \<longleftrightarrow> (case p of None \<Rightarrow> True | Some q \<Rightarrow> tq_is_disconnected q)"

lemma cleanup_pool_ok:
  assumes "cm_ok m"
  shows "\<exists>m'. cleanup_pool m = Ok m' \<and> cm_ok m' \<and> cm_tcp_listen m' = cm_tcp_listen m \<and> length (cm_pool m') = length (cm_pool m) \<and>
    (None \<in> set (cm_pool m') \<longleftrightarrow> (\<exists>p \<in> set (cm_pool m). dead_slot p))"
proof -
  define f where "f = (\<lambda>p. case p of Some q \<Rightarrow> (if tq_is_disconnected q then None else p) | None \<Rightarrow> None)"
  let ?m = "m\<lparr>cm_pool := map f (cm_pool m), cm_out := filter (\<lambda>(a, i). map f (cm_pool m) ! i \<noteq> None) (cm_out m)\<rparr>"
  have rng: "\<forall>(a, i) \<in> set (cm_out m). i < length (map f (cm_pool m))" using assms by (auto simp: cm_ok_def)
  then have run: "cleanup_pool m = Ok ?m"
    unfolding cleanup_pool_def f_def [symmetric] Let_def by simp
  have fq: "f p = Some q \<Longrightarrow> p = Some q" for p q by (auto simp: f_def split: option.splits if_splits)
  have some: "Some q \<in> set (map f (cm_pool m)) \<Longrightarrow> Some q \<in> set (cm_pool m)" for q
  proof -
    assume "Some q \<in> set (map f (cm_pool m))"
    then obtain p where "p \<in> set (cm_pool m)" "f p = Some q" by (metis imageE list.set_map)
    then show ?thesis using fq [of p q] by blast
  qed
  have "cm_ok ?m"
    unfolding cm_ok_def using assms rng some by (auto simp: cm_ok_def)
  moreover have "None \<in> set (map f (cm_pool m)) \<longleftrightarrow> (\<exists>p \<in> set (cm_pool m). dead_slot p)"
    by (auto simp: f_def dead_slot_def image_iff split: option.splits)
  ultimately show ?thesis using run by simp
qed

lemma teardown_ok:
  assumes "cm_ok m" "\<not> cm_tcp_listen m" "cm_rstate m \<noteq> IN_TCP"
  shows "\<exists>m'. teardown_and_repool_tcp_connections E m = Ok m' \<and> cm_ok m' \<and> \<not> cm_tcp_listen m' \<and> length (cm_pool m') = length (cm_pool m) \<and>
    (None \<in> set (cm_pool m') \<longleftrightarrow> (\<exists>p \<in> set (cm_pool m). dead_slot p))"
proof -
  let ?m = "m\<lparr>cm_in := None, cm_in_connections := []\<rparr>"
  have "cm_ok ?m" using assms by (auto simp: cm_ok_def)
  from cleanup_pool_ok [OF this] show ?thesis
    using assms(2) by (auto simp: teardown_and_repool_tcp_connections_def)
qed

lemma alist_put_subset: "set (alist_put k v ps) \<subseteq> insert (k, v) (set ps)"
  by (induction ps) auto

lemma start_threads_ok:
  assumes "tq_out q = Some c"
  shows "\<exists>c2. start_threads q = Ok (q\<lparr>tq_out := Some c2, tq_running := True\<rparr>) \<and> t_state c2 = t_state c"
  using assms by (auto simp: start_threads_def send_keep_alive_def tcp_send_def queue_push_Ok tcp_is_connected_def Let_def
      simp del: bindO_Ok_iff)

lemma tq_connect_ok:
  assumes "tq_out q = Some c" "t_state c = disconnected" "ap_host (tq_p q) \<noteq> []" "ap_port (tq_p q) > 0"
  shows "\<exists>c1. tq_connect be res q = Ok (q\<lparr>tq_out := Some c1\<rparr>) \<and>
    (res (ap_host (tq_p q)) (ap_port (tq_p q)) \<longrightarrow> t_state c1 = connecting)"
proof (cases "res (ap_host (tq_p q)) (ap_port (tq_p q))")
  case True
  then show ?thesis using assms
    by (intro exI [of _ "tcp_connect (c\<lparr>t_ep := \<lparr>ep_protocol = TCP, ep_address = ap_host (tq_p q), ep_port = ap_port (tq_p q)\<rparr>\<rparr>)"])
      (simp add: tq_connect_def update_endpoint_def tcp_connect_def del: bindO_Ok_iff)
next
  case False
  have e: "q\<lparr>tq_out := Some c\<rparr> = q" using assms(1) by simp
  show ?thesis using assms False by (intro exI [of _ c]) (simp add: e tq_connect_def)
qed

lemma tq_connect_to_ok:
  assumes "tq_out q = Some c" "t_state c = disconnected" "host \<noteq> []" "port > 0" "ap_mode (tq_p q) = delayed_connect" "\<not> tq_running q"
    "pool_queue_ok q"
  shows "\<exists>q1 c1. tq_connect_to be res host port q = Ok q1 \<and> pool_queue_ok q1 \<and> tq_out q1 = Some c1 \<and>
    ap_host (tq_p q1) = host \<and> ap_port (tq_p q1) = port \<and> (res host port \<longrightarrow> t_state c1 = connecting)"
proof -
  let ?q = "q\<lparr>tq_p := (tq_p q)\<lparr>ap_uri := make_tcp_address host port 0, ap_host := host, ap_port := port, ap_mode := connect\<rparr>\<rparr>"
  obtain c1 where c1: "tq_connect be res ?q = Ok (?q\<lparr>tq_out := Some c1\<rparr>)" "res host port \<longrightarrow> t_state c1 = connecting"
    using tq_connect_ok [of ?q c be res] assms by auto
  obtain c2 where c2: "start_threads (?q\<lparr>tq_out := Some c1\<rparr>) = Ok (?q\<lparr>tq_out := Some c1, tq_out := Some c2, tq_running := True\<rparr>)"
    "t_state c2 = t_state c1" using start_threads_ok [of "?q\<lparr>tq_out := Some c1\<rparr>" c1] by auto
  show ?thesis using assms c1 c2 by (simp add: tq_connect_to_def Let_def pool_queue_ok_def del: bindO_Ok_iff)
qed

lemma finish_connect_ok:
  assumes ok: "cm_ok m" and s: "slot_ready m i" and a: "parse_address (ne_ports E) address [] = Ok a" "ac_host a \<noteq> []" "ac_port a > 0"
  shows "\<exists>m'. finish_connect E address i m = Ok (Some i, m') \<and> cm_ok m' \<and> map_of (cm_out m') address = Some i \<and>
    (\<exists>q c. cm_pool m' ! i = Some q \<and> tq_out q = Some c \<and> ap_host (tq_p q) = ac_host a \<and> ap_port (tq_p q) = ac_port a \<and>
      (ne_resolvable E (ac_host a) (ac_port a) \<longrightarrow> t_state c = connecting))"
proof -
  obtain q where q: "i < length (cm_pool m)" "cm_pool m ! i = Some q" "pool_queue_ok q" "tq_is_disconnected q"
    "ap_mode (tq_p q) = delayed_connect" "\<not> tq_running q" using s by (auto simp: slot_ready_def)
  then obtain c where c: "tq_out q = Some c" "t_state c = disconnected"
    by (auto simp: pool_queue_ok_def tq_is_disconnected_def tcp_is_disconnected_def)
  obtain q1 c1 where q1: "tq_connect_to (ne_bind_err E) (ne_resolvable E) (ac_host a) (ac_port a) q = Ok q1" "pool_queue_ok q1"
     "tq_out q1 = Some c1" "ap_host (tq_p q1) = ac_host a" "ap_port (tq_p q1) = ac_port a"
     "ne_resolvable E (ac_host a) (ac_port a) \<longrightarrow> t_state c1 = connecting"
    using tq_connect_to_ok [OF c a(2,3) q(5,6,3), of "ne_bind_err E" "ne_resolvable E"] by blast
  let ?m = "m\<lparr>cm_out := alist_put address i (cm_out m), cm_pool := (cm_pool m)[i := Some q1]\<rparr>"
  have run: "finish_connect E address i m = Ok (Some i, ?m)"
    using q a(1) q1(1) by (simp add: finish_connect_def Let_def)
  have mem: "set (alist_put address i (cm_out m)) \<subseteq> insert (address, i) (set (cm_out m))"
    by (rule alist_put_subset)
  have "cm_ok (m\<lparr>cm_pool := (cm_pool m)[i := Some q1]\<rparr>)" using cm_ok_pool_update [OF ok q1(2) q(1)] .
  then have "cm_ok ?m" using mem q(1) by (auto simp: cm_ok_def)
  then show ?thesis using run q1 q(1) by auto
qed

text \<open>
  The outgoing pool: for a manager that does not listen and a well-formed address, \<^verbatim>\<open>connect\<close> never fails a check and keeps the pool in
  order.  It returns the live queue of the address if there is one; otherwise a queue that is now
  assigned to the address and set to connect to its host and port; and it returns nothing exactly when
  every slot of the pool holds a live connection and none is the address's.
\<close>

theorem cm_connect_pool:
  assumes "cm_ok m" "\<not> cm_tcp_listen m" "cm_rstate m \<noteq> IN_TCP"
    and "parse_address (ne_ports E) address [] = Ok a" "ac_host a \<noteq> []" "ac_port a > 0"
  shows "\<exists>c m'. cm_connect E address m = Ok (c, m') \<and> cm_ok m' \<and>
    (if \<exists>i q. map_of (cm_out m) address = Some i \<and> cm_pool m ! i = Some q \<and> \<not> tq_is_disconnected q
     then m' = m \<and> c = map_of (cm_out m) address
     else if \<exists>p \<in> set (cm_pool m). dead_slot p
     then c \<noteq> None \<and> map_of (cm_out m') address = c \<and>
       (\<exists>q. cm_pool m' ! the c = Some q \<and> ap_host (tq_p q) = ac_host a \<and> ap_port (tq_p q) = ac_port a)
     else c = None)"
proof -
  have g: "get_connected_queue address m = Ok (if \<exists>i q. map_of (cm_out m) address = Some i \<and> cm_pool m ! i = Some q \<and> \<not> tq_is_disconnected q
     then map_of (cm_out m) address else None)"
  proof (cases "map_of (cm_out m) address")
    case (Some i)
    then obtain q where "i < length (cm_pool m)" "cm_pool m ! i = Some q"
      using assms(1) map_of_SomeD [OF Some] by (fastforce simp: cm_ok_def)
    then show ?thesis using Some by (auto simp: get_connected_queue_def)
  qed (simp add: get_connected_queue_def)
  show ?thesis
  proof (cases "\<exists>i q. map_of (cm_out m) address = Some i \<and> cm_pool m ! i = Some q \<and> \<not> tq_is_disconnected q")
    case True
    then have "cm_connect E address m = Ok (map_of (cm_out m) address, m)"
      unfolding cm_connect_def g using True by (auto simp del: bindO_Ok_iff)
    then show ?thesis using True assms(1) by auto
  next
    case nocon: False
    have g0: "get_connected_queue address m = Ok None" unfolding g using nocon by (simp only: if_False)
    obtain i m1 where f: "find_next_available E m = Ok (i, m1)" "cm_ok m1" "length (cm_pool m1) = length (cm_pool m)"
      "if None \<in> set (cm_pool m) then slot_ready m1 i else i = length (cm_pool m) \<and> m1 = m"
      using find_next_available_ok [OF assms(1), of E] by blast
    show ?thesis
    proof (cases "None \<in> set (cm_pool m)")
      case True
      then have dead: "\<exists>p \<in> set (cm_pool m). dead_slot p" by (force simp: dead_slot_def)
      have sl: "slot_ready m1 i" using f(4) True by simp
      then have i: "i < length (cm_pool m1)" by (simp add: slot_ready_def)
      obtain m' where m': "finish_connect E address i m1 = Ok (Some i, m')" "cm_ok m'" "map_of (cm_out m') address = Some i"
        "\<exists>q c. cm_pool m' ! i = Some q \<and> tq_out q = Some c \<and> ap_host (tq_p q) = ac_host a \<and> ap_port (tq_p q) = ac_port a \<and>
          (ne_resolvable E (ac_host a) (ac_port a) \<longrightarrow> t_state c = connecting)"
        using finish_connect_ok [OF f(2) sl assms(4,5,6)] by blast
      have "cm_connect E address m = Ok (Some i, m')"
        unfolding cm_connect_def g0 using f(1) i m'(1) by (simp del: bindO_Ok_iff)
      then show ?thesis using nocon dead m' by auto
    next
      case full: False
      then have i: "i = length (cm_pool m)" "m1 = m" using f(4) by auto
      obtain m2 where t: "teardown_and_repool_tcp_connections E m = Ok m2" "cm_ok m2"
        "None \<in> set (cm_pool m2) \<longleftrightarrow> (\<exists>p \<in> set (cm_pool m). dead_slot p)"
        using teardown_ok [OF assms(1,2,3), of E] by blast
      obtain j m3 where f3: "find_next_available E m2 = Ok (j, m3)" "cm_ok m3"
        "if None \<in> set (cm_pool m2) then slot_ready m3 j else j = length (cm_pool m2) \<and> m3 = m2"
        using find_next_available_ok [OF t(2), of E] by blast
      show ?thesis
      proof (cases "None \<in> set (cm_pool m2)")
        case True
        then have sl: "slot_ready m3 j" using f3(3) by simp
        then have j: "j < length (cm_pool m3)" by (simp add: slot_ready_def)
        obtain m' where m': "finish_connect E address j m3 = Ok (Some j, m')" "cm_ok m'" "map_of (cm_out m') address = Some j"
          "\<exists>q c. cm_pool m' ! j = Some q \<and> tq_out q = Some c \<and> ap_host (tq_p q) = ac_host a \<and> ap_port (tq_p q) = ac_port a \<and>
            (ne_resolvable E (ac_host a) (ac_port a) \<longrightarrow> t_state c = connecting)"
          using finish_connect_ok [OF f3(2) sl assms(4,5,6)] by blast
        have "cm_connect E address m = Ok (Some j, m')"
          unfolding cm_connect_def g0 using f(1) i t(1) f3(1) j m'(1) by (simp del: bindO_Ok_iff)
        then show ?thesis using nocon t(3) True m' by auto
      next
        case False
        then have j: "j = length (cm_pool m3)" "m3 = m2" using f3(3) by auto
        have "cm_connect E address m = Ok (None, m3)"
          unfolding cm_connect_def g0 using f(1) i t(1) f3(1) j by (simp del: bindO_Ok_iff)
        then show ?thesis using nocon t(2,3) False j by auto
      qed
    qed
  qed
qed

definition plain_env :: net_env where
  "plain_env = \<lparr>ne_ports = decimal_ports, ne_bind_err = False, ne_resolvable = (\<lambda>_ _. True), ne_resolver = (\<lambda>h _. Some h)\<rparr>"

lemma plain_address: "parse_address (ne_ports plain_env) (make_tcp_address ''h'' 80 0) [] =
    Ok \<lparr>ac_address = make_tcp_address ''h'' 80 0, ac_transport = TCP, ac_host = ''h'', ac_port = 80, ac_options = []\<rparr>"
proof -
  have "clean TCP" "clean ''h''" by (simp_all add: clean_def TCP_def is_space_def)
  from dp.parse_made_address [OF this, of "[]" 80 0] show ?thesis by (simp add: plain_env_def make_tcp_address_def)
qed

theorem cm_connect_pool_witness:
  "\<exists>c m'. cm_connect plain_env (make_tcp_address ''h'' 80 0) (blank_manager False 2) = Ok (c, m') \<and> c \<noteq> None"
proof -
  have d: "\<exists>p \<in> set (cm_pool (blank_manager False 2)). dead_slot p"
    by (simp add: blank_manager_def dead_slot_def)
  have n: "\<not> cm_tcp_listen (blank_manager False 2)" "cm_rstate (blank_manager False 2) \<noteq> IN_TCP" "cm_out (blank_manager False 2) = []"
    by (simp_all add: blank_manager_def)
  show ?thesis
    using cm_connect_pool [OF blank_manager_ok n(1,2) plain_address] d n(3) by (auto simp: word_gt_0)
qed

section \<open>A listening manager\<close>

definition pool_full :: "connection_manager \<Rightarrow> bool" where
  "pool_full m \<longleftrightarrow> None \<notin> set (cm_pool m) \<and> cm_out m = [] \<and> cm_tcp_listen m"

lemma create_tcp_pool_full:
  "\<exists>m'. create_tcp_pool E m = Ok m' \<and> None \<notin> set (cm_pool m') \<and> cm_out m' = cm_out m \<and> cm_tcp_listen m' = cm_tcp_listen m \<and>
     cm_in m' = cm_in m \<and> cm_local_port m' = cm_local_port m \<and> length (cm_pool m') = length (cm_pool m)"
proof -
  let ?f = "\<lambda>i m. bindO (new_out_queue E m) (\<lambda>q. Ok (m\<lparr>cm_pool := (cm_pool m)[i := Some q]\<rparr>))"
  have "k \<le> length (cm_pool m) \<Longrightarrow> \<exists>m'. foldO ?f [0..<k] m = Ok m' \<and> length (cm_pool m') = length (cm_pool m) \<and>
      (\<forall>i < k. cm_pool m' ! i \<noteq> None) \<and> cm_out m' = cm_out m \<and> cm_tcp_listen m' = cm_tcp_listen m \<and> cm_in m' = cm_in m \<and>
      cm_local_port m' = cm_local_port m" for k
  proof (induction k)
    case (Suc k)
    then obtain m1 where m1: "foldO ?f [0..<k] m = Ok m1" "length (cm_pool m1) = length (cm_pool m)"
      "\<forall>i < k. cm_pool m1 ! i \<noteq> None" "cm_out m1 = cm_out m" "cm_tcp_listen m1 = cm_tcp_listen m" "cm_in m1 = cm_in m"
      "cm_local_port m1 = cm_local_port m" by auto
    obtain q where q: "new_out_queue E m1 = Ok q" using new_out_queue_eq by blast
    show ?case using m1 q Suc.prems
      by (intro exI [of _ "m1\<lparr>cm_pool := (cm_pool m1)[k := Some q]\<rparr>"])
        (auto simp: foldO_append nth_list_update less_Suc_eq simp del: bindO_Ok_iff)
  qed simp
  from this [of "length (cm_pool m)"] show ?thesis
    by (auto simp: create_tcp_pool_def in_set_conv_nth)
qed

lemma create_tcp_endpoint_ok:
  assumes "port_cast (ne_ports E)" "cm_in m = None" "cm_local_port m > 0"
  shows "\<exists>q. create_tcp_endpoint E m = Ok (m\<lparr>cm_in := Some q\<rparr>)"
proof -
  let ?d = "[(''block'', ''0''), (''bnd'', ''1''), (''track_incoming'', ''1'')]"
  have "clean TCP" "clean ''*''" by (simp_all add: clean_def TCP_def is_space_def)
  then have a: "parse_address (ne_ports E) (make_tcp_address ''*'' (cm_local_port m) 0) ?d = Ok
      \<lparr>ac_address = make_tcp_address ''*'' (cm_local_port m) 0, ac_transport = TCP, ac_host = ''*'', ac_port = cm_local_port m, ac_options = ?d\<rparr>"
    using port_cast.parse_made_address [OF assms(1), of TCP "''*''" ?d "cm_local_port m" 0] by (simp add: make_tcp_address_def)
  have s1: "show_nat (Suc 0) = ''1''" by code_simp
  have o: "read_opt (ne_ports E) ''0'' = Some 0" "read_opt (ne_ports E) ''1'' = Some 1" "read_port (ne_ports E) ''0'' = Some 0"
    using port_cast.read_opt [OF assms(1), of 0] port_cast.read_opt [OF assms(1), of 1] port_cast.read_port [OF assms(1), of 0]
    by (simp_all add: s1)
  show ?thesis using assms(2,3) a o
    by (auto simp: create_tcp_endpoint_def create_tcp_queue_def parse_params_def get_opt_def parse_port_def Let_def
        determine_connection_mode_def tcp_queue_new_def tq_accept_def tcp_queue_blank_def start_threads_def simp del: bindO_Ok_iff)
qed

lemma teardown_full:
  assumes "port_cast (ne_ports E)" "cm_out m = []" "cm_tcp_listen m" "cm_local_port m > 0"
  shows "\<exists>m'. teardown_and_repool_tcp_connections E m = Ok m' \<and> pool_full m' \<and> cm_in m' \<noteq> None \<and>
    length (cm_pool m') = length (cm_pool m) \<and> cm_local_port m' = cm_local_port m"
proof -
  define m1 where "m1 = m\<lparr>cm_in := None, cm_in_connections := []\<rparr>"
  obtain m2 where m2: "cleanup_pool m1 = Ok m2" "cm_out m2 = []" "cm_tcp_listen m2" "cm_in m2 = None"
    "cm_local_port m2 = cm_local_port m" "length (cm_pool m2) = length (cm_pool m)"
    using assms(2,3) by (simp add: cleanup_pool_def m1_def Let_def)
  obtain m3 where m3: "create_tcp_pool E m2 = Ok m3" "None \<notin> set (cm_pool m3)" "cm_out m3 = []" "cm_tcp_listen m3" "cm_in m3 = None"
    "cm_local_port m3 = cm_local_port m" "length (cm_pool m3) = length (cm_pool m)" using create_tcp_pool_full [of E m2] m2 by auto
  obtain q where "create_tcp_endpoint E m3 = Ok (m3\<lparr>cm_in := Some q\<rparr>)"
    using create_tcp_endpoint_ok [OF assms(1) m3(5)] m3(6) assms(4) by auto
  then show ?thesis using m2 m3 unfolding teardown_and_repool_tcp_connections_def m1_def [symmetric] Let_def
    by (simp add: pool_full_def del: bindO_Ok_iff)
qed

lemma full_connect:
  assumes "port_cast (ne_ports E)" "pool_full m" "cm_local_port m > 0"
  shows "\<exists>m'. cm_connect E address m = Ok (None, m') \<and> pool_full m' \<and> cm_local_port m' = cm_local_port m"
proof -
  have out: "cm_out m = []" "cm_tcp_listen m" and full: "first_free (cm_pool m) = length (cm_pool m)"
    using assms(2) first_free_full by (auto simp: pool_full_def)
  obtain m' where m': "teardown_and_repool_tcp_connections E m = Ok m'" "pool_full m'" "cm_local_port m' = cm_local_port m"
    using teardown_full [OF assms(1) out assms(3)] by blast
  then have full': "first_free (cm_pool m') = length (cm_pool m')" using first_free_full by (auto simp: pool_full_def)
  show ?thesis using m' out full full'
    by (simp add: cm_connect_def get_connected_queue_def find_next_available_def Let_def del: bindO_Ok_iff)
qed

text \<open>
  C19. A listening manager cannot open TCP connections: its constructor fills every slot of the pool with an unconnected queue,
  \<^verbatim>\<open>find_next_available\<close> only takes empty slots, and the tear-down that should free slots fills them again.  So \<^verbatim>\<open>connect\<close>
  returns the null pointer for every address, from the first call on, and outgoing TCP messages are dropped.
\<close>

theorem listening_never_connects:
  assumes "port_cast (ne_ports E)" "local_port > 0" "n > 0"
  shows "\<exists>m. connection_manager_new E n local_port True = Ok m \<and>
    (\<exists>m'. foldO (\<lambda>a m. bindO (cm_connect E a m) (\<lambda>(c, m1). contract (c = None) (Ok m1))) addresses m = Ok m')"
proof -
  let ?m0 = "\<lparr>cm_rstate = IN_UDP1, cm_out = [], cm_pool = replicate n None, cm_local_port = local_port, cm_in = None,
               cm_udp = \<lparr>uq_con = udp_connection_new, uq_rmap = [], uq_block = False\<rparr>, cm_tcp_listen = True,
               cm_in_connections = [], cm_tcp_send_queue = queue_new\<rparr>"
  obtain m1 where m1: "teardown_and_repool_tcp_connections E ?m0 = Ok m1" "pool_full m1" "cm_in m1 \<noteq> None"
    "length (cm_pool m1) = n" "cm_local_port m1 = local_port"
    using teardown_full [OF assms(1), of ?m0] assms(2) by auto
  define m where "m = m1\<lparr>cm_udp := \<lparr>uq_con = udp_connection_new, uq_rmap = [], uq_block = False\<rparr>\<rparr>"
  have "cm_pool m1 \<noteq> []" using m1(4) assms(3) by auto
  then have new: "connection_manager_new E n local_port True = Ok m"
    using m1 assms(2) by (simp add: connection_manager_new_def create_udp_endpoint_def udp_params_def m_def del: bindO_Ok_iff)
  have "pool_full m0 \<Longrightarrow> cm_local_port m0 = local_port \<Longrightarrow>
    \<exists>m'. foldO (\<lambda>a m. bindO (cm_connect E a m) (\<lambda>(c, m1). contract (c = None) (Ok m1))) addresses m0 = Ok m'" for m0
  proof (induction addresses arbitrary: m0)
    case (Cons a as)
    obtain m' where "cm_connect E a m0 = Ok (None, m')" "pool_full m'" "cm_local_port m' = local_port"
      using full_connect [OF assms(1) Cons.prems(1), of a] Cons.prems(2) assms(2) by auto
    then show ?case using Cons.IH [of m'] by (simp del: bindO_Ok_iff)
  qed simp
  then show ?thesis using new m1(2,5) by (auto simp: m_def pool_full_def)
qed

theorem listening_never_connects_witness:
  "\<exists>m m'. connection_manager_new plain_env 20 6060 True = Ok m \<and>
     bindO (cm_connect plain_env ''tcp://10.0.0.1:80'' m) (\<lambda>(c, m1). contract (c = None) (Ok m1)) = Ok m'"
  using listening_never_connects [of plain_env 6060 20 "[''tcp://10.0.0.1:80'']"] dp.port_cast_axioms
  by (auto simp: plain_env_def word_gt_0 simp del: bindO_Ok_iff)

end
