(* ===== verification/Master_Post.thy ===== *)
theory Master_Post
  imports Post_Office Security Connection_Manager Compression
begin

text \<open>
  The master post office, \<^verbatim>\<open>src/src/message/master_post.cpp\<close>: where the tree of post offices meets the network.  One turn of its
  out thread takes a message from the queue \<^verbatim>\<open>_out\<close>, encodes, compresses and encrypts it and gives it to the connection manager; one turn of
  its in thread undoes that for what the connection manager received and routes the message inside.  Compression is Google's snappy, a parameter
  (\<^verbatim>\<open>src/src/util/compress.cpp\<close>).
\<close>

section \<open>State\<close>

text \<open>
  \<open>mp_id\<close> is the office itself in the world of offices and mailboxes; its queue \<^verbatim>\<open>_out\<close> is the field \<open>po_out\<close> of that office.
\<close>

record ('r, 'k) master =
  mp_world :: post_world
  mp_id :: nat
  mp_conn :: connection_manager
  mp_chan :: "'k encrypted_channels"
  mp_rng :: "'r option"

text \<open>\<^verbatim>\<open>if(o->_outside_stats.on) o->_outside_stats.<count>++\<close>\<close>

definition count_outside :: "(mailbox_stats \<Rightarrow> mailbox_stats) \<Rightarrow> ('r, 'k) master \<Rightarrow> ('r, 'k) master" where
  "count_outside f o1 =
     (case pw_offices (mp_world o1) (mp_id o1) of
        None \<Rightarrow> o1
      | Some po \<Rightarrow>
          if stats_on (po_stats po)
          then o1\<lparr>mp_world := set_office (mp_id o1) (po\<lparr>po_stats := f (po_stats po)\<rparr>) (mp_world o1)\<rparr>
          else o1)"

definition to_message_encryption_type :: "sc_encryption_type \<Rightarrow> encryption_type outcome" where
  "to_message_encryption_type s =
     (case s of EPlaintext \<Rightarrow> Ok plaintext | ESymmetric \<Rightarrow> Ok symmetric | EAsymmetric \<Rightarrow> Ok asymmetric | EUnknown \<Rightarrow> Exit)"

section \<open>The in thread\<close>

text \<open>The metadata that the receiver adds; \<^verbatim>\<open>ep.port\<close> is promoted to \<^verbatim>\<open>int\<close>.\<close>

definition add_origin :: "endpoint \<Rightarrow> encryption_type \<Rightarrow> message \<Rightarrow> message" where
  "add_origin ep t m =
     (let e1 = dict_put ''from_protocol'' (value_of_string (ep_protocol ep)) (mt_extra (m_meta m));
          e2 = dict_put ''from_ip'' (value_of_string (ep_address ep)) e1;
          e3 = dict_put ''from_port'' (value_of_int (ucast (ep_port ep))) e2
      in m\<lparr>m_meta := (m_meta m)\<lparr>mt_extra := e3, mt_encryption := t, mt_source := remote\<rparr>\<rparr>)"

definition in_message ::
    "nat \<Rightarrow> cxx_lib \<Rightarrow> snappy_lib \<Rightarrow> ('r, 'k) botan \<Rightarrow> endpoint \<Rightarrow> bytes \<Rightarrow> ('r, 'k) master \<Rightarrow> ('r, 'k) master outcome" where
  "in_message n L S B ep data o1 =
     bindO (channels_decrypt L B (mp_chan o1) (make_address_str ep) data (mp_rng o1)) (\<lambda>(d, et).
       if d = [] then Ok o1
       else
         let u = uncompress S d in
         if u = [] then Ok o1
         else
           bindO (decode_message L u) (\<lambda>m.
             if m_to m = [] then Ok o1
             else
               (case et of
                  None \<Rightarrow> Undef
                | Some s \<Rightarrow>
                    bindO (to_message_encryption_type s) (\<lambda>t.
                    bindO (po_send n {} (mp_id o1) (pop_to (add_origin ep t m)) (mp_world o1)) (\<lambda>(_, w).
                      Ok (count_outside (\<lambda>s. s\<lparr>in_pop_count := in_pop_count s + 1\<rparr>) (o1\<lparr>mp_world := w\<rparr>)))))))"

text \<open>
  One turn of \<^verbatim>\<open>in_thread\<close>.  An exception is logged and the turn ends; everything that can throw comes before the message is
  sent, so only the receipt and its count remain (the state of the random number generator is not tracked through an exception).
\<close>

definition in_step ::
    "nat \<Rightarrow> cxx_lib \<Rightarrow> snappy_lib \<Rightarrow> ('r, 'k) botan \<Rightarrow> ('r, 'k) master \<Rightarrow> ('r, 'k) master outcome" where
  "in_step n L S B o1 =
     (case cm_receive (mp_conn o1) of
        Ok (None, c) \<Rightarrow> Ok (o1\<lparr>mp_conn := c\<rparr>)
      | Ok (Some (ep, data), c) \<Rightarrow>
          let o2 = count_outside (\<lambda>s. s\<lparr>in_push_count := in_push_count s + 1\<rparr>) (o1\<lparr>mp_conn := c\<rparr>) in
          (case in_message n L S B ep data o2 of Throw e \<Rightarrow> Ok o2 | r \<Rightarrow> r)
      | Throw e \<Rightarrow> Ok o1
      | Exit \<Rightarrow> Exit | Undef \<Rightarrow> Undef | Diverge \<Rightarrow> Diverge)"

section \<open>The out thread\<close>

definition encrypt_message ::
    "cxx_lib \<Rightarrow> ('r, 'k) botan \<Rightarrow> bytes \<Rightarrow> message \<Rightarrow> string \<Rightarrow> 'k encrypted_channels \<Rightarrow> 'r option \<Rightarrow> (bytes \<times> 'r option) outcome" where
  "encrypt_message L B data m conversation_id sl g =
     (case mt_encryption (m_meta m) of
        plaintext \<Rightarrow> Ok (encrypt_plaintext data, g)
      | symmetric \<Rightarrow> bindO (encrypt_symmetric B sl conversation_id data) (\<lambda>d. Ok (d, g))
      | asymmetric \<Rightarrow> encrypt_asymmetric L B sl conversation_id data g
      | conversation \<Rightarrow> channels_encrypt L B sl conversation_id data g)"

definition out_message ::
    "cxx_lib \<Rightarrow> snappy_lib \<Rightarrow> ('r, 'k) botan \<Rightarrow> net_env \<Rightarrow> message \<Rightarrow> ('r, 'k) master \<Rightarrow> ('r, 'k) master outcome" where
  "out_message L S B E m o1 =
     contract (length (m_from m) \<ge> 1) (contract (length (m_to m) \<ge> 1)
       (let outside_queue_address = hd (m_to m);
            data = compress S (encode_message L m)
        in bindO (encrypt_message L B data m outside_queue_address (mp_chan o1) (mp_rng o1)) (\<lambda>(d, g).
           bindO (cm_send E outside_queue_address d (mt_robust (m_meta m)) (mp_conn o1)) (\<lambda>(_, c).
             Ok (count_outside (\<lambda>s. s\<lparr>out_pop_count := out_pop_count s + 1\<rparr>) (o1\<lparr>mp_conn := c, mp_rng := g\<rparr>))))))"

text \<open>
  One turn of \<^verbatim>\<open>out_thread\<close>, \<open>None\<close> while the pop waits.  The message is gone from the queue when an exception ends the turn.
\<close>

definition out_step ::
    "cxx_lib \<Rightarrow> snappy_lib \<Rightarrow> ('r, 'k) botan \<Rightarrow> net_env \<Rightarrow> ('r, 'k) master \<Rightarrow> ('r, 'k) master option outcome" where
  "out_step L S B E o1 =
     (case pw_offices (mp_world o1) (mp_id o1) of
        None \<Rightarrow> Undef
      | Some po \<Rightarrow>
          (case po_out po of
             None \<Rightarrow> Undef
           | Some q \<Rightarrow>
               (case queue_pop True q of
                  (Blocked, _) \<Rightarrow> Ok None
                | (NoItem, q1) \<Rightarrow> Ok (Some o1)
                | (Got m, q1) \<Rightarrow>
                    let o2 = o1\<lparr>mp_world := set_office (mp_id o1) (po\<lparr>po_out := Some q1\<rparr>) (mp_world o1)\<rparr> in
                    (case out_message L S B E m o2 of
                       Ok o3 \<Rightarrow> Ok (Some o3)
                     | Throw e \<Rightarrow> Ok (Some o2)
                     | Exit \<Rightarrow> Exit | Undef \<Rightarrow> Undef | Diverge \<Rightarrow> Diverge))))"

section \<open>Construction\<close>

definition master_office :: "string \<Rightarrow> u16 \<Rightarrow> post_office" where
  "master_office in_host in_port = (post_office_new (make_udp_address in_host in_port 0))\<lparr>po_out := Some queue_new\<rparr>"

section \<open>From one master to another\<close>

lemma encode_message_nonempty: "encode_message L m \<noteq> []"
  by (simp add: encode_message_def encode_b_def Let_def)

lemma to_message_encryption_chosen: "\<exists>t. to_message_encryption_type (chosen_type e i) = Ok t"
  by (auto simp: to_message_encryption_type_def chosen_type_def split: option.splits)

lemma m_to_add_origin [simp]: "m_to (add_origin ep t m) = m_to m"
  by (simp add: add_origin_def Let_def)

lemma m_to_as_received [simp]: "m_to (as_received m) = m_to m"
  by (simp add: as_received_def)

text \<open>What a turn of the in thread does once the bytes are decrypted to a compressed message.\<close>

lemma in_message_decrypted:
  assumes S: "snappy_laws S" and L: "lexical_cast L" and wf: "wf_message L m" and to: "m_to m \<noteq> []"
    and dec: "channels_decrypt L B (mp_chan o1) (make_address_str ep) data (mp_rng o1) = Ok (compress S (encode_message L m), Some s)"
    and t: "to_message_encryption_type s = Ok t"
  shows "in_message n L S B ep data o1 =
     bindO (po_send n {} (mp_id o1) (pop_to (add_origin ep t (as_received m))) (mp_world o1)) (\<lambda>(_, w).
       Ok (count_outside (\<lambda>s. s\<lparr>in_pop_count := in_pop_count s + 1\<rparr>) (o1\<lparr>mp_world := w\<rparr>)))"
proof -
  have c: "compress S (encode_message L m) \<noteq> []" "uncompress S (compress S (encode_message L m)) = encode_message L m"
    using snappy_laws.compress_nonempty [OF S] snappy_laws.uncompress_compress [OF S]
    by (simp_all add: compress_def uncompress_def to_bytes_def)
  show ?thesis
    using dec c encode_message_nonempty [of L m] lexical_cast.message_roundtrip [OF L wf] to t
    by (simp add: in_message_def Let_def del: bindO_Ok_iff)
qed

lemma decrypt_plaintext:
  assumes "snappy_laws S"
  shows "channels_decrypt L B e i (encrypt_plaintext (compress S b)) g = Ok (compress S b, Some EPlaintext)"
  using snappy_laws.compress_nonempty [OF assms, of b]
  by (simp add: channels_decrypt_def encrypt_plaintext_def append_prefix_def compress_def to_bytes_def Suc_less_eq2)

lemma in_message_plaintext:
  assumes "snappy_laws S" "lexical_cast L" "wf_message L m" "m_to m \<noteq> []"
  shows "in_message n L S B ep (encrypt_plaintext (compress S (encode_message L m))) o1 =
     bindO (po_send n {} (mp_id o1) (pop_to (add_origin ep plaintext (as_received m))) (mp_world o1)) (\<lambda>(_, w).
       Ok (count_outside (\<lambda>s. s\<lparr>in_pop_count := in_pop_count s + 1\<rparr>) (o1\<lparr>mp_world := w\<rparr>)))"
  by (rule in_message_decrypted [OF assms decrypt_plaintext [OF assms(1)]]) (simp add: to_message_encryption_type_def)

lemma count_outside_boxes [simp]: "pw_boxes (mp_world (count_outside f o1)) = pw_boxes (mp_world o1)"
  by (simp add: count_outside_def set_office_def split: option.splits)

lemma count_outside_out:
  "pw_offices (mp_world o1) (mp_id o1) = Some po \<Longrightarrow>
     \<exists>po'. pw_offices (mp_world (count_outside f o1)) (mp_id o1) = Some po' \<and> po_out po' = po_out po"
  by (simp add: count_outside_def set_office_def)

section \<open>A concrete compression\<close>

definition sample_master :: "nat \<Rightarrow> nat \<Rightarrow> (nat, nat) master" where
  "sample_master own peer =
     \<lparr>mp_world = \<lparr>pw_boxes = [5 \<mapsto> mailbox_new ''chat''],
         pw_offices = [0 \<mapsto> (master_office ''h'' 1)\<lparr>po_boxes := [(''chat'', 5)], po_offices := [(''app'', 1)]\<rparr>,
                       1 \<mapsto> (post_office_new ''app'')\<lparr>po_parent := Some 0\<rparr>]\<rparr>,
      mp_id = 0, mp_conn = blank_manager False 30, mp_chan = sample_end own peer 5, mp_rng = Some 0\<rparr>"

definition sample_mail :: "string list \<Rightarrow> message" where
  "sample_mail to = \<lparr>m_meta = metadata_default\<lparr>mt_type := ''hi'', mt_to := to, mt_from := [''u'']\<rparr>, m_data = ''data''\<rparr>"

definition sample_ep :: endpoint where
  "sample_ep = \<lparr>ep_protocol = ''udp'', ep_address = ''p'', ep_port = 1\<rparr>"

lemma sample_address: "make_udp_address ''h'' 1 0 = ''udp://h:1''"
  by code_simp

lemma wf_sample_mail:
  "wf_message decimal_lib (sample_mail [''udp://p:1'', ''chat''])" "wf_message decimal_lib (sample_mail [''me'', ''udp://q:2'', ''x''])"
  "wf_message decimal_lib (sample_mail [''me'', ''app'', ''x'', ''y''])"
  by (simp_all add: wf_message_def Let_def sample_mail_def metadata_default_def address_array_def encode_array_def encode_dict_def encode_b_def
      decimal_lib_def show_nat.simps enc_def)

section \<open>Properties\<close>

text \<open>
  C1. End to end: what the out thread of one node sends for a message addressed to a mailbox of another node, the in thread of that node, whatever
  protection the channel between them has, turns back into the message and puts into that mailbox, with type, data and sender unchanged
  and the origin and the encryption recorded.
\<close>

theorem message_end_to_end:
  assumes "botan_laws L B pair" "snappy_laws S" "wf_message L m" "m_to m = [addr, box]" "m_from m \<noteq> []"
    "mt_encryption (m_meta m) = conversation"
    "ends_agree pair (mp_chan oA) addr (mp_chan oB) (make_address_str ep)" "mp_rng oB \<noteq> None"
    "pw_offices (mp_world oB) (mp_id oB) = Some po" "map_of (po_boxes po) box = Some b" "pw_boxes (mp_world oB) b = Some mb" "0 < n"
  shows "\<exists>data g t oB' mb'.
     out_message L S B E m oA =
       bindO (cm_send E addr data (mt_robust (m_meta m)) (mp_conn oA)) (\<lambda>(_, c).
         Ok (count_outside (\<lambda>s. s\<lparr>out_pop_count := out_pop_count s + 1\<rparr>) (oA\<lparr>mp_conn := c, mp_rng := g\<rparr>))) \<and>
     in_message n L S B ep data oB = Ok oB' \<and> pw_boxes (mp_world oB') b = Some mb' \<and>
     to_message_encryption_type (chosen_type (mp_chan oA) addr) = Ok t \<and>
     inbox mb' = inbox mb @ [pop_to (add_origin ep t (as_received m))]"
proof -
  let ?c = "compress S (encode_message L m)"
  have L: "lexical_cast L" using assms(1) by (simp add: botan_laws_def)
  have "?c \<noteq> []" using snappy_laws.compress_nonempty [OF assms(2)] by (simp add: compress_def to_bytes_def)
  then obtain data g where d: "channels_encrypt L B (mp_chan oA) addr ?c (mp_rng oA) = Ok (data, g)"
      "channels_decrypt L B (mp_chan oB) (make_address_str ep) data (mp_rng oB) = Ok (?c, Some (chosen_type (mp_chan oA) addr))"
    using botan_laws.channel_roundtrip [OF assms(1, 7) _ assms(8)] by blast
  obtain t where t: "to_message_encryption_type (chosen_type (mp_chan oA) addr) = Ok t" using to_message_encryption_chosen by blast
  define m' where "m' = pop_to (add_origin ep t (as_received m))"
  obtain k where n: "n = Suc k" using assms(12) by (cases n) auto
  obtain mb' where mb': "push_inbox m' mb = Ok mb'" "inbox mb' = inbox mb @ [m']" using push_inbox_Ok by blast
  have to: "m_to m' = [box]" using assms(4) by (simp add: m'_def)
  then have "po_send n {} (mp_id oB) m' (mp_world oB) = Ok (True, set_box b mb' (mp_world oB))"
    using po_send_short [OF assms(9), of m' k "{}"] assms(10, 11) mb'(1) n by (simp add: deliver_box_def)
  then have i: "in_message n L S B ep data oB =
      Ok (count_outside (\<lambda>s. s\<lparr>in_pop_count := in_pop_count s + 1\<rparr>) (oB\<lparr>mp_world := set_box b mb' (mp_world oB)\<rparr>))"
    using in_message_decrypted [OF assms(2) L assms(3) _ d(2) t, of n] assms(4) by (simp add: m'_def del: bindO_Ok_iff)
  have "out_message L S B E m oA =
       bindO (cm_send E addr data (mt_robust (m_meta m)) (mp_conn oA)) (\<lambda>(_, c).
         Ok (count_outside (\<lambda>s. s\<lparr>out_pop_count := out_pop_count s + 1\<rparr>) (oA\<lparr>mp_conn := c, mp_rng := g\<rparr>)))"
    using d(1) assms(4, 5, 6) by (simp add: out_message_def encrypt_message_def Let_def Suc_le_eq del: bindO_Ok_iff)
  then show ?thesis using i t mb'(2)
    by (intro exI [of _ data] exI [of _ g] exI [of _ t]) (simp add: set_box_def m'_def)
qed

theorem message_end_to_end_witness:
  "\<exists>data g t oB' mb'.
     out_message decimal_lib model_snappy model_botan plain_env (sample_mail [''udp://p:1'', ''chat'']) (sample_master 1 2) =
       bindO (cm_send plain_env ''udp://p:1'' data True (mp_conn (sample_master 1 2))) (\<lambda>(_, c).
         Ok (count_outside (\<lambda>s. s\<lparr>out_pop_count := out_pop_count s + 1\<rparr>) ((sample_master 1 2)\<lparr>mp_conn := c, mp_rng := g\<rparr>))) \<and>
     in_message 1 decimal_lib model_snappy model_botan sample_ep data (sample_master 2 1) = Ok oB' \<and> pw_boxes (mp_world oB') 5 = Some mb' \<and>
     to_message_encryption_type (chosen_type (mp_chan (sample_master 1 2)) ''udp://p:1'') = Ok t \<and>
     inbox mb' = [pop_to (add_origin sample_ep t (as_received (sample_mail [''udp://p:1'', ''chat''])))]"
  using message_end_to_end [OF mb.botan_laws_axioms ms.snappy_laws_axioms wf_sample_mail(1), of "''udp://p:1''" "''chat''"
      "sample_master 1 2" "sample_master 2 1" sample_ep "(master_office ''h'' 1)\<lparr>po_boxes := [(''chat'', 5)], po_offices := [(''app'', 1)]\<rparr>" 5
      "mailbox_new ''chat''" 1 plain_env]
  by (simp add: sample_mail_def metadata_default_def sample_master_def sample_end_def sample_channel_def ends_agree_def mailbox_new_def umailbox_new_def queue_new_def)

text \<open>
  A remote peer can make a node relay.  A message that arrives, even in the clear and from a peer without a channel, with a second
  address that no office inside answers to is not discarded: the master puts it on its own queue to the outside world, to be encrypted for and sent
  to that address with this node as the sender.
\<close>

theorem remote_message_relayed:
  assumes "lexical_cast L" "snappy_laws S" "wf_message L m" "m_to m = me # x # y # zs"
    "pw_offices (mp_world o1) (mp_id o1) = Some po" "po_parent po = None" "x \<noteq> po_address po" "map_of (po_offices po) x = None"
    "po_out po = Some q" "0 < n"
  shows "\<exists>o2 po2 r. in_message n L S B ep (encrypt_plaintext (compress S (encode_message L m))) o1 = Ok o2 \<and>
     pw_offices (mp_world o2) (mp_id o1) = Some po2 \<and> po_out po2 = Some (q\<lparr>q_items := q_items q @ [r]\<rparr>) \<and>
     m_to r = x # y # zs \<and> m_from r = po_address po # m_from m \<and> m_data r = m_data m"
proof -
  define m' where "m' = pop_to (add_origin ep plaintext (as_received m))"
  obtain k where n: "n = Suc k" using assms(10) by (cases n) auto
  have m': "m_to m' = x # y # zs" "m_from m' = m_from m" "m_data m' = m_data m"
    using assms(4) by (simp_all add: m'_def pop_to_def add_origin_def as_received_def Let_def)
  have s: "strip_own po m' = m'" using m'(1) assms(7) by (simp add: strip_own_def)
  obtain w1 po1 where w: "send_outside (mp_id o1) po (push_from (po_address po) m') (mp_world o1) = Ok (True, w1)"
      "pw_offices w1 (mp_id o1) = Some po1" "po_out po1 = Some (q\<lparr>q_items := q_items q @ [push_from (po_address po) m']\<rparr>)"
    using send_outside_master [OF assms(5, 9)] by blast
  have "po_send n {} (mp_id o1) m' (mp_world o1) = Ok (True, w1)"
    unfolding n using w(1) m'(1) assms(6, 8) by (subst po_send_step [OF assms(5)]) (simp_all add: s del: bindO_Ok_iff)
  then have i: "in_message n L S B ep (encrypt_plaintext (compress S (encode_message L m))) o1 =
      Ok (count_outside (\<lambda>s. s\<lparr>in_pop_count := in_pop_count s + 1\<rparr>) (o1\<lparr>mp_world := w1\<rparr>))"
    using in_message_plaintext [OF assms(2, 1, 3), of n B ep o1] assms(4) by (simp add: m'_def del: bindO_Ok_iff)
  obtain po2 where "pw_offices (mp_world (count_outside (\<lambda>s. s\<lparr>in_pop_count := in_pop_count s + 1\<rparr>) (o1\<lparr>mp_world := w1\<rparr>))) (mp_id o1) = Some po2"
      "po_out po2 = po_out po1"
    using count_outside_out [of "o1\<lparr>mp_world := w1\<rparr>" po1] w(2) by fastforce
  then show ?thesis using i w(3) m'
    by (intro exI [of _ "count_outside (\<lambda>s. s\<lparr>in_pop_count := in_pop_count s + 1\<rparr>) (o1\<lparr>mp_world := w1\<rparr>)"] exI [of _ po2]
        exI [of _ "push_from (po_address po) m'"]) (simp add: push_from_def)
qed

theorem remote_message_relayed_witness:
  "\<exists>o2 po2 r. in_message 1 decimal_lib model_snappy model_botan sample_ep
       (encrypt_plaintext (compress model_snappy (encode_message decimal_lib (sample_mail [''me'', ''udp://q:2'', ''x''])))) (sample_master 1 2) = Ok o2 \<and>
     pw_offices (mp_world o2) 0 = Some po2 \<and> po_out po2 = Some (queue_new\<lparr>q_items := [r]\<rparr>) \<and>
     m_to r = [''udp://q:2'', ''x''] \<and> m_from r = [''udp://h:1'', ''u''] \<and> m_data r = ''data''"
  using remote_message_relayed [OF dec.lexical_cast_axioms ms.snappy_laws_axioms wf_sample_mail(2), of "''me''" "''udp://q:2''" "''x''" "[]"
      "sample_master 1 2" "(master_office ''h'' 1)\<lparr>po_boxes := [(''chat'', 5)], po_offices := [(''app'', 1)]\<rparr>" queue_new 1 model_botan sample_ep]
  by (simp add: sample_mail_def metadata_default_def sample_master_def master_office_def post_office_new_def queue_new_def
      sample_address)

text \<open>
  A remote peer can stop a node.  When a message arrives, even in the clear, with four addresses of which the second is a child office that does not
  know the third, the child hands it back to the master, which waits for the child with \<^verbatim>\<open>_post_m\<close> locked: the thread locks its own
  mutex again.
\<close>

theorem remote_message_relocks:
  assumes "lexical_cast L" "snappy_laws S" "wf_message L m" "m_to m = me # c # x # y # zs"
    "pw_offices (mp_world o1) (mp_id o1) = Some po" "c \<noteq> po_address po" "x \<noteq> po_address po" "map_of (po_offices po) c = Some k"
    "pw_offices (mp_world o1) k = Some co" "k \<noteq> mp_id o1" "po_parent co = Some (mp_id o1)" "x \<noteq> po_address co" "map_of (po_offices co) x = None" "3 \<le> n"
  shows "in_message n L S B ep (encrypt_plaintext (compress S (encode_message L m))) o1 = Undef"
proof -
  obtain j where "n = 3 + j" using assms(14) le_Suc_ex by blast
  then have n: "n = Suc (Suc (Suc j))" by simp
  have to: "m_to (pop_to (add_origin ep plaintext (as_received m))) = c # x # y # zs" using assms(4) by simp
  have "po_send n {} (mp_id o1) (pop_to (add_origin ep plaintext (as_received m))) (mp_world o1) = Undef"
    unfolding n by (rule po_send_relock [OF assms(5, 6, 8, 9, 11, 12, 13, 7) to assms(10)])
  then show ?thesis
    using in_message_plaintext [OF assms(2, 1, 3), of n B ep o1] assms(4) by simp
qed

theorem remote_message_relocks_witness:
  "in_message 3 decimal_lib model_snappy model_botan sample_ep
     (encrypt_plaintext (compress model_snappy (encode_message decimal_lib (sample_mail [''me'', ''app'', ''x'', ''y''])))) (sample_master 1 2) = Undef"
  by (rule remote_message_relocks [OF dec.lexical_cast_axioms ms.snappy_laws_axioms wf_sample_mail(3), of "''me''" "''app''" "''x''" "''y''" "[]" _
      "(master_office ''h'' 1)\<lparr>po_boxes := [(''chat'', 5)], po_offices := [(''app'', 1)]\<rparr>" 1 "(post_office_new ''app'')\<lparr>po_parent := Some 0\<rparr>"])
    (simp_all add: sample_mail_def metadata_default_def sample_master_def master_office_def post_office_new_def
      sample_address)

end
