(* ===== verification/Firelocator.thy ===== *)
theory Firelocator
  imports Master_Post Messages Fire_Monad
begin

text \<open>
  The greeter, \<^verbatim>\<open>src/src/firelocator/firelocator.cpp\<close>: users register the endpoints they can be reached at, and two users that look for each other are told each
  other's.  One turn of the main loop handles one received message; the command line and the key file are left out.
\<close>

section \<open>State\<close>

record gl_user =
  gu_id :: string
  gu_local :: greet_endpoint
  gu_ext :: greet_endpoint
  gu_response :: string
  gu_tcp :: endpoint
  gu_udp :: endpoint

definition no_endpoint :: endpoint where
  "no_endpoint = \<lparr>ep_protocol = [], ep_address = [], ep_port = 0\<rparr>"

record ('r, 'k) locator =
  lo_con :: connection_manager
  lo_sec :: "'k encrypted_channels"
  lo_rng :: "'r option"
  lo_users :: "(string \<times> gl_user) list"

record ('r, 'k) locator_env =
  le_net :: net_env
  le_L :: cxx_lib
  le_B :: "('r, 'k) botan"
  le_S :: snappy_lib
  le_key :: "'k private_key"

type_synonym ('r, 'k, 'a) lo_action = "(('r, 'k) locator, 'a) action"

section \<open>Registration\<close>

definition gl_update_address :: "greet_endpoint \<Rightarrow> greet_endpoint \<Rightarrow> endpoint \<Rightarrow> bool \<Rightarrow> gl_user \<Rightarrow> gl_user" where
  "gl_update_address loc ext ep is_udp i =
     (let i1 = (if gu_local i \<noteq> loc then i\<lparr>gu_local := loc\<rparr> else i);
          i2 = (if gu_ext i1 \<noteq> ext then (if is_udp then i1\<lparr>gu_ext := ext\<rparr> else if ep_protocol (gu_udp i1) = [] then i1\<lparr>gu_ext := ext\<rparr> else i1) else i1)
      in if is_udp then (if gu_udp i2 \<noteq> ep then i2\<lparr>gu_udp := ep\<rparr> else i2)
         else (if gu_tcp i2 \<noteq> ep then i2\<lparr>gu_tcp := ep\<rparr> else i2))"

definition lo_create_channel :: "('r, 'k) locator_env \<Rightarrow> string \<Rightarrow> string \<Rightarrow> ('r, 'k, unit) lo_action" where
  "lo_create_channel E a key =
     bindA (liftA (public_key_of_string (le_B E) key)) (\<lambda>k.
     partA (\<lambda>s. (lo_sec s, lo_rng s)) (\<lambda>(c, g) s. s\<lparr>lo_sec := c, lo_rng := g\<rparr>)
       (\<lambda>(c, g). bindO (create_channel (le_B E) c a k g) (\<lambda>p. Ok ((), p))))"

definition registered_as :: "endpoint \<Rightarrow> greet_register \<Rightarrow> gl_user option \<Rightarrow> gl_user" where
  "registered_as ep r old =
     (let ext = \<lparr>ge_ip = ep_address ep, ge_port = ep_port ep\<rparr>; is_udp = (ep_protocol ep = UDP) in
      case old of
        Some i \<Rightarrow> gl_update_address (gr_local r) ext ep is_udp i
      | None \<Rightarrow> \<lparr>gu_id = gr_id r, gu_local = gr_local r, gu_ext = ext, gu_response = gr_response r,
          gu_tcp = (if is_udp then no_endpoint else ep), gu_udp = (if is_udp then ep else no_endpoint)\<rparr>)"

definition register_user :: "('r, 'k) locator_env \<Rightarrow> endpoint \<Rightarrow> greet_register \<Rightarrow> ('r, 'k, unit) lo_action" where
  "register_user E ep r =
     (if gr_id r = [] then retA ()
      else thenA (modA (\<lambda>s. s\<lparr>lo_users := omap_put (gr_id r) (registered_as ep r (map_of (lo_users s) (gr_id r))) (lo_users s)\<rparr>))
        (lo_create_channel E (make_address_str ep) (gr_pub_key r)))"

section \<open>Responses\<close>

definition lo_send :: "('r, 'k) locator_env \<Rightarrow> string \<Rightarrow> message \<Rightarrow> ('r, 'k, unit) lo_action" where
  "lo_send E address m =
     bindA (getA (\<lambda>s. channels_encrypt (le_L E) (le_B E) (lo_sec s) address (compress (le_S E) (encode_message (le_L E) m)) (lo_rng s))) (\<lambda>r.
     bindA (liftA r) (\<lambda>(data, g).
     thenA (modA (\<lambda>s. s\<lparr>lo_rng := g\<rparr>))
     (partA lo_con (\<lambda>c s. s\<lparr>lo_con := c\<rparr>) (\<lambda>c. bindO (cm_send (le_net E) address data True c) (\<lambda>(_, c1). Ok ((), c1))))))"

definition response_to :: "gl_user \<Rightarrow> gl_user \<Rightarrow> message" where
  "response_to u i =
     (let m = greet_find_response_message \<lparr>fr_found = True, fr_id = gu_id i, fr_local = gu_local i, fr_ext = gu_ext i\<rparr>
      in m\<lparr>m_meta := (m_meta m)\<lparr>mt_to := [make_address_str (gu_tcp u), gu_response u]\<rparr>\<rparr>)"

text \<open>\<open>send_response E i u\<close> tells \<open>u\<close> about \<open>i\<close>.\<close>

definition send_response :: "('r, 'k) locator_env \<Rightarrow> gl_user \<Rightarrow> gl_user \<Rightarrow> ('r, 'k, unit) lo_action" where
  "send_response E i u =
     thenA (requireA (ep_protocol (gu_tcp u) \<noteq> [])) (lo_send E (make_address_str (gu_tcp u)) (response_to u i))"

definition is_disconnected_and_cleanup :: "string \<Rightarrow> ('r, 'k, bool) lo_action" where
  "is_disconnected_and_cleanup addr =
     bindA (getA (\<lambda>s. cm_is_disconnected addr (lo_con s))) (\<lambda>b.
       if b then thenA (modA (\<lambda>s. s\<lparr>lo_sec := remove_channel addr (lo_sec s)\<rparr>)) (retA True) else retA False)"

definition find_user :: "('r, 'k) locator_env \<Rightarrow> greet_find_request \<Rightarrow> ('r, 'k, unit) lo_action" where
  "find_user E r =
     bindA (getA lo_users) (\<lambda>users.
       case map_of users (fq_from_id r) of
         None \<Rightarrow> retA ()
       | Some f \<Rightarrow> if ep_protocol (gu_tcp f) = [] then retA ()
         else (case map_of users (fq_search_id r) of
             None \<Rightarrow> retA ()
           | Some i \<Rightarrow> if ep_protocol (gu_tcp i) = [] then retA ()
             else bindA (is_disconnected_and_cleanup (make_address_str (gu_tcp f))) (\<lambda>b1. if b1 then retA ()
               else bindA (is_disconnected_and_cleanup (make_address_str (gu_tcp i))) (\<lambda>b2. if b2 then retA ()
               else thenA (send_response E i f) (send_response E f i)))))"

definition send_pub_key :: "('r, 'k) locator_env \<Rightarrow> endpoint \<Rightarrow> string \<Rightarrow> ('r, 'k, unit) lo_action" where
  "send_pub_key E ep response_address =
     (let m = greet_key_response_message (pv_public (le_key E)); a = make_address_str ep
      in lo_send E a (m\<lparr>m_meta := (m_meta m)\<lparr>mt_to := [a, response_address]\<rparr>\<rparr>))"

section \<open>The main loop\<close>

text \<open>The encryption type is unset for data of less than two bytes; that counts as not asymmetric.\<close>

definition locator_message :: "('r, 'k) locator_env \<Rightarrow> endpoint \<Rightarrow> bytes \<Rightarrow> ('r, 'k, unit) lo_action" where
  "locator_message E ep data =
     bindA (getA (\<lambda>s. channels_decrypt (le_L E) (le_B E) (lo_sec s) (make_address_str ep) data (lo_rng s))) (\<lambda>r.
     bindA (liftA r) (\<lambda>(plain, et).
     bindA (liftA (decode_message (le_L E) (uncompress (le_S E) plain))) (\<lambda>m.
       let t = mt_type (m_meta m) in
       if t = GREET_REGISTER then
         (if et \<noteq> Some EAsymmetric then retA () else bindA (liftA (greet_register_of m)) (register_user E ep))
       else if t = GREET_FIND_REQUEST then
         (if et \<noteq> Some EAsymmetric then retA () else bindA (liftA (greet_find_request_of m)) (find_user E))
       else if t = GREET_KEY_REQUEST then bindA (liftA (greet_key_request_of m)) (send_pub_key E ep)
       else retA ())))"

definition locator_turn :: "('r, 'k) locator_env \<Rightarrow> ('r, 'k, unit) lo_action" where
  "locator_turn E =
     catchA (bindA (partA lo_con (\<lambda>c s. s\<lparr>lo_con := c\<rparr>) cm_receive) (\<lambda>r. case r of None \<Rightarrow> retA () | Some (ep, data) \<Rightarrow> locator_message E ep data))"

section \<open>What the greeter knows\<close>

lemma gl_update_address_udp: "gl_update_address loc ext ep True i = i\<lparr>gu_local := loc, gu_ext := ext, gu_udp := ep\<rparr>"
  by (cases i) (simp add: gl_update_address_def Let_def)

lemma gl_update_address_tcp:
  "gl_update_address loc ext ep False i = i\<lparr>gu_local := loc, gu_ext := (if ep_protocol (gu_udp i) = [] then ext else gu_ext i), gu_tcp := ep\<rparr>"
  by (cases i) (simp add: gl_update_address_def Let_def)

text \<open>
  A user registers over both protocols, in either order, and the greeter ends up with the same record: the endpoint the outside world sees over UDP, which is
  the one peers are told, and both endpoints it talks to the user on.
\<close>

theorem registration_order:
  assumes "ep_protocol t = TCP" "ep_protocol u = UDP"
  shows "registered_as u r (Some (registered_as t r None)) = registered_as t r (Some (registered_as u r None)) \<and>
    gu_ext (registered_as u r (Some (registered_as t r None))) = \<lparr>ge_ip = ep_address u, ge_port = ep_port u\<rparr> \<and>
    gu_tcp (registered_as u r (Some (registered_as t r None))) = t \<and> gu_udp (registered_as u r (Some (registered_as t r None))) = u"
  using assms by (simp add: registered_as_def gl_update_address_udp gl_update_address_tcp no_endpoint_def Let_def UDP_def TCP_def)

definition sample_point :: "string \<Rightarrow> string \<Rightarrow> u16 \<Rightarrow> endpoint" where
  "sample_point p h n = \<lparr>ep_protocol = p, ep_address = h, ep_port = n\<rparr>"

definition sample_registration :: "string \<Rightarrow> string \<Rightarrow> greet_register" where
  "sample_registration i key = \<lparr>gr_id = i, gr_local = \<lparr>ge_ip = ''10.0.0.2'', ge_port = 6\<rparr>, gr_pub_key = key, gr_response = ''us''\<rparr>"

theorem registration_order_witness:
  "let t = sample_point ''tcp'' ''9.9.9.9'' 4000; u = sample_point ''udp'' ''9.9.9.9'' 5000; r = sample_registration ''ann'' ''k''
   in registered_as u r (Some (registered_as t r None)) = registered_as t r (Some (registered_as u r None)) \<and>
    gu_ext (registered_as u r (Some (registered_as t r None))) = \<lparr>ge_ip = ep_address u, ge_port = ep_port u\<rparr> \<and>
    gu_tcp (registered_as u r (Some (registered_as t r None))) = t \<and> gu_udp (registered_as u r (Some (registered_as t r None))) = u"
  unfolding Let_def by (rule registration_order) (simp_all add: sample_point_def TCP_def UDP_def)

section \<open>Rendezvous\<close>

definition tcp_sends :: "('r, 'k) locator \<Rightarrow> (string \<times> bytes) list" where
  "tcp_sends s = q_items (cm_tcp_send_queue (lo_con s))"

text \<open>What a client reads of the data the greeter sent it.\<close>

definition client_reads :: "('r, 'k) locator_env \<Rightarrow> 'k encrypted_channels \<Rightarrow> string \<Rightarrow> 'r option \<Rightarrow> bytes \<Rightarrow> greet_find_response outcome" where
  "client_reads E ec i g data =
     bindO (channels_decrypt (le_L E) (le_B E) ec i data g) (\<lambda>(p, _). bindO (decode_message (le_L E) (uncompress (le_S E) p)) greet_find_response_of)"

lemma tcp_address_type: "ep_protocol ep = TCP \<Longrightarrow> determine_type (make_address_str ep) = tcp"
  by (simp add: make_address_str_def determine_type_def TCP_def)

lemma response_content:
  "greet_find_response_of (as_received (response_to u i)) = Ok \<lparr>fr_found = True, fr_id = gu_id i, fr_local = gu_local i, fr_ext = gu_ext i\<rparr>"
  by (simp add: response_to_def as_received_def greet_find_response_of_def greet_find_response_message_def message_conv Let_def)

lemma send_response_reads:
  assumes "botan_laws (le_L E) (le_B E) pair" "snappy_laws (le_S E)" "ep_protocol (gu_tcp u) = TCP"
    "ends_agree pair (lo_sec s) (make_address_str (gu_tcp u)) ec j" "wf_message (le_L E) (response_to u i)" "g \<noteq> None"
  shows "\<exists>d s1. send_response E i u s = (Ok (), s1) \<and> tcp_sends s1 = tcp_sends s @ [(make_address_str (gu_tcp u), d)] \<and> lo_sec s1 = lo_sec s \<and> lo_users s1 = lo_users s \<and>
    client_reads E ec j g d = Ok \<lparr>fr_found = True, fr_id = gu_id i, fr_local = gu_local i, fr_ext = gu_ext i\<rparr>"
proof -
  let ?m = "response_to u i" and ?a = "make_address_str (gu_tcp u)"
  let ?c = "compress (le_S E) (encode_message (le_L E) ?m)"
  have L: "lexical_cast (le_L E)" using assms(1) by (simp add: botan_laws_def)
  have ne: "?c \<noteq> []" using snappy_laws.compress_nonempty [OF assms(2)] by (simp add: compress_def to_bytes_def)
  obtain d g1 where d: "channels_encrypt (le_L E) (le_B E) (lo_sec s) ?a ?c (lo_rng s) = Ok (d, g1)"
      "channels_decrypt (le_L E) (le_B E) ec j d g = Ok (?c, Some (chosen_type (lo_sec s) ?a))"
    using botan_laws.channel_roundtrip [OF assms(1, 4) ne assms(6)] by blast
  have "uncompress (le_S E) ?c = encode_message (le_L E) ?m"
    using snappy_laws.uncompress_compress [OF assms(2)] by (simp add: uncompress_def compress_def to_bytes_def)
  then have "client_reads E ec j g d = Ok \<lparr>fr_found = True, fr_id = gu_id i, fr_local = gu_local i, fr_ext = gu_ext i\<rparr>"
    using d(2) lexical_cast.message_roundtrip [OF L assms(5)] response_content [of u i] by (simp add: client_reads_def del: bindO_Ok_iff)
  moreover define s1 where "s1 = s\<lparr>lo_rng := g1, lo_con := (lo_con s)\<lparr>cm_tcp_send_queue := (cm_tcp_send_queue (lo_con s))\<lparr>q_items := tcp_sends s @ [(?a, d)]\<rparr>\<rparr>\<rparr>"
  have "send_response E i u s = (Ok (), s1)"
    using d(1) assms(3) tcp_address_type [OF assms(3)]
    by (simp add: send_response_def lo_send_def TCP_def partA_def cm_send_def queue_push_def contract_def Let_def s1_def tcp_sends_def del: bindO_Ok_iff)
  moreover have "tcp_sends s1 = tcp_sends s @ [(?a, d)]" "lo_sec s1 = lo_sec s" "lo_users s1 = lo_users s" by (simp_all add: s1_def tcp_sends_def)
  ultimately show ?thesis by blast
qed

text \<open>
  C10. The greeter brings two users together: when a registered user asks for another and both are connected, each of them, and nobody else, is sent exactly
  one message, which it can read, and which holds the other's id, local and external endpoint.
\<close>

theorem rendezvous:
  assumes "botan_laws (le_L E) (le_B E) pair" "snappy_laws (le_S E)"
    "map_of (lo_users s) (fq_from_id r) = Some f" "map_of (lo_users s) (fq_search_id r) = Some i" "ep_protocol (gu_tcp f) = TCP" "ep_protocol (gu_tcp i) = TCP"
    "\<not> cm_is_disconnected (make_address_str (gu_tcp f)) (lo_con s)" "\<not> cm_is_disconnected (make_address_str (gu_tcp i)) (lo_con s)"
    "ends_agree pair (lo_sec s) (make_address_str (gu_tcp f)) ecF jF" "ends_agree pair (lo_sec s) (make_address_str (gu_tcp i)) ecI jI"
    "wf_message (le_L E) (response_to f i)" "wf_message (le_L E) (response_to i f)" "gF \<noteq> None" "gI \<noteq> None"
  shows "\<exists>s1 d1 d2. find_user E r s = (Ok (), s1) \<and>
    tcp_sends s1 = tcp_sends s @ [(make_address_str (gu_tcp f), d1), (make_address_str (gu_tcp i), d2)] \<and>
    client_reads E ecF jF gF d1 = Ok \<lparr>fr_found = True, fr_id = gu_id i, fr_local = gu_local i, fr_ext = gu_ext i\<rparr> \<and>
    client_reads E ecI jI gI d2 = Ok \<lparr>fr_found = True, fr_id = gu_id f, fr_local = gu_local f, fr_ext = gu_ext f\<rparr>"
proof -
  obtain d1 s1 where s1: "send_response E i f s = (Ok (), s1)" "tcp_sends s1 = tcp_sends s @ [(make_address_str (gu_tcp f), d1)]" "lo_sec s1 = lo_sec s"
      "client_reads E ecF jF gF d1 = Ok \<lparr>fr_found = True, fr_id = gu_id i, fr_local = gu_local i, fr_ext = gu_ext i\<rparr>"
    using send_response_reads [OF assms(1, 2, 5, 9, 11, 13)] by blast
  obtain d2 s2 where s2: "send_response E f i s1 = (Ok (), s2)" "tcp_sends s2 = tcp_sends s1 @ [(make_address_str (gu_tcp i), d2)]"
      "client_reads E ecI jI gI d2 = Ok \<lparr>fr_found = True, fr_id = gu_id f, fr_local = gu_local f, fr_ext = gu_ext f\<rparr>"
    using send_response_reads [OF assms(1, 2, 6) _ assms(12, 14), of s1 ecI jI] assms(10) s1(3) by auto
  have "find_user E r s = bindA (send_response E i f) (\<lambda>_. send_response E f i) s"
    using assms(3-8) by (simp add: find_user_def is_disconnected_and_cleanup_def TCP_def thenA_def)
  then show ?thesis using s1 s2 by (simp add: bindA_Ok)
qed

text \<open>Two connected users with a channel each.\<close>

definition greeted :: "string \<Rightarrow> string \<Rightarrow> gl_user" where
  "greeted i h = registered_as (sample_point ''tcp'' h 1) (sample_registration i ''k'') None"

definition sample_locator :: "(nat, nat) locator" where
  "sample_locator =
     \<lparr>lo_con = (blank_manager False 3)\<lparr>cm_in := Some ((tcp_queue_blank (udp_params 7070))\<lparr>tq_ins := [tcp_connection_new 0 True True, tcp_connection_new 1 True True]\<rparr>),
        cm_in_connections := [(''tcp://a:1'', 0), (''tcp://b:1'', 1)]\<rparr>,
      lo_sec = (sample_end 9 9 4)\<lparr>ec_s := [(''tcp://a:1'', sample_channel 1 5), (''tcp://b:1'', sample_channel 2 6)]\<rparr>, lo_rng = Some 0,
      lo_users = [(''ann'', greeted ''ann'' ''a''), (''bob'', greeted ''bob'' ''b'')]\<rparr>"

definition sample_le :: "(nat, nat) locator_env" where
  "sample_le = \<lparr>le_net = plain_env, le_L = decimal_lib, le_B = model_botan, le_S = model_snappy,
     le_key = \<lparr>pv_k = 9, pv_encrypted = ''p'', pv_public = ''k''\<rparr>\<rparr>"

lemma greeted_address: "make_address_str (gu_tcp (greeted i h)) = ''tcp://'' @ h @ '':1''"
proof -
  have "show_nat 1 = ''1''" by code_simp
  then show ?thesis by (simp add: greeted_def sample_point_def registered_as_def Let_def UDP_def make_address_str_def del: show_nat.simps)
qed

lemma greeted_tcp: "ep_protocol (gu_tcp (greeted i h)) = TCP"
  by (simp add: greeted_def sample_point_def registered_as_def Let_def UDP_def TCP_def)

lemma show_nat_short: "n < 10 \<Longrightarrow> show_nat n = [digit n]" "10 \<le> n \<Longrightarrow> n < 100 \<Longrightarrow> show_nat n = [digit (n div 10), digit (n mod 10)]"
  by (simp_all add: show_nat.simps)

lemma wf_sample_response:
  "wf_message decimal_lib (response_to (greeted ''ann'' ''a'') (greeted ''bob'' ''b''))"
  "wf_message decimal_lib (response_to (greeted ''bob'' ''b'') (greeted ''ann'' ''a''))"
  by (simp_all add: wf_message_def response_to_def Let_def greet_find_response_message_def greeted_address extra_message_def message_default_def
      metadata_default_def GREET_FIND_RESPONSE_def address_array_def encode_array_def encode_dict_def encode_b_def decimal_lib_def show_nat_short enc_def show_sint_def
      greeted_def sample_point_def sample_registration_def registered_as_def UDP_def port_value_def value_of_int_def value_of_string_def to_bytes_def
      make_address_str_def del: show_nat.simps)

theorem rendezvous_witness:
  "\<exists>s1 d1 d2. find_user sample_le \<lparr>fq_from_id = ''ann'', fq_search_id = ''bob''\<rparr> sample_locator = (Ok (), s1) \<and>
    tcp_sends s1 = tcp_sends sample_locator @ [(''tcp://a:1'', d1), (''tcp://b:1'', d2)] \<and>
    client_reads sample_le (sample_end 1 9 7) ''g'' (Some 0) d1 = Ok \<lparr>fr_found = True, fr_id = gu_id (greeted ''bob'' ''b''), fr_local = gu_local (greeted ''bob'' ''b''), fr_ext = gu_ext (greeted ''bob'' ''b'')\<rparr> \<and>
    client_reads sample_le (sample_end 2 9 8) ''g'' (Some 0) d2 = Ok \<lparr>fr_found = True, fr_id = gu_id (greeted ''ann'' ''a''), fr_local = gu_local (greeted ''ann'' ''a''), fr_ext = gu_ext (greeted ''ann'' ''a'')\<rparr>"
proof -
  let ?a = "greeted ''ann'' ''a''" and ?b = "greeted ''bob'' ''b''"
  have u: "map_of (lo_users sample_locator) ''ann'' = Some ?a" "map_of (lo_users sample_locator) ''bob'' = Some ?b" by (simp_all add: sample_locator_def)
  have c: "\<not> cm_is_disconnected ''tcp://a:1'' (lo_con sample_locator)" "\<not> cm_is_disconnected ''tcp://b:1'' (lo_con sample_locator)"
    by (simp_all add: sample_locator_def cm_is_disconnected_def in_disconnected_def tcp_connection_new_def tcp_is_disconnected_def blank_manager_def tcp_queue_blank_def)
  have e: "ends_agree (=) (lo_sec sample_locator) ''tcp://a:1'' (sample_end 1 9 7) ''g''" "ends_agree (=) (lo_sec sample_locator) ''tcp://b:1'' (sample_end 2 9 8) ''g''"
    by (simp_all add: ends_agree_def sample_locator_def sample_end_def sample_channel_def)
  show ?thesis
    using rendezvous [of sample_le "(=)" sample_locator "\<lparr>fq_from_id = ''ann'', fq_search_id = ''bob''\<rparr>" ?a ?b "sample_end 1 9 7" "''g''" "sample_end 2 9 8" "''g''" "Some 0" "Some 0"]
      u c e wf_sample_response mb.botan_laws_axioms ms.snappy_laws_axioms greeted_tcp
    by (simp add: greeted_address sample_le_def del: bindO_Ok_iff)
qed

text \<open>
  Anyone who has the greeter's public key can end it: a registration whose public key is empty fails the check of the key's constructor.
\<close>

theorem empty_key_stops_greeter:
  assumes "gr_id r \<noteq> []" "gr_pub_key r = []"
  shows "fst (register_user E ep r s) = Exit"
  using assms by (simp add: register_user_def lo_create_channel_def public_key_of_string_def contract_def)

theorem empty_key_stops_greeter_witness: "\<forall>ep s. fst (register_user sample_le ep (sample_registration ''ann'' []) s) = Exit"
  by (intro allI empty_key_stops_greeter) (simp_all add: sample_registration_def)

end
