(* ===== verification/Spec2Isabelle.thy ===== *)
theory Spec2Isabelle
  imports Crstring User_Service Conversation_Service App_Service Backend_Client Editor_Net App_Area Firelocator
begin

text \<open>
  A model of firestr (\<^verbatim>\<open>src/src/\<close>), a peer-to-peer messenger: users hold conversations, and small applications run inside them, without a server;
  a greeter only helps two users to find each other's addresses.

  \<^bold>\<open>The program and how its parts interact.\<close>  From the wire upwards:
  \<^item> UDP connections split messages into chunks, keep a window of them in flight, resend and reassemble; TCP connections frame messages in a byte stream.  The
    connection manager keeps a pool of TCP queues and one UDP queue and polls them all for the next message.
  \<^item> Encrypted channels, one per address, protect a message with nothing, with the receiver's public key, or with a shared secret after a key exchange.
  \<^item> Messages have a type, a path of addresses to go and a path they came, a dictionary and data.  Post offices form a tree and move messages between the
    mailboxes at its leaves and the outside world; the master post office at the root compresses, encrypts and sends, and receives, decrypts and delivers.
  \<^item> Services are threads that take messages from a mailbox and call the handler of the type.  The user service knows the contacts and whether each is
    connected; the conversation service knows the conversations and who is in them.
  \<^item> Apps run in a conversation, each with a mailbox of its own: the chat, the editor of apps, and apps written in Lua, which the app service keeps on disk and
    which travel as messages.  The script of an app works on the api, which tells the interface what to show and others what happened.
  \<^item> The greeter is a program of its own on the same network layer.
  \<^item> Below all of them: a byte format for values (mencode), queues, version vectors, differences and replicated text, and a key-value store for applications.

  \<^bold>\<open>Conventions.\<close>  A call ends with an \<open>outcome\<close> (\<open>Fire_Prelude\<close>): a result, an exception, a failed contract check, which exits the program, or undefined
  behaviour.  A class is a record, a method a function on it; code that goes through many calls on one state is written with the actions of
  \<open>Fire_Monad\<close>, which also has the rules for invariants (\<open>keeps\<close>), returning (\<open>ends\<close>) and exceptions (\<open>survives\<close>).  Unsigned integers have their width
  wherever the code can overflow them.  A container is a list or an association list in the order of its iteration.  A method that locks one mutex for its
  whole body is one step; a handler, a turn of a thread and a call of the user interface are one step each, so interleavings inside one of them are not
  modelled, except where a theorem about an error needs one (\<open>receive_between_pushes_exits\<close>).

  \<^bold>\<open>Theories and what they show.\<close>
  \<^item> \<open>Fire_Prelude\<close>, \<open>Lexical\<close>, \<open>Fire_Monad\<close>: outcomes, association lists and ordered maps, \<^verbatim>\<open>boost::lexical_cast\<close> as the locale \<open>lexical_cast\<close>, actions.
  \<^item> \<open>Fire_Queue\<close> (\<^verbatim>\<open>util/queue.hpp\<close>) and \<open>Mailbox\<close> (\<^verbatim>\<open>util/mailbox.hpp\<close>, \<^verbatim>\<open>message/mailbox.cpp\<close>): every interleaving of operations delivers in order, each item once; both boxes
    of a mailbox are interpretations of the same locale \<open>fifo\<close>.
  \<^item> \<open>Mencode\<close> (\<^verbatim>\<open>util/mencode.cpp\<close>): encoder and stream decoder; the decoder always ends, and decoding inverts encoding.
  \<^item> \<open>Dtl\<close>, \<open>Diff3\<close> (\<^verbatim>\<open>dtl/Diff.hpp\<close>, \<^verbatim>\<open>dtl/Diff3.hpp\<close>): the difference of two sequences is found, is right, and is a shortest one below the restart limit; the three-way
    merge, over the locale \<open>diff_script\<close> that the difference interprets, ends, is symmetric and respects an unchanged side.
  \<^item> \<open>Vclock\<close>, \<open>Crstring\<close> (\<^verbatim>\<open>util/vclock.hpp\<close>, \<^verbatim>\<open>util/crstring.cpp\<close>): version vectors converge and compare as the component-wise order; what merging does to two replicas.
  \<^item> \<open>Udp_Wire\<close>, \<open>Udp_Connection\<close> (\<^verbatim>\<open>network/udp_queue.cpp\<close>): wire format, splitting and reassembly in any order and with duplicates; the window and safety invariants of
    the connection over every event of the environment \<open>env_ok\<close>, and what happens outside it; delivery of a message from one end to the other, once for each time it is complete.
  \<^item> \<open>Address\<close>, \<open>Tcp_Queue\<close>, \<open>Connection_Manager\<close> (\<^verbatim>\<open>network/\<close>): address round trips, framing of a stream cut anywhere with the messages that the reader swallows, the pool, the
    polling receive and the race between its reader and its writer.
  \<^item> \<open>Security\<close> (\<^verbatim>\<open>security/\<close>): keys and channels; what one end encrypts the other decrypts, and the exchange of public values leads to a shared secret.
  \<^item> \<open>Compression\<close>, \<open>Message\<close>, \<open>Messages\<close>, \<open>Post_Office\<close>, \<open>Master_Post\<close> (\<^verbatim>\<open>util/compress.cpp\<close>, \<^verbatim>\<open>message/\<close>, \<^verbatim>\<open>messages/\<close>, \<^verbatim>\<open>util/serialize.hpp\<close>): encodings and their round
    trips, routing that delivers to one place and ends, replies that find their sender, and a message end to end between two nodes.
  \<^item> \<open>User\<close>, \<open>Service\<close>, \<open>User_Service\<close> (\<^verbatim>\<open>user/\<close>, \<^verbatim>\<open>service/\<close>): the contact list refines a plain list, a saved user is loaded back also over earlier files, events and connection
    states agree in every reachable state, silent contacts are dropped by whole turns of the ping thread.
  \<^item> \<open>Conversation\<close>, \<open>Conversation_Service\<close> (\<^verbatim>\<open>conversation/\<close>): who is admitted, consistency of all conversations in every reachable state, with the destructor of a conversation
    that was quit as a step of its own, since others hold it for any time; synchronisation that comes to rest.
  \<^item> \<open>Disk_Store\<close> (\<^verbatim>\<open>util/disk_store.cpp\<close>): the store and its files refine a map from keys to values.
  \<^item> \<open>App\<close>, \<open>App_Service\<close> (\<^verbatim>\<open>gui/app/app.cpp\<close>, \<^verbatim>\<open>app_service.cpp\<close>): apps as messages, on disk and in files; saving and loading, export and import, what the next start finds.
  \<^item> \<open>Lua_Base\<close>, \<open>Lua_Api\<close>, \<open>Lua_Script\<close> (\<^verbatim>\<open>gui/lua/base.cpp\<close>, \<^verbatim>\<open>api.cpp\<close>, \<^verbatim>\<open>widgets.cpp\<close>, \<^verbatim>\<open>audio.cpp\<close>): values between scripts and messages, the operations that a script may call, in
    whatever order and however deeply it does, and the events; references stay consistent, others' input is survived, edits reach the widgets of the others.
  \<^item> \<open>Backend_Client\<close> (\<^verbatim>\<open>gui/lua/backend_client.cpp\<close>, \<^verbatim>\<open>gui/app/script_app.cpp\<close>): what the interface says to an app is what its thread does, and others cannot say it.
  \<^item> \<open>Chat\<close> (\<^verbatim>\<open>gui/app/chat.cpp\<close>, \<^verbatim>\<open>gui/mail_service.cpp\<close>): over all runs of any number of chats a message is shown exactly when it is news, judged by a history of who knows what.
  \<^item> \<open>App_Editor\<close>, \<open>Versions\<close>, \<open>Editor_Net\<close> (\<^verbatim>\<open>gui/app/app_editor.cpp\<close>): typing, saving, receiving and running; when the code runs; over all runs of all editors of an app the last word
    wins everywhere.  \<open>Versions\<close> has the part of this that needs no program.
  \<^item> \<open>App_Area\<close> (\<^verbatim>\<open>gui/app_area.cpp\<close>, \<^verbatim>\<open>gui/conversation.cpp\<close>): apps that are added, sent, received and asked for; in every reachable state they are in order, none is replaced, and an
    app that one user adds arrives at the others.
  \<^item> \<open>Firelocator\<close> (\<^verbatim>\<open>firelocator/firelocator.cpp\<close>): registration in any order, and rendezvous of two users.
  Theorems about errors state what the code does where it exits, loops, mixes data or refuses service on inputs that a peer or the environment can produce.

  \<^bold>\<open>Fuel.\<close>  Loops whose end is not structural take fuel, each with a lemma that it is enough: the decoder the length of the input (\<open>stream_fuel\<close>), the search for a
  chunk to send the length of the working ring, \<^verbatim>\<open>receive\<close> 11 turns for its at most ten states, the post office its tree and path (\<open>send_fuel\<close>), encryption and
  decryption in pieces the length of the data, the difference one round more than the shorter sequence is long and as many restarts as both have elements.

  \<^bold>\<open>Parameters.\<close>  Code that is not part of the repository is an argument: number formatting and the allocation limit (\<open>cxx_lib\<close>), port numbers (\<open>port_lib\<close>), sockets and
  name resolution (\<open>net_env\<close>), Botan (\<open>botan\<close>), snappy (\<open>snappy_lib\<close>), paths, files and directories (\<open>fs_lib\<close>, \<open>files\<close>, \<open>dir_lib\<close>), the idle state and the local
  address (\<open>us_env\<close>), numbers as Lua reads and prints them (\<open>lua_lib\<close>), the Lua interpreter (\<open>script_engine\<close>, which may call any operation of the api), and the answers of the
  interface (\<open>api_env\<close>, \<open>editor_env\<close>).  Their documented laws are locales, each interpreted by a concrete instance, which the witnesses use: of the file system only that
  plain names in a directory are different files, and that no write fails.  Identifiers drawn at random are arguments.  The references of a running app are fewer than
  \<open>2 ^ 32\<close>.

  \<^bold>\<open>Not modelled.\<close>  The Qt user interface (\<^verbatim>\<open>gui/main_win.cpp\<close>, \<^verbatim>\<open>gui/contact_list.cpp\<close>, \<^verbatim>\<open>gui/qtw/\<close> and the rest of \<^verbatim>\<open>gui/\<close>), which draws and forwards calls; the binding of
  names for scripts; the vendored Lua and SLB, and of dtl the printers and unified hunks, which nothing calls; \<^verbatim>\<open>network/stun_gun.cpp\<close> and \<^verbatim>\<open>network/util.cpp\<close>, which talk to
  a STUN server and to the operating system through Qt sockets and system calls; base 64 of identities, a Qt function; the thread that deletes closed apps; wrappers
  of the operating system in \<^verbatim>\<open>util/\<close>; the entry points of the programs.
\<close>

end
